(* ===== verification/RS_Prelude.thy ===== *)
theory RS_Prelude
  imports Main "HOL-Library.Word"
begin

text \<open>
  Shared vocabulary of the development: the machine integers and byte buffers of the C++
  code, little-endian serialisation, and the list and word lemmas every component uses.

  A C++ pointer together with its size is a \<open>buffer\<close>: \<open>None\<close> is the null pointer and
  \<open>Some bs\<close> a block of \<open>length bs\<close> bytes, so a capacity or size argument is the length of
  the block.  A fixed-size array member is a byte list whose length is part of the
  well-formedness predicate of its record.  A function with a status result and an output
  parameter returns a sum: \<open>Inl\<close> is the failing status with the output left untouched,
  \<open>Inr\<close> the output of the successful call (the source's \<open>Ok\<close>).
\<close>

unbundle bit_operations_syntax

type_synonym u8 = "8 word"
type_synonym u16 = "16 word"
type_synonym u32 = "32 word"
type_synonym u64 = "64 word"
type_synonym bytes = "u8 list"
type_synonym buffer = "bytes option"

named_theorems layout_simps \<open>evaluation of buffer writes and reads at known offsets\<close>
named_theorems join_simps \<open>reassembling a block from its fields\<close>
named_theorems codec_defs \<open>definitions of the encoders and decoders\<close>

subsection \<open>Buffers\<close>

text \<open>\<open>put buf off bs\<close>: the bytes \<open>bs\<close> are stored at \<open>buf + off\<close>
  (an assignment \<open>output[i] = x\<close>, a copying loop or a \<open>memcpy\<close>).\<close>

definition put :: "bytes \<Rightarrow> nat \<Rightarrow> bytes \<Rightarrow> bytes" where
  "put buf off bs = take off buf @ bs @ drop (off + length bs) buf"

text \<open>\<open>chunk data off n\<close>: the \<open>n\<close> bytes at \<open>data + off\<close>.\<close>

definition chunk :: "bytes \<Rightarrow> nat \<Rightarrow> nat \<Rightarrow> bytes" where
  "chunk data off n = take n (drop off data)"

text \<open>A buffer whose first bytes are already written.\<close>

definition written :: "bytes \<Rightarrow> bytes \<Rightarrow> bytes" where
  "written pre buf = pre @ drop (length pre) buf"

lemma length_put [simp]:
  "off + length bs \<le> length buf \<Longrightarrow> length (put buf off bs) = length buf"
  by (simp add: put_def)

lemma length_chunk [simp]: "off + n \<le> length data \<Longrightarrow> length (chunk data off n) = n"
  by (simp add: chunk_def)

lemma length_written [simp]: "length pre \<le> length buf \<Longrightarrow> length (written pre buf) = length buf"
  by (simp add: written_def)

lemma written_Nil [simp]: "written [] buf = buf"
  by (simp add: written_def)

lemma put_start: "put buf 0 bs = written bs buf"
  by (simp add: put_def written_def)

lemma put_written:
  "off = length pre \<Longrightarrow> put (written pre buf) off bs = written (pre @ bs) buf"
  by (simp add: put_def written_def add.commute)

lemma take_written [simp]: "n = length pre \<Longrightarrow> take n (written pre buf) = pre"
  by (simp add: written_def)

lemma drop_written [simp]: "n = length pre \<Longrightarrow> drop n (written pre buf) = drop n buf"
  by (simp add: written_def)

lemma written_full: "length pre = length buf \<Longrightarrow> written pre buf = pre"
  by (simp add: written_def)

text \<open>Skipping bytes of a block that was cleared first.\<close>

lemma written_zeros:
  "written pre (replicate n 0) = written (pre @ replicate g 0) (replicate n 0)"
  if "length pre + g \<le> n"
proof -
  from that have "n - length pre = g + (n - (length pre + g))" by simp
  then show ?thesis
    by (simp add: written_def flip: replicate_add)
qed

lemma put_zeros:
  assumes "length pre \<le> off" and "off \<le> n"
  shows "put (written pre (replicate n 0)) off bs =
         written (pre @ replicate (off - length pre) 0 @ bs) (replicate n 0)"
  using assms written_zeros [of pre "off - length pre" n]
  by (simp add: put_written)

lemma nth_put:
  assumes "off + length bs \<le> length buf" and "i < length buf"
  shows "put buf off bs ! i =
    (if i < off then buf ! i else if i < off + length bs then bs ! (i - off) else buf ! i)"
  using assms by (auto simp: put_def nth_append)

lemma chunk_append_left [layout_simps]:
  "off + n \<le> length xs \<Longrightarrow> chunk (xs @ ys) off n = chunk xs off n"
  by (simp add: chunk_def)

lemma chunk_append_right [layout_simps]:
  "length xs \<le> off \<Longrightarrow> chunk (xs @ ys) off n = chunk ys (off - length xs) n"
  by (simp add: chunk_def)

lemma chunk_all [layout_simps]: "n = length xs \<Longrightarrow> chunk xs 0 n = xs"
  by (simp add: chunk_def)

lemma chunk_Cons [layout_simps]: "0 < off \<Longrightarrow> chunk (x # xs) off n = chunk xs (off - 1) n"
  by (cases off) (simp_all add: chunk_def)

lemma chunk_prefix [layout_simps]: "n = length xs \<Longrightarrow> chunk (xs @ ys) 0 n = xs"
  by (simp add: chunk_def)

lemma nth_chunk [simp]: "i < n \<Longrightarrow> off + i < length data \<Longrightarrow> chunk data off n ! i = data ! (off + i)"
  by (simp add: chunk_def)

lemma chunk_chunk: "off' + n \<le> m \<Longrightarrow> chunk (chunk data off m) off' n = chunk data (off + off') n"
  by (simp add: chunk_def take_drop add.commute min_def)

lemma chunk_Suc: "off < length data \<Longrightarrow> chunk data off (Suc n) = data ! off # chunk data (Suc off) n"
  by (simp add: chunk_def Cons_nth_drop_Suc [symmetric])

lemma chunk_0 [simp]: "chunk data off 0 = []"
  by (simp add: chunk_def)

lemma chunk_add:
  "chunk data off (m + n) = chunk data off m @ chunk data (off + m) n"
  by (simp add: chunk_def take_add add.commute)

lemma chunk_eq_append:
  "off + n = length data \<Longrightarrow> data = take off data @ chunk data off n"
  by (simp add: chunk_def)

lemma chunk_set: "b \<in> set (chunk data off n) \<Longrightarrow> b \<in> set data"
  by (auto simp: chunk_def dest: in_set_takeD in_set_dropD)

text \<open>Joining adjacent chunks, to show that the fields of a block make up the block.\<close>

lemma chunk_join [join_simps]:
  "off' = off + m \<Longrightarrow> chunk data off m @ chunk data off' n = chunk data off (m + n)"
  "off' = off + m \<Longrightarrow> chunk data off m @ chunk data off' n @ rest = chunk data off (m + n) @ rest"
  by (simp_all add: chunk_add)

lemma chunk_byte [join_simps]:
  "i < length data \<Longrightarrow> data ! i # rest = chunk data i 1 @ rest"
  by (simp add: chunk_Suc)

lemma chunk_whole [join_simps]: "n = length data \<Longrightarrow> chunk data 0 n = data"
  by (simp add: chunk_def)

text \<open>\<open>memset(output, 0, n)\<close>.\<close>

abbreviation zeros :: "nat \<Rightarrow> bytes" where
  "zeros n \<equiv> replicate n 0"

definition allZero :: "bytes \<Rightarrow> bool" where
  "allZero bs \<longleftrightarrow> (\<forall>b \<in> set bs. b = 0)"

lemma allZero_zeros [simp]: "allZero (zeros n)"
  by (simp add: allZero_def)

lemma allZero_iff: "allZero bs \<longleftrightarrow> bs = zeros (length bs)"
  by (induction bs) (auto simp: allZero_def)

lemma allZero_code [code]: "allZero bs = list_all (\<lambda>b. b = 0) bs"
  by (simp add: allZero_def list_all_iff)

lemma allZero_append [simp]: "allZero (xs @ ys) \<longleftrightarrow> allZero xs \<and> allZero ys"
  by (auto simp: allZero_def)

subsection \<open>Little-endian integers\<close>

definition le16 :: "u16 \<Rightarrow> bytes" where
  "le16 v = [ucast v, ucast (drop_bit 8 v)]"

definition le32 :: "u32 \<Rightarrow> bytes" where
  "le32 v = [ucast v, ucast (drop_bit 8 v), ucast (drop_bit 16 v), ucast (drop_bit 24 v)]"

definition le64 :: "u64 \<Rightarrow> bytes" where
  "le64 v = le32 (ucast v) @ le32 (ucast (drop_bit 32 v))"

definition un16 :: "u8 \<Rightarrow> u8 \<Rightarrow> u16" where
  "un16 a b = ucast a OR push_bit 8 (ucast b)"

definition un32 :: "u8 \<Rightarrow> u8 \<Rightarrow> u8 \<Rightarrow> u8 \<Rightarrow> u32" where
  "un32 a b c d = ucast a OR push_bit 8 (ucast b) OR push_bit 16 (ucast c) OR push_bit 24 (ucast d)"

definition un64 :: "u32 \<Rightarrow> u32 \<Rightarrow> u64" where
  "un64 lo hi = ucast lo OR push_bit 32 (ucast hi)"

lemma length_le16 [simp]: "length (le16 v) = 2"
  by (simp add: le16_def)

lemma length_le32 [simp]: "length (le32 v) = 4"
  by (simp add: le32_def)

lemma length_le64 [simp]: "length (le64 v) = 8"
  by (simp add: le64_def)

lemma nth_le16 [layout_simps]:
  "le16 v ! 0 = ucast v" "le16 v ! Suc 0 = ucast (drop_bit 8 v)" "le16 v ! 1 = ucast (drop_bit 8 v)"
  by (simp_all add: le16_def)

lemma nth_le32 [layout_simps]:
  "le32 v ! 0 = ucast v" "le32 v ! Suc 0 = ucast (drop_bit 8 v)"
  "le32 v ! 1 = ucast (drop_bit 8 v)" "le32 v ! 2 = ucast (drop_bit 16 v)"
  "le32 v ! 3 = ucast (drop_bit 24 v)"
  by (simp_all add: le32_def)

lemma un16_le16 [simp]: "un16 (ucast v) (ucast (drop_bit 8 v)) = v"
  by (rule bit_word_eqI) (auto simp: un16_def bit_simps)

lemma un32_le32 [simp]:
  "un32 (ucast v) (ucast (drop_bit 8 v)) (ucast (drop_bit 16 v)) (ucast (drop_bit 24 v)) = v"
proof (rule bit_word_eqI)
  fix n assume "n < LENGTH(32)"
  then consider "n < 8" | "8 \<le> n" "n < 16" | "16 \<le> n" "n < 24" | "24 \<le> n" "n < 32"
    by force
  then show "bit (un32 (ucast v) (ucast (drop_bit 8 v)) (ucast (drop_bit 16 v))
      (ucast (drop_bit 24 v))) n = bit v n"
    by cases (auto simp: un32_def bit_simps)
qed

lemma un64_le64 [simp]: "un64 (ucast v) (ucast (drop_bit 32 v)) = v"
  by (rule bit_word_eqI) (auto simp: un64_def bit_simps)

lemma le16_un16 [simp]: "le16 (un16 a b) = [a, b]"
proof -
  have "ucast (un16 a b) = a" "ucast (drop_bit 8 (un16 a b)) = b"
    by (rule bit_word_eqI; auto simp: un16_def bit_simps dest: bit_imp_le_length)+
  then show ?thesis by (simp add: le16_def)
qed

lemma le32_un32 [simp]: "le32 (un32 a b c d) = [a, b, c, d]"
proof -
  have "ucast (un32 a b c d) = a" "ucast (drop_bit 8 (un32 a b c d)) = b"
    "ucast (drop_bit 16 (un32 a b c d)) = c" "ucast (drop_bit 24 (un32 a b c d)) = d"
    by (rule bit_word_eqI; auto simp: un32_def bit_simps dest: bit_imp_le_length)+
  then show ?thesis by (simp add: le32_def)
qed

lemma le16_inject [simp]: "le16 v = le16 w \<longleftrightarrow> v = w"
proof
  assume "le16 v = le16 w"
  then have "un16 (le16 v ! 0) (le16 v ! 1) = un16 (le16 w ! 0) (le16 w ! 1)" by simp
  then show "v = w" by (simp add: layout_simps)
qed simp

lemma le32_inject [simp]: "le32 v = le32 w \<longleftrightarrow> v = w"
proof
  assume "le32 v = le32 w"
  then have "un32 (le32 v ! 0) (le32 v ! 1) (le32 v ! 2) (le32 v ! 3) =
      un32 (le32 w ! 0) (le32 w ! 1) (le32 w ! 2) (le32 w ! 3)" by simp
  then show "v = w" by (simp add: layout_simps)
qed simp

text \<open>Reads at an offset (\<open>readUint16Le(data + off)\<close>).\<close>

definition get16 :: "bytes \<Rightarrow> nat \<Rightarrow> u16" where
  "get16 data off = un16 (data ! off) (data ! (off + 1))"

definition get32 :: "bytes \<Rightarrow> nat \<Rightarrow> u32" where
  "get32 data off = un32 (data ! off) (data ! (off + 1)) (data ! (off + 2)) (data ! (off + 3))"

definition get64 :: "bytes \<Rightarrow> nat \<Rightarrow> u64" where
  "get64 data off = un64 (get32 data off) (get32 data (off + 4))"

lemma chunk_2: "off + 2 \<le> length data \<Longrightarrow> chunk data off 2 = [data ! off, data ! (off + 1)]"
  by (simp add: numeral_2_eq_2 chunk_Suc)

lemma chunk_4:
  "off + 4 \<le> length data \<Longrightarrow>
   chunk data off 4 = [data ! off, data ! (off + 1), data ! (off + 2), data ! (off + 3)]"
proof -
  assume *: "off + 4 \<le> length data"
  with chunk_add [of data off 2 2] show ?thesis
    by (auto simp: chunk_2 intro: arg_cong [where f = "(!) data"])
qed

lemma le16_get16: "off + 2 \<le> length data \<Longrightarrow> le16 (get16 data off) = chunk data off 2"
  by (simp add: get16_def chunk_2)

lemma le32_get32: "off + 4 \<le> length data \<Longrightarrow> le32 (get32 data off) = chunk data off 4"
  by (simp add: get32_def chunk_4)

lemmas get_join = le16_get16 le32_get32

lemma get16_chunk: "chunk data off 2 = le16 v \<Longrightarrow> off + 2 \<le> length data \<Longrightarrow> get16 data off = v"
  by (simp add: get16_def chunk_2 le16_def)

lemma get32_chunk: "chunk data off 4 = le32 v \<Longrightarrow> off + 4 \<le> length data \<Longrightarrow> get32 data off = v"
  by (simp add: get32_def chunk_4 le32_def)

lemma get16_append_left [layout_simps]:
  "off + 2 \<le> length xs \<Longrightarrow> get16 (xs @ ys) off = get16 xs off"
  by (simp add: get16_def nth_append)

lemma get16_append_right [layout_simps]:
  "length xs \<le> off \<Longrightarrow> get16 (xs @ ys) off = get16 ys (off - length xs)"
  by (simp add: get16_def nth_append Suc_diff_le)

lemma get16_Cons [layout_simps]: "0 < off \<Longrightarrow> get16 (x # xs) off = get16 xs (off - 1)"
  by (cases off) (simp_all add: get16_def)

lemma get16_le16 [layout_simps]: "get16 (le16 v) 0 = v" "get16 (le16 v @ ys) 0 = v"
  by (simp_all add: get16_def le16_def)

lemma get32_append_left [layout_simps]:
  "off + 4 \<le> length xs \<Longrightarrow> get32 (xs @ ys) off = get32 xs off"
  by (simp add: get32_def nth_append)

lemma get32_append_right [layout_simps]:
  "length xs \<le> off \<Longrightarrow> get32 (xs @ ys) off = get32 ys (off - length xs)"
  by (simp add: get32_def nth_append Suc_diff_le)

lemma get32_Cons [layout_simps]: "0 < off \<Longrightarrow> get32 (x # xs) off = get32 xs (off - 1)"
  by (cases off) (simp_all add: get32_def add.commute)

lemma get32_le32 [layout_simps]: "get32 (le32 v) 0 = v" "get32 (le32 v @ ys) 0 = v"
  by (simp_all add: get32_def le32_def)

lemma get64_append_left [layout_simps]:
  "off + 8 \<le> length xs \<Longrightarrow> get64 (xs @ ys) off = get64 xs off"
  by (simp add: get64_def layout_simps)

lemma get64_append_right [layout_simps]:
  "length xs \<le> off \<Longrightarrow> get64 (xs @ ys) off = get64 ys (off - length xs)"
  by (simp add: get64_def layout_simps)

lemma get64_Cons [layout_simps]: "0 < off \<Longrightarrow> get64 (x # xs) off = get64 xs (off - 1)"
  by (simp add: get64_def layout_simps)

lemma get64_le64 [layout_simps]: "get64 (le64 v) 0 = v" "get64 (le64 v @ ys) 0 = v"
  by (simp_all add: get64_def le64_def layout_simps)

lemma nth_append_left [layout_simps]: "i < length xs \<Longrightarrow> (xs @ ys) ! i = xs ! i"
  by (simp add: nth_append)

lemma nth_append_right [layout_simps]: "length xs \<le> i \<Longrightarrow> (xs @ ys) ! i = ys ! (i - length xs)"
  by (simp add: nth_append)

lemma nth_Cons_pos [layout_simps]: "0 < i \<Longrightarrow> (x # xs) ! i = xs ! (i - 1)"
  by (simp add: nth_Cons')

text \<open>Casts of small sizes to a byte.\<close>

lemma unat_of_nat_u8: "n < 256 \<Longrightarrow> unat (of_nat n :: u8) = n"
  by (simp add: unat_of_nat)

lemma of_nat_unat_u8 [simp]: "of_nat (unat b) = (b :: u8)"
  by simp

lemma less_plus_1_word: "x \<noteq> 0xFFFFFFFF \<Longrightarrow> x < x + 1" for x :: u32
proof -
  assume "x \<noteq> 0xFFFFFFFF"
  moreover have "x = of_nat (unat x)" by simp
  ultimately have "unat x \<noteq> 0xFFFFFFFF" by (metis of_nat_numeral)
  moreover have "unat x < 2 ^ 32" using unsigned_less [of x, where 'a = nat] by simp
  ultimately show ?thesis by (simp add: word_less_nat_alt unat_word_ariths)
qed

subsection \<open>Serial-number comparison\<close>

text \<open>\<open>static_cast<int32_t>(candidate - current) > 0\<close>: newer in the cyclic order of the
  generation counters.\<close>

definition serial_newer :: "'a::len word \<Rightarrow> 'a word \<Rightarrow> bool" where
  "serial_newer candidate current \<longleftrightarrow> sint (candidate - current) > 0"

lemma serial_newer_irrefl [simp]: "\<not> serial_newer g g"
  by (simp add: serial_newer_def)

subsection \<open>Searching a table\<close>

text \<open>The index of the first element with a property: a loop that returns a pointer to it.\<close>

fun firstIndex :: "('a \<Rightarrow> bool) \<Rightarrow> 'a list \<Rightarrow> nat option" where
  "firstIndex P [] = None"
| "firstIndex P (x # xs) = (if P x then Some 0 else map_option Suc (firstIndex P xs))"

lemma firstIndex_None_iff: "firstIndex P xs = None \<longleftrightarrow> (\<forall>x \<in> set xs. \<not> P x)"
  by (induction xs) auto

lemma firstIndex_SomeD:
  "firstIndex P xs = Some i \<Longrightarrow> i < length xs \<and> P (xs ! i) \<and> (\<forall>j < i. \<not> P (xs ! j))"
proof (induction xs arbitrary: i)
  case Nil then show ?case by simp
next
  case (Cons x xs)
  then show ?case
    by (auto simp: less_Suc_eq_0_disj split: if_splits)
qed

lemma firstIndex_SomeI:
  "i < length xs \<Longrightarrow> P (xs ! i) \<Longrightarrow> (\<And>j. j < i \<Longrightarrow> \<not> P (xs ! j)) \<Longrightarrow> firstIndex P xs = Some i"
proof (induction xs arbitrary: i)
  case Nil then show ?case by simp
next
  case (Cons x xs)
  show ?case
  proof (cases i)
    case 0 with Cons.prems show ?thesis by simp
  next
    case (Suc k)
    with Cons.prems(3) [of 0] have "\<not> P x" by simp
    moreover have "firstIndex P xs = Some k"
      using Cons.prems Suc by (intro Cons.IH) fastforce+
    ultimately show ?thesis using Suc by simp
  qed
qed

lemma distinct_earlier: "distinct xs \<longleftrightarrow> (\<forall>i < length xs. \<forall>j < i. xs ! j \<noteq> xs ! i)"
proof (induction xs rule: rev_induct)
  case (snoc x xs)
  have "distinct (xs @ [x]) \<longleftrightarrow> distinct xs \<and> (\<forall>j < length xs. xs ! j \<noteq> x)"
    by (auto simp: in_set_conv_nth)
  then show ?case using snoc by (auto simp: nth_append less_Suc_eq)
qed simp

text \<open>The loop that closes a gap: the elements after \<open>index\<close> and before \<open>stop\<close> move down by one.\<close>

definition shiftDown :: "'a list \<Rightarrow> nat \<Rightarrow> nat \<Rightarrow> 'a list" where
  "shiftDown xs index stop =
     foldl (\<lambda>xs move. xs[move - 1 := xs ! move]) xs [index + 1..<stop]"

lemma shiftDown_eq:
  "i < m \<Longrightarrow> m \<le> length rs \<Longrightarrow>
   shiftDown rs i m = take i rs @ take (m - Suc i) (drop (Suc i) rs) @ drop (m - 1) rs"
proof (induction m)
  case (Suc m)
  show ?case
  proof (cases "m = i")
    case True
    then show ?thesis by (simp add: shiftDown_def)
  next
    case False
    then have im: "i < m" using Suc.prems by simp
    then obtain k where k: "m = Suc (i + k)" using less_iff_Suc_add by auto
    have len: "Suc (i + k) < length rs" using Suc.prems k by simp
    have IH: "shiftDown rs i (Suc (i + k)) = take i rs @ take k (drop (Suc i) rs) @ drop (i + k) rs"
      using Suc.IH im Suc.prems k by simp
    have "shiftDown rs i (Suc m) = (shiftDown rs i m)[m - 1 := shiftDown rs i m ! m]"
      using im by (simp add: shiftDown_def)
    also have "\<dots> = (take i rs @ take k (drop (Suc i) rs) @ drop (i + k) rs)[i + k := rs ! m]"
      unfolding k IH using len by (simp add: nth_append)
    also have "\<dots> = take i rs @ take (Suc k) (drop (Suc i) rs) @ drop m rs"
    proof -
      have "drop (i + k) rs = rs ! (i + k) # drop m rs"
        using len k by (simp add: Cons_nth_drop_Suc)
      moreover have "take (Suc k) (drop (Suc i) rs) = take k (drop (Suc i) rs) @ [rs ! m]"
        using len k by (subst take_Suc_conv_app_nth) simp_all
      ultimately show ?thesis using len by (simp add: list_update_append)
    qed
    finally show ?thesis using k by simp
  qed
qed simp

subsection \<open>Arrays of equally long entries\<close>

text \<open>Entries stored one after another from an offset on: the write loops over an array.\<close>

fun putArray :: "bytes \<Rightarrow> nat \<Rightarrow> bytes list \<Rightarrow> bytes" where
  "putArray out off [] = out"
| "putArray out off (x # xs) = putArray (put out off x) (off + length x) xs"

lemma putArray_written:
  "off = length pre \<Longrightarrow> putArray (written pre out) off xs = written (pre @ concat xs) out"
proof (induction xs arbitrary: pre off)
  case Nil then show ?case by simp
next
  case (Cons x xs)
  then show ?case using Cons.IH [of "off + length x" "pre @ x"] by (simp add: put_written)
qed

lemma length_concat_entries: "list_all (\<lambda>x. length x = w) xs \<Longrightarrow> length (concat xs) = length xs * w"
  by (induction xs) simp_all

lemma chunk_entry:
  assumes "list_all (\<lambda>x. length x = w) xs" "i < length xs" "off = length pre + i * w"
  shows "chunk (pre @ concat xs @ post) off w = xs ! i"
  using assms
proof (induction xs arbitrary: i pre off)
  case Nil then show ?case by simp
next
  case (Cons x xs)
  show ?case
  proof (cases i)
    case 0 with Cons.prems show ?thesis by (simp add: chunk_def)
  next
    case (Suc j)
    have "chunk ((pre @ x) @ concat xs @ post) off w = xs ! j"
      using Cons.prems Suc by (intro Cons.IH) (simp_all add: algebra_simps)
    with Suc show ?thesis by simp
  qed
qed

lemma chunk_zeros: "off + n \<le> m \<Longrightarrow> chunk (zeros m) off n = zeros n"
  by (simp add: chunk_def)

lemma map_nth_take: "n \<le> length xs \<Longrightarrow> map (\<lambda>i. xs ! i) [0..<n] = take n xs"
  by (rule nth_equalityI) simp_all

end
