(* ===== verification/Wire_Codec.thy ===== *)
theory Wire_Codec
  imports RS_Prelude
begin

text \<open>
  The contract of a frame codec, stated once for every frame of the radio protocol: the
  encoder stores the frame's byte image at the start of the caller's buffer and touches
  nothing behind it, and the decoder accepts exactly the byte images of well-formed
  values.  The image is the abstract specification (the layout of protocol/PROTOCOL.md);
  what follows from the contract alone (round trips, unique decoding, no accepted
  truncation or extension) is proved here and inherited by each codec's interpretation.
\<close>

locale wire_codec =
  fixes encode :: "'v \<Rightarrow> buffer \<Rightarrow> 'e + bytes"
    and decode :: "buffer \<Rightarrow> 'd + 'v"
    and image :: "'v \<Rightarrow> bytes"
    and wf :: "'v \<Rightarrow> bool"
  assumes encode_fits:
      "wf v \<Longrightarrow> length (image v) \<le> length buf \<Longrightarrow>
       encode v (Some buf) = Inr (written (image v) buf)"
    and encode_small: "wf v \<Longrightarrow> length buf < length (image v) \<Longrightarrow> \<exists>e. encode v (Some buf) = Inl e"
    and encode_null: "\<exists>e. encode v None = Inl e"
    and decode_image: "wf v \<Longrightarrow> decode (Some (image v)) = Inr v"
    and decode_exact: "decode (Some d) = Inr v \<Longrightarrow> wf v \<and> d = image v"
    and decode_null: "\<exists>e. decode None = Inl e"
begin

lemma roundtrip:
  assumes "wf v" and "length (image v) \<le> length buf"
  shows "\<exists>out. encode v (Some buf) = Inr out \<and> length out = length buf \<and>
    drop (length (image v)) out = drop (length (image v)) buf \<and>
    decode (Some (take (length (image v)) out)) = Inr v"
  using assms by (simp add: encode_fits decode_image)

lemma image_inj: "wf v \<Longrightarrow> wf w \<Longrightarrow> image v = image w \<Longrightarrow> v = w"
  by (metis decode_image Inr_inject)

lemma decode_inj: "decode (Some d) = Inr v \<Longrightarrow> decode (Some d') = Inr v \<Longrightarrow> d = d'"
  by (metis decode_exact)

lemma decode_length: "decode (Some d) = Inr v \<Longrightarrow> length d = length (image v)"
  by (metis decode_exact)

lemma reencode: "decode (Some d) = Inr v \<Longrightarrow> encode v (Some d) = Inr d"
  by (metis decode_exact encode_fits order_refl written_full)

lemma decode_iff: "decode (Some d) = Inr v \<longleftrightarrow> wf v \<and> d = image v"
  by (metis decode_exact decode_image)

lemma decode_fails: "(\<And>v. wf v \<Longrightarrow> d \<noteq> image v) \<Longrightarrow> \<exists>e. decode (Some d) = Inl e"
  by (metis decode_exact obj_sumE)

lemma encode_ok_iff:
  "wf v \<Longrightarrow> (\<exists>out. encode v (Some buf) = Inr out) \<longleftrightarrow> length (image v) \<le> length buf"
  by (metis Inl_Inr_False encode_fits encode_small not_less)

end

text \<open>Codecs of different frame kinds never accept each other's frames.\<close>

lemma disjoint_images:
  assumes "wire_codec e1 d1 i1 w1" and "wire_codec e2 d2 i2 w2"
    and "\<And>v w. w1 v \<Longrightarrow> w2 w \<Longrightarrow> i1 v \<noteq> i2 w"
    and "d1 (Some d) = Inr v"
  shows "\<exists>e. d2 (Some d) = Inl e"
  by (metis assms wire_codec.decode_exact wire_codec.decode_fails)

end
