(* ===== verification/Frame_Codecs.thy ===== *)
theory Frame_Codecs
  imports Wire_Codec
begin

text \<open>
  The frame header and the commissioning frames of the radio protocol:
  shared/RadioProtocol/include/RadioProtocol.h, JoinRequest.h and CommissioningFrames.h.
  Definitions keep the source's names.  Each encoder is the source's sequence of stores
  into the output block, each decoder its sequence of checks and reads; the \<open>Image\<close>
  definitions are the wire layouts, and the interpretations of \<open>wire_codec\<close> show that
  the code implements them.
\<close>

subsection \<open>RadioProtocol.h\<close>

datatype FrameKind =
  KTelemetry | KJoinRequest | KJoinAccept | KJoinConfirm | KCommand | KCommandResult
  | KError | KJoinComplete | KCommandReady | KNoCommand

datatype DecodeStatus = EmptyFrame | UnsupportedVersion | UnsupportedKind

record FrameView =
  fv_kind :: FrameKind
  fv_payload :: bytes

abbreviation (input) kProtocolMajor :: u8 where "kProtocolMajor \<equiv> 2"
abbreviation (input) kVersionMask :: u8 where "kVersionMask \<equiv> 0xE0"
abbreviation (input) kKindMask :: u8 where "kKindMask \<equiv> 0x1F"
abbreviation (input) kMaxRadioPowerLevel :: u8 where "kMaxRadioPowerLevel \<equiv> 31"

fun frameKindValue :: "FrameKind \<Rightarrow> u8" where
  "frameKindValue KTelemetry = 0"
| "frameKindValue KJoinRequest = 1"
| "frameKindValue KJoinAccept = 2"
| "frameKindValue KJoinConfirm = 3"
| "frameKindValue KCommand = 4"
| "frameKindValue KCommandResult = 5"
| "frameKindValue KError = 6"
| "frameKindValue KJoinComplete = 7"
| "frameKindValue KCommandReady = 8"
| "frameKindValue KNoCommand = 9"

definition isKnownFrameKind :: "u8 \<Rightarrow> bool" where
  "isKnownFrameKind rawKind \<longleftrightarrow> rawKind \<le> frameKindValue KNoCommand"

text \<open>\<open>static_cast<FrameKind>(rawKind)\<close> for a known kind.\<close>

definition frameKindOf :: "u8 \<Rightarrow> FrameKind" where
  "frameKindOf rawKind =
     (if rawKind = 0 then KTelemetry else if rawKind = 1 then KJoinRequest
      else if rawKind = 2 then KJoinAccept else if rawKind = 3 then KJoinConfirm
      else if rawKind = 4 then KCommand else if rawKind = 5 then KCommandResult
      else if rawKind = 6 then KError else if rawKind = 7 then KJoinComplete
      else if rawKind = 8 then KCommandReady else KNoCommand)"

definition encodeHeader :: "FrameKind \<Rightarrow> u8" where
  "encodeHeader kind = push_bit 5 kProtocolMajor OR (frameKindValue kind AND kKindMask)"

definition decodeFrame :: "buffer \<Rightarrow> DecodeStatus + FrameView" where
  "decodeFrame buf =
     (case buf of
        None \<Rightarrow> Inl EmptyFrame
      | Some data \<Rightarrow>
          if length data < 1 then Inl EmptyFrame
          else
            let header = data ! 0; version = drop_bit 5 (header AND kVersionMask) in
            if version \<noteq> kProtocolMajor then Inl UnsupportedVersion
            else
              let rawKind = header AND kKindMask in
              if \<not> isKnownFrameKind rawKind then Inl UnsupportedKind
              else Inr \<lparr>fv_kind = frameKindOf rawKind, fv_payload = drop 1 data\<rparr>)"

lemma encodeHeader_values [simp]:
  "encodeHeader KTelemetry = 0x40" "encodeHeader KJoinRequest = 0x41"
  "encodeHeader KJoinAccept = 0x42" "encodeHeader KJoinConfirm = 0x43"
  "encodeHeader KCommand = 0x44" "encodeHeader KCommandResult = 0x45"
  "encodeHeader KError = 0x46" "encodeHeader KJoinComplete = 0x47"
  "encodeHeader KCommandReady = 0x48" "encodeHeader KNoCommand = 0x49"
  by (simp_all add: encodeHeader_def)

lemma encodeHeader_inject: "encodeHeader k = encodeHeader k' \<longleftrightarrow> k = k'"
  by (cases k; cases k') simp_all

lemma decodeFrame_header: "decodeFrame (Some (encodeHeader k # p)) = Inr \<lparr>fv_kind = k, fv_payload = p\<rparr>"
  by (cases k) (simp_all add: decodeFrame_def Let_def isKnownFrameKind_def frameKindOf_def)

lemma frameKindOf_value: "isKnownFrameKind raw \<Longrightarrow> frameKindValue (frameKindOf raw) = raw"
proof -
  assume "isKnownFrameKind raw"
  then have le: "unat raw \<le> 9"
    by (simp add: isKnownFrameKind_def word_le_nat_alt)
  obtain n where raw: "raw = word_of_nat n" and n: "n = unat raw"
    using that [of "unat raw"] by simp
  from le have "n = 0 \<or> n = 1 \<or> n = 2 \<or> n = 3 \<or> n = 4 \<or> n = 5 \<or> n = 6 \<or> n = 7 \<or> n = 8 \<or> n = 9"
    unfolding n [symmetric] by arith
  then show ?thesis
    unfolding raw by (elim disjE) (simp_all add: frameKindOf_def)
qed

lemma header_parts:
  fixes h :: u8
  assumes "drop_bit 5 (h AND 0xE0) = 2"
  shows "h = 0x40 OR (h AND 0x1F)"
proof -
  have mask: "h AND 0xE0 = push_bit 5 (drop_bit 5 (h AND 0xE0))"
  proof (rule bit_word_eqI)
    fix n assume n: "n < LENGTH(8)"
    then consider "n = 0" | "n = 1" | "n = 2" | "n = 3" | "n = 4" | "5 \<le> n" by fastforce
    then show "bit (h AND 0xE0) n = bit (push_bit 5 (drop_bit 5 (h AND 0xE0))) n"
      by cases (use n in \<open>simp_all add: bit_simps\<close>)
  qed
  have "h = (h AND 0xE0) OR (h AND 0x1F)"
  proof -
    have "(h AND 0xE0) OR (h AND 0x1F) = h AND (0xE0 OR 0x1F)"
      by (rule bit.conj_disj_distrib [symmetric])
    also have "(0xE0 OR 0x1F :: u8) = - 1" by simp
    finally show ?thesis by simp
  qed
  moreover from mask assms have "h AND 0xE0 = push_bit 5 2" by metis
  ultimately show ?thesis by simp
qed

text \<open>A frame is accepted exactly when its first byte is the header of a known kind.\<close>

lemma decodeFrame_exact:
  assumes "decodeFrame (Some data) = Inr f"
  shows "data = encodeHeader (fv_kind f) # fv_payload f"
proof -
  from assms obtain h p where data: "data = h # p"
    by (cases data) (auto simp: decodeFrame_def)
  with assms have ver: "drop_bit 5 (h AND 0xE0) = 2"
    and known: "isKnownFrameKind (h AND 0x1F)"
    and f: "f = \<lparr>fv_kind = frameKindOf (h AND 0x1F), fv_payload = p\<rparr>"
    by (auto simp: decodeFrame_def Let_def split: if_splits)
  have "encodeHeader (frameKindOf (h AND 0x1F)) = 0x40 OR (h AND 0x1F)"
    by (simp add: encodeHeader_def frameKindOf_value [OF known] and.assoc)
  with header_parts [OF ver] data f show ?thesis by simp
qed

lemma decodeFrame_iff:
  "decodeFrame (Some data) = Inr f \<longleftrightarrow> data = encodeHeader (fv_kind f) # fv_payload f"
  using decodeFrame_exact decodeFrame_header by (metis FrameView.surjective old.unit.exhaust)

lemma decodeFrame_whole:
  "decodeFrame (Some data) = Inr f \<Longrightarrow>
   encodeHeader (fv_kind f) # chunk data (Suc 0) (length data - 1) = data"
  using decodeFrame_exact [of data f]
  by (cases data) (simp_all add: chunk_def)

lemma decodeFrame_None [simp]: "decodeFrame None = Inl EmptyFrame"
  by (simp add: decodeFrame_def)

subsection \<open>JoinRequest.h\<close>

abbreviation (input) kDeviceUidSize :: nat where "kDeviceUidSize \<equiv> 10"
abbreviation (input) kJoinRequestSize :: nat where "kJoinRequestSize \<equiv> 21"
abbreviation (input) kUnassignedProfileId :: u16 where "kUnassignedProfileId \<equiv> 0"

record FirmwareVersion =
  fw_major :: u8
  fw_minor :: u8
  fw_patch :: u8

record JoinRequest =
  jr_deviceUid :: bytes
  jr_profileId :: u16
  jr_firmware :: FirmwareVersion
  jr_requestNonce :: u32
  jr_maxPowerLevel :: u8

datatype JoinRequestStatus =
  JR_OutputTooSmall | JR_EmptyFrame | JR_UnsupportedVersion | JR_UnsupportedKind
  | JR_WrongFrameKind | JR_WrongLength | JR_InvalidProfileId | JR_InvalidPowerLevel

definition encodeJoinRequest :: "JoinRequest \<Rightarrow> buffer \<Rightarrow> JoinRequestStatus + bytes" where
  "encodeJoinRequest request output =
     (case output of
        None \<Rightarrow> Inl JR_OutputTooSmall
      | Some out \<Rightarrow>
          if length out < kJoinRequestSize then Inl JR_OutputTooSmall
          else if jr_profileId request = kUnassignedProfileId then Inl JR_InvalidProfileId
          else if jr_maxPowerLevel request > kMaxRadioPowerLevel then Inl JR_InvalidPowerLevel
          else
            let out = put out 0 [encodeHeader KJoinRequest];
                out = put out 1 (jr_deviceUid request);
                out = put out 11 (le16 (jr_profileId request));
                out = put out 13 [fw_major (jr_firmware request)];
                out = put out 14 [fw_minor (jr_firmware request)];
                out = put out 15 [fw_patch (jr_firmware request)];
                out = put out 16 (le32 (jr_requestNonce request));
                out = put out 20 [jr_maxPowerLevel request]
            in Inr out)"

definition decodeJoinRequest :: "buffer \<Rightarrow> JoinRequestStatus + JoinRequest" where
  "decodeJoinRequest buf =
     (case decodeFrame buf of
        Inl EmptyFrame \<Rightarrow> Inl JR_EmptyFrame
      | Inl UnsupportedVersion \<Rightarrow> Inl JR_UnsupportedVersion
      | Inl UnsupportedKind \<Rightarrow> Inl JR_UnsupportedKind
      | Inr frame \<Rightarrow>
          if fv_kind frame \<noteq> KJoinRequest then Inl JR_WrongFrameKind
          else
            let data = the buf in
            if length data \<noteq> kJoinRequestSize then Inl JR_WrongLength
            else
              let profileId = get16 data 11 in
              if profileId = kUnassignedProfileId then Inl JR_InvalidProfileId
              else if data ! 20 > kMaxRadioPowerLevel then Inl JR_InvalidPowerLevel
              else Inr \<lparr>jr_deviceUid = chunk data 1 kDeviceUidSize,
                        jr_profileId = profileId,
                        jr_firmware = \<lparr>fw_major = data ! 13, fw_minor = data ! 14,
                                       fw_patch = data ! 15\<rparr>,
                        jr_requestNonce = get32 data 16,
                        jr_maxPowerLevel = data ! 20\<rparr>)"

text \<open>The wire layout, and which requests can be sent.\<close>

definition joinRequestImage :: "JoinRequest \<Rightarrow> bytes" where
  "joinRequestImage r =
     [encodeHeader KJoinRequest] @ jr_deviceUid r @ le16 (jr_profileId r) @
     [fw_major (jr_firmware r), fw_minor (jr_firmware r), fw_patch (jr_firmware r)] @
     le32 (jr_requestNonce r) @ [jr_maxPowerLevel r]"

definition joinRequestOk :: "JoinRequest \<Rightarrow> bool" where
  "joinRequestOk r \<longleftrightarrow> length (jr_deviceUid r) = kDeviceUidSize \<and>
     jr_profileId r \<noteq> kUnassignedProfileId \<and> jr_maxPowerLevel r \<le> kMaxRadioPowerLevel"

interpretation joinRequest:
  wire_codec encodeJoinRequest decodeJoinRequest joinRequestImage joinRequestOk
proof
  fix r :: JoinRequest and buf :: bytes
  assume ok: "joinRequestOk r"
  show "length (joinRequestImage r) \<le> length buf \<Longrightarrow>
      encodeJoinRequest r (Some buf) = Inr (written (joinRequestImage r) buf)"
    using ok
    by (simp add: encodeJoinRequest_def joinRequestOk_def joinRequestImage_def Let_def not_less
        put_start put_written)
  show "length buf < length (joinRequestImage r) \<Longrightarrow> \<exists>e. encodeJoinRequest r (Some buf) = Inl e"
    using ok by (simp add: encodeJoinRequest_def joinRequestOk_def joinRequestImage_def)
  show "decodeJoinRequest (Some (joinRequestImage r)) = Inr r"
    using ok decodeFrame_header [of KJoinRequest]
    by (simp add: decodeJoinRequest_def joinRequestImage_def joinRequestOk_def Let_def not_less
        layout_simps)
next
  fix d r
  assume "decodeJoinRequest (Some d) = Inr r"
  then show "joinRequestOk r \<and> d = joinRequestImage r"
    by (auto simp: decodeJoinRequest_def joinRequestOk_def joinRequestImage_def get_join Let_def
        not_less join_simps dest: decodeFrame_whole split: sum.splits DecodeStatus.splits if_splits)
qed (simp_all add: encodeJoinRequest_def decodeJoinRequest_def)

subsection \<open>CommissioningFrames.h\<close>

abbreviation (input) kInstallationKeySize :: nat where "kInstallationKeySize \<equiv> 16"
abbreviation (input) kJoinAcceptSize :: nat where "kJoinAcceptSize \<equiv> 34"
abbreviation (input) kJoinConfirmSize :: nat where "kJoinConfirmSize \<equiv> 15"
abbreviation (input) kJoinCompleteSize :: nat where "kJoinCompleteSize \<equiv> 15"

record JoinAccept =
  ja_deviceUid :: bytes
  ja_requestNonce :: u32
  ja_assignedNodeId :: u8
  ja_gatewayNodeId :: u8
  ja_networkId :: u8
  ja_installationKey :: bytes

record JoinConfirm =
  jc_deviceUid :: bytes
  jc_requestNonce :: u32

type_synonym JoinComplete = JoinConfirm

datatype CommissioningCodecStatus =
  CC_OutputTooSmall | CC_EmptyFrame | CC_UnsupportedVersion | CC_UnsupportedKind
  | CC_WrongFrameKind | CC_WrongLength | CC_InvalidNodeId

fun mapFrameStatus :: "DecodeStatus \<Rightarrow> CommissioningCodecStatus" where
  "mapFrameStatus EmptyFrame = CC_EmptyFrame"
| "mapFrameStatus UnsupportedVersion = CC_UnsupportedVersion"
| "mapFrameStatus UnsupportedKind = CC_UnsupportedKind"

definition encodeJoinAccept :: "JoinAccept \<Rightarrow> buffer \<Rightarrow> CommissioningCodecStatus + bytes" where
  "encodeJoinAccept v output =
     (case output of
        None \<Rightarrow> Inl CC_OutputTooSmall
      | Some out \<Rightarrow>
          if length out < kJoinAcceptSize then Inl CC_OutputTooSmall
          else if ja_assignedNodeId v = 0 \<or> ja_assignedNodeId v = ja_gatewayNodeId v \<or>
                  ja_assignedNodeId v = 255 \<or> ja_gatewayNodeId v = 0 \<or>
                  ja_gatewayNodeId v = 255 then Inl CC_InvalidNodeId
          else
            let out = put out 0 [encodeHeader KJoinAccept];
                out = put out 1 (ja_deviceUid v);
                out = put out 11 (le32 (ja_requestNonce v));
                out = put out 15 [ja_assignedNodeId v];
                out = put out 16 [ja_gatewayNodeId v];
                out = put out 17 [ja_networkId v];
                out = put out 18 (ja_installationKey v)
            in Inr out)"

definition decodeJoinAccept :: "buffer \<Rightarrow> CommissioningCodecStatus + JoinAccept" where
  "decodeJoinAccept buf =
     (case decodeFrame buf of
        Inl frameStatus \<Rightarrow> Inl (mapFrameStatus frameStatus)
      | Inr frame \<Rightarrow>
          if fv_kind frame \<noteq> KJoinAccept then Inl CC_WrongFrameKind
          else
            let data = the buf in
            if length data \<noteq> kJoinAcceptSize then Inl CC_WrongLength
            else if data ! 15 = 0 \<or> data ! 15 = data ! 16 \<or> data ! 15 = 255 \<or>
                    data ! 16 = 0 \<or> data ! 16 = 255 then Inl CC_InvalidNodeId
            else Inr \<lparr>ja_deviceUid = chunk data 1 kDeviceUidSize,
                      ja_requestNonce = get32 data 11,
                      ja_assignedNodeId = data ! 15,
                      ja_gatewayNodeId = data ! 16,
                      ja_networkId = data ! 17,
                      ja_installationKey = chunk data 18 kInstallationKeySize\<rparr>)"

definition encodeJoinConfirm :: "JoinConfirm \<Rightarrow> buffer \<Rightarrow> CommissioningCodecStatus + bytes" where
  "encodeJoinConfirm v output =
     (case output of
        None \<Rightarrow> Inl CC_OutputTooSmall
      | Some out \<Rightarrow>
          if length out < kJoinConfirmSize then Inl CC_OutputTooSmall
          else
            let out = put out 0 [encodeHeader KJoinConfirm];
                out = put out 1 (jc_deviceUid v);
                out = put out 11 (le32 (jc_requestNonce v))
            in Inr out)"

definition decodeJoinConfirm :: "buffer \<Rightarrow> CommissioningCodecStatus + JoinConfirm" where
  "decodeJoinConfirm buf =
     (case decodeFrame buf of
        Inl frameStatus \<Rightarrow> Inl (mapFrameStatus frameStatus)
      | Inr frame \<Rightarrow>
          if fv_kind frame \<noteq> KJoinConfirm then Inl CC_WrongFrameKind
          else
            let data = the buf in
            if length data \<noteq> kJoinConfirmSize then Inl CC_WrongLength
            else Inr \<lparr>jc_deviceUid = chunk data 1 kDeviceUidSize,
                      jc_requestNonce = get32 data 11\<rparr>)"

definition encodeJoinComplete :: "JoinComplete \<Rightarrow> buffer \<Rightarrow> CommissioningCodecStatus + bytes" where
  "encodeJoinComplete v output =
     (case output of
        None \<Rightarrow> Inl CC_OutputTooSmall
      | Some out \<Rightarrow>
          if length out < kJoinCompleteSize then Inl CC_OutputTooSmall
          else
            let out = put out 0 [encodeHeader KJoinComplete];
                out = put out 1 (jc_deviceUid v);
                out = put out 11 (le32 (jc_requestNonce v))
            in Inr out)"

definition decodeJoinComplete :: "buffer \<Rightarrow> CommissioningCodecStatus + JoinComplete" where
  "decodeJoinComplete buf =
     (case decodeFrame buf of
        Inl frameStatus \<Rightarrow> Inl (mapFrameStatus frameStatus)
      | Inr frame \<Rightarrow>
          if fv_kind frame \<noteq> KJoinComplete then Inl CC_WrongFrameKind
          else
            let data = the buf in
            if length data \<noteq> kJoinCompleteSize then Inl CC_WrongLength
            else Inr \<lparr>jc_deviceUid = chunk data 1 kDeviceUidSize,
                      jc_requestNonce = get32 data 11\<rparr>)"

definition joinAcceptImage :: "JoinAccept \<Rightarrow> bytes" where
  "joinAcceptImage v =
     [encodeHeader KJoinAccept] @ ja_deviceUid v @ le32 (ja_requestNonce v) @
     [ja_assignedNodeId v, ja_gatewayNodeId v, ja_networkId v] @ ja_installationKey v"

definition joinAcceptOk :: "JoinAccept \<Rightarrow> bool" where
  "joinAcceptOk v \<longleftrightarrow>
     length (ja_deviceUid v) = kDeviceUidSize \<and> length (ja_installationKey v) = kInstallationKeySize \<and>
     ja_assignedNodeId v \<notin> {0, 255} \<and> ja_gatewayNodeId v \<notin> {0, 255} \<and>
     ja_assignedNodeId v \<noteq> ja_gatewayNodeId v"

definition joinConfirmImage :: "FrameKind \<Rightarrow> JoinConfirm \<Rightarrow> bytes" where
  "joinConfirmImage kind v =
     [encodeHeader kind] @ jc_deviceUid v @ le32 (jc_requestNonce v)"

definition joinConfirmOk :: "JoinConfirm \<Rightarrow> bool" where
  "joinConfirmOk v \<longleftrightarrow> length (jc_deviceUid v) = kDeviceUidSize"

interpretation joinAccept:
  wire_codec encodeJoinAccept decodeJoinAccept joinAcceptImage joinAcceptOk
proof
  fix v :: JoinAccept and buf :: bytes
  assume ok: "joinAcceptOk v"
  show "length (joinAcceptImage v) \<le> length buf \<Longrightarrow>
      encodeJoinAccept v (Some buf) = Inr (written (joinAcceptImage v) buf)"
    using ok
    by (simp add: encodeJoinAccept_def joinAcceptOk_def joinAcceptImage_def Let_def not_less
        put_start put_written)
  show "length buf < length (joinAcceptImage v) \<Longrightarrow> \<exists>e. encodeJoinAccept v (Some buf) = Inl e"
    using ok by (simp add: encodeJoinAccept_def joinAcceptOk_def joinAcceptImage_def)
  show "decodeJoinAccept (Some (joinAcceptImage v)) = Inr v"
    using ok decodeFrame_header [of KJoinAccept]
    by (simp add: decodeJoinAccept_def joinAcceptImage_def joinAcceptOk_def Let_def layout_simps)
next
  fix d v
  assume "decodeJoinAccept (Some d) = Inr v"
  then show "joinAcceptOk v \<and> d = joinAcceptImage v"
    by (auto simp: decodeJoinAccept_def joinAcceptOk_def joinAcceptImage_def get_join Let_def
        join_simps dest: decodeFrame_whole split: sum.splits if_splits)
qed (simp_all add: encodeJoinAccept_def decodeJoinAccept_def)

interpretation joinConfirm:
  wire_codec encodeJoinConfirm decodeJoinConfirm "joinConfirmImage KJoinConfirm" joinConfirmOk
proof
  fix v :: JoinConfirm and buf :: bytes
  assume ok: "joinConfirmOk v"
  show "length (joinConfirmImage KJoinConfirm v) \<le> length buf \<Longrightarrow>
      encodeJoinConfirm v (Some buf) = Inr (written (joinConfirmImage KJoinConfirm v) buf)"
    using ok
    by (simp add: encodeJoinConfirm_def joinConfirmOk_def joinConfirmImage_def Let_def not_less
        put_start put_written)
  show "length buf < length (joinConfirmImage KJoinConfirm v) \<Longrightarrow>
      \<exists>e. encodeJoinConfirm v (Some buf) = Inl e"
    using ok by (simp add: encodeJoinConfirm_def joinConfirmOk_def joinConfirmImage_def)
  show "decodeJoinConfirm (Some (joinConfirmImage KJoinConfirm v)) = Inr v"
    using ok decodeFrame_header [of KJoinConfirm]
    by (simp add: decodeJoinConfirm_def joinConfirmImage_def joinConfirmOk_def Let_def layout_simps)
next
  fix d v
  assume "decodeJoinConfirm (Some d) = Inr v"
  then show "joinConfirmOk v \<and> d = joinConfirmImage KJoinConfirm v"
    by (auto simp: decodeJoinConfirm_def joinConfirmOk_def joinConfirmImage_def get_join Let_def
        join_simps dest: decodeFrame_whole split: sum.splits if_splits)
qed (simp_all add: encodeJoinConfirm_def decodeJoinConfirm_def)

interpretation joinComplete:
  wire_codec encodeJoinComplete decodeJoinComplete "joinConfirmImage KJoinComplete" joinConfirmOk
proof
  fix v :: JoinComplete and buf :: bytes
  assume ok: "joinConfirmOk v"
  show "length (joinConfirmImage KJoinComplete v) \<le> length buf \<Longrightarrow>
      encodeJoinComplete v (Some buf) = Inr (written (joinConfirmImage KJoinComplete v) buf)"
    using ok
    by (simp add: encodeJoinComplete_def joinConfirmOk_def joinConfirmImage_def Let_def not_less
        put_start put_written)
  show "length buf < length (joinConfirmImage KJoinComplete v) \<Longrightarrow>
      \<exists>e. encodeJoinComplete v (Some buf) = Inl e"
    using ok by (simp add: encodeJoinComplete_def joinConfirmOk_def joinConfirmImage_def)
  show "decodeJoinComplete (Some (joinConfirmImage KJoinComplete v)) = Inr v"
    using ok decodeFrame_header [of KJoinComplete]
    by (simp add: decodeJoinComplete_def joinConfirmImage_def joinConfirmOk_def Let_def layout_simps)
next
  fix d v
  assume "decodeJoinComplete (Some d) = Inr v"
  then show "joinConfirmOk v \<and> d = joinConfirmImage KJoinComplete v"
    by (auto simp: decodeJoinComplete_def joinConfirmOk_def joinConfirmImage_def get_join Let_def
        join_simps dest: decodeFrame_whole split: sum.splits if_splits)
qed (simp_all add: encodeJoinComplete_def decodeJoinComplete_def)

end
