(* ===== verification/Telemetry_Codecs.thy ===== *)
theory Telemetry_Codecs
  imports Frame_Codecs
begin

text \<open>
  Telemetry on the radio (shared/RadioProtocol/include/TelemetryFrames.h), the frames of
  the gateway's WebSocket stream (GatewayStream.h) and loading an AES key into the radio
  module (RadioAes.h).  Signed 8- and 16-bit values are words read through \<open>sint\<close>.
\<close>

type_synonym s8 = "8 word"
type_synonym s16 = "16 word"

subsection \<open>TelemetryFrames.h: values\<close>

abbreviation (input) kInvalidTemperature :: s16 where "kInvalidTemperature \<equiv> 0x8000"
abbreviation (input) kInvalidHumidity :: u16 where "kInvalidHumidity \<equiv> 0xFFFF"
abbreviation (input) kInvalidPressure :: u16 where "kInvalidPressure \<equiv> 0xFFFF"
abbreviation (input) kNoDownlinkRssi :: s8 where "kNoDownlinkRssi \<equiv> 0x80"
abbreviation (input) kRadioPowerLevelMask :: u8 where "kRadioPowerLevelMask \<equiv> 0x1F"
abbreviation (input) kRadioFallback :: u8 where "kRadioFallback \<equiv> 0x20"
abbreviation (input) kRadioStateReservedMask :: u8 where "kRadioStateReservedMask \<equiv> 0xC0"
abbreviation (input) kTelemetryPrefixSize :: nat where "kTelemetryPrefixSize \<equiv> 5"
abbreviation (input) kVoltageTelemetrySize :: nat where "kVoltageTelemetrySize \<equiv> 5"
abbreviation (input) kTemperatureTelemetrySize :: nat where "kTemperatureTelemetrySize \<equiv> 7"
abbreviation (input) kClimateThTelemetrySize :: nat where "kClimateThTelemetrySize \<equiv> 9"
abbreviation (input) kClimateThpTelemetrySize :: nat where "kClimateThpTelemetrySize \<equiv> 11"
abbreviation (input) kBinaryTelemetrySize :: nat where "kBinaryTelemetrySize \<equiv> 6"
abbreviation (input) kCounterTelemetrySize :: nat where "kCounterTelemetrySize \<equiv> 9"
abbreviation (input) kBinaryClimateThTelemetrySize :: nat where "kBinaryClimateThTelemetrySize \<equiv> 10"
abbreviation (input) kBinaryTemperatureTelemetrySize :: nat
  where "kBinaryTemperatureTelemetrySize \<equiv> 8"
abbreviation (input) kTelemetryAckCommandPending :: u8 where "kTelemetryAckCommandPending \<equiv> 1"
abbreviation (input) kTelemetryAckPowerTarget :: u8 where "kTelemetryAckPowerTarget \<equiv> 2"
abbreviation (input) kMaxTelemetryAckSize :: nat where "kMaxTelemetryAckSize \<equiv> 2"

datatype TelemetryCodecStatus =
  TC_OutputTooSmall | TC_WrongLength | TC_WrongHeader | TC_InvalidRadioState | TC_InvalidState
  | TC_InvalidTemperature | TC_InvalidHumidity | TC_InvalidPressure

record TelemetryPrefix =
  tp_supplyMillivolts :: u16
  tp_radioState :: u8
  tp_downlinkRssi :: s8

record TelemetryView =
  tv_supplyMillivolts :: u16
  tv_radioState :: u8
  tv_downlinkRssi :: s8
  tv_profilePayload :: bytes

record TelemetryAck =
  ack_commandPending :: bool
  ack_hasPowerTarget :: bool
  ack_powerTarget :: u8

definition encodeRadioState :: "u8 \<Rightarrow> bool \<Rightarrow> u8" where
  "encodeRadioState powerLevel fallback =
     (powerLevel AND kRadioPowerLevelMask) OR (if fallback then kRadioFallback else 0)"

definition radioPowerLevel :: "u8 \<Rightarrow> u8" where
  "radioPowerLevel radioState = radioState AND kRadioPowerLevelMask"

definition downlinkRssiValue :: "s16 \<Rightarrow> s8" where
  "downlinkRssiValue rssi =
     (if sint rssi < -127 then -127 else if sint rssi > 0 then 0 else scast rssi)"

definition validTemperature :: "s16 \<Rightarrow> bool" where
  "validTemperature v \<longleftrightarrow> v = kInvalidTemperature \<or> (-8000 \<le> sint v \<and> sint v \<le> 12500)"

definition validHumidity :: "u16 \<Rightarrow> bool" where
  "validHumidity v \<longleftrightarrow> v = kInvalidHumidity \<or> v \<le> 10000"

definition validPressure :: "u16 \<Rightarrow> bool" where
  "validPressure v \<longleftrightarrow> v = kInvalidPressure \<or> (3000 \<le> v \<and> v \<le> 11000)"

subsection \<open>TelemetryFrames.h: the common prefix\<close>

definition beginTelemetry ::
    "TelemetryPrefix \<Rightarrow> buffer \<Rightarrow> nat \<Rightarrow> TelemetryCodecStatus + bytes" where
  "beginTelemetry prefix output required =
     (if tp_radioState prefix AND kRadioStateReservedMask \<noteq> 0 then Inl TC_InvalidRadioState
      else case output of
        None \<Rightarrow> Inl TC_OutputTooSmall
      | Some out \<Rightarrow>
          if length out < required then Inl TC_OutputTooSmall
          else
            let out = put out 0 [encodeHeader KTelemetry];
                out = put out 1 [tp_radioState prefix];
                out = put out 2 [tp_downlinkRssi prefix];
                out = put out 3 (le16 (tp_supplyMillivolts prefix))
            in Inr out)"

definition decodeTelemetry :: "buffer \<Rightarrow> TelemetryCodecStatus + TelemetryView" where
  "decodeTelemetry buf =
     (case buf of
        None \<Rightarrow> Inl TC_WrongLength
      | Some data \<Rightarrow>
          if length data < kTelemetryPrefixSize then Inl TC_WrongLength
          else if data ! 0 \<noteq> encodeHeader KTelemetry then Inl TC_WrongHeader
          else if data ! 1 AND kRadioStateReservedMask \<noteq> 0 then Inl TC_InvalidRadioState
          else Inr \<lparr>tv_supplyMillivolts = get16 data 3,
                    tv_radioState = data ! 1,
                    tv_downlinkRssi = data ! 2,
                    tv_profilePayload = drop kTelemetryPrefixSize data\<rparr>)"

subsection \<open>TelemetryFrames.h: the profiles\<close>

definition encodeVoltageTelemetry ::
    "TelemetryPrefix \<Rightarrow> buffer \<Rightarrow> TelemetryCodecStatus + bytes" where
  "encodeVoltageTelemetry prefix output = beginTelemetry prefix output kVoltageTelemetrySize"

definition encodeTemperatureTelemetry ::
    "TelemetryPrefix \<Rightarrow> s16 \<Rightarrow> buffer \<Rightarrow> TelemetryCodecStatus + bytes" where
  "encodeTemperatureTelemetry prefix temperature output =
     (if \<not> validTemperature temperature then Inl TC_InvalidTemperature
      else case beginTelemetry prefix output kTemperatureTelemetrySize of
        Inl status \<Rightarrow> Inl status
      | Inr out \<Rightarrow> Inr (put out 5 (le16 temperature)))"

definition encodeClimateThTelemetry ::
    "TelemetryPrefix \<Rightarrow> s16 \<Rightarrow> u16 \<Rightarrow> buffer \<Rightarrow> TelemetryCodecStatus + bytes" where
  "encodeClimateThTelemetry prefix temperature humidity output =
     (if \<not> validTemperature temperature then Inl TC_InvalidTemperature
      else if \<not> validHumidity humidity then Inl TC_InvalidHumidity
      else case beginTelemetry prefix output kClimateThTelemetrySize of
        Inl status \<Rightarrow> Inl status
      | Inr out \<Rightarrow> Inr (put (put out 5 (le16 temperature)) 7 (le16 humidity)))"

definition encodeClimateThpTelemetry ::
    "TelemetryPrefix \<Rightarrow> s16 \<Rightarrow> u16 \<Rightarrow> u16 \<Rightarrow> buffer \<Rightarrow> TelemetryCodecStatus + bytes" where
  "encodeClimateThpTelemetry prefix temperature humidity pressure output =
     (if \<not> validTemperature temperature then Inl TC_InvalidTemperature
      else if \<not> validHumidity humidity then Inl TC_InvalidHumidity
      else if \<not> validPressure pressure then Inl TC_InvalidPressure
      else case beginTelemetry prefix output kClimateThpTelemetrySize of
        Inl status \<Rightarrow> Inl status
      | Inr out \<Rightarrow>
          Inr (put (put (put out 5 (le16 temperature)) 7 (le16 humidity)) 9 (le16 pressure)))"

definition encodeBinaryTelemetry ::
    "TelemetryPrefix \<Rightarrow> u8 \<Rightarrow> buffer \<Rightarrow> TelemetryCodecStatus + bytes" where
  "encodeBinaryTelemetry prefix state output =
     (if state > 1 then Inl TC_InvalidState
      else case beginTelemetry prefix output kBinaryTelemetrySize of
        Inl status \<Rightarrow> Inl status
      | Inr out \<Rightarrow> Inr (put out 5 [state]))"

definition encodeCounterTelemetry ::
    "TelemetryPrefix \<Rightarrow> u32 \<Rightarrow> buffer \<Rightarrow> TelemetryCodecStatus + bytes" where
  "encodeCounterTelemetry prefix count output =
     (case beginTelemetry prefix output kCounterTelemetrySize of
        Inl status \<Rightarrow> Inl status
      | Inr out \<Rightarrow> Inr (put out 5 (le32 count)))"

definition encodeBinaryClimateThTelemetry ::
    "TelemetryPrefix \<Rightarrow> u8 \<Rightarrow> s16 \<Rightarrow> u16 \<Rightarrow> buffer \<Rightarrow> TelemetryCodecStatus + bytes" where
  "encodeBinaryClimateThTelemetry prefix state temperature humidity output =
     (if state > 1 then Inl TC_InvalidState
      else if \<not> validTemperature temperature then Inl TC_InvalidTemperature
      else if \<not> validHumidity humidity then Inl TC_InvalidHumidity
      else case beginTelemetry prefix output kBinaryClimateThTelemetrySize of
        Inl status \<Rightarrow> Inl status
      | Inr out \<Rightarrow>
          Inr (put (put (put out 5 [state]) 6 (le16 temperature)) 8 (le16 humidity)))"

definition encodeBinaryTemperatureTelemetry ::
    "TelemetryPrefix \<Rightarrow> u8 \<Rightarrow> s16 \<Rightarrow> buffer \<Rightarrow> TelemetryCodecStatus + bytes" where
  "encodeBinaryTemperatureTelemetry prefix state temperature output =
     (if state > 1 then Inl TC_InvalidState
      else if \<not> validTemperature temperature then Inl TC_InvalidTemperature
      else case beginTelemetry prefix output kBinaryTemperatureTelemetrySize of
        Inl status \<Rightarrow> Inl status
      | Inr out \<Rightarrow> Inr (put (put out 5 [state]) 6 (le16 temperature)))"

subsection \<open>TelemetryFrames.h: the acknowledgement payload\<close>

text \<open>The pair is the returned size and the output block.\<close>

definition encodeTelemetryAck :: "TelemetryAck \<Rightarrow> buffer \<Rightarrow> nat \<times> buffer" where
  "encodeTelemetryAck ack output =
     (let target = ack_hasPowerTarget ack \<and> ack_powerTarget ack \<le> kMaxRadioPowerLevel;
          flags = (if ack_commandPending ack then kTelemetryAckCommandPending else 0) OR
                  (if target then kTelemetryAckPowerTarget else 0);
          size' = (if flags = 0 then 0 else if target then 2 else 1)
      in if size' = 0 then (0, output)
         else case output of
           None \<Rightarrow> (0, None)
         | Some out \<Rightarrow>
             if length out < size' then (0, output)
             else
               let out = put out 0 [flags];
                   out = (if target then put out 1 [ack_powerTarget ack] else out)
               in (size', Some out))"

definition decodeTelemetryAck :: "buffer \<Rightarrow> TelemetryAck" where
  "decodeTelemetryAck buf =
     (let none = \<lparr>ack_commandPending = False, ack_hasPowerTarget = False, ack_powerTarget = 0\<rparr> in
      case buf of
        None \<Rightarrow> none
      | Some data \<Rightarrow>
          if length data = 0 then none
          else
            let ack = none\<lparr>ack_commandPending := (data ! 0 AND kTelemetryAckCommandPending \<noteq> 0)\<rparr>
            in if data ! 0 AND kTelemetryAckPowerTarget \<noteq> 0 \<and> length data \<ge> 2 \<and>
                  data ! 1 \<le> kMaxRadioPowerLevel
               then ack\<lparr>ack_hasPowerTarget := True, ack_powerTarget := data ! 1\<rparr>
               else ack)"

subsection \<open>Round trips of telemetry\<close>

text \<open>A report of any profile: which readings may be sent, and their payload bytes.\<close>

datatype Reading =
  RVoltage
  | RTemperature s16
  | RClimateTh s16 u16
  | RClimateThp s16 u16 u16
  | RBinary u8
  | RCounter u32
  | RBinaryClimateTh u8 s16 u16
  | RBinaryTemperature u8 s16

fun encodeReading :: "TelemetryPrefix \<Rightarrow> Reading \<Rightarrow> buffer \<Rightarrow> TelemetryCodecStatus + bytes" where
  "encodeReading p RVoltage out = encodeVoltageTelemetry p out"
| "encodeReading p (RTemperature t) out = encodeTemperatureTelemetry p t out"
| "encodeReading p (RClimateTh t h) out = encodeClimateThTelemetry p t h out"
| "encodeReading p (RClimateThp t h q) out = encodeClimateThpTelemetry p t h q out"
| "encodeReading p (RBinary s) out = encodeBinaryTelemetry p s out"
| "encodeReading p (RCounter c) out = encodeCounterTelemetry p c out"
| "encodeReading p (RBinaryClimateTh s t h) out = encodeBinaryClimateThTelemetry p s t h out"
| "encodeReading p (RBinaryTemperature s t) out = encodeBinaryTemperatureTelemetry p s t out"

fun readingOk :: "Reading \<Rightarrow> bool" where
  "readingOk RVoltage = True"
| "readingOk (RTemperature t) = validTemperature t"
| "readingOk (RClimateTh t h) = (validTemperature t \<and> validHumidity h)"
| "readingOk (RClimateThp t h q) = (validTemperature t \<and> validHumidity h \<and> validPressure q)"
| "readingOk (RBinary s) = (s \<le> 1)"
| "readingOk (RCounter c) = True"
| "readingOk (RBinaryClimateTh s t h) = (s \<le> 1 \<and> validTemperature t \<and> validHumidity h)"
| "readingOk (RBinaryTemperature s t) = (s \<le> 1 \<and> validTemperature t)"

fun readingPayload :: "Reading \<Rightarrow> bytes" where
  "readingPayload RVoltage = []"
| "readingPayload (RTemperature t) = le16 t"
| "readingPayload (RClimateTh t h) = le16 t @ le16 h"
| "readingPayload (RClimateThp t h q) = le16 t @ le16 h @ le16 q"
| "readingPayload (RBinary s) = [s]"
| "readingPayload (RCounter c) = le32 c"
| "readingPayload (RBinaryClimateTh s t h) = [s] @ le16 t @ le16 h"
| "readingPayload (RBinaryTemperature s t) = [s] @ le16 t"

definition prefixImage :: "TelemetryPrefix \<Rightarrow> bytes" where
  "prefixImage p =
     [encodeHeader KTelemetry, tp_radioState p, tp_downlinkRssi p] @ le16 (tp_supplyMillivolts p)"

definition prefixOk :: "TelemetryPrefix \<Rightarrow> bool" where
  "prefixOk p \<longleftrightarrow> tp_radioState p AND kRadioStateReservedMask = 0"

lemma length_prefixImage [simp]: "length (prefixImage p) = 5"
  by (simp add: prefixImage_def)

lemma beginTelemetry_ok:
  "prefixOk p \<Longrightarrow> n \<le> length buf \<Longrightarrow> beginTelemetry p (Some buf) n = Inr (written (prefixImage p) buf)"
  by (simp add: beginTelemetry_def prefixOk_def prefixImage_def Let_def put_start put_written)

lemma beginTelemetry_fails:
  "\<not> prefixOk p \<or> length buf < n \<Longrightarrow> \<exists>e. beginTelemetry p (Some buf) n = Inl e"
  by (auto simp: beginTelemetry_def prefixOk_def)

lemma encodeReading_ok:
  assumes "prefixOk p" and "readingOk r" and "5 + length (readingPayload r) \<le> length buf"
  shows "encodeReading p r (Some buf) = Inr (written (prefixImage p @ readingPayload r) buf)"
  using assms
  by (cases r) (simp_all add: encodeVoltageTelemetry_def encodeTemperatureTelemetry_def
      encodeClimateThTelemetry_def encodeClimateThpTelemetry_def encodeBinaryTelemetry_def
      encodeCounterTelemetry_def encodeBinaryClimateThTelemetry_def
      encodeBinaryTemperatureTelemetry_def beginTelemetry_ok put_written not_less)

lemma encodeReading_fails:
  assumes "\<not> (prefixOk p \<and> readingOk r \<and> 5 + length (readingPayload r) \<le> length buf)"
  shows "\<exists>e. encodeReading p r (Some buf) = Inl e"
proof (cases "readingOk r")
  case True
  with assms have "\<not> prefixOk p \<or> length buf < 5 + length (readingPayload r)" by auto
  from beginTelemetry_fails [OF this] show ?thesis
    using True by (cases r) (auto simp: encodeVoltageTelemetry_def encodeTemperatureTelemetry_def
      encodeClimateThTelemetry_def encodeClimateThpTelemetry_def encodeBinaryTelemetry_def
      encodeCounterTelemetry_def encodeBinaryClimateThTelemetry_def
      encodeBinaryTemperatureTelemetry_def)
next
  case False
  then show ?thesis
    by (cases r) (auto simp: encodeTemperatureTelemetry_def
      encodeClimateThTelemetry_def encodeClimateThpTelemetry_def encodeBinaryTelemetry_def
      encodeBinaryClimateThTelemetry_def
      encodeBinaryTemperatureTelemetry_def)
qed

lemma decodeTelemetry_image:
  assumes "prefixOk p"
  shows "decodeTelemetry (Some (prefixImage p @ payload)) =
    Inr \<lparr>tv_supplyMillivolts = tp_supplyMillivolts p, tv_radioState = tp_radioState p,
         tv_downlinkRssi = tp_downlinkRssi p, tv_profilePayload = payload\<rparr>"
  using assms by (simp add: decodeTelemetry_def prefixOk_def prefixImage_def layout_simps)

text \<open>The node's own radio state byte is always accepted, and the level is read back.\<close>

lemma encodeRadioState_ok: "encodeRadioState level fb AND kRadioStateReservedMask = 0"
proof -
  have "bit (encodeRadioState level fb AND kRadioStateReservedMask) n = False" for n
    by (auto simp: encodeRadioState_def bit_simps bit_numeral_rec split: if_splits)
       (auto simp: bit_numeral_rec split: nat.splits)
  then show ?thesis by (intro bit_word_eqI) simp
qed

text \<open>What is left of an acknowledgement on the air: an out-of-range target is dropped.\<close>

definition normalAck :: "TelemetryAck \<Rightarrow> TelemetryAck" where
  "normalAck ack =
     (if ack_hasPowerTarget ack \<and> ack_powerTarget ack \<le> kMaxRadioPowerLevel then ack
      else ack\<lparr>ack_hasPowerTarget := False, ack_powerTarget := 0\<rparr>)"

lemma ack_roundtrip:
  assumes "2 \<le> length buf"
  shows "case encodeTelemetryAck ack (Some buf) of (n, out) \<Rightarrow>
    decodeTelemetryAck (map_option (take n) out) = normalAck ack"
proof -
  from assms obtain a b rest where buf: "buf = a # b # rest"
    by (cases buf; cases "tl buf") auto
  obtain pending target level where ack: "ack = \<lparr>ack_commandPending = pending,
      ack_hasPowerTarget = target, ack_powerTarget = level\<rparr>"
    by (cases ack) simp
  show ?thesis
    by (cases pending; cases "target \<and> level \<le> 31")
       (auto simp: ack buf encodeTelemetryAck_def decodeTelemetryAck_def normalAck_def put_def)
qed

lemma radioPowerLevel_state: "radioPowerLevel (encodeRadioState level fb) = level AND kRadioPowerLevelMask"
proof (rule bit_word_eqI)
  fix n assume "n < LENGTH(8)"
  show "bit (radioPowerLevel (encodeRadioState level fb)) n = bit (level AND 0x1F) n"
    by (auto simp: radioPowerLevel_def encodeRadioState_def bit_simps bit_numeral_rec
        split: nat.splits)
qed

subsection \<open>GatewayStream.h\<close>

datatype MessageKind = MHello | MSnapshotBegin | MTelemetry | MSnapshotEnd | MRegistryChanged

fun messageKindValue :: "MessageKind \<Rightarrow> u8" where
  "messageKindValue MHello = 1"
| "messageKindValue MSnapshotBegin = 2"
| "messageKindValue MTelemetry = 3"
| "messageKindValue MSnapshotEnd = 4"
| "messageKindValue MRegistryChanged = 5"

abbreviation (input) kStreamVersion :: u8 where "kStreamVersion \<equiv> 1"
abbreviation (input) kIdentitySize :: nat where "kIdentitySize \<equiv> 16"
abbreviation (input) kSnapshotControlFrameSize :: nat where "kSnapshotControlFrameSize \<equiv> 10"
abbreviation (input) kRegistryChangedFrameSize :: nat where "kRegistryChangedFrameSize \<equiv> 10"
abbreviation (input) kTelemetryEnvelopeSize :: nat where "kTelemetryEnvelopeSize \<equiv> 20"
abbreviation (input) kHelloFrameSize :: nat where "kHelloFrameSize \<equiv> 42"

text \<open>The pair is the returned size, 0 for failure, and the output block.\<close>

definition encodeSnapshotControl :: "MessageKind \<Rightarrow> u32 \<Rightarrow> u32 \<Rightarrow> buffer \<Rightarrow> nat \<times> buffer" where
  "encodeSnapshotControl kind sequence registryGeneration output =
     (case output of
        None \<Rightarrow> (0, None)
      | Some out \<Rightarrow>
          if length out < kSnapshotControlFrameSize \<or>
             (kind \<noteq> MSnapshotBegin \<and> kind \<noteq> MSnapshotEnd) then (0, output)
          else
            let out = put out 0 [kStreamVersion];
                out = put out 1 [messageKindValue kind];
                out = put out 2 (le32 sequence);
                out = put out 6 (le32 registryGeneration)
            in (kSnapshotControlFrameSize, Some out))"

definition encodeHello :: "u32 \<Rightarrow> buffer \<Rightarrow> buffer \<Rightarrow> u32 \<Rightarrow> buffer \<Rightarrow> nat \<times> buffer" where
  "encodeHello sequence gatewayId bootId registryGeneration output =
     (case (output, gatewayId, bootId) of
        (Some out, Some gateway, Some boot) \<Rightarrow>
          if length out < kHelloFrameSize then (0, output)
          else
            let out = put out 0 [kStreamVersion];
                out = put out 1 [messageKindValue MHello];
                out = put out 2 (le32 sequence);
                out = put out 6 gateway;
                out = put out 22 boot;
                out = put out 38 (le32 registryGeneration)
            in (kHelloFrameSize, Some out)
      | _ \<Rightarrow> (0, output))"

definition encodeRegistryChanged :: "u32 \<Rightarrow> u32 \<Rightarrow> buffer \<Rightarrow> nat \<times> buffer" where
  "encodeRegistryChanged sequence registryGeneration output =
     (case output of
        None \<Rightarrow> (0, None)
      | Some out \<Rightarrow>
          if length out < kRegistryChangedFrameSize then (0, output)
          else
            let out = put out 0 [kStreamVersion];
                out = put out 1 [messageKindValue MRegistryChanged];
                out = put out 2 (le32 sequence);
                out = put out 6 (le32 registryGeneration)
            in (kRegistryChangedFrameSize, Some out))"

definition encodeStreamTelemetry ::
    "u32 \<Rightarrow> u8 \<Rightarrow> u16 \<Rightarrow> u64 \<Rightarrow> s16 \<Rightarrow> buffer \<Rightarrow> nat \<Rightarrow> buffer \<Rightarrow> nat \<times> buffer" where
  "encodeStreamTelemetry sequence nodeId profileId receivedAtUnixMs rssi payload payloadSize output =
     (let requiredSize = kTelemetryEnvelopeSize + payloadSize in
      case output of
        None \<Rightarrow> (0, None)
      | Some out \<Rightarrow>
          if length out < requiredSize \<or> payloadSize > 255 \<or> (payloadSize \<noteq> 0 \<and> payload = None)
          then (0, output)
          else
            let out = put out 0 [kStreamVersion];
                out = put out 1 [messageKindValue MTelemetry];
                out = put out 2 (le32 sequence);
                out = put out 6 [nodeId];
                out = put out 7 (le16 profileId);
                out = put out 9 (le64 receivedAtUnixMs);
                out = put out 17 (le16 rssi);
                out = put out 19 [of_nat payloadSize];
                out = (if payloadSize = 0 then out
                       else put out kTelemetryEnvelopeSize (take payloadSize (the payload)))
            in (requiredSize, Some out))"

text \<open>The layouts of gateway/WEBSOCKET.md.\<close>

definition streamControlImage :: "MessageKind \<Rightarrow> u32 \<Rightarrow> u32 \<Rightarrow> bytes" where
  "streamControlImage kind sequence generation =
     [kStreamVersion, messageKindValue kind] @ le32 sequence @ le32 generation"

definition helloImage :: "u32 \<Rightarrow> bytes \<Rightarrow> bytes \<Rightarrow> u32 \<Rightarrow> bytes" where
  "helloImage sequence gateway boot generation =
     [kStreamVersion, messageKindValue MHello] @ le32 sequence @ gateway @ boot @ le32 generation"

definition streamTelemetryImage ::
    "u32 \<Rightarrow> u8 \<Rightarrow> u16 \<Rightarrow> u64 \<Rightarrow> s16 \<Rightarrow> bytes \<Rightarrow> bytes" where
  "streamTelemetryImage sequence nodeId profileId receivedAt rssi payload =
     [kStreamVersion, messageKindValue MTelemetry] @ le32 sequence @ [nodeId] @ le16 profileId @
     le64 receivedAt @ le16 rssi @ [of_nat (length payload)] @ payload"

lemma encodeSnapshotControl_image:
  "kind \<in> {MSnapshotBegin, MSnapshotEnd} \<Longrightarrow> 10 \<le> length buf \<Longrightarrow>
   encodeSnapshotControl kind s g (Some buf) = (10, Some (written (streamControlImage kind s g) buf))"
  by (auto simp: encodeSnapshotControl_def streamControlImage_def Let_def put_start put_written)

lemma encodeRegistryChanged_image:
  "10 \<le> length buf \<Longrightarrow>
   encodeRegistryChanged s g (Some buf) =
     (10, Some (written (streamControlImage MRegistryChanged s g) buf))"
  by (auto simp: encodeRegistryChanged_def streamControlImage_def Let_def put_start put_written)

lemma encodeHello_image:
  "length gateway = 16 \<Longrightarrow> length boot = 16 \<Longrightarrow> 42 \<le> length buf \<Longrightarrow>
   encodeHello s (Some gateway) (Some boot) g (Some buf) =
     (42, Some (written (helloImage s gateway boot g) buf))"
  by (auto simp: encodeHello_def helloImage_def Let_def put_start put_written)

lemma encodeStreamTelemetry_image:
  "length payload \<le> 255 \<Longrightarrow> 20 + length payload \<le> length buf \<Longrightarrow>
   encodeStreamTelemetry s n p t r (Some payload) (length payload) (Some buf) =
     (20 + length payload, Some (written (streamTelemetryImage s n p t r payload) buf))"
  by (auto simp: encodeStreamTelemetry_def streamTelemetryImage_def Let_def put_start put_written)

lemma le64_inject [simp]: "le64 v = le64 w \<longleftrightarrow> v = w"
  by (metis get64_le64(1))

lemma streamTelemetryImage_inject:
  assumes "streamTelemetryImage s n p t r x = streamTelemetryImage s' n' p' t' r' x'"
  shows "s = s' \<and> n = n' \<and> p = p' \<and> t = t' \<and> r = r' \<and> x = x'"
  using assms by (auto simp: streamTelemetryImage_def)

subsection \<open>RadioAes.h\<close>

text \<open>The radio library is not part of the repository: its register operations are
  parameters.\<close>

record 'r radio_registers =
  rr_setMode :: "u8 \<Rightarrow> 'r \<Rightarrow> 'r"
  rr_writeReg :: "u8 \<Rightarrow> u8 \<Rightarrow> 'r \<Rightarrow> 'r"
  rr_readReg :: "u8 \<Rightarrow> 'r \<Rightarrow> u8"

abbreviation (input) kStandbyMode :: u8 where "kStandbyMode \<equiv> 1"
abbreviation (input) kPacketConfig2Register :: u8 where "kPacketConfig2Register \<equiv> 0x3D"
abbreviation (input) kAesKey1Register :: u8 where "kAesKey1Register \<equiv> 0x3E"
abbreviation (input) kAesOn :: u8 where "kAesOn \<equiv> 1"

definition aesEnable :: "'r radio_registers \<Rightarrow> bytes \<Rightarrow> 'r \<Rightarrow> 'r" where
  "aesEnable ops key radio =
     (let radio = rr_setMode ops kStandbyMode radio;
          radio = fold (\<lambda>i. rr_writeReg ops (kAesKey1Register + of_nat i) (key ! i)) [0..<16] radio
      in rr_writeReg ops kPacketConfig2Register
           (rr_readReg ops kPacketConfig2Register radio OR kAesOn) radio)"

end
