(* ===== verification/Power_Control.thy ===== *)
theory Power_Control
  imports Telemetry_Codecs "HOL-Library.Signed_Division"
begin

text \<open>
  Transmit power control.  The gateway's side is
  shared/RadioProtocol/include/RadioPowerControl.h (the policy stored per node and the
  controller fed with each report), the node's side is
  node/lib/NodeCore/include/RadioPowerState.h.  \<open>rssiSum\<close> is an \<open>int\<close>: the bound
  proved below keeps it far inside the source's \<open>int32_t\<close>, so the source never
  overflows.  C++ division truncates, which is \<open>sdiv\<close>.
\<close>

subsection \<open>RadioPowerControl.h: policies\<close>

abbreviation (input) kPolicyAuto :: u8 where "kPolicyAuto \<equiv> 0"
abbreviation (input) kNoLevel :: u8 where "kNoLevel \<equiv> 0xFF"
abbreviation (input) kTargetRssiLow :: int where "kTargetRssiLow \<equiv> -85"
abbreviation (input) kTargetRssiHigh :: int where "kTargetRssiHigh \<equiv> -75"
abbreviation (input) kTargetRssiCenter :: int where "kTargetRssiCenter \<equiv> -80"
abbreviation (input) kReportsPerDecision :: u8 where "kReportsPerDecision \<equiv> 3"
abbreviation (input) kMaxStepDown :: u8 where "kMaxStepDown \<equiv> 3"
abbreviation (input) kMaxStepUp :: u8 where "kMaxStepUp \<equiv> 6"
abbreviation (input) kFallbackMargin :: u8 where "kFallbackMargin \<equiv> 3"

definition fixedPolicy :: "u8 \<Rightarrow> u8" where
  "fixedPolicy level = level + 1"

definition isFixedPolicy :: "u8 \<Rightarrow> bool" where
  "isFixedPolicy policy \<longleftrightarrow> policy \<noteq> kPolicyAuto"

definition fixedLevel :: "u8 \<Rightarrow> u8" where
  "fixedLevel policy = policy - 1"

definition validPolicy :: "u8 \<Rightarrow> bool" where
  "validPolicy policy \<longleftrightarrow> unat policy \<le> unat kMaxRadioPowerLevel + 1"

lemma fixedLevel_fixedPolicy [simp]: "fixedLevel (fixedPolicy l) = l"
  by (simp add: fixedLevel_def fixedPolicy_def)

lemma fixedPolicy_valid: "l \<le> kMaxRadioPowerLevel \<Longrightarrow> validPolicy (fixedPolicy l) \<and> isFixedPolicy (fixedPolicy l)"
proof
  assume "l \<le> kMaxRadioPowerLevel"
  then have l: "unat l \<le> 31" by (simp add: word_le_nat_alt)
  then have u: "unat (fixedPolicy l) = unat l + 1"
    by (simp add: fixedPolicy_def unat_word_ariths)
  with l show "validPolicy (fixedPolicy l)" by (simp add: validPolicy_def)
  from u show "isFixedPolicy (fixedPolicy l)" by (auto simp: isFixedPolicy_def)
qed

subsection \<open>RadioPowerControl.h: the controller\<close>

record Report =
  rp_level :: u8
  rp_fallback :: bool
  rp_rssi :: s16

record ControlState =
  cs_known :: bool
  cs_reportedLevel :: u8
  cs_fallback :: bool
  cs_reports :: u8
  cs_rssiSum :: int
  cs_floor :: u8
  cs_desired :: u8

text \<open>\<open>ControlState{}\<close>.\<close>

definition initialControl :: ControlState where
  "initialControl = \<lparr>cs_known = False, cs_reportedLevel = 0, cs_fallback = False, cs_reports = 0,
     cs_rssiSum = 0, cs_floor = 0, cs_desired = 0\<rparr>"

definition minLevel :: "u8 \<Rightarrow> u8 \<Rightarrow> u8" where
  "minLevel left right = (if left < right then left else right)"

definition changePolicy :: "ControlState \<Rightarrow> u8 \<Rightarrow> u8 \<Rightarrow> ControlState \<times> u8" where
  "changePolicy state policy ceiling =
     (let state = state\<lparr>cs_reports := 0, cs_rssiSum := 0\<rparr> in
      if isFixedPolicy policy then
        let state = state\<lparr>cs_desired := minLevel (fixedLevel policy) ceiling\<rparr>
        in (state, cs_desired state)
      else if cs_known state then
        let state = state\<lparr>cs_desired := minLevel (cs_reportedLevel state) ceiling\<rparr>
        in (state, cs_desired state)
      else (state, kNoLevel))"

text \<open>The level asked for once the average of the reports is known.\<close>

definition autoLevel :: "int \<Rightarrow> u8 \<Rightarrow> u8 \<Rightarrow> u8" where
  "autoLevel average level desired =
     (if average > kTargetRssiHigh then
        let excess = average - kTargetRssiCenter;
            step = (if excess > uint kMaxStepDown then kMaxStepDown else word_of_int excess)
        in (if level > step then level - step else 0)
      else if average < kTargetRssiLow then
        let deficit = kTargetRssiCenter - average;
            step = (if deficit > uint kMaxStepUp then kMaxStepUp else word_of_int deficit)
        in level + step
      else desired)"

definition observe :: "ControlState \<Rightarrow> u8 \<Rightarrow> u8 \<Rightarrow> Report \<Rightarrow> ControlState \<times> u8" where
  "observe state policy ceiling report =
     (let state = (if rp_fallback report \<and> cs_known state \<and> \<not> cs_fallback state
                   then state\<lparr>cs_floor := minLevel ceiling (cs_reportedLevel state + kFallbackMargin)\<rparr>
                   else state);
          state = (if \<not> cs_known state \<or> rp_level report \<noteq> cs_reportedLevel state
                   then state\<lparr>cs_reports := 0, cs_rssiSum := 0\<rparr> else state);
          keepDesired = (cs_known state \<and> \<not> rp_fallback report);
          state = state\<lparr>cs_known := True, cs_reportedLevel := rp_level report,
                        cs_fallback := rp_fallback report\<rparr>;
          state = (if cs_reports state < 255
                   then state\<lparr>cs_reports := cs_reports state + 1,
                              cs_rssiSum := cs_rssiSum state + sint (rp_rssi report)\<rparr>
                   else state);
          desired = (if keepDesired then cs_desired state else rp_level report);
          desired = (if isFixedPolicy policy then fixedLevel policy
                     else if cs_reports state \<ge> kReportsPerDecision then
                       let average = cs_rssiSum state sdiv uint (cs_reports state);
                           desired = autoLevel average (rp_level report) desired
                       in (if desired < cs_floor state then cs_floor state else desired)
                     else desired);
          state = state\<lparr>cs_desired := minLevel desired ceiling\<rparr>
      in (state, cs_desired state))"

subsection \<open>RadioPowerState.h: the node\<close>

abbreviation (input) kFallbackReports :: u8 where "kFallbackReports \<equiv> 3"
abbreviation (input) kTelemetryAttempts :: u8 where "kTelemetryAttempts \<equiv> 3"

definition telemetryAttempts :: "u8 \<Rightarrow> bool \<Rightarrow> u8" where
  "telemetryAttempts unacknowledgedReports urgent =
     (if urgent \<or> unacknowledgedReports < kFallbackReports then kTelemetryAttempts else 1)"

record PowerDecision =
  pd_change :: bool
  pd_level :: u8
  pd_fallback :: bool

definition afterAcknowledged :: "u8 \<Rightarrow> bool \<Rightarrow> bool \<Rightarrow> u8 \<Rightarrow> u8 \<Rightarrow> PowerDecision" where
  "afterAcknowledged level fallback hasTarget target ceiling =
     (if \<not> hasTarget then \<lparr>pd_change = False, pd_level = level, pd_fallback = fallback\<rparr>
      else
        let wanted = (if target > ceiling then ceiling else target) in
        if wanted = level \<and> \<not> fallback
        then \<lparr>pd_change = False, pd_level = level, pd_fallback = fallback\<rparr>
        else \<lparr>pd_change = True, pd_level = wanted, pd_fallback = False\<rparr>)"

definition afterUnacknowledged :: "u8 \<Rightarrow> bool \<Rightarrow> u8 \<Rightarrow> u8 \<Rightarrow> PowerDecision" where
  "afterUnacknowledged level fallback failures ceiling =
     (if failures < kFallbackReports \<or> level \<ge> ceiling
      then \<lparr>pd_change = False, pd_level = level, pd_fallback = fallback\<rparr>
      else \<lparr>pd_change = True, pd_level = ceiling, pd_fallback = True\<rparr>)"

subsection \<open>Bounds\<close>

lemma minLevel_le [simp]: "minLevel a b \<le> b" "minLevel a b \<le> a"
  by (auto simp: minLevel_def)

lemma unat_minLevel [simp]: "unat (minLevel a b) = min (unat a) (unat b)"
  by (auto simp: minLevel_def min_def word_less_nat_alt)

lemma observe_desired: "snd (observe s p c r) = cs_desired (fst (observe s p c r))"
  by (simp add: observe_def Let_def)

lemma observe_le_ceiling: "snd (observe s p c r) \<le> c"
  by (simp add: observe_def Let_def)

lemma observe_fields [simp]:
  "cs_known (fst (observe s p c r))" "cs_reportedLevel (fst (observe s p c r)) = rp_level r"
  "cs_fallback (fst (observe s p c r)) = rp_fallback r"
  by (simp_all add: observe_def Let_def)

text \<open>The accumulated sum is at most 255 readings, so \<open>int32_t\<close> holds it.\<close>

definition sum_bounded :: "ControlState \<Rightarrow> bool" where
  "sum_bounded s \<longleftrightarrow> \<bar>cs_rssiSum s\<bar> \<le> 32768 * int (unat (cs_reports s))"

lemma sint_s16_bound: "\<bar>sint (x :: s16)\<bar> \<le> 32768"
  using sint_range_size [of x] by (auto simp: word_size)

lemma sum_bounded_initial: "sum_bounded initialControl"
  by (simp add: sum_bounded_def initialControl_def)

lemma sum_bounded_step: "sum_bounded s \<Longrightarrow> sum_bounded (fst (observe s p c r))"
proof -
  assume s: "sum_bounded s"
  have suc: "n < 255 \<Longrightarrow> uint (n + 1) = uint n + 1" for n :: u8
    by (simp add: word_less_def uint_word_ariths)
  show ?thesis
    using s sint_s16_bound [of "rp_rssi r"]
    by (auto simp: observe_def Let_def sum_bounded_def suc)
qed

lemma sum_bounded_changePolicy: "sum_bounded (fst (changePolicy s p c))"
  by (simp add: changePolicy_def Let_def sum_bounded_def)

text \<open>Outside the window the excess is always larger than the step: the controller moves by
  exactly 3 down or 6 up.\<close>

lemma autoLevel_cases:
  "autoLevel average level desired =
     (if average > -75 then (if level > 3 then level - 3 else 0)
      else if average < -85 then level + 6 else desired)"
proof (cases "average = -86")
  case False
  then have "\<not> 86 < - average \<Longrightarrow> \<not> average < - 85" by simp
  then show ?thesis by (auto simp: autoLevel_def Let_def)
qed (simp add: autoLevel_def)

lemma afterAcknowledged_le: "level \<le> c \<Longrightarrow> pd_level (afterAcknowledged level fb h t c) \<le> c"
  by (auto simp: afterAcknowledged_def Let_def)

lemma afterUnacknowledged_le: "level \<le> c \<Longrightarrow> pd_level (afterUnacknowledged level fb n c) \<le> c"
  by (auto simp: afterUnacknowledged_def)

end
