(* ===== verification/Command_Codecs.thy ===== *)
theory Command_Codecs
  imports Frame_Codecs
begin

text \<open>
  Command sessions and the commands themselves:
  shared/RadioProtocol/include/CommandSessionFrames.h and ProfileIds.h.  An enum that the
  code fills by an unchecked cast from a stored byte has, besides the source's values, a
  constructor for a byte that names none of them (\<open>CommandStatusRaw\<close>,
  \<open>CommandTypeRaw\<close>).  A bool result with an output parameter is \<open>unit + 'a\<close>, with
  \<open>Inl ()\<close> for false.
\<close>

subsection \<open>ProfileIds.h\<close>

datatype ProfileId =
  Voltage | Temperature | ClimateTh | ClimateThp | Binary | PulseCounter
  | BinaryClimateTh | BinaryTemperature

fun profileIdValue :: "ProfileId \<Rightarrow> u16" where
  "profileIdValue Voltage = 1"
| "profileIdValue Temperature = 2"
| "profileIdValue ClimateTh = 3"
| "profileIdValue ClimateThp = 4"
| "profileIdValue Binary = 5"
| "profileIdValue PulseCounter = 6"
| "profileIdValue BinaryClimateTh = 7"
| "profileIdValue BinaryTemperature = 8"

subsection \<open>Types\<close>

abbreviation (input) kCommandReadySize :: nat where "kCommandReadySize \<equiv> 5"
abbreviation (input) kCommandEnvelopeSize :: nat where "kCommandEnvelopeSize \<equiv> 8"
abbreviation (input) kMaxCommandArgumentSize :: nat where "kMaxCommandArgumentSize \<equiv> 8"
abbreviation (input) kMaxCommandResultDataSize :: nat where "kMaxCommandResultDataSize \<equiv> 8"
abbreviation (input) kMaxCommandSize :: nat where "kMaxCommandSize \<equiv> 16"
abbreviation (input) kMaxCommandResultSize :: nat where "kMaxCommandResultSize \<equiv> 16"
abbreviation (input) kSetCountArgumentSize :: nat where "kSetCountArgumentSize \<equiv> 4"
abbreviation (input) kSetCountResultSize :: nat where "kSetCountResultSize \<equiv> 8"
abbreviation (input) kReadInfoResultSize :: nat where "kReadInfoResultSize \<equiv> 6"

datatype CommandType = SetCount | ReadInfo | CommandTypeRaw u8

datatype CommandStatus =
  Applied | Unsupported | InvalidArgument | StorageFailure | CommandStatusRaw u8

fun commandTypeValue :: "CommandType \<Rightarrow> u8" where
  "commandTypeValue SetCount = 1"
| "commandTypeValue ReadInfo = 2"
| "commandTypeValue (CommandTypeRaw b) = b"

definition commandTypeOf :: "u8 \<Rightarrow> CommandType" where
  "commandTypeOf b =
     (if b = 1 then SetCount else if b = 2 then ReadInfo else CommandTypeRaw b)"

fun commandStatusValue :: "CommandStatus \<Rightarrow> u8" where
  "commandStatusValue Applied = 0"
| "commandStatusValue Unsupported = 1"
| "commandStatusValue InvalidArgument = 2"
| "commandStatusValue StorageFailure = 3"
| "commandStatusValue (CommandStatusRaw b) = b"

definition commandStatusOf :: "u8 \<Rightarrow> CommandStatus" where
  "commandStatusOf b =
     (if b = 0 then Applied else if b = 1 then Unsupported
      else if b = 2 then InvalidArgument else if b = 3 then StorageFailure
      else CommandStatusRaw b)"

lemma commandStatusValue_Of [simp]: "commandStatusValue (commandStatusOf b) = b"
  by (simp add: commandStatusOf_def)

lemma commandTypeValue_Of [simp]: "commandTypeValue (commandTypeOf b) = b"
  by (simp add: commandTypeOf_def)

record Command =
  cmd_sessionNonce :: u32
  cmd_commandId :: u16
  cmd_type :: u8
  cmd_argumentSize :: u8
  cmd_arguments :: bytes

record CommandResult =
  cr_sessionNonce :: u32
  cr_commandId :: u16
  cr_status :: CommandStatus
  cr_dataSize :: u8
  cr_data :: bytes

record NodeInfo =
  ni_profileId :: u16
  ni_firmware :: FirmwareVersion
  ni_maxPowerLevel :: u8

text \<open>\<open>Command command{}\<close> and \<open>CommandResult result{}\<close>.\<close>

definition emptyCommand :: Command where
  "emptyCommand = \<lparr>cmd_sessionNonce = 0, cmd_commandId = 0, cmd_type = 0, cmd_argumentSize = 0,
     cmd_arguments = zeros kMaxCommandArgumentSize\<rparr>"

definition emptyCommandResult :: CommandResult where
  "emptyCommandResult = \<lparr>cr_sessionNonce = 0, cr_commandId = 0, cr_status = Applied,
     cr_dataSize = 0, cr_data = zeros kMaxCommandResultDataSize\<rparr>"

datatype CommandSessionCodecStatus =
  CS_OutputTooSmall | CS_EmptyFrame | CS_UnsupportedVersion | CS_UnsupportedKind
  | CS_WrongFrameKind | CS_WrongLength | CS_InvalidCommandId | CS_InvalidStatus

fun mapCommandSessionFrameStatus :: "DecodeStatus \<Rightarrow> CommandSessionCodecStatus" where
  "mapCommandSessionFrameStatus EmptyFrame = CS_EmptyFrame"
| "mapCommandSessionFrameStatus UnsupportedVersion = CS_UnsupportedVersion"
| "mapCommandSessionFrameStatus UnsupportedKind = CS_UnsupportedKind"

subsection \<open>Session frames\<close>

definition encodeCommandSessionFrame ::
    "FrameKind \<Rightarrow> u32 \<Rightarrow> buffer \<Rightarrow> CommandSessionCodecStatus + bytes" where
  "encodeCommandSessionFrame kind sessionNonce output =
     (case output of
        None \<Rightarrow> Inl CS_OutputTooSmall
      | Some out \<Rightarrow>
          if length out < kCommandReadySize then Inl CS_OutputTooSmall
          else
            let out = put out 0 [encodeHeader kind];
                out = put out 1 (le32 sessionNonce)
            in Inr out)"

definition decodeCommandSessionFrame ::
    "buffer \<Rightarrow> FrameKind \<Rightarrow> CommandSessionCodecStatus + u32" where
  "decodeCommandSessionFrame buf expectedKind =
     (case decodeFrame buf of
        Inl frameStatus \<Rightarrow> Inl (mapCommandSessionFrameStatus frameStatus)
      | Inr frame \<Rightarrow>
          if fv_kind frame \<noteq> expectedKind then Inl CS_WrongFrameKind
          else
            let data = the buf in
            if length data \<noteq> kCommandReadySize then Inl CS_WrongLength
            else Inr (get32 data 1))"

definition encodeCommandReady :: "u32 \<Rightarrow> buffer \<Rightarrow> CommandSessionCodecStatus + bytes" where
  "encodeCommandReady sessionNonce output =
     encodeCommandSessionFrame KCommandReady sessionNonce output"

definition decodeCommandReady :: "buffer \<Rightarrow> CommandSessionCodecStatus + u32" where
  "decodeCommandReady buf = decodeCommandSessionFrame buf KCommandReady"

definition encodeNoCommand :: "u32 \<Rightarrow> buffer \<Rightarrow> CommandSessionCodecStatus + bytes" where
  "encodeNoCommand sessionNonce output =
     encodeCommandSessionFrame KNoCommand sessionNonce output"

definition decodeNoCommand :: "buffer \<Rightarrow> CommandSessionCodecStatus + u32" where
  "decodeNoCommand buf = decodeCommandSessionFrame buf KNoCommand"

subsection \<open>Commands and results\<close>

definition commandFrameSize :: "Command \<Rightarrow> nat" where
  "commandFrameSize command = kCommandEnvelopeSize + unat (cmd_argumentSize command)"

definition commandResultFrameSize :: "CommandResult \<Rightarrow> nat" where
  "commandResultFrameSize result = kCommandEnvelopeSize + unat (cr_dataSize result)"

definition encodeCommand :: "Command \<Rightarrow> buffer \<Rightarrow> CommandSessionCodecStatus + bytes" where
  "encodeCommand command output =
     (if cmd_commandId command = 0 then Inl CS_InvalidCommandId
      else if unat (cmd_argumentSize command) > kMaxCommandArgumentSize then Inl CS_WrongLength
      else case output of
        None \<Rightarrow> Inl CS_OutputTooSmall
      | Some out \<Rightarrow>
          if length out < commandFrameSize command then Inl CS_OutputTooSmall
          else
            let out = put out 0 [encodeHeader KCommand];
                out = put out 1 (le32 (cmd_sessionNonce command));
                out = put out 5 (le16 (cmd_commandId command));
                out = put out 7 [cmd_type command];
                out = put out kCommandEnvelopeSize
                        (take (unat (cmd_argumentSize command)) (cmd_arguments command))
            in Inr out)"

text \<open>The decoder writes only the argument bytes the frame carries; the rest of the
  caller's \<open>arguments\<close> array keeps its contents.\<close>

definition decodeCommand :: "buffer \<Rightarrow> Command \<Rightarrow> CommandSessionCodecStatus + Command" where
  "decodeCommand buf command =
     (case decodeFrame buf of
        Inl frameStatus \<Rightarrow> Inl (mapCommandSessionFrameStatus frameStatus)
      | Inr frame \<Rightarrow>
          if fv_kind frame \<noteq> KCommand then Inl CS_WrongFrameKind
          else
            let data = the buf in
            if length data < kCommandEnvelopeSize \<or> length data > kMaxCommandSize
            then Inl CS_WrongLength
            else
              let commandId = get16 data 5 in
              if commandId = 0 then Inl CS_InvalidCommandId
              else
                let argumentSize = (of_nat (length data - kCommandEnvelopeSize) :: u8) in
                Inr (command\<lparr>
                  cmd_sessionNonce := get32 data 1,
                  cmd_commandId := commandId,
                  cmd_type := data ! 7,
                  cmd_argumentSize := argumentSize,
                  cmd_arguments := put (cmd_arguments command) 0
                    (chunk data kCommandEnvelopeSize (unat argumentSize))\<rparr>))"

definition validCommandStatus :: "u8 \<Rightarrow> bool" where
  "validCommandStatus status \<longleftrightarrow> status \<le> commandStatusValue StorageFailure"

definition encodeCommandResult ::
    "CommandResult \<Rightarrow> buffer \<Rightarrow> CommandSessionCodecStatus + bytes" where
  "encodeCommandResult result output =
     (if cr_commandId result = 0 then Inl CS_InvalidCommandId
      else if \<not> validCommandStatus (commandStatusValue (cr_status result)) then Inl CS_InvalidStatus
      else if unat (cr_dataSize result) > kMaxCommandResultDataSize then Inl CS_WrongLength
      else case output of
        None \<Rightarrow> Inl CS_OutputTooSmall
      | Some out \<Rightarrow>
          if length out < commandResultFrameSize result then Inl CS_OutputTooSmall
          else
            let out = put out 0 [encodeHeader KCommandResult];
                out = put out 1 (le32 (cr_sessionNonce result));
                out = put out 5 (le16 (cr_commandId result));
                out = put out 7 [commandStatusValue (cr_status result)];
                out = put out kCommandEnvelopeSize
                        (take (unat (cr_dataSize result)) (cr_data result))
            in Inr out)"

definition decodeCommandResult ::
    "buffer \<Rightarrow> CommandResult \<Rightarrow> CommandSessionCodecStatus + CommandResult" where
  "decodeCommandResult buf result =
     (case decodeFrame buf of
        Inl frameStatus \<Rightarrow> Inl (mapCommandSessionFrameStatus frameStatus)
      | Inr frame \<Rightarrow>
          if fv_kind frame \<noteq> KCommandResult then Inl CS_WrongFrameKind
          else
            let data = the buf in
            if length data < kCommandEnvelopeSize \<or> length data > kMaxCommandResultSize
            then Inl CS_WrongLength
            else
              let commandId = get16 data 5 in
              if commandId = 0 then Inl CS_InvalidCommandId
              else if \<not> validCommandStatus (data ! 7) then Inl CS_InvalidStatus
              else
                let dataSize = (of_nat (length data - kCommandEnvelopeSize) :: u8) in
                Inr (result\<lparr>
                  cr_sessionNonce := get32 data 1,
                  cr_commandId := commandId,
                  cr_status := commandStatusOf (data ! 7),
                  cr_dataSize := dataSize,
                  cr_data := put (cr_data result) 0
                    (chunk data kCommandEnvelopeSize (unat dataSize))\<rparr>))"

subsection \<open>Arguments, results and identities\<close>

definition commandArgumentSize :: "u8 \<Rightarrow> nat option" where
  "commandArgumentSize type =
     (case commandTypeOf type of
        SetCount \<Rightarrow> Some kSetCountArgumentSize
      | ReadInfo \<Rightarrow> Some 0
      | CommandTypeRaw _ \<Rightarrow> None)"

definition validCommandArguments :: "u8 \<Rightarrow> buffer \<Rightarrow> nat \<Rightarrow> bool" where
  "validCommandArguments type arguments argSize =
     (case commandArgumentSize type of
        None \<Rightarrow> False
      | Some expected \<Rightarrow> argSize = expected \<and> (argSize = 0 \<or> arguments \<noteq> None))"

definition commandResultDataSize :: "CommandType \<Rightarrow> CommandStatus \<Rightarrow> nat" where
  "commandResultDataSize type status =
     (if status \<noteq> Applied then 0
      else case type of
        SetCount \<Rightarrow> kSetCountResultSize
      | ReadInfo \<Rightarrow> kReadInfoResultSize
      | CommandTypeRaw _ \<Rightarrow> 0)"

definition profileSupportsCommand :: "u16 \<Rightarrow> CommandType \<Rightarrow> bool" where
  "profileSupportsCommand profileId type =
     (case type of
        SetCount \<Rightarrow> profileId = profileIdValue PulseCounter
      | ReadInfo \<Rightarrow> True
      | CommandTypeRaw _ \<Rightarrow> False)"

definition encodeNodeInfo :: "NodeInfo \<Rightarrow> buffer \<Rightarrow> unit + bytes" where
  "encodeNodeInfo info output =
     (case output of
        None \<Rightarrow> Inl ()
      | Some out \<Rightarrow>
          if length out < kReadInfoResultSize \<or> ni_profileId info = kUnassignedProfileId \<or>
             ni_maxPowerLevel info > kMaxRadioPowerLevel then Inl ()
          else
            let out = put out 0 (le16 (ni_profileId info));
                out = put out 2 [fw_major (ni_firmware info)];
                out = put out 3 [fw_minor (ni_firmware info)];
                out = put out 4 [fw_patch (ni_firmware info)];
                out = put out 5 [ni_maxPowerLevel info]
            in Inr out)"

definition decodeNodeInfo :: "buffer \<Rightarrow> unit + NodeInfo" where
  "decodeNodeInfo buf =
     (case buf of
        None \<Rightarrow> Inl ()
      | Some data \<Rightarrow>
          if length data \<noteq> kReadInfoResultSize then Inl ()
          else
            let profileId = get16 data 0 in
            if profileId = kUnassignedProfileId \<or> data ! 5 > kMaxRadioPowerLevel then Inl ()
            else Inr \<lparr>ni_profileId = profileId,
                      ni_firmware = \<lparr>fw_major = data ! 2, fw_minor = data ! 3,
                                     fw_patch = data ! 4\<rparr>,
                      ni_maxPowerLevel = data ! 5\<rparr>)"

subsection \<open>Wire layouts\<close>

definition sessionImage :: "FrameKind \<Rightarrow> u32 \<Rightarrow> bytes" where
  "sessionImage kind nonce = [encodeHeader kind] @ le32 nonce"

definition commandImage :: "Command \<Rightarrow> bytes" where
  "commandImage c =
     [encodeHeader KCommand] @ le32 (cmd_sessionNonce c) @ le16 (cmd_commandId c) @ [cmd_type c] @
     take (unat (cmd_argumentSize c)) (cmd_arguments c)"

text \<open>A command as the decoder leaves it in a cleared \<open>Command\<close>: the bytes behind the
  arguments are zero.\<close>

definition commandOk :: "Command \<Rightarrow> bool" where
  "commandOk c \<longleftrightarrow> cmd_commandId c \<noteq> 0 \<and> unat (cmd_argumentSize c) \<le> kMaxCommandArgumentSize \<and>
     length (cmd_arguments c) = kMaxCommandArgumentSize \<and>
     allZero (drop (unat (cmd_argumentSize c)) (cmd_arguments c))"

definition commandResultImage :: "CommandResult \<Rightarrow> bytes" where
  "commandResultImage r =
     [encodeHeader KCommandResult] @ le32 (cr_sessionNonce r) @ le16 (cr_commandId r) @
     [commandStatusValue (cr_status r)] @ take (unat (cr_dataSize r)) (cr_data r)"

definition commandResultOk :: "CommandResult \<Rightarrow> bool" where
  "commandResultOk r \<longleftrightarrow> cr_commandId r \<noteq> 0 \<and>
     cr_status r \<in> {Applied, Unsupported, InvalidArgument, StorageFailure} \<and>
     unat (cr_dataSize r) \<le> kMaxCommandResultDataSize \<and>
     length (cr_data r) = kMaxCommandResultDataSize \<and>
     allZero (drop (unat (cr_dataSize r)) (cr_data r))"

definition nodeInfoImage :: "NodeInfo \<Rightarrow> bytes" where
  "nodeInfoImage i =
     le16 (ni_profileId i) @ [fw_major (ni_firmware i), fw_minor (ni_firmware i),
       fw_patch (ni_firmware i), ni_maxPowerLevel i]"

definition nodeInfoOk :: "NodeInfo \<Rightarrow> bool" where
  "nodeInfoOk i \<longleftrightarrow> ni_profileId i \<noteq> kUnassignedProfileId \<and> ni_maxPowerLevel i \<le> kMaxRadioPowerLevel"

lemma validCommandStatus_iff:
  "validCommandStatus b \<longleftrightarrow>
   commandStatusOf b \<in> {Applied, Unsupported, InvalidArgument, StorageFailure}"
proof -
  have "b \<le> 3 \<longleftrightarrow> b = 0 \<or> b = 1 \<or> b = 2 \<or> b = 3" for b :: u8
  proof
    assume "b \<le> 3"
    then have "unat b \<le> 3" by (simp add: word_le_nat_alt)
    moreover obtain n where b: "b = word_of_nat n" and n: "n = unat b"
      using that [of "unat b"] by simp
    ultimately have "n = 0 \<or> n = 1 \<or> n = 2 \<or> n = 3" by arith
    with b show "b = 0 \<or> b = 1 \<or> b = 2 \<or> b = 3" by auto
  qed auto
  then show ?thesis by (simp add: validCommandStatus_def commandStatusOf_def)
qed

lemma commandStatusOf_value:
  "s \<in> {Applied, Unsupported, InvalidArgument, StorageFailure} \<Longrightarrow>
   commandStatusOf (commandStatusValue s) = s"
  by (auto simp: commandStatusOf_def)

lemma validCommandStatus_value:
  "s \<in> {Applied, Unsupported, InvalidArgument, StorageFailure} \<Longrightarrow>
   validCommandStatus (commandStatusValue s)"
  by (auto simp: validCommandStatus_def)

text \<open>Restoring a zero-padded array from its used part.\<close>

lemma put_zeros_prefix:
  "length xs = n \<Longrightarrow> allZero (drop k xs) \<Longrightarrow> k \<le> n \<Longrightarrow> put (zeros n) 0 (take k xs) = xs"
  by (metis allZero_iff append_take_drop_id drop_replicate length_drop length_take min_absorb2
      put_start written_def)

interpretation commandReady:
  wire_codec encodeCommandReady decodeCommandReady "sessionImage KCommandReady" "\<lambda>_. True"
proof
  fix v buf
  show "length (sessionImage KCommandReady v) \<le> length buf \<Longrightarrow>
      encodeCommandReady v (Some buf) = Inr (written (sessionImage KCommandReady v) buf)"
    by (simp add: encodeCommandReady_def encodeCommandSessionFrame_def sessionImage_def Let_def
        put_start put_written)
  show "length buf < length (sessionImage KCommandReady v) \<Longrightarrow>
      \<exists>e. encodeCommandReady v (Some buf) = Inl e"
    by (simp add: encodeCommandReady_def encodeCommandSessionFrame_def sessionImage_def)
  show "decodeCommandReady (Some (sessionImage KCommandReady v)) = Inr v"
    using decodeFrame_header [of KCommandReady]
    by (simp add: decodeCommandReady_def decodeCommandSessionFrame_def sessionImage_def Let_def
        layout_simps)
next
  fix d v
  assume "decodeCommandReady (Some d) = Inr v"
  then show "True \<and> d = sessionImage KCommandReady v"
    by (auto simp: decodeCommandReady_def decodeCommandSessionFrame_def sessionImage_def get_join
        Let_def join_simps dest: decodeFrame_whole split: sum.splits if_splits)
qed (simp_all add: encodeCommandReady_def encodeCommandSessionFrame_def decodeCommandReady_def
    decodeCommandSessionFrame_def)

interpretation noCommand:
  wire_codec encodeNoCommand decodeNoCommand "sessionImage KNoCommand" "\<lambda>_. True"
proof
  fix v buf
  show "length (sessionImage KNoCommand v) \<le> length buf \<Longrightarrow>
      encodeNoCommand v (Some buf) = Inr (written (sessionImage KNoCommand v) buf)"
    by (simp add: encodeNoCommand_def encodeCommandSessionFrame_def sessionImage_def Let_def
        put_start put_written)
  show "length buf < length (sessionImage KNoCommand v) \<Longrightarrow>
      \<exists>e. encodeNoCommand v (Some buf) = Inl e"
    by (simp add: encodeNoCommand_def encodeCommandSessionFrame_def sessionImage_def)
  show "decodeNoCommand (Some (sessionImage KNoCommand v)) = Inr v"
    using decodeFrame_header [of KNoCommand]
    by (simp add: decodeNoCommand_def decodeCommandSessionFrame_def sessionImage_def Let_def
        layout_simps)
next
  fix d v
  assume "decodeNoCommand (Some d) = Inr v"
  then show "True \<and> d = sessionImage KNoCommand v"
    by (auto simp: decodeNoCommand_def decodeCommandSessionFrame_def sessionImage_def get_join
        Let_def join_simps dest: decodeFrame_whole split: sum.splits if_splits)
qed (simp_all add: encodeNoCommand_def encodeCommandSessionFrame_def decodeNoCommand_def
    decodeCommandSessionFrame_def)

interpretation command:
  wire_codec encodeCommand "\<lambda>buf. decodeCommand buf emptyCommand" commandImage commandOk
proof
  fix c :: Command and buf :: bytes
  assume ok: "commandOk c"
  show "length (commandImage c) \<le> length buf \<Longrightarrow>
      encodeCommand c (Some buf) = Inr (written (commandImage c) buf)"
    using ok
    by (simp add: encodeCommand_def commandOk_def commandImage_def commandFrameSize_def Let_def
        not_less put_start put_written)
  show "length buf < length (commandImage c) \<Longrightarrow> \<exists>e. encodeCommand c (Some buf) = Inl e"
    using ok by (simp add: encodeCommand_def commandOk_def commandImage_def commandFrameSize_def)
  show "decodeCommand (Some (commandImage c)) emptyCommand = Inr c"
    using ok decodeFrame_header [of KCommand]
    by (simp add: decodeCommand_def commandImage_def commandOk_def emptyCommand_def Let_def
        put_zeros_prefix layout_simps)
next
  fix d c
  assume dec: "decodeCommand (Some d) emptyCommand = Inr c"
  from dec have len: "8 \<le> length d" "length d \<le> 16"
    by (auto simp: decodeCommand_def Let_def split: sum.splits if_splits)
  then obtain m where m: "length d = 8 + m" "m \<le> 8" using le_Suc_ex by fastforce
  then have n: "unat (of_nat m :: u8) = m" by (intro unat_of_nat_u8) simp
  show "commandOk c \<and> d = commandImage c"
    using dec m n
    by (auto simp: decodeCommand_def commandOk_def commandImage_def emptyCommand_def Let_def
        get_join join_simps put_start written_def dest: decodeFrame_whole
        split: sum.splits if_splits)
qed (simp_all add: encodeCommand_def decodeCommand_def)

interpretation commandResult:
  wire_codec encodeCommandResult "\<lambda>buf. decodeCommandResult buf emptyCommandResult"
    commandResultImage commandResultOk
proof
  fix r :: CommandResult and buf :: bytes
  assume ok: "commandResultOk r"
  then have st: "cr_status r \<in> {Applied, Unsupported, InvalidArgument, StorageFailure}"
    by (simp add: commandResultOk_def)
  show "length (commandResultImage r) \<le> length buf \<Longrightarrow>
      encodeCommandResult r (Some buf) = Inr (written (commandResultImage r) buf)"
    using ok validCommandStatus_value [OF st]
    by (simp add: encodeCommandResult_def commandResultOk_def commandResultImage_def
        commandResultFrameSize_def Let_def not_less put_start put_written)
  show "length buf < length (commandResultImage r) \<Longrightarrow>
      \<exists>e. encodeCommandResult r (Some buf) = Inl e"
    using ok by (simp add: encodeCommandResult_def commandResultOk_def commandResultImage_def
        commandResultFrameSize_def)
  show "decodeCommandResult (Some (commandResultImage r)) emptyCommandResult = Inr r"
    using ok decodeFrame_header [of KCommandResult] validCommandStatus_value [OF st]
      commandStatusOf_value [OF st]
    by (simp add: decodeCommandResult_def commandResultImage_def commandResultOk_def
        emptyCommandResult_def Let_def put_zeros_prefix layout_simps)
next
  fix d r
  assume dec: "decodeCommandResult (Some d) emptyCommandResult = Inr r"
  from dec have len: "8 \<le> length d" "length d \<le> 16"
    by (auto simp: decodeCommandResult_def Let_def split: sum.splits if_splits)
  then obtain m where m: "length d = 8 + m" "m \<le> 8" using le_Suc_ex by fastforce
  then have n: "unat (of_nat m :: u8) = m" by (intro unat_of_nat_u8) simp
  have st: "cr_status r \<in> {Applied, Unsupported, InvalidArgument, StorageFailure}"
    using dec validCommandStatus_iff [of "d ! 7"]
    by (auto simp: decodeCommandResult_def Let_def split: sum.splits if_splits)
  have "cr_commandId r \<noteq> 0 \<and> unat (cr_dataSize r) \<le> kMaxCommandResultDataSize \<and>
      length (cr_data r) = kMaxCommandResultDataSize \<and>
      allZero (drop (unat (cr_dataSize r)) (cr_data r)) \<and> d = commandResultImage r"
    using dec m n
    by (auto simp: decodeCommandResult_def commandResultImage_def
        emptyCommandResult_def Let_def get_join join_simps put_start written_def
        dest: decodeFrame_whole split: sum.splits if_splits)
  with st show "commandResultOk r \<and> d = commandResultImage r"
    by (simp add: commandResultOk_def)
qed (simp_all add: encodeCommandResult_def decodeCommandResult_def)

interpretation nodeInfo:
  wire_codec encodeNodeInfo decodeNodeInfo nodeInfoImage nodeInfoOk
proof
  fix i :: NodeInfo and buf :: bytes
  assume ok: "nodeInfoOk i"
  show "length (nodeInfoImage i) \<le> length buf \<Longrightarrow>
      encodeNodeInfo i (Some buf) = Inr (written (nodeInfoImage i) buf)"
    using ok
    by (simp add: encodeNodeInfo_def nodeInfoOk_def nodeInfoImage_def Let_def not_less
        put_start put_written)
  show "length buf < length (nodeInfoImage i) \<Longrightarrow> \<exists>e. encodeNodeInfo i (Some buf) = Inl e"
    using ok by (simp add: encodeNodeInfo_def nodeInfoOk_def nodeInfoImage_def)
  show "decodeNodeInfo (Some (nodeInfoImage i)) = Inr i"
    using ok
    by (simp add: decodeNodeInfo_def nodeInfoImage_def nodeInfoOk_def Let_def not_less layout_simps)
next
  fix d i
  assume "decodeNodeInfo (Some d) = Inr i"
  then show "nodeInfoOk i \<and> d = nodeInfoImage i"
    by (auto simp: decodeNodeInfo_def nodeInfoOk_def nodeInfoImage_def get_join Let_def not_less
        join_simps split: if_splits)
qed (simp_all add: encodeNodeInfo_def decodeNodeInfo_def)

end
