(* ===== verification/Utf8.thy ===== *)
theory Utf8
  imports RS_Prelude
begin

text \<open>
  The two UTF-8 validators of the shared code: \<open>validDisplayName\<close> of NodeRegistry.cpp
  (node names) and \<open>validUtf8\<close> of GatewayStorage.cpp (token names).  The reference is
  the encoding itself: \<open>utf8 cp\<close> is the byte sequence of a code point, and both
  validators are shown to accept exactly the concatenations of encodings of the code points
  they allow.  A loop over \<open>index\<close> is a recursion on the bytes from \<open>index\<close> on.
\<close>

subsection \<open>The reference encoding\<close>

definition utf8 :: "nat \<Rightarrow> nat list" where
  "utf8 cp =
     (if cp < 0x80 then [cp]
      else if cp < 0x800 then [0xC0 + cp div 64, 0x80 + cp mod 64]
      else if cp < 0x10000 then [0xE0 + cp div 4096, 0x80 + cp div 64 mod 64, 0x80 + cp mod 64]
      else [0xF0 + cp div 262144, 0x80 + cp div 4096 mod 64, 0x80 + cp div 64 mod 64,
            0x80 + cp mod 64])"

definition utf8_bytes :: "nat \<Rightarrow> bytes" where
  "utf8_bytes cp = map of_nat (utf8 cp)"

definition scalar :: "nat \<Rightarrow> bool" where
  "scalar cp \<longleftrightarrow> cp \<le> 0x10FFFF \<and> \<not> (0xD800 \<le> cp \<and> cp \<le> 0xDFFF)"

subsection \<open>NodeRegistry.cpp: validDisplayName\<close>

text \<open>The lead byte gives the first bits of the code point and the number of continuation
  bytes.\<close>

definition nameLead :: "u8 \<Rightarrow> (u32 \<times> nat) option" where
  "nameLead first =
     (if first < 0x80 then Some (ucast first, 0)
      else if first \<ge> 0xC2 \<and> first \<le> 0xDF then Some (ucast (first AND 0x1F), 1)
      else if first \<ge> 0xE0 \<and> first \<le> 0xEF then Some (ucast (first AND 0x0F), 2)
      else if first \<ge> 0xF0 \<and> first \<le> 0xF4 then Some (ucast (first AND 0x07), 3)
      else None)"

text \<open>The inner loop over the continuation bytes.\<close>

fun continuation :: "u32 \<Rightarrow> bytes \<Rightarrow> u32 option" where
  "continuation codePoint [] = Some codePoint"
| "continuation codePoint (next # rest) =
     (if next AND 0xC0 \<noteq> 0x80 then None
      else continuation (push_bit 6 codePoint OR ucast (next AND 0x3F)) rest)"

definition nameRejects :: "nat \<Rightarrow> u32 \<Rightarrow> bool" where
  "nameRejects count codePoint \<longleftrightarrow>
     (count = 2 \<and> codePoint < 0x800) \<or> (count = 3 \<and> codePoint < 0x10000) \<or>
     codePoint > 0x10FFFF \<or> (codePoint \<ge> 0xD800 \<and> codePoint \<le> 0xDFFF) \<or>
     codePoint < 0x20 \<or> (codePoint \<ge> 0x7F \<and> codePoint \<le> 0x9F)"

function nameLoop :: "bytes \<Rightarrow> bool" where
  "nameLoop [] = True"
| "nameLoop (first # rest) =
     (case nameLead first of
        None \<Rightarrow> False
      | Some (codePoint, count) \<Rightarrow>
          if count \<ge> Suc (length rest) then False
          else case continuation codePoint (take count rest) of
            None \<Rightarrow> False
          | Some codePoint \<Rightarrow>
              if nameRejects count codePoint then False else nameLoop (drop count rest))"
  by pat_completeness auto
termination
  by (relation "measure length") auto

definition validDisplayName :: "buffer \<Rightarrow> nat \<Rightarrow> bool" where
  "validDisplayName v n =
     (if (v = None \<and> n \<noteq> 0) \<or> n > 48 then False else nameLoop (take n (the v)))"

subsection \<open>GatewayStorage.cpp: validUtf8\<close>

definition utf8Lead :: "u8 \<Rightarrow> (u32 \<times> nat) option" where
  "utf8Lead first =
     (if first AND 0xE0 = 0xC0 then Some (ucast (first AND 0x1F), 1)
      else if first AND 0xF0 = 0xE0 then Some (ucast (first AND 0x0F), 2)
      else if first AND 0xF8 = 0xF0 then Some (ucast (first AND 0x07), 3)
      else None)"

definition utf8Rejects :: "nat \<Rightarrow> u32 \<Rightarrow> bool" where
  "utf8Rejects count codePoint \<longleftrightarrow>
     (count = 1 \<and> codePoint < 0x80) \<or> (count = 2 \<and> codePoint < 0x800) \<or>
     (count = 3 \<and> codePoint < 0x10000) \<or>
     codePoint > 0x10FFFF \<or> (codePoint \<ge> 0xD800 \<and> codePoint \<le> 0xDFFF)"

function utf8Loop :: "bytes \<Rightarrow> bool" where
  "utf8Loop [] = True"
| "utf8Loop (first # rest) =
     (if first = 0 \<or> first < 0x20 \<or> first = 0x7F then False
      else if first < 0x80 then utf8Loop rest
      else case utf8Lead first of
        None \<Rightarrow> False
      | Some (codePoint, count) \<Rightarrow>
          if count > length rest then False
          else case continuation codePoint (take count rest) of
            None \<Rightarrow> False
          | Some codePoint \<Rightarrow>
              if utf8Rejects count codePoint then False else utf8Loop (drop count rest))"
  by pat_completeness auto
termination
  by (relation "measure length") auto

definition validUtf8 :: "bytes \<Rightarrow> nat \<Rightarrow> bool" where
  "validUtf8 data n = utf8Loop (take n data)"

declare nameLoop.simps(2) [simp del] utf8Loop.simps(2) [simp del]

subsection \<open>Bytes as numbers\<close>

lemma and_low_mask:
  "unat ((b :: u8) AND 0x1F) = unat b mod 32" "unat (b AND 0x0F) = unat b mod 16"
  "unat (b AND 0x07) = unat b mod 8" "unat (b AND 0x3F) = unat b mod 64"
proof -
  have low: "unat (b AND mask k) = unat b mod 2 ^ k" for k
    by (metis take_bit_eq_mask take_bit_eq_mod unsigned_take_bit_eq)
  show "unat (b AND 0x1F) = unat b mod 32" using low [of 5] by (simp add: mask_eq_exp_minus_1)
  show "unat (b AND 0x0F) = unat b mod 16" using low [of 4] by (simp add: mask_eq_exp_minus_1)
  show "unat (b AND 0x07) = unat b mod 8" using low [of 3] by (simp add: mask_eq_exp_minus_1)
  show "unat (b AND 0x3F) = unat b mod 64" using low [of 6] by (simp add: mask_eq_exp_minus_1)
qed

lemma high_bits:
  fixes b c :: u8 and k :: nat
  shows "b AND NOT (mask k) = c AND NOT (mask k) \<longleftrightarrow> unat b div 2 ^ k = unat c div 2 ^ k"
proof -
  have "b AND NOT (mask k) = c AND NOT (mask k) \<longleftrightarrow> drop_bit k b = drop_bit k c"
  proof
    assume eq: "b AND NOT (mask k) = c AND NOT (mask k)"
    have "drop_bit k x = drop_bit k (x AND NOT (mask k))" for x :: u8
      by (rule bit_eqI) (auto simp: bit_simps dest: bit_imp_le_length)
    then show "drop_bit k b = drop_bit k c" using eq by metis
  next
    assume eq: "drop_bit k b = drop_bit k c"
    have "x AND NOT (mask k) = push_bit k (drop_bit k x)" for x :: u8
      by (rule bit_eqI) (auto simp: bit_simps)
    then show "b AND NOT (mask k) = c AND NOT (mask k)" using eq by metis
  qed
  also have "\<dots> \<longleftrightarrow> unat (drop_bit k b) = unat (drop_bit k c)"
    by (rule word_unat_eq_iff)
  also have "\<dots> \<longleftrightarrow> unat b div 2 ^ k = unat c div 2 ^ k"
    using unsigned_less [of b, where 'a = nat] unsigned_less [of c, where 'a = nat]
    by (simp only: unsigned_drop_bit_eq) (simp add: drop_bit_eq_div take_bit_eq_mod)
  finally show ?thesis .
qed

lemma byte_classes:
  fixes b :: u8
  shows "b AND 0xC0 = 0x80 \<longleftrightarrow> unat b div 64 = 2"
    and "b AND 0xE0 = 0xC0 \<longleftrightarrow> unat b div 32 = 6"
    and "b AND 0xF0 = 0xE0 \<longleftrightarrow> unat b div 16 = 14"
    and "b AND 0xF8 = 0xF0 \<longleftrightarrow> unat b div 8 = 30"
proof -
  have masks: "(0xC0 :: u8) = NOT (mask 6)" "(0xE0 :: u8) = NOT (mask 5)"
    "(0xF0 :: u8) = NOT (mask 4)" "(0xF8 :: u8) = NOT (mask 3)"
    by (simp_all add: mask_eq_exp_minus_1)
  have self: "(0x80 :: u8) = 0x80 AND NOT (mask 6)" "(0xC0 :: u8) = 0xC0 AND NOT (mask 5)"
    "(0xE0 :: u8) = 0xE0 AND NOT (mask 4)" "(0xF0 :: u8) = 0xF0 AND NOT (mask 3)"
    by (simp_all add: mask_eq_exp_minus_1)
  show "b AND 0xC0 = 0x80 \<longleftrightarrow> unat b div 64 = 2"
    using high_bits [of b 6 "0x80"] masks(1) self(1) by simp
  show "b AND 0xE0 = 0xC0 \<longleftrightarrow> unat b div 32 = 6"
    using high_bits [of b 5 "0xC0"] masks(2) self(2) by simp
  show "b AND 0xF0 = 0xE0 \<longleftrightarrow> unat b div 16 = 14"
    using high_bits [of b 4 "0xE0"] masks(3) self(3) by simp
  show "b AND 0xF8 = 0xF0 \<longleftrightarrow> unat b div 8 = 30"
    using high_bits [of b 3 "0xF0"] masks(4) self(4) by simp
qed

lemma continuation_step:
  fixes b :: u8
  shows "push_bit 6 (cp :: u32) OR ucast (b AND 0x3F) = of_nat (unat cp * 64 + unat b mod 64)"
proof -
  have "push_bit 6 cp OR ucast (b AND 0x3F) = push_bit 6 cp + (ucast (b AND 0x3F) :: u32)"
  proof (rule disjunctive_add [symmetric])
    show "\<not> bit (push_bit 6 cp) n \<or> \<not> bit (ucast (b AND 0x3F) :: u32) n" for n
    proof (cases "n < 6")
      case True then show ?thesis by (simp add: bit_simps)
    next
      case False
      have "b AND 0x3F = take_bit 6 b"
        by (simp add: take_bit_eq_mask mask_eq_exp_minus_1)
      with False show ?thesis by (simp add: bit_simps)
    qed
  qed
  moreover have "ucast (b AND 0x3F) = (of_nat (unat b mod 64) :: u32)"
    by (simp only: and_low_mask(4) [symmetric] of_nat_unat)
  ultimately show ?thesis
    by (simp add: push_bit_eq_mult mult.commute)
qed

definition is_tail :: "u8 \<Rightarrow> bool" where
  "is_tail b \<longleftrightarrow> unat b div 64 = 2"

definition joined :: "nat \<Rightarrow> bytes \<Rightarrow> nat" where
  "joined = foldl (\<lambda>a b. a * 64 + unat b mod 64)"

lemma joined_simps [simp]:
  "joined a [] = a" "joined a (b # bs) = joined (a * 64 + unat b mod 64) bs"
  by (simp_all add: joined_def)

lemma continuation_joined:
  "continuation cp bs =
     (if list_all is_tail bs then Some (of_nat (joined (unat cp) bs)) else None)"
proof (induction bs arbitrary: cp)
  case Nil then show ?case by simp
next
  case (Cons b bs)
  have hom: "(of_nat (joined a bs) :: u32) = of_nat (joined a' bs)"
    if "(of_nat a :: u32) = of_nat a'" for a a' bs
    using that by (induction bs arbitrary: a a') simp_all
  show ?case
    by (simp add: Cons.IH continuation_step byte_classes is_tail_def hom)
qed

lemma nameLead_nat:
  "nameLead first = (let n = unat first in
     if n < 128 then Some (of_nat n, 0)
     else if 194 \<le> n \<and> n \<le> 223 then Some (of_nat (n mod 32), 1)
     else if 224 \<le> n \<and> n \<le> 239 then Some (of_nat (n mod 16), 2)
     else if 240 \<le> n \<and> n \<le> 244 then Some (of_nat (n mod 8), 3) else None)"
proof -
  have cast: "(ucast w :: u32) = of_nat (unat w)" for w :: u8
    by simp
  show ?thesis
    unfolding nameLead_def cast and_low_mask Let_def word_less_nat_alt word_le_nat_alt
    by simp
qed

subsection \<open>A sequence of bytes is the encoding of its code point\<close>

definition sequence :: "u8 \<Rightarrow> bytes \<Rightarrow> nat \<Rightarrow> bool" where
  "sequence first bs cp \<longleftrightarrow> list_all is_tail bs \<and> (let n = unat first in
     (length bs = 0 \<and> n < 128 \<and> cp = n) \<or>
     (length bs = 1 \<and> n div 32 = 6 \<and> cp = joined (n mod 32) bs \<and> 0x80 \<le> cp) \<or>
     (length bs = 2 \<and> n div 16 = 14 \<and> cp = joined (n mod 16) bs \<and> 0x800 \<le> cp) \<or>
     (length bs = 3 \<and> n div 8 = 30 \<and> cp = joined (n mod 8) bs \<and> 0x10000 \<le> cp))"

lemma utf8_2: "n div 32 = 6 \<Longrightarrow> a div 64 = 2 \<Longrightarrow> 0x80 \<le> n mod 32 * 64 + a mod 64 \<Longrightarrow>
    utf8 (n mod 32 * 64 + a mod 64) = [n, a]"
  using div_mult_mod_eq [of n 32] div_mult_mod_eq [of a 64]
  by (simp add: utf8_def)

lemma digits: "z < 64 \<Longrightarrow> (p * 64 + z) div 64 = p" "z < 64 \<Longrightarrow> (p * 64 + z) mod 64 = z"
    "n div 4096 = n div 64 div 64" "n div 262144 = n div 64 div 64 div 64" for n p z :: nat
  by (simp_all add: div_mult2_eq [symmetric])

lemma lead_parts: "n div d = q \<Longrightarrow> q * d + n mod d = n" for n d q :: nat
  by (metis div_mult_mod_eq)

lemma utf8_ranges:
  "0x800 \<le> cp \<Longrightarrow> cp < 0x10000 \<Longrightarrow>
     utf8 cp = [0xE0 + cp div 4096, 0x80 + cp div 64 mod 64, 0x80 + cp mod 64]"
  "0x10000 \<le> cp \<Longrightarrow> utf8 cp = [0xF0 + cp div 262144, 0x80 + cp div 4096 mod 64,
      0x80 + cp div 64 mod 64, 0x80 + cp mod 64]"
  by (simp_all add: utf8_def)

lemma utf8_digits_3:
  assumes "x < 16" "y < 64" "z < 64" "0x800 \<le> (x * 64 + y) * 64 + z"
  shows "utf8 ((x * 64 + y) * 64 + z) = [0xE0 + x, 0x80 + y, 0x80 + z]"
proof -
  have "x * 64 + y < 1024" using assms(1,2) by linarith
  then have "x * 64 + y \<le> 1023" "z \<le> 63" using assms(3) by linarith+
  then have "(x * 64 + y) * 64 \<le> 1023 * 64" by (intro mult_le_mono1)
  with \<open>z \<le> 63\<close> have "(x * 64 + y) * 64 + z < 0x10000" by linarith
  from utf8_ranges(1) [OF assms(4) this] show ?thesis
    by (simp only: digits assms)
qed

lemma utf8_digits_4:
  assumes "x < 64" "y < 64" "z < 64" "0x10000 \<le> ((w * 64 + x) * 64 + y) * 64 + z"
  shows "utf8 (((w * 64 + x) * 64 + y) * 64 + z) = [0xF0 + w, 0x80 + x, 0x80 + y, 0x80 + z]"
  using utf8_ranges(2) [OF assms(4)] by (simp only: digits assms)

lemma utf8_3:
  assumes "n div 16 = 14" "a div 64 = 2" "b div 64 = 2"
    "0x800 \<le> (n mod 16 * 64 + a mod 64) * 64 + b mod 64"
  shows "utf8 ((n mod 16 * 64 + a mod 64) * 64 + b mod 64) = [n, a, b]"
  using utf8_digits_3 [OF _ _ _ assms(4)] assms(1,2,3) [THEN lead_parts] by simp

lemma utf8_4:
  assumes "n div 8 = 30" "a div 64 = 2" "b div 64 = 2" "c div 64 = 2"
    "0x10000 \<le> ((n mod 8 * 64 + a mod 64) * 64 + b mod 64) * 64 + c mod 64"
  shows "utf8 (((n mod 8 * 64 + a mod 64) * 64 + b mod 64) * 64 + c mod 64) = [n, a, b, c]"
  using utf8_digits_4 [OF _ _ _ assms(5)] assms(1,2,3,4) [THEN lead_parts] by simp

lemma length_1_iff: "length xs = 1 \<longleftrightarrow> (\<exists>a. xs = [a])"
  and length_2_iff: "length xs = 2 \<longleftrightarrow> (\<exists>a b. xs = [a, b])"
  and length_3_iff: "length xs = 3 \<longleftrightarrow> (\<exists>a b c. xs = [a, b, c])"
  by (auto simp: numeral_eq_Suc length_Suc_conv)

lemma sequence_utf8:
  assumes "sequence first bs cp" shows "utf8 cp = map unat (first # bs)"
proof -
  from assms have tails: "list_all is_tail bs"
    and cases: "(length bs = 0 \<and> unat first < 128 \<and> cp = unat first) \<or>
     (length bs = 1 \<and> unat first div 32 = 6 \<and> cp = joined (unat first mod 32) bs \<and> 0x80 \<le> cp) \<or>
     (length bs = 2 \<and> unat first div 16 = 14 \<and> cp = joined (unat first mod 16) bs \<and> 0x800 \<le> cp) \<or>
     (length bs = 3 \<and> unat first div 8 = 30 \<and> cp = joined (unat first mod 8) bs \<and> 0x10000 \<le> cp)"
    unfolding sequence_def Let_def by blast+
  from cases show ?thesis
  proof (elim disjE conjE)
    assume "length bs = 0" "unat first < 128" "cp = unat first"
    then show ?thesis by (simp add: utf8_def)
  next
    assume "length bs = 1" and *: "unat first div 32 = 6" "cp = joined (unat first mod 32) bs"
      "0x80 \<le> cp"
    then obtain a where "bs = [a]" unfolding length_1_iff by blast
    then show ?thesis using * tails utf8_2 [of "unat first" "unat a"] by (simp add: is_tail_def)
  next
    assume "length bs = 2" and *: "unat first div 16 = 14" "cp = joined (unat first mod 16) bs"
      "0x800 \<le> cp"
    then obtain a b where "bs = [a, b]" unfolding length_2_iff by blast
    then show ?thesis using * tails utf8_3 [of "unat first" "unat a" "unat b"]
      by (simp add: is_tail_def)
  next
    assume "length bs = 3" and *: "unat first div 8 = 30" "cp = joined (unat first mod 8) bs"
      "0x10000 \<le> cp"
    then obtain a b c where "bs = [a, b, c]" unfolding length_3_iff by blast
    then show ?thesis using * tails utf8_4 [of "unat first" "unat a" "unat b" "unat c"]
      by (simp add: is_tail_def)
  qed
qed

lemma sequence_bytes: "sequence first bs cp \<Longrightarrow> utf8_bytes cp = first # bs"
  by (simp add: utf8_bytes_def sequence_utf8 o_def)

lemma joined_bound: "joined a bs < Suc a * 64 ^ length bs"
proof (induction bs arbitrary: a)
  case Nil then show ?case by simp
next
  case (Cons b bs)
  have "joined (a * 64 + unat b mod 64) bs < Suc (a * 64 + unat b mod 64) * 64 ^ length bs"
    by (rule Cons.IH)
  also have "\<dots> \<le> (Suc a * 64) * 64 ^ length bs"
  proof (rule mult_le_mono1)
    have "unat b mod 64 < 64" by simp
    then show "Suc (a * 64 + unat b mod 64) \<le> Suc a * 64" by simp
  qed
  finally show ?case by (simp add: algebra_simps)
qed

lemma joined_ge: "a * 64 ^ length bs \<le> joined a bs"
proof (induction bs arbitrary: a)
  case Nil then show ?case by simp
next
  case (Cons b bs)
  have "a * 64 ^ length (b # bs) \<le> (a * 64 + unat b mod 64) * 64 ^ length bs"
    by (simp add: algebra_simps)
  also have "\<dots> \<le> joined (a * 64 + unat b mod 64) bs" by (rule Cons.IH)
  finally show ?case by simp
qed

definition nameScalar :: "nat \<Rightarrow> bool" where
  "nameScalar cp \<longleftrightarrow> scalar cp \<and> 0x20 \<le> cp \<and> \<not> (0x7F \<le> cp \<and> cp \<le> 0x9F)"

lemma nameRejects_nat:
  assumes "cp < 2 ^ 32"
  shows "nameRejects k (of_nat cp) \<longleftrightarrow>
    (k = 2 \<and> cp < 0x800) \<or> (k = 3 \<and> cp < 0x10000) \<or> \<not> nameScalar cp"
  using assms
  by (auto simp: nameRejects_def nameScalar_def scalar_def word_less_nat_alt word_le_nat_alt
      unat_of_nat)

lemma small_cast: "n < 256 \<Longrightarrow> unat (of_nat n :: u32) = n"
  by (simp add: unat_of_nat)

lemma lead_cases:
  assumes "nameLead first = Some (v, k)"
  obtains "k = 0" "unat first < 128" "unat v = unat first"
  | "k = 1" "194 \<le> unat first" "unat first div 32 = 6" "unat v = unat first mod 32"
  | "k = 2" "unat first div 16 = 14" "unat v = unat first mod 16"
  | "k = 3" "unat first div 8 = 30" "unat v = unat first mod 8"
proof -
  let ?n = "unat first"
  have cast: "unat (of_nat ?n :: u32) = ?n" "unat (of_nat (?n mod m) :: u32) = ?n mod m" for m
  proof -
    have "?n < 256" using unsigned_less [of first, where 'a = nat] by simp
    then show "unat (of_nat ?n :: u32) = ?n" by (rule small_cast)
    have "?n mod m < 256" using \<open>?n < 256\<close> le_less_trans mod_less_eq_dividend by blast
    then show "unat (of_nat (?n mod m) :: u32) = ?n mod m" by (rule small_cast)
  qed
  have "194 \<le> ?n \<and> ?n \<le> 223 \<Longrightarrow> ?n div 32 = 6" "224 \<le> ?n \<and> ?n \<le> 239 \<Longrightarrow> ?n div 16 = 14"
    "240 \<le> ?n \<and> ?n \<le> 244 \<Longrightarrow> ?n div 8 = 30"
    by auto
  with assms cast that show thesis
    unfolding nameLead_nat Let_def by (auto simp del: of_nat_unat split: if_splits)
qed

lemma name_accepts:
  assumes lead: "nameLead first = Some (v, length bs)" and tails: "list_all is_tail bs"
    and ok: "\<not> nameRejects (length bs) (of_nat (joined (unat v) bs))"
  shows "sequence first bs (joined (unat v) bs) \<and> nameScalar (joined (unat v) bs)"
proof -
  let ?cp = "joined (unat v) bs"
  have "Suc (unat v) * 64 ^ length bs \<le> 2 ^ 32"
    using lead by (cases rule: lead_cases) auto
  then have "?cp < 2 ^ 32"
    using joined_bound [of "unat v" bs] by linarith
  note ok' = ok [unfolded nameRejects_nat [OF this]]
  from lead show ?thesis
  proof (cases rule: lead_cases)
    case 2
    then have "2 * 64 \<le> ?cp"
      using joined_ge [of "unat v" bs] lead_parts [of "unat first" 32 6] by simp
    with 2 ok' tails show ?thesis by (simp add: sequence_def Let_def)
  qed (use ok' tails in \<open>simp_all add: sequence_def Let_def\<close>)
qed

lemma byte_of_nat: "n < 256 \<Longrightarrow> unat (of_nat n :: u8) = n"
  by (simp add: unat_of_nat)

lemma lead_digit: "p < d \<Longrightarrow> q * d + p < 256 \<Longrightarrow>
    unat (of_nat (q * d + p) :: u8) div d = q \<and> unat (of_nat (q * d + p) :: u8) mod d = p"
  by (simp only: byte_of_nat) simp

lemma lead_obtain:
  assumes "p < d" "q * d + p < 256"
  obtains b :: u8 where "of_nat (q * d + p) = b" "unat b div d = q" "unat b mod d = p"
  using that [OF refl] lead_digit [OF assms] by blast

lemma tail_obtain:
  obtains b :: u8 where "of_nat (0x80 + n mod 64) = b" "is_tail b" "unat b mod 64 = n mod 64"
proof -
  have "n mod 64 < 64" by simp
  moreover from this have "2 * 64 + n mod 64 < 256" by linarith
  ultimately obtain b :: u8 where b: "of_nat (2 * 64 + n mod 64) = b" "unat b div 64 = 2"
      "unat b mod 64 = n mod 64"
    using lead_obtain by blast
  show thesis
  proof (rule that)
    show "of_nat (0x80 + n mod 64) = b" using b(1) by simp
  qed (use b in \<open>simp_all add: is_tail_def\<close>)
qed

lemma utf8_sequence:
  assumes "cp \<le> 0x10FFFF"
  obtains first bs where "utf8_bytes cp = first # bs" "sequence first bs cp"
proof -
  obtain t1 :: u8 where t1: "of_nat (0x80 + cp mod 64) = t1" "is_tail t1"
      "unat t1 mod 64 = cp mod 64" by (rule tail_obtain)
  obtain t2 :: u8 where t2: "of_nat (0x80 + cp div 64 mod 64) = t2" "is_tail t2"
      "unat t2 mod 64 = cp div 64 mod 64" by (rule tail_obtain)
  obtain t3 :: u8 where t3: "of_nat (0x80 + cp div 64 div 64 mod 64) = t3" "is_tail t3"
      "unat t3 mod 64 = cp div 64 div 64 mod 64" by (rule tail_obtain)
  consider "cp < 0x80" | "0x80 \<le> cp" "cp < 0x800" | "0x800 \<le> cp" "cp < 0x10000"
    | "0x10000 \<le> cp" by linarith
  then show thesis
  proof cases
    case 1
    show thesis
    proof (rule that)
      show "utf8_bytes cp = of_nat cp # []" using 1 by (simp add: utf8_bytes_def utf8_def)
      show "sequence (of_nat cp) [] cp" using 1 by (simp add: sequence_def byte_of_nat)
    qed
  next
    case 2
    then have "cp div 64 < 32" by (simp add: div_less_iff_less_mult)
    then obtain b :: u8 where b: "of_nat (6 * 32 + cp div 64) = b" "unat b div 32 = 6"
        "unat b mod 32 = cp div 64"
      using lead_obtain [of "cp div 64" 32 6] by auto
    have "utf8_bytes cp = map of_nat [6 * 32 + cp div 64, 0x80 + cp mod 64]"
      using 2 by (simp add: utf8_bytes_def utf8_def)
    then have "utf8_bytes cp = [b, t1]" by (simp only: list.map b(1) t1(1))
    moreover have "sequence b [t1] cp" using b t1 2 by (simp add: sequence_def Let_def)
    ultimately show thesis by (rule that)
  next
    case 3
    then have "cp div 64 div 64 < 16" by (simp add: div_less_iff_less_mult)
    then obtain b :: u8 where b: "of_nat (14 * 16 + cp div 64 div 64) = b" "unat b div 16 = 14"
        "unat b mod 16 = cp div 64 div 64"
      using lead_obtain [of "cp div 64 div 64" 16 14] by auto
    have "utf8_bytes cp =
        map of_nat [14 * 16 + cp div 64 div 64, 0x80 + cp div 64 mod 64, 0x80 + cp mod 64]"
      using utf8_ranges(1) [OF 3] by (simp add: utf8_bytes_def digits)
    then have "utf8_bytes cp = [b, t2, t1]" by (simp only: list.map b(1) t1(1) t2(1))
    moreover have "sequence b [t2, t1] cp"
      using b t1 t2 3 unfolding sequence_def Let_def
      by (simp only: joined_simps list.pred_inject list.size div_mult_mod_eq) simp
    ultimately show thesis by (rule that)
  next
    case 4
    have "cp div 64 div 64 div 64 < 8" using assms by (simp add: div_less_iff_less_mult)
    then obtain b :: u8 where b: "of_nat (30 * 8 + cp div 64 div 64 div 64) = b"
        "unat b div 8 = 30" "unat b mod 8 = cp div 64 div 64 div 64"
      using lead_obtain [of "cp div 64 div 64 div 64" 8 30] by auto
    have "utf8_bytes cp = map of_nat [30 * 8 + cp div 64 div 64 div 64,
        0x80 + cp div 64 div 64 mod 64, 0x80 + cp div 64 mod 64, 0x80 + cp mod 64]"
      using utf8_ranges(2) [OF 4] by (simp add: utf8_bytes_def digits)
    then have "utf8_bytes cp = [b, t3, t2, t1]" by (simp only: list.map b(1) t1(1) t2(1) t3(1))
    moreover have "sequence b [t3, t2, t1] cp"
      using b t1 t2 t3 4 unfolding sequence_def Let_def
      by (simp only: joined_simps list.pred_inject list.size div_mult_mod_eq) simp
    ultimately show thesis by (rule that)
  qed
qed

lemma sequence_name:
  assumes seq: "sequence first bs cp" and ok: "nameScalar cp"
  obtains v where "nameLead first = Some (v, length bs)" "joined (unat v) bs = cp"
    "\<not> nameRejects (length bs) (of_nat cp)" "list_all is_tail bs"
proof -
  have tails: "list_all is_tail bs" using seq by (simp add: sequence_def)
  have top: "cp \<le> 0x10FFFF" using ok by (simp add: nameScalar_def scalar_def)
  then have rejects: "nameRejects k (of_nat cp) \<longleftrightarrow>
      (k = 2 \<and> cp < 0x800) \<or> (k = 3 \<and> cp < 0x10000) \<or> \<not> nameScalar cp" for k
    by (intro nameRejects_nat) simp
  have cast: "unat (of_nat (unat first mod m) :: u32) = unat first mod m"
    "unat (of_nat (unat first) :: u32) = unat first" for m
    using unsigned_less [of first, where 'a = nat]
      le_less_trans [OF mod_less_eq_dividend [of "unat first" m]]
    by (auto intro!: small_cast simp del: of_nat_unat)
  from seq have "(length bs = 0 \<and> unat first < 128 \<and> cp = unat first) \<or>
     (length bs = 1 \<and> unat first div 32 = 6 \<and> cp = joined (unat first mod 32) bs \<and> 0x80 \<le> cp) \<or>
     (length bs = 2 \<and> unat first div 16 = 14 \<and> cp = joined (unat first mod 16) bs \<and> 0x800 \<le> cp) \<or>
     (length bs = 3 \<and> unat first div 8 = 30 \<and> cp = joined (unat first mod 8) bs \<and> 0x10000 \<le> cp)"
    unfolding sequence_def Let_def by blast
  then show thesis
  proof (elim disjE conjE)
    assume *: "length bs = 0" "unat first < 128" "cp = unat first"
    show thesis
      by (rule that [of "of_nat (unat first)"])
         (use * tails ok rejects cast in \<open>simp_all add: nameLead_nat Let_def del: of_nat_unat\<close>)
  next
    assume *: "length bs = 1" "unat first div 32 = 6" "cp = joined (unat first mod 32) bs"
      "0x80 \<le> cp"
    have "cp < Suc (unat first mod 32) * 64" using joined_bound [of "unat first mod 32" bs] * by simp
    with *(4) have "128 < Suc (unat first mod 32) * 64" by (rule le_less_trans)
    then have "2 \<le> unat first mod 32" by simp
    then have "194 \<le> unat first" "unat first \<le> 223"
      using lead_parts [OF *(2)] mod_less_divisor [of 32 "unat first"] by linarith+
    then show thesis
      by (intro that [of "of_nat (unat first mod 32)"])
         (use * tails ok rejects cast in \<open>simp_all add: nameLead_nat Let_def\<close>)
  next
    assume *: "length bs = 2" "unat first div 16 = 14" "cp = joined (unat first mod 16) bs"
      "0x800 \<le> cp"
    then have "224 \<le> unat first" "unat first \<le> 239"
      using lead_parts [OF *(2)] mod_less_divisor [of 16 "unat first"] by linarith+
    then show thesis
      by (intro that [of "of_nat (unat first mod 16)"])
         (use * tails ok rejects cast in \<open>simp_all add: nameLead_nat Let_def\<close>)
  next
    assume *: "length bs = 3" "unat first div 8 = 30" "cp = joined (unat first mod 8) bs"
      "0x10000 \<le> cp"
    have "unat first mod 8 * 64 ^ 3 \<le> cp" using joined_ge [of "unat first mod 8" bs] * by simp
    then have small: "m * 262144 \<le> cp \<Longrightarrow> m \<le> 4" and "unat first mod 8 * 262144 \<le> cp" for m
      using top by simp_all
    from small [OF this(2)] have "unat first mod 8 \<le> 4" .
    then have "240 \<le> unat first" "unat first \<le> 244"
      using lead_parts [OF *(2)] by linarith+
    then show thesis
      by (intro that [of "of_nat (unat first mod 8)"])
         (use * tails ok rejects cast in \<open>simp_all add: nameLead_nat Let_def\<close>)
  qed
qed

lemma nameLoop_step:
  "nameLoop (first # rest) \<longleftrightarrow>
     (\<exists>bs tl cp. rest = bs @ tl \<and> sequence first bs cp \<and> nameScalar cp \<and> nameLoop tl)"
proof
  assume "nameLoop (first # rest)"
  then obtain v k where lead: "nameLead first = Some (v, k)" and len: "k \<le> length rest"
      and tails: "list_all is_tail (take k rest)"
      and ok: "\<not> nameRejects k (of_nat (joined (unat v) (take k rest)))"
      and more: "nameLoop (drop k rest)"
    by (auto simp: nameLoop.simps(2) continuation_joined not_le split: option.splits if_splits)
  from name_accepts [of first v "take k rest"] lead len tails ok more
  show "\<exists>bs tl cp. rest = bs @ tl \<and> sequence first bs cp \<and> nameScalar cp \<and> nameLoop tl"
    by (metis append_take_drop_id length_take min.absorb2)
next
  assume "\<exists>bs tl cp. rest = bs @ tl \<and> sequence first bs cp \<and> nameScalar cp \<and> nameLoop tl"
  then obtain bs tl cp where *: "rest = bs @ tl" "sequence first bs cp" "nameScalar cp"
      "nameLoop tl" by blast
  from sequence_name [OF *(2,3)] show "nameLoop (first # rest)"
    by (rule sequence_name [OF *(2,3)])
       (simp add: nameLoop.simps(2) continuation_joined *(1,4))
qed

subsection \<open>A loop that reads one encoding per step accepts the encoded texts\<close>

locale utf8_reader =
  fixes loop :: "bytes \<Rightarrow> bool" and allowed :: "nat \<Rightarrow> bool"
  assumes loop_Nil: "loop []"
    and loop_step: "loop (first # rest) \<longleftrightarrow>
      (\<exists>bs tl cp. rest = bs @ tl \<and> sequence first bs cp \<and> allowed cp \<and> loop tl)"
    and allowed_top: "allowed cp \<Longrightarrow> cp \<le> 0x10FFFF"
begin

lemma reads_encoded: "list_all allowed cps \<Longrightarrow> loop (concat (map utf8_bytes cps))"
proof (induction cps)
  case Nil then show ?case by (simp add: loop_Nil)
next
  case (Cons cp cps)
  then have "cp \<le> 0x10FFFF" by (simp add: allowed_top)
  then obtain first ts where "utf8_bytes cp = first # ts" "sequence first ts cp"
    by (rule utf8_sequence)
  with Cons show ?case by (auto simp: loop_step)
qed

lemma encoded_if_read: "loop bs \<Longrightarrow> \<exists>cps. bs = concat (map utf8_bytes cps) \<and> list_all allowed cps"
proof (induction "length bs" arbitrary: bs rule: less_induct)
  case less
  show ?case
  proof (cases bs)
    case Nil then show ?thesis by (intro exI [of _ "[]"]) simp
  next
    case (Cons first rest)
    then obtain ts tl cp where *: "rest = ts @ tl" "sequence first ts cp" "allowed cp"
        "loop tl" using less.prems loop_step by blast
    then obtain cps where "tl = concat (map utf8_bytes cps)" "list_all allowed cps"
      using less.hyps [of tl] Cons by auto
    then show ?thesis
      using * Cons sequence_bytes [OF *(2)] by (intro exI [of _ "cp # cps"]) simp
  qed
qed

lemma accepts_iff: "loop bs \<longleftrightarrow> (\<exists>cps. bs = concat (map utf8_bytes cps) \<and> list_all allowed cps)"
  using encoded_if_read reads_encoded by blast

end

interpretation names: utf8_reader nameLoop nameScalar
  by unfold_locales (auto simp: nameLoop_step, simp add: nameScalar_def scalar_def)

definition textScalar :: "nat \<Rightarrow> bool" where
  "textScalar cp \<longleftrightarrow> scalar cp \<and> 0x20 \<le> cp \<and> cp \<noteq> 0x7F"

lemma utf8Rejects_nat:
  assumes "cp < 2 ^ 32"
  shows "utf8Rejects k (of_nat cp) \<longleftrightarrow>
    (k = 1 \<and> cp < 0x80) \<or> (k = 2 \<and> cp < 0x800) \<or> (k = 3 \<and> cp < 0x10000) \<or> \<not> scalar cp"
  using assms
  by (auto simp: utf8Rejects_def scalar_def word_less_nat_alt word_le_nat_alt unat_of_nat)

lemma utf8Lead_iff:
  "utf8Lead first = Some (v, k) \<longleftrightarrow>
     (k = 1 \<and> unat first div 32 = 6 \<and> unat v = unat first mod 32) \<or>
     (k = 2 \<and> unat first div 16 = 14 \<and> unat v = unat first mod 16) \<or>
     (k = 3 \<and> unat first div 8 = 30 \<and> unat v = unat first mod 8)"
proof -
  have val: "ucast w = v \<longleftrightarrow> unat v = unat w" for w :: u8
    using unsigned_less [of w, where 'a = nat]
    by (simp add: word_unat_eq_iff unsigned_ucast_eq take_bit_nat_eq_self eq_commute)
  have "unat first div 32 = 6 \<Longrightarrow> unat first div 16 \<noteq> 14" "unat first div 32 = 6 \<Longrightarrow> unat first div 8 \<noteq> 30"
    "unat first div 16 = 14 \<Longrightarrow> unat first div 8 \<noteq> 30" by auto
  then show ?thesis
    unfolding utf8Lead_def byte_classes
    by (auto simp: val and_low_mask split: if_splits)
qed

lemma sequence_long:
  "128 \<le> unat first \<Longrightarrow> sequence first bs cp \<longleftrightarrow>
    list_all is_tail bs \<and> (\<exists>v. utf8Lead first = Some (v, length bs) \<and> cp = joined (unat v) bs) \<and>
    \<not> (length bs = 1 \<and> cp < 0x80) \<and> \<not> (length bs = 2 \<and> cp < 0x800) \<and>
    \<not> (length bs = 3 \<and> cp < 0x10000)"
proof -
  assume big: "128 \<le> unat first"
  have word: "\<exists>v :: u32. unat v = unat first mod m" for m
  proof
    have "unat first mod m < 256"
      using le_less_trans [OF mod_less_eq_dividend [of "unat first" m], of 256]
        unsigned_less [of first, where 'a = nat] by simp
    then show "unat (of_nat (unat first mod m) :: u32) = unat first mod m" by (rule small_cast)
  qed
  have lead: "(\<exists>v. utf8Lead first = Some (v, length bs) \<and> cp = joined (unat v) bs) \<longleftrightarrow>
     (length bs = 1 \<and> unat first div 32 = 6 \<and> cp = joined (unat first mod 32) bs) \<or>
     (length bs = 2 \<and> unat first div 16 = 14 \<and> cp = joined (unat first mod 16) bs) \<or>
     (length bs = 3 \<and> unat first div 8 = 30 \<and> cp = joined (unat first mod 8) bs)"
  proof -
    obtain v1 v2 v3 :: u32 where v: "unat v1 = unat first mod 32" "unat v2 = unat first mod 16"
        "unat v3 = unat first mod 8" using word by metis
    have "cp = joined (unat first mod 32) bs \<longleftrightarrow> cp = joined (unat v1) bs"
      "cp = joined (unat first mod 16) bs \<longleftrightarrow> cp = joined (unat v2) bs"
      "cp = joined (unat first mod 8) bs \<longleftrightarrow> cp = joined (unat v3) bs" using v by simp_all
    then show ?thesis unfolding utf8Lead_iff using v by auto
  qed
  have "\<not> unat first < 128" "\<not> (length bs = 1 \<and> length bs = 2)" "\<not> (length bs = 1 \<and> length bs = 3)"
    "\<not> (length bs = 2 \<and> length bs = 3)" using big by simp_all
  then show ?thesis
    unfolding sequence_def lead Let_def not_less [symmetric] by blast
qed

lemma lead_joined_bound:
  assumes "utf8Lead first = Some (v, length bs)" shows "joined (unat v) bs < 2 ^ 32"
proof -
  have "(unat v < 32 \<and> length bs = 1) \<or> (unat v < 16 \<and> length bs = 2) \<or>
      (unat v < 8 \<and> length bs = 3)"
    using assms unfolding utf8Lead_iff by (elim disjE conjE) simp_all
  then have "Suc (unat v) * 64 ^ length bs \<le> 2 ^ 32"
    by (elim disjE conjE) simp_all
  then show ?thesis using joined_bound [of "unat v" bs] by linarith
qed

lemma utf8Loop_step:
  "utf8Loop (first # rest) \<longleftrightarrow>
     (\<exists>bs tl cp. rest = bs @ tl \<and> sequence first bs cp \<and> textScalar cp \<and> utf8Loop tl)"
proof (cases "unat first < 128")
  case True
  have "sequence first bs cp \<longleftrightarrow> bs = [] \<and> cp = unat first" for bs cp
    using True by (auto simp: sequence_def Let_def)
  then show ?thesis
    using True
    by (auto simp: utf8Loop.simps(2) textScalar_def scalar_def word_less_nat_alt word_unat_eq_iff
        not_less)
next
  case False
  then have big: "128 \<le> unat first" by simp
  have one: "utf8Loop (first # rest) \<longleftrightarrow> (\<exists>v k. utf8Lead first = Some (v, k) \<and> k \<le> length rest \<and>
      list_all is_tail (take k rest) \<and>
      \<not> utf8Rejects k (of_nat (joined (unat v) (take k rest))) \<and> utf8Loop (drop k rest))"
    using big
    by (auto simp: utf8Loop.simps(2) continuation_joined not_le word_less_nat_alt
        word_unat_eq_iff not_less split: option.splits if_splits)
  have two: "list_all is_tail bs \<and> utf8Lead first = Some (v, length bs) \<and>
        \<not> utf8Rejects (length bs) (of_nat (joined (unat v) bs)) \<longleftrightarrow>
      utf8Lead first = Some (v, length bs) \<and> sequence first bs (joined (unat v) bs) \<and>
      textScalar (joined (unat v) bs)" for bs v
  proof (cases "utf8Lead first = Some (v, length bs)")
    case lead: True
    then have "length bs = 1 \<or> length bs = 2 \<or> length bs = 3" unfolding utf8Lead_iff by blast
    then show ?thesis
      using lead unfolding utf8Rejects_nat [OF lead_joined_bound [OF lead]] sequence_long [OF big]
      by (auto simp: textScalar_def)
  qed simp
  have "utf8Loop (first # rest) \<longleftrightarrow> (\<exists>bs tl v. rest = bs @ tl \<and> utf8Lead first = Some (v, length bs) \<and>
      list_all is_tail bs \<and> \<not> utf8Rejects (length bs) (of_nat (joined (unat v) bs)) \<and> utf8Loop tl)"
    unfolding one
  proof safe
    fix v k
    assume "utf8Lead first = Some (v, k)" "k \<le> length rest" "list_all is_tail (take k rest)"
      "\<not> utf8Rejects k (of_nat (joined (unat v) (take k rest)))" "utf8Loop (drop k rest)"
    then show "\<exists>bs tl v. rest = bs @ tl \<and> utf8Lead first = Some (v, length bs) \<and>
        list_all is_tail bs \<and> \<not> utf8Rejects (length bs) (of_nat (joined (unat v) bs)) \<and> utf8Loop tl"
      by (intro exI [of _ "take k rest"] exI [of _ "drop k rest"] exI [of _ v]) simp
  next
    fix bs tl v
    assume "rest = bs @ tl" "utf8Lead first = Some (v, length bs)" "list_all is_tail bs"
      "\<not> utf8Rejects (length bs) (of_nat (joined (unat v) bs))" "utf8Loop tl"
    then show "\<exists>v k. utf8Lead first = Some (v, k) \<and> k \<le> length (bs @ tl) \<and>
        list_all is_tail (take k (bs @ tl)) \<and>
        \<not> utf8Rejects k (of_nat (joined (unat v) (take k (bs @ tl)))) \<and> utf8Loop (drop k (bs @ tl))"
      by (intro exI [of _ v] exI [of _ "length bs"]) simp
  qed
  also have "\<dots> \<longleftrightarrow> (\<exists>bs tl v. rest = bs @ tl \<and> utf8Lead first = Some (v, length bs) \<and>
      sequence first bs (joined (unat v) bs) \<and> textScalar (joined (unat v) bs) \<and> utf8Loop tl)"
    using two by blast
  also have "\<dots> \<longleftrightarrow>
      (\<exists>bs tl cp. rest = bs @ tl \<and> sequence first bs cp \<and> textScalar cp \<and> utf8Loop tl)"
  proof safe
    fix bs tl cp
    assume seq: "sequence first bs cp" and *: "rest = bs @ tl" "textScalar cp" "utf8Loop tl"
    then obtain v where "utf8Lead first = Some (v, length bs)" "cp = joined (unat v) bs"
      using sequence_long [OF big] by metis
    with seq * show "\<exists>bsa tla v. bs @ tl = bsa @ tla \<and> utf8Lead first = Some (v, length bsa) \<and>
        sequence first bsa (joined (unat v) bsa) \<and> textScalar (joined (unat v) bsa) \<and> utf8Loop tla"
      by (intro exI [of _ bs] exI [of _ tl] exI [of _ v]) simp
  qed blast
  finally show ?thesis .
qed

interpretation texts: utf8_reader utf8Loop textScalar
  by unfold_locales (auto simp: utf8Loop_step, simp add: textScalar_def scalar_def)

lemma nameScalar_textScalar: "nameScalar cp \<Longrightarrow> textScalar cp"
  by (auto simp: nameScalar_def textScalar_def)

subsection \<open>What the validators accept\<close>

lemma validDisplayName_iff:
  assumes "length v \<ge> n"
  shows "validDisplayName (Some v) n \<longleftrightarrow> n \<le> 48 \<and>
    (\<exists>cps. take n v = concat (map utf8_bytes cps) \<and> list_all nameScalar cps)"
  by (simp add: validDisplayName_def names.accepts_iff not_less)

lemma validUtf8_iff:
  "validUtf8 data n \<longleftrightarrow>
    (\<exists>cps. take n data = concat (map utf8_bytes cps) \<and> list_all textScalar cps)"
  by (simp add: validUtf8_def texts.accepts_iff)

end
