(* ===== verification/Node_Registry.thy ===== *)
theory Node_Registry
  imports Power_Control Command_Codecs Utf8 "HOL-Library.Multiset"
begin

text \<open>
  shared/RadioProtocol: NodeRegistry.h and NodeRegistry.cpp, the table of the nodes the
  gateway knows.  \<open>records_[kMaxNodes]\<close> is a list of 64 records of which the first
  \<open>count_\<close> are in use; a \<open>NodeRecord*\<close> is an index into it (None is nullptr).  The
  invariant, its preservation by every operation, the map the table stands for and the
  reachable states are below the operations.
\<close>

subsection \<open>NodeRegistry.h\<close>

abbreviation (input) kMaxNodes :: nat where "kMaxNodes \<equiv> 64"
abbreviation (input) kFirstNodeId :: nat where "kFirstNodeId \<equiv> 1"
abbreviation (input) kLastNodeId :: nat where "kLastNodeId \<equiv> 99"
abbreviation (input) kUnprovisionedNodeId :: u8 where "kUnprovisionedNodeId \<equiv> 0"
abbreviation (input) kGatewayNodeId :: u8 where "kGatewayNodeId \<equiv> 100"
abbreviation (input) kNodeDisplayNameSize :: nat where "kNodeDisplayNameSize \<equiv> 48"

datatype NodeState = Pending | Active | Disabled | NodeStateRaw u8

fun nodeStateValue :: "NodeState \<Rightarrow> u8" where
  "nodeStateValue Pending = 1"
| "nodeStateValue Active = 2"
| "nodeStateValue Disabled = 3"
| "nodeStateValue (NodeStateRaw raw) = raw"

definition nodeStateOf :: "u8 \<Rightarrow> NodeState" where
  "nodeStateOf raw =
     (if raw = 1 then Pending else if raw = 2 then Active else if raw = 3 then Disabled
      else NodeStateRaw raw)"

record NodeRecord =
  nr_deviceUid :: bytes
  nr_nodeId :: u8
  nr_profileId :: u16
  nr_firmware :: FirmwareVersion
  nr_state :: NodeState
  nr_requestNonce :: u32
  nr_displayNameLength :: u8
  nr_displayName :: bytes
  nr_maxPowerLevel :: u8
  nr_powerPolicy :: u8

text \<open>\<open>NodeRecord{}\<close>.\<close>

definition blankRecord :: NodeRecord where
  "blankRecord = \<lparr>nr_deviceUid = zeros kDeviceUidSize, nr_nodeId = 0, nr_profileId = 0,
     nr_firmware = \<lparr>fw_major = 0, fw_minor = 0, fw_patch = 0\<rparr>, nr_state = NodeStateRaw 0,
     nr_requestNonce = 0, nr_displayNameLength = 0,
     nr_displayName = zeros kNodeDisplayNameSize, nr_maxPowerLevel = 0, nr_powerPolicy = 0\<rparr>"

datatype PowerPolicyStatus = PP_Updated | PP_NoChange | PP_NotFound | PP_InvalidPolicy
datatype RenameStatus = RN_Renamed | RN_NoChange | RN_NotFound | RN_InvalidName
datatype InfoStatus = IN_Updated | IN_ProfileChanged | IN_NoChange | IN_NotFound
datatype ReserveStatus =
  RS_Created | RS_ExistingPendingUpdated | RS_ExistingActive | RS_ExistingDisabled
  | RS_InvalidProfileId | RS_ProfileConflict | RS_Full
datatype ConfirmStatus =
  CF_Confirmed | CF_AlreadyActive | CF_NotFound | CF_NotPending | CF_IdentityMismatch
  | CF_NonceMismatch

record ReserveResult =
  rr_status :: ReserveStatus
  rr_nodeId :: u8

record NodeRegistry =
  reg_records :: "NodeRecord list"
  reg_count :: nat

definition newRegistry :: NodeRegistry where
  "newRegistry = \<lparr>reg_records = replicate kMaxNodes blankRecord, reg_count = 0\<rparr>"

text \<open>The records in use: \<open>records()\<close> together with \<open>size()\<close>.\<close>

definition registryRecords :: "NodeRegistry \<Rightarrow> NodeRecord list" where
  "registryRecords reg = take (reg_count reg) (reg_records reg)"

subsection \<open>NodeRegistry.cpp: lookups\<close>

definition uidEquals :: "buffer \<Rightarrow> buffer \<Rightarrow> bool" where
  "uidEquals left right =
     (case (left, right) of
        (Some l, Some r) \<Rightarrow> take kDeviceUidSize l = take kDeviceUidSize r
      | _ \<Rightarrow> False)"

definition firmwareEquals :: "FirmwareVersion \<Rightarrow> FirmwareVersion \<Rightarrow> bool" where
  "firmwareEquals left right \<longleftrightarrow> fw_major left = fw_major right \<and>
     fw_minor left = fw_minor right \<and> fw_patch left = fw_patch right"

definition findByUid :: "NodeRegistry \<Rightarrow> buffer \<Rightarrow> nat option" where
  "findByUid reg deviceUid =
     firstIndex (\<lambda>r. uidEquals (Some (nr_deviceUid r)) deviceUid) (registryRecords reg)"

definition findByNodeId :: "NodeRegistry \<Rightarrow> u8 \<Rightarrow> nat option" where
  "findByNodeId reg nodeId = firstIndex (\<lambda>r. nr_nodeId r = nodeId) (registryRecords reg)"

definition allocateNodeId :: "NodeRegistry \<Rightarrow> u8" where
  "allocateNodeId reg =
     (case List.find (\<lambda>candidate. findByNodeId reg (of_nat candidate) = None)
             [kFirstNodeId..<Suc kLastNodeId] of
        Some candidate \<Rightarrow> of_nat candidate
      | None \<Rightarrow> kUnprovisionedNodeId)"

text \<open>\<open>*record = \<dots>\<close> through a pointer into the table.\<close>

definition setRecord :: "NodeRegistry \<Rightarrow> nat \<Rightarrow> NodeRecord \<Rightarrow> NodeRegistry" where
  "setRecord reg index r = reg\<lparr>reg_records := (reg_records reg)[index := r]\<rparr>"

subsection \<open>NodeRegistry.cpp: operations\<close>

text \<open>A fixed level above the ceiling returns to automatic control.\<close>

definition clampPolicy :: "u8 \<Rightarrow> u8 \<Rightarrow> u8" where
  "clampPolicy policy ceiling =
     (if isFixedPolicy policy \<and> fixedLevel policy > ceiling then kPolicyAuto else policy)"

definition reserve :: "NodeRegistry \<Rightarrow> JoinRequest \<Rightarrow> NodeRegistry \<times> ReserveResult" where
  "reserve reg request =
     (if jr_profileId request = kUnassignedProfileId then
        (reg, \<lparr>rr_status = RS_InvalidProfileId, rr_nodeId = kUnprovisionedNodeId\<rparr>)
      else case findByUid reg (Some (jr_deviceUid request)) of
        Some i \<Rightarrow>
          let existing = reg_records reg ! i in
          if nr_profileId existing \<noteq> jr_profileId request then
            (reg, \<lparr>rr_status = RS_ProfileConflict, rr_nodeId = nr_nodeId existing\<rparr>)
          else if nr_state existing = Active then
            (reg, \<lparr>rr_status = RS_ExistingActive, rr_nodeId = nr_nodeId existing\<rparr>)
          else if nr_state existing = Disabled then
            (reg, \<lparr>rr_status = RS_ExistingDisabled, rr_nodeId = nr_nodeId existing\<rparr>)
          else
            let updated = existing\<lparr>nr_firmware := jr_firmware request,
                  nr_requestNonce := jr_requestNonce request,
                  nr_maxPowerLevel := jr_maxPowerLevel request,
                  nr_powerPolicy := clampPolicy (nr_powerPolicy existing) (jr_maxPowerLevel request)\<rparr>
            in (setRecord reg i updated,
                \<lparr>rr_status = RS_ExistingPendingUpdated, rr_nodeId = nr_nodeId existing\<rparr>)
      | None \<Rightarrow>
          if reg_count reg \<ge> kMaxNodes then
            (reg, \<lparr>rr_status = RS_Full, rr_nodeId = kUnprovisionedNodeId\<rparr>)
          else
            let nodeId = allocateNodeId reg in
            if nodeId = kUnprovisionedNodeId then
              (reg, \<lparr>rr_status = RS_Full, rr_nodeId = kUnprovisionedNodeId\<rparr>)
            else
              let i = reg_count reg;
                  created = (reg_records reg ! i)\<lparr>nr_deviceUid := jr_deviceUid request,
                    nr_nodeId := nodeId, nr_profileId := jr_profileId request,
                    nr_firmware := jr_firmware request, nr_state := Pending,
                    nr_requestNonce := jr_requestNonce request,
                    nr_maxPowerLevel := jr_maxPowerLevel request,
                    nr_powerPolicy := kPolicyAuto\<rparr>
              in ((setRecord reg i created)\<lparr>reg_count := i + 1\<rparr>,
                  \<lparr>rr_status = RS_Created, rr_nodeId = nodeId\<rparr>))"

definition confirm ::
  "NodeRegistry \<Rightarrow> buffer \<Rightarrow> u8 \<Rightarrow> u32 \<Rightarrow> NodeRegistry \<times> ConfirmStatus" where
  "confirm reg deviceUid nodeId requestNonce =
     (case findByNodeId reg nodeId of
        None \<Rightarrow> (reg, CF_NotFound)
      | Some i \<Rightarrow>
          let r = reg_records reg ! i in
          if \<not> uidEquals (Some (nr_deviceUid r)) deviceUid then (reg, CF_IdentityMismatch)
          else if nr_requestNonce r \<noteq> requestNonce then (reg, CF_NonceMismatch)
          else if nr_state r = Active then (reg, CF_AlreadyActive)
          else if nr_state r \<noteq> Pending then (reg, CF_NotPending)
          else (setRecord reg i (r\<lparr>nr_state := Active\<rparr>), CF_Confirmed))"

definition disable :: "NodeRegistry \<Rightarrow> u8 \<Rightarrow> NodeRegistry \<times> bool" where
  "disable reg nodeId =
     (case findByNodeId reg nodeId of
        None \<Rightarrow> (reg, False)
      | Some i \<Rightarrow>
          let r = reg_records reg ! i in
          if nr_state r = Disabled then (reg, False)
          else (setRecord reg i (r\<lparr>nr_state := Disabled, nr_requestNonce := 0\<rparr>), True))"

text \<open>The last record moves into the freed slot.\<close>

definition removeNode :: "NodeRegistry \<Rightarrow> u8 \<Rightarrow> NodeRegistry \<times> bool" where
  "removeNode reg nodeId =
     (case findByNodeId reg nodeId of
        None \<Rightarrow> (reg, False)
      | Some i \<Rightarrow>
          let reg = setRecord reg i (reg_records reg ! (reg_count reg - 1));
              reg = setRecord reg (reg_count reg - 1) blankRecord
          in (reg\<lparr>reg_count := reg_count reg - 1\<rparr>, True))"

definition rename :: "NodeRegistry \<Rightarrow> u8 \<Rightarrow> buffer \<Rightarrow> nat \<Rightarrow> NodeRegistry \<times> RenameStatus" where
  "rename reg nodeId displayName n =
     (if \<not> validDisplayName displayName n then (reg, RN_InvalidName)
      else case findByNodeId reg nodeId of
        None \<Rightarrow> (reg, RN_NotFound)
      | Some i \<Rightarrow>
          let r = reg_records reg ! i in
          if unat (nr_displayNameLength r) = n \<and>
             (n = 0 \<or> take n (nr_displayName r) = take n (the displayName))
          then (reg, RN_NoChange)
          else
            let name = zeros kNodeDisplayNameSize;
                name = (if n \<noteq> 0 then put name 0 (take n (the displayName)) else name)
            in (setRecord reg i (r\<lparr>nr_displayName := name, nr_displayNameLength := of_nat n\<rparr>),
                RN_Renamed))"

definition setPowerPolicy :: "NodeRegistry \<Rightarrow> u8 \<Rightarrow> u8 \<Rightarrow> NodeRegistry \<times> PowerPolicyStatus" where
  "setPowerPolicy reg nodeId policy =
     (case findByNodeId reg nodeId of
        None \<Rightarrow> (reg, PP_NotFound)
      | Some i \<Rightarrow>
          let r = reg_records reg ! i in
          if \<not> validPolicy policy \<or>
             (isFixedPolicy policy \<and> fixedLevel policy > nr_maxPowerLevel r)
          then (reg, PP_InvalidPolicy)
          else if nr_powerPolicy r = policy then (reg, PP_NoChange)
          else (setRecord reg i (r\<lparr>nr_powerPolicy := policy\<rparr>), PP_Updated))"

definition updateInfo ::
  "NodeRegistry \<Rightarrow> u8 \<Rightarrow> buffer \<Rightarrow> NodeInfo \<Rightarrow> NodeRegistry \<times> InfoStatus" where
  "updateInfo reg nodeId deviceUid info =
     (case findByNodeId reg nodeId of
        None \<Rightarrow> (reg, IN_NotFound)
      | Some i \<Rightarrow>
          let r = reg_records reg ! i in
          if nr_state r \<noteq> Active \<or> \<not> uidEquals (Some (nr_deviceUid r)) deviceUid
          then (reg, IN_NotFound)
          else
            let profileChanged = (nr_profileId r \<noteq> ni_profileId info) in
            if \<not> profileChanged \<and> firmwareEquals (nr_firmware r) (ni_firmware info) \<and>
               nr_maxPowerLevel r = ni_maxPowerLevel info
            then (reg, IN_NoChange)
            else
              let r = r\<lparr>nr_profileId := ni_profileId info, nr_firmware := ni_firmware info,
                        nr_maxPowerLevel := ni_maxPowerLevel info,
                        nr_powerPolicy := clampPolicy (nr_powerPolicy r) (ni_maxPowerLevel info)\<rparr>
              in (setRecord reg i r, if profileChanged then IN_ProfileChanged else IN_Updated))"

text \<open>\<open>restore\<close>: the checks on record \<open>index\<close> against the ones before it.\<close>

definition restorableRecord :: "NodeRecord \<Rightarrow> bool" where
  "restorableRecord r \<longleftrightarrow>
     \<not> (nr_nodeId r < of_nat kFirstNodeId \<or> nr_nodeId r > of_nat kLastNodeId \<or>
        nr_profileId r = kUnassignedProfileId \<or>
        \<not> validDisplayName (Some (nr_displayName r)) (unat (nr_displayNameLength r)) \<or>
        nr_maxPowerLevel r > kMaxRadioPowerLevel \<or>
        \<not> validPolicy (nr_powerPolicy r) \<or>
        (nr_state r \<noteq> Pending \<and> nr_state r \<noteq> Active \<and> nr_state r \<noteq> Disabled))"

fun restorableFrom :: "NodeRecord list \<Rightarrow> NodeRecord list \<Rightarrow> bool" where
  "restorableFrom previous [] = True"
| "restorableFrom previous (r # rs) =
     (if \<not> restorableRecord r then False
      else if list_ex (\<lambda>p. nr_nodeId p = nr_nodeId r \<or>
                 uidEquals (Some (nr_deviceUid p)) (Some (nr_deviceUid r))) previous
      then False
      else restorableFrom (previous @ [r]) rs)"

definition restore :: "NodeRegistry \<Rightarrow> NodeRecord list option \<Rightarrow> nat \<Rightarrow> NodeRegistry \<times> bool" where
  "restore reg rs cnt =
     (if (rs = None \<and> cnt \<noteq> 0) \<or> cnt > kMaxNodes then (reg, False)
      else
        let used = (case rs of None \<Rightarrow> [] | Some rs \<Rightarrow> take cnt rs) in
        if \<not> restorableFrom [] used then (reg, False)
        else (\<lparr>reg_records = used @ replicate (kMaxNodes - cnt) blankRecord, reg_count = cnt\<rparr>, True))"

subsection \<open>The invariant\<close>

text \<open>What the types of the source give (array lengths), and the zero padding every writer of
  a name leaves behind it.\<close>

definition shapedRecord :: "NodeRecord \<Rightarrow> bool" where
  "shapedRecord r \<longleftrightarrow> length (nr_deviceUid r) = kDeviceUidSize \<and>
     length (nr_displayName r) = kNodeDisplayNameSize \<and>
     allZero (drop (unat (nr_displayNameLength r)) (nr_displayName r))"

definition recordOk :: "NodeRecord \<Rightarrow> bool" where
  "recordOk r \<longleftrightarrow> restorableRecord r \<and> shapedRecord r"

definition recordsOk :: "NodeRecord list \<Rightarrow> bool" where
  "recordsOk rs \<longleftrightarrow> length rs \<le> kMaxNodes \<and> list_all recordOk rs \<and>
     distinct (map nr_nodeId rs) \<and> distinct (map nr_deviceUid rs)"

text \<open>The table that holds the records \<open>rs\<close>.\<close>

definition registryOf :: "NodeRecord list \<Rightarrow> NodeRegistry" where
  "registryOf rs = \<lparr>reg_records = rs @ replicate (kMaxNodes - length rs) blankRecord,
     reg_count = length rs\<rparr>"

definition registryOk :: "NodeRegistry \<Rightarrow> bool" where
  "registryOk reg \<longleftrightarrow> reg = registryOf (registryRecords reg) \<and> recordsOk (registryRecords reg)"

text \<open>A fixed policy is never above its node's ceiling.\<close>

definition withinCeiling :: "NodeRecord \<Rightarrow> bool" where
  "withinCeiling r \<longleftrightarrow>
     (isFixedPolicy (nr_powerPolicy r) \<longrightarrow> fixedLevel (nr_powerPolicy r) \<le> nr_maxPowerLevel r)"

lemma registryRecords_registryOf [simp]: "registryRecords (registryOf rs) = rs"
  by (simp add: registryRecords_def registryOf_def)

lemma count_registryOf [simp]: "reg_count (registryOf rs) = length rs"
  by (simp add: registryOf_def)

lemma nth_registryOf [simp]: "i < length rs \<Longrightarrow> reg_records (registryOf rs) ! i = rs ! i"
  by (simp add: registryOf_def nth_append)

lemma next_registryOf: "length rs < kMaxNodes \<Longrightarrow> reg_records (registryOf rs) ! length rs = blankRecord"
  by (simp add: registryOf_def nth_append)

lemma registryOk_registryOf [simp]: "registryOk (registryOf rs) \<longleftrightarrow> recordsOk rs"
  by (simp add: registryOk_def)

lemma registryOkE:
  assumes "registryOk reg" obtains rs where "reg = registryOf rs" "recordsOk rs"
  using assms unfolding registryOk_def by metis

lemma setRecord_registryOf: "i < length rs \<Longrightarrow> setRecord (registryOf rs) i r = registryOf (rs[i := r])"
  by (simp add: setRecord_def registryOf_def list_update_append)

lemma setRecord_append:
  assumes "length rs < kMaxNodes"
  shows "(setRecord (registryOf rs) (length rs) r)\<lparr>reg_count := length rs + 1\<rparr> =
    registryOf (rs @ [r])"
proof -
  obtain k where "kMaxNodes - length rs = Suc k" using assms by (metis Suc_diff_Suc)
  moreover from this have "kMaxNodes - Suc (length rs) = k" by simp
  ultimately show ?thesis by (simp add: setRecord_def registryOf_def)
qed

lemma replicate_snoc_blank: "replicate k blankRecord @ [blankRecord] = blankRecord # replicate k blankRecord"
  by (simp add: replicate_append_same)

lemma setRecord_remove:
  assumes "i < length rs" and "length rs \<le> kMaxNodes"
  shows "(setRecord (setRecord (registryOf rs) i (last rs)) (length rs - 1) blankRecord)
      \<lparr>reg_count := length rs - 1\<rparr> = registryOf (butlast (rs[i := last rs]))"
proof -
  define qs where "qs = rs[i := last rs]"
  have len: "length qs = length rs" and ne: "qs \<noteq> []" using assms by (auto simp: qs_def)
  have "qs[length rs - 1 := blankRecord] = butlast qs @ [blankRecord]"
    using ne len by (metis append_butlast_last_id length_butlast list_update_length)
  then have "setRecord (registryOf qs) (length rs - 1) blankRecord =
      registryOf (butlast qs @ [blankRecord])"
    using assms len by (simp add: setRecord_registryOf)
  moreover have "registryOf (butlast qs @ [blankRecord])\<lparr>reg_count := length rs - 1\<rparr> =
      registryOf (butlast qs)"
    using assms len ne
    by (simp add: registryOf_def Suc_diff_le [symmetric] flip: replicate_Suc)
  ultimately show ?thesis
    using assms by (simp add: setRecord_registryOf qs_def)
qed

lemma newRegistry_ok: "newRegistry = registryOf []" "recordsOk []"
  by (simp_all add: newRegistry_def registryOf_def recordsOk_def)

subsection \<open>Lookups find the record of the map the table stands for\<close>

definition nodeMap :: "NodeRecord list \<Rightarrow> u8 \<Rightarrow> NodeRecord option" where
  "nodeMap rs = map_of (map (\<lambda>r. (nr_nodeId r, r)) rs)"

lemma findByNodeId_SomeD:
  "findByNodeId (registryOf rs) nodeId = Some i \<Longrightarrow> i < length rs \<and> nr_nodeId (rs ! i) = nodeId"
  by (auto simp: findByNodeId_def dest: firstIndex_SomeD)

lemma findByNodeId_nodeMap:
  "nodeMap rs nodeId = map_option (\<lambda>i. rs ! i) (findByNodeId (registryOf rs) nodeId)"
  unfolding findByNodeId_def nodeMap_def
  by (induction rs) (auto simp: option.map_comp o_def)

lemma findByNodeId_None_iff:
  "findByNodeId (registryOf rs) nodeId = None \<longleftrightarrow> nodeId \<notin> nr_nodeId ` set rs"
  by (auto simp: findByNodeId_def firstIndex_None_iff)

lemma findByUid_SomeD:
  "findByUid (registryOf rs) (Some uid) = Some i \<Longrightarrow>
    i < length rs \<and> take kDeviceUidSize (nr_deviceUid (rs ! i)) = take kDeviceUidSize uid"
  by (auto simp: findByUid_def uidEquals_def dest: firstIndex_SomeD)

lemma findByUid_None_iff:
  assumes "recordsOk rs" and "length uid = kDeviceUidSize"
  shows "findByUid (registryOf rs) (Some uid) = None \<longleftrightarrow> uid \<notin> nr_deviceUid ` set rs"
  using assms
  by (auto simp: findByUid_def firstIndex_None_iff uidEquals_def recordsOk_def list_all_iff
      recordOk_def shapedRecord_def)

lemma nodeMap_update:
  assumes "distinct (map nr_nodeId rs)" and "i < length rs" and "nr_nodeId (rs ! i) = nr_nodeId r"
  shows "nodeMap (rs[i := r]) = (nodeMap rs)(nr_nodeId r \<mapsto> r)"
  using assms
proof (induction rs arbitrary: i)
  case Nil then show ?case by simp
next
  case (Cons x rs)
  show ?case
  proof (cases i)
    case 0 with Cons.prems show ?thesis by (auto simp: nodeMap_def)
  next
    case (Suc j)
    with Cons.prems have "nr_nodeId r \<in> nr_nodeId ` set rs"
      by (metis Suc_less_eq imageI length_Cons nth_Cons_Suc nth_mem)
    with Cons.prems have "nr_nodeId x \<noteq> nr_nodeId r" by auto
    with Cons Suc show ?thesis by (auto simp: nodeMap_def fun_upd_twist)
  qed
qed

lemma nodeMap_mem: "nodeMap rs nodeId = Some r \<Longrightarrow> r \<in> set rs \<and> nr_nodeId r = nodeId"
  by (auto simp: nodeMap_def dest: map_of_SomeD)

lemma nodeMap_SomeI: "distinct (map nr_nodeId rs) \<Longrightarrow> r \<in> set rs \<Longrightarrow> nodeMap rs (nr_nodeId r) = Some r"
  unfolding nodeMap_def by (rule map_of_is_SomeI) (auto simp: o_def)

lemma nodeMap_None_iff: "nodeMap rs nodeId = None \<longleftrightarrow> nodeId \<notin> nr_nodeId ` set rs"
  by (simp add: nodeMap_def map_of_eq_None_iff image_image)

lemma nodeMap_remove1:
  assumes "distinct (map nr_nodeId rs)" and "mset qs = mset rs - {#r#}" and "r \<in> set rs"
  shows "nodeMap qs = (nodeMap rs)(nr_nodeId r := None)"
proof
  have rs: "mset rs = add_mset r (mset qs)" using assms(2,3) by simp
  then have ids: "mset (map nr_nodeId rs) = add_mset (nr_nodeId r) (mset (map nr_nodeId qs))"
    by simp
  then have d: "distinct (map nr_nodeId qs)" and new: "nr_nodeId r \<notin> nr_nodeId ` set qs"
    using assms(1) mset_eq_imp_distinct_iff [of "map nr_nodeId rs" "nr_nodeId r # map nr_nodeId qs"]
    by auto
  have set: "set rs = insert r (set qs)" using rs by (metis set_mset_add_mset_insert set_mset_mset)
  fix nodeId
  show "nodeMap qs nodeId = ((nodeMap rs)(nr_nodeId r := None)) nodeId"
  proof (cases "nodeMap qs nodeId")
    case None
    with set have "nodeId = nr_nodeId r \<or> nodeMap rs nodeId = None"
      by (auto simp: nodeMap_None_iff)
    with None show ?thesis by auto
  next
    case (Some x)
    then have x: "x \<in> set qs" "nr_nodeId x = nodeId" by (auto dest: nodeMap_mem)
    then have "nr_nodeId r \<noteq> nodeId" using new by auto
    with Some x set show ?thesis using nodeMap_SomeI [OF assms(1), of x] by auto
  qed
qed

lemma butlast_update_mset:
  "i < length rs \<Longrightarrow> mset (butlast (rs[i := last rs])) = mset rs - {#rs ! i#}"
proof -
  assume i: "i < length rs"
  then have ne: "rs \<noteq> []" by auto
  have "mset (rs[i := last rs]) = add_mset (last rs) (mset rs - {#rs ! i#})"
    using i by (simp add: mset_update)
  moreover have "rs[i := last rs] = butlast (rs[i := last rs]) @ [last rs]"
  proof -
    have "last (rs[i := last rs]) = last rs"
      using i ne by (metis last_list_update list_update_same_conv)
    then show ?thesis using ne by (metis append_butlast_last_id list_update_nonempty)
  qed
  then have "mset (rs[i := last rs]) = add_mset (last rs) (mset (butlast (rs[i := last rs])))"
    by (metis mset.simps(2) mset_append add.commute add_mset_add_single mset.simps(1))
  ultimately show ?thesis by simp
qed

subsection \<open>Writing one record\<close>

lemma recordsOk_distinct: "recordsOk rs \<Longrightarrow> distinct (map nr_nodeId rs)"
  by (simp add: recordsOk_def)

lemma recordsOk_nth: "recordsOk rs \<Longrightarrow> i < length rs \<Longrightarrow> recordOk (rs ! i)"
  by (simp add: recordsOk_def list_all_length)

lemma recordsOk_write:
  assumes "recordsOk rs" and "i < length rs" and "recordOk r"
    and "nr_nodeId r = nr_nodeId (rs ! i)" and "nr_deviceUid r = nr_deviceUid (rs ! i)"
  shows "recordsOk (rs[i := r])"
proof -
  have "map nr_nodeId (rs[i := r]) = map nr_nodeId rs"
    "map nr_deviceUid (rs[i := r]) = map nr_deviceUid rs"
    using assms by (simp_all add: map_update list_update_same_conv)
  moreover have "list_all recordOk (rs[i := r])"
    using assms set_update_subset_insert [of rs i r] by (auto simp: recordsOk_def list_all_iff)
  ultimately show ?thesis using assms(1) by (simp add: recordsOk_def)
qed

lemma lookup_cases:
  obtains (missing) "findByNodeId (registryOf rs) nodeId = None" "nodeMap rs nodeId = None"
  | (found) i where "findByNodeId (registryOf rs) nodeId = Some i" "i < length rs"
      "nr_nodeId (rs ! i) = nodeId" "nodeMap rs nodeId = Some (rs ! i)"
  using findByNodeId_SomeD [of rs nodeId] findByNodeId_nodeMap [of rs nodeId]
  by (cases "findByNodeId (registryOf rs) nodeId") auto

lemma clampPolicy_valid [simp]: "validPolicy p \<Longrightarrow> validPolicy (clampPolicy p c)"
  by (simp add: clampPolicy_def validPolicy_def)

lemma recordOk_simps [simp]:
  "recordOk (r\<lparr>nr_state := Active\<rparr>) \<longleftrightarrow> recordOk (r\<lparr>nr_state := Pending\<rparr>)"
  "recordOk (r\<lparr>nr_state := Disabled, nr_requestNonce := n\<rparr>) \<longleftrightarrow> recordOk (r\<lparr>nr_state := Pending\<rparr>)"
  by (simp_all add: recordOk_def shapedRecord_def restorableRecord_def)

lemma recordOk_state: "recordOk r \<Longrightarrow> recordOk (r\<lparr>nr_state := Pending\<rparr>)"
  by (simp add: recordOk_def shapedRecord_def restorableRecord_def)

lemma recordOk_state_cases:
  "recordOk r \<Longrightarrow> nr_state r = Pending \<or> nr_state r = Active \<or> nr_state r = Disabled"
  by (auto simp: recordOk_def shapedRecord_def restorableRecord_def)

subsection \<open>Operations as updates of the map\<close>

text \<open>Each operation on one node, over the map from node ids to records: what it writes,
  and what it reports.\<close>

definition confirmSpec ::
  "(u8 \<rightharpoonup> NodeRecord) \<Rightarrow> buffer \<Rightarrow> u8 \<Rightarrow> u32 \<Rightarrow> (u8 \<rightharpoonup> NodeRecord) \<times> ConfirmStatus" where
  "confirmSpec m uid nodeId nonce =
     (case m nodeId of
        None \<Rightarrow> (m, CF_NotFound)
      | Some r \<Rightarrow>
          if \<not> uidEquals (Some (nr_deviceUid r)) uid then (m, CF_IdentityMismatch)
          else if nr_requestNonce r \<noteq> nonce then (m, CF_NonceMismatch)
          else (case nr_state r of
                  Pending \<Rightarrow> (m(nodeId \<mapsto> r\<lparr>nr_state := Active\<rparr>), CF_Confirmed)
                | Active \<Rightarrow> (m, CF_AlreadyActive)
                | _ \<Rightarrow> (m, CF_NotPending)))"

definition disableSpec :: "(u8 \<rightharpoonup> NodeRecord) \<Rightarrow> u8 \<Rightarrow> (u8 \<rightharpoonup> NodeRecord) \<times> bool" where
  "disableSpec m nodeId =
     (case m nodeId of
        None \<Rightarrow> (m, False)
      | Some r \<Rightarrow> if nr_state r = Disabled then (m, False)
          else (m(nodeId \<mapsto> r\<lparr>nr_state := Disabled, nr_requestNonce := 0\<rparr>), True))"

definition setPowerPolicySpec ::
  "(u8 \<rightharpoonup> NodeRecord) \<Rightarrow> u8 \<Rightarrow> u8 \<Rightarrow> (u8 \<rightharpoonup> NodeRecord) \<times> PowerPolicyStatus" where
  "setPowerPolicySpec m nodeId policy =
     (case m nodeId of
        None \<Rightarrow> (m, PP_NotFound)
      | Some r \<Rightarrow>
          if \<not> validPolicy policy \<or> \<not> withinCeiling (r\<lparr>nr_powerPolicy := policy\<rparr>)
          then (m, PP_InvalidPolicy)
          else (m(nodeId \<mapsto> r\<lparr>nr_powerPolicy := policy\<rparr>),
                if nr_powerPolicy r = policy then PP_NoChange else PP_Updated))"

text \<open>The abstraction of a result: the map it leaves and the status it reports.\<close>

definition abstractly :: "NodeRegistry \<times> 's \<Rightarrow> (u8 \<rightharpoonup> NodeRecord) \<times> 's" where
  "abstractly result = (nodeMap (registryRecords (fst result)), snd result)"

lemma abstractly_simps [simp]:
  "abstractly (registryOf rs, s) = (nodeMap rs, s)"
  by (simp add: abstractly_def)

lemma write_found:
  assumes "recordsOk rs" "i < length rs" "nr_nodeId (rs ! i) = nodeId"
    "recordOk r" "nr_nodeId r = nodeId" "nr_deviceUid r = nr_deviceUid (rs ! i)"
  shows "recordsOk (rs[i := r]) \<and> nodeMap (rs[i := r]) = (nodeMap rs)(nodeId \<mapsto> r)"
  using recordsOk_write [OF assms(1,2,4)] nodeMap_update [OF recordsOk_distinct [OF assms(1)] assms(2)]
    assms(3,5,6) by simp

lemma confirm_refines:
  assumes "recordsOk rs"
  shows "registryOk (fst (confirm (registryOf rs) uid nodeId nonce)) \<and>
    abstractly (confirm (registryOf rs) uid nodeId nonce) = confirmSpec (nodeMap rs) uid nodeId nonce"
proof (cases rule: lookup_cases [of rs nodeId])
  case missing then show ?thesis using assms by (simp add: confirm_def confirmSpec_def)
next
  case (found i)
  have "recordOk ((rs ! i)\<lparr>nr_state := Active\<rparr>)"
    using recordsOk_nth [OF assms found(2)] by (simp add: recordOk_state)
  from write_found [OF assms found(2,3) this] found assms
    recordOk_state_cases [OF recordsOk_nth [OF assms found(2)]]
  show ?thesis
    by (auto simp: confirm_def confirmSpec_def Let_def setRecord_registryOf)
qed

lemma disable_refines:
  assumes "recordsOk rs"
  shows "registryOk (fst (disable (registryOf rs) nodeId)) \<and>
    abstractly (disable (registryOf rs) nodeId) = disableSpec (nodeMap rs) nodeId"
proof (cases rule: lookup_cases [of rs nodeId])
  case missing then show ?thesis using assms by (simp add: disable_def disableSpec_def)
next
  case (found i)
  have "recordOk ((rs ! i)\<lparr>nr_state := Disabled, nr_requestNonce := 0\<rparr>)"
    using recordsOk_nth [OF assms found(2)] by (simp add: recordOk_state)
  from write_found [OF assms found(2,3) this] found assms
  show ?thesis
    by (auto simp: disable_def disableSpec_def Let_def setRecord_registryOf)
qed

lemma setPowerPolicy_refines:
  assumes "recordsOk rs"
  shows "registryOk (fst (setPowerPolicy (registryOf rs) nodeId policy)) \<and>
    abstractly (setPowerPolicy (registryOf rs) nodeId policy) =
      setPowerPolicySpec (nodeMap rs) nodeId policy"
proof (cases rule: lookup_cases [of rs nodeId])
  case missing then show ?thesis using assms by (simp add: setPowerPolicy_def setPowerPolicySpec_def)
next
  case (found i)
  show ?thesis
  proof (cases "validPolicy policy \<and> withinCeiling ((rs ! i)\<lparr>nr_powerPolicy := policy\<rparr>)")
    case True
    then have "recordOk ((rs ! i)\<lparr>nr_powerPolicy := policy\<rparr>)"
      using recordsOk_nth [OF assms found(2)] by (simp add: recordOk_def shapedRecord_def restorableRecord_def)
    from write_found [OF assms found(2,3) this] found
    have w: "recordsOk (rs[i := (rs ! i)\<lparr>nr_powerPolicy := policy\<rparr>])"
      "nodeMap (rs[i := (rs ! i)\<lparr>nr_powerPolicy := policy\<rparr>]) =
        (nodeMap rs)(nodeId \<mapsto> (rs ! i)\<lparr>nr_powerPolicy := policy\<rparr>)" by simp_all
    have guard: "\<not> (\<not> validPolicy policy \<or>
        isFixedPolicy policy \<and> nr_maxPowerLevel (rs ! i) < fixedLevel policy)"
      using True by (simp add: withinCeiling_def not_less)
    show ?thesis
    proof (cases "nr_powerPolicy (rs ! i) = policy")
      case True
      then have "(rs ! i)\<lparr>nr_powerPolicy := policy\<rparr> = rs ! i" by simp
      then have "(nodeMap rs)(nodeId \<mapsto> (rs ! i)\<lparr>nr_powerPolicy := policy\<rparr>) = nodeMap rs"
        by (simp add: fun_upd_idem found)
      with True found guard assms \<open>validPolicy policy \<and> _\<close> show ?thesis
        by (simp add: setPowerPolicy_def setPowerPolicySpec_def Let_def)
    next
      case False
      with w found guard \<open>validPolicy policy \<and> _\<close> show ?thesis
        by (simp add: setPowerPolicy_def setPowerPolicySpec_def Let_def setRecord_registryOf)
    qed
  next
    case False
    with found assms show ?thesis
      by (auto simp: setPowerPolicy_def setPowerPolicySpec_def Let_def withinCeiling_def not_le)
  qed
qed

definition removeSpec :: "(u8 \<rightharpoonup> NodeRecord) \<Rightarrow> u8 \<Rightarrow> (u8 \<rightharpoonup> NodeRecord) \<times> bool" where
  "removeSpec m nodeId = (m(nodeId := None), m nodeId \<noteq> None)"

lemma recordsOk_sub:
  assumes "recordsOk rs" and "mset qs \<subseteq># mset rs"
  shows "recordsOk qs"
proof -
  obtain xs where xs: "mset rs = mset (qs @ xs)"
    using assms(2) by (metis mset_append mset_subset_eq_exists_conv surj_mset [THEN surjD])
  have ids: "mset (map nr_nodeId rs) = mset (map nr_nodeId (qs @ xs))"
    and uids: "mset (map nr_deviceUid rs) = mset (map nr_deviceUid (qs @ xs))"
    using xs by (simp_all only: mset_map)
  from mset_eq_imp_distinct_iff [OF ids] mset_eq_imp_distinct_iff [OF uids] assms(1)
  have "distinct (map nr_nodeId qs)" "distinct (map nr_deviceUid qs)"
    by (simp_all add: recordsOk_def)
  moreover have "length qs \<le> length rs" using size_mset_mono [OF assms(2)] by simp
  moreover have "set qs \<subseteq> set rs" using set_mset_mono [OF assms(2)] by simp
  ultimately show ?thesis using assms(1) by (auto simp: recordsOk_def list_all_iff)
qed

lemma remove_refines:
  assumes "recordsOk rs"
  shows "registryOk (fst (removeNode (registryOf rs) nodeId)) \<and>
    abstractly (removeNode (registryOf rs) nodeId) = removeSpec (nodeMap rs) nodeId"
proof (cases rule: lookup_cases [of rs nodeId])
  case missing
  then show ?thesis using assms by (auto simp: removeNode_def removeSpec_def)
next
  case (found i)
  have "length rs \<le> kMaxNodes" using assms by (simp add: recordsOk_def)
  moreover have "reg_records (registryOf rs) ! (length rs - 1) = last rs"
    using found(2) last_conv_nth [of rs] by (cases rs) auto
  ultimately have run: "removeNode (registryOf rs) nodeId = (registryOf (butlast (rs[i := last rs])), True)"
    using found setRecord_remove [of i rs] by (simp add: removeNode_def Let_def setRecord_def)
  have m: "mset (butlast (rs[i := last rs])) = mset rs - {#rs ! i#}"
    by (rule butlast_update_mset [OF found(2)])
  then have "recordsOk (butlast (rs[i := last rs]))"
    by (intro recordsOk_sub [OF assms]) simp
  moreover have "nodeMap (butlast (rs[i := last rs])) = (nodeMap rs)(nodeId := None)"
    using nodeMap_remove1 [OF recordsOk_distinct [OF assms] m] found by simp
  ultimately show ?thesis using run found by (simp add: removeSpec_def)
qed

definition renamed :: "NodeRecord \<Rightarrow> bytes \<Rightarrow> NodeRecord" where
  "renamed r name = r\<lparr>nr_displayName := name @ zeros (kNodeDisplayNameSize - length name),
     nr_displayNameLength := of_nat (length name)\<rparr>"

definition renameSpec ::
  "(u8 \<rightharpoonup> NodeRecord) \<Rightarrow> u8 \<Rightarrow> bytes \<Rightarrow> (u8 \<rightharpoonup> NodeRecord) \<times> RenameStatus" where
  "renameSpec m nodeId name =
     (if \<not> (length name \<le> kNodeDisplayNameSize \<and> nameLoop name) then (m, RN_InvalidName)
      else case m nodeId of
        None \<Rightarrow> (m, RN_NotFound)
      | Some r \<Rightarrow> (m(nodeId \<mapsto> renamed r name),
          if renamed r name = r then RN_NoChange else RN_Renamed))"

lemma renamed_same:
  assumes "recordOk r" and "length name \<le> kNodeDisplayNameSize"
  shows "renamed r name = r \<longleftrightarrow>
    unat (nr_displayNameLength r) = length name \<and> take (length name) (nr_displayName r) = name"
proof -
  have len: "length (nr_displayName r) = 48" using assms(1) by (simp add: recordOk_def shapedRecord_def)
  have n: "unat (of_nat (length name) :: u8) = length name" using assms(2) by (simp add: unat_of_nat)
  have "renamed r name = r \<longleftrightarrow> nr_displayName r = name @ zeros (48 - length name) \<and>
      nr_displayNameLength r = of_nat (length name)"
    by (cases r) (auto simp: renamed_def)
  also have "\<dots> \<longleftrightarrow> unat (nr_displayNameLength r) = length name \<and>
      take (length name) (nr_displayName r) = name"
  proof (intro iffI conjI; elim conjE)
    assume *: "unat (nr_displayNameLength r) = length name" "take (length name) (nr_displayName r) = name"
    have "allZero (drop (length name) (nr_displayName r))"
      using assms(1) * by (simp add: recordOk_def shapedRecord_def)
    then have "drop (length name) (nr_displayName r) = zeros (48 - length name)"
      using len by (simp add: allZero_iff)
    with *(2) show "nr_displayName r = name @ zeros (48 - length name)"
      by (metis append_take_drop_id)
    show "nr_displayNameLength r = of_nat (length name)"
      using *(1) by (metis of_nat_unat_u8)
  qed (use n in simp_all)
  finally show ?thesis .
qed

lemma renamed_ok:
  assumes "recordOk r" "length name \<le> kNodeDisplayNameSize" "nameLoop name"
  shows "recordOk (renamed r name)"
proof -
  have n: "unat (of_nat (length name) :: u8) = length name" using assms(2) by (simp add: unat_of_nat)
  then show ?thesis
    using assms by (simp add: renamed_def recordOk_def shapedRecord_def restorableRecord_def validDisplayName_def)
qed

lemma rename_refines:
  assumes "recordsOk rs" and "n = length name"
  shows "registryOk (fst (rename (registryOf rs) nodeId (Some name) n)) \<and>
    abstractly (rename (registryOf rs) nodeId (Some name) n) = renameSpec (nodeMap rs) nodeId name"
proof (cases "length name \<le> kNodeDisplayNameSize \<and> nameLoop name")
  case False
  then show ?thesis using assms
    by (auto simp: rename_def renameSpec_def validDisplayName_def)
next
  case True
  then have valid: "validDisplayName (Some name) n" using assms(2) by (simp add: validDisplayName_def)
  have padded: "(if n \<noteq> 0 then put (zeros kNodeDisplayNameSize) 0 (take n name)
      else zeros kNodeDisplayNameSize) = name @ zeros (kNodeDisplayNameSize - length name)"
    using True assms(2) by (simp add: put_start written_def)
  show ?thesis
  proof (cases rule: lookup_cases [of rs nodeId])
    case missing then show ?thesis using assms True valid by (simp add: rename_def renameSpec_def)
  next
    case (found i)
    have r: "recordOk (rs ! i)" by (rule recordsOk_nth [OF assms(1) found(2)])
    have same: "renamed (rs ! i) name = rs ! i \<longleftrightarrow>
        unat (nr_displayNameLength (rs ! i)) = n \<and>
        (n = 0 \<or> take n (nr_displayName (rs ! i)) = take n name)"
      using renamed_same [OF r] True assms(2) by auto
    have ids: "nr_nodeId (renamed (rs ! i) name) = nodeId"
      "nr_deviceUid (renamed (rs ! i) name) = nr_deviceUid (rs ! i)"
      using found(3) by (simp_all add: renamed_def)
    have w: "recordsOk (rs[i := renamed (rs ! i) name]) \<and>
        nodeMap (rs[i := renamed (rs ! i) name]) = (nodeMap rs)(nodeId \<mapsto> renamed (rs ! i) name)"
      using True renamed_ok [OF r] by (intro write_found [OF assms(1) found(2,3) _ ids]) simp
    show ?thesis
    proof (cases "renamed (rs ! i) name = rs ! i")
      case same': True
      then have "(nodeMap rs)(nodeId \<mapsto> renamed (rs ! i) name) = nodeMap rs"
        using found by (simp add: fun_upd_idem)
      with same same' True valid found assms(1) show ?thesis
        by (simp add: rename_def renameSpec_def Let_def)
    next
      case False
      have "rename (registryOf rs) nodeId (Some name) n =
          (registryOf (rs[i := renamed (rs ! i) name]), RN_Renamed)"
        unfolding rename_def Let_def option.sel padded
        using valid found(1,2) False [unfolded same]
        by (simp only: nth_registryOf if_False if_True option.case not_True_eq_False
            setRecord_registryOf renamed_def assms(2))
      with w False True found show ?thesis by (simp add: renameSpec_def)
    qed
  qed
qed

definition updateInfoSpec ::
  "(u8 \<rightharpoonup> NodeRecord) \<Rightarrow> u8 \<Rightarrow> buffer \<Rightarrow> NodeInfo \<Rightarrow> (u8 \<rightharpoonup> NodeRecord) \<times> InfoStatus" where
  "updateInfoSpec m nodeId uid info =
     (case m nodeId of
        None \<Rightarrow> (m, IN_NotFound)
      | Some r \<Rightarrow>
          if nr_state r \<noteq> Active \<or> \<not> uidEquals (Some (nr_deviceUid r)) uid then (m, IN_NotFound)
          else if nr_profileId r = ni_profileId info \<and> nr_firmware r = ni_firmware info \<and>
                  nr_maxPowerLevel r = ni_maxPowerLevel info then (m, IN_NoChange)
          else (m(nodeId \<mapsto> r\<lparr>nr_profileId := ni_profileId info, nr_firmware := ni_firmware info,
                  nr_maxPowerLevel := ni_maxPowerLevel info,
                  nr_powerPolicy := clampPolicy (nr_powerPolicy r) (ni_maxPowerLevel info)\<rparr>),
                if nr_profileId r \<noteq> ni_profileId info then IN_ProfileChanged else IN_Updated))"

lemma firmwareEquals_iff [simp]: "firmwareEquals f g \<longleftrightarrow> f = g"
  by (cases f, cases g) (auto simp: firmwareEquals_def)

lemma updateInfo_refines:
  assumes "recordsOk rs" and "nodeInfoOk info"
  shows "registryOk (fst (updateInfo (registryOf rs) nodeId uid info)) \<and>
    abstractly (updateInfo (registryOf rs) nodeId uid info) =
      updateInfoSpec (nodeMap rs) nodeId uid info"
proof (cases rule: lookup_cases [of rs nodeId])
  case missing then show ?thesis using assms by (simp add: updateInfo_def updateInfoSpec_def)
next
  case (found i)
  let ?r = "(rs ! i)\<lparr>nr_profileId := ni_profileId info, nr_firmware := ni_firmware info,
    nr_maxPowerLevel := ni_maxPowerLevel info,
    nr_powerPolicy := clampPolicy (nr_powerPolicy (rs ! i)) (ni_maxPowerLevel info)\<rparr>"
  have "recordOk ?r"
    using recordsOk_nth [OF assms(1) found(2)] assms(2)
    by (simp add: recordOk_def shapedRecord_def restorableRecord_def nodeInfoOk_def not_less)
  from write_found [OF assms(1) found(2,3) this] found(3)
  have w: "recordsOk (rs[i := ?r])" "nodeMap (rs[i := ?r]) = (nodeMap rs)(nodeId \<mapsto> ?r)"
    by simp_all
  show ?thesis
    using w found assms(1)
    by (simp add: updateInfo_def updateInfoSpec_def Let_def setRecord_registryOf)
qed

subsection \<open>reserve\<close>

definition newNode :: "JoinRequest \<Rightarrow> u8 \<Rightarrow> NodeRecord" where
  "newNode request nodeId = blankRecord\<lparr>nr_deviceUid := jr_deviceUid request,
     nr_nodeId := nodeId, nr_profileId := jr_profileId request,
     nr_firmware := jr_firmware request, nr_state := Pending,
     nr_requestNonce := jr_requestNonce request,
     nr_maxPowerLevel := jr_maxPowerLevel request, nr_powerPolicy := kPolicyAuto\<rparr>"

definition rejoined :: "NodeRecord \<Rightarrow> JoinRequest \<Rightarrow> NodeRecord" where
  "rejoined r request = r\<lparr>nr_firmware := jr_firmware request,
     nr_requestNonce := jr_requestNonce request, nr_maxPowerLevel := jr_maxPowerLevel request,
     nr_powerPolicy := clampPolicy (nr_powerPolicy r) (jr_maxPowerLevel request)\<rparr>"

text \<open>An id is free below the table's capacity, and the lowest free one is taken.\<close>

lemma find_upt:
  "List.find P [a..<b] = Some c \<Longrightarrow> a \<le> c \<and> c < b \<and> P c \<and> (\<forall>d. a \<le> d \<and> d < c \<longrightarrow> \<not> P d)"
proof -
  assume "List.find P [a..<b] = Some c"
  then obtain i where i: "i < b - a" "P ([a..<b] ! i)" "c = [a..<b] ! i" "\<forall>j < i. \<not> P ([a..<b] ! j)"
    by (auto simp: find_Some_iff)
  then have c: "c = a + i" by simp
  have "\<not> P d" if "a \<le> d" "d < c" for d
    using i(4) [rule_format, of "d - a"] that c i(1) by simp
  with i c show ?thesis by simp
qed

lemma id_word_cast: "c < 256 \<Longrightarrow> d < 256 \<Longrightarrow> (of_nat c :: u8) = of_nat d \<longleftrightarrow> c = d"
  by (metis unat_of_nat_u8)

lemma allocateNodeId_free:
  assumes "length rs < 99"
  obtains c where "allocateNodeId (registryOf rs) = of_nat c" "1 \<le> c" "c \<le> 99"
    "of_nat c \<notin> nr_nodeId ` set rs" "\<And>d. 1 \<le> d \<Longrightarrow> d < c \<Longrightarrow> of_nat d \<in> nr_nodeId ` set rs"
proof -
  let ?free = "\<lambda>c. findByNodeId (registryOf rs) (of_nat c) = None"
  have "List.find ?free [1..<100] \<noteq> None"
  proof
    assume "List.find ?free [1..<100] = None"
    then have "\<forall>c \<in> {1..<100}. of_nat c \<in> nr_nodeId ` set rs"
      by (auto simp: find_None_iff findByNodeId_None_iff)
    then have sub: "(of_nat :: nat \<Rightarrow> u8) ` {1..<100} \<subseteq> nr_nodeId ` set rs" by blast
    have "inj_on (of_nat :: nat \<Rightarrow> u8) {1..<100}"
      by (auto intro!: inj_onI simp: id_word_cast)
    then have "99 = card ((of_nat :: nat \<Rightarrow> u8) ` {1..<100})" by (simp add: card_image)
    also have "\<dots> \<le> card (nr_nodeId ` set rs)" by (rule card_mono [OF _ sub]) simp
    also have "\<dots> \<le> length rs" using card_image_le [of "set rs" nr_nodeId] card_length [of rs] by simp
    finally show False using assms by simp
  qed
  then obtain c where c: "List.find ?free [1..<100] = Some c" by auto
  have "allocateNodeId (registryOf rs) = of_nat c"
    using c by (simp add: allocateNodeId_def)
  with find_upt [OF c] that show thesis
    by (auto simp: findByNodeId_None_iff)
qed

lemma newNode_ok:
  assumes "joinRequestOk request" "1 \<le> c" "c \<le> 99"
  shows "recordOk (newNode request (of_nat c))"
proof -
  have "\<not> (of_nat c :: u8) < 1" "\<not> (99 :: u8) < of_nat c"
    using assms(2,3) by (simp_all add: word_less_nat_alt unat_of_nat)
  then show ?thesis
    using assms(1)
    by (simp add: newNode_def blankRecord_def recordOk_def shapedRecord_def restorableRecord_def joinRequestOk_def
        validDisplayName_def validPolicy_def not_less)
qed

lemma rejoined_ok: "recordOk r \<Longrightarrow> joinRequestOk request \<Longrightarrow> recordOk (rejoined r request)"
  by (simp add: rejoined_def recordOk_def shapedRecord_def restorableRecord_def joinRequestOk_def not_less)

lemma reserve_new:
  assumes "recordsOk rs" "joinRequestOk request" "jr_deviceUid request \<notin> nr_deviceUid ` set rs"
    and room: "length rs < kMaxNodes"
  obtains c where "1 \<le> c" "c \<le> 99" "of_nat c \<notin> nr_nodeId ` set rs"
    "\<And>d. 1 \<le> d \<Longrightarrow> d < c \<Longrightarrow> of_nat d \<in> nr_nodeId ` set rs"
    "recordsOk (rs @ [newNode request (of_nat c)])"
    "reserve (registryOf rs) request =
      (registryOf (rs @ [newNode request (of_nat c)]), \<lparr>rr_status = RS_Created, rr_nodeId = of_nat c\<rparr>)"
proof -
  obtain c where c: "allocateNodeId (registryOf rs) = of_nat c" "1 \<le> c" "c \<le> 99"
    "of_nat c \<notin> nr_nodeId ` set rs" "\<And>d. 1 \<le> d \<Longrightarrow> d < c \<Longrightarrow> of_nat d \<in> nr_nodeId ` set rs"
    using allocateNodeId_free [of rs] room by auto
  have nz: "(of_nat c :: u8) \<noteq> 0"
  proof
    assume "(of_nat c :: u8) = 0"
    then have "(of_nat c :: u8) = of_nat 0" by simp
    then have "c = 0" using c(3) by (subst (asm) id_word_cast) simp_all
    with c(2) show False by simp
  qed
  have missing: "findByUid (registryOf rs) (Some (jr_deviceUid request)) = None"
    using assms(1,2,3) by (simp add: findByUid_None_iff joinRequestOk_def)
  have "recordsOk (rs @ [newNode request (of_nat c)])"
    using assms(1,3) room c(4) newNode_ok [OF assms(2) c(2,3)]
    by (auto simp: recordsOk_def newNode_def)
  moreover have "reserve (registryOf rs) request =
      (registryOf (rs @ [newNode request (of_nat c)]), \<lparr>rr_status = RS_Created, rr_nodeId = of_nat c\<rparr>)"
    using missing room assms(2) c(1) nz setRecord_append [OF room, of "newNode request (of_nat c)"]
    by (simp add: reserve_def Let_def joinRequestOk_def next_registryOf newNode_def)
  ultimately show thesis using that c(2,3,4,5) by blast
qed

lemma reserve_full:
  assumes "recordsOk rs" "joinRequestOk request" "jr_deviceUid request \<notin> nr_deviceUid ` set rs"
    and "length rs = kMaxNodes"
  shows "reserve (registryOf rs) request =
    (registryOf rs, \<lparr>rr_status = RS_Full, rr_nodeId = kUnprovisionedNodeId\<rparr>)"
proof -
  have "findByUid (registryOf rs) (Some (jr_deviceUid request)) = None"
    using assms(1,2,3) by (simp add: findByUid_None_iff joinRequestOk_def)
  then show ?thesis using assms(2,4) by (simp add: reserve_def joinRequestOk_def)
qed

text \<open>A known node keeps its id; only one that is still pending is changed.\<close>

definition knownStatus :: "NodeRecord \<Rightarrow> JoinRequest \<Rightarrow> ReserveStatus" where
  "knownStatus r request =
     (if nr_profileId r \<noteq> jr_profileId request then RS_ProfileConflict
      else case nr_state r of
        Active \<Rightarrow> RS_ExistingActive
      | Disabled \<Rightarrow> RS_ExistingDisabled
      | _ \<Rightarrow> RS_ExistingPendingUpdated)"

lemma reserve_known:
  assumes "recordsOk rs" "joinRequestOk request" "r \<in> set rs" "nr_deviceUid r = jr_deviceUid request"
  shows "registryOk (fst (reserve (registryOf rs) request)) \<and>
    abstractly (reserve (registryOf rs) request) =
      (if knownStatus r request = RS_ExistingPendingUpdated
       then (nodeMap rs)(nr_nodeId r \<mapsto> rejoined r request) else nodeMap rs,
       \<lparr>rr_status = knownStatus r request, rr_nodeId = nr_nodeId r\<rparr>)"
proof -
  have uid: "length (jr_deviceUid request) = kDeviceUidSize" using assms(2) by (simp add: joinRequestOk_def)
  then obtain i where i: "findByUid (registryOf rs) (Some (jr_deviceUid request)) = Some i"
    using findByUid_None_iff [OF assms(1) uid] assms(3,4) by force
  from findByUid_SomeD [OF this] have len: "i < length rs"
    and "nr_deviceUid (rs ! i) = jr_deviceUid request"
    using uid recordsOk_nth [OF assms(1)] by (auto simp: recordOk_def shapedRecord_def)
  moreover obtain j where "j < length rs" "rs ! j = r" using assms(3) by (metis in_set_conv_nth)
  ultimately have r: "rs ! i = r"
    using assms(1,4) nth_eq_iff_index_eq [of "map nr_deviceUid rs" i j] by (auto simp: recordsOk_def)
  have w: "recordsOk (rs[i := rejoined r request]) \<and>
      nodeMap (rs[i := rejoined r request]) = (nodeMap rs)(nr_nodeId r \<mapsto> rejoined r request)"
  proof (rule write_found [OF assms(1) len])
    show "recordOk (rejoined r request)"
      using rejoined_ok recordsOk_nth [OF assms(1) len] assms(2) r by simp
  qed (simp_all add: r rejoined_def)
  have "jr_profileId request \<noteq> 0" using assms(2) by (simp add: joinRequestOk_def)
  with i len r w assms(1) show ?thesis
    by (auto simp: reserve_def knownStatus_def Let_def setRecord_registryOf rejoined_def
        split: NodeState.splits)
qed

lemma reserve_ok:
  assumes "recordsOk rs" "joinRequestOk request"
  shows "registryOk (fst (reserve (registryOf rs) request))"
proof (cases "jr_deviceUid request \<in> nr_deviceUid ` set rs")
  case True
  then obtain r where "r \<in> set rs" "nr_deviceUid r = jr_deviceUid request" by auto
  then show ?thesis using reserve_known [OF assms] by blast
next
  case False
  have "length rs \<le> kMaxNodes" using assms(1) by (simp add: recordsOk_def)
  then show ?thesis
  proof (cases "length rs < kMaxNodes")
    case True
    from reserve_new [OF assms False True] show ?thesis by (metis fst_conv registryOk_registryOf)
  next
    case full: False
    with \<open>length rs \<le> kMaxNodes\<close> reserve_full [OF assms False] assms(1) show ?thesis by simp
  qed
qed

subsection \<open>restore accepts exactly the valid tables\<close>

lemma restorableFrom_iff:
  assumes "\<forall>r \<in> set (previous @ rs). length (nr_deviceUid r) = kDeviceUidSize"
  shows "restorableFrom previous rs \<longleftrightarrow> list_all restorableRecord rs \<and>
    distinct (map nr_nodeId rs) \<and> distinct (map nr_deviceUid rs) \<and>
    nr_nodeId ` set previous \<inter> nr_nodeId ` set rs = {} \<and>
    nr_deviceUid ` set previous \<inter> nr_deviceUid ` set rs = {}"
  using assms
proof (induction rs arbitrary: previous)
  case Nil then show ?case by simp
next
  case (Cons r rs)
  then have len: "length (nr_deviceUid r) = 10" "\<forall>p \<in> set previous. length (nr_deviceUid p) = 10"
    by auto
  have "list_ex (\<lambda>p. nr_nodeId p = nr_nodeId r \<or>
        uidEquals (Some (nr_deviceUid p)) (Some (nr_deviceUid r))) previous \<longleftrightarrow>
      nr_nodeId r \<in> nr_nodeId ` set previous \<or> nr_deviceUid r \<in> nr_deviceUid ` set previous"
  proof -
    have "uidEquals (Some (nr_deviceUid p)) (Some (nr_deviceUid r)) \<longleftrightarrow> nr_deviceUid p = nr_deviceUid r"
      if "p \<in> set previous" for p
      using len that by (simp add: uidEquals_def)
    then show ?thesis unfolding list_ex_iff image_iff by metis
  qed
  moreover have "restorableFrom (previous @ [r]) rs \<longleftrightarrow> list_all restorableRecord rs \<and>
      distinct (map nr_nodeId rs) \<and> distinct (map nr_deviceUid rs) \<and>
      nr_nodeId ` set (previous @ [r]) \<inter> nr_nodeId ` set rs = {} \<and>
      nr_deviceUid ` set (previous @ [r]) \<inter> nr_deviceUid ` set rs = {}"
    using Cons.prems by (intro Cons.IH) simp
  ultimately show ?case by auto
qed

lemma restore_iff:
  assumes "\<forall>r \<in> set rs. length (nr_deviceUid r) = kDeviceUidSize"
  shows "restore reg (Some rs) (length rs) =
    (if length rs \<le> kMaxNodes \<and> list_all restorableRecord rs \<and> distinct (map nr_nodeId rs) \<and>
        distinct (map nr_deviceUid rs)
     then (registryOf rs, True) else (reg, False))"
  using restorableFrom_iff [of "[]" rs] assms
  by (auto simp: restore_def registryOf_def Let_def)

lemma restore_refines:
  assumes "list_all shapedRecord rs"
  shows "restore reg (Some rs) (length rs) =
    (if recordsOk rs then (registryOf rs, True) else (reg, False))"
proof -
  have "\<forall>r \<in> set rs. length (nr_deviceUid r) = kDeviceUidSize"
    using assms by (simp add: list_all_iff shapedRecord_def)
  from restore_iff [OF this] show ?thesis
    using assms by (auto simp: recordsOk_def recordOk_def list_all_iff)
qed

subsection \<open>Reachable registries\<close>

datatype RegistryOp =
  Op_Reserve JoinRequest | Op_Confirm buffer u8 u32 | Op_Disable u8 | Op_Remove u8
  | Op_Rename u8 bytes | Op_SetPowerPolicy u8 u8 | Op_UpdateInfo u8 buffer NodeInfo
  | Op_Restore "NodeRecord list"

fun applyOp :: "NodeRegistry \<Rightarrow> RegistryOp \<Rightarrow> NodeRegistry" where
  "applyOp reg (Op_Reserve request) = fst (reserve reg request)"
| "applyOp reg (Op_Confirm uid nodeId nonce) = fst (confirm reg uid nodeId nonce)"
| "applyOp reg (Op_Disable nodeId) = fst (disable reg nodeId)"
| "applyOp reg (Op_Remove nodeId) = fst (removeNode reg nodeId)"
| "applyOp reg (Op_Rename nodeId name) = fst (rename reg nodeId (Some name) (length name))"
| "applyOp reg (Op_SetPowerPolicy nodeId policy) = fst (setPowerPolicy reg nodeId policy)"
| "applyOp reg (Op_UpdateInfo nodeId uid info) = fst (updateInfo reg nodeId uid info)"
| "applyOp reg (Op_Restore rs) = fst (restore reg (Some rs) (length rs))"

text \<open>What the callers guarantee: requests and infos come out of the decoders, stored records
  out of a snapshot of a registry.\<close>

fun opOk :: "RegistryOp \<Rightarrow> bool" where
  "opOk (Op_Reserve request) = joinRequestOk request"
| "opOk (Op_UpdateInfo nodeId uid info) = nodeInfoOk info"
| "opOk (Op_Restore rs) = list_all (\<lambda>r. shapedRecord r \<and> withinCeiling r) rs"
| "opOk _ = True"

inductive reachable :: "NodeRegistry \<Rightarrow> bool" where
  reachable_new: "reachable newRegistry"
| reachable_op: "reachable reg \<Longrightarrow> opOk operation \<Longrightarrow> reachable (applyOp reg operation)"

lemma applyOp_ok:
  assumes "registryOk reg" "opOk operation" shows "registryOk (applyOp reg operation)"
proof -
  obtain rs where rs: "reg = registryOf rs" "recordsOk rs" by (rule registryOkE [OF assms(1)])
  with assms(2) show ?thesis
    by (cases operation)
       (auto simp: reserve_ok confirm_refines disable_refines remove_refines rename_refines
         setPowerPolicy_refines updateInfo_refines restore_refines list_all_iff)
qed

lemma reachable_ok: "reachable reg \<Longrightarrow> registryOk reg"
proof (induction rule: reachable.induct)
  case reachable_new show ?case by (simp add: newRegistry_ok)
next
  case reachable_op then show ?case by (simp add: applyOp_ok)
qed

text \<open>The ceilings, over the map.\<close>

definition ceilings :: "(u8 \<rightharpoonup> NodeRecord) \<Rightarrow> bool" where
  "ceilings m \<longleftrightarrow> (\<forall>r \<in> ran m. withinCeiling r)"

lemma ran_nodeMap: "distinct (map nr_nodeId rs) \<Longrightarrow> ran (nodeMap rs) = set rs"
  by (auto simp: ran_def dest: nodeMap_mem intro: nodeMap_SomeI)

lemma ceilings_upd: "ceilings m \<Longrightarrow> withinCeiling r \<Longrightarrow> ceilings (m(k \<mapsto> r))"
  by (auto simp: ceilings_def ran_def)

lemma ceilings_get: "ceilings m \<Longrightarrow> m k = Some r \<Longrightarrow> withinCeiling r"
  by (auto simp: ceilings_def ran_def)

lemma withinCeiling_clamp: "withinCeiling (r\<lparr>nr_maxPowerLevel := c, nr_powerPolicy := clampPolicy p c\<rparr>)"
  by (simp add: withinCeiling_def clampPolicy_def isFixedPolicy_def not_less)

lemma specs_keep_ceilings:
  assumes "ceilings m"
  shows "ceilings (fst (confirmSpec m uid nodeId nonce))" "ceilings (fst (disableSpec m nodeId))"
    "ceilings (fst (removeSpec m nodeId))" "ceilings (fst (renameSpec m nodeId name))"
    "ceilings (fst (setPowerPolicySpec m nodeId policy))"
    "ceilings (fst (updateInfoSpec m nodeId uid info))"
proof -
  note keep = ceilings_upd [OF assms] ceilings_get [OF assms]
  show "ceilings (fst (confirmSpec m uid nodeId nonce))"
    using keep(2) [of nodeId] assms
    by (auto simp: confirmSpec_def withinCeiling_def intro!: keep(1) split: option.splits NodeState.splits)
  show "ceilings (fst (disableSpec m nodeId))"
    using keep(2) [of nodeId] assms
    by (auto simp: disableSpec_def withinCeiling_def intro!: keep(1) split: option.splits)
  show "ceilings (fst (removeSpec m nodeId))"
    using assms by (auto simp: removeSpec_def ceilings_def ran_def)
  show "ceilings (fst (renameSpec m nodeId name))"
    using keep(2) [of nodeId] assms
    by (auto simp: renameSpec_def renamed_def withinCeiling_def intro!: keep(1) split: option.splits)
  show "ceilings (fst (setPowerPolicySpec m nodeId policy))"
    using assms by (auto simp: setPowerPolicySpec_def intro!: keep(1) split: option.splits)
  have "withinCeiling (r\<lparr>nr_profileId := ni_profileId info, nr_firmware := ni_firmware info,
      nr_maxPowerLevel := ni_maxPowerLevel info,
      nr_powerPolicy := clampPolicy (nr_powerPolicy r) (ni_maxPowerLevel info)\<rparr>)" for r
    using withinCeiling_clamp [where r = r] by (simp add: withinCeiling_def)
  then show "ceilings (fst (updateInfoSpec m nodeId uid info))"
    using assms by (auto simp: updateInfoSpec_def intro!: keep(1) split: option.splits)
qed

lemma reserve_keeps_ceilings:
  assumes "recordsOk rs" "joinRequestOk request" "ceilings (nodeMap rs)"
  shows "ceilings (nodeMap (registryRecords (fst (reserve (registryOf rs) request))))"
proof (cases "jr_deviceUid request \<in> nr_deviceUid ` set rs")
  case True
  then obtain r where "r \<in> set rs" "nr_deviceUid r = jr_deviceUid request" by auto
  from reserve_known [OF assms(1,2) this]
  have "nodeMap (registryRecords (fst (reserve (registryOf rs) request))) =
      (if knownStatus r request = RS_ExistingPendingUpdated
       then (nodeMap rs)(nr_nodeId r \<mapsto> rejoined r request) else nodeMap rs)"
    by (simp add: abstractly_def)
  moreover have "withinCeiling (rejoined r request)"
    using withinCeiling_clamp [where r = r] by (simp add: rejoined_def withinCeiling_def)
  ultimately show ?thesis using ceilings_upd [OF assms(3)] assms(3) by simp
next
  case False
  show ?thesis
  proof (cases "length rs < kMaxNodes")
    case True
    from reserve_new [OF assms(1,2) False True] obtain c where
      c: "recordsOk (rs @ [newNode request (of_nat c)])"
        "reserve (registryOf rs) request = (registryOf (rs @ [newNode request (of_nat c)]),
          \<lparr>rr_status = RS_Created, rr_nodeId = of_nat c\<rparr>)" by metis
    have "withinCeiling (newNode request (of_nat c))"
      by (simp add: newNode_def withinCeiling_def isFixedPolicy_def)
    with assms(1,3) c(2) ran_nodeMap [OF recordsOk_distinct [OF c(1)]] show ?thesis
      by (simp add: ceilings_def ran_nodeMap recordsOk_distinct)
  next
    case full: False
    then have "length rs = kMaxNodes" using assms(1) by (simp add: recordsOk_def)
    with reserve_full [OF assms(1,2) False] assms(3) show ?thesis by simp
  qed
qed

lemma applyOp_ceilings:
  assumes "recordsOk rs" "opOk operation" "ceilings (nodeMap rs)"
  shows "ceilings (nodeMap (registryRecords (applyOp (registryOf rs) operation)))"
proof -
  have fst: "nodeMap (registryRecords (fst x)) = fst (abstractly x)" for x :: "NodeRegistry \<times> 's"
    by (simp add: abstractly_def)
  note keep = specs_keep_ceilings [OF assms(3)]
  show ?thesis
  proof (cases operation)
    case (Op_Restore rs')
    then have "list_all shapedRecord rs'" using assms(2) by (simp add: list_all_iff)
    with Op_Restore assms show ?thesis
      by (auto simp: restore_refines ceilings_def ran_nodeMap recordsOk_distinct list_all_iff)
  qed (use assms keep in \<open>simp_all add: fst confirm_refines disable_refines remove_refines
      rename_refines setPowerPolicy_refines updateInfo_refines\<close>,
      use reserve_keeps_ceilings assms in \<open>simp add: abstractly_def\<close>)
qed

lemma reachable_ceilings: "reachable reg \<Longrightarrow> ceilings (nodeMap (registryRecords reg))"
proof (induction rule: reachable.induct)
  case reachable_new show ?case by (simp add: newRegistry_ok ceilings_def nodeMap_def)
next
  case (reachable_op reg operation)
  obtain rs where "reg = registryOf rs" "recordsOk rs"
    using reachable_ok [OF reachable_op.hyps(1)] by (rule registryOkE)
  with reachable_op show ?case by (simp add: applyOp_ceilings)
qed

lemma registryOk_restores:
  assumes "registryOk reg"
  shows "restore start (Some (registryRecords reg)) (reg_count reg) = (reg, True)"
proof -
  obtain rs where rs: "reg = registryOf rs" "recordsOk rs" by (rule registryOkE [OF assms])
  then have "list_all shapedRecord rs" by (simp add: recordsOk_def recordOk_def list_all_iff)
  with rs show ?thesis by (simp add: restore_refines)
qed

end
