(* ===== verification/Crc.thy ===== *)
theory Crc
  imports RS_Prelude
begin

text \<open>
  The checksums of the code: CRC-32 of the gateway's stored snapshots
  (\<open>crc32\<close> of GatewayStorage.cpp and RegistryPersistence.cpp, the same code twice), CRC-16
  of the node's EEPROM records (\<open>crc16Ccitt\<close> of NodeStorage.h) and CRC-8 of the SHT40
  readings (\<open>crc8\<close> of Sht40Sensor.cpp).  All three fold a byte step over the data.  The
  locale \<open>crc_machine\<close> states what the error detection rests on, that a byte step loses
  neither the state nor the byte, and proves once that no change confined to one byte
  keeps the checksum; each checksum of the code interprets it.
\<close>

locale crc_machine =
  fixes step :: "'w \<Rightarrow> 'b \<Rightarrow> 'w"
  assumes step_state: "step s b = step t b \<Longrightarrow> s = t"
    and step_byte: "step s b = step s c \<Longrightarrow> b = c"
begin

lemma fold_state: "foldl step s xs = foldl step t xs \<Longrightarrow> s = t"
  by (induction xs arbitrary: s t) (auto dest: step_state)

lemma one_byte_change:
  assumes "b \<noteq> c"
  shows "foldl step s (xs @ b # ys) \<noteq> foldl step s (xs @ c # ys)"
  using assms fold_state step_byte by fastforce

lemma same_length_prefix:
  assumes "foldl step s (xs @ b # ys) = foldl step s (xs @ c # ys)"
  shows "b = c"
  using assms one_byte_change by blast

end

subsection \<open>CRC-32\<close>

definition crc32_bit :: "u32 \<Rightarrow> u32" where
  "crc32_bit crc =
     (let mask = - (crc AND 1) in drop_bit 1 crc XOR (0xEDB88320 AND mask))"

definition crc32_byte :: "u32 \<Rightarrow> u8 \<Rightarrow> u32" where
  "crc32_byte crc b = (crc32_bit ^^ 8) (crc XOR ucast b)"

definition crc32 :: "bytes \<Rightarrow> u32" where
  "crc32 data = NOT (foldl crc32_byte 0xFFFFFFFF data)"

subsection \<open>CRC-16 (CCITT)\<close>

definition crc16_bit :: "u16 \<Rightarrow> u16" where
  "crc16_bit crc =
     (if crc AND 0x8000 \<noteq> 0 then push_bit 1 crc XOR 0x1021 else push_bit 1 crc)"

definition crc16_byte :: "u16 \<Rightarrow> u8 \<Rightarrow> u16" where
  "crc16_byte crc b = (crc16_bit ^^ 8) (crc XOR push_bit 8 (ucast b))"

definition crc16Ccitt :: "bytes \<Rightarrow> u16" where
  "crc16Ccitt data = foldl crc16_byte 0xFFFF data"

subsection \<open>CRC-8 of the SHT40\<close>

definition crc8_bit :: "u8 \<Rightarrow> u8" where
  "crc8_bit crc = (if crc AND 0x80 \<noteq> 0 then push_bit 1 crc XOR 0x31 else push_bit 1 crc)"

definition crc8_byte :: "u8 \<Rightarrow> u8 \<Rightarrow> u8" where
  "crc8_byte crc b = (crc8_bit ^^ 8) (crc XOR b)"

definition crc8 :: "bytes \<Rightarrow> u8" where
  "crc8 data = foldl crc8_byte 0xFF data"

subsection \<open>The bit steps are injective\<close>

lemma xor_left_cancel: "a XOR b = a XOR c \<Longrightarrow> b = c" for a b c :: "'a::len word"
  by (metis xor.left_neutral xor_self_eq xor.assoc)

lemma xor_right_cancel: "b XOR a = c XOR a \<Longrightarrow> b = c" for a b c :: "'a::len word"
  by (metis xor_left_cancel xor.commute)

lemma and_bit_neq_0: "x AND push_bit n 1 \<noteq> 0 \<longleftrightarrow> bit x n" if "n < LENGTH('a)"
  for x :: "'a::len word"
  using that by (simp add: and_exp_eq_0_iff_not_bit push_bit_of_1)

lemma crc32_bit_alt: "crc32_bit x = (if bit x 0 then drop_bit 1 x XOR 0xEDB88320 else drop_bit 1 x)"
proof -
  have "x AND 1 = (if bit x 0 then 1 else 0)"
    by (simp add: and_one_eq mod_2_eq_odd bit_0)
  then show ?thesis by (simp add: crc32_bit_def Let_def)
qed

lemma inj_crc32_bit: "inj crc32_bit"
proof (rule injI)
  fix x y :: u32
  assume eq: "crc32_bit x = crc32_bit y"
  have top: "bit (crc32_bit z) 31 = bit z 0" for z :: u32
    by (auto simp: crc32_bit_alt bit_xor_iff bit_drop_bit_eq dest: bit_imp_le_length)
  have low: "bit x 0 = bit y 0" using eq top by metis
  then have "drop_bit 1 x = drop_bit 1 y"
    using eq by (auto simp: crc32_bit_alt dest: xor_right_cancel split: if_splits)
  then have up: "bit x (Suc n) = bit y (Suc n)" for n
    by (metis bit_drop_bit_eq comp_def plus_1_eq_Suc)
  show "x = y"
  proof (rule bit_word_eqI)
    fix n show "bit x n = bit y n" using low up by (cases n) auto
  qed
qed

lemma shift_crc_inj:
  fixes poly :: "'a::len word" and f :: "'a word \<Rightarrow> 'a word"
  assumes f: "\<And>z. f z = (if bit z (LENGTH('a) - 1) then push_bit 1 z XOR poly else push_bit 1 z)"
    and poly: "bit poly 0"
  shows "inj f"
proof (rule injI)
  fix x y :: "'a word"
  assume eq: "f x = f y"
  have "\<not> bit (push_bit 1 z) 0" for z :: "'a word"
    by (simp only: bit_push_bit_iff) simp
  then have low: "bit (f z) 0 = bit z (LENGTH('a) - 1)" for z
    using poly by (simp only: f bit_xor_iff split: if_split) simp
  have top: "bit x (LENGTH('a) - 1) = bit y (LENGTH('a) - 1)" using eq low by metis
  then have push: "push_bit 1 x = push_bit 1 y"
    using eq by (auto simp only: f dest: xor_right_cancel split: if_splits)
  show "x = y"
  proof (rule bit_word_eqI)
    fix n assume n: "n < LENGTH('a)"
    show "bit x n = bit y n"
    proof (cases "n = LENGTH('a) - 1")
      case True
      then show ?thesis using top by simp
    next
      case False
      with n have "Suc n < LENGTH('a)" by simp
      moreover have "bit (push_bit 1 x) (Suc n) = bit (push_bit 1 y) (Suc n)"
        using push by simp
      ultimately show ?thesis by (simp only: bit_push_bit_iff) simp
    qed
  qed
qed

lemma inj_crc16_bit: "inj crc16_bit"
proof (rule shift_crc_inj)
  show "crc16_bit z = (if bit z (LENGTH(16) - 1) then push_bit 1 z XOR 0x1021 else push_bit 1 z)" for z
    using and_bit_neq_0 [of 15 z] by (simp add: crc16_bit_def push_bit_of_1)
qed simp

lemma inj_crc8_bit: "inj crc8_bit"
proof (rule shift_crc_inj)
  show "crc8_bit z = (if bit z (LENGTH(8) - 1) then push_bit 1 z XOR 0x31 else push_bit 1 z)" for z
    using and_bit_neq_0 [of 7 z] by (simp add: crc8_bit_def push_bit_of_1)
qed simp

lemma ucast_u8_inj: "ucast (a :: u8) = (ucast b :: 'a::len word) \<Longrightarrow> 8 \<le> LENGTH('a) \<Longrightarrow> a = b"
proof -
  assume *: "ucast (a :: u8) = (ucast b :: 'a word)" "8 \<le> LENGTH('a)"
  show "a = b"
  proof (rule bit_word_eqI)
    fix n assume n: "n < LENGTH(8)"
    with *(2) have "bit (ucast x :: 'a word) n = bit x n" for x :: u8
      by (simp add: bit_ucast_iff)
    with *(1) show "bit a n = bit b n" by metis
  qed
qed

lemma push8_u16_inj: "push_bit 8 (ucast (a :: u8)) = (push_bit 8 (ucast b) :: u16) \<Longrightarrow> a = b"
proof -
  assume *: "push_bit 8 (ucast (a :: u8)) = (push_bit 8 (ucast b) :: u16)"
  show "a = b"
  proof (rule bit_word_eqI)
    fix n assume n: "n < LENGTH(8)"
    have "bit (push_bit 8 (ucast a) :: u16) (n + 8) = bit (push_bit 8 (ucast b) :: u16) (n + 8)"
      using * by simp
    with n show "bit a n = bit b n" by (simp add: bit_simps)
  qed
qed

subsection \<open>The checksums of the code are such machines\<close>

interpretation crc32: crc_machine crc32_byte
proof
  fix s t :: u32 and b c :: u8
  have inj: "inj (crc32_bit ^^ 8)" by (rule inj_fn) (rule inj_crc32_bit)
  show "crc32_byte s b = crc32_byte t b \<Longrightarrow> s = t"
    unfolding crc32_byte_def by (metis inj injD xor_right_cancel)
  show "crc32_byte s b = crc32_byte s c \<Longrightarrow> b = c"
    unfolding crc32_byte_def
    by (drule injD [OF inj], drule xor_left_cancel, drule ucast_u8_inj) simp_all
qed

interpretation crc16: crc_machine crc16_byte
proof
  fix s t :: u16 and b c :: u8
  have inj: "inj (crc16_bit ^^ 8)" by (rule inj_fn) (rule inj_crc16_bit)
  show "crc16_byte s b = crc16_byte t b \<Longrightarrow> s = t"
    unfolding crc16_byte_def by (metis inj injD xor_right_cancel)
  show "crc16_byte s b = crc16_byte s c \<Longrightarrow> b = c"
    unfolding crc16_byte_def
    by (drule injD [OF inj], drule xor_left_cancel, erule push8_u16_inj)
qed

interpretation crc8: crc_machine crc8_byte
proof
  fix s t b c :: u8
  have inj: "inj (crc8_bit ^^ 8)" by (rule inj_fn) (rule inj_crc8_bit)
  show "crc8_byte s b = crc8_byte t b \<Longrightarrow> s = t"
    unfolding crc8_byte_def by (metis inj injD xor_right_cancel)
  show "crc8_byte s b = crc8_byte s c \<Longrightarrow> b = c"
    unfolding crc8_byte_def by (drule injD [OF inj], erule xor_left_cancel)
qed

lemma crc32_one_byte: "b \<noteq> c \<Longrightarrow> crc32 (xs @ b # ys) \<noteq> crc32 (xs @ c # ys)"
  using crc32.one_byte_change [of b c "0xFFFFFFFF" xs ys] by (simp add: crc32_def)

lemma crc16_one_byte: "b \<noteq> c \<Longrightarrow> crc16Ccitt (xs @ b # ys) \<noteq> crc16Ccitt (xs @ c # ys)"
  using crc16.one_byte_change [of b c "0xFFFF" xs ys] by (simp add: crc16Ccitt_def)

lemma crc8_one_byte: "b \<noteq> c \<Longrightarrow> crc8 (xs @ b # ys) \<noteq> crc8 (xs @ c # ys)"
  using crc8.one_byte_change [of b c "0xFF" xs ys] by (simp add: crc8_def)

text \<open>Evaluation: the eight bit steps unfolded, and the check values of the three
  checksums on the customary input \<open>123456789\<close>.\<close>

lemma funpow_8: "(f ^^ 8) x = f (f (f (f (f (f (f (f x)))))))"
  by (simp add: eval_nat_numeral)

lemmas crc_eval =
  crc32_def crc32_byte_def crc32_bit_def crc16Ccitt_def crc16_byte_def crc16_bit_def
  crc8_def crc8_byte_def crc8_bit_def funpow_8 Let_def

lemma crc32_check_value:
  "crc32 [0x31, 0x32, 0x33, 0x34, 0x35, 0x36, 0x37, 0x38, 0x39] = 0xCBF43926"
  by (simp add: crc_eval)

lemma crc16_check_value:
  "crc16Ccitt [0x31, 0x32, 0x33, 0x34, 0x35, 0x36, 0x37, 0x38, 0x39] = 0x29B1"
  by (simp add: crc_eval)

lemma crc8_check_value:
  "crc8 [0x31, 0x32, 0x33, 0x34, 0x35, 0x36, 0x37, 0x38, 0x39] = 0xF7"
  by (simp add: crc_eval)

text \<open>Changing one byte of a block, in terms of the block's positions.\<close>

lemma list_update_split:
  "i < length xs \<Longrightarrow> xs[i := b] = take i xs @ b # drop (Suc i) xs"
  by (rule upd_conv_take_nth_drop)

lemma crc32_update: "i < length xs \<Longrightarrow> b \<noteq> xs ! i \<Longrightarrow> crc32 (xs[i := b]) \<noteq> crc32 xs"
  using crc32_one_byte [of b "xs ! i" "take i xs" "drop (Suc i) xs"]
  by (simp add: upd_conv_take_nth_drop id_take_nth_drop [symmetric])

lemma crc16_update: "i < length xs \<Longrightarrow> b \<noteq> xs ! i \<Longrightarrow> crc16Ccitt (xs[i := b]) \<noteq> crc16Ccitt xs"
  using crc16_one_byte [of b "xs ! i" "take i xs" "drop (Suc i) xs"]
  by (simp add: upd_conv_take_nth_drop id_take_nth_drop [symmetric])

lemma crc8_update: "i < length xs \<Longrightarrow> b \<noteq> xs ! i \<Longrightarrow> crc8 (xs[i := b]) \<noteq> crc8 xs"
  using crc8_one_byte [of b "xs ! i" "take i xs" "drop (Suc i) xs"]
  by (simp add: upd_conv_take_nth_drop id_take_nth_drop [symmetric])

subsection \<open>Snapshots that end in their CRC-32\<close>

text \<open>The last four bytes are the checksum of all bytes before them.\<close>

definition sealed :: "bytes \<Rightarrow> bool" where
  "sealed data \<longleftrightarrow> 4 \<le> length data \<and>
     get32 data (length data - 4) = crc32 (take (length data - 4) data)"

lemma sealed_append: "sealed (body @ le32 (crc32 body))"
  by (simp add: sealed_def layout_simps)

lemma sealed_iff: "sealed data \<longleftrightarrow> (\<exists>body. data = body @ le32 (crc32 body))"
proof
  assume "sealed data"
  then have len: "4 \<le> length data"
    and crc: "get32 data (length data - 4) = crc32 (take (length data - 4) data)"
    by (simp_all add: sealed_def)
  have "le32 (get32 data (length data - 4)) = chunk data (length data - 4) 4"
    using len by (intro le32_get32) simp
  then have "data = take (length data - 4) data @ le32 (crc32 (take (length data - 4) data))"
    using len crc by (simp add: chunk_def)
  then show "\<exists>body. data = body @ le32 (crc32 body)" by blast
qed (auto simp: sealed_append)

lemma crc32_list_update:
  assumes "i < length xs" "b \<noteq> xs ! i" shows "crc32 (xs[i := b]) \<noteq> crc32 xs"
  using crc32_one_byte [OF assms(2), of "take i xs" "drop (Suc i) xs"] assms(1)
  by (simp add: upd_conv_take_nth_drop id_take_nth_drop [symmetric])

text \<open>One changed byte, in the body or in the checksum, is always noticed.\<close>

lemma sealed_one_byte:
  assumes "sealed data" "i < length data" "b \<noteq> data ! i"
  shows "\<not> sealed (data[i := b])"
proof
  assume changed: "sealed (data[i := b])"
  obtain body where data: "data = body @ le32 (crc32 body)" using assms(1) sealed_iff by blast
  obtain body' where data': "data[i := b] = body' @ le32 (crc32 body')"
    using changed sealed_iff by blast
  have "length (data[i := b]) = length body' + 4" unfolding data' by simp
  then have len: "length body' = length body" unfolding data by simp
  show False
  proof (cases "i < length body")
    case True
    then have "data[i := b] = body[i := b] @ le32 (crc32 body)"
      by (simp add: data list_update_append)
    with data' len have "body' = body[i := b]" "crc32 body' = crc32 body" by auto
    with crc32_list_update [OF True] assms(3) True data show False by (simp add: nth_append)
  next
    case False
    then have "data[i := b] = body @ (le32 (crc32 body))[i - length body := b]"
      by (simp add: data list_update_append)
    with data' len have "body' = body" by auto
    with data data' have "data[i := b] = data" by simp
    with assms(2,3) show False by (metis nth_list_update_eq)
  qed
qed

end
