(* ===== verification/Slot_Store.thy ===== *)
theory Slot_Store
  imports Crc
begin

text \<open>
  Storage of a value in two alternating flash slots.  GatewayStorage.h's class template
  \<open>DualSlotStore\<close> (settings, authentication, secrets, command book): its template
  parameters are the record \<open>slot_codec\<close>, the virtual class \<open>SlotStorage\<close> is the
  record \<open>slot_ops\<close>, and \<open>NvsSlotStorage\<close> of gateway/src/ConfigurationStore.cpp and
  gateway/src/NodeRegistryStore.cpp implements it over the \<open>Preferences\<close> library, which
  is not part of the repository: the record \<open>nvs\<close> of its three calls is a parameter, and
  the locale \<open>nvs_contract\<close> states what the code relies on.  Nothing is assumed of the slot
  a write was aimed at when the write fails or is cut short.
\<close>

subsection \<open>The Preferences library\<close>

text \<open>\<open>getBytesLength key\<close>, \<open>getBytes key buffer size\<close> and
  \<open>putBytes key data size\<close> (which returns the number of bytes stored).  The two keys of a
  namespace are the slots 0 and 1.\<close>

record 's nvs =
  nvs_getBytesLength :: "'s \<Rightarrow> nat \<Rightarrow> nat"
  nvs_getBytes :: "'s \<Rightarrow> nat \<Rightarrow> nat \<Rightarrow> bytes"
  nvs_putBytes :: "'s \<Rightarrow> nat \<Rightarrow> bytes \<Rightarrow> 's \<times> nat"

subsection \<open>NvsSlotStorage\<close>

text \<open>A read returns the bytes it placed in the buffer, None for false.\<close>

record 's slot_ops =
  so_exists :: "'s \<Rightarrow> nat \<Rightarrow> bool"
  so_read :: "'s \<Rightarrow> nat \<Rightarrow> nat \<Rightarrow> bytes option"
  so_write :: "'s \<Rightarrow> nat \<Rightarrow> bytes \<Rightarrow> 's \<times> bool"

definition nvsExists :: "'s nvs \<Rightarrow> 's \<Rightarrow> nat \<Rightarrow> bool" where
  "nvsExists P s slot \<longleftrightarrow> slot < 2 \<and> nvs_getBytesLength P s slot \<noteq> 0"

definition nvsRead :: "'s nvs \<Rightarrow> 's \<Rightarrow> nat \<Rightarrow> nat \<Rightarrow> bytes option" where
  "nvsRead P s slot capacity =
     (if slot \<ge> 2 then None
      else
        let storedSize = nvs_getBytesLength P s slot in
        if storedSize = 0 \<or> storedSize > capacity then None
        else
          let out = nvs_getBytes P s slot storedSize in
          if length out \<noteq> storedSize then None else Some out)"

definition nvsWrite :: "'s nvs \<Rightarrow> 's \<Rightarrow> nat \<Rightarrow> bytes \<Rightarrow> 's \<times> bool" where
  "nvsWrite P s slot data =
     (if slot < 2 then
        let (s, n) = nvs_putBytes P s slot data in (s, n = length data)
      else (s, False))"

definition nvsSlots :: "'s nvs \<Rightarrow> 's slot_ops" where
  "nvsSlots P = \<lparr>so_exists = nvsExists P, so_read = nvsRead P, so_write = nvsWrite P\<rparr>"

subsection \<open>DualSlotStore\<close>

text \<open>\<open>CodecStatus\<close> of GatewayStorage.h.\<close>

datatype CodecStatus =
  GS_OutputTooSmall | GS_InvalidSize | GS_InvalidMagic | GS_UnsupportedVersion
  | GS_CrcMismatch | GS_InvalidReservedData | GS_InvalidFlags | GS_InvalidString
  | GS_InvalidValue | GS_InvalidCount | GS_DuplicateValue | GS_MissingAdmin

datatype LoadStatus = Loaded | Empty | Corrupt

record 'm slot_codec =
  sc_SnapshotSize :: nat
  sc_Encode :: "'m \<Rightarrow> u32 \<Rightarrow> buffer \<Rightarrow> CodecStatus + bytes"
  sc_Decode :: "buffer \<Rightarrow> CodecStatus + ('m \<times> u32)"
  sc_Equal :: "'m \<Rightarrow> 'm \<Rightarrow> bool"
  sc_DefaultValue :: 'm

record 'm dual_store =
  ds_current :: 'm
  ds_generation :: u32
  ds_activeSlot :: "nat option"
  ds_loaded :: bool

text \<open>What a slot holds: None when it cannot be read or does not decode.\<close>

definition slotValue :: "'s slot_ops \<Rightarrow> nat \<Rightarrow> (buffer \<Rightarrow> 'e + 'v) \<Rightarrow> 's \<Rightarrow> nat \<Rightarrow> 'v option" where
  "slotValue ops capacity decode s slot =
     (case so_read ops s slot capacity of
        None \<Rightarrow> None
      | Some data \<Rightarrow> (case decode (Some data) of Inl _ \<Rightarrow> None | Inr v \<Rightarrow> Some v))"

text \<open>The body of the loop over the slots: \<open>best\<close> is \<open>newest\<close>, \<open>newestGeneration\<close>,
  \<open>newestSlot\<close>.\<close>

definition newestStep ::
  "(nat \<Rightarrow> ('m \<times> u32) option) \<Rightarrow> ('m \<times> u32 \<times> nat) option \<Rightarrow> nat \<Rightarrow> ('m \<times> u32 \<times> nat) option" where
  "newestStep view best slot =
     (case view slot of
        None \<Rightarrow> best
      | Some (candidate, candidateGeneration) \<Rightarrow>
          (case best of
             None \<Rightarrow> Some (candidate, candidateGeneration, slot)
           | Some (_, newestGeneration, _) \<Rightarrow>
               if serial_newer candidateGeneration newestGeneration
               then Some (candidate, candidateGeneration, slot) else best))"

definition newestSlot :: "(nat \<Rightarrow> ('m \<times> u32) option) \<Rightarrow> ('m \<times> u32 \<times> nat) option" where
  "newestSlot view = foldl (newestStep view) None [0, 1]"

definition storeLoad ::
  "'s slot_ops \<Rightarrow> 'm slot_codec \<Rightarrow> 's \<Rightarrow> 'm dual_store \<times> 'm \<times> LoadStatus" where
  "storeLoad ops C s =
     (case newestSlot (slotValue ops (sc_SnapshotSize C) (sc_Decode C) s) of
        None \<Rightarrow>
          (\<lparr>ds_current = sc_DefaultValue C, ds_generation = 0, ds_activeSlot = None,
            ds_loaded = False\<rparr>,
           sc_DefaultValue C,
           if so_exists ops s 0 \<or> so_exists ops s 1 then Corrupt else Empty)
      | Some (newest, newestGeneration, slot) \<Rightarrow>
          (\<lparr>ds_current = newest, ds_generation = newestGeneration, ds_activeSlot = Some slot,
            ds_loaded = True\<rparr>, newest, Loaded))"

definition targetSlot :: "nat option \<Rightarrow> nat" where
  "targetSlot activeSlot = (if activeSlot = Some 0 then 1 else 0)"

definition storeSave ::
  "'s slot_ops \<Rightarrow> 'm slot_codec \<Rightarrow> 'm dual_store \<Rightarrow> 's \<Rightarrow> 'm \<Rightarrow> 'm dual_store \<times> 's \<times> bool" where
  "storeSave ops C st s value =
     (if ds_loaded st \<and> sc_Equal C (ds_current st) value then (st, s, True)
      else
        let nextGeneration = ds_generation st + 1 in
        case sc_Encode C value nextGeneration (Some (zeros (sc_SnapshotSize C))) of
          Inl _ \<Rightarrow> (st, s, False)
        | Inr buffer \<Rightarrow>
            let target = targetSlot (ds_activeSlot st);
                (s, ok) = so_write ops s target buffer in
            if \<not> ok then (st, s, False)
            else
              (case slotValue ops (sc_SnapshotSize C) (sc_Decode C) s target of
                 None \<Rightarrow> (st, s, False)
               | Some (verified, verifiedGeneration) \<Rightarrow>
                   if verifiedGeneration \<noteq> nextGeneration \<or> \<not> sc_Equal C verified value
                   then (st, s, False)
                   else (\<lparr>ds_current = value, ds_generation = nextGeneration,
                           ds_activeSlot = Some target, ds_loaded = True\<rparr>, s, True)))"

subsection \<open>Which slot is newest\<close>

lemma serial_newer_step: "serial_newer (g + 1) g" "\<not> serial_newer g (g + 1)" for g :: u32
  by (simp_all add: serial_newer_def sint_word_ariths)

lemma newestSlot_simps:
  "newestSlot view = (case (view 0, view 1) of
     (None, None) \<Rightarrow> None
   | (Some (m, g), None) \<Rightarrow> Some (m, g, 0)
   | (None, Some (m, g)) \<Rightarrow> Some (m, g, 1)
   | (Some (m, g), Some (m', g')) \<Rightarrow> if serial_newer g' g then Some (m', g', 1) else Some (m, g, 0))"
  by (auto simp: newestSlot_def newestStep_def split: option.splits)

text \<open>The state a load leaves, or a save that succeeded: the active slot holds the current
  generation; without one, slot 1 holds nothing (slot 0 is the next target).\<close>

definition anchored :: "(nat \<Rightarrow> ('m \<times> u32) option) \<Rightarrow> nat option \<Rightarrow> 'm \<Rightarrow> u32 \<Rightarrow> bool" where
  "anchored view active m g \<longleftrightarrow>
     (case active of None \<Rightarrow> view 1 = None | Some a \<Rightarrow> a < 2 \<and> view a = Some (m, g))"

lemma anchored_newest:
  "newestSlot view = Some (m, g, a) \<Longrightarrow> anchored view (Some a) m g"
  by (auto simp: newestSlot_simps anchored_def split: option.splits if_splits)

lemma anchored_empty: "newestSlot view = None \<Longrightarrow> anchored view None m g"
  by (auto simp: newestSlot_simps anchored_def split: option.splits if_splits)

text \<open>The target slot is never the active one.\<close>

lemma targetSlot_other: "active = Some a \<Longrightarrow> targetSlot active \<noteq> a"
  by (auto simp: targetSlot_def)

lemma targetSlot_less: "targetSlot active < 2"
  by (simp add: targetSlot_def)

text \<open>The next generation in the target slot is what a load picks; anything else there that
  does not decode leaves the old value.\<close>

lemma newest_after_write:
  assumes "anchored view active m g" and "view' (targetSlot active) = Some (v, g + 1)"
    and "\<And>j. j \<noteq> targetSlot active \<Longrightarrow> view' j = view j"
  shows "newestSlot view' = Some (v, g + 1, targetSlot active)"
proof (cases active)
  case None
  then show ?thesis using assms by (simp add: newestSlot_simps anchored_def targetSlot_def)
next
  case (Some a)
  then have "a = 0 \<or> a = 1" using assms(1) by (auto simp: anchored_def)
  then show ?thesis
    using assms Some serial_newer_step [of g]
    by (auto simp: newestSlot_simps anchored_def targetSlot_def)
qed

lemma newest_after_torn:
  assumes "anchored view (Some a) m g" and "view' (targetSlot (Some a)) = None"
    and "\<And>j. j \<noteq> targetSlot (Some a) \<Longrightarrow> view' j = view j"
  shows "newestSlot view' = Some (m, g, a)"
proof -
  have "a = 0 \<or> a = 1" using assms(1) by (auto simp: anchored_def)
  then show ?thesis using assms by (auto simp: newestSlot_simps anchored_def targetSlot_def)
qed

lemma newest_old_or_target:
  assumes "anchored view (Some a) m g" and "\<And>j. j \<noteq> targetSlot (Some a) \<Longrightarrow> view' j = view j"
  shows "newestSlot view' = Some (m, g, a) \<or>
    (\<exists>v h. view' (targetSlot (Some a)) = Some (v, h) \<and>
      newestSlot view' = Some (v, h, targetSlot (Some a)))"
proof -
  have "a = 0 \<or> a = 1" using assms(1) by (auto simp: anchored_def)
  then show ?thesis using assms
    by (auto simp: newestSlot_simps anchored_def targetSlot_def split: option.splits)
qed

subsection \<open>The contract of the slots\<close>

text \<open>A write that reports success can be read back; a write, successful or not, leaves the
  other slot alone.\<close>

locale slot_storage =
  fixes ops :: "'s slot_ops"
  assumes write_read:
      "so_write ops s slot data = (s', True) \<Longrightarrow> slot < 2 \<Longrightarrow> data \<noteq> [] \<Longrightarrow>
       length data \<le> capacity \<Longrightarrow> so_read ops s' slot capacity = Some data"
    and write_other:
      "so_write ops s slot data = (s', ok) \<Longrightarrow> other \<noteq> slot \<Longrightarrow>
       so_read ops s' other capacity = so_read ops s other capacity"
begin

lemma slotValue_other:
  "so_write ops s slot data = (s', ok) \<Longrightarrow> other \<noteq> slot \<Longrightarrow>
   slotValue ops capacity decode s' other = slotValue ops capacity decode s other"
  by (simp add: slotValue_def write_other)

lemma slotValue_written:
  "so_write ops s slot data = (s', True) \<Longrightarrow> slot < 2 \<Longrightarrow> data \<noteq> [] \<Longrightarrow> length data \<le> capacity \<Longrightarrow>
   decode (Some data) = Inr v \<Longrightarrow> slotValue ops capacity decode s' slot = Some v"
  by (simp add: slotValue_def write_read)

end

text \<open>What the code relies on in the Preferences library.\<close>

locale nvs_contract =
  fixes P :: "'s nvs"
  assumes put_ok:
      "nvs_putBytes P s key data = (s', n) \<Longrightarrow> n = length data \<Longrightarrow>
       nvs_getBytesLength P s' key = length data \<and> nvs_getBytes P s' key (length data) = data"
    and put_other:
      "nvs_putBytes P s key data = (s', n) \<Longrightarrow> other \<noteq> key \<Longrightarrow>
       nvs_getBytesLength P s' other = nvs_getBytesLength P s other \<and>
       nvs_getBytes P s' other size' = nvs_getBytes P s other size'"
begin

lemma nvs_write_read:
  "nvsWrite P s slot data = (s', True) \<Longrightarrow> slot < 2 \<Longrightarrow> data \<noteq> [] \<Longrightarrow> length data \<le> capacity \<Longrightarrow>
   nvsRead P s' slot capacity = Some data"
  using put_ok [of s slot data]
  by (auto simp: nvsWrite_def nvsRead_def Let_def split: prod.splits)

lemma nvs_write_other:
  "nvsWrite P s slot data = (s', ok) \<Longrightarrow> other \<noteq> slot \<Longrightarrow>
   nvsRead P s' other capacity = nvsRead P s other capacity"
  using put_other [of s slot data]
  by (auto simp: nvsWrite_def nvsRead_def Let_def split: prod.splits if_splits)

end

sublocale nvs_contract \<subseteq> slots: slot_storage "nvsSlots P"
  using nvs_write_read nvs_write_other by unfold_locales (auto simp: nvsSlots_def)

lemma nvs_contract_slots: "nvs_contract P \<Longrightarrow> slot_storage (nvsSlots P)"
  using nvs_contract.nvs_write_read nvs_contract.nvs_write_other
  by (auto simp: slot_storage_def nvsSlots_def)

text \<open>A Preferences namespace with a fault in every call that asks for one: the keys as a
  function, and what the next writes do (store everything, or only a prefix and report it).\<close>

record flash =
  fl_keys :: "nat \<Rightarrow> bytes"
  fl_faults :: "nat list"

definition flashNvs :: "flash nvs" where
  "flashNvs = \<lparr>nvs_getBytesLength = (\<lambda>s key. length (fl_keys s key)),
     nvs_getBytes = (\<lambda>s key n. take n (fl_keys s key)),
     nvs_putBytes = (\<lambda>s key data.
       (case fl_faults s of
          [] \<Rightarrow> (s\<lparr>fl_keys := (fl_keys s)(key := data)\<rparr>, length data)
        | k # rest \<Rightarrow>
            (s\<lparr>fl_keys := (fl_keys s)(key := take k data), fl_faults := rest\<rparr>, min k (length data))))\<rparr>"

interpretation flash: nvs_contract flashNvs
proof
  fix s s' :: flash and key n and data :: bytes
  assume "nvs_putBytes flashNvs s key data = (s', n)" "n = length data"
  then show "nvs_getBytesLength flashNvs s' key = length data \<and>
      nvs_getBytes flashNvs s' key (length data) = data"
    by (auto simp: flashNvs_def min_def split: list.splits if_splits)
next
  fix s s' :: flash and key n other size' and data :: bytes
  assume "nvs_putBytes flashNvs s key data = (s', n)" "other \<noteq> key"
  then show "nvs_getBytesLength flashNvs s' other = nvs_getBytesLength flashNvs s other \<and>
      nvs_getBytes flashNvs s' other size' = nvs_getBytes flashNvs s other size'"
    by (auto simp: flashNvs_def split: list.splits)
qed

subsection \<open>What a store promises its clients\<close>

text \<open>The state of a store that agrees with the slots: after \<open>begin\<close> has loaded it, and after
  every save since.\<close>

definition storeView :: "'s slot_ops \<Rightarrow> 'm slot_codec \<Rightarrow> 's \<Rightarrow> nat \<Rightarrow> ('m \<times> u32) option" where
  "storeView ops C = slotValue ops (sc_SnapshotSize C) (sc_Decode C)"

definition storeSound :: "'s slot_ops \<Rightarrow> 'm slot_codec \<Rightarrow> 'm dual_store \<Rightarrow> 's \<Rightarrow> bool" where
  "storeSound ops C st s \<longleftrightarrow>
     (\<exists>m. anchored (storeView ops C s) (ds_activeSlot st) m (ds_generation st) \<and>
          (ds_loaded st \<longrightarrow> sc_Equal C m (ds_current st))) \<and>
     (ds_loaded st \<longleftrightarrow> ds_activeSlot st \<noteq> None)"

text \<open>What a codec owes the store; \<open>shaped\<close> is what the types of the source give (array
  lengths).\<close>

locale snapshot_codec =
  fixes C :: "'m slot_codec" and shaped :: "'m \<Rightarrow> bool"
  assumes encode_decodes:
      "shaped v \<Longrightarrow> sc_Encode C v g (Some (zeros (sc_SnapshotSize C))) = Inr d \<Longrightarrow>
       d \<noteq> [] \<and> length d \<le> sc_SnapshotSize C \<and>
       (\<exists>w. sc_Decode C (Some d) = Inr (w, g) \<and> sc_Equal C w v)"
    and equal_refl: "sc_Decode C (Some d) = Inr (w, g) \<Longrightarrow> sc_Equal C w w"

locale dual_slot_store = slot_storage + snapshot_codec
begin

lemma load_sound:
  assumes "storeLoad ops C s = (st, v, status)" shows "storeSound ops C st s"
proof (cases "newestSlot (storeView ops C s)")
  case None
  then show ?thesis
    using assms anchored_empty [OF None]
    by (auto simp: storeLoad_def storeView_def [symmetric] storeSound_def)
next
  case (Some b)
  then obtain m g a where b: "newestSlot (storeView ops C s) = Some (m, g, a)" by (cases b) auto
  then have "storeView ops C s a = Some (m, g)" using anchored_newest [OF b] by (auto simp: anchored_def)
  then have "sc_Equal C m m"
    by (auto simp: storeView_def slotValue_def intro: equal_refl split: option.splits sum.splits)
  then show ?thesis
    using assms b anchored_newest [OF b]
    by (auto simp: storeLoad_def storeView_def [symmetric] storeSound_def)
qed

text \<open>A save that writes: the target slot holds the value under the next generation, the
  other slot is as before.\<close>

lemma save_written:
  assumes save: "storeSave ops C st s v = (st', s', True)"
    and writes: "\<not> (ds_loaded st \<and> sc_Equal C (ds_current st) v)"
  shows "\<exists>w. storeView ops C s' (targetSlot (ds_activeSlot st)) = Some (w, ds_generation st + 1) \<and>
      sc_Equal C w v \<and>
      (\<forall>j. j \<noteq> targetSlot (ds_activeSlot st) \<longrightarrow> storeView ops C s' j = storeView ops C s j) \<and>
      st' = \<lparr>ds_current = v, ds_generation = ds_generation st + 1,
             ds_activeSlot = Some (targetSlot (ds_activeSlot st)), ds_loaded = True\<rparr>"
proof -
  from writes have nw: "(ds_loaded st \<and> sc_Equal C (ds_current st) v) = False" by simp
  obtain d where d: "sc_Encode C v (ds_generation st + 1) (Some (zeros (sc_SnapshotSize C))) = Inr d"
    using save unfolding storeSave_def nw by (auto simp: Let_def split: sum.splits)
  obtain s1 ok where w: "so_write ops s (targetSlot (ds_activeSlot st)) d = (s1, ok)" by fastforce
  show ?thesis
    using save slotValue_other [OF w] unfolding storeSave_def nw
    by (auto simp: Let_def d w storeView_def split: if_splits option.splits)
qed

lemma save_then_load:
  assumes "storeSound ops C st s" and "storeSave ops C st s v = (st', s', True)"
    and "\<not> (ds_loaded st \<and> sc_Equal C (ds_current st) v)"
  shows "\<exists>st'' w. storeLoad ops C s' = (st'', w, Loaded) \<and> sc_Equal C w v \<and>
    ds_generation st'' = ds_generation st + 1 \<and> storeSound ops C st' s'"
proof -
  obtain m where m: "anchored (storeView ops C s) (ds_activeSlot st) m (ds_generation st)"
    using assms(1) by (auto simp: storeSound_def)
  obtain w where w: "storeView ops C s' (targetSlot (ds_activeSlot st)) = Some (w, ds_generation st + 1)"
    "sc_Equal C w v"
    "\<And>j. j \<noteq> targetSlot (ds_activeSlot st) \<Longrightarrow> storeView ops C s' j = storeView ops C s j"
    "st' = \<lparr>ds_current = v, ds_generation = ds_generation st + 1,
             ds_activeSlot = Some (targetSlot (ds_activeSlot st)), ds_loaded = True\<rparr>"
    using save_written [OF assms(2,3)] by blast
  have "newestSlot (storeView ops C s') =
      Some (w, ds_generation st + 1, targetSlot (ds_activeSlot st))"
    by (rule newest_after_write [OF m w(1,3)])
  moreover have "storeSound ops C st' s'"
    using w by (auto simp: storeSound_def anchored_def targetSlot_less intro!: exI [of _ w])
  ultimately show ?thesis
    using w(2) by (simp add: storeLoad_def storeView_def [symmetric])
qed

text \<open>A failed save leaves the state; so the next one aims at the same slot again.\<close>

lemma save_failed_state: "storeSave ops C st s v = (st', s', False) \<Longrightarrow> st' = st"
  by (auto simp: storeSave_def Let_def split: sum.splits option.splits if_splits prod.splits)

lemma save_other_slot:
  assumes "storeSave ops C st s v = (st', s', ok)" "j \<noteq> targetSlot (ds_activeSlot st)"
  shows "storeView ops C s' j = storeView ops C s j"
proof (cases "ds_loaded st \<and> sc_Equal C (ds_current st) v")
  case True then show ?thesis using assms(1) by (simp add: storeSave_def)
next
  case False
  then have nw: "(ds_loaded st \<and> sc_Equal C (ds_current st) v) = False" by simp
  show ?thesis
  proof (cases "sc_Encode C v (ds_generation st + 1) (Some (zeros (sc_SnapshotSize C)))")
    case (Inl e) then show ?thesis using assms(1) unfolding storeSave_def nw by simp
  next
    case (Inr d)
    obtain s1 b where w: "so_write ops s (targetSlot (ds_activeSlot st)) d = (s1, b)" by fastforce
    then have "s' = s1"
      using assms(1) Inr unfolding storeSave_def nw
      by (auto simp: Let_def split: if_splits option.splits)
    then show ?thesis using slotValue_other [OF w assms(2)] by (simp add: storeView_def)
  qed
qed

lemma save_failed_sound:
  assumes "storeSound ops C st s" "storeSave ops C st s v = (st', s', False)"
  shows "storeSound ops C st' s'"
proof -
  have "anchored (storeView ops C s') (ds_activeSlot st) m (ds_generation st) \<longleftrightarrow>
      anchored (storeView ops C s) (ds_activeSlot st) m (ds_generation st)" for m
  proof (cases "ds_activeSlot st")
    case None
    then show ?thesis using save_other_slot [OF assms(2), of 1] by (simp add: anchored_def targetSlot_def)
  next
    case (Some a)
    then show ?thesis
      using save_other_slot [OF assms(2), of a] targetSlot_other [OF Some]
      by (simp add: anchored_def)
  qed
  with assms(1) show ?thesis
    unfolding storeSound_def save_failed_state [OF assms(2)] by blast
qed

text \<open>Power lost at any moment of a save: whatever the target slot then holds, a load finds the
  old value, or a snapshot that decodes in the target slot.\<close>

lemma crash_old_or_target:
  assumes "storeSound ops C st s" "ds_activeSlot st = Some a"
    and "\<And>j. j \<noteq> targetSlot (Some a) \<Longrightarrow> storeView ops C s' j = storeView ops C s j"
    and "storeLoad ops C s' = (st', w, status)"
  shows "status = Loaded \<and> (sc_Equal C w (ds_current st) \<or>
    (\<exists>h. storeView ops C s' (targetSlot (Some a)) = Some (w, h)))"
proof -
  obtain m where m: "anchored (storeView ops C s) (Some a) m (ds_generation st)"
    "sc_Equal C m (ds_current st)"
    using assms(1,2) by (auto simp: storeSound_def)
  from newest_old_or_target [OF m(1) assms(3)] show ?thesis
    using assms(4) m(2) by (auto simp: storeLoad_def storeView_def [symmetric])
qed

text \<open>A save only fails when the value cannot be encoded or the flash refuses the write.\<close>

lemma save_succeeds:
  assumes "shaped v"
    and "sc_Encode C v (ds_generation st + 1) (Some (zeros (sc_SnapshotSize C))) = Inr d"
    and "so_write ops s (targetSlot (ds_activeSlot st)) d = (s1, True)"
  shows "\<exists>st' s'. storeSave ops C st s v = (st', s', True)"
proof -
  obtain w where "d \<noteq> []" "length d \<le> sc_SnapshotSize C"
    "sc_Decode C (Some d) = Inr (w, ds_generation st + 1)" "sc_Equal C w v"
    using encode_decodes [OF assms(1,2)] by blast
  moreover from this have "slotValue ops (sc_SnapshotSize C) (sc_Decode C) s1
      (targetSlot (ds_activeSlot st)) = Some (w, ds_generation st + 1)"
    by (intro slotValue_written [where decode = "sc_Decode C", OF assms(3) targetSlot_less])
  ultimately show ?thesis using assms by (simp add: storeSave_def Let_def)
qed

end

end
