(* ===== verification/Registry_Persistence.thy ===== *)
theory Registry_Persistence
  imports Node_Registry Slot_Store
begin

text \<open>
  shared/RadioProtocol: RegistryPersistence.h and RegistryPersistence.cpp, the flash image of
  the node registry and its two-slot store.  A snapshot is a 12 byte header, 72 bytes per
  record and a CRC-32; \<open>snapshotImage\<close> is that layout.  \<open>DualSlotRegistryStore\<close> keeps the
  registry in RAM elsewhere (gateway/src/NodeRegistryStore.cpp), so its state is the
  generation and the active slot.
\<close>

abbreviation (input) kRegistryStorageVersion :: u16 where "kRegistryStorageVersion \<equiv> 3"
abbreviation (input) kRegistryHeaderSize :: nat where "kRegistryHeaderSize \<equiv> 12"
abbreviation (input) kStoredNodeRecordSize :: nat where "kStoredNodeRecordSize \<equiv> 72"
abbreviation (input) kRegistryCrcSize :: nat where "kRegistryCrcSize \<equiv> 4"
abbreviation (input) kMaxRegistrySnapshotSize :: nat where "kMaxRegistrySnapshotSize \<equiv> 4624"

datatype SnapshotStatus =
  SN_OutputTooSmall | SN_InvalidSize | SN_InvalidMagic | SN_UnsupportedVersion
  | SN_InvalidRecordCount | SN_CrcMismatch | SN_InvalidRegistry

text \<open>\<open>kMagic\<close>, the letters RSNR.\<close>

abbreviation (input) kRegistryMagic :: bytes where "kRegistryMagic \<equiv> [0x52, 0x53, 0x4E, 0x52]"

subsection \<open>encodeRegistrySnapshot\<close>

definition putRecord :: "bytes \<Rightarrow> nat \<Rightarrow> NodeRecord \<Rightarrow> bytes" where
  "putRecord out offset r =
     (let out = put out offset (nr_deviceUid r);
          out = put out (offset + 10) [nr_nodeId r];
          out = put out (offset + 11) (le16 (nr_profileId r));
          out = put out (offset + 13) [fw_major (nr_firmware r)];
          out = put out (offset + 14) [fw_minor (nr_firmware r)];
          out = put out (offset + 15) [fw_patch (nr_firmware r)];
          out = put out (offset + 16) [nodeStateValue (nr_state r)];
          out = put out (offset + 17) (le32 (nr_requestNonce r));
          out = put out (offset + 21) [nr_displayNameLength r];
          out = put out (offset + 22) (nr_displayName r);
          out = put out (offset + 22 + kNodeDisplayNameSize) [nr_maxPowerLevel r]
      in put out (offset + 23 + kNodeDisplayNameSize) [nr_powerPolicy r])"

fun putRecords :: "bytes \<Rightarrow> nat \<Rightarrow> NodeRecord list \<Rightarrow> bytes" where
  "putRecords out offset [] = out"
| "putRecords out offset (r # rs) =
     putRecords (putRecord out offset r) (offset + kStoredNodeRecordSize) rs"

definition encodeRegistrySnapshot ::
  "NodeRegistry \<Rightarrow> u32 \<Rightarrow> buffer \<Rightarrow> SnapshotStatus + bytes \<times> nat" where
  "encodeRegistrySnapshot registry generation output =
     (let requiredSize = kRegistryHeaderSize + reg_count registry * kStoredNodeRecordSize +
            kRegistryCrcSize in
      case output of
        None \<Rightarrow> Inl SN_OutputTooSmall
      | Some out \<Rightarrow>
          if length out < requiredSize then Inl SN_OutputTooSmall
          else
            let out = put out 0 kRegistryMagic;
                out = put out 4 (le16 kRegistryStorageVersion);
                out = put out 6 (le32 generation);
                out = put out 10 [of_nat (reg_count registry)];
                out = put out 11 [0];
                out = putRecords out kRegistryHeaderSize (registryRecords registry);
                offset = kRegistryHeaderSize + reg_count registry * kStoredNodeRecordSize
            in Inr (put out offset (le32 (crc32 (take offset out))), requiredSize))"

subsection \<open>decodeRegistrySnapshot\<close>

definition getRecord :: "bytes \<Rightarrow> nat \<Rightarrow> NodeRecord" where
  "getRecord data offset =
     \<lparr>nr_deviceUid = chunk data offset kDeviceUidSize,
      nr_nodeId = data ! (offset + 10),
      nr_profileId = get16 data (offset + 11),
      nr_firmware = \<lparr>fw_major = data ! (offset + 13), fw_minor = data ! (offset + 14),
                     fw_patch = data ! (offset + 15)\<rparr>,
      nr_state = nodeStateOf (data ! (offset + 16)),
      nr_requestNonce = get32 data (offset + 17),
      nr_displayNameLength = data ! (offset + 21),
      nr_displayName = chunk data (offset + 22) kNodeDisplayNameSize,
      nr_maxPowerLevel = data ! (offset + 22 + kNodeDisplayNameSize),
      nr_powerPolicy = data ! (offset + 23 + kNodeDisplayNameSize)\<rparr>"

text \<open>The loop over the records: None is the early return on a name length above 48.\<close>

fun getRecords :: "bytes \<Rightarrow> nat \<Rightarrow> nat \<Rightarrow> NodeRecord list option" where
  "getRecords data offset 0 = Some []"
| "getRecords data offset (Suc n) =
     (let r = getRecord data offset in
      if unat (nr_displayNameLength r) > kNodeDisplayNameSize then None
      else map_option (\<lambda>rs. r # rs) (getRecords data (offset + kStoredNodeRecordSize) n))"

definition decodeRegistrySnapshot ::
  "buffer \<Rightarrow> NodeRegistry \<Rightarrow> SnapshotStatus + NodeRegistry \<times> u32" where
  "decodeRegistrySnapshot buf registry =
     (case buf of
        None \<Rightarrow> Inl SN_InvalidSize
      | Some data \<Rightarrow>
          if length data < kRegistryHeaderSize + kRegistryCrcSize then Inl SN_InvalidSize
          else if chunk data 0 4 \<noteq> kRegistryMagic then Inl SN_InvalidMagic
          else if get16 data 4 \<noteq> kRegistryStorageVersion then Inl SN_UnsupportedVersion
          else
            let cnt = unat (data ! 10) in
            if cnt > kMaxNodes then Inl SN_InvalidRecordCount
            else
              let expectedSize = kRegistryHeaderSize + cnt * kStoredNodeRecordSize +
                    kRegistryCrcSize in
              if length data \<noteq> expectedSize then Inl SN_InvalidSize
              else
                let storedCrc = get32 data (length data - kRegistryCrcSize) in
                if storedCrc \<noteq> crc32 (take (length data - kRegistryCrcSize) data)
                then Inl SN_CrcMismatch
                else
                  (case getRecords data kRegistryHeaderSize cnt of
                     None \<Rightarrow> Inl SN_InvalidRegistry
                   | Some rs \<Rightarrow>
                       let (registry, ok) = restore registry (Some rs) cnt in
                       if \<not> ok then Inl SN_InvalidRegistry
                       else Inr (registry, get32 data 6)))"

subsection \<open>DualSlotRegistryStore\<close>

record registry_store =
  rs_generation :: u32
  rs_activeSlot :: "nat option"

definition newRegistryStore :: registry_store where
  "newRegistryStore = \<lparr>rs_generation = 0, rs_activeSlot = None\<rparr>"

definition registrySlotValue :: "'s slot_ops \<Rightarrow> 's \<Rightarrow> nat \<Rightarrow> (NodeRegistry \<times> u32) option" where
  "registrySlotValue ops =
     slotValue ops kMaxRegistrySnapshotSize (\<lambda>buf. decodeRegistrySnapshot buf newRegistry)"

definition registryLoad :: "'s slot_ops \<Rightarrow> 's \<Rightarrow> registry_store \<times> NodeRegistry \<times> LoadStatus" where
  "registryLoad ops s =
     (case newestSlot (registrySlotValue ops s) of
        None \<Rightarrow> (\<lparr>rs_generation = 0, rs_activeSlot = None\<rparr>, newRegistry, Empty)
      | Some (registry, newestGeneration, slot) \<Rightarrow>
          (\<lparr>rs_generation = newestGeneration, rs_activeSlot = Some slot\<rparr>, registry, Loaded))"

definition registrySave ::
  "'s slot_ops \<Rightarrow> registry_store \<Rightarrow> 's \<Rightarrow> NodeRegistry \<Rightarrow> registry_store \<times> 's \<times> bool" where
  "registrySave ops st s registry =
     (let nextGeneration = rs_generation st + 1 in
      case encodeRegistrySnapshot registry nextGeneration (Some (zeros kMaxRegistrySnapshotSize)) of
        Inl _ \<Rightarrow> (st, s, False)
      | Inr (buffer, encodedSize) \<Rightarrow>
          let target = targetSlot (rs_activeSlot st);
              (s, ok) = so_write ops s target (take encodedSize buffer) in
          if \<not> ok then (st, s, False)
          else
            (case registrySlotValue ops s target of
               None \<Rightarrow> (st, s, False)
             | Some (_, verifiedGeneration) \<Rightarrow>
                 if verifiedGeneration \<noteq> nextGeneration then (st, s, False)
                 else (\<lparr>rs_generation = nextGeneration, rs_activeSlot = Some target\<rparr>, s, True)))"

subsection \<open>The layout\<close>

definition recordImage :: "NodeRecord \<Rightarrow> bytes" where
  "recordImage r = nr_deviceUid r @ [nr_nodeId r] @ le16 (nr_profileId r) @
     [fw_major (nr_firmware r), fw_minor (nr_firmware r), fw_patch (nr_firmware r)] @
     [nodeStateValue (nr_state r)] @ le32 (nr_requestNonce r) @ [nr_displayNameLength r] @
     nr_displayName r @ [nr_maxPowerLevel r, nr_powerPolicy r]"

definition snapshotBody :: "NodeRecord list \<Rightarrow> u32 \<Rightarrow> bytes" where
  "snapshotBody rs generation = kRegistryMagic @ le16 kRegistryStorageVersion @ le32 generation @
     [of_nat (length rs), 0] @ concat (map recordImage rs)"

definition snapshotImage :: "NodeRecord list \<Rightarrow> u32 \<Rightarrow> bytes" where
  "snapshotImage rs generation =
     snapshotBody rs generation @ le32 (crc32 (snapshotBody rs generation))"

lemma length_recordImage: "shapedRecord r \<Longrightarrow> length (recordImage r) = kStoredNodeRecordSize"
  by (simp add: recordImage_def shapedRecord_def)

lemma length_recordImages:
  "list_all shapedRecord rs \<Longrightarrow> length (concat (map recordImage rs)) = length rs * kStoredNodeRecordSize"
  by (induction rs) (simp_all add: length_recordImage)

lemma length_snapshotBody:
  "list_all shapedRecord rs \<Longrightarrow> length (snapshotBody rs g) = kRegistryHeaderSize + length rs * kStoredNodeRecordSize"
  by (simp add: snapshotBody_def length_recordImages)

lemma putRecord_image:
  assumes "shapedRecord r" "length pre + kStoredNodeRecordSize \<le> length out"
  shows "putRecord (written pre out) (length pre) r = written (pre @ recordImage r) out"
  using assms
  by (simp add: putRecord_def recordImage_def shapedRecord_def Let_def put_written)

lemma putRecords_image:
  assumes "list_all shapedRecord rs" "length pre + length rs * kStoredNodeRecordSize \<le> length out"
  shows "putRecords (written pre out) (length pre) rs = written (pre @ concat (map recordImage rs)) out"
  using assms
proof (induction rs arbitrary: pre)
  case Nil then show ?case by simp
next
  case (Cons r rs)
  have "putRecord (written pre out) (length pre) r = written (pre @ recordImage r) out"
    using Cons.prems by (intro putRecord_image) simp_all
  moreover have "putRecords (written (pre @ recordImage r) out) (length (pre @ recordImage r)) rs =
      written ((pre @ recordImage r) @ concat (map recordImage rs)) out"
    using Cons.prems by (intro Cons.IH) (simp_all add: length_recordImage)
  ultimately show ?case using Cons.prems by (simp add: length_recordImage)
qed

lemma encodeRegistrySnapshot_image:
  assumes "list_all shapedRecord rs" "length rs \<le> kMaxNodes"
    and room: "kRegistryHeaderSize + length rs * kStoredNodeRecordSize + kRegistryCrcSize \<le> length out"
  shows "encodeRegistrySnapshot (registryOf rs) g (Some out) =
    Inr (written (snapshotImage rs g) out, length (snapshotImage rs g))"
proof -
  let ?head = "kRegistryMagic @ le16 kRegistryStorageVersion @ le32 g @ [of_nat (length rs), 0]"
  have "put (put (put (put (put out 0 kRegistryMagic) 4 (le16 kRegistryStorageVersion)) 6 (le32 g)) 10
      [of_nat (length rs)]) 11 [0] = written ?head out"
    using room by (simp add: put_start put_written)
  moreover have "putRecords (written ?head out) (length ?head) rs = written (snapshotBody rs g) out"
    using room unfolding snapshotBody_def
    by (subst putRecords_image [OF assms(1)]) simp_all
  ultimately show ?thesis
    using assms room length_snapshotBody [OF assms(1), of g]
    by (simp add: encodeRegistrySnapshot_def Let_def snapshotImage_def put_written)
qed

lemma nodeStateOf_value [simp]:
  "st \<in> {Pending, Active, Disabled} \<Longrightarrow> nodeStateOf (nodeStateValue st) = st"
  by (auto simp: nodeStateOf_def)

lemma getRecord_image:
  assumes "recordOk r"
  shows "getRecord (pre @ recordImage r @ post) (length pre) = r"
proof -
  have "length (nr_deviceUid r) = 10" "length (nr_displayName r) = 48"
    "nodeStateOf (nodeStateValue (nr_state r)) = nr_state r"
    using assms recordOk_state_cases [OF assms]
    by (simp_all add: recordOk_def shapedRecord_def)
  then show ?thesis
    by (simp add: getRecord_def recordImage_def layout_simps)
qed

lemma recordOk_nameLength: "recordOk r \<Longrightarrow> unat (nr_displayNameLength r) \<le> kNodeDisplayNameSize"
  by (simp add: recordOk_def restorableRecord_def validDisplayName_def not_less split: if_splits)

lemma getRecords_image:
  assumes "list_all recordOk rs"
  shows "getRecords (pre @ concat (map recordImage rs) @ post) (length pre) (length rs) = Some rs"
  using assms
proof (induction rs arbitrary: pre)
  case Nil then show ?case by simp
next
  case (Cons r rs)
  have "getRecords ((pre @ recordImage r) @ concat (map recordImage rs) @ post)
      (length (pre @ recordImage r)) (length rs) = Some rs"
    using Cons.prems by (intro Cons.IH) simp
  moreover have "length (recordImage r) = 72"
    using Cons.prems by (simp add: length_recordImage recordOk_def)
  ultimately show ?case
    using Cons.prems getRecord_image [of r pre "concat (map recordImage rs) @ post"]
      recordOk_nameLength [of r]
    by (simp add: Let_def)
qed

lemma snapshotImage_alt:
  "snapshotImage rs g = [0x52, 0x53, 0x4E, 0x52] @ le16 3 @ le32 g @ [of_nat (length rs), 0] @
     concat (map recordImage rs) @ le32 (crc32 (snapshotBody rs g))"
  by (simp add: snapshotImage_def snapshotBody_def)

lemma decodeRegistrySnapshot_image:
  assumes "recordsOk rs"
  shows "decodeRegistrySnapshot (Some (snapshotImage rs g)) registry = Inr (registryOf rs, g)"
proof -
  have shaped: "list_all shapedRecord rs" and ok: "list_all recordOk rs" and len: "length rs \<le> 64"
    using assms by (auto simp: recordsOk_def recordOk_def list_all_iff)
  let ?d = "snapshotImage rs g"
  have size: "length ?d = 16 + length rs * 72"
    by (simp add: snapshotImage_def length_snapshotBody [OF shaped])
  have cnt: "unat (?d ! 10) = length rs"
    using len by (simp add: snapshotImage_alt layout_simps unat_of_nat)
  have head: "chunk ?d 0 4 = kRegistryMagic" "get16 ?d 4 = 3" "get32 ?d 6 = g"
    by (simp_all add: snapshotImage_alt layout_simps) (simp add: chunk_def)
  have crc: "get32 ?d (length ?d - 4) = crc32 (take (length ?d - 4) ?d)"
    using sealed_append [of "snapshotBody rs g"] by (simp add: sealed_def snapshotImage_def)
  have recs: "getRecords ?d 12 (length rs) = Some rs"
    using getRecords_image [OF ok, of "[0x52, 0x53, 0x4E, 0x52] @ le16 3 @ le32 g @ [of_nat (length rs), 0]"
        "le32 (crc32 (snapshotBody rs g))"]
    by (simp add: snapshotImage_alt)
  show ?thesis
    using size cnt head crc recs restore_refines [OF shaped, of registry] assms len
    by (simp add: decodeRegistrySnapshot_def Let_def)
qed

text \<open>Whatever bytes are accepted, they are sealed and give a table that passes the checks.\<close>

lemma getRecords_uids: "getRecords data offset n = Some rs \<Longrightarrow>
    length rs = n \<and> (offset + n * 72 \<le> length data \<longrightarrow> (\<forall>r \<in> set rs. length (nr_deviceUid r) = 10))"
proof (induction n arbitrary: offset rs)
  case 0 then show ?case by simp
next
  case (Suc n)
  then obtain qs where "getRecords data (offset + 72) n = Some qs" "rs = getRecord data offset # qs"
    by (auto simp: Let_def split: if_splits)
  with Suc.IH [of "offset + 72" qs] show ?case by (auto simp: getRecord_def)
qed

lemma decodeRegistrySnapshot_sound:
  assumes "decodeRegistrySnapshot (Some d) registry = Inr (reg, g)"
  obtains rs where "sealed d" "reg = registryOf rs" "length rs \<le> kMaxNodes"
    "list_all restorableRecord rs" "distinct (map nr_nodeId rs)" "distinct (map nr_deviceUid rs)"
    "length d = kRegistryHeaderSize + length rs * kStoredNodeRecordSize + kRegistryCrcSize"
    "getRecords d kRegistryHeaderSize (length rs) = Some rs" "g = get32 d 6"
proof -
  let ?n = "unat (d ! 10)"
  from assms obtain rs where rs: "getRecords d 12 ?n = Some rs"
    and len: "length d = 12 + ?n * 72 + 4" and crc: "get32 d (length d - 4) = crc32 (take (length d - 4) d)"
    and res: "restore registry (Some rs) ?n = (reg, True)" and "g = get32 d 6"
    by (auto simp: decodeRegistrySnapshot_def Let_def split: if_splits option.splits prod.splits)
  from getRecords_uids [OF rs] len have n: "length rs = ?n"
    and uids: "\<forall>r \<in> set rs. length (nr_deviceUid r) = kDeviceUidSize" by auto
  from res restore_iff [OF uids, of registry] n have
    "reg = registryOf rs" "length rs \<le> 64" "list_all restorableRecord rs"
    "distinct (map nr_nodeId rs)" "distinct (map nr_deviceUid rs)"
    by (auto split: if_splits)
  moreover have "sealed d" using len crc by (simp add: sealed_def)
  ultimately show thesis using that rs n len \<open>g = _\<close> by metis
qed

lemma decodeRegistrySnapshot_one_byte:
  assumes "decodeRegistrySnapshot (Some d) registry = Inr x" "i < length d" "b \<noteq> d ! i"
  shows "\<exists>e. decodeRegistrySnapshot (Some (d[i := b])) registry = Inl e"
proof (cases "decodeRegistrySnapshot (Some (d[i := b])) registry")
  case (Inr y)
  have "sealed d" "sealed (d[i := b])"
    using assms(1) Inr decodeRegistrySnapshot_sound by (cases x, blast, cases y, blast)
  then show ?thesis using sealed_one_byte assms(2,3) by blast
qed simp

subsection \<open>What the store promises\<close>

definition registrySound :: "'s slot_ops \<Rightarrow> registry_store \<Rightarrow> 's \<Rightarrow> NodeRegistry \<Rightarrow> bool" where
  "registrySound ops st s reg \<longleftrightarrow>
     anchored (registrySlotValue ops s) (rs_activeSlot st) reg (rs_generation st)"

lemma registryLoad_sound:
  assumes "registryLoad ops s = (st, reg, status)" shows "registrySound ops st s reg"
  using assms anchored_newest [of "registrySlotValue ops s"] anchored_empty [of "registrySlotValue ops s"]
  by (auto simp: registryLoad_def registrySound_def split: option.splits)

context slot_storage
begin

lemma registrySave_written:
  assumes save: "registrySave ops st s reg = (st', s', True)" and ok: "registryOk reg"
  shows "registrySlotValue ops s' (targetSlot (rs_activeSlot st)) = Some (reg, rs_generation st + 1) \<and>
    (\<forall>j. j \<noteq> targetSlot (rs_activeSlot st) \<longrightarrow> registrySlotValue ops s' j = registrySlotValue ops s j) \<and>
    st' = \<lparr>rs_generation = rs_generation st + 1, rs_activeSlot = Some (targetSlot (rs_activeSlot st))\<rparr>"
proof -
  obtain rs where rs: "reg = registryOf rs" "recordsOk rs" by (rule registryOkE [OF ok])
  then have shaped: "list_all shapedRecord rs" and len: "length rs \<le> 64"
    by (auto simp: recordsOk_def recordOk_def list_all_iff)
  let ?d = "snapshotImage rs (rs_generation st + 1)" and ?t = "targetSlot (rs_activeSlot st)"
  have d: "length ?d = 16 + length rs * 72"
    by (simp add: snapshotImage_def length_snapshotBody [OF shaped])
  have enc: "encodeRegistrySnapshot reg (rs_generation st + 1) (Some (zeros 4624)) =
      Inr (written ?d (zeros 4624), length ?d)"
    using encodeRegistrySnapshot_image [OF shaped len, of "zeros 4624"] len rs(1) by simp
  obtain s1 b where w: "so_write ops s ?t ?d = (s1, b)" by fastforce
  have "b" and s1: "s1 = s'" and st': "st' = \<lparr>rs_generation = rs_generation st + 1, rs_activeSlot = Some ?t\<rparr>"
    using save enc w by (auto simp: registrySave_def Let_def split: if_splits option.splits)
  then have wt: "so_write ops s ?t ?d = (s', True)" using w by simp
  have "slotValue ops kMaxRegistrySnapshotSize (\<lambda>buf. decodeRegistrySnapshot buf newRegistry) s' ?t =
      Some (reg, rs_generation st + 1)"
  proof (rule slotValue_written [OF wt targetSlot_less])
    show "?d \<noteq> []" "length ?d \<le> 4624" using d len by auto
    show "decodeRegistrySnapshot (Some ?d) newRegistry = Inr (reg, rs_generation st + 1)"
      using decodeRegistrySnapshot_image [OF rs(2)] rs(1) by simp
  qed
  with st' show ?thesis by (simp add: registrySlotValue_def slotValue_other [OF wt])
qed

lemma registrySave_load:
  assumes "registrySound ops st s old" "registrySave ops st s reg = (st', s', True)" "registryOk reg"
  shows "registryLoad ops s' = (st', reg, Loaded)"
proof -
  note w = registrySave_written [OF assms(2,3)]
  have "newestSlot (registrySlotValue ops s') =
      Some (reg, rs_generation st + 1, targetSlot (rs_activeSlot st))"
    using assms(1) w by (intro newest_after_write) (auto simp: registrySound_def)
  then show ?thesis using w by (simp add: registryLoad_def)
qed

lemma registrySave_other:
  assumes "registrySave ops st s reg = (st', s', ok)" "j \<noteq> targetSlot (rs_activeSlot st)"
  shows "registrySlotValue ops s' j = registrySlotValue ops s j"
proof (cases "encodeRegistrySnapshot reg (rs_generation st + 1) (Some (zeros 4624))")
  case (Inl e) then show ?thesis using assms(1) by (simp add: registrySave_def)
next
  case (Inr x)
  then obtain d n where x: "x = (d, n)" by (cases x)
  obtain s1 b where w: "so_write ops s (targetSlot (rs_activeSlot st)) (take n d) = (s1, b)" by fastforce
  then have "s1 = s'"
    using assms(1) Inr x by (auto simp: registrySave_def Let_def split: if_splits option.splits)
  with w have "so_write ops s (targetSlot (rs_activeSlot st)) (take n d) = (s', b)" by simp
  then show ?thesis unfolding registrySlotValue_def by (rule slotValue_other) (rule assms(2))
qed

lemma registrySave_failed:
  assumes "registrySound ops st s reg0" "registrySave ops st s reg = (st', s', False)"
  shows "st' = st \<and> registrySound ops st' s' reg0"
proof -
  have st: "st' = st"
    using assms(2)
    by (auto simp: registrySave_def Let_def split: sum.splits option.splits if_splits prod.splits)
  moreover have "anchored (registrySlotValue ops s') (rs_activeSlot st) reg0 (rs_generation st)"
  proof (cases "rs_activeSlot st")
    case None
    then show ?thesis
      using assms registrySave_other [OF assms(2), of 1]
      by (simp add: registrySound_def anchored_def targetSlot_def)
  next
    case (Some a)
    then show ?thesis
      using assms registrySave_other [OF assms(2), of a] targetSlot_other [OF Some]
      by (simp add: registrySound_def anchored_def)
  qed
  ultimately show ?thesis by (simp add: registrySound_def)
qed

end

lemma registry_crash:
  assumes "registrySound ops st s reg" "rs_activeSlot st = Some a"
    and "\<And>j. j \<noteq> targetSlot (Some a) \<Longrightarrow> registrySlotValue ops s' j = registrySlotValue ops s j"
  shows "\<exists>st'. registryLoad ops s' = (st', reg, Loaded) \<or>
    (\<exists>v g. registrySlotValue ops s' (targetSlot (Some a)) = Some (v, g) \<and>
      registryLoad ops s' = (st', v, Loaded))"
  using newest_old_or_target [of "registrySlotValue ops s" a reg "rs_generation st"
      "registrySlotValue ops s'"] assms
  by (auto simp: registrySound_def registryLoad_def)

end
