(* ===== verification/Registry_Service.thy ===== *)
theory Registry_Service
  imports Registry_Persistence
begin

text \<open>
  gateway/src/NodeRegistryStore.cpp: the gateway's one registry, its flash, and the view of it
  that readers may use without the mutex.  The mutex serialises the operations, so each is one
  step on the state.  What the environment decides is an argument: \<open>guarded\<close> (the recovery guard
  was taken and recovery does not block writes), \<open>allocated\<close> (the candidate registry could be
  allocated), \<open>mutexMade\<close> and \<open>nvsReady\<close> at start-up.  Timing and serial output are not modelled.
\<close>

datatype RegistryCommitStatus = RC_Ok | RC_NoChange | RC_StorageError | RC_NotInitialized

record 's registry_service =
  sv_nodes :: NodeRegistry
  sv_store :: registry_store
  sv_flash :: 's
  sv_initialized :: bool
  sv_mutex :: bool
  sv_activeNodeIds :: "u32 list"
  sv_publishedGeneration :: u32

subsection \<open>The lock-free view\<close>

definition activeWords :: "NodeRecord list \<Rightarrow> u32 list" where
  "activeWords rs =
     foldl (\<lambda>words r.
         if nr_state r = Active \<and> nr_nodeId r \<le> of_nat kLastNodeId then
           let k = unat (nr_nodeId r) div 32 in
           words[k := words ! k OR push_bit (unat (nr_nodeId r) mod 32) 1]
         else words)
       (replicate 4 0) rs"

definition publishLockFreeView :: "'s registry_service \<Rightarrow> 's registry_service" where
  "publishLockFreeView sv =
     sv\<lparr>sv_activeNodeIds := activeWords (registryRecords (sv_nodes sv)),
        sv_publishedGeneration := rs_generation (sv_store sv)\<rparr>"

definition commitCandidateLocked ::
  "'s slot_ops \<Rightarrow> 's registry_service \<Rightarrow> NodeRegistry \<Rightarrow> 's registry_service \<times> bool" where
  "commitCandidateLocked ops sv candidate =
     (let (store, flash, saved) = registrySave ops (sv_store sv) (sv_flash sv) candidate;
          sv = sv\<lparr>sv_store := store, sv_flash := flash\<rparr>
      in if saved then (publishLockFreeView (sv\<lparr>sv_nodes := candidate\<rparr>), True)
         else (sv, False))"

definition registryBegin ::
  "'s slot_ops \<Rightarrow> bool \<Rightarrow> bool \<Rightarrow> 's registry_service \<Rightarrow> 's registry_service \<times> bool" where
  "registryBegin ops mutexMade nvsReady sv =
     (let sv = sv\<lparr>sv_mutex := mutexMade\<rparr> in
      if \<not> mutexMade then (sv, False)
      else if \<not> nvsReady then (sv, False)
      else
        let (store, nodes, status) = registryLoad ops (sv_flash sv);
            sv = publishLockFreeView (sv\<lparr>sv_store := store, sv_nodes := nodes\<rparr>)
        in (sv\<lparr>sv_initialized := True\<rparr>, True))"

subsection \<open>Readers\<close>

definition publishedGeneration :: "'s registry_service \<Rightarrow> u32" where
  "publishedGeneration sv = sv_publishedGeneration sv"

definition recordCount :: "'s registry_service \<Rightarrow> nat" where
  "recordCount sv = (if \<not> sv_mutex sv then 0 else reg_count (sv_nodes sv))"

definition isActiveNode :: "'s registry_service \<Rightarrow> u8 \<Rightarrow> bool" where
  "isActiveNode sv nodeId =
     (if nodeId < of_nat kFirstNodeId \<or> nodeId > of_nat kLastNodeId then False
      else
        let word = sv_activeNodeIds sv ! (unat nodeId div 32) in
        word AND push_bit (unat nodeId mod 32) 1 \<noteq> 0)"

definition hasActiveNodes :: "'s registry_service \<Rightarrow> bool" where
  "hasActiveNodes sv = list_ex (\<lambda>word. word \<noteq> 0) (sv_activeNodeIds sv)"

text \<open>The record of an active node, None for false.\<close>

definition activeRecord :: "'s registry_service \<Rightarrow> u8 \<Rightarrow> NodeRecord option" where
  "activeRecord sv nodeId =
     (if \<not> sv_initialized sv \<or> \<not> sv_mutex sv then None
      else case findByNodeId (sv_nodes sv) nodeId of
        None \<Rightarrow> None
      | Some i \<Rightarrow>
          let r = reg_records (sv_nodes sv) ! i in
          if nr_state r = Active then Some r else None)"

definition activeProfileId :: "'s registry_service \<Rightarrow> u8 \<Rightarrow> u16 option" where
  "activeProfileId sv nodeId = map_option nr_profileId (activeRecord sv nodeId)"

definition activeIdentity :: "'s registry_service \<Rightarrow> u8 \<Rightarrow> (bytes \<times> u16) option" where
  "activeIdentity sv nodeId =
     map_option (\<lambda>r. (nr_deviceUid r, nr_profileId r)) (activeRecord sv nodeId)"

definition radioPolicy :: "'s registry_service \<Rightarrow> u8 \<Rightarrow> (u8 \<times> u8) option" where
  "radioPolicy sv nodeId =
     map_option (\<lambda>r. (nr_maxPowerLevel r, nr_powerPolicy r)) (activeRecord sv nodeId)"

definition registrySnapshot :: "'s registry_service \<Rightarrow> (u32 \<times> NodeRecord list) option" where
  "registrySnapshot sv =
     (if \<not> sv_initialized sv \<or> \<not> sv_mutex sv then None
      else Some (rs_generation (sv_store sv), registryRecords (sv_nodes sv)))"

subsection \<open>Writers\<close>

text \<open>The checks every writer makes first.\<close>

definition writable :: "bool \<Rightarrow> 's registry_service \<Rightarrow> bool" where
  "writable guarded sv \<longleftrightarrow> guarded \<and> sv_initialized sv \<and> sv_mutex sv"

definition commitStatus :: "bool \<Rightarrow> RegistryCommitStatus" where
  "commitStatus saved = (if saved then RC_Ok else RC_StorageError)"

definition reserveAndSave ::
  "'s slot_ops \<Rightarrow> bool \<Rightarrow> bool \<Rightarrow> 's registry_service \<Rightarrow> JoinRequest \<Rightarrow>
   's registry_service \<times> RegistryCommitStatus \<times> ReserveResult option" where
  "reserveAndSave ops guarded allocated sv request =
     (if \<not> writable guarded sv then (sv, RC_NotInitialized, None)
      else if \<not> allocated then (sv, RC_StorageError, None)
      else
        let (candidate, result) = reserve (sv_nodes sv) request;
            changed = (rr_status result = RS_Created \<or> rr_status result = RS_ExistingPendingUpdated)
        in if \<not> changed then (sv, RC_NoChange, Some result)
           else let (sv, saved) = commitCandidateLocked ops sv candidate
                in (sv, commitStatus saved, Some result))"

definition confirmAndSave ::
  "'s slot_ops \<Rightarrow> bool \<Rightarrow> bool \<Rightarrow> 's registry_service \<Rightarrow> buffer \<Rightarrow> u8 \<Rightarrow> u32 \<Rightarrow>
   's registry_service \<times> RegistryCommitStatus \<times> ConfirmStatus option" where
  "confirmAndSave ops guarded allocated sv deviceUid nodeId nonce =
     (if \<not> writable guarded sv then (sv, RC_NotInitialized, None)
      else if \<not> allocated then (sv, RC_StorageError, None)
      else
        let (candidate, result) = confirm (sv_nodes sv) deviceUid nodeId nonce
        in if result \<noteq> CF_Confirmed then (sv, RC_NoChange, Some result)
           else let (sv, saved) = commitCandidateLocked ops sv candidate
                in (sv, commitStatus saved, Some result))"

definition renameAndSave ::
  "'s slot_ops \<Rightarrow> bool \<Rightarrow> bool \<Rightarrow> 's registry_service \<Rightarrow> u8 \<Rightarrow> buffer \<Rightarrow> nat \<Rightarrow>
   's registry_service \<times> RegistryCommitStatus \<times> RenameStatus option" where
  "renameAndSave ops guarded allocated sv nodeId displayName n =
     (if \<not> writable guarded sv then (sv, RC_NotInitialized, None)
      else if \<not> allocated then (sv, RC_StorageError, None)
      else
        let (candidate, result) = rename (sv_nodes sv) nodeId displayName n
        in if result \<noteq> RN_Renamed then (sv, RC_NoChange, Some result)
           else let (sv, saved) = commitCandidateLocked ops sv candidate
                in (sv, commitStatus saved, Some result))"

definition setPowerPolicyAndSave ::
  "'s slot_ops \<Rightarrow> bool \<Rightarrow> bool \<Rightarrow> 's registry_service \<Rightarrow> u8 \<Rightarrow> u8 \<Rightarrow>
   's registry_service \<times> RegistryCommitStatus \<times> PowerPolicyStatus option" where
  "setPowerPolicyAndSave ops guarded allocated sv nodeId policy =
     (if \<not> writable guarded sv then (sv, RC_NotInitialized, None)
      else if \<not> allocated then (sv, RC_StorageError, None)
      else
        let (candidate, result) = setPowerPolicy (sv_nodes sv) nodeId policy
        in if result \<noteq> PP_Updated then (sv, RC_NoChange, Some result)
           else let (sv, saved) = commitCandidateLocked ops sv candidate
                in (sv, commitStatus saved, Some result))"

definition updateInfoAndSave ::
  "'s slot_ops \<Rightarrow> bool \<Rightarrow> bool \<Rightarrow> 's registry_service \<Rightarrow> u8 \<Rightarrow> buffer \<Rightarrow> NodeInfo \<Rightarrow>
   's registry_service \<times> RegistryCommitStatus \<times> InfoStatus option" where
  "updateInfoAndSave ops guarded allocated sv nodeId deviceUid info =
     (if \<not> writable guarded sv then (sv, RC_NotInitialized, None)
      else if \<not> allocated then (sv, RC_StorageError, None)
      else
        let (candidate, result) = updateInfo (sv_nodes sv) nodeId deviceUid info
        in if result \<noteq> IN_Updated \<and> result \<noteq> IN_ProfileChanged then (sv, RC_NoChange, Some result)
           else let (sv, saved) = commitCandidateLocked ops sv candidate
                in (sv, commitStatus saved, Some result))"

definition removeAndSave ::
  "'s slot_ops \<Rightarrow> bool \<Rightarrow> bool \<Rightarrow> 's registry_service \<Rightarrow> u8 \<Rightarrow>
   's registry_service \<times> RegistryCommitStatus \<times> bool" where
  "removeAndSave ops guarded allocated sv nodeId =
     (if \<not> writable guarded sv then (sv, RC_NotInitialized, False)
      else if \<not> allocated then (sv, RC_StorageError, False)
      else
        let (candidate, removed) = removeNode (sv_nodes sv) nodeId
        in if \<not> removed then (sv, RC_NoChange, False)
           else let (sv, saved) = commitCandidateLocked ops sv candidate
                in (sv, commitStatus saved, saved))"

definition clearAndSave ::
  "'s slot_ops \<Rightarrow> bool \<Rightarrow> bool \<Rightarrow> 's registry_service \<Rightarrow>
   's registry_service \<times> RegistryCommitStatus \<times> nat" where
  "clearAndSave ops guarded allocated sv =
     (if \<not> writable guarded sv then (sv, RC_NotInitialized, 0)
      else
        let previous = reg_count (sv_nodes sv) in
        if previous = 0 then (sv, RC_NoChange, 0)
        else if \<not> allocated then (sv, RC_StorageError, 0)
        else let (sv, saved) = commitCandidateLocked ops sv newRegistry
             in (sv, commitStatus saved, if saved then previous else 0))"

subsection \<open>The view is the set of active nodes\<close>

lemma bit_activeWords:
  assumes "length words = 4" "k < 4" "n < 32"
  shows "bit (foldl (\<lambda>words r.
         if nr_state r = Active \<and> nr_nodeId r \<le> of_nat kLastNodeId then
           let k = unat (nr_nodeId r) div 32 in
           words[k := words ! k OR push_bit (unat (nr_nodeId r) mod 32) (1 :: u32)]
         else words) words rs ! k) n \<longleftrightarrow>
    bit (words ! k) n \<or>
    (\<exists>r \<in> set rs. nr_state r = Active \<and> nr_nodeId r \<le> of_nat kLastNodeId \<and>
      unat (nr_nodeId r) = 32 * k + n)"
  using assms(1)
proof (induction rs arbitrary: words)
  case Nil then show ?case by simp
next
  case (Cons r rs)
  let ?id = "unat (nr_nodeId r)"
  have id: "?id = 32 * k + n \<longleftrightarrow> ?id div 32 = k \<and> ?id mod 32 = n"
    using assms(3) by auto
  show ?case
  proof (cases "nr_state r = Active \<and> nr_nodeId r \<le> of_nat kLastNodeId")
    case True
    then have "?id div 32 < 4"
      using div_le_mono [of ?id 99 32] by (simp add: word_le_nat_alt)
    let ?w = "words[?id div 32 := words ! (?id div 32) OR push_bit (?id mod 32) 1]"
    have len: "length ?w = 4" using Cons.prems by simp
    have one: "bit (?w ! k) n \<longleftrightarrow> bit (words ! k) n \<or> ?id = 32 * k + n"
    proof -
      have "?w ! k = (if ?id div 32 = k then words ! k OR push_bit (?id mod 32) 1 else words ! k)"
        using Cons.prems assms(2) by simp
      moreover have "bit (push_bit (?id mod 32) 1 :: u32) n \<longleftrightarrow> ?id mod 32 = n"
        using assms(3) by (auto simp: bit_push_bit_iff bit_1_iff simp del: push_bit_of_1)
      ultimately show ?thesis unfolding id by (simp add: bit_or_iff del: push_bit_of_1)
    qed
    show ?thesis
      using Cons.IH [OF len] True one by (simp only: foldl_Cons Let_def if_True list.set bex_simps) auto
  next
    case False
    with Cons.IH [OF Cons.prems] show ?thesis by (simp only: foldl_Cons if_False list.set) auto
  qed
qed

lemma length_activeWords: "length (activeWords rs) = 4"
proof -
  have "length (foldl (\<lambda>words r.
         if nr_state r = Active \<and> nr_nodeId r \<le> of_nat kLastNodeId then
           let k = unat (nr_nodeId r) div 32 in
           words[k := words ! k OR push_bit (unat (nr_nodeId r) mod 32) (1 :: u32)]
         else words) words rs) = length words" for words
    by (induction rs arbitrary: words) (simp_all add: Let_def)
  then show ?thesis by (simp add: activeWords_def)
qed

text \<open>The view as the source publishes it agrees with the registry.\<close>

definition viewOk :: "'s registry_service \<Rightarrow> bool" where
  "viewOk sv \<longleftrightarrow> sv_activeNodeIds sv = activeWords (registryRecords (sv_nodes sv)) \<and>
     sv_publishedGeneration sv = rs_generation (sv_store sv)"

lemma isActiveNode_iff:
  assumes "viewOk sv" "recordsOk (registryRecords (sv_nodes sv))"
  shows "isActiveNode sv nodeId \<longleftrightarrow>
    (\<exists>r. nodeMap (registryRecords (sv_nodes sv)) nodeId = Some r \<and> nr_state r = Active)"
proof -
  let ?rs = "registryRecords (sv_nodes sv)"
  have range: "\<not> (nr_nodeId r < 1 \<or> 99 < nr_nodeId r)" if "r \<in> set ?rs" for r
  proof -
    have "restorableRecord r" using assms(2) that by (simp add: recordsOk_def list_all_iff recordOk_def)
    then show ?thesis by (simp add: restorableRecord_def)
  qed
  have test: "w AND 2 ^ n \<noteq> 0 \<longleftrightarrow> bit w n" if "n < 32" for w :: u32 and n
    using that and_bit_neq_0 [of n w] by (simp add: push_bit_of_1)
  have "isActiveNode sv nodeId \<longleftrightarrow> (\<exists>r \<in> set ?rs. nr_nodeId r = nodeId \<and> nr_state r = Active)"
  proof (cases "nodeId < 1 \<or> nodeId > 99")
    case True
    then have "\<not> isActiveNode sv nodeId" by (simp add: isActiveNode_def)
    then show ?thesis using range True by blast
  next
    case False
    then have "unat nodeId div 32 < 4"
      using div_le_mono [of "unat nodeId" 99 32] by (simp add: not_less word_le_nat_alt)
    then have "bit (activeWords ?rs ! (unat nodeId div 32)) (unat nodeId mod 32) \<longleftrightarrow>
        (\<exists>r \<in> set ?rs. nr_state r = Active \<and> nr_nodeId r \<le> 99 \<and> unat (nr_nodeId r) = unat nodeId)"
      using bit_activeWords [of "replicate 4 0" "unat nodeId div 32" "unat nodeId mod 32" ?rs]
      by (simp add: activeWords_def)
    also have "\<dots> \<longleftrightarrow> (\<exists>r \<in> set ?rs. nr_nodeId r = nodeId \<and> nr_state r = Active)"
      using range by (auto simp: word_unat_eq_iff not_less)
    finally show ?thesis
      using False assms(1) by (simp add: isActiveNode_def Let_def test viewOk_def)
  qed
  also have "\<dots> \<longleftrightarrow> (\<exists>r. nodeMap ?rs nodeId = Some r \<and> nr_state r = Active)"
    using nodeMap_mem [of ?rs nodeId] nodeMap_SomeI [OF recordsOk_distinct [OF assms(2)]] by blast
  finally show ?thesis .
qed

subsection \<open>Every commit is all or nothing\<close>

datatype ServiceOp =
  SReserve JoinRequest | SConfirm buffer u8 u32 | SRename u8 bytes | SSetPowerPolicy u8 u8
  | SUpdateInfo u8 buffer NodeInfo | SRemove u8 | SClear

fun serviceOp ::
  "'s slot_ops \<Rightarrow> bool \<Rightarrow> bool \<Rightarrow> 's registry_service \<Rightarrow> ServiceOp \<Rightarrow>
   's registry_service \<times> RegistryCommitStatus" where
  "serviceOp ops g a sv (SReserve request) =
     (case reserveAndSave ops g a sv request of (sv, st, _) \<Rightarrow> (sv, st))"
| "serviceOp ops g a sv (SConfirm uid nodeId nonce) =
     (case confirmAndSave ops g a sv uid nodeId nonce of (sv, st, _) \<Rightarrow> (sv, st))"
| "serviceOp ops g a sv (SRename nodeId name) =
     (case renameAndSave ops g a sv nodeId (Some name) (length name) of (sv, st, _) \<Rightarrow> (sv, st))"
| "serviceOp ops g a sv (SSetPowerPolicy nodeId policy) =
     (case setPowerPolicyAndSave ops g a sv nodeId policy of (sv, st, _) \<Rightarrow> (sv, st))"
| "serviceOp ops g a sv (SUpdateInfo nodeId uid info) =
     (case updateInfoAndSave ops g a sv nodeId uid info of (sv, st, _) \<Rightarrow> (sv, st))"
| "serviceOp ops g a sv (SRemove nodeId) =
     (case removeAndSave ops g a sv nodeId of (sv, st, _) \<Rightarrow> (sv, st))"
| "serviceOp ops g a sv SClear = (case clearAndSave ops g a sv of (sv, st, _) \<Rightarrow> (sv, st))"

text \<open>The registry an operation asks for.\<close>

fun serviceEffect :: "NodeRegistry \<Rightarrow> ServiceOp \<Rightarrow> NodeRegistry" where
  "serviceEffect reg (SReserve request) = applyOp reg (Op_Reserve request)"
| "serviceEffect reg (SConfirm uid nodeId nonce) = applyOp reg (Op_Confirm uid nodeId nonce)"
| "serviceEffect reg (SRename nodeId name) = applyOp reg (Op_Rename nodeId name)"
| "serviceEffect reg (SSetPowerPolicy nodeId policy) = applyOp reg (Op_SetPowerPolicy nodeId policy)"
| "serviceEffect reg (SUpdateInfo nodeId uid info) = applyOp reg (Op_UpdateInfo nodeId uid info)"
| "serviceEffect reg (SRemove nodeId) = applyOp reg (Op_Remove nodeId)"
| "serviceEffect reg SClear = newRegistry"

fun serviceOpOk :: "ServiceOp \<Rightarrow> bool" where
  "serviceOpOk (SReserve request) = joinRequestOk request"
| "serviceOpOk (SUpdateInfo nodeId uid info) = nodeInfoOk info"
| "serviceOpOk _ = True"

definition registryGood :: "NodeRegistry \<Rightarrow> bool" where
  "registryGood reg \<longleftrightarrow> registryOk reg \<and> ceilings (nodeMap (registryRecords reg))"

definition serviceOk :: "'s slot_ops \<Rightarrow> 's registry_service \<Rightarrow> bool" where
  "serviceOk ops sv \<longleftrightarrow> (sv_initialized sv \<longrightarrow> registryGood (sv_nodes sv) \<and> viewOk sv \<and>
     registrySound ops (sv_store sv) (sv_flash sv) (sv_nodes sv))"

text \<open>What a commit leaves: on success the candidate, in RAM and in flash; otherwise the old
  registry, the old view and a store that still stands for it.\<close>

definition committed ::
  "'s slot_ops \<Rightarrow> 's registry_service \<Rightarrow> NodeRegistry \<Rightarrow> 's registry_service \<Rightarrow> RegistryCommitStatus \<Rightarrow> bool" where
  "committed ops sv candidate sv' status \<longleftrightarrow> serviceOk ops sv' \<and>
     sv_initialized sv' = sv_initialized sv \<and>
     (status = RC_Ok \<longrightarrow> sv_nodes sv' = candidate \<and>
        registryLoad ops (sv_flash sv') = (sv_store sv', candidate, Loaded)) \<and>
     (status \<noteq> RC_Ok \<longrightarrow> sv_nodes sv' = sv_nodes sv \<and> sv_store sv' = sv_store sv \<and>
        sv_activeNodeIds sv' = sv_activeNodeIds sv \<and>
        sv_publishedGeneration sv' = sv_publishedGeneration sv)"

lemma committed_same: "serviceOk ops sv \<Longrightarrow> status \<noteq> RC_Ok \<Longrightarrow> committed ops sv candidate sv status"
  by (simp add: committed_def)

lemma serviceEffect_good:
  assumes "registryGood reg" "serviceOpOk operation"
  shows "registryGood (serviceEffect reg operation)"
proof -
  obtain rs where rs: "reg = registryOf rs" "recordsOk rs"
    using assms(1) by (auto simp: registryGood_def elim: registryOkE)
  have op: "registryGood (applyOp reg x)" if "opOk x" for x
    using applyOp_ok [of reg x] applyOp_ceilings [OF rs(2) that] that assms(1) rs(1)
    by (simp add: registryGood_def)
  have "registryGood newRegistry" by (simp add: registryGood_def newRegistry_ok ceilings_def nodeMap_def)
  then show ?thesis
    using assms(2) by (cases operation) (simp_all add: op del: applyOp.simps)
qed

context slot_storage
begin

lemma commit_committed:
  assumes "serviceOk ops sv" "sv_initialized sv" "registryGood candidate"
    and "commitCandidateLocked ops sv candidate = (sv', saved)"
  shows "committed ops sv candidate sv' (commitStatus saved)"
proof -
  obtain store flash ok where save: "registrySave ops (sv_store sv) (sv_flash sv) candidate = (store, flash, ok)"
    by (metis prod_cases3)
  have cand: "registryOk candidate" using assms(3) by (simp add: registryGood_def)
  have sound: "registrySound ops (sv_store sv) (sv_flash sv) (sv_nodes sv)"
    using assms(1,2) by (simp add: serviceOk_def)
  show ?thesis
  proof (cases ok)
    case True
    then have load: "registryLoad ops flash = (store, candidate, Loaded)"
      using registrySave_load [OF sound _ cand] save by simp
    have "sv' = publishLockFreeView (sv\<lparr>sv_store := store, sv_flash := flash, sv_nodes := candidate\<rparr>)"
      "saved"
      using assms(4) save True by (simp_all add: commitCandidateLocked_def)
    then show ?thesis
      using load registryLoad_sound [OF load] assms(2,3)
      by (simp add: committed_def serviceOk_def publishLockFreeView_def viewOk_def commitStatus_def)
  next
    case False
    then have f: "store = sv_store sv" "registrySound ops (sv_store sv) flash (sv_nodes sv)"
      using registrySave_failed [OF sound] save by auto
    have "sv' = sv\<lparr>sv_store := store, sv_flash := flash\<rparr>" "\<not> saved"
      using assms(4) save False by (simp_all add: commitCandidateLocked_def)
    then show ?thesis
      using f assms(1,2)
      by (simp add: committed_def serviceOk_def viewOk_def commitStatus_def)
  qed
qed

lemma service_commits:
  assumes "serviceOk ops sv" "serviceOpOk operation"
    and "serviceOp ops guarded allocated sv operation = (sv', status)"
  shows "committed ops sv (serviceEffect (sv_nodes sv) operation) sv' status"
proof (cases "writable guarded sv")
  case False
  then have "sv' = sv" "status = RC_NotInitialized"
    using assms(3)
    by (cases operation; simp add: reserveAndSave_def confirmAndSave_def renameAndSave_def
        setPowerPolicyAndSave_def updateInfoAndSave_def removeAndSave_def clearAndSave_def)+
  then show ?thesis using committed_same [OF assms(1)] by simp
next
  case True
  then have init: "sv_initialized sv" by (simp add: writable_def)
  then have "registryGood (sv_nodes sv)" using assms(1) by (simp add: serviceOk_def)
  from serviceEffect_good [OF this assms(2)]
  have commit: "committed ops sv (serviceEffect (sv_nodes sv) operation) sv' (commitStatus saved)"
    if "commitCandidateLocked ops sv (serviceEffect (sv_nodes sv) operation) = (sv', saved)" for saved
    using commit_committed [OF assms(1) init _ that] by simp
  have same: "committed ops sv (serviceEffect (sv_nodes sv) operation) sv status" if "status \<noteq> RC_Ok"
    by (rule committed_same [OF assms(1) that])
  show ?thesis
    using assms(3) True commit same
    by (cases operation)
       (auto simp: reserveAndSave_def confirmAndSave_def renameAndSave_def Let_def
        setPowerPolicyAndSave_def updateInfoAndSave_def removeAndSave_def clearAndSave_def
        split: prod.splits if_splits)
qed

end

lemma begin_ok:
  assumes "registryBegin ops mutexMade nvsReady sv = (sv', True)"
    and "registryLoad ops (sv_flash sv) = (store, nodes, status)" and "registryGood nodes"
  shows "serviceOk ops sv' \<and> sv_initialized sv' \<and> sv_nodes sv' = nodes"
proof -
  have sv': "sv' = (publishLockFreeView (sv\<lparr>sv_mutex := True, sv_store := store, sv_nodes := nodes\<rparr>))
      \<lparr>sv_initialized := True\<rparr>"
    using assms(1,2) by (auto simp: registryBegin_def Let_def split: if_splits)
  have "registrySound ops store (sv_flash sv) nodes" by (rule registryLoad_sound [OF assms(2)])
  then show ?thesis
    using assms(3) by (simp add: sv' serviceOk_def publishLockFreeView_def viewOk_def)
qed

end
