(* ===== verification/Gateway_Storage.thy ===== *)
theory Gateway_Storage
  imports Slot_Store Utf8
begin

text \<open>
  shared/RadioProtocol: GatewayStorage.h and GatewayStorage.cpp, first part: the header and
  checksum every snapshot of the gateway has, the settings and the installation secrets.  Each
  codec is given to \<open>DualSlotStore\<close> by an interpretation of \<open>snapshot_codec\<close>.  A validator
  returns None for \<open>CodecStatus::Ok\<close>; a decoder's result is the candidate and the generation
  (the source copies them out only when it returns Ok).
\<close>

subsection \<open>Loops that return the first error\<close>

fun firstError :: "('a \<Rightarrow> 'e option) \<Rightarrow> 'a list \<Rightarrow> 'e option" where
  "firstError check [] = None"
| "firstError check (x # xs) = (case check x of Some e \<Rightarrow> Some e | None \<Rightarrow> firstError check xs)"

lemma firstError_None [simp]: "firstError check xs = None \<longleftrightarrow> (\<forall>x \<in> set xs. check x = None)"
  by (induction xs) (auto split: option.splits)

lemma firstError_cong: "(\<And>x. x \<in> set xs \<Longrightarrow> f x = g x) \<Longrightarrow> firstError f xs = firstError g xs"
  by (induction xs) (auto split: option.splits)

subsection \<open>Header and checksum\<close>

abbreviation (input) kStorageVersion :: u16 where "kStorageVersion \<equiv> 2"
abbreviation (input) kSnapshotHeaderSize :: nat where "kSnapshotHeaderSize \<equiv> 12"
abbreviation (input) kSnapshotCrcSize :: nat where "kSnapshotCrcSize \<equiv> 4"

definition writeHeader :: "bytes \<Rightarrow> bytes \<Rightarrow> u32 \<Rightarrow> u16 \<Rightarrow> bytes" where
  "writeHeader out magic generation snapshotSize =
     (let out = put out 0 magic;
          out = put out 4 (le16 kStorageVersion);
          out = put out 6 (le32 generation)
      in put out 10 (le16 snapshotSize))"

definition validateHeader :: "buffer \<Rightarrow> bytes \<Rightarrow> nat \<Rightarrow> CodecStatus + u32" where
  "validateHeader buf magic expectedSize =
     (case buf of
        None \<Rightarrow> Inl GS_InvalidSize
      | Some data \<Rightarrow>
          if length data \<noteq> expectedSize \<or> unat (get16 data 10) \<noteq> expectedSize
          then Inl GS_InvalidSize
          else if chunk data 0 4 \<noteq> magic then Inl GS_InvalidMagic
          else if get16 data 4 \<noteq> kStorageVersion then Inl GS_UnsupportedVersion
          else if get32 data (length data - 4) \<noteq> crc32 (take (length data - 4) data)
          then Inl GS_CrcMismatch
          else Inr (get32 data 6))"

definition zeroPadded :: "bytes \<Rightarrow> nat \<Rightarrow> nat \<Rightarrow> bool" where
  "zeroPadded data used capacity \<longleftrightarrow> used \<le> capacity \<and> allZero (chunk data used (capacity - used))"

definition headerImage :: "bytes \<Rightarrow> u32 \<Rightarrow> u16 \<Rightarrow> bytes" where
  "headerImage magic g n = magic @ le16 kStorageVersion @ le32 g @ le16 n"

lemma length_headerImage: "length magic = 4 \<Longrightarrow> length (headerImage magic g n) = 12"
  by (simp add: headerImage_def)

lemma writeHeader_image:
  "length magic = 4 \<Longrightarrow> writeHeader out magic g n = written (headerImage magic g n) out"
  by (simp add: writeHeader_def headerImage_def put_start put_written)

text \<open>A snapshot of the gateway: header, body, checksum of both.\<close>

definition snapshotBytes :: "bytes \<Rightarrow> u32 \<Rightarrow> bytes \<Rightarrow> bytes" where
  "snapshotBytes magic g body =
     (let h = headerImage magic g (of_nat (length body + 16)) @ body in h @ le32 (crc32 h))"

lemma length_snapshotBytes [simp]:
  "length magic = 4 \<Longrightarrow> length (snapshotBytes magic g body) = length body + 16"
  by (simp add: snapshotBytes_def Let_def length_headerImage)

lemma validateHeader_snapshot:
  assumes "length magic = 4" "length body + 16 < 65536" "n = length body + 16"
  shows "validateHeader (Some (snapshotBytes magic g body)) magic n = Inr g"
proof -
  let ?d = "snapshotBytes magic g body" and ?n = "of_nat n :: u16"
  have seal: "sealed ?d" unfolding snapshotBytes_def Let_def by (rule sealed_append)
  have d: "?d = magic @ le16 kStorageVersion @ le32 g @ le16 ?n @ body @
      le32 (crc32 (headerImage magic g ?n @ body))"
    by (simp add: snapshotBytes_def headerImage_def Let_def flip: assms(3))
  have "unat ?n = n" using assms by (simp add: unat_of_nat del: of_nat_add)
  then have "unat (get16 ?d 10) = n"
    unfolding d using assms(1) by (simp add: layout_simps)
  moreover have "get16 ?d 4 = kStorageVersion" "get32 ?d 6 = g" "chunk ?d 0 4 = magic"
    unfolding d using assms(1) by (simp_all add: layout_simps)
  ultimately show ?thesis
    using assms seal by (simp add: validateHeader_def sealed_def)
qed

lemma body_chunk:
  assumes "length magic = 4" "12 \<le> off" "off + n \<le> 12 + length body"
  shows "chunk (snapshotBytes magic g body) off n = chunk body (off - 12) n"
  using assms by (simp add: snapshotBytes_def Let_def chunk_def length_headerImage)

lemma body_nth:
  assumes "length magic = 4" "12 \<le> off" "off < 12 + length body"
  shows "snapshotBytes magic g body ! off = body ! (off - 12)"
proof -
  obtain k where "off = 12 + k" "k < length body" using assms(2,3) le_Suc_ex by fastforce
  then show ?thesis
    using assms(1) by (simp add: snapshotBytes_def Let_def nth_append length_headerImage)
qed

lemma body_get16:
  assumes "length magic = 4" "12 \<le> off" "off + 2 \<le> 12 + length body"
  shows "get16 (snapshotBytes magic g body) off = get16 body (off - 12)"
proof -
  obtain k where "off = 12 + k" "k + 2 \<le> length body" using assms(2,3) le_Suc_ex by fastforce
  then show ?thesis using assms(1) by (simp add: get16_def body_nth)
qed

lemma body_get32:
  assumes "length magic = 4" "12 \<le> off" "off + 4 \<le> 12 + length body"
  shows "get32 (snapshotBytes magic g body) off = get32 body (off - 12)"
proof -
  obtain k where "off = 12 + k" "k + 4 \<le> length body" using assms(2,3) le_Suc_ex by fastforce
  then show ?thesis using assms(1) by (simp add: get32_def body_nth add.commute)
qed

lemmas body_simps = body_chunk body_nth body_get16 body_get32

lemma validateHeader_sealed:
  assumes "validateHeader (Some d) magic n = Inr g" "4 \<le> n"
  shows "sealed d \<and> length d = n \<and> g = get32 d 6"
  using assms by (auto simp: validateHeader_def sealed_def split: if_splits)

lemma validateHeader_one_byte:
  assumes "validateHeader (Some d) magic n = Inr g" "4 \<le> n" "i < length d" "b \<noteq> d ! i"
  shows "\<exists>e. validateHeader (Some (d[i := b])) magic n = Inl e"
proof (cases "validateHeader (Some (d[i := b])) magic n")
  case (Inr h)
  have "sealed d" "sealed (d[i := b])"
    using validateHeader_sealed [OF assms(1,2)] validateHeader_sealed [OF Inr assms(2)] by auto
  then show ?thesis using sealed_one_byte assms(3,4) by blast
qed simp

text \<open>Sealing the bytes of a snapshot that has been written up to its checksum.\<close>

lemma seal_written:
  assumes "length magic = 4" "n = length body + 16"
  shows "put (written (headerImage magic g (of_nat n) @ body) (replicate n 0)) (n - 4)
      (le32 (crc32 (take (n - 4) (written (headerImage magic g (of_nat n) @ body) (replicate n 0))))) =
    snapshotBytes magic g body"
proof -
  let ?pre = "headerImage magic g (of_nat n) @ body"
  have len: "length ?pre = n - 4" "n - 4 \<le> n" using assms by (simp_all add: length_headerImage)
  have "put (written ?pre (replicate n 0)) (n - 4) (le32 (crc32 ?pre)) =
      written (?pre @ le32 (crc32 ?pre)) (replicate n 0)"
    by (rule put_written) (rule len(1) [symmetric])
  also have "\<dots> = ?pre @ le32 (crc32 ?pre)"
    using assms by (intro written_full) (simp add: length_headerImage)
  finally show ?thesis
    by (simp add: len(1) [symmetric] snapshotBytes_def Let_def flip: assms(2))
qed

subsection \<open>Arrays of records in a snapshot\<close>

text \<open>The records \<open>start \<dots> stop - 1\<close> of an array of \<open>w\<close>-byte records at \<open>data + base\<close>, in the
  order of the loop.\<close>

definition entries :: "bytes \<Rightarrow> nat \<Rightarrow> nat \<Rightarrow> nat \<Rightarrow> nat \<Rightarrow> bytes list" where
  "entries data base w start stop = map (\<lambda>index. chunk data (base + index * w) w) [start..<stop]"

lemma putArray_gap:
  assumes "length pre + g = off" "off \<le> n"
  shows "putArray (written pre (replicate n 0)) off xs = written (pre @ zeros g @ concat xs) (replicate n 0)"
proof -
  have "written pre (replicate n 0) = written (pre @ zeros g) (replicate n 0)"
    using assms by (intro written_zeros) simp
  then show ?thesis using putArray_written [of off "pre @ zeros g" "replicate n 0" xs] assms by simp
qed

lemma entries_snapshot:
  assumes "length magic = 4" "body = pre @ concat xs @ post" "base = 12 + length pre"
    and xs: "list_all (\<lambda>x. length x = w) xs" and n: "n = length xs"
  shows "entries (snapshotBytes magic g body) base w 0 n = xs"
proof (rule nth_equalityI)
  fix i assume "i < length (entries (snapshotBytes magic g body) base w 0 n)"
  then have i: "i < length xs" by (simp add: entries_def n)
  have c: "length (concat xs) = length xs * w" by (rule length_concat_entries [OF xs])
  have "i * w + w \<le> length xs * w" using mult_le_mono1 [of "Suc i" "length xs" w] i by simp
  then have "chunk (snapshotBytes magic g body) (base + i * w) w = chunk body (length pre + i * w) w"
    using assms(1-3) c by (simp add: body_chunk)
  also have "\<dots> = xs ! i" unfolding assms(2) by (rule chunk_entry [OF xs i]) simp
  finally show "entries (snapshotBytes magic g body) base w 0 n ! i = xs ! i"
    using i by (simp add: entries_def n)
qed (simp add: entries_def n)

lemma entries_snapshot_zero:
  assumes "length magic = 4" "body = pre @ zeros (m * w) @ post" "base + start * w = 12 + length pre"
    and "stop = start + m"
  shows "list_all allZero (entries (snapshotBytes magic g body) base w start stop)"
proof -
  have "allZero (chunk (snapshotBytes magic g body) (base + i * w) w)" if i: "start \<le> i" "i < stop" for i
  proof -
    obtain k where k: "i = start + k" using i(1) le_Suc_ex by blast
    have off: "base + i * w = 12 + (length pre + k * w)" using assms(3) k by (simp add: algebra_simps)
    have "k * w + w \<le> m * w" using mult_le_mono1 [of "Suc k" m w] i assms(4) k by simp
    then show ?thesis
      unfolding off using assms(1,2) by (simp add: body_chunk chunk_append_left chunk_append_right chunk_zeros)
  qed
  then show ?thesis by (simp add: entries_def list_all_iff)
qed

subsection \<open>Settings\<close>

abbreviation (input) kHostnameSize :: nat where "kHostnameSize \<equiv> 32"
abbreviation (input) kNtpServerCount :: nat where "kNtpServerCount \<equiv> 3"
abbreviation (input) kNtpServerSize :: nat where "kNtpServerSize \<equiv> 63"
abbreviation (input) kSettingsSnapshotSize :: nat where "kSettingsSnapshotSize \<equiv> 248"
abbreviation (input) kSettingsMagic :: bytes where "kSettingsMagic \<equiv> [0x52, 0x53, 0x47, 0x43]"

record GatewaySettings =
  gs_mdnsEnabled :: bool
  gs_ntpEnabled :: bool
  gs_pairingWindowSeconds :: u16
  gs_setupWindowSeconds :: u16
  gs_hostnameLength :: u8
  gs_hostname :: bytes
  gs_ntpServerCount :: u8
  gs_ntpServerLengths :: bytes
  gs_ntpServers :: "bytes list"

definition validNtpServer :: "bytes \<Rightarrow> nat \<Rightarrow> bool" where
  "validNtpServer data n \<longleftrightarrow>
     \<not> (n = 0 \<or> n > kNtpServerSize) \<and>
     list_all (\<lambda>v. \<not> (v \<le> 0x20 \<or> v \<ge> 0x7F \<or> v = 0x2F \<or> v = 0x40)) (take n data)"

definition validHostname :: "bytes \<Rightarrow> nat \<Rightarrow> bool" where
  "validHostname v n =
     (if n = 0 then True
      else if v ! 0 = 0x2D \<or> v ! (n - 1) = 0x2D then False
      else list_all (\<lambda>c. (c \<ge> 0x61 \<and> c \<le> 0x7A) \<or> (c \<ge> 0x30 \<and> c \<le> 0x39) \<or> c = 0x2D) (take n v))"

text \<open>The body of the loop over the NTP servers.\<close>

definition validateNtpServer :: "GatewaySettings \<Rightarrow> nat \<Rightarrow> CodecStatus option" where
  "validateNtpServer v index =
     (let n = unat (gs_ntpServerLengths v ! index) in
      if index \<ge> unat (gs_ntpServerCount v) then
        if n \<noteq> 0 \<or> \<not> allZero (gs_ntpServers v ! index) then Some GS_InvalidReservedData else None
      else if \<not> validNtpServer (gs_ntpServers v ! index) n \<or>
              \<not> zeroPadded (gs_ntpServers v ! index) n kNtpServerSize
      then Some GS_InvalidString
      else if list_ex (\<lambda>previous. n = unat (gs_ntpServerLengths v ! previous) \<and>
             take n (gs_ntpServers v ! index) = take n (gs_ntpServers v ! previous)) [0..<index]
      then Some GS_DuplicateValue else None)"

definition validateSettings :: "GatewaySettings \<Rightarrow> CodecStatus option" where
  "validateSettings v =
     (let hostnameLength = unat (gs_hostnameLength v) in
      if hostnameLength > kHostnameSize \<or>
         \<not> zeroPadded (gs_hostname v) hostnameLength kHostnameSize \<or>
         \<not> validHostname (gs_hostname v) hostnameLength
      then Some GS_InvalidString
      else if unat (gs_ntpServerCount v) > kNtpServerCount \<or>
              (gs_ntpEnabled v \<and> gs_ntpServerCount v = 0)
      then Some GS_InvalidCount
      else if gs_pairingWindowSeconds v < 30 \<or> gs_pairingWindowSeconds v > 900 \<or>
              gs_setupWindowSeconds v < 60 \<or> gs_setupWindowSeconds v > 1800
      then Some GS_InvalidValue
      else firstError (validateNtpServer v) [0..<kNtpServerCount])"

text \<open>\<open>pool.ntp.org\<close> and \<open>time.cloudflare.com\<close>.\<close>

definition defaultSettings :: GatewaySettings where
  "defaultSettings =
     \<lparr>gs_mdnsEnabled = True, gs_ntpEnabled = True, gs_pairingWindowSeconds = 120,
      gs_setupWindowSeconds = 600, gs_hostnameLength = 0, gs_hostname = zeros kHostnameSize,
      gs_ntpServerCount = 2, gs_ntpServerLengths = [12, 19, 0],
      gs_ntpServers =
        [put (zeros kNtpServerSize) 0
           [0x70, 0x6F, 0x6F, 0x6C, 0x2E, 0x6E, 0x74, 0x70, 0x2E, 0x6F, 0x72, 0x67],
         put (zeros kNtpServerSize) 0
           [0x74, 0x69, 0x6D, 0x65, 0x2E, 0x63, 0x6C, 0x6F, 0x75, 0x64, 0x66, 0x6C, 0x61, 0x72,
            0x65, 0x2E, 0x63, 0x6F, 0x6D],
         zeros kNtpServerSize]\<rparr>"

definition settingsEqual :: "GatewaySettings \<Rightarrow> GatewaySettings \<Rightarrow> bool" where
  "settingsEqual left right \<longleftrightarrow>
     gs_mdnsEnabled left = gs_mdnsEnabled right \<and> gs_ntpEnabled left = gs_ntpEnabled right \<and>
     gs_pairingWindowSeconds left = gs_pairingWindowSeconds right \<and>
     gs_setupWindowSeconds left = gs_setupWindowSeconds right \<and>
     gs_hostnameLength left = gs_hostnameLength right \<and> gs_hostname left = gs_hostname right \<and>
     gs_ntpServerCount left = gs_ntpServerCount right \<and>
     gs_ntpServerLengths left = gs_ntpServerLengths right \<and>
     gs_ntpServers left = gs_ntpServers right"

definition encodeSettings :: "GatewaySettings \<Rightarrow> u32 \<Rightarrow> buffer \<Rightarrow> CodecStatus + bytes" where
  "encodeSettings v generation output =
     (case output of
        None \<Rightarrow> Inl GS_OutputTooSmall
      | Some out \<Rightarrow>
          if length out < kSettingsSnapshotSize then Inl GS_OutputTooSmall
          else case validateSettings v of
            Some e \<Rightarrow> Inl e
          | None \<Rightarrow>
              let s = zeros kSettingsSnapshotSize;
                  s = writeHeader s kSettingsMagic generation (of_nat kSettingsSnapshotSize);
                  s = put s 12 [(if gs_mdnsEnabled v then 1 else 0) OR
                                (if gs_ntpEnabled v then 2 else 0)];
                  s = put s 13 [gs_hostnameLength v];
                  s = put s 14 [gs_ntpServerCount v];
                  s = put s 16 (le16 (gs_pairingWindowSeconds v));
                  s = put s 18 (le16 (gs_setupWindowSeconds v));
                  s = put s 20 (gs_hostname v);
                  s = foldl (\<lambda>s index.
                        let offset = 52 + index * 64;
                            s = put s offset [gs_ntpServerLengths v ! index]
                        in put s (offset + 1) (gs_ntpServers v ! index))
                      s [0..<kNtpServerCount];
                  s = put s 244 (le32 (crc32 (take 244 s)))
              in Inr (written s out))"

definition decodeSettings :: "buffer \<Rightarrow> CodecStatus + GatewaySettings \<times> u32" where
  "decodeSettings buf =
     (case validateHeader buf kSettingsMagic kSettingsSnapshotSize of
        Inl e \<Rightarrow> Inl e
      | Inr generation \<Rightarrow>
          let data = the buf in
          if data ! 12 AND NOT 3 \<noteq> 0 then Inl GS_InvalidFlags
          else if data ! 15 \<noteq> 0 then Inl GS_InvalidReservedData
          else
            let candidate = \<lparr>gs_mdnsEnabled = (data ! 12 AND 1 \<noteq> 0),
                  gs_ntpEnabled = (data ! 12 AND 2 \<noteq> 0),
                  gs_pairingWindowSeconds = get16 data 16, gs_setupWindowSeconds = get16 data 18,
                  gs_hostnameLength = data ! 13, gs_hostname = chunk data 20 kHostnameSize,
                  gs_ntpServerCount = data ! 14,
                  gs_ntpServerLengths = map (\<lambda>index. data ! (52 + index * 64)) [0..<kNtpServerCount],
                  gs_ntpServers = map (\<lambda>index. chunk data (52 + index * 64 + 1) kNtpServerSize)
                    [0..<kNtpServerCount]\<rparr>
            in case validateSettings candidate of
                 Some e \<Rightarrow> Inl e
               | None \<Rightarrow> Inr (candidate, generation))"

definition settingsCodec :: "GatewaySettings slot_codec" where
  "settingsCodec = \<lparr>sc_SnapshotSize = kSettingsSnapshotSize, sc_Encode = encodeSettings,
     sc_Decode = decodeSettings, sc_Equal = settingsEqual, sc_DefaultValue = defaultSettings\<rparr>"

definition settingsShaped :: "GatewaySettings \<Rightarrow> bool" where
  "settingsShaped v \<longleftrightarrow> length (gs_hostname v) = kHostnameSize \<and>
     length (gs_ntpServerLengths v) = kNtpServerCount \<and>
     length (gs_ntpServers v) = kNtpServerCount \<and>
     list_all (\<lambda>s. length s = kNtpServerSize) (gs_ntpServers v)"

definition flagByte :: "bool \<Rightarrow> bool \<Rightarrow> u8" where
  "flagByte a b = (if a then 1 else 0) OR (if b then 2 else 0)"

lemma flagByte_simps [simp]:
  "flagByte a b AND - 4 = 0" "flagByte a b AND 1 \<noteq> 0 \<longleftrightarrow> a" "flagByte a b AND 2 \<noteq> 0 \<longleftrightarrow> b"
  by (cases a; cases b; simp add: flagByte_def)+

definition settingsBody :: "GatewaySettings \<Rightarrow> bytes" where
  "settingsBody v = [flagByte (gs_mdnsEnabled v) (gs_ntpEnabled v), gs_hostnameLength v,
     gs_ntpServerCount v, 0] @ le16 (gs_pairingWindowSeconds v) @ le16 (gs_setupWindowSeconds v) @
     gs_hostname v @ [gs_ntpServerLengths v ! 0] @ gs_ntpServers v ! 0 @
     [gs_ntpServerLengths v ! 1] @ gs_ntpServers v ! 1 @
     [gs_ntpServerLengths v ! 2] @ gs_ntpServers v ! 2"

lemma settingsShapedE:
  assumes "settingsShaped v"
  obtains a b c p q r where "gs_ntpServerLengths v = [a, b, c]" "gs_ntpServers v = [p, q, r]"
    "length p = 63" "length q = 63" "length r = 63" "length (gs_hostname v) = 32"
  using assms by (auto simp: settingsShaped_def numeral_eq_Suc length_Suc_conv)

lemma length_settingsBody: "settingsShaped v \<Longrightarrow> length (settingsBody v) = 232"
  by (erule settingsShapedE) (simp add: settingsBody_def)

lemma encodeSettings_bytes:
  assumes "settingsShaped v" "validateSettings v = None" "248 \<le> length out"
  shows "encodeSettings v g (Some out) = Inr (written (snapshotBytes kSettingsMagic g (settingsBody v)) out)"
proof -
  obtain a b c p q r where sh: "gs_ntpServerLengths v = [a, b, c]" "gs_ntpServers v = [p, q, r]"
      "length p = 63" "length q = 63" "length r = 63" "length (gs_hostname v) = 32"
    using assms(1) by (rule settingsShapedE)
  have loop: "[0..<3] = [0, 1, 2 :: nat]" by (simp add: upt_rec)
  let ?h = "headerImage kSettingsMagic g (of_nat 248)"
  have h: "length ?h = 12" by (simp add: length_headerImage)
  have s: "foldl (\<lambda>s index. let offset = 52 + index * 64;
          s = put s offset [gs_ntpServerLengths v ! index]
        in put s (offset + 1) (gs_ntpServers v ! index))
      (put (put (put (put (put (put (writeHeader (zeros 248) kSettingsMagic g (of_nat 248))
        12 [flagByte (gs_mdnsEnabled v) (gs_ntpEnabled v)]) 13 [gs_hostnameLength v])
        14 [gs_ntpServerCount v]) 16 (le16 (gs_pairingWindowSeconds v)))
        18 (le16 (gs_setupWindowSeconds v))) 20 (gs_hostname v)) [0..<3] =
      written (?h @ settingsBody v) (zeros 248)"
    using sh h
    by (simp add: loop writeHeader_image put_written put_zeros settingsBody_def Let_def)
  show ?thesis
    using assms(2,3) s seal_written [of kSettingsMagic 248 "settingsBody v" g]
      length_settingsBody [OF assms(1)]
    by (simp add: encodeSettings_def Let_def flagByte_def)
qed

lemma decodeSettings_bytes:
  assumes "settingsShaped v" "validateSettings v = None"
  shows "decodeSettings (Some (snapshotBytes kSettingsMagic g (settingsBody v))) = Inr (v, g)"
proof -
  obtain a b c p q r where sh: "gs_ntpServerLengths v = [a, b, c]" "gs_ntpServers v = [p, q, r]"
      "length p = 63" "length q = 63" "length r = 63" "length (gs_hostname v) = 32"
    using assms(1) by (rule settingsShapedE)
  have loop: "[0..<3] = [0, 1, 2 :: nat]" by (simp add: upt_rec)
  have len: "length (settingsBody v) = 232" by (rule length_settingsBody [OF assms(1)])
  have head: "validateHeader (Some (snapshotBytes kSettingsMagic g (settingsBody v))) kSettingsMagic 248 = Inr g"
    by (rule validateHeader_snapshot) (simp_all add: len)
  have body: "settingsBody v = [flagByte (gs_mdnsEnabled v) (gs_ntpEnabled v), gs_hostnameLength v,
     gs_ntpServerCount v, 0] @ le16 (gs_pairingWindowSeconds v) @ le16 (gs_setupWindowSeconds v) @
     gs_hostname v @ [a] @ p @ [b] @ q @ [c] @ r"
    by (simp add: settingsBody_def sh)
  let ?d = "snapshotBytes kSettingsMagic g (settingsBody v)"
  have fields: "?d ! 12 = flagByte (gs_mdnsEnabled v) (gs_ntpEnabled v)"
    "?d ! 13 = gs_hostnameLength v" "?d ! 14 = gs_ntpServerCount v" "?d ! 15 = 0"
    "get16 ?d 16 = gs_pairingWindowSeconds v" "get16 ?d 18 = gs_setupWindowSeconds v"
    "chunk ?d 20 32 = gs_hostname v"
    "map (\<lambda>index. ?d ! (52 + index * 64)) [0..<3] = [a, b, c]"
    "map (\<lambda>index. chunk ?d (52 + index * 64 + 1) 63) [0..<3] = [p, q, r]"
    using sh by (simp_all add: body_simps len loop, simp_all add: body layout_simps)
  have whole: "\<lparr>gs_mdnsEnabled = gs_mdnsEnabled v, gs_ntpEnabled = gs_ntpEnabled v,
      gs_pairingWindowSeconds = gs_pairingWindowSeconds v,
      gs_setupWindowSeconds = gs_setupWindowSeconds v, gs_hostnameLength = gs_hostnameLength v,
      gs_hostname = gs_hostname v, gs_ntpServerCount = gs_ntpServerCount v,
      gs_ntpServerLengths = [a, b, c], gs_ntpServers = [p, q, r]\<rparr> = v"
    using sh(1,2) by (cases v) simp
  show ?thesis
    unfolding decodeSettings_def head Let_def option.sel sum.case fields flagByte_simps whole
    by (simp add: assms(2) fields whole)
qed

lemma decodeSettings_valid: "decodeSettings (Some d) = Inr (v, g) \<Longrightarrow> validateSettings v = None"
  by (auto simp: decodeSettings_def Let_def split: sum.splits option.splits if_splits)

lemma settingsEqual_iff [simp]: "settingsEqual v w \<longleftrightarrow> v = w"
  by (cases v; cases w) (auto simp: settingsEqual_def)

interpretation settings: snapshot_codec settingsCodec settingsShaped
proof
  fix v :: GatewaySettings and g d
  assume sh: "settingsShaped v"
    and enc: "sc_Encode settingsCodec v g (Some (zeros (sc_SnapshotSize settingsCodec))) = Inr d"
  then have valid: "validateSettings v = None"
    by (auto simp: settingsCodec_def encodeSettings_def split: option.splits if_splits)
  have "d = snapshotBytes kSettingsMagic g (settingsBody v)"
    using enc encodeSettings_bytes [OF sh valid, of "zeros 248" g] length_settingsBody [OF sh]
    by (simp add: settingsCodec_def written_full)
  then show "d \<noteq> [] \<and> length d \<le> sc_SnapshotSize settingsCodec \<and>
      (\<exists>w. sc_Decode settingsCodec (Some d) = Inr (w, g) \<and> sc_Equal settingsCodec w v)"
    using decodeSettings_bytes [OF sh valid, of g] length_settingsBody [OF sh]
    by (auto simp: settingsCodec_def simp flip: length_0_conv)
qed (simp add: settingsCodec_def)

subsection \<open>Installation secrets\<close>

abbreviation (input) kRadioKeySize :: nat where "kRadioKeySize \<equiv> 16"
abbreviation (input) kDeviceSecretSize :: nat where "kDeviceSecretSize \<equiv> 32"
abbreviation (input) kSecretsSnapshotSize :: nat where "kSecretsSnapshotSize \<equiv> 67"
abbreviation (input) kSecretsMagic :: bytes where "kSecretsMagic \<equiv> [0x52, 0x53, 0x47, 0x53]"

record InstallationSecrets =
  is_installationKeyPresent :: bool
  is_deviceSecretPresent :: bool
  is_operationalNetworkId :: u8
  is_installationKey :: bytes
  is_deviceSecret :: bytes

definition validateSecrets :: "InstallationSecrets \<Rightarrow> CodecStatus option" where
  "validateSecrets v =
     (if is_operationalNetworkId v = 0 then Some GS_InvalidValue
      else if \<not> is_installationKeyPresent v \<and> \<not> allZero (is_installationKey v)
      then Some GS_InvalidValue
      else if \<not> is_deviceSecretPresent v \<and> \<not> allZero (is_deviceSecret v)
      then Some GS_InvalidValue
      else None)"

definition defaultSecrets :: InstallationSecrets where
  "defaultSecrets = \<lparr>is_installationKeyPresent = False, is_deviceSecretPresent = False,
     is_operationalNetworkId = 0, is_installationKey = zeros kRadioKeySize,
     is_deviceSecret = zeros kDeviceSecretSize\<rparr>"

definition secretsEqual :: "InstallationSecrets \<Rightarrow> InstallationSecrets \<Rightarrow> bool" where
  "secretsEqual left right \<longleftrightarrow>
     is_installationKeyPresent left = is_installationKeyPresent right \<and>
     is_deviceSecretPresent left = is_deviceSecretPresent right \<and>
     is_operationalNetworkId left = is_operationalNetworkId right \<and>
     is_installationKey left = is_installationKey right \<and>
     is_deviceSecret left = is_deviceSecret right"

definition encodeSecrets :: "InstallationSecrets \<Rightarrow> u32 \<Rightarrow> buffer \<Rightarrow> CodecStatus + bytes" where
  "encodeSecrets v generation output =
     (case output of
        None \<Rightarrow> Inl GS_OutputTooSmall
      | Some out \<Rightarrow>
          if length out < kSecretsSnapshotSize then Inl GS_OutputTooSmall
          else case validateSecrets v of
            Some e \<Rightarrow> Inl e
          | None \<Rightarrow>
              let s = zeros kSecretsSnapshotSize;
                  s = writeHeader s kSecretsMagic generation (of_nat kSecretsSnapshotSize);
                  flags = 0;
                  flags = (if is_installationKeyPresent v then flags OR 1 else flags);
                  flags = (if is_deviceSecretPresent v then flags OR 2 else flags);
                  s = put s 12 (le16 flags);
                  s = put s 14 [is_operationalNetworkId v];
                  s = put s 15 (is_installationKey v);
                  s = put s 31 (is_deviceSecret v);
                  s = put s 63 (le32 (crc32 (take 63 s)))
              in Inr (written s out))"

definition decodeSecrets :: "buffer \<Rightarrow> CodecStatus + InstallationSecrets \<times> u32" where
  "decodeSecrets buf =
     (case validateHeader buf kSecretsMagic kSecretsSnapshotSize of
        Inl e \<Rightarrow> Inl e
      | Inr generation \<Rightarrow>
          let data = the buf;
              flags = get16 data 12 in
          if flags AND NOT 3 \<noteq> 0 then Inl GS_InvalidFlags
          else
            let candidate = \<lparr>is_installationKeyPresent = (flags AND 1 \<noteq> 0),
                  is_deviceSecretPresent = (flags AND 2 \<noteq> 0),
                  is_operationalNetworkId = data ! 14,
                  is_installationKey = chunk data 15 kRadioKeySize,
                  is_deviceSecret = chunk data 31 kDeviceSecretSize\<rparr>
            in case validateSecrets candidate of
                 Some e \<Rightarrow> Inl e
               | None \<Rightarrow> Inr (candidate, generation))"

definition secretsCodec :: "InstallationSecrets slot_codec" where
  "secretsCodec = \<lparr>sc_SnapshotSize = kSecretsSnapshotSize, sc_Encode = encodeSecrets,
     sc_Decode = decodeSecrets, sc_Equal = secretsEqual, sc_DefaultValue = defaultSecrets\<rparr>"

definition secretsShaped :: "InstallationSecrets \<Rightarrow> bool" where
  "secretsShaped v \<longleftrightarrow> length (is_installationKey v) = kRadioKeySize \<and>
     length (is_deviceSecret v) = kDeviceSecretSize"

definition secretFlags :: "InstallationSecrets \<Rightarrow> u16" where
  "secretFlags v = (if is_installationKeyPresent v then 1 else 0) OR
     (if is_deviceSecretPresent v then 2 else 0)"

lemma secretFlags_simps [simp]:
  "secretFlags v AND - 4 = 0" "secretFlags v AND 1 \<noteq> 0 \<longleftrightarrow> is_installationKeyPresent v"
  "secretFlags v AND 2 \<noteq> 0 \<longleftrightarrow> is_deviceSecretPresent v"
  by (simp_all add: secretFlags_def)

definition secretsBody :: "InstallationSecrets \<Rightarrow> bytes" where
  "secretsBody v = le16 (secretFlags v) @ [is_operationalNetworkId v] @ is_installationKey v @
     is_deviceSecret v"

lemma length_secretsBody: "secretsShaped v \<Longrightarrow> length (secretsBody v) = 51"
  by (simp add: secretsBody_def secretsShaped_def)

lemma encodeSecrets_bytes:
  assumes "secretsShaped v" "validateSecrets v = None" "67 \<le> length out"
  shows "encodeSecrets v g (Some out) = Inr (written (snapshotBytes kSecretsMagic g (secretsBody v)) out)"
proof -
  let ?h = "headerImage kSecretsMagic g (of_nat 67)"
  have h: "length ?h = 12" by (simp add: length_headerImage)
  have s: "put (put (put (put (writeHeader (zeros 67) kSecretsMagic g (of_nat 67))
        12 (le16 (secretFlags v))) 14 [is_operationalNetworkId v]) 15 (is_installationKey v))
        31 (is_deviceSecret v) = written (?h @ secretsBody v) (zeros 67)"
    using assms(1) h by (simp add: writeHeader_image put_written secretsBody_def secretsShaped_def)
  have f: "(if is_deviceSecretPresent v then (if is_installationKeyPresent v then 0 OR 1 else 0) OR 2
      else (if is_installationKeyPresent v then 0 OR 1 else 0)) = secretFlags v"
    by (simp add: secretFlags_def)
  show ?thesis
    using assms(2,3) seal_written [of kSecretsMagic 67 "secretsBody v" g]
      length_secretsBody [OF assms(1)]
    unfolding encodeSecrets_def Let_def f s by simp
qed

lemma decodeSecrets_bytes:
  assumes "secretsShaped v" "validateSecrets v = None"
  shows "decodeSecrets (Some (snapshotBytes kSecretsMagic g (secretsBody v))) = Inr (v, g)"
proof -
  have len: "length (secretsBody v) = 51" by (rule length_secretsBody [OF assms(1)])
  have head: "validateHeader (Some (snapshotBytes kSecretsMagic g (secretsBody v))) kSecretsMagic 67 = Inr g"
    by (rule validateHeader_snapshot) (simp_all add: len)
  let ?d = "snapshotBytes kSecretsMagic g (secretsBody v)"
  have fields: "get16 ?d 12 = secretFlags v" "?d ! 14 = is_operationalNetworkId v"
    "chunk ?d 15 16 = is_installationKey v" "chunk ?d 31 32 = is_deviceSecret v"
    using assms(1)
    by (simp_all add: body_simps len, simp_all add: secretsBody_def secretsShaped_def layout_simps)
  have whole: "\<lparr>is_installationKeyPresent = is_installationKeyPresent v,
      is_deviceSecretPresent = is_deviceSecretPresent v,
      is_operationalNetworkId = is_operationalNetworkId v,
      is_installationKey = is_installationKey v, is_deviceSecret = is_deviceSecret v\<rparr> = v"
    by (cases v) simp
  show ?thesis
    using assms(2) by (simp add: decodeSecrets_def head Let_def fields whole)
qed

lemma secretsEqual_iff [simp]: "secretsEqual v w \<longleftrightarrow> v = w"
  by (cases v; cases w) (auto simp: secretsEqual_def)

interpretation secrets: snapshot_codec secretsCodec secretsShaped
proof
  fix v :: InstallationSecrets and g d
  assume sh: "secretsShaped v"
    and enc: "sc_Encode secretsCodec v g (Some (zeros (sc_SnapshotSize secretsCodec))) = Inr d"
  then have valid: "validateSecrets v = None"
    by (auto simp: secretsCodec_def encodeSecrets_def split: option.splits if_splits)
  have "d = snapshotBytes kSecretsMagic g (secretsBody v)"
    using enc encodeSecrets_bytes [OF sh valid, of "zeros 67" g] length_secretsBody [OF sh]
    by (simp add: secretsCodec_def written_full)
  then show "d \<noteq> [] \<and> length d \<le> sc_SnapshotSize secretsCodec \<and>
      (\<exists>w. sc_Decode secretsCodec (Some d) = Inr (w, g) \<and> sc_Equal secretsCodec w v)"
    using decodeSecrets_bytes [OF sh valid, of g] length_secretsBody [OF sh]
    by (auto simp: secretsCodec_def simp flip: length_0_conv)
qed (simp add: secretsCodec_def)

end
