(* ===== verification/Command_Storage.thy ===== *)
theory Command_Storage
  imports Gateway_Storage Command_Codecs
begin

text \<open>
  shared/RadioProtocol: GatewayStorage.h and GatewayStorage.cpp, the command book: at most
  sixteen records, one per node, oldest first.  The validator does not look at the records from
  \<open>count\<close> on; the encoder writes zeros there and the decoder leaves blank records.
\<close>

abbreviation (input) kMaxCommandRecords :: nat where "kMaxCommandRecords \<equiv> 16"
abbreviation (input) kStoredCommandSize :: nat where "kStoredCommandSize \<equiv> 50"
abbreviation (input) kCommandsSnapshotSize :: nat where "kCommandsSnapshotSize \<equiv> 820"
abbreviation (input) kCommandRecordsOffset :: nat where "kCommandRecordsOffset \<equiv> 16"
abbreviation (input) kCommandsMagic :: bytes where "kCommandsMagic \<equiv> [0x52, 0x53, 0x43, 0x42]"
abbreviation (input) kFirstCommandNodeId :: u8 where "kFirstCommandNodeId \<equiv> 1"
abbreviation (input) kLastCommandNodeId :: u8 where "kLastCommandNodeId \<equiv> 99"

datatype CommandState = CommandPending | CommandCompleted | CommandStateRaw u8

fun commandStateValue :: "CommandState \<Rightarrow> u8" where
  "commandStateValue CommandPending = 1"
| "commandStateValue CommandCompleted = 2"
| "commandStateValue (CommandStateRaw raw) = raw"

definition commandStateOf :: "u8 \<Rightarrow> CommandState" where
  "commandStateOf raw = (if raw = 1 then CommandPending else if raw = 2 then CommandCompleted
     else CommandStateRaw raw)"

record CommandRecord =
  cm_deviceUid :: bytes
  cm_nodeId :: u8
  cm_commandId :: u16
  cm_type :: u8
  cm_argumentSize :: u8
  cm_arguments :: bytes
  cm_state :: CommandState
  cm_status :: CommandStatus
  cm_resultSize :: u8
  cm_result :: bytes
  cm_queuedAtUnixMs :: u64
  cm_completedAtUnixMs :: u64

record CommandBook =
  cb_nextCommandId :: u16
  cb_count :: u8
  cb_records :: "CommandRecord list"

text \<open>\<open>CommandRecord{}\<close> and \<open>CommandBook{}\<close>.\<close>

definition blankCommand :: CommandRecord where
  "blankCommand = \<lparr>cm_deviceUid = zeros kDeviceUidSize, cm_nodeId = 0, cm_commandId = 0, cm_type = 0,
     cm_argumentSize = 0, cm_arguments = zeros kMaxCommandArgumentSize,
     cm_state = CommandStateRaw 0, cm_status = Applied, cm_resultSize = 0,
     cm_result = zeros kMaxCommandResultDataSize, cm_queuedAtUnixMs = 0, cm_completedAtUnixMs = 0\<rparr>"

definition emptyBook :: CommandBook where
  "emptyBook = \<lparr>cb_nextCommandId = 0, cb_count = 0,
     cb_records = replicate kMaxCommandRecords blankCommand\<rparr>"

definition defaultCommandBook :: CommandBook where
  "defaultCommandBook = emptyBook\<lparr>cb_nextCommandId := 1\<rparr>"

definition validCommandRecord :: "CommandRecord \<Rightarrow> bool" where
  "validCommandRecord r =
     (if cm_nodeId r < kFirstCommandNodeId \<or> cm_nodeId r > kLastCommandNodeId \<or>
         cm_commandId r = 0 \<or>
         \<not> zeroPadded (cm_arguments r) (unat (cm_argumentSize r)) kMaxCommandArgumentSize \<or>
         \<not> zeroPadded (cm_result r) (unat (cm_resultSize r)) kMaxCommandResultDataSize \<or>
         \<not> validCommandArguments (cm_type r) (Some (cm_arguments r)) (unat (cm_argumentSize r))
      then False
      else case cm_state r of
        CommandPending \<Rightarrow>
          commandStatusValue (cm_status r) = 0 \<and> cm_resultSize r = 0 \<and> cm_completedAtUnixMs r = 0
      | CommandCompleted \<Rightarrow>
          validCommandStatus (commandStatusValue (cm_status r)) \<and> cm_status r \<noteq> StorageFailure \<and>
          unat (cm_resultSize r) = commandResultDataSize (commandTypeOf (cm_type r)) (cm_status r)
      | CommandStateRaw _ \<Rightarrow> False)"

text \<open>The body of the loop over the records in use.\<close>

definition checkCommand :: "CommandBook \<Rightarrow> nat \<Rightarrow> CodecStatus option" where
  "checkCommand v index =
     (if \<not> validCommandRecord (cb_records v ! index) then Some GS_InvalidValue
      else if list_ex (\<lambda>other. cm_nodeId (cb_records v ! other) = cm_nodeId (cb_records v ! index))
                [0..<index]
      then Some GS_DuplicateValue else None)"

definition validateCommandBook :: "CommandBook \<Rightarrow> CodecStatus option" where
  "validateCommandBook v =
     (if unat (cb_count v) > kMaxCommandRecords then Some GS_InvalidCount
      else if cb_nextCommandId v = 0 then Some GS_InvalidValue
      else firstError (checkCommand v) [0..<unat (cb_count v)])"

definition commandRecordsEqual :: "CommandRecord \<Rightarrow> CommandRecord \<Rightarrow> bool" where
  "commandRecordsEqual left right \<longleftrightarrow>
     cm_deviceUid left = cm_deviceUid right \<and>
     cm_nodeId left = cm_nodeId right \<and> cm_commandId left = cm_commandId right \<and>
     cm_type left = cm_type right \<and> cm_argumentSize left = cm_argumentSize right \<and>
     cm_arguments left = cm_arguments right \<and>
     cm_state left = cm_state right \<and> cm_status left = cm_status right \<and>
     cm_resultSize left = cm_resultSize right \<and>
     cm_result left = cm_result right \<and>
     cm_queuedAtUnixMs left = cm_queuedAtUnixMs right \<and>
     cm_completedAtUnixMs left = cm_completedAtUnixMs right"

definition commandBooksEqual :: "CommandBook \<Rightarrow> CommandBook \<Rightarrow> bool" where
  "commandBooksEqual left right =
     (if cb_nextCommandId left \<noteq> cb_nextCommandId right \<or> cb_count left \<noteq> cb_count right then False
      else list_all (\<lambda>index. commandRecordsEqual (cb_records left ! index) (cb_records right ! index))
             [0..<unat (cb_count left)])"

subsection \<open>The codec\<close>

definition putCommand :: "CommandRecord \<Rightarrow> bytes" where
  "putCommand record =
     (let stored = zeros kStoredCommandSize;
          stored = put stored 0 (cm_deviceUid record);
          stored = put stored 10 [cm_nodeId record];
          stored = put stored 11 (le16 (cm_commandId record));
          stored = put stored 13 [cm_type record];
          stored = put stored 14 [cm_argumentSize record];
          stored = put stored 15 (cm_arguments record);
          stored = put stored 23 [commandStateValue (cm_state record)];
          stored = put stored 24 [commandStatusValue (cm_status record)];
          stored = put stored 25 [cm_resultSize record];
          stored = put stored 26 (cm_result record);
          stored = put stored 34 (le64 (cm_queuedAtUnixMs record))
      in put stored 42 (le64 (cm_completedAtUnixMs record)))"

definition usedCommands :: "CommandBook \<Rightarrow> CommandRecord list" where
  "usedCommands v = take (unat (cb_count v)) (cb_records v)"

definition encodeCommandBook :: "CommandBook \<Rightarrow> u32 \<Rightarrow> buffer \<Rightarrow> CodecStatus + bytes" where
  "encodeCommandBook v generation output =
     (case output of
        None \<Rightarrow> Inl GS_OutputTooSmall
      | Some out \<Rightarrow>
          if length out < kCommandsSnapshotSize then Inl GS_OutputTooSmall
          else case validateCommandBook v of
            Some e \<Rightarrow> Inl e
          | None \<Rightarrow>
              let s = zeros kCommandsSnapshotSize;
                  s = writeHeader s kCommandsMagic generation (of_nat kCommandsSnapshotSize);
                  s = put s 12 [cb_count v];
                  s = put s 14 (le16 (cb_nextCommandId v));
                  s = putArray s kCommandRecordsOffset (map putCommand (usedCommands v));
                  s = put s (kCommandsSnapshotSize - kSnapshotCrcSize)
                        (le32 (crc32 (take (kCommandsSnapshotSize - kSnapshotCrcSize) s)))
              in Inr (written s out))"

definition getCommand :: "bytes \<Rightarrow> CommandRecord" where
  "getCommand stored =
     \<lparr>cm_deviceUid = chunk stored 0 kDeviceUidSize, cm_nodeId = stored ! 10,
      cm_commandId = get16 stored 11, cm_type = stored ! 13, cm_argumentSize = stored ! 14,
      cm_arguments = chunk stored 15 kMaxCommandArgumentSize,
      cm_state = commandStateOf (stored ! 23), cm_status = commandStatusOf (stored ! 24),
      cm_resultSize = stored ! 25, cm_result = chunk stored 26 kMaxCommandResultDataSize,
      cm_queuedAtUnixMs = get64 stored 34, cm_completedAtUnixMs = get64 stored 42\<rparr>"

definition decodeCommandBook :: "buffer \<Rightarrow> CodecStatus + CommandBook \<times> u32" where
  "decodeCommandBook buf =
     (case validateHeader buf kCommandsMagic kCommandsSnapshotSize of
        Inl e \<Rightarrow> Inl e
      | Inr generation \<Rightarrow>
          let data = the buf in
          if data ! 13 \<noteq> 0 then Inl GS_InvalidReservedData
          else
            let count' = data ! 12 in
            if unat count' > kMaxCommandRecords then Inl GS_InvalidCount
            else
              let records = map getCommand
                    (entries data kCommandRecordsOffset kStoredCommandSize 0 (unat count'));
                  candidate = \<lparr>cb_nextCommandId = get16 data 14, cb_count = count',
                    cb_records = records @ replicate (kMaxCommandRecords - unat count') blankCommand\<rparr>
              in if \<not> list_all allZero (entries data kCommandRecordsOffset kStoredCommandSize
                        (unat count') kMaxCommandRecords)
                 then Inl GS_InvalidReservedData
                 else case validateCommandBook candidate of
                        Some e \<Rightarrow> Inl e
                      | None \<Rightarrow> Inr (candidate, generation))"

definition commandsCodec :: "CommandBook slot_codec" where
  "commandsCodec = \<lparr>sc_SnapshotSize = kCommandsSnapshotSize, sc_Encode = encodeCommandBook,
     sc_Decode = decodeCommandBook, sc_Equal = commandBooksEqual,
     sc_DefaultValue = defaultCommandBook\<rparr>"

subsection \<open>Validity, record by record\<close>

definition commandShaped :: "CommandRecord \<Rightarrow> bool" where
  "commandShaped r \<longleftrightarrow> length (cm_deviceUid r) = kDeviceUidSize \<and>
     length (cm_arguments r) = kMaxCommandArgumentSize \<and>
     length (cm_result r) = kMaxCommandResultDataSize \<and>
     commandStatusOf (commandStatusValue (cm_status r)) = cm_status r"

text \<open>The last condition: a raw status stands for a byte that names no status.\<close>

definition bookShaped :: "CommandBook \<Rightarrow> bool" where
  "bookShaped v \<longleftrightarrow> length (cb_records v) = kMaxCommandRecords \<and> list_all commandShaped (cb_records v)"

lemma list_ex_upt: "list_ex P [0..<n] \<longleftrightarrow> (\<exists>i < n. P i)"
  by (auto simp: list_ex_iff)

lemma validateCommandBook_iff:
  assumes "bookShaped v"
  shows "validateCommandBook v = None \<longleftrightarrow>
    unat (cb_count v) \<le> kMaxCommandRecords \<and> cb_nextCommandId v \<noteq> 0 \<and>
    list_all validCommandRecord (usedCommands v) \<and> distinct (map cm_nodeId (usedCommands v))"
proof (cases "unat (cb_count v) \<le> 16")
  case True
  let ?n = "unat (cb_count v)"
  have len: "length (usedCommands v) = ?n" using True assms by (simp add: usedCommands_def bookShaped_def)
  have nth: "i < ?n \<Longrightarrow> usedCommands v ! i = cb_records v ! i" for i by (simp add: usedCommands_def)
  have "firstError (checkCommand v) [0..<?n] = None \<longleftrightarrow>
      (\<forall>i < ?n. validCommandRecord (cb_records v ! i)) \<and>
      (\<forall>i < ?n. \<forall>j < i. cm_nodeId (cb_records v ! j) \<noteq> cm_nodeId (cb_records v ! i))"
    by (auto simp: checkCommand_def list_ex_upt)
  moreover have "list_all validCommandRecord (usedCommands v) \<longleftrightarrow>
      (\<forall>i < ?n. validCommandRecord (cb_records v ! i))"
    by (simp add: list_all_length len nth)
  moreover have "distinct (map cm_nodeId (usedCommands v)) \<longleftrightarrow>
      (\<forall>i < ?n. \<forall>j < i. cm_nodeId (cb_records v ! j) \<noteq> cm_nodeId (cb_records v ! i))"
    by (simp add: distinct_earlier len nth)
  ultimately show ?thesis using True by (simp add: validateCommandBook_def)
qed (simp add: validateCommandBook_def)

lemma commandBooksEqual_iff:
  assumes "bookShaped v" "bookShaped w" "unat (cb_count v) \<le> kMaxCommandRecords"
  shows "commandBooksEqual v w \<longleftrightarrow> cb_nextCommandId v = cb_nextCommandId w \<and>
    cb_count v = cb_count w \<and> usedCommands v = usedCommands w"
proof -
  have "commandRecordsEqual a b \<longleftrightarrow> a = b" for a b
    by (cases a; cases b) (auto simp: commandRecordsEqual_def)
  then show ?thesis
    using assms
    by (auto simp: commandBooksEqual_def usedCommands_def bookShaped_def list_all_iff list_eq_iff_nth_eq)
qed

subsection \<open>Round trips\<close>

lemma putCommand_image:
  assumes "commandShaped r"
  shows "putCommand r = cm_deviceUid r @ [cm_nodeId r] @ le16 (cm_commandId r) @
    [cm_type r, cm_argumentSize r] @ cm_arguments r @ [commandStateValue (cm_state r),
     commandStatusValue (cm_status r), cm_resultSize r] @ cm_result r @
    le64 (cm_queuedAtUnixMs r) @ le64 (cm_completedAtUnixMs r)" (is "_ = ?image")
proof -
  have "putCommand r = written ?image (zeros 50)"
    using assms by (simp add: putCommand_def commandShaped_def Let_def put_start put_written)
  also have "\<dots> = ?image" using assms by (intro written_full) (simp add: commandShaped_def)
  finally show ?thesis .
qed

lemma length_putCommand: "commandShaped r \<Longrightarrow> length (putCommand r) = 50"
  by (simp add: putCommand_image) (simp add: commandShaped_def)

lemma validCommand_state:
  "validCommandRecord r \<Longrightarrow> commandStateOf (commandStateValue (cm_state r)) = cm_state r"
  by (auto simp: validCommandRecord_def commandStateOf_def split: if_splits CommandState.splits)

lemma getCommand_putCommand:
  assumes "commandShaped r" "validCommandRecord r"
  shows "getCommand (putCommand r) = r"
  using assms(1) validCommand_state [OF assms(2)]
  by (simp add: getCommand_def putCommand_image layout_simps)
     (simp add: commandShaped_def layout_simps)

definition bookBody :: "CommandBook \<Rightarrow> bytes" where
  "bookBody v = ([cb_count v, 0] @ le16 (cb_nextCommandId v)) @ concat (map putCommand (usedCommands v)) @
     zeros ((kMaxCommandRecords - unat (cb_count v)) * kStoredCommandSize)"

lemma book_facts:
  assumes "bookShaped v" "unat (cb_count v) \<le> kMaxCommandRecords"
  shows "length (usedCommands v) = unat (cb_count v)" "list_all commandShaped (usedCommands v)"
    "list_all (\<lambda>x. length x = 50) (map putCommand (usedCommands v))"
    "length (concat (map putCommand (usedCommands v))) = unat (cb_count v) * 50"
    "length (bookBody v) = 804"
proof -
  show n: "length (usedCommands v) = unat (cb_count v)"
    using assms by (simp add: usedCommands_def bookShaped_def)
  show sh: "list_all commandShaped (usedCommands v)"
    using assms by (auto simp: usedCommands_def bookShaped_def list_all_iff dest: in_set_takeD)
  then show l: "list_all (\<lambda>x. length x = 50) (map putCommand (usedCommands v))"
    by (auto simp: list_all_iff length_putCommand)
  show c: "length (concat (map putCommand (usedCommands v))) = unat (cb_count v) * 50"
    using length_concat_entries [OF l] n by simp
  have "unat (cb_count v) * 50 + (16 - unat (cb_count v)) * 50 = 800"
    using assms(2) by (simp add: add_mult_distrib [symmetric])
  then show "length (bookBody v) = 804" by (simp add: bookBody_def c)
qed

lemma encodeCommandBook_bytes:
  assumes "bookShaped v" "validateCommandBook v = None" "820 \<le> length out"
  shows "encodeCommandBook v g (Some out) = Inr (written (snapshotBytes kCommandsMagic g (bookBody v)) out)"
proof -
  have le: "unat (cb_count v) \<le> 16" using assms by (simp add: validateCommandBook_iff)
  note f = book_facts [OF assms(1) le]
  let ?h = "headerImage kCommandsMagic g (of_nat 820)"
  let ?a = "?h @ [cb_count v, 0] @ le16 (cb_nextCommandId v)"
  let ?c = "concat (map putCommand (usedCommands v))"
  have "put (put (writeHeader (zeros 820) kCommandsMagic g (of_nat 820)) 12 [cb_count v])
      14 (le16 (cb_nextCommandId v)) = written ?a (zeros 820)"
    by (simp add: writeHeader_image put_written put_zeros length_headerImage)
  moreover have "putArray (written ?a (zeros 820)) 16 (map putCommand (usedCommands v)) =
      written (?a @ ?c) (zeros 820)"
    by (rule putArray_written) (simp add: length_headerImage)
  moreover have "written (?a @ ?c) (zeros 820) = written (?h @ bookBody v) (zeros 820)"
  proof -
    have "written (?a @ ?c) (zeros 820) =
        written ((?a @ ?c) @ zeros ((16 - unat (cb_count v)) * 50)) (zeros 820)"
      using f(5) by (intro written_zeros) (simp add: bookBody_def length_headerImage)
    then show ?thesis by (simp add: bookBody_def)
  qed
  moreover have "put (written (?h @ bookBody v) (zeros 820)) 816
      (le32 (crc32 (take 816 (written (?h @ bookBody v) (zeros 820))))) =
      snapshotBytes kCommandsMagic g (bookBody v)"
    using seal_written [of kCommandsMagic 820 "bookBody v" g] f(5) by simp
  ultimately show ?thesis
    using assms(2,3) unfolding encodeCommandBook_def Let_def by simp
qed

text \<open>What a decoded book is: the records in use, the others blank.\<close>

definition trimBook :: "CommandBook \<Rightarrow> CommandBook" where
  "trimBook v = v\<lparr>cb_records := usedCommands v @
     replicate (kMaxCommandRecords - unat (cb_count v)) blankCommand\<rparr>"

lemma commandShaped_blank: "commandShaped blankCommand"
  by (simp add: commandShaped_def blankCommand_def commandStatusOf_def)

lemma trimBook_facts:
  assumes "bookShaped v" "unat (cb_count v) \<le> kMaxCommandRecords"
  shows "bookShaped (trimBook v)" "usedCommands (trimBook v) = usedCommands v"
    "commandBooksEqual (trimBook v) v" "validateCommandBook (trimBook v) = validateCommandBook v"
proof -
  note f = book_facts [OF assms]
  show sh: "bookShaped (trimBook v)"
    using f(1,2) assms(2)
    by (auto simp: bookShaped_def trimBook_def list_all_iff commandShaped_blank)
  show u: "usedCommands (trimBook v) = usedCommands v"
    using f(1) by (simp add: usedCommands_def trimBook_def)
  show "commandBooksEqual (trimBook v) v"
    using commandBooksEqual_iff [OF sh assms(1)] u assms(2) by (simp add: trimBook_def)
  have nth: "cb_records (trimBook v) ! i = cb_records v ! i" if "i < unat (cb_count v)" for i
    using that f(1) by (simp add: trimBook_def usedCommands_def nth_append)
  have "checkCommand (trimBook v) i = checkCommand v i" if "i < unat (cb_count v)" for i
    using that nth by (auto simp: checkCommand_def list_ex_upt)
  then have "firstError (checkCommand (trimBook v)) [0..<unat (cb_count v)] =
      firstError (checkCommand v) [0..<unat (cb_count v)]"
    by (intro firstError_cong) auto
  then show "validateCommandBook (trimBook v) = validateCommandBook v"
    by (simp add: validateCommandBook_def, simp add: trimBook_def)
qed

lemma decodeCommandBook_bytes:
  assumes "bookShaped v" "validateCommandBook v = None"
  shows "decodeCommandBook (Some (snapshotBytes kCommandsMagic g (bookBody v))) = Inr (trimBook v, g)"
proof -
  let ?n = "unat (cb_count v)" and ?d = "snapshotBytes kCommandsMagic g (bookBody v)"
  have valid: "?n \<le> 16" "list_all validCommandRecord (usedCommands v)"
    using assms by (simp_all add: validateCommandBook_iff)
  note f = book_facts [OF assms(1) valid(1)] and t = trimBook_facts [OF assms(1) valid(1)]
  have head: "validateHeader (Some ?d) kCommandsMagic 820 = Inr g"
    by (rule validateHeader_snapshot) (simp_all add: f(5))
  have fields: "?d ! 12 = cb_count v" "?d ! 13 = 0" "get16 ?d 14 = cb_nextCommandId v"
    by (simp_all add: body_simps f(5), simp_all add: bookBody_def layout_simps)
  have recs: "entries ?d 16 50 0 ?n = map putCommand (usedCommands v)"
    by (rule entries_snapshot [where pre = "[cb_count v, 0] @ le16 (cb_nextCommandId v)"
          and post = "zeros ((16 - ?n) * 50)"])
       (use f(1,3) in \<open>simp_all add: bookBody_def\<close>)
  have blank: "list_all allZero (entries ?d 16 50 ?n 16)"
    by (rule entries_snapshot_zero [where m = "16 - ?n" and post = "[]" and
          pre = "[cb_count v, 0] @ le16 (cb_nextCommandId v) @ concat (map putCommand (usedCommands v))"])
       (use f(4) valid(1) in \<open>simp_all add: bookBody_def\<close>)
  have gets: "map getCommand (map putCommand (usedCommands v)) = usedCommands v"
    using f(2) valid(2) by (auto simp: list_all_iff getCommand_putCommand intro!: map_idI)
  have whole: "\<lparr>cb_nextCommandId = cb_nextCommandId v, cb_count = cb_count v,
      cb_records = usedCommands v @ replicate (16 - ?n) blankCommand\<rparr> = trimBook v"
    by (simp add: trimBook_def)
  show ?thesis
    unfolding decodeCommandBook_def head Let_def option.sel sum.case fields recs gets whole
    using valid(1) blank t(4) assms(2) by simp
qed

lemma decodeCommandBook_valid:
  "decodeCommandBook (Some d) = Inr (v, g) \<Longrightarrow> validateCommandBook v = None"
  by (auto simp: decodeCommandBook_def Let_def split: sum.splits option.splits if_splits)

interpretation commands: snapshot_codec commandsCodec bookShaped
proof
  fix v :: CommandBook and g d
  assume sh: "bookShaped v"
    and enc: "sc_Encode commandsCodec v g (Some (zeros (sc_SnapshotSize commandsCodec))) = Inr d"
  then have valid: "validateCommandBook v = None"
    by (auto simp: commandsCodec_def encodeCommandBook_def split: option.splits if_splits)
  then have le: "unat (cb_count v) \<le> 16" using sh by (simp add: validateCommandBook_iff)
  have "d = snapshotBytes kCommandsMagic g (bookBody v)"
    using enc encodeCommandBook_bytes [OF sh valid, of "zeros 820" g] book_facts(5) [OF sh le]
    by (simp add: commandsCodec_def written_full)
  then show "d \<noteq> [] \<and> length d \<le> sc_SnapshotSize commandsCodec \<and>
      (\<exists>w. sc_Decode commandsCodec (Some d) = Inr (w, g) \<and> sc_Equal commandsCodec w v)"
    using decodeCommandBook_bytes [OF sh valid, of g] book_facts(5) [OF sh le] trimBook_facts(3) [OF sh le]
    by (auto simp: commandsCodec_def simp flip: length_0_conv)
next
  show "sc_Equal commandsCodec w w" if "sc_Decode commandsCodec (Some d) = Inr (w, g)" for w d g
    by (simp add: commandsCodec_def commandBooksEqual_def commandRecordsEqual_def list_all_iff)
qed

end
