(* ===== verification/Command_Book.thy ===== *)
theory Command_Book
  imports Command_Storage
begin

text \<open>
  shared/RadioProtocol: CommandBook.h and CommandBook.cpp, the operations on the command book.
  A book passed by reference is returned; \<open>queue\<close> returns, with the book, \<open>Inl\<close> the failing
  status or \<open>Inr\<close> the identifier of the queued command.
\<close>

datatype QueueStatus = QueueBusy | QueueInvalidNode | QueueInvalidArguments | QueueCapacityReached

datatype CompleteStatus = CompleteDone | CompleteRetry | CompleteNotPending | CompleteInvalidResult

subsection \<open>Operations\<close>

definition indexOf :: "CommandBook \<Rightarrow> u8 \<Rightarrow> nat option" where
  "indexOf book nodeId = firstIndex (\<lambda>r. cm_nodeId r = nodeId) (usedCommands book)"

definition erase :: "CommandBook \<Rightarrow> nat \<Rightarrow> CommandBook" where
  "erase book index =
     (let records = shiftDown (cb_records book) index (unat (cb_count book));
          remaining = cb_count book - 1
      in book\<lparr>cb_count := remaining, cb_records := records[unat remaining := blankCommand]\<rparr>)"

definition sameUid :: "CommandRecord \<Rightarrow> bytes \<Rightarrow> bool" where
  "sameUid record deviceUid \<longleftrightarrow> cm_deviceUid record = take kDeviceUidSize deviceUid"

definition findCommand :: "CommandBook \<Rightarrow> u8 \<Rightarrow> CommandRecord option" where
  "findCommand book nodeId =
     (case indexOf book nodeId of None \<Rightarrow> None | Some index \<Rightarrow> Some (cb_records book ! index))"

text \<open>The tail of \<open>queue\<close>: the new record at the end of the book.\<close>

definition queuedRecord :: "u16 \<Rightarrow> bytes \<Rightarrow> u8 \<Rightarrow> u8 \<Rightarrow> buffer \<Rightarrow> nat \<Rightarrow> u64 \<Rightarrow> CommandRecord" where
  "queuedRecord commandId deviceUid nodeId type arguments argumentSize nowUnixMs =
     blankCommand\<lparr>cm_deviceUid := take kDeviceUidSize deviceUid, cm_nodeId := nodeId,
       cm_commandId := commandId, cm_type := type, cm_argumentSize := of_nat argumentSize,
       cm_arguments := (case arguments of None \<Rightarrow> cm_arguments blankCommand
         | Some bs \<Rightarrow> put (cm_arguments blankCommand) 0 (take argumentSize bs)),
       cm_state := CommandPending, cm_queuedAtUnixMs := nowUnixMs\<rparr>"

definition appendCommand :: "CommandBook \<Rightarrow> (u16 \<Rightarrow> CommandRecord) \<Rightarrow> CommandBook \<times> (QueueStatus + u16)" where
  "appendCommand book mk =
     (let commandId = cb_nextCommandId book in
      (book\<lparr>cb_records := (cb_records book)[unat (cb_count book) := mk commandId],
            cb_count := cb_count book + 1,
            cb_nextCommandId := (if cb_nextCommandId book = 0xFFFF then 1
                                 else cb_nextCommandId book + 1)\<rparr>, Inr commandId))"

definition queue ::
  "CommandBook \<Rightarrow> buffer \<Rightarrow> u8 \<Rightarrow> u8 \<Rightarrow> buffer \<Rightarrow> nat \<Rightarrow> u64 \<Rightarrow> CommandBook \<times> (QueueStatus + u16)" where
  "queue book deviceUid nodeId type arguments argumentSize nowUnixMs =
     (case deviceUid of
        None \<Rightarrow> (book, Inl QueueInvalidNode)
      | Some uid \<Rightarrow>
          if nodeId < kFirstCommandNodeId \<or> nodeId > kLastCommandNodeId
          then (book, Inl QueueInvalidNode)
          else if \<not> validCommandArguments type arguments argumentSize
          then (book, Inl QueueInvalidArguments)
          else
            let existing = indexOf book nodeId;
                busy = (case existing of None \<Rightarrow> False
                  | Some i \<Rightarrow> cm_state (cb_records book ! i) = CommandPending \<and>
                      sameUid (cb_records book ! i) uid)
            in if busy then (book, Inl QueueBusy)
               else
                 let book = (case existing of None \<Rightarrow> book | Some i \<Rightarrow> erase book i);
                     mk = (\<lambda>commandId. queuedRecord commandId uid nodeId type arguments argumentSize nowUnixMs)
                 in if unat (cb_count book) = kMaxCommandRecords
                    then case firstIndex (\<lambda>r. cm_state r = CommandCompleted) (usedCommands book) of
                           None \<Rightarrow> (book, Inl QueueCapacityReached)
                         | Some oldest \<Rightarrow> appendCommand (erase book oldest) mk
                    else appendCommand book mk)"

definition complete ::
  "CommandBook \<Rightarrow> buffer \<Rightarrow> u8 \<Rightarrow> u16 \<Rightarrow> CommandStatus \<Rightarrow> buffer \<Rightarrow> nat \<Rightarrow> u64 \<Rightarrow> CommandBook \<times> CompleteStatus" where
  "complete book deviceUid nodeId commandId status data dataSize nowUnixMs =
     (case (indexOf book nodeId, deviceUid) of
        (Some index, Some uid) \<Rightarrow>
          let record = cb_records book ! index in
          if cm_state record \<noteq> CommandPending \<or> cm_commandId record \<noteq> commandId \<or> \<not> sameUid record uid
          then (book, CompleteNotPending)
          else if \<not> validCommandStatus (commandStatusValue status) then (book, CompleteInvalidResult)
          else if status = StorageFailure then (book, CompleteRetry)
          else
            let expected = commandResultDataSize (commandTypeOf (cm_type record)) status in
            if dataSize \<noteq> expected \<or> (dataSize \<noteq> 0 \<and> data = None) then (book, CompleteInvalidResult)
            else
              let record = record\<lparr>cm_state := CommandCompleted, cm_status := status,
                    cm_resultSize := of_nat dataSize,
                    cm_result := (if dataSize \<noteq> 0 then put (cm_result record) 0 (take dataSize (the data))
                                  else cm_result record),
                    cm_completedAtUnixMs := nowUnixMs\<rparr>
              in (book\<lparr>cb_records := (cb_records book)[index := record]\<rparr>, CompleteDone)
      | _ \<Rightarrow> (book, CompleteNotPending))"

definition cancel :: "CommandBook \<Rightarrow> u8 \<Rightarrow> CommandBook \<times> bool" where
  "cancel book nodeId =
     (case indexOf book nodeId of
        None \<Rightarrow> (book, False)
      | Some index \<Rightarrow>
          if cm_state (cb_records book ! index) \<noteq> CommandPending then (book, False)
          else (erase book index, True))"

definition removeNodeCommand :: "CommandBook \<Rightarrow> u8 \<Rightarrow> CommandBook \<times> bool" where
  "removeNodeCommand book nodeId =
     (case indexOf book nodeId of None \<Rightarrow> (book, False) | Some index \<Rightarrow> (erase book index, True))"

definition clearCommands :: "CommandBook \<Rightarrow> CommandBook" where
  "clearCommands book = emptyBook\<lparr>cb_nextCommandId := cb_nextCommandId book\<rparr>"

subsection \<open>The book as a list of commands\<close>

definition bookOk :: "CommandBook \<Rightarrow> bool" where
  "bookOk book \<longleftrightarrow> bookShaped book \<and> validateCommandBook book = None"

lemma bookOk_iff:
  "bookOk book \<longleftrightarrow> bookShaped book \<and> unat (cb_count book) \<le> 16 \<and> cb_nextCommandId book \<noteq> 0 \<and>
     list_all validCommandRecord (usedCommands book) \<and> distinct (map cm_nodeId (usedCommands book))"
  by (auto simp: bookOk_def validateCommandBook_iff)

lemma bookOk_length: "bookOk book \<Longrightarrow> length (usedCommands book) = unat (cb_count book)"
  by (simp add: bookOk_iff book_facts(1))

lemma list_all_replicate: "P x \<Longrightarrow> list_all P (replicate n x)"
  by (simp add: list_all_length)

lemma bookOk_default: "bookOk defaultCommandBook"
  by (simp add: bookOk_iff defaultCommandBook_def emptyBook_def bookShaped_def usedCommands_def
      commandShaped_blank list_all_replicate)

text \<open>An index the search returns is one of a record in use.\<close>

lemma indexOf_Some:
  assumes "bookOk book" "indexOf book nodeId = Some i"
  shows "i < unat (cb_count book)" "usedCommands book ! i = cb_records book ! i"
    "cm_nodeId (cb_records book ! i) = nodeId" "findCommand book nodeId = Some (usedCommands book ! i)"
proof -
  have "i < length (usedCommands book) \<and> cm_nodeId (usedCommands book ! i) = nodeId"
    using assms(2) firstIndex_SomeD unfolding indexOf_def by fastforce
  then show *: "i < unat (cb_count book)" "usedCommands book ! i = cb_records book ! i"
    "cm_nodeId (cb_records book ! i) = nodeId"
    using bookOk_length [OF assms(1)] by (auto simp: usedCommands_def)
  show "findCommand book nodeId = Some (usedCommands book ! i)"
    using * assms(2) by (simp add: findCommand_def)
qed

lemma findCommand_None: "findCommand book n = None \<longleftrightarrow> indexOf book n = None"
  by (simp add: findCommand_def split: option.splits)

lemma findCommand_iff:
  assumes "bookOk book"
  shows "findCommand book n = Some r \<longleftrightarrow> r \<in> set (usedCommands book) \<and> cm_nodeId r = n"
proof
  assume f: "findCommand book n = Some r"
  then obtain i where i: "indexOf book n = Some i" by (auto simp: findCommand_def split: option.splits)
  note d = indexOf_Some [OF assms i]
  have "usedCommands book ! i \<in> set (usedCommands book)"
    using d(1) bookOk_length [OF assms] by (intro nth_mem) simp
  then show "r \<in> set (usedCommands book) \<and> cm_nodeId r = n" using f d by simp
next
  assume r: "r \<in> set (usedCommands book) \<and> cm_nodeId r = n"
  then obtain i where i: "indexOf book n = Some i"
    by (cases "indexOf book n") (auto simp: indexOf_def firstIndex_None_iff)
  note d = indexOf_Some [OF assms i]
  obtain k where k: "k < length (usedCommands book)" "usedCommands book ! k = r"
    using r by (auto simp: in_set_conv_nth)
  have "distinct (map cm_nodeId (usedCommands book))" using assms by (simp add: bookOk_iff)
  moreover have "map cm_nodeId (usedCommands book) ! k = map cm_nodeId (usedCommands book) ! i"
    using k d r bookOk_length [OF assms] by simp
  ultimately have "k = i"
    using nth_eq_iff_index_eq [of "map cm_nodeId (usedCommands book)" k i] k(1) d(1)
      bookOk_length [OF assms] by (simp del: nth_map)
  then show "findCommand book n = Some r" using d k by simp
qed

text \<open>Two valid books hold the same command for a node when they hold the same commands of it.\<close>

lemma findCommand_cong:
  assumes "bookOk b" "bookOk b'"
    and "\<And>r. cm_nodeId r = n \<Longrightarrow> r \<in> set (usedCommands b') \<longleftrightarrow> r \<in> set (usedCommands b)"
  shows "findCommand b' n = findCommand b n"
proof (cases "findCommand b n")
  case (Some r)
  then show ?thesis using assms findCommand_iff [OF assms(1)] findCommand_iff [OF assms(2)] by metis
next
  case None
  then show ?thesis
    using assms(3) findCommand_iff [OF assms(1)] findCommand_iff [OF assms(2)]
    by (metis option.exhaust)
qed

subsection \<open>Erasing a record\<close>

lemma usedCommands_erase:
  assumes "bookOk book" "i < unat (cb_count book)"
  shows "usedCommands (erase book i) = take i (usedCommands book) @ drop (Suc i) (usedCommands book)"
    "bookShaped (erase book i)" "unat (cb_count (erase book i)) = unat (cb_count book) - 1"
    "cb_nextCommandId (erase book i) = cb_nextCommandId book"
proof -
  have b: "bookShaped book" "unat (cb_count book) \<le> 16" "length (cb_records book) = 16"
    using assms(1) by (auto simp: bookOk_iff bookShaped_def)
  have c: "unat (cb_count book - 1) = unat (cb_count book) - 1"
    by (rule unat_minus_one) (use assms(2) in auto)
  note e = shiftDown_eq [of i "unat (cb_count book)" "cb_records book"]
  obtain k where k: "unat (cb_count book) = Suc (i + k)" using assms(2) less_iff_Suc_add by auto
  show "usedCommands (erase book i) = take i (usedCommands book) @ drop (Suc i) (usedCommands book)"
    using b c e k
    by (simp add: usedCommands_def erase_def Let_def drop_take min_def) arith
  have "list_all commandShaped (shiftDown (cb_records book) i (unat (cb_count book)))"
    using assms(2) b e
    by (auto simp: bookShaped_def list_all_iff dest!: in_set_takeD in_set_dropD)
  moreover have "length (shiftDown (cb_records book) i (unat (cb_count book))) = 16"
    using assms(2) b e by simp
  ultimately show "bookShaped (erase book i)"
    by (auto simp: bookShaped_def erase_def Let_def list_all_iff commandShaped_blank
        dest!: set_update_subset_insert [THEN subsetD])
  show "unat (cb_count (erase book i)) = unat (cb_count book) - 1"
    "cb_nextCommandId (erase book i) = cb_nextCommandId book"
    using c by (simp_all add: erase_def Let_def)
qed

lemma erase_ok:
  assumes "bookOk book" "i < unat (cb_count book)"
  shows "bookOk (erase book i)"
    "set (usedCommands (erase book i)) = set (usedCommands book) - {usedCommands book ! i}"
proof -
  let ?u = "usedCommands book"
  note u = usedCommands_erase [OF assms]
  have i: "i < length ?u" using assms bookOk_length by simp
  have split: "?u = take i ?u @ ?u ! i # drop (Suc i) ?u" using i by (rule id_take_nth_drop)
  have d: "distinct (map cm_nodeId ?u)" "list_all validCommandRecord ?u"
    using assms(1) by (simp_all add: bookOk_iff)
  have "distinct (map cm_nodeId (take i ?u @ drop (Suc i) ?u))"
    using d(1) by (subst (asm) split) simp
  moreover have "list_all validCommandRecord (take i ?u @ drop (Suc i) ?u)"
    using d(2) by (subst (asm) split) simp
  ultimately show "bookOk (erase book i)"
    using u assms by (auto simp: bookOk_iff)
  have "distinct ?u" using d(1) by (simp add: distinct_map)
  then have "set (take i ?u @ drop (Suc i) ?u) = set ?u - {?u ! i}"
    by (subst (asm) split, subst (3) split) auto
  then show "set (usedCommands (erase book i)) = set ?u - {?u ! i}" using u(1) by simp
qed

subsection \<open>Appending a record\<close>

lemma appendCommand_ok:
  assumes "bookOk book" "unat (cb_count book) < 16" "nodeId \<notin> set (map cm_nodeId (usedCommands book))"
    and r: "r = mk (cb_nextCommandId book)" "commandShaped r" "validCommandRecord r" "cm_nodeId r = nodeId"
    and app: "appendCommand book mk = (book', res)"
  shows "res = Inr (cb_nextCommandId book)" "bookOk book'" "usedCommands book' = usedCommands book @ [r]"
    "cb_nextCommandId book' \<noteq> 0"
proof -
  let ?n = "unat (cb_count book)"
  have b: "bookShaped book" "length (cb_records book) = 16" "cb_nextCommandId book \<noteq> 0"
    "list_all validCommandRecord (usedCommands book)" "distinct (map cm_nodeId (usedCommands book))"
    using assms(1) by (auto simp: bookOk_iff bookShaped_def)
  have c: "unat (cb_count book + 1) = Suc ?n" using assms(2) by (simp add: unat_word_ariths)
  have eq: "book' = book\<lparr>cb_records := (cb_records book)[?n := r], cb_count := cb_count book + 1,
      cb_nextCommandId := (if cb_nextCommandId book = 0xFFFF then 1 else cb_nextCommandId book + 1)\<rparr>"
    "res = Inr (cb_nextCommandId book)"
    using app r(1) by (auto simp: appendCommand_def Let_def)
  show "res = Inr (cb_nextCommandId book)" by (rule eq(2))
  show used: "usedCommands book' = usedCommands book @ [r]"
    using c b(2) assms(2) by (simp add: eq usedCommands_def take_Suc_conv_app_nth)
  show next0: "cb_nextCommandId book' \<noteq> 0"
  proof (cases "cb_nextCommandId book = 0xFFFF")
    case False
    have "cb_nextCommandId book + 1 \<noteq> 0"
    proof
      assume "cb_nextCommandId book + 1 = 0"
      then have "cb_nextCommandId book + 1 = 0xFFFF + 1" by simp
      with False show False by (metis add_right_cancel)
    qed
    then show ?thesis using False by (simp add: eq)
  qed (simp add: eq)
  have "bookShaped book'"
    using b(1) r(2) by (auto simp: eq bookShaped_def list_all_iff dest!: set_update_subset_insert [THEN subsetD])
  moreover have "unat (cb_count book') \<le> 16" using c assms(2) by (simp add: eq)
  moreover have "list_all validCommandRecord (usedCommands book')"
    "distinct (map cm_nodeId (usedCommands book'))"
    using b(4,5) r(3,4) assms(3) by (auto simp: used)
  ultimately show "bookOk book'" using next0 by (simp add: bookOk_iff)
qed

lemma zeroPadded_put:
  "n \<le> c \<Longrightarrow> length bs = n \<Longrightarrow> zeroPadded (put (zeros c) 0 bs) n c"
  by (simp add: zeroPadded_def put_def chunk_def)

lemma queuedRecord_ok:
  assumes "validCommandArguments type arguments n" "\<And>bs. arguments = Some bs \<Longrightarrow> n \<le> length bs"
    and "10 \<le> length uid" "commandId \<noteq> 0" "1 \<le> nodeId" "nodeId \<le> 99"
  shows "commandShaped (queuedRecord commandId uid nodeId type arguments n now)"
    "validCommandRecord (queuedRecord commandId uid nodeId type arguments n now)"
proof -
  have n: "n \<le> 8" "arguments = None \<Longrightarrow> n = 0"
    using assms(1) by (auto simp: validCommandArguments_def commandArgumentSize_def split: option.splits CommandType.splits)
  have un: "unat (of_nat n :: u8) = n" using n(1) by (intro unat_of_nat_u8) simp
  let ?args = "case arguments of None \<Rightarrow> zeros 8 | Some bs \<Rightarrow> put (zeros 8) 0 (take n bs)"
  have blank: "cm_arguments blankCommand = zeros 8" by (simp add: blankCommand_def)
  have len: "length ?args = 8" and pad: "zeroPadded ?args n 8"
    using n assms(2) zeroPadded_put [of n 8]
    by (auto split: option.splits simp: zeroPadded_def chunk_def)
  have args: "validCommandArguments type (Some ?args) n"
    using assms(1) by (auto simp: validCommandArguments_def split: option.splits)
  show "commandShaped (queuedRecord commandId uid nodeId type arguments n now)"
    unfolding commandShaped_def queuedRecord_def blank using len assms(3)
    by (simp add: blankCommand_def commandStatusOf_def)
  show "validCommandRecord (queuedRecord commandId uid nodeId type arguments n now)"
    unfolding validCommandRecord_def queuedRecord_def blank using un pad args assms(4-6)
    by (simp add: blankCommand_def zeroPadded_def chunk_def word_le_nat_alt word_less_nat_alt)
qed

subsection \<open>The operations on valid books\<close>

text \<open>What the callers pass: pointers to a whole UID and to as many bytes as they say.\<close>

definition queueInput :: "buffer \<Rightarrow> buffer \<Rightarrow> nat \<Rightarrow> bool" where
  "queueInput deviceUid arguments n \<longleftrightarrow> (\<forall>uid. deviceUid = Some uid \<longrightarrow> kDeviceUidSize \<le> length uid) \<and>
     (\<forall>bs. arguments = Some bs \<longrightarrow> n \<le> length bs)"

lemma firstIndex_used:
  assumes "bookOk book" "firstIndex P (usedCommands book) = Some i"
  shows "i < unat (cb_count book)" "P (usedCommands book ! i)"
  using firstIndex_SomeD [OF assms(2)] bookOk_length [OF assms(1)] by auto

text \<open>The state before the append: every command of another node is still there, but for a
  completed one when the book was full.\<close>

definition keepsOthers :: "CommandBook \<Rightarrow> CommandBook \<Rightarrow> u8 \<Rightarrow> bool" where
  "keepsOthers b b' nodeId \<longleftrightarrow>
     (\<forall>n. n \<noteq> nodeId \<longrightarrow> findCommand b' n = findCommand b n \<or>
       (findCommand b' n = None \<and> cb_count b = 16 \<and>
        (\<exists>r. findCommand b n = Some r \<and> cm_state r = CommandCompleted)))"

lemma appended_find:
  assumes "bookOk b0" "bookOk b'" "usedCommands b' = usedCommands b0 @ [r]"
  shows "findCommand b' n = (if n = cm_nodeId r then Some r else findCommand b0 n)"
proof (cases "n = cm_nodeId r")
  case True then show ?thesis using findCommand_iff [OF assms(2), of n r] assms(3) by simp
next
  case False
  then have "findCommand b' n = findCommand b0 n"
    by (intro findCommand_cong [OF assms(1,2)]) (auto simp: assms(3))
  with False show ?thesis by simp
qed

lemma erased_find:
  assumes "bookOk b" "i < unat (cb_count b)"
  shows "findCommand (erase b i) n = (if n = cm_nodeId (usedCommands b ! i) then None else findCommand b n)"
proof (cases "n = cm_nodeId (usedCommands b ! i)")
  case True
  note e = erase_ok [OF assms]
  have "findCommand (erase b i) n \<noteq> Some r" for r
  proof
    assume "findCommand (erase b i) n = Some r"
    then have r: "r \<in> set (usedCommands b)" "r \<noteq> usedCommands b ! i" "cm_nodeId r = n"
      using findCommand_iff [OF e(1)] e(2) by auto
    have "usedCommands b ! i \<in> set (usedCommands b)"
      using assms bookOk_length by simp
    then have "findCommand b n = Some (usedCommands b ! i)" "findCommand b n = Some r"
      using r True findCommand_iff [OF assms(1)] by auto
    with r(2) show False by simp
  qed
  with True show ?thesis by (cases "findCommand (erase b i) n") auto
next
  case False
  then have "findCommand (erase b i) n = findCommand b n"
    using erase_ok [OF assms] by (intro findCommand_cong [OF assms(1)]) auto
  with False show ?thesis by simp
qed

lemma notin_used: "bookOk b \<Longrightarrow> findCommand b n = None \<longleftrightarrow> n \<notin> set (map cm_nodeId (usedCommands b))"
  by (metis findCommand_iff in_set_conv_nth length_map list.set_map image_iff not_Some_eq)

text \<open>Making room: the own record goes, then, in a full book, the oldest completed one.\<close>

lemma queue_append:
  assumes ok: "bookOk b0" and free: "findCommand b0 nodeId = None" and in_: "queueInput (Some uid) arguments n"
    and args: "validCommandArguments type arguments n" "1 \<le> nodeId" "nodeId \<le> 99"
    and room: "unat (cb_count b0) < 16"
    and q: "appendCommand b0 (\<lambda>c. queuedRecord c uid nodeId type arguments n now) = (b', res)"
  shows "res = Inr (cb_nextCommandId b0) \<and> bookOk b' \<and>
    (\<forall>m. findCommand b' m = (if m = nodeId
       then Some (queuedRecord (cb_nextCommandId b0) uid nodeId type arguments n now)
       else findCommand b0 m))"
proof -
  let ?r = "queuedRecord (cb_nextCommandId b0) uid nodeId type arguments n now"
  have "cb_nextCommandId b0 \<noteq> 0" using ok by (simp add: bookOk_iff)
  then have r: "commandShaped ?r" "validCommandRecord ?r"
    using queuedRecord_ok [OF args(1) _ _ _ args(2,3)] in_ by (auto simp: queueInput_def)
  have id: "cm_nodeId ?r = nodeId" by (simp add: queuedRecord_def)
  note a = appendCommand_ok [OF ok room free [unfolded notin_used [OF ok]] refl r id q]
  show ?thesis using a(1,2) appended_find [OF ok a(2,3)] id by simp
qed

lemma queue_ok:
  assumes ok: "bookOk b" and in_: "queueInput deviceUid arguments n"
    and q: "queue b deviceUid nodeId type arguments n now = (b', res)"
  shows "(\<exists>e. res = Inl e \<and> b' = b) \<or>
    (res = Inr (cb_nextCommandId b) \<and> bookOk b' \<and> keepsOthers b b' nodeId \<and>
     findCommand b' nodeId =
       Some (queuedRecord (cb_nextCommandId b) (the deviceUid) nodeId type arguments n now))"
proof (cases "deviceUid = None \<or> nodeId < 1 \<or> nodeId > 99 \<or> \<not> validCommandArguments type arguments n")
  case True
  then show ?thesis using q by (auto simp: queue_def split: option.splits if_splits)
next
  case False
  then obtain uid where uid: "deviceUid = Some uid" by auto
  have args: "validCommandArguments type arguments n" "1 \<le> nodeId" "nodeId \<le> 99"
    using False by (auto simp: not_less word_le_nat_alt word_less_nat_alt)
  have node: "nodeId \<noteq> 0" "\<not> 99 < nodeId" using False by auto
  let ?mk = "\<lambda>c. queuedRecord c uid nodeId type arguments n now"
  note run = q [unfolded queue_def uid Let_def option.case]
  show ?thesis
  proof (cases "indexOf b nodeId")
    case None
    then have none: "findCommand b nodeId = None" by (simp add: findCommand_None)
    show ?thesis
    proof (cases "unat (cb_count b) = 16")
      case full: True
      show ?thesis
      proof (cases "firstIndex (\<lambda>r. cm_state r = CommandCompleted) (usedCommands b)")
        case None
        then show ?thesis
          using run args node full \<open>indexOf b nodeId = None\<close> by auto
      next
        case (Some i)
        note i = firstIndex_used [OF ok Some]
        note e = erase_ok [OF ok i(1)] and f = erased_find [OF ok i(1)] and u = usedCommands_erase [OF ok i(1)]
        have app: "appendCommand (erase b i) ?mk = (b', res)"
          using run args node full Some \<open>indexOf b nodeId = None\<close> by simp
        have "findCommand (erase b i) nodeId = None" using none f by simp
        from queue_append [OF e(1) this in_ [unfolded uid] args _ app]
        have a: "res = Inr (cb_nextCommandId b)" "bookOk b'"
          "\<And>m. findCommand b' m = (if m = nodeId then Some (?mk (cb_nextCommandId b)) else findCommand (erase b i) m)"
          using u full by auto
        have c: "cb_count b = 16" using full by (metis unat_of_nat_u8 of_nat_numeral of_nat_unat_u8)
        have mem: "usedCommands b ! i \<in> set (usedCommands b)" using i(1) bookOk_length [OF ok] by simp
        then have "findCommand b (cm_nodeId (usedCommands b ! i)) = Some (usedCommands b ! i)"
          using findCommand_iff [OF ok] by simp
        then have "keepsOthers b b' nodeId"
          using a(3) f i(2) c by (auto simp: keepsOthers_def)
        then show ?thesis using a uid by simp
      qed
    next
      case False
      then have lt: "unat (cb_count b) < 16" using ok by (simp add: bookOk_iff)
      have app: "appendCommand b ?mk = (b', res)"
        using run args node False None by simp
      from queue_append [OF ok none in_ [unfolded uid] args lt app]
      show ?thesis by (simp add: keepsOthers_def uid)
    qed
  next
    case (Some i)
    note i = indexOf_Some [OF ok Some]
    note e = erase_ok [OF ok i(1)] and f = erased_find [OF ok i(1)] and u = usedCommands_erase [OF ok i(1)]
    show ?thesis
    proof (cases "cm_state (cb_records b ! i) = CommandPending \<and> sameUid (cb_records b ! i) uid")
      case True
      then show ?thesis using run args node Some by auto
    next
      case False
      have lt: "unat (cb_count (erase b i)) < 16" using u(3) i(1) ok by (auto simp: bookOk_iff)
      have app: "appendCommand (erase b i) ?mk = (b', res)"
        using run args node False Some lt by simp
      have "findCommand (erase b i) nodeId = None" using i f by simp
      from queue_append [OF e(1) this in_ [unfolded uid] args lt app]
      have a: "res = Inr (cb_nextCommandId b)" "bookOk b'"
        "\<And>m. findCommand b' m = (if m = nodeId then Some (?mk (cb_nextCommandId b)) else findCommand (erase b i) m)"
        using u by auto
      have "keepsOthers b b' nodeId"
        using a(3) f i(2,3) by (auto simp: keepsOthers_def)
      then show ?thesis using a uid by simp
    qed
  qed
qed

text \<open>\<open>complete\<close> answers the pending command with the same identifier and UID, and nothing
  else; every other answer leaves the book.\<close>

lemma usedCommands_update:
  assumes "bookOk b" "i < unat (cb_count b)"
  shows "usedCommands (b\<lparr>cb_records := (cb_records b)[i := r]\<rparr>) = (usedCommands b)[i := r]"
  using assms by (simp add: usedCommands_def take_update_swap)

lemma update_ok:
  assumes ok: "bookOk b" and i: "i < unat (cb_count b)" and r: "commandShaped r" "validCommandRecord r"
    and id: "cm_nodeId r = cm_nodeId (usedCommands b ! i)"
    and b': "b' = b\<lparr>cb_records := (cb_records b)[i := r]\<rparr>"
  shows "bookOk b'" "findCommand b' n = (if n = cm_nodeId r then Some r else findCommand b n)"
proof -
  let ?u = "usedCommands b"
  have len: "i < length ?u" using i bookOk_length [OF ok] by simp
  note u = usedCommands_update [OF ok i, of r, folded b']
  have ids: "map cm_nodeId (?u[i := r]) = map cm_nodeId ?u"
    using len id list_update_id [of "map cm_nodeId ?u" i] by (simp add: map_update)
  have "list_all validCommandRecord (?u[i := r])"
    using ok r(2) by (auto simp: bookOk_iff list_all_iff dest!: set_update_subset_insert [THEN subsetD])
  moreover have "bookShaped b'"
    using ok r(1) by (auto simp: b' bookOk_iff bookShaped_def list_all_iff
        dest!: set_update_subset_insert [THEN subsetD])
  ultimately show ok': "bookOk b'" using ok u ids by (simp add: bookOk_iff b')
  have mem: "r \<in> set (?u[i := r])" using len by (simp add: set_update_memI)
  show "findCommand b' n = (if n = cm_nodeId r then Some r else findCommand b n)"
  proof (cases "n = cm_nodeId r")
    case True then show ?thesis using findCommand_iff [OF ok', of n r] u mem by simp
  next
    case False
    have "x \<in> set (?u[i := r]) \<longleftrightarrow> x \<in> set ?u" if "cm_nodeId x = n" for x
      using that False id len by (fastforce simp: in_set_conv_nth nth_list_update)
    then have "findCommand b' n = findCommand b n"
      using u by (intro findCommand_cong [OF ok ok']) simp
    with False show ?thesis by simp
  qed
qed

definition completedRecord :: "CommandRecord \<Rightarrow> CommandStatus \<Rightarrow> buffer \<Rightarrow> nat \<Rightarrow> u64 \<Rightarrow> CommandRecord" where
  "completedRecord record status data dataSize nowUnixMs =
     record\<lparr>cm_state := CommandCompleted, cm_status := status, cm_resultSize := of_nat dataSize,
       cm_result := (if dataSize \<noteq> 0 then put (cm_result record) 0 (take dataSize (the data))
                     else cm_result record),
       cm_completedAtUnixMs := nowUnixMs\<rparr>"

lemma completedRecord_ok:
  assumes "commandShaped r" "validCommandRecord r" "cm_state r = CommandPending"
    and "validCommandStatus (commandStatusValue status)" "status \<noteq> StorageFailure"
    and "commandStatusOf (commandStatusValue status) = status"
    and n: "n = commandResultDataSize (commandTypeOf (cm_type r)) status"
    and "n \<noteq> 0 \<Longrightarrow> n \<le> length (the data)"
  shows "commandShaped (completedRecord r status data n now)"
    "validCommandRecord (completedRecord r status data n now)"
proof -
  have n8: "n \<le> 8" unfolding n by (auto simp: commandResultDataSize_def split: CommandType.splits)
  have res: "length (cm_result r) = 8" "cm_result r = zeros 8"
  proof -
    show l: "length (cm_result r) = 8" using assms(1) by (simp add: commandShaped_def)
    have "zeroPadded (cm_result r) 0 8"
      using assms(2,3) by (auto simp: validCommandRecord_def split: if_splits)
    then show "cm_result r = zeros 8" using l by (simp add: zeroPadded_def chunk_def allZero_iff)
  qed
  have un: "unat (of_nat n :: u8) = n" using n8 by (intro unat_of_nat_u8) simp
  have pad: "zeroPadded (if n \<noteq> 0 then put (cm_result r) 0 (take n (the data)) else cm_result r) n 8"
    using n8 res(2) assms(8) zeroPadded_put [of n 8 "take n (the data)"]
    by (auto simp: zeroPadded_def chunk_def)
  show "commandShaped (completedRecord r status data n now)"
    using assms(1,6,8) n8 by (auto simp: commandShaped_def completedRecord_def)
  show "validCommandRecord (completedRecord r status data n now)"
    using assms(2,4,5) un pad
    by (simp add: validCommandRecord_def completedRecord_def flip: n split: if_split_asm)
qed

lemma complete_ok:
  assumes ok: "bookOk b" and data: "\<And>bs. data = Some bs \<Longrightarrow> n \<le> length bs"
    and status: "commandStatusOf (commandStatusValue status) = status"
    and c: "complete b deviceUid nodeId commandId status data n now = (b', res)"
  shows "(res \<noteq> CompleteDone \<and> b' = b) \<or>
    (res = CompleteDone \<and> bookOk b' \<and>
     (\<exists>r uid. findCommand b nodeId = Some r \<and> deviceUid = Some uid \<and> sameUid r uid \<and>
        cm_state r = CommandPending \<and> cm_commandId r = commandId \<and>
        findCommand b' = (findCommand b)(nodeId \<mapsto> completedRecord r status data n now)))"
proof (cases "res = CompleteDone")
  case False
  then show ?thesis
    using c by (auto simp: complete_def Let_def split: option.splits if_splits)
next
  case True
  then obtain i uid where i: "indexOf b nodeId = Some i" and uid: "deviceUid = Some uid"
    using c by (auto simp: complete_def split: option.splits)
  let ?r = "cb_records b ! i"
  have g: "cm_state ?r = CommandPending" "cm_commandId ?r = commandId" "sameUid ?r uid"
    "validCommandStatus (commandStatusValue status)" "status \<noteq> StorageFailure"
    "n = commandResultDataSize (commandTypeOf (cm_type ?r)) status" "n \<noteq> 0 \<Longrightarrow> data \<noteq> None"
    "b' = b\<lparr>cb_records := (cb_records b)[i := completedRecord ?r status data n now]\<rparr>"
    using c True by (auto simp: complete_def i uid Let_def completedRecord_def split: if_splits)
  note x = indexOf_Some [OF ok i]
  have "?r \<in> set (usedCommands b)" using x bookOk_length [OF ok] by (metis nth_mem)
  then have r: "validCommandRecord ?r" "commandShaped ?r"
    using ok book_facts(2) by (auto simp: bookOk_iff list_all_iff)
  have d: "n \<noteq> 0 \<Longrightarrow> n \<le> length (the data)" using g(7) data by auto
  note cr = completedRecord_ok [OF r(2,1) g(1,4,5) status g(6) d]
  have id: "cm_nodeId (completedRecord ?r status data n now) = cm_nodeId (usedCommands b ! i)"
    by (simp add: completedRecord_def x(2))
  note u = update_ok [OF ok x(1) cr id g(8)]
  have "findCommand b' = (findCommand b)(nodeId \<mapsto> completedRecord ?r status data n now)"
    using u(2) id x(2,3) by (auto simp: fun_eq_iff)
  then show ?thesis using True u(1) g x uid by auto
qed

lemma complete_again:
  "findCommand b nodeId = Some r \<Longrightarrow> cm_state r \<noteq> CommandPending \<Longrightarrow>
   complete b uid nodeId commandId status data n now = (b, CompleteNotPending)"
  by (auto simp: complete_def findCommand_def Let_def split: option.splits)

lemma cancel_ok:
  assumes "bookOk b" "cancel b nodeId = (b', done')"
  shows "bookOk b' \<and> (done' \<longleftrightarrow> (\<exists>r. findCommand b nodeId = Some r \<and> cm_state r = CommandPending)) \<and>
    findCommand b' = (if done' then (findCommand b)(nodeId := None) else findCommand b)"
proof (cases "indexOf b nodeId")
  case None then show ?thesis using assms by (auto simp: cancel_def findCommand_def)
next
  case (Some i)
  note x = indexOf_Some [OF assms(1) Some]
  show ?thesis
    using assms x Some erase_ok [OF assms(1) x(1)] erased_find [OF assms(1) x(1)]
    by (auto simp: cancel_def fun_eq_iff split: if_splits)
qed

lemma removeNodeCommand_ok:
  assumes "bookOk b" "removeNodeCommand b nodeId = (b', done')"
  shows "bookOk b' \<and> (done' \<longleftrightarrow> findCommand b nodeId \<noteq> None) \<and> findCommand b' = (findCommand b)(nodeId := None)"
proof (cases "indexOf b nodeId")
  case None then show ?thesis using assms by (auto simp: removeNodeCommand_def findCommand_def fun_eq_iff)
next
  case (Some i)
  note x = indexOf_Some [OF assms(1) Some]
  show ?thesis
    using assms x Some erase_ok [OF assms(1) x(1)] erased_find [OF assms(1) x(1)]
    by (auto simp: removeNodeCommand_def fun_eq_iff)
qed

lemma clearCommands_ok:
  assumes "bookOk b" shows "bookOk (clearCommands b)" "findCommand (clearCommands b) n = None"
    "cb_nextCommandId (clearCommands b) = cb_nextCommandId b"
proof -
  have u: "usedCommands (clearCommands b) = []" by (simp add: clearCommands_def emptyBook_def usedCommands_def)
  show "bookOk (clearCommands b)"
    using assms u
    by (simp add: bookOk_iff) (simp add: clearCommands_def emptyBook_def bookShaped_def
        commandShaped_blank list_all_replicate)
  show "findCommand (clearCommands b) n = None" by (simp add: findCommand_def indexOf_def u)
qed (simp add: clearCommands_def)

subsection \<open>Every reachable book\<close>

inductive book_step :: "CommandBook \<Rightarrow> CommandBook \<Rightarrow> bool" where
  step_queue: "queueInput uid args n \<Longrightarrow> queue b uid node type args n now = (b', res) \<Longrightarrow> book_step b b'"
| step_complete: "(\<And>bs. data = Some bs \<Longrightarrow> n \<le> length bs) \<Longrightarrow>
    commandStatusOf (commandStatusValue status) = status \<Longrightarrow>
    complete b uid node commandId status data n now = (b', res') \<Longrightarrow> book_step b b'"
| step_cancel: "cancel b node = (b', d) \<Longrightarrow> book_step b b'"
| step_remove: "removeNodeCommand b node = (b', d) \<Longrightarrow> book_step b b'"
| step_clear: "book_step b (clearCommands b)"

inductive book_reachable :: "CommandBook \<Rightarrow> bool" where
  start: "book_reachable defaultCommandBook"
| more: "book_reachable b \<Longrightarrow> book_step b b' \<Longrightarrow> book_reachable b'"

lemma book_step_ok: "book_step b b' \<Longrightarrow> bookOk b \<Longrightarrow> bookOk b'"
proof (induction rule: book_step.induct)
  case (step_queue uid args n b node type now b' res)
  then show ?case using queue_ok by blast
next
  case (step_complete data n status b uid node commandId now b' res')
  then show ?case using complete_ok by blast
qed (use cancel_ok removeNodeCommand_ok clearCommands_ok in blast)+

lemma book_reachable_ok: "book_reachable b \<Longrightarrow> bookOk b"
  by (induction rule: book_reachable.induct) (auto intro: bookOk_default book_step_ok)

end
