(* ===== verification/Auth_Storage.thy ===== *)
theory Auth_Storage
  imports Gateway_Storage
begin

text \<open>
  shared/RadioProtocol: GatewayStorage.h and GatewayStorage.cpp, the users and API tokens.
  \<open>users\<close> and \<open>tokens\<close> are arrays of four and eight records of which the first
  \<open>userCount\<close> and \<open>tokenCount\<close> are in use; the validator demands that the others are blank.
\<close>

abbreviation (input) kMaximumUsers :: nat where "kMaximumUsers \<equiv> 4"
abbreviation (input) kMaximumTokens :: nat where "kMaximumTokens \<equiv> 8"
abbreviation (input) kUsernameSize :: nat where "kUsernameSize \<equiv> 32"
abbreviation (input) kCredentialNameSize :: nat where "kCredentialNameSize \<equiv> 32"
abbreviation (input) kPasswordSaltSize :: nat where "kPasswordSaltSize \<equiv> 16"
abbreviation (input) kPasswordHashSize :: nat where "kPasswordHashSize \<equiv> 32"
abbreviation (input) kTokenHashSize :: nat where "kTokenHashSize \<equiv> 32"
abbreviation (input) kStoredUserSize :: nat where "kStoredUserSize \<equiv> 92"
abbreviation (input) kStoredTokenSize :: nat where "kStoredTokenSize \<equiv> 80"
abbreviation (input) kAuthSnapshotSize :: nat where "kAuthSnapshotSize \<equiv> 1036"
abbreviation (input) kMinimumPbkdf2Iterations :: u32 where "kMinimumPbkdf2Iterations \<equiv> 10000"
abbreviation (input) kMaximumPbkdf2Iterations :: u32 where "kMaximumPbkdf2Iterations \<equiv> 2000000"
abbreviation (input) kKnownTokenScopes :: u16 where "kKnownTokenScopes \<equiv> 1"
abbreviation (input) kAuthMagic :: bytes where "kAuthMagic \<equiv> [0x52, 0x53, 0x41, 0x55]"

datatype UserRole = Admin | Viewer | UserRoleRaw u8
datatype PasswordHashAlgorithm = Pbkdf2HmacSha256 | HashAlgorithmRaw u8

fun userRoleValue :: "UserRole \<Rightarrow> u8" where
  "userRoleValue Admin = 1"
| "userRoleValue Viewer = 2"
| "userRoleValue (UserRoleRaw raw) = raw"

definition userRoleOf :: "u8 \<Rightarrow> UserRole" where
  "userRoleOf raw = (if raw = 1 then Admin else if raw = 2 then Viewer else UserRoleRaw raw)"

fun hashAlgorithmValue :: "PasswordHashAlgorithm \<Rightarrow> u8" where
  "hashAlgorithmValue Pbkdf2HmacSha256 = 1"
| "hashAlgorithmValue (HashAlgorithmRaw raw) = raw"

definition hashAlgorithmOf :: "u8 \<Rightarrow> PasswordHashAlgorithm" where
  "hashAlgorithmOf raw = (if raw = 1 then Pbkdf2HmacSha256 else HashAlgorithmRaw raw)"

record UserRecord =
  us_id :: u32
  us_usernameLength :: u8
  us_username :: bytes
  us_role :: UserRole
  us_enabled :: bool
  us_hashAlgorithm :: PasswordHashAlgorithm
  us_pbkdf2Iterations :: u32
  us_salt :: bytes
  us_passwordHash :: bytes

record ApiTokenRecord =
  tk_id :: u32
  tk_nameLength :: u8
  tk_name :: bytes
  tk_enabled :: bool
  tk_scopes :: u16
  tk_createdAtUnixMs :: u64
  tk_tokenHash :: bytes

record AuthenticationData =
  au_userCount :: u8
  au_tokenCount :: u8
  au_nextUserId :: u32
  au_nextTokenId :: u32
  au_users :: "UserRecord list"
  au_tokens :: "ApiTokenRecord list"

text \<open>\<open>UserRecord{}\<close> and \<open>ApiTokenRecord{}\<close>.\<close>

definition blankUser :: UserRecord where
  "blankUser = \<lparr>us_id = 0, us_usernameLength = 0, us_username = zeros kUsernameSize,
     us_role = UserRoleRaw 0, us_enabled = False, us_hashAlgorithm = HashAlgorithmRaw 0,
     us_pbkdf2Iterations = 0, us_salt = zeros kPasswordSaltSize,
     us_passwordHash = zeros kPasswordHashSize\<rparr>"

definition blankToken :: ApiTokenRecord where
  "blankToken = \<lparr>tk_id = 0, tk_nameLength = 0, tk_name = zeros kCredentialNameSize,
     tk_enabled = False, tk_scopes = 0, tk_createdAtUnixMs = 0, tk_tokenHash = zeros kTokenHashSize\<rparr>"

definition defaultAuthentication :: AuthenticationData where
  "defaultAuthentication = \<lparr>au_userCount = 0, au_tokenCount = 0, au_nextUserId = 1,
     au_nextTokenId = 1, au_users = replicate kMaximumUsers blankUser,
     au_tokens = replicate kMaximumTokens blankToken\<rparr>"

subsection \<open>validateAuthentication\<close>

definition validUsername :: "bytes \<Rightarrow> nat \<Rightarrow> bool" where
  "validUsername data n \<longleftrightarrow> \<not> (n = 0 \<or> n > kUsernameSize) \<and>
     list_all (\<lambda>v. (v \<ge> 0x61 \<and> v \<le> 0x7A) \<or> (v \<ge> 0x30 \<and> v \<le> 0x39) \<or> v = 0x2E \<or> v = 0x5F \<or>
       v = 0x2D) (take n data)"

definition unusedUser :: "UserRecord \<Rightarrow> bool" where
  "unusedUser u \<longleftrightarrow> \<not> (us_id u \<noteq> 0 \<or> us_usernameLength u \<noteq> 0 \<or> \<not> allZero (us_username u) \<or>
     userRoleValue (us_role u) \<noteq> 0 \<or> us_enabled u \<or> hashAlgorithmValue (us_hashAlgorithm u) \<noteq> 0 \<or>
     us_pbkdf2Iterations u \<noteq> 0 \<or> \<not> allZero (us_salt u) \<or> \<not> allZero (us_passwordHash u))"

definition validUser :: "UserRecord \<Rightarrow> bool" where
  "validUser u \<longleftrightarrow>
     \<not> (us_id u = 0 \<or> \<not> validUsername (us_username u) (unat (us_usernameLength u)) \<or>
        \<not> zeroPadded (us_username u) (unat (us_usernameLength u)) kUsernameSize) \<and>
     \<not> (us_role u \<noteq> Admin \<and> us_role u \<noteq> Viewer) \<and>
     \<not> (us_hashAlgorithm u \<noteq> Pbkdf2HmacSha256 \<or>
        us_pbkdf2Iterations u < kMinimumPbkdf2Iterations \<or>
        us_pbkdf2Iterations u > kMaximumPbkdf2Iterations \<or>
        allZero (us_salt u) \<or> allZero (us_passwordHash u))"

definition sameUsername :: "UserRecord \<Rightarrow> UserRecord \<Rightarrow> bool" where
  "sameUsername u p \<longleftrightarrow> us_usernameLength u = us_usernameLength p \<and>
     take (unat (us_usernameLength u)) (us_username u) =
     take (unat (us_usernameLength u)) (us_username p)"

definition checkUser :: "AuthenticationData \<Rightarrow> nat \<Rightarrow> CodecStatus option" where
  "checkUser v index =
     (let u = au_users v ! index in
      if index \<ge> unat (au_userCount v) then
        if \<not> unusedUser u then Some GS_InvalidReservedData else None
      else if \<not> validUser u then Some GS_InvalidValue
      else if list_ex (\<lambda>previous. us_id u = us_id (au_users v ! previous) \<or>
             sameUsername u (au_users v ! previous)) [0..<index]
      then Some GS_DuplicateValue else None)"

definition unusedToken :: "ApiTokenRecord \<Rightarrow> bool" where
  "unusedToken t \<longleftrightarrow> \<not> (tk_id t \<noteq> 0 \<or> tk_nameLength t \<noteq> 0 \<or> \<not> allZero (tk_name t) \<or>
     tk_enabled t \<or> tk_scopes t \<noteq> 0 \<or> tk_createdAtUnixMs t \<noteq> 0 \<or> \<not> allZero (tk_tokenHash t))"

definition validToken :: "ApiTokenRecord \<Rightarrow> bool" where
  "validToken t \<longleftrightarrow>
     \<not> (tk_id t = 0 \<or> tk_nameLength t = 0 \<or> unat (tk_nameLength t) > kCredentialNameSize \<or>
        \<not> validUtf8 (tk_name t) (unat (tk_nameLength t)) \<or>
        \<not> zeroPadded (tk_name t) (unat (tk_nameLength t)) kCredentialNameSize \<or>
        tk_scopes t = 0 \<or> tk_scopes t AND NOT kKnownTokenScopes \<noteq> 0 \<or> allZero (tk_tokenHash t))"

definition checkToken :: "AuthenticationData \<Rightarrow> nat \<Rightarrow> CodecStatus option" where
  "checkToken v index =
     (let t = au_tokens v ! index in
      if index \<ge> unat (au_tokenCount v) then
        if \<not> unusedToken t then Some GS_InvalidReservedData else None
      else if \<not> validToken t then Some GS_InvalidValue
      else if list_ex (\<lambda>previous. tk_id t = tk_id (au_tokens v ! previous)) [0..<index]
      then Some GS_DuplicateValue else None)"

text \<open>\<open>enabledAdmin\<close>, \<open>maximumUserId\<close> and \<open>maximumTokenId\<close> at the end of the loops.\<close>

definition usedUsers :: "AuthenticationData \<Rightarrow> UserRecord list" where
  "usedUsers v = take (unat (au_userCount v)) (au_users v)"

definition usedTokens :: "AuthenticationData \<Rightarrow> ApiTokenRecord list" where
  "usedTokens v = take (unat (au_tokenCount v)) (au_tokens v)"

definition enabledAdmin :: "AuthenticationData \<Rightarrow> bool" where
  "enabledAdmin v = list_ex (\<lambda>u. us_enabled u \<and> us_role u = Admin) (usedUsers v)"

definition maximumId :: "u32 list \<Rightarrow> u32" where
  "maximumId ids = foldl (\<lambda>m i. if i > m then i else m) 0 ids"

definition validateAuthentication :: "AuthenticationData \<Rightarrow> CodecStatus option" where
  "validateAuthentication v =
     (if unat (au_userCount v) > kMaximumUsers \<or> unat (au_tokenCount v) > kMaximumTokens
      then Some GS_InvalidCount
      else case firstError (checkUser v) [0..<kMaximumUsers] of
        Some e \<Rightarrow> Some e
      | None \<Rightarrow>
          if au_userCount v \<noteq> 0 \<and> \<not> enabledAdmin v then Some GS_MissingAdmin
          else case firstError (checkToken v) [0..<kMaximumTokens] of
            Some e \<Rightarrow> Some e
          | None \<Rightarrow>
              let maximumUserId = maximumId (map us_id (usedUsers v));
                  maximumTokenId = maximumId (map tk_id (usedTokens v)) in
              if (au_userCount v \<noteq> 0 \<and>
                  (maximumUserId = 0xFFFFFFFF \<or> au_nextUserId v \<le> maximumUserId)) \<or>
                 (au_tokenCount v \<noteq> 0 \<and>
                  (maximumTokenId = 0xFFFFFFFF \<or> au_nextTokenId v \<le> maximumTokenId))
              then Some GS_InvalidValue else None)"

definition authenticationEqual :: "AuthenticationData \<Rightarrow> AuthenticationData \<Rightarrow> bool" where
  "authenticationEqual left right \<longleftrightarrow>
     au_userCount left = au_userCount right \<and> au_tokenCount left = au_tokenCount right \<and>
     au_nextUserId left = au_nextUserId right \<and> au_nextTokenId left = au_nextTokenId right \<and>
     au_users left = au_users right \<and> au_tokens left = au_tokens right"

subsection \<open>The codec\<close>

definition putUser :: "UserRecord \<Rightarrow> bytes" where
  "putUser u =
     (let r = zeros kStoredUserSize;
          r = put r 0 (le32 (us_id u));
          r = put r 4 [us_usernameLength u];
          r = put r 5 (us_username u);
          r = put r 37 [userRoleValue (us_role u)];
          r = put r 38 [if us_enabled u then 1 else 0];
          r = put r 39 [hashAlgorithmValue (us_hashAlgorithm u)];
          r = put r 40 (le32 (us_pbkdf2Iterations u));
          r = put r 44 (us_salt u)
      in put r 60 (us_passwordHash u))"

definition putToken :: "ApiTokenRecord \<Rightarrow> bytes" where
  "putToken t =
     (let r = zeros kStoredTokenSize;
          r = put r 0 (le32 (tk_id t));
          r = put r 4 [tk_nameLength t];
          r = put r 5 (tk_name t);
          r = put r 37 [if tk_enabled t then 1 else 0];
          r = put r 38 (le16 (tk_scopes t));
          r = put r 40 (le64 (tk_createdAtUnixMs t))
      in put r 48 (tk_tokenHash t))"

definition encodeAuthentication :: "AuthenticationData \<Rightarrow> u32 \<Rightarrow> buffer \<Rightarrow> CodecStatus + bytes" where
  "encodeAuthentication v generation output =
     (case output of
        None \<Rightarrow> Inl GS_OutputTooSmall
      | Some out \<Rightarrow>
          if length out < kAuthSnapshotSize then Inl GS_OutputTooSmall
          else case validateAuthentication v of
            Some e \<Rightarrow> Inl e
          | None \<Rightarrow>
              let s = zeros kAuthSnapshotSize;
                  s = writeHeader s kAuthMagic generation (of_nat kAuthSnapshotSize);
                  s = put s 12 [au_userCount v];
                  s = put s 13 [au_tokenCount v];
                  s = put s 16 (le32 (au_nextUserId v));
                  s = put s 20 (le32 (au_nextTokenId v));
                  s = putArray s 24 (map putUser (usedUsers v));
                  s = putArray s 392 (map putToken (usedTokens v));
                  s = put s 1032 (le32 (crc32 (take 1032 s)))
              in Inr (written s out))"

text \<open>The decoders of one record; None is the early return on its flag byte.\<close>

definition getUser :: "bytes \<Rightarrow> UserRecord option" where
  "getUser r =
     (if r ! 38 AND NOT 1 \<noteq> 0 then None
      else Some \<lparr>us_id = get32 r 0, us_usernameLength = r ! 4,
        us_username = chunk r 5 kUsernameSize, us_role = userRoleOf (r ! 37),
        us_enabled = (r ! 38 AND 1 \<noteq> 0), us_hashAlgorithm = hashAlgorithmOf (r ! 39),
        us_pbkdf2Iterations = get32 r 40, us_salt = chunk r 44 kPasswordSaltSize,
        us_passwordHash = chunk r 60 kPasswordHashSize\<rparr>)"

definition getToken :: "bytes \<Rightarrow> ApiTokenRecord option" where
  "getToken r =
     (if r ! 37 AND NOT 1 \<noteq> 0 then None
      else Some \<lparr>tk_id = get32 r 0, tk_nameLength = r ! 4, tk_name = chunk r 5 kCredentialNameSize,
        tk_enabled = (r ! 37 AND 1 \<noteq> 0), tk_scopes = get16 r 38,
        tk_createdAtUnixMs = get64 r 40, tk_tokenHash = chunk r 48 kTokenHashSize\<rparr>)"

fun getAll :: "(bytes \<Rightarrow> 'r option) \<Rightarrow> bytes list \<Rightarrow> 'r list option" where
  "getAll get [] = Some []"
| "getAll get (x # xs) =
     (case get x of None \<Rightarrow> None | Some r \<Rightarrow> map_option (\<lambda>rs. r # rs) (getAll get xs))"

definition decodeAuthentication :: "buffer \<Rightarrow> CodecStatus + AuthenticationData \<times> u32" where
  "decodeAuthentication buf =
     (case validateHeader buf kAuthMagic kAuthSnapshotSize of
        Inl e \<Rightarrow> Inl e
      | Inr generation \<Rightarrow>
          let data = the buf in
          if data ! 14 \<noteq> 0 \<or> data ! 15 \<noteq> 0 then Inl GS_InvalidReservedData
          else
            let userCount = data ! 12; tokenCount = data ! 13 in
            if unat userCount > kMaximumUsers \<or> unat tokenCount > kMaximumTokens
            then Inl GS_InvalidCount
            else case getAll getUser (entries data 24 kStoredUserSize 0 (unat userCount)) of
              None \<Rightarrow> Inl GS_InvalidFlags
            | Some users \<Rightarrow>
                if \<not> list_all allZero (entries data 24 kStoredUserSize (unat userCount) kMaximumUsers)
                then Inl GS_InvalidReservedData
                else case getAll getToken (entries data 392 kStoredTokenSize 0 (unat tokenCount)) of
                  None \<Rightarrow> Inl GS_InvalidFlags
                | Some tokens \<Rightarrow>
                    if \<not> list_all allZero
                          (entries data 392 kStoredTokenSize (unat tokenCount) kMaximumTokens)
                    then Inl GS_InvalidReservedData
                    else
                      let candidate = \<lparr>au_userCount = userCount, au_tokenCount = tokenCount,
                            au_nextUserId = get32 data 16, au_nextTokenId = get32 data 20,
                            au_users = users @ replicate (kMaximumUsers - unat userCount) blankUser,
                            au_tokens = tokens @
                              replicate (kMaximumTokens - unat tokenCount) blankToken\<rparr>
                      in case validateAuthentication candidate of
                           Some e \<Rightarrow> Inl e
                         | None \<Rightarrow> Inr (candidate, generation))"

definition authenticationCodec :: "AuthenticationData slot_codec" where
  "authenticationCodec = \<lparr>sc_SnapshotSize = kAuthSnapshotSize, sc_Encode = encodeAuthentication,
     sc_Decode = decodeAuthentication, sc_Equal = authenticationEqual,
     sc_DefaultValue = defaultAuthentication\<rparr>"

subsection \<open>Round trip of one record\<close>

definition userShaped :: "UserRecord \<Rightarrow> bool" where
  "userShaped u \<longleftrightarrow> length (us_username u) = kUsernameSize \<and> length (us_salt u) = kPasswordSaltSize \<and>
     length (us_passwordHash u) = kPasswordHashSize"

definition tokenShaped :: "ApiTokenRecord \<Rightarrow> bool" where
  "tokenShaped t \<longleftrightarrow> length (tk_name t) = kCredentialNameSize \<and> length (tk_tokenHash t) = kTokenHashSize"

lemma putUser_image:
  assumes "userShaped u"
  shows "putUser u = le32 (us_id u) @ [us_usernameLength u] @ us_username u @
    [userRoleValue (us_role u), if us_enabled u then 1 else 0, hashAlgorithmValue (us_hashAlgorithm u)] @
    le32 (us_pbkdf2Iterations u) @ us_salt u @ us_passwordHash u" (is "_ = ?image")
proof -
  have "putUser u = written ?image (zeros 92)"
    using assms by (simp add: putUser_def userShaped_def Let_def put_start put_written)
  also have "\<dots> = ?image" using assms by (intro written_full) (simp add: userShaped_def)
  finally show ?thesis .
qed

lemma putToken_image:
  assumes "tokenShaped t"
  shows "putToken t = le32 (tk_id t) @ [tk_nameLength t] @ tk_name t @ [if tk_enabled t then 1 else 0] @
    le16 (tk_scopes t) @ le64 (tk_createdAtUnixMs t) @ tk_tokenHash t" (is "_ = ?image")
proof -
  have "putToken t = written ?image (zeros 80)"
    using assms by (simp add: putToken_def tokenShaped_def Let_def put_start put_written)
  also have "\<dots> = ?image" using assms by (intro written_full) (simp add: tokenShaped_def)
  finally show ?thesis .
qed

lemma length_putUser: "userShaped u \<Longrightarrow> length (putUser u) = 92"
  by (simp add: putUser_image) (simp add: userShaped_def)

lemma length_putToken: "tokenShaped t \<Longrightarrow> length (putToken t) = 80"
  by (simp add: putToken_image) (simp add: tokenShaped_def)

lemma getUser_putUser:
  assumes "userShaped u" "validUser u" shows "getUser (putUser u) = Some u"
proof -
  have "userRoleOf (userRoleValue (us_role u)) = us_role u"
    "hashAlgorithmOf (hashAlgorithmValue (us_hashAlgorithm u)) = us_hashAlgorithm u"
    using assms(2) by (auto simp: validUser_def userRoleOf_def hashAlgorithmOf_def)
  then show ?thesis
    using assms(1)
    by (cases "us_enabled u")
       (simp_all add: getUser_def putUser_image layout_simps, simp_all add: userShaped_def layout_simps)
qed

lemma getToken_putToken: "tokenShaped t \<Longrightarrow> getToken (putToken t) = Some t"
  by (cases "tk_enabled t")
     (simp_all add: getToken_def putToken_image layout_simps, simp_all add: tokenShaped_def layout_simps)

lemma getAll_map: "(\<And>x. x \<in> set xs \<Longrightarrow> get (f x) = Some x) \<Longrightarrow> getAll get (map f xs) = Some xs"
  by (induction xs) simp_all

lemma unusedUser_blank: "userShaped u \<Longrightarrow> unusedUser u \<Longrightarrow> u = blankUser"
  by (cases u; cases "us_role u"; cases "us_hashAlgorithm u")
     (auto simp: unusedUser_def blankUser_def userShaped_def allZero_iff)

lemma unusedToken_blank: "tokenShaped t \<Longrightarrow> unusedToken t \<Longrightarrow> t = blankToken"
  by (cases t) (auto simp: unusedToken_def blankToken_def tokenShaped_def allZero_iff)

subsection \<open>Round trip of the snapshot\<close>

definition authShaped :: "AuthenticationData \<Rightarrow> bool" where
  "authShaped v \<longleftrightarrow> length (au_users v) = kMaximumUsers \<and> list_all userShaped (au_users v) \<and>
     length (au_tokens v) = kMaximumTokens \<and> list_all tokenShaped (au_tokens v)"

definition authBody :: "AuthenticationData \<Rightarrow> bytes" where
  "authBody v = ([au_userCount v, au_tokenCount v, 0, 0] @ le32 (au_nextUserId v) @
     le32 (au_nextTokenId v)) @ concat (map putUser (usedUsers v)) @
     zeros ((kMaximumUsers - unat (au_userCount v)) * kStoredUserSize) @
     concat (map putToken (usedTokens v)) @
     zeros ((kMaximumTokens - unat (au_tokenCount v)) * kStoredTokenSize)"

lemma validAuth_facts:
  assumes "validateAuthentication v = None" "authShaped v"
  shows "unat (au_userCount v) \<le> 4" "unat (au_tokenCount v) \<le> 8"
    "length (usedUsers v) = unat (au_userCount v)" "length (usedTokens v) = unat (au_tokenCount v)"
    "\<forall>u \<in> set (usedUsers v). validUser u \<and> userShaped u"
    "\<forall>t \<in> set (usedTokens v). validToken t \<and> tokenShaped t"
    "au_users v = usedUsers v @ replicate (4 - unat (au_userCount v)) blankUser"
    "au_tokens v = usedTokens v @ replicate (8 - unat (au_tokenCount v)) blankToken"
proof -
  let ?u = "unat (au_userCount v)" and ?t = "unat (au_tokenCount v)"
  have sh: "length (au_users v) = 4" "list_all userShaped (au_users v)"
    "length (au_tokens v) = 8" "list_all tokenShaped (au_tokens v)"
    using assms(2) by (simp_all add: authShaped_def)
  show le: "?u \<le> 4" "?t \<le> 8"
    using assms(1) by (auto simp: validateAuthentication_def split: if_splits)
  show len: "length (usedUsers v) = ?u" "length (usedTokens v) = ?t"
    using le sh by (simp_all add: usedUsers_def usedTokens_def)
  have users: "\<forall>i \<in> {0..<4}. checkUser v i = None" and tokens: "\<forall>i \<in> {0..<8}. checkToken v i = None"
    using assms(1) by (auto simp: validateAuthentication_def Let_def split: if_splits option.splits)
  show "\<forall>u \<in> set (usedUsers v). validUser u \<and> userShaped u"
  proof
    fix u assume "u \<in> set (usedUsers v)"
    then obtain i where i: "i < ?u" "u = au_users v ! i"
      using len(1) by (metis in_set_conv_nth nth_take usedUsers_def)
    then have "checkUser v i = None" using users le by simp
    with i show "validUser u \<and> userShaped u"
      using sh(1,2) le by (auto simp: checkUser_def Let_def list_all_length split: if_splits)
  qed
  show "\<forall>t \<in> set (usedTokens v). validToken t \<and> tokenShaped t"
  proof
    fix t assume "t \<in> set (usedTokens v)"
    then obtain i where i: "i < ?t" "t = au_tokens v ! i"
      using len(2) by (metis in_set_conv_nth nth_take usedTokens_def)
    then have "checkToken v i = None" using tokens le by simp
    with i show "validToken t \<and> tokenShaped t"
      using sh(3,4) le by (auto simp: checkToken_def Let_def list_all_length split: if_splits)
  qed
  have "drop ?u (au_users v) = replicate (4 - ?u) blankUser"
  proof (rule nth_equalityI)
    show "length (drop ?u (au_users v)) = length (replicate (4 - ?u) blankUser)" using sh by simp
    fix k assume k: "k < length (drop ?u (au_users v))"
    then have "checkUser v (?u + k) = None" using users sh le by simp
    then have "unusedUser (au_users v ! (?u + k))" by (simp add: checkUser_def Let_def split: if_splits)
    moreover have "userShaped (au_users v ! (?u + k))" using sh k by (simp add: list_all_length)
    ultimately show "drop ?u (au_users v) ! k = replicate (4 - ?u) blankUser ! k"
      using unusedUser_blank k sh by simp
  qed
  then show "au_users v = usedUsers v @ replicate (4 - ?u) blankUser"
    by (metis append_take_drop_id usedUsers_def)
  have "drop ?t (au_tokens v) = replicate (8 - ?t) blankToken"
  proof (rule nth_equalityI)
    show "length (drop ?t (au_tokens v)) = length (replicate (8 - ?t) blankToken)" using sh by simp
    fix k assume k: "k < length (drop ?t (au_tokens v))"
    then have "checkToken v (?t + k) = None" using tokens sh le by simp
    then have "unusedToken (au_tokens v ! (?t + k))" by (simp add: checkToken_def Let_def split: if_splits)
    moreover have "tokenShaped (au_tokens v ! (?t + k))" using sh k by (simp add: list_all_length)
    ultimately show "drop ?t (au_tokens v) ! k = replicate (8 - ?t) blankToken ! k"
      using unusedToken_blank k sh by simp
  qed
  then show "au_tokens v = usedTokens v @ replicate (8 - ?t) blankToken"
    by (metis append_take_drop_id usedTokens_def)
qed

lemma auth_entry_lengths:
  assumes "validateAuthentication v = None" "authShaped v"
  shows "list_all (\<lambda>x. length x = 92) (map putUser (usedUsers v))"
    "list_all (\<lambda>x. length x = 80) (map putToken (usedTokens v))"
    "length (concat (map putUser (usedUsers v))) = unat (au_userCount v) * 92"
    "length (concat (map putToken (usedTokens v))) = unat (au_tokenCount v) * 80"
proof -
  note f = validAuth_facts [OF assms]
  show l: "list_all (\<lambda>x. length x = 92) (map putUser (usedUsers v))"
    "list_all (\<lambda>x. length x = 80) (map putToken (usedTokens v))"
    using f(5,6) by (auto simp: list_all_iff length_putUser length_putToken)
  show "length (concat (map putUser (usedUsers v))) = unat (au_userCount v) * 92"
    "length (concat (map putToken (usedTokens v))) = unat (au_tokenCount v) * 80"
    using length_concat_entries [OF l(1)] length_concat_entries [OF l(2)] f(3,4) by simp_all
qed

lemma length_authBody:
  assumes "validateAuthentication v = None" "authShaped v"
  shows "length (authBody v) = 1020"
proof -
  have "unat (au_userCount v) * 92 + (4 - unat (au_userCount v)) * 92 = 368"
    "unat (au_tokenCount v) * 80 + (8 - unat (au_tokenCount v)) * 80 = 640"
    using validAuth_facts(1,2) [OF assms] by (simp_all add: add_mult_distrib [symmetric])
  then show ?thesis
    using auth_entry_lengths(3,4) [OF assms] by (simp add: authBody_def)
qed

lemma encodeAuthentication_bytes:
  assumes "authShaped v" "validateAuthentication v = None" "1036 \<le> length out"
  shows "encodeAuthentication v g (Some out) =
    Inr (written (snapshotBytes kAuthMagic g (authBody v)) out)"
proof -
  note f = validAuth_facts [OF assms(2,1)] and l = auth_entry_lengths [OF assms(2,1)]
  let ?h = "headerImage kAuthMagic g (of_nat 1036)"
  let ?a = "?h @ [au_userCount v, au_tokenCount v, 0, 0] @ le32 (au_nextUserId v) @ le32 (au_nextTokenId v)"
  let ?u = "unat (au_userCount v)" and ?t = "unat (au_tokenCount v)"
  have h: "length ?h = 12" by (rule length_headerImage) simp
  have "put (put (put (put (writeHeader (zeros 1036) kAuthMagic g (of_nat 1036))
      12 [au_userCount v]) 13 [au_tokenCount v]) 16 (le32 (au_nextUserId v)))
      20 (le32 (au_nextTokenId v)) = written ?a (zeros 1036)"
    by (simp add: writeHeader_image put_written put_zeros numeral_2_eq_2 length_headerImage)
  moreover have "putArray (written ?a (zeros 1036)) 24 (map putUser (usedUsers v)) =
      written (?a @ concat (map putUser (usedUsers v))) (zeros 1036)"
    by (rule putArray_written) (simp add: length_headerImage)
  moreover have "putArray (written (?a @ concat (map putUser (usedUsers v))) (zeros 1036)) 392
      (map putToken (usedTokens v)) =
      written ((?a @ concat (map putUser (usedUsers v))) @ zeros ((4 - ?u) * 92) @
        concat (map putToken (usedTokens v))) (zeros 1036)"
  proof (rule putArray_gap)
    have "?u * 92 + (4 - ?u) * 92 = 368"
      using f(1) by (simp add: add_mult_distrib [symmetric])
    then show "length (?a @ concat (map putUser (usedUsers v))) + (4 - ?u) * 92 = 392"
      using l(3) by (simp add: length_headerImage)
  qed simp
  moreover have "written ((?a @ concat (map putUser (usedUsers v))) @ zeros ((4 - ?u) * 92) @
        concat (map putToken (usedTokens v))) (zeros 1036) = written (?h @ authBody v) (zeros 1036)"
  proof -
    have "written ((?a @ concat (map putUser (usedUsers v))) @ zeros ((4 - ?u) * 92) @
        concat (map putToken (usedTokens v))) (zeros 1036) =
      written (((?a @ concat (map putUser (usedUsers v))) @ zeros ((4 - ?u) * 92) @
        concat (map putToken (usedTokens v))) @ zeros ((8 - ?t) * 80)) (zeros 1036)"
      using length_authBody [OF assms(2,1)]
      by (intro written_zeros) (simp add: authBody_def length_headerImage)
    then show ?thesis by (simp add: authBody_def)
  qed
  moreover have "put (written (?h @ authBody v) (zeros 1036)) 1032
      (le32 (crc32 (take 1032 (written (?h @ authBody v) (zeros 1036))))) =
      snapshotBytes kAuthMagic g (authBody v)"
    using seal_written [of kAuthMagic 1036 "authBody v" g] length_authBody [OF assms(2,1)] by simp
  ultimately show ?thesis
    using assms(2,3) unfolding encodeAuthentication_def Let_def by simp
qed

lemma decodeAuthentication_bytes:
  assumes "authShaped v" "validateAuthentication v = None"
  shows "decodeAuthentication (Some (snapshotBytes kAuthMagic g (authBody v))) = Inr (v, g)"
proof -
  note f = validAuth_facts [OF assms(2,1)] and l = auth_entry_lengths [OF assms(2,1)]
  let ?u = "unat (au_userCount v)" and ?t = "unat (au_tokenCount v)"
  let ?d = "snapshotBytes kAuthMagic g (authBody v)"
  let ?p = "[au_userCount v, au_tokenCount v, 0, 0] @ le32 (au_nextUserId v) @ le32 (au_nextTokenId v)"
  let ?U = "concat (map putUser (usedUsers v))" and ?T = "concat (map putToken (usedTokens v))"
  let ?zu = "zeros ((4 - ?u) * 92)" and ?zt = "zeros ((8 - ?t) * 80)"
  have len: "length (authBody v) = 1020" by (rule length_authBody [OF assms(2,1)])
  have head: "validateHeader (Some ?d) kAuthMagic 1036 = Inr g"
    by (rule validateHeader_snapshot) (simp_all add: len)
  have fields: "?d ! 12 = au_userCount v" "?d ! 13 = au_tokenCount v" "?d ! 14 = 0" "?d ! 15 = 0"
    "get32 ?d 16 = au_nextUserId v" "get32 ?d 20 = au_nextTokenId v"
    by (simp_all add: body_simps len, simp_all add: authBody_def layout_simps)
  have sumu: "?u * 92 + (4 - ?u) * 92 = 368" using f(1) by (simp add: add_mult_distrib [symmetric])
  have users: "entries ?d 24 92 0 ?u = map putUser (usedUsers v)"
    by (rule entries_snapshot [where pre = ?p and post = "?zu @ ?T @ ?zt"])
       (use l(1) f(3) in \<open>simp_all add: authBody_def\<close>)
  have tokens: "entries ?d 392 80 0 ?t = map putToken (usedTokens v)"
    by (rule entries_snapshot [where pre = "?p @ ?U @ ?zu" and post = ?zt])
       (use l(2,3) f(4) sumu in \<open>simp_all add: authBody_def\<close>)
  have zu: "list_all allZero (entries ?d 24 92 ?u 4)"
    by (rule entries_snapshot_zero [where pre = "?p @ ?U" and m = "4 - ?u" and post = "?T @ ?zt"])
       (use l(3) f(1) in \<open>simp_all add: authBody_def\<close>)
  have zt: "list_all allZero (entries ?d 392 80 ?t 8)"
    by (rule entries_snapshot_zero [where pre = "?p @ ?U @ ?zu @ ?T" and m = "8 - ?t" and post = "[]"])
       (use l(3,4) f(2) sumu in \<open>simp_all add: authBody_def\<close>)
  have gets: "getAll getUser (map putUser (usedUsers v)) = Some (usedUsers v)"
    "getAll getToken (map putToken (usedTokens v)) = Some (usedTokens v)"
    using f(5,6) by (auto intro!: getAll_map getUser_putUser getToken_putToken)
  have whole: "\<lparr>au_userCount = au_userCount v, au_tokenCount = au_tokenCount v,
      au_nextUserId = au_nextUserId v, au_nextTokenId = au_nextTokenId v,
      au_users = usedUsers v @ replicate (4 - ?u) blankUser,
      au_tokens = usedTokens v @ replicate (8 - ?t) blankToken\<rparr> = v"
    unfolding f(7,8) [symmetric] by (cases v) simp
  show ?thesis
    unfolding decodeAuthentication_def head Let_def option.sel sum.case fields users tokens gets
    using f(1,2) zu zt assms(2) by (simp add: whole)
qed

lemma decodeAuthentication_valid:
  "decodeAuthentication (Some d) = Inr (v, g) \<Longrightarrow> validateAuthentication v = None"
  by (auto simp: decodeAuthentication_def Let_def split: sum.splits option.splits if_splits)

lemma authenticationEqual_iff [simp]: "authenticationEqual v w \<longleftrightarrow> v = w"
  by (cases v; cases w) (auto simp: authenticationEqual_def)

interpretation authentication: snapshot_codec authenticationCodec authShaped
proof
  fix v :: AuthenticationData and g d
  assume sh: "authShaped v"
    and enc: "sc_Encode authenticationCodec v g (Some (zeros (sc_SnapshotSize authenticationCodec))) = Inr d"
  then have valid: "validateAuthentication v = None"
    by (auto simp: authenticationCodec_def encodeAuthentication_def split: option.splits if_splits)
  have "d = snapshotBytes kAuthMagic g (authBody v)"
    using enc encodeAuthentication_bytes [OF sh valid, of "zeros 1036" g] length_authBody [OF valid sh]
    by (simp add: authenticationCodec_def written_full)
  then show "d \<noteq> [] \<and> length d \<le> sc_SnapshotSize authenticationCodec \<and>
      (\<exists>w. sc_Decode authenticationCodec (Some d) = Inr (w, g) \<and> sc_Equal authenticationCodec w v)"
    using decodeAuthentication_bytes [OF sh valid, of g] length_authBody [OF valid sh]
    by (auto simp: authenticationCodec_def simp flip: length_0_conv)
qed (simp add: authenticationCodec_def)

end
