(* ===== verification/User_Management.thy ===== *)
theory User_Management
  imports Auth_Storage
begin

text \<open>
  shared/RadioProtocol: UserManagement.h and UserManagement.cpp, the changes of the user table.
  The operations work on a copy and assign it on success, so a failing one returns the data it was
  given.  A null credential pointer is None.
\<close>

datatype UserStatus =
  US_InvalidValue | US_NotFound | US_UsernameExists | US_CapacityReached | US_LastAdminRequired

record PasswordCredential =
  pc_algorithm :: PasswordHashAlgorithm
  pc_iterations :: u32
  pc_salt :: bytes
  pc_hash :: bytes

subsection \<open>Helpers\<close>

definition validRole :: "UserRole \<Rightarrow> bool" where
  "validRole role \<longleftrightarrow> role = Admin \<or> role = Viewer"

definition usernameExists :: "AuthenticationData \<Rightarrow> bytes \<Rightarrow> nat \<Rightarrow> u32 \<Rightarrow> bool" where
  "usernameExists data username n exceptId =
     list_ex (\<lambda>user. us_id user \<noteq> exceptId \<and> unat (us_usernameLength user) = n \<and>
       take n (us_username user) = take n username) (usedUsers data)"

definition hasEnabledAdmin :: "AuthenticationData \<Rightarrow> bool" where
  "hasEnabledAdmin data = list_ex (\<lambda>user. us_enabled user \<and> us_role user = Admin) (usedUsers data)"

definition applyCredential :: "UserRecord \<Rightarrow> PasswordCredential \<Rightarrow> UserRecord" where
  "applyCredential user credential =
     user\<lparr>us_hashAlgorithm := pc_algorithm credential,
          us_pbkdf2Iterations := pc_iterations credential,
          us_salt := pc_salt credential, us_passwordHash := pc_hash credential\<rparr>"

definition managedUsername :: "buffer \<Rightarrow> nat \<Rightarrow> bool" where
  "managedUsername username n =
     (case username of
        None \<Rightarrow> False
      | Some chars \<Rightarrow> \<not> (n = 0 \<or> n > kUsernameSize) \<and>
          list_all (\<lambda>c. (c \<ge> 0x61 \<and> c \<le> 0x7A) \<or> (c \<ge> 0x30 \<and> c \<le> 0x39) \<or> c = 0x2E \<or> c = 0x5F \<or>
            c = 0x2D) (take n chars))"

definition validCredential :: "PasswordCredential \<Rightarrow> bool" where
  "validCredential credential \<longleftrightarrow>
     pc_algorithm credential = Pbkdf2HmacSha256 \<and>
     pc_iterations credential \<ge> kMinimumPbkdf2Iterations \<and>
     pc_iterations credential \<le> kMaximumPbkdf2Iterations \<and>
     \<not> allZero (pc_salt credential) \<and> \<not> allZero (pc_hash credential)"

text \<open>The search loop: the index of the user, or \<open>userCount\<close>.\<close>

definition userIndex :: "AuthenticationData \<Rightarrow> u32 \<Rightarrow> nat option" where
  "userIndex data id' = firstIndex (\<lambda>user. us_id user = id') (usedUsers data)"

subsection \<open>Operations\<close>

definition createUser ::
  "AuthenticationData \<Rightarrow> buffer \<Rightarrow> nat \<Rightarrow> UserRole \<Rightarrow> bool \<Rightarrow> PasswordCredential \<Rightarrow>
   AuthenticationData \<times> (UserStatus + u32)" where
  "createUser data username usernameLength role enabled credential =
     (if \<not> managedUsername username usernameLength \<or> \<not> validRole role \<or> \<not> validCredential credential
      then (data, Inl US_InvalidValue)
      else if unat (au_userCount data) \<ge> kMaximumUsers \<or> au_nextUserId data = 0xFFFFFFFF
      then (data, Inl US_CapacityReached)
      else if usernameExists data (the username) usernameLength 0
      then (data, Inl US_UsernameExists)
      else
        let slot = unat (au_userCount data);
            user = au_users data ! slot;
            user = user\<lparr>us_id := (if au_nextUserId data = 0 then 1 else au_nextUserId data)\<rparr>;
            nextUserId = us_id user + 1;
            user = user\<lparr>us_usernameLength := of_nat usernameLength\<rparr>;
            user = user\<lparr>us_username := put (us_username user) 0 (take usernameLength (the username))\<rparr>;
            user = user\<lparr>us_role := role\<rparr>;
            user = user\<lparr>us_enabled := enabled\<rparr>;
            user = applyCredential user credential;
            candidate = data\<lparr>au_nextUserId := nextUserId, au_users := (au_users data)[slot := user],
              au_userCount := au_userCount data + 1\<rparr>
        in if \<not> hasEnabledAdmin candidate then (data, Inl US_LastAdminRequired)
           else (candidate, Inr (us_id user)))"

definition updateUser ::
  "AuthenticationData \<Rightarrow> u32 \<Rightarrow> buffer \<Rightarrow> nat \<Rightarrow> UserRole \<Rightarrow> bool \<Rightarrow> PasswordCredential option \<Rightarrow>
   AuthenticationData \<times> UserStatus option" where
  "updateUser data id' username usernameLength role enabled credential =
     (if \<not> managedUsername username usernameLength \<or> \<not> validRole role \<or>
         (\<exists>c. credential = Some c \<and> \<not> validCredential c)
      then (data, Some US_InvalidValue)
      else case userIndex data id' of
        None \<Rightarrow> (data, Some US_NotFound)
      | Some index \<Rightarrow>
          if usernameExists data (the username) usernameLength id'
          then (data, Some US_UsernameExists)
          else
            let user = au_users data ! index;
                user = user\<lparr>us_username := zeros kUsernameSize\<rparr>;
                user = user\<lparr>us_username := put (us_username user) 0 (take usernameLength (the username))\<rparr>;
                user = user\<lparr>us_usernameLength := of_nat usernameLength\<rparr>;
                user = user\<lparr>us_role := role\<rparr>;
                user = user\<lparr>us_enabled := enabled\<rparr>;
                user = (case credential of None \<Rightarrow> user | Some c \<Rightarrow> applyCredential user c);
                candidate = data\<lparr>au_users := (au_users data)[index := user]\<rparr>
            in if \<not> hasEnabledAdmin candidate then (data, Some US_LastAdminRequired)
               else (candidate, None))"

definition removeUser :: "AuthenticationData \<Rightarrow> u32 \<Rightarrow> AuthenticationData \<times> UserStatus option" where
  "removeUser data id' =
     (case userIndex data id' of
        None \<Rightarrow> (data, Some US_NotFound)
      | Some index \<Rightarrow>
          let users = shiftDown (au_users data) index (unat (au_userCount data));
              remaining = au_userCount data - 1;
              candidate = data\<lparr>au_userCount := remaining,
                au_users := users[unat remaining := blankUser]\<rparr>
          in if \<not> hasEnabledAdmin candidate then (data, Some US_LastAdminRequired)
             else (candidate, None))"

subsection \<open>Valid tables\<close>

definition authOk :: "AuthenticationData \<Rightarrow> bool" where
  "authOk v \<longleftrightarrow> authShaped v \<and> validateAuthentication v = None"

definition nameOf :: "UserRecord \<Rightarrow> bytes" where
  "nameOf u = take (unat (us_usernameLength u)) (us_username u)"

text \<open>The names of valid users are equal when length and bytes are.\<close>

lemma validUser_length: "validUser u \<Longrightarrow> unat (us_usernameLength u) \<le> 32"
  by (auto simp: validUser_def validUsername_def)

lemma sameUsername_iff:
  assumes "userShaped u" "userShaped p" "validUser u" "validUser p"
  shows "sameUsername u p \<longleftrightarrow> nameOf u = nameOf p"
proof
  assume "sameUsername u p"
  then show "nameOf u = nameOf p" by (metis sameUsername_def nameOf_def)
next
  assume *: "nameOf u = nameOf p"
  then have "length (nameOf u) = length (nameOf p)" by simp
  then have "unat (us_usernameLength u) = unat (us_usernameLength p)"
    using assms validUser_length by (simp add: nameOf_def userShaped_def)
  then have "us_usernameLength u = us_usernameLength p" by (metis of_nat_unat_u8)
  with * show "sameUsername u p" by (simp add: sameUsername_def nameOf_def)
qed

lemma maximumId_less: "maximumId ids < n \<longleftrightarrow> 0 < n \<and> (\<forall>i \<in> set ids. i < n)"
proof -
  have "foldl (\<lambda>m i. if i > m then i else m) a ids < n \<longleftrightarrow> a < n \<and> (\<forall>i \<in> set ids. i < n)" for a
    by (induction ids arbitrary: a) (auto simp: not_less intro: le_less_trans)
  then show ?thesis by (simp add: maximumId_def)
qed

definition usersOk :: "AuthenticationData \<Rightarrow> bool" where
  "usersOk v \<longleftrightarrow>
     list_all validUser (usedUsers v) \<and> distinct (map us_id (usedUsers v)) \<and>
     distinct (map nameOf (usedUsers v)) \<and>
     (usedUsers v \<noteq> [] \<longrightarrow> enabledAdmin v \<and> (\<forall>u \<in> set (usedUsers v). us_id u < au_nextUserId v))"

definition tokensOk :: "AuthenticationData \<Rightarrow> bool" where
  "tokensOk v \<longleftrightarrow> firstError (checkToken v) [0..<kMaximumTokens] = None \<and>
     (au_tokenCount v \<noteq> 0 \<longrightarrow> maximumId (map tk_id (usedTokens v)) < au_nextTokenId v)"

lemma checkUsers_iff:
  assumes "authShaped v" "unat (au_userCount v) \<le> 4"
  shows "firstError (checkUser v) [0..<4] = None \<longleftrightarrow>
    list_all validUser (usedUsers v) \<and> distinct (map us_id (usedUsers v)) \<and>
    distinct (map nameOf (usedUsers v)) \<and>
    au_users v = usedUsers v @ replicate (4 - unat (au_userCount v)) blankUser"
proof -
  let ?n = "unat (au_userCount v)"
  have sh: "length (au_users v) = 4" "list_all userShaped (au_users v)"
    using assms(1) by (simp_all add: authShaped_def)
  have len: "length (usedUsers v) = ?n" using sh assms(2) by (simp add: usedUsers_def)
  have nth: "i < ?n \<Longrightarrow> usedUsers v ! i = au_users v ! i" for i by (simp add: usedUsers_def)
  have shaped: "i < 4 \<Longrightarrow> userShaped (au_users v ! i)" for i using sh by (simp add: list_all_length)
  have used: "(\<forall>i < ?n. checkUser v i = None) \<longleftrightarrow>
      (\<forall>i < ?n. validUser (au_users v ! i)) \<and>
      (\<forall>i < ?n. \<forall>j < i. us_id (au_users v ! j) \<noteq> us_id (au_users v ! i)) \<and>
      (\<forall>i < ?n. \<forall>j < i. \<not> sameUsername (au_users v ! i) (au_users v ! j))"
  proof -
    have "checkUser v i = None \<longleftrightarrow> validUser (au_users v ! i) \<and>
        (\<forall>j < i. us_id (au_users v ! i) \<noteq> us_id (au_users v ! j) \<and>
          \<not> sameUsername (au_users v ! i) (au_users v ! j))" if "i < ?n" for i
      using that by (auto simp: checkUser_def Let_def list_ex_iff)
    then show ?thesis by (metis (no_types, lifting))
  qed
  have same: "(\<forall>i < ?n. \<forall>j < i. \<not> sameUsername (au_users v ! i) (au_users v ! j)) \<longleftrightarrow>
      (\<forall>i < ?n. \<forall>j < i. nameOf (au_users v ! j) \<noteq> nameOf (au_users v ! i))"
    if "\<forall>i < ?n. validUser (au_users v ! i)"
  proof -
    have "sameUsername (au_users v ! i) (au_users v ! j) \<longleftrightarrow>
        nameOf (au_users v ! i) = nameOf (au_users v ! j)" if "i < ?n" "j < i" for i j
      using that \<open>\<forall>i < ?n. validUser (au_users v ! i)\<close> assms(2)
      by (intro sameUsername_iff shaped) auto
    then show ?thesis by metis
  qed
  have rest: "(\<forall>i. ?n \<le> i \<and> i < 4 \<longrightarrow> checkUser v i = None) \<longleftrightarrow>
      drop ?n (au_users v) = replicate (4 - ?n) blankUser"
  proof -
    have "checkUser v i = None \<longleftrightarrow> au_users v ! i = blankUser" if "?n \<le> i" "i < 4" for i
    proof -
      have "unusedUser (au_users v ! i) \<longleftrightarrow> au_users v ! i = blankUser"
        using unusedUser_blank [OF shaped [OF that(2)]] by (auto simp: unusedUser_def blankUser_def)
      then show ?thesis using that by (simp add: checkUser_def Let_def)
    qed
    then have "(\<forall>i. ?n \<le> i \<and> i < 4 \<longrightarrow> checkUser v i = None) \<longleftrightarrow>
        (\<forall>i. ?n \<le> i \<and> i < 4 \<longrightarrow> au_users v ! i = blankUser)" by blast
    also have "\<dots> \<longleftrightarrow> (\<forall>k < 4 - ?n. au_users v ! (?n + k) = blankUser)"
      by (metis add.commute le_add1 le_add_diff_inverse less_diff_conv)
    also have "\<dots> \<longleftrightarrow> drop ?n (au_users v) = replicate (4 - ?n) blankUser"
      using sh assms(2) by (auto simp: list_eq_iff_nth_eq)
    finally show ?thesis .
  qed
  have all: "firstError (checkUser v) [0..<4] = None \<longleftrightarrow>
      (\<forall>i < ?n. checkUser v i = None) \<and> (\<forall>i. ?n \<le> i \<and> i < 4 \<longrightarrow> checkUser v i = None)"
    using assms(2) by (auto simp: not_less) (meson le_less_linear)
  have valid: "list_all validUser (usedUsers v) \<longleftrightarrow> (\<forall>i < ?n. validUser (au_users v ! i))"
    by (simp add: list_all_length len nth)
  have dist: "distinct (map f (usedUsers v)) \<longleftrightarrow>
      (\<forall>i < ?n. \<forall>j < i. f (au_users v ! j) \<noteq> f (au_users v ! i))" for f :: "UserRecord \<Rightarrow> 'a"
    by (simp add: distinct_earlier len nth)
  have blank: "au_users v = usedUsers v @ replicate (4 - ?n) blankUser \<longleftrightarrow>
      drop ?n (au_users v) = replicate (4 - ?n) blankUser"
    by (metis append_take_drop_id same_append_eq usedUsers_def)
  have same': "(\<forall>i < ?n. validUser (au_users v ! i)) \<longrightarrow>
      ((\<forall>i < ?n. \<forall>j < i. \<not> sameUsername (au_users v ! i) (au_users v ! j)) \<longleftrightarrow>
       (\<forall>i < ?n. \<forall>j < i. nameOf (au_users v ! j) \<noteq> nameOf (au_users v ! i)))"
    using same by (rule impI)
  show ?thesis unfolding all valid dist blank used rest using same' by argo
qed

lemma authOk_iff:
  "authOk v \<longleftrightarrow> authShaped v \<and> unat (au_userCount v) \<le> 4 \<and> unat (au_tokenCount v) \<le> 8 \<and>
     usersOk v \<and> au_users v = usedUsers v @ replicate (4 - unat (au_userCount v)) blankUser \<and>
     tokensOk v"
proof (cases "authShaped v \<and> unat (au_userCount v) \<le> 4 \<and> unat (au_tokenCount v) \<le> 8")
  case True
  then have c: "authShaped v" "unat (au_userCount v) \<le> 4" "unat (au_tokenCount v) \<le> 8" by auto
  have lens: "length (usedUsers v) = unat (au_userCount v)" "length (usedTokens v) = unat (au_tokenCount v)"
    using c by (simp_all add: usedUsers_def usedTokens_def authShaped_def)
  then have e: "usedUsers v = [] \<longleftrightarrow> au_userCount v = 0"
    by (metis length_0_conv unat_eq_zero)
  have m: "\<not> (m = 0xFFFFFFFF \<or> n \<le> m) \<longleftrightarrow> m < n" for m n :: u32
  proof -
    have "\<not> (0xFFFFFFFF :: u32) < n"
      using unsigned_less [where ?'b = 32 and ?'a = nat, of n] by (simp add: not_less word_le_nat_alt)
    then show ?thesis by (auto simp: not_le)
  qed
  have users: "(\<forall>x \<in> set (map us_id (usedUsers v)). x < au_nextUserId v) \<longleftrightarrow>
      maximumId (map us_id (usedUsers v)) < au_nextUserId v" if "usedUsers v \<noteq> []"
  proof -
    obtain u where "u \<in> set (usedUsers v)" using \<open>usedUsers v \<noteq> []\<close> by (meson hd_in_set)
    then have "(\<forall>x \<in> set (map us_id (usedUsers v)). x < au_nextUserId v) \<longrightarrow> 0 < au_nextUserId v"
      by (auto simp: word_gt_0 dest!: bspec)
    then show ?thesis by (auto simp: maximumId_less)
  qed
  have A: "authOk v \<longleftrightarrow> firstError (checkUser v) [0..<4] = None \<and>
      (au_userCount v \<noteq> 0 \<longrightarrow> enabledAdmin v) \<and> firstError (checkToken v) [0..<8] = None \<and>
      (au_userCount v \<noteq> 0 \<longrightarrow> maximumId (map us_id (usedUsers v)) < au_nextUserId v) \<and>
      (au_tokenCount v \<noteq> 0 \<longrightarrow> maximumId (map tk_id (usedTokens v)) < au_nextTokenId v)"
    using c(1) unfolding authOk_def validateAuthentication_def Let_def m [symmetric]
    using c(2,3) by (cases "firstError (checkUser v) [0..<4]"; cases "firstError (checkToken v) [0..<8]")
         (auto simp del: firstError_None)
  have U: "usersOk v \<longleftrightarrow> list_all validUser (usedUsers v) \<and> distinct (map us_id (usedUsers v)) \<and>
      distinct (map nameOf (usedUsers v)) \<and> (au_userCount v \<noteq> 0 \<longrightarrow> enabledAdmin v) \<and>
      (au_userCount v \<noteq> 0 \<longrightarrow> maximumId (map us_id (usedUsers v)) < au_nextUserId v)"
    using users e unfolding usersOk_def by auto
  show ?thesis
    unfolding A checkUsers_iff [OF c(1,2)] U tokensOk_def using c by argo
next
  case False
  then show ?thesis by (auto simp: authOk_def validateAuthentication_def)
qed

text \<open>A new table of users in a valid table: what the three operations build.\<close>

lemma usedUsers_replace:
  assumes "length us \<le> 4"
    and v': "v' = v\<lparr>au_userCount := of_nat (length us), au_nextUserId := g,
      au_users := us @ replicate (4 - length us) blankUser\<rparr>"
  shows "unat (au_userCount v') = length us" "usedUsers v' = us"
proof -
  show c: "unat (au_userCount v') = length us" using assms by (simp add: v' unat_of_nat_u8)
  show "usedUsers v' = us" unfolding usedUsers_def c by (simp add: v')
qed

lemma authOk_replace:
  assumes ok: "authOk v" and n: "length us \<le> 4"
    and us: "list_all userShaped us" "list_all validUser us" "distinct (map us_id us)"
      "distinct (map nameOf us)" "\<forall>u \<in> set us. us_id u < g"
      "list_ex (\<lambda>u. us_enabled u \<and> us_role u = Admin) us"
    and v': "v' = v\<lparr>au_userCount := of_nat (length us), au_nextUserId := g,
      au_users := us @ replicate (4 - length us) blankUser\<rparr>"
  shows "authOk v'"
proof -
  note c = usedUsers_replace(1) [OF n v'] and used = usedUsers_replace(2) [OF n v']
  have tok: "au_tokens v' = au_tokens v" "au_tokenCount v' = au_tokenCount v"
    "au_nextTokenId v' = au_nextTokenId v" "usedTokens v' = usedTokens v"
    by (simp_all add: v' usedTokens_def)
  have "firstError (checkToken v') [0..<8] = firstError (checkToken v) [0..<8]"
    by (rule firstError_cong) (simp only: checkToken_def tok)
  then have "tokensOk v'" using ok by (simp add: tokensOk_def tok authOk_iff)
  moreover have "authShaped v'"
    using ok us(1) n
    by (simp add: authOk_iff authShaped_def tok)
       (simp add: v' list_all_length nth_append userShaped_def blankUser_def)
  moreover have "usersOk v'"
    using us by (auto simp: usersOk_def used enabledAdmin_def) (simp add: v')
  moreover have "au_users v' = usedUsers v' @ replicate (4 - unat (au_userCount v')) blankUser"
    by (simp only: used c) (simp add: v')
  ultimately show ?thesis
    using ok n c tok by (simp add: authOk_iff)
qed

subsection \<open>The operations on valid tables\<close>

lemma authOk_facts:
  assumes "authOk v"
  shows "length (usedUsers v) = unat (au_userCount v)" "unat (au_userCount v) \<le> 4"
    "list_all userShaped (usedUsers v)" "list_all validUser (usedUsers v)"
    "distinct (map us_id (usedUsers v))" "distinct (map nameOf (usedUsers v))"
    "\<forall>u \<in> set (usedUsers v). us_id u < au_nextUserId v"
    "au_users v = usedUsers v @ replicate (4 - unat (au_userCount v)) blankUser"
proof -
  have *: "authShaped v" "unat (au_userCount v) \<le> 4" "usersOk v"
    using assms by (auto simp: authOk_iff)
  show "length (usedUsers v) = unat (au_userCount v)" "unat (au_userCount v) \<le> 4"
    using * by (simp_all add: usedUsers_def authShaped_def)
  show "au_users v = usedUsers v @ replicate (4 - unat (au_userCount v)) blankUser"
    using assms by (simp add: authOk_iff)
  show "list_all userShaped (usedUsers v)"
    using * by (auto simp: usedUsers_def authShaped_def list_all_iff dest: in_set_takeD)
  show "list_all validUser (usedUsers v)" "distinct (map us_id (usedUsers v))"
    "distinct (map nameOf (usedUsers v))" "\<forall>u \<in> set (usedUsers v). us_id u < au_nextUserId v"
    using * by (auto simp: usersOk_def)
qed

definition credentialShaped :: "PasswordCredential \<Rightarrow> bool" where
  "credentialShaped c \<longleftrightarrow> length (pc_salt c) = kPasswordSaltSize \<and> length (pc_hash c) = kPasswordHashSize"

definition userNamed :: "UserRecord \<Rightarrow> bytes \<Rightarrow> nat \<Rightarrow> UserRole \<Rightarrow> bool \<Rightarrow> UserRecord" where
  "userNamed u name n role enabled =
     u\<lparr>us_username := put (zeros kUsernameSize) 0 (take n name), us_usernameLength := of_nat n,
       us_role := role, us_enabled := enabled\<rparr>"

lemma userNamed_applyCredential:
  "userNamed (applyCredential u c) name n role enabled = applyCredential (userNamed u name n role enabled) c"
  by (cases u) (simp add: userNamed_def applyCredential_def)

lemma managedUsername_facts:
  assumes "managedUsername username n" "\<And>cs. username = Some cs \<Longrightarrow> n \<le> length cs"
  obtains cs where "username = Some cs" "0 < n" "n \<le> 32" "length (take n cs) = n"
    "validUsername (put (zeros 32) 0 (take n cs)) n" "zeroPadded (put (zeros 32) 0 (take n cs)) n 32"
    "take n (put (zeros 32) 0 (take n cs)) = take n cs" "unat (of_nat n :: u8) = n"
proof -
  obtain cs where cs: "username = Some cs" "n \<le> length cs" "0 < n" "n \<le> 32"
    using assms by (auto simp: managedUsername_def split: option.splits)
  have t: "take n (put (zeros 32) 0 (take n cs)) = take n cs" using cs by (simp add: put_def)
  moreover have "validUsername (put (zeros 32) 0 (take n cs)) n"
    using assms(1) cs t by (simp add: validUsername_def managedUsername_def)
  moreover have "zeroPadded (put (zeros 32) 0 (take n cs)) n 32"
    using cs by (simp add: zeroPadded_def put_def chunk_def)
  moreover have "unat (of_nat n :: u8) = n" using cs by (intro unat_of_nat_u8) simp
  ultimately show ?thesis using cs by (intro that) simp_all
qed

lemma named_user_ok:
  assumes m: "managedUsername username n" "\<And>cs. username = Some cs \<Longrightarrow> n \<le> length cs"
    and role: "validRole role" and id: "us_id u \<noteq> 0" and sh: "userShaped u"
    and cred: "us_hashAlgorithm u = Pbkdf2HmacSha256" "10000 \<le> us_pbkdf2Iterations u"
      "us_pbkdf2Iterations u \<le> 2000000" "\<not> allZero (us_salt u)" "\<not> allZero (us_passwordHash u)"
  shows "userShaped (userNamed u (the username) n role enabled)"
    "validUser (userNamed u (the username) n role enabled)"
    "nameOf (userNamed u (the username) n role enabled) = take n (the username)"
proof -
  from managedUsername_facts [OF m] obtain cs where cs: "username = Some cs" "0 < n" "n \<le> 32"
    "length (take n cs) = n"
    "validUsername (put (zeros 32) 0 (take n cs)) n" "zeroPadded (put (zeros 32) 0 (take n cs)) n 32"
    "take n (put (zeros 32) 0 (take n cs)) = take n cs" "unat (of_nat n :: u8) = n"
    by blast
  show "userShaped (userNamed u (the username) n role enabled)"
    using cs sh by (simp add: userShaped_def userNamed_def)
  show "validUser (userNamed u (the username) n role enabled)"
    using cs role id cred by (auto simp: validUser_def userNamed_def validRole_def not_less)
  show "nameOf (userNamed u (the username) n role enabled) = take n (the username)"
    using cs by (simp add: nameOf_def userNamed_def)
qed

lemma usernameExists_iff:
  assumes "authOk v" "n \<le> length name"
  shows "usernameExists v name n e \<longleftrightarrow>
    (\<exists>u \<in> set (usedUsers v). us_id u \<noteq> e \<and> nameOf u = take n name)"
proof -
  have "unat (us_usernameLength u) = n \<and> take n (us_username u) = take n name \<longleftrightarrow>
      nameOf u = take n name" if "u \<in> set (usedUsers v)" for u
  proof
    assume eq: "nameOf u = take n name"
    have "userShaped u" "validUser u" using that authOk_facts(3,4) [OF assms(1)] by (auto simp: list_all_iff)
    then have "length (nameOf u) = unat (us_usernameLength u)"
      using validUser_length by (simp add: nameOf_def userShaped_def)
    then have "unat (us_usernameLength u) = n" using eq assms(2) by simp
    with eq show "unat (us_usernameLength u) = n \<and> take n (us_username u) = take n name"
      by (simp add: nameOf_def)
  qed (auto simp: nameOf_def)
  then show ?thesis by (auto simp: usernameExists_def list_ex_iff)
qed

lemma createUser_ok:
  assumes ok: "authOk v" and len: "\<And>cs. username = Some cs \<Longrightarrow> n \<le> length cs"
    and sh: "credentialShaped credential"
    and c: "createUser v username n role enabled credential = (v', res)"
  shows "(\<exists>e. res = Inl e \<and> v' = v) \<or>
    (authOk v' \<and> (\<exists>u. res = Inr (us_id u) \<and> usedUsers v' = usedUsers v @ [u] \<and>
       us_id u \<notin> us_id ` set (usedUsers v) \<and> nameOf u = take n (the username) \<and>
       us_role u = role \<and> us_enabled u = enabled \<and> us_passwordHash u = pc_hash credential))"
proof (cases res)
  case (Inl e)
  then show ?thesis using c by (auto simp: createUser_def Let_def split: if_splits)
next
  case (Inr i)
  note f = authOk_facts [OF ok]
  let ?s = "unat (au_userCount v)" and ?id = "if au_nextUserId v = 0 then 1 else au_nextUserId v"
  have g: "managedUsername username n" "validRole role" "validCredential credential"
    "?s < 4" "au_nextUserId v \<noteq> 0xFFFFFFFF" "\<not> usernameExists v (the username) n 0"
    using c Inr by (auto simp: createUser_def Let_def not_le split: if_splits)
  let ?b = "applyCredential (blankUser\<lparr>us_id := ?id\<rparr>) credential"
  let ?u = "userNamed ?b (the username) n role enabled"
  have slot: "au_users v ! ?s = blankUser" using f(1,8) g(4) by (simp add: nth_append)
  have upd: "(au_users v)[?s := ?u] = (usedUsers v @ [?u]) @ replicate (4 - Suc ?s) blankUser"
  proof -
    have "replicate (4 - ?s) blankUser = blankUser # replicate (4 - Suc ?s) blankUser"
      using g(4) by (metis Suc_diff_Suc replicate_Suc)
    then show ?thesis using f(1) by (subst f(8)) (simp add: list_update_append)
  qed
  have cand: "v\<lparr>au_nextUserId := ?id + 1, au_users := (au_users v)[?s := ?u],
      au_userCount := au_userCount v + 1\<rparr> = v'" "i = ?id" "hasEnabledAdmin v'"
  proof -
    have e: "applyCredential ((au_users v ! ?s)\<lparr>us_id := ?id, us_usernameLength := of_nat n,
        us_username := put (zeros 32) 0 (take n (the username)), us_role := role, us_enabled := enabled\<rparr>)
        credential = ?u"
      by (simp add: slot applyCredential_def userNamed_def)
    show "v\<lparr>au_nextUserId := ?id + 1, au_users := (au_users v)[?s := ?u],
      au_userCount := au_userCount v + 1\<rparr> = v'" "i = ?id" "hasEnabledAdmin v'"
      using c Inr g e by (auto simp: createUser_def Let_def slot applyCredential_def userNamed_def
          blankUser_def split: if_splits)
  qed
  have l1: "userShaped ?b" using sh
    by (simp add: userShaped_def credentialShaped_def applyCredential_def blankUser_def)
  have u: "userShaped ?u" "validUser ?u" "nameOf ?u = take n (the username)"
    using named_user_ok [OF g(1) len g(2), of ?b] l1 g(3)
    by (simp_all add: applyCredential_def validCredential_def)
  have id: "us_id ?u = ?id" by (simp add: userNamed_def applyCredential_def)
  have nid: "\<forall>x \<in> set (usedUsers v). us_id x < ?id" using f(7) by auto
  obtain cs where "username = Some cs" "n \<le> length cs"
    using managedUsername_facts [OF g(1) len] len by blast
  then have nn: "\<forall>x \<in> set (usedUsers v). nameOf x \<noteq> nameOf ?u"
    using g(6) usernameExists_iff [OF ok, of n cs 0] u(3) f(4)
    by (auto simp: list_all_iff validUser_def)
  have v': "v' = v\<lparr>au_userCount := of_nat (length (usedUsers v @ [?u])), au_nextUserId := ?id + 1,
      au_users := (usedUsers v @ [?u]) @ replicate (4 - length (usedUsers v @ [?u])) blankUser\<rparr>"
    unfolding cand(1) [symmetric] upd using f(1) by simp
  have big: "?id < ?id + 1"
    using g(5) by (auto intro: less_plus_1_word)
  have "list_all userShaped (usedUsers v @ [?u])" "list_all validUser (usedUsers v @ [?u])"
    "distinct (map us_id (usedUsers v @ [?u]))" "distinct (map nameOf (usedUsers v @ [?u]))"
    using f(3-6) u nid nn id by auto
  moreover have "\<forall>x \<in> set (usedUsers v @ [?u]). us_id x < ?id + 1"
    using nid id big by (auto intro: less_trans)
  moreover have used: "usedUsers v' = usedUsers v @ [?u]"
    by (rule usedUsers_replace(2) [OF _ v']) (use f(1) g(4) in simp)
  moreover have "list_ex (\<lambda>u. us_enabled u \<and> us_role u = Admin) (usedUsers v @ [?u])"
    using cand(3) by (simp add: hasEnabledAdmin_def used)
  ultimately have "authOk v'"
    using authOk_replace [OF ok _ _ _ _ _ _ _ v'] f(1) g(4) by simp
  moreover have "us_id ?u \<notin> us_id ` set (usedUsers v)" using nid id by auto
  ultimately show ?thesis
    using Inr cand(2) used u(3) id
    by (auto simp: userNamed_def applyCredential_def intro!: exI [of _ ?u])
qed

lemma userIndex_Some:
  assumes "authOk v" "userIndex v id' = Some i"
  shows "i < unat (au_userCount v)" "i < length (usedUsers v)" "us_id (usedUsers v ! i) = id'"
    "au_users v ! i = usedUsers v ! i" "usedUsers v ! i \<in> set (usedUsers v)"
proof -
  note f = authOk_facts [OF assms(1)]
  show i: "i < length (usedUsers v)" "us_id (usedUsers v ! i) = id'"
    using firstIndex_SomeD assms(2) unfolding userIndex_def by fastforce+
  then show "i < unat (au_userCount v)" using f(1) by simp
  show "au_users v ! i = usedUsers v ! i" using i(1) by (simp add: usedUsers_def)
  show "usedUsers v ! i \<in> set (usedUsers v)" using i(1) by simp
qed

lemma other_index:
  assumes "authOk v" "userIndex v id' = Some i"
  shows "set (usedUsers v) - {usedUsers v ! i} = {u \<in> set (usedUsers v). us_id u \<noteq> id'}"
proof -
  note f = authOk_facts [OF assms(1)] and x = userIndex_Some [OF assms]
  have "u = usedUsers v ! i" if "u \<in> set (usedUsers v)" "us_id u = id'" for u
    using f(5) that x(3,5) by (auto simp: distinct_map dest: inj_onD)
  with x(3) show ?thesis by auto
qed

lemma updateUser_ok:
  assumes ok: "authOk v" and len: "\<And>cs. username = Some cs \<Longrightarrow> n \<le> length cs"
    and sh: "\<And>c. credential = Some c \<Longrightarrow> credentialShaped c"
    and c: "updateUser v id' username n role enabled credential = (v', res)"
  shows "(res \<noteq> None \<and> v' = v) \<or>
    (res = None \<and> authOk v' \<and> (\<exists>i u. userIndex v id' = Some i \<and>
       usedUsers v' = (usedUsers v)[i := u] \<and> us_id u = id' \<and> nameOf u = take n (the username) \<and>
       us_role u = role \<and> us_enabled u = enabled \<and>
       us_passwordHash u = (case credential of None \<Rightarrow> us_passwordHash (usedUsers v ! i) | Some c \<Rightarrow> pc_hash c)))"
proof (cases res)
  case (Some e)
  then show ?thesis using c by (auto simp: updateUser_def Let_def split: if_splits option.splits)
next
  case None
  note f = authOk_facts [OF ok]
  have g: "managedUsername username n" "validRole role" "\<And>c. credential = Some c \<Longrightarrow> validCredential c"
    "userIndex v id' \<noteq> None" "\<not> usernameExists v (the username) n id'"
    using c None by (auto simp: updateUser_def Let_def split: if_splits option.splits)
  then obtain i where i: "userIndex v id' = Some i" by auto
  note x = userIndex_Some [OF ok i]
  let ?o = "usedUsers v ! i"
  let ?b = "case credential of None \<Rightarrow> ?o | Some c \<Rightarrow> applyCredential ?o c"
  let ?u = "userNamed ?b (the username) n role enabled" and ?us = "(usedUsers v)[i := userNamed
    (case credential of None \<Rightarrow> usedUsers v ! i | Some c \<Rightarrow> applyCredential (usedUsers v ! i) c) (the username) n role enabled]"
  have cand: "v' = v\<lparr>au_users := (au_users v)[i := ?u]\<rparr>" "hasEnabledAdmin v'"
  proof -
    have "\<not> (\<exists>c. credential = Some c \<and> \<not> validCredential c)" using g(3) by auto
    then have "updateUser v id' username n role enabled credential =
        (if \<not> hasEnabledAdmin (v\<lparr>au_users := (au_users v)[i := ?u]\<rparr>) then (v, Some US_LastAdminRequired)
         else (v\<lparr>au_users := (au_users v)[i := ?u]\<rparr>, None))"
      by (cases credential)
         (simp_all only: option.case userNamed_applyCredential,
          simp_all add: updateUser_def g(1,2,5) i x(4) Let_def userNamed_def applyCredential_def)
    then show "v' = v\<lparr>au_users := (au_users v)[i := ?u]\<rparr>" "hasEnabledAdmin v'"
      using c None by (metis option.distinct(1) prod.inject)+
  qed
  have o: "userShaped ?o" "validUser ?o" using f(3,4) x(5) by (auto simp: list_all_iff)
  have b: "userShaped ?b" "us_hashAlgorithm ?b = Pbkdf2HmacSha256" "10000 \<le> us_pbkdf2Iterations ?b"
      "us_pbkdf2Iterations ?b \<le> 2000000" "\<not> allZero (us_salt ?b)" "\<not> allZero (us_passwordHash ?b)"
      "us_id ?b = id'"
    using o g(3) sh x(3)
    by (auto simp: applyCredential_def validCredential_def validUser_def userShaped_def credentialShaped_def
        not_less split: option.splits)
  have nz: "us_id ?b \<noteq> 0" using b(7) o(2) x(3) by (simp add: validUser_def)
  note u = named_user_ok [OF g(1) len g(2) nz b(1-6), of enabled]
  have id: "us_id ?u = id'" using b(7) by (simp add: userNamed_def)
  obtain cs where "username = Some cs" "n \<le> length cs"
    using managedUsername_facts [OF g(1) len] len by blast
  then have nn: "nameOf ?u \<notin> set (map nameOf (usedUsers v)) - {map nameOf (usedUsers v) ! i}"
    using g(5) usernameExists_iff [OF ok, of n cs id'] u(3) x(2) other_index [OF ok i]
    by auto
  have v': "v' = v\<lparr>au_userCount := of_nat (length ?us), au_nextUserId := au_nextUserId v,
      au_users := ?us @ replicate (4 - length ?us) blankUser\<rparr>"
  proof -
    have "(au_users v)[i := ?u] = ?us @ replicate (4 - length ?us) blankUser"
      using f(1) x(2) by (subst f(8)) (simp add: list_update_append)
    then show ?thesis unfolding cand(1) using f(1) by simp
  qed
  have le: "length ?us \<le> 4" using f(1,2) by simp
  note used = usedUsers_replace(2) [OF le v']
  have "list_all userShaped ?us" "list_all validUser ?us" "\<forall>x \<in> set ?us. us_id x < au_nextUserId v"
    using f(3,4,7) u(1,2) id x(3,5) by (auto simp: list_all_iff dest!: set_update_subset_insert [THEN subsetD])
  moreover have "distinct (map us_id ?us)" "distinct (map nameOf ?us)"
  proof -
    have "map us_id ?us = map us_id (usedUsers v)"
      using id x(2,3) list_update_id [of "map us_id (usedUsers v)" i] by (simp add: map_update)
    then show "distinct (map us_id ?us)" using f(5) by simp
    show "distinct (map nameOf ?us)"
      unfolding map_update by (rule distinct_list_update [OF f(6) nn])
  qed
  moreover have "list_ex (\<lambda>u. us_enabled u \<and> us_role u = Admin) ?us"
    using cand(2) by (simp add: hasEnabledAdmin_def used)
  ultimately have "authOk v'" using authOk_replace [OF ok le _ _ _ _ _ _ v'] by simp
  moreover have "us_passwordHash ?u = (case credential of None \<Rightarrow> us_passwordHash ?o | Some c \<Rightarrow> pc_hash c)"
    by (simp add: userNamed_def applyCredential_def split: option.splits)
  ultimately show ?thesis
    using None i used u(3) id by (auto simp: userNamed_def)
qed

lemma removeUser_ok:
  assumes ok: "authOk v" and c: "removeUser v id' = (v', res)"
  shows "(res \<noteq> None \<and> v' = v) \<or>
    (res = None \<and> authOk v' \<and> (\<exists>i. userIndex v id' = Some i \<and>
       usedUsers v' = take i (usedUsers v) @ drop (Suc i) (usedUsers v) \<and>
       set (usedUsers v') = {u \<in> set (usedUsers v). us_id u \<noteq> id'}))"
proof (cases res)
  case (Some e)
  then show ?thesis using c by (auto simp: removeUser_def Let_def split: if_splits option.splits)
next
  case None
  note f = authOk_facts [OF ok]
  obtain i where i: "userIndex v id' = Some i"
    using c None by (auto simp: removeUser_def Let_def split: option.splits)
  note x = userIndex_Some [OF ok i]
  let ?u = "usedUsers v" and ?n = "unat (au_userCount v)"
  let ?us = "take i ?u @ drop (Suc i) ?u"
  have len: "length ?us = ?n - 1" using x(1,2) f(1) by simp
  have cnt: "unat (au_userCount v - 1) = ?n - 1" "au_userCount v - 1 = of_nat (length ?us)"
  proof -
    show 1: "unat (au_userCount v - 1) = ?n - 1" by (rule unat_minus_one) (use x(1) in auto)
    show "au_userCount v - 1 = of_nat (length ?us)" unfolding len 1 [symmetric] by simp
  qed
  have l4: "length (au_users v) = 4" using ok unfolding authOk_iff authShaped_def by blast
  have upd: "(shiftDown (au_users v) i ?n)[?n - 1 := blankUser] = ?us @ replicate (4 - length ?us) blankUser"
  proof -
    obtain k where k: "?n = Suc (i + k)" using x(1) less_iff_Suc_add by auto
    have "shiftDown (au_users v) i ?n = take i (au_users v) @ take k (drop (Suc i) (au_users v)) @
        drop (i + k) (au_users v)"
      using shiftDown_eq [of i ?n "au_users v"] x(1) f(2) l4 k by simp
    moreover have "take i (au_users v) = take i ?u" "take k (drop (Suc i) (au_users v)) = drop (Suc i) ?u"
      using k by (simp_all add: usedUsers_def drop_take min_def)
    moreover have "drop (i + k) (au_users v) = ?u ! (i + k) # replicate (4 - ?n) blankUser"
      using f(1) k by (subst f(8)) (simp flip: Cons_nth_drop_Suc)
    moreover have "replicate (4 - length ?us) blankUser = blankUser # replicate (4 - ?n) blankUser"
    proof -
      have "4 - length ?us = Suc (4 - ?n)" using len x(1) f(2) by simp
      then show ?thesis by simp
    qed
    ultimately show ?thesis using k len f(1) by (simp add: list_update_append)
  qed
  have v': "v' = v\<lparr>au_userCount := of_nat (length ?us), au_nextUserId := au_nextUserId v,
      au_users := ?us @ replicate (4 - length ?us) blankUser\<rparr>" and adm: "hasEnabledAdmin v'"
  proof -
    have "v' = v\<lparr>au_userCount := au_userCount v - 1,
        au_users := (shiftDown (au_users v) i ?n)[?n - 1 := blankUser]\<rparr> \<and> hasEnabledAdmin v'"
      using c None i by (auto simp: removeUser_def Let_def cnt(1) split: if_splits)
    then have a: "v' = v\<lparr>au_userCount := au_userCount v - 1,
        au_users := (shiftDown (au_users v) i ?n)[?n - 1 := blankUser]\<rparr>" and b: "hasEnabledAdmin v'"
      by auto
    show "v' = v\<lparr>au_userCount := of_nat (length ?us), au_nextUserId := au_nextUserId v,
      au_users := ?us @ replicate (4 - length ?us) blankUser\<rparr>"
      unfolding a upd cnt(2) by simp
    show "hasEnabledAdmin v'" by (rule b)
  qed
  have le: "length ?us \<le> 4" using len f(2) by simp
  note used = usedUsers_replace(2) [OF le v']
  have split: "?u = take i ?u @ ?u ! i # drop (Suc i) ?u" using x(2) by (rule id_take_nth_drop)
  have d: "distinct ?u" using f(5) by (simp add: distinct_map)
  have "set ?us = set ?u - {?u ! i}"
    using d by (subst (asm) split, subst (3) split) auto
  then have set: "set ?us = {u \<in> set ?u. us_id u \<noteq> id'}" using other_index [OF ok i] by simp
  have "list_all userShaped ?us" "list_all validUser ?us" "\<forall>x \<in> set ?us. us_id x < au_nextUserId v"
    using f(3,4,7) by (simp_all only: list_all_iff set) auto
  moreover have "distinct (map us_id ?us)" "distinct (map nameOf ?us)"
  proof -
    have "distinct (map h ?us)" if "distinct (map h ?u)" for h :: "UserRecord \<Rightarrow> 'x"
    proof -
      have "map h ?u = map h (take i ?u) @ h (?u ! i) # map h (drop (Suc i) ?u)"
        by (metis split map_append list.map(2))
      with that show ?thesis by simp
    qed
    then show "distinct (map us_id ?us)" "distinct (map nameOf ?us)" using f(5,6) by blast+
  qed
  moreover have "list_ex (\<lambda>u. us_enabled u \<and> us_role u = Admin) ?us"
    using adm by (simp add: hasEnabledAdmin_def used)
  ultimately have "authOk v'" using authOk_replace [OF ok le _ _ _ _ _ _ v'] by simp
  then show ?thesis using None i used set by auto
qed

end
