(* ===== verification/Node_Storage.thy ===== *)
theory Node_Storage
  imports Crc
begin

text \<open>
  node/lib/NodeCore/include/NodeStorage.h: what a node keeps in its EEPROM and in its user row.
  The EEPROM is a function from addresses to bytes.  It changes one byte at a time, so an operation
  that writes returns the list of \<open>storage_.update\<close> calls it makes, in order; power lost during
  the operation leaves the effect of a prefix of that list.  A bool result with an output parameter
  is an option.
\<close>

type_synonym eeprom = "nat \<Rightarrow> u8"
type_synonym eeprom_updates = "(nat \<times> u8) list"

definition applyUpdates :: "eeprom \<Rightarrow> eeprom_updates \<Rightarrow> eeprom" where
  "applyUpdates e us = foldl (\<lambda>e (address, value). e(address := value)) e us"

definition readBlock :: "eeprom \<Rightarrow> nat \<Rightarrow> nat \<Rightarrow> bytes" where
  "readBlock e address n = map (\<lambda>index. e (address + index)) [0..<n]"

text \<open>The loop \<open>update(address + index, bytes[index])\<close> from \<open>start\<close> on.\<close>

definition blockUpdates :: "nat \<Rightarrow> bytes \<Rightarrow> nat \<Rightarrow> eeprom_updates" where
  "blockUpdates address bs start = map (\<lambda>index. (address + index, bs ! index)) [start..<length bs]"

lemma applyUpdates_Nil [simp]: "applyUpdates e [] = e"
  and applyUpdates_Cons [simp]: "applyUpdates e ((a, b) # us) = applyUpdates (e(a := b)) us"
  and applyUpdates_append: "applyUpdates e (us @ vs) = applyUpdates (applyUpdates e us) vs"
  by (simp_all add: applyUpdates_def)

lemma applyUpdates_other: "a \<notin> fst ` set us \<Longrightarrow> applyUpdates e us a = e a"
  by (induction us arbitrary: e) auto

lemma applyUpdates_block:
  "applyUpdates e (blockUpdates address bs start) =
    (\<lambda>a. if address + start \<le> a \<and> a < address + length bs then bs ! (a - address) else e a)"
proof -
  have "applyUpdates e (map (\<lambda>index. (address + index, bs ! index)) [start..<n]) =
      (\<lambda>a. if address + start \<le> a \<and> a < address + n then bs ! (a - address) else e a)" for n
  proof (induction n)
    case (Suc n)
    then show ?case
      by (cases "start \<le> n") (auto simp: applyUpdates_append fun_eq_iff)
  qed (auto simp: fun_eq_iff)
  then show ?thesis by (simp add: blockUpdates_def)
qed

lemma length_readBlock [simp]: "length (readBlock e address n) = n"
  by (simp add: readBlock_def)

lemma nth_readBlock [simp]: "i < n \<Longrightarrow> readBlock e address n ! i = e (address + i)"
  by (simp add: readBlock_def)

lemma readBlock_other:
  assumes "\<And>a. address \<le> a \<Longrightarrow> a < address + n \<Longrightarrow> a \<notin> fst ` set us"
  shows "readBlock (applyUpdates e us) address n = readBlock e address n"
proof (rule nth_equalityI)
  fix i assume "i < length (readBlock (applyUpdates e us) address n)"
  then have "i < n" by simp
  then show "readBlock (applyUpdates e us) address n ! i = readBlock e address n ! i"
    using assms [of "address + i"] by (simp add: applyUpdates_other)
qed simp

subsection \<open>Factory credentials\<close>

abbreviation (input) kFactoryCredentialSize :: nat where "kFactoryCredentialSize \<equiv> 32"
abbreviation (input) kFactoryKeySize :: nat where "kFactoryKeySize \<equiv> 16"

text \<open>The loop that combines the key bytes with OR, to see whether they are all zero.\<close>

definition combinedBytes :: "bytes \<Rightarrow> u8" where
  "combinedBytes bs = foldl (\<lambda>combined b. combined OR b) 0 bs"

definition encodeFactoryCredentials :: "bytes \<Rightarrow> buffer \<Rightarrow> bytes option" where
  "encodeFactoryCredentials key output =
     (case output of
        None \<Rightarrow> None
      | Some out \<Rightarrow>
          if length out < kFactoryCredentialSize then None
          else if combinedBytes key = 0 then None
          else
            let s = zeros kFactoryCredentialSize;
                s = put s 0 [0x52, 0x53, 0x46, 0x43, 1, 1];
                s = put s 8 key;
                s = put s 24 (le16 (crc16Ccitt (take 24 s)));
                s = put s 26 [NOT (s ! 24)];
                s = put s 27 [NOT (s ! 25)]
            in Some (written s out))"

definition decodeFactoryCredentials :: "buffer \<Rightarrow> bytes option" where
  "decodeFactoryCredentials buf =
     (case buf of
        None \<Rightarrow> None
      | Some d \<Rightarrow>
          if length d \<noteq> kFactoryCredentialSize \<or>
             d ! 0 \<noteq> 0x52 \<or> d ! 1 \<noteq> 0x53 \<or> d ! 2 \<noteq> 0x46 \<or>
             d ! 3 \<noteq> 0x43 \<or> d ! 4 \<noteq> 1 \<or> d ! 5 \<noteq> 1 \<or>
             d ! 6 \<noteq> 0 \<or> d ! 7 \<noteq> 0 \<or>
             d ! 26 \<noteq> NOT (d ! 24) \<or> d ! 27 \<noteq> NOT (d ! 25) \<or>
             get16 d 24 \<noteq> crc16Ccitt (take 24 d)
          then None
          else if \<not> allZero (chunk d 28 (kFactoryCredentialSize - 28)) then None
          else if combinedBytes (chunk d 8 kFactoryKeySize) = 0 then None
          else Some (chunk d 8 kFactoryKeySize))"

definition factoryLoad :: "(nat \<Rightarrow> u8) \<Rightarrow> bytes option" where
  "factoryLoad userRow = decodeFactoryCredentials (Some (readBlock userRow 0 kFactoryCredentialSize))"

subsection \<open>Network configuration\<close>

abbreviation (input) kNetworkConfigSlotSize :: nat where "kNetworkConfigSlotSize \<equiv> 32"
abbreviation (input) kNetworkConfigSlotA :: nat where "kNetworkConfigSlotA \<equiv> 0"
abbreviation (input) kNetworkConfigSlotB :: nat where "kNetworkConfigSlotB \<equiv> 32"

datatype ProvisioningState = Provisional | ProvisionedActive | ProvisioningRaw u8

fun provisioningValue :: "ProvisioningState \<Rightarrow> u8" where
  "provisioningValue Provisional = 1"
| "provisioningValue ProvisionedActive = 2"
| "provisioningValue (ProvisioningRaw raw) = raw"

definition provisioningOf :: "u8 \<Rightarrow> ProvisioningState" where
  "provisioningOf raw = (if raw = 1 then Provisional else if raw = 2 then ProvisionedActive
     else ProvisioningRaw raw)"

record NetworkConfig =
  nc_generation :: u8
  nc_state :: ProvisioningState
  nc_nodeId :: u8
  nc_gatewayId :: u8
  nc_networkId :: u8
  nc_installationKey :: bytes
  nc_requestNonce :: u32

definition emptyNetworkConfig :: NetworkConfig where
  "emptyNetworkConfig = \<lparr>nc_generation = 0, nc_state = Provisional, nc_nodeId = 0, nc_gatewayId = 0,
     nc_networkId = 0, nc_installationKey = zeros 16, nc_requestNonce = 0\<rparr>"

definition encodeNetworkConfig :: "NetworkConfig \<Rightarrow> buffer \<Rightarrow> bytes option" where
  "encodeNetworkConfig v output =
     (case output of
        None \<Rightarrow> None
      | Some out \<Rightarrow>
          if length out < kNetworkConfigSlotSize \<or> nc_nodeId v = 0 \<or> nc_nodeId v = 255 \<or>
             nc_gatewayId v = 0 \<or> nc_gatewayId v = 255 \<or> nc_gatewayId v = nc_nodeId v
          then None
          else
            let state = provisioningValue (nc_state v) in
            if state \<noteq> provisioningValue Provisional \<and> state \<noteq> provisioningValue ProvisionedActive
            then None
            else
              let s = zeros kNetworkConfigSlotSize;
                  s = put s 0 [0x52, 0x4E, 2];
                  s = put s 3 [nc_generation v];
                  s = put s 4 [state];
                  s = put s 5 [nc_nodeId v];
                  s = put s 6 [nc_gatewayId v];
                  s = put s 7 [nc_networkId v];
                  s = put s 8 (nc_installationKey v);
                  s = put s 24 (le32 (nc_requestNonce v));
                  s = put s 30 (le16 (crc16Ccitt (take 30 s)))
              in Some (written s out))"

definition decodeNetworkConfig :: "buffer \<Rightarrow> NetworkConfig option" where
  "decodeNetworkConfig buf =
     (case buf of
        None \<Rightarrow> None
      | Some d \<Rightarrow>
          if length d \<noteq> kNetworkConfigSlotSize \<or> d ! 0 \<noteq> 0x52 \<or> d ! 1 \<noteq> 0x4E \<or> d ! 2 \<noteq> 2 \<or>
             get16 d 30 \<noteq> crc16Ccitt (take 30 d)
          then None
          else
            let state = d ! 4 in
            if (state \<noteq> provisioningValue Provisional \<and> state \<noteq> provisioningValue ProvisionedActive) \<or>
               d ! 5 = 0 \<or> d ! 5 = 255 \<or> d ! 6 = 0 \<or> d ! 6 = 255 \<or> d ! 5 = d ! 6 \<or>
               d ! 28 \<noteq> 0 \<or> d ! 29 \<noteq> 0
            then None
            else Some \<lparr>nc_generation = d ! 3, nc_state = provisioningOf state, nc_nodeId = d ! 5,
              nc_gatewayId = d ! 6, nc_networkId = d ! 7, nc_installationKey = chunk d 8 16,
              nc_requestNonce = get32 d 24\<rparr>)"

definition generationIsNewer :: "u8 \<Rightarrow> u8 \<Rightarrow> bool" where
  "generationIsNewer candidate current \<longleftrightarrow> serial_newer candidate current"

subsection \<open>Two slots in the EEPROM\<close>

text \<open>\<open>NetworkConfigStore\<close> and, in CounterStorage.h, \<open>SetCountStore\<close> have the same text but for
  the sizes, the codec and the order of the writes; those are the layout.\<close>

record 'v slot_layout =
  sl_size :: nat
  sl_slotA :: nat
  sl_slotB :: nat
  sl_encode :: "'v \<Rightarrow> buffer \<Rightarrow> bytes option"
  sl_decode :: "buffer \<Rightarrow> 'v option"
  sl_generation :: "'v \<Rightarrow> u8"
  sl_setGeneration :: "u8 \<Rightarrow> 'v \<Rightarrow> 'v"
  sl_updates :: "nat \<Rightarrow> bytes \<Rightarrow> eeprom_updates"

record slot_state =
  es_initialized :: bool
  es_hasValue :: bool
  es_currentSlot :: nat
  es_currentGeneration :: u8

definition newSlotState :: slot_state where
  "newSlotState = \<lparr>es_initialized = False, es_hasValue = False, es_currentSlot = 1,
     es_currentGeneration = 0\<rparr>"

definition slotLoad :: "'v slot_layout \<Rightarrow> eeprom \<Rightarrow> slot_state \<times> 'v option" where
  "slotLoad L e =
     (let a = sl_decode L (Some (readBlock e (sl_slotA L) (sl_size L)));
          b = sl_decode L (Some (readBlock e (sl_slotB L) (sl_size L)));
          found = (\<lambda>v slot. (\<lparr>es_initialized = True, es_hasValue = True, es_currentSlot = slot,
            es_currentGeneration = sl_generation L v\<rparr>, Some v))
      in case (a, b) of
           (None, None) \<Rightarrow> (\<lparr>es_initialized = True, es_hasValue = False, es_currentSlot = 1,
             es_currentGeneration = 0\<rparr>, None)
         | (Some va, None) \<Rightarrow> found va 0
         | (None, Some vb) \<Rightarrow> found vb 1
         | (Some va, Some vb) \<Rightarrow>
             if generationIsNewer (sl_generation L va) (sl_generation L vb) then found va 0
             else found vb 1)"

definition slotSave ::
  "'v slot_layout \<Rightarrow> eeprom \<Rightarrow> slot_state \<Rightarrow> 'v \<Rightarrow> slot_state \<times> 'v \<times> eeprom_updates \<times> bool" where
  "slotSave L e st v =
     (let st = (if \<not> es_initialized st then fst (slotLoad L e) else st);
          v = sl_setGeneration L (if es_hasValue st then es_currentGeneration st + 1 else 0) v
      in case sl_encode L v (Some (zeros (sl_size L))) of
           None \<Rightarrow> (st, v, [], False)
         | Some bs \<Rightarrow>
             let nextSlot = (if es_currentSlot st = 0 then 1 else 0);
                 address = (if nextSlot = 0 then sl_slotA L else sl_slotB L)
             in (st\<lparr>es_currentSlot := nextSlot, es_currentGeneration := sl_generation L v,
                    es_hasValue := True\<rparr>, v, sl_updates L address bs, True))"

lemma slotSave_succeeds:
  assumes "\<And>g. sl_encode L (sl_setGeneration L g v) (Some (zeros (sl_size L))) = Some (B g)"
  shows "\<exists>st' g us. slotSave L e st v = (st', sl_setGeneration L g v, us, True)"
  by (auto simp: slotSave_def Let_def assms)

text \<open>NetworkConfigStore invalidates the two magic bytes first and writes them last.\<close>

definition networkUpdates :: "nat \<Rightarrow> bytes \<Rightarrow> eeprom_updates" where
  "networkUpdates address bs = [(address, 0), (address + 1, 0)] @ blockUpdates address bs 2 @
     [(address + 1, bs ! 1), (address, bs ! 0)]"

definition networkLayout :: "NetworkConfig slot_layout" where
  "networkLayout = \<lparr>sl_size = kNetworkConfigSlotSize, sl_slotA = kNetworkConfigSlotA,
     sl_slotB = kNetworkConfigSlotB, sl_encode = encodeNetworkConfig, sl_decode = decodeNetworkConfig,
     sl_generation = nc_generation, sl_setGeneration = (\<lambda>g v. v\<lparr>nc_generation := g\<rparr>),
     sl_updates = networkUpdates\<rparr>"

definition networkLoad :: "eeprom \<Rightarrow> slot_state \<times> NetworkConfig option" where
  "networkLoad e = slotLoad networkLayout e"

definition networkSave ::
  "eeprom \<Rightarrow> slot_state \<Rightarrow> NetworkConfig \<Rightarrow> slot_state \<times> NetworkConfig \<times> eeprom_updates \<times> bool" where
  "networkSave e st v = slotSave networkLayout e st v"

definition networkFactoryReset :: "slot_state \<times> eeprom_updates" where
  "networkFactoryReset =
     (\<lparr>es_initialized = True, es_hasValue = False, es_currentSlot = 1, es_currentGeneration = 0\<rparr>,
      [(kNetworkConfigSlotA, 0), (kNetworkConfigSlotA + 1, 0),
       (kNetworkConfigSlotB, 0), (kNetworkConfigSlotB + 1, 0)])"

subsection \<open>What a layout owes the store, and what the store promises\<close>

definition slotAt :: "'v slot_layout \<Rightarrow> nat \<Rightarrow> nat" where
  "slotAt L slot = (if slot = 0 then sl_slotA L else sl_slotB L)"

definition slotView :: "'v slot_layout \<Rightarrow> eeprom \<Rightarrow> nat \<Rightarrow> 'v option" where
  "slotView L e slot = sl_decode L (Some (readBlock e (slotAt L slot) (sl_size L)))"

lemma slotLoad_view:
  "slotLoad L e = (let found = (\<lambda>v slot. (\<lparr>es_initialized = True, es_hasValue = True, es_currentSlot = slot,
            es_currentGeneration = sl_generation L v\<rparr>, Some v))
      in case (slotView L e 0, slotView L e 1) of
           (None, None) \<Rightarrow> (\<lparr>es_initialized = True, es_hasValue = False, es_currentSlot = 1,
             es_currentGeneration = 0\<rparr>, None)
         | (Some va, None) \<Rightarrow> found va 0
         | (None, Some vb) \<Rightarrow> found vb 1
         | (Some va, Some vb) \<Rightarrow>
             if generationIsNewer (sl_generation L va) (sl_generation L vb) then found va 0
             else found vb 1)"
  by (simp add: slotLoad_def slotView_def slotAt_def Let_def)

text \<open>The state of a store whose last operation was a load or a save: it is what a load gives.\<close>

definition slotSound :: "'v slot_layout \<Rightarrow> eeprom \<Rightarrow> slot_state \<Rightarrow> 'v option \<Rightarrow> bool" where
  "slotSound L e st v \<longleftrightarrow> slotLoad L e = (st, v)"

lemma slotSound_cases:
  assumes "slotSound L e st v"
  obtains (empty) "v = None" "slotView L e 0 = None" "slotView L e 1 = None"
      "st = \<lparr>es_initialized = True, es_hasValue = False, es_currentSlot = 1, es_currentGeneration = 0\<rparr>"
    | (found) w slot where "v = Some w" "slot < 2" "slotView L e slot = Some w"
      "st = \<lparr>es_initialized = True, es_hasValue = True, es_currentSlot = slot,
             es_currentGeneration = sl_generation L w\<rparr>"
proof -
  let ?st = "\<lambda>w slot. \<lparr>es_initialized = True, es_hasValue = True, es_currentSlot = slot,
    es_currentGeneration = sl_generation L w\<rparr>"
  have "(\<exists>w. v = Some w \<and> slotView L e 0 = Some w \<and> st = ?st w 0) \<or>
      (\<exists>w. v = Some w \<and> slotView L e 1 = Some w \<and> st = ?st w 1) \<or>
      v = None \<and> slotView L e 0 = None \<and> slotView L e 1 = None \<and>
      st = \<lparr>es_initialized = True, es_hasValue = False, es_currentSlot = 1, es_currentGeneration = 0\<rparr>"
    using assms unfolding slotSound_def slotLoad_view
    by (cases v; cases "slotView L e 0"; cases "slotView L e 1") (auto simp: Let_def split: if_splits)
  then show thesis
    using that(1) that(2) [of _ 0] that(2) [of _ 1] by (elim disjE exE conjE) simp_all
qed

lemma newer_step: "generationIsNewer (g + 1) g" "\<not> generationIsNewer g (g + 1)" for g :: u8
  by (simp_all add: generationIsNewer_def serial_newer_def sint_word_ariths)

text \<open>A complete sequence of updates leaves the encoded block, and touches nothing else; after some
  but not all of them the block does not decode.\<close>

locale eeprom_slots =
  fixes L :: "'v slot_layout" and shaped :: "'v \<Rightarrow> bool"
  assumes disjoint: "sl_slotA L + sl_size L \<le> sl_slotB L"
    and roundtrip: "shaped v \<Longrightarrow> sl_encode L v (Some (zeros (sl_size L))) = Some bs \<Longrightarrow>
      length bs = sl_size L \<and> sl_decode L (Some bs) = Some v"
    and set_generation: "sl_generation L (sl_setGeneration L g v) = g" "shaped (sl_setGeneration L g v) = shaped v"
    and updates_some: "sl_updates L address bs \<noteq> []"
    and updates_range: "length bs = sl_size L \<Longrightarrow> a \<in> fst ` set (sl_updates L address bs) \<Longrightarrow>
      address \<le> a \<and> a < address + sl_size L"
    and updates_all: "length bs = sl_size L \<Longrightarrow>
      readBlock (applyUpdates e (sl_updates L address bs)) address (sl_size L) = bs"
    and updates_torn: "length bs = sl_size L \<Longrightarrow> 0 < n \<Longrightarrow> n < length (sl_updates L address bs) \<Longrightarrow>
      sl_decode L (Some (readBlock (applyUpdates e (take n (sl_updates L address bs))) address (sl_size L))) = None"
begin

lemma other_slot:
  assumes "length bs = sl_size L" "slot < 2" "other < 2" "other \<noteq> slot"
    "set us \<subseteq> set (sl_updates L (slotAt L slot) bs)"
  shows "slotView L (applyUpdates e us) other = slotView L e other"
proof -
  have "readBlock (applyUpdates e us) (slotAt L other) (sl_size L) = readBlock e (slotAt L other) (sl_size L)"
  proof (rule readBlock_other)
    fix a assume a: "slotAt L other \<le> a" "a < slotAt L other + sl_size L"
    show "a \<notin> fst ` set us"
    proof
      assume "a \<in> fst ` set us"
      then have "a \<in> fst ` set (sl_updates L (slotAt L slot) bs)" using assms(5) by auto
      from updates_range [OF assms(1) this] a disjoint assms(2-4) show False
        by (auto simp: slotAt_def split: if_splits)
    qed
  qed
  then show ?thesis by (simp add: slotView_def)
qed

text \<open>A load that follows a write to the slot that is not current: the old value while the block does
  not decode, the new one when it holds the next generation.\<close>

lemma load_after:
  assumes "slotSound L e st old" and "t = (if es_currentSlot st = 0 then 1 else 0)"
    and "slotView L e' (es_currentSlot st) = slotView L e (es_currentSlot st)"
  shows "slotView L e' t = None \<Longrightarrow> slotLoad L e' = (st, old)"
    and "slotView L e' t = Some w \<Longrightarrow>
      sl_generation L w = (if es_hasValue st then es_currentGeneration st + 1 else 0) \<Longrightarrow>
      slotLoad L e' = (st\<lparr>es_currentSlot := t, es_currentGeneration := sl_generation L w, es_hasValue := True\<rparr>, Some w)"
proof -
  show "slotLoad L e' = (st, old)" if "slotView L e' t = None"
    using assms(1)
  proof (cases rule: slotSound_cases)
    case empty
    then show ?thesis using assms(2,3) that by (simp add: slotLoad_view)
  next
    case (found v slot)
    then have "slot = 0 \<or> slot = 1" by auto
    then show ?thesis using assms(2,3) that found by (auto simp: slotLoad_view Let_def)
  qed
  show "slotLoad L e' = (st\<lparr>es_currentSlot := t, es_currentGeneration := sl_generation L w, es_hasValue := True\<rparr>, Some w)"
    if "slotView L e' t = Some w" "sl_generation L w = (if es_hasValue st then es_currentGeneration st + 1 else 0)"
    using assms(1)
  proof (cases rule: slotSound_cases)
    case empty
    then show ?thesis using assms(2,3) that by (simp add: slotLoad_view Let_def)
  next
    case (found v slot)
    then have "slot = 0 \<or> slot = 1" by auto
    then show ?thesis using assms(2,3) that found newer_step by (auto simp: slotLoad_view Let_def)
  qed
qed

text \<open>Power lost before the last update leaves the old value, after it the new one.\<close>

lemma save_crash:
  assumes sound: "slotSound L e st old" and sh: "shaped v"
    and save: "slotSave L e st v = (st', v', us, True)" and n: "n \<le> length us"
  shows "slotLoad L (applyUpdates e (take n us)) = (if n < length us then (st, old) else (st', Some v'))"
    and "\<exists>g. v' = sl_setGeneration L g v"
proof -
  have init: "es_initialized st" "es_currentSlot st < 2"
    using sound by (cases rule: slotSound_cases; simp)+
  let ?g = "if es_hasValue st then es_currentGeneration st + 1 else 0"
  let ?t = "if es_currentSlot st = 0 then 1 else 0 :: nat"
  obtain bs where bs: "sl_encode L (sl_setGeneration L ?g v) (Some (zeros (sl_size L))) = Some bs"
    using save init(1) by (auto simp: slotSave_def Let_def split: option.splits)
  have s: "v' = sl_setGeneration L ?g v" "us = sl_updates L (slotAt L ?t) bs"
    "st' = st\<lparr>es_currentSlot := ?t, es_currentGeneration := sl_generation L v', es_hasValue := True\<rparr>"
    using save init(1) bs by (auto simp: slotSave_def Let_def slotAt_def)
  show "\<exists>g. v' = sl_setGeneration L g v" using s(1) by blast
  have rt: "length bs = sl_size L" "sl_decode L (Some bs) = Some v'"
    using roundtrip [OF _ bs] sh s(1) set_generation(2) by auto
  have t: "?t < 2" "es_currentSlot st \<noteq> ?t" using init(2) by auto
  have other: "slotView L (applyUpdates e (take n us)) (es_currentSlot st) = slotView L e (es_currentSlot st)"
    by (rule other_slot [OF rt(1) t(1) init(2) t(2)]) (simp add: s(2) set_take_subset)
  have g: "sl_generation L v' = ?g" using s(1) set_generation(1) by simp
  consider "n = 0" | "0 < n" "n < length us" | "n = length us" "n \<noteq> 0"
    using n by linarith
  then show "slotLoad L (applyUpdates e (take n us)) = (if n < length us then (st, old) else (st', Some v'))"
  proof cases
    case 1
    then show ?thesis using sound updates_some [of "slotAt L ?t" bs] s(2) by (simp add: slotSound_def)
  next
    case 2
    then have "slotView L (applyUpdates e (take n us)) ?t = None"
      using updates_torn [OF rt(1), of n "slotAt L ?t" e] by (simp add: slotView_def s(2))
    from load_after(1) [OF sound refl other this] 2 show ?thesis by simp
  next
    case 3
    then have "slotView L (applyUpdates e (take n us)) ?t = Some v'"
      using updates_all [OF rt(1), of e "slotAt L ?t"] rt(2) by (simp add: slotView_def s(2))
    from load_after(2) [OF sound refl other this g] 3 s(3) show ?thesis by simp
  qed
qed

text \<open>Only the bytes of the two slots matter, and only they are written.\<close>

lemma sound_frame:
  assumes "slotSound L e st v" "\<And>a. sl_slotA L \<le> a \<Longrightarrow> a < sl_slotB L + sl_size L \<Longrightarrow> e' a = e a"
  shows "slotSound L e' st v"
proof -
  have "slotView L e' slot = slotView L e slot" for slot
    using assms(2) disjoint by (auto simp: slotView_def readBlock_def slotAt_def intro!: arg_cong [where f = "sl_decode L"])
  then show ?thesis using assms(1) by (simp add: slotSound_def slotLoad_view)
qed

lemma save_range:
  assumes "shaped v" "slotSave L e st v = (st', v', us, ok)" "a \<in> fst ` set us"
  shows "sl_slotA L \<le> a \<and> a < sl_slotB L + sl_size L"
proof -
  obtain slot bs g where "us = sl_updates L (slotAt L slot) bs"
    "sl_encode L (sl_setGeneration L g v) (Some (zeros (sl_size L))) = Some bs"
    using assms(2,3) by (auto simp: slotSave_def Let_def slotAt_def split: option.splits)
  moreover from this have "length bs = sl_size L" using roundtrip assms(1) set_generation(2) by blast
  ultimately show ?thesis
    using updates_range [of bs a "slotAt L slot"] assms(3) disjoint by (auto simp: slotAt_def split: if_splits)
qed

text \<open>A save can only fail when the value cannot be encoded; then nothing was written.\<close>

lemma save_fails:
  "slotSave L e st v = (st', v', us, False) \<Longrightarrow> us = [] \<and> (es_initialized st \<longrightarrow> st' = st)"
  by (auto simp: slotSave_def Let_def split: option.splits)

end

text \<open>A block whose first byte is cleared first and written last has it cleared in between.\<close>

lemma torn_first:
  assumes "a \<notin> fst ` set mid" "0 < n" "n < length ((a, 0) # mid @ [(a, b)])"
  shows "applyUpdates e (take n ((a, 0) # mid @ [(a, b)])) a = 0"
proof -
  obtain k where k: "n = Suc k" "k \<le> length mid" using assms(2,3) by (cases n) auto
  have "a \<notin> fst ` set (take k mid)" using assms(1) by (auto dest: in_set_takeD)
  then show ?thesis using k by (simp add: applyUpdates_other)
qed

subsection \<open>The network configuration keeps its contract\<close>

definition networkShaped :: "NetworkConfig \<Rightarrow> bool" where
  "networkShaped v \<longleftrightarrow> length (nc_installationKey v) = 16 \<and>
     provisioningOf (provisioningValue (nc_state v)) = nc_state v"

definition networkBody :: "NetworkConfig \<Rightarrow> bytes" where
  "networkBody v = [0x52, 0x4E, 2, nc_generation v, provisioningValue (nc_state v), nc_nodeId v,
     nc_gatewayId v, nc_networkId v] @ nc_installationKey v @ le32 (nc_requestNonce v) @ [0, 0]"

definition networkOk :: "NetworkConfig \<Rightarrow> bool" where
  "networkOk v \<longleftrightarrow> nc_nodeId v \<noteq> 0 \<and> nc_nodeId v \<noteq> 255 \<and> nc_gatewayId v \<noteq> 0 \<and> nc_gatewayId v \<noteq> 255 \<and>
     nc_gatewayId v \<noteq> nc_nodeId v \<and> (nc_state v = Provisional \<or> nc_state v = ProvisionedActive)"

lemma encodeNetworkConfig_iff:
  assumes "networkShaped v" "32 \<le> length out"
  shows "encodeNetworkConfig v (Some out) =
    (if networkOk v then Some (written (networkBody v @ le16 (crc16Ccitt (networkBody v))) out) else None)"
proof -
  have len: "length (nc_installationKey v) = 16" using assms(1) by (simp add: networkShaped_def)
  have st: "provisioningValue (nc_state v) = 1 \<or> provisioningValue (nc_state v) = 2 \<longleftrightarrow>
      nc_state v = Provisional \<or> nc_state v = ProvisionedActive"
    using assms(1) by (cases "nc_state v") (auto simp: networkShaped_def provisioningOf_def split: if_splits)
  have body: "put (put (put (put (put (put (put (put (zeros 32) 0 [0x52, 0x4E, 2]) 3 [nc_generation v])
      4 [provisioningValue (nc_state v)]) 5 [nc_nodeId v]) 6 [nc_gatewayId v]) 7 [nc_networkId v])
      8 (nc_installationKey v)) 24 (le32 (nc_requestNonce v)) = written (networkBody v) (zeros 32)"
  proof -
    let ?b = "[0x52, 0x4E, 2, nc_generation v, provisioningValue (nc_state v), nc_nodeId v,
     nc_gatewayId v, nc_networkId v] @ nc_installationKey v @ le32 (nc_requestNonce v)"
    have "put (put (put (put (put (put (put (put (zeros 32) 0 [0x52, 0x4E, 2]) 3 [nc_generation v])
      4 [provisioningValue (nc_state v)]) 5 [nc_nodeId v]) 6 [nc_gatewayId v]) 7 [nc_networkId v])
      8 (nc_installationKey v)) 24 (le32 (nc_requestNonce v)) = written ?b (zeros 32)"
      using len by (simp add: put_start put_written)
    also have "\<dots> = written (?b @ replicate 2 0) (zeros 32)"
      using len by (intro written_zeros) simp
    finally show ?thesis by (simp add: networkBody_def numeral_2_eq_2)
  qed
  have b30: "length (networkBody v) = 30" using len by (simp add: networkBody_def)
  have full: "put (written (networkBody v) (zeros 32)) 30
      (le16 (crc16Ccitt (take 30 (written (networkBody v) (zeros 32))))) =
      networkBody v @ le16 (crc16Ccitt (networkBody v))"
    using b30 by (simp add: put_written) (simp add: written_full)
  show ?thesis
    using assms(2) st
    unfolding encodeNetworkConfig_def Let_def option.case body full
    by (auto simp: networkOk_def not_less)
qed

lemma decodeNetworkConfig_image:
  assumes "networkShaped v" "networkOk v"
  shows "decodeNetworkConfig (Some (networkBody v @ le16 (crc16Ccitt (networkBody v)))) = Some v"
proof -
  have len: "length (nc_installationKey v) = 16" using assms(1) by (simp add: networkShaped_def)
  let ?d = "networkBody v @ le16 (crc16Ccitt (networkBody v))"
  have b30: "length (networkBody v) = 30" using len by (simp add: networkBody_def)
  have crc: "get16 ?d 30 = crc16Ccitt (take 30 ?d)" "length ?d = 32"
    using b30 by (simp_all add: layout_simps)
  have fields: "?d ! 0 = 0x52" "?d ! 1 = 0x4E" "?d ! 2 = 2" "?d ! 3 = nc_generation v"
    "?d ! 4 = provisioningValue (nc_state v)" "?d ! 5 = nc_nodeId v" "?d ! 6 = nc_gatewayId v"
    "?d ! 7 = nc_networkId v" "chunk ?d 8 16 = nc_installationKey v" "get32 ?d 24 = nc_requestNonce v"
    "?d ! 28 = 0" "?d ! 29 = 0"
    using len by (simp_all add: networkBody_def layout_simps)
  have whole: "\<lparr>nc_generation = nc_generation v, nc_state = nc_state v, nc_nodeId = nc_nodeId v,
      nc_gatewayId = nc_gatewayId v, nc_networkId = nc_networkId v,
      nc_installationKey = nc_installationKey v, nc_requestNonce = nc_requestNonce v\<rparr> = v"
    by (cases v) simp
  have st: "provisioningOf (provisioningValue (nc_state v)) = nc_state v"
    using assms(1) by (simp add: networkShaped_def)
  show ?thesis
    using assms(2) unfolding decodeNetworkConfig_def Let_def option.case fields crc st whole networkOk_def
    by auto
qed

lemma networkUpdates_form:
  "networkUpdates address bs = (address, 0) # ((address + 1, 0) # blockUpdates address bs 2 @
     [(address + 1, bs ! 1)]) @ [(address, bs ! 0)]"
  by (simp add: networkUpdates_def)

lemma networkUpdates_done:
  assumes "length bs = 32"
  shows "readBlock (applyUpdates e (networkUpdates address bs)) address 32 = bs"
proof (rule nth_equalityI)
  fix i assume "i < length (readBlock (applyUpdates e (networkUpdates address bs)) address 32)"
  then have i: "i < 32" by simp
  then show "readBlock (applyUpdates e (networkUpdates address bs)) address 32 ! i = bs ! i"
    using assms
    by (cases "i = 0"; cases "i = 1")
       (auto simp: networkUpdates_def applyUpdates_append applyUpdates_block)
qed (simp add: assms)

interpretation network: eeprom_slots networkLayout networkShaped
proof
  show "sl_slotA networkLayout + sl_size networkLayout \<le> sl_slotB networkLayout"
    by (simp add: networkLayout_def)
next
  fix v bs
  assume sh: "networkShaped v" and "sl_encode networkLayout v (Some (zeros (sl_size networkLayout))) = Some bs"
  then have "networkOk v" "bs = networkBody v @ le16 (crc16Ccitt (networkBody v))"
    using encodeNetworkConfig_iff [OF sh, of "zeros 32"] sh
    by (auto simp: networkLayout_def written_full networkBody_def networkShaped_def split: if_splits)
  then show "length bs = sl_size networkLayout \<and> sl_decode networkLayout (Some bs) = Some v"
    using decodeNetworkConfig_image [OF sh] sh
    by (simp add: networkLayout_def) (simp add: networkBody_def networkShaped_def)
next
  fix g v show "sl_generation networkLayout (sl_setGeneration networkLayout g v) = g"
    "networkShaped (sl_setGeneration networkLayout g v) = networkShaped v"
    by (simp_all add: networkLayout_def networkShaped_def)
next
  fix address and bs :: bytes show "sl_updates networkLayout address bs \<noteq> []"
    by (simp add: networkLayout_def networkUpdates_def)
next
  fix address and bs :: bytes and a assume "length bs = sl_size networkLayout" "a \<in> fst ` set (sl_updates networkLayout address bs)"
  then show "address \<le> a \<and> a < address + sl_size networkLayout"
    by (auto simp: networkLayout_def networkUpdates_def blockUpdates_def)
next
  fix e address and bs :: bytes assume "length bs = sl_size networkLayout"
  then show "readBlock (applyUpdates e (sl_updates networkLayout address bs)) address (sl_size networkLayout) = bs"
    using networkUpdates_done by (simp add: networkLayout_def)
next
  fix e address and bs :: bytes and n
  assume "length bs = sl_size networkLayout" "0 < n" "n < length (sl_updates networkLayout address bs)"
  then have "applyUpdates e (take n (networkUpdates address bs)) address = 0"
    unfolding networkUpdates_form
    by (intro torn_first) (auto simp: networkLayout_def networkUpdates_form blockUpdates_def)
  then show "sl_decode networkLayout (Some (readBlock (applyUpdates e
      (take n (sl_updates networkLayout address bs))) address (sl_size networkLayout))) = None"
    by (simp add: networkLayout_def decodeNetworkConfig_def)
qed

lemma networkSave_succeeds:
  assumes "networkShaped v" "networkOk v"
  shows "\<exists>st' v' us. networkSave e st v = (st', v', us, True)"
proof -
  obtain B where "encodeNetworkConfig (v\<lparr>nc_generation := g\<rparr>) (Some (zeros 32)) = Some (B g)" for g
    using encodeNetworkConfig_iff [of "v\<lparr>nc_generation := _\<rparr>" "zeros 32"] assms
    by (simp add: networkShaped_def networkOk_def)
  then show ?thesis
    using slotSave_succeeds [of networkLayout v B e st] by (auto simp: networkSave_def networkLayout_def)
qed

text \<open>A factory reset, once complete, leaves nothing to load; the state is the one a load then gives.\<close>

lemma networkFactoryReset_empties:
  "networkLoad (applyUpdates e (snd networkFactoryReset)) = (fst networkFactoryReset, None)"
proof -
  have "slotView networkLayout (applyUpdates e (snd networkFactoryReset)) slot = None" for slot
    by (simp add: slotView_def slotAt_def networkLayout_def networkFactoryReset_def decodeNetworkConfig_def)
  then show ?thesis by (simp add: networkLoad_def slotLoad_view Let_def networkFactoryReset_def)
qed

subsection \<open>Factory credentials, round trip\<close>

lemma combinedBytes_zero: "combinedBytes bs = 0 \<longleftrightarrow> allZero bs"
proof -
  have "foldl (\<lambda>combined b. combined OR b) a bs = 0 \<longleftrightarrow> a = 0 \<and> allZero bs" for a :: u8
    by (induction bs arbitrary: a) (auto simp: allZero_def or_eq_0_iff)
  then show ?thesis by (simp add: combinedBytes_def)
qed

lemma factoryCredentials_roundtrip:
  assumes "length key = 16" "\<not> allZero key" "32 \<le> length out"
  shows "\<exists>d. encodeFactoryCredentials key (Some out) = Some (written d out) \<and> length d = 32 \<and>
    decodeFactoryCredentials (Some d) = Some key"
proof -
  let ?b = "[0x52, 0x53, 0x46, 0x43, 1, 1, 0, 0] @ key"
  let ?c = "crc16Ccitt ?b"
  let ?d = "?b @ le16 ?c @ [NOT (ucast ?c), NOT (ucast (drop_bit 8 ?c)), 0, 0, 0, 0]"
  have w1: "put (put (zeros 32) 0 [0x52, 0x53, 0x46, 0x43, 1, 1]) 8 key = written ?b (zeros 32)"
    by (simp add: put_start put_zeros numeral_2_eq_2)
  have n: "written (?b @ le16 ?c) (zeros 32) ! 24 = ucast ?c"
    "written (?b @ le16 ?c @ [x]) (zeros 32) ! 25 = ucast (drop_bit 8 ?c)" for x
    using assms(1) by (simp_all add: written_def le16_def nth_append)
  have w2: "put (written ?b (zeros 32)) 24 (le16 (crc16Ccitt (take 24 (written ?b (zeros 32))))) =
      written (?b @ le16 ?c) (zeros 32)"
    using assms(1) by (simp add: put_written)
  have w3: "put (written (?b @ le16 ?c) (zeros 32)) 26 [x] = written (?b @ le16 ?c @ [x]) (zeros 32)" for x
    using assms(1) by (simp add: put_written)
  have w4: "put (written (?b @ le16 ?c @ [x]) (zeros 32)) 27 [y] = ?b @ le16 ?c @ [x, y, 0, 0, 0, 0]" for x y
  proof -
    have "put (written (?b @ le16 ?c @ [x]) (zeros 32)) 27 [y] = written (?b @ le16 ?c @ [x, y]) (zeros 32)"
      using assms(1) by (simp add: put_written)
    also have "\<dots> = ?b @ le16 ?c @ [x, y] @ zeros 4"
      using assms(1) by (simp add: written_def)
    finally show ?thesis by (simp add: numeral_eq_Suc)
  qed
  have enc: "encodeFactoryCredentials key (Some out) = Some (written ?d out)"
    using assms(2,3) unfolding encodeFactoryCredentials_def Let_def option.case w1 w2 n w3 w4
    by (simp add: combinedBytes_zero not_less)
  have "take 24 ?d = ?b" "get16 ?d 24 = ?c" "chunk ?d 8 16 = key" "allZero (chunk ?d 28 4)" "length ?d = 32"
    using assms(1) by (simp_all add: layout_simps allZero_def)
  then have "decodeFactoryCredentials (Some ?d) = Some key"
    using assms(1,2) by (simp add: decodeFactoryCredentials_def combinedBytes_zero layout_simps le16_def)
  with enc assms(1) show ?thesis by (intro exI [of _ ?d]) simp
qed

end
