(* ===== verification/Counter_Storage.thy ===== *)
theory Counter_Storage
  imports Node_Storage
begin

text \<open>
  node/lib/NodeCore/include/CounterStorage.h: the pulse counter in the EEPROM.  \<open>SetCountStore\<close> keeps
  the last SET_COUNT result in two slots (a \<open>slot_layout\<close> of Node_Storage), \<open>CounterStore\<close> the count in a
  ring of 32 records, and \<open>SetCountJournal\<close> applies a command in steps that survive a reset between
  any two bytes written.
\<close>

subsection \<open>SET_COUNT results\<close>

abbreviation (input) kSetCountSlotSize :: nat where "kSetCountSlotSize \<equiv> 16"
abbreviation (input) kSetCountSlotA :: nat where "kSetCountSlotA \<equiv> 64"
abbreviation (input) kSetCountSlotB :: nat where "kSetCountSlotB \<equiv> 80"
abbreviation (input) kCounterRingStart :: nat where "kCounterRingStart \<equiv> 96"
abbreviation (input) kCounterRecordSize :: nat where "kCounterRecordSize \<equiv> 5"
abbreviation (input) kCounterRecordCount :: nat where "kCounterRecordCount \<equiv> 32"

datatype SetCountStatus = SetCountPending | SetCountApplied | SetCountRaw u8

fun setCountStatusValue :: "SetCountStatus \<Rightarrow> u8" where
  "setCountStatusValue SetCountPending = 1"
| "setCountStatusValue SetCountApplied = 2"
| "setCountStatusValue (SetCountRaw raw) = raw"

definition setCountStatusOf :: "u8 \<Rightarrow> SetCountStatus" where
  "setCountStatusOf raw = (if raw = 1 then SetCountPending else if raw = 2 then SetCountApplied
     else SetCountRaw raw)"

record SetCountResult =
  sr_generation :: u8
  sr_status :: SetCountStatus
  sr_commandId :: u16
  sr_oldCount :: u32
  sr_appliedCount :: u32

definition emptySetCountResult :: SetCountResult where
  "emptySetCountResult = \<lparr>sr_generation = 0, sr_status = SetCountPending, sr_commandId = 0,
     sr_oldCount = 0, sr_appliedCount = 0\<rparr>"

definition encodeSetCountResult :: "SetCountResult \<Rightarrow> buffer \<Rightarrow> bytes option" where
  "encodeSetCountResult v output =
     (case output of
        None \<Rightarrow> None
      | Some out \<Rightarrow>
          if length out < kSetCountSlotSize then None
          else
            let status = setCountStatusValue (sr_status v) in
            if status \<noteq> setCountStatusValue SetCountPending \<and> status \<noteq> setCountStatusValue SetCountApplied
            then None
            else
              let s = zeros kSetCountSlotSize;
                  s = put s 0 [0xC7, 1];
                  s = put s 2 [sr_generation v];
                  s = put s 3 [status];
                  s = put s 4 (le16 (sr_commandId v));
                  s = put s 6 (le32 (sr_oldCount v));
                  s = put s 10 (le32 (sr_appliedCount v));
                  s = put s 14 (le16 (crc16Ccitt (take 14 s)))
              in Some (written s out))"

definition decodeSetCountResult :: "buffer \<Rightarrow> SetCountResult option" where
  "decodeSetCountResult buf =
     (case buf of
        None \<Rightarrow> None
      | Some d \<Rightarrow>
          if length d \<noteq> kSetCountSlotSize \<or> d ! 0 \<noteq> 0xC7 \<or> d ! 1 \<noteq> 1 \<or>
             get16 d 14 \<noteq> crc16Ccitt (take 14 d)
          then None
          else if d ! 3 \<noteq> setCountStatusValue SetCountPending \<and> d ! 3 \<noteq> setCountStatusValue SetCountApplied
          then None
          else Some \<lparr>sr_generation = d ! 2, sr_status = setCountStatusOf (d ! 3), sr_commandId = get16 d 4,
            sr_oldCount = get32 d 6, sr_appliedCount = get32 d 10\<rparr>)"

text \<open>The first byte is cleared first and written last.\<close>

definition setCountUpdates :: "nat \<Rightarrow> bytes \<Rightarrow> eeprom_updates" where
  "setCountUpdates address bs = [(address, 0)] @ blockUpdates address bs 1 @ [(address, bs ! 0)]"

definition setCountLayout :: "SetCountResult slot_layout" where
  "setCountLayout = \<lparr>sl_size = kSetCountSlotSize, sl_slotA = kSetCountSlotA, sl_slotB = kSetCountSlotB,
     sl_encode = encodeSetCountResult, sl_decode = decodeSetCountResult, sl_generation = sr_generation,
     sl_setGeneration = (\<lambda>g v. v\<lparr>sr_generation := g\<rparr>), sl_updates = setCountUpdates\<rparr>"

definition setCountLoad :: "eeprom \<Rightarrow> slot_state \<times> SetCountResult option" where
  "setCountLoad e = slotLoad setCountLayout e"

definition setCountSave ::
  "eeprom \<Rightarrow> slot_state \<Rightarrow> SetCountResult \<Rightarrow> slot_state \<times> SetCountResult \<times> eeprom_updates \<times> bool" where
  "setCountSave e st v = slotSave setCountLayout e st v"

subsection \<open>The counter ring\<close>

definition counterSequenceIsNewer :: "u8 \<Rightarrow> u8 \<Rightarrow> bool" where
  "counterSequenceIsNewer candidate current \<longleftrightarrow>
     (let delta = (if candidate \<ge> current then ucast (candidate - current)
                   else ucast candidate + 255 - ucast current :: u16)
      in delta \<noteq> 0 \<and> delta < 128)"

record counter_state =
  cn_initialized :: bool
  cn_hasValue :: bool
  cn_currentSlot :: nat
  cn_currentSequence :: u8
  cn_currentCount :: u32

definition newCounterState :: counter_state where
  "newCounterState = \<lparr>cn_initialized = False, cn_hasValue = False, cn_currentSlot = kCounterRecordCount - 1,
     cn_currentSequence = 0, cn_currentCount = 0\<rparr>"

definition counterAddress :: "nat \<Rightarrow> nat" where
  "counterAddress slot = kCounterRingStart + slot * kCounterRecordSize"

text \<open>The body of the loop of \<open>load\<close>, over (found, newestSequence, newestSlot, newestCount).\<close>

definition scanSlot :: "eeprom \<Rightarrow> bool \<times> u8 \<times> nat \<times> u32 \<Rightarrow> nat \<Rightarrow> bool \<times> u8 \<times> nat \<times> u32" where
  "scanSlot e acc slot =
     (let (found, newestSequence, newestSlot, newestCount) = acc;
          address = counterAddress slot;
          sequence = e address
      in if sequence = 0xFF then acc
         else
           let bs = readBlock e (address + 1) 4 in
           if \<not> found \<or> counterSequenceIsNewer sequence newestSequence
           then (True, sequence, slot, get32 bs 0) else acc)"

definition counterLoad :: "eeprom \<Rightarrow> counter_state \<times> u32 \<times> bool" where
  "counterLoad e =
     (let (found, newestSequence, newestSlot, newestCount) =
            foldl (scanSlot e) (False, 0, 0, 0) [0..<kCounterRecordCount]
      in if \<not> found
         then (\<lparr>cn_initialized = True, cn_hasValue = False, cn_currentSlot = kCounterRecordCount - 1,
                 cn_currentSequence = 0, cn_currentCount = 0\<rparr>, 0, False)
         else (\<lparr>cn_initialized = True, cn_hasValue = True, cn_currentSlot = newestSlot,
                 cn_currentSequence = newestSequence, cn_currentCount = newestCount\<rparr>, newestCount, True))"

definition counterSave :: "eeprom \<Rightarrow> counter_state \<Rightarrow> u32 \<Rightarrow> counter_state \<times> eeprom_updates \<times> bool" where
  "counterSave e st value' =
     (let st = (if \<not> cn_initialized st then fst (counterLoad e) else st)
      in if cn_hasValue st \<and> value' = cn_currentCount st then (st, [], True)
         else
           let nextSlot = (cn_currentSlot st + 1) mod kCounterRecordCount;
               nextSequence = (if \<not> cn_hasValue st then 0
                 else if cn_currentSequence st = 0xFE then 0 else cn_currentSequence st + 1);
               address = counterAddress nextSlot
           in (st\<lparr>cn_currentSlot := nextSlot, cn_currentSequence := nextSequence,
                  cn_currentCount := value', cn_hasValue := True\<rparr>,
               blockUpdates (address + 1) (le32 value') 0 @ [(address, nextSequence)], True))"

subsection \<open>The SET_COUNT journal\<close>

datatype SetCountOutcome = OutcomeApplied | OutcomeRedelivered | OutcomeStorageFailure

record journal =
  jn_counter :: counter_state
  jn_results :: slot_state
  jn_last :: SetCountResult
  jn_hasResult :: bool

definition newJournal :: journal where
  "newJournal = \<lparr>jn_counter = newCounterState, jn_results = newSlotState,
     jn_last = emptySetCountResult, jn_hasResult = False\<rparr>"

text \<open>The new journal and count, the bytes written, and what the method returns.\<close>

definition completePending :: "eeprom \<Rightarrow> journal \<Rightarrow> journal \<times> u32 \<times> eeprom_updates \<times> bool" where
  "completePending e j =
     (let value' = sr_appliedCount (jn_last j);
          (counter, us, ok) = counterSave e (jn_counter j) value';
          j = j\<lparr>jn_counter := counter\<rparr>
      in if \<not> ok then (j, value', us, False)
         else
           let j = j\<lparr>jn_last := (jn_last j)\<lparr>sr_status := SetCountApplied\<rparr>\<rparr>;
               (results, l, vs, ok) = setCountSave (applyUpdates e us) (jn_results j) (jn_last j)
           in (j\<lparr>jn_results := results, jn_last := l\<rparr>, value', us @ vs, ok))"

definition journalRecover :: "eeprom \<Rightarrow> journal \<Rightarrow> u32 \<Rightarrow> journal \<times> u32 \<times> eeprom_updates" where
  "journalRecover e j value' =
     (let (results, loaded) = setCountLoad e;
          j = j\<lparr>jn_results := results, jn_hasResult := loaded \<noteq> None,
                jn_last := (case loaded of None \<Rightarrow> jn_last j | Some l \<Rightarrow> l)\<rparr>
      in if jn_hasResult j \<and> sr_status (jn_last j) = SetCountPending
         then let (j, value', us, _) = completePending e j in (j, value', us)
         else (j, value', []))"

definition journalApply ::
  "eeprom \<Rightarrow> journal \<Rightarrow> u16 \<Rightarrow> u32 \<Rightarrow> u32 \<Rightarrow>
   journal \<times> u32 \<times> SetCountOutcome \<times> SetCountResult option \<times> eeprom_updates" where
  "journalApply e j commandId requested value' =
     (if jn_hasResult j \<and> commandId \<noteq> 0 \<and> sr_commandId (jn_last j) = commandId
      then
        let (j, value', us, ok) = (if sr_status (jn_last j) = SetCountPending then completePending e j
                                   else (j, value', [], True))
        in if \<not> ok then (j, value', OutcomeStorageFailure, None, us)
           else (j, value', OutcomeRedelivered, Some (jn_last j), us)
      else
        let fresh = \<lparr>sr_generation = 0, sr_status = SetCountPending, sr_commandId = commandId,
              sr_oldCount = value', sr_appliedCount = requested\<rparr>;
            (results, fresh, us, ok) = setCountSave e (jn_results j) fresh;
            j = j\<lparr>jn_results := results\<rparr>
        in if \<not> ok then (j, value', OutcomeStorageFailure, None, us)
           else
             let j = j\<lparr>jn_last := fresh, jn_hasResult := True\<rparr>;
                 (j, value', vs, ok) = completePending (applyUpdates e us) j
             in if \<not> ok then (j, value', OutcomeStorageFailure, None, us @ vs)
                else (j, value', OutcomeApplied, Some (jn_last j), us @ vs))"

definition forgetCommandIds :: "eeprom \<Rightarrow> journal \<Rightarrow> u32 \<Rightarrow> journal \<times> eeprom_updates" where
  "forgetCommandIds e j value' =
     (if \<not> jn_hasResult j \<or> sr_commandId (jn_last j) = 0 then (j, [])
      else
        let cleared = emptySetCountResult\<lparr>sr_status := SetCountApplied, sr_oldCount := value',
              sr_appliedCount := value'\<rparr>;
            (results, cleared, us, ok) = setCountSave e (jn_results j) cleared;
            j = j\<lparr>jn_results := results\<rparr>
        in (if ok then j\<lparr>jn_last := cleared\<rparr> else j, us))"

text \<open>\<open>CounterReedProfile::begin\<close>: the count is loaded, then an interrupted command finished.\<close>

definition counterBoot :: "eeprom \<Rightarrow> journal \<times> u32 \<times> eeprom_updates" where
  "counterBoot e =
     (let (counter, value', _) = counterLoad e
      in journalRecover e (newJournal\<lparr>jn_counter := counter\<rparr>) value')"

text \<open>A counted pulse in \<open>CounterReedProfile::poll\<close>.\<close>

definition countPulse :: "eeprom \<Rightarrow> journal \<Rightarrow> u32 \<Rightarrow> journal \<times> u32 \<times> eeprom_updates" where
  "countPulse e j value' =
     (let value' = value' + 1;
          (counter, us, _) = counterSave e (jn_counter j) value'
      in (j\<lparr>jn_counter := counter\<rparr>, value', us))"

subsection \<open>The result store keeps its contract\<close>

definition setCountShaped :: "SetCountResult \<Rightarrow> bool" where
  "setCountShaped v \<longleftrightarrow> sr_status v = SetCountPending \<or> sr_status v = SetCountApplied"

definition setCountBody :: "SetCountResult \<Rightarrow> bytes" where
  "setCountBody v = [0xC7, 1, sr_generation v, setCountStatusValue (sr_status v)] @
     le16 (sr_commandId v) @ le32 (sr_oldCount v) @ le32 (sr_appliedCount v)"

lemma length_setCountBody [simp]: "length (setCountBody v) = 14"
  by (simp add: setCountBody_def)

lemma encodeSetCountResult_shaped:
  assumes "setCountShaped v" "16 \<le> length out"
  shows "encodeSetCountResult v (Some out) =
    Some (written (setCountBody v @ le16 (crc16Ccitt (setCountBody v))) out)"
proof -
  have body: "put (put (put (put (put (put (zeros 16) 0 [0xC7, 1]) 2 [sr_generation v])
      3 [setCountStatusValue (sr_status v)]) 4 (le16 (sr_commandId v))) 6 (le32 (sr_oldCount v)))
      10 (le32 (sr_appliedCount v)) = written (setCountBody v) (zeros 16)"
    by (simp add: setCountBody_def put_start put_written)
  have full: "put (written (setCountBody v) (zeros 16)) 14
      (le16 (crc16Ccitt (take 14 (written (setCountBody v) (zeros 16))))) =
      setCountBody v @ le16 (crc16Ccitt (setCountBody v))"
    by (simp add: put_written) (simp add: written_full)
  show ?thesis
    using assms unfolding encodeSetCountResult_def Let_def option.case body full
    by (auto simp: setCountShaped_def not_less)
qed

lemma decodeSetCountResult_image:
  assumes "setCountShaped v"
  shows "decodeSetCountResult (Some (setCountBody v @ le16 (crc16Ccitt (setCountBody v)))) = Some v"
proof -
  let ?d = "setCountBody v @ le16 (crc16Ccitt (setCountBody v))"
  have crc: "get16 ?d 14 = crc16Ccitt (take 14 ?d)" "length ?d = 16"
    by (simp_all add: layout_simps)
  have fields: "?d ! 0 = 0xC7" "?d ! 1 = 1" "?d ! 2 = sr_generation v"
    "?d ! 3 = setCountStatusValue (sr_status v)" "get16 ?d 4 = sr_commandId v"
    "get32 ?d 6 = sr_oldCount v" "get32 ?d 10 = sr_appliedCount v"
    by (simp_all add: setCountBody_def layout_simps)
  have st: "setCountStatusOf (setCountStatusValue (sr_status v)) = sr_status v"
    using assms by (auto simp: setCountShaped_def setCountStatusOf_def)
  have whole: "\<lparr>sr_generation = sr_generation v, sr_status = sr_status v, sr_commandId = sr_commandId v,
      sr_oldCount = sr_oldCount v, sr_appliedCount = sr_appliedCount v\<rparr> = v"
    by (cases v) simp
  show ?thesis
    using assms unfolding decodeSetCountResult_def option.case fields crc st whole setCountShaped_def
    by auto
qed

lemma setCountUpdates_done:
  assumes "length bs = 16"
  shows "readBlock (applyUpdates e (setCountUpdates address bs)) address 16 = bs"
proof (rule nth_equalityI)
  fix i assume "i < length (readBlock (applyUpdates e (setCountUpdates address bs)) address 16)"
  then have "i < 16" by simp
  then show "readBlock (applyUpdates e (setCountUpdates address bs)) address 16 ! i = bs ! i"
    using assms by (cases "i = 0") (auto simp: setCountUpdates_def applyUpdates_append applyUpdates_block)
qed (simp add: assms)

interpretation set_count: eeprom_slots setCountLayout setCountShaped
proof
  show "sl_slotA setCountLayout + sl_size setCountLayout \<le> sl_slotB setCountLayout"
    by (simp add: setCountLayout_def)
next
  fix v bs
  assume sh: "setCountShaped v" and "sl_encode setCountLayout v (Some (zeros (sl_size setCountLayout))) = Some bs"
  then have "bs = setCountBody v @ le16 (crc16Ccitt (setCountBody v))"
    using encodeSetCountResult_shaped [OF sh, of "zeros 16"] by (simp add: setCountLayout_def written_full)
  then show "length bs = sl_size setCountLayout \<and> sl_decode setCountLayout (Some bs) = Some v"
    using decodeSetCountResult_image [OF sh] by (simp add: setCountLayout_def)
next
  fix g v show "sl_generation setCountLayout (sl_setGeneration setCountLayout g v) = g"
    "setCountShaped (sl_setGeneration setCountLayout g v) = setCountShaped v"
    by (simp_all add: setCountLayout_def setCountShaped_def)
next
  fix address and bs :: bytes show "sl_updates setCountLayout address bs \<noteq> []"
    by (simp add: setCountLayout_def setCountUpdates_def)
next
  fix address and bs :: bytes and a
  assume "length bs = sl_size setCountLayout" "a \<in> fst ` set (sl_updates setCountLayout address bs)"
  then show "address \<le> a \<and> a < address + sl_size setCountLayout"
    by (auto simp: setCountLayout_def setCountUpdates_def blockUpdates_def)
next
  fix e address and bs :: bytes assume "length bs = sl_size setCountLayout"
  then show "readBlock (applyUpdates e (sl_updates setCountLayout address bs)) address (sl_size setCountLayout) = bs"
    using setCountUpdates_done by (simp add: setCountLayout_def)
next
  fix e address and bs :: bytes and n
  assume "length bs = sl_size setCountLayout" "0 < n" "n < length (sl_updates setCountLayout address bs)"
  then have "applyUpdates e (take n (setCountUpdates address bs)) address = 0"
    unfolding setCountUpdates_def append.simps
    by (intro torn_first) (auto simp: setCountLayout_def setCountUpdates_def blockUpdates_def)
  then show "sl_decode setCountLayout (Some (readBlock (applyUpdates e
      (take n (sl_updates setCountLayout address bs))) address (sl_size setCountLayout))) = None"
    by (simp add: setCountLayout_def decodeSetCountResult_def)
qed

subsection \<open>The ring finds the newest record\<close>

text \<open>How many saves ago a slot was written, and the sequence it was written with, when the newest
  record is in slot \<open>cur\<close> with sequence \<open>s\<close>; sequences run modulo 255.\<close>

definition slotAge :: "nat \<Rightarrow> nat \<Rightarrow> nat" where
  "slotAge cur slot = (if slot \<le> cur then cur - slot else cur + 32 - slot)"

definition sequenceAgo :: "nat \<Rightarrow> nat \<Rightarrow> nat" where
  "sequenceAgo s age = (if age \<le> s then s - age else s + 255 - age)"

lemma sequenceAgo_less: "s < 255 \<Longrightarrow> age < 32 \<Longrightarrow> sequenceAgo s age < 255"
  by (auto simp: sequenceAgo_def)

lemma counterSequenceIsNewer_nat:
  assumes "a < 255" "b < 255"
  shows "counterSequenceIsNewer (of_nat a) (of_nat b) \<longleftrightarrow>
    (let d = (if b \<le> a then a - b else a + 255 - b) in d \<noteq> 0 \<and> d < 128)"
proof -
  have u: "unat (of_nat a :: u8) = a" "unat (of_nat b :: u8) = b"
    using assms by (simp_all add: unat_of_nat)
  have c: "(ucast (of_nat x :: u8) :: u16) = of_nat x" if "x < 256" for x
    using that by (simp add: unsigned_of_nat take_bit_nat_eq_self)
  have le: "(of_nat b :: u8) \<le> of_nat a \<longleftrightarrow> b \<le> a" using u by (simp add: word_le_nat_alt)
  show ?thesis
  proof (cases "b \<le> a")
    case True
    have "(of_nat a :: u8) - of_nat b = of_nat (a - b)" using True by simp
    moreover have "unat (of_nat (a - b) :: u16) = a - b" using assms by (simp add: unat_of_nat)
    ultimately show ?thesis
      using True assms le c [of "a - b"]
      by (simp add: counterSequenceIsNewer_def Let_def word_less_nat_alt unat_eq_0 [symmetric])
  next
    case False
    obtain n where n: "n = a + 255 - b" "n + b = a + 255" using assms by simp
    have "(of_nat n :: u16) + of_nat b = of_nat a + 255"
      using n(2) by (metis of_nat_add of_nat_numeral)
    then have "(of_nat a :: u16) + 255 - of_nat b = of_nat n" by (simp add: algebra_simps)
    moreover have "n < 65536" using n(2) assms by linarith
    then have "unat (of_nat n :: u16) = n" by (simp add: unat_of_nat)
    ultimately have "counterSequenceIsNewer (of_nat a) (of_nat b) \<longleftrightarrow> n \<noteq> 0 \<and> n < 128"
      using False assms le c [of a] c [of b]
      by (simp add: counterSequenceIsNewer_def Let_def word_less_nat_alt unat_eq_0 [symmetric])
    then show ?thesis using n(1) False by (auto simp: Let_def)
  qed
qed

lemma newer_iff_younger:
  assumes "s < 255" "a < 32" "b < 32"
  shows "counterSequenceIsNewer (of_nat (sequenceAgo s a)) (of_nat (sequenceAgo s b)) \<longleftrightarrow> a < b"
  unfolding counterSequenceIsNewer_nat [OF sequenceAgo_less [OF assms(1,2)] sequenceAgo_less [OF assms(1,3)]]
  using assms by (auto simp: sequenceAgo_def Let_def)

text \<open>The \<open>n\<close> newest records are in the ring; the rest of it has never been written.\<close>

definition ringOf :: "eeprom \<Rightarrow> nat \<Rightarrow> nat \<Rightarrow> nat \<Rightarrow> bool" where
  "ringOf e cur s n \<longleftrightarrow> cur < 32 \<and> s < 255 \<and> 0 < n \<and> n \<le> 32 \<and>
     (\<forall>slot < 32. e (counterAddress slot) =
        (if slotAge cur slot < n then of_nat (sequenceAgo s (slotAge cur slot)) else 0xFF))"

definition recordCount :: "eeprom \<Rightarrow> nat \<Rightarrow> u32" where
  "recordCount e slot = get32 (readBlock e (counterAddress slot + 1) 4) 0"

lemma slotAge_less: "cur < 32 \<Longrightarrow> slot < 32 \<Longrightarrow> slotAge cur slot < 32"
  by (auto simp: slotAge_def)

lemma sequence_set: "a < 255 \<Longrightarrow> (of_nat a :: u8) \<noteq> 0xFF"
proof
  assume "a < 255" "(of_nat a :: u8) = 0xFF"
  then have "unat (of_nat a :: u8) = 255" by simp
  then show False using \<open>a < 255\<close> by (simp add: unat_of_nat)
qed

lemma scan_ring:
  assumes r: "ringOf e cur s n" and m: "m \<le> 32"
  shows "let (found, newestSequence, newestSlot, newestCount) = foldl (scanSlot e) (False, 0, 0, 0) [0..<m]
    in (found \<longleftrightarrow> (\<exists>i < m. slotAge cur i < n)) \<and>
       (found \<longrightarrow> newestSlot < m \<and> slotAge cur newestSlot < n \<and>
          newestSequence = of_nat (sequenceAgo s (slotAge cur newestSlot)) \<and>
          newestCount = recordCount e newestSlot \<and> (\<forall>i < m. slotAge cur newestSlot \<le> slotAge cur i))"
  using m
proof (induction m)
  case (Suc m)
  obtain found seq slot c where acc: "foldl (scanSlot e) (False, 0, 0, 0) [0..<m] = (found, seq, slot, c)"
    by (metis prod_cases4)
  have m: "m < 32" "cur < 32" "s < 255" using Suc.prems r by (simp_all add: ringOf_def)
  have ih: "found \<longleftrightarrow> (\<exists>i < m. slotAge cur i < n)"
    "found \<Longrightarrow> slot < m \<and> slotAge cur slot < n \<and> seq = of_nat (sequenceAgo s (slotAge cur slot)) \<and>
      c = recordCount e slot \<and> (\<forall>i < m. slotAge cur slot \<le> slotAge cur i)"
    using Suc.IH Suc.prems acc by auto
  have here: "e (counterAddress m) =
      (if slotAge cur m < n then of_nat (sequenceAgo s (slotAge cur m)) else 0xFF)"
    using r m(1) by (simp add: ringOf_def)
  have age: "slotAge cur m < 32" using slotAge_less m by blast
  show ?case
  proof (cases "slotAge cur m < n")
    case False
    then have "scanSlot e (found, seq, slot, c) m = (found, seq, slot, c)"
      using here by (simp add: scanSlot_def Let_def)
    moreover have "found \<Longrightarrow> slotAge cur slot \<le> slotAge cur m" using False ih(2) by linarith
    ultimately show ?thesis using False ih by (auto simp: acc less_Suc_eq)
  next
    case True
    have set: "e (counterAddress m) \<noteq> 0xFF"
      using here True sequence_set [OF sequenceAgo_less [OF m(3) age]] by simp
    have newer: "counterSequenceIsNewer (e (counterAddress m)) seq \<longleftrightarrow> slotAge cur m < slotAge cur slot"
      if found
    proof -
      have "slot < 32" using ih(2) that m(1) by auto
      then show ?thesis
        using ih(2) that here True newer_iff_younger [OF m(3) age slotAge_less [OF m(2)]] by simp
    qed
    have step: "scanSlot e (found, seq, slot, c) m =
        (if \<not> found \<or> slotAge cur m < slotAge cur slot
         then (True, e (counterAddress m), m, recordCount e m) else (found, seq, slot, c))"
      using set newer by (auto simp: scanSlot_def Let_def recordCount_def)
    show ?thesis
    proof (cases "\<not> found \<or> slotAge cur m < slotAge cur slot")
      case first: True
      have "\<forall>i < Suc m. slotAge cur m \<le> slotAge cur i"
        using first ih True by (fastforce simp: less_Suc_eq)
      then show ?thesis using first True here step by (auto simp: acc)
    next
      case False
      then have "found" "slotAge cur slot \<le> slotAge cur m" by auto
      then show ?thesis using False True ih step by (auto simp: acc less_Suc_eq)
    qed
  qed
qed simp

lemma slotAge_0: "slot < 32 \<Longrightarrow> cur < 32 \<Longrightarrow> slotAge cur slot = 0 \<longleftrightarrow> slot = cur"
  by (auto simp: slotAge_def)

lemma counterLoad_ring:
  assumes r: "ringOf e cur s n"
  shows "counterLoad e = (\<lparr>cn_initialized = True, cn_hasValue = True, cn_currentSlot = cur,
    cn_currentSequence = of_nat s, cn_currentCount = recordCount e cur\<rparr>, recordCount e cur, True)"
proof -
  obtain found seq slot c where acc: "foldl (scanSlot e) (False, 0, 0, 0) [0..<32] = (found, seq, slot, c)"
    by (metis prod_cases4)
  have cur: "cur < 32" "0 < n" "slotAge cur cur = 0"
    using r by (simp_all add: ringOf_def slotAge_def)
  note scan = scan_ring [OF r order_refl, unfolded acc Let_def prod.case]
  have found: found using scan cur by auto
  then have "slotAge cur slot = 0" "slot < 32" using scan cur by auto
  then have "slot = cur" using slotAge_0 cur(1) by blast
  then have "seq = of_nat s" "c = recordCount e cur" using scan found cur by (simp_all add: sequenceAgo_def)
  then show ?thesis using acc found \<open>slot = cur\<close> by (simp add: counterLoad_def)
qed

lemma counterLoad_empty:
  assumes "\<forall>slot < 32. e (counterAddress slot) = 0xFF"
  shows "counterLoad e = (\<lparr>cn_initialized = True, cn_hasValue = False, cn_currentSlot = 31,
    cn_currentSequence = 0, cn_currentCount = 0\<rparr>, 0, False)"
proof -
  have "foldl (scanSlot e) (False, 0, 0, 0) [0..<m] = (False, 0, 0, 0)" if "m \<le> 32" for m
    using that by (induction m) (auto simp: scanSlot_def assms Let_def)
  from this [of 32] show ?thesis by (simp add: counterLoad_def)
qed

subsection \<open>A cell that survives power loss\<close>

text \<open>What the journal needs of each of its two stores: a save leaves the old value until its last
  byte, then the new one, and keeps to its own bytes.\<close>

locale eeprom_cell =
  fixes holds :: "eeprom \<Rightarrow> 's \<Rightarrow> 'v option \<Rightarrow> bool"
    and load :: "eeprom \<Rightarrow> 's \<times> 'v option"
    and save :: "eeprom \<Rightarrow> 's \<Rightarrow> 'v \<Rightarrow> 's \<times> eeprom_updates"
    and shaped :: "'v \<Rightarrow> bool"
    and start stop :: nat
  assumes load_holds: "holds e st v \<Longrightarrow> load e = (st, v)"
    and frame: "holds e st v \<Longrightarrow> (\<And>a. start \<le> a \<Longrightarrow> a < stop \<Longrightarrow> e' a = e a) \<Longrightarrow> holds e' st v"
    and save_prefix: "holds e st v \<Longrightarrow> shaped w \<Longrightarrow> save e st w = (st', us) \<Longrightarrow> k \<le> length us \<Longrightarrow>
      if k < length us then holds (applyUpdates e (take k us)) st v
      else holds (applyUpdates e (take k us)) st' (Some w)"
    and save_range: "holds e st v \<Longrightarrow> shaped w \<Longrightarrow> save e st w = (st', us) \<Longrightarrow> a \<in> fst ` set us \<Longrightarrow>
      start \<le> a \<and> a < stop"
begin

lemma save_done:
  assumes "holds e st v" "shaped w" "save e st w = (st', us)"
  shows "holds (applyUpdates e us) st' (Some w)"
  using save_prefix [OF assms order_refl] by simp

lemma torn:
  assumes "holds e st v" "shaped w" "save e st w = (st', us)"
  shows "\<exists>st v'. holds (applyUpdates e (take k us)) st v' \<and> (v' = v \<or> v' = Some w)"
proof (cases "k < length us")
  case True
  then show ?thesis using save_prefix [OF assms, of k] by auto
next
  case False
  then show ?thesis using save_done [OF assms] by auto
qed

lemma untouched:
  assumes "holds e st v" "\<And>a. a \<in> fst ` set us \<Longrightarrow> a < start \<or> stop \<le> a"
  shows "holds (applyUpdates e us) st v"
proof (rule frame [OF assms(1)])
  fix a assume "start \<le> a" "a < stop"
  then have "a \<notin> fst ` set us" using assms(2) [of a] by auto
  then show "applyUpdates e us a = e a" by (rule applyUpdates_other)
qed

end

text \<open>The counter.\<close>

definition counterHolds :: "eeprom \<Rightarrow> counter_state \<Rightarrow> u32 option \<Rightarrow> bool" where
  "counterHolds e st v \<longleftrightarrow>
     (case v of
        None \<Rightarrow> (\<forall>slot < 32. e (counterAddress slot) = 0xFF) \<and>
          st = \<lparr>cn_initialized = True, cn_hasValue = False, cn_currentSlot = 31,
                cn_currentSequence = 0, cn_currentCount = 0\<rparr>
      | Some c \<Rightarrow> \<exists>cur s n. ringOf e cur s n \<and> recordCount e cur = c \<and>
          st = \<lparr>cn_initialized = True, cn_hasValue = True, cn_currentSlot = cur,
                cn_currentSequence = of_nat s, cn_currentCount = c\<rparr>)"

definition counterValue :: "eeprom \<Rightarrow> counter_state \<times> u32 option" where
  "counterValue e = (let (st, c, found) = counterLoad e in (st, if found then Some c else None))"

definition counterWrite :: "eeprom \<Rightarrow> counter_state \<Rightarrow> u32 \<Rightarrow> counter_state \<times> eeprom_updates" where
  "counterWrite e st c = (let (st', us, ok) = counterSave e st c in (st', us))"

lemma counterHolds_init: "counterHolds e st v \<Longrightarrow> cn_initialized st \<and> cn_currentSlot st < 32"
  by (auto simp: counterHolds_def ringOf_def split: option.splits)

lemma counterAddress_range: "slot < 32 \<Longrightarrow> 96 \<le> counterAddress slot \<and> counterAddress slot + 5 \<le> 256"
  by (simp add: counterAddress_def)

lemma counterHolds_same:
  assumes "counterHolds e st v" "\<And>slot. slot < 32 \<Longrightarrow> e' (counterAddress slot) = e (counterAddress slot)"
    and "recordCount e' (cn_currentSlot st) = recordCount e (cn_currentSlot st)"
  shows "counterHolds e' st v"
proof (cases v)
  case None
  then show ?thesis using assms by (simp add: counterHolds_def)
next
  case (Some c)
  then obtain cur s n where "ringOf e cur s n" "recordCount e cur = c"
    "st = \<lparr>cn_initialized = True, cn_hasValue = True, cn_currentSlot = cur,
           cn_currentSequence = of_nat s, cn_currentCount = c\<rparr>"
    using assms(1) by (auto simp: counterHolds_def)
  moreover from this have "ringOf e' cur s n" using assms(2) by (simp add: ringOf_def)
  ultimately show ?thesis using Some assms(3) by (auto simp: counterHolds_def)
qed

text \<open>The slot that is written next is the oldest one; the others are then one save older.\<close>

lemma slotAge_next:
  assumes "cur < 32" "slot < 32" "slot \<noteq> (cur + 1) mod 32"
  shows "slotAge ((cur + 1) mod 32) slot = slotAge cur slot + 1" "slotAge cur slot < 31"
proof -
  have "(cur + 1) mod 32 = (if cur = 31 then 0 else cur + 1)" using assms(1) by auto
  then show "slotAge ((cur + 1) mod 32) slot = slotAge cur slot + 1" "slotAge cur slot < 31"
    using assms by (auto simp: slotAge_def split: if_splits)
qed

lemma sequenceAgo_next:
  "s < 255 \<Longrightarrow> a < 31 \<Longrightarrow> sequenceAgo (if s = 254 then 0 else s + 1) (a + 1) = sequenceAgo s a"
  by (auto simp: sequenceAgo_def)

lemma ring_next:
  assumes r: "ringOf e cur s n" and t: "t = (cur + 1) mod 32" and s': "s' = (if s = 254 then 0 else s + 1)"
    and same: "\<And>slot. slot < 32 \<Longrightarrow> slot \<noteq> t \<Longrightarrow> e' (counterAddress slot) = e (counterAddress slot)"
    and here: "e' (counterAddress t) = of_nat s'"
  shows "ringOf e' t s' (min 32 (n + 1))"
proof -
  have b: "cur < 32" "s < 255" "0 < n" "n \<le> 32" "t < 32" "s' < 255" using r t s' by (auto simp: ringOf_def)
  have "e' (counterAddress slot) = (if slotAge t slot < min 32 (n + 1)
      then of_nat (sequenceAgo s' (slotAge t slot)) else 0xFF)" if "slot < 32" for slot
  proof (cases "slot = t")
    case True
    then show ?thesis using here b by (simp add: slotAge_def sequenceAgo_def)
  next
    case False
    have a: "slotAge t slot = slotAge cur slot + 1" "slotAge cur slot < 31"
      using slotAge_next [OF b(1) that] False t by auto
    have "e (counterAddress slot) = (if slotAge cur slot < n
        then of_nat (sequenceAgo s (slotAge cur slot)) else 0xFF)"
      using r that by (simp add: ringOf_def)
    moreover have "slotAge cur slot < n \<longleftrightarrow> slotAge t slot < min 32 (n + 1)" using a b by auto
    moreover have "sequenceAgo s' (slotAge t slot) = sequenceAgo s (slotAge cur slot)"
      using sequenceAgo_next [OF b(2) a(2)] a(1) s' by simp
    ultimately show ?thesis using same [OF that False] by simp
  qed
  then show ?thesis using b by (simp add: ringOf_def)
qed

lemma ring_first:
  assumes "\<And>slot. slot < 32 \<Longrightarrow> slot \<noteq> 0 \<Longrightarrow> e' (counterAddress slot) = 0xFF" "e' (counterAddress 0) = 0"
  shows "ringOf e' 0 0 1"
  using assms by (auto simp: ringOf_def slotAge_def sequenceAgo_def)

lemma get32_block: "get32 (le32 c) 0 = c"
  by (simp add: layout_simps)

lemma counterSave_updates:
  assumes "counterHolds e st v" "counterSave e st c = (st', us, ok)" "us \<noteq> []"
  obtains t q where "t = (cn_currentSlot st + 1) mod 32"
    "q = (if \<not> cn_hasValue st then 0 else if cn_currentSequence st = 0xFE then 0 else cn_currentSequence st + 1)"
    "us = blockUpdates (counterAddress t + 1) (le32 c) 0 @ [(counterAddress t, q)]"
    "st' = st\<lparr>cn_currentSlot := t, cn_currentSequence := q, cn_currentCount := c, cn_hasValue := True\<rparr>"
  using assms counterHolds_init [OF assms(1)]
  by (auto simp: counterSave_def Let_def split: if_splits)

lemma counterSave_skips:
  assumes "counterHolds e st v" "counterSave e st c = (st', [], ok)"
  shows "v = Some c \<and> st' = st"
  using assms counterHolds_init [OF assms(1)]
  by (auto simp: counterSave_def counterHolds_def Let_def split: if_splits option.splits)

lemma counter_updates_range:
  assumes "t < 32" "a \<in> fst ` set (blockUpdates (counterAddress t + 1) (le32 c) 0 @ [(counterAddress t, q)])"
  shows "96 \<le> a \<and> a < 256"
  using assms counterAddress_range [OF assms(1)] by (auto simp: blockUpdates_def)

lemma counterSave_torn:
  assumes h: "counterHolds e st v" and t: "t = (cn_currentSlot st + 1) mod 32"
    and us: "us = blockUpdates (counterAddress t + 1) (le32 c) 0 @ [(counterAddress t, q)]"
    and k: "k < length us"
  shows "counterHolds (applyUpdates e (take k us)) st v"
proof -
  have k4: "k \<le> 4" "length (blockUpdates (counterAddress t + 1) (le32 c) 0) = 4"
    using k us by (simp_all add: blockUpdates_def)
  have in_data: "counterAddress t + 1 \<le> a \<and> a \<le> counterAddress t + 4"
    if "a \<in> fst ` set (take k us)" for a
  proof -
    have "a \<in> fst ` set (blockUpdates (counterAddress t + 1) (le32 c) 0)"
      using that k4 us by (auto dest: in_set_takeD)
    then show ?thesis by (auto simp: blockUpdates_def)
  qed
  have cur: "cn_currentSlot st < 32" using counterHolds_init [OF h] by simp
  have "cn_currentSlot st \<noteq> t" using cur t by (cases "cn_currentSlot st = 31") auto
  then have far: "counterAddress (cn_currentSlot st) + 5 \<le> counterAddress t \<or>
      counterAddress t + 5 \<le> counterAddress (cn_currentSlot st)"
    by (auto simp: counterAddress_def)
  show ?thesis
  proof (rule counterHolds_same [OF h])
    fix slot :: nat
    have "counterAddress slot \<noteq> counterAddress t + 1" "counterAddress slot \<noteq> counterAddress t + 2"
      "counterAddress slot \<noteq> counterAddress t + 3" "counterAddress slot \<noteq> counterAddress t + 4"
      unfolding counterAddress_def by presburger+
    then have "counterAddress slot \<notin> fst ` set (take k us)" using in_data [of "counterAddress slot"] by linarith
    then show "applyUpdates e (take k us) (counterAddress slot) = e (counterAddress slot)"
      by (rule applyUpdates_other)
  next
    show "recordCount (applyUpdates e (take k us)) (cn_currentSlot st) = recordCount e (cn_currentSlot st)"
      unfolding recordCount_def
      by (subst readBlock_other) (use in_data far in fastforce)+
  qed
qed

lemma counterSave_done:
  assumes h: "counterHolds e st v" and save: "counterSave e st c = (st', us, ok)" and us: "us \<noteq> []"
  shows "counterHolds (applyUpdates e us) st' (Some c)"
proof -
  obtain t q where t: "t = (cn_currentSlot st + 1) mod 32"
    and q: "q = (if \<not> cn_hasValue st then 0 else if cn_currentSequence st = 0xFE then 0 else cn_currentSequence st + 1)"
    and us: "us = blockUpdates (counterAddress t + 1) (le32 c) 0 @ [(counterAddress t, q)]"
    and st': "st' = st\<lparr>cn_currentSlot := t, cn_currentSequence := q, cn_currentCount := c, cn_hasValue := True\<rparr>"
    by (rule counterSave_updates [OF h save us])
  let ?e = "applyUpdates e us"
  have e: "?e = (\<lambda>a. if counterAddress t + 1 \<le> a \<and> a < counterAddress t + 5
      then le32 c ! (a - (counterAddress t + 1)) else e a)(counterAddress t := q)"
    by (auto simp: us applyUpdates_append applyUpdates_block fun_eq_iff)
  have other: "?e (counterAddress slot) = e (counterAddress slot)" if "slot \<noteq> t" for slot
  proof -
    have "counterAddress slot + 5 \<le> counterAddress t \<or> counterAddress t + 5 \<le> counterAddress slot"
      using that unfolding counterAddress_def by linarith
    then show ?thesis by (auto simp: e)
  qed
  have here: "?e (counterAddress t) = q" by (simp add: e)
  have "readBlock ?e (counterAddress t + 1) 4 = le32 c"
    by (rule nth_equalityI) (simp_all add: e)
  then have cnt: "recordCount ?e t = c" by (simp add: recordCount_def get32_block)
  show ?thesis
  proof (cases v)
    case None
    then have s: "cn_currentSlot st = 31" "\<not> cn_hasValue st" "cn_initialized st"
      "\<forall>slot < 32. e (counterAddress slot) = 0xFF" using h by (auto simp: counterHolds_def)
    then have t0: "t = 0" "q = 0" using t q by simp_all
    have "ringOf ?e 0 0 1" using ring_first [of ?e] other here s(4) t0 by simp
    then show ?thesis using cnt s t0 st' unfolding counterHolds_def by fastforce
  next
    case (Some d)
    then obtain cur s n where r: "ringOf e cur s n" "st = \<lparr>cn_initialized = True, cn_hasValue = True,
        cn_currentSlot = cur, cn_currentSequence = of_nat s, cn_currentCount = d\<rparr>"
      using h by (auto simp: counterHolds_def)
    have s: "s < 255" using r(1) by (simp add: ringOf_def)
    have fe: "(of_nat s :: u8) = 0xFE \<longleftrightarrow> s = 254"
    proof
      assume "(of_nat s :: u8) = 0xFE"
      then have "unat (of_nat s :: u8) = 254" by simp
      then show "s = 254" using s by (simp add: unat_of_nat)
    qed simp
    have "q = of_nat (if s = 254 then 0 else s + 1)"
      using q r(2) fe by simp
    moreover from this have "ringOf ?e t (if s = 254 then 0 else s + 1) (min 32 (n + 1))"
      using ring_next [OF r(1), of t _ ?e] t r(2) other here by simp
    ultimately show ?thesis using cnt st' r(2) unfolding counterHolds_def by fastforce
  qed
qed

interpretation counter: eeprom_cell counterHolds counterValue counterWrite "\<lambda>c. True" 96 256
proof
  fix e st v assume h: "counterHolds e st v"
  then show "counterValue e = (st, v)"
    using counterLoad_empty counterLoad_ring
    by (auto simp: counterHolds_def counterValue_def split: option.splits)
  fix e' assume same: "\<And>a. 96 \<le> a \<Longrightarrow> a < 256 \<Longrightarrow> e' a = e a"
  show "counterHolds e' st v"
  proof (rule counterHolds_same [OF h])
    show "e' (counterAddress slot) = e (counterAddress slot)" if "slot < 32" for slot
      using counterAddress_range [OF that] same by simp
    have "readBlock e' (counterAddress (cn_currentSlot st) + 1) 4 = readBlock e (counterAddress (cn_currentSlot st) + 1) 4"
      using counterAddress_range [of "cn_currentSlot st"] counterHolds_init [OF h] same
      by (intro nth_equalityI) auto
    then show "recordCount e' (cn_currentSlot st) = recordCount e (cn_currentSlot st)"
      by (simp add: recordCount_def)
  qed
next
  fix e st v c st' us k
  assume h: "counterHolds e st v" and save: "counterWrite e st c = (st', us)" and k: "k \<le> length us"
  obtain ok where save: "counterSave e st c = (st', us, ok)"
    using save by (cases "counterSave e st c") (auto simp: counterWrite_def)
  show "if k < length us then counterHolds (applyUpdates e (take k us)) st v
    else counterHolds (applyUpdates e (take k us)) st' (Some c)"
  proof (cases "us = []")
    case True
    then show ?thesis using counterSave_skips [OF h] save h by auto
  next
    case False
    show ?thesis
    proof (cases "k < length us")
      case True
      from counterSave_updates [OF h save False] show ?thesis
        using counterSave_torn [OF h] True by metis
    next
      case k': False
      then show ?thesis using counterSave_done [OF h save False] k by simp
    qed
  qed
next
  fix e st v c st' us a
  assume h: "counterHolds e st v" and save: "counterWrite e st c = (st', us)" and a: "a \<in> fst ` set us"
  obtain ok where save: "counterSave e st c = (st', us, ok)"
    using save by (cases "counterSave e st c") (auto simp: counterWrite_def)
  have "us \<noteq> []" using a by auto
  from counterSave_updates [OF h save this] show "96 \<le> a \<and> a < 256"
    using counter_updates_range a by (metis mod_less_divisor zero_less_numeral)
qed

text \<open>The result store; its generation numbers are its own business.\<close>

definition resultErase :: "SetCountResult \<Rightarrow> SetCountResult" where
  "resultErase r = r\<lparr>sr_generation := 0\<rparr>"

definition resultHolds :: "eeprom \<Rightarrow> slot_state \<Rightarrow> SetCountResult option \<Rightarrow> bool" where
  "resultHolds e st v \<longleftrightarrow> (\<exists>r. slotSound setCountLayout e st r \<and> map_option resultErase r = v)"

definition resultValue :: "eeprom \<Rightarrow> slot_state \<times> SetCountResult option" where
  "resultValue e = (let (st, r) = setCountLoad e in (st, map_option resultErase r))"

definition resultWrite :: "eeprom \<Rightarrow> slot_state \<Rightarrow> SetCountResult \<Rightarrow> slot_state \<times> eeprom_updates" where
  "resultWrite e st w = (let (st', w', us, ok) = setCountSave e st w in (st', us))"

definition resultShaped :: "SetCountResult \<Rightarrow> bool" where
  "resultShaped w \<longleftrightarrow> setCountShaped w \<and> resultErase w = w"

lemma resultErase_idem [simp]: "resultErase (resultErase r) = resultErase r"
  and resultErase_fields [simp]: "sr_status (resultErase r) = sr_status r"
    "sr_commandId (resultErase r) = sr_commandId r" "sr_oldCount (resultErase r) = sr_oldCount r"
    "sr_appliedCount (resultErase r) = sr_appliedCount r"
  and resultErase_generation [simp]: "resultErase (r\<lparr>sr_generation := g\<rparr>) = resultErase r"
  and resultErase_status [simp]: "resultErase (r\<lparr>sr_status := s\<rparr>) = (resultErase r)\<lparr>sr_status := s\<rparr>"
  by (simp_all add: resultErase_def)

lemma resultShaped_erase [simp]: "resultShaped (resultErase r) \<longleftrightarrow> setCountShaped r"
  by (simp add: resultShaped_def setCountShaped_def)

lemma setCountSave_erase: "setCountSave e st (resultErase r) = setCountSave e st r"
  by (simp add: setCountSave_def slotSave_def setCountLayout_def resultErase_def Let_def)

lemma setCountSave_ok:
  assumes "setCountShaped w"
  obtains st' w' us where "setCountSave e st w = (st', w', us, True)" "resultErase w' = resultErase w"
proof -
  obtain B where enc: "encodeSetCountResult (w\<lparr>sr_generation := g\<rparr>) (Some (zeros 16)) = Some (B g)" for g
    using encodeSetCountResult_shaped [of "w\<lparr>sr_generation := _\<rparr>" "zeros 16"] assms
    by (simp add: setCountShaped_def)
  then obtain st' g us where "setCountSave e st w = (st', w\<lparr>sr_generation := g\<rparr>, us, True)"
    using slotSave_succeeds [of setCountLayout w B e st] by (auto simp: setCountSave_def setCountLayout_def)
  then show thesis using that by simp
qed

interpretation results: eeprom_cell resultHolds resultValue resultWrite resultShaped 64 96
proof
  fix e st v assume "resultHolds e st v"
  then obtain r where r: "slotSound setCountLayout e st r" "map_option resultErase r = v"
    by (auto simp: resultHolds_def)
  then show "resultValue e = (st, v)"
    by (simp add: resultValue_def setCountLoad_def slotSound_def)
  fix e' assume same: "\<And>a. 64 \<le> a \<Longrightarrow> a < 96 \<Longrightarrow> e' a = e a"
  have "slotSound setCountLayout e' st r"
    by (rule set_count.sound_frame [OF r(1)]) (simp add: setCountLayout_def same)
  then show "resultHolds e' st v" using r(2) by (auto simp: resultHolds_def)
next
  fix e st v w st' us k
  assume h: "resultHolds e st v" and w: "resultShaped w" and save: "resultWrite e st w = (st', us)"
    and k: "k \<le> length us"
  obtain r where r: "slotSound setCountLayout e st r" "map_option resultErase r = v"
    using h by (auto simp: resultHolds_def)
  have sh: "setCountShaped w" "resultErase w = w" using w by (simp_all add: resultShaped_def)
  obtain st1 w' us1 where "setCountSave e st w = (st1, w', us1, True)" "resultErase w' = resultErase w"
    by (rule setCountSave_ok [OF sh(1)])
  then have s: "setCountSave e st w = (st', w', us, True)" "resultErase w' = w"
    using save sh(2) by (simp_all add: resultWrite_def)
  show "if k < length us then resultHolds (applyUpdates e (take k us)) st v
    else resultHolds (applyUpdates e (take k us)) st' (Some w)"
    using set_count.save_crash(1) [OF r(1) sh(1) _ k] s r(2)
    by (fastforce simp: setCountSave_def resultHolds_def slotSound_def split: if_splits)
next
  fix e st v w st' us a
  assume w: "resultShaped w" and save: "resultWrite e st w = (st', us)" and a: "a \<in> fst ` set us"
  obtain w' ok where "setCountSave e st w = (st', w', us, ok)"
    using save by (cases "setCountSave e st w") (auto simp: resultWrite_def)
  from set_count.save_range [OF _ this [unfolded setCountSave_def] a] w
  show "64 \<le> a \<and> a < 96" by (simp add: resultShaped_def setCountLayout_def)
qed

subsection \<open>A journal and its EEPROM\<close>

definition diskHolds :: "eeprom \<Rightarrow> SetCountResult option \<Rightarrow> u32 option \<Rightarrow> bool" where
  "diskHolds e r c \<longleftrightarrow> (\<exists>st. resultHolds e st r) \<and> (\<exists>st. counterHolds e st c)"

definition journalHolds :: "eeprom \<Rightarrow> journal \<Rightarrow> SetCountResult option \<Rightarrow> u32 option \<Rightarrow> bool" where
  "journalHolds e j r c \<longleftrightarrow> resultHolds e (jn_results j) r \<and> counterHolds e (jn_counter j) c \<and>
     (if jn_hasResult j then r = Some (resultErase (jn_last j)) else r = None)"

definition countOf :: "u32 option \<Rightarrow> u32" where
  "countOf c = (case c of None \<Rightarrow> 0 | Some x \<Rightarrow> x)"

lemma journalHolds_disk: "journalHolds e j r c \<Longrightarrow> diskHolds e r c"
  by (auto simp: journalHolds_def diskHolds_def)

lemma disk_after_counter:
  assumes "resultHolds e rst r" "counterHolds e cst c" "counterWrite e cst x = (cst', us)"
  shows "\<exists>c'. diskHolds (applyUpdates e (take k us)) r c' \<and> (c' = c \<or> c' = Some x)"
    and "resultHolds (applyUpdates e us) rst r" "counterHolds (applyUpdates e us) cst' (Some x)"
proof -
  have out: "a < 64 \<or> 96 \<le> a" if "a \<in> fst ` set us" for a
    using counter.save_range [OF assms(2) TrueI assms(3) that] by simp
  then have "a < 64 \<or> 96 \<le> a" if "a \<in> fst ` set (take k us)" for a
    using that by (auto dest: in_set_takeD)
  then have "resultHolds (applyUpdates e (take k us)) rst r"
    using results.untouched [OF assms(1)] by blast
  then show "\<exists>c'. diskHolds (applyUpdates e (take k us)) r c' \<and> (c' = c \<or> c' = Some x)"
    using counter.torn [OF assms(2) TrueI assms(3), of k] by (auto simp: diskHolds_def)
  show "resultHolds (applyUpdates e us) rst r"
    using results.untouched [OF assms(1)] out by blast
  show "counterHolds (applyUpdates e us) cst' (Some x)"
    by (rule counter.save_done [OF assms(2) TrueI assms(3)])
qed

lemma disk_after_result:
  assumes "resultHolds e rst r" "counterHolds e cst c" "resultShaped w" "resultWrite e rst w = (rst', us)"
  shows "k < length us \<Longrightarrow> diskHolds (applyUpdates e (take k us)) r c"
    and "resultHolds (applyUpdates e us) rst' (Some w)" "counterHolds (applyUpdates e us) cst c"
proof -
  have out: "a < 96 \<or> 256 \<le> a" if "a \<in> fst ` set us" for a
    using results.save_range [OF assms(1,3,4) that] by simp
  then have "a < 96 \<or> 256 \<le> a" if "a \<in> fst ` set (take k us)" for a
    using that by (auto dest: in_set_takeD)
  then have "counterHolds (applyUpdates e (take k us)) cst c"
    using counter.untouched [OF assms(2)] by blast
  then show "k < length us \<Longrightarrow> diskHolds (applyUpdates e (take k us)) r c"
    using results.save_prefix [OF assms(1,3,4), of k] by (auto simp: diskHolds_def)
  show "counterHolds (applyUpdates e us) cst c"
    using counter.untouched [OF assms(2)] out by blast
  show "resultHolds (applyUpdates e us) rst' (Some w)"
    by (rule results.save_done [OF assms(1,3,4)])
qed

subsection \<open>Applying a command exactly once\<close>

lemma resultWrite_last:
  assumes "setCountSave e st r = (st', r', us, ok)"
  shows "resultWrite e st (resultErase r) = (st', us)"
  using assms by (simp add: resultWrite_def setCountSave_erase)

definition settled :: "SetCountResult \<Rightarrow> SetCountResult" where
  "settled l = (resultErase l)\<lparr>sr_status := SetCountApplied\<rparr>"

lemma settled_simps [simp]:
  "sr_status (settled l) = SetCountApplied" "sr_commandId (settled l) = sr_commandId l"
  "sr_oldCount (settled l) = sr_oldCount l" "sr_appliedCount (settled l) = sr_appliedCount l"
  "settled (resultErase l) = settled l" "resultShaped (settled l)" "settled (settled l) = settled l"
  by (simp_all add: settled_def resultErase_def resultShaped_def setCountShaped_def)

text \<open>The command is on record: it is pending, or applied and then the count is there.\<close>

definition onRecord :: "eeprom \<Rightarrow> SetCountResult \<Rightarrow> bool" where
  "onRecord e l \<longleftrightarrow>
     (\<exists>c. diskHolds e (Some ((resultErase l)\<lparr>sr_status := SetCountPending\<rparr>)) c) \<or>
     diskHolds e (Some (settled l)) (Some (sr_appliedCount l))"

lemma completePending_holds:
  assumes h: "journalHolds e j (Some r) c" and p: "sr_status r = SetCountPending"
    and call: "completePending e j = (j', value', us, ok)"
  shows "ok" "value' = sr_appliedCount r" "us \<noteq> []"
    "k < length us \<Longrightarrow> \<exists>c'. diskHolds (applyUpdates e (take k us)) (Some r) c'"
    "journalHolds (applyUpdates e us) j' (Some (settled r)) (Some (sr_appliedCount r))"
    "resultErase (jn_last j') = settled r" "jn_hasResult j'"
proof -
  have j: "resultHolds e (jn_results j) (Some r)" "counterHolds e (jn_counter j) c" "jn_hasResult j"
    "r = resultErase (jn_last j)"
    using h by (auto simp: journalHolds_def split: if_splits)
  obtain cst us1 ok1 where c1: "counterSave e (jn_counter j) (sr_appliedCount r) = (cst, us1, ok1)"
    by (rule prod_cases3)
  have ok1: ok1 using c1 by (auto simp: counterSave_def Let_def split: if_splits)
  let ?l = "(jn_last j)\<lparr>sr_status := SetCountApplied\<rparr>"
  obtain rst l us2 ok2 where r1: "setCountSave (applyUpdates e us1) (jn_results j) ?l = (rst, l, us2, ok2)"
    by (rule prod_cases4)
  have erase: "resultErase ?l = settled r" using j(4) by (simp add: settled_def)
  have "setCountShaped ?l" by (simp add: setCountShaped_def)
  then have ok2: "ok2" "resultErase l = settled r"
    using setCountSave_ok [of ?l "applyUpdates e us1" "jn_results j"] r1 erase by (metis prod.inject)+
  have res: "j' = j\<lparr>jn_counter := cst, jn_last := l, jn_results := rst\<rparr>" "value' = sr_appliedCount r"
    "us = us1 @ us2" "ok"
    using call c1 r1 ok1 ok2(1) j(4) by (auto simp: completePending_def Let_def)
  have w1: "counterWrite e (jn_counter j) (sr_appliedCount r) = (cst, us1)"
    using c1 by (simp add: counterWrite_def)
  have w2: "resultWrite (applyUpdates e us1) (jn_results j) (settled r) = (rst, us2)"
    using resultWrite_last [OF r1] erase by simp
  have sh: "resultShaped (settled r)" by simp
  note a = disk_after_counter [OF j(1,2) w1]
  note b = disk_after_result [OF a(2,3) sh w2]
  show "ok" "value' = sr_appliedCount r" using res by auto
  have ne: "us2 \<noteq> []"
    using r1 ok2(1) set_count.updates_some unfolding setCountSave_def slotSave_def
    by (auto simp: Let_def split: option.splits if_splits)
  then show "us \<noteq> []" using res by simp
  show "\<exists>c'. diskHolds (applyUpdates e (take k us)) (Some r) c'" if k: "k < length us"
  proof (cases "k \<le> length us1")
    case True
    then show ?thesis using a(1) [of k] res(3) by auto
  next
    case False
    then have "take k us = us1 @ take (k - length us1) us2" "k - length us1 < length us2"
      using k res(3) by auto
    then show ?thesis using b(1) by (auto simp: applyUpdates_append)
  qed
  show "journalHolds (applyUpdates e us) j' (Some (settled r)) (Some (sr_appliedCount r))"
    using b(2,3) res j(3) ok2(2) by (simp add: journalHolds_def applyUpdates_append)
  show "resultErase (jn_last j') = settled r" "jn_hasResult j'" using res ok2(2) j(3) by simp_all
qed

lemma boot_loads:
  assumes "diskHolds e r c"
  obtains j where "journalHolds e j r c"
    "counterBoot e = (if \<exists>l. r = Some l \<and> sr_status l = SetCountPending
       then let (j, value', us, _) = completePending e j in (j, value', us) else (j, countOf c, []))"
proof -
  obtain rst cst where h: "resultHolds e rst r" "counterHolds e cst c"
    using assms by (auto simp: diskHolds_def)
  have "\<exists>b. counterLoad e = (cst, countOf c, b)"
    using counter.load_holds [OF h(2)] h(2) counterLoad_empty
    by (cases "counterLoad e") (auto simp: counterValue_def countOf_def counterHolds_def split: if_splits option.splits)
  moreover obtain l where l: "setCountLoad e = (rst, l)" "map_option resultErase l = r"
    using results.load_holds [OF h(1)] by (cases "setCountLoad e") (auto simp: resultValue_def)
  ultimately obtain b where "counterLoad e = (cst, countOf c, b)" by blast
  let ?j = "\<lparr>jn_counter = cst, jn_results = rst, jn_last = (case l of None \<Rightarrow> emptySetCountResult | Some x \<Rightarrow> x),
    jn_hasResult = l \<noteq> None\<rparr>"
  have "journalHolds e ?j r c"
    using h l(2) by (auto simp: journalHolds_def split: option.splits)
  moreover have "counterBoot e = (if \<exists>l. r = Some l \<and> sr_status l = SetCountPending
       then let (j, value', us, _) = completePending e ?j in (j, value', us) else (?j, countOf c, []))"
    using \<open>counterLoad e = (cst, countOf c, b)\<close> l
    by (auto simp: counterBoot_def journalRecover_def newJournal_def Let_def split: option.splits)
  ultimately show thesis by (rule that)
qed

text \<open>Once on record, a command stays on record through any interrupted boot, and a boot that
  finishes leaves its count.\<close>

lemma boot_onRecord:
  assumes "onRecord e l" "counterBoot e = (j, value', us)"
  shows "value' = sr_appliedCount l"
    "journalHolds (applyUpdates e us) j (Some (settled l)) (Some (sr_appliedCount l))"
    "onRecord (applyUpdates e (take k us)) l"
proof -
  let ?p = "(resultErase l)\<lparr>sr_status := SetCountPending\<rparr>"
  have p: "settled ?p = settled l" "sr_status ?p = SetCountPending" "sr_appliedCount ?p = sr_appliedCount l"
    by (simp_all add: settled_def resultErase_def)
  have "value' = sr_appliedCount l \<and>
    journalHolds (applyUpdates e us) j (Some (settled l)) (Some (sr_appliedCount l)) \<and>
    onRecord (applyUpdates e (take k us)) l"
  proof (cases "\<exists>c. diskHolds e (Some ?p) c")
    case True
    then obtain c where d: "diskHolds e (Some ?p) c" ..
    obtain j0 where j1: "journalHolds e j0 (Some ?p) c" "counterBoot e =
        (let (j, value', us, _) = completePending e j0 in (j, value', us))"
      by (rule boot_loads [OF d]) (use p(2) in simp)
    then obtain ok where j0: "journalHolds e j0 (Some ?p) c" "completePending e j0 = (j, value', us, ok)"
      using assms(2) by (cases "completePending e j0") auto
    note fin = completePending_holds [OF j0(1) p(2) j0(2), unfolded p]
    have "onRecord (applyUpdates e (take k us)) l"
    proof (cases "k < length us")
      case True
      then show ?thesis using fin(4) by (auto simp: onRecord_def)
    next
      case False
      then show ?thesis using journalHolds_disk [OF fin(5)] by (simp add: onRecord_def)
    qed
    with fin(2,5) show ?thesis by simp
  next
    case False
    then have d: "diskHolds e (Some (settled l)) (Some (sr_appliedCount l))"
      using assms(1) by (auto simp: onRecord_def)
    obtain j0 where j0: "journalHolds e j0 (Some (settled l)) (Some (sr_appliedCount l))"
      "counterBoot e = (j0, countOf (Some (sr_appliedCount l)), [])"
      using boot_loads [OF d] by (metis option.inject settled_simps(1) SetCountStatus.distinct(1))
    with assms(2) show ?thesis by (simp add: assms(1) countOf_def)
  qed
  then show "value' = sr_appliedCount l"
    "journalHolds (applyUpdates e us) j (Some (settled l)) (Some (sr_appliedCount l))"
    "onRecord (applyUpdates e (take k us)) l" by blast+
qed

lemma boot_quiet:
  assumes "diskHolds e r c" "\<And>l. r = Some l \<Longrightarrow> sr_status l \<noteq> SetCountPending" "counterBoot e = (j, value', us)"
  shows "value' = countOf c" "us = []" "journalHolds e j r c"
proof -
  have no: "\<not> (\<exists>l. r = Some l \<and> sr_status l = SetCountPending)" using assms(2) by blast
  obtain j0 where "journalHolds e j0 r c" "counterBoot e = (j0, countOf c, [])"
    by (rule boot_loads [OF assms(1)]) (simp only: no if_False)
  with assms(3) show "value' = countOf c" "us = []" "journalHolds e j r c" by simp_all
qed

text \<open>Boots cut short after the given numbers of bytes written.\<close>

definition interruptedBoots :: "eeprom \<Rightarrow> nat list \<Rightarrow> eeprom" where
  "interruptedBoots e ks = foldl (\<lambda>e k. applyUpdates e (take k (snd (snd (counterBoot e))))) e ks"

lemma interrupted_onRecord: "onRecord e l \<Longrightarrow> onRecord (interruptedBoots e ks) l"
proof (induction ks arbitrary: e)
  case (Cons k ks)
  obtain j value' us where b: "counterBoot e = (j, value', us)" by (rule prod_cases3)
  show ?case using Cons.IH [OF boot_onRecord(3) [OF Cons.prems b, of k]] b by (simp add: interruptedBoots_def)
qed (simp add: interruptedBoots_def)

lemma interrupted_quiet:
  "diskHolds e r c \<Longrightarrow> (\<And>l. r = Some l \<Longrightarrow> sr_status l \<noteq> SetCountPending) \<Longrightarrow> interruptedBoots e ks = e"
proof (induction ks)
  case (Cons k ks)
  obtain j value' us where b: "counterBoot e = (j, value', us)" by (rule prod_cases3)
  show ?case using Cons boot_quiet(2) [OF Cons.prems b] b by (simp add: interruptedBoots_def)
qed (simp add: interruptedBoots_def)

definition commandResult :: "u16 \<Rightarrow> u32 \<Rightarrow> u32 \<Rightarrow> SetCountResult" where
  "commandResult commandId old requested = \<lparr>sr_generation = 0, sr_status = SetCountApplied,
     sr_commandId = commandId, sr_oldCount = old, sr_appliedCount = requested\<rparr>"

lemma settled_commandResult [simp]: "settled (commandResult i a b) = commandResult i a b"
  and commandResult_simps [simp]: "sr_appliedCount (commandResult i a b) = b"
    "sr_oldCount (commandResult i a b) = a" "sr_commandId (commandResult i a b) = i"
    "sr_status (commandResult i a b) = SetCountApplied"
  by (simp_all add: settled_def resultErase_def commandResult_def)

text \<open>The first \<open>n\<close> bytes, less one, change nothing that a boot sees; after them the command is on
  record.\<close>

lemma apply_fresh:
  assumes h: "journalHolds e j r c"
    and fresh: "\<And>l. r = Some l \<Longrightarrow> commandId = 0 \<or> sr_commandId l \<noteq> commandId"
    and call: "journalApply e j commandId requested value' = (j', v, outcome, res, us)"
  shows "\<exists>n. 0 < n \<and> n \<le> length us \<and> (\<forall>k < n. diskHolds (applyUpdates e (take k us)) r c) \<and>
      (\<forall>k \<ge> n. onRecord (applyUpdates e (take k us)) (commandResult commandId value' requested))"
    and "outcome = OutcomeApplied" "v = requested"
    "map_option resultErase res = Some (commandResult commandId value' requested)"
    "journalHolds (applyUpdates e us) j' (Some (commandResult commandId value' requested)) (Some requested)"
proof -
  let ?R = "commandResult commandId value' requested"
  let ?P = "\<lparr>sr_generation = 0, sr_status = SetCountPending, sr_commandId = commandId,
    sr_oldCount = value', sr_appliedCount = requested\<rparr>"
  have P: "resultErase ?P = ?P" "settled ?P = ?R" "resultShaped ?P"
    "(resultErase ?R)\<lparr>sr_status := SetCountPending\<rparr> = ?P"
    by (simp_all add: resultErase_def settled_def commandResult_def resultShaped_def setCountShaped_def)
  have j: "resultHolds e (jn_results j) r" "counterHolds e (jn_counter j) c"
    using h by (simp_all add: journalHolds_def)
  have no: "\<not> (jn_hasResult j \<and> commandId \<noteq> 0 \<and> sr_commandId (jn_last j) = commandId)"
    using h fresh by (auto simp: journalHolds_def)
  have "setCountShaped ?P" by (simp add: setCountShaped_def)
  then obtain rst l us1 where r1: "setCountSave e (jn_results j) ?P = (rst, l, us1, True)"
    and "resultErase l = resultErase ?P"
    by (rule setCountSave_ok)
  then have ok: "resultErase l = ?P" by (simp only: P(1))
  have w: "resultWrite e (jn_results j) ?P = (rst, us1)" using r1 by (simp add: resultWrite_def)
  let ?e = "applyUpdates e us1"
  let ?j = "j\<lparr>jn_results := rst, jn_last := l, jn_hasResult := True\<rparr>"
  note a = disk_after_result [OF j P(3) w]
  have hj: "journalHolds ?e ?j (Some ?P) c" using a(2,3) ok by (simp add: journalHolds_def)
  obtain j2 v2 us2 ok2 where c: "completePending ?e ?j = (j2, v2, us2, ok2)" by (rule prod_cases4)
  note fin = completePending_holds [OF hj _ c, simplified P SetCountResult.simps, OF refl]
  have out: "j' = j2" "v = requested" "outcome = OutcomeApplied" "res = Some (jn_last j2)" "us = us1 @ us2"
    using call no r1 c fin(1,2) by (auto simp: journalApply_def Let_def)
  have "us1 \<noteq> []"
    using r1 set_count.updates_some unfolding setCountSave_def slotSave_def
    by (auto simp: Let_def split: option.splits if_splits)
  moreover have "diskHolds (applyUpdates e (take k us)) r c" if "k < length us1" for k
    using a(1) that out(5) by simp
  moreover have "onRecord (applyUpdates e (take k us)) ?R" if k: "length us1 \<le> k" for k
  proof (cases "k < length us")
    case True
    then show ?thesis
      using fin(4) [of "k - length us1"] k out(5) P(4)
      by (auto simp: applyUpdates_append onRecord_def)
  next
    case False
    then show ?thesis
      using journalHolds_disk [OF fin(5)] out(5) by (simp add: applyUpdates_append onRecord_def)
  qed
  ultimately show "\<exists>n. 0 < n \<and> n \<le> length us \<and> (\<forall>k < n. diskHolds (applyUpdates e (take k us)) r c) \<and>
      (\<forall>k \<ge> n. onRecord (applyUpdates e (take k us)) ?R)"
    using out(5) by (intro exI [of _ "length us1"]) simp
  show "journalHolds (applyUpdates e us) j' (Some ?R) (Some requested)"
    using fin(5) out by (simp add: applyUpdates_append)
  show "map_option resultErase res = Some ?R" "outcome = OutcomeApplied" "v = requested"
    using out fin(6) by simp_all
qed

text \<open>A command that is on record is not applied again.\<close>

lemma apply_again:
  assumes "journalHolds e j (Some r) c" "sr_status r = SetCountApplied" "sr_commandId r \<noteq> 0"
  shows "journalApply e' j (sr_commandId r) requested value' =
      (j, value', OutcomeRedelivered, Some (jn_last j), [])" "resultErase (jn_last j) = r"
  using assms by (auto simp: journalHolds_def journalApply_def Let_def split: if_splits)

lemma countPulse_holds:
  assumes "journalHolds e j r c" "countPulse e j value' = (j', v, us)"
  shows "v = value' + 1" "journalHolds (applyUpdates e us) j' r (Some (value' + 1))"
    "\<exists>c'. diskHolds (applyUpdates e (take k us)) r c' \<and> (c' = c \<or> c' = Some (value' + 1))"
proof -
  have j: "resultHolds e (jn_results j) r" "counterHolds e (jn_counter j) c"
    using assms(1) by (simp_all add: journalHolds_def)
  obtain cst us1 ok where s: "counterSave e (jn_counter j) (value' + 1) = (cst, us1, ok)"
    by (rule prod_cases3)
  then have w: "counterWrite e (jn_counter j) (value' + 1) = (cst, us1)" by (simp add: counterWrite_def)
  have out: "v = value' + 1" "us = us1" "j' = j\<lparr>jn_counter := cst\<rparr>"
    using assms(2) s by (auto simp: countPulse_def Let_def)
  note a = disk_after_counter [OF j w]
  show "v = value' + 1" using out by simp
  show "\<exists>c'. diskHolds (applyUpdates e (take k us)) r c' \<and> (c' = c \<or> c' = Some (value' + 1))"
    using a(1) out by simp
  show "journalHolds (applyUpdates e us) j' r (Some (value' + 1))"
    using a(2,3) assms(1) out by (simp add: journalHolds_def)
qed

text \<open>After a new commissioning no command ID of the old installation is on record.\<close>

lemma forgetCommandIds_holds:
  assumes "journalHolds e j r c" "forgetCommandIds e j value' = (j', us)"
  shows "\<exists>r'. journalHolds (applyUpdates e us) j' r' c \<and> (\<forall>l. r' = Some l \<longrightarrow> sr_commandId l = 0)"
proof (cases "\<not> jn_hasResult j \<or> sr_commandId (jn_last j) = 0")
  case True
  then show ?thesis using assms by (auto simp: forgetCommandIds_def journalHolds_def)
next
  case False
  let ?w = "emptySetCountResult\<lparr>sr_status := SetCountApplied, sr_oldCount := value', sr_appliedCount := value'\<rparr>"
  have sh: "setCountShaped ?w" "resultErase ?w = ?w" "sr_commandId ?w = 0"
    by (simp_all add: setCountShaped_def resultErase_def emptySetCountResult_def)
  have j: "resultHolds e (jn_results j) r" "counterHolds e (jn_counter j) c"
    using assms(1) by (simp_all add: journalHolds_def)
  obtain rst l us1 where r1: "setCountSave e (jn_results j) ?w = (rst, l, us1, True)"
    and "resultErase l = resultErase ?w"
    by (rule setCountSave_ok [OF sh(1)])
  then have ok: "resultErase l = ?w" by (simp only: sh(2))
  have w: "resultWrite e (jn_results j) ?w = (rst, us1)" using r1 by (simp add: resultWrite_def)
  have shw: "resultShaped ?w" using sh by (simp add: resultShaped_def)
  have "j' = j\<lparr>jn_results := rst, jn_last := l\<rparr>" "us = us1"
    using assms(2) False r1 by (auto simp: forgetCommandIds_def Let_def)
  then have "journalHolds (applyUpdates e us) j' (Some ?w) c"
    using disk_after_result(2,3) [OF j shw w] False ok by (simp add: journalHolds_def)
  then show ?thesis using sh(3) by blast
qed

text \<open>A fresh EEPROM, all bytes 0xFF.\<close>

lemma fresh_disk: "diskHolds (\<lambda>a. 0xFF) None None"
proof -
  have "slotView setCountLayout (\<lambda>a. 0xFF) slot = None" for slot
    by (simp add: slotView_def setCountLayout_def decodeSetCountResult_def)
  then have "\<exists>st. slotSound setCountLayout (\<lambda>a. 0xFF) st None"
    by (auto simp: slotSound_def slotLoad_view Let_def)
  then show ?thesis by (auto simp: diskHolds_def resultHolds_def counterHolds_def)
qed

end
