(* ===== verification/Radio_Service.thy ===== *)
theory Radio_Service
  imports Telemetry_Codecs
begin

text \<open>
  gateway/src/RadioService.cpp: the radio task.  The RFM69 library is outside the repository: an
  operation returns the calls it makes on the module, in order, and what the module received is an
  argument.  The FreeRTOS queues are bounded lists.  The registry's lock-free view, the command
  service's pending view and the power targets are arguments of the receive step; the composed
  services supply their own.  Reading the module's registers back to detect a reset module
  (\<open>checkModule\<close>, \<open>restoreModule\<close>), start-up and the counters shown in the status page are left out,
  but for those that say what became of a frame or a command.
\<close>

subsection \<open>Frames, commands, state\<close>

abbreviation (input) kMaxPayloadSize :: nat where "kMaxPayloadSize \<equiv> 61"
abbreviation (input) kRxQueueDepth :: nat where "kRxQueueDepth \<equiv> 16"
abbreviation (input) kSessionQueueDepth :: nat where "kSessionQueueDepth \<equiv> 8"
abbreviation (input) kCommandQueueDepth :: nat where "kCommandQueueDepth \<equiv> 8"
abbreviation (input) kRadioKeySize :: nat where "kRadioKeySize \<equiv> 16"

datatype RadioProfile = OperationalProfile | CommissioningProfile

record ReceivedFrame =
  rf_data :: bytes
  rf_size :: u8
  rf_senderId :: u16
  rf_rssi :: s16
  rf_ackRequested :: bool
  rf_receivedAtMs :: u32

datatype RadioState =
  RadioStopped | RadioStarting | RadioSpiInitializationFailed | RadioInitializationFailed
  | RadioVersionMismatch | RadioEncryptionKeyMissing | RadioTaskFailed | RadioReceiving

datatype CommandKind = SetProfile | BeginCommissioning | ApplyInstallation | SendFrame

record RadioCommand =
  rc_kind :: CommandKind
  rc_profile :: RadioProfile
  rc_targetId :: u16
  rc_data :: bytes
  rc_key :: bytes
  rc_networkId :: u8
  rc_size :: u8
  rc_requestAck :: bool
  rc_switchAfterSend :: bool

definition emptyRadioCommand :: RadioCommand where
  "emptyRadioCommand = \<lparr>rc_kind = SetProfile, rc_profile = OperationalProfile, rc_targetId = 0,
     rc_data = zeros kMaxPayloadSize, rc_key = zeros kRadioKeySize, rc_networkId = 0, rc_size = 0,
     rc_requestAck = False, rc_switchAfterSend = False\<rparr>"

text \<open>The calls on the module.\<close>

datatype RadioCall =
  CallSetNetwork u8
  | CallEnableAes bytes
  | CallSend u16 bytes bool
  | CallSendAck bytes
  | CallReceiveDone
  | CallRememberRegisters

record radio_service =
  rg_state :: RadioState
  rg_profile :: RadioProfile
  rg_networkId :: u8
  rg_operationalNetworkId :: u8
  rg_commissioningNetworkId :: u8
  rg_operationalKey :: bytes
  rg_pairingKey :: bytes
  rg_operationalEnabled :: bool
  rg_hasQueues :: bool
  rg_commissioningEnabled :: bool
  rg_receivedFrames :: "ReceivedFrame list"
  rg_telemetryFrames :: "ReceivedFrame list"
  rg_sessionFrames :: "ReceivedFrame list"
  rg_commands :: "RadioCommand list"
  rg_telemetryRejectedInactive :: u32
  rg_telemetryFramesQueued :: u32
  rg_telemetryFramesDropped :: u32
  rg_telemetryAcksSent :: u32
  rg_commandHintsSent :: u32
  rg_powerTargetsSent :: u32
  rg_sessionFramesQueued :: u32
  rg_sessionFramesDropped :: u32
  rg_sessionFramesRejected :: u32
  rg_commandResultAcksSent :: u32
  rg_frequencyFaults :: u32
  rg_interrupts :: u32
  rg_missedInterrupts :: u32
  rg_packets :: u32
  rg_bytes :: u32
  rg_emptyWakeups :: u32
  rg_v2Frames :: u32
  rg_v2TelemetryFrames :: u32
  rg_emptyApplicationFrames :: u32
  rg_unsupportedProtocolVersions :: u32
  rg_unsupportedFrameKinds :: u32
  rg_lastPacketMs :: u32
  rg_lastSenderId :: u16
  rg_lastRssi :: s16
  rg_rxFramesQueued :: u32
  rg_rxFramesDropped :: u32
  rg_ackRequestsIgnored :: u32
  rg_commandsQueued :: u32
  rg_commandsDropped :: u32
  rg_commandsProcessed :: u32

text \<open>\<open>xQueueSendToBack\<close> without waiting.\<close>

definition sendToBack :: "nat \<Rightarrow> 'a list \<Rightarrow> 'a \<Rightarrow> 'a list \<times> bool" where
  "sendToBack depth q x = (if length q < depth then (q @ [x], True) else (q, False))"

subsection \<open>A received frame\<close>

text \<open>The library hands over at most 61 bytes, a sender, a signal strength and the ACK request bit.\<close>

record RadioPacket =
  pk_data :: bytes
  pk_senderId :: u16
  pk_rssi :: s16
  pk_ackRequested :: bool

definition receivedFrameOf :: "RadioPacket \<Rightarrow> u32 \<Rightarrow> ReceivedFrame" where
  "receivedFrameOf packet now =
     \<lparr>rf_data = (case decodeFrame (Some (pk_data packet)) of
        Inl _ \<Rightarrow> zeros kMaxPayloadSize
      | Inr _ \<Rightarrow> put (zeros kMaxPayloadSize) 0 (pk_data packet)),
      rf_size = of_nat (length (pk_data packet)), rf_senderId = pk_senderId packet,
      rf_rssi = pk_rssi packet, rf_ackRequested = pk_ackRequested packet, rf_receivedAtMs = now\<rparr>"

definition countPacket :: "RadioPacket \<Rightarrow> u32 \<Rightarrow> radio_service \<Rightarrow> radio_service" where
  "countPacket packet now st =
     (let st = st\<lparr>rg_packets := rg_packets st + 1,
            rg_bytes := rg_bytes st + of_nat (length (pk_data packet)),
            rg_lastPacketMs := now, rg_lastSenderId := pk_senderId packet,
            rg_lastRssi := pk_rssi packet\<rparr>
      in case decodeFrame (Some (pk_data packet)) of
           Inr view \<Rightarrow>
             let st = st\<lparr>rg_v2Frames := rg_v2Frames st + 1\<rparr>
             in if fv_kind view = KTelemetry
                then st\<lparr>rg_v2TelemetryFrames := rg_v2TelemetryFrames st + 1\<rparr> else st
         | Inl EmptyFrame \<Rightarrow>
             st\<lparr>rg_emptyApplicationFrames := rg_emptyApplicationFrames st + 1\<rparr>
         | Inl UnsupportedVersion \<Rightarrow>
             st\<lparr>rg_unsupportedProtocolVersions := rg_unsupportedProtocolVersions st + 1\<rparr>
         | Inl UnsupportedKind \<Rightarrow>
             st\<lparr>rg_unsupportedFrameKinds := rg_unsupportedFrameKinds st + 1\<rparr>)"

definition senderActive :: "(u8 \<Rightarrow> bool) \<Rightarrow> radio_service \<Rightarrow> u16 \<Rightarrow> bool" where
  "senderActive isActive st senderId \<longleftrightarrow> senderId \<le> 255 \<and> rg_profile st = OperationalProfile \<and>
     isActive (ucast senderId)"

text \<open>The acknowledgement of a queued telemetry frame.\<close>

definition telemetryAckFor :: "(u8 \<Rightarrow> bool) \<Rightarrow> (u8 \<Rightarrow> u8 \<Rightarrow> u8 option) \<Rightarrow> RadioPacket \<Rightarrow> TelemetryAck" where
  "telemetryAckFor pending target packet =
     (let nodeId = ucast (pk_senderId packet);
          ack = \<lparr>ack_commandPending = pending nodeId, ack_hasPowerTarget = False, ack_powerTarget = 0\<rparr>
      in if length (pk_data packet) \<ge> kTelemetryPrefixSize
         then case target nodeId (pk_data packet ! 1) of
                None \<Rightarrow> ack
              | Some level \<Rightarrow> ack\<lparr>ack_hasPowerTarget := True, ack_powerTarget := level\<rparr>
         else ack)"

definition ackIgnored :: "radio_service \<Rightarrow> radio_service" where
  "ackIgnored st = st\<lparr>rg_ackRequestsIgnored := rg_ackRequestsIgnored st + 1\<rparr>"

text \<open>The three branches of \<open>drainReceivedFrame\<close> for a frame that decodes.\<close>

definition receiveTelemetryFrame ::
  "(u8 \<Rightarrow> bool) \<Rightarrow> (u8 \<Rightarrow> u8 \<Rightarrow> u8 option) \<Rightarrow> bool \<Rightarrow> ReceivedFrame \<Rightarrow> RadioPacket \<Rightarrow> radio_service \<Rightarrow>
   radio_service \<times> RadioCall list" where
  "receiveTelemetryFrame pending target active frame packet st =
     (let (frames, room) = sendToBack kRxQueueDepth (rg_telemetryFrames st) frame;
          queued = (active \<and> room);
          st = (if queued then st\<lparr>rg_telemetryFrames := frames\<rparr> else st);
          st = (if \<not> active
                then st\<lparr>rg_telemetryRejectedInactive := rg_telemetryRejectedInactive st + 1\<rparr>
                else if queued
                then st\<lparr>rg_telemetryFramesQueued := rg_telemetryFramesQueued st + 1\<rparr>
                else st\<lparr>rg_telemetryFramesDropped := rg_telemetryFramesDropped st + 1\<rparr>)
      in if queued \<and> pk_ackRequested packet
         then
           let ack = telemetryAckFor pending target packet;
               (payloadSize, payload) = encodeTelemetryAck ack (Some (zeros 2));
               st = st\<lparr>rg_telemetryAcksSent := rg_telemetryAcksSent st + 1\<rparr>;
               st = (if ack_commandPending ack
                     then st\<lparr>rg_commandHintsSent := rg_commandHintsSent st + 1\<rparr> else st);
               st = (if ack_hasPowerTarget ack
                     then st\<lparr>rg_powerTargetsSent := rg_powerTargetsSent st + 1\<rparr> else st)
           in (st, [CallSendAck (take payloadSize (the payload))])
         else (if pk_ackRequested packet then ackIgnored st else st, []))"

definition receiveSessionFrame ::
  "bool \<Rightarrow> ReceivedFrame \<Rightarrow> RadioPacket \<Rightarrow> FrameKind \<Rightarrow> radio_service \<Rightarrow> radio_service \<times> RadioCall list" where
  "receiveSessionFrame active frame packet kind st =
     (let (frames, room) = sendToBack kSessionQueueDepth (rg_sessionFrames st) frame;
          queued = (active \<and> room);
          st = (if queued then st\<lparr>rg_sessionFrames := frames\<rparr> else st);
          acknowledge = (queued \<and> pk_ackRequested packet \<and> kind = KCommandResult);
          st = (if \<not> active
                then st\<lparr>rg_sessionFramesRejected := rg_sessionFramesRejected st + 1\<rparr>
                else if queued
                then st\<lparr>rg_sessionFramesQueued := rg_sessionFramesQueued st + 1\<rparr>
                else st\<lparr>rg_sessionFramesDropped := rg_sessionFramesDropped st + 1\<rparr>);
          st = (if acknowledge
                then st\<lparr>rg_commandResultAcksSent := rg_commandResultAcksSent st + 1\<rparr>
                else if pk_ackRequested packet then ackIgnored st else st)
      in (st, if acknowledge then [CallSendAck []] else []))"

definition receiveOtherFrame :: "ReceivedFrame \<Rightarrow> RadioPacket \<Rightarrow> radio_service \<Rightarrow> radio_service" where
  "receiveOtherFrame frame packet st =
     (let (frames, queued) = sendToBack kRxQueueDepth (rg_receivedFrames st) frame;
          st = st\<lparr>rg_receivedFrames := frames\<rparr>;
          st = (if queued then st\<lparr>rg_rxFramesQueued := rg_rxFramesQueued st + 1\<rparr>
                else st\<lparr>rg_rxFramesDropped := rg_rxFramesDropped st + 1\<rparr>)
      in if pk_ackRequested packet then ackIgnored st else st)"

definition drainReceivedFrame ::
  "(u8 \<Rightarrow> bool) \<Rightarrow> (u8 \<Rightarrow> bool) \<Rightarrow> (u8 \<Rightarrow> u8 \<Rightarrow> u8 option) \<Rightarrow> u32 \<Rightarrow> radio_service \<Rightarrow> RadioPacket option \<Rightarrow>
   radio_service \<times> RadioCall list" where
  "drainReceivedFrame isActive pending target now st received =
     (case received of
        None \<Rightarrow> (st\<lparr>rg_emptyWakeups := rg_emptyWakeups st + 1\<rparr>, [])
      | Some packet \<Rightarrow>
          let frame = receivedFrameOf packet now;
              st = countPacket packet now st;
              active = senderActive isActive st (pk_senderId packet);
              (st, calls) =
                (case decodeFrame (Some (pk_data packet)) of
                   Inl _ \<Rightarrow> (if pk_ackRequested packet then ackIgnored st else st, [])
                 | Inr view \<Rightarrow>
                     if fv_kind view = KTelemetry
                     then receiveTelemetryFrame pending target active frame packet st
                     else if fv_kind view = KCommandReady \<or> fv_kind view = KCommandResult
                     then receiveSessionFrame active frame packet (fv_kind view) st
                     else (receiveOtherFrame frame packet st, []))
          in (st, calls @ [CallReceiveDone]))"

subsection \<open>Commands to the radio task\<close>

definition toCommissioning :: "radio_service \<Rightarrow> radio_service \<times> RadioCall list" where
  "toCommissioning st =
     (st\<lparr>rg_profile := CommissioningProfile, rg_networkId := rg_commissioningNetworkId st\<rparr>,
      [CallSetNetwork (rg_commissioningNetworkId st), CallEnableAes (rg_pairingKey st)])"

definition toOperational :: "radio_service \<Rightarrow> radio_service \<times> RadioCall list" where
  "toOperational st =
     (st\<lparr>rg_profile := OperationalProfile, rg_networkId := rg_operationalNetworkId st,
         rg_pairingKey := zeros kRadioKeySize, rg_commissioningEnabled := False\<rparr>,
      [CallSetNetwork (rg_operationalNetworkId st), CallEnableAes (rg_operationalKey st)])"

definition performCommand :: "radio_service \<Rightarrow> RadioCommand \<Rightarrow> radio_service \<times> RadioCall list" where
  "performCommand st command =
     (case rc_kind command of
        BeginCommissioning \<Rightarrow>
          toCommissioning (st\<lparr>rg_pairingKey := rc_key command, rg_commissioningEnabled := True\<rparr>)
      | ApplyInstallation \<Rightarrow>
          let (st, calls) = toOperational (st\<lparr>rg_operationalKey := rc_key command,
                rg_operationalNetworkId := rc_networkId command\<rparr>)
          in (st\<lparr>rg_operationalEnabled := True, rg_state := RadioReceiving\<rparr>, calls)
      | SetProfile \<Rightarrow>
          if rc_profile command = CommissioningProfile
          then if rg_commissioningEnabled st then toCommissioning st else (st, [])
          else toOperational st
      | SendFrame \<Rightarrow>
          let sent = CallSend (rc_targetId command)
                (take (unat (rc_size command)) (rc_data command)) (rc_requestAck command);
              (st, calls) =
                (if \<not> rc_switchAfterSend command then (st, [])
                 else if rc_profile command = CommissioningProfile
                 then if rg_commissioningEnabled st then toCommissioning st else (st, [])
                 else toOperational st)
          in (st, sent # calls))"

definition processCommand :: "radio_service \<Rightarrow> RadioCommand \<Rightarrow> radio_service \<times> RadioCall list" where
  "processCommand st command =
     (let (st, calls) = performCommand st command
      in (st\<lparr>rg_commandsProcessed := rg_commandsProcessed st + 1\<rparr>, calls @ [CallReceiveDone, CallRememberRegisters]))"

text \<open>The radio task works off the command queue in order.\<close>

fun runCommands :: "radio_service \<Rightarrow> RadioCommand list \<Rightarrow> radio_service \<times> RadioCall list" where
  "runCommands st [] = (st, [])"
| "runCommands st (command # rest) =
     (let (st, calls) = processCommand st command;
          (st, more) = runCommands st rest
      in (st, calls @ more))"

definition workOff :: "radio_service \<Rightarrow> radio_service \<times> RadioCall list" where
  "workOff st = runCommands (st\<lparr>rg_commands := []\<rparr>) (rg_commands st)"

text \<open>One round of the radio task: what woke it, and, when that was a command, whether an interrupt
  was signalled as well.  A frame in the FIFO is always read before a command is processed.\<close>

datatype RadioWake = WokeByTimeout | WokeByInterrupt | WokeByCommand bool

definition serviceInterrupt ::
  "(u8 \<Rightarrow> bool) \<Rightarrow> (u8 \<Rightarrow> bool) \<Rightarrow> (u8 \<Rightarrow> u8 \<Rightarrow> u8 option) \<Rightarrow> u32 \<Rightarrow> radio_service \<Rightarrow> RadioPacket option \<Rightarrow>
   radio_service \<times> RadioCall list" where
  "serviceInterrupt isActive pending target now st received =
     drainReceivedFrame isActive pending target now (st\<lparr>rg_interrupts := rg_interrupts st + 1\<rparr>) received"

definition serviceMissedInterrupt ::
  "(u8 \<Rightarrow> bool) \<Rightarrow> (u8 \<Rightarrow> bool) \<Rightarrow> (u8 \<Rightarrow> u8 \<Rightarrow> u8 option) \<Rightarrow> u32 \<Rightarrow> bool \<Rightarrow> bool \<Rightarrow> radio_service \<Rightarrow>
   RadioPacket option \<Rightarrow> radio_service \<times> RadioCall list" where
  "serviceMissedInterrupt isActive pending target now libraryRx dio0High st received =
     (if rg_state st \<noteq> RadioReceiving \<or> \<not> libraryRx \<or> \<not> dio0High then (st, [])
      else drainReceivedFrame isActive pending target now
        (st\<lparr>rg_missedInterrupts := rg_missedInterrupts st + 1\<rparr>) received)"

definition takeCommand :: "radio_service \<Rightarrow> radio_service \<times> RadioCall list" where
  "takeCommand st =
     (case rg_commands st of
        [] \<Rightarrow> (st, [])
      | command # rest \<Rightarrow> processCommand (st\<lparr>rg_commands := rest\<rparr>) command)"

definition radioTask ::
  "(u8 \<Rightarrow> bool) \<Rightarrow> (u8 \<Rightarrow> bool) \<Rightarrow> (u8 \<Rightarrow> u8 \<Rightarrow> u8 option) \<Rightarrow> u32 \<Rightarrow> bool \<Rightarrow> bool \<Rightarrow> radio_service \<Rightarrow>
   RadioWake \<Rightarrow> RadioPacket option \<Rightarrow> radio_service \<times> RadioCall list" where
  "radioTask isActive pending target now libraryRx dio0High st woke received =
     (case woke of
        WokeByTimeout \<Rightarrow> serviceMissedInterrupt isActive pending target now libraryRx dio0High st received
      | WokeByInterrupt \<Rightarrow> serviceInterrupt isActive pending target now st received
      | WokeByCommand signalled \<Rightarrow>
          let (st, frame_calls) = (if signalled
                then serviceInterrupt isActive pending target now st received else (st, []));
              (st, calls) = takeCommand st
          in (st, frame_calls @ calls))"

text \<open>\<open>receive\<close>, \<open>receiveTelemetry\<close> and \<open>receiveSessionFrame\<close> of the other tasks.\<close>

definition takeReceived :: "radio_service \<Rightarrow> radio_service \<times> ReceivedFrame option" where
  "takeReceived st = (case rg_receivedFrames st of
     [] \<Rightarrow> (st, None) | f # fs \<Rightarrow> (st\<lparr>rg_receivedFrames := fs\<rparr>, Some f))"

definition takeTelemetry :: "radio_service \<Rightarrow> radio_service \<times> ReceivedFrame option" where
  "takeTelemetry st = (case rg_telemetryFrames st of
     [] \<Rightarrow> (st, None) | f # fs \<Rightarrow> (st\<lparr>rg_telemetryFrames := fs\<rparr>, Some f))"

definition takeSession :: "radio_service \<Rightarrow> radio_service \<times> ReceivedFrame option" where
  "takeSession st = (case rg_sessionFrames st of
     [] \<Rightarrow> (st, None) | f # fs \<Rightarrow> (st\<lparr>rg_sessionFrames := fs\<rparr>, Some f))"

definition acceptsCommands :: "radio_service \<Rightarrow> bool" where
  "acceptsCommands st \<longleftrightarrow> rg_hasQueues st \<and> rg_operationalEnabled st"

definition queueCommand :: "radio_service \<Rightarrow> RadioCommand \<Rightarrow> radio_service \<times> bool" where
  "queueCommand st command =
     (let (commands, queued) = sendToBack kCommandQueueDepth (rg_commands st) command
      in (if queued then st\<lparr>rg_commands := commands, rg_commandsQueued := rg_commandsQueued st + 1\<rparr>
          else st\<lparr>rg_commandsDropped := rg_commandsDropped st + 1\<rparr>, queued))"

text \<open>\<open>completes\<close> says whether the radio task reports the command within the timeout; by then it
  has worked off the queue up to it.\<close>

definition queueAndWaitForCompletion ::
  "bool \<Rightarrow> radio_service \<Rightarrow> RadioCommand \<Rightarrow> radio_service \<times> RadioCall list \<times> bool" where
  "queueAndWaitForCompletion completes st command =
     (if \<not> rg_hasQueues st then (st, [], False)
      else
        let (st, queued) = queueCommand st command
        in if \<not> queued \<or> \<not> completes then (st, [], False)
           else let (st, calls) = workOff st in (st, calls, True))"

definition requestProfile ::
  "bool \<Rightarrow> radio_service \<Rightarrow> RadioProfile \<Rightarrow> radio_service \<times> RadioCall list \<times> bool" where
  "requestProfile completes st profile =
     (if \<not> acceptsCommands st \<or> (profile = CommissioningProfile \<and> \<not> rg_commissioningEnabled st)
      then (st, [], False)
      else queueAndWaitForCompletion completes st
        (emptyRadioCommand\<lparr>rc_kind := SetProfile, rc_profile := profile\<rparr>))"

definition beginCommissioning ::
  "bool \<Rightarrow> radio_service \<Rightarrow> bytes option \<Rightarrow> radio_service \<times> RadioCall list \<times> bool" where
  "beginCommissioning completes st key =
     (case key of
        None \<Rightarrow> (st, [], False)
      | Some k \<Rightarrow>
          if \<not> acceptsCommands st then (st, [], False)
          else queueAndWaitForCompletion completes st
            (emptyRadioCommand\<lparr>rc_kind := BeginCommissioning, rc_key := k\<rparr>))"

definition applyInstallation ::
  "bool \<Rightarrow> radio_service \<Rightarrow> u8 \<Rightarrow> bytes option \<Rightarrow> radio_service \<times> RadioCall list \<times> bool" where
  "applyInstallation completes st networkId key =
     (case key of
        None \<Rightarrow> (st, [], False)
      | Some k \<Rightarrow>
          if \<not> rg_hasQueues st \<or> networkId = 0 then (st, [], False)
          else queueAndWaitForCompletion completes st
            (emptyRadioCommand\<lparr>rc_kind := ApplyInstallation, rc_networkId := networkId, rc_key := k\<rparr>))"

definition radioSend :: "radio_service \<Rightarrow> u16 \<Rightarrow> buffer \<Rightarrow> bool \<Rightarrow> radio_service \<times> bool" where
  "radioSend st targetId data requestAck =
     (case data of
        None \<Rightarrow> (st, False)
      | Some bs \<Rightarrow>
          if \<not> acceptsCommands st \<or> length bs > kMaxPayloadSize then (st, False)
          else queueCommand st (emptyRadioCommand\<lparr>rc_kind := SendFrame, rc_targetId := targetId,
            rc_size := of_nat (length bs), rc_requestAck := requestAck,
            rc_data := put (rc_data emptyRadioCommand) 0 bs\<rparr>))"

definition sendThenSwitchProfile ::
  "bool \<Rightarrow> radio_service \<Rightarrow> u16 \<Rightarrow> buffer \<Rightarrow> RadioProfile \<Rightarrow> radio_service \<times> RadioCall list \<times> bool" where
  "sendThenSwitchProfile completes st targetId data profile =
     (case data of
        None \<Rightarrow> (st, [], False)
      | Some bs \<Rightarrow>
          if \<not> acceptsCommands st \<or> length bs > kMaxPayloadSize \<or>
             (profile = CommissioningProfile \<and> \<not> rg_commissioningEnabled st)
          then (st, [], False)
          else queueAndWaitForCompletion completes st (emptyRadioCommand\<lparr>rc_kind := SendFrame,
            rc_targetId := targetId, rc_size := of_nat (length bs), rc_profile := profile,
            rc_switchAfterSend := True, rc_data := put (rc_data emptyRadioCommand) 0 bs\<rparr>))"

subsection \<open>What is on the air\<close>

text \<open>The network and the key the module uses after a sequence of calls; no key while encryption has
  not been switched on.  Whether every frame of a sequence is sent encrypted.\<close>

type_synonym module_setup = "u8 \<times> bytes option"

fun moduleAfter :: "module_setup \<Rightarrow> RadioCall list \<Rightarrow> module_setup" where
  "moduleAfter m [] = m"
| "moduleAfter m (CallSetNetwork n # calls) = moduleAfter (n, snd m) calls"
| "moduleAfter m (CallEnableAes k # calls) = moduleAfter (fst m, Some k) calls"
| "moduleAfter m (_ # calls) = moduleAfter m calls"

fun sendsEncrypted :: "module_setup \<Rightarrow> RadioCall list \<Rightarrow> bool" where
  "sendsEncrypted m [] \<longleftrightarrow> True"
| "sendsEncrypted m (call # calls) \<longleftrightarrow>
     ((\<exists>t bs a. call = CallSend t bs a) \<or> (\<exists>p. call = CallSendAck p) \<longrightarrow> snd m \<noteq> None) \<and>
     sendsEncrypted (moduleAfter m [call]) calls"

lemma moduleAfter_append [simp]: "moduleAfter m (xs @ ys) = moduleAfter (moduleAfter m xs) ys"
  by (induction m xs rule: moduleAfter.induct) auto

lemma sendsEncrypted_append [simp]:
  "sendsEncrypted m (xs @ ys) \<longleftrightarrow> sendsEncrypted m xs \<and> sendsEncrypted (moduleAfter m xs) ys"
proof (induction xs arbitrary: m)
  case (Cons x xs)
  have "moduleAfter m (x # xs) = moduleAfter (moduleAfter m [x]) xs"
    using moduleAfter_append [of m "[x]" xs] by simp
  with Cons show ?case by simp
qed simp

text \<open>While there is no installation key only an ApplyInstallation can be waiting.\<close>

definition radioOk :: "radio_service \<Rightarrow> module_setup \<Rightarrow> bool" where
  "radioOk st m \<longleftrightarrow>
     (\<not> rg_commissioningEnabled st \<longrightarrow> rg_pairingKey st = zeros kRadioKeySize) \<and>
     (rg_profile st = CommissioningProfile \<longrightarrow> rg_commissioningEnabled st \<and>
        rg_networkId st = rg_commissioningNetworkId st) \<and>
     (rg_profile st = OperationalProfile \<longrightarrow> rg_networkId st = rg_operationalNetworkId st) \<and>
     (rg_operationalEnabled st \<longrightarrow> m = (rg_networkId st, Some
        (if rg_profile st = CommissioningProfile then rg_pairingKey st else rg_operationalKey st))) \<and>
     (\<not> rg_operationalEnabled st \<longrightarrow> \<not> rg_commissioningEnabled st)"

definition waitsForKey :: "radio_service \<Rightarrow> RadioCommand list \<Rightarrow> bool" where
  "waitsForKey st commands \<longleftrightarrow> rg_operationalEnabled st \<or>
     list_all (\<lambda>c. rc_kind c = ApplyInstallation) commands"

lemma radioOk_fields:
  assumes "radioOk st m" "rg_commissioningEnabled st' = rg_commissioningEnabled st"
    "rg_pairingKey st' = rg_pairingKey st" "rg_profile st' = rg_profile st"
    "rg_networkId st' = rg_networkId st" "rg_commissioningNetworkId st' = rg_commissioningNetworkId st"
    "rg_operationalNetworkId st' = rg_operationalNetworkId st" "rg_operationalKey st' = rg_operationalKey st"
    "rg_operationalEnabled st' = rg_operationalEnabled st"
  shows "radioOk st' m"
  using assms by (simp add: radioOk_def)

lemma toCommissioning_ok:
  assumes "rg_commissioningEnabled st" "rg_operationalEnabled st"
  shows "radioOk (fst (toCommissioning st)) (moduleAfter m (snd (toCommissioning st)))"
    "sendsEncrypted m (snd (toCommissioning st))"
    "rg_operationalEnabled (fst (toCommissioning st)) = rg_operationalEnabled st"
  using assms by (auto simp: toCommissioning_def radioOk_def)

lemma toOperational_ok:
  "radioOk (fst (toOperational st)) (moduleAfter m (snd (toOperational st)))"
  "radioOk ((fst (toOperational st))\<lparr>rg_operationalEnabled := True, rg_state := s\<rparr>)
     (moduleAfter m (snd (toOperational st)))"
  "sendsEncrypted m (snd (toOperational st))"
  "\<not> rg_commissioningEnabled (fst (toOperational st))"
  "rg_operationalEnabled (fst (toOperational st)) = rg_operationalEnabled st"
  by (auto simp: toOperational_def radioOk_def)

lemma performCommand_ok:
  assumes "radioOk st m" "waitsForKey st (command # rest)"
  shows "radioOk (fst (performCommand st command)) (moduleAfter m (snd (performCommand st command)))"
    "sendsEncrypted m (snd (performCommand st command))"
    "waitsForKey (fst (performCommand st command)) rest"
proof -
  have "radioOk (fst (performCommand st command)) (moduleAfter m (snd (performCommand st command))) \<and>
    sendsEncrypted m (snd (performCommand st command)) \<and>
    waitsForKey (fst (performCommand st command)) rest"
  proof (cases "rc_kind command")
    case ApplyInstallation
    then show ?thesis
      using toOperational_ok(2,3)
      by (simp_all add: performCommand_def case_prod_unfold Let_def waitsForKey_def)
  next
    case SetProfile
    moreover have "rg_operationalEnabled st" using assms(2) SetProfile by (simp add: waitsForKey_def)
    ultimately show ?thesis
      using assms(1) toCommissioning_ok toOperational_ok
      by (simp_all add: performCommand_def case_prod_unfold Let_def waitsForKey_def)
  next
    case BeginCommissioning
    moreover have "rg_operationalEnabled st" using assms(2) BeginCommissioning by (simp add: waitsForKey_def)
    ultimately show ?thesis
      using toCommissioning_ok [of "st\<lparr>rg_pairingKey := rc_key command, rg_commissioningEnabled := True\<rparr>"]
      by (simp_all add: performCommand_def case_prod_unfold Let_def waitsForKey_def)
  next
    case SendFrame
    moreover have e: "rg_operationalEnabled st" using assms(2) SendFrame by (simp add: waitsForKey_def)
    moreover have "snd m \<noteq> None" using assms(1) e by (simp add: radioOk_def)
    ultimately show ?thesis
      using assms(1) toCommissioning_ok toOperational_ok
      by (simp_all add: performCommand_def case_prod_unfold Let_def waitsForKey_def)
  qed
  then show "radioOk (fst (performCommand st command)) (moduleAfter m (snd (performCommand st command)))"
    "sendsEncrypted m (snd (performCommand st command))"
    "waitsForKey (fst (performCommand st command)) rest"
    by blast+
qed

lemma processCommand_ok:
  assumes "radioOk st m" "waitsForKey st (command # rest)"
  shows "radioOk (fst (processCommand st command)) (moduleAfter m (snd (processCommand st command)))"
    "sendsEncrypted m (snd (processCommand st command))"
    "waitsForKey (fst (processCommand st command)) rest"
proof -
  have "radioOk ((fst (performCommand st command))
      \<lparr>rg_commandsProcessed := rg_commandsProcessed (fst (performCommand st command)) + 1\<rparr>)
      (moduleAfter m (snd (performCommand st command)))"
    by (rule radioOk_fields [OF performCommand_ok(1) [OF assms]]) simp_all
  then show "radioOk (fst (processCommand st command)) (moduleAfter m (snd (processCommand st command)))"
    by (simp add: processCommand_def case_prod_unfold Let_def)
  show "sendsEncrypted m (snd (processCommand st command))"
    "waitsForKey (fst (processCommand st command)) rest"
    using performCommand_ok(2,3) [OF assms]
    by (simp_all add: processCommand_def case_prod_unfold Let_def waitsForKey_def)
qed

lemma runCommands_ok:
  "radioOk st m \<Longrightarrow> waitsForKey st commands \<Longrightarrow>
     radioOk (fst (runCommands st commands)) (moduleAfter m (snd (runCommands st commands))) \<and>
     sendsEncrypted m (snd (runCommands st commands))"
proof (induction commands arbitrary: st m)
  case (Cons command rest)
  note one = processCommand_ok [OF Cons.prems]
  from Cons.IH [OF one(1,3)] one(2) show ?case
    by (simp add: case_prod_unfold Let_def)
qed simp

lemma runCommands_queue: "rg_commands (fst (runCommands st commands)) = rg_commands st"
  by (induction commands arbitrary: st)
     (simp_all add: processCommand_def performCommand_def toCommissioning_def toOperational_def
       case_prod_unfold Let_def split: CommandKind.splits)

subsection \<open>Every operation of the service\<close>

text \<open>What holds between operations; what one of them does to the module.\<close>

definition serviceSound :: "radio_service \<Rightarrow> module_setup \<Rightarrow> bool" where
  "serviceSound st m \<longleftrightarrow> radioOk st m \<and> waitsForKey st (rg_commands st)"

definition keepsSound :: "radio_service \<Rightarrow> module_setup \<Rightarrow> radio_service \<Rightarrow> RadioCall list \<Rightarrow> bool" where
  "keepsSound st m st' calls \<longleftrightarrow> (serviceSound st m \<longrightarrow>
     serviceSound st' (moduleAfter m calls) \<and> sendsEncrypted m calls)"

lemma serviceSound_fields:
  assumes "serviceSound st m" "rg_commissioningEnabled st' = rg_commissioningEnabled st"
    "rg_pairingKey st' = rg_pairingKey st" "rg_profile st' = rg_profile st"
    "rg_networkId st' = rg_networkId st" "rg_commissioningNetworkId st' = rg_commissioningNetworkId st"
    "rg_operationalNetworkId st' = rg_operationalNetworkId st" "rg_operationalKey st' = rg_operationalKey st"
    "rg_operationalEnabled st' = rg_operationalEnabled st" "rg_commands st' = rg_commands st"
  shows "serviceSound st' m"
  using radioOk_fields [OF _ assms(2-9)] assms(1,9,10) by (simp add: serviceSound_def waitsForKey_def)

lemma keepsSound_trans:
  "keepsSound st m st' calls \<Longrightarrow> keepsSound st' (moduleAfter m calls) st'' rest \<Longrightarrow>
     keepsSound st m st'' (calls @ rest)"
  by (auto simp: keepsSound_def)

lemma queueCommand_ok:
  assumes "rg_operationalEnabled st \<or> rc_kind command = ApplyInstallation"
  shows "keepsSound st m (fst (queueCommand st command)) []"
  using assms
  by (auto simp: keepsSound_def serviceSound_def waitsForKey_def queueCommand_def sendToBack_def
      intro: radioOk_fields)

lemma workOff_ok: "keepsSound st m (fst (workOff st)) (snd (workOff st))"
  unfolding keepsSound_def
proof
  assume s: "serviceSound st m"
  then have "radioOk (st\<lparr>rg_commands := []\<rparr>) m" "waitsForKey (st\<lparr>rg_commands := []\<rparr>) (rg_commands st)"
    by (auto simp: serviceSound_def waitsForKey_def intro: radioOk_fields)
  from runCommands_ok [OF this] show "serviceSound (fst (workOff st)) (moduleAfter m (snd (workOff st))) \<and>
      sendsEncrypted m (snd (workOff st))"
    by (simp add: serviceSound_def workOff_def waitsForKey_def runCommands_queue)
qed

lemma queueAndWait_ok:
  assumes "rg_operationalEnabled st \<or> rc_kind command = ApplyInstallation"
    and "queueAndWaitForCompletion completes st command = (st', calls, ok)"
  shows "keepsSound st m st' calls"
  using queueCommand_ok [OF assms(1), of m] workOff_ok [of "fst (queueCommand st command)" m] assms(2)
  by (auto simp: keepsSound_def queueAndWaitForCompletion_def case_prod_unfold Let_def split: if_splits)

lemma keepsSound_refl [simp]: "keepsSound st m st []"
  by (simp add: keepsSound_def)

lemma requests_ok:
  "requestProfile completes st profile = (st', calls, ok) \<Longrightarrow> keepsSound st m st' calls"
  "beginCommissioning completes st key = (st', calls, ok) \<Longrightarrow> keepsSound st m st' calls"
  "applyInstallation completes st networkId key = (st', calls, ok) \<Longrightarrow> keepsSound st m st' calls"
  "sendThenSwitchProfile completes st targetId data profile = (st', calls, ok) \<Longrightarrow> keepsSound st m st' calls"
  "radioSend st targetId data requestAck = (st', ok) \<Longrightarrow> keepsSound st m st' []"
proof -
  show "requestProfile completes st profile = (st', calls, ok) \<Longrightarrow> keepsSound st m st' calls"
    by (auto simp: requestProfile_def acceptsCommands_def dest!: queueAndWait_ok [rotated] split: if_splits)
  show "beginCommissioning completes st key = (st', calls, ok) \<Longrightarrow> keepsSound st m st' calls"
    by (auto simp: beginCommissioning_def acceptsCommands_def dest!: queueAndWait_ok [rotated] split: if_splits option.splits)
  show "applyInstallation completes st networkId key = (st', calls, ok) \<Longrightarrow> keepsSound st m st' calls"
    by (auto simp: applyInstallation_def dest!: queueAndWait_ok [rotated] split: if_splits option.splits)
  show "sendThenSwitchProfile completes st targetId data profile = (st', calls, ok) \<Longrightarrow> keepsSound st m st' calls"
    by (auto simp: sendThenSwitchProfile_def acceptsCommands_def dest!: queueAndWait_ok [rotated] split: if_splits option.splits)
  show "radioSend st targetId data requestAck = (st', ok) \<Longrightarrow> keepsSound st m st' []"
    by (auto simp: radioSend_def acceptsCommands_def split: if_splits option.splits)
       (metis fst_conv queueCommand_ok)
qed

lemma counted_fields [simp]:
  "radioOk (countPacket packet now st) m \<longleftrightarrow> radioOk st m"
  "waitsForKey (countPacket packet now st) = waitsForKey st"
  "rg_commands (countPacket packet now st) = rg_commands st"
  "rg_telemetryFrames (countPacket packet now st) = rg_telemetryFrames st"
  "rg_sessionFrames (countPacket packet now st) = rg_sessionFrames st"
  "rg_operationalEnabled (countPacket packet now st) = rg_operationalEnabled st"
  "senderActive isActive (countPacket packet now st) senderId = senderActive isActive st senderId"
  by (simp_all add: countPacket_def Let_def radioOk_def waitsForKey_def senderActive_def fun_eq_iff
      split: sum.splits DecodeStatus.splits)

lemma receive_fields:
  "radioOk (fst (receiveTelemetryFrame pending target active frame packet st)) m \<longleftrightarrow> radioOk st m"
  "radioOk (fst (receiveSessionFrame active frame packet kind st)) m \<longleftrightarrow> radioOk st m"
  "radioOk (receiveOtherFrame frame packet st) m \<longleftrightarrow> radioOk st m"
  "radioOk (ackIgnored st) m \<longleftrightarrow> radioOk st m"
  "waitsForKey (fst (receiveTelemetryFrame pending target active frame packet st)) = waitsForKey st"
  "waitsForKey (fst (receiveSessionFrame active frame packet kind st)) = waitsForKey st"
  "waitsForKey (receiveOtherFrame frame packet st) = waitsForKey st"
  "waitsForKey (ackIgnored st) = waitsForKey st"
  "rg_commands (fst (receiveTelemetryFrame pending target active frame packet st)) = rg_commands st"
  "rg_commands (fst (receiveSessionFrame active frame packet kind st)) = rg_commands st"
  "rg_commands (receiveOtherFrame frame packet st) = rg_commands st"
  "rg_commands (ackIgnored st) = rg_commands st"
  by (simp_all add: receiveTelemetryFrame_def receiveSessionFrame_def receiveOtherFrame_def fun_eq_iff
      ackIgnored_def sendToBack_def Let_def case_prod_unfold radioOk_def waitsForKey_def)

lemma receive_calls:
  "snd (receiveTelemetryFrame pending target active frame packet st) = [] \<or>
   (\<exists>p. snd (receiveTelemetryFrame pending target active frame packet st) = [CallSendAck p])"
  "snd (receiveSessionFrame active frame packet kind st) = [] \<or>
   (\<exists>p. snd (receiveSessionFrame active frame packet kind st) = [CallSendAck p])"
  by (simp_all add: receiveTelemetryFrame_def receiveSessionFrame_def Let_def case_prod_unfold)

text \<open>Receiving leaves the network and the key alone; a module that receives has a key.\<close>

lemma drain_sound:
  assumes "received \<noteq> None \<longrightarrow> rg_operationalEnabled st"
    and "drainReceivedFrame isActive pending target now st received = (st', calls)"
  shows "keepsSound st m st' calls"
proof (cases received)
  case None
  then show ?thesis
    using assms(2) by (auto simp: drainReceivedFrame_def keepsSound_def intro: serviceSound_fields)
next
  case (Some packet)
  let ?a = "senderActive isActive st (pk_senderId packet)"
  let ?f = "receivedFrameOf packet now"
  obtain s c where r: "st' = s" "calls = c @ [CallReceiveDone]" "c = [] \<or> (\<exists>p. c = [CallSendAck p])"
    and s: "s = countPacket packet now st \<or> s = ackIgnored (countPacket packet now st) \<or> s = fst (receiveTelemetryFrame pending target ?a ?f packet (countPacket packet now st)) \<or>
      (\<exists>kind. s = fst (receiveSessionFrame ?a ?f packet kind (countPacket packet now st))) \<or> s = receiveOtherFrame ?f packet (countPacket packet now st)"
  proof (cases "decodeFrame (Some (pk_data packet))")
    case (Inl e)
    then show thesis
      using that [of st' "[]"] assms(2) Some by (simp add: drainReceivedFrame_def Let_def split: if_splits)
  next
    case (Inr view)
    consider "fv_kind view = KTelemetry" | "fv_kind view \<noteq> KTelemetry"
        "fv_kind view = KCommandReady \<or> fv_kind view = KCommandResult"
      | "fv_kind view \<noteq> KTelemetry" "\<not> (fv_kind view = KCommandReady \<or> fv_kind view = KCommandResult)" by blast
    then show thesis
    proof cases
      case 1
      obtain s c where "receiveTelemetryFrame pending target ?a ?f packet (countPacket packet now st) = (s, c)" by (metis prod.exhaust)
      then show thesis
        using that [of s c] receive_calls(1) [of pending target ?a ?f packet "countPacket packet now st"] assms(2) Some Inr 1
        by (auto simp: drainReceivedFrame_def)
    next
      case 2
      obtain s c where sc: "receiveSessionFrame ?a ?f packet (fv_kind view) (countPacket packet now st) = (s, c)" by (metis prod.exhaust)
      then have "\<exists>kind. s = fst (receiveSessionFrame ?a ?f packet kind (countPacket packet now st))" by (intro exI [of _ "fv_kind view"]) simp
      moreover have "st' = s" "calls = c @ [CallReceiveDone]"
        using sc assms(2) Some Inr 2 by (auto simp: drainReceivedFrame_def)
      moreover have "c = [] \<or> (\<exists>p. c = [CallSendAck p])"
        using receive_calls(2) [of ?a ?f packet "fv_kind view" "countPacket packet now st"] sc by simp
      ultimately show thesis using that [of s c] by blast
    next
      case 3
      then show thesis
        using that [of "receiveOtherFrame ?f packet (countPacket packet now st)" "[]"] assms(2) Some Inr by (simp add: drainReceivedFrame_def)
    qed
  qed
  have "radioOk s m \<longleftrightarrow> radioOk st m" "waitsForKey s = waitsForKey st" "rg_commands s = rg_commands st"
    using s by (auto simp: receive_fields)
  moreover have "moduleAfter m calls = m" "snd m \<noteq> None \<Longrightarrow> sendsEncrypted m calls" using r(2,3) by auto
  moreover have "radioOk st m \<Longrightarrow> snd m \<noteq> None" using assms(1) Some by (simp add: radioOk_def)
  ultimately show ?thesis using r(1) by (auto simp: keepsSound_def serviceSound_def)
qed

lemma takeCommand_ok: "keepsSound st m (fst (takeCommand st)) (snd (takeCommand st))"
proof (cases "rg_commands st")
  case (Cons command rest)
  show ?thesis
    unfolding keepsSound_def
  proof
    assume s: "serviceSound st m"
    let ?st = "st\<lparr>rg_commands := rest\<rparr>"
    have "radioOk ?st m" "waitsForKey ?st (command # rest)"
      using s Cons by (auto simp: serviceSound_def waitsForKey_def intro: radioOk_fields)
    note one = processCommand_ok [OF this]
    have "rg_commands (fst (processCommand ?st command)) = rest"
      using runCommands_queue [of ?st "[command]"] by (simp add: case_prod_unfold Let_def)
    with one Cons show "serviceSound (fst (takeCommand st)) (moduleAfter m (snd (takeCommand st))) \<and>
        sendsEncrypted m (snd (takeCommand st))"
      by (simp add: serviceSound_def takeCommand_def)
  qed
qed (simp add: takeCommand_def)

text \<open>A round of the task; without an installation key the module sleeps and receives nothing.\<close>

lemma counted_interrupt:
  "keepsSound (st\<lparr>rg_interrupts := n\<rparr>) m st' calls \<longleftrightarrow> keepsSound st m st' calls"
  "keepsSound (st\<lparr>rg_missedInterrupts := n\<rparr>) m st' calls \<longleftrightarrow> keepsSound st m st' calls"
  by (auto simp: keepsSound_def intro: serviceSound_fields)

lemma serviceInterrupt_sound:
  assumes "received \<noteq> None \<longrightarrow> rg_operationalEnabled st"
    and "serviceInterrupt isActive pending target now st received = (st', calls)"
  shows "keepsSound st m st' calls"
  using drain_sound [of received "st\<lparr>rg_interrupts := rg_interrupts st + 1\<rparr>"] assms
  by (auto simp: serviceInterrupt_def counted_interrupt)

lemma radioTask_sound:
  assumes "received \<noteq> None \<longrightarrow> rg_operationalEnabled st"
    and "radioTask isActive pending target now libraryRx dio0High st woke received = (st', calls)"
  shows "keepsSound st m st' calls"
proof (cases woke)
  case WokeByTimeout
  then show ?thesis
    using drain_sound [of received "st\<lparr>rg_missedInterrupts := rg_missedInterrupts st + 1\<rparr>"] assms
    by (auto simp: radioTask_def serviceMissedInterrupt_def counted_interrupt split: if_splits)
next
  case WokeByInterrupt
  then show ?thesis using serviceInterrupt_sound [OF assms(1)] assms(2) by (simp add: radioTask_def)
next
  case (WokeByCommand signalled)
  obtain s c where f: "(if signalled then serviceInterrupt isActive pending target now st received
      else (st, [])) = (s, c)" by (metis prod.exhaust)
  have "keepsSound st m s c"
    using serviceInterrupt_sound [OF assms(1)] f by (cases signalled) auto
  from keepsSound_trans [OF this takeCommand_ok] show ?thesis
    using assms(2) f WokeByCommand by (simp add: radioTask_def case_prod_unfold Let_def)
qed

text \<open>An acknowledgement is a promise: the frame is the last of its queue.\<close>

lemma receiveTelemetryFrame_acks:
  assumes "receiveTelemetryFrame pending target active frame packet st = (st', calls)"
  shows "(\<exists>p. calls = [CallSendAck p] \<and> pk_ackRequested packet \<and>
        rg_telemetryFrames st' = rg_telemetryFrames st @ [frame] \<and> active \<and>
        decodeTelemetryAck (Some p) = normalAck (telemetryAckFor pending target packet)) \<or>
      (calls = [] \<and> (pk_ackRequested packet \<longrightarrow> rg_telemetryFrames st' = rg_telemetryFrames st))"
proof -
  let ?ack = "telemetryAckFor pending target packet"
  obtain n out where enc: "encodeTelemetryAck ?ack (Some (zeros 2)) = (n, out)" by (metis prod.exhaust)
  have "out \<noteq> None"
    using enc by (auto simp: encodeTelemetryAck_def Let_def split: if_splits)
  then obtain o1 where o1: "out = Some o1" by blast
  have "decodeTelemetryAck (Some (take n o1)) = normalAck ?ack"
    using ack_roundtrip [of "zeros 2" ?ack] enc o1 by simp
  then show ?thesis
    using assms enc o1
    by (auto simp: receiveTelemetryFrame_def sendToBack_def Let_def ackIgnored_def split: if_splits)
qed

lemma receiveSessionFrame_acks:
  assumes "receiveSessionFrame active frame packet kind st = (st', calls)"
  shows "(calls = [CallSendAck []] \<and> pk_ackRequested packet \<and> kind = KCommandResult \<and> active \<and>
        rg_sessionFrames st' = rg_sessionFrames st @ [frame]) \<or>
      (calls = [] \<and> (pk_ackRequested packet \<and> kind = KCommandResult \<longrightarrow> rg_sessionFrames st' = rg_sessionFrames st))"
  using assms by (auto simp: receiveSessionFrame_def sendToBack_def Let_def ackIgnored_def split: if_splits)

lemma drain_acks:
  assumes "drainReceivedFrame isActive pending target now st (Some packet) = (st', calls)"
    and "CallSendAck p \<in> set calls"
  shows "senderActive isActive st (pk_senderId packet) \<and> pk_ackRequested packet \<and>
    (\<exists>view. decodeFrame (Some (pk_data packet)) = Inr view \<and>
      ((fv_kind view = KTelemetry \<and>
        rg_telemetryFrames st' = rg_telemetryFrames st @ [receivedFrameOf packet now] \<and>
        decodeTelemetryAck (Some p) = normalAck (telemetryAckFor pending target packet)) \<or>
       (fv_kind view = KCommandResult \<and> p = [] \<and>
        rg_sessionFrames st' = rg_sessionFrames st @ [receivedFrameOf packet now])))"
proof (cases "decodeFrame (Some (pk_data packet))")
  case (Inl e)
  then show ?thesis using assms by (auto simp: drainReceivedFrame_def Let_def)
next
  case (Inr view)
  let ?a = "senderActive isActive st (pk_senderId packet)"
  let ?f = "receivedFrameOf packet now"
  consider "fv_kind view = KTelemetry" | "fv_kind view = KCommandReady \<or> fv_kind view = KCommandResult"
    | "fv_kind view \<noteq> KTelemetry" "\<not> (fv_kind view = KCommandReady \<or> fv_kind view = KCommandResult)" by blast
  then show ?thesis
  proof cases
    case 1
    obtain s c where r: "receiveTelemetryFrame pending target ?a ?f packet (countPacket packet now st) = (s, c)" by (metis prod.exhaust)
    have "st' = s" "calls = c @ [CallReceiveDone]" using assms(1) Inr 1 r by (simp_all add: drainReceivedFrame_def)
    then show ?thesis using receiveTelemetryFrame_acks [OF r] assms(2) Inr 1 by auto
  next
    case 2
    obtain s c where r: "receiveSessionFrame ?a ?f packet (fv_kind view) (countPacket packet now st) = (s, c)" by (metis prod.exhaust)
    have "st' = s" "calls = c @ [CallReceiveDone]" using assms(1) Inr 2 r by (auto simp: drainReceivedFrame_def)
    then show ?thesis using receiveSessionFrame_acks [OF r] assms(2) Inr 2 by auto
  next
    case 3
    then show ?thesis using assms Inr by (auto simp: drainReceivedFrame_def)
  qed
qed

text \<open>A frame that asks for an acknowledgement and gets none was not queued for the services that
  acknowledge, so the node's retry cannot be a duplicate.\<close>

lemma drain_silent:
  assumes "drainReceivedFrame isActive pending target now st (Some packet) = (st', calls)"
    and "\<forall>p. CallSendAck p \<notin> set calls" "pk_ackRequested packet"
    and "decodeFrame (Some (pk_data packet)) = Inr view"
  shows "(fv_kind view = KTelemetry \<longrightarrow> rg_telemetryFrames st' = rg_telemetryFrames st) \<and>
    (fv_kind view = KCommandResult \<longrightarrow> rg_sessionFrames st' = rg_sessionFrames st)"
proof -
  let ?a = "senderActive isActive st (pk_senderId packet)"
  let ?f = "receivedFrameOf packet now"
  have "rg_telemetryFrames st' = rg_telemetryFrames st" if "fv_kind view = KTelemetry"
  proof -
    obtain s c where r: "receiveTelemetryFrame pending target ?a ?f packet (countPacket packet now st) = (s, c)" by (metis prod.exhaust)
    have "st' = s" "calls = c @ [CallReceiveDone]" using assms(1,4) that r by (simp_all add: drainReceivedFrame_def)
    then show ?thesis using receiveTelemetryFrame_acks [OF r] assms(2,3) by auto
  qed
  moreover have "rg_sessionFrames st' = rg_sessionFrames st" if "fv_kind view = KCommandResult"
  proof -
    obtain s c where r: "receiveSessionFrame ?a ?f packet (fv_kind view) (countPacket packet now st) = (s, c)" by (metis prod.exhaust)
    have "st' = s" "calls = c @ [CallReceiveDone]" using assms(1,4) that r by (simp_all add: drainReceivedFrame_def)
    then show ?thesis using receiveSessionFrame_acks [OF r] assms(2,3) that by auto
  qed
  ultimately show ?thesis by blast
qed

subsection \<open>Every run of the radio\<close>

text \<open>\<open>begin\<close>.  An attempt is whether the SPI bus starts, the module answers and its carrier reads
  back as configured; at most three are made.\<close>

abbreviation (input) kInitializationAttempts :: nat where "kInitializationAttempts \<equiv> 3"
abbreviation (input) kExpectedVersion :: u8 where "kExpectedVersion \<equiv> 0x24"

fun probeModule :: "(bool \<times> bool \<times> bool) list \<Rightarrow> u32 \<Rightarrow> u32 \<times> bool" where
  "probeModule [] faults = (faults, False)"
| "probeModule ((spi, answers, carrier) # attempts) faults =
     (if spi \<and> answers \<and> carrier then (faults, True)
      else probeModule attempts (if spi \<and> answers then faults + 1 else faults))"

definition startingRadio :: "bool \<Rightarrow> u8 \<Rightarrow> bytes \<Rightarrow> radio_service" where
  "startingRadio installationKeyPresent operationalNetworkId installationKey =
     \<lparr>rg_state = RadioStarting,
       rg_profile = OperationalProfile, rg_networkId = operationalNetworkId,
       rg_operationalNetworkId = operationalNetworkId, rg_commissioningNetworkId = 0,
       rg_operationalKey = installationKey, rg_pairingKey = zeros kRadioKeySize,
       rg_operationalEnabled = installationKeyPresent, rg_hasQueues = False,
       rg_commissioningEnabled = False,
       rg_receivedFrames = [], rg_telemetryFrames = [], rg_sessionFrames = [], rg_commands = [],
       rg_telemetryRejectedInactive = 0, rg_telemetryFramesQueued = 0, rg_telemetryFramesDropped = 0,
       rg_telemetryAcksSent = 0, rg_commandHintsSent = 0, rg_powerTargetsSent = 0,
       rg_sessionFramesQueued = 0, rg_sessionFramesDropped = 0, rg_sessionFramesRejected = 0,
       rg_commandResultAcksSent = 0, rg_frequencyFaults = 0, rg_interrupts = 0,
       rg_missedInterrupts = 0, rg_packets = 0, rg_bytes = 0, rg_emptyWakeups = 0,
       rg_v2Frames = 0, rg_v2TelemetryFrames = 0, rg_emptyApplicationFrames = 0,
       rg_unsupportedProtocolVersions = 0, rg_unsupportedFrameKinds = 0, rg_lastPacketMs = 0,
       rg_lastSenderId = 0, rg_lastRssi = 0, rg_rxFramesQueued = 0, rg_rxFramesDropped = 0,
       rg_ackRequestsIgnored = 0, rg_commandsQueued = 0, rg_commandsDropped = 0,
       rg_commandsProcessed = 0\<rparr>"

definition radioBegin ::
  "(bool \<times> bool \<times> bool) list \<Rightarrow> u8 \<Rightarrow> bool \<Rightarrow> bool \<Rightarrow> bool \<Rightarrow> u8 \<Rightarrow> bytes \<Rightarrow>
   radio_service \<times> module_setup \<times> bool" where
  "radioBegin attempts version queuesCreated taskCreated installationKeyPresent operationalNetworkId installationKey =
     (let st = startingRadio installationKeyPresent operationalNetworkId installationKey;
          (faults, initialized) = probeModule (take kInitializationAttempts attempts) 0;
          st = st\<lparr>rg_frequencyFaults := faults\<rparr>;
          module = (operationalNetworkId, None)
      in if \<not> initialized then (st\<lparr>rg_state := RadioInitializationFailed\<rparr>, module, False)
         else if version \<noteq> kExpectedVersion then (st\<lparr>rg_state := RadioVersionMismatch\<rparr>, module, False)
         else
           let module = (operationalNetworkId,
                 if rg_operationalEnabled st then Some installationKey else None)
           in if \<not> queuesCreated then (st\<lparr>rg_state := RadioTaskFailed\<rparr>, module, False)
              else
                let st = st\<lparr>rg_hasQueues := True\<rparr>
                in if \<not> taskCreated then (st\<lparr>rg_state := RadioTaskFailed\<rparr>, module, False)
                   else if \<not> rg_operationalEnabled st
                   then (st\<lparr>rg_state := RadioEncryptionKeyMissing\<rparr>, module, True)
                   else (st\<lparr>rg_state := RadioReceiving\<rparr>, module, True))"

lemma take_ok:
  "takeReceived st = (st', frame) \<Longrightarrow> keepsSound st m st' []"
  "takeTelemetry st = (st', frame) \<Longrightarrow> keepsSound st m st' []"
  "takeSession st = (st', frame) \<Longrightarrow> keepsSound st m st' []"
  by (auto simp: takeReceived_def takeTelemetry_def takeSession_def keepsSound_def
      split: list.splits intro: serviceSound_fields)

inductive radio_step :: "radio_service \<Rightarrow> RadioCall list \<Rightarrow> radio_service \<Rightarrow> bool" where
  step_task: "(received \<noteq> None \<longrightarrow> rg_operationalEnabled st) \<Longrightarrow>
    radioTask isActive pending target now libraryRx dio0High st woke received = (st', calls) \<Longrightarrow>
    radio_step st calls st'"
| step_received: "takeReceived st = (st', frame) \<Longrightarrow> radio_step st [] st'"
| step_telemetry: "takeTelemetry st = (st', frame) \<Longrightarrow> radio_step st [] st'"
| step_session: "takeSession st = (st', frame) \<Longrightarrow> radio_step st [] st'"
| step_work: "workOff st = (st', calls) \<Longrightarrow> radio_step st calls st'"
| step_profile: "requestProfile completes st profile = (st', calls, ok) \<Longrightarrow> radio_step st calls st'"
| step_commission: "beginCommissioning completes st key = (st', calls, ok) \<Longrightarrow> radio_step st calls st'"
| step_install: "applyInstallation completes st networkId key = (st', calls, ok) \<Longrightarrow> radio_step st calls st'"
| step_switch: "sendThenSwitchProfile completes st targetId data profile = (st', calls, ok) \<Longrightarrow>
    radio_step st calls st'"
| step_send: "radioSend st targetId data requestAck = (st', ok) \<Longrightarrow> radio_step st [] st'"

inductive radio_run :: "radio_service \<Rightarrow> RadioCall list \<Rightarrow> radio_service \<Rightarrow> bool" where
  run_start: "radio_run st [] st"
| run_step: "radio_run st calls st' \<Longrightarrow> radio_step st' next_calls st'' \<Longrightarrow> radio_run st (calls @ next_calls) st''"

lemma radio_step_sound: "radio_step st calls st' \<Longrightarrow> keepsSound st m st' calls"
proof (induction rule: radio_step.induct)
  case (step_task received st isActive pending target now libraryRx dio0High woke st' calls)
  then show ?case by (rule radioTask_sound)
next
  case (step_work st st' calls)
  then show ?case using workOff_ok [of st m] by simp
qed (auto intro: requests_ok take_ok)

lemma radioBegin_sound:
  assumes "radioBegin attempts version queuesCreated taskCreated present network key = (st, m, True)"
  shows "serviceSound st m" "rg_hasQueues st"
    "rg_state st = (if present then RadioReceiving else RadioEncryptionKeyMissing)"
  using assms
  by (auto simp: radioBegin_def startingRadio_def serviceSound_def radioOk_def waitsForKey_def Let_def
      split: if_splits prod.splits)

text \<open>When \<open>begin\<close> fails for want of queues, or never reached them, every request is refused.\<close>

lemma radioBegin_failed:
  assumes "radioBegin attempts version False taskCreated present network key = (st, m, ok)"
  shows "\<not> ok" "\<not> rg_hasQueues st"
    "requestProfile completes st profile = (st, [], False)"
    "beginCommissioning completes st key' = (st, [], False)"
    "applyInstallation completes st networkId key' = (st, [], False)"
    "radioSend st targetId data requestAck = (st, False)"
    "sendThenSwitchProfile completes st targetId data profile = (st, [], False)"
proof -
  show "\<not> ok" and q: "\<not> rg_hasQueues st"
    using assms by (auto simp: radioBegin_def startingRadio_def Let_def split: if_splits prod.splits)
  show "requestProfile completes st profile = (st, [], False)"
    "beginCommissioning completes st key' = (st, [], False)"
    "applyInstallation completes st networkId key' = (st, [], False)"
    "radioSend st targetId data requestAck = (st, False)"
    "sendThenSwitchProfile completes st targetId data profile = (st, [], False)"
    using q by (simp_all add: requestProfile_def beginCommissioning_def applyInstallation_def radioSend_def
        sendThenSwitchProfile_def acceptsCommands_def split: option.splits)
qed

lemma radio_run_sound:
  "radio_run st calls st' \<Longrightarrow> serviceSound st m \<Longrightarrow> serviceSound st' (moduleAfter m calls) \<and> sendsEncrypted m calls"
proof (induction rule: radio_run.induct)
  case (run_step st calls st' next_calls st'')
  then show ?case
    using radio_step_sound [OF run_step.hyps(2), of "moduleAfter m calls"] by (simp add: keepsSound_def)
qed simp

text \<open>A synchronous command that reports success was the last one the radio task worked off.\<close>

lemma completed_last:
  assumes "queueAndWaitForCompletion completes st command = (st', calls, True)"
  shows "\<exists>s. st' = fst (processCommand s command)"
    "completes" "rg_hasQueues st"
proof -
  have last: "\<exists>s'. fst (runCommands s (cs @ [command])) = fst (processCommand s' command)" for s cs
    by (induction cs arbitrary: s) (auto simp: case_prod_unfold Let_def)
  have "st' = fst (runCommands (st\<lparr>rg_commandsQueued := rg_commandsQueued st + 1, rg_commands := []\<rparr>)
      (rg_commands st @ [command]))"
    and c: "completes" "rg_hasQueues st"
    using assms by (auto simp: queueAndWaitForCompletion_def queueCommand_def sendToBack_def workOff_def
        case_prod_unfold Let_def split: if_splits)
  with last c show "\<exists>s. st' = fst (processCommand s command)"
    "completes" "rg_hasQueues st" by auto
qed

definition radioAtRest :: "radio_service \<Rightarrow> bool" where
  "radioAtRest st \<longleftrightarrow> rg_profile st = OperationalProfile \<and> \<not> rg_commissioningEnabled st \<and>
     rg_pairingKey st = zeros kRadioKeySize"

lemma requestProfile_rests:
  assumes "requestProfile completes st OperationalProfile = (st', calls, True)"
  shows "radioAtRest st'"
proof -
  let ?c = "emptyRadioCommand\<lparr>rc_kind := SetProfile, rc_profile := OperationalProfile\<rparr>"
  have "queueAndWaitForCompletion completes st ?c = (st', calls, True)"
    using assms by (auto simp: requestProfile_def split: if_splits)
  from completed_last(1) [OF this] show ?thesis
    by (auto simp: processCommand_def performCommand_def toOperational_def radioAtRest_def Let_def)
qed

text \<open>Once the radio has switched to the operational profile it refuses to go back: the pairing key is
  gone until commissioning begins again.\<close>

lemma switched_cannot_return:
  assumes "sendThenSwitchProfile completes st targetId data OperationalProfile = (st', calls, True)"
  shows "radioAtRest st'" "requestProfile completes' st' CommissioningProfile = (st', [], False)"
proof -
  obtain bs where bs: "data = Some bs" "rg_hasQueues st" "rg_operationalEnabled st" "length bs \<le> 61"
    using assms by (auto simp: sendThenSwitchProfile_def acceptsCommands_def split: option.splits if_splits)
  let ?c = "emptyRadioCommand\<lparr>rc_kind := SendFrame, rc_targetId := targetId,
    rc_size := of_nat (length bs), rc_profile := OperationalProfile, rc_switchAfterSend := True,
    rc_data := put (rc_data emptyRadioCommand) 0 bs\<rparr>"
  have "queueAndWaitForCompletion completes st ?c = (st', calls, True)"
    using assms bs by (simp add: sendThenSwitchProfile_def acceptsCommands_def)
  from completed_last(1) [OF this] show r: "radioAtRest st'"
    by (auto simp: processCommand_def performCommand_def toOperational_def radioAtRest_def Let_def)
  show "requestProfile completes' st' CommissioningProfile = (st', [], False)"
    using r by (simp add: requestProfile_def radioAtRest_def)
qed

end
