(* ===== verification/Schedules.thy ===== *)
theory Schedules
  imports RS_Prelude
begin

text \<open>
  node/lib/NodeCore/include/TelemetrySchedule.h, SupplyVoltage.h: when a node reports, retries,
  joins and opens command sessions.  Time is the node's 32-bit millisecond clock, which wraps; the
  differences are taken modulo \<open>2 ^ 32\<close> as in the source.  A const method is a function of the
  state, the others return the new state (with the result first where there is one).
\<close>

subsection \<open>Elapsed time\<close>

abbreviation (input) kEventNodeKeepAliveMs :: u32 where "kEventNodeKeepAliveMs \<equiv> 3600000"
abbreviation (input) kCounterMinimumReportMs :: u32 where "kCounterMinimumReportMs \<equiv> 60000"

definition intervalElapsed :: "u32 \<Rightarrow> u32 \<Rightarrow> u32 \<Rightarrow> bool" where
  "intervalElapsed now since interval \<longleftrightarrow> now - since \<ge> interval"

text \<open>The clock at millisecond \<open>t\<close> since boot.\<close>

definition clockAt :: "nat \<Rightarrow> u32" where
  "clockAt t = of_nat t"

text \<open>Correct across the wrap, as long as less than \<open>2 ^ 32\<close> ms (49 days) have passed.\<close>

lemma unat_elapsed: "d < 2 ^ 32 \<Longrightarrow> unat (clockAt (t + d) - clockAt t) = d"
  by (simp add: clockAt_def unat_of_nat)

lemma intervalElapsed_clock:
  "d < 2 ^ 32 \<Longrightarrow> intervalElapsed (clockAt (t + d)) (clockAt t) interval \<longleftrightarrow> unat interval \<le> d"
  using unat_elapsed [of d t] by (simp add: intervalElapsed_def word_le_nat_alt)

lemma intervalElapsed_mono: "a \<le> b \<Longrightarrow> intervalElapsed now since b \<Longrightarrow> intervalElapsed now since a"
  by (simp add: intervalElapsed_def)

lemma intervalElapsed_0 [simp]: "intervalElapsed now since 0"
  by (simp add: intervalElapsed_def)

subsection \<open>Climate reports\<close>

record ClimateReportPolicy =
  cp_chargedIntervalMs :: u32
  cp_lowChargeIntervalMs :: u32
  cp_lowChargeThresholdMv :: u16

definition climateFixed :: "u32 \<Rightarrow> ClimateReportPolicy" where
  "climateFixed intervalMs = \<lparr>cp_chargedIntervalMs = intervalMs, cp_lowChargeIntervalMs = intervalMs,
     cp_lowChargeThresholdMv = 0\<rparr>"

definition climateAdaptive :: "u32 \<Rightarrow> u32 \<Rightarrow> u16 \<Rightarrow> ClimateReportPolicy" where
  "climateAdaptive charged lowCharge threshold = \<lparr>cp_chargedIntervalMs = charged,
     cp_lowChargeIntervalMs = lowCharge, cp_lowChargeThresholdMv = threshold\<rparr>"

definition intervalForMillivolts :: "ClimateReportPolicy \<Rightarrow> u16 \<Rightarrow> u32" where
  "intervalForMillivolts policy supplyMillivolts =
     (if supplyMillivolts > cp_lowChargeThresholdMv policy then cp_chargedIntervalMs policy
      else cp_lowChargeIntervalMs policy)"

record ClimateReportSchedule =
  cs_policy :: ClimateReportPolicy
  cs_intervalMs :: u32
  cs_lastAttempt :: u32
  cs_hasAttempt :: bool

definition newClimateSchedule :: "ClimateReportPolicy \<Rightarrow> ClimateReportSchedule" where
  "newClimateSchedule policy = \<lparr>cs_policy = policy, cs_intervalMs = 0, cs_lastAttempt = 0,
     cs_hasAttempt = False\<rparr>"

definition climateDue :: "ClimateReportSchedule \<Rightarrow> u32 \<Rightarrow> bool" where
  "climateDue s now \<longleftrightarrow> \<not> cs_hasAttempt s \<or> intervalElapsed now (cs_lastAttempt s) (cs_intervalMs s)"

definition climateAttempted :: "ClimateReportSchedule \<Rightarrow> u32 \<Rightarrow> u16 \<Rightarrow> u32 \<times> ClimateReportSchedule" where
  "climateAttempted s now supplyMillivolts =
     (let s = s\<lparr>cs_intervalMs := intervalForMillivolts (cs_policy s) supplyMillivolts\<rparr>;
          s = s\<lparr>cs_lastAttempt := now\<rparr>;
          s = s\<lparr>cs_hasAttempt := True\<rparr>
      in (cs_intervalMs s, s))"

subsection \<open>Keep-alive and event reports\<close>

record RollingKeepAlive =
  ka_intervalMs :: u32
  ka_lastSuccessfulTransmission :: u32
  ka_hasSuccessfulTransmission :: bool

definition newKeepAlive :: "u32 \<Rightarrow> RollingKeepAlive" where
  "newKeepAlive intervalMs = \<lparr>ka_intervalMs = intervalMs, ka_lastSuccessfulTransmission = 0,
     ka_hasSuccessfulTransmission = False\<rparr>"

definition keepAliveDue :: "RollingKeepAlive \<Rightarrow> u32 \<Rightarrow> bool" where
  "keepAliveDue k now \<longleftrightarrow> \<not> ka_hasSuccessfulTransmission k \<or>
     intervalElapsed now (ka_lastSuccessfulTransmission k) (ka_intervalMs k)"

definition keepAliveSucceeded :: "RollingKeepAlive \<Rightarrow> u32 \<Rightarrow> RollingKeepAlive" where
  "keepAliveSucceeded k now = k\<lparr>ka_lastSuccessfulTransmission := now, ka_hasSuccessfulTransmission := True\<rparr>"

definition keepAliveSetInterval :: "RollingKeepAlive \<Rightarrow> u32 \<Rightarrow> RollingKeepAlive" where
  "keepAliveSetInterval k intervalMs = k\<lparr>ka_intervalMs := intervalMs\<rparr>"

record BinaryReportSchedule =
  bs_keepAlive :: RollingKeepAlive
  bs_stateChanged :: bool
  bs_urgent :: bool

definition newBinarySchedule :: "u32 \<Rightarrow> BinaryReportSchedule" where
  "newBinarySchedule intervalMs = \<lparr>bs_keepAlive = newKeepAlive intervalMs, bs_stateChanged = False,
     bs_urgent = False\<rparr>"

definition binaryStateChanged :: "BinaryReportSchedule \<Rightarrow> BinaryReportSchedule" where
  "binaryStateChanged s = s\<lparr>bs_stateChanged := True, bs_urgent := True\<rparr>"

definition binaryDue :: "BinaryReportSchedule \<Rightarrow> u32 \<Rightarrow> bool" where
  "binaryDue s now \<longleftrightarrow> bs_stateChanged s \<or> keepAliveDue (bs_keepAlive s) now"

definition binaryTakeUrgent :: "BinaryReportSchedule \<Rightarrow> bool \<times> BinaryReportSchedule" where
  "binaryTakeUrgent s = (bs_urgent s, s\<lparr>bs_urgent := False\<rparr>)"

definition binarySucceeded :: "BinaryReportSchedule \<Rightarrow> u32 \<Rightarrow> BinaryReportSchedule" where
  "binarySucceeded s now = s\<lparr>bs_stateChanged := False,
     bs_keepAlive := keepAliveSucceeded (bs_keepAlive s) now\<rparr>"

record CounterReportSchedule =
  ct_keepAlive :: RollingKeepAlive
  ct_lastSuccessfulTransmission :: u32
  ct_hasSuccessfulTransmission :: bool
  ct_countChanged :: bool
  ct_immediateReportPending :: bool
  ct_urgent :: bool

definition newCounterSchedule :: CounterReportSchedule where
  "newCounterSchedule = \<lparr>ct_keepAlive = newKeepAlive kEventNodeKeepAliveMs,
     ct_lastSuccessfulTransmission = 0, ct_hasSuccessfulTransmission = False,
     ct_countChanged = False, ct_immediateReportPending = False, ct_urgent = False\<rparr>"

definition counterPulseRecorded :: "CounterReportSchedule \<Rightarrow> CounterReportSchedule" where
  "counterPulseRecorded s = s\<lparr>ct_countChanged := True\<rparr>"

definition counterCountSet :: "CounterReportSchedule \<Rightarrow> CounterReportSchedule" where
  "counterCountSet s = s\<lparr>ct_countChanged := True, ct_immediateReportPending := True, ct_urgent := True\<rparr>"

definition counterTakeUrgent :: "CounterReportSchedule \<Rightarrow> bool \<times> CounterReportSchedule" where
  "counterTakeUrgent s = (ct_urgent s, s\<lparr>ct_urgent := False\<rparr>)"

definition counterDue :: "CounterReportSchedule \<Rightarrow> u32 \<Rightarrow> bool" where
  "counterDue s now \<longleftrightarrow> ct_immediateReportPending s \<or> keepAliveDue (ct_keepAlive s) now \<or>
     (ct_countChanged s \<and> ct_hasSuccessfulTransmission s \<and>
      intervalElapsed now (ct_lastSuccessfulTransmission s) kCounterMinimumReportMs)"

definition counterSucceeded :: "CounterReportSchedule \<Rightarrow> u32 \<Rightarrow> CounterReportSchedule" where
  "counterSucceeded s now =
     s\<lparr>ct_countChanged := False, ct_immediateReportPending := False,
       ct_lastSuccessfulTransmission := now, ct_hasSuccessfulTransmission := True,
       ct_keepAlive := keepAliveSucceeded (ct_keepAlive s) now\<rparr>"

subsection \<open>Retry backoff\<close>

abbreviation (input) kSilentDayMs :: u32 where "kSilentDayMs \<equiv> 86400000"
abbreviation (input) kSilentDayDelayMs :: u32 where "kSilentDayDelayMs \<equiv> 3600000"
abbreviation (input) kLastLevel :: u8 where "kLastLevel \<equiv> 2"

definition backoffDelays :: "u32 list" where
  "backoffDelays = [60000, 300000, 900000]"

record RadioRetryBackoff =
  rb_firstFailedAt :: u32
  rb_failedAt :: u32
  rb_delayMs :: u32
  rb_failureLevel :: u8
  rb_enabled :: bool
  rb_waiting :: bool
  rb_silentForDay :: bool

definition newBackoff :: "bool \<Rightarrow> RadioRetryBackoff" where
  "newBackoff enabled = \<lparr>rb_firstFailedAt = 0, rb_failedAt = 0, rb_delayMs = 0, rb_failureLevel = 0,
     rb_enabled = enabled, rb_waiting = False, rb_silentForDay = False\<rparr>"

definition backoffAllowed :: "RadioRetryBackoff \<Rightarrow> u32 \<Rightarrow> bool" where
  "backoffAllowed b now \<longleftrightarrow> \<not> rb_enabled b \<or> \<not> rb_waiting b \<or>
     intervalElapsed now (rb_failedAt b) (rb_delayMs b)"

definition backoffFailed :: "RadioRetryBackoff \<Rightarrow> u32 \<Rightarrow> RadioRetryBackoff" where
  "backoffFailed b now =
     (let b = (if \<not> rb_waiting b
               then b\<lparr>rb_firstFailedAt := now, rb_failureLevel := 0, rb_silentForDay := False\<rparr>
               else
                 let b = (if rb_failureLevel b < kLastLevel
                          then b\<lparr>rb_failureLevel := rb_failureLevel b + 1\<rparr> else b)
                 in if intervalElapsed now (rb_firstFailedAt b) kSilentDayMs
                    then b\<lparr>rb_silentForDay := True\<rparr> else b);
          b = b\<lparr>rb_failedAt := now\<rparr>;
          b = b\<lparr>rb_delayMs := (if rb_silentForDay b then kSilentDayDelayMs
                                else backoffDelays ! unat (rb_failureLevel b))\<rparr>
      in b\<lparr>rb_waiting := True\<rparr>)"

definition backoffSucceeded :: "RadioRetryBackoff \<Rightarrow> RadioRetryBackoff" where
  "backoffSucceeded b = b\<lparr>rb_waiting := False\<rparr>"

record HintedSessionPolicy =
  hs_unanswered :: RadioRetryBackoff
  hs_lastSession :: u32
  hs_hasSession :: bool

definition newHintedSessions :: HintedSessionPolicy where
  "newHintedSessions = \<lparr>hs_unanswered = newBackoff True, hs_lastSession = 0, hs_hasSession = False\<rparr>"

definition hintedAllowed :: "HintedSessionPolicy \<Rightarrow> u32 \<Rightarrow> bool" where
  "hintedAllowed h now \<longleftrightarrow> (\<not> hs_hasSession h \<or> intervalElapsed now (hs_lastSession h) 300000) \<and>
     backoffAllowed (hs_unanswered h) now"

definition hintedFinished :: "HintedSessionPolicy \<Rightarrow> u32 \<Rightarrow> bool \<Rightarrow> HintedSessionPolicy" where
  "hintedFinished h now answered =
     (let h = h\<lparr>hs_lastSession := now, hs_hasSession := True\<rparr>
      in if answered then h\<lparr>hs_unanswered := backoffSucceeded (hs_unanswered h)\<rparr>
         else h\<lparr>hs_unanswered := backoffFailed (hs_unanswered h) now\<rparr>)"

subsection \<open>Joining\<close>

abbreviation (input) kBurstIntervalMs :: u32 where "kBurstIntervalMs \<equiv> 300000"
abbreviation (input) kBurstAttempts :: u8 where "kBurstAttempts \<equiv> 12"
abbreviation (input) kProvisionalIntervalMs :: u32 where "kProvisionalIntervalMs \<equiv> 3600000"

record JoinRetrySchedule =
  jr_lastAttempt :: u32
  jr_burstAttempts :: u8
  jr_attempted :: bool

definition newJoinRetry :: JoinRetrySchedule where
  "newJoinRetry = \<lparr>jr_lastAttempt = 0, jr_burstAttempts = 0, jr_attempted = False\<rparr>"

definition joinDue :: "JoinRetrySchedule \<Rightarrow> u32 \<Rightarrow> bool \<Rightarrow> bool" where
  "joinDue j now provisional =
     (if \<not> jr_attempted j then True
      else if jr_burstAttempts j < kBurstAttempts
      then intervalElapsed now (jr_lastAttempt j) kBurstIntervalMs
      else provisional \<and> intervalElapsed now (jr_lastAttempt j) kProvisionalIntervalMs)"

definition joinAttempted :: "JoinRetrySchedule \<Rightarrow> u32 \<Rightarrow> bool \<Rightarrow> JoinRetrySchedule" where
  "joinAttempted j now requestedByButton =
     (let j = (if requestedByButton then j\<lparr>jr_burstAttempts := 0\<rparr> else j);
          j = (if jr_burstAttempts j < kBurstAttempts
               then j\<lparr>jr_burstAttempts := jr_burstAttempts j + 1\<rparr> else j)
      in j\<lparr>jr_lastAttempt := now, jr_attempted := True\<rparr>)"

subsection \<open>Supply voltage\<close>

definition loadedReport :: "u16 \<Rightarrow> u16 \<Rightarrow> u16" where
  "loadedReport afterPrevious beforeTransmission =
     (if beforeTransmission < afterPrevious then beforeTransmission else afterPrevious)"

definition loadedTransmitted :: "u16 \<Rightarrow> u16 \<Rightarrow> u16" where
  "loadedTransmitted afterPrevious afterTransmission = afterTransmission"

definition loadedForget :: "u16 \<Rightarrow> u16" where
  "loadedForget afterPrevious = 0xFFFF"

abbreviation (input) kRecheckMs :: u32 where "kRecheckMs \<equiv> 60000"

record SupplyGate =
  sg_minimumExclusiveMillivolts :: u16
  sg_lowAt :: u32
  sg_low :: bool

definition newSupplyGate :: "u16 \<Rightarrow> SupplyGate" where
  "newSupplyGate minimum = \<lparr>sg_minimumExclusiveMillivolts = minimum, sg_lowAt = 0, sg_low = False\<rparr>"

definition gateHolding :: "SupplyGate \<Rightarrow> u32 \<Rightarrow> bool" where
  "gateHolding g now \<longleftrightarrow> sg_low g \<and> \<not> intervalElapsed now (sg_lowAt g) kRecheckMs"

definition gateMeasured :: "SupplyGate \<Rightarrow> u32 \<Rightarrow> u16 \<Rightarrow> bool \<times> SupplyGate" where
  "gateMeasured g now supplyMillivolts =
     (let g = g\<lparr>sg_low := supplyMillivolts \<le> sg_minimumExclusiveMillivolts g\<rparr>;
          g = (if sg_low g then g\<lparr>sg_lowAt := now\<rparr> else g)
      in (\<not> sg_low g, g))"

subsection \<open>What the backoff does over a silent period\<close>

text \<open>The state after failures at the given times, the first one of a silent period.\<close>

definition backoffRun :: "RadioRetryBackoff \<Rightarrow> u32 \<Rightarrow> u32 list \<Rightarrow> RadioRetryBackoff" where
  "backoffRun b t ts = foldl backoffFailed (backoffFailed b t) ts"

text \<open>The delay after the \<open>n\<close>-th repeated failure: 1, 5, then 15 minutes; hourly from the first
  failure that came a day or more after the first one, for good.\<close>

lemma backoffRun_state:
  assumes "\<not> rb_waiting b"
  shows "rb_waiting (backoffRun b t ts) \<and> rb_firstFailedAt (backoffRun b t ts) = t \<and>
    rb_failedAt (backoffRun b t ts) = last (t # ts) \<and> rb_enabled (backoffRun b t ts) = rb_enabled b \<and>
    rb_failureLevel (backoffRun b t ts) = of_nat (min (length ts) 2) \<and>
    rb_silentForDay (backoffRun b t ts) = list_ex (\<lambda>x. intervalElapsed x t kSilentDayMs) ts \<and>
    rb_delayMs (backoffRun b t ts) =
      (if list_ex (\<lambda>x. intervalElapsed x t kSilentDayMs) ts then kSilentDayDelayMs
       else backoffDelays ! min (length ts) 2)"
proof (induction ts rule: rev_induct)
  case Nil
  then show ?case using assms by (simp add: backoffRun_def backoffFailed_def Let_def)
next
  case (snoc x ts)
  let ?b = "backoffRun b t ts"
  have step: "backoffRun b t (ts @ [x]) = backoffFailed ?b x" by (simp add: backoffRun_def)
  have small: "(of_nat (min (length ts) 2) :: u8) < 2 \<longleftrightarrow> length ts < 2"
  proof -
    consider "length ts = 0" | "length ts = 1" | "2 \<le> length ts" by linarith
    then show ?thesis by cases simp_all
  qed
  have up: "(if length ts < 2 then of_nat (min (length ts) 2) + 1 else of_nat (min (length ts) 2)) =
      (of_nat (min (Suc (length ts)) 2) :: u8)"
  proof -
    consider "length ts = 0" | "length ts = 1" | "2 \<le> length ts" by linarith
    then show ?thesis by cases simp_all
  qed
  have un: "unat (of_nat (min (Suc (length ts)) 2) :: u8) = min (Suc (length ts)) 2"
    by (intro unat_of_nat_u8) simp
  have w: "rb_waiting ?b" "rb_firstFailedAt ?b = t" "rb_enabled ?b = rb_enabled b"
    "rb_failureLevel ?b = of_nat (min (length ts) 2)"
    "rb_silentForDay ?b = list_ex (\<lambda>x. intervalElapsed x t kSilentDayMs) ts"
    using snoc.IH by blast+
  let ?c = "backoffFailed ?b x"
  have lv: "rb_failureLevel ?c = of_nat (min (Suc (length ts)) 2)"
    unfolding up [symmetric] using w(1,4) small by (simp add: backoffFailed_def Let_def)
  have si: "rb_silentForDay ?c = list_ex (\<lambda>x. intervalElapsed x t kSilentDayMs) (ts @ [x])"
    using w(1,2,5) by (simp add: backoffFailed_def Let_def)
  have de: "rb_delayMs ?c = (if rb_silentForDay ?c then kSilentDayDelayMs
      else backoffDelays ! unat (rb_failureLevel ?c))"
    by (simp add: backoffFailed_def Let_def)
  have rest: "rb_waiting ?c" "rb_firstFailedAt ?c = t" "rb_failedAt ?c = x" "rb_enabled ?c = rb_enabled b"
    using w(1,2,3) by (simp_all add: backoffFailed_def Let_def)
  show ?case unfolding step using rest lv si de un by simp
qed

text \<open>So a report is allowed exactly when the delay has passed, and never later than an hour after
  the last failure.\<close>

lemma backoffRun_allowed:
  assumes "\<not> rb_waiting b" "rb_enabled b" "last (t # ts) = clockAt n" "d < 2 ^ 32"
  shows "backoffAllowed (backoffRun b t ts) (clockAt (n + d)) \<longleftrightarrow>
    unat (rb_delayMs (backoffRun b t ts)) \<le> d"
  using backoffRun_state [OF assms(1), of t ts] assms(2,3) intervalElapsed_clock [OF assms(4), of n]
  by (simp add: backoffAllowed_def del: last.simps)

lemma backoffRun_hour:
  assumes "\<not> rb_waiting b"
  shows "unat (rb_delayMs (backoffRun b t ts)) \<in> {60000, 300000, 900000, 3600000}"
proof -
  consider "length ts = 0" | "length ts = 1" | "2 \<le> length ts" by linarith
  then show ?thesis
    using backoffRun_state [OF assms, of t ts] by cases (auto simp: backoffDelays_def min_def)
qed

subsection \<open>How often an unconfigured node tries to join\<close>

text \<open>One pass of the runtime at time \<open>now\<close> without a button press: \<open>commissionIfDue\<close>.\<close>

definition joinPoll :: "JoinRetrySchedule \<Rightarrow> u32 \<Rightarrow> bool \<Rightarrow> JoinRetrySchedule" where
  "joinPoll j now provisional =
     (if joinDue j now provisional then joinAttempted j now False else j)"

text \<open>The times at which attempts were made.\<close>

fun joinAttempts :: "JoinRetrySchedule \<Rightarrow> bool \<Rightarrow> u32 list \<Rightarrow> u32 list" where
  "joinAttempts j provisional [] = []"
| "joinAttempts j provisional (now # rest) =
     (if joinDue j now provisional
      then now # joinAttempts (joinAttempted j now False) provisional rest
      else joinAttempts j provisional rest)"

definition joinOk :: "JoinRetrySchedule \<Rightarrow> bool" where
  "joinOk j \<longleftrightarrow> jr_burstAttempts j \<le> kBurstAttempts \<and> (\<not> jr_attempted j \<longrightarrow> jr_burstAttempts j = 0)"

lemma joinAttempted_ok:
  assumes "joinOk j"
  shows "joinOk (joinAttempted j now button)" "jr_attempted (joinAttempted j now button)"
    "jr_lastAttempt (joinAttempted j now button) = now"
    "jr_burstAttempts j < 12 \<Longrightarrow> unat (jr_burstAttempts (joinAttempted j now False)) = Suc (unat (jr_burstAttempts j))"
    "unat (jr_burstAttempts (joinAttempted j now True)) = 1"
proof -
  have suc: "unat (x + 1) = Suc (unat x)" if "x < 12" for x :: u8
    using that by (simp add: word_less_nat_alt unat_word_ariths)
  show "joinOk (joinAttempted j now button)"
    using assms suc [of "jr_burstAttempts j"]
    by (auto simp: joinOk_def joinAttempted_def Let_def word_le_nat_alt word_less_nat_alt)
  show "jr_attempted (joinAttempted j now button)" "jr_lastAttempt (joinAttempted j now button) = now"
    "unat (jr_burstAttempts (joinAttempted j now True)) = 1"
    by (simp_all add: joinAttempted_def Let_def)
  show "jr_burstAttempts j < 12 \<Longrightarrow> unat (jr_burstAttempts (joinAttempted j now False)) = Suc (unat (jr_burstAttempts j))"
    using suc by (simp add: joinAttempted_def Let_def)
qed

lemma joinDue_unconfigured: "joinOk j \<Longrightarrow> joinDue j now False \<Longrightarrow> jr_burstAttempts j < 12"
  by (cases "jr_attempted j") (simp_all add: joinDue_def joinOk_def split: if_splits)

lemma joinAttempts_bounded:
  "joinOk j \<Longrightarrow> length (joinAttempts j False ts) + unat (jr_burstAttempts j) \<le> 12"
proof (induction ts arbitrary: j)
  case Nil
  then show ?case by (simp add: joinOk_def word_le_nat_alt)
next
  case (Cons now ts)
  show ?case
  proof (cases "joinDue j now False")
    case True
    then have "jr_burstAttempts j < 12" using joinDue_unconfigured Cons.prems by blast
    then show ?thesis
      using True Cons.IH [OF joinAttempted_ok(1) [OF Cons.prems, of now False]]
        joinAttempted_ok(4) [OF Cons.prems, of now] by simp
  qed (use Cons in simp)
qed

lemma joinAttempts_spaced:
  "joinOk j \<Longrightarrow> jr_attempted j \<Longrightarrow>
   successively (\<lambda>earlier later. intervalElapsed later earlier kBurstIntervalMs)
     (jr_lastAttempt j # joinAttempts j provisional ts)"
proof (induction ts arbitrary: j)
  case (Cons now ts)
  show ?case
  proof (cases "joinDue j now provisional")
    case True
    have "intervalElapsed now (jr_lastAttempt j) kBurstIntervalMs"
      using True Cons.prems(2) intervalElapsed_mono [of kBurstIntervalMs kProvisionalIntervalMs]
      by (auto simp: joinDue_def split: if_splits)
    then show ?thesis
      using True Cons.IH [OF joinAttempted_ok(1,2) [OF Cons.prems(1)], of now False] joinAttempted_ok(3) [OF Cons.prems(1)]
      by simp
  qed (use Cons in simp)
qed simp

end
