(* ===== verification/Node_Inputs.thy ===== *)
theory Node_Inputs
  imports Schedules
begin

text \<open>
  Inputs of a node and of the gateway: ConfirmedInput.h, PolledReedInput.cpp, I2cBusRecovery.h,
  ResetButton.h.  A pin is the sequence of levels that successive reads of it give; time is the
  wrapping millisecond clock of Schedules.
\<close>

datatype InputChange = InputNone | InputFell | InputRose

subsection \<open>A debounced contact\<close>

abbreviation (input) kStableSamples :: nat where "kStableSamples \<equiv> 5"
abbreviation (input) kMaximumSamples :: nat where "kMaximumSamples \<equiv> 20"

text \<open>The loop of \<open>PolledReedInput::sample\<close>; \<open>levels i\<close> is the level at the \<open>i\<close>-th read.\<close>

function sampleLoop :: "(nat \<Rightarrow> bool) \<Rightarrow> bool \<Rightarrow> nat \<Rightarrow> nat \<Rightarrow> bool \<times> nat \<times> nat" where
  "sampleLoop levels candidate equalSamples totalSamples =
     (if equalSamples < kStableSamples \<and> totalSamples < kMaximumSamples
      then
        let current = levels totalSamples;
            totalSamples = totalSamples + 1
        in if current = candidate then sampleLoop levels candidate (equalSamples + 1) totalSamples
           else sampleLoop levels current 1 totalSamples
      else (candidate, equalSamples, totalSamples))"
  by pat_completeness auto
termination
  by (relation "measure (\<lambda>(levels, candidate, equalSamples, totalSamples). kMaximumSamples - totalSamples)") auto

declare sampleLoop.simps [simp del]

definition sampleInput :: "(nat \<Rightarrow> bool) \<Rightarrow> bool option" where
  "sampleInput levels =
     (let (candidate, equalSamples, _) = sampleLoop levels (levels 0) 1 1
      in if equalSamples < kStableSamples then None else Some candidate)"

text \<open>\<open>readOnce\<close> and \<open>sample\<close> are what those calls on the input give when they are made.\<close>

definition confirmedUpdate :: "bool \<Rightarrow> bool \<Rightarrow> bool option \<Rightarrow> bool \<times> InputChange" where
  "confirmedUpdate high readOnce sample =
     (if readOnce = high then (high, InputNone)
      else
        case sample of
          None \<Rightarrow> (high, InputNone)
        | Some level \<Rightarrow>
            if level = high then (high, InputNone)
            else (level, if level then InputRose else InputFell))"

text \<open>A run of equal reads: the level of the candidate over the last \<open>n\<close> reads before \<open>t\<close>.\<close>

definition lastEqual :: "(nat \<Rightarrow> bool) \<Rightarrow> bool \<Rightarrow> nat \<Rightarrow> nat \<Rightarrow> bool" where
  "lastEqual levels c n t \<longleftrightarrow> n \<le> t \<and> (\<forall>i. t - n \<le> i \<and> i < t \<longrightarrow> levels i = c)"

text \<open>The loop stops with the first read that completes a run of five, if one comes within twenty.\<close>

lemma sampleLoop_run:
  assumes "lastEqual levels c n t" "0 < n" "n \<le> 5" "t \<le> 20"
    and "n < t \<longrightarrow> levels (t - n - 1) \<noteq> c"
    and "\<And>s d. s < t \<Longrightarrow> \<not> lastEqual levels d 5 s"
  shows "case sampleLoop levels c n t of (d, m, s) \<Rightarrow>
    t \<le> s \<and> s \<le> 20 \<and> lastEqual levels d m s \<and> m \<le> 5 \<and>
    (if m = 5 then \<forall>r < s. \<forall>x. \<not> lastEqual levels x 5 r
     else \<forall>r \<le> 20. \<forall>x. \<not> lastEqual levels x 5 r)"
  using assms
proof (induction levels c n t rule: sampleLoop.induct)
  case (1 levels c n t)
  have no_here: "\<not> lastEqual levels d 5 t" if "n < 5" for d
  proof
    assume l: "lastEqual levels d 5 t"
    then have "levels (t - 1) = d" "5 \<le> t" by (auto simp: lastEqual_def)
    moreover have "levels (t - 1) = c"
      using "1.prems"(1,2) unfolding lastEqual_def by (metis diff_le_mono2 diff_less le_trans less_one linorder_not_le One_nat_def Suc_leI le_0_eq not_gr0)
    moreover have "levels (t - n - 1) = d"
      using l \<open>n < 5\<close> "1.prems"(2) by (auto simp: lastEqual_def)
    ultimately show False using "1.prems"(5) \<open>n < 5\<close> by simp
  qed
  show ?case
  proof (cases "n < 5 \<and> t < 20")
    case False
    then have stop: "sampleLoop levels c n t = (c, n, t)" by (subst sampleLoop.simps) auto
    show ?thesis
    proof (cases "n = 5")
      case True
      then show ?thesis using stop "1.prems" by auto
    next
      case n: False
      then have "n < 5" "t = 20" using "1.prems"(3,4) False by auto
      then have "\<forall>r \<le> 20. \<forall>x. \<not> lastEqual levels x 5 r"
        using "1.prems"(6) no_here by (metis le_neq_implies_less)
      then show ?thesis using stop n "1.prems" by auto
    qed
  next
    case True
    have before: "\<And>s d. s < t + 1 \<Longrightarrow> \<not> lastEqual levels d 5 s"
      using "1.prems"(6) no_here True by (metis less_antisym Suc_eq_plus1)
    show ?thesis
    proof (cases "levels t = c")
      case same: True
      have "sampleLoop levels c n t = sampleLoop levels c (n + 1) (t + 1)"
        using True same by (subst sampleLoop.simps) (simp add: Let_def)
      moreover have "lastEqual levels c (n + 1) (t + 1)"
        using "1.prems"(1) same by (auto simp: lastEqual_def less_Suc_eq)
      moreover have "n + 1 < t + 1 \<longrightarrow> levels (t + 1 - (n + 1) - 1) \<noteq> c"
        using "1.prems"(5) by simp
      ultimately show ?thesis
        using "1.IH"(1) [OF True refl refl same] before True by fastforce
    next
      case other: False
      have "sampleLoop levels c n t = sampleLoop levels (levels t) 1 (t + 1)"
        using True other by (subst sampleLoop.simps) (simp add: Let_def)
      moreover have "lastEqual levels (levels t) 1 (t + 1)"
        by (auto simp: lastEqual_def less_Suc_eq)
      moreover have "levels (t + 1 - 1 - 1) \<noteq> levels t"
      proof -
        have "levels (t - 1) = c" using "1.prems"(1,2) by (auto simp: lastEqual_def)
        then show ?thesis using other by simp
      qed
      ultimately show ?thesis
        using "1.IH"(2) [OF True refl refl other] before True by fastforce
    qed
  qed
qed

lemma sampleInput_exact:
  "sampleInput levels = Some c \<longleftrightarrow>
     (\<exists>t \<le> 20. lastEqual levels c 5 t \<and> (\<forall>s < t. \<forall>d. \<not> lastEqual levels d 5 s))"
  "sampleInput levels = None \<longleftrightarrow> (\<forall>t \<le> 20. \<forall>d. \<not> lastEqual levels d 5 t)"
proof -
  obtain d m s where loop: "sampleLoop levels (levels 0) 1 1 = (d, m, s)" by (rule prod_cases3)
  have run: "1 \<le> s \<and> s \<le> 20 \<and> lastEqual levels d m s \<and> m \<le> 5 \<and>
    (if m = 5 then \<forall>r < s. \<forall>x. \<not> lastEqual levels x 5 r
     else \<forall>r \<le> 20. \<forall>x. \<not> lastEqual levels x 5 r)"
    using sampleLoop_run [of levels "levels 0" 1 1] loop by (auto simp: lastEqual_def)
  have unique: "x = y" if "lastEqual levels x 5 t" "lastEqual levels y 5 t" for x y t
  proof -
    have "5 \<le> t" "levels (t - 1) = x" "levels (t - 1) = y" using that by (auto simp: lastEqual_def)
    then show ?thesis by simp
  qed
  show "sampleInput levels = None \<longleftrightarrow> (\<forall>t \<le> 20. \<forall>d. \<not> lastEqual levels d 5 t)"
    using run loop by (cases "m = 5") (auto simp: sampleInput_def)
  show "sampleInput levels = Some c \<longleftrightarrow>
     (\<exists>t \<le> 20. lastEqual levels c 5 t \<and> (\<forall>s < t. \<forall>d. \<not> lastEqual levels d 5 s))"
  proof (cases "m = 5")
    case True
    then have r: "lastEqual levels d 5 s" "s \<le> 20" "\<forall>r < s. \<forall>x. \<not> lastEqual levels x 5 r"
      "sampleInput levels = Some d"
      using run loop by (auto simp: sampleInput_def)
    show ?thesis
    proof
      assume "sampleInput levels = Some c"
      then show "\<exists>t \<le> 20. lastEqual levels c 5 t \<and> (\<forall>s < t. \<forall>d. \<not> lastEqual levels d 5 s)"
        using r by auto
    next
      assume "\<exists>t \<le> 20. lastEqual levels c 5 t \<and> (\<forall>s < t. \<forall>d. \<not> lastEqual levels d 5 s)"
      then obtain t where t: "lastEqual levels c 5 t" "\<forall>s < t. \<forall>d. \<not> lastEqual levels d 5 s" by blast
      have "t = s" using t r(1,3) by (metis linorder_neqE_nat)
      then show "sampleInput levels = Some c" using unique t(1) r(1,4) by blast
    qed
  next
    case False
    then show ?thesis using run loop by (auto simp: sampleInput_def)
  qed
qed

subsection \<open>Minimum phase of a counted contact\<close>

record MinimumPhaseFilter =
  mp_minimumPhaseMs :: u32
  mp_pendingSince :: u32
  mp_accepted :: bool
  mp_pending :: bool

definition newMinimumPhase :: "u32 \<Rightarrow> bool \<Rightarrow> MinimumPhaseFilter" where
  "newMinimumPhase minimumPhaseMs initialHigh = \<lparr>mp_minimumPhaseMs = minimumPhaseMs, mp_pendingSince = 0,
     mp_accepted = initialHigh, mp_pending = False\<rparr>"

definition phaseUpdate :: "MinimumPhaseFilter \<Rightarrow> u32 \<Rightarrow> bool \<Rightarrow> MinimumPhaseFilter \<times> InputChange" where
  "phaseUpdate f now high =
     (if high = mp_accepted f then (f\<lparr>mp_pending := False\<rparr>, InputNone)
      else if \<not> mp_pending f then (f\<lparr>mp_pending := True, mp_pendingSince := now\<rparr>, InputNone)
      else if \<not> intervalElapsed now (mp_pendingSince f) (mp_minimumPhaseMs f) then (f, InputNone)
      else (f\<lparr>mp_accepted := high, mp_pending := False\<rparr>, if high then InputRose else InputFell))"

text \<open>The changes that a sequence of polls (time since boot, level) reports, with their times.\<close>

fun phaseChanges :: "MinimumPhaseFilter \<Rightarrow> (nat \<times> bool) list \<Rightarrow> (nat \<times> InputChange) list" where
  "phaseChanges f [] = []"
| "phaseChanges f ((t, high) # polls) =
     (let (f, change) = phaseUpdate f (clockAt t) high
      in if change = InputNone then phaseChanges f polls else (t, change) # phaseChanges f polls)"

definition changeOf :: "bool \<Rightarrow> InputChange" where
  "changeOf high = (if high then InputRose else InputFell)"

lemma elapsed_clock_le:
  assumes "a \<le> b" "intervalElapsed (clockAt b) (clockAt a) m"
  shows "unat m \<le> b - a"
proof -
  have "clockAt b - clockAt a = (of_nat (b - a) :: u32)" using assms(1) by (simp add: clockAt_def)
  then have "unat m \<le> (b - a) mod 2 ^ 32"
    using assms(2) by (simp add: intervalElapsed_def word_le_nat_alt unat_of_nat)
  then show ?thesis using mod_less_eq_dividend le_trans by blast
qed

text \<open>Pending levels are only ever pending since a poll at or after the last accepted change.\<close>

lemma phaseChanges_spaced:
  assumes "sorted (map fst polls)" "\<forall>p \<in> set polls. start \<le> fst p"
    and "mp_pending f \<longrightarrow> (\<exists>since. start \<le> since \<and> mp_pendingSince f = clockAt since \<and> (\<forall>p \<in> set polls. since \<le> fst p))"
  shows "case phaseChanges f polls of
      [] \<Rightarrow> True
    | (t, c) # rest \<Rightarrow> start + unat (mp_minimumPhaseMs f) \<le> t \<and> c = changeOf (\<not> mp_accepted f) \<and>
        successively (\<lambda>x y. fst x + unat (mp_minimumPhaseMs f) \<le> fst y \<and> snd y \<noteq> snd x) ((t, c) # rest)"
  using assms
proof (induction f polls arbitrary: start rule: phaseChanges.induct)
  case (2 f t high polls)
  have later: "sorted (map fst polls)" "\<forall>p \<in> set polls. t \<le> fst p" "start \<le> t"
    using "2.prems"(1,2) by auto
  show ?case
  proof (cases "high = mp_accepted f")
    case True
    then show ?thesis
      using "2.IH" [of "(f\<lparr>mp_pending := False\<rparr>, InputNone)" "f\<lparr>mp_pending := False\<rparr>" InputNone start] "2.prems" later
      by (simp add: phaseUpdate_def Let_def split: list.splits prod.splits)
  next
    case differs: False
    show ?thesis
    proof (cases "mp_pending f")
      case False
      let ?f = "f\<lparr>mp_pending := True, mp_pendingSince := clockAt t\<rparr>"
      have "phaseUpdate f (clockAt t) high = (?f, InputNone)"
        using differs False by (simp add: phaseUpdate_def)
      moreover have "\<forall>p \<in> set polls. start \<le> fst p" using later by auto
      moreover have "\<exists>since \<ge> start. clockAt t = clockAt since \<and> (\<forall>p \<in> set polls. since \<le> fst p)"
        using later by blast
      ultimately show ?thesis
        using "2.IH" [of "(?f, InputNone)" ?f InputNone start] later
        by (auto simp: Let_def split: list.splits prod.splits)
    next
      case True
      then obtain since where since: "start \<le> since" "mp_pendingSince f = clockAt since"
        "\<forall>p \<in> set ((t, high) # polls). since \<le> fst p"
        using "2.prems"(3) by auto
      show ?thesis
      proof (cases "intervalElapsed (clockAt t) (mp_pendingSince f) (mp_minimumPhaseMs f)")
        case False
        then have "phaseUpdate f (clockAt t) high = (f, InputNone)"
          using differs True by (simp add: phaseUpdate_def)
        moreover have "\<exists>since \<ge> start. mp_pendingSince f = clockAt since \<and> (\<forall>p \<in> set polls. since \<le> fst p)"
          using since by auto
        moreover have "\<forall>p \<in> set polls. start \<le> fst p" using later by auto
        ultimately show ?thesis
          using "2.IH" [of "(f, InputNone)" f InputNone start] later(1)
          by (simp add: Let_def split: list.splits prod.splits)
      next
        case elapsed: True
        let ?f = "f\<lparr>mp_accepted := high, mp_pending := False\<rparr>"
        have step: "phaseUpdate f (clockAt t) high = (?f, changeOf high)"
          using differs True elapsed by (simp add: phaseUpdate_def changeOf_def)
        have c: "changeOf high \<noteq> InputNone" "high = (\<not> mp_accepted f)" "changeOf high \<noteq> changeOf (\<not> high)"
          using differs by (auto simp: changeOf_def)
        have "unat (mp_minimumPhaseMs f) \<le> t - since"
          using elapsed_clock_le since elapsed by auto
        then have t: "start + unat (mp_minimumPhaseMs f) \<le> t" using since by auto
        have rest: "case phaseChanges ?f polls of
            [] \<Rightarrow> True
          | (u, d) # rest \<Rightarrow> t + unat (mp_minimumPhaseMs f) \<le> u \<and> d = changeOf (\<not> high) \<and>
              successively (\<lambda>x y. fst x + unat (mp_minimumPhaseMs f) \<le> fst y \<and> snd y \<noteq> snd x) ((u, d) # rest)"
          using "2.IH" [of "(?f, changeOf high)" ?f "changeOf high" t] step later c
          by (cases "mp_accepted f") (simp_all add: changeOf_def split: list.splits prod.splits)
        show ?thesis
          using rest step c t
          by (cases "phaseChanges ?f polls") (auto simp: Let_def)
      qed
    qed
  qed
qed simp

subsection \<open>Reset button\<close>

datatype ResetAction = ResetNone | ResetShortPress | ResetConfirm

abbreviation (input) kShortPressMs :: u32 where "kShortPressMs \<equiv> 1000"
abbreviation (input) kHoldMs :: u32 where "kHoldMs \<equiv> 10000"
abbreviation (input) kConfirmWindowMs :: u32 where "kConfirmWindowMs \<equiv> 5000"

record ResetButton =
  rx_pressed :: bool
  rx_armed :: bool
  rx_waiting :: bool
  rx_suppressRelease :: bool
  rx_pressedAt :: u32
  rx_releasedAt :: u32

definition newResetButton :: ResetButton where
  "newResetButton = \<lparr>rx_pressed = False, rx_armed = False, rx_waiting = False,
     rx_suppressRelease = False, rx_pressedAt = 0, rx_releasedAt = 0\<rparr>"

text \<open>The last \<open>if\<close> of \<open>update\<close>, reached when no branch returned.\<close>

definition armHeld :: "ResetButton \<Rightarrow> u32 \<Rightarrow> ResetButton" where
  "armHeld b now =
     (if rx_pressed b \<and> \<not> rx_suppressRelease b \<and> now - rx_pressedAt b \<ge> kHoldMs
      then b\<lparr>rx_armed := True\<rparr> else b)"

definition resetUpdate :: "ResetButton \<Rightarrow> bool \<Rightarrow> u32 \<Rightarrow> ResetButton \<times> ResetAction" where
  "resetUpdate b pressed now =
     (let b = (if rx_waiting b \<and> now - rx_releasedAt b \<ge> kConfirmWindowMs
               then b\<lparr>rx_waiting := False\<rparr> else b)
      in if pressed \<noteq> rx_pressed b
         then
           let b = b\<lparr>rx_pressed := pressed\<rparr>
           in if pressed
              then
                let b = b\<lparr>rx_pressedAt := now\<rparr>
                in if rx_waiting b
                   then (b\<lparr>rx_waiting := False, rx_armed := False, rx_suppressRelease := True\<rparr>, ResetConfirm)
                   else (armHeld b now, ResetNone)
              else if rx_suppressRelease b then (b\<lparr>rx_suppressRelease := False\<rparr>, ResetNone)
              else if rx_armed b
              then (armHeld (b\<lparr>rx_armed := False, rx_waiting := True, rx_releasedAt := now\<rparr>) now, ResetNone)
              else if now - rx_pressedAt b < kShortPressMs then (b, ResetShortPress)
              else (armHeld b now, ResetNone)
         else (armHeld b now, ResetNone))"

definition resetConfirming :: "ResetButton \<Rightarrow> bool" where
  "resetConfirming b \<longleftrightarrow> rx_armed b \<or> rx_waiting b"

text \<open>The state after a sequence of updates (level, time).\<close>

definition resetRun :: "(bool \<times> u32) list \<Rightarrow> ResetButton" where
  "resetRun trace = foldl (\<lambda>b (pressed, now). fst (resetUpdate b pressed now)) newResetButton trace"

text \<open>A press that lasts to the end of the trace, as the updates saw it, from a time on.\<close>

definition pressLast :: "(bool \<times> u32) list \<Rightarrow> u32 \<Rightarrow> (bool \<times> u32) list \<Rightarrow> bool" where
  "pressLast trace at hold \<longleftrightarrow>
     (\<exists>before. trace = before @ hold \<and> hold \<noteq> [] \<and> snd (hd hold) = at \<and> (\<forall>u \<in> set hold. fst u) \<and>
        (before = [] \<or> \<not> fst (last before)))"

definition heldLong :: "u32 \<Rightarrow> (bool \<times> u32) list \<Rightarrow> bool" where
  "heldLong at hold \<longleftrightarrow> (\<exists>u \<in> set hold. snd u - at \<ge> kHoldMs)"

definition releasedAfterHold :: "(bool \<times> u32) list \<Rightarrow> u32 \<Rightarrow> bool" where
  "releasedAfterHold trace at \<longleftrightarrow>
     (\<exists>held hold gap. trace = held @ gap \<and> gap \<noteq> [] \<and> snd (hd gap) = at \<and> (\<forall>u \<in> set gap. \<not> fst u) \<and>
        pressLast held (snd (hd hold)) hold \<and> heldLong (snd (hd hold)) hold)"

definition resetInv :: "(bool \<times> u32) list \<Rightarrow> ResetButton \<Rightarrow> bool" where
  "resetInv trace b \<longleftrightarrow>
     rx_pressed b = (trace \<noteq> [] \<and> fst (last trace)) \<and>
     (rx_pressed b \<longrightarrow> (\<exists>hold. pressLast trace (rx_pressedAt b) hold \<and> (rx_armed b \<longrightarrow> heldLong (rx_pressedAt b) hold))) \<and>
     (rx_armed b \<longrightarrow> rx_pressed b \<and> \<not> rx_suppressRelease b) \<and>
     (rx_waiting b \<longrightarrow> \<not> rx_pressed b \<and> releasedAfterHold trace (rx_releasedAt b))"

lemma pressLast_start:
  "trace = [] \<or> \<not> fst (last trace) \<Longrightarrow> pressLast (trace @ [(True, now)]) now [(True, now)]"
  unfolding pressLast_def by (rule exI [of _ trace]) auto

lemma pressLast_more:
  "pressLast trace at hold \<Longrightarrow> pressLast (trace @ [(True, now)]) at (hold @ [(True, now)])"
  unfolding pressLast_def by (elim exE conjE) (rule exI, auto)

lemma heldLong_more: "heldLong at hold \<Longrightarrow> heldLong at (hold @ us)"
  by (auto simp: heldLong_def)

lemma heldLong_now: "now - at \<ge> kHoldMs \<Longrightarrow> heldLong at (hold @ [(True, now)])"
  by (auto simp: heldLong_def)

lemma releasedAfterHold_start:
  assumes "pressLast trace at hold" "heldLong at hold"
  shows "releasedAfterHold (trace @ [(False, now)]) now"
proof -
  have "snd (hd hold) = at" using assms(1) by (auto simp: pressLast_def)
  then show ?thesis
    unfolding releasedAfterHold_def using assms
    by (intro exI [of _ trace] exI [of _ hold] exI [of _ "[(False, now)]"]) auto
qed

lemma releasedAfterHold_more:
  "releasedAfterHold trace at \<Longrightarrow> releasedAfterHold (trace @ [(False, now)]) at"
  unfolding releasedAfterHold_def
  by (elim exE conjE) (rule exI, rule exI, rule_tac x = "gap @ [(False, now)]" in exI, auto)

lemma armHeld_fields [simp]:
  "rx_pressed (armHeld b now) = rx_pressed b" "rx_pressedAt (armHeld b now) = rx_pressedAt b"
  "rx_waiting (armHeld b now) = rx_waiting b" "rx_releasedAt (armHeld b now) = rx_releasedAt b"
  "rx_armed (armHeld b now) \<longleftrightarrow> rx_armed b \<or>
     (rx_pressed b \<and> \<not> rx_suppressRelease b \<and> now - rx_pressedAt b \<ge> kHoldMs)"
  by (auto simp: armHeld_def)

lemma resetInv_step:
  assumes inv: "resetInv trace b" and step: "resetUpdate b pressed now = (b', action)"
  shows "resetInv (trace @ [(pressed, now)]) b'"
    and "action = ResetConfirm \<Longrightarrow> pressed \<and> (\<exists>at. releasedAfterHold trace at \<and> now - at < kConfirmWindowMs)"
proof -
  define c where "c = (if rx_waiting b \<and> now - rx_releasedAt b \<ge> kConfirmWindowMs
    then b\<lparr>rx_waiting := False\<rparr> else b)"
  have inv: "resetInv trace c" using inv by (auto simp: c_def resetInv_def)
  have in_time: "rx_waiting c \<Longrightarrow> now - rx_releasedAt c < kConfirmWindowMs"
    by (auto simp: c_def not_le split: if_splits)
  have pr: "rx_pressed c = (trace \<noteq> [] \<and> fst (last trace))"
    and held: "rx_pressed c \<Longrightarrow>
      \<exists>hold. pressLast trace (rx_pressedAt c) hold \<and> (rx_armed c \<longrightarrow> heldLong (rx_pressedAt c) hold)"
    and arm: "rx_armed c \<Longrightarrow> rx_pressed c \<and> \<not> rx_suppressRelease c"
    and wait: "rx_waiting c \<Longrightarrow> \<not> rx_pressed c \<and> releasedAfterHold trace (rx_releasedAt c)"
    using inv by (auto simp: resetInv_def)
  have step: "(b', action) = (if pressed \<noteq> rx_pressed c
         then
           let b = c\<lparr>rx_pressed := pressed\<rparr>
           in if pressed
              then
                let b = b\<lparr>rx_pressedAt := now\<rparr>
                in if rx_waiting b
                   then (b\<lparr>rx_waiting := False, rx_armed := False, rx_suppressRelease := True\<rparr>, ResetConfirm)
                   else (armHeld b now, ResetNone)
              else if rx_suppressRelease b then (b\<lparr>rx_suppressRelease := False\<rparr>, ResetNone)
              else if rx_armed b
              then (armHeld (b\<lparr>rx_armed := False, rx_waiting := True, rx_releasedAt := now\<rparr>) now, ResetNone)
              else if now - rx_pressedAt b < kShortPressMs then (b, ResetShortPress)
              else (armHeld b now, ResetNone)
         else (armHeld c now, ResetNone))"
    using step [unfolded resetUpdate_def Let_def, folded c_def] by (simp only: Let_def)
  show "action = ResetConfirm \<Longrightarrow> pressed \<and> (\<exists>at. releasedAfterHold trace at \<and> now - at < kConfirmWindowMs)"
    using step wait in_time by (auto simp: Let_def split: if_splits)
  consider (down) "pressed" "\<not> rx_pressed c" | (up) "\<not> pressed" "rx_pressed c"
    | (hold) "pressed" "rx_pressed c" | (idle) "\<not> pressed" "\<not> rx_pressed c" by blast
  then show "resetInv (trace @ [(pressed, now)]) b'"
  proof cases
    case down
    then have "\<not> rx_armed c" using arm by blast
    moreover have "pressLast (trace @ [(True, now)]) now [(True, now)]"
      using pr down by (intro pressLast_start) auto
    ultimately show ?thesis using step down by (auto simp: resetInv_def Let_def split: if_splits)
  next
    case up
    obtain hold where hold: "pressLast trace (rx_pressedAt c) hold"
      "rx_armed c \<longrightarrow> heldLong (rx_pressedAt c) hold"
      using held up by blast
    have "\<not> rx_waiting c" "rx_armed c \<longrightarrow> \<not> rx_suppressRelease c" using wait up arm by blast+
    then show ?thesis
      using step up releasedAfterHold_start [OF hold(1)] hold(2) by (auto simp: resetInv_def Let_def split: if_splits)
  next
    case hold
    obtain h where h: "pressLast trace (rx_pressedAt c) h" "rx_armed c \<longrightarrow> heldLong (rx_pressedAt c) h"
      using held hold by blast
    have "\<not> rx_waiting c" "rx_armed c \<longrightarrow> \<not> rx_suppressRelease c" using wait hold arm by blast+
    moreover have b': "b' = armHeld c now" using step hold by simp
    moreover have "rx_armed b' \<longrightarrow> heldLong (rx_pressedAt c) (h @ [(True, now)])"
      using b' h(2) heldLong_more [of "rx_pressedAt c" h "[(True, now)]"] heldLong_now [of now "rx_pressedAt c" h] by auto
    moreover have "rx_suppressRelease (armHeld c now) = rx_suppressRelease c" by (simp add: armHeld_def)
    ultimately show ?thesis
      using hold pressLast_more [OF h(1), of now] by (auto simp: resetInv_def)
  next
    case idle
    have "\<not> rx_armed c" using arm idle by blast
    then show ?thesis using step idle wait releasedAfterHold_more by (auto simp: resetInv_def)
  qed
qed

lemma resetRun_inv: "resetInv trace (resetRun trace)"
proof (induction trace rule: rev_induct)
  case Nil
  show ?case by (simp add: resetInv_def resetRun_def newResetButton_def)
next
  case (snoc u trace)
  obtain b' a where "resetUpdate (resetRun trace) (fst u) (snd u) = (b', a)" by (metis prod.exhaust)
  with resetInv_step(1) [OF snoc.IH this] show ?case
    by (simp add: resetRun_def case_prod_unfold)
qed

text \<open>The gesture works: a long enough hold, a release and a second press in time confirm the reset,
  whatever the button was polled in between.\<close>

abbreviation (input) resetFold :: "ResetButton \<Rightarrow> (bool \<times> u32) list \<Rightarrow> ResetButton" where
  "resetFold \<equiv> foldl (\<lambda>b (pressed, now). fst (resetUpdate b pressed now))"

definition resetIdle :: "ResetButton \<Rightarrow> bool" where
  "resetIdle b \<longleftrightarrow> \<not> rx_pressed b \<and> \<not> rx_armed b \<and> \<not> rx_waiting b \<and> \<not> rx_suppressRelease b"

lemma resetFold_held:
  assumes "rx_pressed b" "\<not> rx_waiting b" "\<not> rx_suppressRelease b" "\<forall>u \<in> set us. fst u"
  shows "rx_pressed (resetFold b us) \<and> \<not> rx_waiting (resetFold b us) \<and> \<not> rx_suppressRelease (resetFold b us) \<and>
    rx_pressedAt (resetFold b us) = rx_pressedAt b \<and>
    (rx_armed b \<or> (\<exists>u \<in> set us. snd u - rx_pressedAt b \<ge> kHoldMs) \<longrightarrow> rx_armed (resetFold b us))"
  using assms
proof (induction us arbitrary: b)
  case (Cons u us)
  let ?b = "fst (resetUpdate b True (snd u))"
  have step: "?b = armHeld b (snd u)" using Cons.prems by (simp add: resetUpdate_def)
  have "rx_suppressRelease ?b = rx_suppressRelease b" by (simp add: step armHeld_def)
  with Cons.IH [of ?b] Cons.prems step show ?case by (auto simp: case_prod_unfold)
qed simp

lemma resetFold_released:
  assumes "\<not> rx_pressed b" "rx_waiting b" "\<forall>u \<in> set us. \<not> fst u \<and> snd u - rx_releasedAt b < kConfirmWindowMs"
  shows "\<not> rx_pressed (resetFold b us) \<and> rx_waiting (resetFold b us) \<and>
    rx_releasedAt (resetFold b us) = rx_releasedAt b"
  using assms
proof (induction us arbitrary: b)
  case (Cons u us)
  let ?b = "fst (resetUpdate b False (snd u))"
  have step: "?b = b" using Cons.prems by (simp add: resetUpdate_def armHeld_def not_le)
  with Cons.IH [of ?b] Cons.prems step show ?case by (auto simp: case_prod_unfold)
qed simp

lemma reset_gesture_confirms:
  assumes "resetIdle b" and "\<forall>u \<in> set held. fst u" and "\<exists>u \<in> set held. snd u - pressedAt \<ge> kHoldMs"
    and "\<forall>u \<in> set gap. \<not> fst u \<and> snd u - releasedAt < kConfirmWindowMs" and "now - releasedAt < kConfirmWindowMs"
  shows "snd (resetUpdate (resetFold b ((True, pressedAt) # held @ (False, releasedAt) # gap)) True now) = ResetConfirm"
proof -
  let ?b1 = "fst (resetUpdate b True pressedAt)"
  have b1: "rx_pressed ?b1" "\<not> rx_waiting ?b1" "\<not> rx_suppressRelease ?b1" "rx_pressedAt ?b1 = pressedAt"
    using assms(1) by (auto simp: resetIdle_def resetUpdate_def armHeld_def Let_def)
  let ?b2 = "resetFold ?b1 held"
  have b2: "rx_pressed ?b2" "\<not> rx_waiting ?b2" "\<not> rx_suppressRelease ?b2" "rx_armed ?b2"
    using resetFold_held [OF b1(1-3) assms(2)] assms(3) b1(4) by auto
  let ?b3 = "fst (resetUpdate ?b2 False releasedAt)"
  have b3: "\<not> rx_pressed ?b3" "rx_waiting ?b3" "rx_releasedAt ?b3 = releasedAt"
    using b2 by (simp_all add: resetUpdate_def Let_def)
  have b4: "\<not> rx_pressed (resetFold ?b3 gap)" "rx_waiting (resetFold ?b3 gap)"
    "rx_releasedAt (resetFold ?b3 gap) = releasedAt"
    using resetFold_released [OF b3(1,2)] assms(4) b3(3) by auto
  have "resetFold b ((True, pressedAt) # held @ (False, releasedAt) # gap) = resetFold ?b3 gap"
    by (simp add: foldl_append)
  with b4 assms(5) show ?thesis by (simp add: resetUpdate_def Let_def not_le)
qed

subsection \<open>Freeing a stuck I2C bus\<close>

datatype BusStep = PullSclLow | ReleaseScl | PullSdaLow | ReleaseSda | HalfPeriod

abbreviation (input) kMaximumClocks :: nat where "kMaximumClocks \<equiv> 9"

definition sclPulse :: "BusStep list" where
  "sclPulse = [PullSclLow, HalfPeriod, ReleaseScl, HalfPeriod]"

text \<open>The bus: what its lines read after the steps so far.\<close>

fun clockBus :: "(BusStep list \<Rightarrow> bool) \<Rightarrow> BusStep list \<Rightarrow> nat \<Rightarrow> BusStep list" where
  "clockBus sdaHigh steps 0 = steps"
| "clockBus sdaHigh steps (Suc clocks) =
     (if sdaHigh steps then steps else clockBus sdaHigh (steps @ sclPulse) clocks)"

definition recoverI2cBus :: "(BusStep list \<Rightarrow> bool) \<Rightarrow> (BusStep list \<Rightarrow> bool) \<Rightarrow> BusStep list \<times> bool" where
  "recoverI2cBus sclHigh sdaHigh =
     (let steps = [ReleaseSda, ReleaseScl, HalfPeriod];
          steps = clockBus sdaHigh steps kMaximumClocks;
          steps = steps @ [PullSclLow, HalfPeriod, PullSdaLow, HalfPeriod,
            ReleaseScl, HalfPeriod, ReleaseSda, HalfPeriod]
      in (steps, sclHigh steps \<and> sdaHigh steps))"

lemma clockBus_pulses:
  "\<exists>n \<le> clocks. clockBus sdaHigh steps clocks = steps @ concat (replicate n sclPulse) \<and>
    (\<forall>m < n. \<not> sdaHigh (steps @ concat (replicate m sclPulse))) \<and>
    (n < clocks \<longrightarrow> sdaHigh (steps @ concat (replicate n sclPulse)))"
proof (induction clocks arbitrary: steps)
  case (Suc clocks)
  show ?case
  proof (cases "sdaHigh steps")
    case False
    obtain n where n: "n \<le> clocks"
      "clockBus sdaHigh (steps @ sclPulse) clocks = (steps @ sclPulse) @ concat (replicate n sclPulse)"
      "\<forall>m < n. \<not> sdaHigh ((steps @ sclPulse) @ concat (replicate m sclPulse))"
      "n < clocks \<longrightarrow> sdaHigh ((steps @ sclPulse) @ concat (replicate n sclPulse))"
      using Suc.IH [of "steps @ sclPulse"] by blast
    have "\<not> sdaHigh (steps @ concat (replicate m sclPulse))" if "m < Suc n" for m
      using that n(3) False by (cases m) simp_all
    with n False show ?thesis by (intro exI [of _ "Suc n"]) simp
  qed (intro exI [of _ 0], simp)
qed simp

text \<open>A target that holds SDA for up to nine clocks lets go of it; the bus is freed exactly then.\<close>

lemma recoverI2cBus_steps:
  "\<exists>n \<le> 9. fst (recoverI2cBus sclHigh sdaHigh) =
      [ReleaseSda, ReleaseScl, HalfPeriod] @ concat (replicate n sclPulse) @
      [PullSclLow, HalfPeriod, PullSdaLow, HalfPeriod, ReleaseScl, HalfPeriod, ReleaseSda, HalfPeriod] \<and>
    (\<forall>m < n. \<not> sdaHigh ([ReleaseSda, ReleaseScl, HalfPeriod] @ concat (replicate m sclPulse))) \<and>
    (n < 9 \<longrightarrow> sdaHigh ([ReleaseSda, ReleaseScl, HalfPeriod] @ concat (replicate n sclPulse)))"
proof -
  obtain n where "n \<le> 9" "clockBus sdaHigh [ReleaseSda, ReleaseScl, HalfPeriod] 9 =
      [ReleaseSda, ReleaseScl, HalfPeriod] @ concat (replicate n sclPulse)"
    "\<forall>m < n. \<not> sdaHigh ([ReleaseSda, ReleaseScl, HalfPeriod] @ concat (replicate m sclPulse))"
    "n < 9 \<longrightarrow> sdaHigh ([ReleaseSda, ReleaseScl, HalfPeriod] @ concat (replicate n sclPulse))"
    using clockBus_pulses [of 9 sdaHigh "[ReleaseSda, ReleaseScl, HalfPeriod]"] by blast
  then show ?thesis by (intro exI [of _ n]) (simp add: recoverI2cBus_def Let_def)
qed

end
