(* ===== verification/Gateway_Status.thy ===== *)
theory Gateway_Status
  imports Radio_Service Node_Inputs Gateway_Storage
begin

text \<open>
  gateway/src/GatewayStatus.cpp: the indication, the pairing and setup windows, the button.  Time is
  the wrapping millisecond clock; what other services decide is collected in \<open>StatusEnv\<close>: whether
  recovery blocks the gateway, the number of users, the settings, whether the recovery guard is
  free, whether a factory reset request is accepted, whether the radio task completes a synchronous
  command in time.  An operation returns the calls it causes on the radio module.
\<close>

datatype Indication =
  IndUnconfigured | IndOperational | IndSetup | IndPairing | IndPersistingNode | IndAwaitingConfirm
  | IndPairingSucceeded | IndError | IndProfileConflict

record StatusEnv =
  ev_recoveryBlocked :: bool
  ev_userCount :: u8
  ev_settings :: GatewaySettings
  ev_guardFree :: bool
  ev_resetAccepted :: bool
  ev_completes :: bool

record gateway_status =
  gw_current :: Indication
  gw_pairingEndsAt :: u32
  gw_setupEndsAt :: u32
  gw_indicationEndsAt :: u32
  gw_resetButton :: ResetButton
  gw_resetArmed :: bool
  gw_resetWaiting :: bool
  gw_rawButtonPressed :: bool
  gw_stableButtonPressed :: bool
  gw_rawButtonChangedAt :: u32

abbreviation (input) kDebounceMs :: u32 where "kDebounceMs \<equiv> 50"
abbreviation (input) kBrightness :: u8 where "kBrightness \<equiv> 20"

definition deadlineReached :: "u32 \<Rightarrow> u32 \<Rightarrow> bool" where
  "deadlineReached now deadline \<longleftrightarrow> deadline \<noteq> 0 \<and> sint (now - deadline) \<ge> 0"

subsection \<open>The windows\<close>

definition pairingActive :: "gateway_status \<Rightarrow> u32 \<Rightarrow> bool" where
  "pairingActive gw now \<longleftrightarrow> gw_pairingEndsAt gw \<noteq> 0 \<and> sint (gw_pairingEndsAt gw - now) > 0"

definition pairingRemainingSeconds :: "gateway_status \<Rightarrow> u32 \<Rightarrow> u32" where
  "pairingRemainingSeconds gw now =
     (if \<not> pairingActive gw now then 0 else (gw_pairingEndsAt gw - now + 999) div 1000)"

definition setupRequired :: "StatusEnv \<Rightarrow> bool" where
  "setupRequired env \<longleftrightarrow> ev_recoveryBlocked env \<or> ev_userCount env = 0"

definition setupActive :: "StatusEnv \<Rightarrow> gateway_status \<Rightarrow> u32 \<Rightarrow> bool" where
  "setupActive env gw now \<longleftrightarrow> \<not> (ev_recoveryBlocked env \<or> \<not> setupRequired env) \<and>
     gw_setupEndsAt gw \<noteq> 0 \<and> sint (gw_setupEndsAt gw - now) > 0"

definition setupRemainingSeconds :: "StatusEnv \<Rightarrow> gateway_status \<Rightarrow> u32 \<Rightarrow> u32" where
  "setupRemainingSeconds env gw now =
     (if \<not> setupActive env gw now then 0 else (gw_setupEndsAt gw - now + 999) div 1000)"

definition idleIndication :: "StatusEnv \<Rightarrow> Indication" where
  "idleIndication env = (if setupRequired env then IndUnconfigured else IndOperational)"

definition showError :: "gateway_status \<Rightarrow> u32 \<Rightarrow> gateway_status" where
  "showError gw now = gw\<lparr>gw_current := IndError, gw_indicationEndsAt := now + 3000\<rparr>"

definition togglePairing ::
  "StatusEnv \<Rightarrow> u32 \<Rightarrow> gateway_status \<Rightarrow> radio_service \<Rightarrow> gateway_status \<times> radio_service \<times> RadioCall list" where
  "togglePairing env now gw radio =
     (if pairingActive gw now
      then
        let (radio, calls, switched) = requestProfile (ev_completes env) radio OperationalProfile
        in if \<not> switched then (showError gw now, radio, calls)
           else (gw\<lparr>gw_pairingEndsAt := 0, gw_current := idleIndication env, gw_indicationEndsAt := 0\<rparr>,
                 radio, calls)
      else (gw\<lparr>gw_indicationEndsAt := 0\<rparr>, radio, []))"

definition toggleSetup :: "StatusEnv \<Rightarrow> u32 \<Rightarrow> gateway_status \<Rightarrow> gateway_status" where
  "toggleSetup env now gw =
     (if setupActive env gw now then gw\<lparr>gw_setupEndsAt := 0, gw_current := IndUnconfigured\<rparr>
      else gw\<lparr>gw_setupEndsAt := now + ucast (gs_setupWindowSeconds (ev_settings env)) * 1000,
              gw_current := IndSetup, gw_indicationEndsAt := 0\<rparr>)"

definition closeSetup :: "gateway_status \<Rightarrow> gateway_status" where
  "closeSetup gw = gw\<lparr>gw_setupEndsAt := 0, gw_current := IndOperational, gw_indicationEndsAt := 0\<rparr>"

definition closePairing ::
  "StatusEnv \<Rightarrow> u32 \<Rightarrow> gateway_status \<Rightarrow> radio_service \<Rightarrow>
   gateway_status \<times> radio_service \<times> RadioCall list \<times> bool" where
  "closePairing env now gw radio =
     (let gw = gw\<lparr>gw_pairingEndsAt := 0\<rparr>;
          (radio, calls, switched) = requestProfile (ev_completes env) radio OperationalProfile
      in if switched
         then (gw\<lparr>gw_current := IndOperational, gw_indicationEndsAt := 0\<rparr>, radio, calls, True)
         else (showError gw now, radio, calls, False))"

definition openPairing :: "StatusEnv \<Rightarrow> u32 \<Rightarrow> gateway_status \<Rightarrow> gateway_status" where
  "openPairing env now gw =
     gw\<lparr>gw_pairingEndsAt := now + ucast (gs_pairingWindowSeconds (ev_settings env)) * 1000,
        gw_current := IndPairing, gw_indicationEndsAt := 0\<rparr>"

definition indicate :: "Indication \<Rightarrow> u32 \<Rightarrow> u32 \<Rightarrow> gateway_status \<Rightarrow> gateway_status" where
  "indicate indication durationMs now gw =
     gw\<lparr>gw_current := indication,
        gw_indicationEndsAt := (if durationMs = 0 then 0 else now + durationMs)\<rparr>"

subsection \<open>The loop\<close>

definition statusBegin :: "StatusEnv \<Rightarrow> bool \<Rightarrow> u32 \<Rightarrow> gateway_status" where
  "statusBegin env buttonLow now =
     \<lparr>gw_current = idleIndication env, gw_pairingEndsAt = 0, gw_setupEndsAt = 0,
      gw_indicationEndsAt = 0, gw_resetButton = newResetButton, gw_resetArmed = False,
      gw_resetWaiting = False, gw_rawButtonPressed = buttonLow, gw_stableButtonPressed = buttonLow,
      gw_rawButtonChangedAt = now\<rparr>"

definition expirePairing ::
  "StatusEnv \<Rightarrow> u32 \<Rightarrow> gateway_status \<Rightarrow> radio_service \<Rightarrow> gateway_status \<times> radio_service \<times> RadioCall list" where
  "expirePairing env now gw radio =
     (if deadlineReached now (gw_pairingEndsAt gw)
      then
        let (radio, calls, switched) = requestProfile (ev_completes env) radio OperationalProfile;
            gw = gw\<lparr>gw_pairingEndsAt := 0\<rparr>
        in if switched
           then (if gw_indicationEndsAt gw = 0 then gw\<lparr>gw_current := idleIndication env\<rparr> else gw,
                 radio, calls)
           else (showError gw now, radio, calls)
      else (gw, radio, []))"

definition expireSetup :: "StatusEnv \<Rightarrow> u32 \<Rightarrow> gateway_status \<Rightarrow> gateway_status" where
  "expireSetup env now gw =
     (if deadlineReached now (gw_setupEndsAt gw)
      then gw\<lparr>gw_setupEndsAt := 0, gw_current := idleIndication env\<rparr> else gw)"

definition expireIndication :: "StatusEnv \<Rightarrow> u32 \<Rightarrow> gateway_status \<Rightarrow> gateway_status" where
  "expireIndication env now gw =
     (if deadlineReached now (gw_indicationEndsAt gw)
      then gw\<lparr>gw_indicationEndsAt := 0,
              gw_current := (if pairingActive gw now then IndPairing else idleIndication env)\<rparr>
      else gw)"

definition debounceButton :: "bool \<Rightarrow> u32 \<Rightarrow> gateway_status \<Rightarrow> gateway_status" where
  "debounceButton pressed now gw =
     (let gw = (if pressed \<noteq> gw_rawButtonPressed gw
                then gw\<lparr>gw_rawButtonPressed := pressed, gw_rawButtonChangedAt := now\<rparr> else gw)
      in if pressed \<noteq> gw_stableButtonPressed gw \<and> now - gw_rawButtonChangedAt gw \<ge> kDebounceMs
         then gw\<lparr>gw_stableButtonPressed := pressed\<rparr> else gw)"

text \<open>The last part of \<open>loop\<close>: the result says whether a factory reset was requested.\<close>

definition handleButton ::
  "StatusEnv \<Rightarrow> u32 \<Rightarrow> gateway_status \<Rightarrow> radio_service \<Rightarrow>
   gateway_status \<times> radio_service \<times> RadioCall list \<times> bool" where
  "handleButton env now gw radio =
     (let (button, action) = resetUpdate (gw_resetButton gw) (gw_stableButtonPressed gw) now;
          gw = gw\<lparr>gw_resetButton := button, gw_resetArmed := rx_armed button,
                  gw_resetWaiting := rx_waiting button\<rparr>
      in if action = ResetConfirm
         then (if ev_resetAccepted env then gw else showError gw now, radio, [], True)
         else if action = ResetShortPress \<and> \<not> ev_recoveryBlocked env \<and> ev_guardFree env
         then if setupRequired env then (toggleSetup env now gw, radio, [], False)
              else let (gw, radio, calls) = togglePairing env now gw radio in (gw, radio, calls, False)
         else (gw, radio, [], False))"

definition statusLoop ::
  "StatusEnv \<Rightarrow> u32 \<Rightarrow> bool \<Rightarrow> gateway_status \<Rightarrow> radio_service \<Rightarrow>
   gateway_status \<times> radio_service \<times> RadioCall list \<times> bool" where
  "statusLoop env now buttonLow gw radio =
     (let (gw, radio, expired) = expirePairing env now gw radio;
          gw = expireSetup env now gw;
          gw = expireIndication env now gw;
          gw = debounceButton buttonLow now gw;
          (gw, radio, calls, reset) = handleButton env now gw radio
      in (gw, radio, expired @ calls, reset))"

subsection \<open>The light\<close>

definition render :: "StatusEnv \<Rightarrow> gateway_status \<Rightarrow> u32 \<Rightarrow> u8 \<times> u8 \<times> u8" where
  "render env gw now =
     (let phase = now mod 1000;
          triangle = (if phase < 500 then phase else 1000 - phase)
      in if resetConfirming (gw_resetButton gw) \<or> ev_recoveryBlocked env
         then (if phase mod 250 < 125 then kBrightness else 0, 0, 0)
         else case gw_current gw of
           IndUnconfigured \<Rightarrow> (0, if phase < 500 then kBrightness else 0, 0)
         | IndOperational \<Rightarrow> (0, kBrightness, 0)
         | IndSetup \<Rightarrow> let level = ucast (8 + triangle * 40 div 500) in (level, 0, level)
         | IndPairing \<Rightarrow> let level = ucast (8 + triangle * 64 div 500) in (0, 0, level)
         | IndPersistingNode \<Rightarrow>
             (if phase < 300 then kBrightness else 0, if phase < 300 then 24 else 0, 0)
         | IndAwaitingConfirm \<Rightarrow> (0, if phase mod 250 < 125 then kBrightness else 0,
             if phase mod 250 < 125 then kBrightness else 0)
         | IndPairingSucceeded \<Rightarrow> (kBrightness, kBrightness, kBrightness)
         | IndError \<Rightarrow> (if phase mod 200 < 100 then kBrightness else 0, 0, 0)
         | IndProfileConflict \<Rightarrow>
             let on = phase < 100 \<or> (phase \<ge> 200 \<and> phase < 300)
             in (if on then kBrightness else 0, 0, if on then kBrightness else 0))"

subsection \<open>How long a window stays open\<close>

lemma sint_difference:
  assumes "a < 2 ^ 31" "b < 2 ^ 31"
  shows "sint (of_nat a - of_nat b :: u32) = int a - int b"
proof -
  have "(of_nat a - of_nat b :: u32) = word_of_int (int a - int b)" by simp
  also have "sint (\<dots>) = signed_take_bit 31 (int a - int b)" by (simp only: sint_sbintrunc') simp
  also have "\<dots> = int a - int b" using assms by (intro signed_take_bit_int_eq_self) auto
  finally show ?thesis .
qed

text \<open>A window of \<open>w\<close> milliseconds opened at \<open>t\<close>; the code uses the deadline 0 for "closed".\<close>

lemma window_open_iff:
  assumes "0 < w" "w < 2 ^ 31" "d < 2 ^ 31"
  shows "sint ((clockAt t + of_nat w) - clockAt (t + d)) > 0 \<longleftrightarrow> d < w"
    "sint (clockAt (t + d) - (clockAt t + of_nat w)) \<ge> 0 \<longleftrightarrow> w \<le> d"
proof -
  have diff: "(clockAt t + of_nat w) - clockAt (t + d) = (of_nat w - of_nat d :: u32)"
    "clockAt (t + d) - (clockAt t + of_nat w) = (of_nat d - of_nat w :: u32)"
    by (simp_all add: clockAt_def)
  show "sint ((clockAt t + of_nat w) - clockAt (t + d)) > 0 \<longleftrightarrow> d < w"
    "sint (clockAt (t + d) - (clockAt t + of_nat w)) \<ge> 0 \<longleftrightarrow> w \<le> d"
    unfolding diff sint_difference [OF assms(2,3)] sint_difference [OF assms(3,2)] by auto
qed

lemma pairing_window:
  assumes "gw = openPairing env (clockAt t) gw0" "gw_pairingEndsAt gw \<noteq> 0"
    and "gs_pairingWindowSeconds (ev_settings env) \<noteq> 0" "d < 2 ^ 31"
  shows "pairingActive gw (clockAt (t + d)) \<longleftrightarrow> d < unat (gs_pairingWindowSeconds (ev_settings env)) * 1000"
    "deadlineReached (clockAt (t + d)) (gw_pairingEndsAt gw) \<longleftrightarrow>
       unat (gs_pairingWindowSeconds (ev_settings env)) * 1000 \<le> d"
proof -
  let ?s = "gs_pairingWindowSeconds (ev_settings env)"
  let ?w = "unat ?s * 1000"
  have "unat ?s < 2 ^ 16" using unsigned_less [of ?s] by simp
  moreover have "0 < unat ?s" using assms(3) by (simp add: unat_gt_0)
  ultimately have w: "0 < ?w" "?w < 2 ^ 31" by simp_all
  have "(ucast ?s :: u32) = of_nat (unat ?s)" by simp
  then have e: "gw_pairingEndsAt gw = clockAt t + of_nat ?w"
    using assms(1) by (simp add: openPairing_def)
  show "pairingActive gw (clockAt (t + d)) \<longleftrightarrow> d < ?w"
    using window_open_iff(1) [OF w assms(4), of t] assms(2) by (simp add: pairingActive_def e)
  show "deadlineReached (clockAt (t + d)) (gw_pairingEndsAt gw) \<longleftrightarrow> ?w \<le> d"
    using window_open_iff(2) [OF w assms(4), of t] assms(2) by (simp add: deadlineReached_def e)
qed

text \<open>When the window is over and the radio switches back, the pairing key is gone.\<close>

lemma expirePairing_closes:
  assumes "expirePairing env now gw radio = (gw', radio', calls)" "deadlineReached now (gw_pairingEndsAt gw)"
  shows "gw_pairingEndsAt gw' = 0" "radioAtRest radio' \<or> gw_current gw' = IndError"
proof -
  show "gw_pairingEndsAt gw' = 0"
    using assms by (auto simp: expirePairing_def showError_def Let_def split: prod.splits if_splits)
  show "radioAtRest radio' \<or> gw_current gw' = IndError"
    using assms requestProfile_rests
    by (auto simp: expirePairing_def showError_def Let_def split: prod.splits if_splits)
qed

subsection \<open>The button\<close>

text \<open>The loops of a gateway since start-up: environment, time, level of the button.\<close>

type_synonym status_poll = "StatusEnv \<times> u32 \<times> bool"

fun statusLoops ::
  "gateway_status \<Rightarrow> radio_service \<Rightarrow> status_poll list \<Rightarrow> gateway_status \<times> radio_service" where
  "statusLoops gw radio [] = (gw, radio)"
| "statusLoops gw radio ((env, now, low) # polls) =
     (let (gw, radio, calls, reset) = statusLoop env now low gw radio in statusLoops gw radio polls)"

text \<open>The debounced level at each loop.\<close>

fun stableLevels :: "bool \<times> bool \<times> u32 \<Rightarrow> status_poll list \<Rightarrow> (bool \<times> u32) list" where
  "stableLevels button [] = []"
| "stableLevels (raw, stable_level, changedAt) ((env, now, low) # polls) =
     (let changedAt = (if low \<noteq> raw then now else changedAt);
          stable_level = (if low \<noteq> stable_level \<and> now - changedAt \<ge> kDebounceMs then low else stable_level)
      in (stable_level, now) # stableLevels (low, stable_level, changedAt) polls)"

definition buttonState :: "gateway_status \<Rightarrow> bool \<times> bool \<times> u32" where
  "buttonState gw = (gw_rawButtonPressed gw, gw_stableButtonPressed gw, gw_rawButtonChangedAt gw)"

lemma unchanged_button:
  "buttonState (showError gw t) = buttonState gw" "gw_resetButton (showError gw t) = gw_resetButton gw"
  "buttonState (expireSetup env now gw) = buttonState gw" "gw_resetButton (expireSetup env now gw) = gw_resetButton gw"
  "buttonState (expireIndication env now gw) = buttonState gw"
  "gw_resetButton (expireIndication env now gw) = gw_resetButton gw"
  "buttonState (toggleSetup env now gw) = buttonState gw" "gw_resetButton (toggleSetup env now gw) = gw_resetButton gw"
  "buttonState (fst (togglePairing env now gw radio)) = buttonState gw"
  "gw_resetButton (fst (togglePairing env now gw radio)) = gw_resetButton gw"
  "buttonState (fst (expirePairing env now gw radio)) = buttonState gw"
  "gw_resetButton (fst (expirePairing env now gw radio)) = gw_resetButton gw"
  by (auto simp: buttonState_def showError_def expireSetup_def expireIndication_def toggleSetup_def
      togglePairing_def expirePairing_def Let_def split: prod.splits)

lemma debounceButton_state:
  "gw_resetButton (debounceButton low now gw) = gw_resetButton gw"
  "buttonState (debounceButton low now gw) =
     (low, gw_stableButtonPressed (debounceButton low now gw), gw_rawButtonChangedAt (debounceButton low now gw))"
  "gw_stableButtonPressed (debounceButton low now gw) =
     (if low \<noteq> gw_stableButtonPressed gw \<and>
         now - (if low \<noteq> gw_rawButtonPressed gw then now else gw_rawButtonChangedAt gw) \<ge> kDebounceMs
      then low else gw_stableButtonPressed gw)"
  "gw_rawButtonChangedAt (debounceButton low now gw) =
     (if low \<noteq> gw_rawButtonPressed gw then now else gw_rawButtonChangedAt gw)"
  by (auto simp: debounceButton_def buttonState_def Let_def)

lemma handleButton_button:
  assumes "handleButton env now gw radio = (gw', radio', calls, reset)"
  shows "buttonState gw' = buttonState gw"
    "gw_resetButton gw' = fst (resetUpdate (gw_resetButton gw) (gw_stableButtonPressed gw) now)"
    "reset \<longleftrightarrow> snd (resetUpdate (gw_resetButton gw) (gw_stableButtonPressed gw) now) = ResetConfirm"
proof -
  let ?gw = "gw\<lparr>gw_resetButton := fst (resetUpdate (gw_resetButton gw) (gw_stableButtonPressed gw) now),
      gw_resetArmed := rx_armed (fst (resetUpdate (gw_resetButton gw) (gw_stableButtonPressed gw) now)),
      gw_resetWaiting := rx_waiting (fst (resetUpdate (gw_resetButton gw) (gw_stableButtonPressed gw) now))\<rparr>"
  have "gw' \<in> {?gw, showError ?gw now, toggleSetup env now ?gw, fst (togglePairing env now ?gw radio)}"
    and r: "reset \<longleftrightarrow> snd (resetUpdate (gw_resetButton gw) (gw_stableButtonPressed gw) now) = ResetConfirm"
    using assms by (auto simp: handleButton_def Let_def split: prod.splits if_splits)
  then show "buttonState gw' = buttonState gw"
    "gw_resetButton gw' = fst (resetUpdate (gw_resetButton gw) (gw_stableButtonPressed gw) now)"
    "reset \<longleftrightarrow> snd (resetUpdate (gw_resetButton gw) (gw_stableButtonPressed gw) now) = ResetConfirm"
    by (auto simp: unchanged_button) (simp_all add: buttonState_def)
qed

lemma statusLoop_button:
  assumes "statusLoop env now low gw radio = (gw', radio', calls, reset)"
  shows "stableLevels (buttonState gw) ((env, now, low) # polls) =
      (gw_stableButtonPressed gw', now) # stableLevels (buttonState gw') polls"
    "gw_resetButton gw' = fst (resetUpdate (gw_resetButton gw) (gw_stableButtonPressed gw') now)"
    "reset \<longleftrightarrow> snd (resetUpdate (gw_resetButton gw) (gw_stableButtonPressed gw') now) = ResetConfirm"
proof -
  obtain gw1 radio1 c1 where e: "expirePairing env now gw radio = (gw1, radio1, c1)" by (rule prod_cases3)
  let ?gw2 = "expireIndication env now (expireSetup env now gw1)"
  let ?gw3 = "debounceButton low now ?gw2"
  obtain c2 where h: "handleButton env now ?gw3 radio1 = (gw', radio', c2, reset)"
    using assms e by (auto simp: statusLoop_def Let_def split: prod.splits)
  have b2: "buttonState ?gw2 = buttonState gw" "gw_resetButton ?gw2 = gw_resetButton gw"
    using unchanged_button(11,12) [of env now gw radio] e by (simp_all add: unchanged_button)
  note b = handleButton_button [OF h]
  have stab: "gw_stableButtonPressed gw' = gw_stableButtonPressed ?gw3" using b(1) by (simp add: buttonState_def)
  show "gw_resetButton gw' = fst (resetUpdate (gw_resetButton gw) (gw_stableButtonPressed gw') now)"
    "reset \<longleftrightarrow> snd (resetUpdate (gw_resetButton gw) (gw_stableButtonPressed gw') now) = ResetConfirm"
    using b(2,3) b2(2) by (simp_all add: stab debounceButton_state)
  have f: "gw_rawButtonPressed ?gw2 = gw_rawButtonPressed gw"
    "gw_stableButtonPressed ?gw2 = gw_stableButtonPressed gw"
    "gw_rawButtonChangedAt ?gw2 = gw_rawButtonChangedAt gw"
    using b2(1) by (simp_all add: buttonState_def)
  have "buttonState gw' = (low, gw_stableButtonPressed ?gw3, gw_rawButtonChangedAt ?gw3)"
    using b(1) debounceButton_state(2) [of low now ?gw2] by simp
  then show "stableLevels (buttonState gw) ((env, now, low) # polls) =
      (gw_stableButtonPressed gw', now) # stableLevels (buttonState gw') polls"
    unfolding stab by (simp only: buttonState_def [of gw] stableLevels.simps Let_def debounceButton_state f)
qed

text \<open>The reset button saw exactly the debounced levels.\<close>

lemma statusLoops_button:
  "gw_resetButton (fst (statusLoops gw radio polls)) =
     foldl (\<lambda>b (pressed, now). fst (resetUpdate b pressed now)) (gw_resetButton gw)
       (stableLevels (buttonState gw) polls)"
proof (induction polls arbitrary: gw radio)
  case (Cons p polls)
  obtain env now low where p: "p = (env, now, low)" by (rule prod_cases3)
  obtain gw' radio' calls reset where loop: "statusLoop env now low gw radio = (gw', radio', calls, reset)"
    by (rule prod_cases4)
  note b = statusLoop_button [OF loop]
  show ?case
    using Cons.IH [of gw' radio'] loop b(2) unfolding p b(1) by simp
qed simp

lemma stableLevels_append:
  "stableLevels (buttonState gw) (polls @ rest) =
     stableLevels (buttonState gw) polls @ stableLevels (buttonState (fst (statusLoops gw radio polls))) rest"
proof (induction polls arbitrary: gw radio)
  case (Cons p polls)
  obtain env now low where p: "p = (env, now, low)" by (rule prod_cases3)
  obtain gw' radio' calls reset where loop: "statusLoop env now low gw radio = (gw', radio', calls, reset)"
    by (rule prod_cases4)
  note b = statusLoop_button(1) [OF loop]
  show ?case using Cons.IH [of gw' radio'] loop unfolding p append_Cons b by simp
qed simp

end
