(* ===== verification/Gateway_Commissioning.thy ===== *)
theory Gateway_Commissioning
  imports Gateway_Status Registry_Service
begin

text \<open>
  gateway/src/CommissioningService.cpp over the models of the services it calls: the registry
  service, the radio service and the status service.  A handler reads the clock when it starts
  (\<open>now\<close>) and again at its end (\<open>later\<close>).  What it asks of the environment is collected in
  \<open>CommissioningEnv\<close>: the flash operations, whether the registry may be written (recovery guard) and
  its candidate allocated, the installation secrets and the gateway's own node id.
\<close>

record commissioning_counters =
  cc_joinRequests :: u32
  cc_joinAcceptsQueued :: u32
  cc_joinConfirms :: u32
  cc_nodesActivated :: u32
  cc_joinCompletesQueued :: u32
  cc_rejectedFrames :: u32
  cc_storageErrors :: u32
  cc_confirmTimeouts :: u32

record 's pairing_gateway =
  pg_counters :: commissioning_counters
  pg_awaitingConfirm :: bool
  pg_confirmDeadline :: u32
  pg_expectedDeviceUid :: bytes
  pg_expectedDeviceUidPresent :: bool
  pg_status :: gateway_status
  pg_radio :: radio_service
  pg_registry :: "'s registry_service"

record 's CommissioningEnv =
  ce_ops :: "'s slot_ops"
  ce_guarded :: bool
  ce_allocated :: bool
  ce_secrets :: InstallationSecrets
  ce_gatewayNodeId :: u16
  ce_status :: StatusEnv

abbreviation (input) kConfirmTimeoutMs :: u32 where "kConfirmTimeoutMs \<equiv> 5000"

subsection \<open>Small operations\<close>

definition matchesExpectedDevice :: "'s pairing_gateway \<Rightarrow> bytes \<Rightarrow> bool" where
  "matchesExpectedDevice g deviceUid \<longleftrightarrow> pg_expectedDeviceUidPresent g \<and> pg_expectedDeviceUid g = deviceUid"

definition setExpectedDevice :: "bytes \<Rightarrow> 's pairing_gateway \<Rightarrow> 's pairing_gateway" where
  "setExpectedDevice deviceUid g =
     g\<lparr>pg_expectedDeviceUid := deviceUid, pg_expectedDeviceUidPresent := True\<rparr>"

definition clearExpectedDevice :: "'s pairing_gateway \<Rightarrow> 's pairing_gateway" where
  "clearExpectedDevice g =
     g\<lparr>pg_expectedDeviceUid := zeros kDeviceUidSize, pg_expectedDeviceUidPresent := False\<rparr>"

definition increment ::
  "(commissioning_counters \<Rightarrow> commissioning_counters) \<Rightarrow> 's pairing_gateway \<Rightarrow> 's pairing_gateway" where
  "increment field g = g\<lparr>pg_counters := field (pg_counters g)\<rparr>"

definition showOn :: "Indication \<Rightarrow> u32 \<Rightarrow> u32 \<Rightarrow> 's pairing_gateway \<Rightarrow> 's pairing_gateway" where
  "showOn indication durationMs now g = g\<lparr>pg_status := indicate indication durationMs now (pg_status g)\<rparr>"

abbreviation (input) "countRejected \<equiv> increment (cc_rejectedFrames_update (\<lambda>n. n + 1))"
abbreviation (input) "countStorageError \<equiv> increment (cc_storageErrors_update (\<lambda>n. n + 1))"

definition returnToPairingIfOpen ::
  "'s CommissioningEnv \<Rightarrow> u32 \<Rightarrow> 's pairing_gateway \<Rightarrow> 's pairing_gateway \<times> RadioCall list" where
  "returnToPairingIfOpen env now g =
     (let g = g\<lparr>pg_awaitingConfirm := False, pg_confirmDeadline := 0\<rparr>
      in if pairingActive (pg_status g) now
         then
           let (radio, calls, switched) =
                 requestProfile (ev_completes (ce_status env)) (pg_radio g) CommissioningProfile;
               g = g\<lparr>pg_radio := radio\<rparr>
           in (if switched then showOn IndPairing 0 now g else showOn IndError 3000 now g, calls)
         else (g, []))"

subsection \<open>Joining\<close>

definition frameBytes :: "ReceivedFrame \<Rightarrow> buffer" where
  "frameBytes frame = Some (take (unat (rf_size frame)) (rf_data frame))"

definition acceptFor :: "'s CommissioningEnv \<Rightarrow> JoinRequest \<Rightarrow> u8 \<Rightarrow> JoinAccept" where
  "acceptFor env request nodeId =
     \<lparr>ja_deviceUid = jr_deviceUid request, ja_requestNonce = jr_requestNonce request,
      ja_assignedNodeId = nodeId, ja_gatewayNodeId = ucast (ce_gatewayNodeId env),
      ja_networkId = is_operationalNetworkId (ce_secrets env),
      ja_installationKey = is_installationKey (ce_secrets env)\<rparr>"

text \<open>The second half of \<open>handleJoinRequest\<close>, once the registry has answered.\<close>

definition sendJoinAccept ::
  "'s CommissioningEnv \<Rightarrow> u32 \<Rightarrow> JoinRequest \<Rightarrow> ReserveResult \<Rightarrow> 's pairing_gateway \<Rightarrow>
   's pairing_gateway \<times> RadioCall list" where
  "sendJoinAccept env later request result g =
     (if rr_status result \<noteq> RS_Created \<and> rr_status result \<noteq> RS_ExistingPendingUpdated
      then (showOn (if rr_status result = RS_ProfileConflict then IndProfileConflict else IndError)
              3000 later (countRejected g), [])
      else if \<not> is_installationKeyPresent (ce_secrets env)
      then (showOn IndError 3000 later (countRejected g), [])
      else
        case encodeJoinAccept (acceptFor env request (rr_nodeId result)) (Some (zeros kJoinAcceptSize)) of
          Inl _ \<Rightarrow> (showOn IndError 3000 later (countRejected g), [])
        | Inr encoded \<Rightarrow>
            let (radio, calls, sent) = sendThenSwitchProfile (ev_completes (ce_status env))
                  (pg_radio g) 0 (Some encoded) OperationalProfile;
                g = g\<lparr>pg_radio := radio\<rparr>
            in if \<not> sent then (showOn IndError 3000 later (countRejected g), calls)
               else
                 let g = increment (cc_joinAcceptsQueued_update (\<lambda>n. n + 1)) g;
                     g = g\<lparr>pg_awaitingConfirm := True, pg_confirmDeadline := later + kConfirmTimeoutMs\<rparr>
                 in (showOn IndAwaitingConfirm 0 later g, calls))"

definition handleJoinRequest ::
  "'s CommissioningEnv \<Rightarrow> u32 \<Rightarrow> u32 \<Rightarrow> ReceivedFrame \<Rightarrow> 's pairing_gateway \<Rightarrow>
   's pairing_gateway \<times> RadioCall list" where
  "handleJoinRequest env now later frame g =
     (let g = increment (cc_joinRequests_update (\<lambda>n. n + 1)) g
      in if \<not> pairingActive (pg_status g) now \<or> rf_senderId frame \<noteq> 0 \<or> pg_awaitingConfirm g
         then (countRejected g, [])
         else
           case decodeJoinRequest (frameBytes frame) of
             Inl _ \<Rightarrow> (showOn IndError 3000 later (countRejected g), [])
           | Inr request \<Rightarrow>
               if \<not> matchesExpectedDevice g (jr_deviceUid request) then (countRejected g, [])
               else
                 let g = showOn IndPersistingNode 0 later g;
                     (registry, commit, result) =
                       reserveAndSave (ce_ops env) (ce_guarded env) (ce_allocated env) (pg_registry g) request;
                     g = g\<lparr>pg_registry := registry\<rparr>
                 in case result of
                      None \<Rightarrow> (showOn IndError 3000 later (countStorageError g), [])
                    | Some result \<Rightarrow>
                        if commit = RC_StorageError \<or> commit = RC_NotInitialized
                        then (showOn IndError 3000 later (countStorageError g), [])
                        else sendJoinAccept env later request result g)"

text \<open>The second half of \<open>handleJoinConfirm\<close>.\<close>

definition sendJoinComplete ::
  "'s CommissioningEnv \<Rightarrow> u32 \<Rightarrow> JoinConfirm \<Rightarrow> u16 \<Rightarrow> bool \<Rightarrow> 's pairing_gateway \<Rightarrow>
   's pairing_gateway \<times> RadioCall list" where
  "sendJoinComplete env later c senderId newlyConfirmed g =
     (case encodeJoinComplete c (Some (zeros kJoinConfirmSize)) of
        Inl _ \<Rightarrow> (showOn IndError 3000 later (countRejected g), [])
      | Inr encoded \<Rightarrow>
          let (radio, queued) = radioSend (pg_radio g) (senderId AND 0xFF) (Some encoded) False;
              g = g\<lparr>pg_radio := radio\<rparr>
          in if \<not> queued then (showOn IndError 3000 later (countRejected g), [])
             else
               let g = increment (cc_joinCompletesQueued_update (\<lambda>n. n + 1)) g;
                   g = (if newlyConfirmed
                        then increment (cc_nodesActivated_update (\<lambda>n. n + 1)) g else g);
                   g = g\<lparr>pg_awaitingConfirm := False, pg_confirmDeadline := 0\<rparr>
               in if newlyConfirmed
                  then
                    let (gw, radio, calls, closed) = closePairing (ce_status env) later (pg_status g) (pg_radio g);
                        g = g\<lparr>pg_status := gw, pg_radio := radio\<rparr>
                    in if closed then (showOn IndPairingSucceeded 1000 later (clearExpectedDevice g), calls)
                       else (countRejected g, calls)
                  else (g, []))"

definition handleJoinConfirm ::
  "'s CommissioningEnv \<Rightarrow> u32 \<Rightarrow> ReceivedFrame \<Rightarrow> 's pairing_gateway \<Rightarrow>
   's pairing_gateway \<times> RadioCall list" where
  "handleJoinConfirm env later frame g =
     (let g = increment (cc_joinConfirms_update (\<lambda>n. n + 1)) g
      in case decodeJoinConfirm (frameBytes frame) of
           Inl _ \<Rightarrow> (countRejected g, [])
         | Inr c \<Rightarrow>
             let (registry, commit, result) =
                   confirmAndSave (ce_ops env) (ce_guarded env) (ce_allocated env) (pg_registry g)
                     (Some (jc_deviceUid c)) (ucast (rf_senderId frame)) (jc_requestNonce c);
                 g = g\<lparr>pg_registry := registry\<rparr>;
                 newlyConfirmed = (commit = RC_Ok \<and> result = Some CF_Confirmed);
                 alreadyConfirmed = (commit = RC_NoChange \<and> result = Some CF_AlreadyActive)
             in if \<not> newlyConfirmed \<and> \<not> alreadyConfirmed
                then (showOn IndError 3000 later
                        (if commit = RC_StorageError then countStorageError g else countRejected g), [])
                else sendJoinComplete env later c (rf_senderId frame) newlyConfirmed g)"

subsection \<open>The task and the requests of the management interface\<close>

definition commissioningFrame ::
  "'s CommissioningEnv \<Rightarrow> u32 \<Rightarrow> u32 \<Rightarrow> ReceivedFrame \<Rightarrow> 's pairing_gateway \<Rightarrow>
   's pairing_gateway \<times> RadioCall list" where
  "commissioningFrame env now later frame g =
     (case decodeFrame (frameBytes frame) of
        Inl _ \<Rightarrow> (g, [])
      | Inr view \<Rightarrow>
          if fv_kind view = KJoinRequest then handleJoinRequest env now later frame g
          else if fv_kind view = KJoinConfirm then handleJoinConfirm env later frame g
          else (g, []))"

definition confirmTimeout ::
  "'s CommissioningEnv \<Rightarrow> u32 \<Rightarrow> 's pairing_gateway \<Rightarrow> 's pairing_gateway \<times> RadioCall list" where
  "confirmTimeout env now g =
     (if pg_awaitingConfirm g \<and> sint (now - pg_confirmDeadline g) \<ge> 0
      then returnToPairingIfOpen env now (increment (cc_confirmTimeouts_update (\<lambda>n. n + 1)) g)
      else (g, []))"

text \<open>One round of \<open>task\<close>: the next frame of the radio's queue, if there is one, then the timeout.\<close>

definition commissioningTask ::
  "'s CommissioningEnv \<Rightarrow> u32 \<Rightarrow> u32 \<Rightarrow> u32 \<Rightarrow> 's pairing_gateway \<Rightarrow> 's pairing_gateway \<times> RadioCall list" where
  "commissioningTask env now later last_now g =
     (let (radio, received) = takeReceived (pg_radio g);
          g = g\<lparr>pg_radio := radio\<rparr>;
          (g, calls) = (case received of
              None \<Rightarrow> (g, [])
            | Some frame \<Rightarrow> commissioningFrame env now later frame g);
          (g, timeout_calls) = confirmTimeout env last_now g
      in (g, calls @ timeout_calls))"

definition commissioningOpen ::
  "'s CommissioningEnv \<Rightarrow> u32 \<Rightarrow> bytes option \<Rightarrow> bytes option \<Rightarrow> 's pairing_gateway \<Rightarrow>
   's pairing_gateway \<times> RadioCall list \<times> bool" where
  "commissioningOpen env now deviceUid factoryKey g =
     (case (deviceUid, factoryKey) of
        (Some uid, Some key) \<Rightarrow>
          let g = setExpectedDevice uid g;
              (radio, calls, begun) = beginCommissioning (ev_completes (ce_status env)) (pg_radio g) (Some key);
              g = g\<lparr>pg_radio := radio\<rparr>
          in if \<not> begun then (clearExpectedDevice g, calls, False)
             else (g\<lparr>pg_status := openPairing (ce_status env) now (pg_status g)\<rparr>, calls, True)
      | _ \<Rightarrow> (g, [], False))"

definition commissioningClose ::
  "'s CommissioningEnv \<Rightarrow> u32 \<Rightarrow> 's pairing_gateway \<Rightarrow> 's pairing_gateway \<times> RadioCall list \<times> bool" where
  "commissioningClose env now g =
     (let (gw, radio, calls, closed) = closePairing (ce_status env) now (pg_status g) (pg_radio g);
          g = clearExpectedDevice (g\<lparr>pg_status := gw, pg_radio := radio\<rparr>)
      in (g, calls, closed))"

subsection \<open>What the registry holds when a key leaves\<close>

definition recordedAs :: "NodeState \<Rightarrow> NodeRegistry \<Rightarrow> u8 \<Rightarrow> bytes \<Rightarrow> u32 \<Rightarrow> bool" where
  "recordedAs state reg nodeId deviceUid nonce \<longleftrightarrow>
     (\<exists>r. nodeMap (registryRecords reg) nodeId = Some r \<and> nr_state r = state \<and>
        nr_deviceUid r = deviceUid \<and> nr_requestNonce r = nonce)"

lemma reserve_records:
  assumes "registryOk reg" "joinRequestOk request" "reserve reg request = (candidate, result)"
    and "rr_status result = RS_Created \<or> rr_status result = RS_ExistingPendingUpdated"
  shows "recordedAs Pending candidate (rr_nodeId result) (jr_deviceUid request) (jr_requestNonce request)"
proof -
  obtain rs where rs: "reg = registryOf rs" "recordsOk rs" using assms(1) by (rule registryOkE)
  show ?thesis
  proof (cases "jr_deviceUid request \<in> nr_deviceUid ` set rs")
    case True
    then obtain r where r: "r \<in> set rs" "nr_deviceUid r = jr_deviceUid request" by auto
    note known = conjunct2 [OF reserve_known [OF rs(2) assms(2) r]]
    then have st: "knownStatus r request = RS_ExistingPendingUpdated"
      and m: "nodeMap (registryRecords candidate) = (nodeMap rs)(nr_nodeId r \<mapsto> rejoined r request)"
        "rr_nodeId result = nr_nodeId r"
      using assms(3,4) rs(1) by (auto simp: abstractly_def knownStatus_def split: if_splits NodeState.splits)
    have "restorableRecord r"
      using rs(2) r(1) by (simp add: recordsOk_def list_all_iff recordOk_def)
    then have "nr_state r = Pending"
      using st by (auto simp: knownStatus_def restorableRecord_def split: if_splits NodeState.splits)
    then show ?thesis using m r(2) by (simp add: recordedAs_def rejoined_def)
  next
    case False
    have "length rs \<le> kMaxNodes" using rs(2) by (simp add: recordsOk_def)
    moreover have "length rs \<noteq> kMaxNodes"
      using reserve_full [OF rs(2) assms(2) False] assms(3,4) rs(1) by auto
    ultimately have "length rs < kMaxNodes" by simp
    then obtain c where
      c: "recordsOk (rs @ [newNode request (of_nat c)])"
        "reserve (registryOf rs) request =
          (registryOf (rs @ [newNode request (of_nat c)]), \<lparr>rr_status = RS_Created, rr_nodeId = of_nat c\<rparr>)"
      by (rule reserve_new [OF rs(2) assms(2) False])
    have "nodeMap (rs @ [newNode request (of_nat c)]) (of_nat c) = Some (newNode request (of_nat c))"
      using nodeMap_SomeI [OF recordsOk_distinct [OF c(1)], of "newNode request (of_nat c)"]
      by (simp add: newNode_def)
    moreover have "candidate = registryOf (rs @ [newNode request (of_nat c)])" "rr_nodeId result = of_nat c"
      using c(2) assms(3) rs(1) by auto
    moreover have "length (rs @ [newNode request (of_nat c)]) \<le> kMaxNodes"
      using c(1) by (simp add: recordsOk_def)
    ultimately have "nodeMap (registryRecords candidate) (rr_nodeId result) = Some (newNode request (of_nat c))"
      by simp
    then show ?thesis by (simp add: recordedAs_def newNode_def)
  qed
qed

lemma confirm_records:
  assumes "registryOk reg" "confirm reg (Some uid) nodeId nonce = (candidate, result)"
    and "length uid = kDeviceUidSize"
    and "result = CF_Confirmed \<or> result = CF_AlreadyActive"
  shows "recordedAs Active candidate nodeId uid nonce" "result = CF_AlreadyActive \<Longrightarrow> candidate = reg"
proof -
  obtain rs where rs: "reg = registryOf rs" "recordsOk rs" using assms(1) by (rule registryOkE)
  have spec: "abstractly (candidate, result) = confirmSpec (nodeMap rs) (Some uid) nodeId nonce"
    and ok: "registryOk candidate"
    using confirm_refines [OF rs(2), of "Some uid" nodeId nonce] assms(2) rs(1) by auto
  obtain r where r: "nodeMap rs nodeId = Some r" "uidEquals (Some (nr_deviceUid r)) (Some uid)"
    "nr_requestNonce r = nonce"
    using spec assms(4) by (auto simp: confirmSpec_def abstractly_def split: option.splits if_splits)
  have "r \<in> set rs" using nodeMap_mem [OF r(1)] by simp
  then have "length (nr_deviceUid r) = kDeviceUidSize"
    using rs(2) by (auto simp: recordsOk_def list_all_iff recordOk_def shapedRecord_def)
  then have "nr_deviceUid r = uid" using r(2) assms(3) by (simp add: uidEquals_def)
  then show "recordedAs Active candidate nodeId uid nonce"
    using spec r assms(4)
    by (auto simp: recordedAs_def confirmSpec_def abstractly_def split: NodeState.splits)
  show "candidate = reg" if "result = CF_AlreadyActive"
    using assms(2) that by (auto simp: confirm_def Let_def split: option.splits if_splits NodeState.splits)
qed

text \<open>The registry in RAM is what the next start-up would load.\<close>

definition durably :: "'s slot_ops \<Rightarrow> 's registry_service \<Rightarrow> bool" where
  "durably ops sv \<longleftrightarrow> registryLoad ops (sv_flash sv) = (sv_store sv, sv_nodes sv, Loaded)"

lemma serviceOk_registryOk: "serviceOk ops sv \<Longrightarrow> sv_initialized sv \<Longrightarrow> registryOk (sv_nodes sv)"
  by (simp add: serviceOk_def registryGood_def)

context slot_storage
begin

lemma reserveAndSave_records:
  assumes "serviceOk ops sv" "joinRequestOk request"
    and "reserveAndSave ops guarded allocated sv request = (sv', commit, Some result)"
    and "commit \<noteq> RC_StorageError" "commit \<noteq> RC_NotInitialized"
    and "rr_status result = RS_Created \<or> rr_status result = RS_ExistingPendingUpdated"
  shows "durably ops sv'"
    "recordedAs Pending (sv_nodes sv') (rr_nodeId result) (jr_deviceUid request) (jr_requestNonce request)"
proof -
  have op: "serviceOp ops guarded allocated sv (SReserve request) = (sv', commit)"
    using assms(3) by simp
  have w: "writable guarded sv" "allocated"
    using assms(3) by (auto simp: reserveAndSave_def split: if_splits)
  obtain candidate where r: "reserve (sv_nodes sv) request = (candidate, result)"
    using assms(3) w by (auto simp: reserveAndSave_def Let_def split: prod.splits if_splits)
  have ok: "commit = RC_Ok"
    using assms(3-6) w r by (auto simp: reserveAndSave_def commitStatus_def Let_def split: prod.splits if_splits)
  have c: "committed ops sv candidate sv' RC_Ok"
    using service_commits [OF assms(1) _ op] assms(2) ok r by simp
  then show "durably ops sv'" by (simp add: committed_def durably_def)
  have "registryOk (sv_nodes sv)" using assms(1) w(1) by (simp add: serviceOk_registryOk writable_def)
  from reserve_records [OF this assms(2) r assms(6)] c
  show "recordedAs Pending (sv_nodes sv') (rr_nodeId result) (jr_deviceUid request) (jr_requestNonce request)"
    by (simp add: committed_def)
qed

lemma confirmAndSave_records:
  assumes "serviceOk ops sv" "length uid = kDeviceUidSize"
    and "confirmAndSave ops guarded allocated sv (Some uid) nodeId nonce = (sv', commit, result)"
    and "(commit = RC_Ok \<and> result = Some CF_Confirmed) \<or> (commit = RC_NoChange \<and> result = Some CF_AlreadyActive)"
  shows "recordedAs Active (sv_nodes sv') nodeId uid nonce"
    "commit = RC_Ok \<Longrightarrow> durably ops sv'" "commit = RC_NoChange \<Longrightarrow> sv' = sv"
proof -
  have op: "serviceOp ops guarded allocated sv (SConfirm (Some uid) nodeId nonce) = (sv', commit)"
    using assms(3) by simp
  have w: "writable guarded sv"
    using assms(3,4) by (auto simp: confirmAndSave_def split: if_splits)
  have reg: "registryOk (sv_nodes sv)" using assms(1) w by (simp add: serviceOk_registryOk writable_def)
  obtain candidate res where r: "confirm (sv_nodes sv) (Some uid) nodeId nonce = (candidate, res)"
    by (metis prod.exhaust)
  have res: "result = Some res"
    using assms(3,4) w r by (auto simp: confirmAndSave_def Let_def split: prod.splits if_splits)
  then have "res = CF_Confirmed \<or> res = CF_AlreadyActive" using assms(4) by auto
  note rec = confirm_records [OF reg r assms(2) this]
  have c: "committed ops sv candidate sv' commit"
    using service_commits [OF assms(1) _ op] r by simp
  show "recordedAs Active (sv_nodes sv') nodeId uid nonce"
  proof (cases "commit = RC_Ok")
    case True
    then show ?thesis using c rec(1) by (simp add: committed_def)
  next
    case False
    then have "sv_nodes sv' = sv_nodes sv" "candidate = sv_nodes sv"
      using c rec(2) assms(4) res by (auto simp: committed_def)
    then show ?thesis using rec(1) by simp
  qed
  show "commit = RC_Ok \<Longrightarrow> durably ops sv'" using c by (simp add: committed_def durably_def)
  show "commit = RC_NoChange \<Longrightarrow> sv' = sv"
    using assms(3,4) by (auto simp: confirmAndSave_def commitStatus_def Let_def split: prod.splits if_splits)
qed

end

subsection \<open>Who gets an answer\<close>

lemma indicated_fields [simp]:
  "pg_radio (showOn i d t g) = pg_radio g" "pg_registry (showOn i d t g) = pg_registry g"
  "pg_awaitingConfirm (showOn i d t g) = pg_awaitingConfirm g"
  "pg_expectedDeviceUid (showOn i d t g) = pg_expectedDeviceUid g"
  "pg_expectedDeviceUidPresent (showOn i d t g) = pg_expectedDeviceUidPresent g"
  "gw_pairingEndsAt (pg_status (showOn i d t g)) = gw_pairingEndsAt (pg_status g)"
  "pg_radio (increment f g) = pg_radio g" "pg_registry (increment f g) = pg_registry g"
  "pg_awaitingConfirm (increment f g) = pg_awaitingConfirm g" "pg_status (increment f g) = pg_status g"
  "pg_expectedDeviceUid (increment f g) = pg_expectedDeviceUid g"
  "pg_expectedDeviceUidPresent (increment f g) = pg_expectedDeviceUidPresent g"
  "pg_radio (clearExpectedDevice g) = pg_radio g" "pg_registry (clearExpectedDevice g) = pg_registry g"
  "pg_awaitingConfirm (clearExpectedDevice g) = pg_awaitingConfirm g"
  by (simp_all add: showOn_def indicate_def increment_def clearExpectedDevice_def)

lemma sendJoinAccept_radio:
  assumes "sendJoinAccept env later request result g = (g', calls)"
  shows "pg_registry g' = pg_registry g"
    "pg_radio g' \<noteq> pg_radio g \<or> calls \<noteq> [] \<or> pg_awaitingConfirm g' \<noteq> pg_awaitingConfirm g \<Longrightarrow>
       rr_status result = RS_Created \<or> rr_status result = RS_ExistingPendingUpdated"
    "pg_awaitingConfirm g' \<noteq> pg_awaitingConfirm g \<Longrightarrow> radioAtRest (pg_radio g') \<and>
       requestProfile completes (pg_radio g') CommissioningProfile = (pg_radio g', [], False) \<and>
       pg_confirmDeadline g' = later + kConfirmTimeoutMs"
proof -
  show "pg_registry g' = pg_registry g"
    using assms by (auto simp: sendJoinAccept_def Let_def split: if_splits sum.splits prod.splits)
  show "pg_radio g' \<noteq> pg_radio g \<or> calls \<noteq> [] \<or> pg_awaitingConfirm g' \<noteq> pg_awaitingConfirm g \<Longrightarrow>
       rr_status result = RS_Created \<or> rr_status result = RS_ExistingPendingUpdated"
    using assms by (auto simp: sendJoinAccept_def split: if_splits)
  show "radioAtRest (pg_radio g') \<and>
       requestProfile completes (pg_radio g') CommissioningProfile = (pg_radio g', [], False) \<and>
       pg_confirmDeadline g' = later + kConfirmTimeoutMs"
    if "pg_awaitingConfirm g' \<noteq> pg_awaitingConfirm g"
    using assms that switched_cannot_return
    by (auto simp: sendJoinAccept_def Let_def split: if_splits sum.splits prod.splits)
       (auto simp: showOn_def increment_def)
qed

text \<open>A join request touches the radio only when everything about it is in order.\<close>

lemma handleJoinRequest_cases:
  assumes "handleJoinRequest env now later frame g = (g', calls)"
    and "pg_radio g' \<noteq> pg_radio g \<or> calls \<noteq> [] \<or> pg_awaitingConfirm g' \<noteq> pg_awaitingConfirm g"
  obtains request registry commit result g1 where
    "pairingActive (pg_status g) now" "rf_senderId frame = 0" "\<not> pg_awaitingConfirm g"
    "decodeJoinRequest (frameBytes frame) = Inr request" "matchesExpectedDevice g (jr_deviceUid request)"
    "reserveAndSave (ce_ops env) (ce_guarded env) (ce_allocated env) (pg_registry g) request =
       (registry, commit, Some result)"
    "commit \<noteq> RC_StorageError" "commit \<noteq> RC_NotInitialized"
    "pg_radio g1 = pg_radio g" "pg_registry g1 = registry" "pg_awaitingConfirm g1 = pg_awaitingConfirm g"
    "sendJoinAccept env later request result g1 = (g', calls)"
proof -
  let ?g = "increment (cc_joinRequests_update (\<lambda>n. n + 1)) g"
  have pre: "pairingActive (pg_status g) now" "rf_senderId frame = 0" "\<not> pg_awaitingConfirm g"
    using assms by (auto simp: handleJoinRequest_def Let_def split: if_splits)
  obtain request where req: "decodeJoinRequest (frameBytes frame) = Inr request"
    "matchesExpectedDevice ?g (jr_deviceUid request)"
    using assms pre by (auto simp: handleJoinRequest_def Let_def split: sum.splits if_splits)
  obtain registry commit result where res: "reserveAndSave (ce_ops env) (ce_guarded env) (ce_allocated env)
      (pg_registry g) request = (registry, commit, result)"
    by (rule prod_cases3)
  let ?h = "(showOn IndPersistingNode 0 later ?g)\<lparr>pg_registry := registry\<rparr>"
  have body: "(case result of
        None \<Rightarrow> (showOn IndError 3000 later (countStorageError ?h), [])
      | Some result \<Rightarrow>
          if commit = RC_StorageError \<or> commit = RC_NotInitialized
          then (showOn IndError 3000 later (countStorageError ?h), [])
          else sendJoinAccept env later request result ?h) = (g', calls)"
    using assms(1) pre req res by (simp add: handleJoinRequest_def Let_def)
  obtain r where "result = Some r" "commit \<noteq> RC_StorageError" "commit \<noteq> RC_NotInitialized"
    using body assms(2) by (auto split: option.splits if_splits)
  with body that [of request registry commit r ?h] pre req res show thesis
    by (auto simp: matchesExpectedDevice_def)
qed

subsection \<open>A join that is not disturbed completes\<close>

lemma handleJoinConfirm_cases:
  assumes "handleJoinConfirm env later frame g = (g', calls)"
    and "pg_radio g' \<noteq> pg_radio g \<or> calls \<noteq> []"
  obtains c registry commit result g1 where
    "decodeJoinConfirm (frameBytes frame) = Inr c"
    "confirmAndSave (ce_ops env) (ce_guarded env) (ce_allocated env) (pg_registry g) (Some (jc_deviceUid c))
       (ucast (rf_senderId frame)) (jc_requestNonce c) = (registry, commit, result)"
    "(commit = RC_Ok \<and> result = Some CF_Confirmed) \<or> (commit = RC_NoChange \<and> result = Some CF_AlreadyActive)"
    "pg_radio g1 = pg_radio g" "pg_registry g1 = registry"
    "sendJoinComplete env later c (rf_senderId frame) (commit = RC_Ok \<and> result = Some CF_Confirmed) g1 = (g', calls)"
proof -
  obtain c where c: "decodeJoinConfirm (frameBytes frame) = Inr c"
    using assms by (auto simp: handleJoinConfirm_def Let_def split: sum.splits)
  obtain registry commit result where res: "confirmAndSave (ce_ops env) (ce_guarded env) (ce_allocated env)
      (pg_registry g) (Some (jc_deviceUid c)) (ucast (rf_senderId frame)) (jc_requestNonce c) =
      (registry, commit, result)"
    by (rule prod_cases3)
  let ?h = "(increment (cc_joinConfirms_update (\<lambda>n. n + 1)) g)\<lparr>pg_registry := registry\<rparr>"
  let ?new = "commit = RC_Ok \<and> result = Some CF_Confirmed"
  have body: "(if \<not> ?new \<and> \<not> (commit = RC_NoChange \<and> result = Some CF_AlreadyActive)
      then (showOn IndError 3000 later (if commit = RC_StorageError then countStorageError ?h else countRejected ?h), [])
      else sendJoinComplete env later c (rf_senderId frame) ?new ?h) = (g', calls)"
    using assms(1) c res by (simp add: handleJoinConfirm_def Let_def)
  have "?new \<or> (commit = RC_NoChange \<and> result = Some CF_AlreadyActive)"
    using body assms(2) by (auto split: if_splits)
  with body that [of c registry commit result ?h] c res show thesis by auto
qed

lemma sendJoinComplete_registry:
  "sendJoinComplete env later c senderId new g = (g', calls) \<Longrightarrow> pg_registry g' = pg_registry g"
  by (auto simp: sendJoinComplete_def Let_def split: if_splits sum.splits prod.splits)

text \<open>The timeout that follows a join accept.\<close>

lemma confirmTimeout_after_accept:
  assumes "handleJoinRequest env now later frame g = (g1, calls)" "pg_awaitingConfirm g1" "\<not> pg_awaitingConfirm g"
    and "confirmTimeout env' t g1 = (g2, calls2)" "sint (t - (later + kConfirmTimeoutMs)) \<ge> 0"
    and "pairingActive (pg_status g1) t"
  shows "calls2 = [] \<and> pg_radio g2 = pg_radio g1 \<and> radioAtRest (pg_radio g2) \<and> \<not> pg_awaitingConfirm g2 \<and>
    gw_current (pg_status g2) = IndError \<and> pairingActive (pg_status g2) t"
proof -
  obtain request registry commit result g0 where
    s: "sendJoinAccept env later request result g0 = (g1, calls)" "pg_awaitingConfirm g0 = pg_awaitingConfirm g"
    by (rule handleJoinRequest_cases [OF assms(1)]) (use assms(2,3) in auto)
  have "pg_awaitingConfirm g1 \<noteq> pg_awaitingConfirm g0" using s(2) assms(2,3) by simp
  from sendJoinAccept_radio(3) [OF s(1) this, of "ev_completes (ce_status env')"]
  have r: "radioAtRest (pg_radio g1)" "pg_confirmDeadline g1 = later + kConfirmTimeoutMs"
    "requestProfile (ev_completes (ce_status env')) (pg_radio g1) CommissioningProfile = (pg_radio g1, [], False)"
    by auto
  show ?thesis
    using assms(2,4-6) r
    by (auto simp: confirmTimeout_def returnToPairingIfOpen_def Let_def increment_def showOn_def indicate_def
        pairingActive_def)
qed

lemma sendJoinAccept_window:
  "sendJoinAccept env later request result g = (g', calls) \<Longrightarrow>
     gw_pairingEndsAt (pg_status g') = gw_pairingEndsAt (pg_status g)"
  by (auto simp: sendJoinAccept_def Let_def split: if_splits sum.splits prod.splits)

lemma handleJoinRequest_window:
  assumes "handleJoinRequest env now later frame g = (g1, calls)"
  shows "gw_pairingEndsAt (pg_status g1) = gw_pairingEndsAt (pg_status g)"
  using assms
  by (auto simp: handleJoinRequest_def Let_def sendJoinAccept_window split: if_splits sum.splits prod.splits option.splits
      dest!: sendJoinAccept_window)

text \<open>The environment of a working gateway: the flash stores what it is given (\<open>healthy\<close> is what stays
  true of it), the recovery guard is free, memory is available, the radio task answers in time.\<close>

definition writesSucceed :: "'s slot_ops \<Rightarrow> ('s \<Rightarrow> bool) \<Rightarrow> bool" where
  "writesSucceed ops healthy \<longleftrightarrow>
     (\<forall>s slot data s' ok. healthy s \<and> slot < 2 \<and> so_write ops s slot data = (s', ok) \<longrightarrow> ok \<and> healthy s')"

definition radioReady :: "radio_service \<Rightarrow> bool" where
  "radioReady st \<longleftrightarrow> rg_hasQueues st \<and> rg_operationalEnabled st \<and> length (rg_commands st) < kCommandQueueDepth"

definition gatewayWorks :: "'s CommissioningEnv \<Rightarrow> ('s \<Rightarrow> bool) \<Rightarrow> bool" where
  "gatewayWorks env healthy \<longleftrightarrow> writesSucceed (ce_ops env) healthy \<and> ce_guarded env \<and> ce_allocated env \<and>
     ev_completes (ce_status env) \<and> is_installationKeyPresent (ce_secrets env) \<and>
     length (is_installationKey (ce_secrets env)) = kInstallationKeySize \<and>
     100 \<le> ce_gatewayNodeId env \<and> ce_gatewayNodeId env < 255"

lemma runCommands_last:
  "fst (runCommands st (cs @ [c])) = fst (processCommand (fst (runCommands st cs)) c)"
  "snd (runCommands st (cs @ [c])) = snd (runCommands st cs) @ snd (processCommand (fst (runCommands st cs)) c)"
  by (induction cs arbitrary: st) (auto simp: case_prod_unfold Let_def)

lemma runCommands_keeps:
  "rg_hasQueues (fst (runCommands st cs)) = rg_hasQueues st \<and>
   (rg_operationalEnabled st \<longrightarrow> rg_operationalEnabled (fst (runCommands st cs)))"
  by (induction cs arbitrary: st)
     (auto simp: processCommand_def performCommand_def toCommissioning_def toOperational_def
       case_prod_unfold Let_def split: CommandKind.splits if_splits)

text \<open>With room in the queue and an answer in time a synchronous command is carried out.\<close>

lemma wait_succeeds:
  assumes "radioReady st"
  obtains s before where
    "queueAndWaitForCompletion True st c = (fst (processCommand s c), before @ snd (processCommand s c), True)"
    "rg_hasQueues s" "rg_operationalEnabled s" "rg_commands s = []"
    "before = snd (runCommands (st\<lparr>rg_commandsQueued := rg_commandsQueued st + 1, rg_commands := []\<rparr>) (rg_commands st))"
proof -
  let ?from = "st\<lparr>rg_commandsQueued := rg_commandsQueued st + 1, rg_commands := []\<rparr>"
  let ?at = "fst (runCommands ?from (rg_commands st))"
  have run: "queueAndWaitForCompletion True st c =
      (fst (processCommand ?at c), snd (runCommands ?from (rg_commands st)) @ snd (processCommand ?at c), True)"
  proof -
    have "queueAndWaitForCompletion True st c = (fst (runCommands ?from (rg_commands st @ [c])),
        snd (runCommands ?from (rg_commands st @ [c])), True)"
      using assms
      by (simp add: radioReady_def queueAndWaitForCompletion_def queueCommand_def sendToBack_def workOff_def
          case_prod_unfold Let_def)
    then show ?thesis by (simp only: runCommands_last)
  qed
  have keep: "rg_hasQueues ?at" "rg_operationalEnabled ?at" "rg_commands ?at = []"
    using runCommands_keeps [of ?from "rg_commands st"] runCommands_queue [of ?from "rg_commands st"] assms
    by (simp_all add: radioReady_def)
  show thesis by (rule that [OF run keep refl])
qed

lemma sendThenSwitch_succeeds:
  assumes "radioReady st" "length bs \<le> 61"
  obtains st' calls where "sendThenSwitchProfile True st t (Some bs) OperationalProfile = (st', calls, True)"
    "CallSend t bs False \<in> set calls" "radioReady st'" "rg_commands st' = []"
proof -
  let ?c = "emptyRadioCommand\<lparr>rc_kind := SendFrame, rc_targetId := t, rc_size := of_nat (length bs),
    rc_profile := OperationalProfile, rc_switchAfterSend := True,
    rc_data := put (rc_data emptyRadioCommand) 0 bs\<rparr>"
  obtain s before where w: "queueAndWaitForCompletion True st ?c =
      (fst (processCommand s ?c), before @ snd (processCommand s ?c), True)"
    "rg_hasQueues s" "rg_operationalEnabled s" "rg_commands s = []"
    by (rule wait_succeeds [OF assms(1)])
  have n: "unat (of_nat (length bs) :: u8) = length bs" using assms(2) by (simp add: unat_of_nat)
  have run: "sendThenSwitchProfile True st t (Some bs) OperationalProfile =
      (fst (processCommand s ?c), before @ snd (processCommand s ?c), True)"
    using assms w(1) by (simp add: sendThenSwitchProfile_def acceptsCommands_def radioReady_def)
  have "CallSend t bs False \<in> set (snd (processCommand s ?c))"
    using n by (simp add: processCommand_def performCommand_def toOperational_def emptyRadioCommand_def put_def)
  moreover have "radioReady (fst (processCommand s ?c))" "rg_commands (fst (processCommand s ?c)) = []"
    using w by (simp_all add: processCommand_def performCommand_def toOperational_def radioReady_def)
  ultimately show thesis using that run by simp
qed

lemma send_then_close:
  assumes "radioReady st" "rg_commands st = []" "length bs \<le> 61"
  obtains st1 st2 calls where "radioSend st t (Some bs) False = (st1, True)"
    "requestProfile True st1 OperationalProfile = (st2, calls, True)" "CallSend t bs False \<in> set calls"
proof -
  let ?c = "emptyRadioCommand\<lparr>rc_kind := SendFrame, rc_targetId := t,
            rc_size := of_nat (length bs), rc_requestAck := False,
            rc_data := put (rc_data emptyRadioCommand) 0 bs\<rparr>"
  let ?st1 = "st\<lparr>rg_commands := [?c], rg_commandsQueued := rg_commandsQueued st + 1\<rparr>"
  have send: "radioSend st t (Some bs) False = (?st1, True)"
    using assms by (simp add: radioSend_def acceptsCommands_def radioReady_def queueCommand_def sendToBack_def)
  have n: "unat (of_nat (length bs) :: u8) = length bs" using assms(3) by (simp add: unat_of_nat)
  have ready: "radioReady ?st1" using assms(1) by (simp add: radioReady_def)
  let ?p = "emptyRadioCommand\<lparr>rc_kind := SetProfile, rc_profile := OperationalProfile\<rparr>"
  obtain s before where w: "queueAndWaitForCompletion True ?st1 ?p =
      (fst (processCommand s ?p), before @ snd (processCommand s ?p), True)"
    "before = snd (runCommands (?st1\<lparr>rg_commandsQueued := rg_commandsQueued ?st1 + 1, rg_commands := []\<rparr>) (rg_commands ?st1))"
    by (rule wait_succeeds [OF ready])
  have "CallSend t bs False \<in> set before"
    unfolding w(2) using n
    by (simp add: processCommand_def performCommand_def emptyRadioCommand_def put_def)
  moreover have "requestProfile True ?st1 OperationalProfile =
      (fst (processCommand s ?p), before @ snd (processCommand s ?p), True)"
    using w(1) assms(1) by (simp add: requestProfile_def acceptsCommands_def radioReady_def)
  ultimately show thesis using that [OF send] by simp
qed

context slot_storage
begin

lemma handleJoinRequest_serviceOk:
  assumes "serviceOk ops (pg_registry g)" "ce_ops env = ops"
    and "handleJoinRequest env now later frame g = (g1, calls)"
  shows "serviceOk ops (pg_registry g1)"
proof (cases "decodeJoinRequest (frameBytes frame)")
  case (Inl e)
  then show ?thesis using assms by (auto simp: handleJoinRequest_def Let_def split: if_splits)
next
  case (Inr request)
  obtain registry commit result where res: "reserveAndSave ops (ce_guarded env) (ce_allocated env)
      (pg_registry g) request = (registry, commit, result)"
    by (rule prod_cases3)
  have "joinRequestOk request" using Inr by (simp add: frameBytes_def joinRequest.decode_iff)
  have "serviceOp ops (ce_guarded env) (ce_allocated env) (pg_registry g) (SReserve request) =
      (registry, commit)" using res by simp
  moreover have "serviceOpOk (SReserve request)" using \<open>joinRequestOk request\<close> by simp
  ultimately have "committed ops (pg_registry g) (serviceEffect (sv_nodes (pg_registry g)) (SReserve request)) registry commit"
    using service_commits [OF assms(1)] by blast
  then have "serviceOk ops registry" by (simp add: committed_def)
  moreover have "pg_registry g1 = registry \<or> pg_registry g1 = pg_registry g"
    using assms(2,3) Inr res
    by (auto simp: handleJoinRequest_def Let_def split: if_splits option.splits dest!: sendJoinAccept_radio(1))
  ultimately show ?thesis using assms(1) by auto
qed

lemma registrySave_succeeds:
  assumes "writesSucceed ops healthy" "healthy s" "registryOk reg"
  obtains st' s' where "registrySave ops st s reg = (st', s', True)" "healthy s'"
proof -
  obtain rs where rs: "reg = registryOf rs" "recordsOk rs" by (rule registryOkE [OF assms(3)])
  then have shaped: "list_all shapedRecord rs" and len: "length rs \<le> 64"
    by (auto simp: recordsOk_def recordOk_def list_all_iff)
  let ?d = "snapshotImage rs (rs_generation st + 1)" and ?t = "targetSlot (rs_activeSlot st)"
  have d: "length ?d = 16 + length rs * 72"
    by (simp add: snapshotImage_def length_snapshotBody [OF shaped])
  have enc: "encodeRegistrySnapshot reg (rs_generation st + 1) (Some (zeros 4624)) =
      Inr (written ?d (zeros 4624), length ?d)"
    using encodeRegistrySnapshot_image [OF shaped len, of "zeros 4624"] len rs(1) by simp
  obtain s1 b where w: "so_write ops s ?t ?d = (s1, b)" by fastforce
  have ok: "b" "healthy s1"
    using assms(1,2) w targetSlot_less [of "rs_activeSlot st"] unfolding writesSucceed_def by blast+
  then have wt: "so_write ops s ?t ?d = (s1, True)" using w by simp
  have "slotValue ops kMaxRegistrySnapshotSize (\<lambda>buf. decodeRegistrySnapshot buf newRegistry) s1 ?t =
      Some (reg, rs_generation st + 1)"
  proof (rule slotValue_written [OF wt targetSlot_less])
    show "?d \<noteq> []" "length ?d \<le> 4624" using d len by auto
    show "decodeRegistrySnapshot (Some ?d) newRegistry = Inr (reg, rs_generation st + 1)"
      using decodeRegistrySnapshot_image [OF rs(2)] rs(1) by simp
  qed
  then have "registrySlotValue ops s1 ?t = Some (reg, rs_generation st + 1)"
    by (simp add: registrySlotValue_def)
  with enc wt have "registrySave ops st s reg =
      (\<lparr>rs_generation = rs_generation st + 1, rs_activeSlot = Some ?t\<rparr>, s1, True)"
    by (simp add: registrySave_def Let_def)
  with ok(2) show thesis by (rule that [rotated])
qed

lemma commit_succeeds:
  assumes "writesSucceed ops healthy" "healthy (sv_flash sv)" "registryOk candidate"
    and "commitCandidateLocked ops sv candidate = (sv', saved)"
  shows "saved \<and> healthy (sv_flash sv')"
proof -
  obtain st' s' where "registrySave ops (sv_store sv) (sv_flash sv) candidate = (st', s', True)" "healthy s'"
    by (rule registrySave_succeeds [OF assms(1-3)])
  then show ?thesis
    using assms(4) by (auto simp: commitCandidateLocked_def publishLockFreeView_def)
qed

lemma reserveAndSave_new:
  assumes "serviceOk ops sv" "writable True sv" "joinRequestOk request"
    and "writesSucceed ops healthy" "healthy (sv_flash sv)"
    and "jr_deviceUid request \<notin> nr_deviceUid ` set (registryRecords (sv_nodes sv))"
      "length (registryRecords (sv_nodes sv)) < kMaxNodes"
  obtains sv' nodeId where
    "reserveAndSave ops True True sv request =
       (sv', RC_Ok, Some \<lparr>rr_status = RS_Created, rr_nodeId = nodeId\<rparr>)"
    "healthy (sv_flash sv')" "serviceOk ops sv'" "writable True sv'" "1 \<le> nodeId" "nodeId \<le> 99"
proof -
  have init: "sv_initialized sv" "sv_mutex sv" using assms(2) by (auto simp: writable_def)
  have reg: "registryOk (sv_nodes sv)" by (rule serviceOk_registryOk [OF assms(1) init(1)])
  then obtain rs where rs: "sv_nodes sv = registryOf rs" "recordsOk rs" by (rule registryOkE)
  then have rr: "registryRecords (sv_nodes sv) = rs" by (simp add: recordsOk_def)
  obtain c where c: "1 \<le> c" "c \<le> 99" "recordsOk (rs @ [newNode request (of_nat c)])"
    "reserve (registryOf rs) request =
      (registryOf (rs @ [newNode request (of_nat c)]), \<lparr>rr_status = RS_Created, rr_nodeId = of_nat c\<rparr>)"
    using reserve_new [OF rs(2) assms(3)] assms(6,7) unfolding rr by metis
  let ?cand = "registryOf (rs @ [newNode request (of_nat c)])"
  let ?res = "\<lparr>rr_status = RS_Created, rr_nodeId = of_nat c\<rparr> :: ReserveResult"
  have cand: "registryOk ?cand" using reserve_ok [OF rs(2) assms(3)] c(4) by simp
  obtain sv' saved where commit: "commitCandidateLocked ops sv ?cand = (sv', saved)" by (metis prod.exhaust)
  note saved = commit_succeeds [OF assms(4,5) cand commit]
  have run: "reserveAndSave ops True True sv request = (sv', RC_Ok, Some ?res)"
    using assms(2) rs(1) c(4) commit saved
    by (simp add: reserveAndSave_def writable_def commitStatus_def Let_def)
  have "serviceOp ops True True sv (SReserve request) = (sv', RC_Ok)" using run by simp
  from service_commits [OF assms(1) _ this] assms(3) have ok: "serviceOk ops sv'"
    by (simp add: committed_def)
  have w: "writable True sv'"
    using commit init by (auto simp: commitCandidateLocked_def publishLockFreeView_def writable_def
        Let_def split: prod.splits if_splits)
  have "(1 :: u8) \<le> of_nat c" "(of_nat c :: u8) \<le> 99" using c(1,2) by (simp_all add: word_le_nat_alt unat_of_nat)
  with that [OF run] saved ok w show thesis by blast
qed

lemma confirmAndSave_pending:
  assumes "serviceOk ops sv" "writable True sv" "writesSucceed ops healthy" "healthy (sv_flash sv)"
    and "recordedAs Pending (sv_nodes sv) nodeId uid nonce" "length uid = kDeviceUidSize"
  obtains sv' where "confirmAndSave ops True True sv (Some uid) nodeId nonce = (sv', RC_Ok, Some CF_Confirmed)"
proof -
  have init: "sv_initialized sv" using assms(2) by (simp add: writable_def)
  have reg: "registryOk (sv_nodes sv)" by (rule serviceOk_registryOk [OF assms(1) init])
  then obtain rs where rs: "sv_nodes sv = registryOf rs" "recordsOk rs" by (rule registryOkE)
  then have rr: "registryRecords (sv_nodes sv) = rs" by (simp add: recordsOk_def)
  obtain r where r: "nodeMap rs nodeId = Some r" "nr_state r = Pending" "nr_deviceUid r = uid"
    "nr_requestNonce r = nonce"
    using assms(5) unfolding recordedAs_def rr by blast
  obtain candidate res where c: "confirm (sv_nodes sv) (Some uid) nodeId nonce = (candidate, res)"
    by (metis prod.exhaust)
  have "res = CF_Confirmed" "registryOk candidate"
    using confirm_refines [OF rs(2), of "Some uid" nodeId nonce] c rs(1) r
    by (auto simp: abstractly_def confirmSpec_def uidEquals_def)
  moreover obtain sv' saved where commit: "commitCandidateLocked ops sv candidate = (sv', saved)"
    by (metis prod.exhaust)
  ultimately have "saved" using commit_succeeds [OF assms(3,4)] by blast
  with that [of sv'] commit c \<open>res = CF_Confirmed\<close> assms(2) show thesis
    by (simp add: confirmAndSave_def writable_def commitStatus_def Let_def)
qed

lemma ucast_back: "ucast (ucast (n :: u8) :: u16) = n"
  by (rule bit_word_eqI) (auto simp: bit_simps)

lemma low_byte: "(ucast (n :: u8) :: u16) AND 0xFF = ucast n"
proof -
  have "(0xFF :: u16) = mask 8" by (simp add: mask_eq_exp_minus_1)
  moreover have "take_bit 8 (ucast n :: u16) = ucast n"
    by (rule bit_word_eqI) (auto simp: bit_simps dest: bit_imp_le_length)
  ultimately show ?thesis by (simp add: take_bit_eq_mask)
qed

lemma sendJoinComplete_success:
  assumes "encodeJoinComplete c (Some (zeros kJoinConfirmSize)) = Inr bs"
    and "radioSend (pg_radio g) (senderId AND 0xFF) (Some bs) False = (r2, True)"
    and "requestProfile (ev_completes (ce_status env)) r2 OperationalProfile = (r3, c2, True)"
    and "sendJoinComplete env t c senderId True g = (g2, calls2)"
  shows "calls2 = c2 \<and> pg_registry g2 = pg_registry g \<and> pg_radio g2 = r3 \<and> \<not> pg_awaitingConfirm g2 \<and>
    gw_pairingEndsAt (pg_status g2) = 0"
  using assms
  by (auto simp: sendJoinComplete_def closePairing_def showOn_def increment_def clearExpectedDevice_def
      indicate_def Let_def)

text \<open>The whole exchange.  The frames are what the registered device sends; nothing else happens in
  between.\<close>

lemma join_completes:
  assumes works: "gatewayWorks env healthy" "ce_ops env = ops"
    and sv: "serviceOk ops (pg_registry g)" "writable True (pg_registry g)" "healthy (sv_flash (pg_registry g))"
    and radio: "radioReady (pg_radio g)"
    and window: "pairingActive (pg_status g) now" "\<not> pg_awaitingConfirm g"
      "matchesExpectedDevice g (jr_deviceUid request)"
    and frame: "rf_senderId frame = 0" "decodeJoinRequest (frameBytes frame) = Inr request"
    and room: "jr_deviceUid request \<notin> nr_deviceUid ` set (registryRecords (sv_nodes (pg_registry g)))"
      "length (registryRecords (sv_nodes (pg_registry g))) < kMaxNodes"
    and first: "handleJoinRequest env now later frame g = (g1, calls1)"
  obtains nodeId bs where "CallSend 0 bs False \<in> set calls1"
    "decodeJoinAccept (Some bs) = Inr (acceptFor env request nodeId)" "pg_awaitingConfirm g1"
    "\<forall>frame2 t g2 calls2. rf_senderId frame2 = ucast nodeId \<and>
       decodeJoinConfirm (frameBytes frame2) =
         Inr \<lparr>jc_deviceUid = jr_deviceUid request, jc_requestNonce = jr_requestNonce request\<rparr> \<and>
       handleJoinConfirm env t frame2 g1 = (g2, calls2) \<longrightarrow>
       recordedAs Active (sv_nodes (pg_registry g2)) nodeId (jr_deviceUid request) (jr_requestNonce request) \<and>
       durably ops (pg_registry g2) \<and> radioAtRest (pg_radio g2) \<and>
       (\<forall>t'. \<not> pairingActive (pg_status g2) t') \<and>
       (\<exists>bs2. CallSend (ucast nodeId) bs2 False \<in> set calls2 \<and> decodeJoinComplete (Some bs2) =
          Inr \<lparr>jc_deviceUid = jr_deviceUid request, jc_requestNonce = jr_requestNonce request\<rparr>)"
proof -
  have env: "ce_guarded env" "ce_allocated env" "ev_completes (ce_status env)"
    "is_installationKeyPresent (ce_secrets env)" "writesSucceed ops healthy"
    using works by (auto simp: gatewayWorks_def)
  have req: "joinRequestOk request"
    using frame(2) by (simp add: frameBytes_def joinRequest.decode_iff)
  obtain sv1 nodeId where res: "reserveAndSave ops True True (pg_registry g) request =
       (sv1, RC_Ok, Some \<lparr>rr_status = RS_Created, rr_nodeId = nodeId\<rparr>)"
    "healthy (sv_flash sv1)" "serviceOk ops sv1" "writable True sv1" "1 \<le> nodeId" "nodeId \<le> 99"
    by (rule reserveAndSave_new [OF sv(1,2) req env(5) sv(3) room])
  have pending: "recordedAs Pending (sv_nodes sv1) nodeId (jr_deviceUid request) (jr_requestNonce request)"
    using reserveAndSave_records(2) [OF sv(1) req res(1)] by simp
  have ids: "nodeId \<notin> {0, 255}" "(ucast (ce_gatewayNodeId env) :: u8) \<notin> {0, 255}"
    "nodeId \<noteq> ucast (ce_gatewayNodeId env)"
  proof -
    have n: "unat nodeId \<le> 99" "1 \<le> unat nodeId" using res(5,6) by (simp_all add: word_le_nat_alt)
    have "100 \<le> unat (ce_gatewayNodeId env)" "unat (ce_gatewayNodeId env) < 255"
      using works(1) by (simp_all add: gatewayWorks_def word_le_nat_alt word_less_nat_alt)
    then have g: "unat (ucast (ce_gatewayNodeId env) :: u8) = unat (ce_gatewayNodeId env)"
      "100 \<le> unat (ce_gatewayNodeId env)" "unat (ce_gatewayNodeId env) < 255"
      by (simp_all add: unsigned_ucast_eq unsigned_take_bit_eq take_bit_nat_eq_self)
    show "nodeId \<notin> {0, 255}" using n by (auto simp: word_unat_eq_iff)
    show "(ucast (ce_gatewayNodeId env) :: u8) \<notin> {0, 255}" using g by (auto simp: word_unat_eq_iff)
    show "nodeId \<noteq> ucast (ce_gatewayNodeId env)"
    proof
      assume "nodeId = ucast (ce_gatewayNodeId env)"
      with n g show False by simp
    qed
  qed
  let ?a = "acceptFor env request nodeId"
  have aok: "joinAcceptOk ?a"
    using ids works(1) req by (simp add: joinAcceptOk_def acceptFor_def gatewayWorks_def joinRequestOk_def)
  let ?abs = "joinAcceptImage ?a"
  have alen: "length ?abs = kJoinAcceptSize"
    using aok by (simp add: joinAcceptImage_def joinAcceptOk_def)
  have aenc: "encodeJoinAccept ?a (Some (zeros kJoinAcceptSize)) = Inr ?abs"
    using joinAccept.encode_fits [OF aok, of "zeros kJoinAcceptSize"] alen by (simp add: written_full)
  have afits: "length ?abs \<le> 61" using alen by simp
  obtain radio1 c1 where sent: "sendThenSwitchProfile True (pg_radio g) 0 (Some ?abs) OperationalProfile =
      (radio1, c1, True)" "CallSend 0 ?abs False \<in> set c1" "radioReady radio1" "rg_commands radio1 = []"
    by (rule sendThenSwitch_succeeds [OF radio afits])
  have g1: "calls1 = c1" "pg_registry g1 = sv1" "pg_radio g1 = radio1" "pg_awaitingConfirm g1"
    using first window frame res(1) env works(2) aenc sent(1)
    by (auto simp: handleJoinRequest_def sendJoinAccept_def Let_def matchesExpectedDevice_def)
  show thesis
  proof (rule that [of ?abs nodeId], goal_cases)
    case 1 show ?case using sent(2) g1 by simp
  next
    case 2 show ?case by (rule joinAccept.decode_image [OF aok])
  next
    case 3 show ?case using g1 by simp
  next
    case 4 show ?case
    proof (intro allI impI, elim conjE, goal_cases)
      case (1 frame2 t g2 calls2)
      let ?c = "\<lparr>jc_deviceUid = jr_deviceUid request, jc_requestNonce = jr_requestNonce request\<rparr>"
      note sender = 1(1) and dec = 1(2) and second = 1(3)
    have uid: "length (jr_deviceUid request) = kDeviceUidSize" using req by (simp add: joinRequestOk_def)
    obtain sv2 where conf: "confirmAndSave ops True True sv1 (Some (jr_deviceUid request)) nodeId
        (jr_requestNonce request) = (sv2, RC_Ok, Some CF_Confirmed)"
      by (rule confirmAndSave_pending [OF res(3,4) env(5) res(2) pending uid])
    note rec = confirmAndSave_records [OF res(3) uid conf]
    let ?cbs = "joinConfirmImage KJoinComplete ?c"
    have cok: "joinConfirmOk ?c" using uid by (simp add: joinConfirmOk_def)
    have clen: "length ?cbs = kJoinConfirmSize" using uid by (simp add: joinConfirmImage_def)
    have cenc: "encodeJoinComplete ?c (Some (zeros kJoinConfirmSize)) = Inr ?cbs"
      using joinComplete.encode_fits [OF cok, of "zeros kJoinConfirmSize"] clen by (simp add: written_full)
    have cfits: "length ?cbs \<le> 61" using clen by simp
    obtain r2 r3 c2 where close: "radioSend radio1 (ucast nodeId) (Some ?cbs) False = (r2, True)"
      "requestProfile True r2 OperationalProfile = (r3, c2, True)" "CallSend (ucast nodeId) ?cbs False \<in> set c2"
      by (rule send_then_close [OF sent(3,4) cfits])
    have low: "(ucast nodeId :: u16) AND 0xFF = ucast nodeId"
      by (rule low_byte)
    have same: "ucast (ucast nodeId :: u16) = nodeId" by (rule ucast_back)
    let ?h = "(increment (cc_joinConfirms_update (\<lambda>n. n + 1)) g1)\<lparr>pg_registry := sv2\<rparr>"
    have conf': "confirmAndSave (ce_ops env) (ce_guarded env) (ce_allocated env) (pg_registry g1)
        (Some (jc_deviceUid ?c)) (ucast (rf_senderId frame2)) (jc_requestNonce ?c) = (sv2, RC_Ok, Some CF_Confirmed)"
      using conf env works(2) g1 sender same by simp
    have body: "sendJoinComplete env t ?c (ucast nodeId) True ?h = (g2, calls2)"
      using second dec sender conf' by (simp add: handleJoinConfirm_def Let_def)
    have "pg_radio ?h = radio1" "pg_registry ?h = sv2" using g1 by simp_all
    with sendJoinComplete_success [OF cenc _ _ body, unfolded low, of r2 r3 c2] close(1,2) env(3)
    have "calls2 = c2 \<and> pg_registry g2 = sv2 \<and> pg_radio g2 = r3 \<and> \<not> pg_awaitingConfirm g2 \<and>
        gw_pairingEndsAt (pg_status g2) = 0" by simp
    with rec close requestProfile_rests [OF close(2)] joinComplete.decode_image [OF cok]
    show ?case by (auto simp: pairingActive_def)
    qed
  qed
qed

end

end
