(* ===== verification/Telemetry_Store.thy ===== *)
theory Telemetry_Store
  imports Radio_Service Registry_Service
begin

text \<open>
  gateway/src/TelemetryStore.cpp: the latest telemetry frame of every node.  The mutex makes each
  operation a single step.  The registry's view of active nodes and the time of day are arguments.
\<close>

record TelemetryRecord =
  tr_nodeId :: u8
  tr_profileId :: u16
  tr_data :: bytes
  tr_size :: u8
  tr_rssi :: s16
  tr_receivedAtUnixMs :: u64
  tr_sequence :: u32

definition emptyTelemetryRecord :: TelemetryRecord where
  "emptyTelemetryRecord = \<lparr>tr_nodeId = 0, tr_profileId = 0, tr_data = zeros kMaxPayloadSize, tr_size = 0,
     tr_rssi = 0, tr_receivedAtUnixMs = 0, tr_sequence = 0\<rparr>"

record telemetry_store =
  ts_records :: "TelemetryRecord list"
  ts_present :: "bool list"
  ts_mutex :: bool
  ts_nodesSeen :: u8
  ts_updates :: u32
  ts_lastNodeId :: u8

record TelemetrySnapshot =
  tn_nodesSeen :: u8
  tn_updates :: u32
  tn_last :: "TelemetryRecord option"

definition newTelemetryStore :: telemetry_store where
  "newTelemetryStore = \<lparr>ts_records = replicate (kLastNodeId + 1) emptyTelemetryRecord,
     ts_present = replicate (kLastNodeId + 1) False, ts_mutex = False, ts_nodesSeen = 0, ts_updates = 0,
     ts_lastNodeId = 0\<rparr>"

definition telemetryBegin :: "bool \<Rightarrow> telemetry_store \<Rightarrow> telemetry_store \<times> bool" where
  "telemetryBegin mutexMade ts = (ts\<lparr>ts_mutex := mutexMade\<rparr>, mutexMade)"

subsection \<open>Operations\<close>

definition knownId :: "u8 \<Rightarrow> bool" where
  "knownId nodeId \<longleftrightarrow> \<not> (nodeId < of_nat kFirstNodeId \<or> nodeId > of_nat kLastNodeId)"

definition acceptTelemetry ::
  "(u8 \<Rightarrow> u16 option) \<Rightarrow> u64 \<Rightarrow> telemetry_store \<Rightarrow> ReceivedFrame \<Rightarrow> telemetry_store \<times> bool" where
  "acceptTelemetry activeProfile unixTimeMs ts frame =
     (if \<not> ts_mutex ts \<or> rf_senderId frame < of_nat kFirstNodeId \<or>
         rf_senderId frame > of_nat kLastNodeId \<or> unat (rf_size frame) > kMaxPayloadSize
      then (ts, False)
      else case activeProfile (ucast (rf_senderId frame)) of
        None \<Rightarrow> (ts, False)
      | Some profileId \<Rightarrow>
          let nodeId = ucast (rf_senderId frame) :: u8;
              i = unat nodeId;
              ts = (if \<not> ts_present ts ! i
                    then ts\<lparr>ts_present := (ts_present ts)[i := True], ts_nodesSeen := ts_nodesSeen ts + 1\<rparr>
                    else ts);
              ts = ts\<lparr>ts_updates := ts_updates ts + 1\<rparr>;
              record = (ts_records ts ! i)\<lparr>tr_nodeId := nodeId, tr_profileId := profileId,
                  tr_size := rf_size frame, tr_rssi := rf_rssi frame, tr_receivedAtUnixMs := unixTimeMs,
                  tr_sequence := ts_updates ts,
                  tr_data := put (tr_data (ts_records ts ! i)) 0
                    (take (unat (rf_size frame)) (rf_data frame))\<rparr>
          in (ts\<lparr>ts_records := (ts_records ts)[i := record], ts_lastNodeId := nodeId\<rparr>, True))"

definition findTelemetry :: "telemetry_store \<Rightarrow> u8 \<Rightarrow> TelemetryRecord option" where
  "findTelemetry ts nodeId =
     (if \<not> ts_mutex ts \<or> \<not> knownId nodeId then None
      else if ts_present ts ! unat nodeId then Some (ts_records ts ! unat nodeId) else None)"

definition clearTelemetry :: "telemetry_store \<Rightarrow> telemetry_store" where
  "clearTelemetry ts =
     (if \<not> ts_mutex ts then ts
      else
        let ts = foldl (\<lambda>ts i. ts\<lparr>ts_present := (ts_present ts)[i := False],
              ts_records := (ts_records ts)[i := emptyTelemetryRecord]\<rparr>) ts [kFirstNodeId..<kLastNodeId + 1]
        in ts\<lparr>ts_nodesSeen := 0, ts_lastNodeId := 0\<rparr>)"

text \<open>The search for the most recent remaining record.\<close>

definition newestRecord :: "telemetry_store \<Rightarrow> u32 \<times> u8" where
  "newestRecord ts = foldl (\<lambda>(newestSequence, lastNodeId) candidate.
       if ts_present ts ! candidate \<and> tr_sequence (ts_records ts ! candidate) > newestSequence
       then (tr_sequence (ts_records ts ! candidate), of_nat candidate)
       else (newestSequence, lastNodeId)) (0, 0) [kFirstNodeId..<kLastNodeId + 1]"

definition eraseTelemetry :: "telemetry_store \<Rightarrow> u8 \<Rightarrow> telemetry_store" where
  "eraseTelemetry ts nodeId =
     (if \<not> ts_mutex ts \<or> \<not> knownId nodeId then ts
      else if ts_present ts ! unat nodeId
      then
        let ts = ts\<lparr>ts_present := (ts_present ts)[unat nodeId := False],
                    ts_records := (ts_records ts)[unat nodeId := emptyTelemetryRecord]\<rparr>;
            ts = (if ts_nodesSeen ts \<noteq> 0 then ts\<lparr>ts_nodesSeen := ts_nodesSeen ts - 1\<rparr> else ts)
        in if ts_lastNodeId ts = nodeId then ts\<lparr>ts_lastNodeId := snd (newestRecord ts)\<rparr> else ts
      else ts)"

definition telemetrySnapshot :: "telemetry_store \<Rightarrow> TelemetrySnapshot" where
  "telemetrySnapshot ts =
     (if \<not> ts_mutex ts then \<lparr>tn_nodesSeen = 0, tn_updates = 0, tn_last = None\<rparr>
      else \<lparr>tn_nodesSeen = ts_nodesSeen ts, tn_updates = ts_updates ts,
            tn_last = (if ts_lastNodeId ts \<noteq> 0 \<and> ts_present ts ! unat (ts_lastNodeId ts)
                       then Some (ts_records ts ! unat (ts_lastNodeId ts)) else None)\<rparr>)"

subsection \<open>The store is a map with a most recent entry\<close>

definition presentIds :: "telemetry_store \<Rightarrow> nat set" where
  "presentIds ts = {i. i < length (ts_present ts) \<and> ts_present ts ! i}"

definition sequenceAt :: "telemetry_store \<Rightarrow> nat \<Rightarrow> nat" where
  "sequenceAt ts i = unat (tr_sequence (ts_records ts ! i))"

definition telemetryRecordOk :: "nat \<Rightarrow> TelemetryRecord \<Rightarrow> bool" where
  "telemetryRecordOk i r \<longleftrightarrow> tr_nodeId r = of_nat i \<and> unat (tr_size r) \<le> kMaxPayloadSize \<and>
     length (tr_data r) = kMaxPayloadSize"

text \<open>The last node is the one with the highest sequence number; 0 when there is none.\<close>

definition lastOk :: "telemetry_store \<Rightarrow> bool" where
  "lastOk ts \<longleftrightarrow> (if presentIds ts = {} then ts_lastNodeId ts = 0
     else unat (ts_lastNodeId ts) \<in> presentIds ts \<and>
       (\<forall>i \<in> presentIds ts. sequenceAt ts i \<le> sequenceAt ts (unat (ts_lastNodeId ts))))"

definition telemetryOk :: "telemetry_store \<Rightarrow> bool" where
  "telemetryOk ts \<longleftrightarrow> length (ts_records ts) = 100 \<and> length (ts_present ts) = 100 \<and>
     0 \<notin> presentIds ts \<and> (\<forall>i < 100. length (tr_data (ts_records ts ! i)) = kMaxPayloadSize) \<and>
     (\<forall>i \<in> presentIds ts. telemetryRecordOk i (ts_records ts ! i) \<and>
        0 < sequenceAt ts i \<and> sequenceAt ts i \<le> unat (ts_updates ts)) \<and>
     inj_on (sequenceAt ts) (presentIds ts) \<and>
     unat (ts_nodesSeen ts) = card (presentIds ts) \<and> lastOk ts"

lemma presentIds_finite [simp]: "finite (presentIds ts)"
  by (simp add: presentIds_def)

lemma presentIds_range: "telemetryOk ts \<Longrightarrow> i \<in> presentIds ts \<Longrightarrow> 1 \<le> i \<and> i \<le> 99"
  by (cases i) (auto simp: telemetryOk_def presentIds_def)

lemma newTelemetryStore_ok: "telemetryOk (newTelemetryStore\<lparr>ts_mutex := True\<rparr>)"
proof -
  have "presentIds (newTelemetryStore\<lparr>ts_mutex := True\<rparr>) = {}"
    by (auto simp: presentIds_def newTelemetryStore_def)
  then show ?thesis
    by (simp add: telemetryOk_def lastOk_def newTelemetryStore_def emptyTelemetryRecord_def)
qed

text \<open>The map the readers see.\<close>

lemma findTelemetry_iff:
  assumes "telemetryOk ts" "ts_mutex ts"
  shows "findTelemetry ts n = (if unat n \<in> presentIds ts then Some (ts_records ts ! unat n) else None)"
proof -
  have len: "length (ts_present ts) = 100" "0 \<notin> presentIds ts" using assms(1) by (auto simp: telemetryOk_def)
  have "knownId n \<longleftrightarrow> 1 \<le> unat n \<and> unat n \<le> 99"
    by (auto simp: knownId_def not_less word_le_nat_alt Suc_le_eq unat_gt_0)
  with len assms(2) show ?thesis
    by (auto simp: findTelemetry_def presentIds_def Suc_le_eq)
qed

definition acceptedRecord :: "TelemetryRecord \<Rightarrow> u8 \<Rightarrow> u16 \<Rightarrow> u64 \<Rightarrow> u32 \<Rightarrow> ReceivedFrame \<Rightarrow> TelemetryRecord" where
  "acceptedRecord old nodeId profileId unixTimeMs seqNo frame =
     old\<lparr>tr_nodeId := nodeId, tr_profileId := profileId, tr_size := rf_size frame,
        tr_rssi := rf_rssi frame, tr_receivedAtUnixMs := unixTimeMs, tr_sequence := seqNo,
        tr_data := put (tr_data old) 0 (take (unat (rf_size frame)) (rf_data frame))\<rparr>"

text \<open>The payload of a record, as far as its size says.\<close>

definition recordPayload :: "TelemetryRecord \<Rightarrow> bytes" where
  "recordPayload r = take (unat (tr_size r)) (tr_data r)"

lemma acceptTelemetry_ok:
  assumes ok: "telemetryOk ts" and accept: "acceptTelemetry activeProfile unixTimeMs ts frame = (ts', accepted)"
    and room: "unat (ts_updates ts) + 1 < 2 ^ 32" and len: "length (rf_data frame) = kMaxPayloadSize"
  shows "telemetryOk ts' \<and> ts_mutex ts' = ts_mutex ts \<and>
    (\<not> accepted \<longrightarrow> ts' = ts) \<and>
    (accepted \<longrightarrow> ts_mutex ts \<and> (\<exists>nodeId profileId r. rf_senderId frame = ucast nodeId \<and>
       activeProfile nodeId = Some profileId \<and> ts_updates ts' = ts_updates ts + 1 \<and> ts_lastNodeId ts' = nodeId \<and>
       presentIds ts' = insert (unat nodeId) (presentIds ts) \<and> ts_records ts' = (ts_records ts)[unat nodeId := r] \<and>
       tr_nodeId r = nodeId \<and> tr_profileId r = profileId \<and> tr_rssi r = rf_rssi frame \<and>
       tr_receivedAtUnixMs r = unixTimeMs \<and> recordPayload r = take (unat (rf_size frame)) (rf_data frame)))"
proof (cases accepted)
  case False
  then have "ts' = ts" using accept by (auto simp: acceptTelemetry_def Let_def split: if_splits option.splits)
  with False ok show ?thesis by simp
next
  case True
  define nodeId :: u8 where "nodeId = ucast (rf_senderId frame)"
  obtain profileId where g: "ts_mutex ts" "\<not> rf_senderId frame < 1" "\<not> 99 < rf_senderId frame"
    "unat (rf_size frame) \<le> 61" "activeProfile nodeId = Some profileId"
    using accept True by (auto simp: acceptTelemetry_def nodeId_def split: if_splits option.splits)
  have small: "unat (rf_senderId frame) \<le> 99" "1 \<le> unat (rf_senderId frame)"
    using g(2,3) by (simp_all add: not_less word_le_nat_alt Suc_le_eq unat_gt_0)
  have un: "unat nodeId = unat (rf_senderId frame)"
    using small(1) by (simp add: nodeId_def unsigned_ucast_eq unsigned_take_bit_eq take_bit_nat_eq_self)
  then have sender: "rf_senderId frame = ucast nodeId" using small(1) by (simp add: word_unat_eq_iff unsigned_ucast_eq unsigned_take_bit_eq take_bit_nat_eq_self)
  let ?i = "unat nodeId"
  have i: "?i < 100" "?i \<noteq> 0" using small un by simp_all
  have lens: "length (ts_records ts) = 100" "length (ts_present ts) = 100" using ok by (auto simp: telemetryOk_def)
  define r where "r = acceptedRecord (ts_records ts ! ?i) nodeId profileId unixTimeMs (ts_updates ts + 1) frame"
  define fresh where "fresh \<longleftrightarrow> ?i \<notin> presentIds ts"
  have pres: "ts_present ts ! ?i \<longleftrightarrow> \<not> fresh" using i lens by (simp add: fresh_def presentIds_def)
  have ts': "ts' = ts\<lparr>ts_present := (ts_present ts)[?i := True],
      ts_nodesSeen := (if fresh then ts_nodesSeen ts + 1 else ts_nodesSeen ts),
      ts_updates := ts_updates ts + 1, ts_records := (ts_records ts)[?i := r], ts_lastNodeId := nodeId\<rparr>"
  proof -
    have "\<not> fresh \<Longrightarrow> (ts_present ts)[?i := True] = ts_present ts" using pres by (metis list_update_id)
    then show ?thesis
      using accept True g pres
      by (auto simp: acceptTelemetry_def Let_def nodeId_def [symmetric] r_def acceptedRecord_def)
  qed
  have ids: "presentIds ts' = insert ?i (presentIds ts)"
    using i lens by (auto simp: presentIds_def ts' nth_list_update)
  have up: "unat (ts_updates ts + 1) = unat (ts_updates ts) + 1"
    using room by (simp add: unat_word_ariths)
  have seq: "sequenceAt ts' j = (if j = ?i then unat (ts_updates ts) + 1 else sequenceAt ts j)" for j
    using i lens up by (simp add: sequenceAt_def ts' r_def acceptedRecord_def nth_list_update)
  have old: "j \<in> presentIds ts \<Longrightarrow> sequenceAt ts j \<le> unat (ts_updates ts)" for j
    using ok by (auto simp: telemetryOk_def)
  have rok: "telemetryRecordOk ?i r" "length (tr_data r) = 61" "recordPayload r = take (unat (rf_size frame)) (rf_data frame)"
  proof -
    have d: "length (tr_data (ts_records ts ! ?i)) = 61" using ok i by (auto simp: telemetryOk_def)
    let ?p = "take (unat (rf_size frame)) (rf_data frame)"
    have p: "length ?p = unat (rf_size frame)" using len g(4) by simp
    have "length (put (tr_data (ts_records ts ! ?i)) 0 ?p) = 61" using d p g(4) by simp
    then show "length (tr_data r) = 61" by (simp add: r_def acceptedRecord_def)
    then show "telemetryRecordOk ?i r" using g(4) by (simp add: telemetryRecordOk_def r_def acceptedRecord_def)
    show "recordPayload r = ?p" using p by (simp add: recordPayload_def r_def acceptedRecord_def put_def)
  qed
  have "inj_on (sequenceAt ts') (presentIds ts')"
  proof (rule inj_onI)
    fix x y assume x: "x \<in> presentIds ts'" and y: "y \<in> presentIds ts'" and e: "sequenceAt ts' x = sequenceAt ts' y"
    have inj: "inj_on (sequenceAt ts) (presentIds ts)" using ok by (simp add: telemetryOk_def)
    show "x = y"
      using x y e inj old [of x] old [of y] unfolding ids seq
      by (auto simp: inj_on_def split: if_splits)
  qed
  moreover have "lastOk ts'"
    using i by (auto simp: lastOk_def ids seq) (auto simp: ts' dest!: old)
  moreover have "unat (ts_nodesSeen ts') = card (presentIds ts')"
  proof -
    have c: "unat (ts_nodesSeen ts) = card (presentIds ts)" using ok by (simp add: telemetryOk_def)
    have "presentIds ts \<subseteq> {..<100}" using lens by (auto simp: presentIds_def)
    then have "card (presentIds ts) \<le> 100" using card_mono [of "{..<100::nat}" "presentIds ts"] by simp
    then have "unat (ts_nodesSeen ts + 1) = unat (ts_nodesSeen ts) + 1" using c by (simp add: unat_word_ariths)
    moreover have "card (presentIds ts') = (if fresh then Suc (card (presentIds ts)) else card (presentIds ts))"
      unfolding ids by (simp add: fresh_def card_insert_if)
    ultimately show ?thesis using c by (simp add: ts')
  qed
  moreover have "\<forall>j \<in> presentIds ts'. telemetryRecordOk j (ts_records ts' ! j) \<and> 0 < sequenceAt ts' j \<and>
      sequenceAt ts' j \<le> unat (ts_updates ts')"
  proof
    fix j assume j: "j \<in> presentIds ts'"
    show "telemetryRecordOk j (ts_records ts' ! j) \<and> 0 < sequenceAt ts' j \<and> sequenceAt ts' j \<le> unat (ts_updates ts')"
    proof (cases "j = ?i")
      case True
      then show ?thesis using rok(1) seq [of j] up i lens by (simp add: ts')
    next
      case False
      then have "j \<in> presentIds ts" using j ids by auto
      then have "telemetryRecordOk j (ts_records ts ! j)" "0 < sequenceAt ts j" "sequenceAt ts j \<le> unat (ts_updates ts)"
        using ok by (auto simp: telemetryOk_def)
      then show ?thesis using False seq [of j] up by (simp add: ts')
    qed
  qed
  moreover have "\<forall>j < 100. length (tr_data (ts_records ts' ! j)) = 61"
    using ok rok(2) lens i by (auto simp: ts' nth_list_update telemetryOk_def)
  moreover have "0 \<notin> presentIds ts'" using ok i ids by (auto simp: telemetryOk_def)
  ultimately have "telemetryOk ts'" using lens by (simp add: telemetryOk_def ts')
  moreover have "\<exists>nodeId profileId r. rf_senderId frame = ucast nodeId \<and>
       activeProfile nodeId = Some profileId \<and> ts_updates ts' = ts_updates ts + 1 \<and> ts_lastNodeId ts' = nodeId \<and>
       presentIds ts' = insert (unat nodeId) (presentIds ts) \<and> ts_records ts' = (ts_records ts)[unat nodeId := r] \<and>
       tr_nodeId r = nodeId \<and> tr_profileId r = profileId \<and> tr_rssi r = rf_rssi frame \<and>
       tr_receivedAtUnixMs r = unixTimeMs \<and> recordPayload r = take (unat (rf_size frame)) (rf_data frame)"
    using sender g(5) ids rok(3)
    by (intro exI [of _ nodeId] exI [of _ profileId] exI [of _ r]) (simp add: ts', simp add: r_def acceptedRecord_def)
  ultimately show ?thesis using True g(1) by (simp add: ts')
qed

text \<open>The search finds the present record with the highest sequence number.\<close>

lemma newestRecord_fold:
  fixes who :: u8
  assumes "\<And>i. i \<in> set xs \<Longrightarrow> 0 < i \<and> i < 100" "\<And>i. i \<in> P \<Longrightarrow> 0 < sequenceAt ts i"
    and "P = {i \<in> done_ids. ts_present ts ! i}"
    and "unat best = (if P = {} then 0 else sequenceAt ts (unat who))" "P = {} \<longrightarrow> who = 0"
    and "P \<noteq> {} \<longrightarrow> unat who \<in> P \<and> (\<forall>i \<in> P. sequenceAt ts i \<le> sequenceAt ts (unat who))"
    and "\<And>i. i \<in> set xs \<Longrightarrow> ts_present ts ! i \<Longrightarrow> 0 < sequenceAt ts i"
    and "foldl (\<lambda>(newestSequence, lastNodeId) candidate.
       if ts_present ts ! candidate \<and> tr_sequence (ts_records ts ! candidate) > newestSequence
       then (tr_sequence (ts_records ts ! candidate), of_nat candidate)
       else (newestSequence, lastNodeId)) (best, who) xs = (b, w)"
    and "Q = {i \<in> done_ids \<union> set xs. ts_present ts ! i}"
  shows "if Q = {} then w = 0 else unat w \<in> Q \<and> (\<forall>i \<in> Q. sequenceAt ts i \<le> sequenceAt ts (unat w))"
  using assms
proof (induction xs arbitrary: best who P done_ids)
  case Nil
  then show ?case by auto
next
  case (Cons x xs)
  have x: "0 < x" "x < 100" using Cons.prems(1) by auto
  have ux: "unat (of_nat x :: u8) = x" using x by (simp add: unat_of_nat)
  let ?take = "ts_present ts ! x \<and> tr_sequence (ts_records ts ! x) > best"
  let ?best = "if ?take then tr_sequence (ts_records ts ! x) else best"
  let ?who = "if ?take then of_nat x else who"
  let ?P = "{i \<in> insert x done_ids. ts_present ts ! i}"
  have gt: "tr_sequence (ts_records ts ! x) > best \<longleftrightarrow> unat best < sequenceAt ts x"
    by (simp add: sequenceAt_def word_less_nat_alt)
  have pos: "ts_present ts ! x \<Longrightarrow> 0 < sequenceAt ts x" using Cons.prems(7) by simp
  have P: "?P = (if ts_present ts ! x then insert x P else P)" using Cons.prems(3) by auto
  have best: "unat ?best = (if ?P = {} then 0 else sequenceAt ts (unat ?who))"
    using Cons.prems(4-6) gt pos ux unfolding P by (auto simp: sequenceAt_def)
  have who: "?P = {} \<longrightarrow> ?who = 0" using Cons.prems(5) unfolding P by auto
  have top: "?P \<noteq> {} \<longrightarrow> unat ?who \<in> ?P \<and> (\<forall>i \<in> ?P. sequenceAt ts i \<le> sequenceAt ts (unat ?who))"
    unfolding P using Cons.prems(4-6) gt pos ux by (auto split: if_splits)
  show ?case
  proof (rule Cons.IH [of ?P "insert x done_ids" ?best ?who])
    show "\<And>i. i \<in> ?P \<Longrightarrow> 0 < sequenceAt ts i"
      using Cons.prems(2) pos unfolding P by (auto split: if_splits)
    show "foldl (\<lambda>(newestSequence, lastNodeId) candidate.
       if ts_present ts ! candidate \<and> tr_sequence (ts_records ts ! candidate) > newestSequence
       then (tr_sequence (ts_records ts ! candidate), of_nat candidate)
       else (newestSequence, lastNodeId)) (?best, ?who) xs = (b, w)"
      using Cons.prems(8) by (cases "ts_present ts ! x \<and> tr_sequence (ts_records ts ! x) > best") auto
    show "Q = {i \<in> insert x done_ids \<union> set xs. ts_present ts ! i}" using Cons.prems(9) by auto
  qed (use Cons.prems(1,7) best who top in auto)
qed

lemma newestRecord_ok:
  assumes "length (ts_present ts) = 100" "0 \<notin> presentIds ts" "\<forall>i \<in> presentIds ts. 0 < sequenceAt ts i"
  shows "lastOk (ts\<lparr>ts_lastNodeId := snd (newestRecord ts)\<rparr>)"
proof -
  obtain b w where run: "newestRecord ts = (b, w)" by (metis prod.exhaust)
  have ids: "presentIds ts = {i \<in> {} \<union> set [1..<100]. ts_present ts ! i}"
    using assms(1,2) by (auto simp: presentIds_def Suc_le_eq) (metis neq0_conv)
  have "if presentIds ts = {} then w = 0
      else unat w \<in> presentIds ts \<and> (\<forall>i \<in> presentIds ts. sequenceAt ts i \<le> sequenceAt ts (unat w))"
    by (rule newestRecord_fold [where P = "{}" and done_ids = "{}" and xs = "[1..<100]" and best = 0 and who = 0])
       (use assms run ids in \<open>auto simp: newestRecord_def presentIds_def\<close>)
  moreover have "presentIds (ts\<lparr>ts_lastNodeId := w\<rparr>) = presentIds ts"
    "sequenceAt (ts\<lparr>ts_lastNodeId := w\<rparr>) = sequenceAt ts"
    by (simp_all add: presentIds_def sequenceAt_def fun_eq_iff)
  ultimately show ?thesis by (auto simp: lastOk_def run split: if_splits)
qed

text \<open>Removing entries.\<close>

lemma telemetryOk_lastNodeId:
  "telemetryOk (ts\<lparr>ts_lastNodeId := w\<rparr>) \<longleftrightarrow>
   length (ts_records ts) = 100 \<and> length (ts_present ts) = 100 \<and> 0 \<notin> presentIds ts \<and>
     (\<forall>i < 100. length (tr_data (ts_records ts ! i)) = kMaxPayloadSize) \<and>
     (\<forall>i \<in> presentIds ts. telemetryRecordOk i (ts_records ts ! i) \<and>
        0 < sequenceAt ts i \<and> sequenceAt ts i \<le> unat (ts_updates ts)) \<and>
     inj_on (sequenceAt ts) (presentIds ts) \<and>
     unat (ts_nodesSeen ts) = card (presentIds ts) \<and> lastOk (ts\<lparr>ts_lastNodeId := w\<rparr>)"
proof -
  have "presentIds (ts\<lparr>ts_lastNodeId := w\<rparr>) = presentIds ts"
    "sequenceAt (ts\<lparr>ts_lastNodeId := w\<rparr>) = sequenceAt ts"
    by (simp_all add: presentIds_def sequenceAt_def fun_eq_iff)
  then show ?thesis by (simp add: telemetryOk_def)
qed

lemma eraseTelemetry_ok:
  assumes ok: "telemetryOk ts" and mutex: "ts_mutex ts"
  shows "telemetryOk (eraseTelemetry ts n) \<and> ts_mutex (eraseTelemetry ts n) \<and>
    presentIds (eraseTelemetry ts n) = presentIds ts - {unat n} \<and>
    (\<forall>i. i \<noteq> unat n \<longrightarrow> ts_records (eraseTelemetry ts n) ! i = ts_records ts ! i) \<and>
    ts_updates (eraseTelemetry ts n) = ts_updates ts"
proof (cases "unat n \<in> presentIds ts")
  case False
  have "knownId n \<longleftrightarrow> 1 \<le> unat n \<and> unat n \<le> 99"
    by (auto simp: knownId_def not_less word_le_nat_alt Suc_le_eq unat_gt_0)
  then have "eraseTelemetry ts n = ts"
    using False ok by (auto simp: eraseTelemetry_def presentIds_def telemetryOk_def)
  then show ?thesis using False ok mutex by simp
next
  case True
  let ?i = "unat n"
  have lens: "length (ts_records ts) = 100" "length (ts_present ts) = 100" using ok by (auto simp: telemetryOk_def)
  have i: "?i < 100" "1 \<le> ?i" using True ok presentIds_range [OF ok True] by simp_all
  have known: "knownId n" "ts_present ts ! ?i"
    using i True by (auto simp: knownId_def not_less word_le_nat_alt Suc_le_eq unat_gt_0 presentIds_def)
  have seen: "unat (ts_nodesSeen ts) = card (presentIds ts)" using ok by (simp add: telemetryOk_def)
  moreover have pos: "0 < card (presentIds ts)" using True by (auto simp: card_gt_0_iff)
  ultimately have nz: "ts_nodesSeen ts \<noteq> 0" by auto
  define ts1 where "ts1 = ts\<lparr>ts_present := (ts_present ts)[?i := False],
     ts_records := (ts_records ts)[?i := emptyTelemetryRecord], ts_nodesSeen := ts_nodesSeen ts - 1\<rparr>"
  define w where "w = (if ts_lastNodeId ts = n then snd (newestRecord ts1) else ts_lastNodeId ts)"
  have run: "eraseTelemetry ts n = ts1\<lparr>ts_lastNodeId := w\<rparr>"
    using mutex known nz by (simp add: eraseTelemetry_def ts1_def w_def Let_def)
  have ids: "presentIds ts1 = presentIds ts - {?i}"
    using i lens by (auto simp: presentIds_def ts1_def nth_list_update split: if_splits)
  have seq: "j \<noteq> ?i \<Longrightarrow> sequenceAt ts1 j = sequenceAt ts j" for j
    by (simp add: sequenceAt_def ts1_def)
  have recs: "j \<noteq> ?i \<Longrightarrow> ts_records ts1 ! j = ts_records ts ! j" for j by (simp add: ts1_def)
  have last: "lastOk (ts1\<lparr>ts_lastNodeId := w\<rparr>)"
  proof (cases "ts_lastNodeId ts = n")
    case True
    have "length (ts_present ts1) = 100" "0 \<notin> presentIds ts1" "\<forall>i \<in> presentIds ts1. 0 < sequenceAt ts1 i"
      using ok lens ids seq by (auto simp: ts1_def telemetryOk_def)
    from newestRecord_ok [OF this] show ?thesis by (simp add: w_def True)
  next
    case False
    have p: "presentIds (ts1\<lparr>ts_lastNodeId := w\<rparr>) = presentIds ts - {?i}"
      "sequenceAt (ts1\<lparr>ts_lastNodeId := w\<rparr>) = sequenceAt ts1"
      using ids by (simp_all add: presentIds_def sequenceAt_def fun_eq_iff)
    have "unat (ts_lastNodeId ts) \<in> presentIds ts"
      "\<forall>j \<in> presentIds ts. sequenceAt ts j \<le> sequenceAt ts (unat (ts_lastNodeId ts))"
      using ok True by (auto simp: telemetryOk_def lastOk_def split: if_splits)
    moreover have "unat (ts_lastNodeId ts) \<noteq> ?i" using False by (simp add: word_unat_eq_iff)
    ultimately show ?thesis unfolding lastOk_def p using False seq by (auto simp: w_def)
  qed
  have nodes: "unat (ts_nodesSeen ts1) = card (presentIds ts1)"
  proof -
    have "unat (ts_nodesSeen ts1) = card (presentIds ts) - 1" using seen unat_minus_one [OF nz] by (simp add: ts1_def)
    then show ?thesis using ids True by simp
  qed
  have "telemetryOk (ts1\<lparr>ts_lastNodeId := w\<rparr>)"
    unfolding telemetryOk_lastNodeId
  proof (intro conjI)
    show "length (ts_records ts1) = 100" "length (ts_present ts1) = 100" using lens by (simp_all add: ts1_def)
    show "0 \<notin> presentIds ts1" using ok ids by (auto simp: telemetryOk_def)
    show "\<forall>i<100. length (tr_data (ts_records ts1 ! i)) = kMaxPayloadSize"
    proof (intro allI impI)
      fix j :: nat assume "j < 100"
      then show "length (tr_data (ts_records ts1 ! j)) = kMaxPayloadSize"
        using ok lens
        by (cases "j = ?i") (simp_all add: ts1_def telemetryOk_def emptyTelemetryRecord_def)
    qed
    show "\<forall>i\<in>presentIds ts1. telemetryRecordOk i (ts_records ts1 ! i) \<and> 0 < sequenceAt ts1 i \<and>
       sequenceAt ts1 i \<le> unat (ts_updates ts1)"
      using ok ids seq recs by (auto simp: telemetryOk_def ts1_def)
    show "inj_on (sequenceAt ts1) (presentIds ts1)"
      using ok ids seq by (auto simp: telemetryOk_def inj_on_def)
  qed (use nodes last in auto)
  then show ?thesis
    using ids mutex recs unfolding run by (auto simp: presentIds_def) (auto simp: ts1_def)
qed

lemma clearTelemetry_ok:
  assumes ok: "telemetryOk ts" and mutex: "ts_mutex ts"
  shows "telemetryOk (clearTelemetry ts) \<and> ts_mutex (clearTelemetry ts) \<and>
    presentIds (clearTelemetry ts) = {} \<and> ts_updates (clearTelemetry ts) = ts_updates ts"
proof -
  let ?f = "\<lambda>ts i. ts\<lparr>ts_present := (ts_present ts)[i := False],
     ts_records := (ts_records ts)[i := emptyTelemetryRecord]\<rparr>"
  have step: "let t = foldl ?f u xs in length (ts_records t) = length (ts_records u) \<and>
      presentIds t = presentIds u - set xs \<and> ts_mutex t = ts_mutex u \<and> ts_updates t = ts_updates u \<and>
      (\<forall>i < length (ts_records u). length (tr_data (ts_records t ! i)) =
         (if i \<in> set xs then kMaxPayloadSize else length (tr_data (ts_records u ! i)))) \<and>
      length (ts_present t) = length (ts_present u)" for u xs
  proof (induction xs arbitrary: u)
    case (Cons x xs)
    have "presentIds (?f u x) = presentIds u - {x}"
      by (cases "x < length (ts_present u)") (auto simp: presentIds_def nth_list_update split: if_splits)
    then show ?case
      using Cons.IH [of "?f u x"]
      by (auto simp: Let_def nth_list_update emptyTelemetryRecord_def)
  qed simp
  define t where "t = foldl ?f ts [1..<100]"
  have t: "length (ts_records t) = 100" "presentIds t = {}" "ts_mutex t" "ts_updates t = ts_updates ts"
    "\<forall>i < 100. length (tr_data (ts_records t ! i)) = kMaxPayloadSize" "length (ts_present t) = 100"
  proof -
    have "presentIds t = presentIds ts - {1..<100}" using step [of ts "[1..<100]"] by (simp add: t_def Let_def)
    moreover have "presentIds ts \<subseteq> {1..<100}" using presentIds_range [OF ok] by fastforce
    ultimately show "presentIds t = {}" by blast
    have z: "length (tr_data (ts_records ts ! i)) = 61" if "i < 100" for i
      using ok that by (auto simp: telemetryOk_def)
    show "\<forall>i < 100. length (tr_data (ts_records t ! i)) = kMaxPayloadSize"
      using step [of ts "[1..<100]"] ok z by (auto simp: t_def Let_def telemetryOk_def)
  qed (use step [of ts "[1..<100]"] ok mutex in \<open>simp_all add: t_def Let_def telemetryOk_def\<close>)
  have run: "clearTelemetry ts = t\<lparr>ts_nodesSeen := 0, ts_lastNodeId := 0\<rparr>"
    using mutex by (simp add: clearTelemetry_def t_def Let_def)
  have p: "presentIds (t\<lparr>ts_nodesSeen := 0, ts_lastNodeId := 0\<rparr>) = {}"
    using t(2) by (simp add: presentIds_def)
  show ?thesis unfolding run using t p by (simp add: telemetryOk_def lastOk_def)
qed

subsection \<open>The specification: readings, the most recent first\<close>

text \<open>
  What readers may rely on: a list of the nodes heard, each with its latest reading, the most recent
  first.  A frame moves its node to the front, whatever order the nodes were heard in before.
\<close>

type_synonym reading = "u16 \<times> s16 \<times> u64 \<times> bytes"

definition readingOf :: "TelemetryRecord \<Rightarrow> reading" where
  "readingOf r = (tr_profileId r, tr_rssi r, tr_receivedAtUnixMs r, recordPayload r)"

datatype telemetry_event =
    FrameAccepted "u8 \<Rightarrow> u16 option" u64 ReceivedFrame
  | NodeErased u8
  | StoreCleared

definition runTelemetry :: "telemetry_store \<Rightarrow> telemetry_event \<Rightarrow> telemetry_store" where
  "runTelemetry ts e = (case e of
     FrameAccepted activeProfile unixTimeMs frame \<Rightarrow> fst (acceptTelemetry activeProfile unixTimeMs ts frame)
   | NodeErased n \<Rightarrow> eraseTelemetry ts n
   | StoreCleared \<Rightarrow> clearTelemetry ts)"

definition dropNode :: "u8 \<Rightarrow> (u8 \<times> reading) list \<Rightarrow> (u8 \<times> reading) list" where
  "dropNode n l = filter (\<lambda>(m, _). m \<noteq> n) l"

definition specTelemetry :: "(u8 \<times> reading) list \<Rightarrow> telemetry_event \<Rightarrow> (u8 \<times> reading) list" where
  "specTelemetry l e = (case e of
     FrameAccepted activeProfile unixTimeMs frame \<Rightarrow>
       let n = ucast (rf_senderId frame) in
       (case activeProfile n of
          Some profileId \<Rightarrow>
            if rf_senderId frame = ucast n \<and> knownId n \<and> unat (rf_size frame) \<le> kMaxPayloadSize
            then (n, profileId, rf_rssi frame, unixTimeMs, take (unat (rf_size frame)) (rf_data frame)) # dropNode n l
            else l
        | None \<Rightarrow> l)
   | NodeErased n \<Rightarrow> dropNode n l
   | StoreCleared \<Rightarrow> [])"

definition wellFormedEvent :: "telemetry_event \<Rightarrow> bool" where
  "wellFormedEvent e \<longleftrightarrow> (case e of FrameAccepted _ _ frame \<Rightarrow> length (rf_data frame) = kMaxPayloadSize | _ \<Rightarrow> True)"

text \<open>The store implements the list.\<close>

definition represents :: "telemetry_store \<Rightarrow> (u8 \<times> reading) list \<Rightarrow> bool" where
  "represents ts l \<longleftrightarrow> telemetryOk ts \<and> ts_mutex ts \<and> distinct (map fst l) \<and>
     presentIds ts = (unat \<circ> fst) ` set l \<and>
     (\<forall>(n, r) \<in> set l. readingOf (ts_records ts ! unat n) = r) \<and>
     sorted_wrt (\<lambda>a b. sequenceAt ts (unat (fst b)) < sequenceAt ts (unat (fst a))) l"

lemma presentIds_iff: "represents ts l \<Longrightarrow> unat n \<in> presentIds ts \<longleftrightarrow> n \<in> fst ` set l"
  by (auto simp: represents_def image_iff word_unat_eq_iff)

lemma represents_find:
  assumes r: "represents ts l"
  shows "map_option readingOf (findTelemetry ts n) = map_of l n"
proof (cases "n \<in> fst ` set l")
  case True
  then obtain x where "(n, x) \<in> set l" by auto
  moreover from this have "map_of l n = Some x" using r by (auto simp: represents_def)
  ultimately show ?thesis
    using r True presentIds_iff [OF r, of n] by (auto simp: represents_def findTelemetry_iff)
next
  case False
  then have "map_of l n = None" by (auto simp: map_of_eq_None_iff)
  then show ?thesis using r False presentIds_iff [OF r, of n] by (auto simp: represents_def findTelemetry_iff)
qed

lemma represents_snapshot:
  assumes r: "represents ts l"
  shows "unat (tn_nodesSeen (telemetrySnapshot ts)) = length l"
    and "map_option (\<lambda>r. (tr_nodeId r, readingOf r)) (tn_last (telemetrySnapshot ts)) =
      (case l of [] \<Rightarrow> None | x # _ \<Rightarrow> Some x)"
proof -
  have ok: "telemetryOk ts" and m: "ts_mutex ts" and ids: "presentIds ts = (unat \<circ> fst) ` set l"
    using r by (simp_all add: represents_def)
  have "card (presentIds ts) = card (fst ` set l)"
    unfolding ids image_comp [symmetric] by (rule card_image) (auto simp: inj_on_def word_unat_eq_iff)
  also have "\<dots> = length l" using r distinct_card [of "map fst l"] by (simp add: represents_def)
  finally show "unat (tn_nodesSeen (telemetrySnapshot ts)) = length l"
    using ok m by (simp add: telemetrySnapshot_def telemetryOk_def)
  show "map_option (\<lambda>r. (tr_nodeId r, readingOf r)) (tn_last (telemetrySnapshot ts)) =
      (case l of [] \<Rightarrow> None | x # _ \<Rightarrow> Some x)"
  proof (cases l)
    case Nil
    then have "ts_lastNodeId ts = 0" using ok ids by (simp add: telemetryOk_def lastOk_def)
    then show ?thesis using Nil m by (simp add: telemetrySnapshot_def)
  next
    case (Cons x xs)
    obtain n rd where x: "x = (n, rd)" by (cases x)
    let ?w = "ts_lastNodeId ts"
    have w: "unat ?w \<in> presentIds ts" "\<forall>i \<in> presentIds ts. sequenceAt ts i \<le> sequenceAt ts (unat ?w)"
      using ok ids Cons by (auto simp: telemetryOk_def lastOk_def split: if_splits)
    have n: "unat n \<in> presentIds ts" using ids Cons x by auto
    have "?w = n"
    proof (rule ccontr)
      assume "?w \<noteq> n"
      with w(1) presentIds_iff [OF r, of ?w] Cons x have "?w \<in> fst ` set xs" by auto
      then have "sequenceAt ts (unat ?w) < sequenceAt ts (unat n)"
        using r Cons x by (auto simp: represents_def)
      with w(2) n show False by (auto dest!: bspec [of _ _ "unat n"])
    qed
    moreover have "telemetryRecordOk (unat n) (ts_records ts ! unat n)" "n \<noteq> 0" "ts_present ts ! unat n"
      using ok n by (auto simp: telemetryOk_def) (simp add: presentIds_def)
    moreover have "readingOf (ts_records ts ! unat n) = rd" using r Cons x by (simp add: represents_def)
    ultimately show ?thesis
      using Cons x m by (simp add: telemetrySnapshot_def telemetryRecordOk_def)
  qed
qed

lemma dropNode_set [simp]: "set (dropNode n l) = {x \<in> set l. fst x \<noteq> n}"
  by (auto simp: dropNode_def)

lemma dropNode_distinct: "distinct (map fst l) \<Longrightarrow> distinct (map fst (dropNode n l))"
  by (simp add: dropNode_def distinct_map_filter)

lemma represents_drop:
  assumes r: "represents ts l" and ok: "telemetryOk ts'" "ts_mutex ts'"
    and ids: "presentIds ts' = presentIds ts - {unat n}"
    and recs: "\<forall>i. i \<noteq> unat n \<longrightarrow> ts_records ts' ! i = ts_records ts ! i"
  shows "represents ts' (dropNode n l)"
proof -
  have same: "m \<noteq> n \<Longrightarrow> ts_records ts' ! unat m = ts_records ts ! unat m" for m
    using recs by (auto simp: word_unat_eq_iff)
  have seq: "m \<noteq> n \<Longrightarrow> sequenceAt ts' (unat m) = sequenceAt ts (unat m)" for m
    using same by (simp add: sequenceAt_def)
  have "sorted_wrt (\<lambda>a b. sequenceAt ts (unat (fst b)) < sequenceAt ts (unat (fst a))) (dropNode n l)"
    using r by (simp add: represents_def dropNode_def sorted_wrt_filter)
  then have "sorted_wrt (\<lambda>a b. sequenceAt ts' (unat (fst b)) < sequenceAt ts' (unat (fst a))) (dropNode n l)"
    by (rule sorted_wrt_mono_rel [rotated]) (auto simp: seq)
  moreover have "presentIds ts' = (unat \<circ> fst) ` set (dropNode n l)"
    using r ids by (auto simp: represents_def image_iff word_unat_eq_iff)
  ultimately show ?thesis
    using r ok same dropNode_distinct [of l n] by (auto simp: represents_def split: prod.splits)
qed

lemma represents_front:
  assumes r: "represents ts l" and ok: "telemetryOk ts'" "ts_mutex ts'"
    and ids: "presentIds ts' = insert (unat n) (presentIds ts)"
    and recs: "ts_records ts' = (ts_records ts)[unat n := x]" and last: "ts_lastNodeId ts' = n"
  shows "represents ts' ((n, readingOf x) # dropNode n l)"
proof -
  have i: "unat n < length (ts_records ts)"
    using ok(1) ids r by (auto simp: telemetryOk_def represents_def presentIds_def)
  have seq: "m \<noteq> n \<Longrightarrow> sequenceAt ts' (unat m) = sequenceAt ts (unat m)" for m
    using recs by (simp add: sequenceAt_def word_unat_eq_iff)
  have "sorted_wrt (\<lambda>a b. sequenceAt ts (unat (fst b)) < sequenceAt ts (unat (fst a))) (dropNode n l)"
    using r by (simp add: represents_def dropNode_def sorted_wrt_filter)
  then have sorted: "sorted_wrt (\<lambda>a b. sequenceAt ts' (unat (fst b)) < sequenceAt ts' (unat (fst a))) (dropNode n l)"
    by (rule sorted_wrt_mono_rel [rotated]) (auto simp: seq)
  have top: "sequenceAt ts' (unat m) < sequenceAt ts' (unat n)" if "m \<noteq> n" "unat m \<in> presentIds ts'" for m
  proof -
    have "sequenceAt ts' (unat m) \<le> sequenceAt ts' (unat n)"
      using ok(1) last that(2) by (auto simp: telemetryOk_def lastOk_def split: if_splits)
    moreover have "sequenceAt ts' (unat m) \<noteq> sequenceAt ts' (unat n)"
    proof
      assume "sequenceAt ts' (unat m) = sequenceAt ts' (unat n)"
      moreover have "inj_on (sequenceAt ts') (presentIds ts')" using ok(1) by (simp add: telemetryOk_def)
      ultimately have "unat m = unat n" using inj_onD [of _ _ "unat m" "unat n"] that(2) ids by blast
      with that(1) show False by (simp add: word_unat_eq_iff)
    qed
    ultimately show ?thesis by simp
  qed
  have mem: "m \<in> fst ` set l \<Longrightarrow> unat m \<in> presentIds ts'" for m
    using ids presentIds_iff [OF r, of m] by simp
  have all: "presentIds ts' = (unat \<circ> fst) ` set ((n, readingOf x) # dropNode n l)"
    using r ids by (auto simp: represents_def image_iff word_unat_eq_iff)
  have others: "\<forall>(m, y) \<in> set (dropNode n l). readingOf (ts_records ts' ! unat m) = y"
    using r recs by (auto simp: represents_def word_unat_eq_iff)
  have "represents ts' ((n, readingOf x) # dropNode n l) \<longleftrightarrow> True"
    unfolding represents_def
    using ok all others sorted r i recs dropNode_distinct [of l n] mem top
    by (auto simp: represents_def simp del: o_apply)
  then show ?thesis by simp
qed

lemma unat_low_byte: "unat (ucast (x :: u16) :: u8) = unat x mod 256"
  by (simp add: unsigned_ucast_eq unsigned_take_bit_eq take_bit_eq_mod)

lemma unat_widened: "unat (ucast (n :: u8) :: u16) = unat n"
proof -
  have "unat n < 2 ^ 8" using unsigned_less [of n, where ?'a = nat] by simp
  then show ?thesis by (simp add: unsigned_ucast_eq take_bit_nat_eq_self)
qed

lemma acceptTelemetry_gate:
  "snd (acceptTelemetry activeProfile unixTimeMs ts frame) \<longleftrightarrow> ts_mutex ts \<and>
     rf_senderId frame = ucast (ucast (rf_senderId frame) :: u8) \<and> knownId (ucast (rf_senderId frame)) \<and>
     unat (rf_size frame) \<le> kMaxPayloadSize \<and> activeProfile (ucast (rf_senderId frame)) \<noteq> None"
proof -
  let ?n = "ucast (rf_senderId frame) :: u8"
  have low: "unat ?n = unat (rf_senderId frame) mod 256" by (rule unat_low_byte)
  have "rf_senderId frame = ucast ?n \<longleftrightarrow> unat (rf_senderId frame) < 256"
    using unsigned_less [of ?n, where ?'a = nat] by (auto simp: word_unat_eq_iff unat_low_byte unat_widened)
  then have "\<not> (rf_senderId frame < 1 \<or> 99 < rf_senderId frame) \<longleftrightarrow>
      rf_senderId frame = ucast ?n \<and> knownId ?n"
    using low by (auto simp: knownId_def not_less word_le_nat_alt)
  then show ?thesis by (auto simp: acceptTelemetry_def Let_def split: option.splits)
qed

lemma represents_step:
  assumes r: "represents ts l" and wf: "wellFormedEvent e" and room: "unat (ts_updates ts) + 1 < 2 ^ 32"
  shows "represents (runTelemetry ts e) (specTelemetry l e) \<and>
    unat (ts_updates (runTelemetry ts e)) \<le> unat (ts_updates ts) + 1"
proof -
  have ok: "telemetryOk ts" and m: "ts_mutex ts" using r by (simp_all add: represents_def)
  show ?thesis
  proof (cases e)
    case (NodeErased n)
    then show ?thesis
      using eraseTelemetry_ok [OF ok m, of n] represents_drop [OF r, of "eraseTelemetry ts n" n]
      by (simp add: runTelemetry_def specTelemetry_def)
  next
    case StoreCleared
    then show ?thesis
      using clearTelemetry_ok [OF ok m] by (simp add: runTelemetry_def specTelemetry_def represents_def)
  next
    case (FrameAccepted activeProfile unixTimeMs frame)
    obtain ts' accepted where run: "acceptTelemetry activeProfile unixTimeMs ts frame = (ts', accepted)"
      by (cases "acceptTelemetry activeProfile unixTimeMs ts frame")
    have len: "length (rf_data frame) = kMaxPayloadSize" using wf FrameAccepted by (simp add: wellFormedEvent_def)
    note facts = acceptTelemetry_ok [OF ok run room len]
    let ?n = "ucast (rf_senderId frame) :: u8"
    have gate: "accepted \<longleftrightarrow> rf_senderId frame = ucast ?n \<and> knownId ?n \<and>
        unat (rf_size frame) \<le> kMaxPayloadSize \<and> activeProfile ?n \<noteq> None"
      using run m acceptTelemetry_gate [of activeProfile unixTimeMs ts frame] by simp
    show ?thesis
    proof (cases accepted)
      case False
      then have "specTelemetry l e = l" "ts' = ts"
        using gate facts FrameAccepted by (auto simp: specTelemetry_def Let_def split: option.splits)
      then show ?thesis using r run FrameAccepted by (simp add: runTelemetry_def)
    next
      case True
      then obtain n profileId x where a: "rf_senderId frame = ucast n" "activeProfile n = Some profileId"
        "ts_updates ts' = ts_updates ts + 1" "ts_lastNodeId ts' = n"
        "presentIds ts' = insert (unat n) (presentIds ts)" "ts_records ts' = (ts_records ts)[unat n := x]"
        "tr_nodeId x = n" "tr_profileId x = profileId" "tr_rssi x = rf_rssi frame"
        "tr_receivedAtUnixMs x = unixTimeMs" "recordPayload x = take (unat (rf_size frame)) (rf_data frame)"
        and ok': "telemetryOk ts'" "ts_mutex ts'"
        using facts m by blast
      have n: "?n = n" using unsigned_less [of n, where ?'a = nat] by (simp add: a(1) word_unat_eq_iff unat_low_byte unat_widened)
      have "readingOf x = (profileId, rf_rssi frame, unixTimeMs, take (unat (rf_size frame)) (rf_data frame))"
        using a by (simp add: readingOf_def)
      then have "specTelemetry l e = (n, readingOf x) # dropNode n l"
        using FrameAccepted gate True n a by (simp add: specTelemetry_def Let_def)
      moreover have "runTelemetry ts e = ts'" using FrameAccepted run by (simp add: runTelemetry_def)
      moreover have "represents ts' ((n, readingOf x) # dropNode n l)"
        using represents_front [OF r ok' a(5,6,4)] .
      moreover have "unat (ts_updates ts') \<le> unat (ts_updates ts) + 1"
        using a(3) by (simp add: unat_word_ariths)
      ultimately show ?thesis by simp
    qed
  qed
qed

lemma represents_run:
  assumes "represents ts l" "\<forall>e \<in> set es. wellFormedEvent e" "unat (ts_updates ts) + length es < 2 ^ 32"
  shows "represents (foldl runTelemetry ts es) (foldl specTelemetry l es)"
  using assms
proof (induction es arbitrary: ts l)
  case (Cons e es)
  have "represents (runTelemetry ts e) (specTelemetry l e) \<and>
    unat (ts_updates (runTelemetry ts e)) \<le> unat (ts_updates ts) + 1"
    by (rule represents_step) (use Cons.prems in auto)
  then show ?case using Cons.IH Cons.prems by simp
qed simp

lemma represents_new: "represents (newTelemetryStore\<lparr>ts_mutex := True\<rparr>) []"
proof -
  have "presentIds (newTelemetryStore\<lparr>ts_mutex := True\<rparr>) = {}"
    by (auto simp: presentIds_def newTelemetryStore_def)
  then show ?thesis using newTelemetryStore_ok by (simp add: represents_def)
qed

end
