(* ===== verification/Power_Service.thy ===== *)
theory Power_Service
  imports Telemetry_Store Power_Control
begin

text \<open>
  gateway/src/PowerControlService.cpp: one controller per node, and what the radio task may read of
  it; and the part of gateway/src/main.cpp that feeds it.  The tables are indexed by node id, which
  every operation checks first.  The critical section makes each operation a single step.
\<close>

abbreviation (input) kNoTarget :: u8 where "kNoTarget \<equiv> 0xFF"

record power_service =
  pw_states :: "u8 \<Rightarrow> ControlState"
  pw_desired :: "u8 \<Rightarrow> u8"
  pw_fallbackObserved :: "u8 \<Rightarrow> bool"

definition newPowerService :: power_service where
  "newPowerService = \<lparr>pw_states = (\<lambda>_. initialControl), pw_desired = (\<lambda>_. 0),
     pw_fallbackObserved = (\<lambda>_. False)\<rparr>"

subsection \<open>Operations\<close>

definition validNode :: "u8 \<Rightarrow> bool" where
  "validNode nodeId \<longleftrightarrow> nodeId \<ge> of_nat kFirstNodeId \<and> nodeId \<le> of_nat kLastNodeId"

definition publish :: "u8 \<Rightarrow> u8 \<Rightarrow> power_service \<Rightarrow> power_service" where
  "publish nodeId level pw = pw\<lparr>pw_desired := (pw_desired pw)(nodeId := if level = kNoLevel then 0 else level + 1)\<rparr>"

text \<open>\<open>policyOf\<close> is \<open>registry_store::radioPolicy\<close>: the ceiling and the policy of an active node.\<close>

definition powerObserve :: "(u8 \<Rightarrow> (u8 \<times> u8) option) \<Rightarrow> TelemetryRecord \<Rightarrow> power_service \<Rightarrow> power_service" where
  "powerObserve policyOf record pw =
     (if \<not> validNode (tr_nodeId record) then pw
      else case decodeTelemetry (Some (recordPayload record)) of
        Inl _ \<Rightarrow> pw
      | Inr view \<Rightarrow>
          (case policyOf (tr_nodeId record) of
             None \<Rightarrow> pw
           | Some (ceiling, policy) \<Rightarrow>
               let report = \<lparr>rp_level = radioPowerLevel (tv_radioState view),
                      rp_fallback = tv_radioState view AND kRadioFallback \<noteq> 0, rp_rssi = tr_rssi record\<rparr>;
                   (state, level) = observe (pw_states pw (tr_nodeId record)) policy ceiling report;
                   pw = pw\<lparr>pw_states := (pw_states pw)(tr_nodeId record := state)\<rparr>;
                   pw = publish (tr_nodeId record) level pw
               in pw\<lparr>pw_fallbackObserved := (pw_fallbackObserved pw)(tr_nodeId record := rp_fallback report)\<rparr>))"

definition policyChanged :: "u8 \<Rightarrow> u8 \<Rightarrow> u8 \<Rightarrow> power_service \<Rightarrow> power_service" where
  "policyChanged nodeId policy ceiling pw =
     (if \<not> validNode nodeId then pw
      else
        let (state, level) = changePolicy (pw_states pw nodeId) policy ceiling
        in publish nodeId level (pw\<lparr>pw_states := (pw_states pw)(nodeId := state)\<rparr>))"

definition powerTarget :: "power_service \<Rightarrow> u8 \<Rightarrow> u8 \<Rightarrow> u8 option" where
  "powerTarget pw nodeId radioState =
     (if \<not> validNode nodeId then None
      else if radioState AND kRadioFallback \<noteq> 0 \<and> \<not> pw_fallbackObserved pw nodeId then None
      else if pw_desired pw nodeId = 0 then None
      else
        let level = pw_desired pw nodeId - 1
        in if level \<noteq> radioPowerLevel radioState then Some level else None)"

definition desiredLevel :: "power_service \<Rightarrow> u8 \<Rightarrow> u8" where
  "desiredLevel pw nodeId =
     (if \<not> validNode nodeId then kNoTarget
      else if pw_desired pw nodeId = 0 then kNoTarget else pw_desired pw nodeId - 1)"

definition forget :: "u8 \<Rightarrow> power_service \<Rightarrow> power_service" where
  "forget nodeId pw =
     (if \<not> validNode nodeId then pw
      else pw\<lparr>pw_states := (pw_states pw)(nodeId := initialControl), pw_desired := (pw_desired pw)(nodeId := 0),
             pw_fallbackObserved := (pw_fallbackObserved pw)(nodeId := False)\<rparr>)"

definition powerClear :: "power_service \<Rightarrow> power_service" where
  "powerClear pw = foldl (\<lambda>pw i. forget (of_nat i) pw) pw [kFirstNodeId..<kLastNodeId + 1]"

subsection \<open>main.cpp: the frames the main loop drains\<close>

text \<open>
  One frame: a stored one is read back from the store, published to the web clients (the third
  component lists the records handed to \<open>web_server::publishTelemetry\<close>) and fed to the controller.
\<close>

definition storeTelemetry ::
  "(u8 \<Rightarrow> u16 option) \<Rightarrow> (u8 \<Rightarrow> (u8 \<times> u8) option) \<Rightarrow> u64 \<Rightarrow> ReceivedFrame \<Rightarrow>
   telemetry_store \<times> power_service \<times> TelemetryRecord list \<Rightarrow>
   telemetry_store \<times> power_service \<times> TelemetryRecord list" where
  "storeTelemetry activeProfile policyOf unixTimeMs telemetry = (\<lambda>(ts, pw, published).
     let (ts, stored) = acceptTelemetry activeProfile unixTimeMs ts telemetry in
     if stored
     then case findTelemetry ts (ucast (rf_senderId telemetry)) of
            None \<Rightarrow> (ts, pw, published)
          | Some record \<Rightarrow> (ts, powerObserve policyOf record pw, published @ [record])
     else (ts, pw, published))"

text \<open>At most \<open>n\<close> frames of the radio's queue; the loop takes 16.\<close>

fun drainTelemetry ::
  "(u8 \<Rightarrow> u16 option) \<Rightarrow> (u8 \<Rightarrow> (u8 \<times> u8) option) \<Rightarrow> u64 \<Rightarrow> nat \<Rightarrow> radio_service \<Rightarrow>
   telemetry_store \<times> power_service \<times> TelemetryRecord list \<Rightarrow>
   radio_service \<times> telemetry_store \<times> power_service \<times> TelemetryRecord list" where
  "drainTelemetry activeProfile policyOf unixTimeMs 0 st stores = (st, stores)"
| "drainTelemetry activeProfile policyOf unixTimeMs (Suc n) st stores =
     (case takeTelemetry st of
        (st, None) \<Rightarrow> (st, stores)
      | (st, Some telemetry) \<Rightarrow> drainTelemetry activeProfile policyOf unixTimeMs n st
          (storeTelemetry activeProfile policyOf unixTimeMs telemetry stores))"

subsection \<open>What the radio task may ask for\<close>

lemma validNode_known: "validNode n \<longleftrightarrow> knownId n"
  by (simp only: validNode_def knownId_def not_less de_Morgan_disj)

lemma powerTarget_desired:
  "powerTarget pw n radioState = Some level \<Longrightarrow>
     desiredLevel pw n = level \<and> level \<noteq> radioPowerLevel radioState \<and> level \<noteq> kNoTarget"
  by (auto simp: powerTarget_def desiredLevel_def Let_def split: if_splits)

text \<open>A level at most the ceiling of every policy applied so far.\<close>

definition desiredBelow :: "u8 \<Rightarrow> power_service \<Rightarrow> bool" where
  "desiredBelow c pw \<longleftrightarrow> (\<forall>n. pw_desired pw n \<noteq> 0 \<longrightarrow> pw_desired pw n \<le> c + 1)"

lemma powerTarget_below:
  "desiredBelow c pw \<Longrightarrow> c \<le> 31 \<Longrightarrow> powerTarget pw n radioState = Some level \<Longrightarrow> level \<le> c"
proof -
  assume b: "desiredBelow c pw" and c: "c \<le> 31" and t: "powerTarget pw n radioState = Some level"
  from t have d: "pw_desired pw n \<noteq> 0" "level = pw_desired pw n - 1"
    by (auto simp: powerTarget_def Let_def split: if_splits)
  have "pw_desired pw n \<le> c + 1" using b d by (simp add: desiredBelow_def)
  moreover have "unat (c + 1) = unat c + 1" using c by (simp add: unat_word_ariths word_le_nat_alt)
  moreover have "unat (pw_desired pw n - 1) = unat (pw_desired pw n) - 1" using d(1) by (rule unat_minus_one)
  ultimately show "level \<le> c" using d by (simp add: word_le_nat_alt)
qed

lemma publish_below: "desiredBelow c pw \<Longrightarrow> level = kNoLevel \<or> level \<le> c \<Longrightarrow> c \<le> 31 \<Longrightarrow> desiredBelow c (publish n level pw)"
proof -
  assume b: "desiredBelow c pw" and l: "level = kNoLevel \<or> level \<le> c" and c: "c \<le> 31"
  have "level \<le> c \<Longrightarrow> level + 1 \<le> c + 1"
    using c by (simp add: word_le_nat_alt unat_word_ariths)
  then show ?thesis using b l by (auto simp: publish_def desiredBelow_def)
qed

lemma changePolicy_level: "snd (changePolicy s p c) = kNoLevel \<or> snd (changePolicy s p c) \<le> c"
  by (auto simp: changePolicy_def Let_def)

datatype power_event =
    Observed "u8 \<Rightarrow> (u8 \<times> u8) option" TelemetryRecord
  | PolicyChanged u8 u8 u8
  | Forgotten u8
  | AllForgotten

definition runPower :: "power_service \<Rightarrow> power_event \<Rightarrow> power_service" where
  "runPower pw e = (case e of
     Observed policyOf record \<Rightarrow> powerObserve policyOf record pw
   | PolicyChanged nodeId policy ceiling \<Rightarrow> policyChanged nodeId policy ceiling pw
   | Forgotten nodeId \<Rightarrow> forget nodeId pw
   | AllForgotten \<Rightarrow> powerClear pw)"

definition ceilingsWithin :: "u8 \<Rightarrow> power_event \<Rightarrow> bool" where
  "ceilingsWithin c e \<longleftrightarrow> (case e of
     Observed policyOf record \<Rightarrow> (case policyOf (tr_nodeId record) of None \<Rightarrow> True | Some (ceiling, _) \<Rightarrow> ceiling \<le> c)
   | PolicyChanged _ _ ceiling \<Rightarrow> ceiling \<le> c
   | _ \<Rightarrow> True)"

lemma forget_below: "desiredBelow c pw \<Longrightarrow> desiredBelow c (forget n pw)"
  by (simp add: forget_def desiredBelow_def)

lemma desiredBelow_run:
  assumes c: "c \<le> 31" and b: "desiredBelow c pw" and e: "ceilingsWithin c e"
  shows "desiredBelow c (runPower pw e)"
proof (cases e)
  case (Observed policyOf r)
  have keep: "desiredBelow c (publish n level (pw\<lparr>pw_states := f\<rparr>)\<lparr>pw_fallbackObserved := g\<rparr>)" if "level \<le> c" for n level f g
    using publish_below [OF b disjI2 [OF that] c, of n] by (simp add: desiredBelow_def publish_def)
  have "snd (observe s p k r) \<le> c" if "k \<le> c" for s p k r
    using observe_le_ceiling that by (meson order_trans)
  then show ?thesis
    using b e Observed keep
    by (simp add: runPower_def powerObserve_def ceilingsWithin_def Let_def split: sum.split option.splits prod.splits)
       (metis snd_conv)
next
  case (PolicyChanged n p k)
  have "desiredBelow c (publish n level (pw\<lparr>pw_states := f\<rparr>))" if "level = kNoLevel \<or> level \<le> c" for level f
    using publish_below [OF b that c, of n] by (simp add: desiredBelow_def publish_def)
  moreover have "snd (changePolicy s p k) = kNoLevel \<or> snd (changePolicy s p k) \<le> c" for s
    using changePolicy_level [of s p k] e PolicyChanged by (auto simp: ceilingsWithin_def)
  ultimately show ?thesis
    using b PolicyChanged by (simp add: runPower_def policyChanged_def split: prod.splits) (metis snd_conv)
next
  case (Forgotten n)
  then show ?thesis using forget_below [OF b] by (simp add: runPower_def)
next
  case AllForgotten
  have "desiredBelow c (foldl (\<lambda>pw i. forget (of_nat i) pw) pw xs)" for xs :: "nat list"
    using b by (induction xs arbitrary: pw) (simp_all add: forget_below)
  then show ?thesis using AllForgotten by (simp add: runPower_def powerClear_def)
qed

end
