(* ===== verification/Command_Service.thy ===== *)
theory Command_Service
  imports Gateway_Commissioning Command_Book Telemetry_Store
begin

text \<open>
  gateway/src/CommandService.cpp: the command book of the gateway, the sessions that deliver its
  commands and the results that complete them.  The mutex makes each operation a single step;
  \<open>guarded\<close> stands for the recovery guard (held and not blocked).  A handler works on
  \<open>command_gateway\<close>, the service with the services it calls.
\<close>

record Delivery =
  dv_sessionNonce :: u32
  dv_commandId :: u16

definition noDelivery :: Delivery where
  "noDelivery = \<lparr>dv_sessionNonce = 0, dv_commandId = 0\<rparr>"

record command_counters =
  ct_sessions :: u32
  ct_delivered :: u32
  ct_noCommandReplies :: u32
  ct_resultsRecorded :: u32
  ct_duplicateResults :: u32
  ct_rejectedFrames :: u32
  ct_storageErrors :: u32

text \<open>\<open>deliveries\<close> is indexed by node id; every id that reaches it is below 100.\<close>

record 's command_service =
  cv_store :: "CommandBook dual_store"
  cv_flash :: 's
  cv_book :: CommandBook
  cv_deliveries :: "u8 \<Rightarrow> Delivery"
  cv_mutex :: bool
  cv_initialized :: bool
  cv_pendingNodeIds :: "u32 list"
  cv_publishedGeneration :: u32
  cv_publishedRecords :: u8
  cv_publishedPending :: u8
  cv_counters :: command_counters

definition newCommandService :: "'s \<Rightarrow> 's command_service" where
  "newCommandService flash = \<lparr>
     cv_store = \<lparr>ds_current = defaultCommandBook, ds_generation = 0, ds_activeSlot = None, ds_loaded = False\<rparr>,
     cv_flash = flash, cv_book = emptyBook, cv_deliveries = (\<lambda>_. noDelivery), cv_mutex = False,
     cv_initialized = False, cv_pendingNodeIds = replicate 4 0, cv_publishedGeneration = 0,
     cv_publishedRecords = 0, cv_publishedPending = 0,
     cv_counters = \<lparr>ct_sessions = 0, ct_delivered = 0, ct_noCommandReplies = 0, ct_resultsRecorded = 0,
       ct_duplicateResults = 0, ct_rejectedFrames = 0, ct_storageErrors = 0\<rparr>\<rparr>"

datatype CommandQueueResult =
    QR_Queued | QR_NodeNotFound | QR_Unsupported | QR_InvalidArguments | QR_Busy | QR_CapacityReached
  | QR_StorageError | QR_NotInitialized

datatype CancelResult = CR_Cancelled | CR_NotFound | CR_StorageError | CR_NotInitialized

record CommandSnapshot =
  cz_ready :: bool
  cz_generation :: u32
  cz_records :: u8
  cz_pending :: u8
  cz_counters :: command_counters

subsection \<open>The published view\<close>

definition countCommand :: "(command_counters \<Rightarrow> command_counters) \<Rightarrow> 's command_service \<Rightarrow> 's command_service" where
  "countCommand f sv = sv\<lparr>cv_counters := f (cv_counters sv)\<rparr>"

definition commandsLock :: "'s command_service \<Rightarrow> bool" where
  "commandsLock sv \<longleftrightarrow> cv_initialized sv \<and> cv_mutex sv"

text \<open>The loop over the records in use: the words of the bitmap and the number of pending ones.\<close>

definition pendingWords :: "CommandRecord list \<Rightarrow> u32 list \<times> u8" where
  "pendingWords rs =
     foldl (\<lambda>(words, pending) r.
         if cm_state r \<noteq> CommandPending then (words, pending)
         else let k = unat (cm_nodeId r) div 32
              in (words[k := words ! k OR push_bit (unat (cm_nodeId r) mod 32) 1], pending + 1))
       (replicate 4 0, 0) rs"

definition publishPending :: "'s command_service \<Rightarrow> 's command_service" where
  "publishPending sv =
     sv\<lparr>cv_pendingNodeIds := fst (pendingWords (usedCommands (cv_book sv))),
        cv_publishedGeneration := ds_generation (cv_store sv),
        cv_publishedRecords := cb_count (cv_book sv),
        cv_publishedPending := snd (pendingWords (usedCommands (cv_book sv)))\<rparr>"

definition commitCandidate :: "'s slot_ops \<Rightarrow> 's command_service \<Rightarrow> CommandBook \<Rightarrow> 's command_service \<times> bool" where
  "commitCandidate ops sv candidate =
     (let (store, flash, saved) = storeSave ops commandsCodec (cv_store sv) (cv_flash sv) candidate;
          sv = sv\<lparr>cv_store := store, cv_flash := flash\<rparr>
      in if \<not> saved then (sv, False) else (publishPending (sv\<lparr>cv_book := candidate\<rparr>), True))"

text \<open>\<open>esp_random\<close> yields the given values; None when all of them are zero.\<close>

fun randomCommandId :: "u32 list \<Rightarrow> u16 option" where
  "randomCommandId [] = None"
| "randomCommandId (r # rs) = (if (ucast r :: u16) = 0 then randomCommandId rs else Some (ucast r))"

definition hasPending :: "'s command_service \<Rightarrow> u8 \<Rightarrow> bool" where
  "hasPending sv nodeId =
     (if nodeId < of_nat kFirstNodeId \<or> nodeId > of_nat kLastNodeId then False
      else
        let word = cv_pendingNodeIds sv ! (unat nodeId div 32)
        in word AND push_bit (unat nodeId mod 32) 1 \<noteq> 0)"

subsection \<open>Sessions\<close>

record 's command_gateway =
  cg_commands :: "'s command_service"
  cg_registry :: "'s registry_service"
  cg_radio :: radio_service
  cg_telemetry :: telemetry_store

record 's CommandEnv =
  cx_commandOps :: "'s slot_ops"
  cx_registryOps :: "'s slot_ops"
  cx_guarded :: bool
  cx_allocated :: bool
  cx_unixTimeMs :: u64

definition countOn ::
  "(command_counters \<Rightarrow> command_counters) \<Rightarrow> 's command_gateway \<Rightarrow> 's command_gateway" where
  "countOn f g = g\<lparr>cg_commands := countCommand f (cg_commands g)\<rparr>"

abbreviation (input) "commandRejected \<equiv> countOn (ct_rejectedFrames_update (\<lambda>n. n + 1))"
abbreviation (input) "commandStorageError \<equiv> countOn (ct_storageErrors_update (\<lambda>n. n + 1))"

definition sendNoCommand :: "u8 \<Rightarrow> u32 \<Rightarrow> 's command_gateway \<Rightarrow> 's command_gateway" where
  "sendNoCommand nodeId sessionNonce g =
     (let frame = zeros kCommandReadySize;
          frame = (case encodeNoCommand sessionNonce (Some frame) of Inl _ \<Rightarrow> frame | Inr bs \<Rightarrow> bs);
          (radio, sent) = radioSend (cg_radio g) (ucast nodeId) (Some frame) False
      in countOn (ct_noCommandReplies_update (\<lambda>n. n + 1)) (g\<lparr>cg_radio := radio\<rparr>))"

definition commandFrom :: "CommandRecord \<Rightarrow> u32 \<Rightarrow> Command" where
  "commandFrom record sessionNonce =
     \<lparr>cmd_sessionNonce = sessionNonce, cmd_commandId = cm_commandId record, cmd_type = cm_type record,
      cmd_argumentSize = cm_argumentSize record, cmd_arguments = cm_arguments record\<rparr>"

text \<open>The record that a session of the node delivers, if any.\<close>

definition deliverable :: "u8 \<Rightarrow> 's command_gateway \<Rightarrow> CommandRecord option" where
  "deliverable nodeId g =
     (case (activeIdentity (cg_registry g) nodeId, findCommand (cv_book (cg_commands g)) nodeId) of
        (Some (deviceUid, _), Some record) \<Rightarrow>
          if commandsLock (cg_commands g) \<and> cm_state record = CommandPending \<and> cm_deviceUid record = deviceUid
          then Some record else None
      | _ \<Rightarrow> None)"

definition handleCommandReady :: "ReceivedFrame \<Rightarrow> 's command_gateway \<Rightarrow> 's command_gateway" where
  "handleCommandReady received g =
     (case decodeCommandReady (frameBytes received) of
        Inl _ \<Rightarrow> commandRejected g
      | Inr sessionNonce \<Rightarrow>
          let g = countOn (ct_sessions_update (\<lambda>n. n + 1)) g;
              nodeId = ucast (rf_senderId received) :: u8
          in if \<not> hasPending (cg_commands g) nodeId then sendNoCommand nodeId sessionNonce g
             else case deliverable nodeId g of
               None \<Rightarrow> sendNoCommand nodeId sessionNonce g
             | Some record \<Rightarrow>
                 let command = commandFrom record sessionNonce;
                     sv = cg_commands g;
                     g = g\<lparr>cg_commands := sv\<lparr>cv_deliveries := (cv_deliveries sv)(nodeId :=
                           \<lparr>dv_sessionNonce = sessionNonce, dv_commandId = cm_commandId record\<rparr>)\<rparr>\<rparr>
                 in case encodeCommand command (Some (zeros kMaxCommandSize)) of
                      Inl _ \<Rightarrow> sendNoCommand nodeId sessionNonce g
                    | Inr frame \<Rightarrow>
                        let (radio, sent) = radioSend (cg_radio g) (ucast nodeId)
                              (Some (take (commandFrameSize command) frame)) False
                        in countOn (ct_delivered_update (\<lambda>n. n + 1)) (g\<lparr>cg_radio := radio\<rparr>))"

text \<open>Whether the result may be recorded, and whether the profile has changed.\<close>

definition applyReadInfo ::
  "'s CommandEnv \<Rightarrow> u8 \<Rightarrow> bytes \<Rightarrow> CommandResult \<Rightarrow> 's command_gateway \<Rightarrow> 's command_gateway \<times> bool \<times> bool" where
  "applyReadInfo env nodeId deviceUid result g =
     (let applies = (case findCommand (cv_book (cg_commands g)) nodeId of
            None \<Rightarrow> False
          | Some record \<Rightarrow> \<not> (cm_state record \<noteq> CommandPending \<or> cm_commandId record \<noteq> cr_commandId result \<or>
              cm_type record \<noteq> commandTypeValue ReadInfo \<or> cr_status result \<noteq> Applied))
      in if \<not> applies then (g, True, False)
         else
           case decodeNodeInfo (Some (take (unat (cr_dataSize result)) (cr_data result))) of
             Inl _ \<Rightarrow> (commandRejected g, False, False)
           | Inr info \<Rightarrow>
               let (registry, commit, status) = updateInfoAndSave (cx_registryOps env) (cx_guarded env)
                     (cx_allocated env) (cg_registry g) nodeId (Some deviceUid) info;
                   g = g\<lparr>cg_registry := registry\<rparr>
               in if commit = RC_StorageError \<or> commit = RC_NotInitialized
                  then (commandStorageError g, False, False)
                  else (g, True, status = Some IN_ProfileChanged))"

text \<open>The switch over the status of \<open>complete\<close>.\<close>

definition recordResult ::
  "'s CommandEnv \<Rightarrow> u8 \<Rightarrow> bytes \<Rightarrow> CommandResult \<Rightarrow> 's command_gateway \<Rightarrow> 's command_gateway" where
  "recordResult env nodeId deviceUid result g =
     (let (candidate, status) = complete (cv_book (cg_commands g)) (Some deviceUid) nodeId (cr_commandId result)
            (cr_status result) (Some (cr_data result)) (unat (cr_dataSize result)) (cx_unixTimeMs env)
      in case status of
           CompleteDone \<Rightarrow>
             let (sv, recorded) = commitCandidate (cx_commandOps env) (cg_commands g) candidate;
                 g = g\<lparr>cg_commands := sv\<rparr>
             in if recorded then countOn (ct_resultsRecorded_update (\<lambda>n. n + 1)) g else commandStorageError g
         | CompleteRetry \<Rightarrow> g
         | CompleteNotPending \<Rightarrow> countOn (ct_duplicateResults_update (\<lambda>n. n + 1)) g
         | CompleteInvalidResult \<Rightarrow> commandRejected g)"

definition handleCommandResult :: "'s CommandEnv \<Rightarrow> ReceivedFrame \<Rightarrow> 's command_gateway \<Rightarrow> 's command_gateway" where
  "handleCommandResult env received g =
     (case decodeCommandResult (frameBytes received) emptyCommandResult of
        Inl _ \<Rightarrow> commandRejected g
      | Inr result \<Rightarrow>
          let nodeId = ucast (rf_senderId received) :: u8 in
          if \<not> cx_guarded env then commandRejected g
          else case activeIdentity (cg_registry g) nodeId of
            None \<Rightarrow> commandRejected g
          | Some (deviceUid, _) \<Rightarrow>
              if \<not> commandsLock (cg_commands g) then commandRejected g
              else
                let delivery = cv_deliveries (cg_commands g) nodeId in
                if dv_commandId delivery \<noteq> cr_commandId result \<or> dv_sessionNonce delivery \<noteq> cr_sessionNonce result
                then commandRejected g
                else
                  let (g, applied, profileChanged) = applyReadInfo env nodeId deviceUid result g in
                  if \<not> applied then g
                  else
                    let g = recordResult env nodeId deviceUid result g
                    in if profileChanged
                       then g\<lparr>cg_telemetry := eraseTelemetry (cg_telemetry g) nodeId\<rparr> else g)"

text \<open>One round of the task for a frame of the session queue.\<close>

definition commandTask :: "'s CommandEnv \<Rightarrow> 's command_gateway \<Rightarrow> 's command_gateway" where
  "commandTask env g =
     (case takeSession (cg_radio g) of
        (radio, None) \<Rightarrow> g
      | (radio, Some received) \<Rightarrow>
          let g = g\<lparr>cg_radio := radio\<rparr> in
          (case decodeFrame (frameBytes received) of
             Inl _ \<Rightarrow> g
           | Inr frame \<Rightarrow>
               if fv_kind frame = KCommandReady then handleCommandReady received g
               else if fv_kind frame = KCommandResult then handleCommandResult env received g
               else g))"

subsection \<open>Operations\<close>

text \<open>\<open>begin\<close> does not return while \<open>esp_random\<close> yields zero: None.\<close>

definition commandsBegin ::
  "'s slot_ops \<Rightarrow> bool \<Rightarrow> bool \<Rightarrow> u32 list \<Rightarrow> bool \<Rightarrow> bool \<Rightarrow> 's command_service \<Rightarrow>
   ('s command_service \<times> bool) option" where
  "commandsBegin ops mutexMade slotsReady randoms radioStarted taskMade sv =
     (let sv = sv\<lparr>cv_mutex := mutexMade\<rparr> in
      if \<not> mutexMade then Some (sv, False)
      else if \<not> slotsReady then Some (sv, False)
      else
        let (store, book, status) = storeLoad ops commandsCodec (cv_flash sv);
            book' = (if status \<noteq> Loaded
                     then map_option (\<lambda>v. book\<lparr>cb_nextCommandId := v\<rparr>) (randomCommandId randoms) else Some book)
        in case book' of
             None \<Rightarrow> None
           | Some book \<Rightarrow>
               let sv = (publishPending (sv\<lparr>cv_store := store, cv_book := book\<rparr>))\<lparr>cv_initialized := True\<rparr>
               in Some (sv, \<not> radioStarted \<or> taskMade))"

definition queueResultOf :: "QueueStatus \<Rightarrow> CommandQueueResult" where
  "queueResultOf status = (case status of
     QueueBusy \<Rightarrow> QR_Busy | QueueInvalidNode \<Rightarrow> QR_NodeNotFound
   | QueueInvalidArguments \<Rightarrow> QR_InvalidArguments | QueueCapacityReached \<Rightarrow> QR_CapacityReached)"

definition commandsQueue ::
  "'s slot_ops \<Rightarrow> bool \<Rightarrow> (u8 \<Rightarrow> (bytes \<times> u16) option) \<Rightarrow> u64 \<Rightarrow> 's command_service \<Rightarrow> u8 \<Rightarrow> CommandType \<Rightarrow>
   buffer \<Rightarrow> nat \<Rightarrow> 's command_service \<times> CommandQueueResult \<times> (CommandRecord \<times> bool) option" where
  "commandsQueue ops guarded identity unixTimeMs sv nodeId type arguments argumentSize =
     (if \<not> cv_initialized sv then (sv, QR_NotInitialized, None)
      else case identity nodeId of
        None \<Rightarrow> (sv, QR_NodeNotFound, None)
      | Some (deviceUid, profileId) \<Rightarrow>
          if \<not> profileSupportsCommand profileId type then (sv, QR_Unsupported, None)
          else if \<not> guarded \<or> \<not> commandsLock sv then (sv, QR_NotInitialized, None)
          else
            (case queue (cv_book sv) (Some deviceUid) nodeId (commandTypeValue type) arguments argumentSize unixTimeMs of
               (candidate, Inl status) \<Rightarrow> (sv, queueResultOf status, None)
             | (candidate, Inr commandId) \<Rightarrow>
                 let (sv, saved) = commitCandidate ops sv candidate in
                 if \<not> saved then (sv, QR_StorageError, None)
                 else (sv\<lparr>cv_deliveries := (cv_deliveries sv)(nodeId := noDelivery)\<rparr>, QR_Queued,
                       map_option (\<lambda>r. (r, False)) (findCommand (cv_book sv) nodeId))))"

definition commandsCancel ::
  "'s slot_ops \<Rightarrow> bool \<Rightarrow> 's command_service \<Rightarrow> u8 \<Rightarrow> 's command_service \<times> CancelResult" where
  "commandsCancel ops guarded sv nodeId =
     (if \<not> guarded \<or> \<not> commandsLock sv then (sv, CR_NotInitialized)
      else case cancel (cv_book sv) nodeId of
        (candidate, False) \<Rightarrow> (sv, CR_NotFound)
      | (candidate, True) \<Rightarrow>
          let (sv, saved) = commitCandidate ops sv candidate
          in (sv, if saved then CR_Cancelled else CR_StorageError))"

definition commandsRemoveNode ::
  "'s slot_ops \<Rightarrow> bool \<Rightarrow> 's command_service \<Rightarrow> u8 \<Rightarrow> 's command_service \<times> bool" where
  "commandsRemoveNode ops guarded sv nodeId =
     (if \<not> guarded \<or> \<not> commandsLock sv then (sv, False)
      else
        let (candidate, found) = removeNodeCommand (cv_book sv) nodeId;
            (sv, removed) = (if found then commitCandidate ops sv candidate else (sv, False));
            sv = (if nodeId < 100 then sv\<lparr>cv_deliveries := (cv_deliveries sv)(nodeId := noDelivery)\<rparr> else sv)
        in (sv, removed))"

definition commandsClear :: "'s slot_ops \<Rightarrow> bool \<Rightarrow> 's command_service \<Rightarrow> 's command_service \<times> bool" where
  "commandsClear ops guarded sv =
     (if \<not> guarded \<or> \<not> commandsLock sv then (sv, False)
      else
        let (sv, cleared) = (if cb_count (cv_book sv) = 0 then (sv, True)
              else commitCandidate ops sv (clearCommands (cv_book sv)))
        in (sv\<lparr>cv_deliveries := (\<lambda>_. noDelivery)\<rparr>, cleared))"

definition commandsList :: "'s command_service \<Rightarrow> (CommandRecord \<times> bool) list option" where
  "commandsList sv =
     (if \<not> commandsLock sv then None
      else Some (map (\<lambda>r. (r, cm_state r = CommandPending \<and>
        dv_commandId (cv_deliveries sv (cm_nodeId r)) = cm_commandId r)) (usedCommands (cv_book sv))))"

definition commandsSnapshot :: "'s command_service \<Rightarrow> CommandSnapshot" where
  "commandsSnapshot sv = \<lparr>cz_ready = cv_initialized sv, cz_generation = cv_publishedGeneration sv,
     cz_records = cv_publishedRecords sv, cz_pending = cv_publishedPending sv, cz_counters = cv_counters sv\<rparr>"

subsection \<open>The published view is the set of pending commands\<close>

definition setBit32 :: "u32 list \<Rightarrow> u8 \<Rightarrow> u32 list" where
  "setBit32 words n = words[unat n div 32 := words ! (unat n div 32) OR push_bit (unat n mod 32) 1]"

lemma bit_setBit32:
  assumes "length words = 4" "k < 4" "j < 32" "unat n < 128"
  shows "bit (setBit32 words n ! k) j \<longleftrightarrow> bit (words ! k) j \<or> unat n = 32 * k + j"
proof -
  have id: "unat n = 32 * k + j \<longleftrightarrow> unat n div 32 = k \<and> unat n mod 32 = j" using assms(3) by auto
  have "unat n div 32 < 4" using assms(4) by simp
  then have "setBit32 words n ! k =
      (if unat n div 32 = k then words ! k OR push_bit (unat n mod 32) 1 else words ! k)"
    using assms(1,2) by (simp add: setBit32_def)
  moreover have "bit (push_bit (unat n mod 32) 1 :: u32) j \<longleftrightarrow> unat n mod 32 = j"
    using assms(3) by (auto simp: bit_push_bit_iff bit_1_iff simp del: push_bit_of_1)
  ultimately show ?thesis unfolding id by (auto simp: bit_or_iff simp del: push_bit_of_1)
qed

lemma bit_setBits:
  assumes "length words = 4" "k < 4" "j < 32" "\<forall>n \<in> set ns. unat n < 128"
  shows "bit (foldl setBit32 words ns ! k) j \<longleftrightarrow> bit (words ! k) j \<or> (\<exists>n \<in> set ns. unat n = 32 * k + j)"
  using assms
proof (induction ns arbitrary: words)
  case (Cons n ns)
  have "length (setBit32 words n) = 4" using Cons.prems(1) by (simp add: setBit32_def)
  from Cons.IH [OF this Cons.prems(2,3)] Cons.prems show ?case by (auto simp: bit_setBit32)
qed simp

definition pendingRecords :: "CommandRecord list \<Rightarrow> CommandRecord list" where
  "pendingRecords rs = filter (\<lambda>r. cm_state r = CommandPending) rs"

lemma pendingWords_fold:
  "pendingWords rs = (foldl setBit32 (replicate 4 0) (map cm_nodeId (pendingRecords rs)),
     of_nat (length (pendingRecords rs)))"
proof -
  have "foldl (\<lambda>(words, pending) r.
         if cm_state r \<noteq> CommandPending then (words, pending)
         else let k = unat (cm_nodeId r) div 32
              in (words[k := words ! k OR push_bit (unat (cm_nodeId r) mod 32) 1], pending + 1)) (words, m) rs =
      (foldl setBit32 words (map cm_nodeId (pendingRecords rs)), m + of_nat (length (pendingRecords rs)))"
    for words :: "u32 list" and m :: u8
    by (induction rs arbitrary: words m) (simp_all add: pendingRecords_def setBit32_def Let_def)
  then show ?thesis by (simp add: pendingWords_def)
qed

definition pendingViewOk :: "'s command_service \<Rightarrow> bool" where
  "pendingViewOk sv \<longleftrightarrow> cv_pendingNodeIds sv = fst (pendingWords (usedCommands (cv_book sv))) \<and>
     cv_publishedGeneration sv = ds_generation (cv_store sv) \<and> cv_publishedRecords sv = cb_count (cv_book sv) \<and>
     cv_publishedPending sv = snd (pendingWords (usedCommands (cv_book sv)))"

lemma book_nodeIds:
  assumes "bookOk b" "r \<in> set (usedCommands b)"
  shows "cm_nodeId r \<noteq> 0" "unat (cm_nodeId r) \<le> 99" "cm_commandId r \<noteq> 0" "unat (cm_argumentSize r) \<le> 8"
    "commandShaped r" "cm_state r = CommandPending \<or> cm_state r = CommandCompleted"
proof -
  have v: "validCommandRecord r" "commandShaped r"
    using assms book_facts(2) by (auto simp: bookOk_iff list_all_iff)
  show "commandShaped r" by (rule v(2))
  show "cm_nodeId r \<noteq> 0" "unat (cm_nodeId r) \<le> 99" "cm_commandId r \<noteq> 0" "unat (cm_argumentSize r) \<le> 8"
    "cm_state r = CommandPending \<or> cm_state r = CommandCompleted"
    using v by (auto simp: validCommandRecord_def word_le_nat_alt not_less validCommandArguments_def commandArgumentSize_def split: if_splits CommandState.splits CommandType.splits option.splits)
qed

lemma hasPending_iff:
  assumes view: "pendingViewOk sv" and ok: "bookOk (cv_book sv)"
  shows "hasPending sv n \<longleftrightarrow> (\<exists>r. findCommand (cv_book sv) n = Some r \<and> cm_state r = CommandPending)"
proof -
  let ?rs = "usedCommands (cv_book sv)"
  have small: "\<forall>n \<in> set (map cm_nodeId (pendingRecords ?rs)). unat n < 128"
    using book_nodeIds(2) [OF ok] by (fastforce simp: pendingRecords_def)
  have range: "cm_nodeId r \<noteq> 0 \<and> \<not> 99 < cm_nodeId r" if "r \<in> set ?rs" for r
    using book_nodeIds(1,2) [OF ok that] by (simp add: not_less word_le_nat_alt)
  have test: "w AND 2 ^ m \<noteq> 0 \<longleftrightarrow> bit w m" if "m < 32" for w :: u32 and m
    using that and_bit_neq_0 [of m w] by (simp add: push_bit_of_1)
  have "hasPending sv n \<longleftrightarrow> (\<exists>r \<in> set ?rs. cm_state r = CommandPending \<and> cm_nodeId r = n)"
  proof (cases "n = 0 \<or> 99 < n")
    case True
    then have "\<not> hasPending sv n" by (auto simp: hasPending_def)
    then show ?thesis using range True by blast
  next
    case False
    then have "unat n div 32 < 4"
      using div_le_mono [of "unat n" 99 32] by (simp add: not_less word_le_nat_alt)
    then have "bit (cv_pendingNodeIds sv ! (unat n div 32)) (unat n mod 32) \<longleftrightarrow>
        (\<exists>m \<in> set (map cm_nodeId (pendingRecords ?rs)). unat m = unat n)"
      using bit_setBits [OF _ _ _ small, of "replicate 4 0" "unat n div 32" "unat n mod 32"] view
      by (simp add: pendingViewOk_def pendingWords_fold)
    also have "\<dots> \<longleftrightarrow> (\<exists>r \<in> set ?rs. cm_state r = CommandPending \<and> cm_nodeId r = n)"
      by (auto simp: pendingRecords_def word_unat_eq_iff)
    finally show ?thesis using False by (simp add: hasPending_def Let_def test)
  qed
  then show ?thesis using findCommand_iff [OF ok] by blast
qed

subsection \<open>Every commit is all or nothing\<close>

text \<open>A loaded book is well formed.\<close>

lemma decodeCommandBook_ok:
  assumes "decodeCommandBook (Some d) = Inr (v, g)" shows "bookOk v"
proof -
  have len: "length d = 820"
    using assms by (auto simp: decodeCommandBook_def validateHeader_def split: if_splits)
  have n: "unat (d ! 12) \<le> 16"
    using assms by (auto simp: decodeCommandBook_def Let_def split: if_splits sum.splits option.splits)
  have v: "cb_records v = map getCommand (entries d 16 50 0 (unat (d ! 12))) @
      replicate (16 - unat (d ! 12)) blankCommand"
    using assms by (auto simp: decodeCommandBook_def Let_def split: if_splits sum.splits option.splits)
  have "length c = 50" if "c \<in> set (entries d 16 50 0 (unat (d ! 12)))" for c
  proof -
    from that obtain i where i: "i < unat (d ! 12)" "c = chunk d (16 + i * 50) 50"
      by (auto simp: entries_def)
    then have "16 + i * 50 + 50 \<le> 820" using n by simp
    then show ?thesis using i(2) len by (simp add: chunk_def)
  qed
  moreover have "commandShaped (getCommand c)" if "length c = 50" for c
  proof -
    have "commandStatusOf b = commandStatusOf (commandStatusValue (commandStatusOf b))" for b by simp
    then show ?thesis using that by (simp add: getCommand_def commandShaped_def chunk_def)
  qed
  ultimately have "list_all commandShaped (cb_records v)"
    unfolding v by (auto simp: list_all_iff commandShaped_blank)
  moreover have "length (cb_records v) = 16" using n by (simp add: v entries_def)
  ultimately show ?thesis
    using decodeCommandBook_valid [OF assms] by (simp add: bookOk_def bookShaped_def)
qed

text \<open>The book of a running service: what the flash holds once it has been saved, and what the radio
  task sees.\<close>

definition commandsOk :: "'s slot_ops \<Rightarrow> 's command_service \<Rightarrow> bool" where
  "commandsOk ops sv \<longleftrightarrow> (cv_initialized sv \<longrightarrow> bookOk (cv_book sv) \<and> pendingViewOk sv \<and>
     storeSound ops commandsCodec (cv_store sv) (cv_flash sv) \<and>
     (ds_loaded (cv_store sv) \<longrightarrow> ds_current (cv_store sv) = cv_book sv))"

text \<open>A save of another book: the new one is in RAM and in flash, or nothing has changed.\<close>

definition bookCommitted ::
  "'s slot_ops \<Rightarrow> 's command_service \<Rightarrow> CommandBook \<Rightarrow> 's command_service \<Rightarrow> bool \<Rightarrow> bool" where
  "bookCommitted ops sv candidate sv' saved \<longleftrightarrow> commandsOk ops sv' \<and>
     cv_initialized sv' = cv_initialized sv \<and> cv_mutex sv' = cv_mutex sv \<and> cv_counters sv' = cv_counters sv \<and>
     (saved \<longrightarrow> cv_book sv' = candidate \<and>
        (\<exists>st w. storeLoad ops commandsCodec (cv_flash sv') = (st, w, Loaded) \<and> commandBooksEqual w candidate)) \<and>
     (\<not> saved \<longrightarrow> cv_book sv' = cv_book sv \<and> cv_store sv' = cv_store sv \<and>
        cv_pendingNodeIds sv' = cv_pendingNodeIds sv)"

context slot_storage
begin

lemma command_store: "dual_slot_store ops commandsCodec bookShaped"
  using slot_storage_axioms commands.snapshot_codec_axioms by (simp add: dual_slot_store_def)

lemma commitCandidate_committed:
  assumes ok: "commandsOk ops sv" "cv_initialized sv" and cand: "bookOk candidate"
    and new: "\<not> commandBooksEqual (cv_book sv) candidate"
    and run: "commitCandidate ops sv candidate = (sv', saved)"
  shows "bookCommitted ops sv candidate sv' saved \<and> cv_deliveries sv' = cv_deliveries sv"
proof -
  obtain store flash b where save: "storeSave ops commandsCodec (cv_store sv) (cv_flash sv) candidate = (store, flash, b)"
    by (metis prod_cases3)
  have sound: "storeSound ops commandsCodec (cv_store sv) (cv_flash sv)"
    and writes: "\<not> (ds_loaded (cv_store sv) \<and> sc_Equal commandsCodec (ds_current (cv_store sv)) candidate)"
    using ok new by (auto simp: commandsOk_def commandsCodec_def)
  have b: "b = saved" using run save by (auto simp: commitCandidate_def Let_def split: if_splits)
  show ?thesis
  proof (cases saved)
    case True
    with save b have save: "storeSave ops commandsCodec (cv_store sv) (cv_flash sv) candidate = (store, flash, True)"
      by simp
    from dual_slot_store.save_then_load [OF command_store sound save writes]
    obtain st w where load: "storeLoad ops commandsCodec flash = (st, w, Loaded)" "commandBooksEqual w candidate"
      "storeSound ops commandsCodec store flash"
      by (auto simp: commandsCodec_def)
    from dual_slot_store.save_written [OF command_store save writes]
    have "ds_current store = candidate" by auto
    moreover have "sv' = publishPending (sv\<lparr>cv_store := store, cv_flash := flash, cv_book := candidate\<rparr>)"
      using run save True by (simp add: commitCandidate_def)
    ultimately show ?thesis
      using load cand ok(2) True
      by (simp add: bookCommitted_def commandsOk_def publishPending_def pendingViewOk_def)
  next
    case False
    with save b have save: "storeSave ops commandsCodec (cv_store sv) (cv_flash sv) candidate = (store, flash, False)"
      by simp
    from dual_slot_store.save_failed_state [OF command_store save]
    have st: "store = cv_store sv" .
    from dual_slot_store.save_failed_sound [OF command_store sound save]
    have "storeSound ops commandsCodec store flash" .
    moreover have "sv' = sv\<lparr>cv_store := store, cv_flash := flash\<rparr>"
      using run save False by (simp add: commitCandidate_def)
    ultimately show ?thesis
      using st ok False by (simp add: bookCommitted_def commandsOk_def pendingViewOk_def)
  qed
qed

end

lemma booksDiffer:
  "cb_nextCommandId b \<noteq> cb_nextCommandId b' \<or> cb_count b \<noteq> cb_count b' \<Longrightarrow> \<not> commandBooksEqual b b'"
  by (auto simp: commandBooksEqual_def)

lemma commandBooksEqual_find:
  assumes "bookOk b" "bookOk b'" "commandBooksEqual b b'"
  shows "findCommand b' = findCommand b"
proof -
  have "usedCommands b = usedCommands b'"
    using assms commandBooksEqual_iff [of b b'] by (simp add: bookOk_iff)
  then show ?thesis using findCommand_cong [OF assms(1,2)] by (auto simp: fun_eq_iff)
qed

text \<open>What flash holds after an operation that has reported success: commands \<open>f\<close>.\<close>

definition storedCommands :: "'s slot_ops \<Rightarrow> 's command_service \<Rightarrow> (u8 \<Rightarrow> CommandRecord option) \<Rightarrow> bool" where
  "storedCommands ops sv f \<longleftrightarrow>
     (\<exists>st w. storeLoad ops commandsCodec (cv_flash sv) = (st, w, Loaded) \<and> findCommand w = f)"

lemma loaded_bookOk: "storeLoad ops commandsCodec s = (st, w, Loaded) \<Longrightarrow> bookOk w"
  using decodeCommandBook_ok
  by (auto simp: storeLoad_def newestSlot_simps slotValue_def commandsCodec_def
      split: option.splits sum.splits prod.splits if_splits)

lemma committed_stored:
  assumes "bookCommitted ops sv candidate sv' True" "bookOk candidate"
  shows "storedCommands ops sv' (findCommand candidate)"
proof -
  obtain st w where w: "storeLoad ops commandsCodec (cv_flash sv') = (st, w, Loaded)" "commandBooksEqual w candidate"
    using assms(1) by (auto simp: bookCommitted_def)
  from commandBooksEqual_find [OF loaded_bookOk [OF w(1)] assms(2) w(2)] w(1)
  show ?thesis by (auto simp: storedCommands_def)
qed

text \<open>An operation keeps the service sound, and its book is the old one unless it reports a change.\<close>

definition commandsStep :: "'s slot_ops \<Rightarrow> 's command_service \<Rightarrow> 's command_service \<Rightarrow> bool \<Rightarrow> bool" where
  "commandsStep ops sv sv' changed \<longleftrightarrow> commandsOk ops sv' \<and> cv_initialized sv' = cv_initialized sv \<and>
     cv_mutex sv' = cv_mutex sv \<and> (changed \<longrightarrow> storedCommands ops sv' (findCommand (cv_book sv'))) \<and>
     (\<not> changed \<longrightarrow> cv_book sv' = cv_book sv \<and> cv_store sv' = cv_store sv)"

lemma commandsStep_refl: "commandsOk ops sv \<Longrightarrow> commandsStep ops sv sv False"
  by (simp add: commandsStep_def)

lemma commandsStep_fields [simp]:
  "commandsStep ops sv (sv'\<lparr>cv_deliveries := d\<rparr>) changed = commandsStep ops sv sv' changed"
  "commandsStep ops sv (sv'\<lparr>cv_counters := c\<rparr>) changed = commandsStep ops sv sv' changed"
  "commandsOk ops (sv\<lparr>cv_deliveries := d\<rparr>) = commandsOk ops sv"
  "commandsOk ops (sv\<lparr>cv_counters := c\<rparr>) = commandsOk ops sv"
  by (simp_all add: commandsStep_def commandsOk_def pendingViewOk_def storedCommands_def)

lemma committed_step:
  "bookCommitted ops sv candidate sv' saved \<Longrightarrow> bookOk candidate \<Longrightarrow> commandsStep ops sv sv' saved"
  using committed_stored [of ops sv candidate sv'] by (cases saved) (auto simp: bookCommitted_def commandsStep_def)

lemma queue_next:
  assumes "queue b uid n type args k now = (b', Inr i)"
  shows "cb_nextCommandId b' \<noteq> cb_nextCommandId b"
proof -
  have e: "cb_nextCommandId (erase b j) = cb_nextCommandId b" for b j by (simp add: erase_def Let_def)
  have a: "cb_nextCommandId (fst (appendCommand b mk)) \<noteq> cb_nextCommandId b" for b mk
    by (auto simp: appendCommand_def Let_def)
  show ?thesis
    using assms a by (auto simp: queue_def Let_def e split: option.splits if_splits) (metis e fst_conv)+
qed

lemma erase_count: "bookOk b \<Longrightarrow> i < unat (cb_count b) \<Longrightarrow> cb_count (erase b i) \<noteq> cb_count b"
  by (simp add: erase_def Let_def)

context slot_storage
begin

lemma commandsQueue_ok:
  assumes ok: "commandsOk ops sv"
    and input: "\<And>uid p. identity nodeId = Some (uid, p) \<Longrightarrow> queueInput (Some uid) args n"
    and run: "commandsQueue ops guarded identity now sv nodeId type args n = (sv', res, queued)"
  shows "commandsStep ops sv sv' (res = QR_Queued) \<and>
    (res = QR_Queued \<longrightarrow> (\<exists>uid p. identity nodeId = Some (uid, p) \<and> profileSupportsCommand p type \<and>
       keepsOthers (cv_book sv) (cv_book sv') nodeId \<and> cv_deliveries sv' nodeId = noDelivery \<and>
       findCommand (cv_book sv') nodeId = Some (queuedRecord (cb_nextCommandId (cv_book sv)) uid nodeId
         (commandTypeValue type) args n now)))"
proof (cases "cv_initialized sv \<and> guarded \<and> commandsLock sv \<and>
    (\<exists>uid p. identity nodeId = Some (uid, p) \<and> profileSupportsCommand p type)")
  case False
  then have "sv' = sv \<and> res \<noteq> QR_Queued"
    using run by (auto simp: commandsQueue_def split: if_splits option.splits)
  then show ?thesis using commandsStep_refl [OF ok] by simp
next
  case True
  then obtain uid p where g: "cv_initialized sv" "guarded" "commandsLock sv"
    "identity nodeId = Some (uid, p)" "profileSupportsCommand p type" by blast
  obtain b r where q: "queue (cv_book sv) (Some uid) nodeId (commandTypeValue type) args n now = (b, r)"
    by (metis prod.exhaust)
  have book: "bookOk (cv_book sv)" using ok g(1) by (simp add: commandsOk_def)
  note qok = queue_ok [OF book input [OF g(4)] q]
  show ?thesis
  proof (cases r)
    case (Inl e)
    then have "sv' = sv \<and> res \<noteq> QR_Queued"
      using run g q by (auto simp: commandsQueue_def queueResultOf_def split: QueueStatus.splits)
    then show ?thesis using commandsStep_refl [OF ok] by simp
  next
    case (Inr i)
    obtain sv1 saved where c: "commitCandidate ops sv b = (sv1, saved)" by (metis prod.exhaust)
    have b: "bookOk b" using qok Inr by auto
    have "\<not> commandBooksEqual (cv_book sv) b"
      using queue_next [OF q [unfolded Inr]] booksDiffer [of "cv_book sv" b] by simp
    from commitCandidate_committed [OF ok g(1) b this c]
    have com: "bookCommitted ops sv b sv1 saved" by simp
    show ?thesis
    proof (cases saved)
      case True
      then have "sv' = sv1\<lparr>cv_deliveries := (cv_deliveries sv1)(nodeId := noDelivery)\<rparr>" "res = QR_Queued"
        using run g q c Inr by (simp_all add: commandsQueue_def)
      moreover have "cv_book sv1 = b" using com True by (simp add: bookCommitted_def)
      ultimately show ?thesis
        using committed_step [OF com b] True g qok Inr by auto
    next
      case False
      then have "sv' = sv1" "res \<noteq> QR_Queued" using run g q c Inr by (auto simp: commandsQueue_def)
      then show ?thesis using committed_step [OF com b] False by simp
    qed
  qed
qed

lemma commandsCancel_ok:
  assumes ok: "commandsOk ops sv" and run: "commandsCancel ops guarded sv nodeId = (sv', res)"
  shows "commandsStep ops sv sv' (res = CR_Cancelled) \<and> cv_deliveries sv' = cv_deliveries sv \<and>
    (res = CR_Cancelled \<longrightarrow> findCommand (cv_book sv') = (findCommand (cv_book sv))(nodeId := None) \<and>
       (\<exists>r. findCommand (cv_book sv) nodeId = Some r \<and> cm_state r = CommandPending))"
proof (cases "guarded \<and> commandsLock sv")
  case False
  then show ?thesis using run commandsStep_refl [OF ok] by (auto simp: commandsCancel_def split: if_splits)
next
  case True
  obtain b d where c: "cancel (cv_book sv) nodeId = (b, d)" by (metis prod.exhaust)
  have init: "cv_initialized sv" and book: "bookOk (cv_book sv)"
    using ok True by (simp_all add: commandsOk_def commandsLock_def)
  note cok = cancel_ok [OF book c]
  show ?thesis
  proof (cases d)
    case False
    then show ?thesis using run True c commandsStep_refl [OF ok] by (auto simp: commandsCancel_def)
  next
    case d: True
    obtain i where i: "indexOf (cv_book sv) nodeId = Some i" "b = erase (cv_book sv) i"
      using c d by (auto simp: cancel_def split: option.splits if_splits)
    obtain sv1 saved where m: "commitCandidate ops sv b = (sv1, saved)" by (metis prod.exhaust)
    have "cb_count b \<noteq> cb_count (cv_book sv)" using erase_count [OF book indexOf_Some(1) [OF book i(1)]] i(2) by simp
    then have "\<not> commandBooksEqual (cv_book sv) b" using booksDiffer by metis
    from commitCandidate_committed [OF ok init _ this m] cok
    have com: "bookCommitted ops sv b sv1 saved" "cv_deliveries sv1 = cv_deliveries sv" by auto
    have r: "sv' = sv1" "res = CR_Cancelled \<longleftrightarrow> saved"
      using run True c d m by (auto simp: commandsCancel_def split: if_splits)
    show ?thesis
      using committed_step [OF com(1)] cok com d r by (auto simp: bookCommitted_def)
  qed
qed

lemma commandsRemoveNode_ok:
  assumes ok: "commandsOk ops sv" and run: "commandsRemoveNode ops guarded sv nodeId = (sv', removed)"
  shows "commandsStep ops sv sv' removed \<and>
    (removed \<longrightarrow> findCommand (cv_book sv') = (findCommand (cv_book sv))(nodeId := None)) \<and>
    (guarded \<and> commandsLock sv \<and> nodeId < 100 \<longrightarrow> cv_deliveries sv' nodeId = noDelivery)"
proof (cases "guarded \<and> commandsLock sv")
  case False
  then show ?thesis using run commandsStep_refl [OF ok] by (auto simp: commandsRemoveNode_def split: if_splits)
next
  case True
  obtain b d where c: "removeNodeCommand (cv_book sv) nodeId = (b, d)" by (metis prod.exhaust)
  have init: "cv_initialized sv" and book: "bookOk (cv_book sv)"
    using ok True by (simp_all add: commandsOk_def commandsLock_def)
  note cok = removeNodeCommand_ok [OF book c]
  show ?thesis
  proof (cases d)
    case False
    then show ?thesis using run True c commandsStep_refl [OF ok]
      by (auto simp: commandsRemoveNode_def split: if_splits)
  next
    case d: True
    obtain i where i: "indexOf (cv_book sv) nodeId = Some i" "b = erase (cv_book sv) i"
      using c d by (auto simp: removeNodeCommand_def split: option.splits if_splits)
    obtain sv1 saved where m: "commitCandidate ops sv b = (sv1, saved)" by (metis prod.exhaust)
    have "cb_count b \<noteq> cb_count (cv_book sv)" using erase_count [OF book indexOf_Some(1) [OF book i(1)]] i(2) by simp
    then have "\<not> commandBooksEqual (cv_book sv) b" using booksDiffer by metis
    from commitCandidate_committed [OF ok init _ this m] cok
    have com: "bookCommitted ops sv b sv1 saved" by auto
    have r: "sv' = (if nodeId < 100 then sv1\<lparr>cv_deliveries := (cv_deliveries sv1)(nodeId := noDelivery)\<rparr> else sv1)"
      "removed = saved"
      using run True c d m by (auto simp: commandsRemoveNode_def)
    show ?thesis
      using committed_step [OF com] cok com r by (auto simp: bookCommitted_def)
  qed
qed

lemma commandsClear_ok:
  assumes ok: "commandsOk ops sv" and run: "commandsClear ops guarded sv = (sv', cleared)"
  shows "commandsStep ops sv sv' (cleared \<and> cb_count (cv_book sv) \<noteq> 0) \<and>
    (cleared \<longrightarrow> findCommand (cv_book sv') n = None)"
proof (cases "guarded \<and> commandsLock sv")
  case False
  then show ?thesis using run commandsStep_refl [OF ok] by (auto simp: commandsClear_def split: if_splits)
next
  case True
  have init: "cv_initialized sv" and book: "bookOk (cv_book sv)"
    using ok True by (simp_all add: commandsOk_def commandsLock_def)
  show ?thesis
  proof (cases "cb_count (cv_book sv) = 0")
    case c: True
    have "findCommand (cv_book sv) n = None"
      using findCommand_iff [OF book, of n] c by (cases "findCommand (cv_book sv) n") (auto simp: usedCommands_def)
    moreover have "sv' = sv\<lparr>cv_deliveries := (\<lambda>_. noDelivery)\<rparr>" using run True c by (simp add: commandsClear_def)
    ultimately show ?thesis using commandsStep_refl [OF ok] c by simp
  next
    case c: False
    let ?b = "clearCommands (cv_book sv)"
    obtain sv1 saved where m: "commitCandidate ops sv ?b = (sv1, saved)" by (metis prod.exhaust)
    have "cb_count ?b = 0" by (simp add: clearCommands_def emptyBook_def)
    then have "\<not> commandBooksEqual (cv_book sv) ?b" using c booksDiffer by metis
    from commitCandidate_committed [OF ok init clearCommands_ok(1) [OF book] this m]
    have com: "bookCommitted ops sv ?b sv1 saved" by simp
    have r: "sv' = sv1\<lparr>cv_deliveries := (\<lambda>_. noDelivery)\<rparr>" "cleared = saved"
      using run True c m by (auto simp: commandsClear_def)
    show ?thesis
      using committed_step [OF com clearCommands_ok(1) [OF book]] clearCommands_ok(2) [OF book] com r c
      by (auto simp: bookCommitted_def)
  qed
qed

end

subsection \<open>Results\<close>

definition gatewayCommandsOk :: "'s CommandEnv \<Rightarrow> 's command_gateway \<Rightarrow> bool" where
  "gatewayCommandsOk env g \<longleftrightarrow> commandsOk (cx_commandOps env) (cg_commands g) \<and>
     serviceOk (cx_registryOps env) (cg_registry g)"

lemma countOn_fields [simp]:
  "cg_registry (countOn f g) = cg_registry g" "cg_radio (countOn f g) = cg_radio g"
  "cg_telemetry (countOn f g) = cg_telemetry g" "cv_book (cg_commands (countOn f g)) = cv_book (cg_commands g)"
  "cv_deliveries (cg_commands (countOn f g)) = cv_deliveries (cg_commands g)"
  "cv_flash (cg_commands (countOn f g)) = cv_flash (cg_commands g)"
  "gatewayCommandsOk env (countOn f g) = gatewayCommandsOk env g"
  "commandsLock (cg_commands (countOn f g)) = commandsLock (cg_commands g)"
  "hasPending (cg_commands (countOn f g)) = hasPending (cg_commands g)"
  "commandsStep ops sv (cg_commands (countOn f g)) changed = commandsStep ops sv (cg_commands g) changed"
  by (auto simp: countOn_def countCommand_def gatewayCommandsOk_def commandsLock_def hasPending_def fun_eq_iff)

lemma radioSend_gateway [simp]:
  "gatewayCommandsOk env (g\<lparr>cg_radio := r\<rparr>) = gatewayCommandsOk env g"
  "gatewayCommandsOk env (g\<lparr>cg_telemetry := t\<rparr>) = gatewayCommandsOk env g"
  by (simp_all add: gatewayCommandsOk_def)

text \<open>A result that came in answer to the latest delivery of a command that is still pending.\<close>

definition answersDelivery :: "'s CommandEnv \<Rightarrow> 's command_gateway \<Rightarrow> u8 \<Rightarrow> CommandResult \<Rightarrow> CommandRecord \<Rightarrow> bool" where
  "answersDelivery env g nodeId result r \<longleftrightarrow> cx_guarded env \<and>
     (\<exists>profileId. activeIdentity (cg_registry g) nodeId = Some (cm_deviceUid r, profileId)) \<and>
     cv_deliveries (cg_commands g) nodeId =
       \<lparr>dv_sessionNonce = cr_sessionNonce result, dv_commandId = cr_commandId result\<rparr> \<and>
     findCommand (cv_book (cg_commands g)) nodeId = Some r \<and> cm_state r = CommandPending \<and>
     cm_commandId r = cr_commandId result \<and> cr_status result \<noteq> StorageFailure"

text \<open>The identity of an applied ReadInfo is in the registry, in RAM and in flash, before its command
  completes.\<close>

definition infoRecorded :: "'s CommandEnv \<Rightarrow> 's command_gateway \<Rightarrow> 's command_gateway \<Rightarrow> u8 \<Rightarrow> bytes \<Rightarrow> CommandResult \<Rightarrow> bool" where
  "infoRecorded env g g' nodeId uid result \<longleftrightarrow>
     (\<exists>info. decodeNodeInfo (Some (take (unat (cr_dataSize result)) (cr_data result))) = Inr info \<and>
        sv_nodes (cg_registry g') = fst (updateInfo (sv_nodes (cg_registry g)) nodeId (Some uid) info) \<and>
        (sv_nodes (cg_registry g') \<noteq> sv_nodes (cg_registry g) \<longrightarrow>
           registryLoad (cx_registryOps env) (sv_flash (cg_registry g')) =
             (sv_store (cg_registry g'), sv_nodes (cg_registry g'), Loaded)))"

lemma activeIdentity_uid:
  assumes ok: "serviceOk ops sv" and id: "activeIdentity sv n = Some (uid, p)"
  shows "length uid = kDeviceUidSize" "take kDeviceUidSize uid = uid"
proof -
  obtain r where r: "activeRecord sv n = Some r" "nr_deviceUid r = uid"
    using id by (auto simp: activeIdentity_def)
  then have init: "sv_initialized sv" by (auto simp: activeRecord_def split: if_splits)
  obtain rs where rs: "sv_nodes sv = registryOf rs" "recordsOk rs"
    using serviceOk_registryOk [OF ok init] by (auto elim: registryOkE)
  obtain i where i: "findByNodeId (sv_nodes sv) n = Some i" "reg_records (sv_nodes sv) ! i = r"
    using r(1) by (auto simp: activeRecord_def Let_def split: option.splits if_splits)
  then have "i < length rs" using findByNodeId_SomeD rs(1) by metis
  with i(2) rs(1) have "r \<in> set rs" by (auto simp: registryOf_def nth_append)
  then show "length uid = kDeviceUidSize"
    using rs(2) r(2) by (auto simp: recordsOk_def list_all_iff recordOk_def shapedRecord_def)
  then show "take kDeviceUidSize uid = uid" by simp
qed

lemma updateInfo_same:
  "updateInfo reg n uid info = (reg', st) \<Longrightarrow> st \<noteq> IN_Updated \<Longrightarrow> st \<noteq> IN_ProfileChanged \<Longrightarrow> reg' = reg"
  by (auto simp: updateInfo_def Let_def split: option.splits if_splits)

lemma updateInfoAndSave_ok:
  assumes "slot_storage ops" "serviceOk ops sv" "nodeInfoOk info"
    and run: "updateInfoAndSave ops guarded allocated sv n uid info = (sv', commit, status)"
  shows "serviceOk ops sv' \<and> sv_initialized sv' = sv_initialized sv \<and>
    (commit \<noteq> RC_StorageError \<and> commit \<noteq> RC_NotInitialized \<longrightarrow>
       sv_nodes sv' = fst (updateInfo (sv_nodes sv) n uid info) \<and>
       (sv_nodes sv' \<noteq> sv_nodes sv \<longrightarrow>
          registryLoad ops (sv_flash sv') = (sv_store sv', sv_nodes sv', Loaded))) \<and>
    (commit = RC_StorageError \<or> commit = RC_NotInitialized \<longrightarrow> sv_nodes sv' = sv_nodes sv)"
proof -
  have op: "serviceOp ops guarded allocated sv (SUpdateInfo n uid info) = (sv', commit)" using run by simp
  from slot_storage.service_commits [OF assms(1,2) _ op] assms(3)
  have com: "committed ops sv (fst (updateInfo (sv_nodes sv) n uid info)) sv' commit" by simp
  show ?thesis
  proof (cases commit)
    case RC_NoChange
    obtain c r where u: "updateInfo (sv_nodes sv) n uid info = (c, r)" by (metis prod.exhaust)
    have "r \<noteq> IN_Updated" "r \<noteq> IN_ProfileChanged"
      using run RC_NoChange u by (auto simp: updateInfoAndSave_def commitStatus_def Let_def split: if_splits prod.splits)
    from updateInfo_same [OF u this] show ?thesis using com u RC_NoChange by (auto simp: committed_def)
  qed (use com in \<open>auto simp: committed_def\<close>)
qed

lemma applyReadInfo_cases:
  assumes st: "slot_storage (cx_registryOps env)" and ok: "gatewayCommandsOk env g"
    and run: "applyReadInfo env n uid result g = (g', applied, changed)"
  shows "gatewayCommandsOk env g' \<and> cv_book (cg_commands g') = cv_book (cg_commands g) \<and>
    cv_deliveries (cg_commands g') = cv_deliveries (cg_commands g) \<and>
    commandsStep (cx_commandOps env) (cg_commands g) (cg_commands g') False \<and>
    cg_telemetry g' = cg_telemetry g \<and> cg_radio g' = cg_radio g \<and>
    (applied \<and> (\<exists>r. findCommand (cv_book (cg_commands g)) n = Some r \<and> cm_state r = CommandPending \<and>
        cm_commandId r = cr_commandId result \<and> cm_type r = commandTypeValue ReadInfo \<and> cr_status result = Applied) \<longrightarrow>
      infoRecorded env g g' n uid result)"
proof -
  have step: "commandsStep (cx_commandOps env) (cg_commands g) (cg_commands g) False"
    using ok commandsStep_refl by (auto simp: gatewayCommandsOk_def)
  let ?applies = "\<exists>r. findCommand (cv_book (cg_commands g)) n = Some r \<and> cm_state r = CommandPending \<and>
        cm_commandId r = cr_commandId result \<and> cm_type r = commandTypeValue ReadInfo \<and> cr_status result = Applied"
  show ?thesis
  proof (cases ?applies)
    case False
    then have "(g', applied, changed) = (g, True, False)"
      using run by (auto simp: applyReadInfo_def Let_def split: option.splits)
    then show ?thesis using ok False step by auto
  next
    case True
    show ?thesis
    proof (cases "decodeNodeInfo (Some (take (unat (cr_dataSize result)) (cr_data result)))")
      case (Inl e)
      then have "(g', applied, changed) = (commandRejected g, False, False)"
        using run True by (auto simp: applyReadInfo_def Let_def)
      then show ?thesis using ok step by simp
    next
      case (Inr info)
      obtain reg commit status where u: "updateInfoAndSave (cx_registryOps env) (cx_guarded env) (cx_allocated env)
          (cg_registry g) n (Some uid) info = (reg, commit, status)" by (metis prod_cases3)
      have info: "nodeInfoOk info" using nodeInfo.decode_exact [OF Inr] by simp
      have sv: "serviceOk (cx_registryOps env) (cg_registry g)" using ok by (simp add: gatewayCommandsOk_def)
      note facts = updateInfoAndSave_ok [OF st sv info u]
      have ok1: "gatewayCommandsOk env (g\<lparr>cg_registry := reg\<rparr>)"
        using ok facts by (simp add: gatewayCommandsOk_def)
      show ?thesis
      proof (cases "commit = RC_StorageError \<or> commit = RC_NotInitialized")
        case bad: True
        then have "(g', applied, changed) = (commandStorageError (g\<lparr>cg_registry := reg\<rparr>), False, False)"
          using run True Inr u by (auto simp: applyReadInfo_def Let_def)
        then show ?thesis using ok1 step by simp
      next
        case good: False
        then have "g' = g\<lparr>cg_registry := reg\<rparr>" "applied"
          using run True Inr u by (auto simp: applyReadInfo_def Let_def)
        then show ?thesis using ok1 facts good Inr step by (simp add: infoRecorded_def)
      qed
    qed
  qed
qed

lemma recordResult_cases:
  assumes st: "slot_storage (cx_commandOps env)" and ok: "gatewayCommandsOk env g" and lock: "commandsLock (cg_commands g)"
    and result: "commandResultOk result"
    and run: "recordResult env n uid result g = g'"
  shows "gatewayCommandsOk env g' \<and> cg_registry g' = cg_registry g \<and> cg_telemetry g' = cg_telemetry g \<and>
    cg_radio g' = cg_radio g \<and> cv_deliveries (cg_commands g') = cv_deliveries (cg_commands g) \<and>
    (\<exists>changed. commandsStep (cx_commandOps env) (cg_commands g) (cg_commands g') changed \<and>
      (changed \<longrightarrow> (\<exists>r. findCommand (cv_book (cg_commands g)) n = Some r \<and> cm_state r = CommandPending \<and>
         cm_commandId r = cr_commandId result \<and> sameUid r uid \<and> cr_status result \<noteq> StorageFailure \<and>
         findCommand (cv_book (cg_commands g')) = (findCommand (cv_book (cg_commands g)))(n \<mapsto>
           completedRecord r (cr_status result) (Some (cr_data result)) (unat (cr_dataSize result)) (cx_unixTimeMs env)))))"
proof -
  let ?b = "cv_book (cg_commands g)"
  have cok: "commandsOk (cx_commandOps env) (cg_commands g)" using ok by (simp add: gatewayCommandsOk_def)
  have init: "cv_initialized (cg_commands g)" using lock by (simp add: commandsLock_def)
  have book: "bookOk ?b" using cok init by (simp add: commandsOk_def)
  have step: "commandsStep (cx_commandOps env) (cg_commands g) (cg_commands g) False"
    by (rule commandsStep_refl [OF cok])
  obtain b res where c: "complete ?b (Some uid) n (cr_commandId result) (cr_status result) (Some (cr_data result))
      (unat (cr_dataSize result)) (cx_unixTimeMs env) = (b, res)" by (metis prod.exhaust)
  have data: "unat (cr_dataSize result) \<le> length (cr_data result)"
    and status: "commandStatusOf (commandStatusValue (cr_status result)) = cr_status result"
    using result by (auto simp: commandResultOk_def commandStatusOf_def)
  show ?thesis
  proof (cases "res = CompleteDone")
    case False
    then obtain f where "g' = g \<or> g' = countOn f g"
      using run c by (cases res) (auto simp: recordResult_def)
    then have "gatewayCommandsOk env g' \<and> cg_registry g' = cg_registry g \<and> cg_telemetry g' = cg_telemetry g \<and>
      cg_radio g' = cg_radio g \<and> cv_deliveries (cg_commands g') = cv_deliveries (cg_commands g) \<and>
      commandsStep (cx_commandOps env) (cg_commands g) (cg_commands g') False"
      using ok step by (elim disjE) simp_all
    then show ?thesis by blast
  next
    case True
    from complete_ok [OF book _ status c] data True
    obtain r where r: "bookOk b" "findCommand ?b n = Some r" "sameUid r uid" "cm_state r = CommandPending"
      "cm_commandId r = cr_commandId result"
      "findCommand b = (findCommand ?b)(n \<mapsto> completedRecord r (cr_status result) (Some (cr_data result))
         (unat (cr_dataSize result)) (cx_unixTimeMs env))"
      by auto
    have storage: "cr_status result \<noteq> StorageFailure"
      using c True by (auto simp: complete_def Let_def split: option.splits if_splits)
    have "cm_state (completedRecord r st d k now) = CommandCompleted" for st d k now
      by (simp add: completedRecord_def)
    with r(2,4,6) have "cm_state (the (findCommand b n)) \<noteq> cm_state (the (findCommand ?b n))" by simp
    then have "findCommand b n \<noteq> findCommand ?b n" by auto
    then have "\<not> commandBooksEqual ?b b" using commandBooksEqual_find [OF book r(1)] by metis
    obtain sv saved where m: "commitCandidate (cx_commandOps env) (cg_commands g) b = (sv, saved)" by (metis prod.exhaust)
    from slot_storage.commitCandidate_committed [OF st cok init r(1) \<open>\<not> commandBooksEqual ?b b\<close> m]
    have com: "bookCommitted (cx_commandOps env) (cg_commands g) b sv saved"
      "cv_deliveries sv = cv_deliveries (cg_commands g)" by simp_all
    obtain f where g': "g' = countOn f (g\<lparr>cg_commands := sv\<rparr>)"
      using run c m True by (cases saved) (auto simp: recordResult_def)
    have "gatewayCommandsOk env (g\<lparr>cg_commands := sv\<rparr>)"
      using com ok by (simp add: gatewayCommandsOk_def bookCommitted_def)
    then have A: "gatewayCommandsOk env g' \<and> cg_registry g' = cg_registry g \<and> cg_telemetry g' = cg_telemetry g \<and>
        cg_radio g' = cg_radio g \<and> cv_deliveries (cg_commands g') = cv_deliveries (cg_commands g)"
      using com(2) by (simp add: g')
    have B: "commandsStep (cx_commandOps env) (cg_commands g) (cg_commands g') saved"
      using committed_step [OF com(1) r(1)] by (simp add: g')
    have "saved \<longrightarrow> cv_book (cg_commands g') = b" using com(1) by (simp add: bookCommitted_def g')
    then have C: "saved \<longrightarrow> (\<exists>r. findCommand ?b n = Some r \<and> cm_state r = CommandPending \<and>
         cm_commandId r = cr_commandId result \<and> sameUid r uid \<and> cr_status result \<noteq> StorageFailure \<and>
         findCommand (cv_book (cg_commands g')) = (findCommand ?b)(n \<mapsto>
           completedRecord r (cr_status result) (Some (cr_data result)) (unat (cr_dataSize result)) (cx_unixTimeMs env)))"
      using r(2-6) storage by metis
    from A B C show ?thesis by blast
  qed
qed

text \<open>A result is recorded only in answer to the latest delivery of a pending command; then the
  record is completed in RAM and in flash.\<close>

lemma handleCommandResult_cases:
  assumes st: "slot_storage (cx_commandOps env)" "slot_storage (cx_registryOps env)"
    and ok: "gatewayCommandsOk env g" and run: "handleCommandResult env received g = g'"
  shows "gatewayCommandsOk env g' \<and> cv_deliveries (cg_commands g') = cv_deliveries (cg_commands g) \<and>
    (\<exists>changed. commandsStep (cx_commandOps env) (cg_commands g) (cg_commands g') changed \<and>
      (changed \<longrightarrow> (\<exists>result r. decodeCommandResult (frameBytes received) emptyCommandResult = Inr result \<and>
         answersDelivery env g (ucast (rf_senderId received)) result r \<and>
         findCommand (cv_book (cg_commands g')) = (findCommand (cv_book (cg_commands g)))(ucast (rf_senderId received) \<mapsto>
           completedRecord r (cr_status result) (Some (cr_data result)) (unat (cr_dataSize result)) (cx_unixTimeMs env)) \<and>
         (cm_type r = commandTypeValue ReadInfo \<and> cr_status result = Applied \<longrightarrow>
            infoRecorded env g g' (ucast (rf_senderId received)) (cm_deviceUid r) result))))"
proof -
  have cok: "commandsOk (cx_commandOps env) (cg_commands g)" using ok by (simp add: gatewayCommandsOk_def)
  note same = commandsStep_refl [OF cok]
  let ?n = "ucast (rf_senderId received) :: u8"
  have rej: ?thesis if "g' = commandRejected g"
    unfolding that using ok same by (simp, intro exI [of _ False]) simp
  show ?thesis
  proof (cases "decodeCommandResult (frameBytes received) emptyCommandResult")
    case (Inl e)
    then show ?thesis using run rej by (simp add: handleCommandResult_def)
  next
    case (Inr result)
    have result: "commandResultOk result"
      using commandResult.decode_exact Inr by (auto simp: frameBytes_def)
    show ?thesis
    proof (cases "cx_guarded env \<and> commandsLock (cg_commands g) \<and> activeIdentity (cg_registry g) ?n \<noteq> None \<and>
        dv_commandId (cv_deliveries (cg_commands g) ?n) = cr_commandId result \<and>
        dv_sessionNonce (cv_deliveries (cg_commands g) ?n) = cr_sessionNonce result")
      case False
      then have "g' = commandRejected g"
        using run Inr by (auto simp: handleCommandResult_def Let_def split: option.splits)
      then show ?thesis by (rule rej)
    next
      case True
      then obtain uid p where id: "activeIdentity (cg_registry g) ?n = Some (uid, p)" by auto
      obtain g1 applied changed where a: "applyReadInfo env ?n uid result g = (g1, applied, changed)"
        by (metis prod_cases3)
      note facts = applyReadInfo_cases [OF st(2) ok a]
      show ?thesis
      proof (cases applied)
        case no: False
        then have "g' = g1" using run True Inr id a by (simp add: handleCommandResult_def)
        then show ?thesis using facts by (simp, intro exI [of _ False]) simp
      next
        case yes: True
        define g2 where "g2 = recordResult env ?n uid result g1"
        have "g' = (if changed then g2\<lparr>cg_telemetry := eraseTelemetry (cg_telemetry g2) ?n\<rparr> else g2)"
          using run True Inr id a yes by (cases changed) (simp_all add: handleCommandResult_def Let_def g2_def)
        then have g': "g' = g2 \<or> (\<exists>t. g' = g2\<lparr>cg_telemetry := t\<rparr>)" by (simp split: if_splits) blast
        have ok1: "gatewayCommandsOk env g1" and lock1: "commandsLock (cg_commands g1)"
          using facts True by (auto simp: commandsLock_def commandsStep_def)
        from recordResult_cases [OF st(1) ok1 lock1 result, of ?n uid g2] g2_def
        obtain w where r: "gatewayCommandsOk env g2" "cg_registry g2 = cg_registry g1"
          "cv_deliveries (cg_commands g2) = cv_deliveries (cg_commands g1)"
          "commandsStep (cx_commandOps env) (cg_commands g1) (cg_commands g2) w"
          "w \<longrightarrow> (\<exists>r. findCommand (cv_book (cg_commands g1)) ?n = Some r \<and> cm_state r = CommandPending \<and>
             cm_commandId r = cr_commandId result \<and> sameUid r uid \<and> cr_status result \<noteq> StorageFailure \<and>
             findCommand (cv_book (cg_commands g2)) = (findCommand (cv_book (cg_commands g1)))(?n \<mapsto>
               completedRecord r (cr_status result) (Some (cr_data result)) (unat (cr_dataSize result)) (cx_unixTimeMs env)))"
          by blast
        have step: "commandsStep (cx_commandOps env) (cg_commands g) (cg_commands g2) w"
          using facts r(4) by (auto simp: commandsStep_def)
        have main: "w \<longrightarrow> (\<exists>r. answersDelivery env g ?n result r \<and>
             findCommand (cv_book (cg_commands g2)) = (findCommand (cv_book (cg_commands g)))(?n \<mapsto>
               completedRecord r (cr_status result) (Some (cr_data result)) (unat (cr_dataSize result)) (cx_unixTimeMs env)) \<and>
             (cm_type r = commandTypeValue ReadInfo \<and> cr_status result = Applied \<longrightarrow>
                infoRecorded env g g2 ?n (cm_deviceUid r) result))"
        proof
          assume w
          then obtain r where x: "findCommand (cv_book (cg_commands g)) ?n = Some r" "cm_state r = CommandPending"
             "cm_commandId r = cr_commandId result" "sameUid r uid" "cr_status result \<noteq> StorageFailure"
             "findCommand (cv_book (cg_commands g2)) = (findCommand (cv_book (cg_commands g)))(?n \<mapsto>
               completedRecord r (cr_status result) (Some (cr_data result)) (unat (cr_dataSize result)) (cx_unixTimeMs env))"
            using r(5) facts by auto
          have uid: "cm_deviceUid r = uid"
            using x(4) id activeIdentity_uid [of "cx_registryOps env" "cg_registry g"] ok
            by (simp add: sameUid_def gatewayCommandsOk_def)
          have "answersDelivery env g ?n result r"
            using True id x uid by (simp add: answersDelivery_def)
          moreover have "cm_type r = commandTypeValue ReadInfo \<and> cr_status result = Applied \<longrightarrow>
              infoRecorded env g g2 ?n (cm_deviceUid r) result"
            using facts yes x(1-3) uid r(2) by (auto simp: infoRecorded_def)
          ultimately show "\<exists>r. answersDelivery env g ?n result r \<and>
             findCommand (cv_book (cg_commands g2)) = (findCommand (cv_book (cg_commands g)))(?n \<mapsto>
               completedRecord r (cr_status result) (Some (cr_data result)) (unat (cr_dataSize result)) (cx_unixTimeMs env)) \<and>
             (cm_type r = commandTypeValue ReadInfo \<and> cr_status result = Applied \<longrightarrow>
                infoRecorded env g g2 ?n (cm_deviceUid r) result)"
            using x(6) by blast
        qed
        have f: "cg_commands g' = cg_commands g2" "cg_registry g' = cg_registry g2"
          "gatewayCommandsOk env g' = gatewayCommandsOk env g2"
          using g' by auto
        have "infoRecorded env g g' = infoRecorded env g g2" using f by (simp add: infoRecorded_def fun_eq_iff)
        then show ?thesis using r facts step main Inr f by auto
      qed
    qed
  qed
qed

subsection \<open>Sessions\<close>

lemma commandFrom_ok:
  assumes "bookOk b" "r \<in> set (usedCommands b)" shows "commandOk (commandFrom r nonce)"
proof -
  have v: "validCommandRecord r" using assms by (auto simp: bookOk_iff list_all_iff)
  then have "zeroPadded (cm_arguments r) (unat (cm_argumentSize r)) kMaxCommandArgumentSize"
    by (auto simp: validCommandRecord_def split: if_splits)
  moreover have "length (cm_arguments r) = 8" using book_nodeIds(5) [OF assms] by (simp add: commandShaped_def)
  ultimately show ?thesis
    using book_nodeIds(3,4) [OF assms]
    by (simp add: commandOk_def commandFrom_def zeroPadded_def allZero_def list_all_iff chunk_def)
qed

lemma length_commandImage:
  "length (cmd_arguments c) = kMaxCommandArgumentSize \<Longrightarrow> unat (cmd_argumentSize c) \<le> kMaxCommandArgumentSize \<Longrightarrow>
   length (commandImage c) = commandFrameSize c"
  by (simp add: commandImage_def commandFrameSize_def)

lemma sendNoCommand_sends:
  "sendNoCommand n nonce g = countOn (ct_noCommandReplies_update (\<lambda>n. n + 1))
     (g\<lparr>cg_radio := fst (radioSend (cg_radio g) (ucast n) (Some (sessionImage KNoCommand nonce)) False)\<rparr>)"
  using noCommand.encode_fits [of nonce "zeros 5"]
  by (simp add: sendNoCommand_def sessionImage_def written_full Let_def split: prod.splits)

text \<open>The answer to a session: the pending command of the node, under the nonce of the session, or that
  there is none; only the table of deliveries, the radio's queue and the counters change.\<close>

definition sessionAnswer :: "'s command_gateway \<Rightarrow> u8 \<Rightarrow> u32 \<Rightarrow> bytes" where
  "sessionAnswer g n nonce = (case deliverable n g of
     None \<Rightarrow> sessionImage KNoCommand nonce | Some r \<Rightarrow> commandImage (commandFrom r nonce))"

definition sessionAnswered ::
  "'s CommandEnv \<Rightarrow> 's command_gateway \<Rightarrow> 's command_gateway \<Rightarrow> u8 \<Rightarrow> u32 \<Rightarrow> bool" where
  "sessionAnswered env g g' n nonce \<longleftrightarrow> gatewayCommandsOk env g' \<and>
     cg_radio g' = fst (radioSend (cg_radio g) (ucast n) (Some (sessionAnswer g n nonce)) False) \<and>
     cv_book (cg_commands g') = cv_book (cg_commands g) \<and> cv_flash (cg_commands g') = cv_flash (cg_commands g) \<and>
     cg_registry g' = cg_registry g \<and> commandsLock (cg_commands g') = commandsLock (cg_commands g) \<and>
     cv_deliveries (cg_commands g') = (case deliverable n g of
       None \<Rightarrow> cv_deliveries (cg_commands g)
     | Some r \<Rightarrow> (cv_deliveries (cg_commands g))(n := \<lparr>dv_sessionNonce = nonce, dv_commandId = cm_commandId r\<rparr>))"

lemma handleCommandReady_answers:
  assumes ok: "gatewayCommandsOk env g" "cv_initialized (cg_commands g)"
    and ready: "decodeCommandReady (frameBytes received) = Inr nonce"
    and n: "n = ucast (rf_senderId received)"
  shows "sessionAnswered env g (handleCommandReady received g) n nonce"
proof -
  let ?g = "countOn (ct_sessions_update (\<lambda>n. n + 1)) g"
  have book: "bookOk (cv_book (cg_commands g))" and view: "pendingViewOk (cg_commands g)"
    using ok by (simp_all add: gatewayCommandsOk_def commandsOk_def)
  have del: "deliverable n ?g = deliverable n g" by (auto simp: deliverable_def split: option.splits)
  show ?thesis
  proof (cases "deliverable n g")
    case None
    then have "handleCommandReady received g = sendNoCommand n nonce ?g"
      using ready by (simp add: handleCommandReady_def n [symmetric] Let_def del)
    then show ?thesis
      using None ok by (simp add: sendNoCommand_sends sessionAnswer_def sessionAnswered_def)
  next
    case (Some r)
    then have r: "findCommand (cv_book (cg_commands g)) n = Some r" "cm_state r = CommandPending"
      by (auto simp: deliverable_def split: option.splits if_splits)
    then have "hasPending (cg_commands ?g) n" using hasPending_iff [OF view book] by simp
    have "r \<in> set (usedCommands (cv_book (cg_commands g)))" using r findCommand_iff [OF book] by simp
    from commandFrom_ok [OF book this]
    have c: "commandOk (commandFrom r nonce)" .
    have len: "length (commandImage (commandFrom r nonce)) = commandFrameSize (commandFrom r nonce)"
      using c by (intro length_commandImage) (simp_all add: commandOk_def)
    have "commandFrameSize (commandFrom r nonce) \<le> 16"
      using c by (simp add: commandOk_def commandFrameSize_def)
    then have enc: "encodeCommand (commandFrom r nonce) (Some (zeros 16)) =
        Inr (written (commandImage (commandFrom r nonce)) (zeros 16))"
      using command.encode_fits [OF c, of "zeros 16"] len by simp
    have whole: "take (commandFrameSize (commandFrom r nonce)) (written (commandImage (commandFrom r nonce)) (zeros 16)) =
        commandImage (commandFrom r nonce)"
      using len take_written [of _ "commandImage (commandFrom r nonce)" "zeros 16"]
        \<open>commandFrameSize (commandFrom r nonce) \<le> 16\<close> by simp
    have run: "handleCommandReady received g = countOn (ct_delivered_update (\<lambda>n. n + 1))
        (?g\<lparr>cg_commands := (cg_commands ?g)\<lparr>cv_deliveries := (cv_deliveries (cg_commands ?g))(n :=
             \<lparr>dv_sessionNonce = nonce, dv_commandId = cm_commandId r\<rparr>)\<rparr>,
           cg_radio := fst (radioSend (cg_radio g) (ucast n) (Some (commandImage (commandFrom r nonce))) False)\<rparr>)"
      using ready \<open>hasPending (cg_commands ?g) n\<close> Some enc whole
      by (simp add: handleCommandReady_def n [symmetric] Let_def del split: prod.splits)
    show ?thesis
      unfolding run using ok Some
      by (simp add: sessionAnswered_def sessionAnswer_def gatewayCommandsOk_def countOn_def countCommand_def commandsLock_def)
  qed
qed

subsection \<open>With working flash every answered command completes\<close>

lemma commitCandidate_succeeds:
  assumes st: "slot_storage ops" and w: "writesSucceed ops healthy" "healthy (cv_flash sv)" and b: "bookOk candidate"
    and run: "commitCandidate ops sv candidate = (sv', saved)"
  shows "saved \<and> healthy (cv_flash sv')"
proof -
  let ?st = "cv_store sv" and ?s = "cv_flash sv"
  have shaped: "bookShaped candidate" "validateCommandBook candidate = None" using b by (simp_all add: bookOk_def)
  have le: "unat (cb_count candidate) \<le> 16" using b by (simp add: bookOk_iff)
  obtain d where d: "sc_Encode commandsCodec candidate (ds_generation ?st + 1)
      (Some (zeros (sc_SnapshotSize commandsCodec))) = Inr d"
    using encodeCommandBook_bytes [OF shaped, of "zeros 820"] by (simp add: commandsCodec_def)
  obtain s1 ok where so: "so_write ops ?s (targetSlot (ds_activeSlot ?st)) d = (s1, ok)" by (metis prod.exhaust)
  then have good: ok "healthy s1"
    using w targetSlot_less [of "ds_activeSlot ?st"] unfolding writesSucceed_def by blast+
  with so have "so_write ops ?s (targetSlot (ds_activeSlot ?st)) d = (s1, True)" by simp
  from dual_slot_store.save_succeeds [OF slot_storage.command_store [OF st] shaped(1) d this]
  obtain st' s' where save: "storeSave ops commandsCodec ?st ?s candidate = (st', s', True)" by blast
  then have "s' = ?s \<or> s' = s1"
    using d so good(1) by (auto simp: storeSave_def Let_def split: if_splits option.splits)
  with save run good(2) w(2) show ?thesis by (auto simp: commitCandidate_def Let_def publishPending_def)
qed

lemma updateInfoAndSave_succeeds:
  assumes st: "slot_storage ops" and "serviceOk ops sv" "sv_initialized sv" "sv_mutex sv" "nodeInfoOk info"
    and "writesSucceed ops healthy" "healthy (sv_flash sv)"
    and run: "updateInfoAndSave ops True True sv n uid info = (sv', commit, status)"
  shows "commit \<noteq> RC_StorageError \<and> commit \<noteq> RC_NotInitialized"
proof -
  obtain c r where u: "updateInfo (sv_nodes sv) n uid info = (c, r)" by (metis prod.exhaust)
  have "registryGood (sv_nodes sv)" using assms(2,3) by (simp add: serviceOk_def)
  from serviceEffect_good [OF this, of "SUpdateInfo n uid info"] assms(5) u
  have "registryOk c" by (simp add: registryGood_def)
  obtain sv1 saved where m: "commitCandidateLocked ops sv c = (sv1, saved)" by (metis prod.exhaust)
  from slot_storage.commit_succeeds [OF st assms(6,7) \<open>registryOk c\<close> m] have saved by simp
  then show ?thesis
    using run u m assms(3,4) by (auto simp: updateInfoAndSave_def writable_def commitStatus_def split: if_splits)
qed

text \<open>What the node's answer has to be for its command to complete.\<close>

definition completes :: "CommandRecord \<Rightarrow> CommandResult \<Rightarrow> bool" where
  "completes r result \<longleftrightarrow> commandResultOk result \<and> cr_commandId result = cm_commandId r \<and>
     cr_status result \<noteq> StorageFailure \<and>
     unat (cr_dataSize result) = commandResultDataSize (commandTypeOf (cm_type r)) (cr_status result) \<and>
     (cm_type r = commandTypeValue ReadInfo \<and> cr_status result = Applied \<longrightarrow>
        (\<exists>info. decodeNodeInfo (Some (take (unat (cr_dataSize result)) (cr_data result))) = Inr info))"

lemma recordResult_completes:
  assumes st: "slot_storage (cx_commandOps env)" and ok: "gatewayCommandsOk env g" and lock: "commandsLock (cg_commands g)"
    and r: "findCommand (cv_book (cg_commands g)) n = Some r" "cm_state r = CommandPending" "sameUid r uid"
    and result: "completes r result"
    and w: "writesSucceed (cx_commandOps env) healthy" "healthy (cv_flash (cg_commands g))"
  shows "findCommand (cv_book (cg_commands (recordResult env n uid result g))) = (findCommand (cv_book (cg_commands g)))(n \<mapsto>
      completedRecord r (cr_status result) (Some (cr_data result)) (unat (cr_dataSize result)) (cx_unixTimeMs env))"
proof -
  let ?b = "cv_book (cg_commands g)"
  have cok: "commandsOk (cx_commandOps env) (cg_commands g)" and init: "cv_initialized (cg_commands g)"
    using ok lock by (simp_all add: gatewayCommandsOk_def commandsLock_def)
  have book: "bookOk ?b" using cok init by (simp add: commandsOk_def)
  obtain b res where c: "complete ?b (Some uid) n (cr_commandId result) (cr_status result) (Some (cr_data result))
      (unat (cr_dataSize result)) (cx_unixTimeMs env) = (b, res)" by (metis prod.exhaust)
  obtain i where i: "indexOf ?b n = Some i" "cb_records ?b ! i = r"
    using r(1) by (auto simp: findCommand_def split: option.splits)
  have valid: "validCommandStatus (commandStatusValue (cr_status result))"
    using result validCommandStatus_value [of "cr_status result"] by (auto simp: completes_def commandResultOk_def)
  have "res = CompleteDone"
    using c i r result valid by (auto simp: complete_def completes_def Let_def split: if_splits)
  have data: "unat (cr_dataSize result) \<le> length (cr_data result)"
    and status: "commandStatusOf (commandStatusValue (cr_status result)) = cr_status result"
    using result by (auto simp: completes_def commandResultOk_def commandStatusOf_def)
  from complete_ok [OF book _ status c] data \<open>res = CompleteDone\<close> r
  have b: "bookOk b" "findCommand b = (findCommand ?b)(n \<mapsto> completedRecord r (cr_status result) (Some (cr_data result))
         (unat (cr_dataSize result)) (cx_unixTimeMs env))" by auto
  obtain sv saved where m: "commitCandidate (cx_commandOps env) (cg_commands g) b = (sv, saved)" by (metis prod.exhaust)
  have saved using commitCandidate_succeeds [OF st w b(1) m] by simp
  have "cm_state (completedRecord r st d k now) = CommandCompleted" for st d k now
    by (simp add: completedRecord_def)
  with r(1,2) b(2) have "cm_state (the (findCommand b n)) \<noteq> cm_state (the (findCommand ?b n))" by simp
  then have "findCommand b n \<noteq> findCommand ?b n" by auto
  then have "\<not> commandBooksEqual ?b b" using commandBooksEqual_find [OF book b(1)] by metis
  from slot_storage.commitCandidate_committed [OF st cok init b(1) this m] \<open>saved\<close>
  have "cv_book sv = b" by (simp add: bookCommitted_def)
  then show ?thesis using b(2) c m \<open>saved\<close> \<open>res = CompleteDone\<close> by (simp add: recordResult_def Let_def)
qed

definition registryWorks :: "'s CommandEnv \<Rightarrow> ('s \<Rightarrow> bool) \<Rightarrow> 's command_gateway \<Rightarrow> bool" where
  "registryWorks env healthy g \<longleftrightarrow> cx_allocated env \<and> sv_initialized (cg_registry g) \<and> sv_mutex (cg_registry g) \<and>
     writesSucceed (cx_registryOps env) healthy \<and> healthy (sv_flash (cg_registry g))"

lemma applyReadInfo_succeeds:
  assumes st: "slot_storage (cx_registryOps env)" and ok: "gatewayCommandsOk env g"
    and works: "registryWorks env healthy g" "cx_guarded env" and r: "findCommand (cv_book (cg_commands g)) n = Some r" and result: "completes r result"
    and run: "applyReadInfo env n uid result g = (g', applied, changed)"
  shows "applied \<and> cg_commands g' = cg_commands g"
proof -
  have "commit \<noteq> RC_StorageError \<and> commit \<noteq> RC_NotInitialized"
    if "updateInfoAndSave (cx_registryOps env) True True (cg_registry g) n (Some uid) info = (reg, commit, status)"
      "nodeInfoOk info" for info reg commit status
    using updateInfoAndSave_succeeds [OF st _ _ _ that(2) _ _ that(1), of healthy] ok works
    by (auto simp: gatewayCommandsOk_def registryWorks_def)
  then show ?thesis
    using run r result works nodeInfo.decode_exact
    by (auto simp: applyReadInfo_def completes_def registryWorks_def Let_def split: if_splits sum.splits prod.splits)
qed

lemma handleCommandResult_completes:
  assumes st: "slot_storage (cx_commandOps env)" "slot_storage (cx_registryOps env)"
    and ok: "gatewayCommandsOk env g" and lock: "commandsLock (cg_commands g)"
    and works: "registryWorks env healthyR g" "cx_guarded env"
    and w: "writesSucceed (cx_commandOps env) healthy" "healthy (cv_flash (cg_commands g))"
    and dec: "decodeCommandResult (frameBytes received) emptyCommandResult = Inr result"
    and n: "n = ucast (rf_senderId received)"
    and r: "deliverable n g = Some r" "completes r result"
    and dv: "cv_deliveries (cg_commands g) n = \<lparr>dv_sessionNonce = cr_sessionNonce result, dv_commandId = cr_commandId result\<rparr>"
  shows "findCommand (cv_book (cg_commands (handleCommandResult env received g))) =
    (findCommand (cv_book (cg_commands g)))(n \<mapsto>
      completedRecord r (cr_status result) (Some (cr_data result)) (unat (cr_dataSize result)) (cx_unixTimeMs env))"
proof -
  obtain p where id: "activeIdentity (cg_registry g) n = Some (cm_deviceUid r, p)"
    and f: "findCommand (cv_book (cg_commands g)) n = Some r" "cm_state r = CommandPending"
    using r(1) by (auto simp: deliverable_def split: option.splits if_splits)
  obtain g1 applied changed where a: "applyReadInfo env n (cm_deviceUid r) result g = (g1, applied, changed)"
    by (metis prod_cases3)
  from applyReadInfo_succeeds [OF st(2) ok works f(1) r(2) a]
  have g1: applied "cg_commands g1 = cg_commands g" by simp_all
  from applyReadInfo_cases [OF st(2) ok a] have ok1: "gatewayCommandsOk env g1" by simp
  have "sameUid r (cm_deviceUid r)"
    using activeIdentity_uid(2) [OF _ id] ok by (auto simp: sameUid_def gatewayCommandsOk_def)
  from recordResult_completes [OF st(1) ok1 _ _ f(2) this r(2) w(1)] lock f(1) w(2) g1
  have "findCommand (cv_book (cg_commands (recordResult env n (cm_deviceUid r) result g1))) =
    (findCommand (cv_book (cg_commands g)))(n \<mapsto>
      completedRecord r (cr_status result) (Some (cr_data result)) (unat (cr_dataSize result)) (cx_unixTimeMs env))"
    by simp
  moreover have "cg_commands (handleCommandResult env received g) =
      cg_commands (recordResult env n (cm_deviceUid r) result g1)"
    using dec n works(2) id lock dv a g1(1) by (simp add: handleCommandResult_def Let_def)
  ultimately show ?thesis by simp
qed

subsection \<open>Every reachable state\<close>

lemma randomCommandId_nonzero: "randomCommandId rs = Some v \<Longrightarrow> v \<noteq> 0"
  by (induction rs rule: randomCommandId.induct) (auto split: if_splits)

lemma randomCommandId_returns: "randomCommandId rs \<noteq> None \<longleftrightarrow> (\<exists>r \<in> set rs. (ucast r :: u16) \<noteq> 0)"
  by (induction rs rule: randomCommandId.induct) auto

lemma storeLoad_commands:
  assumes "storeLoad ops commandsCodec s = (st, book, status)"
  shows "bookOk book \<and> (ds_loaded st \<longleftrightarrow> status = Loaded) \<and> (ds_loaded st \<longrightarrow> ds_current st = book)"
proof (cases "status = Loaded")
  case True
  have "bookOk book" using loaded_bookOk assms unfolding True .
  then show ?thesis using assms True by (auto simp: storeLoad_def split: option.splits if_splits)
next
  case False
  then show ?thesis
    using assms bookOk_default by (auto simp: storeLoad_def commandsCodec_def split: option.splits)
qed

lemma commandsBegin_ok:
  assumes st: "slot_storage ops" and "\<not> cv_initialized sv"
    and run: "commandsBegin ops mutexMade slotsReady randoms radioStarted taskMade sv = Some (sv', res)"
  shows "commandsOk ops sv'" "res \<Longrightarrow> commandsLock sv'"
proof -
  obtain store book status where l: "storeLoad ops commandsCodec (cv_flash sv) = (store, book, status)"
    by (metis prod_cases3)
  have "commandsOk ops sv' \<and> (res \<longrightarrow> commandsLock sv')"
  proof (cases "mutexMade \<and> slotsReady")
    case False
    then show ?thesis using run assms(2) by (auto simp: commandsBegin_def commandsOk_def Let_def split: if_splits)
  next
    case True
    then obtain book' where b': "(if status \<noteq> Loaded
        then map_option (\<lambda>v. book\<lparr>cb_nextCommandId := v\<rparr>) (randomCommandId randoms) else Some book) = Some book'"
      and sv': "sv' = (publishPending (sv\<lparr>cv_mutex := True, cv_store := store, cv_book := book'\<rparr>))\<lparr>cv_initialized := True\<rparr>"
      using run l by (auto simp: commandsBegin_def Let_def split: if_splits option.splits)
    note facts = storeLoad_commands [OF l]
    have "bookOk book'"
    proof (cases "status = Loaded")
      case True then show ?thesis using b' facts by simp
    next
      case False
      then obtain v where v: "v \<noteq> 0" "book' = book\<lparr>cb_nextCommandId := v\<rparr>"
        using b' randomCommandId_nonzero by auto
      then have "usedCommands book' = usedCommands book" by (simp add: usedCommands_def)
      then show ?thesis using facts v by (simp add: bookOk_iff bookShaped_def)
    qed
    moreover have "storeSound ops commandsCodec store (cv_flash sv)"
      by (rule dual_slot_store.load_sound [OF slot_storage.command_store [OF st] l])
    moreover have "ds_loaded store \<longrightarrow> ds_current store = book'" using facts b' by auto
    ultimately show ?thesis
      by (simp add: sv' commandsOk_def publishPending_def pendingViewOk_def commandsLock_def)
  qed
  then show "commandsOk ops sv'" "res \<Longrightarrow> commandsLock sv'" by simp_all
qed

text \<open>
  A life of the service: start, sessions, results, requests of the web interface, and other services
  changing what they own (the registry stays sound, see Registry\_Service).
\<close>

inductive gateway_run :: "'s CommandEnv \<Rightarrow> 's command_gateway \<Rightarrow> bool" for env where
  run_begin: "commandsBegin (cx_commandOps env) mutexMade slotsReady randoms radioStarted taskMade
      (newCommandService flash) = Some (sv, res) \<Longrightarrow> serviceOk (cx_registryOps env) (cg_registry g) \<Longrightarrow>
    gateway_run env (g\<lparr>cg_commands := sv\<rparr>)"
| run_ready: "gateway_run env g \<Longrightarrow> cv_initialized (cg_commands g) \<Longrightarrow> gateway_run env (handleCommandReady received g)"
| run_result: "gateway_run env g \<Longrightarrow>
    gateway_run env (handleCommandResult (env\<lparr>cx_guarded := guarded, cx_allocated := allocated, cx_unixTimeMs := t\<rparr>) received g)"
| run_queue: "gateway_run env g \<Longrightarrow> (\<forall>bs. args = Some bs \<longrightarrow> n \<le> length bs) \<Longrightarrow>
    commandsQueue (cx_commandOps env) guarded (activeIdentity (cg_registry g)) t (cg_commands g) nodeId type args n =
      (sv, r1, queued) \<Longrightarrow> gateway_run env (g\<lparr>cg_commands := sv\<rparr>)"
| run_cancel: "gateway_run env g \<Longrightarrow> commandsCancel (cx_commandOps env) guarded (cg_commands g) nodeId = (sv, r2) \<Longrightarrow>
    gateway_run env (g\<lparr>cg_commands := sv\<rparr>)"
| run_remove: "gateway_run env g \<Longrightarrow> commandsRemoveNode (cx_commandOps env) guarded (cg_commands g) nodeId = (sv, r3) \<Longrightarrow>
    gateway_run env (g\<lparr>cg_commands := sv\<rparr>)"
| run_clear: "gateway_run env g \<Longrightarrow> commandsClear (cx_commandOps env) guarded (cg_commands g) = (sv, r4) \<Longrightarrow>
    gateway_run env (g\<lparr>cg_commands := sv\<rparr>)"
| run_others: "gateway_run env g \<Longrightarrow> serviceOk (cx_registryOps env) registry \<Longrightarrow>
    gateway_run env (g\<lparr>cg_registry := registry, cg_radio := radio, cg_telemetry := telemetry\<rparr>)"

lemma gatewayCommandsOk_env [simp]:
  "gatewayCommandsOk (env\<lparr>cx_guarded := a, cx_allocated := b, cx_unixTimeMs := c\<rparr>) g = gatewayCommandsOk env g"
  by (simp add: gatewayCommandsOk_def)

lemma handleCommandReady_rejected:
  "decodeCommandReady (frameBytes received) = Inl e \<Longrightarrow> handleCommandReady received g = commandRejected g"
  by (simp add: handleCommandReady_def)

lemma gateway_run_ok:
  assumes st: "slot_storage (cx_commandOps env)" "slot_storage (cx_registryOps env)" and run: "gateway_run env g"
  shows "gatewayCommandsOk env g"
  using run
proof (induction rule: gateway_run.induct)
  case (run_begin mutexMade slotsReady randoms radioStarted taskMade flash sv res g)
  then show ?case
    using commandsBegin_ok(1) [OF st(1) _ run_begin(1)] by (simp add: gatewayCommandsOk_def newCommandService_def)
next
  case (run_ready g received)
  show ?case
  proof (cases "decodeCommandReady (frameBytes received)")
    case (Inl e) then show ?thesis using run_ready by (simp add: handleCommandReady_rejected)
  next
    case (Inr nonce)
    from handleCommandReady_answers [OF run_ready.IH run_ready(2) Inr refl] show ?thesis
      by (simp add: sessionAnswered_def)
  qed
next
  case (run_result g t allocated guarded received)
  let ?env = "env\<lparr>cx_guarded := guarded, cx_allocated := allocated, cx_unixTimeMs := t\<rparr>"
  have "slot_storage (cx_commandOps ?env)" "slot_storage (cx_registryOps ?env)" "gatewayCommandsOk ?env g"
    using st run_result.IH by simp_all
  from handleCommandResult_cases [OF this refl, of received] show ?case by simp
next
  case (run_queue g args n guarded t nodeId type sv r1 queued)
  have "queueInput (Some uid) args n" if "activeIdentity (cg_registry g) nodeId = Some (uid, p)" for uid p
    using activeIdentity_uid(1) [OF _ that] run_queue by (auto simp: queueInput_def gatewayCommandsOk_def)
  from slot_storage.commandsQueue_ok [OF st(1) _ this run_queue(3)] run_queue.IH show ?case
    by (simp add: gatewayCommandsOk_def commandsStep_def)
next
  case (run_cancel g guarded nodeId sv r2)
  from slot_storage.commandsCancel_ok [OF st(1) _ run_cancel(2)] run_cancel.IH show ?case
    by (simp add: gatewayCommandsOk_def commandsStep_def)
next
  case (run_remove g guarded nodeId sv r3)
  from slot_storage.commandsRemoveNode_ok [OF st(1) _ run_remove(2)] run_remove.IH show ?case
    by (simp add: gatewayCommandsOk_def commandsStep_def)
next
  case (run_clear g guarded sv r4)
  from slot_storage.commandsClear_ok [OF st(1) _ run_clear(2)] run_clear.IH show ?case
    by (simp add: gatewayCommandsOk_def commandsStep_def)
next
  case (run_others g registry radio telemetry)
  then show ?case by (simp add: gatewayCommandsOk_def)
qed

lemma pending_count:
  assumes "pendingViewOk sv" "bookOk (cv_book sv)"
  shows "unat (cv_publishedPending sv) = length (pendingRecords (usedCommands (cv_book sv)))"
proof -
  have "length (usedCommands (cv_book sv)) \<le> 16"
    using bookOk_length [OF assms(2)] assms(2) by (simp add: bookOk_iff)
  then have "length (pendingRecords (usedCommands (cv_book sv))) \<le> 16"
    unfolding pendingRecords_def by (meson length_filter_le order_trans)
  then show ?thesis using assms(1) by (simp add: pendingViewOk_def pendingWords_fold unat_of_nat)
qed

end
