(* ===== verification/Node_Radio.thy ===== *)
theory Node_Radio
  imports Telemetry_Codecs Node_Storage
begin

text \<open>
  node/lib/NodeCore: NodeRadio.h and NodeRadio.cpp, the node's use of its RFM69 module.  The radio
  library and the timer are not part of the repository: \<open>rfm69\<close> lists what the code calls,
  over an unspecified state \<open>'m\<close> of module and timer.  A wait that never ends is the value None.
\<close>

abbreviation (input) kAckWaitMs :: u32 where "kAckWaitMs \<equiv> 40"

text \<open>The registers the code names (RFM69registers.h).\<close>

abbreviation (input) regFrfMsb :: u8 where "regFrfMsb \<equiv> 0x07"
abbreviation (input) regIrqFlags1 :: u8 where "regIrqFlags1 \<equiv> 0x27"
abbreviation (input) regSyncValue2 :: u8 where "regSyncValue2 \<equiv> 0x30"
abbreviation (input) syncAddressMatch :: u8 where "syncAddressMatch \<equiv> 0x01"

record 'm rfm69 = "'m radio_registers" +
  rm_initialize :: "u8 \<Rightarrow> u8 \<Rightarrow> 'm \<Rightarrow> 'm \<times> bool"
  rm_setHighPower :: "'m \<Rightarrow> 'm"
  rm_setAddress :: "u8 \<Rightarrow> 'm \<Rightarrow> 'm"
  rm_setNetwork :: "u8 \<Rightarrow> 'm \<Rightarrow> 'm"
  rm_setPowerLevel :: "u8 \<Rightarrow> 'm \<Rightarrow> 'm"
  rm_send :: "u8 \<Rightarrow> bytes \<Rightarrow> bool \<Rightarrow> 'm \<Rightarrow> 'm"
  rm_sendWithRetry :: "u8 \<Rightarrow> bytes \<Rightarrow> u8 \<Rightarrow> u8 \<Rightarrow> 'm \<Rightarrow> 'm \<times> bool"
  rm_receiveDone :: "'m \<Rightarrow> 'm \<times> bool"
  rm_ACKReceived :: "u8 \<Rightarrow> 'm \<Rightarrow> 'm \<times> bool"
  rm_senderId :: "'m \<Rightarrow> u16"
  rm_data :: "'m \<Rightarrow> bytes"
  rm_readRSSI :: "'m \<Rightarrow> 'm \<times> s16"
  rm_sleep :: "'m \<Rightarrow> 'm"
  rm_millis :: "'m \<Rightarrow> 'm \<times> u32"
  rm_micros :: "'m \<Rightarrow> 'm \<times> u32"

text \<open>\<open>rm_data\<close> is DATA as far as DATALEN says.  The members of \<open>NodeRadio\<close>, with the module in
  \<open>nd_radio\<close>; \<open>maxLevel\<close> below is NODE\_RADIO\_MAX\_POWER\_LEVEL of the build.\<close>

record 'm node_radio =
  nd_radio :: 'm
  nd_address :: u8
  nd_network :: u8
  nd_key :: bytes
  nd_level :: u8
  nd_frequencyMsb :: u8

definition newNodeRadio :: "u8 \<Rightarrow> 'm \<Rightarrow> 'm node_radio" where
  "newNodeRadio maxLevel m = \<lparr>nd_radio = m, nd_address = 0, nd_network = 0, nd_key = zeros 16,
     nd_level = maxLevel, nd_frequencyMsb = 0\<rparr>"

definition onModule :: "('m \<Rightarrow> 'm) \<Rightarrow> 'm node_radio \<Rightarrow> 'm node_radio" where
  "onModule f r = r\<lparr>nd_radio := f (nd_radio r)\<rparr>"

subsection \<open>Start and profiles\<close>

definition nodeRadioBegin :: "'m rfm69 \<Rightarrow> u8 \<Rightarrow> u8 \<Rightarrow> 'm node_radio \<Rightarrow> 'm node_radio \<times> bool" where
  "nodeRadioBegin L nodeId networkId r =
     (let (m, initialized) = rm_initialize L nodeId networkId (nd_radio r);
          m = rm_setHighPower L m;
          r = r\<lparr>nd_radio := m\<rparr>
      in (if initialized then r\<lparr>nd_frequencyMsb := rr_readReg L regFrfMsb m\<rparr> else r, initialized))"

definition nodeSetPowerLevel :: "'m rfm69 \<Rightarrow> u8 \<Rightarrow> 'm node_radio \<Rightarrow> 'm node_radio" where
  "nodeSetPowerLevel L level r = onModule (rm_setPowerLevel L level) (r\<lparr>nd_level := level\<rparr>)"

definition applyProfile :: "'m rfm69 \<Rightarrow> u8 \<Rightarrow> u8 \<Rightarrow> bytes \<Rightarrow> 'm node_radio \<Rightarrow> 'm node_radio" where
  "applyProfile L address network key r =
     (let r = r\<lparr>nd_address := address, nd_network := network, nd_key := key\<rparr>;
          r = onModule (rm_setAddress L address) r;
          r = onModule (rm_setNetwork L network) r
      in onModule (aesEnable (radio_registers.truncate L) key) r)"

definition useCommissioningProfile :: "'m rfm69 \<Rightarrow> u8 \<Rightarrow> bytes \<Rightarrow> 'm node_radio \<Rightarrow> 'm node_radio" where
  "useCommissioningProfile L maxLevel factoryKey r =
     nodeSetPowerLevel L maxLevel (applyProfile L 0 0 factoryKey r)"

definition useOperationalProfile :: "'m rfm69 \<Rightarrow> u8 \<Rightarrow> NetworkConfig \<Rightarrow> 'm node_radio \<Rightarrow> 'm node_radio" where
  "useOperationalProfile L maxLevel config r =
     nodeSetPowerLevel L maxLevel
       (applyProfile L (nc_nodeId config) (nc_networkId config) (nc_installationKey config) r)"

definition configured :: "'m rfm69 \<Rightarrow> 'm node_radio \<Rightarrow> bool" where
  "configured L r \<longleftrightarrow> rr_readReg L regFrfMsb (nd_radio r) = nd_frequencyMsb r \<and>
     rr_readReg L kPacketConfig2Register (nd_radio r) AND kAesOn \<noteq> 0 \<and>
     rr_readReg L regSyncValue2 (nd_radio r) = nd_network r"

definition nodeSleep :: "'m rfm69 \<Rightarrow> 'm node_radio \<Rightarrow> 'm node_radio" where
  "nodeSleep L = onModule (rm_sleep L)"

definition ensureConfigured :: "'m rfm69 \<Rightarrow> 'm node_radio \<Rightarrow> 'm node_radio \<times> bool" where
  "ensureConfigured L r =
     (if configured L r then (r, True)
      else
        case nodeRadioBegin L (nd_address r) (nd_network r) r of
          (r, False) \<Rightarrow> (nodeSleep L r, False)
        | (r, True) \<Rightarrow>
            let r = onModule (aesEnable (radio_registers.truncate L) (nd_key r)) r;
                r = onModule (rm_setPowerLevel L (nd_level r)) r;
                r = nodeSleep L r
            in (r, configured L r))"

subsection \<open>Sending\<close>

text \<open>The inner loop: wait for the acknowledgement of the frame sent at \<open>sent\<close>; Some the RSSI sampled
  when the sync word matched, None when the time is up.\<close>

partial_function (option) awaitAck ::
  "'m rfm69 \<Rightarrow> u8 \<Rightarrow> u32 \<Rightarrow> bool \<Rightarrow> s8 \<Rightarrow> 'm \<Rightarrow> ('m \<times> s8 option) option" where
  "awaitAck L gatewayId sent synced rssi m =
     (let (m, now) = rm_millis L m in
      if now - sent < kAckWaitMs then
        let sync = rr_readReg L regIrqFlags1 m AND syncAddressMatch \<noteq> 0;
            (m, rssi) = (if sync \<and> \<not> synced
                         then (let (m, v) = rm_readRSSI L m in (m, downlinkRssiValue v)) else (m, rssi));
            (m, acked) = rm_ACKReceived L gatewayId m
        in if \<not> acked then awaitAck L gatewayId sent sync rssi m else Some (m, Some rssi)
      else Some (m, None))"

text \<open>The loop over the attempts.\<close>

fun sendAttempts ::
  "'m rfm69 \<Rightarrow> u8 \<Rightarrow> bytes \<Rightarrow> nat \<Rightarrow> 'm \<Rightarrow> ('m \<times> (TelemetryAck \<times> s8) option) option" where
  "sendAttempts L gatewayId frame 0 m = Some (rm_sleep L m, None)"
| "sendAttempts L gatewayId frame (Suc n) m =
     (let m = rm_send L gatewayId frame True m;
          (m, sent) = rm_millis L m
      in case awaitAck L gatewayId sent False kNoDownlinkRssi m of
           None \<Rightarrow> None
         | Some (m, Some rssi) \<Rightarrow>
             Some (rm_sleep L m, Some (decodeTelemetryAck (Some (rm_data L m)), rssi))
         | Some (m, None) \<Rightarrow> sendAttempts L gatewayId frame n m)"

text \<open>The acknowledgement and its strength, None when there was none.\<close>

definition sendTelemetry ::
  "'m rfm69 \<Rightarrow> u8 \<Rightarrow> bytes \<Rightarrow> u8 \<Rightarrow> 'm node_radio \<Rightarrow> ('m node_radio \<times> (TelemetryAck \<times> s8) option) option" where
  "sendTelemetry L gatewayId frame attempts r =
     map_option (\<lambda>(m, res). (r\<lparr>nd_radio := m\<rparr>, res))
       (sendAttempts L gatewayId frame (unat attempts) (nd_radio r))"

definition sendAcknowledged :: "'m rfm69 \<Rightarrow> u8 \<Rightarrow> bytes \<Rightarrow> 'm node_radio \<Rightarrow> 'm node_radio \<times> bool" where
  "sendAcknowledged L recipient frame r =
     (let (m, sent) = rm_sendWithRetry L recipient frame 2 40 (nd_radio r) in (r\<lparr>nd_radio := m\<rparr>, sent))"

definition nodeSend :: "'m rfm69 \<Rightarrow> u8 \<Rightarrow> bytes \<Rightarrow> 'm node_radio \<Rightarrow> 'm node_radio" where
  "nodeSend L recipient frame = onModule (rm_send L recipient frame False)"

subsection \<open>Receiving\<close>

partial_function (option) receiveLoop ::
  "'m rfm69 \<Rightarrow> u32 \<Rightarrow> u32 \<Rightarrow> u8 \<Rightarrow> nat \<Rightarrow> nat \<Rightarrow> 'm \<Rightarrow> ('m \<times> bytes option) option" where
  "receiveLoop L started timeoutMs expectedSender minimumSize maximumSize m =
     (let (m, now) = rm_millis L m in
      if now - started < timeoutMs then
        let (m, received) = rm_receiveDone L m in
        if \<not> received then receiveLoop L started timeoutMs expectedSender minimumSize maximumSize m
        else if rm_senderId L m = ucast expectedSender \<and> minimumSize \<le> length (rm_data L m) \<and>
                length (rm_data L m) \<le> maximumSize
        then Some (m, Some (rm_data L m))
        else receiveLoop L started timeoutMs expectedSender minimumSize maximumSize (fst (rm_receiveDone L m))
      else Some (m, None))"

definition receiveMatching ::
  "'m rfm69 \<Rightarrow> u32 \<Rightarrow> u8 \<Rightarrow> nat \<Rightarrow> nat \<Rightarrow> 'm node_radio \<Rightarrow> ('m node_radio \<times> bytes option) option" where
  "receiveMatching L timeoutMs expectedSender minimumSize maximumSize r =
     (let (m, started) = rm_millis L (nd_radio r);
          (m, ignored) = rm_receiveDone L m
      in map_option (\<lambda>(m, res). (r\<lparr>nd_radio := m\<rparr>, res))
           (receiveLoop L started timeoutMs expectedSender minimumSize maximumSize m))"

definition nodeReceive ::
  "'m rfm69 \<Rightarrow> u32 \<Rightarrow> u8 \<Rightarrow> nat \<Rightarrow> 'm node_radio \<Rightarrow> ('m node_radio \<times> bytes option) option" where
  "nodeReceive L timeoutMs expectedSender expectedSize r =
     receiveMatching L timeoutMs expectedSender expectedSize expectedSize r"

definition receiveFrame ::
  "'m rfm69 \<Rightarrow> u32 \<Rightarrow> u8 \<Rightarrow> nat \<Rightarrow> 'm node_radio \<Rightarrow> ('m node_radio \<times> bytes option) option" where
  "receiveFrame L timeoutMs expectedSender capacity r =
     receiveMatching L timeoutMs expectedSender 1 capacity r"

subsection \<open>The waits end\<close>

text \<open>
  A timer that runs: \<open>elapsed\<close> is the time in microseconds since the module started, every call takes
  some, none longer than half the range of the counter, and \<open>millis\<close> reads it.
\<close>

definition timerRuns :: "'m rfm69 \<Rightarrow> ('m \<Rightarrow> nat) \<Rightarrow> bool" where
  "timerRuns L elapsed \<longleftrightarrow>
     (\<forall>m. elapsed m < elapsed (fst (rm_millis L m)) \<and> elapsed (fst (rm_millis L m)) \<le> elapsed m + 10 ^ 9 \<and>
          snd (rm_millis L m) = of_nat (elapsed (fst (rm_millis L m)) div 1000)) \<and>
     (\<forall>m. elapsed m \<le> elapsed (fst (rm_receiveDone L m)) \<and>
          elapsed (fst (rm_receiveDone L m)) \<le> elapsed m + 10 ^ 9) \<and>
     (\<forall>m. elapsed m \<le> elapsed (fst (rm_readRSSI L m)) \<and> elapsed (fst (rm_readRSSI L m)) \<le> elapsed m + 10 ^ 9) \<and>
     (\<forall>a m. elapsed m \<le> elapsed (fst (rm_ACKReceived L a m)) \<and>
          elapsed (fst (rm_ACKReceived L a m)) \<le> elapsed m + 10 ^ 9)"

lemma timerRuns_millis:
  "timerRuns L elapsed \<Longrightarrow> rm_millis L m = (m', now) \<Longrightarrow>
   elapsed m < elapsed m' \<and> elapsed m' \<le> elapsed m + 10 ^ 9 \<and> now = of_nat (elapsed m' div 1000)"
  unfolding timerRuns_def by (metis fst_conv snd_conv)

lemma timerRuns_receiveDone:
  "timerRuns L elapsed \<Longrightarrow> rm_receiveDone L m = (m', b) \<Longrightarrow> elapsed m \<le> elapsed m' \<and> elapsed m' \<le> elapsed m + 10 ^ 9"
  unfolding timerRuns_def by (metis fst_conv)

lemma timerRuns_readRSSI:
  "timerRuns L elapsed \<Longrightarrow> rm_readRSSI L m = (m', v) \<Longrightarrow> elapsed m \<le> elapsed m' \<and> elapsed m' \<le> elapsed m + 10 ^ 9"
  unfolding timerRuns_def by (metis fst_conv)

lemma timerRuns_ACKReceived:
  "timerRuns L elapsed \<Longrightarrow> rm_ACKReceived L a m = (m', b) \<Longrightarrow> elapsed m \<le> elapsed m' \<and> elapsed m' \<le> elapsed m + 10 ^ 9"
  unfolding timerRuns_def by (metis fst_conv)

text \<open>While the loop runs, at most the timeout has passed; so the time it has left is a measure.\<close>

lemma unat_elapsed_difference:
  assumes "s \<le> t" "t - s < 2 ^ 32"
  shows "unat ((of_nat t :: u32) - of_nat s) = t - s"
proof -
  have "(of_nat t :: u32) - of_nat s = of_nat (t - s)" using assms(1) by (simp add: of_nat_diff)
  then show ?thesis using assms(2) by (simp add: unat_of_nat take_bit_nat_eq_self unsigned_of_nat)
qed

lemma still_waiting:
  assumes "started = of_nat (s div 1000)" "now = of_nat (t div 1000)" "s \<le> t" "t < s + 4000000000000"
    and "(now :: u32) - started < timeoutMs"
  shows "t < s + 1000 * unat timeoutMs + 1000"
proof -
  have "s div 1000 \<le> t div 1000" using assms(3) by (rule div_le_mono)
  moreover have "t div 1000 - s div 1000 < 4294967296" using assms(4) by linarith
  ultimately have "unat (now - started) = t div 1000 - s div 1000"
    using unat_elapsed_difference [of "s div 1000" "t div 1000"] assms(1,2) by simp
  then have "t div 1000 - s div 1000 < unat timeoutMs" using assms(5) by (simp add: word_less_nat_alt)
  then show ?thesis using assms(3) by linarith
qed

lemma receiveLoop_returns:
  assumes run: "timerRuns L elapsed" and started: "started = of_nat (s div 1000)"
    and timeout: "unat timeoutMs < 10 ^ 9"
  shows "s \<le> elapsed m \<Longrightarrow> elapsed m < s + 1000 * unat timeoutMs + 3 * 10 ^ 9 + 1000 \<Longrightarrow>
    receiveLoop L started timeoutMs who lo hi m \<noteq> None"
proof (induction "s + 1000 * unat timeoutMs + 3 * 10 ^ 9 + 1000 - elapsed m" arbitrary: m rule: less_induct)
  case less
  obtain m1 now where m1: "rm_millis L m = (m1, now)" by (metis prod.exhaust)
  obtain m2 received where m2: "rm_receiveDone L m1 = (m2, received)" by (metis prod.exhaust)
  obtain m3 x where m3: "rm_receiveDone L m2 = (m3, x)" by (metis prod.exhaust)
  note t = timerRuns_millis [OF run m1] timerRuns_receiveDone [OF run m2] timerRuns_receiveDone [OF run m3]
  show ?case
  proof (cases "now - started < timeoutMs")
    case False
    then show ?thesis by (subst receiveLoop.simps) (simp add: m1)
  next
    case True
    have "elapsed m1 < s + 1000 * unat timeoutMs + 1000"
    proof (rule still_waiting [OF started _ _ _ True])
      show "now = of_nat (elapsed m1 div 1000)" using t(1) by simp
      show "s \<le> elapsed m1" "elapsed m1 < s + 4000000000000" using t(1) less.prems timeout by simp_all
    qed
    then have again: "receiveLoop L started timeoutMs who lo hi m2 \<noteq> None"
      "receiveLoop L started timeoutMs who lo hi m3 \<noteq> None"
      using t less.prems by (intro less.hyps; linarith)+
    show ?thesis
      using again True by (subst receiveLoop.simps) (simp add: m1 m2 m3)
  qed
qed

lemma awaitAck_returns:
  assumes run: "timerRuns L elapsed" and sent: "sent = of_nat (s div 1000)"
  shows "s \<le> elapsed m \<Longrightarrow> elapsed m < s + 41000 + 3 * 10 ^ 9 \<Longrightarrow>
    awaitAck L gatewayId sent synced rssi m \<noteq> None"
proof (induction "s + 41000 + 3 * 10 ^ 9 - elapsed m" arbitrary: m synced rssi rule: less_induct)
  case less
  obtain m1 now where m1: "rm_millis L m = (m1, now)" by (metis prod.exhaust)
  obtain m2 v where m2: "rm_readRSSI L m1 = (m2, v)" by (metis prod.exhaust)
  obtain m3 a where m3: "rm_ACKReceived L gatewayId m1 = (m3, a)" by (metis prod.exhaust)
  obtain m4 b where m4: "rm_ACKReceived L gatewayId m2 = (m4, b)" by (metis prod.exhaust)
  note t = timerRuns_millis [OF run m1] timerRuns_readRSSI [OF run m2] timerRuns_ACKReceived [OF run m3]
    timerRuns_ACKReceived [OF run m4]
  show ?case
  proof (cases "now - sent < 40")
    case False
    then show ?thesis by (subst awaitAck.simps) (simp add: m1)
  next
    case True
    have "elapsed m1 < s + 1000 * unat (40 :: u32) + 1000"
    proof (rule still_waiting [OF sent _ _ _ True])
      show "now = of_nat (elapsed m1 div 1000)" using t(1) by simp
      show "s \<le> elapsed m1" "elapsed m1 < s + 4000000000000" using t(1) less.prems by simp_all
    qed
    then have again: "awaitAck L gatewayId sent sy rs m3 \<noteq> None" "awaitAck L gatewayId sent sy rs m4 \<noteq> None" for sy rs
      using t less.prems by (intro less.hyps; simp; linarith)+
    show ?thesis
      using again True by (subst awaitAck.simps) (auto simp: m1 m2 m3 m4 Let_def)
  qed
qed

lemma sendAttempts_returns:
  assumes run: "timerRuns L elapsed"
  shows "sendAttempts L gatewayId frame n m \<noteq> None"
proof (induction n arbitrary: m)
  case (Suc n)
  obtain m1 sent where m1: "rm_millis L (rm_send L gatewayId frame True m) = (m1, sent)" by (metis prod.exhaust)
  have "awaitAck L gatewayId sent False kNoDownlinkRssi m1 \<noteq> None"
    using timerRuns_millis [OF run m1] by (intro awaitAck_returns [OF run, of sent "elapsed m1"]) simp_all
  then show ?case using Suc by (auto simp: m1 split: option.splits)
qed simp

lemma sendTelemetry_returns: "timerRuns L elapsed \<Longrightarrow> sendTelemetry L gatewayId frame attempts r \<noteq> None"
  using sendAttempts_returns by (simp add: sendTelemetry_def)

lemma receiveMatching_returns:
  assumes run: "timerRuns L elapsed" and timeout: "unat timeoutMs < 10 ^ 9"
  shows "receiveMatching L timeoutMs who lo hi r \<noteq> None"
proof -
  obtain m1 started where m1: "rm_millis L (nd_radio r) = (m1, started)" by (metis prod.exhaust)
  obtain m2 x where m2: "rm_receiveDone L m1 = (m2, x)" by (metis prod.exhaust)
  note t = timerRuns_millis [OF run m1] timerRuns_receiveDone [OF run m2]
  have "receiveLoop L started timeoutMs who lo hi m2 \<noteq> None"
    using t by (intro receiveLoop_returns [OF run _ timeout, of started "elapsed m1"]) simp_all
  then show ?thesis by (simp add: receiveMatching_def m1 m2)
qed

text \<open>What was received fits, and came from the expected sender.\<close>

lemma receiveLoop_fits:
  assumes "receiveLoop L started timeoutMs who lo hi m = Some res"
  shows "case res of (m', None) \<Rightarrow> True
    | (m', Some bs) \<Rightarrow> rm_senderId L m' = ucast who \<and> rm_data L m' = bs \<and> lo \<le> length bs \<and> length bs \<le> hi"
proof (rule receiveLoop.raw_induct [where P = "\<lambda>L started timeoutMs who lo hi m res. case res of (m', None) \<Rightarrow> True
    | (m', Some bs) \<Rightarrow> rm_senderId L m' = ucast who \<and> rm_data L m' = bs \<and> lo \<le> length bs \<and> length bs \<le> hi",
    OF _ assms])
  fix loop :: "'a rfm69 \<Rightarrow> u32 \<Rightarrow> u32 \<Rightarrow> u8 \<Rightarrow> nat \<Rightarrow> nat \<Rightarrow> 'a \<Rightarrow> ('a \<times> bytes option) option"
    and L :: "'a rfm69" and started timeoutMs who lo hi m res
  assume IH: "\<And>L started timeoutMs who lo hi m res. loop L started timeoutMs who lo hi m = Some res \<Longrightarrow>
    case res of (m', None) \<Rightarrow> True
    | (m', Some bs) \<Rightarrow> rm_senderId L m' = ucast who \<and> rm_data L m' = bs \<and> lo \<le> length bs \<and> length bs \<le> hi"
    and body: "(let (m, now) = rm_millis L m in
      if now - started < timeoutMs then
        let (m, received) = rm_receiveDone L m in
        if \<not> received then loop L started timeoutMs who lo hi m
        else if rm_senderId L m = ucast who \<and> lo \<le> length (rm_data L m) \<and> length (rm_data L m) \<le> hi
        then Some (m, Some (rm_data L m))
        else loop L started timeoutMs who lo hi (fst (rm_receiveDone L m))
      else Some (m, None)) = Some res"
  from body show "case res of (m', None) \<Rightarrow> True
    | (m', Some bs) \<Rightarrow> rm_senderId L m' = ucast who \<and> rm_data L m' = bs \<and> lo \<le> length bs \<and> length bs \<le> hi"
    by (auto dest: IH split: prod.splits if_splits)
qed

lemma receiveMatching_fits:
  assumes "receiveMatching L timeoutMs who lo hi r = Some (r', Some bs)"
  shows "lo \<le> length bs \<and> length bs \<le> hi \<and> rm_senderId L (nd_radio r') = ucast who \<and>
    rm_data L (nd_radio r') = bs"
  using assms by (auto simp: receiveMatching_def dest!: receiveLoop_fits split: prod.splits)

subsection \<open>The power level the radio keeps\<close>

lemma nd_level_simps [simp]:
  "nd_level (onModule f r) = nd_level r" "nd_level (nodeSleep L r) = nd_level r"
  "nd_level (nodeSend L who bs r) = nd_level r" "nd_level (nodeSetPowerLevel L level r) = level"
  "nd_level (useCommissioningProfile L maxLevel key r) = maxLevel"
  "nd_level (useOperationalProfile L maxLevel config r) = maxLevel"
  "nd_level (fst (nodeRadioBegin L a b r)) = nd_level r"
  "nd_level (fst (sendAcknowledged L who bs r)) = nd_level r"
  "nd_level (newNodeRadio maxLevel m) = maxLevel"
  by (simp_all add: onModule_def nodeSleep_def nodeSend_def nodeSetPowerLevel_def useCommissioningProfile_def
      useOperationalProfile_def nodeRadioBegin_def sendAcknowledged_def newNodeRadio_def Let_def case_prod_beta)

lemma nd_level_begin: "nodeRadioBegin L a b r = (r', ok) \<Longrightarrow> nd_level r' = nd_level r"
  by (metis fst_conv nd_level_simps(7))

lemma nd_level_ensure [simp]: "nd_level (fst (ensureConfigured L r)) = nd_level r"
  by (auto simp: ensureConfigured_def Let_def dest: nd_level_begin split: prod.splits bool.splits)

lemma nd_level_ensured: "ensureConfigured L r = (r', ok) \<Longrightarrow> nd_level r' = nd_level r"
  by (metis fst_conv nd_level_ensure)

lemma nd_level_waits:
  "sendTelemetry L who bs n r = Some (r', answer) \<Longrightarrow> nd_level r' = nd_level r"
  "receiveMatching L timeoutMs who lo hi r = Some (r', res) \<Longrightarrow> nd_level r' = nd_level r"
  "nodeReceive L timeoutMs who lo r = Some (r', res) \<Longrightarrow> nd_level r' = nd_level r"
  "receiveFrame L timeoutMs who hi r = Some (r', res) \<Longrightarrow> nd_level r' = nd_level r"
  by (auto simp: sendTelemetry_def receiveMatching_def nodeReceive_def receiveFrame_def split: prod.splits)

end
