(* ===== verification/Node_Commissioning.thy ===== *)
theory Node_Commissioning
  imports Node_Radio Frame_Codecs
begin

text \<open>
  node/lib/NodeCore: CommissioningService.h and CommissioningService.cpp, how a node joins.  The
  service owns the EEPROM and the user row; the module, which it shares with the runtime, is the
  field \<open>nm_radio\<close>.  \<open>node_build\<close> holds the constants that the build environment defines.
\<close>

abbreviation (input) kAcceptWindowMs :: u32 where "kAcceptWindowMs \<equiv> 2500"
abbreviation (input) kCompleteWindowMs :: u32 where "kCompleteWindowMs \<equiv> 1000"
abbreviation (input) kConfirmAttempts :: nat where "kConfirmAttempts \<equiv> 3"

record node_build =
  nb_maxPowerLevel :: u8
  nb_gatewayId :: u8
  nb_minTransmitMillivolts :: u16

definition kFirmwareVersion :: FirmwareVersion where
  "kFirmwareVersion = \<lparr>fw_major = 1, fw_minor = 1, fw_patch = 0\<rparr>"

datatype StartStatus = StartReady | NoCredentials | RadioFailed

record 'm node_commissioning =
  nm_radio :: "'m node_radio"
  nm_eeprom :: eeprom
  nm_userRow :: "nat \<Rightarrow> u8"
  nm_store :: slot_state
  nm_config :: NetworkConfig
  nm_deviceUid :: bytes
  nm_profileId :: u16
  nm_factoryKey :: bytes
  nm_factoryValid :: bool

definition newNodeCommissioning ::
  "'m node_radio \<Rightarrow> u16 \<Rightarrow> eeprom \<Rightarrow> (nat \<Rightarrow> u8) \<Rightarrow> 'm node_commissioning" where
  "newNodeCommissioning r profileId e userRow =
     \<lparr>nm_radio = r, nm_eeprom = e, nm_userRow = userRow, nm_store = newSlotState,
      nm_config = emptyNetworkConfig, nm_deviceUid = zeros kDeviceUidSize, nm_profileId = profileId,
      nm_factoryKey = zeros kFactoryKeySize, nm_factoryValid = False\<rparr>"

definition onRadio :: "('m node_radio \<Rightarrow> 'm node_radio) \<Rightarrow> 'm node_commissioning \<Rightarrow> 'm node_commissioning" where
  "onRadio f c = c\<lparr>nm_radio := f (nm_radio c)\<rparr>"

subsection \<open>Start\<close>

text \<open>\<open>serial\<close> is the signature row from SIGROW\_SERNUM0 on.\<close>

definition readDeviceUid :: "(nat \<Rightarrow> u8) \<Rightarrow> 'm node_commissioning \<Rightarrow> 'm node_commissioning" where
  "readDeviceUid serial c = c\<lparr>nm_deviceUid := map serial [0..<kDeviceUidSize]\<rparr>"

definition nodeCommissioningBegin ::
  "node_build \<Rightarrow> 'm rfm69 \<Rightarrow> (nat \<Rightarrow> u8) \<Rightarrow> 'm node_commissioning \<Rightarrow> 'm node_commissioning \<times> StartStatus" where
  "nodeCommissioningBegin B L serial c =
     (let c = readDeviceUid serial c;
          (st, found) = networkLoad (nm_eeprom c);
          hasConfig = (found \<noteq> None);
          c = c\<lparr>nm_store := st, nm_config := (case found of Some v \<Rightarrow> v | None \<Rightarrow> nm_config c)\<rparr>;
          factory = factoryLoad (nm_userRow c);
          c = c\<lparr>nm_factoryValid := factory \<noteq> None,
                nm_factoryKey := (case factory of Some key \<Rightarrow> key | None \<Rightarrow> nm_factoryKey c)\<rparr>
      in if \<not> hasConfig \<and> \<not> nm_factoryValid c
         then
           let (r, begun) = nodeRadioBegin L 0 0 (nm_radio c)
           in (c\<lparr>nm_radio := if begun then nodeSleep L r else r\<rparr>, NoCredentials)
         else
           let nodeId = (if hasConfig then nc_nodeId (nm_config c) else 0);
               networkId = (if hasConfig then nc_networkId (nm_config c) else 0);
               (r, begun) = nodeRadioBegin L nodeId networkId (nm_radio c);
               c = c\<lparr>nm_radio := r\<rparr>
           in if \<not> begun then (c, RadioFailed)
              else
                let c = (if hasConfig
                         then onRadio (useOperationalProfile L (nb_maxPowerLevel B) (nm_config c)) c
                         else onRadio (useCommissioningProfile L (nb_maxPowerLevel B) (nm_factoryKey c)) c)
                in (onRadio (nodeSleep L) c, StartReady))"

definition nodeActive :: "'m node_commissioning \<Rightarrow> bool" where
  "nodeActive c \<longleftrightarrow> nc_state (nm_config c) = ProvisionedActive \<and> nc_nodeId (nm_config c) \<noteq> 0"

definition nodeProvisional :: "'m node_commissioning \<Rightarrow> bool" where
  "nodeProvisional c \<longleftrightarrow> \<not> nodeActive c \<and> nc_nodeId (nm_config c) \<noteq> 0"

definition nodeResetNetwork :: "'m node_commissioning \<Rightarrow> 'm node_commissioning \<times> bool" where
  "nodeResetNetwork c =
     (if \<not> nm_factoryValid c then (c, False)
      else
        let (st, us) = networkFactoryReset
        in (c\<lparr>nm_store := st, nm_eeprom := applyUpdates (nm_eeprom c) us,
              nm_config := emptyNetworkConfig\<rparr>, True))"

text \<open>\<open>store_.save(config_)\<close>.\<close>

definition saveConfig :: "'m node_commissioning \<Rightarrow> 'm node_commissioning \<times> bool" where
  "saveConfig c =
     (let (st, config, us, saved) = networkSave (nm_eeprom c) (nm_store c) (nm_config c)
      in (c\<lparr>nm_store := st, nm_config := config, nm_eeprom := applyUpdates (nm_eeprom c) us\<rparr>, saved))"

definition nonceFrom :: "bytes \<Rightarrow> u32 \<Rightarrow> u32" where
  "nonceFrom deviceUid micros =
     (let v = micros XOR 0xA5C31F27;
          v = foldl (\<lambda>v b. (v XOR ucast b) * 16777619) v deviceUid;
          v = v XOR push_bit 13 v;
          v = v XOR drop_bit 17 v
      in v XOR push_bit 5 v)"

definition createNonce :: "'m rfm69 \<Rightarrow> 'm node_commissioning \<Rightarrow> 'm node_commissioning \<times> u32" where
  "createNonce L c =
     (let (m, micros) = rm_micros L (nd_radio (nm_radio c))
      in (onRadio (\<lambda>r. r\<lparr>nd_radio := m\<rparr>) c, nonceFrom (nm_deviceUid c) micros))"

subsection \<open>Joining\<close>

definition completesJoin :: "'m node_commissioning \<Rightarrow> bytes \<Rightarrow> bool" where
  "completesJoin c completeBytes =
     (case decodeJoinComplete (Some completeBytes) of
        Inl _ \<Rightarrow> False
      | Inr complete \<Rightarrow> jc_deviceUid complete = nm_deviceUid c \<and>
          jc_requestNonce complete = nc_requestNonce (nm_config c))"

text \<open>The loop of \<open>confirmJoin\<close>, and what follows it.\<close>

fun confirmAttempts ::
  "'m rfm69 \<Rightarrow> bytes \<Rightarrow> nat \<Rightarrow> 'm node_commissioning \<Rightarrow> ('m node_commissioning \<times> bool) option" where
  "confirmAttempts L confirmBytes 0 c = Some (onRadio (nodeSleep L) c, False)"
| "confirmAttempts L confirmBytes (Suc n) c =
     (let gatewayId = nc_gatewayId (nm_config c);
          c = onRadio (nodeSend L gatewayId confirmBytes) c
      in case nodeReceive L kCompleteWindowMs gatewayId kJoinCompleteSize (nm_radio c) of
           None \<Rightarrow> None
         | Some (r, None) \<Rightarrow> confirmAttempts L confirmBytes n (c\<lparr>nm_radio := r\<rparr>)
         | Some (r, Some completeBytes) \<Rightarrow>
             let c = c\<lparr>nm_radio := r\<rparr>
             in if completesJoin c completeBytes
                then
                  let c = c\<lparr>nm_config := (nm_config c)\<lparr>nc_state := ProvisionedActive\<rparr>\<rparr>;
                      (c, saved) = saveConfig c
                  in Some (onRadio (nodeSleep L) c, saved)
                else confirmAttempts L confirmBytes n c)"

definition confirmJoin ::
  "node_build \<Rightarrow> 'm rfm69 \<Rightarrow> 'm node_commissioning \<Rightarrow> ('m node_commissioning \<times> bool) option" where
  "confirmJoin B L c =
     (let c = onRadio (useOperationalProfile L (nb_maxPowerLevel B) (nm_config c)) c
      in case encodeJoinConfirm \<lparr>jc_deviceUid = nm_deviceUid c, jc_requestNonce = nc_requestNonce (nm_config c)\<rparr>
                (Some (zeros kJoinConfirmSize)) of
           Inl _ \<Rightarrow> Some (onRadio (nodeSleep L) c, False)
         | Inr confirmBytes \<Rightarrow> confirmAttempts L confirmBytes kConfirmAttempts c)"

definition joinRequestOf :: "node_build \<Rightarrow> 'm node_commissioning \<Rightarrow> u32 \<Rightarrow> JoinRequest" where
  "joinRequestOf B c nonce =
     \<lparr>jr_deviceUid = nm_deviceUid c, jr_profileId = nm_profileId c, jr_firmware = kFirmwareVersion,
      jr_requestNonce = nonce, jr_maxPowerLevel = nb_maxPowerLevel B\<rparr>"

definition acceptedJoin :: "node_build \<Rightarrow> 'm node_commissioning \<Rightarrow> u32 \<Rightarrow> bytes \<Rightarrow> JoinAccept option" where
  "acceptedJoin B c nonce acceptBytes =
     (case decodeJoinAccept (Some acceptBytes) of
        Inl _ \<Rightarrow> None
      | Inr accept \<Rightarrow>
          if ja_deviceUid accept \<noteq> nm_deviceUid c \<or> ja_requestNonce accept \<noteq> nonce \<or>
             ja_gatewayNodeId accept \<noteq> nb_gatewayId B
          then None else Some accept)"

definition takeAccept :: "JoinAccept \<Rightarrow> NetworkConfig \<Rightarrow> NetworkConfig" where
  "takeAccept accept config =
     config\<lparr>nc_state := Provisional, nc_nodeId := ja_assignedNodeId accept,
       nc_gatewayId := ja_gatewayNodeId accept, nc_networkId := ja_networkId accept,
       nc_installationKey := ja_installationKey accept, nc_requestNonce := ja_requestNonce accept\<rparr>"

definition requestJoin ::
  "node_build \<Rightarrow> 'm rfm69 \<Rightarrow> 'm node_commissioning \<Rightarrow> ('m node_commissioning \<times> bool) option" where
  "requestJoin B L c =
     (let c = onRadio (useCommissioningProfile L (nb_maxPowerLevel B) (nm_factoryKey c)) c;
          (c, nonce) = createNonce L c
      in case encodeJoinRequest (joinRequestOf B c nonce) (Some (zeros kJoinRequestSize)) of
           Inl _ \<Rightarrow> Some (onRadio (nodeSleep L) c, False)
         | Inr requestBytes \<Rightarrow>
             let c = onRadio (nodeSend L (nb_gatewayId B) requestBytes) c
             in case nodeReceive L kAcceptWindowMs (nb_gatewayId B) kJoinAcceptSize (nm_radio c) of
                  None \<Rightarrow> None
                | Some (r, None) \<Rightarrow> Some (onRadio (nodeSleep L) (c\<lparr>nm_radio := r\<rparr>), False)
                | Some (r, Some acceptBytes) \<Rightarrow>
                    let c = c\<lparr>nm_radio := r\<rparr>
                    in case acceptedJoin B c nonce acceptBytes of
                         None \<Rightarrow> Some (onRadio (nodeSleep L) c, False)
                       | Some accept \<Rightarrow>
                           let c = c\<lparr>nm_config := takeAccept accept (nm_config c)\<rparr>;
                               (c, saved) = saveConfig c
                           in if \<not> saved then Some (onRadio (nodeSleep L) c, False)
                              else confirmJoin B L
                                (onRadio (useOperationalProfile L (nb_maxPowerLevel B) (nm_config c)) c))"

definition nodeAdvance ::
  "node_build \<Rightarrow> 'm rfm69 \<Rightarrow> 'm node_commissioning \<Rightarrow> ('m node_commissioning \<times> bool) option" where
  "nodeAdvance B L c =
     (if nodeActive c then Some (c, True)
      else
        let (r, ready) = ensureConfigured L (nm_radio c);
            c = c\<lparr>nm_radio := r\<rparr>
        in if \<not> ready then Some (c, False)
           else if nodeProvisional c then confirmJoin B L c
           else requestJoin B L c)"

subsection \<open>The configuration in RAM is the stored one\<close>

definition storedConfig :: "NetworkConfig \<Rightarrow> NetworkConfig option" where
  "storedConfig config = (if nc_nodeId config = 0 then None else Some config)"

definition joinSound :: "'m node_commissioning \<Rightarrow> bool" where
  "joinSound c \<longleftrightarrow> networkLoad (nm_eeprom c) = (nm_store c, storedConfig (nm_config c)) \<and>
     length (nm_deviceUid c) = kDeviceUidSize \<and>
     (nm_config c = emptyNetworkConfig \<or> networkOk (nm_config c) \<and> networkShaped (nm_config c))"

lemma decodeNetworkConfig_ok:
  "decodeNetworkConfig buf = Some v \<Longrightarrow> networkOk v \<and> networkShaped v"
  by (auto simp: decodeNetworkConfig_def Let_def networkOk_def networkShaped_def provisioningOf_def
      length_chunk split: option.splits if_splits)

lemma networkLoad_ok: "networkLoad e = (st, Some v) \<Longrightarrow> networkOk v \<and> networkShaped v"
  by (auto simp: networkLoad_def slotLoad_def Let_def networkLayout_def dest: decodeNetworkConfig_ok
      split: option.splits if_splits)

lemma networkSave_stored:
  assumes "networkLoad e = (st, old)" "networkOk v" "networkShaped v"
  obtains st' g us where "networkSave e st v = (st', v\<lparr>nc_generation := g\<rparr>, us, True)"
    "networkLoad (applyUpdates e us) = (st', Some (v\<lparr>nc_generation := g\<rparr>))"
proof -
  obtain st' v' us where s: "networkSave e st v = (st', v', us, True)"
    using networkSave_succeeds [OF assms(3,2)] by blast
  have sound: "slotSound networkLayout e st old" using assms(1) by (simp add: slotSound_def networkLoad_def)
  have "slotSave networkLayout e st v = (st', v', us, True)" using s by (simp add: networkSave_def)
  note saved = network.save_crash [OF sound assms(3) this, of "length us"]
  then obtain g where "v' = v\<lparr>nc_generation := g\<rparr>" by (auto simp: networkLayout_def)
  then show thesis using that s saved(1) by (simp add: networkLoad_def)
qed

lemma networkOk_generation [simp]:
  "networkOk (v\<lparr>nc_generation := g\<rparr>) = networkOk v" "networkShaped (v\<lparr>nc_generation := g\<rparr>) = networkShaped v"
  by (simp_all add: networkOk_def networkShaped_def)

lemma saveConfig_stored:
  assumes "networkLoad (nm_eeprom c) = (nm_store c, old)" "networkOk (nm_config c)" "networkShaped (nm_config c)"
    "length (nm_deviceUid c) = kDeviceUidSize"
  obtains g st e where
    "saveConfig c = (c\<lparr>nm_store := st, nm_config := nm_config c\<lparr>nc_generation := g\<rparr>, nm_eeprom := e\<rparr>, True)"
    "joinSound (c\<lparr>nm_store := st, nm_config := nm_config c\<lparr>nc_generation := g\<rparr>, nm_eeprom := e\<rparr>)"
proof -
  obtain st g us where "networkSave (nm_eeprom c) (nm_store c) (nm_config c) =
      (st, nm_config c\<lparr>nc_generation := g\<rparr>, us, True)"
    "networkLoad (applyUpdates (nm_eeprom c) us) = (st, Some (nm_config c\<lparr>nc_generation := g\<rparr>))"
    using networkSave_stored [OF assms(1-3)] .
  then show thesis
    using that [where st = st and g = g and e = "applyUpdates (nm_eeprom c) us"] assms
    by (simp add: saveConfig_def joinSound_def storedConfig_def networkOk_def)
qed

lemma joinSound_radio [simp]:
  "joinSound (c\<lparr>nm_radio := r\<rparr>) = joinSound c" "joinSound (onRadio f c) = joinSound c"
  "nodeActive (c\<lparr>nm_radio := r\<rparr>) = nodeActive c" "nodeActive (onRadio f c) = nodeActive c"
  "nm_config (onRadio f c) = nm_config c" "nm_deviceUid (onRadio f c) = nm_deviceUid c"
  "nm_eeprom (onRadio f c) = nm_eeprom c" "nm_store (onRadio f c) = nm_store c"
  "nm_radio (onRadio f c) = f (nm_radio c)" "nm_profileId (onRadio f c) = nm_profileId c"
  "nm_factoryKey (onRadio f c) = nm_factoryKey c" "nm_factoryValid (onRadio f c) = nm_factoryValid c"
  by (simp_all add: joinSound_def onRadio_def nodeActive_def)

lemma nodeCommissioningBegin_sound:
  assumes "nodeCommissioningBegin B L serial (newNodeCommissioning r profileId e userRow) = (c, started)"
  shows "joinSound c" "nm_eeprom c = e" "started = NoCredentials \<Longrightarrow> nc_nodeId (nm_config c) = 0"
    "started = StartReady \<Longrightarrow> nc_nodeId (nm_config c) \<noteq> 0 \<or> nm_factoryValid c"
proof -
  obtain st found where load: "networkLoad e = (st, found)" by fastforce
  obtain r1 b1 where b1: "nodeRadioBegin L 0 0 r = (r1, b1)" by fastforce
  have nonzero: "networkOk v \<Longrightarrow> nc_nodeId v \<noteq> 0" for v by (simp add: networkOk_def)
  note simps = nodeCommissioningBegin_def readDeviceUid_def newNodeCommissioning_def Let_def load joinSound_def
    storedConfig_def b1
  show "joinSound c" "nm_eeprom c = e" "started = NoCredentials \<Longrightarrow> nc_nodeId (nm_config c) = 0"
    "started = StartReady \<Longrightarrow> nc_nodeId (nm_config c) \<noteq> 0 \<or> nm_factoryValid c"
    using assms networkLoad_ok [where e = e and st = st] load nonzero
    by (cases found; auto simp: simps emptyNetworkConfig_def onRadio_def split: prod.splits if_splits option.splits)+
qed

subsection \<open>What a join attempt may change\<close>

definition sameMembership :: "NetworkConfig \<Rightarrow> NetworkConfig \<Rightarrow> bool" where
  "sameMembership v w \<longleftrightarrow> w\<lparr>nc_generation := nc_generation v, nc_state := nc_state v\<rparr> = v"

lemma sameMembership_fields:
  "sameMembership v w \<longleftrightarrow> nc_nodeId v = nc_nodeId w \<and> nc_gatewayId v = nc_gatewayId w \<and>
     nc_networkId v = nc_networkId w \<and> nc_installationKey v = nc_installationKey w \<and>
     nc_requestNonce v = nc_requestNonce w"
  by (cases v; cases w) (auto simp: sameMembership_def)

text \<open>The gateway answered the request the node had just sent, or its confirmation.\<close>

definition acceptHeard :: "node_build \<Rightarrow> 'm rfm69 \<Rightarrow> 'm node_commissioning \<Rightarrow> JoinAccept \<Rightarrow> bool" where
  "acceptHeard B L c accept \<longleftrightarrow>
     ja_deviceUid accept = nm_deviceUid c \<and> ja_gatewayNodeId accept = nb_gatewayId B \<and>
     (\<exists>r r'. nodeReceive L kAcceptWindowMs (nb_gatewayId B) kJoinAcceptSize
         (nodeSend L (nb_gatewayId B) (joinRequestImage (joinRequestOf B c (ja_requestNonce accept))) r) =
           Some (r', Some (joinAcceptImage accept)) \<and>
       rm_senderId L (nd_radio r') = ucast (nb_gatewayId B))"

definition completeHeard :: "'m rfm69 \<Rightarrow> bytes \<Rightarrow> NetworkConfig \<Rightarrow> bool" where
  "completeHeard L deviceUid config \<longleftrightarrow>
     (let j = \<lparr>jc_deviceUid = deviceUid, jc_requestNonce = nc_requestNonce config\<rparr> in
      \<exists>r r'. nodeReceive L kCompleteWindowMs (nc_gatewayId config) kJoinCompleteSize
         (nodeSend L (nc_gatewayId config) (joinConfirmImage KJoinConfirm j) r) =
           Some (r', Some (joinConfirmImage KJoinComplete j)) \<and>
       rm_senderId L (nd_radio r') = ucast (nc_gatewayId config))"

lemma joinConfirmImage_encodes:
  "length uid = kDeviceUidSize \<Longrightarrow> encodeJoinConfirm \<lparr>jc_deviceUid = uid, jc_requestNonce = nonce\<rparr> (Some (zeros kJoinConfirmSize)) =
    Inr (joinConfirmImage KJoinConfirm \<lparr>jc_deviceUid = uid, jc_requestNonce = nonce\<rparr>)"
  using joinConfirm.encode_fits [of "\<lparr>jc_deviceUid = uid, jc_requestNonce = nonce\<rparr>" "zeros kJoinConfirmSize"]
  by (simp add: joinConfirmOk_def joinConfirmImage_def written_def)

lemma completesJoin_iff:
  "length (nm_deviceUid c) = kDeviceUidSize \<Longrightarrow> completesJoin c bs \<longleftrightarrow>
    bs = joinConfirmImage KJoinComplete \<lparr>jc_deviceUid = nm_deviceUid c, jc_requestNonce = nc_requestNonce (nm_config c)\<rparr>"
proof -
  let ?j = "\<lparr>jc_deviceUid = nm_deviceUid c, jc_requestNonce = nc_requestNonce (nm_config c)\<rparr>"
  assume "length (nm_deviceUid c) = kDeviceUidSize"
  then have "decodeJoinComplete (Some bs) = Inr ?j \<longleftrightarrow> bs = joinConfirmImage KJoinComplete ?j"
    by (simp only: joinComplete.decode_iff) (simp add: joinConfirmOk_def)
  moreover have "completesJoin c bs \<longleftrightarrow> decodeJoinComplete (Some bs) = Inr ?j"
    by (auto simp: completesJoin_def intro: JoinConfirm.equality split: sum.splits)
  ultimately show ?thesis by simp
qed

lemma confirmAttempts_sound:
  assumes "joinSound c" "nc_nodeId (nm_config c) \<noteq> 0" "\<not> nodeActive c"
    and "confirmAttempts L (joinConfirmImage KJoinConfirm
      \<lparr>jc_deviceUid = nm_deviceUid c, jc_requestNonce = nc_requestNonce (nm_config c)\<rparr>) n c = Some (c', joined)"
  shows "joinSound c' \<and> nm_deviceUid c' = nm_deviceUid c \<and> joined = nodeActive c' \<and>
    sameMembership (nm_config c') (nm_config c) \<and>
    (joined \<longrightarrow> completeHeard L (nm_deviceUid c) (nm_config c)) \<and> (\<not> joined \<longrightarrow> nm_config c' = nm_config c)"
  using assms
proof (induction n arbitrary: c)
  case 0
  then show ?case by (auto simp: sameMembership_def)
next
  case (Suc n)
  let ?j = "\<lparr>jc_deviceUid = nm_deviceUid c, jc_requestNonce = nc_requestNonce (nm_config c)\<rparr>"
  let ?s = "onRadio (nodeSend L (nc_gatewayId (nm_config c)) (joinConfirmImage KJoinConfirm ?j)) c"
  obtain r res where rec: "nodeReceive L kCompleteWindowMs (nc_gatewayId (nm_config c)) kJoinCompleteSize
      (nm_radio ?s) = Some (r, res)"
    using Suc.prems(4) by (auto simp: Let_def split: option.splits prod.splits)
  let ?c = "?s\<lparr>nm_radio := r\<rparr>"
  have same: "nm_config ?c = nm_config c" "nm_deviceUid ?c = nm_deviceUid c" "joinSound ?c" "\<not> nodeActive ?c"
    using Suc.prems by (simp_all add: onRadio_def nodeActive_def joinSound_def)
  show ?case
  proof (cases "\<exists>bs. res = Some bs \<and> completesJoin ?c bs")
    case False
    then have "confirmAttempts L (joinConfirmImage KJoinConfirm ?j) n ?c = Some (c', joined)"
      using Suc.prems(4) rec by (auto simp: Let_def split: option.splits)
    then show ?thesis using Suc.IH [OF same(3) _ same(4)] Suc.prems(2) unfolding same(1,2) by blast
  next
    case True
    then obtain bs where bs: "res = Some bs" "completesJoin ?c bs" by blast
    let ?a = "?c\<lparr>nm_config := nm_config c\<lparr>nc_state := ProvisionedActive\<rparr>\<rparr>"
    have uid: "length (nm_deviceUid c) = kDeviceUidSize" using Suc.prems(1) by (simp add: joinSound_def)
    have ok: "networkOk (nm_config c)" "networkShaped (nm_config c)"
      using Suc.prems(1,2) by (auto simp: joinSound_def emptyNetworkConfig_def)
    obtain g st e where saved: "saveConfig ?a = (?a\<lparr>nm_store := st, nm_config := nm_config ?a\<lparr>nc_generation := g\<rparr>, nm_eeprom := e\<rparr>, True)"
      "joinSound (?a\<lparr>nm_store := st, nm_config := nm_config ?a\<lparr>nc_generation := g\<rparr>, nm_eeprom := e\<rparr>)"
      by (rule saveConfig_stored [of ?a "storedConfig (nm_config c)"])
         (use Suc.prems(1) ok uid in \<open>auto simp: joinSound_def networkOk_def networkShaped_def provisioningOf_def\<close>)
    have c': "c' = onRadio (nodeSleep L) (?a\<lparr>nm_store := st, nm_config := nm_config ?a\<lparr>nc_generation := g\<rparr>, nm_eeprom := e\<rparr>)"
      "joined"
      using Suc.prems(4) rec bs saved(1) by (auto simp: Let_def)
    have "bs = joinConfirmImage KJoinComplete ?j" using completesJoin_iff [of ?c bs] bs(2) uid same by simp
    then have frame: "receiveMatching L kCompleteWindowMs (nc_gatewayId (nm_config c)) 15 15
        (nodeSend L (nc_gatewayId (nm_config c)) (joinConfirmImage KJoinConfirm ?j) (nm_radio c)) =
      Some (r, Some (joinConfirmImage KJoinComplete ?j))"
      using rec bs(1) by (simp add: nodeReceive_def)
    have "completeHeard L (nm_deviceUid c) (nm_config c)"
      unfolding completeHeard_def Let_def nodeReceive_def
      using frame receiveMatching_fits [OF frame] by (intro exI [of _ "nm_radio c"] exI [of _ r]) simp
    then show ?thesis
      using c' saved(2) Suc.prems(2) by (simp add: sameMembership_fields nodeActive_def)
  qed
qed

lemma confirmJoin_attempts:
  assumes "joinSound c"
  shows "confirmJoin B L c = confirmAttempts L (joinConfirmImage KJoinConfirm
      \<lparr>jc_deviceUid = nm_deviceUid c, jc_requestNonce = nc_requestNonce (nm_config c)\<rparr>) kConfirmAttempts
      (onRadio (useOperationalProfile L (nb_maxPowerLevel B) (nm_config c)) c)"
  using assms by (simp add: confirmJoin_def Let_def joinConfirmImage_encodes joinSound_def)

lemma confirmJoin_sound:
  assumes "joinSound c" "nc_nodeId (nm_config c) \<noteq> 0" "\<not> nodeActive c" "confirmJoin B L c = Some (c', joined)"
  shows "joinSound c' \<and> nm_deviceUid c' = nm_deviceUid c \<and> joined = nodeActive c' \<and>
    sameMembership (nm_config c') (nm_config c) \<and>
    (joined \<longrightarrow> completeHeard L (nm_deviceUid c) (nm_config c)) \<and> (\<not> joined \<longrightarrow> nm_config c' = nm_config c)"
  using confirmAttempts_sound [of "onRadio (useOperationalProfile L (nb_maxPowerLevel B) (nm_config c)) c" L 3 c' joined]
    assms confirmJoin_attempts [OF assms(1)] by simp

lemma encodeJoinRequest_result:
  "length (jr_deviceUid v) = kDeviceUidSize \<Longrightarrow> encodeJoinRequest v (Some (zeros kJoinRequestSize)) = Inr bs \<Longrightarrow>
    bs = joinRequestImage v"
  using joinRequest.encode_fits [of v "zeros kJoinRequestSize"]
  by (auto simp: encodeJoinRequest_def joinRequestOk_def joinRequestImage_def written_full not_less split: if_splits)

lemma acceptedJoin_image:
  "acceptedJoin B c nonce bs = Some accept \<longleftrightarrow> joinAcceptOk accept \<and> bs = joinAcceptImage accept \<and>
    ja_deviceUid accept = nm_deviceUid c \<and> ja_requestNonce accept = nonce \<and> ja_gatewayNodeId accept = nb_gatewayId B"
proof -
  have "acceptedJoin B c nonce bs = Some accept \<longleftrightarrow> decodeJoinAccept (Some bs) = Inr accept \<and>
      ja_deviceUid accept = nm_deviceUid c \<and> ja_requestNonce accept = nonce \<and> ja_gatewayNodeId accept = nb_gatewayId B"
    by (auto simp: acceptedJoin_def split: sum.splits)
  then show ?thesis by (auto simp: joinAccept.decode_iff)
qed

lemma takeAccept_ok: "joinAcceptOk accept \<Longrightarrow> networkOk (takeAccept accept config) \<and> networkShaped (takeAccept accept config)"
  by (auto simp: joinAcceptOk_def takeAccept_def networkOk_def networkShaped_def provisioningOf_def)

lemma createNonce_radio:
  assumes "createNonce L c = (c', nonce)"
  obtains m where "c' = c\<lparr>nm_radio := (nm_radio c)\<lparr>nd_radio := m\<rparr>\<rparr>"
  using assms that by (auto simp: createNonce_def onRadio_def split: prod.splits)

lemma requestJoin_sound:
  assumes sound: "joinSound c" and no: "nc_nodeId (nm_config c) = 0"
    and run: "requestJoin B L c = Some (c', joined)"
  shows "joinSound c' \<and> nm_deviceUid c' = nm_deviceUid c \<and> joined = nodeActive c' \<and>
    (nm_config c' = nm_config c \<or>
     (\<exists>accept. acceptHeard B L c accept \<and> sameMembership (nm_config c') (takeAccept accept (nm_config c)))) \<and>
    (joined \<longrightarrow> completeHeard L (nm_deviceUid c) (nm_config c'))"
proof -
  let ?c0 = "onRadio (useCommissioningProfile L (nb_maxPowerLevel B) (nm_factoryKey c)) c"
  obtain c1 nonce where c1: "createNonce L ?c0 = (c1, nonce)" by fastforce
  obtain m where m: "c1 = ?c0\<lparr>nm_radio := (nm_radio ?c0)\<lparr>nd_radio := m\<rparr>\<rparr>" by (rule createNonce_radio [OF c1])
  have idle: "\<not> nodeActive c" using no by (simp add: nodeActive_def)
  have uid: "length (nm_deviceUid c) = kDeviceUidSize" using sound by (simp add: joinSound_def)
  show ?thesis
  proof (cases "encodeJoinRequest (joinRequestOf B c1 nonce) (Some (zeros kJoinRequestSize))")
    case (Inl x)
    then have "c' = onRadio (nodeSleep L) c1" "\<not> joined" using run c1 by (auto simp: requestJoin_def Let_def)
    then show ?thesis using sound idle by (simp add: m)
  next
    case (Inr requestBytes)
    have image: "requestBytes = joinRequestImage (joinRequestOf B c nonce)"
      using encodeJoinRequest_result [OF _ Inr] uid by (simp add: joinRequestOf_def m)
    obtain r res where rec: "nodeReceive L kAcceptWindowMs (nb_gatewayId B) kJoinAcceptSize
        (nodeSend L (nb_gatewayId B) requestBytes (nm_radio c1)) = Some (r, res)"
      using run c1 Inr by (auto simp: requestJoin_def Let_def split: option.splits prod.splits)
    let ?c2 = "onRadio (nodeSend L (nb_gatewayId B) requestBytes) c1\<lparr>nm_radio := r\<rparr>"
    have c2: "?c2 = c1\<lparr>nm_radio := r\<rparr>" by (simp add: onRadio_def)
    show ?thesis
    proof (cases "case res of None \<Rightarrow> None | Some bs \<Rightarrow> acceptedJoin B ?c2 nonce bs")
      case None
      then have "c' = onRadio (nodeSleep L) (c1\<lparr>nm_radio := r\<rparr>)" "\<not> joined"
        using run c1 Inr rec by (auto simp: requestJoin_def Let_def c2 split: option.splits)
      then show ?thesis using sound idle by (simp add: m)
    next
      case (Some accept)
      then obtain bs where bs: "res = Some bs" "acceptedJoin B ?c2 nonce bs = Some accept"
        by (auto split: option.splits)
      then have a: "joinAcceptOk accept" "bs = joinAcceptImage accept" "ja_deviceUid accept = nm_deviceUid c"
        "ja_requestNonce accept = nonce" "ja_gatewayNodeId accept = nb_gatewayId B"
        by (simp_all add: acceptedJoin_image m)
      have frame: "receiveMatching L kAcceptWindowMs (nb_gatewayId B) 34 34
          (nodeSend L (nb_gatewayId B) (joinRequestImage (joinRequestOf B c (ja_requestNonce accept))) (nm_radio c1)) =
        Some (r, Some (joinAcceptImage accept))"
        using rec bs(1) image a(2,4) by (simp add: nodeReceive_def)
      have heard: "acceptHeard B L c accept"
        unfolding acceptHeard_def nodeReceive_def
        using frame receiveMatching_fits [OF frame] a(3,5) by (intro conjI exI [of _ "nm_radio c1"] exI [of _ r]) simp_all
      let ?c3 = "?c2\<lparr>nm_config := takeAccept accept (nm_config c)\<rparr>"
      obtain g st e where saved:
        "saveConfig ?c3 = (?c3\<lparr>nm_store := st, nm_config := nm_config ?c3\<lparr>nc_generation := g\<rparr>, nm_eeprom := e\<rparr>, True)"
        "joinSound (?c3\<lparr>nm_store := st, nm_config := nm_config ?c3\<lparr>nc_generation := g\<rparr>, nm_eeprom := e\<rparr>)"
        by (rule saveConfig_stored [of ?c3 "storedConfig (nm_config c)"])
           (use sound takeAccept_ok [OF a(1)] uid in \<open>auto simp: joinSound_def m\<close>)
      let ?c4 = "?c3\<lparr>nm_store := st, nm_config := nm_config ?c3\<lparr>nc_generation := g\<rparr>, nm_eeprom := e\<rparr>"
      let ?c5 = "onRadio (useOperationalProfile L (nb_maxPowerLevel B) (nm_config ?c4)) ?c4"
      have conf: "confirmJoin B L ?c5 = Some (c', joined)"
        using run c1 Inr rec bs saved(1) by (simp add: requestJoin_def Let_def m)
      have c5: "joinSound ?c5" "nc_nodeId (nm_config ?c5) \<noteq> 0" "\<not> nodeActive ?c5"
        using saved(2) takeAccept_ok [OF a(1), of "nm_config c"]
        by (simp_all add: networkOk_def nodeActive_def takeAccept_def)
      have "sameMembership (nm_config ?c5) (takeAccept accept (nm_config c))" by (simp add: sameMembership_fields)
      moreover have "nm_deviceUid ?c5 = nm_deviceUid c" by (simp add: m)
      ultimately show ?thesis
        using confirmJoin_sound [OF c5 conf] heard
        by (auto simp: sameMembership_fields completeHeard_def Let_def)
    qed
  qed
qed

lemma nodeAdvance_sound:
  assumes sound: "joinSound c" and run: "nodeAdvance B L c = Some (c', joined)"
  shows "joinSound c' \<and> nm_deviceUid c' = nm_deviceUid c \<and> joined = nodeActive c' \<and>
    (nodeActive c \<longrightarrow> c' = c) \<and>
    (nm_config c' = nm_config c \<or> nc_nodeId (nm_config c) \<noteq> 0 \<and> sameMembership (nm_config c') (nm_config c) \<or>
     nc_nodeId (nm_config c) = 0 \<and>
     (\<exists>accept. acceptHeard B L c accept \<and> sameMembership (nm_config c') (takeAccept accept (nm_config c)))) \<and>
    (joined \<longrightarrow> nodeActive c \<or> completeHeard L (nm_deviceUid c) (nm_config c'))"
proof (cases "nodeActive c")
  case True
  then show ?thesis using assms by (simp add: nodeAdvance_def)
next
  case False
  obtain r ready where r: "ensureConfigured L (nm_radio c) = (r, ready)" by fastforce
  let ?c = "c\<lparr>nm_radio := r\<rparr>"
  have s: "joinSound ?c" "\<not> nodeActive ?c" using sound False by simp_all
  consider "\<not> ready" | "ready" "nc_nodeId (nm_config c) \<noteq> 0" | "ready" "nc_nodeId (nm_config c) = 0" by blast
  then show ?thesis
  proof cases
    case 1
    then show ?thesis using run False r sound by (auto simp: nodeAdvance_def Let_def)
  next
    case 2
    then have "confirmJoin B L ?c = Some (c', joined)"
      using run False r by (simp add: nodeAdvance_def nodeProvisional_def)
    from confirmJoin_sound [OF s(1) _ s(2) this] 2 False show ?thesis
      by (auto simp: completeHeard_def sameMembership_fields)
  next
    case 3
    then have "requestJoin B L ?c = Some (c', joined)"
      using run False r by (simp add: nodeAdvance_def nodeProvisional_def)
    from requestJoin_sound [OF s(1) _ this] 3 False show ?thesis
      by (auto simp: acceptHeard_def joinRequestOf_def)
  qed
qed

text \<open>A reset by the button leaves nothing configured, now and after a restart.\<close>

lemma nodeResetNetwork_sound:
  assumes "joinSound c" "nodeResetNetwork c = (c', cleared)"
  shows "joinSound c' \<and> cleared = nm_factoryValid c \<and> (cleared \<longrightarrow> nm_config c' = emptyNetworkConfig)"
  using assms networkFactoryReset_empties [of "nm_eeprom c"]
  by (auto simp: nodeResetNetwork_def joinSound_def storedConfig_def case_prod_beta
      emptyNetworkConfig_def split: if_splits)

subsection \<open>An attempt ends, and works when the gateway answers\<close>

lemma nodeReceive_returns:
  "timerRuns L elapsed \<Longrightarrow> unat timeoutMs < 10 ^ 9 \<Longrightarrow> \<exists>r' res. nodeReceive L timeoutMs who n r = Some (r', res)"
  using receiveMatching_returns by (fastforce simp: nodeReceive_def)

lemma confirmAttempts_returns:
  assumes run: "timerRuns L elapsed"
  shows "confirmAttempts L bs n c \<noteq> None"
proof (induction n arbitrary: c)
  case (Suc n)
  have "unat (1000 :: u32) < 10 ^ 9" by simp
  from nodeReceive_returns [OF run this, of "nc_gatewayId (nm_config c)" 15
      "nm_radio (onRadio (nodeSend L (nc_gatewayId (nm_config c)) bs) c)"]
  obtain r res where "nodeReceive L 1000 (nc_gatewayId (nm_config c)) 15
      (nm_radio (onRadio (nodeSend L (nc_gatewayId (nm_config c)) bs) c)) = Some (r, res)" by blast
  then show ?case using Suc by (auto simp: Let_def split: option.splits prod.splits)
qed simp

lemma confirmJoin_returns: "timerRuns L elapsed \<Longrightarrow> confirmJoin B L c \<noteq> None"
  using confirmAttempts_returns by (auto simp: confirmJoin_def Let_def split: sum.splits)

lemma requestJoin_returns:
  assumes run: "timerRuns L elapsed"
  shows "requestJoin B L c \<noteq> None"
proof -
  have "unat (2500 :: u32) < 10 ^ 9" by simp
  note rec = nodeReceive_returns [OF run this]
  show ?thesis
    using confirmJoin_returns [OF run] rec
    by (auto simp: requestJoin_def Let_def split: sum.splits prod.splits option.splits)
       (metis option.distinct(1))+
qed

lemma nodeAdvance_returns: "timerRuns L elapsed \<Longrightarrow> nodeAdvance B L c \<noteq> None"
  using confirmJoin_returns requestJoin_returns
  by (auto simp: nodeAdvance_def Let_def split: prod.splits)

text \<open>One of the next \<open>n\<close> confirmations is answered.\<close>

fun completesWithin :: "'m rfm69 \<Rightarrow> bytes \<Rightarrow> NetworkConfig \<Rightarrow> nat \<Rightarrow> 'm node_radio \<Rightarrow> bool" where
  "completesWithin L uid config 0 r = False"
| "completesWithin L uid config (Suc n) r =
     (let j = \<lparr>jc_deviceUid = uid, jc_requestNonce = nc_requestNonce config\<rparr>
      in case nodeReceive L kCompleteWindowMs (nc_gatewayId config) kJoinCompleteSize
           (nodeSend L (nc_gatewayId config) (joinConfirmImage KJoinConfirm j) r) of
           None \<Rightarrow> False
         | Some (r, None) \<Rightarrow> completesWithin L uid config n r
         | Some (r, Some bs) \<Rightarrow> bs = joinConfirmImage KJoinComplete j \<or> completesWithin L uid config n r)"

lemma confirmAttempts_joins:
  assumes "joinSound c" "nc_nodeId (nm_config c) \<noteq> 0"
    and "completesWithin L (nm_deviceUid c) (nm_config c) n (nm_radio c)"
  shows "\<exists>c'. confirmAttempts L (joinConfirmImage KJoinConfirm
      \<lparr>jc_deviceUid = nm_deviceUid c, jc_requestNonce = nc_requestNonce (nm_config c)\<rparr>) n c = Some (c', True)"
  using assms
proof (induction n arbitrary: c)
  case (Suc n)
  let ?j = "\<lparr>jc_deviceUid = nm_deviceUid c, jc_requestNonce = nc_requestNonce (nm_config c)\<rparr>"
  let ?s = "onRadio (nodeSend L (nc_gatewayId (nm_config c)) (joinConfirmImage KJoinConfirm ?j)) c"
  obtain r res where rec: "nodeReceive L kCompleteWindowMs (nc_gatewayId (nm_config c)) kJoinCompleteSize
      (nm_radio ?s) = Some (r, res)"
    using Suc.prems(3) by (auto simp: Let_def split: option.splits prod.splits)
  let ?c = "?s\<lparr>nm_radio := r\<rparr>"
  have same: "nm_config ?c = nm_config c" "nm_deviceUid ?c = nm_deviceUid c" "joinSound ?c" "nm_radio ?c = r"
    using Suc.prems by (simp_all add: onRadio_def joinSound_def)
  have uid: "length (nm_deviceUid ?c) = kDeviceUidSize" using same(3) by (simp add: joinSound_def)
  note completes = completesJoin_iff [OF uid, unfolded same]
  show ?case
  proof (cases "\<exists>bs. res = Some bs \<and> completesJoin ?c bs")
    case False
    then have more: "completesWithin L (nm_deviceUid c) (nm_config c) n r"
      using Suc.prems(3) rec completes by (auto simp: Let_def split: option.splits)
    have "confirmAttempts L (joinConfirmImage KJoinConfirm ?j) (Suc n) c = confirmAttempts L (joinConfirmImage KJoinConfirm ?j) n ?c"
      using False rec by (auto simp: Let_def split: option.splits)
    then show ?thesis using Suc.IH [OF same(3)] Suc.prems(2) more unfolding same by simp
  next
    case True
    then obtain bs where bs: "res = Some bs" "completesJoin ?c bs" by blast
    let ?a = "?c\<lparr>nm_config := nm_config c\<lparr>nc_state := ProvisionedActive\<rparr>\<rparr>"
    have ok: "networkOk (nm_config c)" "networkShaped (nm_config c)"
      using Suc.prems(1,2) by (auto simp: joinSound_def emptyNetworkConfig_def)
    have "\<exists>c'. saveConfig ?a = (c', True)"
      by (rule saveConfig_stored [of ?a "storedConfig (nm_config c)"])
         (use Suc.prems(1) ok uid in \<open>auto simp: joinSound_def networkOk_def networkShaped_def provisioningOf_def\<close>)
    then show ?thesis using rec bs by (auto simp: Let_def)
  qed
qed simp

lemma requestJoin_joins:
  assumes sound: "joinSound c" and no: "nc_nodeId (nm_config c) = 0"
    and request: "createNonce L (onRadio (useCommissioningProfile L (nb_maxPowerLevel B) (nm_factoryKey c)) c) = (c1, nonce)"
      "joinRequestOk (joinRequestOf B c nonce)"
    and answered: "nodeReceive L kAcceptWindowMs (nb_gatewayId B) kJoinAcceptSize
        (nodeSend L (nb_gatewayId B) (joinRequestImage (joinRequestOf B c nonce)) (nm_radio c1)) =
          Some (r, Some (joinAcceptImage accept))"
      "joinAcceptOk accept" "ja_deviceUid accept = nm_deviceUid c" "ja_requestNonce accept = nonce"
      "ja_gatewayNodeId accept = nb_gatewayId B"
    and completed: "completesWithin L (nm_deviceUid c) (takeAccept accept (nm_config c)) kConfirmAttempts
        (useOperationalProfile L (nb_maxPowerLevel B) (takeAccept accept (nm_config c))
          (useOperationalProfile L (nb_maxPowerLevel B) (takeAccept accept (nm_config c)) r))"
  shows "\<exists>c'. requestJoin B L c = Some (c', True) \<and> joinSound c' \<and> nodeActive c' \<and>
    sameMembership (nm_config c') (takeAccept accept (nm_config c))"
proof -
  obtain m where m: "c1 = (onRadio (useCommissioningProfile L (nb_maxPowerLevel B) (nm_factoryKey c)) c)
      \<lparr>nm_radio := (useCommissioningProfile L (nb_maxPowerLevel B) (nm_factoryKey c) (nm_radio c))\<lparr>nd_radio := m\<rparr>\<rparr>"
    by (rule createNonce_radio [OF request(1)]) simp
  have uid: "length (nm_deviceUid c) = kDeviceUidSize" using sound by (simp add: joinSound_def)
  have "joinRequestOf B c1 nonce = joinRequestOf B c nonce" by (simp add: joinRequestOf_def m)
  then have enc: "encodeJoinRequest (joinRequestOf B c1 nonce) (Some (zeros kJoinRequestSize)) =
      Inr (joinRequestImage (joinRequestOf B c nonce))"
    using joinRequest.encode_fits [OF request(2), of "zeros kJoinRequestSize"] uid
    by (simp add: joinRequestImage_def written_full joinRequestOf_def)
  let ?c2 = "c1\<lparr>nm_radio := r\<rparr>"
  have c2: "onRadio (nodeSend L (nb_gatewayId B) bs) c1\<lparr>nm_radio := r\<rparr> = ?c2" for bs by (simp add: onRadio_def)
  let ?c3 = "?c2\<lparr>nm_config := takeAccept accept (nm_config c)\<rparr>"
  obtain g st e where saved:
    "saveConfig ?c3 = (?c3\<lparr>nm_store := st, nm_config := nm_config ?c3\<lparr>nc_generation := g\<rparr>, nm_eeprom := e\<rparr>, True)"
    "joinSound (?c3\<lparr>nm_store := st, nm_config := nm_config ?c3\<lparr>nc_generation := g\<rparr>, nm_eeprom := e\<rparr>)"
    by (rule saveConfig_stored [of ?c3 "storedConfig (nm_config c)"])
       (use sound takeAccept_ok [OF answered(2)] uid in \<open>auto simp: joinSound_def m\<close>)
  let ?c4 = "?c3\<lparr>nm_store := st, nm_config := nm_config ?c3\<lparr>nc_generation := g\<rparr>, nm_eeprom := e\<rparr>"
  let ?c5 = "onRadio (useOperationalProfile L (nb_maxPowerLevel B) (nm_config ?c4)) ?c4"
  let ?c6 = "onRadio (useOperationalProfile L (nb_maxPowerLevel B) (nm_config ?c5)) ?c5"
  have "acceptedJoin B ?c2 nonce (joinAcceptImage accept) = Some accept"
    using answered by (simp add: acceptedJoin_image m)
  moreover have "nm_config c1 = nm_config c" by (simp add: m)
  ultimately have "requestJoin B L c = confirmJoin B L ?c5"
    using request(1) enc answered(1) saved(1) by (simp add: requestJoin_def Let_def c2)
  also have "\<dots> = confirmAttempts L (joinConfirmImage KJoinConfirm
      \<lparr>jc_deviceUid = nm_deviceUid ?c6, jc_requestNonce = nc_requestNonce (nm_config ?c6)\<rparr>) kConfirmAttempts ?c6"
    using saved(2) by (subst confirmJoin_attempts) simp_all
  finally have run: "requestJoin B L c = \<dots>" .
  have profile: "useOperationalProfile L p (v\<lparr>nc_generation := g\<rparr>) = useOperationalProfile L p v" for p v
    by (simp add: useOperationalProfile_def fun_eq_iff)
  have within: "completesWithin L u (v\<lparr>nc_generation := g\<rparr>) n x = completesWithin L u v n x" for u v n x
    by (induction n arbitrary: x) (auto simp: Let_def split: option.splits)
  have sound6: "joinSound ?c6" using saved(2) by simp
  have id6: "nc_nodeId (nm_config ?c6) \<noteq> 0"
    using takeAccept_ok [OF answered(2), of "nm_config c"] by (simp add: networkOk_def)
  have idle6: "\<not> nodeActive ?c6" by (simp add: nodeActive_def takeAccept_def)
  have "\<exists>c'. confirmAttempts L (joinConfirmImage KJoinConfirm
      \<lparr>jc_deviceUid = nm_deviceUid ?c6, jc_requestNonce = nc_requestNonce (nm_config ?c6)\<rparr>) kConfirmAttempts ?c6 = Some (c', True)"
  proof (rule confirmAttempts_joins)
    show "joinSound ?c6" by (rule sound6)
    show "nc_nodeId (nm_config ?c6) \<noteq> 0" by (rule id6)
    show "completesWithin L (nm_deviceUid ?c6) (nm_config ?c6) kConfirmAttempts (nm_radio ?c6)"
      using completed by (simp add: profile within m)
  qed
  then obtain c' where c': "confirmAttempts L (joinConfirmImage KJoinConfirm
      \<lparr>jc_deviceUid = nm_deviceUid ?c6, jc_requestNonce = nc_requestNonce (nm_config ?c6)\<rparr>) kConfirmAttempts ?c6 = Some (c', True)"
    by blast
  have "sameMembership (nm_config ?c6) (takeAccept accept (nm_config c))" by (simp add: sameMembership_fields)
  then show ?thesis
    using run c' confirmAttempts_sound [OF sound6 id6 idle6 c'] by (intro exI [of _ c']) (simp add: sameMembership_fields)
qed

subsection \<open>The power level while joining\<close>

lemma saveConfig_radio [simp]: "nm_radio (fst (saveConfig c)) = nm_radio c"
  by (simp add: saveConfig_def case_prod_beta)

lemma saveConfig_radio': "saveConfig c = (c', saved) \<Longrightarrow> nm_radio c' = nm_radio c"
  by (metis fst_conv saveConfig_radio)

lemma confirmAttempts_level:
  "confirmAttempts L bs n c = Some (c', joined) \<Longrightarrow> nd_level (nm_radio c') = nd_level (nm_radio c)"
proof (induction n arbitrary: c)
  case (Suc n)
  let ?s = "onRadio (nodeSend L (nc_gatewayId (nm_config c)) bs) c"
  obtain r res where rec: "nodeReceive L kCompleteWindowMs (nc_gatewayId (nm_config c)) kJoinCompleteSize
      (nm_radio ?s) = Some (r, res)"
    using Suc.prems by (auto simp: Let_def split: option.splits prod.splits)
  have level: "nd_level r = nd_level (nm_radio c)" using nd_level_waits(3) [OF rec] by simp
  show ?case
    using Suc.prems rec Suc.IH [of "?s\<lparr>nm_radio := r\<rparr>"] level
    by (auto simp: Let_def dest!: saveConfig_radio' split: option.splits if_splits prod.splits)
qed auto

lemma confirmJoin_level:
  "confirmJoin B L c = Some (c', joined) \<Longrightarrow> nd_level (nm_radio c') = nb_maxPowerLevel B"
  by (auto simp: confirmJoin_def Let_def dest!: confirmAttempts_level split: sum.splits)

lemma requestJoin_level:
  assumes "requestJoin B L c = Some (c', joined)"
  shows "nd_level (nm_radio c') = nb_maxPowerLevel B"
proof -
  let ?c0 = "onRadio (useCommissioningProfile L (nb_maxPowerLevel B) (nm_factoryKey c)) c"
  obtain c1 nonce where c1: "createNonce L ?c0 = (c1, nonce)" by fastforce
  obtain m where m: "c1 = ?c0\<lparr>nm_radio := (nm_radio ?c0)\<lparr>nd_radio := m\<rparr>\<rparr>" by (rule createNonce_radio [OF c1])
  show ?thesis
    using assms c1 confirmJoin_level
    by (auto simp: requestJoin_def Let_def m dest!: nd_level_waits(3) saveConfig_radio'
        split: sum.splits option.splits prod.splits if_splits)
qed

lemma nodeAdvance_level:
  "nodeAdvance B L c = Some (c', joined) \<Longrightarrow>
   nd_level (nm_radio c') = nd_level (nm_radio c) \<or> \<not> nodeActive c \<and> nd_level (nm_radio c') = nb_maxPowerLevel B"
  by (auto simp: nodeAdvance_def Let_def dest: confirmJoin_level requestJoin_level nd_level_ensured split: if_splits prod.splits)

lemma nodeCommissioningBegin_level:
  "nd_level (nm_radio c) = nb_maxPowerLevel B \<Longrightarrow> nodeCommissioningBegin B L serial c = (c', started) \<Longrightarrow>
   nd_level (nm_radio c') = nb_maxPowerLevel B"
  by (auto simp: nodeCommissioningBegin_def readDeviceUid_def Let_def dest: nd_level_begin
      split: prod.splits if_splits option.splits)

end
