(* ===== verification/Node_Runtime.thy ===== *)
theory Node_Runtime
  imports Node_Commissioning Command_Codecs Power_Control Node_Inputs
begin

text \<open>
  node/lib/NodeCore/include/NodeRuntime.h, the loop of every node image.  A profile, a template
  parameter there, is the record of the functions the runtime calls; profile operations act on
  the state of the hardware, the EEPROM and the profile's own members.  The runtime reads the clock
  and the button once per turn; both are arguments.  A turn ends in a state or in a restart of the
  microcontroller; the value None is a wait that never ends.  The watchdog, which would end it, and
  the clock and sleep registers are not modelled.
\<close>

datatype ButtonGesture = GestureNone | ShortPress | LongPress

type_synonym ('m, 'p) profile_world = "'m \<times> eeprom \<times> 'p"

record ('m, 'p) node_profile =
  pf_profileId :: u16
  pf_telemetrySize :: nat
  pf_begin :: "('m, 'p) profile_world \<Rightarrow> ('m, 'p) profile_world"
  pf_poll :: "u32 \<Rightarrow> ('m, 'p) profile_world \<Rightarrow> ('m, 'p) profile_world"
  pf_reportDue :: "'p \<Rightarrow> u32 \<Rightarrow> bool"
  pf_takeUrgentReport :: "'p \<Rightarrow> bool \<times> 'p"
  pf_encodeTelemetry :: "TelemetryPrefix \<Rightarrow> 'p \<Rightarrow> 'm \<Rightarrow> ('m \<times> bytes) option"
  pf_reportAcknowledged :: "u32 \<Rightarrow> u16 \<Rightarrow> 'p \<Rightarrow> 'p"
  pf_reportFailed :: "u32 \<Rightarrow> u16 \<Rightarrow> 'p \<Rightarrow> 'p"
  pf_applyCommand :: "Command \<Rightarrow> CommandResult \<Rightarrow> ('m, 'p) profile_world \<Rightarrow> ('m, 'p) profile_world \<times> CommandResult"
  pf_commissioned :: "('m, 'p) profile_world \<Rightarrow> ('m, 'p) profile_world"

text \<open>\<open>pf_encodeTelemetry\<close> gives the frame as far as the returned size says, [] for 0; it may wait for a
  sensor.\<close>

record 'm node_hardware =
  nh_radio :: "'m rfm69"
  nh_readMillivolts :: "'m \<Rightarrow> 'm \<times> u16"

record ('m, 'p) node_runtime =
  rt_profile :: 'p
  rt_commissioning :: "'m node_commissioning"
  rt_afterPrevious :: u16
  rt_supplyGate :: SupplyGate
  rt_radioRetry :: RadioRetryBackoff
  rt_hintedSessions :: HintedSessionPolicy
  rt_joinRetry :: JoinRetrySchedule
  rt_downlinkRssi :: s8
  rt_powerLevel :: u8
  rt_radioFallback :: bool
  rt_unacknowledgedReports :: u8
  rt_urgentHeld :: bool
  rt_radioStart :: StartStatus

definition newNodeRuntime ::
  "node_build \<Rightarrow> 'p \<Rightarrow> 'm node_commissioning \<Rightarrow> RadioRetryBackoff \<Rightarrow> ('m, 'p) node_runtime" where
  "newNodeRuntime B p c radioRetry =
     \<lparr>rt_profile = p, rt_commissioning = c, rt_afterPrevious = 0xFFFF,
      rt_supplyGate = newSupplyGate (nb_minTransmitMillivolts B), rt_radioRetry = radioRetry,
      rt_hintedSessions = newHintedSessions, rt_joinRetry = newJoinRetry,
      rt_downlinkRssi = kNoDownlinkRssi, rt_powerLevel = nb_maxPowerLevel B, rt_radioFallback = False,
      rt_unacknowledgedReports = 0, rt_urgentHeld = False, rt_radioStart = RadioFailed\<rparr>"

datatype 'n turn = Running 'n | Restarting 'n

abbreviation (input) kSessionWindowMs :: u32 where "kSessionWindowMs \<equiv> 250"
abbreviation (input) kSessionAttempts :: nat where "kSessionAttempts \<equiv> 3"
abbreviation (input) kRadioRestartDelayMs :: u32 where "kRadioRestartDelayMs \<equiv> 300000"

subsection \<open>What the runtime shares with its parts\<close>

definition nodeModule :: "('m, 'p) node_runtime \<Rightarrow> 'm" where
  "nodeModule n = nd_radio (nm_radio (rt_commissioning n))"

definition onHardware :: "('m \<Rightarrow> 'm \<times> 'a) \<Rightarrow> ('m, 'p) node_runtime \<Rightarrow> ('m, 'p) node_runtime \<times> 'a" where
  "onHardware f n =
     (let (m, x) = f (nodeModule n)
      in (n\<lparr>rt_commissioning := onRadio (\<lambda>r. r\<lparr>nd_radio := m\<rparr>) (rt_commissioning n)\<rparr>, x))"

definition onNodeRadio ::
  "('m node_radio \<Rightarrow> 'm node_radio) \<Rightarrow> ('m, 'p) node_runtime \<Rightarrow> ('m, 'p) node_runtime" where
  "onNodeRadio f n = n\<lparr>rt_commissioning := onRadio f (rt_commissioning n)\<rparr>"

definition profileWorld :: "('m, 'p) node_runtime \<Rightarrow> ('m, 'p) profile_world" where
  "profileWorld n = (nodeModule n, nm_eeprom (rt_commissioning n), rt_profile n)"

definition setWorld :: "('m, 'p) profile_world \<Rightarrow> ('m, 'p) node_runtime \<Rightarrow> ('m, 'p) node_runtime" where
  "setWorld w n =
     (case w of (m, e, p) \<Rightarrow>
        n\<lparr>rt_profile := p,
          rt_commissioning := onRadio (\<lambda>r. r\<lparr>nd_radio := m\<rparr>) (rt_commissioning n)\<lparr>nm_eeprom := e\<rparr>\<rparr>)"

definition onProfile ::
  "(('m, 'p) profile_world \<Rightarrow> ('m, 'p) profile_world) \<Rightarrow> ('m, 'p) node_runtime \<Rightarrow> ('m, 'p) node_runtime" where
  "onProfile f n = setWorld (f (profileWorld n)) n"

subsection \<open>Start, supply and power\<close>

definition nodeRuntimeBegin ::
  "node_build \<Rightarrow> 'm node_hardware \<Rightarrow> ('m, 'p) node_profile \<Rightarrow> (nat \<Rightarrow> u8) \<Rightarrow> ('m, 'p) node_runtime \<Rightarrow>
   ('m, 'p) node_runtime" where
  "nodeRuntimeBegin B H P serial n =
     (let n = onProfile (pf_begin P) n;
          (c, started) = nodeCommissioningBegin B (nh_radio H) serial (rt_commissioning n)
      in n\<lparr>rt_commissioning := c, rt_radioStart := started\<rparr>)"

text \<open>Some the measured supply when it permits transmitting.\<close>

definition supplyAllows ::
  "'m node_hardware \<Rightarrow> u32 \<Rightarrow> ('m, 'p) node_runtime \<Rightarrow> ('m, 'p) node_runtime \<times> u16 option" where
  "supplyAllows H now n =
     (if gateHolding (rt_supplyGate n) now then (n, None)
      else
        let (n, millivolts) = onHardware (nh_readMillivolts H) n;
            (allowed, gate) = gateMeasured (rt_supplyGate n) now millivolts;
            n = n\<lparr>rt_supplyGate := gate\<rparr>
        in if \<not> allowed then (n\<lparr>rt_afterPrevious := loadedForget (rt_afterPrevious n)\<rparr>, None)
           else (n, Some millivolts))"

definition applyPower ::
  "'m node_hardware \<Rightarrow> PowerDecision \<Rightarrow> ('m, 'p) node_runtime \<Rightarrow> ('m, 'p) node_runtime" where
  "applyPower H decision n =
     (if \<not> pd_change decision then n
      else onNodeRadio (nodeSetPowerLevel (nh_radio H) (pd_level decision))
             (n\<lparr>rt_powerLevel := pd_level decision, rt_radioFallback := pd_fallback decision\<rparr>))"

definition commissionIfDue ::
  "node_build \<Rightarrow> 'm node_hardware \<Rightarrow> u32 \<Rightarrow> bool \<Rightarrow> ('m, 'p) node_runtime \<Rightarrow> ('m, 'p) node_runtime option" where
  "commissionIfDue B H now requestedByButton n =
     (if \<not> requestedByButton \<and> \<not> joinDue (rt_joinRetry n) now (nodeProvisional (rt_commissioning n))
      then Some n
      else
        case supplyAllows H now n of
          (n, None) \<Rightarrow> Some n
        | (n, Some _) \<Rightarrow>
            let n = n\<lparr>rt_joinRetry := joinAttempted (rt_joinRetry n) now requestedByButton\<rparr>
            in case nodeAdvance B (nh_radio H) (rt_commissioning n) of
                 None \<Rightarrow> None
               | Some (c, _) \<Rightarrow> Some (n\<lparr>rt_commissioning := c\<rparr>))"

subsection \<open>Reports\<close>

text \<open>What follows the transmission: the acknowledgement and its strength, if there was one.\<close>

definition reportOutcome ::
  "node_build \<Rightarrow> 'm node_hardware \<Rightarrow> ('m, 'p) node_profile \<Rightarrow> u32 \<Rightarrow> TelemetryPrefix \<Rightarrow>
   (TelemetryAck \<times> s8) option \<Rightarrow> ('m, 'p) node_runtime \<Rightarrow> ('m, 'p) node_runtime \<times> bool" where
  "reportOutcome B H P now prefix answer n =
     (case answer of
        Some (ack, ackRssi) \<Rightarrow>
          let n = n\<lparr>rt_downlinkRssi := ackRssi\<rparr>;
              n = n\<lparr>rt_profile := pf_reportAcknowledged P now (tp_supplyMillivolts prefix) (rt_profile n)\<rparr>;
              n = n\<lparr>rt_radioRetry := backoffSucceeded (rt_radioRetry n)\<rparr>;
              n = n\<lparr>rt_unacknowledgedReports := 0\<rparr>
          in (applyPower H (afterAcknowledged (rt_powerLevel n) (rt_radioFallback n)
                (ack_hasPowerTarget ack) (ack_powerTarget ack) (nb_maxPowerLevel B)) n,
              ack_commandPending ack)
      | None \<Rightarrow>
          let n = n\<lparr>rt_profile := pf_reportFailed P now (tp_supplyMillivolts prefix) (rt_profile n)\<rparr>;
              n = n\<lparr>rt_radioRetry := backoffFailed (rt_radioRetry n) now\<rparr>;
              n = (if rt_unacknowledgedReports n < 0xFF
                   then n\<lparr>rt_unacknowledgedReports := rt_unacknowledgedReports n + 1\<rparr> else n)
          in (applyPower H (afterUnacknowledged (rt_powerLevel n) (rt_radioFallback n)
                (rt_unacknowledgedReports n) (nb_maxPowerLevel B)) n,
              False))"

text \<open>Sending the encoded frame.\<close>

definition sendFrame ::
  "node_build \<Rightarrow> 'm node_hardware \<Rightarrow> ('m, 'p) node_profile \<Rightarrow> u32 \<Rightarrow> bool \<Rightarrow> TelemetryPrefix \<Rightarrow> bytes \<Rightarrow>
   ('m, 'p) node_runtime \<Rightarrow> (('m, 'p) node_runtime \<times> bool) option" where
  "sendFrame B H P now urgent prefix frame n =
     (if frame = [] then Some (reportOutcome B H P now prefix None n)
      else
        let (r, ready) = ensureConfigured (nh_radio H) (nm_radio (rt_commissioning n));
            n = onNodeRadio (\<lambda>_. r) n
        in if \<not> ready then Some (reportOutcome B H P now prefix None n)
           else
             case sendTelemetry (nh_radio H) (nc_gatewayId (nm_config (rt_commissioning n))) frame
                    (telemetryAttempts (rt_unacknowledgedReports n) urgent)
                    (nm_radio (rt_commissioning n)) of
               None \<Rightarrow> None
             | Some (r, answer) \<Rightarrow>
                 let n = onNodeRadio (\<lambda>_. r) n;
                     (n, millivolts) = onHardware (nh_readMillivolts H) n;
                     n = n\<lparr>rt_afterPrevious := loadedTransmitted (rt_afterPrevious n) millivolts\<rparr>
                 in Some (reportOutcome B H P now prefix answer n))"

text \<open>Encoding and sending the report that is due.\<close>

definition sendReport ::
  "node_build \<Rightarrow> 'm node_hardware \<Rightarrow> ('m, 'p) node_profile \<Rightarrow> u32 \<Rightarrow> bool \<Rightarrow> u16 \<Rightarrow>
   ('m, 'p) node_runtime \<Rightarrow> (('m, 'p) node_runtime \<times> bool) option" where
  "sendReport B H P now urgent supplyMillivolts n =
     (let prefix = \<lparr>tp_supplyMillivolts = loadedReport (rt_afterPrevious n) supplyMillivolts,
            tp_radioState = encodeRadioState (rt_powerLevel n) (rt_radioFallback n),
            tp_downlinkRssi = rt_downlinkRssi n\<rparr>
      in case pf_encodeTelemetry P prefix (rt_profile n) (nodeModule n) of
           None \<Rightarrow> None
         | Some (m, frame) \<Rightarrow> sendFrame B H P now urgent prefix frame (onNodeRadio (\<lambda>r. r\<lparr>nd_radio := m\<rparr>) n))"

definition reportIfDue ::
  "node_build \<Rightarrow> 'm node_hardware \<Rightarrow> ('m, 'p) node_profile \<Rightarrow> u32 \<Rightarrow>
   ('m, 'p) node_runtime \<Rightarrow> (('m, 'p) node_runtime \<times> bool) option" where
  "reportIfDue B H P now n =
     (let (event, p) = pf_takeUrgentReport P (rt_profile n);
          urgent = (event \<or> rt_urgentHeld n);
          n = n\<lparr>rt_profile := p, rt_urgentHeld := False\<rparr>
      in if \<not> pf_reportDue P (rt_profile n) now \<or> (\<not> urgent \<and> \<not> backoffAllowed (rt_radioRetry n) now)
         then Some (n, False)
         else
           case supplyAllows H now n of
             (n, None) \<Rightarrow> Some (n\<lparr>rt_urgentHeld := urgent\<rparr>, False)
           | (n, Some supplyMillivolts) \<Rightarrow> sendReport B H P now urgent supplyMillivolts n)"

subsection \<open>Command sessions\<close>

definition readInfo :: "node_build \<Rightarrow> u16 \<Rightarrow> Command \<Rightarrow> CommandResult \<Rightarrow> CommandResult" where
  "readInfo B profileId command result =
     (if cmd_argumentSize command \<noteq> 0 then result\<lparr>cr_status := InvalidArgument\<rparr>
      else
        case encodeNodeInfo \<lparr>ni_profileId = profileId, ni_firmware = kFirmwareVersion,
                ni_maxPowerLevel = nb_maxPowerLevel B\<rparr> (Some (cr_data result)) of
          Inl _ \<Rightarrow> result
        | Inr bs \<Rightarrow> result\<lparr>cr_data := bs, cr_status := Applied, cr_dataSize := of_nat kReadInfoResultSize\<rparr>)"

text \<open>The result of a command, before it is encoded.\<close>

definition commandAnswer ::
  "node_build \<Rightarrow> ('m, 'p) node_profile \<Rightarrow> Command \<Rightarrow> ('m, 'p) profile_world \<Rightarrow>
   ('m, 'p) profile_world \<times> CommandResult" where
  "commandAnswer B P command w =
     (let result = emptyCommandResult\<lparr>cr_sessionNonce := cmd_sessionNonce command,
            cr_commandId := cmd_commandId command, cr_status := Unsupported\<rparr>
      in if cmd_type command = commandTypeValue ReadInfo
         then (w, readInfo B (pf_profileId P) command result)
         else pf_applyCommand P command result w)"

definition answerCommand ::
  "node_build \<Rightarrow> 'm node_hardware \<Rightarrow> ('m, 'p) node_profile \<Rightarrow> u8 \<Rightarrow> Command \<Rightarrow>
   ('m, 'p) node_runtime \<Rightarrow> ('m, 'p) node_runtime" where
  "answerCommand B H P gatewayId command n =
     (let (w, result) = commandAnswer B P command (profileWorld n);
          n = setWorld w n;
          n = (case encodeCommandResult result (Some (zeros kMaxCommandResultSize)) of
                 Inl _ \<Rightarrow> n
               | Inr bs \<Rightarrow> onNodeRadio (\<lambda>r. fst (sendAcknowledged (nh_radio H) gatewayId
                   (take (commandResultFrameSize result) bs) r)) n)
      in onNodeRadio (nodeSleep (nh_radio H)) n)"

text \<open>What an answer means to the session: no command, a command for it, or neither.\<close>

datatype session_answer = AnsweredNone | AnsweredCommand Command | NotAnswered

definition receivedAnswer :: "u32 \<Rightarrow> bytes \<Rightarrow> session_answer" where
  "receivedAnswer nonce frame =
     (if decodeNoCommand (Some frame) = Inr nonce then AnsweredNone
      else
        case decodeCommand (Some frame) emptyCommand of
          Inl _ \<Rightarrow> NotAnswered
        | Inr command \<Rightarrow> if cmd_sessionNonce command = nonce then AnsweredCommand command else NotAnswered)"

fun sessionAttempts ::
  "node_build \<Rightarrow> 'm node_hardware \<Rightarrow> ('m, 'p) node_profile \<Rightarrow> u8 \<Rightarrow> u32 \<Rightarrow> bytes \<Rightarrow> nat \<Rightarrow>
   ('m, 'p) node_runtime \<Rightarrow> (('m, 'p) node_runtime \<times> bool) option" where
  "sessionAttempts B H P gatewayId nonce ready 0 n = Some (onNodeRadio (nodeSleep (nh_radio H)) n, False)"
| "sessionAttempts B H P gatewayId nonce ready (Suc k) n =
     (let n = onNodeRadio (nodeSend (nh_radio H) gatewayId ready) n
      in case receiveFrame (nh_radio H) kSessionWindowMs gatewayId kMaxCommandSize
                (nm_radio (rt_commissioning n)) of
           None \<Rightarrow> None
         | Some (r, received) \<Rightarrow>
             let n = onNodeRadio (\<lambda>_. r) n
             in case receivedAnswer nonce (case received of None \<Rightarrow> [] | Some bs \<Rightarrow> bs) of
                  AnsweredNone \<Rightarrow> Some (onNodeRadio (nodeSleep (nh_radio H)) n, True)
                | AnsweredCommand command \<Rightarrow> Some (answerCommand B H P gatewayId command n, True)
                | NotAnswered \<Rightarrow> sessionAttempts B H P gatewayId nonce ready k n)"

definition runCommandSession ::
  "node_build \<Rightarrow> 'm node_hardware \<Rightarrow> ('m, 'p) node_profile \<Rightarrow> ('m, 'p) node_runtime \<Rightarrow>
   (('m, 'p) node_runtime \<times> bool) option" where
  "runCommandSession B H P n =
     (let (r, configured) = ensureConfigured (nh_radio H) (nm_radio (rt_commissioning n));
          n = onNodeRadio (\<lambda>_. r) n
      in if \<not> configured then Some (n, False)
         else
           let gatewayId = nc_gatewayId (nm_config (rt_commissioning n));
               (c, nonce) = createNonce (nh_radio H) (rt_commissioning n);
               n = n\<lparr>rt_commissioning := c\<rparr>
           in case encodeCommandReady nonce (Some (zeros kCommandReadySize)) of
                Inl _ \<Rightarrow> sessionAttempts B H P gatewayId nonce (zeros kCommandReadySize) kSessionAttempts n
              | Inr ready \<Rightarrow> sessionAttempts B H P gatewayId nonce ready kSessionAttempts n)"

subsection \<open>One turn of the loop\<close>

definition runtimeReset :: "('m, 'p) node_runtime \<Rightarrow> ('m, 'p) node_runtime turn" where
  "runtimeReset n =
     (let (c, cleared) = nodeResetNetwork (rt_commissioning n);
          n = n\<lparr>rt_commissioning := c\<rparr>
      in if cleared then Restarting n else Running n)"

text \<open>The turn of an active node.\<close>

definition activeTurn ::
  "node_build \<Rightarrow> 'm node_hardware \<Rightarrow> ('m, 'p) node_profile \<Rightarrow> ButtonGesture \<Rightarrow> u32 \<Rightarrow>
   ('m, 'p) node_runtime \<Rightarrow> ('m, 'p) node_runtime option" where
  "activeTurn B H P gesture now n =
     (case reportIfDue B H P now n of
        None \<Rightarrow> None
      | Some (n, commandPending) \<Rightarrow>
          if gesture = ShortPress
          then
            (case supplyAllows H now n of
               (n, None) \<Rightarrow> Some n
             | (n, Some _) \<Rightarrow>
                 (case runCommandSession B H P n of
                    None \<Rightarrow> None
                  | Some (n, _) \<Rightarrow> map_option fst (reportIfDue B H P now n)))
          else if commandPending \<and> hintedAllowed (rt_hintedSessions n) now
          then
            (case supplyAllows H now n of
               (n, None) \<Rightarrow> Some n
             | (n, Some _) \<Rightarrow>
                 (case runCommandSession B H P n of
                    None \<Rightarrow> None
                  | Some (n, answered) \<Rightarrow>
                      let n = n\<lparr>rt_hintedSessions := hintedFinished (rt_hintedSessions n) now answered\<rparr>
                      in map_option fst (reportIfDue B H P now n)))
          else Some n)"

definition joiningTurn ::
  "node_build \<Rightarrow> 'm node_hardware \<Rightarrow> ('m, 'p) node_profile \<Rightarrow> ButtonGesture \<Rightarrow> u32 \<Rightarrow>
   ('m, 'p) node_runtime \<Rightarrow> ('m, 'p) node_runtime option" where
  "joiningTurn B H P gesture now n =
     map_option (\<lambda>n. if nodeActive (rt_commissioning n) then onProfile (pf_commissioned P) n else n)
       (commissionIfDue B H now (gesture = ShortPress) n)"

definition runOnce ::
  "node_build \<Rightarrow> 'm node_hardware \<Rightarrow> ('m, 'p) node_profile \<Rightarrow> ButtonGesture \<Rightarrow> u32 \<Rightarrow>
   ('m, 'p) node_runtime \<Rightarrow> ('m, 'p) node_runtime turn option" where
  "runOnce B H P gesture now n =
     (case (if gesture = LongPress then runtimeReset n else Running n) of
        Restarting n \<Rightarrow> Some (Restarting n)
      | Running n \<Rightarrow>
          let n = onProfile (pf_poll P now) n
          in if rt_radioStart n = RadioFailed \<and> intervalElapsed now 0 kRadioRestartDelayMs
             then Some (Restarting n)
             else if rt_radioStart n = StartReady
             then map_option Running
               (if nodeActive (rt_commissioning n) then activeTurn B H P gesture now n
                else joiningTurn B H P gesture now n)
             else Some (Running n))"

subsection \<open>A turn ends\<close>

lemma receiveFrame_returns:
  "timerRuns L elapsed \<Longrightarrow> unat timeoutMs < 10 ^ 9 \<Longrightarrow> \<exists>r' res. receiveFrame L timeoutMs who n r = Some (r', res)"
  using receiveMatching_returns by (fastforce simp: receiveFrame_def)

lemma sessionAttempts_returns:
  assumes run: "timerRuns (nh_radio H) elapsed"
  shows "sessionAttempts B H P gatewayId nonce ready k n \<noteq> None"
proof (induction k arbitrary: n)
  case (Suc k)
  have "unat (250 :: u32) < 10 ^ 9" by simp
  from receiveFrame_returns [OF run this]
  obtain r res where "receiveFrame (nh_radio H) 250 gatewayId 16
      (nm_radio (rt_commissioning (onNodeRadio (nodeSend (nh_radio H) gatewayId ready) n))) = Some (r, res)" by blast
  then show ?case using Suc by (cases "receivedAnswer nonce (case res of None \<Rightarrow> [] | Some bs \<Rightarrow> bs)") simp_all
qed simp

lemma runCommandSession_returns:
  assumes run: "timerRuns (nh_radio H) elapsed"
  shows "runCommandSession B H P n \<noteq> None"
  by (simp add: runCommandSession_def Let_def sessionAttempts_returns [OF run] split: prod.split sum.split del: not_None_eq)

definition encodesAlways :: "('m, 'p) node_profile \<Rightarrow> bool" where
  "encodesAlways P \<longleftrightarrow> (\<forall>prefix p m. pf_encodeTelemetry P prefix p m \<noteq> None)"

lemma sendFrame_returns:
  assumes run: "timerRuns (nh_radio H) elapsed"
  shows "sendFrame B H P now urgent prefix frame n \<noteq> None"
  by (simp add: sendFrame_def Let_def sendTelemetry_returns [OF run] split: prod.split option.split del: not_None_eq)

lemma sendReport_returns:
  assumes run: "timerRuns (nh_radio H) elapsed" "encodesAlways P"
  shows "sendReport B H P now urgent mv n \<noteq> None"
  using run(2) by (simp add: sendReport_def Let_def encodesAlways_def sendFrame_returns [OF run(1)]
      split: prod.split option.split del: not_None_eq)

lemma reportIfDue_returns:
  assumes run: "timerRuns (nh_radio H) elapsed" "encodesAlways P"
  shows "reportIfDue B H P now n \<noteq> None"
  by (simp add: reportIfDue_def Let_def sendReport_returns [OF run] split: prod.split option.split del: not_None_eq)

lemma activeTurn_returns:
  assumes run: "timerRuns (nh_radio H) elapsed" "encodesAlways P"
  shows "activeTurn B H P gesture now n \<noteq> None"
  by (simp add: activeTurn_def Let_def reportIfDue_returns [OF run] runCommandSession_returns [OF run(1)]
      split: prod.split option.split del: not_None_eq)

lemma joiningTurn_returns:
  assumes run: "timerRuns (nh_radio H) elapsed"
  shows "joiningTurn B H P gesture now n \<noteq> None"
  by (simp add: joiningTurn_def commissionIfDue_def Let_def nodeAdvance_returns [OF run]
      split: prod.split option.split del: not_None_eq)

lemma runOnce_returns:
  assumes run: "timerRuns (nh_radio H) elapsed" "encodesAlways P"
  shows "runOnce B H P gesture now n \<noteq> None"
  by (simp add: runOnce_def Let_def activeTurn_returns [OF run] joiningTurn_returns [OF run(1)]
      split: turn.split del: not_None_eq)

subsection \<open>What every turn keeps\<close>

definition backoffOk :: "RadioRetryBackoff \<Rightarrow> bool" where
  "backoffOk b \<longleftrightarrow> rb_failureLevel b \<le> kLastLevel"

text \<open>The configuration in RAM is the stored one, the radio transmits at the level the runtime reports,
  and that level, the counters and the schedules are within their bounds.\<close>

definition nodeRuntimeOk :: "node_build \<Rightarrow> ('m, 'p) node_runtime \<Rightarrow> bool" where
  "nodeRuntimeOk B n \<longleftrightarrow>
     joinSound (rt_commissioning n) \<and> nd_level (nm_radio (rt_commissioning n)) = rt_powerLevel n \<and>
     rt_powerLevel n \<le> nb_maxPowerLevel B \<and>
     (rt_radioFallback n \<or> \<not> nodeActive (rt_commissioning n) \<longrightarrow> rt_powerLevel n = nb_maxPowerLevel B) \<and>
     joinOk (rt_joinRetry n) \<and> backoffOk (rt_radioRetry n) \<and>
     backoffOk (hs_unanswered (rt_hintedSessions n)) \<and>
     sg_minimumExclusiveMillivolts (rt_supplyGate n) = nb_minTransmitMillivolts B"

lemma backoffOk_simps [simp]:
  "backoffOk (backoffSucceeded b) = backoffOk b" "backoffOk b \<Longrightarrow> backoffOk (backoffFailed b now)"
  "backoffOk (newBackoff enabled)"
  by (auto simp: backoffOk_def backoffSucceeded_def newBackoff_def)
     (auto simp: backoffFailed_def Let_def word_le_nat_alt word_less_nat_alt unat_word_ariths split: if_splits)

lemma gateMeasured_minimum:
  "gateMeasured g now mv = (allowed, g') \<Longrightarrow>
   sg_minimumExclusiveMillivolts g' = sg_minimumExclusiveMillivolts g"
  by (auto simp: gateMeasured_def Let_def split: if_splits)

text \<open>A change of the module alone, one that keeps the level.\<close>

lemma nodeRuntimeOk_radio:
  "nd_level (f (nm_radio (rt_commissioning n))) = nd_level (nm_radio (rt_commissioning n)) \<Longrightarrow>
   nodeRuntimeOk B (onNodeRadio f n) = nodeRuntimeOk B n"
  by (simp add: nodeRuntimeOk_def onNodeRadio_def)

lemma onHardware_ok: "onHardware f n = (n', x) \<Longrightarrow> nodeRuntimeOk B n' = nodeRuntimeOk B n"
  by (auto simp: onHardware_def nodeRuntimeOk_def split: prod.splits)

lemma applyPower_ok:
  assumes "nodeRuntimeOk B n" "nodeActive (rt_commissioning n)" "pd_level d \<le> nb_maxPowerLevel B"
    "pd_change d \<Longrightarrow> pd_fallback d \<Longrightarrow> pd_level d = nb_maxPowerLevel B"
  shows "nodeRuntimeOk B (applyPower H d n)"
  using assms by (auto simp: applyPower_def onNodeRadio_def nodeRuntimeOk_def)

lemma supplyAllows_ok:
  "supplyAllows H now n = (n', mv) \<Longrightarrow> nodeRuntimeOk B n \<Longrightarrow>
   nodeRuntimeOk B n' \<and> nodeActive (rt_commissioning n') = nodeActive (rt_commissioning n)"
  by (auto simp: supplyAllows_def onHardware_def nodeRuntimeOk_def Let_def dest!: gateMeasured_minimum
      split: if_splits prod.splits)

lemma commissionIfDue_ok:
  assumes "nodeRuntimeOk B n" "\<not> nodeActive (rt_commissioning n)" "commissionIfDue B H now button n = Some n'"
  shows "nodeRuntimeOk B n'"
proof -
  have *: "nodeRuntimeOk B (m\<lparr>rt_joinRetry := joinAttempted (rt_joinRetry m) now button, rt_commissioning := c\<rparr>)"
    if m: "nodeRuntimeOk B m" "\<not> nodeActive (rt_commissioning m)"
      and c: "nodeAdvance B (nh_radio H) (rt_commissioning m) = Some (c, joined)" for m c joined
    using m nodeAdvance_level [OF c] nodeAdvance_sound [OF _ c] joinAttempted_ok(1) [of "rt_joinRetry m"]
    by (auto simp: nodeRuntimeOk_def)
  show ?thesis
    using assms by (auto simp: commissionIfDue_def Let_def intro!: * dest!: supplyAllows_ok
        split: if_splits prod.splits option.splits)
qed

text \<open>An active node stays active: reports and sessions leave its configuration.\<close>

definition activeOk :: "node_build \<Rightarrow> ('m, 'p) node_runtime \<Rightarrow> bool" where
  "activeOk B n \<longleftrightarrow> nodeRuntimeOk B n \<and> nodeActive (rt_commissioning n)"

lemma activeOk_simps [simp]:
  "activeOk B (n\<lparr>rt_profile := p\<rparr>) = activeOk B n" "activeOk B (n\<lparr>rt_urgentHeld := u\<rparr>) = activeOk B n"
  "activeOk B (n\<lparr>rt_downlinkRssi := rssi\<rparr>) = activeOk B n" "activeOk B (n\<lparr>rt_afterPrevious := mv\<rparr>) = activeOk B n"
  "activeOk B (n\<lparr>rt_unacknowledgedReports := k\<rparr>) = activeOk B n"
  by (simp_all add: activeOk_def nodeRuntimeOk_def)

lemma activeOk_backoff [simp]:
  "activeOk B n \<Longrightarrow> backoffOk b \<Longrightarrow> activeOk B (n\<lparr>rt_radioRetry := b\<rparr>)"
  "activeOk B n \<Longrightarrow> backoffOk (hs_unanswered h) \<Longrightarrow> activeOk B (n\<lparr>rt_hintedSessions := h\<rparr>)"
  by (simp_all add: activeOk_def nodeRuntimeOk_def)

lemma activeOk_fields:
  "activeOk B n \<Longrightarrow> backoffOk (rt_radioRetry n) \<and> backoffOk (hs_unanswered (rt_hintedSessions n)) \<and>
    rt_powerLevel n \<le> nb_maxPowerLevel B"
  by (simp add: activeOk_def nodeRuntimeOk_def)

lemma activeOk_radio:
  "nd_level (f (nm_radio (rt_commissioning n))) = nd_level (nm_radio (rt_commissioning n)) \<Longrightarrow>
   activeOk B (onNodeRadio f n) = activeOk B n"
  by (simp add: activeOk_def nodeRuntimeOk_radio) (simp add: onNodeRadio_def)

lemma activeOk_hardware: "onHardware f n = (n', x) \<Longrightarrow> activeOk B n' = activeOk B n"
  using onHardware_ok [of f n n' x] by (auto simp: activeOk_def onHardware_def split: prod.splits)

lemma activeOk_supply: "supplyAllows H now n = (n', mv) \<Longrightarrow> activeOk B n \<Longrightarrow> activeOk B n'"
  by (auto simp: activeOk_def dest!: supplyAllows_ok [where B = B])

lemma activeOk_power:
  assumes "activeOk B n" "pd_level d \<le> nb_maxPowerLevel B"
    "pd_change d \<Longrightarrow> pd_fallback d \<Longrightarrow> pd_level d = nb_maxPowerLevel B"
  shows "activeOk B (applyPower H d n)"
  using applyPower_ok [of B n d H] assms by (auto simp: activeOk_def applyPower_def onNodeRadio_def)

lemma reportOutcome_ok:
  assumes "activeOk B n" "reportOutcome B H P now prefix answer n = (n', pending)"
  shows "activeOk B n'"
proof -
  note level = afterAcknowledged_le [of "rt_powerLevel n" "nb_maxPowerLevel B"]
    afterUnacknowledged_le [of "rt_powerLevel n" "nb_maxPowerLevel B"]
  have "pd_change (afterAcknowledged l f h t c) \<Longrightarrow> \<not> pd_fallback (afterAcknowledged l f h t c)"
    "pd_change (afterUnacknowledged l f k c) \<Longrightarrow> pd_level (afterUnacknowledged l f k c) = c" for l f h t c k
    by (auto simp: afterAcknowledged_def afterUnacknowledged_def Let_def split: if_splits)
  then show ?thesis
    using assms activeOk_fields [OF assms(1)] level
    by (auto simp: reportOutcome_def Let_def intro!: activeOk_power split: option.splits)
qed

lemma sendReport_ok:
  assumes "activeOk B n" "sendReport B H P now urgent mv n = Some (n', pending)"
  shows "activeOk B n'"
proof -
  have "activeOk B n'" if "activeOk B m" "sendFrame B H P now urgent prefix frame m = Some (n', pending)"
    for m prefix frame
    using that
    by (auto simp: sendFrame_def Let_def activeOk_radio nd_level_ensured nd_level_waits
        dest!: activeOk_hardware [where B = B] elim!: reportOutcome_ok [rotated]
        split: prod.splits option.splits if_splits)
  note frame = this
  obtain m prefix bs where "sendFrame B H P now urgent prefix bs (onNodeRadio (\<lambda>r. r\<lparr>nd_radio := m\<rparr>) n) = Some (n', pending)"
    using assms(2) by (auto simp: sendReport_def Let_def split: option.splits)
  then show ?thesis by (rule frame [rotated]) (use assms(1) in \<open>simp add: activeOk_radio\<close>)
qed

lemma reportIfDue_ok:
  assumes "activeOk B n" "reportIfDue B H P now n = Some (n', pending)"
  shows "activeOk B n'"
  using assms
  by (auto simp: reportIfDue_def Let_def dest!: activeOk_supply [where B = B] elim!: sendReport_ok [rotated]
      split: prod.splits option.splits if_splits)

subsection \<open>The life of a node\<close>

text \<open>A boot, on whatever the EEPROM, the user row and the module hold (a restart and a power failure
  leave some EEPROM); then turns.\<close>

definition nodeBoot ::
  "node_build \<Rightarrow> 'm node_hardware \<Rightarrow> ('m, 'p) node_profile \<Rightarrow> (nat \<Rightarrow> u8) \<Rightarrow> 'p \<Rightarrow> bool \<Rightarrow> 'm \<Rightarrow> eeprom \<Rightarrow>
   (nat \<Rightarrow> u8) \<Rightarrow> ('m, 'p) node_runtime" where
  "nodeBoot B H P serial p backoff m e userRow = nodeRuntimeBegin B H P serial
     (newNodeRuntime B p (newNodeCommissioning (newNodeRadio (nb_maxPowerLevel B) m) (pf_profileId P) e userRow)
        (newBackoff backoff))"

inductive node_runs ::
  "node_build \<Rightarrow> 'm node_hardware \<Rightarrow> ('m, 'p) node_profile \<Rightarrow> (nat \<Rightarrow> u8) \<Rightarrow> ('m, 'p) node_runtime \<Rightarrow> bool"
  for B H P serial where
  boot: "node_runs B H P serial (nodeBoot B H P serial p backoff m e userRow)"
| turn: "node_runs B H P serial n \<Longrightarrow> runOnce B H P gesture now n = Some (Running n') \<Longrightarrow>
    node_runs B H P serial n'"

lemma nodeBoot_ok: "nodeRuntimeOk B (nodeBoot B H P serial p backoff m e userRow)"
proof -
  let ?n = "newNodeRuntime B p (newNodeCommissioning (newNodeRadio (nb_maxPowerLevel B) m) (pf_profileId P) e userRow)
        (newBackoff backoff)"
  obtain m' e' p' where w: "pf_begin P (profileWorld ?n) = (m', e', p')" by (metis prod_cases3)
  let ?r = "(newNodeRadio (nb_maxPowerLevel B) m)\<lparr>nd_radio := m'\<rparr>"
  have c: "rt_commissioning (onProfile (pf_begin P) ?n) = newNodeCommissioning ?r (pf_profileId P) e' userRow"
    unfolding onProfile_def w by (simp add: setWorld_def onRadio_def newNodeRuntime_def newNodeCommissioning_def)
  obtain c1 started where b: "nodeCommissioningBegin B (nh_radio H) serial
      (newNodeCommissioning ?r (pf_profileId P) e' userRow) = (c1, started)" by fastforce
  have level: "nd_level (nm_radio c1) = nb_maxPowerLevel B"
    by (rule nodeCommissioningBegin_level [OF _ b]) (simp add: newNodeCommissioning_def newNodeRadio_def)
  have boot: "nodeBoot B H P serial p backoff m e userRow =
      onProfile (pf_begin P) ?n\<lparr>rt_commissioning := c1, rt_radioStart := started\<rparr>"
    unfolding nodeBoot_def nodeRuntimeBegin_def Let_def c b by simp
  show ?thesis
    unfolding boot onProfile_def w using nodeCommissioningBegin_sound(1) [OF b] level
    by (simp add: nodeRuntimeOk_def setWorld_def newNodeRuntime_def joinOk_def newJoinRetry_def
        newHintedSessions_def newSupplyGate_def)
qed

subsection \<open>What the runtime relies on in a profile\<close>

definition networkKept :: "eeprom \<Rightarrow> eeprom \<Rightarrow> bool" where
  "networkKept e e' \<longleftrightarrow> (\<forall>a < 64. e' a = e a)"

definition worldKept :: "(('m, 'p) profile_world \<Rightarrow> ('m, 'p) profile_world) \<Rightarrow> bool" where
  "worldKept f \<longleftrightarrow> (\<forall>w. networkKept (fst (snd w)) (fst (snd (f w))))"

lemma networkLoad_kept:
  assumes "networkKept e e'"
  shows "networkLoad e' = networkLoad e"
proof -
  have "readBlock e' a 32 = readBlock e a 32" if "a = 0 \<or> a = 32" for a
    using assms that by (auto simp: networkKept_def intro!: nth_equalityI)
  then show ?thesis by (simp add: networkLoad_def slotLoad_def networkLayout_def)
qed

lemma setWorld_fields [simp]:
  "nodeRuntimeOk B (setWorld (m, e, p) n) =
    nodeRuntimeOk B (n\<lparr>rt_commissioning := rt_commissioning n\<lparr>nm_eeprom := e\<rparr>\<rparr>)"
  "nodeActive (rt_commissioning (setWorld (m, e, p) n)) = nodeActive (rt_commissioning n)"
  by (simp_all add: setWorld_def nodeRuntimeOk_def joinSound_def onRadio_def nodeActive_def)

lemma nodeRuntimeOk_eeprom:
  "networkKept (nm_eeprom (rt_commissioning n)) e \<Longrightarrow> nodeRuntimeOk B n \<Longrightarrow>
   nodeRuntimeOk B (n\<lparr>rt_commissioning := rt_commissioning n\<lparr>nm_eeprom := e\<rparr>\<rparr>)"
  by (simp add: nodeRuntimeOk_def joinSound_def nodeActive_def networkLoad_kept)

lemma onProfile_ok:
  assumes "worldKept f" "nodeRuntimeOk B n"
  shows "nodeRuntimeOk B (onProfile f n)" "nodeActive (rt_commissioning (onProfile f n)) = nodeActive (rt_commissioning n)"
proof -
  obtain m e p where w: "f (profileWorld n) = (m, e, p)" by (metis prod_cases3)
  then have "networkKept (nm_eeprom (rt_commissioning n)) e"
    using assms(1) unfolding worldKept_def profileWorld_def by (metis fst_conv snd_conv)
  then show "nodeRuntimeOk B (onProfile f n)"
    "nodeActive (rt_commissioning (onProfile f n)) = nodeActive (rt_commissioning n)"
    using nodeRuntimeOk_eeprom assms(2) w by (simp_all add: onProfile_def)
qed

locale profile_storage =
  fixes P :: "('m, 'p) node_profile"
  assumes begin_kept: "worldKept (pf_begin P)"
    and poll_kept: "worldKept (pf_poll P now)"
    and apply_kept: "worldKept (\<lambda>w. fst (pf_applyCommand P command result w))"
    and commissioned_kept: "worldKept (pf_commissioned P)"
begin

lemma commandAnswer_kept: "worldKept (\<lambda>w. fst (commandAnswer B P command w))"
  using apply_kept by (auto simp: commandAnswer_def worldKept_def networkKept_def Let_def)

lemma answerCommand_ok:
  assumes "activeOk B n"
  shows "activeOk B (answerCommand B H P gatewayId command n)"
proof -
  obtain w result where w: "commandAnswer B P command (profileWorld n) = (w, result)" by fastforce
  have "setWorld w n = onProfile (\<lambda>w. fst (commandAnswer B P command w)) n" by (simp add: onProfile_def w)
  then have "activeOk B (setWorld w n)"
    using onProfile_ok [OF commandAnswer_kept, of B n] assms by (simp add: activeOk_def)
  then show ?thesis by (auto simp: answerCommand_def w Let_def activeOk_radio split: sum.split)
qed

lemma sessionAttempts_ok:
  "activeOk B n \<Longrightarrow> sessionAttempts B H P gatewayId nonce ready k n = Some (n', answered) \<Longrightarrow> activeOk B n'"
proof (induction k arbitrary: n)
  case (Suc k)
  let ?s = "onNodeRadio (nodeSend (nh_radio H) gatewayId ready) n"
  obtain r received where rec: "receiveFrame (nh_radio H) kSessionWindowMs gatewayId kMaxCommandSize
      (nm_radio (rt_commissioning ?s)) = Some (r, received)"
    using Suc.prems(2) by (auto simp: Let_def split: option.splits)
  have ok: "activeOk B (onNodeRadio (\<lambda>_. r) ?s)"
    using Suc.prems(1) nd_level_waits(4) [OF rec] by (simp add: activeOk_radio)
  show ?case
    using Suc.prems(2) rec ok Suc.IH [OF ok] answerCommand_ok [OF ok]
    by (auto simp: Let_def activeOk_radio split: session_answer.splits)
qed (auto simp: activeOk_radio)

lemma runCommandSession_ok:
  assumes "activeOk B n" "runCommandSession B H P n = Some (n', answered)"
  shows "activeOk B n'"
proof -
  obtain r ready where r: "ensureConfigured (nh_radio H) (nm_radio (rt_commissioning n)) = (r, ready)" by fastforce
  let ?n = "onNodeRadio (\<lambda>_. r) n"
  have ok: "activeOk B ?n" using assms(1) nd_level_ensured [OF r] by (simp add: activeOk_radio)
  obtain c nonce where c: "createNonce (nh_radio H) (rt_commissioning ?n) = (c, nonce)" by fastforce
  obtain m where "c = (rt_commissioning ?n)\<lparr>nm_radio := (nm_radio (rt_commissioning ?n))\<lparr>nd_radio := m\<rparr>\<rparr>"
    by (rule createNonce_radio [OF c])
  then have "activeOk B (?n\<lparr>rt_commissioning := c\<rparr>)" using ok by (simp add: activeOk_def nodeRuntimeOk_def)
  from sessionAttempts_ok [OF this] show ?thesis
    using assms(2) r c ok by (auto simp: runCommandSession_def Let_def split: sum.splits if_splits)
qed

lemma activeTurn_ok:
  assumes "activeOk B n" "activeTurn B H P gesture now n = Some n'"
  shows "activeOk B n'"
proof -
  have hinted: "activeOk B (m\<lparr>rt_hintedSessions := hintedFinished (rt_hintedSessions m) now answered\<rparr>)"
    if "activeOk B m" for m answered
    using that activeOk_fields [OF that] by (simp add: hintedFinished_def Let_def)
  obtain n1 pend where n1: "reportIfDue B H P now n = Some (n1, pend)"
    using assms(2) by (auto simp: activeTurn_def split: option.splits)
  note ok1 = reportIfDue_ok [OF assms(1) n1]
  obtain n2 mv where n2: "supplyAllows H now n1 = (n2, mv)" by fastforce
  note ok2 = activeOk_supply [OF n2 ok1]
  show ?thesis
  proof (cases "runCommandSession B H P n2")
    case None
    then show ?thesis using assms(2) n1 n2 ok1 ok2 by (auto simp: activeTurn_def split: if_splits option.splits)
  next
    case (Some a)
    obtain n3 answered where n3: "runCommandSession B H P n2 = Some (n3, answered)"
      using Some by (cases a) simp
    note ok3 = runCommandSession_ok [OF ok2 n3]
    show ?thesis
      using assms(2) n1 n2 n3 ok1 ok2 reportIfDue_ok [OF ok3] reportIfDue_ok [OF hinted [OF ok3]]
      by (auto simp: activeTurn_def Let_def split: if_splits option.splits)
  qed
qed

lemma joiningTurn_ok:
  assumes "nodeRuntimeOk B n" "\<not> nodeActive (rt_commissioning n)" "joiningTurn B H P gesture now n = Some n'"
  shows "nodeRuntimeOk B n'"
  using assms commissionIfDue_ok [OF assms(1,2)] onProfile_ok(1) [OF commissioned_kept]
  by (auto simp: joiningTurn_def split: if_splits)

text \<open>A turn keeps the invariant; before a restart, what matters is that the EEPROM agrees.\<close>

lemma runOnce_ok:
  assumes ok: "nodeRuntimeOk B n" and run: "runOnce B H P gesture now n = Some t"
  shows "case t of Running n' \<Rightarrow> nodeRuntimeOk B n' | Restarting n' \<Rightarrow> joinSound (rt_commissioning n')"
proof (cases "if gesture = LongPress then runtimeReset n else Running n")
  case (Restarting n')
  then have "joinSound (rt_commissioning n')"
    using ok nodeResetNetwork_sound [of "rt_commissioning n"]
    by (auto simp: runtimeReset_def Let_def nodeRuntimeOk_def split: if_splits prod.splits)
  then show ?thesis using run Restarting by (auto simp: runOnce_def)
next
  case (Running n1)
  then have "n1 = n"
    by (auto simp: runtimeReset_def nodeResetNetwork_def Let_def split: if_splits prod.splits)
  moreover have polled: "nodeRuntimeOk B (onProfile (pf_poll P now) n)"
    by (rule onProfile_ok(1) [OF poll_kept ok])
  moreover have "nodeRuntimeOk B n'" if "activeTurn B H P gesture now (onProfile (pf_poll P now) n) = Some n'"
      "nodeActive (rt_commissioning (onProfile (pf_poll P now) n))" for n'
    using activeTurn_ok [OF _ that(1)] polled that(2) by (simp add: activeOk_def)
  moreover have "joinSound (rt_commissioning (onProfile (pf_poll P now) n))"
    using polled by (simp add: nodeRuntimeOk_def)
  ultimately show ?thesis
    using run Running joiningTurn_ok [OF polled] polled by (auto simp: runOnce_def Let_def split: if_splits)
qed

lemma runs_ok: "node_runs B H P serial n \<Longrightarrow> nodeRuntimeOk B n"
proof (induction rule: node_runs.induct)
  case boot
  show ?case by (rule nodeBoot_ok)
next
  case (turn n gesture now n')
  then show ?case using runOnce_ok [OF turn.IH turn.hyps(2)] by simp
qed

end

subsection \<open>Answers to commands\<close>

text \<open>What the gateway expects of a result, whatever the command: the session and the command it
  belongs to, a known status, and data exactly when the command's type and that status have some.\<close>

definition answersCommand :: "Command \<Rightarrow> CommandResult \<Rightarrow> bool" where
  "answersCommand command result \<longleftrightarrow>
     commandResultOk result \<and> cr_sessionNonce result = cmd_sessionNonce command \<and>
     cr_commandId result = cmd_commandId command \<and> cr_status result \<noteq> StorageFailure \<and>
     unat (cr_dataSize result) = commandResultDataSize (commandTypeOf (cmd_type command)) (cr_status result)"

definition unsupportedResult :: "Command \<Rightarrow> CommandResult" where
  "unsupportedResult command = emptyCommandResult\<lparr>cr_sessionNonce := cmd_sessionNonce command,
     cr_commandId := cmd_commandId command, cr_status := Unsupported\<rparr>"

lemma unsupportedResult_fields [simp]:
  "cr_sessionNonce (unsupportedResult command) = cmd_sessionNonce command"
  "cr_commandId (unsupportedResult command) = cmd_commandId command"
  "cr_status (unsupportedResult command) = Unsupported" "cr_dataSize (unsupportedResult command) = 0"
  "cr_data (unsupportedResult command) = zeros 8"
  by (simp_all add: unsupportedResult_def emptyCommandResult_def)

lemma answersCommand_quiet:
  "commandOk command \<Longrightarrow> s = Unsupported \<or> s = InvalidArgument \<Longrightarrow>
   answersCommand command (unsupportedResult command\<lparr>cr_status := s\<rparr>)"
  by (auto simp: answersCommand_def commandResultOk_def commandOk_def commandResultDataSize_def)

lemma answersCommand_unsupported: "commandOk command \<Longrightarrow> answersCommand command (unsupportedResult command)"
  by (simp add: answersCommand_def commandResultOk_def commandOk_def commandResultDataSize_def)

locale profile_commands =
  fixes P :: "('m, 'p) node_profile"
  assumes apply_answers:
      "commandOk command \<Longrightarrow> pf_applyCommand P command (unsupportedResult command) w = (w', result) \<Longrightarrow>
       answersCommand command result"
    and profile_known: "pf_profileId P \<noteq> kUnassignedProfileId"
begin

lemma readInfo_answers:
  assumes "commandOk command" "cmd_type command = commandTypeValue ReadInfo" "nb_maxPowerLevel B \<le> kMaxRadioPowerLevel"
  defines "result \<equiv> readInfo B (pf_profileId P) command (unsupportedResult command)"
  shows "answersCommand command result"
    and "cr_status result = Applied \<Longrightarrow> decodeNodeInfo (Some (take (unat (cr_dataSize result)) (cr_data result))) =
      Inr \<lparr>ni_profileId = pf_profileId P, ni_firmware = kFirmwareVersion, ni_maxPowerLevel = nb_maxPowerLevel B\<rparr>"
proof -
  let ?i = "\<lparr>ni_profileId = pf_profileId P, ni_firmware = kFirmwareVersion, ni_maxPowerLevel = nb_maxPowerLevel B\<rparr>"
  have len: "length (nodeInfoImage ?i) = 6" by (simp add: nodeInfoImage_def)
  have ok: "nodeInfoOk ?i" using profile_known assms(3) by (simp add: nodeInfoOk_def)
  have enc: "encodeNodeInfo ?i (Some (zeros 8)) = Inr (nodeInfoImage ?i @ zeros 2)"
    using nodeInfo.encode_fits [OF ok, of "zeros 8"] len by (simp add: written_def)
  show "answersCommand command result"
    using assms(1,2) enc len answersCommand_quiet [OF assms(1), of InvalidArgument]
    by (auto simp: result_def readInfo_def answersCommand_def commandResultOk_def commandOk_def
        commandResultDataSize_def commandTypeOf_def)
  show "decodeNodeInfo (Some (take (unat (cr_dataSize result)) (cr_data result))) = Inr ?i" if "cr_status result = Applied"
    using that enc len nodeInfo.decode_image [OF ok] by (auto simp: result_def readInfo_def split: if_splits)
qed

lemma commandAnswer_answers:
  assumes "commandOk command" "nb_maxPowerLevel B \<le> kMaxRadioPowerLevel"
    and "commandAnswer B P command w = (w', result)"
  shows "answersCommand command result"
    and "cmd_type command = commandTypeValue ReadInfo \<Longrightarrow> cr_status result = Applied \<Longrightarrow>
      decodeNodeInfo (Some (take (unat (cr_dataSize result)) (cr_data result))) =
      Inr \<lparr>ni_profileId = pf_profileId P, ni_firmware = kFirmwareVersion, ni_maxPowerLevel = nb_maxPowerLevel B\<rparr>"
  using assms readInfo_answers [OF assms(1) _ assms(2)] apply_answers [OF assms(1)]
  by (auto simp: commandAnswer_def Let_def unsupportedResult_def [symmetric] split: if_splits)

text \<open>What is transmitted is the wire image of the result.\<close>

lemma answerCommand_frame:
  assumes "commandOk command" "nb_maxPowerLevel B \<le> kMaxRadioPowerLevel"
    and "commandAnswer B P command w = (w', result)"
  shows "\<exists>bs. encodeCommandResult result (Some (zeros kMaxCommandResultSize)) = Inr bs \<and>
    take (commandResultFrameSize result) bs = commandResultImage result"
proof -
  have ok: "commandResultOk result"
    using commandAnswer_answers(1) [OF assms] by (simp add: answersCommand_def)
  then have "length (commandResultImage result) = commandResultFrameSize result" "commandResultFrameSize result \<le> 16"
    by (simp_all add: commandResultImage_def commandResultOk_def commandResultFrameSize_def)
  then show ?thesis
    using commandResult.encode_fits [OF ok, of "zeros 16"] by (simp add: written_def)
qed

end

subsection \<open>Reports\<close>

text \<open>What a profile encodes under a prefix that can be sent is a reading of the size it announces.\<close>

definition reportsReading :: "TelemetryPrefix \<Rightarrow> nat \<Rightarrow> bytes \<Rightarrow> bool" where
  "reportsReading prefix n frame \<longleftrightarrow>
     length frame = n \<and> (\<exists>reading. readingOk reading \<and> frame = prefixImage prefix @ readingPayload reading)"

locale profile_reports =
  fixes P :: "('m, 'p) node_profile"
  assumes encodes: "prefixOk prefix \<Longrightarrow> pf_encodeTelemetry P prefix p m = Some (m', frame) \<Longrightarrow>
    reportsReading prefix (pf_telemetrySize P) frame"
begin

lemma report_decodes:
  assumes "pf_encodeTelemetry P prefix p m = Some (m', frame)" "tp_radioState prefix = encodeRadioState level fallback"
  shows "length frame = pf_telemetrySize P \<and> (\<exists>reading. readingOk reading \<and>
    decodeTelemetry (Some frame) = Inr \<lparr>tv_supplyMillivolts = tp_supplyMillivolts prefix,
      tv_radioState = tp_radioState prefix, tv_downlinkRssi = tp_downlinkRssi prefix,
      tv_profilePayload = readingPayload reading\<rparr>)"
proof -
  have ok: "prefixOk prefix" by (simp add: prefixOk_def assms(2) encodeRadioState_ok)
  then show ?thesis
    using encodes [OF ok assms(1)] decodeTelemetry_image [OF ok] by (auto simp: reportsReading_def)
qed

end

subsection \<open>Events\<close>

text \<open>A profile raises an event, a report that must not wait; \<open>pending\<close> says that a report is owed until
  one is acknowledged.\<close>

locale profile_events =
  fixes P :: "('m, 'p) node_profile" and sound :: "'p \<Rightarrow> bool" and pending :: "'p \<Rightarrow> bool"
  assumes due: "pending p \<Longrightarrow> pf_reportDue P p now"
    and take_urgent: "sound p \<Longrightarrow> pf_takeUrgentReport P p = (event, p') \<Longrightarrow>
      sound p' \<and> (event \<or> pending p \<longrightarrow> pending p') \<and> \<not> fst (pf_takeUrgentReport P p')"
    and poll: "sound p \<Longrightarrow> pf_poll P now (m, e, p) = (m', e', p') \<Longrightarrow> sound p' \<and> (pending p \<longrightarrow> pending p') \<and>
      (fst (pf_takeUrgentReport P p) \<longrightarrow> fst (pf_takeUrgentReport P p'))"
    and failed: "sound p \<Longrightarrow> sound (pf_reportFailed P now mv p) \<and> (pending p \<longrightarrow> pending (pf_reportFailed P now mv p))"
begin

text \<open>With an event raised or held, a report is sent in this turn whatever the backoff says, or it is
  held because the supply is low.\<close>

lemma event_reported:
  assumes "sound (rt_profile n)" "fst (pf_takeUrgentReport P (rt_profile n)) \<or> rt_urgentHeld n \<and> pending (rt_profile n)"
  defines "taken \<equiv> n\<lparr>rt_profile := snd (pf_takeUrgentReport P (rt_profile n)), rt_urgentHeld := False\<rparr>"
  shows "reportIfDue B H P now n =
    (case supplyAllows H now taken of
       (n', None) \<Rightarrow> Some (n'\<lparr>rt_urgentHeld := True\<rparr>, False)
     | (n', Some mv) \<Rightarrow> sendReport B H P now True mv n')"
proof -
  obtain event p where t: "pf_takeUrgentReport P (rt_profile n) = (event, p)" by fastforce
  have "pending p" "event \<or> rt_urgentHeld n" using take_urgent [OF assms(1) t] assms(2) t by auto
  then show ?thesis using due by (auto simp: reportIfDue_def Let_def t taken_def)
qed

lemma event_kept:
  assumes "sound (rt_profile n)" "fst (pf_takeUrgentReport P (rt_profile n)) \<or> rt_urgentHeld n \<and> pending (rt_profile n)"
    and "supplyAllows H now (n\<lparr>rt_profile := snd (pf_takeUrgentReport P (rt_profile n)), rt_urgentHeld := False\<rparr>) = (n', None)"
    and "reportIfDue B H P now n = Some (n'', hint)"
  shows "sound (rt_profile n'') \<and> rt_urgentHeld n'' \<and> pending (rt_profile n'') \<and> \<not> hint"
proof -
  obtain event p where t: "pf_takeUrgentReport P (rt_profile n) = (event, p)" by fastforce
  have "rt_profile n' = p"
    using assms(3) by (auto simp: t supplyAllows_def onHardware_def Let_def split: if_splits prod.splits)
  then show ?thesis
    using assms event_reported [OF assms(1,2), of B H now] take_urgent [OF assms(1) t] t by auto
qed

end

end
