(* ===== verification/Node_Sensors.thy ===== *)
theory Node_Sensors
  imports Node_Radio Node_Inputs Crc
begin

text \<open>
  node/lib/Drivers: Sht40Sensor.cpp, Tmp112Sensor.cpp, TwiBusRecovery.cpp and the conversion of
  BatteryMonitor.cpp.  The Wire library, the port registers behind the two bus lines and the analogue
  converter are not part of the repository: \<open>sensor_bus\<close> lists what the code calls.  A wait that never
  ends is the value None.  The sensor's checksum is \<open>crc8\<close> of Crc.
\<close>

text \<open>\<open>sb_transmit\<close> is beginTransmission, the writes and endTransmission with its stop flag;
  \<open>sb_request\<close> gives the bytes received, requestFrom returns their number; \<open>sb_step\<close> drives the lines
  between \<open>end\<close> and \<open>begin\<close>; \<open>sb_convert\<close> is one accumulated conversion of the reference.\<close>

record 'm sensor_bus =
  sb_begin :: "'m \<Rightarrow> 'm"
  sb_end :: "'m \<Rightarrow> 'm"
  sb_transmit :: "u8 \<Rightarrow> bytes \<Rightarrow> bool \<Rightarrow> 'm \<Rightarrow> 'm \<times> u8"
  sb_request :: "u8 \<Rightarrow> nat \<Rightarrow> 'm \<Rightarrow> 'm \<times> bytes"
  sb_step :: "BusStep \<Rightarrow> 'm \<Rightarrow> 'm"
  sb_sclHigh :: "'m \<Rightarrow> bool"
  sb_sdaHigh :: "'m \<Rightarrow> bool"
  sb_delay :: "u32 \<Rightarrow> 'm \<Rightarrow> 'm"
  sb_millis :: "'m \<Rightarrow> 'm \<times> u32"
  sb_convert :: "'m \<Rightarrow> 'm \<times> u16"

subsection \<open>Supply\<close>

definition millivoltsOf :: "u16 \<Rightarrow> u16" where
  "millivoltsOf result = (if result = 0 then 0 else ucast ((1024 * 1100 * 64 :: u32) div ucast result))"

definition readMillivolts :: "'m sensor_bus \<Rightarrow> 'm \<Rightarrow> 'm \<times> u16" where
  "readMillivolts S m = (let (m, result) = sb_convert S m in (m, millivoltsOf result))"

subsection \<open>Bus recovery\<close>

definition driveLines :: "'m sensor_bus \<Rightarrow> BusStep list \<Rightarrow> 'm \<Rightarrow> 'm" where
  "driveLines S steps m = foldl (\<lambda>m step. sb_step S step m) m steps"

definition recoverTwiBus :: "'m sensor_bus \<Rightarrow> 'm \<Rightarrow> 'm \<times> bool" where
  "recoverTwiBus S m =
     (let m = sb_end S m;
          (steps, free) = recoverI2cBus (\<lambda>steps. sb_sclHigh S (driveLines S steps m))
            (\<lambda>steps. sb_sdaHigh S (driveLines S steps m))
      in (sb_begin S (driveLines S steps m), free))"

subsection \<open>SHT40\<close>

text \<open>Nothing overflows 32 bits: the largest product is \<open>17500 * 65535\<close>.\<close>

definition sht40Temperature :: "u16 \<Rightarrow> int" where
  "sht40Temperature raw = -4500 + (17500 * uint raw + 32767) div 65535"

definition sht40Humidity :: "u16 \<Rightarrow> int" where
  "sht40Humidity raw =
     (let humidity = -600 + (12500 * uint raw + 32767) div 65535;
          humidity = (if humidity < 0 then 0 else humidity)
      in if humidity > 10000 then 10000 else humidity)"

definition get16Be :: "bytes \<Rightarrow> nat \<Rightarrow> u16" where
  "get16Be bs i = push_bit 8 (ucast (bs ! i)) OR ucast (bs ! (i + 1))"

definition sht40Reading :: "bytes \<Rightarrow> (s16 \<times> u16) option" where
  "sht40Reading bs =
     (if crc8 (take 2 bs) \<noteq> bs ! 2 \<or> crc8 (chunk bs 3 2) \<noteq> bs ! 5 then None
      else
        let temperature = sht40Temperature (get16Be bs 0);
            humidity = sht40Humidity (get16Be bs 3)
        in if temperature < -4000 \<or> temperature > 12500 then None
           else Some (of_int temperature, of_int humidity))"

definition sht40Measure :: "'m sensor_bus \<Rightarrow> u8 \<Rightarrow> 'm \<Rightarrow> 'm \<times> (s16 \<times> u16) option" where
  "sht40Measure S address m =
     (let (m, status) = sb_transmit S address [0xFD] True m
      in if status \<noteq> 0 then (m, None)
         else
           let m = sb_delay S 10 m;
               (m, bs) = sb_request S address 6 m
           in if length bs \<noteq> 6 then (m, None) else (m, sht40Reading bs))"

definition sht40SoftReset :: "'m sensor_bus \<Rightarrow> u8 \<Rightarrow> 'm \<Rightarrow> 'm" where
  "sht40SoftReset S address m = sb_delay S 1 (fst (sb_transmit S address [0x94] True m))"

definition sht40Read :: "'m sensor_bus \<Rightarrow> u8 \<Rightarrow> 'm \<Rightarrow> 'm \<times> (s16 \<times> u16) option" where
  "sht40Read S address m =
     (case sht40Measure S address m of
        (m, Some reading) \<Rightarrow> (m, Some reading)
      | (m, None) \<Rightarrow> sht40Measure S address (sht40SoftReset S address (fst (recoverTwiBus S m))))"

subsection \<open>TMP112\<close>

definition readRegister16 :: "'m sensor_bus \<Rightarrow> u8 \<Rightarrow> u8 \<Rightarrow> 'm \<Rightarrow> 'm \<times> u16 option" where
  "readRegister16 S address registerAddress m =
     (let (m, status) = sb_transmit S address [registerAddress] False m
      in if status \<noteq> 0 then (m, None)
         else
           let (m, bs) = sb_request S address 2 m
           in if length bs \<noteq> 2 then (m, None) else (m, Some (get16Be bs 0)))"

definition writeRegister16 :: "'m sensor_bus \<Rightarrow> u8 \<Rightarrow> u8 \<Rightarrow> u16 \<Rightarrow> 'm \<Rightarrow> 'm \<times> bool" where
  "writeRegister16 S address registerAddress v m =
     (let (m, status) = sb_transmit S address [registerAddress, ucast (drop_bit 8 v), ucast v] True m
      in (m, status = 0))"

definition tmp112EnterShutdown :: "'m sensor_bus \<Rightarrow> u8 \<Rightarrow> 'm \<Rightarrow> 'm" where
  "tmp112EnterShutdown S address m =
     (case readRegister16 S address 0x01 m of
        (m, None) \<Rightarrow> m
      | (m, Some configuration) \<Rightarrow> fst (writeRegister16 S address 0x01 (configuration OR 0x0100) m))"

definition tmp112Begin :: "'m sensor_bus \<Rightarrow> u8 \<Rightarrow> 'm \<Rightarrow> 'm" where
  "tmp112Begin S address m = tmp112EnterShutdown S address (sb_begin S m)"

text \<open>The do-while loop: the configuration register once it was read last, None when a read failed.\<close>

partial_function (option) tmp112Wait ::
  "'m sensor_bus \<Rightarrow> u8 \<Rightarrow> u32 \<Rightarrow> 'm \<Rightarrow> ('m \<times> u16 option) option" where
  "tmp112Wait S address started m =
     (case readRegister16 S address 0x01 (sb_delay S 1 m) of
        (m, None) \<Rightarrow> Some (m, None)
      | (m, Some configuration) \<Rightarrow>
          if configuration AND 0x8000 = 0
          then (let (m, now) = sb_millis S m
                in if now - started < 40 then tmp112Wait S address started m
                   else Some (m, Some configuration))
          else Some (m, Some configuration))"

definition tmp112Raw :: "u16 \<Rightarrow> u16 \<Rightarrow> s16" where
  "tmp112Raw configuration temperatureRegister =
     (let extendedMode = configuration AND 0x0010 \<noteq> 0;
          shift = (if extendedMode then 3 else 4 :: nat);
          bits = (if extendedMode then 13 else 12 :: nat);
          raw = ucast (drop_bit shift temperatureRegister) :: s16
      in if raw AND push_bit (bits - 1) 1 \<noteq> 0 then raw OR NOT (push_bit bits 1 - 1) else raw)"

definition tmp112Value :: "s16 \<Rightarrow> int" where
  "tmp112Value raw =
     (let scaled = sint raw * 625
      in if scaled \<ge> 0 then (scaled + 50) div 100 else - ((50 - scaled) div 100))"

definition tmp112Measure :: "'m sensor_bus \<Rightarrow> u8 \<Rightarrow> 'm \<Rightarrow> ('m \<times> s16 option) option" where
  "tmp112Measure S address m =
     (case readRegister16 S address 0x01 m of
        (m, None) \<Rightarrow> Some (m, None)
      | (m, Some configuration) \<Rightarrow>
          case writeRegister16 S address 0x01 (configuration OR 0x8100) m of
            (m, False) \<Rightarrow> Some (m, None)
          | (m, True) \<Rightarrow>
              let (m, started) = sb_millis S m
              in case tmp112Wait S address started m of
                   None \<Rightarrow> None
                 | Some (m, None) \<Rightarrow> Some (m, None)
                 | Some (m, Some configuration) \<Rightarrow>
                     if configuration AND 0x8000 = 0 then Some (m, None)
                     else
                       case readRegister16 S address 0x00 m of
                         (m, None) \<Rightarrow> Some (m, None)
                       | (m, Some temperatureRegister) \<Rightarrow>
                           let v = tmp112Value (tmp112Raw configuration temperatureRegister)
                           in if v < -8000 \<or> v > 12500 then Some (m, None) else Some (m, Some (of_int v)))"

definition tmp112ReadTemperature :: "'m sensor_bus \<Rightarrow> u8 \<Rightarrow> 'm \<Rightarrow> ('m \<times> s16 option) option" where
  "tmp112ReadTemperature S address m =
     (case tmp112Measure S address m of
        None \<Rightarrow> None
      | Some (m, Some v) \<Rightarrow> Some (m, Some v)
      | Some (m, None) \<Rightarrow>
          tmp112Measure S address (tmp112EnterShutdown S address (fst (recoverTwiBus S m))))"

subsection \<open>What a reading can be\<close>

lemma sht40Temperature_range: "-4500 \<le> sht40Temperature raw \<and> sht40Temperature raw \<le> 13000"
proof -
  have "uint raw \<le> 65535" using uint_lt2p [of raw] by simp
  then have "(17500 * uint raw + 32767) div 65535 \<le> (17500 * 65535 + 32767) div 65535"
    by (intro zdiv_mono1) simp_all
  moreover have "0 \<le> (17500 * uint raw + 32767) div 65535"
    by (simp add: pos_imp_zdiv_nonneg_iff unsigned_greater_eq add_nonneg_nonneg)
  ultimately show ?thesis by (simp add: sht40Temperature_def)
qed

lemma sht40Humidity_range: "0 \<le> sht40Humidity raw \<and> sht40Humidity raw \<le> 10000"
  by (simp add: sht40Humidity_def Let_def)

lemma sht40Reading_valid:
  assumes "sht40Reading bs = Some (temperature, humidity)"
  shows "validTemperature temperature \<and> validHumidity humidity"
proof -
  let ?t = "sht40Temperature (get16Be bs 0)" and ?h = "sht40Humidity (get16Be bs 3)"
  have r: "temperature = of_int ?t" "humidity = of_int ?h" "-4000 \<le> ?t" "?t \<le> 12500"
    using assms by (auto simp: sht40Reading_def Let_def split: if_splits)
  have "sint temperature = ?t"
    unfolding r(1) using r(3,4) by (simp add: signed_of_int signed_take_bit_int_eq_self)
  moreover have "uint humidity = ?h"
    unfolding r(2) using sht40Humidity_range [of "get16Be bs 3"] by (simp add: unsigned_of_int take_bit_int_eq_self)
  ultimately show ?thesis
    using r(3,4) sht40Humidity_range [of "get16Be bs 3"] by (simp add: validTemperature_def validHumidity_def word_le_def)
qed

text \<open>The value of the TMP112 is the reading, in sixteenths of a degree, rounded to hundredths.\<close>

lemma tmp112Value_rounds: "\<bar>100 * tmp112Value raw - 625 * sint raw\<bar> \<le> 50"
  by (simp add: tmp112Value_def Let_def) linarith

lemma tmp112Value_range:
  assumes "-4096 \<le> sint raw" "sint raw < 4096"
  shows "\<bar>tmp112Value raw\<bar> \<le> 25600"
  using tmp112Value_rounds [of raw] assms by linarith

text \<open>Sign extension: the register is an arithmetic shift away from the reading.\<close>

lemma extend_sign:
  fixes t :: u16
  assumes "s = 3 \<or> s = 4"
  shows "(let raw = ucast (drop_bit s t) :: s16
      in if raw AND push_bit (16 - s - 1) 1 \<noteq> 0 then raw OR NOT (push_bit (16 - s) 1 - 1) else raw) =
    signed_drop_bit s t"
proof -
  have mask: "push_bit (16 - s) 1 - 1 = (mask (16 - s) :: s16)" by (simp add: mask_eq_exp_minus_1)
  have sign: "(ucast (drop_bit s t) :: s16) AND push_bit (16 - s - 1) 1 \<noteq> 0 \<longleftrightarrow> bit t 15"
    using assms by (auto simp: push_bit_of_1 and_exp_eq_0_iff_not_bit bit_simps)
  show ?thesis
  proof (rule bit_word_eqI)
    fix k assume k: "k < LENGTH(16)"
    show "bit (let raw = ucast (drop_bit s t) :: s16
      in if raw AND push_bit (16 - s - 1) 1 \<noteq> 0 then raw OR NOT (push_bit (16 - s) 1 - 1) else raw) k =
      bit (signed_drop_bit s t) k"
      unfolding Let_def mask sign
      using k assms bit_imp_le_length [of t "s + k"] by (auto simp: bit_simps not_less)
  qed
qed

lemma tmp112Raw_sint:
  "sint (tmp112Raw configuration t) = sint t div (if configuration AND 0x0010 \<noteq> 0 then 8 else 16)"
proof -
  have "tmp112Raw configuration t = signed_drop_bit (if configuration AND 0x0010 \<noteq> 0 then 3 else 4) t"
    using extend_sign [of 3 t] extend_sign [of 4 t] by (auto simp: tmp112Raw_def Let_def)
  then show ?thesis by (simp add: sint_signed_drop_bit_eq drop_bit_eq_div)
qed

lemma tmp112Measure_valid:
  assumes "tmp112Measure S address m = Some (m', Some v)"
  shows "validTemperature v"
proof -
  obtain configuration t where t: "v = of_int (tmp112Value (tmp112Raw configuration t))"
    "-8000 \<le> tmp112Value (tmp112Raw configuration t)" "tmp112Value (tmp112Raw configuration t) \<le> 12500"
    using assms by (auto simp: tmp112Measure_def Let_def split: prod.splits option.splits bool.splits if_splits)
  have "sint v = tmp112Value (tmp112Raw configuration t)"
    unfolding t(1) using t(2,3) by (simp add: signed_of_int signed_take_bit_int_eq_self)
  then show ?thesis using t(2,3) unfolding validTemperature_def by metis
qed

text \<open>The value is that of the temperature register, read last, rounded to hundredths.\<close>

lemma tmp112Measure_measured:
  assumes "tmp112Measure S address m = Some (m', Some v)"
  shows "\<exists>m1 configuration t. readRegister16 S address 0x00 m1 = (m', Some t) \<and>
    \<bar>100 * sint v - 625 * (sint t div (if configuration AND (0x0010 :: u16) \<noteq> 0 then 8 else 16))\<bar> \<le> 50"
proof -
  obtain m1 configuration t where t: "readRegister16 S address 0x00 m1 = (m', Some t)"
    "v = of_int (tmp112Value (tmp112Raw configuration t))"
    "-8000 \<le> tmp112Value (tmp112Raw configuration t)" "tmp112Value (tmp112Raw configuration t) \<le> 12500"
    using assms by (auto simp: tmp112Measure_def Let_def split: prod.splits option.splits bool.splits if_splits)
  have "sint v = tmp112Value (tmp112Raw configuration t)"
    unfolding t(2) using t(3,4) by (simp add: signed_of_int signed_take_bit_int_eq_self)
  then show ?thesis
    using t(1) tmp112Value_rounds [of "tmp112Raw configuration t"] unfolding tmp112Raw_sint by metis
qed

lemma tmp112ReadTemperature_valid:
  "tmp112ReadTemperature S address m = Some (m', Some v) \<Longrightarrow> validTemperature v"
  by (auto simp: tmp112ReadTemperature_def dest: tmp112Measure_valid split: option.splits prod.splits)

lemma tmp112ReadTemperature_measured:
  assumes "tmp112ReadTemperature S address m = Some (m', Some v)"
  shows "\<exists>m1 configuration t. readRegister16 S address 0x00 m1 = (m', Some t) \<and>
    \<bar>100 * sint v - 625 * (sint t div (if configuration AND (0x0010 :: u16) \<noteq> 0 then 8 else 16))\<bar> \<le> 50"
proof -
  obtain m0 where "tmp112Measure S address m0 = Some (m', Some v)"
    using assms by (auto simp: tmp112ReadTemperature_def split: option.splits prod.splits)
  then show ?thesis by (rule tmp112Measure_measured)
qed

lemma sht40Read_valid:
  "sht40Read S address m = (m', Some (temperature, humidity)) \<Longrightarrow> validTemperature temperature \<and> validHumidity humidity"
proof -
  have "sht40Measure S address m = (m', Some (temperature, humidity)) \<Longrightarrow>
      validTemperature temperature \<and> validHumidity humidity" for m m'
    by (auto simp: sht40Measure_def Let_def dest: sht40Reading_valid split: prod.splits if_splits)
  then show "sht40Read S address m = (m', Some (temperature, humidity)) \<Longrightarrow>
      validTemperature temperature \<and> validHumidity humidity"
    by (auto simp: sht40Read_def split: prod.splits option.splits)
qed

lemma sht40Read_measured:
  assumes "sht40Read S address m = (m', Some (t, h))"
  obtains m1 bs where "sb_request S address 6 m1 = (m', bs)" "length bs = 6" "crc8 (take 2 bs) = bs ! 2"
    "crc8 (chunk bs 3 2) = bs ! 5" "sint t = sht40Temperature (get16Be bs 0)"
    "uint h = sht40Humidity (get16Be bs 3)"
proof -
  obtain m0 where "sht40Measure S address m0 = (m', Some (t, h))"
    using assms by (auto simp: sht40Read_def split: prod.splits option.splits)
  then obtain m1 bs where b: "sb_request S address 6 m1 = (m', bs)" "length bs = 6" "sht40Reading bs = Some (t, h)"
    by (auto simp: sht40Measure_def Let_def split: prod.splits if_splits)
  then have r: "crc8 (take 2 bs) = bs ! 2" "crc8 (chunk bs 3 2) = bs ! 5"
    "t = of_int (sht40Temperature (get16Be bs 0))" "h = of_int (sht40Humidity (get16Be bs 3))"
    "-4000 \<le> sht40Temperature (get16Be bs 0)" "sht40Temperature (get16Be bs 0) \<le> 12500"
    by (auto simp: sht40Reading_def Let_def not_less split: if_splits)
  have "sint t = sht40Temperature (get16Be bs 0)"
    unfolding r(3) using r(5,6) by (simp add: signed_of_int signed_take_bit_int_eq_self)
  moreover have "uint h = sht40Humidity (get16Be bs 3)"
    unfolding r(4) using sht40Humidity_range [of "get16Be bs 3"] by (simp add: unsigned_of_int take_bit_int_eq_self)
  ultimately show thesis using that b(1,2) r(1,2) by blast
qed
subsection \<open>The conversion is waited for a bounded time\<close>

definition sensorTimerRuns :: "'m sensor_bus \<Rightarrow> ('m \<Rightarrow> nat) \<Rightarrow> bool" where
  "sensorTimerRuns S elapsed \<longleftrightarrow>
     (\<forall>m. elapsed m < elapsed (fst (sb_millis S m)) \<and> elapsed (fst (sb_millis S m)) \<le> elapsed m + 10 ^ 9 \<and>
          snd (sb_millis S m) = of_nat (elapsed (fst (sb_millis S m)) div 1000)) \<and>
     (\<forall>m. elapsed m \<le> elapsed (sb_delay S 1 m) \<and> elapsed (sb_delay S 1 m) \<le> elapsed m + 10 ^ 9) \<and>
     (\<forall>a bs stop m. elapsed m \<le> elapsed (fst (sb_transmit S a bs stop m)) \<and>
          elapsed (fst (sb_transmit S a bs stop m)) \<le> elapsed m + 10 ^ 9) \<and>
     (\<forall>a k m. elapsed m \<le> elapsed (fst (sb_request S a k m)) \<and>
          elapsed (fst (sb_request S a k m)) \<le> elapsed m + 10 ^ 9)"

lemma sensorTimer_millis:
  "sensorTimerRuns S elapsed \<Longrightarrow> sb_millis S m = (m', now) \<Longrightarrow>
   elapsed m < elapsed m' \<and> elapsed m' \<le> elapsed m + 10 ^ 9 \<and> now = of_nat (elapsed m' div 1000)"
  unfolding sensorTimerRuns_def by (metis fst_conv snd_conv)

lemma sensorTimer_transmit:
  "sensorTimerRuns S elapsed \<Longrightarrow> sb_transmit S a bs stop m = (m', x) \<Longrightarrow> elapsed m \<le> elapsed m' \<and> elapsed m' \<le> elapsed m + 10 ^ 9"
  unfolding sensorTimerRuns_def by (metis fst_conv)

lemma sensorTimer_request:
  "sensorTimerRuns S elapsed \<Longrightarrow> sb_request S a k m = (m', x) \<Longrightarrow> elapsed m \<le> elapsed m' \<and> elapsed m' \<le> elapsed m + 10 ^ 9"
  unfolding sensorTimerRuns_def by (metis fst_conv)

lemma sensorTimer_register:
  assumes "sensorTimerRuns S elapsed" "readRegister16 S address reg m = (m', v)"
  shows "elapsed m \<le> elapsed m' \<and> elapsed m' \<le> elapsed m + 2 * 10 ^ 9"
proof -
  obtain m1 status where m1: "sb_transmit S address [reg] False m = (m1, status)" by fastforce
  obtain m2 bs where m2: "sb_request S address 2 m1 = (m2, bs)" by fastforce
  show ?thesis
    using assms(2) m1 m2 sensorTimer_transmit [OF assms(1) m1] sensorTimer_request [OF assms(1) m2]
    by (auto simp: readRegister16_def split: if_splits)
qed

lemma sensorTimer_delay:
  "sensorTimerRuns S elapsed \<Longrightarrow> elapsed m \<le> elapsed (sb_delay S 1 m) \<and> elapsed (sb_delay S 1 m) \<le> elapsed m + 10 ^ 9"
  by (simp add: sensorTimerRuns_def)

lemma tmp112Wait_returns:
  assumes run: "sensorTimerRuns S elapsed" and started: "started = of_nat (s div 1000)"
  shows "s \<le> elapsed m \<Longrightarrow> elapsed m < s + 41001 \<Longrightarrow> tmp112Wait S address started m \<noteq> None"
proof (induction "s + 41001 - elapsed m" arbitrary: m rule: less_induct)
  case less
  obtain m1 v where m1: "readRegister16 S address 1 (sb_delay S 1 m) = (m1, v)" by fastforce
  note t1 = sensorTimer_register [OF run m1] sensorTimer_delay [OF run, of m]
  obtain m2 now where m2: "sb_millis S m1 = (m2, now)" by fastforce
  note t2 = sensorTimer_millis [OF run m2]
  have "tmp112Wait S address started m2 \<noteq> None" if "now - started < 40"
  proof (rule less.hyps)
    have "elapsed m2 < s + 1000 * unat (40 :: u32) + 1000"
      by (rule still_waiting [OF started _ _ _ that]) (use t1 t2 less.prems in simp_all)
    then show "elapsed m2 < s + 41001" by simp
    show "s + 41001 - elapsed m2 < s + 41001 - elapsed m" using t1 t2 less.prems by linarith
    show "s \<le> elapsed m2" using t1 t2 less.prems by linarith
  qed
  then show ?case by (subst tmp112Wait.simps) (simp add: m1 m2 split: option.split del: not_None_eq)
qed

lemma tmp112Measure_returns:
  assumes run: "sensorTimerRuns S elapsed"
  shows "tmp112Measure S address m \<noteq> None"
proof -
  have "tmp112Wait S address started m' \<noteq> None" if "sb_millis S m'' = (m', started)" for m' m'' started
    using sensorTimer_millis [OF run that] by (intro tmp112Wait_returns [OF run, of started "elapsed m'"]) simp_all
  then show ?thesis
    by (auto simp: tmp112Measure_def Let_def split: prod.split option.split bool.split simp del: not_None_eq)
qed

lemma tmp112ReadTemperature_returns:
  assumes run: "sensorTimerRuns S elapsed"
  shows "tmp112ReadTemperature S address m \<noteq> None"
  by (simp add: tmp112ReadTemperature_def tmp112Measure_returns [OF run] split: option.split prod.split
      del: not_None_eq)

end
