(* ===== verification/Node_Profiles.thy ===== *)
theory Node_Profiles
  imports Node_Runtime Node_Sensors Counter_Storage
begin

text \<open>
  node/include/Profiles: BinaryInputProfile.h, BinarySht40Profile.h, ClimateTmp112Profile.h and
  CounterReedProfile.h, each as the record of operations that the runtime calls, and the
  interpretations of the runtime's contracts on them.  The pin of a contact gives, for each time it
  is powered, the levels of the reads that follow.
\<close>

record 'm profile_board =
  pb_sensors :: "'m sensor_bus"
  pb_powered :: "'m \<Rightarrow> 'm \<times> (nat \<Rightarrow> bool)"
  pb_pinSleep :: "'m \<Rightarrow> 'm"

definition pinReadOnce :: "'m profile_board \<Rightarrow> 'm \<Rightarrow> 'm \<times> bool" where
  "pinReadOnce D m = (let (m, levels) = pb_powered D m in (pb_pinSleep D m, levels 0))"

definition pinSample :: "'m profile_board \<Rightarrow> 'm \<Rightarrow> 'm \<times> bool option" where
  "pinSample D m = (let (m, levels) = pb_powered D m in (pb_pinSleep D m, sampleInput levels))"

text \<open>\<open>ConfirmedInput::update\<close> on the pin: the burst is sampled only when the first read disagrees.\<close>

definition contactUpdate :: "'m profile_board \<Rightarrow> bool \<Rightarrow> 'm \<Rightarrow> 'm \<times> bool \<times> InputChange" where
  "contactUpdate D high m =
     (let (m, current) = pinReadOnce D m
      in if current = high then (m, high, InputNone)
         else
           let (m, sample) = pinSample D m
           in case confirmedUpdate high current sample of (high, change) \<Rightarrow> (m, high, change))"

text \<open>How the binary profiles find the level to start from.\<close>

definition contactBegin :: "'m profile_board \<Rightarrow> 'm \<Rightarrow> 'm \<times> bool" where
  "contactBegin D m =
     (case pinSample D m of
        (m, Some high) \<Rightarrow> (m, high)
      | (m, None) \<Rightarrow> pinReadOnce D m)"

definition encodedSize :: "TelemetryCodecStatus + bytes \<Rightarrow> bytes" where
  "encodedSize result = (case result of Inl _ \<Rightarrow> [] | Inr bs \<Rightarrow> bs)"

subsection \<open>A contact\<close>

record binary_profile =
  bp_high :: bool
  bp_schedule :: BinaryReportSchedule

definition newBinaryProfile :: binary_profile where
  "newBinaryProfile = \<lparr>bp_high = True, bp_schedule = newBinarySchedule kEventNodeKeepAliveMs\<rparr>"

definition binaryBegin :: "'m profile_board \<Rightarrow> ('m, binary_profile) profile_world \<Rightarrow> ('m, binary_profile) profile_world" where
  "binaryBegin D w =
     (case w of (m, e, p) \<Rightarrow> let (m, high) = contactBegin D m in (m, e, p\<lparr>bp_high := high\<rparr>))"

definition binaryPoll :: "'m profile_board \<Rightarrow> ('m, binary_profile) profile_world \<Rightarrow> ('m, binary_profile) profile_world" where
  "binaryPoll D w =
     (case w of (m, e, p) \<Rightarrow>
        let (m, high, change) = contactUpdate D (bp_high p) m;
            p = p\<lparr>bp_high := high\<rparr>
        in if change = InputNone then (m, e, p)
           else (m, e, p\<lparr>bp_schedule := binaryStateChanged (bp_schedule p)\<rparr>))"

definition takeBinaryUrgent :: "binary_profile \<Rightarrow> bool \<times> binary_profile" where
  "takeBinaryUrgent p =
     (let (urgent, s) = binaryTakeUrgent (bp_schedule p) in (urgent, p\<lparr>bp_schedule := s\<rparr>))"

definition binaryEncode :: "TelemetryPrefix \<Rightarrow> binary_profile \<Rightarrow> 'm \<Rightarrow> ('m \<times> bytes) option" where
  "binaryEncode prefix p m = Some (m, encodedSize (encodeBinaryTelemetry prefix (if bp_high p then 1 else 0)
     (Some (zeros kBinaryTelemetrySize))))"

definition binaryProfile :: "'m profile_board \<Rightarrow> ('m, binary_profile) node_profile" where
  "binaryProfile D =
     \<lparr>pf_profileId = profileIdValue Binary, pf_telemetrySize = kBinaryTelemetrySize,
      pf_begin = binaryBegin D, pf_poll = (\<lambda>now. binaryPoll D),
      pf_reportDue = (\<lambda>p. binaryDue (bp_schedule p)), pf_takeUrgentReport = takeBinaryUrgent,
      pf_encodeTelemetry = binaryEncode,
      pf_reportAcknowledged = (\<lambda>now mv p. p\<lparr>bp_schedule := binarySucceeded (bp_schedule p) now\<rparr>),
      pf_reportFailed = (\<lambda>now mv p. p),
      pf_applyCommand = (\<lambda>command result w. (w, result)), pf_commissioned = (\<lambda>w. w)\<rparr>"

subsection \<open>A contact with an SHT40\<close>

definition newBinarySht40Profile :: "u32 \<Rightarrow> binary_profile" where
  "newBinarySht40Profile reportIntervalMs = \<lparr>bp_high = True, bp_schedule = newBinarySchedule reportIntervalMs\<rparr>"

definition binarySht40Begin :: "'m profile_board \<Rightarrow> ('m, binary_profile) profile_world \<Rightarrow> ('m, binary_profile) profile_world" where
  "binarySht40Begin D w =
     (case w of (m, e, p) \<Rightarrow>
        let (m, high) = contactBegin D m in (sb_begin (pb_sensors D) m, e, p\<lparr>bp_high := high\<rparr>))"

definition binarySht40Encode ::
  "'m profile_board \<Rightarrow> u8 \<Rightarrow> TelemetryPrefix \<Rightarrow> binary_profile \<Rightarrow> 'm \<Rightarrow> ('m \<times> bytes) option" where
  "binarySht40Encode D address prefix p m =
     (let (m, reading) = sht40Read (pb_sensors D) address m;
          (temperature, humidity) = (case reading of
              None \<Rightarrow> (kInvalidTemperature, kInvalidHumidity) | Some r \<Rightarrow> r)
      in Some (m, encodedSize (encodeBinaryClimateThTelemetry prefix (if bp_high p then 1 else 0)
           temperature humidity (Some (zeros kBinaryClimateThTelemetrySize)))))"

definition binarySht40Profile :: "'m profile_board \<Rightarrow> u8 \<Rightarrow> ('m, binary_profile) node_profile" where
  "binarySht40Profile D address =
     \<lparr>pf_profileId = profileIdValue BinaryClimateTh, pf_telemetrySize = kBinaryClimateThTelemetrySize,
      pf_begin = binarySht40Begin D, pf_poll = (\<lambda>now. binaryPoll D),
      pf_reportDue = (\<lambda>p. binaryDue (bp_schedule p)), pf_takeUrgentReport = takeBinaryUrgent,
      pf_encodeTelemetry = binarySht40Encode D address,
      pf_reportAcknowledged = (\<lambda>now mv p. p\<lparr>bp_schedule := binarySucceeded (bp_schedule p) now\<rparr>),
      pf_reportFailed = (\<lambda>now mv p. p),
      pf_applyCommand = (\<lambda>command result w. (w, result)), pf_commissioned = (\<lambda>w. w)\<rparr>"

subsection \<open>A TMP112\<close>

type_synonym climate_profile = ClimateReportSchedule

definition climateEncode ::
  "'m profile_board \<Rightarrow> u8 \<Rightarrow> TelemetryPrefix \<Rightarrow> climate_profile \<Rightarrow> 'm \<Rightarrow> ('m \<times> bytes) option" where
  "climateEncode D address prefix p m =
     (case tmp112ReadTemperature (pb_sensors D) address m of
        None \<Rightarrow> None
      | Some (m, reading) \<Rightarrow>
          Some (m, encodedSize (encodeTemperatureTelemetry prefix
            (case reading of None \<Rightarrow> kInvalidTemperature | Some temperature \<Rightarrow> temperature)
            (Some (zeros kTemperatureTelemetrySize)))))"

definition climateScheduleNext :: "u32 \<Rightarrow> u16 \<Rightarrow> climate_profile \<Rightarrow> climate_profile" where
  "climateScheduleNext now supplyMillivolts p = snd (climateAttempted p now supplyMillivolts)"

definition climateProfile :: "'m profile_board \<Rightarrow> u8 \<Rightarrow> ('m, climate_profile) node_profile" where
  "climateProfile D address =
     \<lparr>pf_profileId = profileIdValue Temperature, pf_telemetrySize = kTemperatureTelemetrySize,
      pf_begin = (\<lambda>(m, e, p). (tmp112Begin (pb_sensors D) address m, e, p)), pf_poll = (\<lambda>now w. w),
      pf_reportDue = climateDue, pf_takeUrgentReport = (\<lambda>p. (False, p)),
      pf_encodeTelemetry = climateEncode D address,
      pf_reportAcknowledged = climateScheduleNext, pf_reportFailed = climateScheduleNext,
      pf_applyCommand = (\<lambda>command result w. (w, result)), pf_commissioned = (\<lambda>w. w)\<rparr>"

subsection \<open>A pulse counter\<close>

record counter_profile =
  cp_high :: bool
  cp_phase :: MinimumPhaseFilter
  cp_journal :: journal
  cp_schedule :: CounterReportSchedule
  cp_count :: u32

definition newCounterProfile :: "u32 \<Rightarrow> counter_profile" where
  "newCounterProfile minimumPhaseMs = \<lparr>cp_high = True, cp_phase = newMinimumPhase minimumPhaseMs True,
     cp_journal = newJournal, cp_schedule = newCounterSchedule, cp_count = 0\<rparr>"

definition counterBegin :: "'m profile_board \<Rightarrow> ('m, counter_profile) profile_world \<Rightarrow> ('m, counter_profile) profile_world" where
  "counterBegin D w =
     (case w of (m, e, p) \<Rightarrow>
        let m = pb_pinSleep D m;
            (j, value', us) = counterBoot e
        in (m, applyUpdates e us, p\<lparr>cp_journal := j, cp_count := value'\<rparr>))"

definition counterPoll :: "'m profile_board \<Rightarrow> u32 \<Rightarrow> ('m, counter_profile) profile_world \<Rightarrow> ('m, counter_profile) profile_world" where
  "counterPoll D now w =
     (case w of (m, e, p) \<Rightarrow>
        let (m, high, _) = contactUpdate D (cp_high p) m;
            p = p\<lparr>cp_high := high\<rparr>;
            (phase, change) = phaseUpdate (cp_phase p) now high;
            p = p\<lparr>cp_phase := phase\<rparr>
        in if change \<noteq> InputRose then (m, e, p)
           else
             let (j, value', us) = countPulse e (cp_journal p) (cp_count p)
             in (m, applyUpdates e us, p\<lparr>cp_journal := j, cp_count := value',
                  cp_schedule := counterPulseRecorded (cp_schedule p)\<rparr>))"

definition takeCounterUrgent :: "counter_profile \<Rightarrow> bool \<times> counter_profile" where
  "takeCounterUrgent p =
     (let (urgent, s) = counterTakeUrgent (cp_schedule p) in (urgent, p\<lparr>cp_schedule := s\<rparr>))"

definition counterEncode :: "TelemetryPrefix \<Rightarrow> counter_profile \<Rightarrow> 'm \<Rightarrow> ('m \<times> bytes) option" where
  "counterEncode prefix p m =
     Some (m, encodedSize (encodeCounterTelemetry prefix (cp_count p) (Some (zeros kCounterTelemetrySize))))"

definition counterApply ::
  "Command \<Rightarrow> CommandResult \<Rightarrow> ('m, counter_profile) profile_world \<Rightarrow> ('m, counter_profile) profile_world \<times> CommandResult" where
  "counterApply command result w =
     (case w of (m, e, p) \<Rightarrow>
        if cmd_type command \<noteq> commandTypeValue SetCount then (w, result)
        else if \<not> validCommandArguments (cmd_type command) (Some (cmd_arguments command))
                  (unat (cmd_argumentSize command))
        then (w, result\<lparr>cr_status := InvalidArgument\<rparr>)
        else
          let (j, value', outcome, stored, us) = journalApply e (cp_journal p) (cmd_commandId command)
                (get32 (cmd_arguments command) 0) (cp_count p);
              w = (m, applyUpdates e us, p\<lparr>cp_journal := j, cp_count := value'\<rparr>)
          in if outcome = OutcomeStorageFailure then (w, result\<lparr>cr_status := StorageFailure\<rparr>)
             else
               let stored = (case stored of None \<Rightarrow> emptySetCountResult | Some stored \<Rightarrow> stored)
               in (case w of (m, e, p) \<Rightarrow>
                    ((m, e, p\<lparr>cp_schedule := counterCountSet (cp_schedule p)\<rparr>),
                     result\<lparr>cr_status := Applied, cr_dataSize := of_nat kSetCountResultSize,
                       cr_data := put (put (cr_data result) 0 (le32 (sr_oldCount stored))) 4
                         (le32 (sr_appliedCount stored))\<rparr>)))"

definition counterCommissioned :: "('m, counter_profile) profile_world \<Rightarrow> ('m, counter_profile) profile_world" where
  "counterCommissioned w =
     (case w of (m, e, p) \<Rightarrow>
        let (j, us) = forgetCommandIds e (cp_journal p) (cp_count p)
        in (m, applyUpdates e us, p\<lparr>cp_journal := j\<rparr>))"

definition counterProfile :: "'m profile_board \<Rightarrow> ('m, counter_profile) node_profile" where
  "counterProfile D =
     \<lparr>pf_profileId = profileIdValue PulseCounter, pf_telemetrySize = kCounterTelemetrySize,
      pf_begin = counterBegin D, pf_poll = counterPoll D,
      pf_reportDue = (\<lambda>p. counterDue (cp_schedule p)), pf_takeUrgentReport = takeCounterUrgent,
      pf_encodeTelemetry = counterEncode,
      pf_reportAcknowledged = (\<lambda>now mv p. p\<lparr>cp_schedule := counterSucceeded (cp_schedule p) now\<rparr>),
      pf_reportFailed = (\<lambda>now mv p. p),
      pf_applyCommand = counterApply, pf_commissioned = counterCommissioned\<rparr>"

subsection \<open>The counter leaves the network configuration alone\<close>

definition beyondNetwork :: "eeprom_updates \<Rightarrow> bool" where
  "beyondNetwork us \<longleftrightarrow> (\<forall>a \<in> fst ` set us. 64 \<le> a)"

lemma beyondNetwork_kept: "beyondNetwork us \<Longrightarrow> networkKept e (applyUpdates e us)"
  by (auto simp: beyondNetwork_def networkKept_def intro!: applyUpdates_other)

lemma beyondNetwork_simps [simp]:
  "beyondNetwork []" "beyondNetwork (us @ vs) \<longleftrightarrow> beyondNetwork us \<and> beyondNetwork vs"
  by (auto simp: beyondNetwork_def)

lemma counterSave_beyond: "counterSave e st v = (st', us, ok) \<Longrightarrow> ok \<and> beyondNetwork us"
  by (auto simp: counterSave_def Let_def beyondNetwork_def blockUpdates_def counterAddress_def split: if_splits)

lemma setCountSave_beyond:
  assumes "setCountShaped v" "setCountSave e st v = (st', v', us, ok)"
  shows "ok \<and> beyondNetwork us"
proof -
  obtain st1 v1 us1 where "setCountSave e st v = (st1, v1, us1, True)" by (rule setCountSave_ok [OF assms(1)])
  moreover have "\<forall>a \<in> fst ` set us. 64 \<le> a"
    using set_count.save_range [OF assms(1), of e st st' v' us ok] assms(2)
    by (auto simp: setCountSave_def setCountLayout_def)
  ultimately show ?thesis using assms(2) by (simp add: beyondNetwork_def)
qed

lemma completePending_beyond: "completePending e j = (j', v, us, ok) \<Longrightarrow> ok \<and> beyondNetwork us"
  by (auto simp: completePending_def Let_def setCountShaped_def dest!: counterSave_beyond
      dest: setCountSave_beyond [rotated] split: prod.splits if_splits)

lemma counterBoot_beyond: "counterBoot e = (j, v, us) \<Longrightarrow> beyondNetwork us"
  by (auto simp: counterBoot_def journalRecover_def Let_def dest: completePending_beyond
      split: prod.splits if_splits)

lemma countPulse_beyond: "countPulse e j v = (j', v', us) \<Longrightarrow> beyondNetwork us"
  by (auto simp: countPulse_def Let_def dest: counterSave_beyond split: prod.splits)

lemma forgetCommandIds_beyond: "forgetCommandIds e j v = (j', us) \<Longrightarrow> beyondNetwork us"
  by (auto simp: forgetCommandIds_def Let_def setCountShaped_def dest!: setCountSave_beyond [rotated]
      split: prod.splits if_splits)

lemma journalApply_beyond:
  "journalApply e j i requested v = (j', v', outcome, stored, us) \<Longrightarrow>
   outcome \<noteq> OutcomeStorageFailure \<and> stored \<noteq> None \<and> beyondNetwork us"
  by (auto simp: journalApply_def Let_def setCountShaped_def dest!: completePending_beyond setCountSave_beyond [rotated]
      split: prod.splits if_splits)

interpretation binary_storage: profile_storage "binaryProfile D" for D :: "'m profile_board"
  by unfold_locales
     (auto simp: binaryProfile_def binaryBegin_def binaryPoll_def worldKept_def networkKept_def Let_def
       split: prod.splits)

interpretation sht40_storage: profile_storage "binarySht40Profile D address" for D :: "'m profile_board" and address
  by unfold_locales
     (auto simp: binarySht40Profile_def binarySht40Begin_def binaryPoll_def worldKept_def networkKept_def Let_def
       split: prod.splits)

interpretation climate_storage: profile_storage "climateProfile D address" for D :: "'m profile_board" and address
  by unfold_locales
     (auto simp: climateProfile_def worldKept_def networkKept_def split: prod.splits)

interpretation counter_storage: profile_storage "counterProfile D" for D :: "'m profile_board"
proof
  show "worldKept (pf_begin (counterProfile D))"
    by (auto simp: counterProfile_def counterBegin_def worldKept_def Let_def
        intro: beyondNetwork_kept dest: counterBoot_beyond split: prod.splits)
next
  fix now show "worldKept (pf_poll (counterProfile D) now)"
    by (auto simp: counterProfile_def counterPoll_def worldKept_def Let_def networkKept_def [of e e for e]
        intro: beyondNetwork_kept dest: countPulse_beyond split: prod.splits)
next
  fix command result show "worldKept (\<lambda>w. fst (pf_applyCommand (counterProfile D) command result w))"
    by (auto simp: counterProfile_def counterApply_def worldKept_def Let_def networkKept_def [of e e for e]
        intro: beyondNetwork_kept dest: journalApply_beyond split: prod.splits)
next
  show "worldKept (pf_commissioned (counterProfile D))"
    by (auto simp: counterProfile_def counterCommissioned_def worldKept_def Let_def
        intro: beyondNetwork_kept dest: forgetCommandIds_beyond split: prod.splits)
qed

subsection \<open>Every profile answers every command\<close>

interpretation binary_commands: profile_commands "binaryProfile D" for D :: "'m profile_board"
  by unfold_locales (auto simp: binaryProfile_def intro: answersCommand_unsupported)

interpretation sht40_commands: profile_commands "binarySht40Profile D address" for D :: "'m profile_board" and address
  by unfold_locales (auto simp: binarySht40Profile_def intro: answersCommand_unsupported)

interpretation climate_commands: profile_commands "climateProfile D address" for D :: "'m profile_board" and address
  by unfold_locales (auto simp: climateProfile_def intro: answersCommand_unsupported)

interpretation counter_commands: profile_commands "counterProfile D" for D :: "'m profile_board"
proof
  fix command w w' result
  assume ok: "commandOk command"
    and run: "pf_applyCommand (counterProfile D) command (unsupportedResult command) w = (w', result)"
  obtain m e p where w: "w = (m, e, p)" by (metis prod_cases3)
  show "answersCommand command result"
  proof (cases "cmd_type command = 1")
    case False
    then show ?thesis
      using run answersCommand_unsupported [OF ok] by (simp add: counterProfile_def counterApply_def w)
  next
    case True
    obtain j v outcome stored us where a: "journalApply e (cp_journal p) (cmd_commandId command)
        (get32 (cmd_arguments command) 0) (cp_count p) = (j, v, outcome, stored, us)" by (metis prod_cases5)
    have put8: "put (put (zeros 8) 0 (le32 x)) 4 (le32 y) = le32 x @ le32 y" for x y
      by (simp add: put_start put_written written_full)
    show ?thesis
      using run True a journalApply_beyond [OF a] answersCommand_quiet [OF ok, of InvalidArgument] ok
      by (auto simp: counterProfile_def counterApply_def w Let_def put8 answersCommand_def commandResultOk_def
          commandOk_def commandResultDataSize_def commandTypeOf_def allZero_def split: if_splits)
  qed
next
  show "pf_profileId (counterProfile D) \<noteq> kUnassignedProfileId" by (simp add: counterProfile_def)
qed

subsection \<open>Every profile keeps its events\<close>

definition binaryEventSound :: "binary_profile \<Rightarrow> bool" where
  "binaryEventSound p \<longleftrightarrow> (bs_urgent (bp_schedule p) \<longrightarrow> bs_stateChanged (bp_schedule p))"

definition binaryOwed :: "binary_profile \<Rightarrow> bool" where
  "binaryOwed p \<longleftrightarrow> bs_stateChanged (bp_schedule p)"

lemma binaryPoll_events:
  "binaryPoll D (m, e, p) = (m', e', p') \<Longrightarrow> binaryEventSound p \<Longrightarrow>
   binaryEventSound p' \<and> (binaryOwed p \<longrightarrow> binaryOwed p') \<and>
   (fst (takeBinaryUrgent p) \<longrightarrow> fst (takeBinaryUrgent p'))"
  by (auto simp: binaryPoll_def binaryEventSound_def binaryOwed_def takeBinaryUrgent_def binaryTakeUrgent_def
      binaryStateChanged_def Let_def split: prod.splits if_splits)

interpretation binary_events: profile_events "binaryProfile D" binaryEventSound binaryOwed for D :: "'m profile_board"
proof (unfold_locales, goal_cases)
  case (3 p now m e m' e' p')
  then show ?case using binaryPoll_events [of D m e p m' e' p'] by (simp add: binaryProfile_def)
qed (auto simp: binaryProfile_def binaryEventSound_def binaryOwed_def takeBinaryUrgent_def binaryTakeUrgent_def
    binaryDue_def)

interpretation sht40_events: profile_events "binarySht40Profile D address" binaryEventSound binaryOwed
  for D :: "'m profile_board" and address
proof (unfold_locales, goal_cases)
  case (3 p now m e m' e' p')
  then show ?case using binaryPoll_events [of D m e p m' e' p'] by (simp add: binarySht40Profile_def)
qed (auto simp: binarySht40Profile_def binaryEventSound_def binaryOwed_def takeBinaryUrgent_def
    binaryTakeUrgent_def binaryDue_def)

interpretation climate_events: profile_events "climateProfile D address" "\<lambda>_. True" "\<lambda>_. False"
  for D :: "'m profile_board" and address
  by unfold_locales (auto simp: climateProfile_def)

definition counterEventSound :: "counter_profile \<Rightarrow> bool" where
  "counterEventSound p \<longleftrightarrow> (ct_urgent (cp_schedule p) \<longrightarrow> ct_immediateReportPending (cp_schedule p))"

definition counterOwed :: "counter_profile \<Rightarrow> bool" where
  "counterOwed p \<longleftrightarrow> ct_immediateReportPending (cp_schedule p)"

interpretation counter_events: profile_events "counterProfile D" counterEventSound counterOwed
  for D :: "'m profile_board"
proof (unfold_locales, goal_cases)
  case (3 p now m e m' e' p')
  then show ?case
    by (auto simp: counterProfile_def counterPoll_def counterEventSound_def counterOwed_def takeCounterUrgent_def
        counterTakeUrgent_def counterPulseRecorded_def Let_def split: prod.splits if_splits)
qed (auto simp: counterProfile_def counterEventSound_def counterOwed_def takeCounterUrgent_def
    counterTakeUrgent_def counterDue_def)

subsection \<open>Every report decodes\<close>

lemma invalid_readings: "validTemperature kInvalidTemperature" "validHumidity kInvalidHumidity"
  by (simp_all add: validTemperature_def validHumidity_def)

lemma reportsReading_encoded:
  assumes "prefixOk prefix" "readingOk reading" "n = 5 + length (readingPayload reading)"
  shows "reportsReading prefix n (encodedSize (encodeReading prefix reading (Some (zeros n))))"
  using encodeReading_ok [OF assms(1,2), of "zeros n"] assms
  by (auto simp: encodedSize_def reportsReading_def written_full)

interpretation binary_reports: profile_reports "binaryProfile D" for D :: "'m profile_board"
proof
  fix prefix p m m' frame
  assume "prefixOk prefix" "pf_encodeTelemetry (binaryProfile D) prefix p m = Some (m', frame)"
  then show "reportsReading prefix (pf_telemetrySize (binaryProfile D)) frame"
    using reportsReading_encoded [of prefix "RBinary (if bp_high p then 1 else 0)" 6]
    by (auto simp: binaryProfile_def binaryEncode_def)
qed

interpretation sht40_reports: profile_reports "binarySht40Profile D address" for D :: "'m profile_board" and address
proof
  fix prefix p m m' frame
  assume ok: "prefixOk prefix" and run: "pf_encodeTelemetry (binarySht40Profile D address) prefix p m = Some (m', frame)"
  obtain m1 reading where r: "sht40Read (pb_sensors D) address m = (m1, reading)" by fastforce
  obtain t h where th: "(case reading of None \<Rightarrow> (kInvalidTemperature, kInvalidHumidity) | Some r \<Rightarrow> r) = (t, h)" by fastforce
  then have "validTemperature t \<and> validHumidity h"
    using r invalid_readings by (auto dest: sht40Read_valid split: option.splits)
  then show "reportsReading prefix (pf_telemetrySize (binarySht40Profile D address)) frame"
    using run r th reportsReading_encoded [OF ok, of "RBinaryClimateTh (if bp_high p then 1 else 0) t h" 10]
    by (auto simp: binarySht40Profile_def binarySht40Encode_def)
qed

interpretation climate_reports: profile_reports "climateProfile D address" for D :: "'m profile_board" and address
proof
  fix prefix p m m' frame
  assume ok: "prefixOk prefix" and run: "pf_encodeTelemetry (climateProfile D address) prefix p m = Some (m', frame)"
  then obtain m1 reading where r: "tmp112ReadTemperature (pb_sensors D) address m = Some (m1, reading)"
    by (auto simp: climateProfile_def climateEncode_def split: option.splits)
  let ?t = "case reading of None \<Rightarrow> kInvalidTemperature | Some temperature \<Rightarrow> temperature"
  have "validTemperature ?t"
    using r invalid_readings by (auto dest: tmp112ReadTemperature_valid split: option.splits)
  then show "reportsReading prefix (pf_telemetrySize (climateProfile D address)) frame"
    using run r reportsReading_encoded [OF ok, of "RTemperature ?t" 7]
    by (auto simp: climateProfile_def climateEncode_def)
qed

interpretation counter_reports: profile_reports "counterProfile D" for D :: "'m profile_board"
proof
  fix prefix p m m' frame
  assume "prefixOk prefix" "pf_encodeTelemetry (counterProfile D) prefix p m = Some (m', frame)"
  then show "reportsReading prefix (pf_telemetrySize (counterProfile D)) frame"
    using reportsReading_encoded [of prefix "RCounter (cp_count p)" 9]
    by (auto simp: counterProfile_def counterEncode_def)
qed

text \<open>Only the TMP112 waits.\<close>

lemma profiles_encode:
  "encodesAlways (binaryProfile D)" "encodesAlways (binarySht40Profile D address)" "encodesAlways (counterProfile D)"
  by (simp_all add: encodesAlways_def binaryProfile_def binaryEncode_def binarySht40Profile_def
      binarySht40Encode_def counterProfile_def counterEncode_def Let_def split: prod.split)

lemma climate_encodes:
  assumes "sensorTimerRuns (pb_sensors D) elapsed"
  shows "encodesAlways (climateProfile D address)"
  using tmp112ReadTemperature_returns [OF assms, of address]
  by (auto simp: encodesAlways_def climateProfile_def climateEncode_def split: option.split)

end
