(* ===== verification/Power_Loop.thy ===== *)
theory Power_Loop
  imports Power_Service Node_Runtime
begin

text \<open>
  The power control loop that NodeRuntime.h and RadioPowerState.h on the node close with
  PowerControlService.cpp and RadioPowerControl.h on the gateway.  A step is what becomes of one
  transmission of a report: the radio task computes the target for the acknowledgement before the main
  loop shows the report to the controller; the acknowledgement may be lost.
\<close>

record power_node =
  pn_level :: u8
  pn_fallback :: bool
  pn_unacknowledged :: u8

definition nodePower :: "('m, 'p) node_runtime \<Rightarrow> power_node" where
  "nodePower n = \<lparr>pn_level = rt_powerLevel n, pn_fallback = rt_radioFallback n,
     pn_unacknowledged = rt_unacknowledgedReports n\<rparr>"

definition decidedPower :: "PowerDecision \<Rightarrow> power_node \<Rightarrow> power_node" where
  "decidedPower d pn =
     (if pd_change d then pn\<lparr>pn_level := pd_level d, pn_fallback := pd_fallback d\<rparr> else pn)"

definition nodeHeard :: "u8 \<Rightarrow> u8 option \<Rightarrow> power_node \<Rightarrow> power_node" where
  "nodeHeard c target pn = decidedPower
     (afterAcknowledged (pn_level pn) (pn_fallback pn) (target \<noteq> None)
        (case target of None \<Rightarrow> 0 | Some level \<Rightarrow> level) c)
     (pn\<lparr>pn_unacknowledged := 0\<rparr>)"

definition nodeMissed :: "u8 \<Rightarrow> power_node \<Rightarrow> power_node" where
  "nodeMissed c pn =
     (let k = (if pn_unacknowledged pn < 0xFF then pn_unacknowledged pn + 1 else pn_unacknowledged pn)
      in decidedPower (afterUnacknowledged (pn_level pn) (pn_fallback pn) k c) (pn\<lparr>pn_unacknowledged := k\<rparr>))"

definition nodeRestarted :: "u8 \<Rightarrow> power_node" where
  "nodeRestarted c = \<lparr>pn_level = c, pn_fallback = False, pn_unacknowledged = 0\<rparr>"

text \<open>What the runtime does with the outcome of a report is one of the first two.\<close>

lemma nodePower_applyPower: "nodePower (applyPower H d n) = decidedPower d (nodePower n)"
  by (simp add: nodePower_def applyPower_def decidedPower_def onNodeRadio_def)

lemma nodePower_reportOutcome:
  "reportOutcome B H P now prefix (Some (ack, rssi)) n = (n', hint) \<Longrightarrow>
     nodePower n' = nodeHeard (nb_maxPowerLevel B)
       (if ack_hasPowerTarget ack then Some (ack_powerTarget ack) else None) (nodePower n)"
  "reportOutcome B H P now prefix None n = (n', hint) \<Longrightarrow> nodePower n' = nodeMissed (nb_maxPowerLevel B) (nodePower n)"
proof -
  assume run: "reportOutcome B H P now prefix (Some (ack, rssi)) n = (n', hint)"
  have none: "afterAcknowledged l f False t c = afterAcknowledged l f False 0 c" for l f t c
    by (simp add: afterAcknowledged_def)
  show "nodePower n' = nodeHeard (nb_maxPowerLevel B)
       (if ack_hasPowerTarget ack then Some (ack_powerTarget ack) else None) (nodePower n)"
    using run none [of _ _ "ack_powerTarget ack"]
    by (cases "ack_hasPowerTarget ack")
       (auto simp: reportOutcome_def Let_def nodePower_applyPower nodeHeard_def, simp_all add: nodePower_def)
next
  assume "reportOutcome B H P now prefix None n = (n', hint)"
  then show "nodePower n' = nodeMissed (nb_maxPowerLevel B) (nodePower n)"
    by (auto simp: reportOutcome_def Let_def nodePower_applyPower nodeMissed_def split: if_splits)
       (simp_all add: nodePower_def)
qed

text \<open>A stored report of node \<open>n\<close> that carries the node's radio state.\<close>

definition reportsPower :: "u8 \<Rightarrow> power_node \<Rightarrow> TelemetryRecord \<Rightarrow> bool" where
  "reportsPower n pn record \<longleftrightarrow> tr_nodeId record = n \<and>
     (case decodeTelemetry (Some (recordPayload record)) of Inl _ \<Rightarrow> False
      | Inr view \<Rightarrow> tv_radioState view = encodeRadioState (pn_level pn) (pn_fallback pn))"

definition nodeTarget :: "power_service \<Rightarrow> u8 \<Rightarrow> power_node \<Rightarrow> u8 option" where
  "nodeTarget pw n pn = powerTarget pw n (encodeRadioState (pn_level pn) (pn_fallback pn))"

inductive power_step ::
  "u8 \<Rightarrow> (u8 \<Rightarrow> (u8 \<times> u8) option) \<Rightarrow> u8 \<Rightarrow> power_node \<times> power_service \<Rightarrow> power_node \<times> power_service \<Rightarrow> bool"
  for c policyOf n where
  acknowledged: "reportsPower n pn record \<Longrightarrow>
    power_step c policyOf n (pn, pw) (nodeHeard c (nodeTarget pw n pn) pn, powerObserve policyOf record pw)"
| overheard: "reportsPower n pn record \<Longrightarrow> power_step c policyOf n (pn, pw) (pn, powerObserve policyOf record pw)"
| missed: "power_step c policyOf n (pn, pw) (nodeMissed c pn, pw)"
| restarted: "power_step c policyOf n (pn, pw) (nodeRestarted c, pw)"

subsection \<open>What a report does to the controller\<close>

lemma radioState_fallback: "(encodeRadioState level fb AND kRadioFallback \<noteq> 0) = fb"
proof -
  have "(encodeRadioState level fb AND push_bit 5 1 \<noteq> 0) = bit (encodeRadioState level fb) 5"
    by (rule and_bit_neq_0) simp
  then show ?thesis by (simp add: encodeRadioState_def bit_simps bit_numeral_rec)
qed

lemma radioState_level: "level \<le> 31 \<Longrightarrow> radioPowerLevel (encodeRadioState level fb) = level"
proof -
  assume l: "level \<le> 31"
  have "level AND 0x1F = take_bit 5 level" by (simp add: take_bit_eq_mask mask_eq_exp_minus_1)
  also have "\<dots> = level"
    using l by (intro unsigned_word_eqI [where ?'a = nat]) (simp add: unsigned_take_bit_eq take_bit_nat_eq_self word_le_nat_alt)
  finally show ?thesis by (simp add: radioPowerLevel_state)
qed

definition observedPower ::
  "u8 \<Rightarrow> u8 \<Rightarrow> u8 \<Rightarrow> power_node \<Rightarrow> s16 \<Rightarrow> power_service \<Rightarrow> ControlState \<times> u8" where
  "observedPower n c policy pn rssi pw = observe (pw_states pw n) policy c
     \<lparr>rp_level = pn_level pn, rp_fallback = pn_fallback pn, rp_rssi = rssi\<rparr>"

lemma powerObserve_report:
  assumes "validNode n" "policyOf n = Some (c, policy)" "reportsPower n pn record" "pn_level pn \<le> 31"
    and "observedPower n c policy pn (tr_rssi record) pw = (state, level)"
  shows "powerObserve policyOf record pw =
    (publish n level (pw\<lparr>pw_states := (pw_states pw)(n := state)\<rparr>))
      \<lparr>pw_fallbackObserved := (pw_fallbackObserved pw)(n := pn_fallback pn)\<rparr>"
proof -
  obtain view where v: "decodeTelemetry (Some (recordPayload record)) = Inr view"
    "tv_radioState view = encodeRadioState (pn_level pn) (pn_fallback pn)" "tr_nodeId record = n"
    using assms(3) by (auto simp: reportsPower_def split: sum.splits)
  show ?thesis
    using assms(1,2,5) radioState_level [OF assms(4)]
    by (simp add: powerObserve_def v radioState_fallback observedPower_def Let_def publish_def)
qed

text \<open>After a report the published level is the controller's.\<close>

lemma powerObserve_fields:
  assumes "validNode n" "policyOf n = Some (c, policy)" "reportsPower n pn record" "pn_level pn \<le> 31" "c \<le> 31"
    and pw': "powerObserve policyOf record pw = pw'"
  shows "pw_states pw' n = fst (observedPower n c policy pn (tr_rssi record) pw)"
    "pw_desired pw' n = cs_desired (pw_states pw' n) + 1" "cs_desired (pw_states pw' n) \<le> c"
    "pw_fallbackObserved pw' n = pn_fallback pn"
proof -
  obtain state level where o: "observedPower n c policy pn (tr_rssi record) pw = (state, level)" by fastforce
  have l: "level = cs_desired state" "level \<le> c"
    using o observe_desired observe_le_ceiling unfolding observedPower_def by (metis fst_conv snd_conv)+
  then have "level \<noteq> kNoLevel" using assms(5) by (auto simp: word_le_nat_alt)
  then show "pw_states pw' n = fst (observedPower n c policy pn (tr_rssi record) pw)"
    "pw_desired pw' n = cs_desired (pw_states pw' n) + 1" "cs_desired (pw_states pw' n) \<le> c"
    "pw_fallbackObserved pw' n = pn_fallback pn"
    using l o powerObserve_report [where policyOf = policyOf and pw = pw, OF assms(1-4) o] by (simp_all add: pw' [symmetric] publish_def)
qed

subsection \<open>Automatic control after a fallback\<close>

text \<open>\<open>f\<close> is a floor that holds: of the node's level, of what it last reported and of what it is asked.\<close>

definition floored :: "u8 \<Rightarrow> u8 \<Rightarrow> u8 \<Rightarrow> power_node \<Rightarrow> power_service \<Rightarrow> bool" where
  "floored f c n pn pw \<longleftrightarrow>
     (let s = pw_states pw n in
      f \<le> pn_level pn \<and> pn_level pn \<le> c \<and> (pn_fallback pn \<longrightarrow> pn_level pn = c) \<and>
      cs_known s \<and> f \<le> cs_reportedLevel s \<and> cs_reportedLevel s \<le> c \<and> f \<le> cs_floor s \<and> cs_floor s \<le> c \<and>
      f \<le> cs_desired s \<and> cs_desired s \<le> c \<and> pw_desired pw n = cs_desired s + 1)"

lemma margin_le: "f \<le> r \<Longrightarrow> r \<le> 31 \<Longrightarrow> f \<le> r + kFallbackMargin" for f r :: u8
  by (simp add: word_le_nat_alt unat_word_ariths)

lemma minLevel_ge: "f \<le> minLevel a b \<longleftrightarrow> f \<le> a \<and> f \<le> b"
  by (simp add: word_le_nat_alt)

text \<open>What one report does to the floor and to the level asked for, under automatic control.\<close>

lemma observe_auto_floor:
  "cs_floor (fst (observe s kPolicyAuto c r)) =
    (if rp_fallback r \<and> cs_known s \<and> \<not> cs_fallback s then minLevel c (cs_reportedLevel s + kFallbackMargin)
     else cs_floor s)"
  by (auto simp: observe_def Let_def isFixedPolicy_def)

lemma observe_auto_desired:
  assumes "f \<le> rp_level r" "f \<le> c" "\<not> rp_fallback r \<Longrightarrow> cs_known s \<and> f \<le> cs_desired s"
    and "f \<le> cs_floor (fst (observe s kPolicyAuto c r))"
  shows "f \<le> cs_desired (fst (observe s kPolicyAuto c r))"
proof -
  define s1 where "s1 = (if rp_fallback r \<and> cs_known s \<and> \<not> cs_fallback s
     then s\<lparr>cs_floor := minLevel c (cs_reportedLevel s + kFallbackMargin)\<rparr> else s)"
  define s2 where "s2 = (if \<not> cs_known s1 \<or> rp_level r \<noteq> cs_reportedLevel s1
     then s1\<lparr>cs_reports := 0, cs_rssiSum := 0\<rparr> else s1)"
  define s3 where "s3 = s2\<lparr>cs_known := True, cs_reportedLevel := rp_level r, cs_fallback := rp_fallback r\<rparr>"
  define s4 where "s4 = (if cs_reports s3 < 255
     then s3\<lparr>cs_reports := cs_reports s3 + 1, cs_rssiSum := cs_rssiSum s3 + sint (rp_rssi r)\<rparr> else s3)"
  have fl: "cs_floor s4 = cs_floor (fst (observe s kPolicyAuto c r))"
    unfolding observe_auto_floor by (auto simp: s1_def s2_def s3_def s4_def)
  have same: "cs_known s2 = cs_known s" "cs_desired s4 = cs_desired s"
    by (simp_all add: s1_def s2_def s3_def s4_def)
  let ?keep = "if cs_known s2 \<and> \<not> rp_fallback r then cs_desired s4 else rp_level r"
  let ?auto = "autoLevel (cs_rssiSum s4 sdiv uint (cs_reports s4)) (rp_level r) ?keep"
  have "cs_desired (fst (observe s kPolicyAuto c r)) =
    minLevel (if cs_reports s4 \<ge> 3 then (if ?auto < cs_floor s4 then cs_floor s4 else ?auto) else ?keep) c"
    unfolding observe_def isFixedPolicy_def Let_def
    unfolding s1_def [symmetric] unfolding s2_def [symmetric] unfolding s3_def [symmetric]
    unfolding s4_def [symmetric] by simp
  moreover have "f \<le> ?keep" using assms(1,3) same by auto
  moreover have "f \<le> (if ?auto < cs_floor s4 then cs_floor s4 else ?auto)"
    using assms(4) fl by (auto simp: not_less)
  ultimately show ?thesis using assms(2) by (simp add: minLevel_ge)
qed

lemma floored_observed:
  assumes fl: "floored f c n pn pw" and c: "c \<le> 31" "f \<le> c"
    and node: "validNode n" "policyOf n = Some (c, kPolicyAuto)" "reportsPower n pn record"
  shows "floored f c n pn (powerObserve policyOf record pw)"
proof -
  let ?s = "pw_states pw n" and ?r = "\<lparr>rp_level = pn_level pn, rp_fallback = pn_fallback pn, rp_rssi = tr_rssi record\<rparr>"
  let ?s' = "fst (observe ?s kPolicyAuto c ?r)"
  have p: "pn_level pn \<le> 31" using fl c(1) by (auto simp: floored_def Let_def)
  note obs = powerObserve_fields [where pw = pw and policyOf = policyOf and n = n, OF node p c(1) refl, unfolded observedPower_def]
  have R: "f \<le> cs_reportedLevel ?s" "cs_reportedLevel ?s \<le> 31"
    using fl c(1) by (auto simp: floored_def Let_def)
  have floor': "f \<le> cs_floor ?s' \<and> cs_floor ?s' \<le> c"
    using fl c margin_le [OF R] unfolding observe_auto_floor by (auto simp: floored_def Let_def minLevel_ge)
  have "f \<le> cs_desired ?s'"
    using fl c floor' by (intro observe_auto_desired) (auto simp: floored_def Let_def)
  then show ?thesis
    using obs fl floor' by (auto simp: floored_def Let_def)
qed

lemma floored_target:
  "floored f c n pn pw \<Longrightarrow> nodeTarget pw n pn = Some t \<Longrightarrow> f \<le> t \<and> t \<le> c"
  by (auto simp: nodeTarget_def powerTarget_def floored_def Let_def split: if_splits)

lemma floored_heard:
  assumes "floored f c n pn pw"
  shows "floored f c n (nodeHeard c (nodeTarget pw n pn) pn) pw"
  using assms floored_target [OF assms]
  by (cases "nodeTarget pw n pn")
     (auto simp: floored_def nodeHeard_def decidedPower_def afterAcknowledged_def Let_def)

lemma floored_missed: "floored f c n pn pw \<Longrightarrow> f \<le> c \<Longrightarrow> floored f c n (nodeMissed c pn) pw"
  by (auto simp: floored_def nodeMissed_def decidedPower_def afterUnacknowledged_def Let_def)

lemma floored_restarted: "floored f c n pn pw \<Longrightarrow> f \<le> c \<Longrightarrow> floored f c n (nodeRestarted c) pw"
  by (auto simp: floored_def nodeRestarted_def Let_def)

lemma floored_step:
  assumes c: "c \<le> 31" "f \<le> c" and node: "validNode n" "policyOf n = Some (c, kPolicyAuto)"
  shows "power_step c policyOf n x y \<Longrightarrow> floored f c n (fst x) (snd x) \<Longrightarrow> floored f c n (fst y) (snd y)"
proof (induction rule: power_step.induct)
  case (acknowledged pn rec pw)
  have "floored f c n pn (powerObserve policyOf rec pw)"
    using floored_observed [where policyOf = policyOf and n = n, OF _ c node acknowledged.hyps] acknowledged.prems by simp
  moreover have "floored f c n (nodeHeard c (nodeTarget pw n pn) pn) pw"
    using floored_heard acknowledged.prems by simp
  ultimately show ?case by (simp add: floored_def Let_def)
qed (use floored_observed [where policyOf = policyOf and n = n, OF _ c node] floored_missed floored_restarted c in \<open>auto\<close>)

lemma floored_steps:
  assumes "c \<le> 31" "f \<le> c" "validNode n" "policyOf n = Some (c, kPolicyAuto)"
    and "(power_step c policyOf n)\<^sup>*\<^sup>* x y" "floored f c n (fst x) (snd x)"
  shows "floored f c n (fst y) (snd y)"
  using assms(5,6) by (induction rule: rtranclp_induct) (auto intro: floored_step [where policyOf = policyOf and n = n, OF assms(1-4)])

text \<open>The first report of a fallback sets the floor: the margin above the level last heard.\<close>

lemma fallback_floored:
  assumes c: "c \<le> 31" and node: "validNode n" "policyOf n = Some (c, kPolicyAuto)" "reportsPower n pn record"
    and pn: "pn_fallback pn" "pn_level pn = c"
    and s: "cs_known (pw_states pw n)" "\<not> cs_fallback (pw_states pw n)"
  shows "floored (minLevel c (cs_reportedLevel (pw_states pw n) + kFallbackMargin)) c n pn
    (powerObserve policyOf record pw)"
proof -
  let ?s = "pw_states pw n" and ?r = "\<lparr>rp_level = pn_level pn, rp_fallback = pn_fallback pn, rp_rssi = tr_rssi record\<rparr>"
  let ?f = "minLevel c (cs_reportedLevel ?s + kFallbackMargin)"
  let ?s' = "fst (observe ?s kPolicyAuto c ?r)"
  have p: "pn_level pn \<le> 31" using c pn by simp
  note obs = powerObserve_fields [where pw = pw and policyOf = policyOf and n = n, OF node p c(1) refl, unfolded observedPower_def]
  have floor': "cs_floor ?s' = ?f" using pn s by (simp add: observe_auto_floor)
  then have "?f \<le> cs_desired ?s'" using pn by (intro observe_auto_desired) simp_all
  then show ?thesis using obs pn floor' by (simp add: floored_def Let_def)
qed

subsection \<open>A fixed level\<close>

definition fixedWanted :: "u8 \<Rightarrow> u8 \<Rightarrow> u8 \<Rightarrow> power_node \<Rightarrow> power_service \<Rightarrow> bool" where
  "fixedWanted c wanted n pn pw \<longleftrightarrow> pw_desired pw n = wanted + 1 \<and> wanted \<le> c \<and> pn_level pn \<le> c \<and>
     (pn_fallback pn \<longrightarrow> pn_level pn = c)"

lemma fixedWanted_observed:
  assumes "fixedWanted c (minLevel l c) n pn pw" "c \<le> 31" "l \<le> 31"
    "validNode n" "policyOf n = Some (c, fixedPolicy l)" "reportsPower n pn record"
  shows "fixedWanted c (minLevel l c) n pn (powerObserve policyOf record pw)"
proof -
  have p: "pn_level pn \<le> 31" using assms(1,2) by (auto simp: fixedWanted_def)
  have "unat (l + 1) = unat l + 1" using assms(3) by (simp add: word_le_nat_alt unat_word_ariths)
  then have "l + 1 \<noteq> 0" by auto
  then have "isFixedPolicy (fixedPolicy l)" "fixedLevel (fixedPolicy l) = l"
    by (simp_all add: isFixedPolicy_def fixedPolicy_def fixedLevel_def)
  then have "cs_desired (fst (observe s (fixedPolicy l) c r)) = minLevel l c" for s r
    by (simp add: observe_def Let_def)
  then show ?thesis
    using powerObserve_fields [where pw = pw and policyOf = policyOf and n = n, OF assms(4-6) p assms(2) refl] assms(1)
    by (simp add: fixedWanted_def observedPower_def)
qed

lemma fixedWanted_step:
  assumes c: "c \<le> 31" "l \<le> 31" and node: "validNode n" "policyOf n = Some (c, fixedPolicy l)"
  shows "power_step c policyOf n x y \<Longrightarrow> fixedWanted c (minLevel l c) n (fst x) (snd x) \<Longrightarrow>
    fixedWanted c (minLevel l c) n (fst y) (snd y)"
proof (induction rule: power_step.induct)
  case (acknowledged pn rec pw)
  have "fixedWanted c (minLevel l c) n pn (powerObserve policyOf rec pw)"
    using fixedWanted_observed [where policyOf = policyOf and n = n, OF _ c node acknowledged.hyps] acknowledged.prems by simp
  then show ?case
    by (cases "nodeTarget pw n pn")
       (auto simp: fixedWanted_def nodeHeard_def decidedPower_def afterAcknowledged_def Let_def)
qed (use fixedWanted_observed [where policyOf = policyOf and n = n, OF _ c node] in
     \<open>auto simp: fixedWanted_def nodeMissed_def nodeRestarted_def decidedPower_def afterUnacknowledged_def Let_def\<close>)

lemma fixedWanted_steps:
  assumes "c \<le> 31" "l \<le> 31" "validNode n" "policyOf n = Some (c, fixedPolicy l)"
    and "(power_step c policyOf n)\<^sup>*\<^sup>* x y" "fixedWanted c (minLevel l c) n (fst x) (snd x)"
  shows "fixedWanted c (minLevel l c) n (fst y) (snd y)"
  using assms(5,6) by (induction rule: rtranclp_induct) (auto intro: fixedWanted_step [where policyOf = policyOf and n = n, OF assms(1-4)])

text \<open>An acknowledged report brings a node that is not in fallback, or whose fallback was observed, to the
  level; the report itself shows a fallback to the controller.\<close>

lemma fixedWanted_heard:
  assumes "fixedWanted c wanted n pn pw" "c \<le> 31" "validNode n"
    and "\<not> pn_fallback pn \<or> pw_fallbackObserved pw n"
  shows "pn_level (nodeHeard c (nodeTarget pw n pn) pn) = wanted"
proof -
  have l: "pn_level pn \<le> 31" "wanted \<le> c" "wanted \<le> 31"
    using assms(1,2) by (auto simp: fixedWanted_def)
  then have "unat (wanted + 1) = unat wanted + 1" by (simp add: word_le_nat_alt unat_word_ariths)
  then have "wanted + 1 \<noteq> 0" by auto
  then have target: "nodeTarget pw n pn = (if wanted \<noteq> pn_level pn then Some wanted else None)"
    using assms radioState_level [OF l(1)]
    by (auto simp: nodeTarget_def powerTarget_def radioState_fallback fixedWanted_def)
  show ?thesis
    using l(2) unfolding target by (auto simp: nodeHeard_def decidedPower_def afterAcknowledged_def Let_def)
qed

end
