(* ===== verification/Gateway_Authentication.thy ===== *)
theory Gateway_Authentication
  imports Auth_Storage
begin

text \<open>
  gateway: AuthenticationService.h and AuthenticationService.cpp, the sessions of the web interface and
  its API tokens.  C strings are byte lists without the terminating zero, None is a null pointer.
  Random bytes, the result of an attempt to take the mutex without waiting, the clock, the user table of
  ConfigurationStore and the two hash functions of mbedTLS are arguments; a hash function gives None when
  the library reports an error.
\<close>

abbreviation (input) kMaximumSessions :: nat where "kMaximumSessions \<equiv> 4"
abbreviation (input) kSessionLifetimeMs :: u32 where "kSessionLifetimeMs \<equiv> 43200000"
abbreviation (input) kSessionTokenCharacters :: nat where "kSessionTokenCharacters \<equiv> 64"
abbreviation (input) kCsrfTokenCharacters :: nat where "kCsrfTokenCharacters \<equiv> 32"
abbreviation (input) kApiTokenCharacters :: nat where "kApiTokenCharacters \<equiv> 43"
abbreviation (input) kDefaultIterations :: u32 where "kDefaultIterations \<equiv> 25000"

datatype LoginStatus = LS_Ok | LS_InvalidCredentials | LS_Busy | LS_StorageUnavailable | LS_NoSessionCapacity

record WebSession =
  ws_active :: bool
  ws_userId :: u32
  ws_role :: UserRole
  ws_username :: bytes
  ws_token :: bytes
  ws_csrfToken :: bytes
  ws_createdAt :: u32
  ws_lastSeenAt :: u32

record Principal =
  pr_userId :: u32
  pr_role :: UserRole
  pr_username :: bytes
  pr_csrfToken :: bytes

record LoginResult =
  lr_sessionToken :: bytes
  lr_principal :: Principal

text \<open>A session after \<open>memset\<close>; the arrays of the tokens are kept without their last zero.\<close>

definition clearSession :: WebSession where
  "clearSession = \<lparr>ws_active = False, ws_userId = 0, ws_role = UserRoleRaw 0, ws_username = zeros 33,
     ws_token = zeros kSessionTokenCharacters, ws_csrfToken = zeros kCsrfTokenCharacters,
     ws_createdAt = 0, ws_lastSeenAt = 0\<rparr>"

record auth_service =
  as_mutex :: bool
  as_sessions :: "WebSession list"

definition newAuthService :: auth_service where
  "newAuthService = \<lparr>as_mutex = False, as_sessions = replicate kMaximumSessions clearSession\<rparr>"

definition authBegin :: "bool \<Rightarrow> auth_service \<Rightarrow> auth_service \<times> bool" where
  "authBegin mutexMade sv = (sv\<lparr>as_mutex := mutexMade\<rparr>, mutexMade)"

definition sessionElapsed :: "u32 \<Rightarrow> u32 \<Rightarrow> u32 \<Rightarrow> bool" where
  "sessionElapsed now since period \<longleftrightarrow> now - since \<ge> period"

definition constantTimeEqual :: "bytes \<Rightarrow> bytes \<Rightarrow> nat \<Rightarrow> bool" where
  "constantTimeEqual left right n \<longleftrightarrow>
     foldl (\<lambda>difference i. difference OR (left ! i XOR right ! i)) 0 [0..<n] = 0"

subsection \<open>Text of tokens\<close>

definition hexDigits :: bytes where
  "hexDigits = map of_char ''0123456789abcdef''"

definition randomHex :: "bytes \<Rightarrow> nat \<Rightarrow> bytes" where
  "randomHex random byteCount =
     concat (map (\<lambda>b. [hexDigits ! unat (drop_bit 4 b), hexDigits ! unat (b AND 0x0F)]) (take byteCount random))"

definition base64Alphabet :: bytes where
  "base64Alphabet = map of_char ''ABCDEFGHIJKLMNOPQRSTUVWXYZabcdefghijklmnopqrstuvwxyz0123456789-_''"

definition base64Char :: "u32 \<Rightarrow> u8" where
  "base64Char v = base64Alphabet ! unat (v AND 0x3F)"

fun encodeBase64Url :: "bytes \<Rightarrow> bytes" where
  "encodeBase64Url (a # b # c # rest) =
     (let v = push_bit 16 (ucast a) OR push_bit 8 (ucast b) OR ucast c
      in base64Char (drop_bit 18 v) # base64Char (drop_bit 12 v) # base64Char (drop_bit 6 v) #
         base64Char v # encodeBase64Url rest)"
| "encodeBase64Url [a, b] =
     (let v = push_bit 16 (ucast a) OR push_bit 8 (ucast b)
      in [base64Char (drop_bit 18 v), base64Char (drop_bit 12 v), base64Char (drop_bit 6 v)])"
| "encodeBase64Url [a] =
     (let v = push_bit 16 (ucast a)
      in [base64Char (drop_bit 18 v), base64Char (drop_bit 12 v)])"
| "encodeBase64Url [] = []"

definition decodeBase64UrlCharacter :: "u8 \<Rightarrow> u8 option" where
  "decodeBase64UrlCharacter v =
     (if v \<ge> 0x41 \<and> v \<le> 0x5A then Some (v - 0x41)
      else if v \<ge> 0x61 \<and> v \<le> 0x7A then Some (v - 0x61 + 26)
      else if v \<ge> 0x30 \<and> v \<le> 0x39 then Some (v - 0x30 + 52)
      else if v = 0x2D then Some 62
      else if v = 0x5F then Some 63
      else None)"

text \<open>The loop of \<open>decodeApiToken\<close>: the accumulator, the number of bits in it, and the output so far.\<close>

fun decodeTokenLoop :: "bytes \<Rightarrow> u32 \<Rightarrow> nat \<Rightarrow> bytes \<Rightarrow> (u32 \<times> bytes) option" where
  "decodeTokenLoop [] accumulator bits output = Some (accumulator, output)"
| "decodeTokenLoop (c # input) accumulator bits output =
     (case decodeBase64UrlCharacter c of
        None \<Rightarrow> None
      | Some decoded \<Rightarrow>
          let accumulator = push_bit 6 accumulator OR ucast decoded;
              bits = bits + 6
          in if bits \<ge> 8
             then
               let bits = bits - 8
               in if length output \<ge> 32 then None
                  else decodeTokenLoop input (accumulator AND (if bits = 0 then 0 else push_bit bits 1 - 1)) bits
                         (output @ [ucast (drop_bit bits accumulator)])
             else decodeTokenLoop input accumulator bits output)"

definition decodeApiToken :: "bytes option \<Rightarrow> bytes option" where
  "decodeApiToken input =
     (case input of
        None \<Rightarrow> None
      | Some text \<Rightarrow>
          if length text \<noteq> kApiTokenCharacters then None
          else
            case decodeTokenLoop text 0 0 [] of
              None \<Rightarrow> None
            | Some (accumulator, output) \<Rightarrow>
                if length output = 32 \<and> accumulator = 0 then Some output else None)"

subsection \<open>Sessions\<close>

definition expireSessions :: "u32 \<Rightarrow> WebSession list \<Rightarrow> WebSession list" where
  "expireSessions now sessions =
     map (\<lambda>s. if ws_active s \<and> sessionElapsed now (ws_lastSeenAt s) kSessionLifetimeMs then clearSession else s)
       sessions"

definition oldestSession :: "WebSession list \<Rightarrow> nat" where
  "oldestSession sessions =
     foldl (\<lambda>oldest i. if sint (ws_lastSeenAt (sessions ! i) - ws_lastSeenAt (sessions ! oldest)) < 0
       then i else oldest) 0 [0..<length sessions]"

text \<open>The slot for a new session, and the table in which it is free.\<close>

definition allocateSession :: "u32 \<Rightarrow> WebSession list \<Rightarrow> WebSession list \<times> nat" where
  "allocateSession now sessions =
     (let sessions = expireSessions now sessions
      in case firstIndex (\<lambda>s. \<not> ws_active s) sessions of
           Some i \<Rightarrow> (sessions, i)
         | None \<Rightarrow> let oldest = oldestSession sessions in (sessions[oldest := clearSession], oldest))"

definition createSessionLocked ::
  "u32 \<Rightarrow> bytes \<Rightarrow> bytes \<Rightarrow> u32 \<Rightarrow> UserRole \<Rightarrow> bytes option \<Rightarrow> nat \<Rightarrow> WebSession list \<Rightarrow>
   WebSession list \<times> (LoginStatus + LoginResult)" where
  "createSessionLocked now tokenRandom csrfRandom userId role username usernameLength sessions =
     (case username of
        None \<Rightarrow> (sessions, Inl LS_InvalidCredentials)
      | Some name \<Rightarrow>
          if usernameLength = 0 \<or> usernameLength > kUsernameSize then (sessions, Inl LS_InvalidCredentials)
          else
            let (sessions, i) = allocateSession now sessions;
                s = sessions ! i;
                s = s\<lparr>ws_active := True, ws_userId := userId, ws_role := role,
                      ws_username := put (put (ws_username s) 0 (take usernameLength name)) usernameLength [0],
                      ws_token := randomHex tokenRandom (kSessionTokenCharacters div 2),
                      ws_csrfToken := randomHex csrfRandom (kCsrfTokenCharacters div 2),
                      ws_createdAt := now, ws_lastSeenAt := now\<rparr>
            in (sessions[i := s], Inr \<lparr>lr_sessionToken = ws_token s, lr_principal = \<lparr>pr_userId = userId,
                  pr_role = role, pr_username = ws_username s, pr_csrfToken = ws_csrfToken s\<rparr>\<rparr>))"

definition createSession ::
  "u32 \<Rightarrow> bytes \<Rightarrow> bytes \<Rightarrow> u32 \<Rightarrow> UserRole \<Rightarrow> bytes option \<Rightarrow> nat \<Rightarrow> auth_service \<Rightarrow>
   auth_service \<times> (LoginStatus + LoginResult)" where
  "createSession now tokenRandom csrfRandom userId role username usernameLength sv =
     (if \<not> as_mutex sv then (sv, Inl LS_Busy)
      else
        let (sessions, result) =
              createSessionLocked now tokenRandom csrfRandom userId role username usernameLength (as_sessions sv)
        in (sv\<lparr>as_sessions := sessions\<rparr>, result))"

text \<open>\<open>pbkdf2\<close> is computePbkdf2Sha256 of a password, a salt and an iteration count.\<close>

definition matchedUser :: "AuthenticationData \<Rightarrow> bytes \<Rightarrow> UserRecord option" where
  "matchedUser authentication username =
     find (\<lambda>u. us_enabled u \<and> unat (us_usernameLength u) = length username \<and>
       take (length username) (us_username u) = username)
       (take (unat (au_userCount authentication)) (au_users authentication))"

definition passwordMatches :: "(bytes \<Rightarrow> bytes \<Rightarrow> u32 \<Rightarrow> bytes option) \<Rightarrow> UserRecord option \<Rightarrow> bytes \<Rightarrow> bool" where
  "passwordMatches pbkdf2 matched password =
     (let salt = (case matched of None \<Rightarrow> zeros kPasswordSaltSize | Some u \<Rightarrow> us_salt u);
          expected = (case matched of None \<Rightarrow> zeros kPasswordHashSize | Some u \<Rightarrow> us_passwordHash u);
          iterations = (case matched of None \<Rightarrow> kDefaultIterations | Some u \<Rightarrow> us_pbkdf2Iterations u)
      in case pbkdf2 password salt iterations of
           None \<Rightarrow> False
         | Some computed \<Rightarrow> matched \<noteq> None \<and> constantTimeEqual computed expected kPasswordHashSize)"

definition login ::
  "bool \<Rightarrow> bool \<Rightarrow> (bytes \<Rightarrow> bytes \<Rightarrow> u32 \<Rightarrow> bytes option) \<Rightarrow> AuthenticationData \<Rightarrow> u32 \<Rightarrow> bytes \<Rightarrow> bytes \<Rightarrow>
   bytes option \<Rightarrow> bytes option \<Rightarrow> auth_service \<Rightarrow> auth_service \<times> (LoginStatus + LoginResult)" where
  "login ready free pbkdf2 authentication now tokenRandom csrfRandom username password sv =
     (if \<not> ready then (sv, Inl LS_StorageUnavailable)
      else
        case (username, password) of
          (Some name, Some secret) \<Rightarrow>
            if length name = 0 \<or> length name > kUsernameSize \<or> length secret < 8 \<or> length secret > 128
            then (sv, Inl LS_InvalidCredentials)
            else if \<not> as_mutex sv \<or> \<not> free then (sv, Inl LS_Busy)
            else
              let matched = matchedUser authentication name
              in if \<not> passwordMatches pbkdf2 matched secret then (sv, Inl LS_InvalidCredentials)
                 else
                   let u = the matched;
                       (sessions, result) = createSessionLocked now tokenRandom csrfRandom (us_id u) (us_role u)
                         (Some (us_username u)) (unat (us_usernameLength u)) (as_sessions sv)
                   in (sv\<lparr>as_sessions := sessions\<rparr>, result)
        | _ \<Rightarrow> (sv, Inl LS_InvalidCredentials))"

text \<open>The loop of \<open>authorize\<close> stops at the first session with the token.\<close>

definition sessionMatches :: "bytes \<Rightarrow> WebSession \<Rightarrow> bool" where
  "sessionMatches token s \<longleftrightarrow> ws_active s \<and> constantTimeEqual (ws_token s) token kSessionTokenCharacters"

definition authorize ::
  "u32 \<Rightarrow> bytes option \<Rightarrow> bytes option \<Rightarrow> bool \<Rightarrow> auth_service \<Rightarrow> auth_service \<times> Principal option" where
  "authorize now sessionToken csrfToken requireCsrf sv =
     (case sessionToken of
        None \<Rightarrow> (sv, None)
      | Some token \<Rightarrow>
          if length token \<noteq> kSessionTokenCharacters \<or>
             (requireCsrf \<and> (case csrfToken of None \<Rightarrow> True | Some csrf \<Rightarrow> length csrf \<noteq> kCsrfTokenCharacters)) \<or>
             \<not> as_mutex sv
          then (sv, None)
          else
            let sessions = expireSessions now (as_sessions sv);
                sv = sv\<lparr>as_sessions := sessions\<rparr>
            in case firstIndex (sessionMatches token) sessions of
                 None \<Rightarrow> (sv, None)
               | Some i \<Rightarrow>
                   let s = sessions ! i
                   in if requireCsrf \<and> \<not> constantTimeEqual (ws_csrfToken s) (the csrfToken) kCsrfTokenCharacters
                      then (sv, None)
                      else (sv\<lparr>as_sessions := sessions[i := s\<lparr>ws_lastSeenAt := now\<rparr>]\<rparr>,
                            Some \<lparr>pr_userId = ws_userId s, pr_role = ws_role s, pr_username = ws_username s,
                                  pr_csrfToken = ws_csrfToken s\<rparr>))"

definition logout :: "bytes option \<Rightarrow> auth_service \<Rightarrow> auth_service \<times> bool" where
  "logout sessionToken sv =
     (case sessionToken of
        None \<Rightarrow> (sv, False)
      | Some token \<Rightarrow>
          if length token \<noteq> kSessionTokenCharacters \<or> \<not> as_mutex sv then (sv, False)
          else
            case firstIndex (sessionMatches token) (as_sessions sv) of
              None \<Rightarrow> (sv, False)
            | Some i \<Rightarrow> (sv\<lparr>as_sessions := (as_sessions sv)[i := clearSession]\<rparr>, True))"

definition invalidateUserSessions :: "u32 \<Rightarrow> auth_service \<Rightarrow> auth_service" where
  "invalidateUserSessions userId sv =
     (if userId = 0 \<or> \<not> as_mutex sv then sv
      else sv\<lparr>as_sessions := map (\<lambda>s. if ws_active s \<and> ws_userId s = userId then clearSession else s)
             (as_sessions sv)\<rparr>)"

definition authLoop :: "bool \<Rightarrow> u32 \<Rightarrow> auth_service \<Rightarrow> auth_service" where
  "authLoop free now sv =
     (if \<not> as_mutex sv \<or> \<not> free then sv else sv\<lparr>as_sessions := expireSessions now (as_sessions sv)\<rparr>)"

subsection \<open>API tokens\<close>

text \<open>The text of a new token and its hash; the caller's buffers are never null.\<close>

definition createApiToken :: "(bytes \<Rightarrow> bytes option) \<Rightarrow> bytes \<Rightarrow> (bytes \<times> bytes) option" where
  "createApiToken sha256 random =
     map_option (\<lambda>hash. (encodeBase64Url (take 32 random), hash)) (sha256 (take 32 random))"

definition authorizeBearer ::
  "(bytes \<Rightarrow> bytes option) \<Rightarrow> AuthenticationData \<Rightarrow> bytes option \<Rightarrow> u16 \<Rightarrow> bool" where
  "authorizeBearer sha256 authentication token requiredScopes =
     (case decodeApiToken token of
        None \<Rightarrow> False
      | Some raw \<Rightarrow>
          (case sha256 raw of
             None \<Rightarrow> False
           | Some hash \<Rightarrow>
               foldl (\<lambda>authorized t. authorized \<or>
                   (constantTimeEqual hash (tk_tokenHash t) kTokenHashSize \<and> tk_enabled t \<and>
                    tk_scopes t AND requiredScopes = requiredScopes))
                 False (take (unat (au_tokenCount authentication)) (au_tokens authentication))))"

subsection \<open>The text of a token is its 32 bytes\<close>

lemma less_8_cases: "(n::nat) < 8 \<Longrightarrow> n = 0 \<or> n = 1 \<or> n = 2 \<or> n = 3 \<or> n = 4 \<or> n = 5 \<or> n = 6 \<or> n = 7"
  by presburger

lemma bit_u8_beyond: "8 \<le> n \<Longrightarrow> bit (a :: u8) n = False"
  using bit_imp_le_length [of a n] by auto

lemma octets_of_sextets:
  fixes a b c :: u8
  assumes "v = push_bit 16 (ucast a :: u32) OR push_bit 8 (ucast b) OR ucast c"
  shows "ucast (drop_bit 4 (push_bit 6 (drop_bit 18 v AND 0x3F) OR (drop_bit 12 v AND 0x3F))) = a"
    "ucast (drop_bit 2 (push_bit 6 ((push_bit 6 (drop_bit 18 v AND 0x3F) OR (drop_bit 12 v AND 0x3F)) AND 0xF) OR (drop_bit 6 v AND 0x3F))) = b"
    "ucast (push_bit 6 ((push_bit 6 ((push_bit 6 (drop_bit 18 v AND 0x3F) OR (drop_bit 12 v AND 0x3F)) AND 0xF) OR (drop_bit 6 v AND 0x3F)) AND 3) OR (v AND 0x3F)) = c"
  unfolding assms
  by (rule bit_word_eqI; simp add: bit_simps; drule less_8_cases; elim disjE; simp add: bit_simps bit_numeral_rec bit_u8_beyond eval_nat_numeral)+

lemma alphabet_code: "list_all (\<lambda>i. decodeBase64UrlCharacter (base64Alphabet ! i) = Some (of_nat i)) [0..<64]"
  by code_simp
lemma alphabet_ranges:
  "list_all (\<lambda>i. base64Alphabet ! i = 0x41 + of_nat i) [0..<26]"
  "list_all (\<lambda>i. base64Alphabet ! (i + 26) = 0x61 + of_nat i) [0..<26]"
  "list_all (\<lambda>i. base64Alphabet ! (i + 52) = 0x30 + of_nat i) [0..<10]"
  "base64Alphabet ! 62 = 0x2D" "base64Alphabet ! 63 = 0x5F"
  by code_simp+

lemma list_all_upt: "list_all P [0..<n] \<longleftrightarrow> (\<forall>i < n. P i)"
  by (auto simp: list_all_iff)

lemma and_63: "v AND 0x3F = take_bit 6 (v :: u32)"
  by (simp add: take_bit_eq_mask mask_eq_exp_minus_1)

lemma base64Char_and: "base64Char (v AND 0x3F) = base64Char v"
  by (simp add: base64Char_def and.assoc)

lemma unat_and_63: "unat (v AND 0x3F :: u32) < 64"
proof -
  have "v AND 0x3F \<le> 0x3F" by (simp add: word_and_le1)
  then show ?thesis by (simp add: word_le_nat_alt)
qed

lemma decode_base64Char: "decodeBase64UrlCharacter (base64Char v) = Some (ucast (v AND 0x3F))"
proof -
  have "decodeBase64UrlCharacter (base64Alphabet ! unat (v AND 0x3F)) = Some (of_nat (unat (v AND 0x3F)))"
    using alphabet_code unat_and_63 [of v] unfolding list_all_upt by blast
  then show ?thesis by (simp only: base64Char_def of_nat_unat)
qed

lemma ucast_and_63: "ucast (ucast (v AND 0x3F :: u32) :: u8) = v AND 0x3F"
  unfolding and_63 by (rule bit_word_eqI) (auto simp: bit_simps)

lemma base64Char_decoded:
  assumes "decodeBase64UrlCharacter c = Some d"
  obtains v :: u32 where "c = base64Char v"
proof -
  have "\<exists>n < 64. base64Alphabet ! n = c"
  proof -
    consider "0x41 \<le> c" "c \<le> 0x5A" | "0x61 \<le> c" "c \<le> 0x7A" | "0x30 \<le> c" "c \<le> 0x39" | "c = 0x2D" | "c = 0x5F"
      using assms by (auto simp: decodeBase64UrlCharacter_def split: if_splits)
    then show ?thesis
    proof cases
      case 1
      then have n: "unat c - 65 < 26" "of_nat (unat c - 65) = c - 0x41"
        by (simp_all add: word_le_nat_alt of_nat_diff)
      then have "base64Alphabet ! (unat c - 65) = c"
        using alphabet_ranges(1) unfolding list_all_upt by simp
      then show ?thesis using n(1) by (intro exI [of _ "unat c - 65"]) simp
    next
      case 2
      then have n: "unat c - 97 < 26" "of_nat (unat c - 97) = c - 0x61"
        by (simp_all add: word_le_nat_alt of_nat_diff)
      then have "base64Alphabet ! (unat c - 97 + 26) = c"
        using alphabet_ranges(2) unfolding list_all_upt by simp
      then show ?thesis using n(1) by (intro exI [of _ "unat c - 97 + 26"]) simp
    next
      case 3
      then have n: "unat c - 48 < 10" "of_nat (unat c - 48) = c - 0x30"
        by (simp_all add: word_le_nat_alt of_nat_diff)
      then have "base64Alphabet ! (unat c - 48 + 52) = c"
        using alphabet_ranges(3) unfolding list_all_upt by simp
      then show ?thesis using n(1) by (intro exI [of _ "unat c - 48 + 52"]) simp
    next
      case 4
      then show ?thesis using alphabet_ranges(4) by (intro exI [of _ 62]) simp
    next
      case 5
      then show ?thesis using alphabet_ranges(5) by (intro exI [of _ 63]) simp
    qed
  qed
  then obtain n where n: "n < 64" "base64Alphabet ! n = c" by blast
  have "of_nat n AND 0x3F = (of_nat n :: u32)"
    using n(1) by (simp only: and_63 take_bit_of_nat) (simp add: take_bit_nat_eq_self)
  then have "base64Char (of_nat n) = c"
    using n by (simp add: base64Char_def unsigned_of_nat take_bit_nat_eq_self)
  then show thesis using that by metis
qed

text \<open>One block: four characters carry three bytes and leave nothing in the accumulator.\<close>

definition acc1 :: "u32 \<Rightarrow> u32 \<Rightarrow> u32" where
  "acc1 s0 s1 = push_bit 6 (s0 AND 0x3F) OR (s1 AND 0x3F)"

definition acc2 :: "u32 \<Rightarrow> u32 \<Rightarrow> u32 \<Rightarrow> u32" where
  "acc2 s0 s1 s2 = push_bit 6 (acc1 s0 s1 AND 0xF) OR (s2 AND 0x3F)"

definition octets :: "u32 \<Rightarrow> u32 \<Rightarrow> u32 \<Rightarrow> u32 \<Rightarrow> bytes" where
  "octets s0 s1 s2 s3 =
     (let a1 = push_bit 6 (s0 AND 0x3F) OR (s1 AND 0x3F);
          a2 = push_bit 6 (a1 AND 0xF) OR (s2 AND 0x3F);
          a3 = push_bit 6 (a2 AND 3) OR (s3 AND 0x3F)
      in [ucast (drop_bit 4 a1), ucast (drop_bit 2 a2), ucast a3])"

lemma decodeTokenLoop_two:
  assumes "length out + 1 \<le> 32"
  shows "decodeTokenLoop [base64Char s0, base64Char s1] 0 0 out =
    Some (acc1 s0 s1 AND 0xF, out @ [ucast (drop_bit 4 (acc1 s0 s1))])"
  using assms by (simp add: decode_base64Char ucast_and_63 acc1_def Let_def)

lemma decodeTokenLoop_three:
  assumes "length out + 2 \<le> 32"
  shows "decodeTokenLoop [base64Char s0, base64Char s1, base64Char s2] 0 0 out =
    Some (acc2 s0 s1 s2 AND 3, out @ [ucast (drop_bit 4 (acc1 s0 s1)), ucast (drop_bit 2 (acc2 s0 s1 s2))])"
  using assms by (simp add: decode_base64Char ucast_and_63 acc1_def acc2_def Let_def)

lemma octets_acc:
  "octets s0 s1 s2 s3 = [ucast (drop_bit 4 (acc1 s0 s1)), ucast (drop_bit 2 (acc2 s0 s1 s2)),
     ucast (push_bit 6 (acc2 s0 s1 s2 AND 3) OR (s3 AND 0x3F))]"
  by (simp only: octets_def acc1_def acc2_def Let_def)

lemma decodeTokenLoop_block:
  assumes "length out + 3 \<le> 32"
  shows "decodeTokenLoop (base64Char s0 # base64Char s1 # base64Char s2 # base64Char s3 # rest) 0 0 out =
    decodeTokenLoop rest 0 0 (out @ octets s0 s1 s2 s3)"
  using assms by (simp add: decode_base64Char ucast_and_63 octets_def Let_def)

lemma octets_encode:
  fixes s0 s1 s2 s3 :: u32
  assumes "octets s0 s1 s2 s3 = [a, b, c]" "v = push_bit 16 (ucast a :: u32) OR push_bit 8 (ucast b) OR ucast c"
  shows "drop_bit 18 v AND 0x3F = s0 AND 0x3F" "drop_bit 12 v AND 0x3F = s1 AND 0x3F"
    "drop_bit 6 v AND 0x3F = s2 AND 0x3F" "v AND 0x3F = s3 AND 0x3F"
proof -
  have abc: "a = ucast (drop_bit 4 (push_bit 6 (s0 AND 0x3F) OR (s1 AND 0x3F)))"
    "b = ucast (drop_bit 2 (push_bit 6 ((push_bit 6 (s0 AND 0x3F) OR (s1 AND 0x3F)) AND 0xF) OR (s2 AND 0x3F)))"
    "c = ucast (push_bit 6 ((push_bit 6 ((push_bit 6 (s0 AND 0x3F) OR (s1 AND 0x3F)) AND 0xF) OR (s2 AND 0x3F)) AND 3) OR (s3 AND 0x3F))"
    using assms(1) by (simp_all add: octets_def Let_def)
  have six: "n < 6 \<Longrightarrow> n = 0 \<or> n = 1 \<or> n = 2 \<or> n = 3 \<or> n = 4 \<or> n = 5" for n :: nat by presburger
  have bits: "(\<And>n. n < 6 \<Longrightarrow> bit x n = bit y n) \<Longrightarrow> x AND 0x3F = y AND 0x3F" for x y :: u32
    unfolding and_63 by (rule bit_word_eqI) (auto simp: bit_simps)
  show "drop_bit 18 v AND 0x3F = s0 AND 0x3F" "drop_bit 12 v AND 0x3F = s1 AND 0x3F"
    "drop_bit 6 v AND 0x3F = s2 AND 0x3F" "v AND 0x3F = s3 AND 0x3F"
    unfolding assms(2) abc
    by (rule bits; simp add: bit_simps; drule six; elim disjE;
        simp add: bit_simps bit_numeral_rec bit_u8_beyond eval_nat_numeral)+
qed

lemma decodeTokenLoop_full:
  assumes "32 < length out + 3"
  shows "decodeTokenLoop (base64Char s0 # base64Char s1 # base64Char s2 # base64Char s3 # rest) 0 0 out = None"
  using assms by (simp add: decode_base64Char Let_def)

lemma octets_sextets:
  "v = push_bit 16 (ucast a :: u32) OR push_bit 8 (ucast b) OR ucast c \<Longrightarrow>
   octets (drop_bit 18 v) (drop_bit 12 v) (drop_bit 6 v) v = [a, b, c]"
  unfolding octets_def Let_def using octets_of_sextets [of v a b c] by simp

lemma tail_bits:
  fixes a b :: u8
  shows "v = push_bit 16 (ucast a :: u32) OR push_bit 8 (ucast b) \<Longrightarrow> acc2 s0 s1 (drop_bit 6 v) AND 3 = 0"
    "v = push_bit 16 (ucast a :: u32) \<Longrightarrow> acc1 s0 (drop_bit 12 v) AND 0xF = 0"
proof -
  have m: "w AND 3 = take_bit 2 w" "w AND 0xF = take_bit 4 w" for w :: u32
    by (simp_all add: take_bit_eq_mask mask_eq_exp_minus_1)
  show "v = push_bit 16 (ucast a :: u32) OR push_bit 8 (ucast b) \<Longrightarrow> acc2 s0 s1 (drop_bit 6 v) AND 3 = 0"
    "v = push_bit 16 (ucast a :: u32) \<Longrightarrow> acc1 s0 (drop_bit 12 v) AND 0xF = 0"
    unfolding m acc2_def acc1_def and_63 by (rule bit_word_eqI; auto simp: bit_simps)+
qed

lemma decodeTokenLoop_encode:
  "length out + length raw \<le> 32 \<Longrightarrow> decodeTokenLoop (encodeBase64Url raw) 0 0 out = Some (0, out @ raw)"
proof (induction raw arbitrary: out rule: encodeBase64Url.induct)
  case (1 a b c rest)
  let ?v = "push_bit 16 (ucast a :: u32) OR push_bit 8 (ucast b) OR ucast c"
  have fits: "length out + 3 \<le> 32" "length (out @ [a, b, c]) + length rest \<le> 32" using "1.prems" by simp_all
  show ?case
    using "1.IH" [OF refl fits(2)]
    unfolding encodeBase64Url.simps Let_def decodeTokenLoop_block [OF fits(1)] octets_sextets [OF refl] by simp
next
  case (2 a b)
  define v where "v = push_bit 16 (ucast a :: u32) OR push_bit 8 (ucast b)"
  have enc: "encodeBase64Url [a, b] = [base64Char (drop_bit 18 v), base64Char (drop_bit 12 v), base64Char (drop_bit 6 v)]"
    unfolding v_def by (simp only: encodeBase64Url.simps Let_def)
  have "octets (drop_bit 18 v) (drop_bit 12 v) (drop_bit 6 v) v = [a, b, 0]"
    unfolding v_def by (rule octets_sextets) simp
  then show ?case
    using "2.prems" unfolding enc by (simp add: decodeTokenLoop_three tail_bits(1) [OF v_def] octets_acc del: decodeTokenLoop.simps)
next
  case (3 a)
  define v where "v = push_bit 16 (ucast a :: u32)"
  have enc: "encodeBase64Url [a] = [base64Char (drop_bit 18 v), base64Char (drop_bit 12 v)]"
    unfolding v_def by (simp only: encodeBase64Url.simps Let_def)
  have "octets (drop_bit 18 v) (drop_bit 12 v) (drop_bit 6 v) v = [a, 0, 0]"
    unfolding v_def by (rule octets_sextets) simp
  then show ?case
    using "3.prems" unfolding enc by (simp add: decodeTokenLoop_two tail_bits(2) [OF v_def] octets_acc del: decodeTokenLoop.simps)
qed simp

lemma decodeTokenLoop_exact:
  "length tx = 4 * k + 3 \<Longrightarrow> decodeTokenLoop tx 0 0 out = Some (0, out') \<Longrightarrow>
   \<exists>raw. out' = out @ raw \<and> encodeBase64Url raw = tx"
proof (induction k arbitrary: tx out)
  case 0
  then obtain c0 c1 c2 where tx: "tx = [c0, c1, c2]" by (auto simp: length_Suc_conv eval_nat_numeral)
  have "decodeBase64UrlCharacter c0 \<noteq> None" "decodeBase64UrlCharacter c1 \<noteq> None" "decodeBase64UrlCharacter c2 \<noteq> None"
    using "0.prems"(2) tx by (auto split: option.splits if_splits simp: Let_def)
  then obtain s0 s1 s2 where c: "c0 = base64Char s0" "c1 = base64Char s1" "c2 = base64Char s2"
    by (metis base64Char_decoded not_Some_eq)
  obtain o0 o1 o2 where o: "octets s0 s1 s2 0 = [o0, o1, o2]" by (simp add: octets_def Let_def)
  have room: "length out + 2 \<le> 32"
    using "0.prems"(2) by (cases "length out + 2 \<le> 32") (auto simp: tx c decode_base64Char Let_def split: if_splits)
  have out: "out' = out @ [o0, o1]" "o2 = 0"
  proof -
    have z: "acc2 s0 s1 s2 AND 3 = 0" and "out' = out @ [ucast (drop_bit 4 (acc1 s0 s1)), ucast (drop_bit 2 (acc2 s0 s1 s2))]"
      using "0.prems"(2) unfolding tx c decodeTokenLoop_three [OF room] by simp_all
    then show "out' = out @ [o0, o1]" using o by (simp add: octets_acc)
    show "o2 = 0" using o unfolding octets_acc z by simp
  qed
  from octets_encode [OF o, unfolded out(2), OF refl] have "encodeBase64Url [o0, o1] = tx"
    by (simp add: tx c Let_def) (metis base64Char_and)
  then show ?case using out(1) by blast
next
  case (Suc k)
  then obtain c0 c1 c2 c3 rest where tx: "tx = c0 # c1 # c2 # c3 # rest" "length rest = 4 * k + 3"
    by (auto simp: length_Suc_conv eval_nat_numeral)
  have "decodeBase64UrlCharacter c0 \<noteq> None" "decodeBase64UrlCharacter c1 \<noteq> None"
    "decodeBase64UrlCharacter c2 \<noteq> None" "decodeBase64UrlCharacter c3 \<noteq> None"
    using Suc.prems(2) tx(1) by (auto split: option.splits if_splits simp: Let_def)
  then obtain s0 s1 s2 s3 where c: "c0 = base64Char s0" "c1 = base64Char s1" "c2 = base64Char s2" "c3 = base64Char s3"
    by (metis base64Char_decoded not_Some_eq)
  obtain o0 o1 o2 where o: "octets s0 s1 s2 s3 = [o0, o1, o2]" by (simp add: octets_def Let_def)
  have "length out + 3 \<le> 32"
    using Suc.prems(2) decodeTokenLoop_full [of out s0 s1 s2 s3 rest] by (cases "32 < length out + 3") (auto simp: tx c)
  then have "decodeTokenLoop rest 0 0 (out @ [o0, o1, o2]) = Some (0, out')"
    using Suc.prems(2) unfolding tx(1) c by (simp only: decodeTokenLoop_block o)
  from Suc.IH [OF tx(2) this] obtain raw where raw: "out' = out @ [o0, o1, o2] @ raw" "encodeBase64Url raw = rest" by auto
  from octets_encode [OF o refl] have "encodeBase64Url (o0 # o1 # o2 # raw) = tx"
    by (simp add: tx c Let_def raw(2)) (metis base64Char_and)
  then show ?case using raw(1) by auto
qed

lemma length_encodeBase64Url: "length (encodeBase64Url raw) = (4 * length raw + 2) div 3"
  by (induction raw rule: encodeBase64Url.induct) (simp_all add: Let_def)

lemma decodeApiToken_iff: "decodeApiToken tx = Some raw \<longleftrightarrow> length raw = 32 \<and> tx = Some (encodeBase64Url raw)"
proof
  assume d: "decodeApiToken tx = Some raw"
  then obtain t where t: "tx = Some t" "length t = 43" "decodeTokenLoop t 0 0 [] = Some (0, raw)" "length raw = 32"
    by (auto simp: decodeApiToken_def split: option.splits if_splits)
  from decodeTokenLoop_exact [of t 10 "[]" raw] t show "length raw = 32 \<and> tx = Some (encodeBase64Url raw)" by auto
next
  assume r: "length raw = 32 \<and> tx = Some (encodeBase64Url raw)"
  then have "decodeTokenLoop (encodeBase64Url raw) 0 0 [] = Some (0, raw)" using decodeTokenLoop_encode [of "[]" raw] by simp
  then show "decodeApiToken tx = Some raw"
    using r by (simp add: decodeApiToken_def length_encodeBase64Url)
qed

subsection \<open>Comparison of secrets\<close>

lemma or_zero_iff: "x OR y = 0 \<longleftrightarrow> x = 0 \<and> y = (0 :: u8)"
  by (auto simp: bit_eq_iff bit_simps)

lemma xor_zero_iff: "x XOR y = 0 \<longleftrightarrow> x = (y :: u8)"
  by (auto simp: bit_eq_iff bit_simps)

lemma foldl_or_zero:
  fixes d :: u8
  shows "foldl (\<lambda>difference i. difference OR f i) d xs = 0 \<longleftrightarrow> d = 0 \<and> (\<forall>i \<in> set xs. f i = 0)"
  by (induction xs arbitrary: d) (auto simp: or_zero_iff)

lemma constantTimeEqual_nth: "constantTimeEqual l r n \<longleftrightarrow> (\<forall>i < n. l ! i = r ! i)"
  by (auto simp: constantTimeEqual_def foldl_or_zero xor_zero_iff)

lemma constantTimeEqual_iff: "length l = n \<Longrightarrow> length r = n \<Longrightarrow> constantTimeEqual l r n \<longleftrightarrow> l = r"
  by (auto simp: constantTimeEqual_nth intro: nth_equalityI)

lemma constantTimeEqual_refl [simp]: "constantTimeEqual l l n"
  by (simp add: constantTimeEqual_nth)

subsection \<open>The table of sessions\<close>

definition sessionsOk :: "auth_service \<Rightarrow> bool" where
  "sessionsOk sv \<longleftrightarrow> length (as_sessions sv) = kMaximumSessions \<and>
     (\<forall>s \<in> set (as_sessions sv). length (ws_token s) = kSessionTokenCharacters \<and>
        length (ws_csrfToken s) = kCsrfTokenCharacters \<and> length (ws_username s) = kUsernameSize + 1)"

text \<open>The session a token belongs to.\<close>

definition sessionOf :: "auth_service \<Rightarrow> bytes \<Rightarrow> WebSession option" where
  "sessionOf sv token = find (sessionMatches token) (as_sessions sv)"

definition noSessionOf :: "u32 \<Rightarrow> auth_service \<Rightarrow> bool" where
  "noSessionOf userId sv \<longleftrightarrow> (\<forall>s \<in> set (as_sessions sv). ws_active s \<longrightarrow> ws_userId s \<noteq> userId)"

lemma find_firstIndex: "find P xs = map_option ((!) xs) (firstIndex P xs)"
  by (induction xs) (auto simp: option.map_comp comp_def)

lemma clearSession_simps [simp]: "\<not> ws_active clearSession" "length (ws_token clearSession) = kSessionTokenCharacters"
  "length (ws_csrfToken clearSession) = kCsrfTokenCharacters" "length (ws_username clearSession) = kUsernameSize + 1"
  by (simp_all add: clearSession_def)

lemma sessionMatches_clear [simp]: "\<not> sessionMatches token clearSession"
  by (simp add: sessionMatches_def)

lemma length_expireSessions [simp]: "length (expireSessions now sessions) = length sessions"
  by (simp add: expireSessions_def)

lemma set_expireSessions:
  "s \<in> set (expireSessions now sessions) \<Longrightarrow>
   s = clearSession \<or> (s \<in> set sessions \<and> (ws_active s \<longrightarrow> \<not> sessionElapsed now (ws_lastSeenAt s) kSessionLifetimeMs))"
  by (auto simp: expireSessions_def)

lemma oldestSession_less: "sessions \<noteq> [] \<Longrightarrow> oldestSession sessions < length sessions"
proof -
  assume ne: "sessions \<noteq> []"
  have "foldl (\<lambda>oldest i. if sint (ws_lastSeenAt (sessions ! i) - ws_lastSeenAt (sessions ! oldest)) < 0
      then i else oldest) k xs < length sessions"
    if "k < length sessions" "set xs \<subseteq> {..<length sessions}" for k xs
    using that by (induction xs arbitrary: k) auto
  from this [of 0 "[0..<length sessions]"] ne show ?thesis
    unfolding oldestSession_def by (simp add: atLeast0LessThan)
qed

lemma allocateSession_props:
  assumes "allocateSession now sessions = (sessions', i)" "sessions \<noteq> []"
  shows "i < length sessions" "length sessions' = length sessions"
    "set sessions' \<subseteq> insert clearSession (set sessions)" "\<not> ws_active (sessions' ! i)"
proof -
  have e: "set (expireSessions now sessions) \<subseteq> insert clearSession (set sessions)"
    using set_expireSessions by fast
  show "i < length sessions" "length sessions' = length sessions"
    "set sessions' \<subseteq> insert clearSession (set sessions)" "\<not> ws_active (sessions' ! i)"
    using assms e oldestSession_less [of "expireSessions now sessions"]
    by (auto simp: allocateSession_def Let_def split: option.splits dest!: firstIndex_SomeD
        dest: set_update_subset_insert [THEN subsetD] simp flip: length_greater_0_conv)
qed

lemma length_randomHex: "length (randomHex random n) = 2 * min n (length random)"
proof -
  have "length (concat (map (\<lambda>b. [f b, g b]) xs)) = 2 * length xs" for f g :: "u8 \<Rightarrow> u8" and xs
    by (induction xs) auto
  then show ?thesis by (simp add: randomHex_def)
qed

text \<open>What a new session is, when there is one.\<close>

definition freshSession :: "u32 \<Rightarrow> bytes \<Rightarrow> bytes \<Rightarrow> u32 \<Rightarrow> UserRole \<Rightarrow> bytes \<Rightarrow> WebSession" where
  "freshSession now tr cr userId role name = \<lparr>ws_active = True, ws_userId = userId, ws_role = role,
     ws_username = name, ws_token = randomHex tr 32, ws_csrfToken = randomHex cr 16,
     ws_createdAt = now, ws_lastSeenAt = now\<rparr>"

definition principalOf :: "WebSession \<Rightarrow> Principal" where
  "principalOf s = \<lparr>pr_userId = ws_userId s, pr_role = ws_role s, pr_username = ws_username s,
     pr_csrfToken = ws_csrfToken s\<rparr>"

lemma createSessionLocked_refused:
  "username = None \<or> n = 0 \<or> n > kUsernameSize \<Longrightarrow>
   createSessionLocked now tr cr userId role username n sessions = (sessions, Inl LS_InvalidCredentials)"
  by (auto simp: createSessionLocked_def split: option.splits)

lemma createSessionLocked_made:
  assumes "0 < n" "n \<le> kUsernameSize" "allocateSession now sessions = (table, i)"
    "s = freshSession now tr cr userId role (put (put (ws_username (table ! i)) 0 (take n name)) n [0])"
  shows "createSessionLocked now tr cr userId role (Some name) n sessions =
    (table[i := s], Inr \<lparr>lr_sessionToken = randomHex tr 32, lr_principal = principalOf s\<rparr>)"
  using assms(1,2) by (cases "table ! i") (simp add: createSessionLocked_def assms(3,4) Let_def freshSession_def principalOf_def)

text \<open>A session that was in no table before the operation is the new one.\<close>

lemma createSessionLocked_set:
  assumes "createSessionLocked now tr cr userId role username n sessions = (sessions', result)" "sessions \<noteq> []"
  shows "length sessions' = length sessions"
    "s \<in> set sessions' \<Longrightarrow> s \<in> set sessions \<or> s = clearSession \<or>
       (\<exists>name i. (length (ws_username i) = 33 \<longrightarrow> length name = 33) \<and> i \<in> insert clearSession (set sessions) \<and>
          s = freshSession now tr cr userId role name)"
proof -
  have "length sessions' = length sessions \<and> (s \<in> set sessions' \<longrightarrow> s \<in> set sessions \<or> s = clearSession \<or>
       (\<exists>name i. (length (ws_username i) = 33 \<longrightarrow> length name = 33) \<and> i \<in> insert clearSession (set sessions) \<and>
          s = freshSession now tr cr userId role name))"
  proof (cases "username = None \<or> n = 0 \<or> n > kUsernameSize")
    case True
    then show ?thesis using assms(1) by (simp add: createSessionLocked_refused)
  next
    case False
    then obtain name where name: "username = Some name" "0 < n" "n \<le> kUsernameSize" by auto
    obtain table i where a: "allocateSession now sessions = (table, i)" by fastforce
    note p = allocateSession_props [OF a assms(2)]
    let ?new = "freshSession now tr cr userId role (put (put (ws_username (table ! i)) 0 (take n name)) n [0])"
    have s': "sessions' = table[i := ?new]"
      using assms(1) createSessionLocked_made [OF name(2,3) a refl] unfolding name(1) by auto
    have i: "table ! i \<in> insert clearSession (set sessions)" by (rule subsetD [OF p(3) nth_mem]) (use p in simp)
    have n: "length (ws_username (table ! i)) = 33 \<longrightarrow>
        length (put (put (ws_username (table ! i)) 0 (take n name)) n [0]) = 33" using name(2,3) by simp
    have "s \<in> set sessions' \<Longrightarrow> s = ?new \<or> s \<in> insert clearSession (set sessions)"
      unfolding s' using p(3) set_update_subset_insert [of table i ?new] by blast
    moreover have "length sessions' = length sessions" using p(2) by (simp add: s')
    ultimately show ?thesis using i n by blast
  qed
  then show "length sessions' = length sessions"
    "s \<in> set sessions' \<Longrightarrow> s \<in> set sessions \<or> s = clearSession \<or>
       (\<exists>name i. (length (ws_username i) = 33 \<longrightarrow> length name = 33) \<and> i \<in> insert clearSession (set sessions) \<and>
          s = freshSession now tr cr userId role name)" by blast+
qed

lemma freshSession_simps [simp]:
  "ws_active (freshSession now tr cr u role name)" "ws_userId (freshSession now tr cr u role name) = u"
  "ws_role (freshSession now tr cr u role name) = role" "ws_username (freshSession now tr cr u role name) = name"
  "ws_token (freshSession now tr cr u role name) = randomHex tr 32"
  "ws_csrfToken (freshSession now tr cr u role name) = randomHex cr 16"
  "ws_lastSeenAt (freshSession now tr cr u role name) = now"
  by (simp_all add: freshSession_def)

lemma authorize_sessions:
  assumes "authorize now token csrf req sv = (sv', p)"
  shows "as_mutex sv' = as_mutex sv" "length (as_sessions sv') = length (as_sessions sv)"
    "s \<in> set (as_sessions sv') \<Longrightarrow> s = clearSession \<or> (\<exists>o' \<in> set (as_sessions sv). s = o' \<or> s = o'\<lparr>ws_lastSeenAt := now\<rparr>)"
proof -
  have e: "i < length ss \<Longrightarrow> s \<in> set ((expireSessions now ss)[i := (expireSessions now ss ! i)\<lparr>ws_lastSeenAt := now\<rparr>]) \<Longrightarrow>
      ws_active (expireSessions now ss ! i) \<Longrightarrow>
      s = clearSession \<or> (\<exists>o' \<in> set ss. s = o' \<or> s = o'\<lparr>ws_lastSeenAt := now\<rparr>)" for ss i
    using set_expireSessions [of s now ss] set_expireSessions [of "expireSessions now ss ! i" now ss]
      set_update_subset_insert [of "expireSessions now ss" i "(expireSessions now ss ! i)\<lparr>ws_lastSeenAt := now\<rparr>"]
      nth_mem [of i "expireSessions now ss"] by auto
  show "as_mutex sv' = as_mutex sv" "length (as_sessions sv') = length (as_sessions sv)"
    "s \<in> set (as_sessions sv') \<Longrightarrow> s = clearSession \<or> (\<exists>o' \<in> set (as_sessions sv). s = o' \<or> s = o'\<lparr>ws_lastSeenAt := now\<rparr>)"
    using assms e [of _ "as_sessions sv"] set_expireSessions [of s now "as_sessions sv"]
    by (auto simp: authorize_def Let_def sessionMatches_def split: option.splits if_splits dest!: firstIndex_SomeD)
qed

lemma logout_sessions:
  assumes "logout token sv = (sv', b)"
  shows "as_mutex sv' = as_mutex sv" "length (as_sessions sv') = length (as_sessions sv)"
    "set (as_sessions sv') \<subseteq> insert clearSession (set (as_sessions sv))"
  using assms set_update_subset_insert
  by (auto simp: logout_def split: option.splits if_splits dest!: set_update_subset_insert [THEN subsetD])

lemma invalidate_sessions:
  "as_mutex (invalidateUserSessions u sv) = as_mutex sv"
  "length (as_sessions (invalidateUserSessions u sv)) = length (as_sessions sv)"
  "set (as_sessions (invalidateUserSessions u sv)) \<subseteq> insert clearSession (set (as_sessions sv))"
  by (auto simp: invalidateUserSessions_def)

lemma authLoop_sessions:
  "as_mutex (authLoop free now sv) = as_mutex sv"
  "length (as_sessions (authLoop free now sv)) = length (as_sessions sv)"
  "set (as_sessions (authLoop free now sv)) \<subseteq> insert clearSession (set (as_sessions sv))"
  using set_expireSessions by (auto simp: authLoop_def)

lemma createSession_cases:
  assumes "createSession now tr cr userId role username n sv = (sv', result)"
  shows "sv' = sv \<or> (\<exists>sessions. sv' = sv\<lparr>as_sessions := sessions\<rparr> \<and>
      createSessionLocked now tr cr userId role username n (as_sessions sv) = (sessions, result))"
  using assms by (auto simp: createSession_def split: if_splits prod.splits)

lemma login_cases:
  assumes "login ready free pbkdf2 data now tr cr username password sv = (sv', result)"
  shows "sv' = sv \<or> (\<exists>name u sessions. username = Some name \<and> matchedUser data name = Some u \<and>
      sv' = sv\<lparr>as_sessions := sessions\<rparr> \<and>
      createSessionLocked now tr cr (us_id u) (us_role u) (Some (us_username u)) (unat (us_usernameLength u))
        (as_sessions sv) = (sessions, result))"
  using assms by (auto simp: login_def passwordMatches_def Let_def split: if_splits prod.splits option.splits)

subsection \<open>Sequences of operations\<close>

datatype auth_event =
    LoggedIn bool bool AuthenticationData u32 bytes bytes "bytes option" "bytes option"
  | SessionMade u32 bytes bytes u32 UserRole "bytes option" nat
  | Authorized u32 "bytes option" "bytes option" bool
  | LoggedOut "bytes option"
  | Invalidated u32
  | Looped bool u32

fun authEvent :: "(bytes \<Rightarrow> bytes \<Rightarrow> u32 \<Rightarrow> bytes option) \<Rightarrow> auth_service \<Rightarrow> auth_event \<Rightarrow> auth_service" where
  "authEvent pbkdf2 sv (LoggedIn ready free data now tr cr username password) =
     fst (login ready free pbkdf2 data now tr cr username password sv)"
| "authEvent pbkdf2 sv (SessionMade now tr cr userId role username n) =
     fst (createSession now tr cr userId role username n sv)"
| "authEvent pbkdf2 sv (Authorized now token csrf req) = fst (authorize now token csrf req sv)"
| "authEvent pbkdf2 sv (LoggedOut token) = fst (logout token sv)"
| "authEvent pbkdf2 sv (Invalidated userId) = invalidateUserSessions userId sv"
| "authEvent pbkdf2 sv (Looped free now) = authLoop free now sv"

text \<open>The event may open a session of the user.\<close>

fun opensFor :: "u32 \<Rightarrow> auth_event \<Rightarrow> bool" where
  "opensFor u (LoggedIn ready free data now tr cr username password) \<longleftrightarrow>
     (\<exists>name \<in> set_option username. \<exists>user \<in> set_option (matchedUser data name). us_id user = u)"
| "opensFor u (SessionMade now tr cr userId role username n) \<longleftrightarrow> userId = u"
| "opensFor u _ \<longleftrightarrow> False"

fun enoughRandom :: "auth_event \<Rightarrow> bool" where
  "enoughRandom (LoggedIn ready free data now tr cr username password) \<longleftrightarrow> length tr = 32 \<and> length cr = 16"
| "enoughRandom (SessionMade now tr cr userId role username n) \<longleftrightarrow> length tr = 32 \<and> length cr = 16"
| "enoughRandom _ \<longleftrightarrow> True"

lemma noSessionOf_locked:
  assumes "createSessionLocked now tr cr userId role username n (as_sessions sv) = (sessions, result)"
    "noSessionOf u sv" "userId \<noteq> u" "as_sessions sv \<noteq> []"
  shows "noSessionOf u (sv\<lparr>as_sessions := sessions\<rparr>)"
proof -
  have "ws_userId s \<noteq> u" if "s \<in> set sessions" "ws_active s" for s
    using createSessionLocked_set(2) [OF assms(1,4) that(1)] assms(2,3) that(2) by (auto simp: noSessionOf_def)
  then show ?thesis by (simp add: noSessionOf_def)
qed

lemma noSessionOf_subset:
  "noSessionOf u sv \<Longrightarrow> set (as_sessions sv') \<subseteq> insert clearSession (set (as_sessions sv)) \<Longrightarrow> noSessionOf u sv'"
  by (auto simp: noSessionOf_def)

lemma noSessionOf_event:
  assumes "noSessionOf u sv" "sessionsOk sv" "\<not> opensFor u ev"
  shows "noSessionOf u (authEvent pbkdf2 sv ev)"
proof -
  have ne: "as_sessions sv \<noteq> []" using assms(2) by (auto simp: sessionsOk_def)
  show ?thesis
  proof (cases ev)
    case (LoggedIn ready free data now tr cr username password)
    obtain sv' result where l: "login ready free pbkdf2 data now tr cr username password sv = (sv', result)" by fastforce
    from login_cases [OF l] assms(1,3) noSessionOf_locked [OF _ assms(1) _ ne]
    show ?thesis by (auto simp: LoggedIn l)
  next
    case (SessionMade now tr cr userId role username n)
    obtain sv' result where l: "createSession now tr cr userId role username n sv = (sv', result)" by fastforce
    from createSession_cases [OF l] assms(1,3) noSessionOf_locked [OF _ assms(1) _ ne]
    show ?thesis by (auto simp: SessionMade l)
  next
    case (Authorized now token csrf req)
    obtain sv' p where a: "authorize now token csrf req sv = (sv', p)" by fastforce
    from authorize_sessions(3) [OF a] assms(1) show ?thesis by (fastforce simp: Authorized a noSessionOf_def)
  next
    case (LoggedOut token)
    obtain sv' b where a: "logout token sv = (sv', b)" by fastforce
    from logout_sessions(3) [OF a] assms(1) show ?thesis by (simp add: LoggedOut a noSessionOf_subset)
  next
    case (Invalidated userId)
    show ?thesis using noSessionOf_subset [OF assms(1) invalidate_sessions(3)] by (simp add: Invalidated)
  next
    case (Looped free now)
    show ?thesis using noSessionOf_subset [OF assms(1) authLoop_sessions(3)] by (simp add: Looped)
  qed
qed

lemma sessionsOk_subset:
  "sessionsOk sv \<Longrightarrow> length (as_sessions sv') = length (as_sessions sv) \<Longrightarrow>
   set (as_sessions sv') \<subseteq> insert clearSession (set (as_sessions sv)) \<Longrightarrow> sessionsOk sv'"
  by (auto simp: sessionsOk_def)

lemma sessionsOk_locked:
  assumes "createSessionLocked now tr cr userId role username n (as_sessions sv) = (sessions, result)"
    "sessionsOk sv" "length tr = 32" "length cr = 16"
  shows "sessionsOk (sv\<lparr>as_sessions := sessions\<rparr>)"
proof -
  have ne: "as_sessions sv \<noteq> []" using assms(2) by (auto simp: sessionsOk_def)
  from createSessionLocked_set [OF assms(1) ne] assms(2-) show ?thesis
    by (fastforce simp: sessionsOk_def length_randomHex)
qed

lemma sessionsOk_event:
  assumes "sessionsOk sv" "enoughRandom ev"
  shows "sessionsOk (authEvent pbkdf2 sv ev)"
proof (cases ev)
  case (LoggedIn ready free data now tr cr username password)
  obtain sv' result where l: "login ready free pbkdf2 data now tr cr username password sv = (sv', result)" by fastforce
  from login_cases [OF l] assms sessionsOk_locked [OF _ assms(1)] show ?thesis by (auto simp: LoggedIn l)
next
  case (SessionMade now tr cr userId role username n)
  obtain sv' result where l: "createSession now tr cr userId role username n sv = (sv', result)" by fastforce
  from createSession_cases [OF l] assms sessionsOk_locked [OF _ assms(1)] show ?thesis by (auto simp: SessionMade l)
next
  case (Authorized now token csrf req)
  obtain sv' p where a: "authorize now token csrf req sv = (sv', p)" by fastforce
  from authorize_sessions(2,3) [OF a] assms(1) show ?thesis by (fastforce simp: Authorized a sessionsOk_def)
next
  case (LoggedOut token)
  obtain sv' b where a: "logout token sv = (sv', b)" by fastforce
  from logout_sessions(2,3) [OF a] assms(1) show ?thesis by (simp add: LoggedOut a sessionsOk_subset)
next
  case (Invalidated userId)
  show ?thesis using sessionsOk_subset [OF assms(1) invalidate_sessions(2,3)] by (simp add: Invalidated)
next
  case (Looped free now)
  show ?thesis using sessionsOk_subset [OF assms(1) authLoop_sessions(2,3)] by (simp add: Looped)
qed

lemma noSessionOf_events:
  assumes "noSessionOf u sv" "sessionsOk sv" "list_all (\<lambda>ev. \<not> opensFor u ev \<and> enoughRandom ev) evs"
  shows "noSessionOf u (foldl (authEvent pbkdf2) sv evs)"
  using assms by (induction evs arbitrary: sv) (auto simp: noSessionOf_event sessionsOk_event)

lemma authorize_principal:
  assumes "authorize now token csrf req sv = (sv', Some p)"
  obtains s t where "token = Some t" "s \<in> set (as_sessions sv)" "ws_active s" "p = principalOf s"
    "\<not> sessionElapsed now (ws_lastSeenAt s) kSessionLifetimeMs" "constantTimeEqual (ws_token s) t kSessionTokenCharacters"
    "length t = kSessionTokenCharacters"
    "req \<longrightarrow> (\<exists>c. csrf = Some c \<and> length c = kCsrfTokenCharacters \<and> constantTimeEqual (ws_csrfToken s) c kCsrfTokenCharacters)"
proof -
  obtain t i where t: "token = Some t" "length t = kSessionTokenCharacters"
      "firstIndex (sessionMatches t) (expireSessions now (as_sessions sv)) = Some i"
      "p = principalOf (expireSessions now (as_sessions sv) ! i)"
      "req \<longrightarrow> (\<exists>c. csrf = Some c \<and> length c = kCsrfTokenCharacters \<and>
         constantTimeEqual (ws_csrfToken (expireSessions now (as_sessions sv) ! i)) c kCsrfTokenCharacters)"
    using assms by (auto simp: authorize_def Let_def principalOf_def split: option.splits if_splits)
  let ?s = "expireSessions now (as_sessions sv) ! i"
  from firstIndex_SomeD [OF t(3)] have s: "?s \<in> set (expireSessions now (as_sessions sv))" "sessionMatches t ?s" by auto
  from set_expireSessions [OF s(1)] s(2)
  have "?s \<in> set (as_sessions sv)" "ws_active ?s" "\<not> sessionElapsed now (ws_lastSeenAt ?s) kSessionLifetimeMs"
    by (auto simp: sessionMatches_def)
  then show thesis using that t s(2) by (simp add: sessionMatches_def)
qed

lemma find_Some_set: "find P xs = Some x \<Longrightarrow> x \<in> set xs \<and> P x"
  by (induction xs) (auto split: if_splits)

lemma passwordMatches_iff:
  "passwordMatches pbkdf2 matched password \<longleftrightarrow>
     (\<exists>u h. matched = Some u \<and> pbkdf2 password (us_salt u) (us_pbkdf2Iterations u) = Some h \<and>
        constantTimeEqual h (us_passwordHash u) kPasswordHashSize)"
  by (auto simp: passwordMatches_def split: option.splits)

lemma matchedUser_SomeD:
  "matchedUser data name = Some u \<Longrightarrow>
   u \<in> set (take (unat (au_userCount data)) (au_users data)) \<and> us_enabled u \<and>
   unat (us_usernameLength u) = length name \<and> take (length name) (us_username u) = name"
  unfolding matchedUser_def by (drule find_Some_set) simp

text \<open>A login that is accepted.\<close>

lemma login_accepted:
  assumes "login ready free pbkdf2 data now tr cr username password sv = (sv', Inr r)"
    "length (as_sessions sv) = kMaximumSessions"
  obtains name secret u h table i where "username = Some name" "password = Some secret"
    "matchedUser data name = Some u" "pbkdf2 secret (us_salt u) (us_pbkdf2Iterations u) = Some h"
    "constantTimeEqual h (us_passwordHash u) kPasswordHashSize"
    "0 < length name" "length name \<le> kUsernameSize" "as_mutex sv"
    "allocateSession now (as_sessions sv) = (table, i)"
    "sv' = sv\<lparr>as_sessions := table[i := freshSession now tr cr (us_id u) (us_role u)
       (put (put (ws_username (table ! i)) 0 (take (length name) (us_username u))) (length name) [0])]\<rparr>"
    "r = \<lparr>lr_sessionToken = randomHex tr 32, lr_principal = principalOf (freshSession now tr cr (us_id u) (us_role u)
       (put (put (ws_username (table ! i)) 0 (take (length name) (us_username u))) (length name) [0]))\<rparr>"
proof -
  obtain name secret u where l: "username = Some name" "password = Some secret" "length name \<noteq> 0"
      "length name \<le> kUsernameSize" "as_mutex sv" "matchedUser data name = Some u"
      "passwordMatches pbkdf2 (matchedUser data name) secret" and
      c: "(let (sessions, result) = createSessionLocked now tr cr (us_id u) (us_role u)
              (Some (us_username u)) (unat (us_usernameLength u)) (as_sessions sv)
        in (sv\<lparr>as_sessions := sessions\<rparr>, result)) = (sv', Inr r)"
    using assms(1) by (auto simp: login_def Let_def passwordMatches_iff split: option.splits if_splits)
  note u = matchedUser_SomeD [OF l(6)]
  obtain table i where a: "allocateSession now (as_sessions sv) = (table, i)" by fastforce
  have n: "0 < length name" using l(3) by simp
  from l(7) obtain h where h: "pbkdf2 secret (us_salt u) (us_pbkdf2Iterations u) = Some h"
      "constantTimeEqual h (us_passwordHash u) kPasswordHashSize" by (auto simp: passwordMatches_iff l(6))
  from c u createSessionLocked_made [OF n l(4) a refl]
  have "sv' = sv\<lparr>as_sessions := table[i := freshSession now tr cr (us_id u) (us_role u)
       (put (put (ws_username (table ! i)) 0 (take (length name) (us_username u))) (length name) [0])]\<rparr>"
    "r = \<lparr>lr_sessionToken = randomHex tr 32, lr_principal = principalOf (freshSession now tr cr (us_id u) (us_role u)
       (put (put (ws_username (table ! i)) 0 (take (length name) (us_username u))) (length name) [0]))\<rparr>"
    by auto
  with that l h n a show thesis by blast
qed

text \<open>The token of a session that nobody else has finds it.\<close>

lemma authorize_session:
  assumes "sessionsOk sv" "as_mutex sv" "i < length (as_sessions sv)" "s = as_sessions sv ! i" "ws_active s"
    "\<forall>j < length (as_sessions sv). j \<noteq> i \<and> ws_active (as_sessions sv ! j) \<longrightarrow> ws_token (as_sessions sv ! j) \<noteq> ws_token s"
    "\<not> sessionElapsed now (ws_lastSeenAt s) kSessionLifetimeMs"
  shows "snd (authorize now (Some (ws_token s)) (Some (ws_csrfToken s)) True sv) = Some (principalOf s)"
proof -
  have len: "length (ws_token s) = kSessionTokenCharacters" "length (ws_csrfToken s) = kCsrfTokenCharacters"
    using assms(1,3,4) by (auto simp: sessionsOk_def)
  have i: "expireSessions now (as_sessions sv) ! i = s" using assms by (simp add: expireSessions_def)
  have lenj: "length (ws_token (as_sessions sv ! j)) = kSessionTokenCharacters" if "j < length (as_sessions sv)" for j
    using assms(1) that by (auto simp: sessionsOk_def)
  have "firstIndex (sessionMatches (ws_token s)) (expireSessions now (as_sessions sv)) = Some i"
  proof (rule firstIndex_SomeI)
    show "i < length (expireSessions now (as_sessions sv))" using assms(3) by simp
    show "sessionMatches (ws_token s) (expireSessions now (as_sessions sv) ! i)"
      unfolding i using assms(5) by (simp add: sessionMatches_def)
    fix j assume j: "j < i"
    then have jl: "j < length (as_sessions sv)" using assms(3) by simp
    show "\<not> sessionMatches (ws_token s) (expireSessions now (as_sessions sv) ! j)"
      using assms(6) j jl lenj [OF jl] len(1)
      by (auto simp: expireSessions_def sessionMatches_def constantTimeEqual_iff)
  qed
  then show ?thesis using assms(2) len by (simp add: authorize_def Let_def i principalOf_def)
qed

lemma authorizeBearer_fold:
  "foldl (\<lambda>authorized t. authorized \<or> P t) b xs \<longleftrightarrow> b \<or> (\<exists>t \<in> set xs. P t)"
  by (induction xs arbitrary: b) auto

end
