(* ===== verification/Configuration_Store.thy ===== *)
theory Configuration_Store
  imports Auth_Storage Registry_Service
begin

text \<open>
  gateway: ConfigurationStore.cpp, the settings, the accounts and the installation secrets in memory and
  in their three NVS namespaces.  The three \<open>Preferences\<close> objects share the parameter \<open>ops\<close> of
  \<open>NvsSlotStorage\<close>; each namespace has its own flash.  Random bytes, and whether the recovery guard was
  taken and recovery is idle (\<open>guarded\<close>), are arguments.  Serial output is left out.
\<close>

datatype SaveStatus = SS_Ok | SS_NoChange | SS_Invalid | SS_StorageError | SS_NotInitialized | SS_LockedByActiveNodes

record 's configuration =
  cf_mutex :: bool
  cf_initialized :: bool
  cf_settingsFlash :: 's
  cf_authFlash :: 's
  cf_secretFlash :: 's
  cf_settingsStore :: "GatewaySettings dual_store"
  cf_authStore :: "AuthenticationData dual_store"
  cf_secretStore :: "InstallationSecrets dual_store"
  cf_settings :: GatewaySettings
  cf_authentication :: AuthenticationData
  cf_secrets :: InstallationSecrets

subsection \<open>Start-up\<close>

text \<open>The loop draws numbers until one has a low byte that is not zero; None is a loop that never ends.\<close>

partial_function (option) drawNetworkId :: "(nat \<Rightarrow> u32) \<Rightarrow> nat \<Rightarrow> u8 option" where
  "drawNetworkId random k =
     (if ucast (random k) = (0 :: u8) then drawNetworkId random (Suc k) else Some (ucast (random k)))"

definition bootstrapSecrets ::
  "'s slot_ops \<Rightarrow> bytes \<Rightarrow> (nat \<Rightarrow> u32) \<Rightarrow> 's configuration \<Rightarrow> ('s configuration \<times> bool) option" where
  "bootstrapSecrets ops deviceRandom random cf =
     (case drawNetworkId random 0 of
        None \<Rightarrow> None
      | Some networkId \<Rightarrow>
          let secrets = defaultSecrets\<lparr>is_deviceSecretPresent := True, is_deviceSecret := deviceRandom,
                is_operationalNetworkId := networkId\<rparr>;
              (store, flash, saved) = storeSave ops secretsCodec (cf_secretStore cf) (cf_secretFlash cf) secrets
          in Some (cf\<lparr>cf_secrets := secrets, cf_secretStore := store, cf_secretFlash := flash\<rparr>, saved))"

definition configBegin ::
  "'s slot_ops \<Rightarrow> bool \<Rightarrow> bool \<Rightarrow> bytes \<Rightarrow> (nat \<Rightarrow> u32) \<Rightarrow> 's configuration \<Rightarrow> ('s configuration \<times> bool) option" where
  "configBegin ops mutexMade nvsReady deviceRandom random cf =
     (let cf = cf\<lparr>cf_mutex := mutexMade\<rparr> in
      if \<not> mutexMade \<or> \<not> nvsReady then Some (cf, False)
      else
        let (settingsStore, settings, settingsSource) = storeLoad ops settingsCodec (cf_settingsFlash cf);
            (authStore, authentication, authSource) = storeLoad ops authenticationCodec (cf_authFlash cf);
            (secretStore, secrets, secretSource) = storeLoad ops secretsCodec (cf_secretFlash cf);
            cf = cf\<lparr>cf_settingsStore := settingsStore, cf_settings := settings, cf_authStore := authStore,
                   cf_authentication := authentication, cf_secretStore := secretStore, cf_secrets := secrets\<rparr>
        in if settingsSource = Corrupt \<or> authSource = Corrupt \<or> secretSource = Corrupt then Some (cf, False)
           else if secretSource = Empty
           then (case bootstrapSecrets ops deviceRandom random cf of
                   None \<Rightarrow> None
                 | Some (cf, True) \<Rightarrow> Some (cf\<lparr>cf_initialized := True\<rparr>, True)
                 | Some (cf, False) \<Rightarrow> Some (cf, False))
           else Some (cf\<lparr>cf_initialized := True\<rparr>, True))"

subsection \<open>Readers\<close>

definition configReady :: "'s configuration \<Rightarrow> bool" where "configReady cf = cf_initialized cf"

definition configSettings :: "'s configuration \<Rightarrow> GatewaySettings" where
  "configSettings cf = (if \<not> cf_initialized cf then defaultSettings else cf_settings cf)"

definition configAuthentication :: "'s configuration \<Rightarrow> AuthenticationData" where
  "configAuthentication cf = (if \<not> cf_initialized cf then defaultAuthentication else cf_authentication cf)"

definition configSecrets :: "'s configuration \<Rightarrow> InstallationSecrets" where
  "configSecrets cf = (if \<not> cf_initialized cf then defaultSecrets else cf_secrets cf)"

definition settingsGeneration :: "'s configuration \<Rightarrow> u32" where
  "settingsGeneration cf = (if \<not> cf_initialized cf then 0 else ds_generation (cf_settingsStore cf))"

definition authenticationGeneration :: "'s configuration \<Rightarrow> u32" where
  "authenticationGeneration cf = (if \<not> cf_initialized cf then 0 else ds_generation (cf_authStore cf))"

definition secretsGeneration :: "'s configuration \<Rightarrow> u32" where
  "secretsGeneration cf = (if \<not> cf_initialized cf then 0 else ds_generation (cf_secretStore cf))"

subsection \<open>Saves\<close>

definition saveLocked ::
  "'s slot_ops \<Rightarrow> 'm slot_codec \<Rightarrow> 'm dual_store \<Rightarrow> 's \<Rightarrow> 'm \<Rightarrow> 'm \<Rightarrow> 'm dual_store \<times> 's \<times> 'm \<times> SaveStatus" where
  "saveLocked ops C store flash current v =
     (if sc_Equal C current v then (store, flash, current, SS_NoChange)
      else
        let (store, flash, saved) = storeSave ops C store flash v
        in if \<not> saved then (store, flash, current, SS_StorageError) else (store, flash, v, SS_Ok))"

definition saveSettings ::
  "'s slot_ops \<Rightarrow> bool \<Rightarrow> GatewaySettings \<Rightarrow> 's configuration \<Rightarrow> 's configuration \<times> SaveStatus" where
  "saveSettings ops guarded v cf =
     (if \<not> guarded \<or> \<not> cf_initialized cf then (cf, SS_NotInitialized)
      else
        case encodeSettings v 0 (Some (zeros kSettingsSnapshotSize)) of
          Inl _ \<Rightarrow> (cf, SS_Invalid)
        | Inr _ \<Rightarrow>
            let (store, flash, current, result) =
                  saveLocked ops settingsCodec (cf_settingsStore cf) (cf_settingsFlash cf) (cf_settings cf) v
            in (cf\<lparr>cf_settingsStore := store, cf_settingsFlash := flash, cf_settings := current\<rparr>, result))"

definition saveAuthentication ::
  "'s slot_ops \<Rightarrow> bool \<Rightarrow> AuthenticationData \<Rightarrow> 's configuration \<Rightarrow> 's configuration \<times> SaveStatus" where
  "saveAuthentication ops guarded v cf =
     (if \<not> guarded \<or> \<not> cf_initialized cf then (cf, SS_NotInitialized)
      else
        case encodeAuthentication v 0 (Some (zeros kAuthSnapshotSize)) of
          Inl _ \<Rightarrow> (cf, SS_Invalid)
        | Inr _ \<Rightarrow>
            let (store, flash, current, result) =
                  saveLocked ops authenticationCodec (cf_authStore cf) (cf_authFlash cf) (cf_authentication cf) v
            in (cf\<lparr>cf_authStore := store, cf_authFlash := flash, cf_authentication := current\<rparr>, result))"

definition radioProfileChanged :: "InstallationSecrets \<Rightarrow> InstallationSecrets \<Rightarrow> bool" where
  "radioProfileChanged v current \<longleftrightarrow>
     is_installationKeyPresent v \<noteq> is_installationKeyPresent current \<or>
     is_operationalNetworkId v \<noteq> is_operationalNetworkId current \<or>
     is_installationKey v \<noteq> is_installationKey current"

definition saveSecrets ::
  "'s slot_ops \<Rightarrow> bool \<Rightarrow> 'r registry_service \<Rightarrow> InstallationSecrets \<Rightarrow> 's configuration \<Rightarrow>
   's configuration \<times> SaveStatus" where
  "saveSecrets ops guarded registry v cf =
     (if \<not> guarded \<or> \<not> cf_initialized cf then (cf, SS_NotInitialized)
      else
        case encodeSecrets v 0 (Some (zeros kSecretsSnapshotSize)) of
          Inl _ \<Rightarrow> (cf, SS_Invalid)
        | Inr _ \<Rightarrow>
            if radioProfileChanged v (cf_secrets cf) \<and> hasActiveNodes registry
            then (cf, SS_LockedByActiveNodes)
            else
              let (store, flash, current, result) =
                    saveLocked ops secretsCodec (cf_secretStore cf) (cf_secretFlash cf) (cf_secrets cf) v
              in (cf\<lparr>cf_secretStore := store, cf_secretFlash := flash, cf_secrets := current\<rparr>, result))"

subsection \<open>Every configuration that can arise\<close>

inductive config_run :: "'s slot_ops \<Rightarrow> 's configuration \<Rightarrow> bool" for ops :: "'s slot_ops" where
  started: "configBegin ops mutexMade nvsReady deviceRandom random cf = Some (cf', True) \<Longrightarrow> config_run ops cf'"
| settings: "config_run ops cf \<Longrightarrow> saveSettings ops guarded v cf = (cf', result) \<Longrightarrow> config_run ops cf'"
| accounts: "config_run ops cf \<Longrightarrow> saveAuthentication ops guarded v cf = (cf', result) \<Longrightarrow> config_run ops cf'"
| secrets: "config_run ops cf \<Longrightarrow> saveSecrets ops guarded (registry :: 's registry_service) v cf = (cf', result) \<Longrightarrow> config_run ops cf'"

text \<open>A store and the value in memory agree, and the value passes the validator.\<close>

definition heldBy :: "'s slot_ops \<Rightarrow> 'm slot_codec \<Rightarrow> ('m \<Rightarrow> bool) \<Rightarrow> 'm dual_store \<Rightarrow> 's \<Rightarrow> 'm \<Rightarrow> bool" where
  "heldBy ops C valid store flash current \<longleftrightarrow>
     storeSound ops C store flash \<and> ds_current store = current \<and> valid current"

definition configOk :: "'s slot_ops \<Rightarrow> 's configuration \<Rightarrow> bool" where
  "configOk ops cf \<longleftrightarrow> cf_initialized cf \<and>
     heldBy ops settingsCodec (\<lambda>v. validateSettings v = None) (cf_settingsStore cf) (cf_settingsFlash cf) (cf_settings cf) \<and>
     heldBy ops authenticationCodec (\<lambda>v. validateAuthentication v = None) (cf_authStore cf) (cf_authFlash cf)
       (cf_authentication cf) \<and>
     heldBy ops secretsCodec (\<lambda>v. validateSecrets v = None) (cf_secretStore cf) (cf_secretFlash cf) (cf_secrets cf)"

locale validated_codec = snapshot_codec +
  fixes valid :: "'a \<Rightarrow> bool"
  assumes decode_valid: "sc_Decode C (Some d) = Inr (v, g) \<Longrightarrow> valid v"
    and encode_valid: "sc_Encode C v g (Some out) = Inr d \<Longrightarrow> valid v"
    and equal_iff: "sc_Equal C v w \<longleftrightarrow> v = w"
begin

lemma load_held:
  assumes "slot_storage ops" "storeLoad ops C s = (st, v, status)"
  shows "storeSound ops C st s" "ds_current st = v" "status \<noteq> Loaded \<Longrightarrow> v = sc_DefaultValue C"
    "status = Loaded \<Longrightarrow> valid v"
proof -
  have d: "dual_slot_store ops C shaped" using assms(1) snapshot_codec_axioms by (simp add: dual_slot_store_def)
  show "storeSound ops C st s" by (rule dual_slot_store.load_sound [OF d assms(2)])
  show "ds_current st = v" "status \<noteq> Loaded \<Longrightarrow> v = sc_DefaultValue C"
    using assms(2) by (auto simp: storeLoad_def split: option.splits if_splits)
  assume "status = Loaded"
  then obtain g a where "newestSlot (slotValue ops (sc_SnapshotSize C) (sc_Decode C) s) = Some (v, g, a)"
    using assms(2) by (auto simp: storeLoad_def split: option.splits if_splits)
  from anchored_newest [OF this] show "valid v"
    by (auto simp: anchored_def slotValue_def intro: decode_valid split: option.splits sum.splits)
qed

lemma storeSave_encodes:
  "storeSave ops C st s v = (st', s', True) \<Longrightarrow> \<not> (ds_loaded st \<and> sc_Equal C (ds_current st) v) \<Longrightarrow> valid v"
  by (auto simp: storeSave_def Let_def intro: encode_valid split: sum.splits)

lemma save_held:
  assumes "slot_storage ops" "heldBy ops C valid st s current"
    "saveLocked ops C st s current v = (st', s', current', result)"
  shows "heldBy ops C valid st' s' current'"
    "current' = (if result = SS_Ok then v else current)"
    "result = SS_Ok \<Longrightarrow> \<exists>st''. storeLoad ops C s' = (st'', v, Loaded)"
    "result = SS_NoChange \<longleftrightarrow> v = current" "result \<noteq> SS_Invalid"
proof -
  have d: "dual_slot_store ops C shaped" using assms(1) snapshot_codec_axioms by (simp add: dual_slot_store_def)
  have sound: "storeSound ops C st s" and cur: "ds_current st = current" and ok: "valid current"
    using assms(2) by (simp_all add: heldBy_def)
  obtain st1 s1 saved where w: "storeSave ops C st s v = (st1, s1, saved)" by (metis prod_cases3)
  have all: "heldBy ops C valid st' s' current' \<and> current' = (if result = SS_Ok then v else current) \<and>
      (result = SS_Ok \<longrightarrow> (\<exists>st''. storeLoad ops C s' = (st'', v, Loaded))) \<and>
      (result = SS_NoChange \<longleftrightarrow> v = current) \<and> result \<noteq> SS_Invalid"
  proof (cases "current = v")
    case True
    then show ?thesis using assms(2,3) by (auto simp: saveLocked_def equal_iff)
  next
    case False
    then have writes: "\<not> (ds_loaded st \<and> sc_Equal C (ds_current st) v)" using cur by (simp add: equal_iff)
    show ?thesis
    proof (cases saved)
      case True
      with w have w': "storeSave ops C st s v = (st1, s1, True)" by simp
      from dual_slot_store.save_then_load [OF d sound w' writes] dual_slot_store.save_written [OF d w' writes]
        storeSave_encodes [OF w' writes]
      show ?thesis using assms(3) False by (auto simp: saveLocked_def equal_iff w' heldBy_def)
    next
      case False
      with w have w': "storeSave ops C st s v = (st1, s1, False)" by simp
      from dual_slot_store.save_failed_state [OF d w'] dual_slot_store.save_failed_sound [OF d sound w']
      show ?thesis using assms(3) \<open>current \<noteq> v\<close> cur ok by (auto simp: saveLocked_def equal_iff w' heldBy_def)
    qed
  qed
  show "heldBy ops C valid st' s' current'" using all by (elim conjE)
  from all show "current' = (if result = SS_Ok then v else current)"
    "result = SS_Ok \<Longrightarrow> \<exists>st''. storeLoad ops C s' = (st'', v, Loaded)"
    "result = SS_NoChange \<longleftrightarrow> v = current" "result \<noteq> SS_Invalid" by simp_all
qed

end

interpretation settings_values: validated_codec settingsCodec settingsShaped "\<lambda>v. validateSettings v = None"
  by unfold_locales (auto simp: settingsCodec_def encodeSettings_def decodeSettings_valid split: option.splits if_splits)

interpretation account_values: validated_codec authenticationCodec authShaped "\<lambda>v. validateAuthentication v = None"
  by unfold_locales (auto simp: authenticationCodec_def encodeAuthentication_def decodeAuthentication_valid
      split: option.splits if_splits)

interpretation secret_values: validated_codec secretsCodec secretsShaped "\<lambda>v. validateSecrets v = None"
  by unfold_locales (auto simp: secretsCodec_def encodeSecrets_def decodeSecrets_def Let_def
      split: option.splits if_splits sum.splits)


text \<open>The loads and the saves of the three stores.\<close>

lemma drawNetworkId_nonzero: "drawNetworkId random k = Some i \<Longrightarrow> i \<noteq> 0"
  by (rule drawNetworkId.raw_induct [where P = "\<lambda>random k i. i \<noteq> 0"]) (auto split: if_splits)

lemma drawNetworkId_returns: "ucast (random (k + n)) \<noteq> (0 :: u8) \<Longrightarrow> \<exists>i. drawNetworkId random k = Some i"
proof (induction n arbitrary: k)
  case (Suc n)
  then show ?case by (subst drawNetworkId.simps) (use Suc.IH [of "Suc k"] Suc.prems in auto)
qed (subst drawNetworkId.simps, simp)

lemma bootstrapped_valid:
  "i \<noteq> 0 \<Longrightarrow> validateSecrets (defaultSecrets\<lparr>is_deviceSecretPresent := True, is_deviceSecret := r,
     is_operationalNetworkId := i\<rparr>) = None"
  by (simp add: validateSecrets_def defaultSecrets_def allZero_def)

lemma heldBy_loaded:
  assumes "slot_storage ops" "storeLoad ops settingsCodec s = (st, v, status)" "status \<noteq> Corrupt"
  shows "heldBy ops settingsCodec (\<lambda>v. validateSettings v = None) st s v"
proof -
  have "validateSettings defaultSettings = None" by code_simp
  then show ?thesis
    using settings_values.load_held [OF assms(1,2)] by (cases "status = Loaded") (auto simp: heldBy_def settingsCodec_def)
qed

lemma heldBy_loadedAccounts:
  assumes "slot_storage ops" "storeLoad ops authenticationCodec s = (st, v, status)" "status \<noteq> Corrupt"
  shows "heldBy ops authenticationCodec (\<lambda>v. validateAuthentication v = None) st s v"
proof -
  have "validateAuthentication defaultAuthentication = None" by code_simp
  then show ?thesis
    using account_values.load_held [OF assms(1,2)] by (cases "status = Loaded") (auto simp: heldBy_def authenticationCodec_def)
qed

lemma configBegin_ok:
  assumes S: "slot_storage ops" and b: "configBegin ops mutexMade nvsReady deviceRandom random cf = Some (cf', True)"
  shows "configOk ops cf'"
proof -
  obtain st1 v1 s1 where l1: "storeLoad ops settingsCodec (cf_settingsFlash cf) = (st1, v1, s1)" by (metis prod_cases3)
  obtain st2 v2 s2 where l2: "storeLoad ops authenticationCodec (cf_authFlash cf) = (st2, v2, s2)" by (metis prod_cases3)
  obtain st3 v3 s3 where l3: "storeLoad ops secretsCodec (cf_secretFlash cf) = (st3, v3, s3)" by (metis prod_cases3)
  let ?cf = "cf\<lparr>cf_mutex := True, cf_settingsStore := st1, cf_settings := v1, cf_authStore := st2, cf_authentication := v2,
    cf_secretStore := st3, cf_secrets := v3\<rparr>"
  have nc: "s1 \<noteq> Corrupt" "s2 \<noteq> Corrupt" "s3 \<noteq> Corrupt"
    using b by (auto simp: configBegin_def l1 l2 l3 Let_def split: if_splits)
  note h1 = heldBy_loaded [OF S l1 nc(1)] and h2 = heldBy_loadedAccounts [OF S l2 nc(2)]
  note h3 = secret_values.load_held [OF S l3]
  show ?thesis
  proof (cases "s3 = Empty")
    case False
    then have "s3 = Loaded" using nc(3) by (cases s3) auto
    then show ?thesis using b h1 h2 h3 nc
      by (auto simp: configBegin_def l1 l2 l3 Let_def configOk_def heldBy_def split: if_splits)
  next
    case True
    then obtain cf1 where bs: "bootstrapSecrets ops deviceRandom random ?cf = Some (cf1, True)" "cf' = cf1\<lparr>cf_initialized := True\<rparr>"
      using b nc by (auto simp: configBegin_def l1 l2 l3 Let_def split: if_splits option.splits bool.splits)
    then obtain i st s where i: "drawNetworkId random 0 = Some i" and
      w: "storeSave ops secretsCodec st3 (cf_secretFlash cf) (defaultSecrets\<lparr>is_deviceSecretPresent := True,
          is_deviceSecret := deviceRandom, is_operationalNetworkId := i\<rparr>) = (st, s, True)" and
      cf1: "cf1 = ?cf\<lparr>cf_secrets := defaultSecrets\<lparr>is_deviceSecretPresent := True, is_deviceSecret := deviceRandom,
          is_operationalNetworkId := i\<rparr>, cf_secretStore := st, cf_secretFlash := s\<rparr>"
      by (auto simp: bootstrapSecrets_def Let_def split: option.splits prod.splits)
    let ?v = "defaultSecrets\<lparr>is_deviceSecretPresent := True, is_deviceSecret := deviceRandom, is_operationalNetworkId := i\<rparr>"
    have d: "dual_slot_store ops secretsCodec secretsShaped"
      using S secrets.snapshot_codec_axioms by (simp add: dual_slot_store_def)
    have nl: "\<not> (ds_loaded st3 \<and> sc_Equal secretsCodec (ds_current st3) ?v)"
      using l3 True by (auto simp: storeLoad_def split: option.splits if_splits)
    from dual_slot_store.save_then_load [OF d h3(1) w nl] dual_slot_store.save_written [OF d w nl]
    have "heldBy ops secretsCodec (\<lambda>v. validateSecrets v = None) st s ?v"
      using bootstrapped_valid [OF drawNetworkId_nonzero [OF i]] by (auto simp: heldBy_def)
    then show ?thesis using h1 h2 by (simp add: bs(2) cf1 configOk_def)
  qed
qed

lemma saveSettings_cases:
  assumes "configOk ops cf" "saveSettings ops guarded v cf = (cf', result)"
  shows "(cf' = cf \<and> result \<in> {SS_NotInitialized, SS_Invalid}) \<or>
    (\<exists>st s c. saveLocked ops settingsCodec (cf_settingsStore cf) (cf_settingsFlash cf) (cf_settings cf) v = (st, s, c, result) \<and>
      cf' = cf\<lparr>cf_settingsStore := st, cf_settingsFlash := s, cf_settings := c\<rparr>)"
  using assms(2) by (auto simp: saveSettings_def split: if_splits sum.splits prod.splits)

lemma saveAuthentication_cases:
  assumes "configOk ops cf" "saveAuthentication ops guarded v cf = (cf', result)"
  shows "(cf' = cf \<and> result \<in> {SS_NotInitialized, SS_Invalid}) \<or>
    (\<exists>st s c. saveLocked ops authenticationCodec (cf_authStore cf) (cf_authFlash cf) (cf_authentication cf) v = (st, s, c, result) \<and>
      cf' = cf\<lparr>cf_authStore := st, cf_authFlash := s, cf_authentication := c\<rparr>)"
  using assms(2) by (auto simp: saveAuthentication_def split: if_splits sum.splits prod.splits)

lemma saveSecrets_cases:
  assumes "configOk ops cf" "saveSecrets ops guarded registry v cf = (cf', result)"
  shows "(cf' = cf \<and> result \<in> {SS_NotInitialized, SS_Invalid, SS_LockedByActiveNodes}) \<or>
    (\<not> (radioProfileChanged v (cf_secrets cf) \<and> hasActiveNodes registry) \<and>
     (\<exists>st s c. saveLocked ops secretsCodec (cf_secretStore cf) (cf_secretFlash cf) (cf_secrets cf) v = (st, s, c, result) \<and>
       cf' = cf\<lparr>cf_secretStore := st, cf_secretFlash := s, cf_secrets := c\<rparr>))"
  using assms(2) by (auto simp: saveSecrets_def split: if_splits sum.splits prod.splits)

lemma config_run_ok: "config_run ops cf \<Longrightarrow> slot_storage ops \<Longrightarrow> configOk ops cf"
proof (induction rule: config_run.induct)
  case started then show ?case using configBegin_ok by blast
next
  case (settings cf guarded v cf' result)
  then have ok: "configOk ops cf" by simp
  from saveSettings_cases [OF ok settings.hyps(2)] ok settings_values.save_held [OF settings.prems]
  show ?case by (fastforce simp: configOk_def)
next
  case (accounts cf guarded v cf' result)
  then have ok: "configOk ops cf" by simp
  from saveAuthentication_cases [OF ok accounts.hyps(2)] ok account_values.save_held [OF accounts.prems]
  show ?case by (fastforce simp: configOk_def)
next
  case (secrets cf guarded registry v cf' result)
  then have ok: "configOk ops cf" by simp
  from saveSecrets_cases [OF ok secrets.hyps(2)] ok secret_values.save_held [OF secrets.prems]
  show ?case by (fastforce simp: configOk_def)
qed

end
