(* ===== verification/Gateway_Recovery.thy ===== *)
theory Gateway_Recovery
  imports Configuration_Store
begin

text \<open>
  gateway: RecoveryService.cpp and BackupService.cpp, the factory reset and the restore of a backup into
  the five NVS namespaces of an installation.  The \<open>nvs.h\<close> library is a parameter: the record \<open>nvs_api\<close>
  of its calls over a state of type \<open>'w\<close>, with what the code relies on in the locale \<open>nvs_flash\<close>.  A call
  may fail whenever it likes; a power failure is a call that does part of its work after which every other
  call fails without effect.  The atomic variables and the recursive mutex make each operation a step;
  whether a mutex, a buffer or the guard could be had is an argument.  Serial output is left out.
\<close>

subsection \<open>The NVS library\<close>

datatype 'v nvs_result = NV_Value 'v | NV_NotFound | NV_Failed

record 'w nvs_api =
  nv_open :: "string \<Rightarrow> 'w \<Rightarrow> 'w \<times> bool"
  nv_set_u8 :: "string \<Rightarrow> string \<Rightarrow> u8 \<Rightarrow> 'w \<Rightarrow> 'w \<times> bool"
  nv_get_u8 :: "string \<Rightarrow> string \<Rightarrow> 'w \<Rightarrow> u8 nvs_result"
  nv_set_blob :: "string \<Rightarrow> string \<Rightarrow> bytes \<Rightarrow> 'w \<Rightarrow> 'w \<times> bool"
  nv_get_blob :: "string \<Rightarrow> string \<Rightarrow> nat \<Rightarrow> 'w \<Rightarrow> bytes nvs_result"
  nv_erase_all :: "string \<Rightarrow> 'w \<Rightarrow> 'w \<times> bool"
  nv_commit :: "string \<Rightarrow> 'w \<Rightarrow> 'w \<times> bool"

subsection \<open>RecoveryService.cpp\<close>

abbreviation (input) kIdle :: u8 where "kIdle \<equiv> 0"
abbreviation (input) kRestoreIncomplete :: u8 where "kRestoreIncomplete \<equiv> 1"
abbreviation (input) kResetRequested :: u8 where "kResetRequested \<equiv> 2"
abbreviation (input) kStorageUnavailable :: u8 where "kStorageUnavailable \<equiv> 3"
abbreviation (input) kRestarting :: u8 where "kRestarting \<equiv> 4"
abbreviation (input) kControl :: string where "kControl \<equiv> ''gateway-recover''"
abbreviation (input) kMarker :: string where "kMarker \<equiv> ''operation''"

definition kStores :: "string list" where
  "kStores = [''gateway-config'', ''gateway-auth'', ''gateway-secrets'', ''node-reg'', ''node-cmd'']"

record recovery =
  rc_mutex :: bool
  rc_state :: u8
  rc_restartAt :: u32

definition newRecovery :: recovery where
  "newRecovery = \<lparr>rc_mutex = False, rc_state = kStorageUnavailable, rc_restartAt = 0\<rparr>"

definition writeMarker :: "'w nvs_api \<Rightarrow> u8 \<Rightarrow> 'w \<Rightarrow> 'w \<times> bool" where
  "writeMarker api v w =
     (let (w, opened) = nv_open api kControl w in
      if \<not> opened then (w, False)
      else
        let (w, ok) = nv_set_u8 api kControl kMarker v w;
            (w, ok) = (if ok then nv_commit api kControl w else (w, False))
        in (w, ok \<and> nv_get_u8 api kControl kMarker w = NV_Value v))"

fun eraseEach :: "'w nvs_api \<Rightarrow> string list \<Rightarrow> 'w \<Rightarrow> 'w \<times> bool" where
  "eraseEach api [] w = (w, True)"
| "eraseEach api (name # names) w =
     (let (w, opened) = nv_open api name w in
      if \<not> opened then (w, False)
      else
        let (w, ok) = nv_erase_all api name w;
            (w, ok) = (if ok then nv_commit api name w else (w, False))
        in if \<not> ok then (w, False) else eraseEach api names w)"

definition eraseStores :: "'w nvs_api \<Rightarrow> 'w \<Rightarrow> 'w \<times> bool" where
  "eraseStores api w = eraseEach api kStores w"

definition guardHeld :: "recovery \<Rightarrow> bool \<Rightarrow> bool" where
  "guardHeld rc taken \<longleftrightarrow> rc_mutex rc \<and> taken"

definition recoveryBegin :: "'w nvs_api \<Rightarrow> bool \<Rightarrow> 'w \<Rightarrow> recovery \<Rightarrow> 'w \<times> recovery" where
  "recoveryBegin api mutexMade w rc =
     (let rc = rc\<lparr>rc_state := kStorageUnavailable\<rparr>;
          rc = (if \<not> rc_mutex rc then rc\<lparr>rc_mutex := mutexMade\<rparr> else rc)
      in if \<not> rc_mutex rc then (w, rc)
         else
           let (w, opened) = nv_open api kControl w in
           if \<not> opened then (w, rc)
           else
             case nv_get_u8 api kControl kMarker w of
               NV_Failed \<Rightarrow> (w, rc)
             | result \<Rightarrow>
                 let v = (case result of NV_Value v \<Rightarrow> v | _ \<Rightarrow> kIdle) in
                 if v = kResetRequested then
                   let (w, erased) = eraseStores api w;
                       (w, erased) = (if erased then writeMarker api kIdle w else (w, False))
                   in (w, rc\<lparr>rc_state := (if erased then kIdle else kResetRequested)\<rparr>)
                 else if v = kRestoreIncomplete then (w, rc\<lparr>rc_state := v\<rparr>)
                 else if v = kIdle then (w, rc\<lparr>rc_state := v\<rparr>)
                 else (w, rc))"

definition blocked :: "recovery \<Rightarrow> bool" where
  "blocked rc \<longleftrightarrow> rc_state rc \<noteq> kIdle"

definition eraseInstallation :: "'w nvs_api \<Rightarrow> recovery \<Rightarrow> 'w \<Rightarrow> 'w \<times> bool" where
  "eraseInstallation api rc w = (if blocked rc then eraseStores api w else (w, False))"

definition blockedReason :: "recovery \<Rightarrow> string" where
  "blockedReason rc =
     (if rc_state rc = kIdle then ''none''
      else if rc_state rc = kRestoreIncomplete then ''restore_incomplete''
      else if rc_state rc = kResetRequested then ''reset_incomplete''
      else if rc_state rc = kRestarting then ''restarting''
      else ''storage_unavailable'')"

definition startRestore :: "'w nvs_api \<Rightarrow> 'w \<Rightarrow> recovery \<Rightarrow> 'w \<times> recovery \<times> bool" where
  "startRestore api w rc =
     (if blocked rc then (w, rc, False)
      else
        let rc = rc\<lparr>rc_state := kRestoreIncomplete\<rparr>;
            (w, ok) = writeMarker api kRestoreIncomplete w
        in (w, rc, ok))"

definition restartSoon :: "u32 \<Rightarrow> recovery \<Rightarrow> recovery" where
  "restartSoon now rc = rc\<lparr>rc_restartAt := now + 1000\<rparr>"

definition finishRestore :: "'w nvs_api \<Rightarrow> u32 \<Rightarrow> 'w \<Rightarrow> recovery \<Rightarrow> 'w \<times> recovery \<times> bool" where
  "finishRestore api now w rc =
     (let (w, ok) = writeMarker api kIdle w in
      if \<not> ok then (w, rc, False)
      else (w, restartSoon now (rc\<lparr>rc_state := kRestarting\<rparr>), True))"

text \<open>True is a restart: the call does not return then.\<close>

definition requestFactoryReset :: "'w nvs_api \<Rightarrow> bool \<Rightarrow> bool \<Rightarrow> 'w \<Rightarrow> recovery \<Rightarrow> 'w \<times> recovery \<times> bool" where
  "requestFactoryReset api taken busy w rc =
     (if \<not> guardHeld rc taken \<or> busy then (w, rc, False)
      else
        let (w, ok) = writeMarker api kResetRequested w in
        if \<not> ok then (w, rc\<lparr>rc_state := kStorageUnavailable\<rparr>, False)
        else (w, rc\<lparr>rc_state := kResetRequested\<rparr>, True))"

definition recoveryLoop :: "u32 \<Rightarrow> recovery \<Rightarrow> bool" where
  "recoveryLoop now rc \<longleftrightarrow> rc_restartAt rc \<noteq> 0 \<and> 0 \<le> sint (now - rc_restartAt rc)"

subsection \<open>BackupService.cpp\<close>

abbreviation (input) kBackupBuffer :: nat where "kBackupBuffer \<equiv> kMaxRegistrySnapshotSize"

record Snapshot =
  bk_settings :: GatewaySettings
  bk_secrets :: InstallationSecrets
  bk_nodes :: NodeRegistry
  bk_createdAt :: u64

text \<open>The flag that excludes a second export or import: the new flag, and whether it was taken.\<close>

definition operationTake :: "bool \<Rightarrow> bool \<times> bool" where
  "operationTake processing = (True, \<not> processing)"

definition operationRelease :: "bool \<Rightarrow> bool \<Rightarrow> bool" where
  "operationRelease processing held = (if held then False else processing)"

definition writeVerified :: "'w nvs_api \<Rightarrow> bool \<Rightarrow> string \<Rightarrow> string \<Rightarrow> bytes \<Rightarrow> 'w \<Rightarrow> 'w \<times> bool" where
  "writeVerified api readback space key bs w =
     (let (w, opened) = nv_open api space w in
      if \<not> opened then (w, False)
      else
        let (w, ok) = nv_set_blob api space key bs w;
            (w, ok) = (if ok then nv_commit api space w else (w, False))
        in (w, ok \<and> readback \<and>
              (case nv_get_blob api space key (length bs) w of
                 NV_Value stored \<Rightarrow> length stored = length bs \<and> stored = bs
               | _ \<Rightarrow> False)))"

definition capture ::
  "recovery \<Rightarrow> bool \<Rightarrow> 's configuration \<Rightarrow> bool \<Rightarrow> bool \<Rightarrow> bool \<Rightarrow> 's registry_service \<Rightarrow> u64 \<Rightarrow> Snapshot option" where
  "capture rc taken cf pairing updating allocated registry now =
     (if \<not> guardHeld rc taken \<or> blocked rc \<or> \<not> configReady cf \<or> pairing \<or> updating \<or> \<not> allocated then None
      else
        case registrySnapshot registry of
          None \<Rightarrow> None
        | Some (generation, records) \<Rightarrow>
            case restore newRegistry (Some records) (length records) of
              (nodes, restored) \<Rightarrow>
                if restored
                then Some \<lparr>bk_settings = configSettings cf, bk_secrets = configSecrets cf, bk_nodes = nodes,
                       bk_createdAt = now\<rparr>
                else None)"

definition cleanGateway :: "recovery \<Rightarrow> 's configuration \<Rightarrow> 's registry_service \<Rightarrow> bool" where
  "cleanGateway rc cf registry \<longleftrightarrow> \<not> blocked rc \<and> configReady cf \<and> au_userCount (configAuthentication cf) = 0 \<and>
     \<not> is_installationKeyPresent (configSecrets cf) \<and> recordCount registry = 0"

text \<open>The buffer after an encoder has been called on it.\<close>

definition encodedInto :: "('e + bytes) \<Rightarrow> bytes \<Rightarrow> bytes" where
  "encodedInto result buf = (case result of Inl _ \<Rightarrow> buf | Inr out \<Rightarrow> out)"

text \<open>The checks before the first write: the buffer with the registry in it, and its size.\<close>

definition backupEncodes :: "Snapshot \<Rightarrow> AuthenticationData \<Rightarrow> bytes \<Rightarrow> (bytes \<times> nat) option" where
  "backupEncodes snapshot admin buf =
     (if \<not> is_installationKeyPresent (bk_secrets snapshot) \<or> \<not> is_deviceSecretPresent (bk_secrets snapshot) then None
      else
        case encodeSettings (bk_settings snapshot) 1 (Some buf) of
          Inl _ \<Rightarrow> None
        | Inr buf \<Rightarrow>
            case encodeSecrets (bk_secrets snapshot) 2 (Some buf) of
              Inl _ \<Rightarrow> None
            | Inr buf \<Rightarrow>
                case encodeAuthentication admin 1 (Some buf) of
                  Inl _ \<Rightarrow> None
                | Inr buf \<Rightarrow>
                    case encodeRegistrySnapshot (bk_nodes snapshot) 1 (Some buf) of
                      Inl _ \<Rightarrow> None
                    | Inr (buf, registrySize) \<Rightarrow> Some (buf, registrySize))"

text \<open>The writes, each made only when everything before it succeeded.\<close>

definition restoreWrites ::
  "'w nvs_api \<Rightarrow> (string \<Rightarrow> bool) \<Rightarrow> Snapshot \<Rightarrow> AuthenticationData \<Rightarrow> bytes \<Rightarrow> nat \<Rightarrow> 'w \<Rightarrow> 'w \<times> bool" where
  "restoreWrites api readback snapshot admin buf registrySize w =
     (let (w, ok) = writeVerified api (readback ''registry_a'') ''node-reg'' ''registry_a'' (take registrySize buf) w in
      if \<not> ok then (w, False)
      else
        let buf = encodedInto (encodeSettings (bk_settings snapshot) 1 (Some buf)) buf;
            (w, ok) = writeVerified api (readback ''config_a'') ''gateway-config'' ''config_a''
              (take kSettingsSnapshotSize buf) w
        in if \<not> ok then (w, False)
           else
             let buf = encodedInto (encodeSecrets (bk_secrets snapshot) 2 (Some buf)) buf;
                 (w, ok) = writeVerified api (readback ''secret_a'') ''gateway-secrets'' ''secret_a''
                   (take kSecretsSnapshotSize buf) w;
                 (w, ok) = (if ok then writeVerified api (readback ''secret_b'') ''gateway-secrets'' ''secret_b''
                   (take kSecretsSnapshotSize buf) w else (w, False))
             in if \<not> ok then (w, False)
                else
                  let buf = encodedInto (encodeAuthentication admin 1 (Some buf)) buf
                  in writeVerified api (readback ''auth_a'') ''gateway-auth'' ''auth_a''
                       (take kAuthSnapshotSize buf) w)"

definition backupRestore ::
  "'w nvs_api \<Rightarrow> bool \<Rightarrow> 's configuration \<Rightarrow> 's registry_service \<Rightarrow> bool \<Rightarrow> bool \<Rightarrow> bool \<Rightarrow> bool \<Rightarrow>
   (string \<Rightarrow> bool) \<Rightarrow> u32 \<Rightarrow> Snapshot \<Rightarrow> AuthenticationData \<Rightarrow> 'w \<Rightarrow> recovery \<Rightarrow> 'w \<times> recovery \<times> bool" where
  "backupRestore api taken cf registry setupActive pairing updating allocated readback now snapshot admin w rc =
     (if \<not> guardHeld rc taken \<or> \<not> cleanGateway rc cf registry \<or> \<not> setupActive \<or> pairing \<or> updating \<or> \<not> allocated
      then (w, rc, False)
      else
        case backupEncodes snapshot admin (zeros kBackupBuffer) of
          None \<Rightarrow> (w, rc, False)
        | Some (buf, registrySize) \<Rightarrow>
            let (w, rc, ok) = startRestore api w rc;
                (w, ok) = (if ok then eraseInstallation api rc w else (w, False));
                (w, ok) = (if ok then restoreWrites api readback snapshot admin buf registrySize w else (w, False))
            in if \<not> ok then (w, rc, False) else finishRestore api now w rc)"

subsection \<open>What the code relies on\<close>

datatype nvs_entry = NvsU8 u8 | NvsBlob bytes

text \<open>\<open>held w space key\<close> is what the flash holds.  A call on one namespace leaves the others; a failed write
  of a byte leaves the old or the new one; a failed write of a block or an erase leaves anything in what it
  was aimed at; an erase that reports success leaves nothing; a read that succeeds tells the truth.\<close>

locale nvs_flash =
  fixes api :: "'w nvs_api" and held :: "'w \<Rightarrow> string \<Rightarrow> string \<Rightarrow> nvs_entry option"
  assumes open_held: "nv_open api s w = (w', ok) \<Longrightarrow> held w' = held w"
    and commit_held: "nv_commit api s w = (w', ok) \<Longrightarrow> held w' = held w"
    and set_u8_held: "nv_set_u8 api s k v w = (w', ok) \<Longrightarrow>
      held w' = held w \<or> held w' = (held w)(s := (held w s)(k := Some (NvsU8 v)))"
    and set_blob_held: "nv_set_blob api s k bs w = (w', ok) \<Longrightarrow> \<exists>x. held w' = (held w)(s := (held w s)(k := x))"
    and erase_held: "nv_erase_all api s w = (w', ok) \<Longrightarrow> \<exists>x. held w' = (held w)(s := x) \<and> (ok \<longrightarrow> x = Map.empty)"
    and get_u8_held: "nv_get_u8 api s k w = NV_Value v \<Longrightarrow> held w s k = Some (NvsU8 v)"
    and get_u8_missing: "nv_get_u8 api s k w = NV_NotFound \<Longrightarrow> held w s k = None"
    and get_blob_held: "nv_get_blob api s k n w = NV_Value bs \<Longrightarrow> held w s k = Some (NvsBlob bs)"
begin

lemma writeMarker_held:
  assumes "writeMarker api v w = (w', ok)"
  shows "held w' = held w \<or> held w' = (held w)(kControl := (held w kControl)(kMarker := Some (NvsU8 v)))"
    "ok \<Longrightarrow> held w' kControl kMarker = Some (NvsU8 v)"
  using assms by (auto simp: writeMarker_def Let_def split: prod.splits if_splits
      dest!: open_held commit_held set_u8_held intro: get_u8_held)

lemma eraseEach_held:
  assumes "eraseEach api names w = (w', ok)"
  shows "(\<forall>s. s \<notin> set names \<longrightarrow> held w' s = held w s) \<and> (ok \<longrightarrow> (\<forall>s \<in> set names. held w' s = Map.empty))"
  using assms
proof (induction names arbitrary: w)
  case (Cons name names)
  obtain w1 b1 where w1: "nv_open api name w = (w1, b1)" by fastforce
  obtain w2 b2 where w2: "nv_erase_all api name w1 = (w2, b2)" by fastforce
  obtain w3 b3 where w3: "nv_commit api name w2 = (w3, b3)" by fastforce
  note h = open_held [OF w1] erase_held [OF w2] commit_held [OF w3]
  show ?case
  proof (cases "b1 \<and> b2 \<and> b3")
    case True
    then have rest: "eraseEach api names w3 = (w', ok)" using Cons.prems by (simp add: w1 w2 w3)
    show ?thesis using Cons.IH [OF rest] h True by (metis fun_upd_apply set_ConsD list.set_intros(1,2))
  next
    case False
    then show ?thesis using Cons.prems h by (auto simp: w1 w2 w3 split: if_splits)
  qed
qed simp

lemma writeVerified_held:
  assumes "writeVerified api readback s k bs w = (w', ok)"
  shows "\<exists>x. held w' = (held w)(s := (held w s)(k := x)) \<and> (ok \<longrightarrow> x = Some (NvsBlob bs))"
proof -
  obtain w1 b1 where w1: "nv_open api s w = (w1, b1)" by fastforce
  obtain w2 b2 where w2: "nv_set_blob api s k bs w1 = (w2, b2)" by fastforce
  obtain w3 b3 where w3: "nv_commit api s w2 = (w3, b3)" by fastforce
  obtain x where x: "held w2 = (held w)(s := (held w s)(k := x))"
    using set_blob_held [OF w2] open_held [OF w1] by auto
  show ?thesis
  proof (cases "b1 \<and> b2")
    case True
    then have w': "w' = w3" using assms by (simp add: writeVerified_def w1 w2 w3)
    have "ok \<Longrightarrow> held w3 s k = Some (NvsBlob bs)"
      using assms True by (auto simp: writeVerified_def w1 w2 w3 intro: get_blob_held split: nvs_result.splits)
    then show ?thesis using x commit_held [OF w3] by (intro exI [of _ x]) (auto simp: w')
  next
    case False
    have "held w' = (held w)(s := (held w s)(k := held w s k)) \<or> held w' = held w2" "\<not> ok"
      using assms False open_held [OF w1] by (auto simp: writeVerified_def w1 w2 split: if_splits)
    then show ?thesis using x by metis
  qed
qed

end

text \<open>What a complete restore leaves: the stores decode to the backup and hold nothing else.\<close>

definition installedBackup ::
  "(string \<Rightarrow> string \<Rightarrow> nvs_entry option) \<Rightarrow> Snapshot \<Rightarrow> AuthenticationData \<Rightarrow> bool" where
  "installedBackup stores snapshot admin \<longleftrightarrow>
     (\<exists>registry settings secrets accounts.
        stores ''node-reg'' = [''registry_a'' \<mapsto> NvsBlob registry] \<and>
        decodeRegistrySnapshot (Some registry) newRegistry = Inr (bk_nodes snapshot, 1) \<and>
        stores ''gateway-config'' = [''config_a'' \<mapsto> NvsBlob settings] \<and>
        decodeSettings (Some settings) = Inr (bk_settings snapshot, 1) \<and>
        stores ''gateway-secrets'' = [''secret_a'' \<mapsto> NvsBlob secrets, ''secret_b'' \<mapsto> NvsBlob secrets] \<and>
        decodeSecrets (Some secrets) = Inr (bk_secrets snapshot, 2) \<and>
        stores ''gateway-auth'' = [''auth_a'' \<mapsto> NvsBlob accounts] \<and>
        decodeAuthentication (Some accounts) = Inr (admin, 1) \<and>
        stores ''node-cmd'' = Map.empty)"

text \<open>A backup whose values have the array lengths of their types and a registry that can arise.\<close>

definition snapshotShaped :: "Snapshot \<Rightarrow> AuthenticationData \<Rightarrow> bool" where
  "snapshotShaped snapshot admin \<longleftrightarrow> settingsShaped (bk_settings snapshot) \<and> secretsShaped (bk_secrets snapshot) \<and>
     authShaped admin \<and> (\<exists>rs. recordsOk rs \<and> bk_nodes snapshot = registryOf rs)"

lemma written_prefix [simp]: "take (length pre) (written pre buf) = pre"
  by (simp add: written_def)

lemma encodeSettings_into:
  assumes "settingsShaped v" "encodeSettings v g (Some buf) = Inr out"
  shows "length out = length buf" "decodeSettings (Some (take kSettingsSnapshotSize out)) = Inr (v, g)"
proof -
  have ok: "validateSettings v = None" "248 \<le> length buf"
    using assms(2) by (auto simp: encodeSettings_def split: if_splits option.splits)
  have len: "length (snapshotBytes kSettingsMagic g (settingsBody v)) = 248" using length_settingsBody [OF assms(1)] by simp
  have out: "out = written (snapshotBytes kSettingsMagic g (settingsBody v)) buf"
    using assms(2) encodeSettings_bytes [OF assms(1) ok, of g] by simp
  show "length out = length buf" using out ok(2) len by simp
  have "take kSettingsSnapshotSize out = snapshotBytes kSettingsMagic g (settingsBody v)"
    using written_prefix [of "snapshotBytes kSettingsMagic g (settingsBody v)" buf] unfolding out len .
  then show "decodeSettings (Some (take kSettingsSnapshotSize out)) = Inr (v, g)"
    by (simp add: decodeSettings_bytes [OF assms(1) ok(1)])
qed

lemma encodeSecrets_into:
  assumes "secretsShaped v" "encodeSecrets v g (Some buf) = Inr out"
  shows "length out = length buf" "decodeSecrets (Some (take kSecretsSnapshotSize out)) = Inr (v, g)"
proof -
  have ok: "validateSecrets v = None" "67 \<le> length buf"
    using assms(2) by (auto simp: encodeSecrets_def split: if_splits option.splits)
  have len: "length (snapshotBytes kSecretsMagic g (secretsBody v)) = 67" using length_secretsBody [OF assms(1)] by simp
  have out: "out = written (snapshotBytes kSecretsMagic g (secretsBody v)) buf"
    using assms(2) encodeSecrets_bytes [OF assms(1) ok, of g] by simp
  show "length out = length buf" using out ok(2) len by simp
  have "take kSecretsSnapshotSize out = snapshotBytes kSecretsMagic g (secretsBody v)"
    using written_prefix [of "snapshotBytes kSecretsMagic g (secretsBody v)" buf] unfolding out len .
  then show "decodeSecrets (Some (take kSecretsSnapshotSize out)) = Inr (v, g)"
    by (simp add: decodeSecrets_bytes [OF assms(1) ok(1)])
qed

lemma encodeAuthentication_into:
  assumes "authShaped v" "encodeAuthentication v g (Some buf) = Inr out"
  shows "length out = length buf" "decodeAuthentication (Some (take kAuthSnapshotSize out)) = Inr (v, g)"
proof -
  have ok: "validateAuthentication v = None" "1036 \<le> length buf"
    using assms(2) by (auto simp: encodeAuthentication_def split: if_splits option.splits)
  have len: "length (snapshotBytes kAuthMagic g (authBody v)) = 1036" using length_authBody [OF ok(1) assms(1)] by simp
  have out: "out = written (snapshotBytes kAuthMagic g (authBody v)) buf"
    using assms(2) encodeAuthentication_bytes [OF assms(1) ok, of g] by simp
  show "length out = length buf" using out ok(2) len by simp
  have "take kAuthSnapshotSize out = snapshotBytes kAuthMagic g (authBody v)"
    using written_prefix [of "snapshotBytes kAuthMagic g (authBody v)" buf] unfolding out len .
  then show "decodeAuthentication (Some (take kAuthSnapshotSize out)) = Inr (v, g)"
    by (simp add: decodeAuthentication_bytes [OF assms(1) ok(1)])
qed

lemma encodeSettings_again: "encodeSettings v g (Some buf) = Inr out \<Longrightarrow> length buf = length buf2 \<Longrightarrow>
    \<exists>out2. encodeSettings v g (Some buf2) = Inr out2"
  by (auto simp: encodeSettings_def Let_def split: if_splits option.splits)

lemma encodeSecrets_again: "encodeSecrets v g (Some buf) = Inr out \<Longrightarrow> length buf = length buf2 \<Longrightarrow>
    \<exists>out2. encodeSecrets v g (Some buf2) = Inr out2"
  by (auto simp: encodeSecrets_def Let_def split: if_splits option.splits)

lemma encodeAuthentication_again: "encodeAuthentication v g (Some buf) = Inr out \<Longrightarrow> length buf = length buf2 \<Longrightarrow>
    \<exists>out2. encodeAuthentication v g (Some buf2) = Inr out2"
  by (auto simp: encodeAuthentication_def Let_def split: if_splits option.splits)

text \<open>What the checks promise of the writes.\<close>

lemma backupEncodes_Some:
  assumes "backupEncodes snapshot admin (zeros kBackupBuffer) = Some (buf, n)" "snapshotShaped snapshot admin"
  shows "length buf = kBackupBuffer" "decodeRegistrySnapshot (Some (take n buf)) newRegistry = Inr (bk_nodes snapshot, 1)"
    "length b = kBackupBuffer \<Longrightarrow> \<exists>out. encodeSettings (bk_settings snapshot) 1 (Some b) = Inr out"
    "length b = kBackupBuffer \<Longrightarrow> \<exists>out. encodeSecrets (bk_secrets snapshot) 2 (Some b) = Inr out"
    "length b = kBackupBuffer \<Longrightarrow> \<exists>out. encodeAuthentication admin 1 (Some b) = Inr out"
proof -
  obtain b1 b2 b3 where e: "encodeSettings (bk_settings snapshot) 1 (Some (zeros kBackupBuffer)) = Inr b1"
      "encodeSecrets (bk_secrets snapshot) 2 (Some b1) = Inr b2" "encodeAuthentication admin 1 (Some b2) = Inr b3"
      "encodeRegistrySnapshot (bk_nodes snapshot) 1 (Some b3) = Inr (buf, n)"
    using assms(1) by (auto simp: backupEncodes_def split: if_splits sum.splits)
  have sh: "settingsShaped (bk_settings snapshot)" "secretsShaped (bk_secrets snapshot)" "authShaped admin"
    using assms(2) by (simp_all add: snapshotShaped_def)
  have l: "length b1 = kBackupBuffer" "length b2 = kBackupBuffer" "length b3 = kBackupBuffer"
    using encodeSettings_into(1) [OF sh(1) e(1)] encodeSecrets_into(1) [OF sh(2) e(2)]
      encodeAuthentication_into(1) [OF sh(3) e(3)] by simp_all
  obtain rs where rs: "recordsOk rs" "bk_nodes snapshot = registryOf rs" using assms(2) by (auto simp: snapshotShaped_def)
  then have s: "list_all shapedRecord rs" "length rs \<le> kMaxNodes"
    by (auto simp: recordsOk_def recordOk_def list_all_iff)
  have len: "length (snapshotImage rs 1) = 16 + length rs * 72"
    by (simp add: snapshotImage_def length_snapshotBody [OF s(1)])
  have "encodeRegistrySnapshot (registryOf rs) 1 (Some b3) = Inr (written (snapshotImage rs 1) b3, length (snapshotImage rs 1))"
    using s(2) l(3) by (intro encodeRegistrySnapshot_image [OF s]) simp
  then have buf: "buf = written (snapshotImage rs 1) b3" "n = length (snapshotImage rs 1)" using e(4) rs(2) by simp_all
  show "length buf = kBackupBuffer" using buf l(3) len s(2) by simp
  show "decodeRegistrySnapshot (Some (take n buf)) newRegistry = Inr (bk_nodes snapshot, 1)"
    by (simp add: buf decodeRegistrySnapshot_image [OF rs(1)] rs(2))
  show "length b = kBackupBuffer \<Longrightarrow> \<exists>out. encodeSettings (bk_settings snapshot) 1 (Some b) = Inr out"
    "length b = kBackupBuffer \<Longrightarrow> \<exists>out. encodeSecrets (bk_secrets snapshot) 2 (Some b) = Inr out"
    "length b = kBackupBuffer \<Longrightarrow> \<exists>out. encodeAuthentication admin 1 (Some b) = Inr out"
    using encodeSettings_again [OF e(1)] encodeSecrets_again [OF e(2)] encodeAuthentication_again [OF e(3)] l by simp_all
qed

lemma kStores_control: "kControl \<notin> set kStores"
  by (simp add: kStores_def)

context nvs_flash
begin

lemma writeVerified_other:
  assumes "writeVerified api readback s k bs w = (w', ok)" "s \<noteq> t" shows "held w' t = held w t"
  using writeVerified_held [OF assms(1)] assms(2) by auto

lemma restoreWrites_held:
  assumes w: "restoreWrites api readback snapshot admin buf n w = (w', ok)"
  shows "held w' kControl = held w kControl"
    "ok \<Longrightarrow> backupEncodes snapshot admin (zeros kBackupBuffer) = Some (buf, n) \<Longrightarrow> snapshotShaped snapshot admin \<Longrightarrow>
     (\<forall>s \<in> set kStores. held w s = Map.empty) \<Longrightarrow> installedBackup (held w') snapshot admin"
proof -
  let ?b1 = "encodedInto (encodeSettings (bk_settings snapshot) 1 (Some buf)) buf"
  let ?b2 = "encodedInto (encodeSecrets (bk_secrets snapshot) 2 (Some ?b1)) ?b1"
  let ?b3 = "encodedInto (encodeAuthentication admin 1 (Some ?b2)) ?b2"
  obtain w1 k1 where w1: "writeVerified api (readback ''registry_a'') ''node-reg'' ''registry_a'' (take n buf) w = (w1, k1)" by fastforce
  obtain w2 k2 where w2: "writeVerified api (readback ''config_a'') ''gateway-config'' ''config_a'' (take kSettingsSnapshotSize ?b1) w1 = (w2, k2)" by fastforce
  obtain w3 k3 where w3: "writeVerified api (readback ''secret_a'') ''gateway-secrets'' ''secret_a'' (take kSecretsSnapshotSize ?b2) w2 = (w3, k3)" by fastforce
  obtain w4 k4 where w4: "writeVerified api (readback ''secret_b'') ''gateway-secrets'' ''secret_b'' (take kSecretsSnapshotSize ?b2) w3 = (w4, k4)" by fastforce
  obtain w5 k5 where w5: "writeVerified api (readback ''auth_a'') ''gateway-auth'' ''auth_a'' (take kAuthSnapshotSize ?b3) w4 = (w5, k5)" by fastforce
  have run: "restoreWrites api readback snapshot admin buf n w =
      (if \<not> k1 then (w1, False) else if \<not> k2 then (w2, False) else if \<not> k3 then (w3, False)
       else if \<not> k4 then (w4, False) else (w5, k5))"
    unfolding restoreWrites_def Let_def w1 prod.case w2 w3 w4 w5 by (simp add: w4 w5)
  note h = writeVerified_held [OF w1] writeVerified_held [OF w2] writeVerified_held [OF w3]
    writeVerified_held [OF w4] writeVerified_held [OF w5]
  have c: "held w1 kControl = held w kControl" "held w2 kControl = held w1 kControl" "held w3 kControl = held w2 kControl"
      "held w4 kControl = held w3 kControl" "held w5 kControl = held w4 kControl"
    by (simp_all add: writeVerified_other [OF w1] writeVerified_other [OF w2] writeVerified_other [OF w3]
        writeVerified_other [OF w4] writeVerified_other [OF w5])
  show "held w' kControl = held w kControl" using w c unfolding run by (auto split: if_splits)
  assume ok: ok and e: "backupEncodes snapshot admin (zeros kBackupBuffer) = Some (buf, n)"
    and sh: "snapshotShaped snapshot admin" and empty: "\<forall>s \<in> set kStores. held w s = Map.empty"
  have k: "k1" "k2" "k3" "k4" "k5" "w' = w5" using w ok unfolding run by (auto split: if_splits)
  have sh': "settingsShaped (bk_settings snapshot)" "secretsShaped (bk_secrets snapshot)" "authShaped admin"
    using sh by (simp_all add: snapshotShaped_def)
  note b = backupEncodes_Some [OF e sh]
  obtain o1 where o1: "encodeSettings (bk_settings snapshot) 1 (Some buf) = Inr o1" using b(3) [OF b(1)] by blast
  note s1 = encodeSettings_into [OF sh'(1) o1]
  obtain o2 where o2: "encodeSecrets (bk_secrets snapshot) 2 (Some o1) = Inr o2" using b(4) [of o1] s1(1) b(1) by auto
  note s2 = encodeSecrets_into [OF sh'(2) o2]
  obtain o3 where o3: "encodeAuthentication admin 1 (Some o2) = Inr o3" using b(5) [of o2] s2(1) s1(1) b(1) by auto
  note s3 = encodeAuthentication_into [OF sh'(3) o3]
  have b1: "?b1 = o1" by (simp add: encodedInto_def o1)
  have b2: "?b2 = o2" unfolding b1 by (simp add: encodedInto_def o2)
  have b3: "?b3 = o3" unfolding b2 by (simp add: encodedInto_def o3)
  have e: "held w ''node-reg'' = Map.empty" "held w ''gateway-config'' = Map.empty" "held w ''gateway-secrets'' = Map.empty"
      "held w ''gateway-auth'' = Map.empty" using empty by (simp_all add: kStores_def)
  have u1: "held w1 = (held w)(''node-reg'' := (held w ''node-reg'')(''registry_a'' := Some (NvsBlob (take n buf))))"
    using h(1) k(1) by blast
  have u2: "held w2 = (held w1)(''gateway-config'' := (held w1 ''gateway-config'')(''config_a'' := Some (NvsBlob (take kSettingsSnapshotSize o1))))"
    using h(2) k(2) unfolding b1 by blast
  have u3: "held w3 = (held w2)(''gateway-secrets'' := (held w2 ''gateway-secrets'')(''secret_a'' := Some (NvsBlob (take kSecretsSnapshotSize o2))))"
    using h(3) k(3) unfolding b2 by blast
  have u4: "held w4 = (held w3)(''gateway-secrets'' := (held w3 ''gateway-secrets'')(''secret_b'' := Some (NvsBlob (take kSecretsSnapshotSize o2))))"
    using h(4) k(4) unfolding b2 by blast
  have u5: "held w5 = (held w4)(''gateway-auth'' := (held w4 ''gateway-auth'')(''auth_a'' := Some (NvsBlob (take kAuthSnapshotSize o3))))"
    using h(5) k(5) unfolding b3 by blast
  have held5: "held w5 = (held w)(''node-reg'' := [''registry_a'' \<mapsto> NvsBlob (take n buf)],
      ''gateway-config'' := [''config_a'' \<mapsto> NvsBlob (take kSettingsSnapshotSize o1)],
      ''gateway-secrets'' := [''secret_a'' \<mapsto> NvsBlob (take kSecretsSnapshotSize o2),
         ''secret_b'' \<mapsto> NvsBlob (take kSecretsSnapshotSize o2)],
      ''gateway-auth'' := [''auth_a'' \<mapsto> NvsBlob (take kAuthSnapshotSize o3)])"
    by (simp add: u5 u4 u3 u2 u1 e)
  show "installedBackup (held w') snapshot admin"
    unfolding k(6) held5 installedBackup_def
    by (intro exI [of _ "take n buf"] exI [of _ "take kSettingsSnapshotSize o1"]
        exI [of _ "take kSecretsSnapshotSize o2"] exI [of _ "take kAuthSnapshotSize o3"])
       (use b(2) s1(2) s2(2) s3(2) empty in \<open>simp add: kStores_def\<close>)
qed


text \<open>A restore, whatever fails in it: refused with nothing changed, blocked, or complete.\<close>

lemma backupRestore_held:
  assumes r: "backupRestore api taken cf registry setupActive pairing updating allocated readback now snapshot admin w rc = (w', rc', ok)"
    and sh: "snapshotShaped snapshot admin"
  shows "(held w' = held w \<and> \<not> ok) \<or>
    (held w' kControl kMarker = Some (NvsU8 kRestoreIncomplete) \<and> blocked rc' \<and> \<not> ok) \<or>
    (held w' kControl kMarker = Some (NvsU8 kIdle) \<and> blocked rc' \<and> installedBackup (held w') snapshot admin)"
proof (cases "\<exists>buf n. guardHeld rc taken \<and> cleanGateway rc cf registry \<and> setupActive \<and> \<not> pairing \<and> \<not> updating \<and> allocated \<and>
    backupEncodes snapshot admin (zeros kBackupBuffer) = Some (buf, n)")
  case False
  then show ?thesis using r by (auto simp: backupRestore_def split: if_splits option.splits)
next
  case True
  then obtain buf n where e: "backupEncodes snapshot admin (zeros kBackupBuffer) = Some (buf, n)" and
    go: "guardHeld rc taken" "cleanGateway rc cf registry" "setupActive" "\<not> pairing" "\<not> updating" "allocated" by blast
  have idle: "\<not> blocked rc" using go(2) by (simp add: cleanGateway_def)
  let ?rc = "rc\<lparr>rc_state := kRestoreIncomplete\<rparr>"
  obtain w1 k1 where w1: "writeMarker api kRestoreIncomplete w = (w1, k1)" by fastforce
  obtain w2 k2 where w2: "eraseStores api w1 = (w2, k2)" by fastforce
  obtain w3 k3 where w3: "restoreWrites api readback snapshot admin buf n w2 = (w3, k3)" by fastforce
  obtain w4 k4 where w4: "writeMarker api kIdle w3 = (w4, k4)" by fastforce
  have b: "blocked ?rc" by (simp add: blocked_def)
  have run: "(w', rc', ok) = (if \<not> k1 then (w1, ?rc, False) else if \<not> k2 then (w2, ?rc, False)
      else if \<not> k3 then (w3, ?rc, False)
      else if \<not> k4 then (w4, ?rc, False) else (w4, restartSoon now (?rc\<lparr>rc_state := kRestarting\<rparr>), True))"
    using r go idle b
    by (simp add: backupRestore_def e startRestore_def eraseInstallation_def finishRestore_def w1 w2 w3 w4 Let_def split: if_splits)
  note m1 = writeMarker_held [OF w1] and m2 = eraseEach_held [OF w2 [unfolded eraseStores_def]]
    and m3 = restoreWrites_held [OF w3] and m4 = writeMarker_held [OF w4]
  have ctl: "held w2 kControl = held w1 kControl" "held w3 kControl = held w2 kControl" using m2 m3(1) kStores_control by auto
  show ?thesis
  proof (cases "k1")
    case False
    then show ?thesis using run m1(1) b by auto
  next
    case k1: True
    then have mark: "held w3 kControl kMarker = Some (NvsU8 kRestoreIncomplete)" "held w2 kControl kMarker = Some (NvsU8 kRestoreIncomplete)"
      using m1(2) ctl by auto
    show ?thesis
    proof (cases "k2 \<and> k3")
      case False
      then show ?thesis using run k1 mark b by (auto split: if_splits)
    next
      case True
      have inst: "installedBackup (held w3) snapshot admin" using m3(2) [OF _ e sh] m2 True by simp
      have keep: "installedBackup ((held w3)(kControl := x)) snapshot admin" for x
        using inst by (simp add: installedBackup_def)
      from m4(1) show ?thesis
      proof
        assume same: "held w4 = held w3"
        then have "\<not> k4" using m4(2) mark(1) by auto
        then show ?thesis using run k1 True same mark(1) b by simp
      next
        assume "held w4 = (held w3)(kControl := (held w3 kControl)(kMarker := Some (NvsU8 kIdle)))"
        then have "installedBackup (held w4) snapshot admin" "held w4 kControl kMarker = Some (NvsU8 kIdle)"
          using keep by simp_all
        then show ?thesis using run k1 True b by (auto simp: restartSoon_def blocked_def split: if_splits)
      qed
    qed
  qed
qed

text \<open>A start: the gateway is unblocked only over stores nothing was under way in, or erased ones.\<close>

lemma recoveryBegin_held:
  assumes "recoveryBegin api mutexMade w rc = (w', rc')"
  shows "(held w' = held w \<and> (\<not> blocked rc' \<longrightarrow> held w kControl kMarker \<in> {None, Some (NvsU8 kIdle)})) \<or>
    (held w kControl kMarker = Some (NvsU8 kResetRequested) \<and>
      (if blocked rc' then held w' kControl kMarker \<in> {Some (NvsU8 kResetRequested), Some (NvsU8 kIdle)} \<and>
         (held w' kControl kMarker = Some (NvsU8 kIdle) \<longrightarrow> (\<forall>s \<in> set kStores. held w' s = Map.empty))
       else \<forall>s \<in> set kStores. held w' s = Map.empty))"
proof -
  obtain w1 k1 where w1: "nv_open api kControl w = (w1, k1)" by fastforce
  obtain w2 k2 where w2: "eraseStores api w1 = (w2, k2)" by fastforce
  obtain w3 k3 where w3: "writeMarker api kIdle w2 = (w3, k3)" by fastforce
  note h1 = open_held [OF w1] and m2 = eraseEach_held [OF w2 [unfolded eraseStores_def]] and m3 = writeMarker_held [OF w3]
  have ctl: "held w2 kControl = held w1 kControl" using m2 kStores_control by auto
  have stores: "\<forall>s \<in> set kStores. held w3 s = held w2 s" using m3(1) kStores_control by auto
  show ?thesis
  proof (cases "nv_get_u8 api kControl kMarker w1 = NV_Value kResetRequested \<and> k1 \<and> (rc_mutex rc \<or> mutexMade)")
    case True
    then have mark: "held w kControl kMarker = Some (NvsU8 kResetRequested)" using get_u8_held h1 by metis
    have run: "w' = (if k2 then w3 else w2)" "rc_state rc' = (if k2 \<and> k3 then kIdle else kResetRequested)"
      using assms True by (auto simp: recoveryBegin_def Let_def w1 w2 w3 split: if_splits)
    show ?thesis
      using run mark m2 m3 ctl stores h1 by (auto simp: blocked_def split: if_splits)
  next
    case False
    then have "held w' = held w"
      using assms h1 by (auto simp: recoveryBegin_def Let_def w1 split: if_splits nvs_result.splits)
    moreover have "\<not> blocked rc' \<Longrightarrow> nv_get_u8 api kControl kMarker w1 \<in> {NV_NotFound, NV_Value kIdle}"
      using assms False by (auto simp: recoveryBegin_def Let_def w1 blocked_def split: if_splits nvs_result.splits)
    ultimately show ?thesis using get_u8_held [of kControl kMarker w1] get_u8_missing [of kControl kMarker w1] h1 by auto
  qed
qed

end

text \<open>An NVS library whose power fails after a number of calls, which is the part of its state beside the
  flash; a write that is cut short leaves its old contents.\<close>

record limited_nvs =
  ln_cells :: "string \<Rightarrow> string \<Rightarrow> nvs_entry option"
  ln_calls :: nat

definition limitedCall :: "((string \<Rightarrow> string \<Rightarrow> nvs_entry option) \<Rightarrow> string \<Rightarrow> string \<Rightarrow> nvs_entry option) \<Rightarrow>
    limited_nvs \<Rightarrow> limited_nvs \<times> bool" where
  "limitedCall f w =
     (if ln_calls w = 0 then (w, False)
      else (w\<lparr>ln_cells := f (ln_cells w), ln_calls := ln_calls w - 1\<rparr>, True))"

definition limitedNvs :: "limited_nvs nvs_api" where
  "limitedNvs = \<lparr>nv_open = (\<lambda>_. limitedCall id),
     nv_set_u8 = (\<lambda>s k v. limitedCall (\<lambda>c. c(s := (c s)(k := Some (NvsU8 v))))),
     nv_get_u8 = (\<lambda>s k w. if ln_calls w = 0 then NV_Failed
       else (case ln_cells w s k of None \<Rightarrow> NV_NotFound | Some (NvsU8 v) \<Rightarrow> NV_Value v | _ \<Rightarrow> NV_Failed)),
     nv_set_blob = (\<lambda>s k bs. limitedCall (\<lambda>c. c(s := (c s)(k := Some (NvsBlob bs))))),
     nv_get_blob = (\<lambda>s k n w. if ln_calls w = 0 then NV_Failed
       else (case ln_cells w s k of None \<Rightarrow> NV_NotFound
             | Some (NvsBlob bs) \<Rightarrow> if length bs \<le> n then NV_Value bs else NV_Failed | _ \<Rightarrow> NV_Failed)),
     nv_erase_all = (\<lambda>s. limitedCall (\<lambda>c. c(s := Map.empty))),
     nv_commit = (\<lambda>_. limitedCall id)\<rparr>"

interpretation limited: nvs_flash limitedNvs ln_cells
proof unfold_locales
  fix s k :: string and bs :: bytes and w w' :: limited_nvs and ok
  show "nv_set_blob limitedNvs s k bs w = (w', ok) \<Longrightarrow> \<exists>x. ln_cells w' = (ln_cells w)(s := (ln_cells w s)(k := x))"
    by (rule exI [of _ "if ln_calls w = 0 then ln_cells w s k else Some (NvsBlob bs)"])
       (auto simp: limitedNvs_def limitedCall_def split: if_splits)
  show "nv_erase_all limitedNvs s w = (w', ok) \<Longrightarrow> \<exists>x. ln_cells w' = (ln_cells w)(s := x) \<and> (ok \<longrightarrow> x = Map.empty)"
    by (auto simp: limitedNvs_def limitedCall_def split: if_splits intro: exI [of _ "ln_cells w s"])
qed (auto simp: limitedNvs_def limitedCall_def split: if_splits option.splits nvs_entry.splits)

text \<open>Starts one after the other, each of which may fail or be cut short.\<close>

definition afterBoots :: "'w nvs_api \<Rightarrow> bool list \<Rightarrow> 'w \<Rightarrow> 'w" where
  "afterBoots api boots w = foldl (\<lambda>w mutexMade. fst (recoveryBegin api mutexMade w newRecovery)) w boots"

text \<open>A reset that has been recorded is still to be done or has been done.\<close>

definition resetDue :: "(string \<Rightarrow> string \<Rightarrow> nvs_entry option) \<Rightarrow> bool" where
  "resetDue stores \<longleftrightarrow> stores kControl kMarker = Some (NvsU8 kResetRequested) \<or>
     stores kControl kMarker = Some (NvsU8 kIdle) \<and> (\<forall>s \<in> set kStores. stores s = Map.empty)"

context nvs_flash
begin

lemma recoveryBegin_unblocked:
  assumes "recoveryBegin api mutexMade w rc = (w', rc')" "\<not> blocked rc'"
  shows "held w' = held w \<and> held w kControl kMarker \<in> {None, Some (NvsU8 kIdle)} \<or>
    held w' kControl kMarker = Some (NvsU8 kIdle)"
proof -
  obtain w1 k1 where w1: "nv_open api kControl w = (w1, k1)" by fastforce
  obtain w2 k2 where w2: "eraseStores api w1 = (w2, k2)" by fastforce
  obtain w3 k3 where w3: "writeMarker api kIdle w2 = (w3, k3)" by fastforce
  have "w' = w1 \<and> nv_get_u8 api kControl kMarker w1 \<in> {NV_NotFound, NV_Value kIdle} \<or> w' = w3 \<and> k3"
    using assms by (auto simp: recoveryBegin_def Let_def w1 w2 w3 blocked_def split: if_splits nvs_result.splits)
  then show ?thesis
    using get_u8_held [of kControl kMarker w1] get_u8_missing [of kControl kMarker w1] writeMarker_held(2) [OF w3]
      open_held [OF w1] by auto
qed

lemma resetDue_boot:
  assumes "recoveryBegin api mutexMade w rc = (w', rc')" "resetDue (held w)"
  shows "resetDue (held w')" "\<not> blocked rc' \<Longrightarrow> \<forall>s \<in> set kStores. held w' s = Map.empty"
proof -
  from recoveryBegin_held [OF assms(1)] assms(2)
  show "\<not> blocked rc' \<Longrightarrow> \<forall>s \<in> set kStores. held w' s = Map.empty" by (auto simp: resetDue_def)
  from recoveryBegin_held [OF assms(1)] assms(2) recoveryBegin_unblocked [OF assms(1)]
  show "resetDue (held w')" by (cases "blocked rc'") (auto simp: resetDue_def)
qed

lemma resetDue_boots: "resetDue (held w) \<Longrightarrow> resetDue (held (afterBoots api boots w))"
proof (induction boots arbitrary: w)
  case (Cons mutexMade boots)
  have "resetDue (held (fst (recoveryBegin api mutexMade w newRecovery)))"
    by (rule resetDue_boot(1) [OF _ Cons.prems]) (rule surjective_pairing)
  from Cons.IH [OF this] show ?case by (simp add: afterBoots_def)
qed (simp add: afterBoots_def)

end

end
