(* ===== verification/Release_Manifest.thy ===== *)
theory Release_Manifest
  imports RS_Prelude
begin

text \<open>
  gateway: ReleaseManifest.h and ReleaseManifest.cpp, the signed description of a release.  C strings are
  byte lists without the terminating zero.  ArduinoJson is a parameter: the record \<open>json_api\<close> of the
  accessors the code calls on values of an unknown type; mbedTLS is three functions, each None on error: the
  hash, the verification of a hash and a signature under the built-in key, and the base64 decoder with its
  output capacity.
\<close>

abbreviation (input) kMaxManifestSize :: nat where "kMaxManifestSize \<equiv> 4096"
abbreviation (input) kMaxSignatureSize :: nat where "kMaxSignatureSize \<equiv> 72"
abbreviation (input) kMaxSignatureLineLength :: nat where "kMaxSignatureLineLength \<equiv> 96"
abbreviation (input) kMaxSignedManifestSize :: nat where "kMaxSignedManifestSize \<equiv> 4193"
abbreviation (input) kMaxFileNameLength :: nat where "kMaxFileNameLength \<equiv> 64"
abbreviation (input) kSha256Size :: nat where "kSha256Size \<equiv> 32"
abbreviation (input) kManifestFormat :: u8 where "kManifestFormat \<equiv> 2"

record Version =
  vn_major :: u16
  vn_minor :: u16
  vn_patch :: u16

record Image =
  im_file :: bytes
  im_size :: u32
  im_imageSize :: u32
  im_sha256 :: bytes

record Release =
  rl_version :: Version
  rl_versionText :: bytes
  rl_firmware :: Image
  rl_ui :: Image

datatype ReleaseStatus =
  RL_Ok | RL_TooLarge | RL_BadSignature | RL_Malformed | RL_UnsupportedFormat | RL_BoardMissing | RL_NotNewer

record 'j json_api =
  js_isObject :: "'j \<Rightarrow> bool"
  js_isNull :: "'j \<Rightarrow> bool"
  js_member :: "'j \<Rightarrow> string \<Rightarrow> 'j"
  js_boardMember :: "'j \<Rightarrow> bytes \<Rightarrow> 'j"
  js_asObject :: "'j \<Rightarrow> 'j"
  js_members :: "'j \<Rightarrow> nat"
  js_isU8 :: "'j \<Rightarrow> bool"
  js_asU8 :: "'j \<Rightarrow> u8"
  js_isU32 :: "'j \<Rightarrow> bool"
  js_asU32 :: "'j \<Rightarrow> u32"
  js_asString :: "'j \<Rightarrow> bytes option"

subsection \<open>Versions\<close>

definition isDigit :: "u8 \<Rightarrow> bool" where
  "isDigit c \<longleftrightarrow> \<not> (c < 0x30 \<or> c > 0x39)"

text \<open>The character a cursor points at; the terminating zero at the end of the text.\<close>

definition charAt :: "bytes \<Rightarrow> nat \<Rightarrow> u8" where
  "charAt text' i = (if i < length text' then text' ! i else 0)"

fun partLoop :: "bytes \<Rightarrow> u32 \<Rightarrow> (bytes \<times> u32) option" where
  "partLoop [] result = Some ([], result)"
| "partLoop (c # cursor) result =
     (if \<not> isDigit c then Some (c # cursor, result)
      else
        let result = result * 10 + ucast (c - 0x30)
        in if result > 0xFFFF then None else partLoop cursor result)"

text \<open>The number at the cursor, and the cursor behind it.\<close>

definition parsePart :: "bytes \<Rightarrow> (bytes \<times> u16) option" where
  "parsePart cursor =
     (if \<not> isDigit (charAt cursor 0) then None
      else if charAt cursor 0 = 0x30 \<and> isDigit (charAt cursor 1) then None
      else map_option (\<lambda>(rest, result). (rest, ucast result)) (partLoop cursor 0))"

definition parseVersion :: "bytes option \<Rightarrow> Version option" where
  "parseVersion input =
     (case input of
        None \<Rightarrow> None
      | Some cursor \<Rightarrow>
          case parsePart cursor of
            None \<Rightarrow> None
          | Some (cursor, major) \<Rightarrow>
              if charAt cursor 0 \<noteq> 0x2E then None
              else
                case parsePart (drop 1 cursor) of
                  None \<Rightarrow> None
                | Some (cursor, minor) \<Rightarrow>
                    if charAt cursor 0 \<noteq> 0x2E then None
                    else
                      case parsePart (drop 1 cursor) of
                        None \<Rightarrow> None
                      | Some (cursor, patch) \<Rightarrow>
                          if cursor \<noteq> [] then None
                          else Some \<lparr>vn_major = major, vn_minor = minor, vn_patch = patch\<rparr>)"

definition compareVersions :: "Version \<Rightarrow> Version \<Rightarrow> int" where
  "compareVersions left right =
     (if vn_major left \<noteq> vn_major right then (if vn_major left < vn_major right then -1 else 1)
      else if vn_minor left \<noteq> vn_minor right then (if vn_minor left < vn_minor right then -1 else 1)
      else if vn_patch left \<noteq> vn_patch right then (if vn_patch left < vn_patch right then -1 else 1)
      else 0)"

subsection \<open>Images\<close>

definition hexValue :: "u8 \<Rightarrow> int" where
  "hexValue c =
     (if c \<ge> 0x30 \<and> c \<le> 0x39 then uint c - 0x30
      else if c \<ge> 0x61 \<and> c \<le> 0x66 then uint c - 0x61 + 10
      else -1)"

definition fileCharacter :: "u8 \<Rightarrow> bool" where
  "fileCharacter c \<longleftrightarrow> (c \<ge> 0x61 \<and> c \<le> 0x7A) \<or> (c \<ge> 0x41 \<and> c \<le> 0x5A) \<or> (c \<ge> 0x30 \<and> c \<le> 0x39) \<or>
     c = 0x2E \<or> c = 0x5F \<or> c = 0x2D"

definition validFileName :: "bytes \<Rightarrow> bool" where
  "validFileName name \<longleftrightarrow>
     \<not> (length name = 0 \<or> length name > kMaxFileNameLength \<or> name ! 0 = 0x2E) \<and> list_all fileCharacter name"

definition positive :: "'j json_api \<Rightarrow> 'j \<Rightarrow> bool" where
  "positive J v \<longleftrightarrow> js_isU32 J v \<and> js_asU32 J v \<noteq> 0"

fun readHex :: "bytes \<Rightarrow> bytes option" where
  "readHex (h # l # rest) =
     (if hexValue h < 0 \<or> hexValue l < 0 then None
      else map_option ((#) (word_of_int (hexValue h) * 16 OR word_of_int (hexValue l))) (readHex rest))"
| "readHex _ = Some []"

definition readImage :: "'j json_api \<Rightarrow> 'j \<Rightarrow> bool \<Rightarrow> Image option" where
  "readImage J object compressed =
     (let file = js_asString J (js_member J object ''file'');
          sha256 = js_asString J (js_member J object ''sha256'')
      in if js_members J object \<noteq> (if compressed then 4 else 3) \<or> file = None \<or> \<not> validFileName (the file) \<or>
            \<not> positive J (js_member J object ''size'') \<or>
            (compressed \<and> \<not> positive J (js_member J object ''image_size'')) \<or>
            sha256 = None \<or> length (the sha256) \<noteq> kSha256Size * 2
         then None
         else
           map_option (\<lambda>hash. \<lparr>im_file = the file, im_size = js_asU32 J (js_member J object ''size''),
             im_imageSize = (if compressed then js_asU32 J (js_member J object ''image_size'')
               else js_asU32 J (js_member J object ''size'')),
             im_sha256 = hash\<rparr>) (readHex (the sha256)))"

subsection \<open>The manifest\<close>

definition verifySignature ::
  "(bytes \<Rightarrow> bytes option) \<Rightarrow> (bytes \<Rightarrow> bytes \<Rightarrow> bool) \<Rightarrow> buffer \<Rightarrow> buffer \<Rightarrow> bool" where
  "verifySignature sha256 verify manifest signature =
     (case (manifest, signature) of
        (Some m, Some s) \<Rightarrow>
          \<not> (length s = 0 \<or> length s > kMaxSignatureSize) \<and>
          (case sha256 m of None \<Rightarrow> False | Some hash \<Rightarrow> verify hash s)
      | _ \<Rightarrow> False)"

definition parseManifest ::
  "'j json_api \<Rightarrow> (bytes \<Rightarrow> 'j option) \<Rightarrow> buffer \<Rightarrow> bytes option \<Rightarrow> bytes option \<Rightarrow> ReleaseStatus + Release" where
  "parseManifest J deserialize manifest board currentVersion =
     (case (manifest, board) of
        (Some m, Some b) \<Rightarrow>
          if length m > kMaxManifestSize then Inl RL_TooLarge
          else
            (case deserialize m of
               None \<Rightarrow> Inl RL_Malformed
             | Some document \<Rightarrow>
                 if \<not> js_isObject J document then Inl RL_Malformed
                 else if \<not> js_isU8 J (js_member J document ''format'') then Inl RL_Malformed
                 else if js_asU8 J (js_member J document ''format'') \<noteq> kManifestFormat
                 then Inl RL_UnsupportedFormat
                 else
                   let versionText = js_asString J (js_member J document ''version'')
                   in case parseVersion versionText of
                        None \<Rightarrow> Inl RL_Malformed
                      | Some version \<Rightarrow>
                          if \<not> js_isObject J (js_member J document ''boards'') then Inl RL_Malformed
                          else
                            let boardEntry = js_boardMember J (js_member J document ''boards'') b
                            in if js_isNull J boardEntry then Inl RL_BoardMissing
                               else
                                 let entry = js_asObject J boardEntry
                                 in if js_isNull J entry \<or> js_members J entry \<noteq> 2 then Inl RL_Malformed
                                    else
                                      case readImage J (js_member J entry ''firmware'') False of
                                        None \<Rightarrow> Inl RL_Malformed
                                      | Some firmware \<Rightarrow>
                                          case readImage J (js_member J entry ''ui'') True of
                                            None \<Rightarrow> Inl RL_Malformed
                                          | Some ui \<Rightarrow>
                                              case parseVersion currentVersion of
                                                None \<Rightarrow> Inl RL_Malformed
                                              | Some current \<Rightarrow>
                                                  if compareVersions version current \<le> 0 then Inl RL_NotNewer
                                                  else Inr \<lparr>rl_version = version, rl_versionText = the versionText,
                                                         rl_firmware = firmware, rl_ui = ui\<rparr>)
      | _ \<Rightarrow> Inl RL_Malformed)"

definition readManifest ::
  "'j json_api \<Rightarrow> (bytes \<Rightarrow> 'j option) \<Rightarrow> (bytes \<Rightarrow> bytes option) \<Rightarrow> (bytes \<Rightarrow> bytes \<Rightarrow> bool) \<Rightarrow>
   buffer \<Rightarrow> buffer \<Rightarrow> bytes option \<Rightarrow> bytes option \<Rightarrow> ReleaseStatus + Release" where
  "readManifest J deserialize sha256 verify manifest signature board currentVersion =
     (if (case manifest of None \<Rightarrow> False | Some m \<Rightarrow> length m > kMaxManifestSize) then Inl RL_TooLarge
      else if \<not> verifySignature sha256 verify manifest signature then Inl RL_BadSignature
      else parseManifest J deserialize manifest board currentVersion)"

definition readSigned ::
  "'j json_api \<Rightarrow> (bytes \<Rightarrow> 'j option) \<Rightarrow> (bytes \<Rightarrow> bytes option) \<Rightarrow> (bytes \<Rightarrow> bytes \<Rightarrow> bool) \<Rightarrow>
   (nat \<Rightarrow> bytes \<Rightarrow> bytes option) \<Rightarrow> buffer \<Rightarrow> bytes option \<Rightarrow> bytes option \<Rightarrow> ReleaseStatus + Release" where
  "readSigned J deserialize sha256 verify base64 signedManifest board currentVersion =
     (case signedManifest of
        None \<Rightarrow> Inl RL_BadSignature
      | Some input \<Rightarrow>
          if length input > kMaxSignedManifestSize then Inl RL_TooLarge
          else
            case firstIndex (\<lambda>c. c = 0x0A) (take (kMaxSignatureLineLength + 1) input) of
              None \<Rightarrow> Inl RL_BadSignature
            | Some lineLength \<Rightarrow>
                if lineLength = 0 then Inl RL_BadSignature
                else
                  case base64 kMaxSignatureSize (take lineLength input) of
                    None \<Rightarrow> Inl RL_BadSignature
                  | Some signature \<Rightarrow>
                      readManifest J deserialize sha256 verify (Some (drop (lineLength + 1) input)) (Some signature)
                        board currentVersion)"

definition releaseStatusName :: "ReleaseStatus \<Rightarrow> string" where
  "releaseStatusName status =
     (case status of
        RL_Ok \<Rightarrow> ''ok'' | RL_TooLarge \<Rightarrow> ''too_large'' | RL_BadSignature \<Rightarrow> ''bad_signature''
      | RL_Malformed \<Rightarrow> ''malformed'' | RL_UnsupportedFormat \<Rightarrow> ''unsupported_format''
      | RL_BoardMissing \<Rightarrow> ''board_missing'' | RL_NotNewer \<Rightarrow> ''not_newer'')"

subsection \<open>The text of a version\<close>

text \<open>Decimal without leading zeros, the most significant digit first.\<close>

fun decimalText :: "nat \<Rightarrow> bytes" where
  "decimalText n = (if n < 10 then [of_nat n + 0x30] else decimalText (n div 10) @ [of_nat (n mod 10) + 0x30])"

declare decimalText.simps [simp del]

definition versionText :: "Version \<Rightarrow> bytes" where
  "versionText v = decimalText (unat (vn_major v)) @ 0x2E # decimalText (unat (vn_minor v)) @ 0x2E #
     decimalText (unat (vn_patch v))"

lemma digit_iff: "isDigit c \<longleftrightarrow> (\<exists>d < 10. c = of_nat d + 0x30)"
proof
  assume "isDigit c"
  then have c: "0x30 \<le> c" "c \<le> 0x39" by (auto simp: isDigit_def)
  then have "unat c - 48 < 10" "c = of_nat (unat c - 48) + 0x30"
    by (simp_all add: word_le_nat_alt of_nat_diff)
  then show "\<exists>d < 10. c = of_nat d + 0x30" by blast
next
  assume "\<exists>d < 10. c = of_nat d + 0x30"
  then obtain d where "d < 10" "c = of_nat d + 0x30" by blast
  then show "isDigit c"
    by (simp add: isDigit_def word_less_nat_alt unat_word_ariths unat_of_nat)
qed

lemma digit_value: "d < 10 \<Longrightarrow> (ucast ((of_nat d + 0x30 :: u8) - 0x30) :: u32) = of_nat d"
  by (simp add: unsigned_of_nat take_bit_nat_eq_self)

text \<open>The value of a run of digits.\<close>

definition digitsValue :: "bytes \<Rightarrow> nat \<Rightarrow> nat" where
  "digitsValue ds n = foldl (\<lambda>n c. n * 10 + (unat c - 48)) n ds"

lemma digitsValue_simps [simp]: "digitsValue [] n = n" "digitsValue (c # ds) n = digitsValue ds (n * 10 + (unat c - 48))"
  by (simp_all add: digitsValue_def)

lemma digitsValue_append: "digitsValue (xs @ ys) n = digitsValue ys (digitsValue xs n)"
  by (simp add: digitsValue_def)

lemma digitsValue_ge: "n \<le> digitsValue ds n"
proof (induction ds arbitrary: n)
  case (Cons c ds)
  show ?case using Cons.IH [of "n * 10 + (unat c - 48)"] by simp
qed simp

lemma partLoop_digits:
  "list_all isDigit ds \<Longrightarrow> rest = [] \<or> \<not> isDigit (hd rest) \<Longrightarrow> n \<le> 0xFFFF \<Longrightarrow>
   partLoop (ds @ rest) (of_nat n) =
     (if digitsValue ds n \<le> 0xFFFF then Some (rest, of_nat (digitsValue ds n)) else None)"
proof (induction ds arbitrary: n)
  case Nil
  then show ?case by (cases rest) auto
next
  case (Cons c ds)
  obtain d where d: "d < 10" "c = of_nat d + 0x30" using Cons.prems(1) digit_iff by auto
  then have u: "unat c - 48 = d" by (simp add: unat_word_ariths unat_of_nat)
  have m: "(of_nat n :: u32) * 10 + ucast (c - 0x30) = of_nat (n * 10 + d)"
    using digit_value [OF d(1)] d(2) by simp
  have big: "(of_nat (n * 10 + d) :: u32) > 0xFFFF \<longleftrightarrow> n * 10 + d > 0xFFFF"
    using Cons.prems(3) d(1) by (simp add: word_less_nat_alt unat_of_nat del: of_nat_add of_nat_mult)
  show ?case
  proof (cases "n * 10 + d > 0xFFFF")
    case True
    then have "digitsValue (c # ds) n > 0xFFFF" using digitsValue_ge [of "n * 10 + d" ds] u by simp
    then show ?thesis using Cons.prems(1) True big unfolding append_Cons partLoop.simps Let_def m by simp
  next
    case False
    then show ?thesis
      using Cons.prems Cons.IH [of "n * 10 + d"] big u
      unfolding append_Cons partLoop.simps Let_def m by simp
  qed
qed

lemma decimalText_digits: "list_all isDigit (decimalText n)" "decimalText n \<noteq> []"
proof -
  show "list_all isDigit (decimalText n)"
  proof (induction n rule: less_induct)
    case (less n)
    have d: "d < 10 \<Longrightarrow> isDigit (of_nat d + 0x30)" for d using digit_iff by blast
    show ?case by (subst decimalText.simps) (use less d in simp)
  qed
  show "decimalText n \<noteq> []" by (subst decimalText.simps) simp
qed

lemma digitsValue_decimal: "n \<le> 0xFFFF \<Longrightarrow> digitsValue (decimalText n) 0 = n"
proof (induction n rule: less_induct)
  case (less n)
  have u: "d < 10 \<Longrightarrow> unat (of_nat d + 0x30 :: u8) - 48 = d" for d by (simp add: unat_word_ariths unat_of_nat)
  show ?case
  proof (cases "n < 10")
    case True
    then show ?thesis by (subst decimalText.simps) (simp add: u)
  next
    case False
    then have "digitsValue (decimalText (n div 10)) 0 = n div 10" using less by simp
    with False show ?thesis by (subst decimalText.simps) (simp add: digitsValue_append u)
  qed
qed

lemma decimal_head: "decimalText n ! 0 = 0x30 \<Longrightarrow> n \<le> 0xFFFF \<Longrightarrow> decimalText n = [0x30]"
proof (induction n rule: less_induct)
  case (less n)
  show ?case
  proof (cases "n < 10")
    case True
    have "(of_nat n + 0x30 :: u8) = 0x30 \<Longrightarrow> n = 0"
      using True by (simp add: word_unat_eq_iff unat_word_ariths unat_of_nat)
    then show ?thesis using less.prems(1) True by (subst (asm) decimalText.simps, subst decimalText.simps) auto
  next
    case False
    then have e: "decimalText n = decimalText (n div 10) @ [of_nat (n mod 10) + 0x30]" by (subst decimalText.simps) simp
    then have "decimalText (n div 10) ! 0 = 0x30" using less.prems(1) decimalText_digits(2) by (simp add: nth_append)
    then have "decimalText (n div 10) = [0x30]" using less False by simp
    then have "digitsValue (decimalText (n div 10)) 0 = 0" by simp
    then have "n div 10 = 0" using digitsValue_decimal [of "n div 10"] less.prems(2) by simp
    then show ?thesis using False by simp
  qed
qed

text \<open>A part that is read is a run of digits without a leading zero, below 65536, up to something else.\<close>

lemma parsePart_decimal:
  assumes "rest = [] \<or> \<not> isDigit (hd rest)"
  shows "parsePart (decimalText (unat v) @ rest) = Some (rest, v)"
proof -
  have n: "unat v \<le> 0xFFFF" using unsigned_less [of v, where 'a = nat] by simp
  let ?t = "decimalText (unat v)"
  have c0: "charAt (?t @ rest) 0 = ?t ! 0" using decimalText_digits(2) by (simp add: charAt_def nth_append)
  have d0: "isDigit (?t ! 0)" using decimalText_digits [of "unat v"] by (cases ?t) auto
  have "\<not> (?t ! 0 = 0x30 \<and> isDigit (charAt (?t @ rest) 1))"
    using decimal_head [OF _ n] assms by (cases rest) (auto simp: charAt_def isDigit_def)
  moreover have "ucast (ucast v :: u32) = v" by (rule bit_word_eqI) (auto simp: bit_simps)
  ultimately show ?thesis
    using partLoop_digits [OF decimalText_digits(1) assms, of 0 "unat v"] digitsValue_decimal [OF n] n c0 d0
    by (simp add: parsePart_def)
qed

lemma digits_split: "\<exists>ds rest. cursor = ds @ rest \<and> list_all isDigit ds \<and> (rest = [] \<or> \<not> isDigit (hd rest))"
proof -
  have "list_all isDigit (takeWhile isDigit cursor)" by (auto simp: list_all_iff dest: set_takeWhileD)
  moreover have "dropWhile isDigit cursor = [] \<or> \<not> isDigit (hd (dropWhile isDigit cursor))" by (metis hd_dropWhile)
  ultimately show ?thesis by (metis takeWhile_dropWhile_id)
qed

lemma decimal_unique:
  "list_all isDigit ds \<Longrightarrow> ds \<noteq> [] \<Longrightarrow> ds ! 0 = 0x30 \<longrightarrow> ds = [0x30] \<Longrightarrow> decimalText (digitsValue ds 0) = ds"
proof (induction ds rule: rev_induct)
  case (snoc c ds)
  obtain d where d: "d < 10" "c = of_nat d + 0x30" using snoc.prems(1) digit_iff by auto
  then have u: "unat c - 48 = d" by (simp add: unat_word_ariths unat_of_nat)
  have v: "digitsValue (ds @ [c]) 0 = digitsValue ds 0 * 10 + d" by (simp add: digitsValue_append u)
  show ?case
  proof (cases "ds = []")
    case True
    then show ?thesis unfolding v using d by (simp add: decimalText.simps)
  next
    case False
    then have z: "ds ! 0 \<noteq> 0x30" using snoc.prems(3) by (auto simp: nth_append)
    then have ih: "decimalText (digitsValue ds 0) = ds" using snoc False by simp
    have "digitsValue ds 0 \<noteq> 0"
    proof
      assume "digitsValue ds 0 = 0"
      then have "decimalText (digitsValue ds 0) = [0x30]" by (subst decimalText.simps) simp
      then show False using ih z by simp
    qed
    then show ?thesis unfolding v using d ih by (subst decimalText.simps) simp
  qed
qed simp

lemma parsePart_Some:
  assumes "parsePart cursor = Some (rest, v)"
  shows "cursor = decimalText (unat v) @ rest \<and> (rest = [] \<or> \<not> isDigit (hd rest))"
proof -
  obtain ds rs where c: "cursor = ds @ rs" "list_all isDigit ds" "rs = [] \<or> \<not> isDigit (hd rs)"
    using digits_split by blast
  have ne: "ds \<noteq> []"
  proof
    assume "ds = []"
    then have "\<not> isDigit (charAt cursor 0)" using c by (cases rs) (auto simp: charAt_def isDigit_def)
    then show False using assms by (simp add: parsePart_def)
  qed
  have lead: "ds ! 0 = 0x30 \<longrightarrow> ds = [0x30]"
  proof
    assume z: "ds ! 0 = 0x30"
    show "ds = [0x30]"
    proof (rule ccontr)
      assume "ds \<noteq> [0x30]"
      with ne z obtain c1 c2 ds' where "ds = c1 # c2 # ds'" "c1 = 0x30" by (cases ds; cases "tl ds") auto
      then show False using assms c by (auto simp: parsePart_def charAt_def)
    qed
  qed
  have loop: "partLoop cursor 0 = (if digitsValue ds 0 \<le> 0xFFFF then Some (rs, of_nat (digitsValue ds 0)) else None)"
    using partLoop_digits [OF c(2,3), of 0] unfolding c(1) by simp
  with assms have v: "digitsValue ds 0 \<le> 0xFFFF" "rest = rs" "v = ucast (of_nat (digitsValue ds 0) :: u32)"
    by (auto simp: parsePart_def split: if_splits)
  have "unat v = digitsValue ds 0"
    using v(1) unfolding v(3) by (simp add: unsigned_ucast_eq take_bit_nat_eq_self unat_of_nat unsigned_of_nat)
  then show ?thesis using c v(2) decimal_unique [OF c(2) ne lead] by simp
qed

lemma parseVersion_iff: "parseVersion t = Some v \<longleftrightarrow> t = Some (versionText v)"
proof
  assume p: "parseVersion t = Some v"
  then obtain c c1 c2 a b where t: "t = Some c" and
      ps: "parsePart c = Some (c1, a)" "charAt c1 0 = 0x2E" "parsePart (drop 1 c1) = Some (c2, b)" "charAt c2 0 = 0x2E" and
      l: "\<exists>d. parsePart (drop 1 c2) = Some ([], d) \<and> v = \<lparr>vn_major = a, vn_minor = b, vn_patch = d\<rparr>"
    by (auto simp: parseVersion_def split: option.splits if_splits)
  then obtain d where d: "parsePart (drop 1 c2) = Some ([], d)" "v = \<lparr>vn_major = a, vn_minor = b, vn_patch = d\<rparr>" by blast
  have dot: "c' = 0x2E # drop 1 c'" if "charAt c' 0 = 0x2E" for c'
    using that by (cases c') (simp_all add: charAt_def)
  from dot [OF ps(2)] dot [OF ps(4)] parsePart_Some [OF ps(1)] parsePart_Some [OF ps(3)] parsePart_Some [OF d(1)]
  have "c = versionText v" unfolding d(2) versionText_def by (metis (no_types) Version.select_convs append_Nil2)
  then show "t = Some (versionText v)" by (simp add: t)
next
  assume t: "t = Some (versionText v)"
  have nd: "\<not> isDigit 0x2E" by (simp add: isDigit_def)
  show "parseVersion t = Some v"
    unfolding t versionText_def
    by (simp add: parseVersion_def parsePart_decimal nd charAt_def parsePart_decimal [where rest = "[]", simplified])
qed

text \<open>The order on versions is that of the numbers with the three parts as digits.\<close>

definition versionRank :: "Version \<Rightarrow> nat" where
  "versionRank v = (unat (vn_major v) * 65536 + unat (vn_minor v)) * 65536 + unat (vn_patch v)"

lemma rank_step: "c < 65536 \<Longrightarrow> z < 65536 \<Longrightarrow> p * 65536 + c < q * 65536 + z \<longleftrightarrow> p < q \<or> p = q \<and> c < z"
  for p q c z :: nat
  by (cases p q rule: linorder_cases) auto

lemma rank_less:
  fixes a b c x y z :: nat
  assumes "b < 65536" "c < 65536" "y < 65536" "z < 65536"
  shows "(a * 65536 + b) * 65536 + c < (x * 65536 + y) * 65536 + z \<longleftrightarrow>
    a < x \<or> a = x \<and> (b < y \<or> b = y \<and> c < z)"
  using rank_step [OF assms(2,4), of "a * 65536 + b" "x * 65536 + y"] rank_step [OF assms(1,3), of a x]
    rank_step [OF assms(3,1), of x a] by (auto simp: nat_neq_iff)

lemma compareVersions_greater: "compareVersions l r > 0 \<longleftrightarrow> versionRank r < versionRank l"
proof -
  have lt: "unat (v :: u16) < 65536" for v using unsigned_less [of v, where 'a = nat] by simp
  show ?thesis
    unfolding versionRank_def rank_less [OF lt lt lt lt]
    by (auto simp: compareVersions_def word_less_nat_alt word_unat_eq_iff)
qed

text \<open>What an image in a release can be.\<close>

definition imageOk :: "Image \<Rightarrow> bool" where
  "imageOk img \<longleftrightarrow> 0 < length (im_file img) \<and> length (im_file img) \<le> kMaxFileNameLength \<and>
     list_all fileCharacter (im_file img) \<and> hd (im_file img) \<noteq> 0x2E \<and> 0 < im_size img \<and>
     0 < im_imageSize img \<and> length (im_sha256 img) = kSha256Size"

lemma length_readHex: "readHex t = Some h \<Longrightarrow> length h = length t div 2"
  by (induction t arbitrary: h rule: readHex.induct) (auto split: if_splits)

lemma readImage_ok: "readImage J object compressed = Some img \<Longrightarrow> imageOk img"
  by (auto simp: readImage_def Let_def imageOk_def validFileName_def positive_def hd_conv_nth word_neq_0_conv
      dest!: length_readHex split: if_splits)

text \<open>The parts of a signed manifest: the line with the signature, and the bytes it signs.\<close>

lemma readSigned_accepts:
  assumes "readSigned J deserialize sha256 verify base64 input board currentVersion = Inr release"
  shows "\<exists>line manifest signature hash.
    input = Some (line @ 0x0A # manifest) \<and> 0x0A \<notin> set line \<and> line \<noteq> [] \<and>
    base64 kMaxSignatureSize line = Some signature \<and> sha256 manifest = Some hash \<and> verify hash signature \<and>
    parseManifest J deserialize (Some manifest) board currentVersion = Inr release"
proof -
  obtain bs n signature where i: "input = Some bs" "firstIndex (\<lambda>c. c = 0x0A) (take 97 bs) = Some n" "n \<noteq> 0"
      "base64 kMaxSignatureSize (take n bs) = Some signature"
      "readManifest J deserialize sha256 verify (Some (drop (n + 1) bs)) (Some signature) board currentVersion = Inr release"
    using assms by (auto simp: readSigned_def split: option.splits if_splits)
  note f = firstIndex_SomeD [OF i(2)]
  have n: "n < length bs" "bs ! n = 0x0A" using f by auto
  have split: "bs = take n bs @ 0x0A # drop (n + 1) bs" using n id_take_nth_drop [of n bs] by simp
  have first: "0x0A \<notin> set (take n bs)"
    using f by (auto simp: in_set_conv_nth)
  have "take n bs \<noteq> []" using n i(3) by auto
  moreover from i(5) obtain hash where "sha256 (drop (n + 1) bs) = Some hash" "verify hash signature"
      "parseManifest J deserialize (Some (drop (n + 1) bs)) board currentVersion = Inr release"
    by (auto simp: readManifest_def verifySignature_def split: if_splits option.splits)
  ultimately show ?thesis using i split first by metis
qed

lemma parseManifest_accepts:
  assumes "parseManifest J deserialize manifest board currentVersion = Inr release"
  shows "rl_versionText release = versionText (rl_version release) \<and> imageOk (rl_firmware release) \<and> imageOk (rl_ui release) \<and>
    (\<exists>current. currentVersion = Some (versionText current) \<and> compareVersions (rl_version release) current > 0)"
  using assms
  by (auto simp: parseManifest_def Let_def parseVersion_iff not_le split: option.splits if_splits dest!: readImage_ok)

end
