(* ===== verification/Web_Ui.thy ===== *)
theory Web_Ui
  imports Release_Manifest
begin

text \<open>
  gateway: WebUiService.h and WebUiService.cpp, which page the gateway serves: the state of the Web UI image
  in the \<open>web\<close> partition.  LittleFS is a parameter: the record \<open>fs_api\<close> of its calls over the flash; the
  manifest in it is read with the accessors of ArduinoJson.  The HTTP library, the text of the recovery page
  and serial output are left out.
\<close>

datatype UiState = UI_Unavailable | UI_MissingManifest | UI_InvalidManifest | UI_Incompatible | UI_Ready | UI_Updating

abbreviation (input) kMaximumManifestBytes :: nat where "kMaximumManifestBytes \<equiv> 1024"
abbreviation (input) kMaximumVersionLength :: nat where "kMaximumVersionLength \<equiv> 31"

text \<open>\<open>fs_open\<close> gives None for a file that cannot be opened, \<open>fs_parse\<close> for one that is not JSON.\<close>

record ('w, 'j) fs_api =
  fs_begin :: "'w \<Rightarrow> 'w \<times> bool"
  fs_stop :: "'w \<Rightarrow> 'w"
  fs_exists :: "'w \<Rightarrow> string \<Rightarrow> bool"
  fs_openSize :: "'w \<Rightarrow> string \<Rightarrow> nat option"
  fs_parse :: "'w \<Rightarrow> string \<Rightarrow> 'j option"

record web_ui =
  ui_state :: UiState
  ui_version :: bytes
  ui_requiredFirmware :: bytes
  ui_mounted :: bool

definition newWebUi :: web_ui where
  "newWebUi = \<lparr>ui_state = UI_Unavailable, ui_version = [], ui_requiredFirmware = [], ui_mounted = False\<rparr>"

definition clearUiManifest :: "web_ui \<Rightarrow> web_ui" where
  "clearUiManifest ui = ui\<lparr>ui_version := [], ui_requiredFirmware := []\<rparr>"

definition indexPresent :: "('w, 'j) fs_api \<Rightarrow> 'w \<Rightarrow> bool" where
  "indexPresent fs w \<longleftrightarrow> fs_exists fs w ''/index.html'' \<or> fs_exists fs w ''/index.html.gz''"

definition firmwareSeriesMatches :: "bytes \<Rightarrow> bytes \<Rightarrow> bool" where
  "firmwareSeriesMatches firmwareVersion required =
     (case firstIndex (\<lambda>c. c = 0x2E) required of
        None \<Rightarrow> False
      | Some minorDot \<Rightarrow>
          let n = (case firstIndex (\<lambda>c. c = 0x2E) (drop (minorDot + 1) required) of
                     None \<Rightarrow> length required
                   | Some k \<Rightarrow> minorDot + 1 + k)
          in n \<noteq> 0 \<and> length firmwareVersion \<ge> n \<and> take n required = take n firmwareVersion \<and>
             (charAt firmwareVersion n = 0 \<or> charAt firmwareVersion n = 0x2E))"

definition inspectManifest :: "('w, 'j) fs_api \<Rightarrow> 'j json_api \<Rightarrow> bytes \<Rightarrow> 'w \<Rightarrow> web_ui \<Rightarrow> web_ui" where
  "inspectManifest fs J firmwareVersion w ui =
     (let ui = clearUiManifest ui in
      if \<not> fs_exists fs w ''/ui-manifest.json'' then ui\<lparr>ui_state := UI_MissingManifest\<rparr>
      else
        case fs_openSize fs w ''/ui-manifest.json'' of
          None \<Rightarrow> ui\<lparr>ui_state := UI_InvalidManifest\<rparr>
        | Some n \<Rightarrow>
            if n = 0 \<or> n > kMaximumManifestBytes then ui\<lparr>ui_state := UI_InvalidManifest\<rparr>
            else
              case fs_parse fs w ''/ui-manifest.json'' of
                None \<Rightarrow> ui\<lparr>ui_state := UI_InvalidManifest\<rparr>
              | Some document \<Rightarrow>
                  case (js_asString J (js_member J document ''ui_version''),
                        js_asString J (js_member J document ''required_firmware'')) of
                    (Some uiVersion, Some required) \<Rightarrow>
                      if uiVersion = [] \<or> length uiVersion > kMaximumVersionLength \<or>
                         required = [] \<or> length required > kMaximumVersionLength \<or> \<not> indexPresent fs w
                      then ui\<lparr>ui_state := UI_InvalidManifest\<rparr>
                      else ui\<lparr>ui_version := uiVersion, ui_requiredFirmware := required,
                             ui_state := (if firmwareSeriesMatches firmwareVersion required then UI_Ready
                               else UI_Incompatible)\<rparr>
                  | _ \<Rightarrow> ui\<lparr>ui_state := UI_InvalidManifest\<rparr>)"

definition webUiBegin :: "('w, 'j) fs_api \<Rightarrow> 'j json_api \<Rightarrow> bytes \<Rightarrow> 'w \<Rightarrow> web_ui \<Rightarrow> 'w \<times> web_ui" where
  "webUiBegin fs J firmwareVersion w ui =
     (let (w, mounted) = fs_begin fs w;
          ui = ui\<lparr>ui_mounted := mounted\<rparr>
      in if \<not> mounted then (w, clearUiManifest (ui\<lparr>ui_state := UI_Unavailable\<rparr>))
         else (w, inspectManifest fs J firmwareVersion w ui))"

definition prepareForFilesystemUpdate :: "('w, 'j) fs_api \<Rightarrow> 'w \<Rightarrow> web_ui \<Rightarrow> 'w \<times> web_ui" where
  "prepareForFilesystemUpdate fs w ui =
     (let ui = clearUiManifest (ui\<lparr>ui_state := UI_Updating\<rparr>) in
      if ui_mounted ui then (fs_stop fs w, ui\<lparr>ui_mounted := False\<rparr>) else (w, ui))"

definition recoverAfterFailedFilesystemUpdate ::
  "('w, 'j) fs_api \<Rightarrow> 'j json_api \<Rightarrow> bytes \<Rightarrow> 'w \<Rightarrow> web_ui \<Rightarrow> 'w \<times> web_ui" where
  "recoverAfterFailedFilesystemUpdate fs J firmwareVersion w ui = webUiBegin fs J firmwareVersion w ui"

text \<open>Whether a request for a page is handled, and whether the page is the one in the partition.\<close>

definition handlePageRequest :: "bool \<Rightarrow> bool \<Rightarrow> web_ui \<Rightarrow> bool option" where
  "handlePageRequest isGet acceptsHtml ui =
     (if \<not> isGet \<or> \<not> acceptsHtml then None else Some (ui_state ui = UI_Ready \<and> ui_mounted ui))"

definition servesAssets :: "web_ui \<Rightarrow> bool" where
  "servesAssets ui \<longleftrightarrow> ui_state ui = UI_Ready"

definition uiStateName :: "web_ui \<Rightarrow> string" where
  "uiStateName ui =
     (case ui_state ui of
        UI_Unavailable \<Rightarrow> ''unavailable'' | UI_MissingManifest \<Rightarrow> ''missing_manifest''
      | UI_InvalidManifest \<Rightarrow> ''invalid_manifest'' | UI_Incompatible \<Rightarrow> ''incompatible''
      | UI_Ready \<Rightarrow> ''ready'' | UI_Updating \<Rightarrow> ''updating'')"

lemma firstIndex_append: "\<not> list_ex P xs \<Longrightarrow> P y \<Longrightarrow> firstIndex P (xs @ y # ys) = Some (length xs)"
  by (induction xs) auto

lemma decimalText_noDot: "\<not> list_ex (\<lambda>c. c = 0x2E) (decimalText n)"
  using decimalText_digits(1) [of n] by (auto simp: list_ex_iff list_all_iff isDigit_def)

lemma charAt_append: "charAt (xs @ ys) (length xs) = charAt ys 0"
  by (simp add: charAt_def nth_append)

lemma decimalText_noZero: "0 \<notin> set (decimalText n)"
proof
  assume "0 \<in> set (decimalText n)"
  then have "isDigit 0" using decimalText_digits(1) [of n] unfolding list_all_iff by blast
  then show False by (simp add: isDigit_def)
qed

text \<open>On canonical versions the series is the major and minor number: the patch level is ignored.\<close>

lemma dot_split_unique:
  "xs @ (0x2E :: u8) # ys = xs' @ 0x2E # ys' \<Longrightarrow> \<not> list_ex (\<lambda>c. c = 0x2E) xs \<Longrightarrow> \<not> list_ex (\<lambda>c. c = 0x2E) xs' \<Longrightarrow>
   xs = xs' \<and> ys = ys'"
proof (induction xs arbitrary: xs')
  case Nil then show ?case by (cases xs') auto
next
  case (Cons x xs) then show ?case by (cases xs') auto
qed

lemma decimalText_inj: "decimalText m = decimalText n \<Longrightarrow> m \<le> 0xFFFF \<Longrightarrow> n \<le> 0xFFFF \<Longrightarrow> m = n"
  by (metis digitsValue_decimal)

lemma firmwareSeries_iff:
  "firmwareSeriesMatches (versionText v) (versionText r) \<longleftrightarrow> vn_major v = vn_major r \<and> vn_minor v = vn_minor r"
proof -
  have le: "unat (x :: u16) \<le> 0xFFFF" for x using unsigned_less [of x, where 'a = nat] by simp
  let ?a = "decimalText (unat (vn_major r))" and ?b = "decimalText (unat (vn_minor r))" and ?c = "decimalText (unat (vn_patch r))"
  let ?x = "decimalText (unat (vn_major v))" and ?y = "decimalText (unat (vn_minor v))" and ?z = "decimalText (unat (vn_patch v))"
  let ?s = "?a @ 0x2E # ?b" and ?t = "?x @ 0x2E # ?y"
  have r: "versionText r = ?s @ 0x2E # ?c" and v: "versionText v = ?t @ 0x2E # ?z" by (simp_all add: versionText_def)
  have i1: "firstIndex (\<lambda>c. c = 0x2E) (versionText r) = Some (length ?a)"
    by (simp add: versionText_def firstIndex_append [OF decimalText_noDot])
  have i2: "firstIndex (\<lambda>c. c = 0x2E) (drop (length ?a + 1) (versionText r)) = Some (length ?b)"
    by (simp add: versionText_def firstIndex_append [OF decimalText_noDot])
  have n: "length ?a + 1 + length ?b = length ?s" by simp
  have m: "firmwareSeriesMatches (versionText v) (versionText r) \<longleftrightarrow>
      length ?s \<le> length (versionText v) \<and> ?s = take (length ?s) (versionText v) \<and>
      (charAt (versionText v) (length ?s) = 0 \<or> charAt (versionText v) (length ?s) = 0x2E)"
    unfolding firmwareSeriesMatches_def i1 option.case i2 Let_def n by (simp add: r)
  show ?thesis
  proof
    assume "firmwareSeriesMatches (versionText v) (versionText r)"
    with m have s: "?s = take (length ?s) (versionText v)" "length ?s \<le> length (versionText v)"
        "charAt (versionText v) (length ?s) \<in> {0, 0x2E}" by auto
    obtain rest where rest: "versionText v = ?s @ rest" using s(1) by (metis append_take_drop_id)
    have "0 \<notin> set (versionText v)"
      using decimalText_noZero by (simp add: versionText_def)
    then have "rest = [] \<or> hd rest = 0x2E"
      using s(3) unfolding rest charAt_append by (cases rest) (auto simp: charAt_def)
    then have "(\<exists>k. ?t @ 0x2E # ?z = ?s @ 0x2E # k) \<or> ?t @ 0x2E # ?z = ?s"
      using rest v by (cases rest) auto
    then have "?x = ?a \<and> ?y = ?b"
    proof
      assume "\<exists>k. ?t @ 0x2E # ?z = ?s @ 0x2E # k"
      then obtain k where "?x @ 0x2E # (?y @ 0x2E # ?z) = ?a @ 0x2E # (?b @ 0x2E # k)" by auto
      then show ?thesis using dot_split_unique [OF _ decimalText_noDot decimalText_noDot] by blast
    next
      assume "?t @ 0x2E # ?z = ?s"
      then have "?x @ 0x2E # (?y @ 0x2E # ?z) = ?a @ 0x2E # ?b" by simp
      then have "?y @ 0x2E # ?z = ?b" using dot_split_unique [OF _ decimalText_noDot decimalText_noDot] by blast
      then have "list_ex (\<lambda>c. c = 0x2E) ?b" by (metis (mono_tags) in_set_conv_decomp list_ex_iff)
      then show ?thesis using decimalText_noDot by blast
    qed
    then show "vn_major v = vn_major r \<and> vn_minor v = vn_minor r"
      using decimalText_inj [OF _ le le] by (metis word_unat_eq_iff)
  next
    assume "vn_major v = vn_major r \<and> vn_minor v = vn_minor r"
    then show "firmwareSeriesMatches (versionText v) (versionText r)"
      unfolding m by (simp add: v charAt_def nth_append)
  qed
qed

end
