(* ===== verification/Update_Service.thy ===== *)
theory Update_Service
  imports Web_Ui
begin

text \<open>
  gateway: UpdateService.h, UpdateService.cpp and GzipInflater.cpp, which check for a release and install it.
  The HTTP client, the \<open>Update\<close> library that writes the other application partition, the partition calls
  and the mount of the file system are a parameter: the record \<open>update_api\<close> of the calls over a state of type
  \<open>'w\<close>.  \<open>tinfl_decompress\<close> of the ROM is a function from its state, the input, the window and the
  position to the new state, the bytes consumed, the bytes produced and a status.  SHA-256 over a stream is
  the parameter applied to all the bytes.  A \<open>size_t\<close> counter is a \<open>nat\<close>: the flash is far smaller than 4 GB,
  so none of them wraps.  The error code of a step is None for the null pointer.  The task creation, the
  critical section and serial output are left out; a background task is one step.
\<close>

abbreviation (input) kMaxRedirects :: nat where "kMaxRedirects \<equiv> 5"
abbreviation (input) kChunkSize :: nat where "kChunkSize \<equiv> 2048"
abbreviation (input) kSectorSize :: nat where "kSectorSize \<equiv> 4096"
abbreviation (input) kUiWindowSize :: nat where "kUiWindowSize \<equiv> 4096"
abbreviation (input) kConfirmAfterMs :: u32 where "kConfirmAfterMs \<equiv> 60000"
abbreviation (input) kRejectAfterMs :: u32 where "kRejectAfterMs \<equiv> 600000"

definition kReleases :: bytes where
  "kReleases = map of_char ''https://github.com/strange-v/RadioSensors/releases''"

datatype UpdateState = UP_Idle | UP_Checking | UP_UpToDate | UP_Available | UP_Installing | UP_Restarting | UP_Failed

text \<open>\<open>ht_read\<close> gives None for a negative result and the bytes read otherwise.\<close>

record 'w update_api =
  ht_init :: "bytes \<Rightarrow> 'w \<Rightarrow> 'w \<times> bool"
  ht_open :: "'w \<Rightarrow> 'w \<times> bool"
  ht_fetchHeaders :: "'w \<Rightarrow> 'w \<times> int"
  ht_statusCode :: "'w \<Rightarrow> int"
  ht_flush :: "'w \<Rightarrow> 'w"
  ht_redirect :: "'w \<Rightarrow> 'w \<times> bool"
  ht_close :: "'w \<Rightarrow> 'w"
  ht_read :: "nat \<Rightarrow> 'w \<Rightarrow> 'w \<times> bytes option"
  ht_complete :: "'w \<Rightarrow> bool"
  ht_cleanup :: "'w \<Rightarrow> 'w"
  up_begin :: "u32 \<Rightarrow> 'w \<Rightarrow> 'w \<times> bool"
  up_write :: "bytes \<Rightarrow> 'w \<Rightarrow> 'w \<times> nat"
  up_abort :: "'w \<Rightarrow> 'w"
  up_finish :: "'w \<Rightarrow> 'w \<times> bool"
  pt_size :: "'w \<Rightarrow> nat option"
  pt_read :: "nat \<Rightarrow> nat \<Rightarrow> 'w \<Rightarrow> 'w \<times> bytes option"
  pt_erase :: "nat \<Rightarrow> nat \<Rightarrow> 'w \<Rightarrow> 'w \<times> bool"
  pt_write :: "nat \<Rightarrow> bytes \<Rightarrow> 'w \<Rightarrow> 'w \<times> bool"

record update_service =
  us_state :: UpdateState
  us_availableVersion :: bytes
  us_progress :: u8
  us_error :: string
  us_pendingVerify :: bool
  us_release :: "Release option"
  us_taskRunning :: bool
  us_imageOnTrial :: bool
  us_progressDone :: nat
  us_progressTotal :: nat

definition newUpdateService :: update_service where
  "newUpdateService = \<lparr>us_state = UP_Idle, us_availableVersion = [], us_progress = 0, us_error = '''',
     us_pendingVerify = False, us_release = None, us_taskRunning = False, us_imageOnTrial = False,
     us_progressDone = 0, us_progressTotal = 1\<rparr>"

definition setUpdateState :: "UpdateState \<Rightarrow> string \<Rightarrow> update_service \<Rightarrow> update_service" where
  "setUpdateState state error us =
     (let us = us\<lparr>us_state := state, us_error := error\<rparr>
      in if state \<noteq> UP_Installing then us\<lparr>us_progress := 0\<rparr> else us)"

definition failUpdate :: "string \<Rightarrow> update_service \<Rightarrow> update_service" where
  "failUpdate error us = setUpdateState UP_Failed error us"

subsection \<open>Download\<close>

text \<open>A sink takes its context, the bytes and the world.  None is a sink that never returns.\<close>

type_synonym ('c, 'w) sink = "'c \<Rightarrow> bytes \<Rightarrow> 'w \<Rightarrow> ('c \<times> 'w \<times> bool) option"

definition isRedirect :: "int \<Rightarrow> bool" where
  "isRedirect status \<longleftrightarrow> \<not> (status \<noteq> 301 \<and> status \<noteq> 302 \<and> status \<noteq> 303 \<and> status \<noteq> 307 \<and> status \<noteq> 308)"

text \<open>The loop over the redirects, with the number of requests left.\<close>

fun redirectLoop :: "'w update_api \<Rightarrow> nat \<Rightarrow> int \<Rightarrow> int \<Rightarrow> 'w \<Rightarrow> 'w \<times> int \<times> int" where
  "redirectLoop api 0 status contentLength w = (w, status, contentLength)"
| "redirectLoop api (Suc n) status contentLength w =
     (let (w, opened) = ht_open api w in
      if \<not> opened then (w, status, contentLength)
      else
        let (w, contentLength) = ht_fetchHeaders api w;
            status = ht_statusCode api w
        in if \<not> isRedirect status then (w, status, contentLength)
           else
             let w = ht_flush api w;
                 (w, redirected) = ht_redirect api w;
                 w = ht_close api w
             in if \<not> redirected then (w, 0, contentLength)
                else redirectLoop api n status contentLength w)"

text \<open>The loop over the chunks of the body: what is left of the limit decreases.\<close>

function readLoop :: "'w update_api \<Rightarrow> ('c, 'w) sink \<Rightarrow> nat \<Rightarrow> nat \<Rightarrow> 'c \<Rightarrow> 'w \<Rightarrow> ('c \<times> 'w \<times> string option) option" where
  "readLoop api sink maxSize received c w =
     (case ht_read api kChunkSize w of
        (w, None) \<Rightarrow> Some (c, w, Some ''download_failed'')
      | (w, Some bs) \<Rightarrow>
          if bs = [] then Some (c, w, None)
          else if received + length bs > maxSize then Some (c, w, Some ''too_large'')
          else
            case sink c bs w of
              None \<Rightarrow> None
            | Some (c, w, taken) \<Rightarrow>
                if \<not> taken then Some (c, w, Some ''write_failed'')
                else readLoop api sink maxSize (received + length bs) c w)"
  by pat_completeness auto
termination by (relation "measure (\<lambda>(api, sink, maxSize, received, c, w). maxSize - received)") (auto simp flip: length_greater_0_conv)

declare readLoop.simps [simp del]

definition download ::
  "'w update_api \<Rightarrow> bool \<Rightarrow> bytes \<Rightarrow> nat \<Rightarrow> ('c, 'w) sink \<Rightarrow> 'c \<Rightarrow> 'w \<Rightarrow> ('c \<times> 'w \<times> string option) option" where
  "download api chunkMade url maxSize sink c w =
     (let (w, made) = ht_init api url w in
      if \<not> made then Some (c, w, Some ''http_init'')
      else
        let (w, status, contentLength) = redirectLoop api (kMaxRedirects + 1) 0 (-1) w;
            finish = (\<lambda>w. ht_cleanup api (ht_close api w))
        in if status = 404 then Some (c, finish w, Some ''not_found'')
           else if status = 200 then
             if contentLength > int maxSize then Some (c, finish w, Some ''too_large'')
             else if \<not> chunkMade then Some (c, finish w, Some ''out_of_memory'')
             else
               map_option (\<lambda>(c, w, error).
                   (c, finish w, if error = None \<and> \<not> ht_complete api w then Some ''download_failed'' else error))
                 (readLoop api sink maxSize 0 c w)
           else Some (c, finish w, Some ''download_failed''))"

record Buffer =
  bf_capacity :: nat
  bf_data :: bytes

definition appendToBuffer :: "(Buffer, 'w) sink" where
  "appendToBuffer buf bs w =
     (if length bs > bf_capacity buf - length (bf_data buf) then Some (buf, w, False)
      else Some (buf\<lparr>bf_data := bf_data buf @ bs\<rparr>, w, True))"

subsection \<open>The check for a release\<close>

definition networkError :: "bool \<Rightarrow> bool \<Rightarrow> string option" where
  "networkError hasIp synchronized =
     (if \<not> hasIp then Some ''network_unavailable''
      else if \<not> synchronized then Some ''time_not_synchronized'' else None)"

text \<open>The functions of ReleaseManifest.cpp with their libraries: the bytes, the board and the running version.\<close>

type_synonym manifest_reader = "buffer \<Rightarrow> bytes option \<Rightarrow> bytes option \<Rightarrow> ReleaseStatus + Release"

definition fetchManifest ::
  "'w update_api \<Rightarrow> manifest_reader \<Rightarrow> bool \<Rightarrow> bool \<Rightarrow> bytes \<Rightarrow> bytes \<Rightarrow> bytes \<Rightarrow> 'w \<Rightarrow>
   ('w \<times> (string + (ReleaseStatus + Release))) option" where
  "fetchManifest api reader bufferMade chunkMade path board currentVersion w =
     (if \<not> bufferMade then Some (w, Inl ''out_of_memory'')
      else
        let url = take 127 (kReleases @ map of_char ''/'' @ path @ map of_char ''/manifest.signed'')
        in case download api chunkMade url kMaxSignedManifestSize appendToBuffer
                  \<lparr>bf_capacity = kMaxSignedManifestSize, bf_data = []\<rparr> w of
             None \<Rightarrow> None
           | Some (buf, w, Some error) \<Rightarrow> Some (w, Inl error)
           | Some (buf, w, None) \<Rightarrow> Some (w, Inr (reader (Some (bf_data buf)) (Some board) (Some currentVersion))))"

text \<open>What the tasks take from the environment.\<close>

record update_env =
  ue_reader :: manifest_reader
  ue_bufferMade :: bool
  ue_chunkMade :: bool
  ue_sectorMade :: bool
  ue_decompressorMade :: bool
  ue_hasIp :: bool
  ue_synchronized :: bool
  ue_board :: bytes
  ue_version :: bytes
  ue_sha256 :: "bytes \<Rightarrow> bytes"
  ue_now :: u32

definition checkRelease ::
  "'w update_api \<Rightarrow> update_env \<Rightarrow> 'w \<Rightarrow> update_service \<Rightarrow> ('w \<times> update_service) option" where
  "checkRelease api E w us =
     (case networkError (ue_hasIp E) (ue_synchronized E) of
        Some error \<Rightarrow> Some (w, failUpdate error us)
      | None \<Rightarrow>
          map_option (\<lambda>(w, result).
            (w, case result of
                  Inl error \<Rightarrow> failUpdate error us
                | Inr (Inl status) \<Rightarrow>
                    if status = RL_NotNewer then setUpdateState UP_UpToDate '''' us
                    else failUpdate (releaseStatusName status) us
                | Inr (Inr release) \<Rightarrow>
                    setUpdateState UP_Available '''' (us\<lparr>us_release := Some release,
                      us_availableVersion := rl_versionText release\<rparr>)))
            (fetchManifest api (ue_reader E) (ue_bufferMade E) (ue_chunkMade E) (map of_char ''latest/download'')
               (ue_board E) (ue_version E) w))"

subsection \<open>The firmware\<close>

definition advanceProgress :: "nat \<Rightarrow> update_service \<Rightarrow> update_service" where
  "advanceProgress n us =
     (let done' = us_progressDone us + n
      in us\<lparr>us_progressDone := done', us_progress := of_nat ((done' * 100) div us_progressTotal us)\<rparr>)"

text \<open>\<open>fw_hashed\<close> are the bytes given to the hash so far.\<close>

record FirmwareWriter =
  fw_hashed :: bytes
  fw_written :: nat

definition writeFirmware :: "'w update_api \<Rightarrow> (FirmwareWriter \<times> update_service, 'w) sink" where
  "writeFirmware api c bs w =
     (let (writer, us) = c;
          writer = writer\<lparr>fw_hashed := fw_hashed writer @ bs\<rparr>;
          (w, n) = up_write api bs w
      in if n \<noteq> length bs then Some ((writer, us), w, False)
         else Some ((writer\<lparr>fw_written := fw_written writer + length bs\<rparr>, advanceProgress (length bs) us), w, True))"

definition imageUrl :: "Release \<Rightarrow> Image \<Rightarrow> bytes" where
  "imageUrl release img =
     take 191 (kReleases @ map of_char ''/download/'' @ rl_versionText release @ map of_char ''/'' @ im_file img)"

definition installFirmware ::
  "'w update_api \<Rightarrow> update_env \<Rightarrow> Release \<Rightarrow> 'w \<Rightarrow> update_service \<Rightarrow> ('w \<times> update_service \<times> string option) option" where
  "installFirmware api E release w us =
     (let img = rl_firmware release;
          (w, begun) = up_begin api (im_size img) w
      in if \<not> begun then Some (w, us, Some ''flash_begin_failed'')
         else
           case download api (ue_chunkMade E) (imageUrl release img) (unat (im_size img)) (writeFirmware api)
                  (\<lparr>fw_hashed = [], fw_written = 0\<rparr>, us) w of
             None \<Rightarrow> None
           | Some ((writer, us), w, error) \<Rightarrow>
               let digest = ue_sha256 E (fw_hashed writer);
                   error = (if error = None \<and> fw_written writer \<noteq> unat (im_size img) then Some ''size_mismatch'' else error);
                   error = (if error = None \<and> digest \<noteq> im_sha256 img then Some ''hash_mismatch'' else error)
               in if error \<noteq> None then Some (up_abort api w, us, error)
                  else
                    let (w, finished) = up_finish api w
                    in Some (w, us, if finished then None else Some ''image_invalid''))"

subsection \<open>GzipInflater.cpp\<close>

datatype GzipState = GZ_Header | GZ_Deflate | GZ_Trailer | GZ_Failed

abbreviation (input) kGzipHeaderSize :: nat where "kGzipHeaderSize \<equiv> 10"
abbreviation (input) kGzipTrailerSize :: nat where "kGzipTrailerSize \<equiv> 8"

text \<open>\<open>gz_header\<close> holds the header bytes seen so far.\<close>

record 't inflater =
  gz_state :: GzipState
  gz_decompressor :: 't
  gz_window :: bytes
  gz_position :: nat
  gz_output :: nat
  gz_header :: bytes
  gz_trailer :: nat

text \<open>State, input, window, position and room: the new state, bytes consumed, bytes produced and the status
  (0 is \<open>TINFL_STATUS_DONE\<close>, a negative one an error).\<close>

type_synonym 't tinfl = "'t \<Rightarrow> bytes \<Rightarrow> bytes \<Rightarrow> nat \<Rightarrow> nat \<Rightarrow> 't \<times> nat \<times> bytes \<times> int"

definition inflaterBegin :: "bool \<Rightarrow> 't \<Rightarrow> nat \<Rightarrow> 't inflater option" where
  "inflaterBegin memory start windowSize =
     (if windowSize = 0 \<or> windowSize AND (windowSize - 1) \<noteq> 0 \<or> \<not> memory then None
      else Some \<lparr>gz_state = GZ_Header, gz_decompressor = start, gz_window = zeros windowSize, gz_position = 0,
             gz_output = 0, gz_header = [], gz_trailer = 0\<rparr>)"

definition headerAccepted :: "bytes \<Rightarrow> bool" where
  "headerAccepted h \<longleftrightarrow> \<not> (h ! 0 \<noteq> 0x1F \<or> h ! 1 \<noteq> 0x8B \<or> h ! 2 \<noteq> 8 \<or> h ! 3 \<noteq> 0)"

text \<open>What follows a call of the decompressor that produced these bytes, before the status is looked at.\<close>

definition inflaterAdvance :: "'t \<Rightarrow> bytes \<Rightarrow> 't inflater \<Rightarrow> 't inflater" where
  "inflaterAdvance decompressor produced g =
     g\<lparr>gz_decompressor := decompressor, gz_window := put (gz_window g) (gz_position g) produced,
       gz_position := (if produced = [] then gz_position g
         else (gz_position g + length produced) AND (length (gz_window g) - 1)),
       gz_output := gz_output g + length produced\<rparr>"

text \<open>One pass of the loop of \<open>write\<close>: Inl to go on with the rest of the input, Inr to return.\<close>

definition inflaterStep ::
  "'t tinfl \<Rightarrow> ('c, 'w) sink \<Rightarrow> 't inflater \<Rightarrow> bytes \<Rightarrow> 'c \<Rightarrow> 'w \<Rightarrow>
   (('t inflater \<times> bytes \<times> 'c \<times> 'w) + ('t inflater \<times> 'c \<times> 'w \<times> bool)) option" where
  "inflaterStep tinfl sink g input c w =
     (case gz_state g of
        GZ_Failed \<Rightarrow> Some (Inr (g, c, w, False))
      | GZ_Header \<Rightarrow>
          (let g = g\<lparr>gz_header := gz_header g @ [hd input]\<rparr> in
           if length (gz_header g) = kGzipHeaderSize then
             if \<not> headerAccepted (gz_header g) then Some (Inr (g\<lparr>gz_state := GZ_Failed\<rparr>, c, w, False))
             else Some (Inl (g\<lparr>gz_state := GZ_Deflate\<rparr>, tl input, c, w))
           else Some (Inl (g, tl input, c, w)))
      | GZ_Deflate \<Rightarrow>
          (case tinfl (gz_decompressor g) input (gz_window g) (gz_position g)
                  (length (gz_window g) - gz_position g) of
             (decompressor, consumed, produced, status) \<Rightarrow>
               (case (if produced = [] then Some (c, w, True) else sink c produced w) of
                  None \<Rightarrow> None
                | Some (c, w, taken) \<Rightarrow>
                    if \<not> taken
                    then Some (Inr (g\<lparr>gz_decompressor := decompressor,
                             gz_window := put (gz_window g) (gz_position g) produced, gz_state := GZ_Failed\<rparr>, c, w, False))
                    else
                      let g = inflaterAdvance decompressor produced g in
                      if status = 0 then Some (Inl (g\<lparr>gz_state := GZ_Trailer\<rparr>, drop consumed input, c, w))
                      else if status < 0 \<or> consumed = 0 \<and> produced = []
                      then Some (Inr (g\<lparr>gz_state := GZ_Failed\<rparr>, c, w, False))
                      else Some (Inl (g, drop consumed input, c, w))))
      | GZ_Trailer \<Rightarrow>
          (if length input > kGzipTrailerSize - gz_trailer g
           then Some (Inr (g\<lparr>gz_state := GZ_Failed\<rparr>, c, w, False))
           else Some (Inr (g\<lparr>gz_trailer := gz_trailer g + length input\<rparr>, c, w, True))))"

partial_function (option) inflaterWrite ::
  "'t tinfl \<Rightarrow> ('c, 'w) sink \<Rightarrow> 't inflater \<Rightarrow> bytes \<Rightarrow> 'c \<Rightarrow> 'w \<Rightarrow> ('t inflater \<times> 'c \<times> 'w \<times> bool) option" where
  "inflaterWrite tinfl sink g input c w =
     (if input = [] then Some (g, c, w, gz_state g \<noteq> GZ_Failed)
      else
        case inflaterStep tinfl sink g input c w of
          None \<Rightarrow> None
        | Some result \<Rightarrow>
            (case result of
               Inr r \<Rightarrow> Some r
             | Inl (g, input, c, w) \<Rightarrow> inflaterWrite tinfl sink g input c w))"

definition inflaterFinish :: "'t inflater \<Rightarrow> bool" where
  "inflaterFinish g \<longleftrightarrow> gz_state g = GZ_Trailer"

subsection \<open>The Web UI\<close>

text \<open>\<open>uw_hashed\<close> are the bytes given to the hash so far.\<close>

record UiWriter =
  uw_sector :: bytes
  uw_fill :: nat
  uw_offset :: nat
  uw_hashed :: bytes

definition erasedBytes :: "bytes \<Rightarrow> bool" where
  "erasedBytes bs \<longleftrightarrow> list_all (\<lambda>b. b = 0xFF) bs"

definition commitSector :: "'w update_api \<Rightarrow> UiWriter \<Rightarrow> 'w \<Rightarrow> UiWriter \<times> 'w \<times> bool" where
  "commitSector api writer w =
     (case pt_read api (uw_offset writer) kSectorSize w of
        (w, None) \<Rightarrow> (writer, w, False)
      | (w, Some existing) \<Rightarrow>
          let (w, ok) =
                (if existing = uw_sector writer then (w, True)
                 else
                   let (w, ok) = pt_erase api (uw_offset writer) kSectorSize w in
                   if \<not> ok then (w, False)
                   else if erasedBytes (uw_sector writer) then (w, True)
                   else pt_write api (uw_offset writer) (uw_sector writer) w)
          in if \<not> ok then (writer, w, False)
             else (writer\<lparr>uw_offset := uw_offset writer + kSectorSize, uw_fill := 0\<rparr>, w, True))"

partial_function (option) writeSectors ::
  "'w update_api \<Rightarrow> nat \<Rightarrow> UiWriter \<Rightarrow> bytes \<Rightarrow> 'w \<Rightarrow> (UiWriter \<times> 'w \<times> bool) option" where
  "writeSectors api partitionSize writer bs w =
     (if bs = [] then Some (writer, w, True)
      else if uw_offset writer \<ge> partitionSize then Some (writer, w, False)
      else
        let n = min (length bs) (kSectorSize - uw_fill writer);
            writer = writer\<lparr>uw_sector := put (uw_sector writer) (uw_fill writer) (take n bs),
                            uw_fill := uw_fill writer + n\<rparr>
        in case (if uw_fill writer = kSectorSize then commitSector api writer w else (writer, w, True)) of
             (writer, w, ok) \<Rightarrow>
               if \<not> ok then Some (writer, w, False) else writeSectors api partitionSize writer (drop n bs) w)"

definition writeUiImage :: "'w update_api \<Rightarrow> nat \<Rightarrow> (UiWriter, 'w) sink" where
  "writeUiImage api partitionSize writer bs w =
     writeSectors api partitionSize (writer\<lparr>uw_hashed := uw_hashed writer @ bs\<rparr>) bs w"

definition receiveUi ::
  "'w update_api \<Rightarrow> 't tinfl \<Rightarrow> nat \<Rightarrow> ('t inflater \<times> UiWriter \<times> update_service, 'w) sink" where
  "receiveUi api tinfl partitionSize c bs w =
     (case c of (g, writer, us) \<Rightarrow>
        map_option (\<lambda>(g, writer, w, ok). ((g, writer, advanceProgress (length bs) us), w, ok))
          (inflaterWrite tinfl (writeUiImage api partitionSize) g bs writer w))"

text \<open>The decompressor of the ROM, with its state after \<open>tinfl_init\<close>, and the file system of the Web UI.\<close>

record ('w, 't, 'j) ui_env =
  ux_tinfl :: "'t tinfl"
  ux_start :: 't
  ux_fs :: "('w, 'j) fs_api"
  ux_json :: "'j json_api"

definition installUi ::
  "'w update_api \<Rightarrow> update_env \<Rightarrow> ('w, 't, 'j) ui_env \<Rightarrow> Release \<Rightarrow> 'w \<Rightarrow> web_ui \<Rightarrow> update_service \<Rightarrow>
   ('w \<times> web_ui \<times> update_service \<times> string option) option" where
  "installUi api E X release w ui us =
     (let img = rl_ui release in
      case pt_size api w of
        None \<Rightarrow> Some (w, ui, us, Some ''ui_partition_missing'')
      | Some partitionSize \<Rightarrow>
          if unat (im_imageSize img) \<noteq> partitionSize \<or> partitionSize mod kSectorSize \<noteq> 0
          then Some (w, ui, us, Some ''ui_size_mismatch'')
          else if \<not> ue_sectorMade E then Some (w, ui, us, Some ''out_of_memory'')
          else
            case inflaterBegin (ue_decompressorMade E) (ux_start X) kUiWindowSize of
              None \<Rightarrow> Some (w, ui, us, Some ''out_of_memory'')
            | Some g \<Rightarrow>
                let (w, ui) = prepareForFilesystemUpdate (ux_fs X) w ui;
                    writer = \<lparr>uw_sector = zeros kSectorSize, uw_fill = 0, uw_offset = 0, uw_hashed = []\<rparr>
                in case download api (ue_chunkMade E) (imageUrl release img) (unat (im_size img))
                          (receiveUi api (ux_tinfl X) partitionSize) (g, writer, us) w of
                     None \<Rightarrow> None
                   | Some ((g, writer, us), w, error) \<Rightarrow>
                       let digest = ue_sha256 E (uw_hashed writer);
                           error = (if error = None \<and> (\<not> inflaterFinish g \<or> uw_fill writer \<noteq> 0 \<or>
                                        uw_offset writer \<noteq> unat (im_imageSize img))
                                    then Some ''size_mismatch'' else error);
                           error = (if error = None \<and> digest \<noteq> im_sha256 img then Some ''hash_mismatch'' else error)
                       in if error \<noteq> None
                          then (case recoverAfterFailedFilesystemUpdate (ux_fs X) (ux_json X) (ue_version E) w ui of
                                  (w, ui) \<Rightarrow> Some (w, ui, us, error))
                          else Some (w, ui, us, None))"

subsection \<open>The tasks\<close>

text \<open>The last component is a request to restart.\<close>

definition installRelease ::
  "'w update_api \<Rightarrow> update_env \<Rightarrow> ('w, 't, 'j) ui_env \<Rightarrow> Release \<Rightarrow> 'w \<Rightarrow> web_ui \<Rightarrow> update_service \<Rightarrow>
   ('w \<times> web_ui \<times> update_service \<times> bool) option" where
  "installRelease api E X release w ui us =
     (case networkError (ue_hasIp E) (ue_synchronized E) of
        Some error \<Rightarrow> Some (w, ui, failUpdate error us, False)
      | None \<Rightarrow>
          let us = us\<lparr>us_progressDone := 0,
                us_progressTotal := unat (im_size (rl_ui release) + im_size (rl_firmware release))\<rparr>
          in case installUi api E X release w ui us of
               None \<Rightarrow> None
             | Some (w, ui, us, Some error) \<Rightarrow> Some (w, ui, failUpdate error us, False)
             | Some (w, ui, us, None) \<Rightarrow>
                 case installFirmware api E release w us of
                   None \<Rightarrow> None
                 | Some (w, us, Some error) \<Rightarrow>
                     (case recoverAfterFailedFilesystemUpdate (ux_fs X) (ux_json X) (ue_version E) w ui of
                        (w, ui) \<Rightarrow> Some (w, ui, failUpdate error us, False))
                 | Some (w, us, None) \<Rightarrow> Some (w, ui, setUpdateState UP_Restarting '''' us, True))"

definition repairUi ::
  "'w update_api \<Rightarrow> update_env \<Rightarrow> ('w, 't, 'j) ui_env \<Rightarrow> 'w \<Rightarrow> web_ui \<Rightarrow> update_service \<Rightarrow>
   ('w \<times> web_ui \<times> update_service \<times> bool) option" where
  "repairUi api E X w ui us =
     (case networkError (ue_hasIp E) (ue_synchronized E) of
        Some error \<Rightarrow> Some (w, ui, failUpdate error us, False)
      | None \<Rightarrow>
          case fetchManifest api (ue_reader E) (ue_bufferMade E) (ue_chunkMade E)
                 (take 47 (map of_char ''download/'' @ ue_version E)) (ue_board E) (map of_char ''0.0.0'') w of
            None \<Rightarrow> None
          | Some (w, Inl error) \<Rightarrow> Some (w, ui, failUpdate error us, False)
          | Some (w, Inr (Inl status)) \<Rightarrow> Some (w, ui, failUpdate (releaseStatusName status) us, False)
          | Some (w, Inr (Inr result)) \<Rightarrow>
              if rl_versionText result \<noteq> ue_version E then Some (w, ui, failUpdate ''version_mismatch'' us, False)
              else
                let us = us\<lparr>us_release := Some result, us_progressDone := 0,
                      us_progressTotal := unat (im_size (rl_ui result))\<rparr>
                in case installUi api E X result w ui us of
                     None \<Rightarrow> None
                   | Some (w, ui, us, Some error) \<Rightarrow> Some (w, ui, failUpdate error us, False)
                   | Some (w, ui, us, None) \<Rightarrow> Some (w, ui, setUpdateState UP_Restarting '''' us, True))"

text \<open>A task is created in a state: the new service and whether it runs.\<close>

definition startTask :: "bool \<Rightarrow> UpdateState \<Rightarrow> update_service \<Rightarrow> update_service \<times> bool" where
  "startTask taskMade state us =
     (if us_taskRunning us then (us, False)
      else
        let us = setUpdateState state '''' (us\<lparr>us_taskRunning := True\<rparr>)
        in if \<not> taskMade then (failUpdate ''task_failed'' (us\<lparr>us_taskRunning := False\<rparr>), False) else (us, True))"

definition startCheck :: "bool \<Rightarrow> bool \<Rightarrow> update_service \<Rightarrow> update_service \<times> bool" where
  "startCheck recoveryBlocked taskMade us =
     (if recoveryBlocked then (us, False) else startTask taskMade UP_Checking us)"

definition startInstall :: "bool \<Rightarrow> bool \<Rightarrow> bool \<Rightarrow> bool \<Rightarrow> update_service \<Rightarrow> update_service \<times> bool" where
  "startInstall recoveryBlocked backupBusy otaUpdating taskMade us =
     (if recoveryBlocked \<or> backupBusy \<or> otaUpdating \<or> us_state us \<noteq> UP_Available then (us, False)
      else startTask taskMade UP_Installing us)"

definition startUiRepair :: "bool \<Rightarrow> bool \<Rightarrow> bool \<Rightarrow> bool \<Rightarrow> update_service \<Rightarrow> update_service \<times> bool" where
  "startUiRepair recoveryBlocked backupBusy otaUpdating taskMade us =
     (if recoveryBlocked \<or> backupBusy \<or> otaUpdating then (us, False)
      else startTask taskMade UP_Installing us)"

definition taskEnds :: "update_service \<Rightarrow> update_service" where
  "taskEnds us = us\<lparr>us_taskRunning := False\<rparr>"

definition updateBegin :: "bool \<Rightarrow> update_service \<Rightarrow> update_service" where
  "updateBegin pendingVerify us = us\<lparr>us_imageOnTrial := pendingVerify, us_pendingVerify := pendingVerify\<rparr>"

text \<open>What the loop does with an image on trial; the second component is a return to the previous image.\<close>

definition updateLoop :: "bool \<Rightarrow> bool \<Rightarrow> u32 \<Rightarrow> update_service \<Rightarrow> update_service \<times> bool" where
  "updateLoop hasIp confirmed now us =
     (if \<not> us_imageOnTrial us then (us, False)
      else if now \<ge> kConfirmAfterMs \<and> hasIp
      then (us\<lparr>us_imageOnTrial := False, us_pendingVerify := \<not> confirmed\<rparr>, False)
      else if now \<ge> kRejectAfterMs then (us, True)
      else (us, False))"

definition updateStateName :: "UpdateState \<Rightarrow> string" where
  "updateStateName state =
     (case state of
        UP_Idle \<Rightarrow> ''idle'' | UP_Checking \<Rightarrow> ''checking'' | UP_UpToDate \<Rightarrow> ''up_to_date''
      | UP_Available \<Rightarrow> ''available'' | UP_Installing \<Rightarrow> ''installing'' | UP_Restarting \<Rightarrow> ''restarting''
      | UP_Failed \<Rightarrow> ''failed'')"

end
