(* ===== verification/Update_Install.thy ===== *)
theory Update_Install
  imports Update_Service
begin

text \<open>
  What an installation does to the flash: the image that boots next and the Web UI partition.  The locale
  \<open>update_flash\<close> states what the code relies on in the libraries: \<open>boot w\<close> is the image selected for the
  next boot, \<open>staged w\<close> what has been written since \<open>Update.begin\<close>, and \<open>web w\<close> the bytes of the partition.
\<close>

definition sameFlash :: "('w \<Rightarrow> bytes option) \<Rightarrow> ('w \<Rightarrow> bytes) \<Rightarrow> ('w \<Rightarrow> nat \<Rightarrow> u8) \<Rightarrow> 'w \<Rightarrow> 'w \<Rightarrow> bool" where
  "sameFlash boot staged web w w' \<longleftrightarrow> boot w' = boot w \<and> staged w' = staged w \<and> web w' = web w"

lemma sameFlash_trans:
  "sameFlash boot staged web w w1 \<Longrightarrow> sameFlash boot staged web w1 w2 \<Longrightarrow> sameFlash boot staged web w w2"
  by (simp add: sameFlash_def)

lemma sameFlash_refl [simp]: "sameFlash boot staged web w w"
  by (simp add: sameFlash_def)

text \<open>The network and the file system leave the flash alone.  A write that stores everything appends; only a
  successful end selects what was staged.  A read tells the truth; an erase and a write touch their range
  only, and a write into an erased range stores its bytes.\<close>

locale update_flash =
  fixes api :: "'w update_api" and fs :: "('w, 'j) fs_api"
    and boot :: "'w \<Rightarrow> bytes option" and staged :: "'w \<Rightarrow> bytes" and web :: "'w \<Rightarrow> nat \<Rightarrow> u8"
  assumes network_same:
      "ht_init api url w = (w', b) \<Longrightarrow> sameFlash boot staged web w w'"
      "ht_open api w = (w', b) \<Longrightarrow> sameFlash boot staged web w w'"
      "ht_fetchHeaders api w = (w', n) \<Longrightarrow> sameFlash boot staged web w w'"
      "sameFlash boot staged web w (ht_flush api w)"
      "ht_redirect api w = (w', b) \<Longrightarrow> sameFlash boot staged web w w'"
      "sameFlash boot staged web w (ht_close api w)"
      "ht_read api k w = (w', r) \<Longrightarrow> sameFlash boot staged web w w'"
      "sameFlash boot staged web w (ht_cleanup api w)"
    and files_same:
      "fs_begin fs w = (w', b) \<Longrightarrow> sameFlash boot staged web w w'"
      "sameFlash boot staged web w (fs_stop fs w)"
    and begin_flash: "up_begin api size' w = (w', b) \<Longrightarrow> boot w' = boot w \<and> web w' = web w \<and> (b \<longrightarrow> staged w' = [])"
    and write_flash: "up_write api bs w = (w', k) \<Longrightarrow>
      boot w' = boot w \<and> web w' = web w \<and> (k = length bs \<longrightarrow> staged w' = staged w @ bs)"
    and abort_flash: "boot (up_abort api w) = boot w" "web (up_abort api w) = web w"
    and finish_flash: "up_finish api w = (w', b) \<Longrightarrow> boot w' = (if b then Some (staged w) else boot w) \<and> web w' = web w"
    and read_flash: "pt_read api off k w = (w', r) \<Longrightarrow> sameFlash boot staged web w w' \<and>
      (\<forall>bs. r = Some bs \<longrightarrow> bs = map (web w) [off..<off + k])"
    and erase_flash: "pt_erase api off k w = (w', b) \<Longrightarrow> boot w' = boot w \<and>
      (\<forall>i. i < off \<or> off + k \<le> i \<longrightarrow> web w' i = web w i) \<and> (b \<longrightarrow> (\<forall>i. off \<le> i \<and> i < off + k \<longrightarrow> web w' i = 0xFF))"
    and program_flash: "pt_write api off bs w = (w', b) \<Longrightarrow> boot w' = boot w \<and>
      (\<forall>i. i < off \<or> off + length bs \<le> i \<longrightarrow> web w' i = web w i) \<and>
      (b \<and> (\<forall>i. off \<le> i \<and> i < off + length bs \<longrightarrow> web w i = 0xFF) \<longrightarrow> (\<forall>i < length bs. web w' (off + i) = bs ! i))"
begin

lemma redirectLoop_same: "redirectLoop api n status len w = (w', r) \<Longrightarrow> sameFlash boot staged web w w'"
proof (induction n arbitrary: status len w)
  case (Suc n)
  obtain w1 b1 where w1: "ht_open api w = (w1, b1)" by fastforce
  obtain w2 len2 where w2: "ht_fetchHeaders api w1 = (w2, len2)" by fastforce
  obtain w3 b3 where w3: "ht_redirect api (ht_flush api w2) = (w3, b3)" by fastforce
  note s1 = network_same(2) [OF w1] and s2 = sameFlash_trans [OF network_same(2) [OF w1] network_same(3) [OF w2]]
  have s3: "sameFlash boot staged web w (ht_close api w3)"
    using sameFlash_trans [OF sameFlash_trans [OF sameFlash_trans [OF s2 network_same(4)] network_same(5) [OF w3]] network_same(6)] .
  from Suc.prems show ?case
    using s1 s2 s3 sameFlash_trans [OF s3 Suc.IH]
    by (auto simp: w1 w2 w3 Let_def split: if_splits)
qed simp

text \<open>A download keeps a weak invariant, and a strong one when no error is reported, if its sink does.\<close>

lemma readLoop_keeps:
  assumes quiet: "\<And>c w w'. sameFlash boot staged web w w' \<Longrightarrow> S c w \<Longrightarrow> S c w'" "\<And>c w. S c w \<Longrightarrow> W c w"
    and sink: "\<And>c bs w c' w' ok. S c w \<Longrightarrow> sink c bs w = Some (c', w', ok) \<Longrightarrow> W c' w' \<and> (ok \<longrightarrow> S c' w')"
  shows "readLoop api sink maxSize received c w = Some (c', w', error) \<Longrightarrow> S c w \<Longrightarrow>
    W c' w' \<and> (error = None \<longrightarrow> S c' w')"
proof (induction "maxSize - received" arbitrary: received c w rule: less_induct)
  case less
  obtain w1 r where r: "ht_read api kChunkSize w = (w1, r)" by fastforce
  have s1: "S c w1" by (rule quiet(1) [OF network_same(7) [OF r] less.prems(2)])
  show ?case
  proof (cases r)
    case None
    then show ?thesis using less.prems(1) quiet(2) [OF s1] by (subst (asm) readLoop.simps) (auto simp: r)
  next
    case (Some bs)
    show ?thesis
    proof (cases "bs = [] \<or> received + length bs > maxSize")
      case True
      then show ?thesis using less.prems(1) s1 quiet(2) [OF s1]
        by (subst (asm) readLoop.simps) (auto simp: r Some split: if_splits)
    next
      case False
      then obtain c2 w2 ok where k: "sink c bs w1 = Some (c2, w2, ok)"
        using less.prems(1) by (subst (asm) readLoop.simps) (auto simp: r Some split: option.splits)
      note s2 = sink [OF s1 k]
      show ?thesis
      proof (cases ok)
        case True
        then have rest: "readLoop api sink maxSize (received + length bs) c2 w2 = Some (c', w', error)"
          using less.prems(1) False k by (subst (asm) readLoop.simps) (auto simp: r Some)
        have "maxSize - (received + length bs) < maxSize - received" using False by (cases bs) auto
        then show ?thesis using less.hyps [OF _ rest] s2 True by blast
      next
        case nok: False
        then show ?thesis using less.prems(1) False k s2 by (subst (asm) readLoop.simps) (auto simp: r Some)
      qed
    qed
  qed
qed

lemma download_keeps:
  assumes quiet: "\<And>c w w'. sameFlash boot staged web w w' \<Longrightarrow> S c w \<Longrightarrow> S c w'"
      "\<And>c w w'. sameFlash boot staged web w w' \<Longrightarrow> W c w \<Longrightarrow> W c w'" "\<And>c w. S c w \<Longrightarrow> W c w"
    and sink: "\<And>c bs w c' w' ok. S c w \<Longrightarrow> sink c bs w = Some (c', w', ok) \<Longrightarrow> W c' w' \<and> (ok \<longrightarrow> S c' w')"
    and d: "download api chunkMade url maxSize sink c w = Some (c', w', error)" and start: "S c w"
  shows "W c' w' \<and> (error = None \<longrightarrow> S c' w')"
proof -
  obtain w1 made where w1: "ht_init api url w = (w1, made)" by fastforce
  obtain w2 status len where w2: "redirectLoop api (kMaxRedirects + 1) 0 (-1) w1 = (w2, status, len)" by (metis prod_cases3)
  have s1: "S c w1" by (rule quiet(1) [OF network_same(1) [OF w1] start])
  have s2: "S c w2" by (rule quiet(1) [OF redirectLoop_same [OF w2] s1])
  have fin: "sameFlash boot staged web v (ht_cleanup api (ht_close api v))" for v
    using sameFlash_trans [OF network_same(6) network_same(8)] .
  note f = quiet(2) [OF fin] and g = quiet(1) [OF fin]
  show ?thesis
  proof (cases "made \<and> status = 200 \<and> len \<le> int maxSize \<and> chunkMade")
    case False
    then have "(w' = w1 \<or> w' = ht_cleanup api (ht_close api w2)) \<and> c' = c \<and> error \<noteq> None"
      using d by (auto simp: download_def w1 w2 [simplified] Let_def split: if_splits)
    then show ?thesis using quiet(3) [OF s1] f [OF quiet(3) [OF s2]] by auto
  next
    case True
    then obtain c3 w3 e3 where l: "readLoop api sink maxSize 0 c w2 = Some (c3, w3, e3)" and
        res: "c' = c3" "w' = ht_cleanup api (ht_close api w3)" "error = None \<longrightarrow> e3 = None"
      using d by (auto simp: download_def w1 w2 [simplified] Let_def split: if_splits)
    have "W c3 w3 \<and> (e3 = None \<longrightarrow> S c3 w3)"
      by (rule readLoop_keeps [where S = S and W = W, OF quiet(1,3) sink l s2])
    then show ?thesis using f g res by auto
  qed
qed

subsection \<open>The firmware\<close>

lemma installFirmware_flash:
  assumes "installFirmware api E release w us = Some (w', us', error)"
  shows "web w' = web w" "error \<noteq> None \<Longrightarrow> boot w' = boot w"
    "error = None \<Longrightarrow> \<exists>bytes. boot w' = Some bytes \<and> length bytes = unat (im_size (rl_firmware release)) \<and>
       ue_sha256 E bytes = im_sha256 (rl_firmware release)"
proof -
  let ?S = "\<lambda>(c :: FirmwareWriter \<times> update_service) v. boot v = boot w \<and> web v = web w \<and> staged v = fw_hashed (fst c) \<and>
      length (fw_hashed (fst c)) = fw_written (fst c)"
  let ?W = "\<lambda>(c :: FirmwareWriter \<times> update_service) v. boot v = boot w \<and> web v = web w"
  let ?img = "rl_firmware release"
  have all: "web w' = web w \<and> (error \<noteq> None \<longrightarrow> boot w' = boot w) \<and> (error = None \<longrightarrow>
      (\<exists>bytes. boot w' = Some bytes \<and> length bytes = unat (im_size ?img) \<and> ue_sha256 E bytes = im_sha256 ?img))"
  proof -
    obtain w1 begun where w1: "up_begin api (im_size ?img) w = (w1, begun)" by fastforce
    note b = begin_flash [OF w1]
    show ?thesis
    proof (cases begun)
      case False
      then show ?thesis using assms b by (auto simp: installFirmware_def Let_def w1)
    next
      case True
      then obtain writer us2 w2 e2 where d: "download api (ue_chunkMade E) (imageUrl release ?img) (unat (im_size ?img))
          (writeFirmware api) (\<lparr>fw_hashed = [], fw_written = 0\<rparr>, us) w1 = Some ((writer, us2), w2, e2)"
        using assms by (auto simp: installFirmware_def Let_def w1 split: option.splits)
      have "?W (writer, us2) w2 \<and> (e2 = None \<longrightarrow> ?S (writer, us2) w2)"
      proof (rule download_keeps [where S = ?S and W = ?W, OF _ _ _ _ d])
        fix c :: "FirmwareWriter \<times> update_service" and bs v c' v' ok
        assume "?S c v" "writeFirmware api c bs v = Some (c', v', ok)"
        then show "?W c' v' \<and> (ok \<longrightarrow> ?S c' v')"
          using write_flash [of bs v] by (cases c) (auto simp: writeFirmware_def Let_def split: prod.splits if_splits)
      qed (use b True in \<open>auto simp: sameFlash_def\<close>)
      moreover obtain w3 fin where w3: "up_finish api w2 = (w3, fin)" by fastforce
      ultimately show ?thesis
        using assms True abort_flash [of w2] finish_flash [OF w3]
        by (auto simp: installFirmware_def Let_def w1 d w3 split: if_splits)
    qed
  qed
  then show "web w' = web w" "error \<noteq> None \<Longrightarrow> boot w' = boot w"
    "error = None \<Longrightarrow> \<exists>bytes. boot w' = Some bytes \<and> length bytes = unat (im_size (rl_firmware release)) \<and>
       ue_sha256 E bytes = im_sha256 (rl_firmware release)" by blast+
qed

subsection \<open>The Web UI\<close>

text \<open>The sectors before the offset hold the bytes so far, the buffer the rest of them.\<close>

definition sectorsHold :: "UiWriter \<Rightarrow> bytes \<Rightarrow> 'w \<Rightarrow> bool" where
  "sectorsHold writer bs w \<longleftrightarrow> length bs = uw_offset writer + uw_fill writer \<and> uw_fill writer < kSectorSize \<and>
     length (uw_sector writer) = kSectorSize \<and> (\<forall>i < uw_offset writer. web w i = bs ! i) \<and>
     take (uw_fill writer) (uw_sector writer) = drop (uw_offset writer) bs"

lemma commitSector_holds:
  assumes c: "commitSector api writer w = (writer', w', ok)"
    and len: "length bs = uw_offset writer + kSectorSize" "length (uw_sector writer) = kSectorSize"
    and old: "\<forall>i < uw_offset writer. web w i = bs ! i" and new: "uw_sector writer = drop (uw_offset writer) bs"
  shows "boot w' = boot w \<and> uw_hashed writer' = uw_hashed writer \<and> (ok \<longrightarrow> sectorsHold writer' bs w')"
proof -
  let ?o = "uw_offset writer"
  obtain w1 r where r: "pt_read api ?o kSectorSize w = (w1, r)" by fastforce
  obtain w2 b2 where e: "pt_erase api ?o kSectorSize w1 = (w2, b2)" by fastforce
  obtain w3 b3 where p: "pt_write api ?o (uw_sector writer) w2 = (w3, b3)" by fastforce
  note fr = read_flash [OF r] and fe = erase_flash [OF e] and fp = program_flash [OF p]
  have web1: "web w1 = web w" "boot w1 = boot w" using fr by (simp_all add: sameFlash_def)
  have get: "bs ! (?o + i) = uw_sector writer ! i" if "i < kSectorSize" for i
    using that len unfolding new by simp
  have done': "sectorsHold (writer\<lparr>uw_offset := ?o + kSectorSize, uw_fill := 0\<rparr>) bs v"
    if "\<forall>i < ?o. web v i = web w i" "\<forall>i < kSectorSize. web v (?o + i) = uw_sector writer ! i" for v
  proof -
    have "web v i = bs ! i" if "i < ?o + kSectorSize" for i
    proof (cases "i < ?o")
      case True then show ?thesis using \<open>\<forall>i < ?o. web v i = web w i\<close> old by simp
    next
      case False
      then have j: "?o + (i - ?o) = i" "i - ?o < kSectorSize" using that by simp_all
      have "web v (?o + (i - ?o)) = bs ! (?o + (i - ?o))"
        using \<open>\<forall>i < kSectorSize. web v (?o + i) = uw_sector writer ! i\<close> get [OF j(2)] j(2) by simp
      then show ?thesis unfolding j(1) .
    qed
    then show ?thesis using len by (simp add: sectorsHold_def)
  qed
  have keep: "\<forall>i < ?o. web w2 i = web w i" using fe web1 by simp
  show ?thesis
  proof (cases r)
    case None
    then show ?thesis using c web1 by (auto simp: commitSector_def r)
  next
    case (Some existing)
    show ?thesis
    proof (cases "existing = uw_sector writer")
      case True
      have "\<forall>i < kSectorSize. web w1 (?o + i) = uw_sector writer ! i"
        using fr Some True web1 by auto
      then show ?thesis using c done' [of w1] web1 True by (auto simp: commitSector_def r Some Let_def)
    next
      case diff: False
      show ?thesis
      proof (cases "b2 \<and> erasedBytes (uw_sector writer)")
        case True
        have "\<forall>i < kSectorSize. web w2 (?o + i) = uw_sector writer ! i"
          using True fe len(2) by (auto simp: erasedBytes_def list_all_length)
        then show ?thesis using c done' [OF keep] web1 True diff fe by (auto simp: commitSector_def r Some e Let_def)
      next
        case ne: False
        show ?thesis
        proof (cases "b2 \<and> b3")
          case True
          have "\<forall>i < kSectorSize. web w3 (?o + i) = uw_sector writer ! i" using True fe fp len(2) by auto
          moreover have "\<forall>i < ?o. web w3 i = web w i" using fp keep by simp
          ultimately show ?thesis using c done' [of w3] web1 True diff ne fe fp
            by (auto simp: commitSector_def r Some e p Let_def)
        next
          case False
          then show ?thesis using c web1 diff ne fe fp
            by (auto simp: commitSector_def r Some e p Let_def split: if_splits)
        qed
      qed
    qed
  qed
qed

lemma writeSectors_holds:
  "writeSectors api partitionSize writer bs w = Some (writer', w', ok) \<Longrightarrow> sectorsHold writer past w \<Longrightarrow>
   boot w' = boot w \<and> uw_hashed writer' = uw_hashed writer \<and> (ok \<longrightarrow> sectorsHold writer' (past @ bs) w')"
proof (induction "length bs" arbitrary: bs writer w past rule: less_induct)
  case less
  show ?case
  proof (cases "bs = [] \<or> uw_offset writer \<ge> partitionSize")
    case True
    then show ?thesis using less.prems by (subst (asm) writeSectors.simps) (auto split: if_splits)
  next
    case False
    define n where "n = min (length bs) (kSectorSize - uw_fill writer)"
    define wr where "wr = writer\<lparr>uw_sector := put (uw_sector writer) (uw_fill writer) (take n bs), uw_fill := uw_fill writer + n\<rparr>"
    define past' where "past' = past @ take n bs"
    have inv: "length past = uw_offset writer + uw_fill writer" "uw_fill writer < kSectorSize"
        "length (uw_sector writer) = kSectorSize" "\<forall>i < uw_offset writer. web w i = past ! i"
        "take (uw_fill writer) (uw_sector writer) = drop (uw_offset writer) past"
      using less.prems(2) by (simp_all add: sectorsHold_def)
    have n: "0 < n" "n \<le> length bs" "uw_fill writer + n \<le> kSectorSize" using False inv(2) by (auto simp: n_def)
    have wr: "uw_fill wr = uw_fill writer + n" "uw_offset wr = uw_offset writer" "uw_hashed wr = uw_hashed writer"
      by (simp_all add: wr_def)
    have sec: "take (uw_fill wr) (uw_sector wr) = drop (uw_offset wr) past'"
      using inv n by (simp add: put_def wr_def past'_def)
    have slen: "length (uw_sector wr) = kSectorSize" using inv(3) n by (simp add: wr_def)
    have old: "\<forall>i < uw_offset wr. web w i = past' ! i" using inv(1,4) by (simp add: nth_append wr past'_def)
    have plen: "length past' = uw_offset wr + uw_fill wr" using inv(1) n by (simp add: wr past'_def)
    obtain wr2 w2 ok2 where step: "(if uw_fill wr = kSectorSize then commitSector api wr w else (wr, w, True)) = (wr2, w2, ok2)"
      by (metis prod_cases3)
    have s2: "boot w2 = boot w \<and> uw_hashed wr2 = uw_hashed writer \<and> (ok2 \<longrightarrow> sectorsHold wr2 past' w2)"
    proof (cases "uw_fill wr = kSectorSize")
      case True
      then have c: "commitSector api wr w = (wr2, w2, ok2)" using step by simp
      have "uw_sector wr = drop (uw_offset wr) past'" using sec slen True by simp
      then show ?thesis
        using commitSector_holds [OF c _ slen old] plen True wr(3) by simp
    next
      case False
      then have same: "wr2 = wr" "w2 = w" "ok2" using step by simp_all
      have "uw_fill wr < kSectorSize" using False n(3) wr(1) by simp
      then have "sectorsHold wr past' w" unfolding sectorsHold_def using sec slen old plen by blast
      then show ?thesis using same wr(3) by simp
    qed
    have body: "writeSectors api partitionSize writer bs w =
        (if \<not> ok2 then Some (wr2, w2, False) else writeSectors api partitionSize wr2 (drop n bs) w2)"
      unfolding writeSectors.simps [of api partitionSize writer bs w] Let_def n_def [symmetric] wr_def [symmetric] step prod.case
      using False by simp
    show ?thesis
    proof (cases ok2)
      case False
      then show ?thesis using less.prems(1) s2 unfolding body by auto
    next
      case True
      have rest: "writeSectors api partitionSize wr2 (drop n bs) w2 = Some (writer', w', ok)"
        using less.prems(1) True unfolding body by simp
      have shorter: "length (drop n bs) < length bs" using n(1) False by simp
      have all: "past' @ drop n bs = past @ bs" by (simp add: past'_def)
      from less.hyps [OF shorter rest, of past'] s2 True show ?thesis unfolding all by simp
    qed
  qed
qed


text \<open>The inflater only hands bytes to its sink.\<close>

lemma inflaterStep_keeps:
  assumes sink: "\<And>c bs w c' w' ok. S c w \<Longrightarrow> sink c bs w = Some (c', w', ok) \<Longrightarrow> W c' w' \<and> (ok \<longrightarrow> S c' w')"
    and weak: "\<And>c w. S c w \<Longrightarrow> W c w" and S: "S c w"
  shows "inflaterStep tinfl sink g input c w = Some (Inl (g', input', c', w')) \<Longrightarrow> S c' w'"
    "inflaterStep tinfl sink g input c w = Some (Inr (g', c', w', ok)) \<Longrightarrow> W c' w' \<and> (ok \<longrightarrow> S c' w')"
  using S weak [OF S] sink [OF S]
  by (auto simp: inflaterStep_def Let_def split: GzipState.splits if_splits prod.splits option.splits)

lemma inflaterWrite_keeps:
  assumes sink: "\<And>c bs w c' w' ok. S c w \<Longrightarrow> sink c bs w = Some (c', w', ok) \<Longrightarrow> W c' w' \<and> (ok \<longrightarrow> S c' w')"
    and weak: "\<And>c w. S c w \<Longrightarrow> W c w"
    and run: "inflaterWrite tinfl sink g input c w = Some (g', c', w', ok)" and S: "S c w"
  shows "W c' w' \<and> (ok \<longrightarrow> S c' w')"
proof -
  have "\<forall>g' c' w' ok. r = (g', c', w', ok) \<longrightarrow> k = sink \<longrightarrow> S c w \<longrightarrow> W c' w' \<and> (ok \<longrightarrow> S c' w')"
    if "inflaterWrite tf k g input c w = Some r" for tf k g input c w r
  proof (rule inflaterWrite.raw_induct
      [OF _ that, where P = "\<lambda>tf k g input c w r. \<forall>g' c' w' ok. r = (g', c', w', ok) \<longrightarrow> k = sink \<longrightarrow> S c w \<longrightarrow> W c' w' \<and> (ok \<longrightarrow> S c' w')"])
    fix loop tf k g input c w r
    assume ih: "\<And>tf k g input c w r. loop tf k g input c w = Some r \<Longrightarrow>
        \<forall>g' c' w' ok. r = (g', c', w', ok) \<longrightarrow> k = sink \<longrightarrow> S c w \<longrightarrow> W c' w' \<and> (ok \<longrightarrow> S c' w')"
      and body: "(if input = [] then Some (g, c, w, gz_state g \<noteq> GZ_Failed)
          else case inflaterStep tf k g input c w of None \<Rightarrow> None
            | Some result \<Rightarrow> (case result of Inl (g, input, c, w) \<Rightarrow> loop tf k g input c w | Inr r \<Rightarrow> Some r)) = Some r"
    show "\<forall>g' c' w' ok. r = (g', c', w', ok) \<longrightarrow> k = sink \<longrightarrow> S c w \<longrightarrow> W c' w' \<and> (ok \<longrightarrow> S c' w')"
    proof (intro allI impI)
      fix g' c' w' ok
      assume r: "r = (g', c', w', ok)" and k: "k = sink" and S: "S c w"
      note step = inflaterStep_keeps [where S = S and W = W, OF sink weak S]
      show "W c' w' \<and> (ok \<longrightarrow> S c' w')"
      proof (cases "input = []")
        case True
        then show ?thesis using body r S weak [OF S] by simp
      next
        case False
        then obtain result where res: "inflaterStep tf sink g input c w = Some result"
          using body k by (auto split: option.splits)
        show ?thesis
        proof (cases result)
          case (Inr q)
          then show ?thesis using body r k False res step(2) by simp
        next
          case (Inl q)
          obtain g1 i1 c1 w1 where q: "q = (g1, i1, c1, w1)" by (metis prod_cases4)
          have S1: "S c1 w1" using step(1) res unfolding Inl q by simp
          have "loop tf sink g1 i1 c1 w1 = Some r" using body k False res by (simp add: Inl q)
          from ih [OF this] r S1 show ?thesis by simp
        qed
      qed
    qed
  qed
  with run S show ?thesis by blast
qed

lemma prepare_same:
  "prepareForFilesystemUpdate fs w ui = (w', ui') \<Longrightarrow> sameFlash boot staged web w w'"
  using files_same(2) by (auto simp: prepareForFilesystemUpdate_def Let_def split: if_splits)

lemma recover_same:
  "recoverAfterFailedFilesystemUpdate fs J v w ui = (w', ui') \<Longrightarrow> sameFlash boot staged web w w'"
  using files_same(1) by (auto simp: recoverAfterFailedFilesystemUpdate_def webUiBegin_def Let_def split: prod.splits if_splits)

lemma installUi_flash:
  fixes X :: "('w, 't, 'j) ui_env"
  assumes i: "installUi api E X release w ui us = Some (w', ui', us', error)" and fs: "ux_fs X = fs"
  shows "boot w' = boot w \<and> (error = None \<longrightarrow>
    (\<exists>bytes. length bytes = unat (im_imageSize (rl_ui release)) \<and> ue_sha256 E bytes = im_sha256 (rl_ui release) \<and>
       (\<forall>i < length bytes. web w' i = bytes ! i)))"
proof -
  let ?img = "rl_ui release"
  have ready: "\<exists>g psize. inflaterBegin (ue_decompressorMade E) (ux_start X) kUiWindowSize = Some g \<and> pt_size api w = Some psize \<and>
      unat (im_imageSize ?img) = psize \<and> psize mod kSectorSize = 0 \<and> ue_sectorMade E \<or> error \<noteq> None \<and> w' = w"
    using i by (auto simp: installUi_def Let_def split: option.splits if_splits)
  then show ?thesis
  proof (elim exE disjE)
    fix g psize
    assume g: "inflaterBegin (ue_decompressorMade E) (ux_start X) kUiWindowSize = Some g \<and> pt_size api w = Some psize \<and>
      unat (im_imageSize ?img) = psize \<and> psize mod kSectorSize = 0 \<and> ue_sectorMade E"
    let ?writer = "\<lparr>uw_sector = zeros kSectorSize, uw_fill = 0, uw_offset = 0, uw_hashed = []\<rparr>"
    let ?S = "\<lambda>(c :: 't inflater \<times> UiWriter \<times> update_service) v. boot v = boot w \<and>
        sectorsHold (fst (snd c)) (uw_hashed (fst (snd c))) v"
    let ?W = "\<lambda>(c :: 't inflater \<times> UiWriter \<times> update_service) v. boot v = boot w"
    obtain w1 ui1 where p: "prepareForFilesystemUpdate fs w ui = (w1, ui1)" by fastforce
    note s1 = prepare_same [OF p]
    from i g fs p obtain g2 writer2 us2 w2 e2 where
      d: "download api (ue_chunkMade E) (imageUrl release ?img) (unat (im_size ?img))
          (receiveUi api (ux_tinfl X) psize) (g, ?writer, us) w1 = Some ((g2, writer2, us2), w2, e2)"
      by (auto simp: installUi_def Let_def split: option.splits)
    have inner: "boot v' = boot w \<and> (ok \<longrightarrow> boot v' = boot w \<and> sectorsHold wr' (uw_hashed wr') v')"
      if "boot v = boot w \<and> sectorsHold wr (uw_hashed wr) v" "writeUiImage api psize wr bs v = Some (wr', v', ok)" for wr bs v wr' v' ok
    proof -
      have "sectorsHold (wr\<lparr>uw_hashed := uw_hashed wr @ bs\<rparr>) (uw_hashed wr) v"
        using that(1) by (simp add: sectorsHold_def)
      from writeSectors_holds [OF that(2) [unfolded writeUiImage_def] this] that(1) show ?thesis by simp
    qed
    have "?W (g2, writer2, us2) w2 \<and> (e2 = None \<longrightarrow> ?S (g2, writer2, us2) w2)"
    proof (rule download_keeps [where S = ?S and W = ?W, OF _ _ _ _ d])
      fix c :: "'t inflater \<times> UiWriter \<times> update_service" and bs v c' v' ok
      assume S: "?S c v" and r: "receiveUi api (ux_tinfl X) psize c bs v = Some (c', v', ok)"
      obtain g3 wr3 us3 where c: "c = (g3, wr3, us3)" by (metis prod_cases3)
      obtain g4 wr4 where w4: "inflaterWrite (ux_tinfl X) (writeUiImage api psize) g3 bs wr3 v = Some (g4, wr4, v', ok)"
          and c': "c' = (g4, wr4, advanceProgress (length bs) us3)"
        using r by (auto simp: receiveUi_def c)
      have "boot v' = boot w \<and> (ok \<longrightarrow> boot v' = boot w \<and> sectorsHold wr4 (uw_hashed wr4) v')"
      proof (rule inflaterWrite_keeps [where S = "\<lambda>wr v. boot v = boot w \<and> sectorsHold wr (uw_hashed wr) v"
            and W = "\<lambda>wr v. boot v = boot w", OF _ conjunct1 w4])
        show "boot v = boot w \<and> sectorsHold wr3 (uw_hashed wr3) v" using S by (simp add: c)
      next
        fix wr bs u wr' u' taken
        assume "boot u = boot w \<and> sectorsHold wr (uw_hashed wr) u" "writeUiImage api psize wr bs u = Some (wr', u', taken)"
        then show "boot u' = boot w \<and> (taken \<longrightarrow> boot u' = boot w \<and> sectorsHold wr' (uw_hashed wr') u')" by (rule inner)
      qed
      then show "?W c' v' \<and> (ok \<longrightarrow> ?S c' v')" by (simp add: c')
    next
      show "?S (g, ?writer, us) w1" using s1 by (simp add: sameFlash_def sectorsHold_def)
    qed (simp_all add: sameFlash_def sectorsHold_def)
    note dl = this
    obtain w3 ui3 where rec: "recoverAfterFailedFilesystemUpdate fs (ux_json X) (ue_version E) w2 ui1 = (w3, ui3)" by fastforce
    show ?thesis
    proof (cases "error = None")
      case True
      then have e: "e2 = None" "w' = w2" "uw_fill writer2 = 0" "uw_offset writer2 = unat (im_imageSize ?img)"
          "ue_sha256 E (uw_hashed writer2) = im_sha256 ?img"
        using i g fs p d rec by (auto simp: installUi_def Let_def split: if_splits)
      then show ?thesis using dl by (intro conjI impI exI [of _ "uw_hashed writer2"]) (auto simp: sectorsHold_def)
    next
      case False
      then have "w' = w3" using i g fs p d rec by (auto simp: installUi_def Let_def split: if_splits)
      then show ?thesis using False dl recover_same [OF rec] by (auto simp: sameFlash_def)
    qed
  qed auto
qed

text \<open>The whole installation.\<close>

lemma installRelease_flash:
  assumes i: "installRelease api E X release w ui us = Some (w', ui', us', restart)" and fs: "ux_fs X = fs"
  shows "if restart then us_state us' = UP_Restarting \<and>
      (\<exists>bytes. boot w' = Some bytes \<and> length bytes = unat (im_size (rl_firmware release)) \<and>
         ue_sha256 E bytes = im_sha256 (rl_firmware release)) \<and>
      (\<exists>bytes. length bytes = unat (im_imageSize (rl_ui release)) \<and> ue_sha256 E bytes = im_sha256 (rl_ui release) \<and>
         (\<forall>i < length bytes. web w' i = bytes ! i))
    else us_state us' = UP_Failed \<and> boot w' = boot w"
proof (cases "networkError (ue_hasIp E) (ue_synchronized E)")
  case (Some e)
  then show ?thesis using i by (auto simp: installRelease_def failUpdate_def setUpdateState_def Let_def)
next
  case None
  let ?us = "us\<lparr>us_progressDone := 0, us_progressTotal := unat (im_size (rl_ui release) + im_size (rl_firmware release))\<rparr>"
  obtain w1 ui1 us1 e1 where u: "installUi api E X release w ui ?us = Some (w1, ui1, us1, e1)"
    using i None by (auto simp: installRelease_def Let_def split: option.splits)
  note fu = installUi_flash [OF u fs]
  show ?thesis
  proof (cases e1)
    case (Some e)
    then show ?thesis using i None u fu by (auto simp: installRelease_def Let_def failUpdate_def setUpdateState_def)
  next
    case ui: None
    obtain w2 us2 e2 where f: "installFirmware api E release w1 us1 = Some (w2, us2, e2)"
      using i None u ui by (auto simp: installRelease_def Let_def split: option.splits)
    note ff = installFirmware_flash [OF f]
    obtain w3 ui3 where rec: "recoverAfterFailedFilesystemUpdate fs (ux_json X) (ue_version E) w2 ui1 = (w3, ui3)" by fastforce
    show ?thesis
    proof (cases e2)
      case (Some e)
      then have "w' = w3" "us_state us' = UP_Failed" "\<not> restart"
        using i None u ui f rec fs by (auto simp: installRelease_def Let_def failUpdate_def setUpdateState_def)
      then show ?thesis using ff(2) fu recover_same [OF rec] Some by (simp add: sameFlash_def)
    next
      case fw: None
      then have "w' = w2" "us_state us' = UP_Restarting" "restart"
        using i None u ui f by (auto simp: installRelease_def Let_def setUpdateState_def)
      then show ?thesis using ff(1,3) fu fw ui by simp
    qed
  qed
qed


lemma fetchManifest_same:
  assumes "fetchManifest api reader bufferMade chunkMade path board v w = Some (w', result)"
  shows "sameFlash boot staged web w w'"
    "result = Inr (Inr release) \<Longrightarrow> \<exists>input. reader (Some input) (Some board) (Some v) = Inr release"
proof -
  have "sameFlash boot staged web w w' \<and> (result = Inr (Inr release) \<longrightarrow> (\<exists>input. reader (Some input) (Some board) (Some v) = Inr release))"
    for release
  proof (cases bufferMade)
    case False
    then show ?thesis using assms by (auto simp: fetchManifest_def)
  next
    case True
    let ?url = "take 127 (kReleases @ map of_char ''/'' @ path @ map of_char ''/manifest.signed'')"
    let ?buf = "\<lparr>bf_capacity = kMaxSignedManifestSize, bf_data = []\<rparr>"
    obtain buf w1 e where d: "download api chunkMade ?url kMaxSignedManifestSize appendToBuffer ?buf w = Some (buf, w1, e)"
      using assms True by (auto simp: fetchManifest_def Let_def split: option.splits)
    have "sameFlash boot staged web w w1 \<and> (e = None \<longrightarrow> sameFlash boot staged web w w1)"
    proof (rule download_keeps [where S = "\<lambda>_. sameFlash boot staged web w" and W = "\<lambda>_. sameFlash boot staged web w",
          OF _ _ _ _ d])
      fix c bs v c' v' ok
      assume "sameFlash boot staged web w v" "appendToBuffer c bs v = Some (c', v', ok)"
      then show "sameFlash boot staged web w v' \<and> (ok \<longrightarrow> sameFlash boot staged web w v')"
        by (auto simp: appendToBuffer_def split: if_splits)
    qed (auto simp: sameFlash_def)
    then show ?thesis using assms True d by (cases e) (auto simp: fetchManifest_def Let_def)
  qed
  then show "sameFlash boot staged web w w'"
    "result = Inr (Inr release) \<Longrightarrow> \<exists>input. reader (Some input) (Some board) (Some v) = Inr release" by blast+
qed

lemma checkRelease_flash:
  assumes "checkRelease api E w us = Some (w', us')"
  shows "sameFlash boot staged web w w'" "us_state us' \<in> {UP_Failed, UP_UpToDate, UP_Available}"
    "us_state us' = UP_Available \<Longrightarrow> \<exists>input release. us_release us' = Some release \<and>
       ue_reader E (Some input) (Some (ue_board E)) (Some (ue_version E)) = Inr release"
    "us_taskRunning us' = us_taskRunning us"
proof -
  have "sameFlash boot staged web w w' \<and> us_state us' \<in> {UP_Failed, UP_UpToDate, UP_Available} \<and>
    (us_state us' = UP_Available \<longrightarrow> (\<exists>input release. us_release us' = Some release \<and>
       ue_reader E (Some input) (Some (ue_board E)) (Some (ue_version E)) = Inr release)) \<and>
    us_taskRunning us' = us_taskRunning us"
  proof (cases "networkError (ue_hasIp E) (ue_synchronized E)")
    case (Some e)
    then show ?thesis using assms by (auto simp: checkRelease_def failUpdate_def setUpdateState_def Let_def)
  next
    case None
    obtain w1 r where f: "fetchManifest api (ue_reader E) (ue_bufferMade E) (ue_chunkMade E) (map of_char ''latest/download'')
        (ue_board E) (ue_version E) w = Some (w1, r)"
      using assms None by (auto simp: checkRelease_def simp del: of_char_of list.map)
    note same = fetchManifest_same [OF f]
    show ?thesis
    proof (cases r)
      case (Inl e)
      then show ?thesis using assms None f same(1)
        by (auto simp: checkRelease_def failUpdate_def setUpdateState_def Let_def simp del: list.map)
    next
      case (Inr v)
      then show ?thesis using assms None f same
        by (cases v) (auto simp: checkRelease_def failUpdate_def setUpdateState_def Let_def simp del: list.map split: if_splits)
    qed
  qed
  then show "sameFlash boot staged web w w'" "us_state us' \<in> {UP_Failed, UP_UpToDate, UP_Available}"
    "us_state us' = UP_Available \<Longrightarrow> \<exists>input release. us_release us' = Some release \<and>
       ue_reader E (Some input) (Some (ue_board E)) (Some (ue_version E)) = Inr release"
    "us_taskRunning us' = us_taskRunning us" by blast+
qed

lemma repairUi_flash:
  assumes i: "repairUi api E X w ui us = Some (w', ui', us', restart)" and fs: "ux_fs X = fs"
  shows "boot w' = boot w" "us_state us' \<in> {UP_Failed, UP_Restarting}"
proof -
  have "boot w' = boot w \<and> us_state us' \<in> {UP_Failed, UP_Restarting}"
  proof (cases "networkError (ue_hasIp E) (ue_synchronized E)")
    case (Some e)
    then show ?thesis using i by (auto simp: repairUi_def failUpdate_def setUpdateState_def Let_def)
  next
    case None
    obtain w1 r where f: "fetchManifest api (ue_reader E) (ue_bufferMade E) (ue_chunkMade E)
        (take 47 (map of_char ''download/'' @ ue_version E)) (ue_board E) (map of_char ''0.0.0'') w = Some (w1, r)"
      using i None by (auto simp: repairUi_def split: option.splits)
    have b: "boot w1 = boot w" using fetchManifest_same(1) [OF f] by (simp add: sameFlash_def)
    show ?thesis
    proof (cases "\<exists>result. r = Inr (Inr result) \<and> rl_versionText result = ue_version E")
      case False
      then show ?thesis using i None f b
        by (auto simp: repairUi_def failUpdate_def setUpdateState_def Let_def split: sum.splits if_splits)
    next
      case True
      then obtain result where r: "r = Inr (Inr result)" "rl_versionText result = ue_version E" by blast
      let ?us = "us\<lparr>us_release := Some result, us_progressDone := 0, us_progressTotal := unat (im_size (rl_ui result))\<rparr>"
      obtain w2 ui2 us2 e2 where u: "installUi api E X result w1 ui ?us = Some (w2, ui2, us2, e2)"
        using i None f r by (auto simp: repairUi_def Let_def split: option.splits)
      then show ?thesis using i None f r b installUi_flash [OF u fs]
        by (cases e2) (auto simp: repairUi_def failUpdate_def setUpdateState_def Let_def)
    qed
  qed
  then show "boot w' = boot w" "us_state us' \<in> {UP_Failed, UP_Restarting}" by blast+
qed

end

subsection \<open>Requests and tasks in any order\<close>

datatype update_task = CheckTask | InstallTask | RepairTask

text \<open>The running version, the reader of signed manifests and the hash stay the same; the rest of the
  environment may change with every step.\<close>

inductive update_run ::
  "'w update_api \<Rightarrow> ('w, 'j) fs_api \<Rightarrow> manifest_reader \<Rightarrow> bytes \<Rightarrow> (bytes \<Rightarrow> bytes) \<Rightarrow> 'w \<Rightarrow>
   update_service \<Rightarrow> 'w \<Rightarrow> web_ui \<Rightarrow> update_task option \<Rightarrow> bool"
  for api :: "'w update_api" and fs :: "('w, 'j) fs_api" and reader version sha and w0 :: 'w where
  booted: "update_run api fs reader version sha w0 (updateBegin pending newUpdateService) w0 ui None"
| checkStarted: "update_run api fs reader version sha w0 us w ui task \<Longrightarrow> startCheck b m us = (us', r) \<Longrightarrow>
    update_run api fs reader version sha w0 us' w ui (if r then Some CheckTask else task)"
| installStarted: "update_run api fs reader version sha w0 us w ui task \<Longrightarrow> startInstall b bb ob m us = (us', r) \<Longrightarrow>
    update_run api fs reader version sha w0 us' w ui (if r then Some InstallTask else task)"
| repairStarted: "update_run api fs reader version sha w0 us w ui task \<Longrightarrow> startUiRepair b bb ob m us = (us', r) \<Longrightarrow>
    update_run api fs reader version sha w0 us' w ui (if r then Some RepairTask else task)"
| checked: "update_run api fs reader version sha w0 us w ui (Some CheckTask) \<Longrightarrow> ue_reader E = reader \<Longrightarrow>
    ue_version E = version \<Longrightarrow> checkRelease api E w us = Some (w', us') \<Longrightarrow>
    update_run api fs reader version sha w0 (taskEnds us') w' ui None"
| installed: "update_run api fs reader version sha w0 us w ui (Some InstallTask) \<Longrightarrow> ue_sha256 E = sha \<Longrightarrow>
    ux_fs (X :: ('w, nat, 'j) ui_env) = fs \<Longrightarrow> us_release us = Some release \<Longrightarrow>
    installRelease api E X release w ui us = Some (w', ui', us', restart) \<Longrightarrow>
    update_run api fs reader version sha w0 (taskEnds us') w' ui' None"
| repaired: "update_run api fs reader version sha w0 us w ui (Some RepairTask) \<Longrightarrow> ue_reader E = reader \<Longrightarrow>
    ux_fs (X :: ('w, nat, 'j) ui_env) = fs \<Longrightarrow> repairUi api E X w ui us = Some (w', ui', us', restart) \<Longrightarrow>
    update_run api fs reader version sha w0 (taskEnds us') w' ui' None"
| looped: "update_run api fs reader version sha w0 us w ui task \<Longrightarrow> updateLoop hasIp confirmed now us = (us', r) \<Longrightarrow>
    update_run api fs reader version sha w0 us' w ui task"

text \<open>An installation is only offered, and only runs, on a release the reader has accepted for the running
  version; and the image to boot is the first one or the firmware of such a release.\<close>

definition acceptedRelease :: "manifest_reader \<Rightarrow> bytes \<Rightarrow> Release option \<Rightarrow> bool" where
  "acceptedRelease reader version r \<longleftrightarrow>
     (\<exists>input board release. r = Some release \<and> reader (Some input) (Some board) (Some version) = Inr release)"

definition bootAccepted :: "manifest_reader \<Rightarrow> bytes \<Rightarrow> (bytes \<Rightarrow> bytes) \<Rightarrow> bytes option \<Rightarrow> bytes option \<Rightarrow> bool" where
  "bootAccepted reader version sha first now' \<longleftrightarrow> now' = first \<or>
     (\<exists>release bytes. acceptedRelease reader version (Some release) \<and> now' = Some bytes \<and>
        length bytes = unat (im_size (rl_firmware release)) \<and> sha bytes = im_sha256 (rl_firmware release))"

definition updateOk :: "manifest_reader \<Rightarrow> bytes \<Rightarrow> update_service \<Rightarrow> update_task option \<Rightarrow> bool" where
  "updateOk reader version us task \<longleftrightarrow> (us_taskRunning us \<longleftrightarrow> task \<noteq> None) \<and>
     (task = None \<longrightarrow> us_state us \<noteq> UP_Checking \<and> us_state us \<noteq> UP_Installing) \<and>
     (us_state us = UP_Available \<or> task = Some InstallTask \<longrightarrow> acceptedRelease reader version (us_release us)) \<and>
     (task \<noteq> None \<longrightarrow> us_state us \<noteq> UP_Available)"

lemma startTask_cases:
  assumes "startTask m state us = (us', r)"
  shows "(us' = us \<and> us_taskRunning us \<and> \<not> r) \<or>
    (\<not> us_taskRunning us \<and> us_release us' = us_release us \<and>
      (if r then us_taskRunning us' \<and> us_state us' = state else \<not> us_taskRunning us' \<and> us_state us' = UP_Failed))"
  using assms by (auto simp: startTask_def setUpdateState_def failUpdate_def Let_def split: if_splits)

lemma setUpdateState_running [simp]: "us_taskRunning (setUpdateState state e us) = us_taskRunning us"
  by (simp add: setUpdateState_def Let_def)

lemma update_run_ok:
  assumes "update_run api fs reader version sha w0 us w ui task" "update_flash api fs boot staged web"
  shows "updateOk reader version us task \<and> bootAccepted reader version sha (boot w0) (boot w)"
  using assms
proof (induction rule: update_run.induct)
  case (booted pending ui)
  then show ?case by (simp add: updateOk_def bootAccepted_def updateBegin_def newUpdateService_def)
next
  case (checkStarted us w ui task b m us' r)
  then show ?case using startTask_cases [of m UP_Checking us us' r]
    by (auto simp: startCheck_def updateOk_def split: if_splits)
next
  case (installStarted us w ui task b bb ob m us' r)
  then show ?case using startTask_cases [of m UP_Installing us us' r]
    by (auto simp: startInstall_def updateOk_def split: if_splits)
next
  case (repairStarted us w ui task b bb ob m us' r)
  then show ?case using startTask_cases [of m UP_Installing us us' r]
    by (auto simp: startUiRepair_def updateOk_def split: if_splits)
next
  case (checked us w ui E w' us')
  note c = update_flash.checkRelease_flash [OF checked.prems checked.hyps(4)]
  have "boot w' = boot w" using c(1) by (simp add: sameFlash_def)
  then show ?case using checked.IH checked.prems checked.hyps c(2-4)
    by (auto simp: updateOk_def taskEnds_def acceptedRelease_def)
next
  case (installed us w ui E X release w' ui' us' restart)
  from update_flash.installRelease_flash [OF installed.prems installed.hyps(5,3)] installed.IH [OF installed.prems] installed.hyps(2,4)
  show ?case by (auto simp: updateOk_def taskEnds_def bootAccepted_def split: if_splits)
next
  case (repaired us w ui E X w' ui' us' restart)
  from update_flash.repairUi_flash [OF repaired.prems repaired.hyps(4,3)] repaired.IH [OF repaired.prems]
  show ?case by (auto simp: updateOk_def taskEnds_def)
next
  case (looped us w ui task hasIp confirmed now us' r)
  then show ?case by (auto simp: updateLoop_def updateOk_def split: if_splits)
qed

subsection \<open>A flash that keeps the contract\<close>

text \<open>The flash as the data sheet describes it, over any network: an erase sets bytes to 0xFF, a write can only
  clear bits, and an image becomes the one to boot when it is complete and starts with the magic byte 0xE9.\<close>

record 'n flash_world =
  fl_net :: 'n
  fl_boot :: "bytes option"
  fl_staged :: bytes
  fl_web :: "nat \<Rightarrow> u8"

definition onNet :: "('n \<Rightarrow> 'n \<times> 'r) \<Rightarrow> 'n flash_world \<Rightarrow> 'n flash_world \<times> 'r" where
  "onNet f w = (case f (fl_net w) of (n, r) \<Rightarrow> (w\<lparr>fl_net := n\<rparr>, r))"

definition norFlash :: "nat \<Rightarrow> nat \<Rightarrow> 'n update_api \<Rightarrow> 'n flash_world update_api" where
  "norFlash slotSize webSize net = \<lparr>ht_init = (\<lambda>url. onNet (ht_init net url)), ht_open = onNet (ht_open net),
     ht_fetchHeaders = onNet (ht_fetchHeaders net), ht_statusCode = (\<lambda>w. ht_statusCode net (fl_net w)),
     ht_flush = (\<lambda>w. w\<lparr>fl_net := ht_flush net (fl_net w)\<rparr>), ht_redirect = onNet (ht_redirect net),
     ht_close = (\<lambda>w. w\<lparr>fl_net := ht_close net (fl_net w)\<rparr>), ht_read = (\<lambda>k. onNet (ht_read net k)),
     ht_complete = (\<lambda>w. ht_complete net (fl_net w)), ht_cleanup = (\<lambda>w. w\<lparr>fl_net := ht_cleanup net (fl_net w)\<rparr>),
     up_begin = (\<lambda>n w. if unat n \<le> slotSize then (w\<lparr>fl_staged := []\<rparr>, True) else (w, False)),
     up_write = (\<lambda>bs w. if length (fl_staged w) + length bs \<le> slotSize
       then (w\<lparr>fl_staged := fl_staged w @ bs\<rparr>, length bs) else (w, if bs = [] then 1 else 0)),
     up_abort = id,
     up_finish = (\<lambda>w. if fl_staged w \<noteq> [] \<and> hd (fl_staged w) = 0xE9 then (w\<lparr>fl_boot := Some (fl_staged w)\<rparr>, True) else (w, False)),
     pt_size = (\<lambda>w. Some webSize),
     pt_read = (\<lambda>off k w. (w, if off + k \<le> webSize then Some (map (fl_web w) [off..<off + k]) else None)),
     pt_erase = (\<lambda>off k w. if off + k \<le> webSize
       then (w\<lparr>fl_web := (\<lambda>i. if off \<le> i \<and> i < off + k then 0xFF else fl_web w i)\<rparr>, True) else (w, False)),
     pt_write = (\<lambda>off bs w. if off + length bs \<le> webSize
       then (w\<lparr>fl_web := (\<lambda>i. if off \<le> i \<and> i < off + length bs then fl_web w i AND bs ! (i - off) else fl_web w i)\<rparr>, True)
       else (w, False))\<rparr>"

definition norFiles :: "(nat \<Rightarrow> u8, 'j) fs_api \<Rightarrow> ('n flash_world, 'j) fs_api" where
  "norFiles files = \<lparr>fs_begin = (\<lambda>w. (w, snd (fs_begin files (fl_web w)))), fs_stop = id,
     fs_exists = (\<lambda>w. fs_exists files (fl_web w)), fs_openSize = (\<lambda>w. fs_openSize files (fl_web w)),
     fs_parse = (\<lambda>w. fs_parse files (fl_web w))\<rparr>"

lemma onNet_flash:
  "onNet f w = (w', r) \<Longrightarrow> fl_boot w' = fl_boot w \<and> fl_staged w' = fl_staged w \<and> fl_web w' = fl_web w"
  by (auto simp: onNet_def split: prod.splits)

lemma erased_and [simp]: "(0xFF :: u8) AND b = b"
proof -
  have "(0xFF :: u8) = - 1" by simp
  then show ?thesis by (simp only: and.left_neutral)
qed

interpretation nor: update_flash "norFlash slotSize webSize net" "norFiles files" fl_boot fl_staged fl_web
  for slotSize webSize :: nat and net :: "'n update_api" and files :: "(nat \<Rightarrow> u8, 'j) fs_api"
  by unfold_locales
    (auto simp: norFlash_def norFiles_def sameFlash_def dest!: onNet_flash split: if_splits)

end
