(* ===== verification/Device_Identity.thy ===== *)
theory Device_Identity
  imports Configuration_Store
begin

text \<open>
  gateway: DeviceIdentity.cpp, the names of a gateway, and TimeService.cpp, its clock.  A C string is a byte
  list without the terminating zero.  The MAC address, the random bytes, SHA-256 and the SNTP client are
  arguments; the client's calls are listed in the order they are made.  Serial output is left out.
\<close>

subsection \<open>DeviceIdentity.cpp\<close>

abbreviation (input) kIdentityCharacters :: nat where "kIdentityCharacters \<equiv> 32"

record identity =
  id_hostname :: bytes
  id_gatewayId :: bytes
  id_bootId :: bytes

definition newIdentity :: identity where
  "newIdentity = \<lparr>id_hostname = map of_char ''osk-hub-uninitialized'', id_gatewayId = [], id_bootId = []\<rparr>"

definition lowerDigits :: bytes where
  "lowerDigits = map of_char ''0123456789abcdef''"

definition encodeHex :: "bytes \<Rightarrow> nat \<Rightarrow> bytes" where
  "encodeHex bs n =
     concat (map (\<lambda>b. [lowerDigits ! unat (drop_bit 4 b), lowerDigits ! unat (b AND 0x0F)]) (take n bs))"

definition gatewayIdDomain :: bytes where
  "gatewayIdDomain = map of_char ''radiosensors-gateway-id-v1''"

definition createGatewayId :: "(bytes \<Rightarrow> bytes) \<Rightarrow> 's configuration \<Rightarrow> bytes \<Rightarrow> bytes" where
  "createGatewayId sha256 cf mac =
     (let secrets = configSecrets cf;
          material = gatewayIdDomain @ (if configReady cf \<and> is_deviceSecretPresent secrets
            then take kDeviceSecretSize (is_deviceSecret secrets) else take 6 mac)
      in encodeHex (sha256 material) (kIdentityCharacters div 2))"

text \<open>\<open>mac\<close> is None when it cannot be read.\<close>

definition identityBegin :: "(bytes \<Rightarrow> bytes) \<Rightarrow> 's configuration \<Rightarrow> bytes option \<Rightarrow> bytes \<Rightarrow> identity" where
  "identityBegin sha256 cf mac random =
     (let hostname = (case mac of
            None \<Rightarrow> map of_char ''osk-hub-unknown''
          | Some m \<Rightarrow> map of_char ''osk-hub-'' @ encodeHex m 6);
          mac = (case mac of None \<Rightarrow> zeros 6 | Some m \<Rightarrow> m);
          settings = configSettings cf;
          hostname = (if gs_hostnameLength settings \<noteq> 0
            then take (min (unat (gs_hostnameLength settings)) kHostnameSize) (gs_hostname settings)
            else hostname)
      in \<lparr>id_hostname = hostname, id_gatewayId = createGatewayId sha256 cf mac,
          id_bootId = encodeHex random (kIdentityCharacters div 2)\<rparr>)"

subsection \<open>TimeService.cpp\<close>

datatype TimeState = TM_WaitingForNetwork | TM_Disabled | TM_Synchronizing | TM_Synchronized

abbreviation (input) kMinimumValidUnixTime :: nat where "kMinimumValidUnixTime \<equiv> 1577836800"
abbreviation (input) kNoGeneration :: u32 where "kNoGeneration \<equiv> 0xFFFFFFFF"

record time_service =
  tm_state :: TimeState
  tm_lastSyncMs :: u64
  tm_appliedGeneration :: u32
  tm_ntpServers :: "bytes list"

definition newTimeService :: time_service where
  "newTimeService = \<lparr>tm_state = TM_WaitingForNetwork, tm_lastSyncMs = 0, tm_appliedGeneration = kNoGeneration,
     tm_ntpServers = replicate kNtpServerCount []\<rparr>"

text \<open>The clock of the system: seconds and microseconds.\<close>

definition currentUnixTimeMs :: "nat \<Rightarrow> nat \<Rightarrow> u64" where
  "currentUnixTimeMs sec usec =
     (if sec < kMinimumValidUnixTime then 0 else of_nat sec * 1000 + of_nat (usec div 1000))"

definition onTimeSynchronized :: "nat \<Rightarrow> nat \<Rightarrow> time_service \<Rightarrow> time_service" where
  "onTimeSynchronized sec usec tm =
     (let synchronizedAt = currentUnixTimeMs sec usec in
      if synchronizedAt = 0 then tm else tm\<lparr>tm_lastSyncMs := synchronizedAt, tm_state := TM_Synchronized\<rparr>)"

text \<open>The calls of the SNTP client: stop it, or configure it with up to three servers.\<close>

datatype sntp_call = SntpStop | SntpConfigure "bytes option" "bytes option" "bytes option"

definition storedServer :: "GatewaySettings \<Rightarrow> nat \<Rightarrow> bytes" where
  "storedServer settings index = take (unat (gs_ntpServerLengths settings ! index)) (gs_ntpServers settings ! index)"

definition timeLoop :: "bool \<Rightarrow> 's configuration \<Rightarrow> time_service \<Rightarrow> time_service \<times> sntp_call list" where
  "timeLoop hasIp cf tm =
     (if \<not> hasIp then (tm, [])
      else
        let generation = settingsGeneration cf in
        if generation = tm_appliedGeneration tm then (tm, [])
        else
          let settings = configSettings cf;
              calls = (if tm_appliedGeneration tm \<noteq> kNoGeneration then [SntpStop] else []);
              tm = tm\<lparr>tm_ntpServers := foldl (\<lambda>ss index. ss[index := storedServer settings index])
                    (replicate kNtpServerCount []) [0..<unat (gs_ntpServerCount settings)],
                  tm_appliedGeneration := generation\<rparr>
          in if \<not> gs_ntpEnabled settings then (tm\<lparr>tm_state := TM_Disabled\<rparr>, calls)
             else
               let server = (\<lambda>index. if unat (gs_ntpServerCount settings) > index then Some (tm_ntpServers tm ! index) else None)
               in (tm\<lparr>tm_state := TM_Synchronizing\<rparr>, calls @ [SntpConfigure (server 0) (server 1) (server 2)]))"

definition timeStateName :: "time_service \<Rightarrow> string" where
  "timeStateName tm =
     (case tm_state tm of
        TM_WaitingForNetwork \<Rightarrow> ''waiting_for_network'' | TM_Disabled \<Rightarrow> ''disabled''
      | TM_Synchronizing \<Rightarrow> ''synchronizing'' | TM_Synchronized \<Rightarrow> ''synchronized'')"

definition unixTimeMs :: "nat \<Rightarrow> nat \<Rightarrow> time_service \<Rightarrow> u64" where
  "unixTimeMs sec usec tm = (if tm_state tm \<noteq> TM_Synchronized then 0 else currentUnixTimeMs sec usec)"

end
