(* ===== verification/Backup_Codec.thy ===== *)
theory Backup_Codec
  imports Gateway_Recovery Device_Identity
begin

text \<open>
  gateway: BackupCodec.cpp and BackupCrypto.cpp, the file of a backup.  ArduinoJson is a parameter: the record
  \<open>backup_json\<close> of the calls the code makes, over values of an unknown type; a text that is malformed, nested
  deeper than five or too large for the memory gives None.  PBKDF2 and AES-GCM of mbedTLS are functions that
  give None on error.  A \<open>std::string\<close> and a JSON string are byte lists.  A decoder that returns false leaves a
  snapshot nobody reads, so it gives None here.  Wiping memory is left out.
\<close>

abbreviation (input) kMaxPayload :: nat where "kMaxPayload \<equiv> 17408"
abbreviation (input) kBackupHeaderSize :: nat where "kBackupHeaderSize \<equiv> 44"
abbreviation (input) kTagSize :: nat where "kTagSize \<equiv> 16"
abbreviation (input) kMaxFile :: nat where "kMaxFile \<equiv> kBackupHeaderSize + kMaxPayload + kTagSize"
abbreviation (input) kIterations :: u32 where "kIterations \<equiv> 100000"
abbreviation (input) kPayloadVersion :: nat where "kPayloadVersion \<equiv> 1"
abbreviation (input) kRootFields :: nat where "kRootFields \<equiv> 7"
abbreviation (input) kSettingsFields :: nat where "kSettingsFields \<equiv> 6"
abbreviation (input) kNodeFields :: nat where "kNodeFields \<equiv> 9"

text \<open>\<open>bj_fields\<close> is the number of members of an object and 0 for anything else; \<open>bj_elements\<close> the elements of
  an array and none for anything else; \<open>bj_unsigned\<close> gives the value of a non-negative integer.\<close>

record 'j backup_json =
  bj_object :: "(string \<times> 'j) list \<Rightarrow> 'j"
  bj_array :: "'j list \<Rightarrow> 'j"
  bj_number :: "nat \<Rightarrow> 'j"
  bj_flag :: "bool \<Rightarrow> 'j"
  bj_text :: "bytes \<Rightarrow> 'j"
  bj_serialize :: "'j \<Rightarrow> bytes option"
  bj_deserialize :: "bytes \<Rightarrow> 'j option"
  bj_fields :: "'j \<Rightarrow> nat"
  bj_member :: "'j \<Rightarrow> string \<Rightarrow> 'j"
  bj_isArray :: "'j \<Rightarrow> bool"
  bj_elements :: "'j \<Rightarrow> 'j list"
  bj_unsigned :: "'j \<Rightarrow> nat option"
  bj_flagOf :: "'j \<Rightarrow> bool option"
  bj_textOf :: "'j \<Rightarrow> bytes option"

subsection \<open>BackupCodec.cpp\<close>

definition hexText :: "bytes \<Rightarrow> bytes" where
  "hexText bs = concat (map (\<lambda>b. [lowerDigits ! unat (drop_bit 4 b), lowerDigits ! unat (b AND 0x0F)]) bs)"

definition unhexDigit :: "u8 \<Rightarrow> u8 option" where
  "unhexDigit c =
     (if \<not> ((c \<ge> 0x30 \<and> c \<le> 0x39) \<or> (c \<ge> 0x61 \<and> c \<le> 0x66)) then None
      else Some (if c \<le> 0x39 then c - 0x30 else c - 0x61 + 10))"

text \<open>The loop over pairs of digits.\<close>

fun unhexLoop :: "bytes \<Rightarrow> bytes option" where
  "unhexLoop (high # low # rest) =
     (case unhexDigit high of
        None \<Rightarrow> None
      | Some h \<Rightarrow>
          case unhexDigit low of
            None \<Rightarrow> None
          | Some l \<Rightarrow> map_option ((#) (push_bit 4 h OR l)) (unhexLoop rest))"
| "unhexLoop _ = Some []"

definition unhex :: "'j backup_json \<Rightarrow> 'j \<Rightarrow> nat \<Rightarrow> bytes option" where
  "unhex J v n =
     (case bj_textOf J v of
        None \<Rightarrow> None
      | Some t \<Rightarrow> if length t \<noteq> n * 2 then None else unhexLoop t)"

text \<open>The field with its padding, and the length.\<close>

definition stringField :: "'j backup_json \<Rightarrow> 'j \<Rightarrow> nat \<Rightarrow> (bytes \<times> u8) option" where
  "stringField J v capacity =
     (case bj_textOf J v of
        None \<Rightarrow> None
      | Some t \<Rightarrow>
          if length t > capacity \<or> 0 \<in> set t then None
          else Some (put (zeros capacity) 0 t, of_nat (length t)))"

definition snapshotValid :: "Snapshot \<Rightarrow> bool" where
  "snapshotValid snapshot \<longleftrightarrow>
     is_installationKeyPresent (bk_secrets snapshot) \<and> is_deviceSecretPresent (bk_secrets snapshot) \<and>
     \<not> isl (encodeSettings (bk_settings snapshot) 0 (Some (zeros kSettingsSnapshotSize))) \<and>
     \<not> isl (encodeSecrets (bk_secrets snapshot) 0 (Some (zeros kSecretsSnapshotSize)))"

text \<open>\<open>is<uintN_t>()\<close> and \<open>as<uintN_t>()\<close>.\<close>

definition isUint :: "'j backup_json \<Rightarrow> nat \<Rightarrow> 'j \<Rightarrow> bool" where
  "isUint J n v \<longleftrightarrow> (case bj_unsigned J v of None \<Rightarrow> False | Some k \<Rightarrow> k < 2 ^ n)"

definition asUint :: "'j backup_json \<Rightarrow> 'j \<Rightarrow> 'a::len word" where
  "asUint J v = (case bj_unsigned J v of None \<Rightarrow> 0 | Some k \<Rightarrow> of_nat k)"

definition isFlag :: "'j backup_json \<Rightarrow> 'j \<Rightarrow> bool" where
  "isFlag J v \<longleftrightarrow> bj_flagOf J v \<noteq> None"

definition asFlag :: "'j backup_json \<Rightarrow> 'j \<Rightarrow> bool" where
  "asFlag J v \<longleftrightarrow> bj_flagOf J v = Some True"

definition decodeNode :: "'j backup_json \<Rightarrow> 'j \<Rightarrow> NodeRecord option" where
  "decodeNode J node =
     (let firmware = bj_elements J (bj_member J node ''firmware'') in
      if bj_fields J node \<noteq> kNodeFields \<or> \<not> isUint J 8 (bj_member J node ''id'') \<or>
         \<not> isUint J 16 (bj_member J node ''profile'') \<or> \<not> isUint J 8 (bj_member J node ''state'') \<or>
         \<not> isUint J 32 (bj_member J node ''nonce'') \<or> \<not> isUint J 8 (bj_member J node ''max_power'') \<or>
         \<not> isUint J 8 (bj_member J node ''power_policy'') \<or> length firmware \<noteq> 3 \<or>
         \<not> isUint J 8 (firmware ! 0) \<or> \<not> isUint J 8 (firmware ! 1) \<or> \<not> isUint J 8 (firmware ! 2)
      then None
      else
        case unhex J (bj_member J node ''uid'') kDeviceUidSize of
          None \<Rightarrow> None
        | Some uid \<Rightarrow>
            case stringField J (bj_member J node ''name'') kNodeDisplayNameSize of
              None \<Rightarrow> None
            | Some (name, nameLength) \<Rightarrow>
                let record = \<lparr>nr_deviceUid = uid, nr_nodeId = asUint J (bj_member J node ''id''),
                      nr_profileId = asUint J (bj_member J node ''profile''),
                      nr_firmware = \<lparr>fw_major = asUint J (firmware ! 0), fw_minor = asUint J (firmware ! 1),
                        fw_patch = asUint J (firmware ! 2)\<rparr>,
                      nr_state = nodeStateOf (asUint J (bj_member J node ''state'')),
                      nr_requestNonce = asUint J (bj_member J node ''nonce''),
                      nr_displayNameLength = nameLength, nr_displayName = name,
                      nr_maxPowerLevel = asUint J (bj_member J node ''max_power''),
                      nr_powerPolicy = asUint J (bj_member J node ''power_policy'')\<rparr>
                in if nr_powerPolicy record = 0 \<or> uint (nr_powerPolicy record) - 1 \<le> uint (nr_maxPowerLevel record)
                   then Some record else None)"

definition validPassword :: "bytes option \<Rightarrow> nat \<Rightarrow> bool" where
  "validPassword password n \<longleftrightarrow>
     (case password of None \<Rightarrow> False | Some p \<Rightarrow> n \<ge> 12 \<and> n \<le> 128 \<and> 0 \<notin> set (take n p))"

definition number :: "'j backup_json \<Rightarrow> 'a::len word \<Rightarrow> 'j" where
  "number J v = bj_number J (unat v)"

definition settingsDocument :: "'j backup_json \<Rightarrow> GatewaySettings \<Rightarrow> 'j" where
  "settingsDocument J stored = bj_object J
     [(''hostname'', bj_text J (take (unat (gs_hostnameLength stored)) (gs_hostname stored))),
      (''mdns'', bj_flag J (gs_mdnsEnabled stored)), (''ntp'', bj_flag J (gs_ntpEnabled stored)),
      (''pairing_seconds'', number J (gs_pairingWindowSeconds stored)),
      (''setup_seconds'', number J (gs_setupWindowSeconds stored)),
      (''servers'', bj_array J (map (\<lambda>index. bj_text J (take (unat (gs_ntpServerLengths stored ! index))
         (gs_ntpServers stored ! index))) [0..<unat (gs_ntpServerCount stored)]))]"

definition nodeDocument :: "'j backup_json \<Rightarrow> NodeRecord \<Rightarrow> 'j" where
  "nodeDocument J record = bj_object J
     [(''uid'', bj_text J (hexText (nr_deviceUid record))), (''id'', number J (nr_nodeId record)),
      (''profile'', number J (nr_profileId record)),
      (''firmware'', bj_array J [number J (fw_major (nr_firmware record)), number J (fw_minor (nr_firmware record)),
         number J (fw_patch (nr_firmware record))]),
      (''state'', number J (nodeStateValue (nr_state record))), (''nonce'', number J (nr_requestNonce record)),
      (''name'', bj_text J (take (unat (nr_displayNameLength record)) (nr_displayName record))),
      (''max_power'', number J (nr_maxPowerLevel record)), (''power_policy'', number J (nr_powerPolicy record))]"

definition backupEncode :: "'j backup_json \<Rightarrow> Snapshot \<Rightarrow> bytes option" where
  "backupEncode J snapshot =
     (if \<not> snapshotValid snapshot then None
      else
        let document = bj_object J
              [(''version'', bj_number J kPayloadVersion), (''created_at_ms'', number J (bk_createdAt snapshot)),
               (''settings'', settingsDocument J (bk_settings snapshot)),
               (''network_id'', number J (is_operationalNetworkId (bk_secrets snapshot))),
               (''installation_key'', bj_text J (hexText (is_installationKey (bk_secrets snapshot)))),
               (''device_secret'', bj_text J (hexText (is_deviceSecret (bk_secrets snapshot)))),
               (''nodes'', bj_array J (map (\<lambda>index. nodeDocument J (reg_records (bk_nodes snapshot) ! index))
                  [0..<reg_count (bk_nodes snapshot)]))]
        in case bj_serialize J document of
             None \<Rightarrow> None
           | Some t \<Rightarrow> if length t > kMaxPayload then None else Some t)"

text \<open>The loop over the servers: the next free place of the settings.\<close>

fun serverLoop :: "'j backup_json \<Rightarrow> 'j list \<Rightarrow> GatewaySettings \<Rightarrow> GatewaySettings option" where
  "serverLoop J [] stored = Some stored"
| "serverLoop J (entry # rest) stored =
     (let index = unat (gs_ntpServerCount stored);
          stored = stored\<lparr>gs_ntpServerCount := gs_ntpServerCount stored + 1\<rparr>
      in case stringField J entry kNtpServerSize of
           None \<Rightarrow> None
         | Some (server, n) \<Rightarrow>
             serverLoop J rest (stored\<lparr>gs_ntpServers := (gs_ntpServers stored)[index := server],
               gs_ntpServerLengths := (gs_ntpServerLengths stored)[index := n]\<rparr>))"

definition decodeSettingsDocument :: "'j backup_json \<Rightarrow> 'j \<Rightarrow> GatewaySettings option" where
  "decodeSettingsDocument J settings =
     (if bj_fields J settings \<noteq> kSettingsFields \<or> \<not> isFlag J (bj_member J settings ''mdns'') \<or>
         \<not> isFlag J (bj_member J settings ''ntp'') \<or> \<not> isUint J 16 (bj_member J settings ''pairing_seconds'') \<or>
         \<not> isUint J 16 (bj_member J settings ''setup_seconds'') \<or> \<not> bj_isArray J (bj_member J settings ''servers'')
      then None
      else
        case stringField J (bj_member J settings ''hostname'') kHostnameSize of
          None \<Rightarrow> None
        | Some (hostname, hostnameLength) \<Rightarrow>
            let stored = \<lparr>gs_mdnsEnabled = asFlag J (bj_member J settings ''mdns''),
                  gs_ntpEnabled = asFlag J (bj_member J settings ''ntp''),
                  gs_pairingWindowSeconds = asUint J (bj_member J settings ''pairing_seconds''),
                  gs_setupWindowSeconds = asUint J (bj_member J settings ''setup_seconds''),
                  gs_hostnameLength = hostnameLength, gs_hostname = hostname, gs_ntpServerCount = 0,
                  gs_ntpServerLengths = zeros kNtpServerCount,
                  gs_ntpServers = replicate kNtpServerCount (zeros kNtpServerSize)\<rparr>;
                servers = bj_elements J (bj_member J settings ''servers'')
            in if length servers > kNtpServerCount then None else serverLoop J servers stored)"

fun nodesLoop :: "'j backup_json \<Rightarrow> 'j list \<Rightarrow> NodeRecord list option" where
  "nodesLoop J [] = Some []"
| "nodesLoop J (node # rest) =
     (case decodeNode J node of
        None \<Rightarrow> None
      | Some record \<Rightarrow> map_option ((#) record) (nodesLoop J rest))"

definition backupDecode :: "'j backup_json \<Rightarrow> bool \<Rightarrow> bytes option \<Rightarrow> Snapshot option" where
  "backupDecode J recordsMade json =
     (case json of
        None \<Rightarrow> None
      | Some t \<Rightarrow>
          if length t = 0 \<or> length t > kMaxPayload then None
          else
            case bj_deserialize J t of
              None \<Rightarrow> None
            | Some root \<Rightarrow>
                if bj_fields J root \<noteq> kRootFields \<or> \<not> isUint J 8 (bj_member J root ''version'') \<or>
                   (asUint J (bj_member J root ''version'') :: u8) \<noteq> of_nat kPayloadVersion \<or>
                   \<not> isUint J 64 (bj_member J root ''created_at_ms'') \<or>
                   \<not> isUint J 8 (bj_member J root ''network_id'') \<or> \<not> bj_isArray J (bj_member J root ''nodes'')
                then None
                else
                  case (unhex J (bj_member J root ''installation_key'') kRadioKeySize,
                        unhex J (bj_member J root ''device_secret'') kDeviceSecretSize,
                        decodeSettingsDocument J (bj_member J root ''settings'')) of
                    (Some key, Some secret, Some stored) \<Rightarrow>
                      let snapshot = \<lparr>bk_settings = stored,
                            bk_secrets = \<lparr>is_installationKeyPresent = True, is_deviceSecretPresent = True,
                              is_operationalNetworkId = asUint J (bj_member J root ''network_id''),
                              is_installationKey = key, is_deviceSecret = secret\<rparr>,
                            bk_nodes = newRegistry, bk_createdAt = asUint J (bj_member J root ''created_at_ms'')\<rparr>;
                          nodes = bj_elements J (bj_member J root ''nodes'')
                      in if \<not> snapshotValid snapshot \<or> length nodes > kMaxNodes \<or> \<not> recordsMade then None
                         else
                           (case nodesLoop J nodes of
                              None \<Rightarrow> None
                            | Some records \<Rightarrow>
                                case restore newRegistry (Some records) (length records) of
                                  (registry, restored) \<Rightarrow>
                                    if restored then Some (snapshot\<lparr>bk_nodes := registry\<rparr>) else None)
                  | _ \<Rightarrow> None)"

subsection \<open>BackupCrypto.cpp\<close>

definition kBackupPrefix :: bytes where
  "kBackupPrefix = map of_char ''OSKB'' @ [1, 1, 1, 0]"

abbreviation (input) kIterationsOffset :: nat where "kIterationsOffset \<equiv> 8"
abbreviation (input) kLengthOffset :: nat where "kLengthOffset \<equiv> 12"
abbreviation (input) kSaltOffset :: nat where "kSaltOffset \<equiv> 16"
abbreviation (input) kSaltSize :: nat where "kSaltSize \<equiv> 16"
abbreviation (input) kNonceOffset :: nat where "kNonceOffset \<equiv> 32"
abbreviation (input) kNonceSize :: nat where "kNonceSize \<equiv> 12"
abbreviation (input) kKeySize :: nat where "kKeySize \<equiv> 32"

text \<open>PBKDF2 of password, salt, iterations and output size; AES-256-GCM of key, nonce and header, with the
  ciphertext and the tag.\<close>

record backup_crypto =
  bc_pbkdf2 :: "bytes \<Rightarrow> bytes \<Rightarrow> u32 \<Rightarrow> nat \<Rightarrow> bytes option"
  bc_encrypt :: "bytes \<Rightarrow> bytes \<Rightarrow> bytes \<Rightarrow> bytes \<Rightarrow> (bytes \<times> bytes) option"
  bc_decrypt :: "bytes \<Rightarrow> bytes \<Rightarrow> bytes \<Rightarrow> bytes \<Rightarrow> bytes \<Rightarrow> bytes option"

definition deriveKey :: "backup_crypto \<Rightarrow> bytes \<Rightarrow> bytes \<Rightarrow> bytes option" where
  "deriveKey C password salt = bc_pbkdf2 C password salt kIterations kKeySize"

definition backupGatewayId :: "(bytes \<Rightarrow> bytes) \<Rightarrow> Snapshot \<Rightarrow> bytes" where
  "backupGatewayId sha256 snapshot =
     (let material = gatewayIdDomain @ take kDeviceSecretSize (is_deviceSecret (bk_secrets snapshot));
          digest = sha256 material
      in concat (map (\<lambda>b. [lowerDigits ! unat (drop_bit 4 b), lowerDigits ! unat (b AND 0x0F)]) (take 16 digest)))"

text \<open>The file after the header fields and \<open>random\<close>, the salt and the nonce, have been written.\<close>

definition backupHeader :: "nat \<Rightarrow> bytes \<Rightarrow> bytes \<Rightarrow> bytes" where
  "backupHeader payloadSize random file =
     (let file = put file 0 kBackupPrefix;
          file = put file kIterationsOffset (le32 kIterations);
          file = put file kLengthOffset (le32 (of_nat payloadSize))
      in put file kSaltOffset (take (kSaltSize + kNonceSize) random))"

definition backupEncrypt ::
  "'j backup_json \<Rightarrow> backup_crypto \<Rightarrow> Snapshot \<Rightarrow> bytes option \<Rightarrow> nat \<Rightarrow> bytes \<Rightarrow> bytes option" where
  "backupEncrypt J C snapshot password n random =
     (if \<not> validPassword password n then None
      else
        case backupEncode J snapshot of
          None \<Rightarrow> None
        | Some plain \<Rightarrow>
            let payloadSize = length plain;
                file = backupHeader payloadSize random (zeros (kBackupHeaderSize + payloadSize + kTagSize))
            in case deriveKey C (take n (the password)) (chunk file kSaltOffset kSaltSize) of
                 None \<Rightarrow> None
               | Some key \<Rightarrow>
                   case bc_encrypt C key (chunk file kNonceOffset kNonceSize) (take kBackupHeaderSize file) plain of
                     None \<Rightarrow> None
                   | Some (ciphertext, tag) \<Rightarrow>
                       Some (put (put file kBackupHeaderSize ciphertext) (kBackupHeaderSize + payloadSize) tag))"

definition backupDecrypt ::
  "'j backup_json \<Rightarrow> backup_crypto \<Rightarrow> bool \<Rightarrow> bytes option \<Rightarrow> bytes option \<Rightarrow> nat \<Rightarrow> Snapshot option" where
  "backupDecrypt J C recordsMade file password n =
     (case file of
        None \<Rightarrow> None
      | Some f \<Rightarrow>
          if \<not> validPassword password n \<or> length f \<le> kBackupHeaderSize + kTagSize \<or> length f > kMaxFile \<or>
             take 8 f \<noteq> kBackupPrefix \<or> get32 f kIterationsOffset \<noteq> kIterations \<or>
             unat (get32 f kLengthOffset) \<noteq> length f - kBackupHeaderSize - kTagSize
          then None
          else
            case deriveKey C (take n (the password)) (chunk f kSaltOffset kSaltSize) of
              None \<Rightarrow> None
            | Some key \<Rightarrow>
                let payloadSize = length f - kBackupHeaderSize - kTagSize in
                case bc_decrypt C key (chunk f kNonceOffset kNonceSize) (take kBackupHeaderSize f)
                       (chunk f (kBackupHeaderSize + payloadSize) kTagSize) (chunk f kBackupHeaderSize payloadSize) of
                  None \<Rightarrow> None
                | Some plain \<Rightarrow> backupDecode J recordsMade (Some plain))"

end
