(* ===== verification/Backup_File.thy ===== *)
theory Backup_File
  imports Backup_Codec
begin

text \<open>
  What a backup file promises: the documents read back (over the locale \<open>json_library\<close>), the decoder accepts only
  valid installations, and the file (over \<open>backup_cipher\<close>) decrypts to what was encrypted.  Both contracts are
  interpreted at the end, the first on a compact format with a reader whose fuel is the nesting limit.
\<close>


subsection \<open>What the code relies on\<close>

text \<open>A fixed level a node is able to use.  The registry never holds another one.\<close>

definition policyWithin :: "NodeRecord \<Rightarrow> bool" where
  "policyWithin r \<longleftrightarrow> nr_powerPolicy r = 0 \<or> uint (nr_powerPolicy r) - 1 \<le> uint (nr_maxPowerLevel r)"


text \<open>A text the library wrote is read back, when it is not nested too deep; a value answers for what it was
  built from.\<close>

locale json_library =
  fixes J :: "'j backup_json" and nested :: "nat \<Rightarrow> 'j \<Rightarrow> bool"
  assumes read_back: "nested 5 v \<Longrightarrow> bj_serialize J v = Some t \<Longrightarrow> bj_deserialize J t = Some v \<and> t \<noteq> []"
    and nested_leaf: "nested n (bj_number J m)" "nested n (bj_flag J b)" "nested n (bj_text J s)"
    and nested_array: "\<forall>v \<in> set vs. nested n v \<Longrightarrow> nested (Suc n) (bj_array J vs)"
    and nested_object: "\<forall>(k, v) \<in> set ms. nested n v \<Longrightarrow> nested (Suc n) (bj_object J ms)"
    and object_fields: "distinct (map fst ms) \<Longrightarrow> bj_fields J (bj_object J ms) = length ms"
    and object_member: "distinct (map fst ms) \<Longrightarrow> map_of ms k = Some v \<Longrightarrow> bj_member J (bj_object J ms) k = v"
    and array_elements [simp]: "bj_isArray J (bj_array J vs)" "bj_elements J (bj_array J vs) = vs"
    and number_value: "m < 2 ^ 64 \<Longrightarrow> bj_unsigned J (bj_number J m) = Some m"
    and flag_value [simp]: "bj_flagOf J (bj_flag J b) = Some b"
    and text_value [simp]: "bj_textOf J (bj_text J s) = Some s"

lemma hexDigits_back:
  fixes b :: u8
  assumes "b < 16"
  shows "unhexDigit (lowerDigits ! unat b) = Some b"
proof -
  have "\<forall>i < 16. unhexDigit (lowerDigits ! i) = Some (of_nat i)" by code_simp
  moreover have "unat b < 16" using assms by (simp add: word_less_nat_alt)
  ultimately show ?thesis by fastforce
qed

lemma low_nibble: "b AND 0x0F = take_bit 4 (b :: u8)"
proof -
  have "(0x0F :: u8) = mask 4" by (simp add: mask_eq_exp_minus_1)
  then show ?thesis by (simp only: take_bit_eq_mask)
qed

lemma nibbles: "push_bit 4 (drop_bit 4 b) OR (b AND 0x0F) = (b :: u8)"
  unfolding low_nibble by (rule bit_word_eqI) (auto simp: bit_simps)

lemma nibble_bounds: "drop_bit 4 b < (16 :: u8)" "b AND 0x0F < (16 :: u8)"
proof -
  have "unat b < 256" using unsigned_less [of b, where ?'a = nat] by simp
  then show "drop_bit 4 b < (16 :: u8)"
    by (simp add: word_less_nat_alt drop_bit_eq_div unat_div)
  show "b AND 0x0F < (16 :: u8)"
    unfolding low_nibble by (simp add: word_less_nat_alt take_bit_eq_mod unat_mod)
qed

lemma unhexLoop_hexText: "unhexLoop (hexText bs) = Some bs"
proof (induction bs)
  case (Cons b bs)
  have "hexText (b # bs) = lowerDigits ! unat (drop_bit 4 b) # lowerDigits ! unat (b AND 0x0F) # hexText bs"
    by (simp add: hexText_def)
  then show ?case using Cons by (simp add: hexDigits_back nibble_bounds nibbles)
qed (simp add: hexText_def)

lemma length_hexText [simp]: "length (hexText bs) = length bs * 2"
  by (induction bs) (simp_all add: hexText_def)

lemma allZero_zeros_eq: "allZero bs \<Longrightarrow> bs = zeros (length bs)"
  by (induction bs) (auto simp: allZero_def)

lemma padded_back:
  assumes "allZero (drop n s)" "length s = c"
  shows "put (zeros c) 0 (take n s) = s"
proof (cases "n \<le> c")
  case True
  have "drop n s = zeros (c - n)" using allZero_zeros_eq [OF assms(1)] assms(2) by simp
  then show ?thesis using True assms(2) append_take_drop_id [of n s] by (simp add: put_def)
next
  case False
  then show ?thesis using assms(2) by (simp add: put_def)
qed

lemma utf8_bytes_nonzero:
  assumes "nameScalar cp"
  shows "0 \<notin> set (utf8_bytes cp)"
proof -
  have "0x20 \<le> cp" "cp \<le> 0x10FFFF" using assms by (auto simp: nameScalar_def scalar_def)
  then have "\<forall>x \<in> set (utf8 cp). 0 < x \<and> x < 256" by (auto simp: utf8_def)
  then show ?thesis by (fastforce simp: utf8_bytes_def word_of_nat_eq_0_iff dest!: dvd_imp_le)
qed

lemma validDisplayName_noZero:
  assumes "validDisplayName (Some v) n" "n \<le> length v"
  shows "0 \<notin> set (take n v)"
  using assms utf8_bytes_nonzero by (auto simp: validDisplayName_iff list_all_iff)

lemma validHostname_noZero: "validHostname v n \<Longrightarrow> 0 \<notin> set (take n v)"
  by (auto simp: validHostname_def list_all_iff split: if_splits)

lemma validNtpServer_noZero: "validNtpServer v n \<Longrightarrow> 0 \<notin> set (take n v)"
  by (auto simp: validNtpServer_def list_all_iff)

context json_library
begin

lemma object_simps [simp]:
  "distinct (k # map fst ms) \<Longrightarrow> bj_member J (bj_object J ((k, v) # ms)) k = v"
  "distinct (k # map fst ms) \<Longrightarrow> k' \<noteq> k \<Longrightarrow> map_of ms k' = Some v' \<Longrightarrow> bj_member J (bj_object J ((k, v) # ms)) k' = v'"
  by (auto intro!: object_member)

lemma number_simps [simp]:
  fixes v :: "'a::len word"
  assumes "LENGTH('a) \<le> 64"
  shows "bj_unsigned J (number J v) = Some (unat v)"
proof -
  have "unat v < 2 ^ LENGTH('a)" by (rule unsigned_less)
  also have "(2 :: nat) ^ LENGTH('a) \<le> 2 ^ 64" using assms by (intro power_increasing) simp_all
  finally show ?thesis by (simp add: number_def number_value)
qed

lemma isUint_number [simp]:
  fixes v :: "'a::len word"
  assumes "LENGTH('a) \<le> 64" "LENGTH('a) = n"
  shows "isUint J n (number J v)" "(asUint J (number J v) :: 'a word) = v"
  using assms unsigned_less [of v, where ?'a = nat] by (simp_all add: isUint_def asUint_def)

lemma stringField_text:
  assumes "length s = c" "c < 256" "allZero (drop (unat n) s)" "unat n \<le> c" "0 \<notin> set (take (unat n) s)"
  shows "stringField J (bj_text J (take (unat n) s)) c = Some (s, n)"
  using assms padded_back [OF assms(3,1)] by (simp add: stringField_def)

lemma unhex_text: "length bs = n \<Longrightarrow> unhex J (bj_text J (hexText bs)) n = Some bs"
  by (simp add: unhex_def unhexLoop_hexText)

lemma decodeNode_document:
  assumes r: "recordOk r" and power: "nr_powerPolicy r = 0 \<or> uint (nr_powerPolicy r) - 1 \<le> uint (nr_maxPowerLevel r)"
  shows "decodeNode J (nodeDocument J r) = Some r"
proof -
  let ?m = "bj_member J (nodeDocument J r)"
  let ?fw = "[number J (fw_major (nr_firmware r)), number J (fw_minor (nr_firmware r)), number J (fw_patch (nr_firmware r))]"
  have m: "?m ''uid'' = bj_text J (hexText (nr_deviceUid r))" "?m ''id'' = number J (nr_nodeId r)"
    "?m ''profile'' = number J (nr_profileId r)" "?m ''firmware'' = bj_array J ?fw"
    "?m ''state'' = number J (nodeStateValue (nr_state r))" "?m ''nonce'' = number J (nr_requestNonce r)"
    "?m ''name'' = bj_text J (take (unat (nr_displayNameLength r)) (nr_displayName r))"
    "?m ''max_power'' = number J (nr_maxPowerLevel r)" "?m ''power_policy'' = number J (nr_powerPolicy r)"
    by (simp_all add: nodeDocument_def)
  have f: "bj_fields J (nodeDocument J r) = 9" by (simp add: nodeDocument_def object_fields)
  have shape: "length (nr_deviceUid r) = kDeviceUidSize" "length (nr_displayName r) = 48"
      "allZero (drop (unat (nr_displayNameLength r)) (nr_displayName r))"
      "nr_state r \<in> {Pending, Active, Disabled}" "validDisplayName (Some (nr_displayName r)) (unat (nr_displayNameLength r))"
    using r by (auto simp: recordOk_def shapedRecord_def restorableRecord_def)
  have name: "unat (nr_displayNameLength r) \<le> 48" "0 \<notin> set (take (unat (nr_displayNameLength r)) (nr_displayName r))"
  proof -
    show "unat (nr_displayNameLength r) \<le> 48" using shape(5) by (auto simp: validDisplayName_def split: if_splits)
    then show "0 \<notin> set (take (unat (nr_displayNameLength r)) (nr_displayName r))"
      using validDisplayName_noZero [OF shape(5)] shape(2) by simp
  qed
  show ?thesis using power
    by (simp add: decodeNode_def Let_def f m unhex_text [OF shape(1)] stringField_text [OF shape(2) _ shape(3) name] nodeStateOf_value [OF shape(4)])
qed

lemma nodesLoop_documents:
  "list_all recordOk rs \<Longrightarrow> list_all policyWithin rs \<Longrightarrow>
    nodesLoop J (map (nodeDocument J) rs) = Some rs"
  by (induction rs) (simp_all add: decodeNode_document policyWithin_def)

text \<open>A server before the count is not empty and padded with zeros, one after it is blank.\<close>

lemma storedServer_field:
  assumes "settingsShaped v" "validateSettings v = None" "i < unat (gs_ntpServerCount v)" "i < 3"
  shows "stringField J (bj_text J (take (unat (gs_ntpServerLengths v ! i)) (gs_ntpServers v ! i))) kNtpServerSize =
    Some (gs_ntpServers v ! i, gs_ntpServerLengths v ! i)"
proof -
  have "validateNtpServer v i = None" using assms by (auto simp: validateSettings_def Let_def split: if_splits)
  then have v: "validNtpServer (gs_ntpServers v ! i) (unat (gs_ntpServerLengths v ! i))"
      "zeroPadded (gs_ntpServers v ! i) (unat (gs_ntpServerLengths v ! i)) 63"
    using assms(3) by (auto simp: validateNtpServer_def Let_def split: if_splits)
  have len: "length (gs_ntpServers v ! i) = 63" using assms(1,4) by (auto simp: settingsShaped_def list_all_length)
  show ?thesis
    by (rule stringField_text) (use v len validNtpServer_noZero [OF v(1)] in \<open>auto simp: zeroPadded_def chunk_def\<close>)
qed

text \<open>A server after the count is blank.\<close>

lemma unusedServer:
  assumes "settingsShaped v" "validateSettings v = None" "unat (gs_ntpServerCount v) \<le> i" "i < 3"
  shows "gs_ntpServers v ! i = zeros kNtpServerSize \<and> gs_ntpServerLengths v ! i = 0"
proof -
  have "validateNtpServer v i = None" using assms by (auto simp: validateSettings_def Let_def split: if_splits)
  then have "unat (gs_ntpServerLengths v ! i) = 0" "allZero (gs_ntpServers v ! i)"
    using assms(3) by (auto simp: validateNtpServer_def Let_def split: if_splits)
  moreover have "length (gs_ntpServers v ! i) = 63" using assms(1,4) by (auto simp: settingsShaped_def list_all_length)
  ultimately show ?thesis using allZero_zeros_eq [of "gs_ntpServers v ! i"] by (simp add: unat_eq_zero)
qed

lemma serverLoop_documents:
  assumes v: "settingsShaped v" "validateSettings v = None"
    and blank: "gs_ntpServerCount stored = 0" "gs_ntpServerLengths stored = zeros 3" "gs_ntpServers stored = replicate 3 (zeros 63)"
  shows "serverLoop J (map (\<lambda>index. bj_text J (take (unat (gs_ntpServerLengths v ! index)) (gs_ntpServers v ! index)))
      [0..<unat (gs_ntpServerCount v)]) stored =
    Some (stored\<lparr>gs_ntpServerCount := gs_ntpServerCount v, gs_ntpServerLengths := gs_ntpServerLengths v,
      gs_ntpServers := gs_ntpServers v\<rparr>)"
proof -
  obtain a b c p q r where sh: "gs_ntpServerLengths v = [a, b, c]" "gs_ntpServers v = [p, q, r]"
    using v(1) by (rule settingsShapedE)
  have le: "unat (gs_ntpServerCount v) \<le> 3" using v(2) by (auto simp: validateSettings_def Let_def split: if_splits)
  have used: "stringField J (bj_text J (take (unat a) p)) 63 = Some (p, a)" if "0 < unat (gs_ntpServerCount v)"
    using storedServer_field [OF v, of 0] that by (simp add: sh)
  have used1: "stringField J (bj_text J (take (unat b) q)) 63 = Some (q, b)" if "1 < unat (gs_ntpServerCount v)"
    using storedServer_field [OF v, of 1] that by (simp add: sh)
  have used2: "stringField J (bj_text J (take (unat c) r)) 63 = Some (r, c)" if "2 < unat (gs_ntpServerCount v)"
    using storedServer_field [OF v, of 2] that by (simp add: sh)
  have free: "p = zeros 63 \<and> a = 0" if "unat (gs_ntpServerCount v) \<le> 0" using unusedServer [OF v, of 0] that by (simp add: sh)
  have free1: "q = zeros 63 \<and> b = 0" if "unat (gs_ntpServerCount v) \<le> 1" using unusedServer [OF v, of 1] that by (simp add: sh)
  have free2: "r = zeros 63 \<and> c = 0" if "unat (gs_ntpServerCount v) \<le> 2" using unusedServer [OF v, of 2] that by (simp add: sh)
  have three: "replicate 3 x = [x, x, x]" for x :: 'x by (simp add: numeral_3_eq_3)
  consider "unat (gs_ntpServerCount v) = 0" | "unat (gs_ntpServerCount v) = 1" | "unat (gs_ntpServerCount v) = 2"
    | "unat (gs_ntpServerCount v) = 3" using le by linarith
  then show ?thesis
  proof cases
    case 1
    then have "gs_ntpServerCount v = 0" by (simp add: unat_eq_zero)
    then show ?thesis using free free1 free2 blank by (simp add: sh three)
  next
    case 2
    then have "gs_ntpServerCount v = 1" by (simp add: word_unat_eq_iff)
    then show ?thesis using used free1 free2 blank by (simp add: sh three Let_def)
  next
    case 3
    then have "gs_ntpServerCount v = 2" by (simp add: word_unat_eq_iff)
    then show ?thesis using used used1 free2 blank by (simp add: sh three Let_def upt_rec)
  next
    case 4
    then have "gs_ntpServerCount v = 3" by (simp add: word_unat_eq_iff)
    then show ?thesis using used used1 used2 blank by (simp add: sh three Let_def upt_rec)
  qed
qed

lemma decodeSettings_document:
  assumes v: "settingsShaped v" "validateSettings v = None"
  shows "decodeSettingsDocument J (settingsDocument J v) = Some v"
proof -
  let ?m = "bj_member J (settingsDocument J v)"
  have m: "?m ''hostname'' = bj_text J (take (unat (gs_hostnameLength v)) (gs_hostname v))"
    "?m ''mdns'' = bj_flag J (gs_mdnsEnabled v)" "?m ''ntp'' = bj_flag J (gs_ntpEnabled v)"
    "?m ''pairing_seconds'' = number J (gs_pairingWindowSeconds v)" "?m ''setup_seconds'' = number J (gs_setupWindowSeconds v)"
    "?m ''servers'' = bj_array J (map (\<lambda>index. bj_text J (take (unat (gs_ntpServerLengths v ! index)) (gs_ntpServers v ! index)))
       [0..<unat (gs_ntpServerCount v)])"
    by (simp_all add: settingsDocument_def)
  have f: "bj_fields J (settingsDocument J v) = 6" by (simp add: settingsDocument_def object_fields)
  have h: "unat (gs_hostnameLength v) \<le> 32" "zeroPadded (gs_hostname v) (unat (gs_hostnameLength v)) 32"
    "validHostname (gs_hostname v) (unat (gs_hostnameLength v))" "unat (gs_ntpServerCount v) \<le> 3"
    using v(2) by (auto simp: validateSettings_def Let_def split: if_splits)
  have len: "length (gs_hostname v) = 32" using v(1) by (simp add: settingsShaped_def)
  have host: "stringField J (bj_text J (take (unat (gs_hostnameLength v)) (gs_hostname v))) 32 = Some (gs_hostname v, gs_hostnameLength v)"
    by (rule stringField_text) (use h len validHostname_noZero [OF h(3)] in \<open>auto simp: zeroPadded_def chunk_def\<close>)
  show ?thesis
    by (simp add: decodeSettingsDocument_def f m isFlag_def asFlag_def host leD [OF h(4)] serverLoop_documents [OF v])
qed

text \<open>The whole document.\<close>

lemma nested_simps [simp]:
  "nested n (number J (v :: 'a::len word))" "nested n (bj_number J m)" "nested n (bj_flag J b)" "nested n (bj_text J s)"
  by (simp_all add: number_def nested_leaf)

lemma nested_node: "nested (Suc (Suc n)) (nodeDocument J r)"
  unfolding nodeDocument_def by (intro nested_object) (auto intro!: nested_array)

lemma nested_settings: "nested (Suc (Suc n)) (settingsDocument J v)"
  unfolding settingsDocument_def by (intro nested_object) (auto intro!: nested_array)

lemma backupDecode_encode:
  assumes e: "backupEncode J snapshot = Some t"
    and shaped: "settingsShaped (bk_settings snapshot)" "secretsShaped (bk_secrets snapshot)" "registryOk (bk_nodes snapshot)"
    and power: "list_all policyWithin (registryRecords (bk_nodes snapshot))"
  shows "backupDecode J True (Some t) = Some snapshot" "0 < length t" "length t \<le> kMaxPayload"
proof -
  obtain rs where rs: "bk_nodes snapshot = registryOf rs" "recordsOk rs" using registryOkE [OF shaped(3)] .
  have ok: "length rs \<le> kMaxNodes" "list_all recordOk rs" using rs(2) by (simp_all add: recordsOk_def)
  have records: "map (\<lambda>index. nodeDocument J (reg_records (bk_nodes snapshot) ! index)) [0..<reg_count (bk_nodes snapshot)] =
      map (nodeDocument J) rs"
    by (rule nth_equalityI) (simp_all add: rs(1) registryOf_def nth_append)
  have pw: "list_all policyWithin rs" using power by (simp add: registryRecords_def rs(1) registryOf_def)
  let ?s = "bk_settings snapshot" and ?k = "bk_secrets snapshot"
  let ?members = "[(''version'', bj_number J (Suc 0)), (''created_at_ms'', number J (bk_createdAt snapshot)),
      (''settings'', settingsDocument J ?s), (''network_id'', number J (is_operationalNetworkId ?k)),
      (''installation_key'', bj_text J (hexText (is_installationKey ?k))),
      (''device_secret'', bj_text J (hexText (is_deviceSecret ?k))), (''nodes'', bj_array J (map (nodeDocument J) rs))]"
  let ?root = "bj_object J ?members"
  have valid: "snapshotValid snapshot" and ser: "bj_serialize J ?root = Some t" and len: "length t \<le> kMaxPayload"
    using e by (auto simp: backupEncode_def Let_def records split: if_splits option.splits)
  have "nested (Suc (Suc (Suc (Suc (Suc 0))))) ?root"
    by (intro nested_object) (auto intro!: nested_array nested_node nested_settings)
  then have parsed: "bj_deserialize J t = Some ?root" "t \<noteq> []"
    using read_back [OF _ ser] by (simp_all add: numeral_eq_Suc)
  show "0 < length t" "length t \<le> kMaxPayload" using parsed(2) len by simp_all
  have validated: "validateSettings ?s = None" "is_installationKeyPresent ?k" "is_deviceSecretPresent ?k"
    using valid by (auto simp: snapshotValid_def encodeSettings_def Let_def split: option.splits)
  have m: "bj_member J ?root ''version'' = bj_number J (Suc 0)"
    "bj_member J ?root ''created_at_ms'' = number J (bk_createdAt snapshot)"
    "bj_member J ?root ''settings'' = settingsDocument J ?s"
    "bj_member J ?root ''network_id'' = number J (is_operationalNetworkId ?k)"
    "bj_member J ?root ''installation_key'' = bj_text J (hexText (is_installationKey ?k))"
    "bj_member J ?root ''device_secret'' = bj_text J (hexText (is_deviceSecret ?k))"
    "bj_member J ?root ''nodes'' = bj_array J (map (nodeDocument J) rs)" by simp_all
  have f: "bj_fields J ?root = 7" by (simp add: object_fields)
  have version: "isUint J 8 (bj_number J (Suc 0))" "(asUint J (bj_number J (Suc 0)) :: u8) = 1"
    by (simp_all add: isUint_def asUint_def number_value)
  have hexes: "unhex J (bj_text J (hexText (is_installationKey ?k))) 16 = Some (is_installationKey ?k)"
    "unhex J (bj_text J (hexText (is_deviceSecret ?k))) 32 = Some (is_deviceSecret ?k)"
    by (rule unhex_text, use shaped(2) in \<open>simp add: secretsShaped_def\<close>)+
  let ?snapshot = "\<lparr>bk_settings = ?s, bk_secrets = \<lparr>is_installationKeyPresent = True, is_deviceSecretPresent = True,
      is_operationalNetworkId = is_operationalNetworkId ?k, is_installationKey = is_installationKey ?k,
      is_deviceSecret = is_deviceSecret ?k\<rparr>, bk_nodes = newRegistry, bk_createdAt = bk_createdAt snapshot\<rparr>"
  have eq: "?snapshot\<lparr>bk_nodes := registryOf rs\<rparr> = snapshot" using validated rs(1) by simp
  have "?snapshot = snapshot\<lparr>bk_nodes := newRegistry\<rparr>" using validated by simp
  moreover have "snapshotValid (snapshot\<lparr>bk_nodes := newRegistry\<rparr>)" using valid by (simp add: snapshotValid_def)
  ultimately have "snapshotValid ?snapshot" by (simp only:)
  moreover have "nodesLoop J (map (nodeDocument J) rs) = Some rs"
    by (rule nodesLoop_documents) (use ok pw in \<open>simp_all add: policyWithin_def\<close>)
  moreover have "restore newRegistry (Some rs) (length rs) = (registryOf rs, True)"
    using ok rs(2) by (subst restore_refines) (auto simp: recordOk_def list_all_iff)
  ultimately show "backupDecode J True (Some t) = Some snapshot"
    using parsed len eq ok(1)
    by (simp add: backupDecode_def Let_def m f version hexes decodeSettings_document [OF shaped(1) validated(1)])
qed

end

subsection \<open>What the decoder accepts\<close>

lemma unhexLoop_length: "unhexLoop t = Some bs \<Longrightarrow> even (length t) \<Longrightarrow> length bs = length t div 2"
  by (induction t arbitrary: bs rule: unhexLoop.induct) (auto split: option.splits)

lemma unhex_length: "unhex J v n = Some bs \<Longrightarrow> length bs = n"
  by (auto simp: unhex_def dest!: unhexLoop_length split: option.splits if_splits)

lemma stringField_shape:
  assumes "stringField J v c = Some (s, n)" "c < 256"
  shows "length s = c" "allZero (drop (unat n) s)"
proof -
  obtain t where t: "length t \<le> c" "s = put (zeros c) 0 t" "n = of_nat (length t)"
    using assms(1) by (auto simp: stringField_def not_less intro: that split: option.splits if_splits)
  then have "unat n = length t" using assms(2) by (simp add: unat_of_nat)
  then show "length s = c" "allZero (drop (unat n) s)"
    using t by (simp_all add: put_def allZero_def)
qed

lemma serverLoop_shape:
  assumes "serverLoop J vs stored = Some v" "settingsShaped stored"
  shows "settingsShaped v"
  using assms
proof (induction vs arbitrary: stored)
  case (Cons e vs)
  obtain s n where f: "stringField J e 63 = Some (s, n)" using Cons.prems(1) by (auto simp: Let_def split: option.splits)
  have "settingsShaped (stored\<lparr>gs_ntpServerCount := gs_ntpServerCount stored + 1,
      gs_ntpServers := (gs_ntpServers stored)[unat (gs_ntpServerCount stored) := s],
      gs_ntpServerLengths := (gs_ntpServerLengths stored)[unat (gs_ntpServerCount stored) := n]\<rparr>)"
    using Cons.prems(2) stringField_shape(1) [OF f]
    by (auto simp: settingsShaped_def list_all_iff dest!: set_update_subset_insert [THEN subsetD])
  then show ?case using Cons.IH Cons.prems(1) f by (auto simp: Let_def)
qed simp

lemma every_replicate: "list_all P (replicate n x) \<longleftrightarrow> n = 0 \<or> P x"
  by (induction n) auto

lemma decodeSettingsDocument_shape:
  assumes "decodeSettingsDocument J v = Some stored"
  shows "settingsShaped stored"
proof -
  obtain h n where h: "stringField J (bj_member J v ''hostname'') 32 = Some (h, n)"
    using assms by (auto simp: decodeSettingsDocument_def Let_def split: if_splits option.splits)
  then show ?thesis using assms stringField_shape(1) [OF h]
    by (auto simp: decodeSettingsDocument_def Let_def settingsShaped_def every_replicate split: if_splits elim!: serverLoop_shape [unfolded settingsShaped_def])
qed

lemma decodeNode_shape:
  assumes "decodeNode J v = Some r"
  shows "shapedRecord r" "policyWithin r"
proof -
  obtain uid s n where f: "unhex J (bj_member J v ''uid'') kDeviceUidSize = Some uid" "stringField J (bj_member J v ''name'') 48 = Some (s, n)"
    using assms by (auto simp: decodeNode_def Let_def split: if_splits option.splits)
  then have "shapedRecord r \<and> policyWithin r" using assms unhex_length [OF f(1)] stringField_shape [OF f(2)]
    by (auto simp: decodeNode_def Let_def shapedRecord_def policyWithin_def split: if_splits)
  then show "shapedRecord r" "policyWithin r" by simp_all
qed

lemma nodesLoop_shape: "nodesLoop J vs = Some rs \<Longrightarrow> list_all shapedRecord rs \<and> list_all policyWithin rs"
  by (induction vs arbitrary: rs) (auto dest: decodeNode_shape split: option.splits)

lemma backupDecode_valid:
  assumes "backupDecode J made json = Some snapshot"
  shows "snapshotValid snapshot" "settingsShaped (bk_settings snapshot)" "secretsShaped (bk_secrets snapshot)"
    "registryOk (bk_nodes snapshot)" "list_all policyWithin (registryRecords (bk_nodes snapshot))"
proof -
  obtain t root key secret stored records registry restored where
      j: "json = Some t" "bj_deserialize J t = Some root"
      "unhex J (bj_member J root ''installation_key'') 16 = Some key" "unhex J (bj_member J root ''device_secret'') 32 = Some secret"
      "decodeSettingsDocument J (bj_member J root ''settings'') = Some stored"
      "nodesLoop J (bj_elements J (bj_member J root ''nodes'')) = Some records"
      "restore newRegistry (Some records) (length records) = (registry, restored)"
    using assms by (auto simp: backupDecode_def Let_def split: option.splits if_splits prod.splits)
  let ?s = "\<lparr>bk_settings = stored, bk_secrets = \<lparr>is_installationKeyPresent = True, is_deviceSecretPresent = True,
      is_operationalNetworkId = asUint J (bj_member J root ''network_id''), is_installationKey = key, is_deviceSecret = secret\<rparr>,
      bk_nodes = newRegistry, bk_createdAt = asUint J (bj_member J root ''created_at_ms'')\<rparr>"
  have s: "snapshotValid ?s" "restored" "snapshot = ?s\<lparr>bk_nodes := registry\<rparr>"
    using assms j by (auto simp: backupDecode_def Let_def split: if_splits)
  note shape = nodesLoop_shape [OF j(6)]
  have r: "recordsOk records" "registry = registryOf records"
    using j(7) s(2) restore_refines [of records newRegistry] shape by (auto split: if_splits)
  have "length key = 16" "length secret = 32" using unhex_length [OF j(3)] unhex_length [OF j(4)] by simp_all
  then show "snapshotValid snapshot" "settingsShaped (bk_settings snapshot)" "secretsShaped (bk_secrets snapshot)"
    "registryOk (bk_nodes snapshot)" "list_all policyWithin (registryRecords (bk_nodes snapshot))"
    using s r shape decodeSettingsDocument_shape [OF j(5)]
    by (simp_all add: snapshotValid_def secretsShaped_def)
qed

subsection \<open>The file\<close>

text \<open>AES-GCM: what was encrypted is decrypted again, and only a text that was made with the same key, nonce and
  header is decrypted at all.\<close>

locale backup_cipher =
  fixes C :: backup_crypto
  assumes encrypted: "bc_encrypt C key nonce header plain = Some (ciphertext, tag) \<Longrightarrow>
      length ciphertext = length plain \<and> length tag = kTagSize \<and>
      bc_decrypt C key nonce header tag ciphertext = Some plain"
    and decrypted: "bc_decrypt C key nonce header tag ciphertext = Some plain \<Longrightarrow>
      bc_encrypt C key nonce header plain = Some (ciphertext, tag)"

definition headerBytes :: "nat \<Rightarrow> bytes \<Rightarrow> bytes" where
  "headerBytes n random = kBackupPrefix @ le32 kIterations @ le32 (of_nat n) @ random"

lemma length_headerBytes: "length random = 28 \<Longrightarrow> length (headerBytes n random) = kBackupHeaderSize"
  by (simp add: headerBytes_def kBackupPrefix_def)

lemma backupHeader_bytes:
  assumes "28 \<le> length random" "44 \<le> length buf"
  shows "backupHeader n random buf = written (headerBytes n (take 28 random)) buf"
  using assms by (simp add: backupHeader_def headerBytes_def kBackupPrefix_def put_def written_def Let_def)

lemma headerBytes_fields:
  assumes "length random = 28"
  shows "take 8 (headerBytes n random @ rest) = kBackupPrefix"
    "get32 (headerBytes n random @ rest) 8 = kIterations" "get32 (headerBytes n random @ rest) 12 = of_nat n"
    "chunk (headerBytes n random @ rest) 16 16 = take 16 random"
    "chunk (headerBytes n random @ rest) 32 12 = drop 16 random"
  using assms by (simp_all add: headerBytes_def kBackupPrefix_def layout_simps) (simp_all add: chunk_def)

text \<open>An accepted file is one that encryption under this password makes.\<close>

lemma backupDecrypt_parts:
  assumes "backupDecrypt J C made (Some f) password n = Some snapshot"
  obtains key plain where "deriveKey C (take n (the password)) (chunk f kSaltOffset kSaltSize) = Some key"
    "bc_decrypt C key (chunk f kNonceOffset kNonceSize) (take kBackupHeaderSize f) (drop (length f - kTagSize) f)
       (chunk f kBackupHeaderSize (length f - kBackupHeaderSize - kTagSize)) = Some plain"
    "backupDecode J made (Some plain) = Some snapshot" "validPassword password n"
    "take 8 f = kBackupPrefix" "kBackupHeaderSize + kTagSize < length f" "length f \<le> kMaxFile"
    "get32 f kIterationsOffset = kIterations" "unat (get32 f kLengthOffset) = length f - kBackupHeaderSize - kTagSize"
proof -
  have len: "44 + 16 < length f" using assms by (auto simp: backupDecrypt_def Let_def split: if_splits)
  then have tag: "chunk f (length f - 16) 16 = drop (length f - 16) f" by (simp add: chunk_def)
  show ?thesis using assms len that
    by (auto simp: backupDecrypt_def Let_def tag split: if_splits option.splits)
qed

locale backup_library = json_library + backup_cipher

context backup_library
begin

lemma backupEncrypt_file:
  assumes e: "backupEncrypt J C snapshot password n random = Some f" and "28 \<le> length random"
  obtains plain key ciphertext tag where "validPassword password n" "backupEncode J snapshot = Some plain"
    "deriveKey C (take n (the password)) (take 16 random) = Some key"
    "bc_encrypt C key (take 12 (drop 16 random)) (headerBytes (length plain) (take 28 random)) plain = Some (ciphertext, tag)"
    "f = headerBytes (length plain) (take 28 random) @ ciphertext @ tag"
proof -
  obtain plain where p: "validPassword password n" "backupEncode J snapshot = Some plain"
    using e by (auto simp: backupEncrypt_def split: if_splits option.splits)
  let ?h = "headerBytes (length plain) (take 28 random)"
  let ?file = "written ?h (zeros (60 + length plain))"
  have hl: "length ?h = 44" by (rule length_headerBytes) (use assms(2) in simp)
  have made: "backupHeader (length plain) random (zeros (60 + length plain)) = ?file"
    by (rule backupHeader_bytes) (use assms(2) in simp_all)
  have wr: "?file = ?h @ zeros (length plain + 16)" using hl by (simp add: written_def)
  have fields: "chunk ?file 16 16 = take 16 random" "chunk ?file 32 12 = take 12 (drop 16 random)" "take 44 ?file = ?h"
    unfolding wr using headerBytes_fields(4,5) [of "take 28 random" "length plain" "zeros (length plain + 16)"] assms(2) hl
    by (simp_all add: take_drop min_def)
  obtain key ciphertext tag where k: "deriveKey C (take n (the password)) (take 16 random) = Some key"
      "bc_encrypt C key (take 12 (drop 16 random)) ?h plain = Some (ciphertext, tag)"
      "f = put (put ?file 44 ciphertext) (44 + length plain) tag"
    using e p by (auto simp: backupEncrypt_def Let_def made fields split: option.splits)
  have "f = ?h @ ciphertext @ tag"
    using encrypted [OF k(2)] hl unfolding k(3) wr by (simp add: put_def)
  then show ?thesis using that p k by blast
qed

lemma backupDecrypt_encrypt:
  assumes e: "backupEncrypt J C snapshot password n random = Some f" and r: "28 \<le> length random"
    and shaped: "settingsShaped (bk_settings snapshot)" "secretsShaped (bk_secrets snapshot)" "registryOk (bk_nodes snapshot)"
    and power: "list_all policyWithin (registryRecords (bk_nodes snapshot))"
  shows "backupDecrypt J C True (Some f) password n = Some snapshot"
proof -
  obtain plain key ciphertext tag where p: "validPassword password n" "backupEncode J snapshot = Some plain"
    "deriveKey C (take n (the password)) (take 16 random) = Some key"
    "bc_encrypt C key (take 12 (drop 16 random)) (headerBytes (length plain) (take 28 random)) plain = Some (ciphertext, tag)"
    "f = headerBytes (length plain) (take 28 random) @ ciphertext @ tag"
    using backupEncrypt_file [OF e r] by blast
  note dec = backupDecode_encode [OF p(2) shaped power] and enc = encrypted [OF p(4)]
  let ?h = "headerBytes (length plain) (take 28 random)"
  have hl: "length ?h = 44" by (rule length_headerBytes) (use r in simp)
  have fields: "take 8 f = kBackupPrefix" "get32 f 8 = kIterations" "get32 f 12 = of_nat (length plain)"
    "chunk f 16 16 = take 16 random" "chunk f 32 12 = take 12 (drop 16 random)"
    unfolding p(5) using headerBytes_fields [of "take 28 random" "length plain" "ciphertext @ tag"] r
    by (simp_all add: take_drop min_def)
  have parts: "take 44 f = ?h" "length f = 44 + length plain + 16" "chunk f 44 (length plain) = ciphertext"
    "chunk f (44 + length plain) 16 = tag"
    using enc hl by (simp_all add: p(5) chunk_def)
  have small: "unat (of_nat (length plain) :: u32) = length plain" using dec(3) by (simp add: unat_of_nat)
  show ?thesis using p(1,3) dec enc
    by (simp add: backupDecrypt_def Let_def fields parts small)
qed

end

subsection \<open>An accepted backup can be restored\<close>

lemma snapshotValid_iff:
  "snapshotValid s \<longleftrightarrow> is_installationKeyPresent (bk_secrets s) \<and> is_deviceSecretPresent (bk_secrets s) \<and>
     validateSettings (bk_settings s) = None \<and> validateSecrets (bk_secrets s) = None"
  by (auto simp: snapshotValid_def encodeSettings_def encodeSecrets_def Let_def split: option.splits)

lemma backupEncodes_valid:
  assumes s: "snapshotValid s" "settingsShaped (bk_settings s)" "secretsShaped (bk_secrets s)" "registryOk (bk_nodes s)"
    and admin: "authShaped admin" "validateAuthentication admin = None"
  shows "\<exists>buf n. backupEncodes s admin (zeros kBackupBuffer) = Some (buf, n)"
proof -
  note v = s(1) [unfolded snapshotValid_iff]
  obtain rs where rs: "bk_nodes s = registryOf rs" "recordsOk rs" using registryOkE [OF s(4)] .
  then have ok: "list_all shapedRecord rs" "length rs \<le> 64" by (auto simp: recordsOk_def recordOk_def list_all_iff)
  obtain b1 where b1: "encodeSettings (bk_settings s) 1 (Some (zeros kBackupBuffer)) = Inr b1" "length b1 = kBackupBuffer"
    using encodeSettings_bytes [of "bk_settings s" "zeros kBackupBuffer" 1] s v length_settingsBody [OF s(2)]
    by (simp add: written_def)
  obtain b2 where b2: "encodeSecrets (bk_secrets s) 2 (Some b1) = Inr b2" "length b2 = kBackupBuffer"
    using encodeSecrets_bytes [of "bk_secrets s" b1 2] s v b1 length_secretsBody [OF s(3)]
    by (simp add: written_def)
  obtain b3 where b3: "encodeAuthentication admin 1 (Some b2) = Inr b3" "length b3 = kBackupBuffer"
    using encodeAuthentication_bytes [of admin b2 1] admin b2 length_authBody [OF admin(2,1)]
    by (simp add: written_def)
  have "12 + length rs * 72 + 4 \<le> length b3" using ok(2) b3(2) by simp
  then show ?thesis using encodeRegistrySnapshot_image [OF ok, of b3 1] v b1 b2 b3
    by (auto simp: backupEncodes_def rs(1))
qed

subsection \<open>A library that keeps the contract\<close>

text \<open>Values with a compact text, each value a tag, the lengths before the parts, read back with the nesting
  limit as the fuel of the reader.\<close>

datatype document =
    DNull
  | DNumber nat
  | DFlag bool
  | DText bytes
  | DArray "document list"
  | DObject "(string \<times> document) list"

fun depth :: "document \<Rightarrow> nat" where
  "depth (DArray vs) = Suc (fold max (map depth vs) 0)"
| "depth (DObject ms) = Suc (fold max (map (\<lambda>(k, v). depth v) ms) 0)"
| "depth _ = 0"

fun natBytes :: "nat \<Rightarrow> bytes" where
  "natBytes n = (if n < 128 then [of_nat n] else of_nat (128 + n mod 128) # natBytes (n div 128))"

declare natBytes.simps [simp del]

fun readNat :: "bytes \<Rightarrow> (nat \<times> bytes) option" where
  "readNat [] = None"
| "readNat (b # bs) =
     (if unat b < 128 then Some (unat b, bs)
      else map_option (\<lambda>(n, rest). (128 * n + (unat b - 128), rest)) (readNat bs))"

definition nameBytes :: "string \<Rightarrow> bytes" where
  "nameBytes k = natBytes (length k) @ map (\<lambda>c. of_nat (of_char c)) k"

fun writeDoc :: "document \<Rightarrow> bytes" where
  "writeDoc DNull = [5]"
| "writeDoc (DNumber n) = 0 # natBytes n"
| "writeDoc (DFlag b) = [1, if b then 1 else 0]"
| "writeDoc (DText s) = 2 # natBytes (length s) @ s"
| "writeDoc (DArray vs) = 3 # natBytes (length vs) @ concat (map writeDoc vs)"
| "writeDoc (DObject ms) = 4 # natBytes (length ms) @ concat (map (\<lambda>(k, v). nameBytes k @ writeDoc v) ms)"

definition readBytes :: "bytes \<Rightarrow> (bytes \<times> bytes) option" where
  "readBytes bs = (case readNat bs of
     Some (n, rest) \<Rightarrow> if n \<le> length rest then Some (take n rest, drop n rest) else None
   | None \<Rightarrow> None)"

fun readDoc :: "nat \<Rightarrow> bytes \<Rightarrow> (document \<times> bytes) option"
  and readDocs :: "nat \<Rightarrow> nat \<Rightarrow> bytes \<Rightarrow> (document list \<times> bytes) option"
  and readMembers :: "nat \<Rightarrow> nat \<Rightarrow> bytes \<Rightarrow> ((string \<times> document) list \<times> bytes) option" where
  "readDoc 0 bs = None"
| "readDoc (Suc f) [] = None"
| "readDoc (Suc f) (tag # bs) =
     (if tag = 5 then Some (DNull, bs)
      else if tag = 0 then map_option (\<lambda>(n, rest). (DNumber n, rest)) (readNat bs)
      else if tag = 1 then (case bs of [] \<Rightarrow> None | b # rest \<Rightarrow> Some (DFlag (b = 1), rest))
      else if tag = 2 then map_option (\<lambda>(s, rest). (DText s, rest)) (readBytes bs)
      else if tag = 3 then
        (case readNat bs of
           None \<Rightarrow> None
         | Some (n, rest) \<Rightarrow> map_option (\<lambda>(vs, rest). (DArray vs, rest)) (readDocs f n rest))
      else
        (case readNat bs of
           None \<Rightarrow> None
         | Some (n, rest) \<Rightarrow> map_option (\<lambda>(ms, rest). (DObject ms, rest)) (readMembers f n rest)))"
| "readDocs f 0 bs = Some ([], bs)"
| "readDocs f (Suc n) bs =
     (case readDoc f bs of
        None \<Rightarrow> None
      | Some (v, rest) \<Rightarrow> map_option (\<lambda>(vs, rest). (v # vs, rest)) (readDocs f n rest))"
| "readMembers f 0 bs = Some ([], bs)"
| "readMembers f (Suc n) bs =
     (case readBytes bs of
        None \<Rightarrow> None
      | Some (k, rest) \<Rightarrow>
          case readDoc f rest of
            None \<Rightarrow> None
          | Some (v, rest) \<Rightarrow> map_option (\<lambda>(ms, rest). ((map (\<lambda>b. char_of (unat b)) k, v) # ms, rest)) (readMembers f n rest))"

lemma readNat_natBytes [simp]: "readNat (natBytes n @ rest) = Some (n, rest)"
proof (induction n rule: natBytes.induct)
  case (1 n)
  show ?case
  proof (cases "n < 128")
    case True
    then show ?thesis by (subst natBytes.simps) (simp add: unat_of_nat)
  next
    case False
    have "unat (of_nat (128 + n mod 128) :: u8) = 128 + n mod 128" unfolding unat_of_nat by simp
    then show ?thesis using False 1 by (subst natBytes.simps) (simp del: of_nat_add)
  qed
qed

lemma readBytes_back [simp]: "readBytes (natBytes (length s) @ s @ rest) = Some (s, rest)"
  by (simp add: readBytes_def)

lemma name_back [simp]: "map ((\<lambda>b :: u8. char_of (unat b)) \<circ> (\<lambda>c. of_nat (of_char c))) k = k"
  by (induction k) (simp_all add: unat_of_nat)

lemma readMembers_name [simp]: "readBytes (nameBytes k @ rest) = Some (map (\<lambda>c. of_nat (of_char c)) k, rest)"
  using readBytes_back [of "map (\<lambda>c. of_nat (of_char c)) k" rest] by (simp add: nameBytes_def)

lemma fold_max_le: "fold max (ns :: nat list) m \<le> n \<longleftrightarrow> m \<le> n \<and> (\<forall>k \<in> set ns. k \<le> n)"
  by (induction ns arbitrary: m) auto

lemma readDocs_back:
  "\<forall>v \<in> set vs. \<forall>rest. readDoc f (writeDoc v @ rest) = Some (v, rest) \<Longrightarrow>
    readDocs f (length vs) (concat (map writeDoc vs) @ rest) = Some (vs, rest)"
  by (induction vs) simp_all

lemma readMembers_back:
  "\<forall>(k, v) \<in> set ms. \<forall>rest. readDoc f (writeDoc v @ rest) = Some (v, rest) \<Longrightarrow>
    readMembers f (length ms) (concat (map (\<lambda>(k, v). nameBytes k @ writeDoc v) ms) @ rest) = Some (ms, rest)"
  by (induction ms) auto

lemma readDoc_back: "depth v \<le> n \<Longrightarrow> readDoc (Suc n) (writeDoc v @ rest) = Some (v, rest)"
proof (induction v arbitrary: n rest rule: writeDoc.induct)
  case (5 vs)
  then obtain m where m: "n = Suc m" "\<forall>v \<in> set vs. depth v \<le> m" by (cases n) (auto simp: fold_max_le)
  with 5 have "\<forall>v \<in> set vs. \<forall>rest. readDoc n (writeDoc v @ rest) = Some (v, rest)" by blast
  then show ?case by (simp add: readDocs_back)
next
  case (6 ms)
  then obtain m where m: "n = Suc m" "\<forall>x \<in> set ms. depth (snd x) \<le> m" by (cases n) (auto simp: fold_max_le case_prod_unfold)
  with 6 have "\<forall>(k, v) \<in> set ms. \<forall>rest. readDoc n (writeDoc v @ rest) = Some (v, rest)" by fastforce
  then show ?case by (simp add: readMembers_back)
qed simp_all

lemma writeDoc_some: "writeDoc v \<noteq> []"
  by (cases v) simp_all

definition compactJson :: "document backup_json" where
  "compactJson = \<lparr>bj_object = DObject, bj_array = DArray, bj_number = DNumber, bj_flag = DFlag, bj_text = DText,
     bj_serialize = (\<lambda>v. Some (writeDoc v)),
     bj_deserialize = (\<lambda>t. case readDoc 6 t of Some (v, []) \<Rightarrow> Some v | _ \<Rightarrow> None),
     bj_fields = (\<lambda>v. case v of DObject ms \<Rightarrow> length ms | _ \<Rightarrow> 0),
     bj_member = (\<lambda>v k. case v of DObject ms \<Rightarrow> (case map_of ms k of Some m \<Rightarrow> m | None \<Rightarrow> DNull) | _ \<Rightarrow> DNull),
     bj_isArray = (\<lambda>v. case v of DArray _ \<Rightarrow> True | _ \<Rightarrow> False),
     bj_elements = (\<lambda>v. case v of DArray vs \<Rightarrow> vs | _ \<Rightarrow> []),
     bj_unsigned = (\<lambda>v. case v of DNumber n \<Rightarrow> Some n | _ \<Rightarrow> None),
     bj_flagOf = (\<lambda>v. case v of DFlag b \<Rightarrow> Some b | _ \<Rightarrow> None),
     bj_textOf = (\<lambda>v. case v of DText s \<Rightarrow> Some s | _ \<Rightarrow> None)\<rparr>"

text \<open>A cipher in name only: the tag is what the laws need, a function of everything.\<close>

definition plainCipher :: backup_crypto where
  "plainCipher = (let tagOf = (\<lambda>key nonce header plain. take kTagSize (key @ nonce @ header @ zeros kTagSize)) in
     \<lparr>bc_pbkdf2 = (\<lambda>password salt iterations n. Some (take n (password @ salt @ zeros n))),
      bc_encrypt = (\<lambda>key nonce header plain. Some (plain, tagOf key nonce header plain)),
      bc_decrypt = (\<lambda>key nonce header tag ciphertext.
        if tag = tagOf key nonce header ciphertext then Some ciphertext else None)\<rparr>)"

interpretation compact: backup_library compactJson "\<lambda>n v. depth v \<le> n" plainCipher
  by unfold_locales
    (auto simp: compactJson_def plainCipher_def Let_def fold_max_le writeDoc_some readDoc_back [of _ 5 "[]", simplified]
      split: if_splits)

end
