(* ===== verification/Spec2Isabelle.thy ===== *)
theory Spec2Isabelle
  imports Registry_Service Frame_Codecs Command_Codecs Telemetry_Codecs Power_Control Utf8
    Command_Book User_Management Counter_Storage Gateway_Commissioning Power_Service Command_Service
    Node_Profiles Power_Loop Gateway_Authentication Gateway_Recovery Update_Install Backup_File
begin

text \<open>
  RadioSensors: battery nodes (ATtiny1614, src/node) report over an RFM69 radio to a gateway (ESP32,
  src/gateway), which keeps a registry of nodes, queues commands for them and serves a web
  interface; both share src/shared/RadioProtocol.  A node joins (Join request, accept, confirm,
  complete), reports telemetry that the gateway acknowledges with a power target and a hint that a
  command waits, and opens a command session to fetch it.

  This library models the part of the C++ that computes: frame and snapshot codecs, checksums,
  tables with their operations, the stores that must survive a power failure, and the policies of a
  node.  Definitions carry the names of the code where HOL allows it.  A \<open>uint8_t\<close> is an \<open>8 word\<close> and
  so on, a struct a \<open>record\<close>, an enum a \<open>datatype\<close> with a constructor for raw values where the code can
  meet them, a pointer with a length a \<open>bytes option\<close>; a function with an output parameter returns an
  option or a sum, one that changes its object returns the new record.

  Shared
    \<^item> RS_Prelude: words, bytes, buffers (\<open>put\<close>, \<open>chunk\<close>, \<open>written\<close>), little-endian numbers, arrays of
      records in a buffer, generation numbers; \<open>layout_simps\<close> evaluates reads of laid-out bytes.
    \<^item> Crc: CRC-32, CRC-16 and CRC-8 bit by bit (GatewayStorage.cpp, NodeStorage.h, Sht40Sensor.cpp); a
      changed byte always changes the checksum.
    \<^item> Utf8: the UTF-8 validators of NodeRegistry.cpp and GatewayStorage.cpp against an independent
      definition of well-formed UTF-8; the loops terminate by a measure on the remaining bytes.

  Radio frames
    \<^item> Wire_Codec: the contract of a codec as a locale (the decoder accepts exactly the encoder's image).
    \<^item> Frame_Codecs, Command_Codecs, Telemetry_Codecs: RadioProtocol.h, JoinRequest.h,
      CommissioningFrames.h, CommandSessionFrames.h, TelemetryFrames.h, GatewayStream.h, RadioAes.h,
      each frame an interpretation of that locale.
    \<^item> Power_Control: RadioPowerControl.h of the gateway, RadioPowerState.h of the node.

  Gateway
    \<^item> Node_Registry: NodeRegistry.cpp, the table of nodes, with its invariant, its refinement of a map
      from node ids to records, and the reachable registries.
    \<^item> Slot_Store: GatewayStorage.h \<open>DualSlotStore\<close> and the NVS slots of ConfigurationStore.cpp; the NVS
      library is a parameter constrained by the locale \<open>nvs_contract\<close>.
    \<^item> Registry_Persistence: RegistryPersistence.cpp, the snapshot codec and store of the registry.
    \<^item> Registry_Service: NodeRegistryStore.cpp, the operations under the mutex and the lock-free view.
    \<^item> Gateway_Storage, Auth_Storage, Command_Storage: GatewayStorage.cpp, validation and snapshot codecs
      of settings and secrets, of users and tokens, of the command book, each an interpretation of the
      codec contract the store relies on.
    \<^item> User_Management: UserManagement.cpp.  Command_Book: CommandBook.cpp.
    \<^item> Radio_Service: RadioService.cpp, the radio task, its queues, the received frames and their
      acknowledgements, the switches between the commissioning and the operational key.
    \<^item> Gateway_Status, Gateway_Commissioning: GatewayStatus.cpp (windows, button, light) and
      CommissioningService.cpp (the joining of a node), over the radio and the registry.
    \<^item> Telemetry_Store, Power_Service: TelemetryStore.cpp and PowerControlService.cpp, with the part of
      main.cpp that feeds them.  Power_Loop closes the loop with the node's RadioPowerState.h.
    \<^item> Command_Service: CommandService.cpp, sessions with nodes and the pending commands.
    \<^item> Gateway_Authentication: AuthenticationService.cpp, web sessions, logins and API tokens.
    \<^item> Configuration_Store: ConfigurationStore.cpp.  Gateway_Recovery: RecoveryService.cpp and
      BackupService.cpp, the factory reset and the restore of a backup with power failures.
    \<^item> Release_Manifest, Web_Ui, Update_Service, Update_Install: ReleaseManifest.cpp, WebUiService.cpp,
      UpdateService.cpp and GzipInflater.cpp; the last theory holds the contract \<open>update_flash\<close> of the
      flash libraries and what an installation does under it.
    \<^item> Backup_Codec, Backup_File: BackupCodec.cpp and BackupCrypto.cpp, the file of a backup.
      Device_Identity: DeviceIdentity.cpp and TimeService.cpp.

  Node
    \<^item> Node_Storage: NodeStorage.h.  The EEPROM is a function from addresses to bytes; an operation
      returns the byte updates it makes, and a power failure leaves a prefix of them.  The locale
      \<open>eeprom_slots\<close> proves once, for the network configuration and for SET_COUNT results, that a save
      is atomic.
    \<^item> Counter_Storage: CounterStorage.h.  The ring of 32 counter records and the result slots are
      interpretations of \<open>eeprom_cell\<close>; the journal over both applies a command exactly once.
    \<^item> Schedules: TelemetrySchedule.h, SupplyVoltage.h over the wrapping 32-bit millisecond clock.
    \<^item> Node_Inputs: ConfirmedInput.h, ResetButton.h, I2cBusRecovery.h, PolledReedInput.cpp.
    \<^item> Node_Radio, Node_Commissioning: NodeRadio.cpp and CommissioningService.cpp over the RFM69 library.
    \<^item> Node_Sensors: the SHT40, TMP112 and battery drivers over the I2C library.
    \<^item> Node_Runtime, Node_Profiles: NodeRuntime.h, set-up and main loop over a profile (a locale), and the
      four profiles, each an interpretation of it.

  Properties.  The theorems below are in the order registry, stores, frames, checksums and names, the
  services over them, the node, power control, accounts and secrets, recovery, and updates; each is
  stated in words above it and has a witness at concrete values where it has hypotheses.

  Termination.  Most loops are folds over a bounded range or structural recursions; the UTF-8 loops, the
  sample loops and the download loop have a termination proof with a measure.  A loop that waits for
  hardware or a library is a \<open>partial_function\<close> whose None is a loop that never ends: the waits of the
  node's radio and sensors (they end when the timer of the library runs, at most \<open>10 ^ 9\<close> microseconds per
  call and timeouts below \<open>10 ^ 9\<close> milliseconds, see \<open>node_turn_returns\<close>), the draw of a network
  identifier, and the inflater.

  Libraries.  ESP-IDF, mbedTLS, ArduinoJson, LittleFS, the RFM69 and I2C libraries are not in the
  repository: each is a record of functions over a state of type \<open>'w\<close>, and what the code relies on is a
  locale (\<open>nvs_contract\<close>, \<open>nvs_flash\<close>, \<open>update_flash\<close> and so on), interpreted on a flash that keeps it.

  Not modelled.  The web server (routing and JSON over the Arduino web libraries), Ethernet, mDNS and
  OTA from the development tools (calls into ESP-IDF); of the radio service the check of the module's registers and its repair;
  the watchdog, sleep and pin registers of the AVR; serial output.  Concurrency of the gateway's tasks is
  modelled where a mutex or a critical section makes each operation a single step; the steps are then
  taken in any order.
\<close>


definition sampleRequest :: JoinRequest where
  "sampleRequest = \<lparr>jr_deviceUid = [1, 2, 3, 4, 5, 6, 7, 8, 9, 10], jr_profileId = 3,
     jr_firmware = \<lparr>fw_major = 1, fw_minor = 0, fw_patch = 2\<rparr>, jr_requestNonce = 77,
     jr_maxPowerLevel = 20\<rparr>"

lemma sampleRequest_ok: "joinRequestOk sampleRequest"
  by (simp add: joinRequestOk_def sampleRequest_def)



definition sampleInfo :: NodeInfo where
  "sampleInfo = \<lparr>ni_profileId = 3, ni_firmware = \<lparr>fw_major = 1, fw_minor = 1, fw_patch = 0\<rparr>,
     ni_maxPowerLevel = 10\<rparr>"

lemma sampleNode_ok: "recordsOk [newNode sampleRequest 1]"
  using newNode_ok [OF sampleRequest_ok, of 1] by (simp add: recordsOk_def)


definition blankFlash :: flash where
  "blankFlash = \<lparr>fl_keys = (\<lambda>_. []), fl_faults = []\<rparr>"

text \<open>C3: Frames.  The decoders of join request, join accept, join confirm and join complete, of command
  ready, no command, command, command result and node information accept exactly the byte layouts of
  the values that may be sent, and give back that value: nothing shorter, longer, or with a field out
  of range is accepted.  (Command and result are decoded into a cleared structure.)\<close>

theorem frames_exact:
  "(decodeJoinRequest (Some d) = Inr r \<longleftrightarrow> joinRequestOk r \<and> d = joinRequestImage r) \<and>
   (decodeJoinAccept (Some d) = Inr a \<longleftrightarrow> joinAcceptOk a \<and> d = joinAcceptImage a) \<and>
   (decodeJoinConfirm (Some d) = Inr c \<longleftrightarrow> joinConfirmOk c \<and> d = joinConfirmImage KJoinConfirm c) \<and>
   (decodeJoinComplete (Some d) = Inr c \<longleftrightarrow> joinConfirmOk c \<and> d = joinConfirmImage KJoinComplete c) \<and>
   (decodeCommandReady (Some d) = Inr n \<longleftrightarrow> d = sessionImage KCommandReady n) \<and>
   (decodeNoCommand (Some d) = Inr n \<longleftrightarrow> d = sessionImage KNoCommand n) \<and>
   (decodeCommand (Some d) emptyCommand = Inr m \<longleftrightarrow> commandOk m \<and> d = commandImage m) \<and>
   (decodeCommandResult (Some d) emptyCommandResult = Inr u \<longleftrightarrow>
      commandResultOk u \<and> d = commandResultImage u) \<and>
   (decodeNodeInfo (Some d) = Inr i \<longleftrightarrow> nodeInfoOk i \<and> d = nodeInfoImage i)"
  by (simp add: joinRequest.decode_iff joinAccept.decode_iff joinConfirm.decode_iff
      joinComplete.decode_iff commandReady.decode_iff noCommand.decode_iff command.decode_iff
      commandResult.decode_iff nodeInfo.decode_iff)

text \<open>C4: Telemetry of every profile.  An encoder succeeds exactly when the radio state, the
  reading and the buffer are acceptable (a reading out of its physical range is never sent); then
  decoding the report gives the prefix it was given and the profile payload.\<close>

theorem telemetry_roundtrip:
  "((\<exists>out. encodeReading p r (Some buf) = Inr out) \<longleftrightarrow>
     prefixOk p \<and> readingOk r \<and> 5 + length (readingPayload r) \<le> length buf) \<and>
   (\<forall>out. encodeReading p r (Some buf) = Inr out \<longrightarrow>
     decodeTelemetry (Some (take (5 + length (readingPayload r)) out)) =
       Inr \<lparr>tv_supplyMillivolts = tp_supplyMillivolts p, tv_radioState = tp_radioState p,
            tv_downlinkRssi = tp_downlinkRssi p, tv_profilePayload = readingPayload r\<rparr>)"
proof (cases "prefixOk p \<and> readingOk r \<and> 5 + length (readingPayload r) \<le> length buf")
  case True
  with encodeReading_ok [of p r buf] decodeTelemetry_image [of p "readingPayload r"] show ?thesis
    by simp
next
  case False
  with encodeReading_fails [of p r buf] show ?thesis by auto
qed

definition samplePrefix :: TelemetryPrefix where
  "samplePrefix = \<lparr>tp_supplyMillivolts = 3000, tp_radioState = 20, tp_downlinkRssi = 200\<rparr>"

theorem telemetry_roundtrip_witness:
  "\<exists>out. encodeReading samplePrefix (RCounter 5) (Some (zeros 9)) = Inr out \<and>
     decodeTelemetry (Some out) =
       Inr \<lparr>tv_supplyMillivolts = 3000, tv_radioState = 20, tv_downlinkRssi = 200,
            tv_profilePayload = readingPayload (RCounter 5)\<rparr>"
proof -
  have ok: "prefixOk samplePrefix" "readingOk (RCounter 5)" "length (readingPayload (RCounter 5)) = 4"
    by (simp_all add: prefixOk_def samplePrefix_def)
  have enc: "encodeReading samplePrefix (RCounter 5) (Some (zeros 9)) =
      Inr (written (prefixImage samplePrefix @ readingPayload (RCounter 5)) (zeros 9))"
    using encodeReading_ok [of samplePrefix "RCounter 5" "zeros 9"] ok by simp
  have "length (written (prefixImage samplePrefix @ readingPayload (RCounter 5)) (zeros 9)) = 9"
    using ok by simp
  with telemetry_roundtrip [of samplePrefix "RCounter 5" "zeros 9"] enc ok show ?thesis
    by (simp add: samplePrefix_def)
qed


definition idleService :: "flash registry_service" where
  "idleService = \<lparr>sv_nodes = newRegistry, sv_store = newRegistryStore, sv_flash = blankFlash,
     sv_initialized = False, sv_mutex = True, sv_activeNodeIds = replicate 4 0,
     sv_publishedGeneration = 0\<rparr>"


definition blankStore :: "'m slot_codec \<Rightarrow> 'm dual_store" where
  "blankStore C = \<lparr>ds_current = sc_DefaultValue C, ds_generation = 0, ds_activeSlot = None, ds_loaded = False\<rparr>"


lemma authOk_default: "authOk defaultAuthentication"
  by (simp add: authOk_iff usersOk_def tokensOk_def)
     (simp add: defaultAuthentication_def authShaped_def usedUsers_def usedTokens_def list_all_replicate
      userShaped_def tokenShaped_def blankUser_def blankToken_def checkToken_def unusedToken_def)

definition sampleSecrets :: InstallationSecrets where
  "sampleSecrets = defaultSecrets\<lparr>is_operationalNetworkId := 7\<rparr>"

lemma defaults_valid:
  "settingsShaped defaultSettings" "validateSettings defaultSettings = None"
  "secretsShaped sampleSecrets" "validateSecrets sampleSecrets = None"
proof -
  show "settingsShaped defaultSettings" by (simp add: settingsShaped_def defaultSettings_def)
  show "validateSettings defaultSettings = None" by code_simp
  show "secretsShaped sampleSecrets" "validateSecrets sampleSecrets = None"
    by (simp_all add: secretsShaped_def sampleSecrets_def defaultSecrets_def validateSecrets_def)
qed


text \<open>C7: Gateway snapshots, integrity.  Whatever any of the five snapshot decoders accepts (settings,
  secrets, users, command book, registry), it rejects after one byte, anywhere, is changed.\<close>

theorem gateway_snapshots_reject_one_byte:
  assumes "i < length d" "b \<noteq> d ! i"
  shows "(\<forall>v. decodeSettings (Some d) = Inr v \<longrightarrow> (\<exists>e. decodeSettings (Some (d[i := b])) = Inl e)) \<and>
    (\<forall>v. decodeSecrets (Some d) = Inr v \<longrightarrow> (\<exists>e. decodeSecrets (Some (d[i := b])) = Inl e)) \<and>
    (\<forall>v. decodeAuthentication (Some d) = Inr v \<longrightarrow> (\<exists>e. decodeAuthentication (Some (d[i := b])) = Inl e)) \<and>
    (\<forall>v. decodeCommandBook (Some d) = Inr v \<longrightarrow> (\<exists>e. decodeCommandBook (Some (d[i := b])) = Inl e)) \<and>
    (\<forall>v. decodeRegistrySnapshot (Some d) old = Inr v \<longrightarrow>
      (\<exists>e. decodeRegistrySnapshot (Some (d[i := b])) old = Inl e))"
proof -
  have *: "\<exists>e. validateHeader (Some (d[i := b])) magic n = Inl e"
    if "validateHeader (Some d) magic n = Inr g" "4 \<le> n" for magic n g
    using validateHeader_one_byte [OF that assms] .
  have s: "\<exists>e. decodeSettings (Some (d[i := b])) = Inl e" if "decodeSettings (Some d) = Inr v" for v
    using that * [of kSettingsMagic 248] by (fastforce simp: decodeSettings_def split: sum.splits)
  have k: "\<exists>e. decodeSecrets (Some (d[i := b])) = Inl e" if "decodeSecrets (Some d) = Inr v" for v
    using that * [of kSecretsMagic 67] by (fastforce simp: decodeSecrets_def split: sum.splits)
  have a: "\<exists>e. decodeAuthentication (Some (d[i := b])) = Inl e" if "decodeAuthentication (Some d) = Inr v" for v
    using that * [of kAuthMagic 1036] by (fastforce simp: decodeAuthentication_def split: sum.splits)
  have c: "\<exists>e. decodeCommandBook (Some (d[i := b])) = Inl e" if "decodeCommandBook (Some d) = Inr v" for v
    using that * [of kCommandsMagic 820] by (fastforce simp: decodeCommandBook_def split: sum.splits)
  have r: "\<exists>e. decodeRegistrySnapshot (Some (d[i := b])) old = Inl e"
    if "decodeRegistrySnapshot (Some d) old = Inr v" for v
    by (rule decodeRegistrySnapshot_one_byte [OF that assms])
  show ?thesis using s k a c r by blast
qed

theorem gateway_snapshots_reject_one_byte_witness:
  "\<exists>e. decodeSecrets (Some ((snapshotBytes kSecretsMagic 1 (secretsBody sampleSecrets))[0 := 0])) = Inl e"
proof -
  let ?d = "snapshotBytes kSecretsMagic 1 (secretsBody sampleSecrets)"
  have dec: "decodeSecrets (Some ?d) = Inr (sampleSecrets, 1)"
    by (rule decodeSecrets_bytes [OF defaults_valid(3,4)])
  have "0 < length ?d" "?d ! 0 = 0x52"
    by (simp_all add: snapshotBytes_def headerImage_def Let_def)
  with gateway_snapshots_reject_one_byte [of 0 ?d 0] dec show ?thesis by simp
qed




text \<open>C9: Command book, invariant.  Every book that can arise from the empty one by queueing,
  completing, cancelling, removing and clearing is valid: at most sixteen commands, at most one per
  node, each pending without a result or completed with a result of the size its type has, the
  next identifier never zero.  So the encoder of its snapshot never fails.\<close>

theorem command_book_reachable_ok:
  assumes "book_reachable b"
  shows "bookOk b \<and> distinct (map cm_nodeId (usedCommands b)) \<and> cb_nextCommandId b \<noteq> 0 \<and>
    (\<exists>d. encodeCommandBook b g (Some (zeros 820)) = Inr d \<and> decodeCommandBook (Some d) = Inr (trimBook b, g))"
proof -
  have ok: "bookOk b" by (rule book_reachable_ok [OF assms])
  then have b: "bookShaped b" "validateCommandBook b = None" "unat (cb_count b) \<le> 16"
    "distinct (map cm_nodeId (usedCommands b))" "cb_nextCommandId b \<noteq> 0"
    by (simp add: bookOk_def, simp add: bookOk_def, simp_all add: bookOk_iff)
  then show ?thesis
    using ok encodeCommandBook_bytes [OF b(1,2), of "zeros 820" g] decodeCommandBook_bytes [OF b(1,2)]
      book_facts(5) [OF b(1,3)] by (simp add: written_full)
qed

theorem command_book_reachable_ok_witness:
  "bookOk (fst (queue defaultCommandBook (Some (zeros 10)) 5 2 None 0 1000))"
proof -
  have "book_reachable (fst (queue defaultCommandBook (Some (zeros 10)) 5 2 None 0 1000))"
    by (rule book_reachable.more [OF book_reachable.start
          book_step.step_queue [OF _ prod.collapse [symmetric]]]) (simp add: queueInput_def)
  from command_book_reachable_ok [OF this] show ?thesis by blast
qed

text \<open>C10: Network configuration, power loss.  Whatever the EEPROM holds, when the power fails after
  any number of the bytes of a save, a load at the next boot gives the old configuration (or none,
  when there was none), and after the last byte the new one, with only its generation set; a
  completed factory reset leaves nothing to load.\<close>

theorem network_config_power_loss:
  assumes "networkLoad e = (st, old)" and "networkShaped v"
    and "networkSave e st v = (st', v', us, True)" and "k \<le> length us"
  shows "networkLoad (applyUpdates e (take k us)) = (if k < length us then (st, old) else (st', Some v')) \<and>
    (\<exists>g. v' = v\<lparr>nc_generation := g\<rparr>) \<and>
    networkLoad (applyUpdates (applyUpdates e (take k us)) (snd networkFactoryReset)) =
      (fst networkFactoryReset, None)"
proof -
  have "slotSound networkLayout e st old" using assms(1) by (simp add: slotSound_def networkLoad_def)
  from network.save_crash [OF this assms(2) assms(3) [unfolded networkSave_def] assms(4)]
    networkFactoryReset_empties
  show ?thesis by (simp add: networkLoad_def networkLayout_def)
qed

definition sampleNetwork :: NetworkConfig where
  "sampleNetwork = \<lparr>nc_generation = 0, nc_state = Provisional, nc_nodeId = 5, nc_gatewayId = 1,
     nc_networkId = 100, nc_installationKey = replicate 16 7, nc_requestNonce = 99\<rparr>"

theorem network_config_power_loss_witness:
  "\<exists>v'. snd (networkLoad (applyUpdates (\<lambda>a. 0xFF)
      (fst (snd (snd (networkSave (\<lambda>a. 0xFF) (fst (networkLoad (\<lambda>a. 0xFF))) sampleNetwork)))))) = Some v'"
proof -
  let ?e = "(\<lambda>a. 0xFF) :: eeprom"
  have ok: "networkShaped sampleNetwork" "networkOk sampleNetwork"
    by (simp_all add: networkShaped_def networkOk_def sampleNetwork_def provisioningOf_def)
  obtain st old where load: "networkLoad ?e = (st, old)" by (metis prod.exhaust)
  obtain st' v' us where save: "networkSave ?e st sampleNetwork = (st', v', us, True)"
    using networkSave_succeeds [OF ok, of ?e st] by blast
  from network_config_power_loss [OF load ok(1) save order_refl] save load show ?thesis by simp
qed

text \<open>C11: Pulse counter, exactly once.  A SET_COUNT command with an identifier that is not on record
  is applied and reports the old and the new count.  When the power fails after any number \<open>k\<close> of
  the bytes it writes, and again during any number of boots after that, the next boot finds the
  count as it was (then nothing of the command is on record) or the requested one; in the second
  case the command, delivered again, is answered with the recorded result and writes nothing,
  whatever the count has become by then.\<close>

theorem set_count_exactly_once:
  assumes "journalHolds e j r c" and "\<forall>l. r = Some l \<longrightarrow> sr_status l \<noteq> SetCountPending \<and> sr_commandId l \<noteq> commandId"
    and "commandId \<noteq> 0" and "journalApply e j commandId requested (countOf c) = (j1, v1, outcome, res, us)"
    and "counterBoot (interruptedBoots (applyUpdates e (take k us)) ks) = (j2, v2, vs)"
  shows "outcome = OutcomeApplied \<and> v1 = requested \<and>
    map_option resultErase res = Some (commandResult commandId (countOf c) requested) \<and>
    ((v2 = countOf c \<and> vs = [] \<and> k < length us \<and>
        journalHolds (interruptedBoots (applyUpdates e (take k us)) ks) j2 r c) \<or>
     (v2 = requested \<and>
      journalApply anyEeprom j2 commandId requested anyCount =
        (j2, anyCount, OutcomeRedelivered, Some (jn_last j2), []) \<and>
      resultErase (jn_last j2) = commandResult commandId (countOf c) requested))"
proof -
  have fresh: "commandId = 0 \<or> sr_commandId l \<noteq> commandId" if "r = Some l" for l
    using assms(2) that by blast
  note applied = apply_fresh [OF assms(1) fresh assms(4)]
  obtain n where n: "0 < n" "n \<le> length us"
    and early: "\<And>k. k < n \<Longrightarrow> diskHolds (applyUpdates e (take k us)) r c"
    and late: "\<And>k. n \<le> k \<Longrightarrow> onRecord (applyUpdates e (take k us)) (commandResult commandId (countOf c) requested)"
    using applied(1) by blast
  note out = applied(2-4)
  show ?thesis
  proof (cases "k < n")
    case True
    have quiet: "\<And>l. r = Some l \<Longrightarrow> sr_status l \<noteq> SetCountPending" using assms(2) by blast
    have same: "interruptedBoots (applyUpdates e (take k us)) ks = applyUpdates e (take k us)"
      by (rule interrupted_quiet [OF early [OF True] quiet])
    with boot_quiet [OF early [OF True] quiet assms(5) [unfolded same]] True n out show ?thesis by auto
  next
    case False
    then have "onRecord (interruptedBoots (applyUpdates e (take k us)) ks) (commandResult commandId (countOf c) requested)"
      by (intro interrupted_onRecord late) simp
    note b = boot_onRecord [OF this assms(5)]
    show ?thesis
      using apply_again [OF b(2)] b(1) out assms(3) by simp
  qed
qed

theorem set_count_exactly_once_witness:
  "\<exists>j1 res us. journalApply (\<lambda>a. 0xFF) (fst (counterBoot (\<lambda>a. 0xFF))) 7 1000 0 =
     (j1, 1000, OutcomeApplied, res, us)"
proof -
  let ?e = "(\<lambda>a. 0xFF) :: eeprom"
  obtain j v us where boot: "counterBoot ?e = (j, v, us)" by (rule prod_cases3)
  note q = boot_quiet [OF fresh_disk _ boot, simplified]
  obtain j1 v1 out res ws where run: "journalApply ?e j 7 1000 (countOf None) = (j1, v1, out, res, ws)"
    by (rule prod_cases5)
  obtain j2 v2 vs where b2: "counterBoot (interruptedBoots (applyUpdates ?e (take 3 ws)) [1]) = (j2, v2, vs)"
    by (rule prod_cases3)
  have "out = OutcomeApplied \<and> v1 = 1000"
    using set_count_exactly_once [OF q(3) _ _ run b2] by simp
  with run boot show ?thesis by (simp add: countOf_def)
qed

text \<open>C12: Pulse counter, no pulse lost or counted twice.  When the power fails after any number of the
  bytes that a counted pulse writes, and again during later boots, the next boot finds the count
  before or after that pulse, after it when all bytes were written.  The ring of 32 records serves
  every count, whatever number of saves came before, since sequences run modulo 255.\<close>

theorem pulse_count_power_loss:
  assumes "journalHolds e j r c" and "\<forall>l. r = Some l \<longrightarrow> sr_status l \<noteq> SetCountPending"
    and "countPulse e j (countOf c) = (j1, v1, us)"
    and "counterBoot (interruptedBoots (applyUpdates e (take k us)) ks) = (j2, v2, vs)"
  shows "v1 = countOf c + 1 \<and> journalHolds (applyUpdates e us) j1 r (Some v1) \<and>
    (v2 = countOf c \<or> v2 = countOf c + 1) \<and> (length us \<le> k \<longrightarrow> v2 = countOf c + 1)"
proof -
  have quiet: "\<And>l. r = Some l \<Longrightarrow> sr_status l \<noteq> SetCountPending" using assms(2) by blast
  note p = countPulse_holds [OF assms(1,3)]
  obtain c' where d: "diskHolds (applyUpdates e (take k us)) r c'" "c' = c \<or> c' = Some (countOf c + 1)"
    "length us \<le> k \<Longrightarrow> c' = Some (countOf c + 1)"
    using p(3) [of k] journalHolds_disk [OF p(2)] by (cases "length us \<le> k") auto
  have v2: "v2 = countOf c'"
    using boot_quiet(1) [OF d(1) quiet] assms(4) interrupted_quiet [OF d(1) quiet] by simp
  show ?thesis using p(1,2) v2 d(2,3) by (auto simp: countOf_def)
qed

theorem pulse_count_power_loss_witness:
  "\<exists>j1 us. countPulse (\<lambda>a. 0xFF) (fst (counterBoot (\<lambda>a. 0xFF))) 0 = (j1, 1, us)"
proof -
  let ?e = "(\<lambda>a. 0xFF) :: eeprom"
  obtain j v us where boot: "counterBoot ?e = (j, v, us)" by (rule prod_cases3)
  note q = boot_quiet [OF fresh_disk _ boot, simplified]
  obtain j1 v1 ws where run: "countPulse ?e j (countOf None) = (j1, v1, ws)" by (rule prod_cases3)
  obtain j2 v2 vs where b2: "counterBoot (interruptedBoots (applyUpdates ?e (take 2 ws)) []) = (j2, v2, vs)"
    by (rule prod_cases3)
  have "v1 = 1" using pulse_count_power_loss [OF q(3) _ run b2] by (simp add: countOf_def)
  with run boot show ?thesis by (simp add: countOf_def)
qed

text \<open>C13: Report retries, bounds.  Over a silent period (failures at \<open>t\<close> and then at \<open>ts\<close>), the delay
  before the next report is one, five, then fifteen minutes, and an hour once a failure comes a day
  or more after the first; so a report is held back until exactly that delay has passed since the
  last failure, across the wrap of the clock, and an hour after it one is allowed whatever
  happened.\<close>

theorem report_backoff_bounds:
  assumes "\<not> rb_waiting b" and "rb_enabled b"
    and "last (t # ts) = clockAt n" and "d < 2 ^ 32"
  shows "(backoffAllowed (backoffRun b t ts) (clockAt (n + d)) \<longleftrightarrow>
      (if \<exists>x \<in> set ts. intervalElapsed x t 86400000 then 3600000
       else if length ts = 0 then 60000 else if length ts = 1 then 300000 else 900000) \<le> d) \<and>
    (3600000 \<le> d \<longrightarrow> backoffAllowed (backoffRun b t ts) (clockAt (n + d)))"
proof -
  have "unat (rb_delayMs (backoffRun b t ts)) =
      (if \<exists>x \<in> set ts. intervalElapsed x t 86400000 then 3600000
       else if length ts = 0 then 60000 else if length ts = 1 then 300000 else 900000)"
  proof -
    consider "length ts = 0" | "length ts = 1" | "2 \<le> length ts" by linarith
    then show ?thesis
      using backoffRun_state [OF assms(1), of t ts]
      by cases (auto simp: backoffDelays_def min_def list_ex_iff)
  qed
  then show ?thesis using backoffRun_allowed [OF assms] by auto
qed

theorem report_backoff_bounds_witness:
  "backoffAllowed (backoffRun (newBackoff True) (clockAt 0) [clockAt 100]) (clockAt (100 + 300000)) \<and>
   \<not> backoffAllowed (backoffRun (newBackoff True) (clockAt 0) [clockAt 100]) (clockAt (100 + 299999))"
  using report_backoff_bounds [of "newBackoff True" "clockAt 0" "[clockAt 100]" 100 300000]
    report_backoff_bounds [of "newBackoff True" "clockAt 0" "[clockAt 100]" 100 299999]
  by (simp add: newBackoff_def intervalElapsed_def clockAt_def)



definition telemetryPacket :: RadioPacket where
  "telemetryPacket = \<lparr>pk_data = [0x40, 0, 200, 0xB8, 0x0B], pk_senderId = 5, pk_rssi = - 70, pk_ackRequested = True\<rparr>"

text \<open>C15: Joining, who gets the installation key.  Over any Preferences library that keeps its
  contract, a join request reaches the radio only while the pairing window is open, no other join is
  waiting for its confirmation, the frame came from an unprovisioned node and decodes to a request of
  the device whose credentials were entered; by then the node is on record in flash as pending, with
  the device UID and nonce of that request.\<close>

theorem join_accept_only_when_expected:
  fixes P :: "'s nvs"
  assumes "nvs_contract P" and "ce_ops env = nvsSlots P" and "serviceOk (nvsSlots P) (pg_registry g)"
    and "handleJoinRequest env now later frame g = (g', calls)"
    and "pg_radio g' \<noteq> pg_radio g \<or> calls \<noteq> []"
  shows "pairingActive (pg_status g) now \<and> \<not> pg_awaitingConfirm g \<and> rf_senderId frame = 0 \<and>
    durably (nvsSlots P) (pg_registry g') \<and>
    (\<exists>request nodeId. decodeJoinRequest (frameBytes frame) = Inr request \<and>
       matchesExpectedDevice g (jr_deviceUid request) \<and>
       recordedAs Pending (sv_nodes (pg_registry g')) nodeId (jr_deviceUid request) (jr_requestNonce request))"
proof -
  have slots: "slot_storage (nvsSlots P)" by (rule nvs_contract_slots [OF assms(1)])
  obtain request registry commit result g1 where
    c: "pairingActive (pg_status g) now" "rf_senderId frame = 0" "\<not> pg_awaitingConfirm g"
      "decodeJoinRequest (frameBytes frame) = Inr request" "matchesExpectedDevice g (jr_deviceUid request)"
      "reserveAndSave (ce_ops env) (ce_guarded env) (ce_allocated env) (pg_registry g) request =
         (registry, commit, Some result)"
      "commit \<noteq> RC_StorageError" "commit \<noteq> RC_NotInitialized"
      "pg_radio g1 = pg_radio g" "pg_registry g1 = registry" "pg_awaitingConfirm g1 = pg_awaitingConfirm g"
      "sendJoinAccept env later request result g1 = (g', calls)"
    by (rule handleJoinRequest_cases [OF assms(4)]) (use assms(5) in auto)
  note s = sendJoinAccept_radio [OF c(12)]
  have created: "rr_status result = RS_Created \<or> rr_status result = RS_ExistingPendingUpdated"
    using s(2) assms(5) c(9) by auto
  have "joinRequestOk request" using c(4) by (simp add: frameBytes_def joinRequest.decode_iff)
  note rec = slot_storage.reserveAndSave_records [OF slots assms(3) this c(6) [unfolded assms(2)] c(7,8) created]
  show ?thesis using c(1-5,10) s(1) rec by auto
qed

definition readyService :: "flash registry_service" where
  "readyService = publishLockFreeView (idleService\<lparr>sv_initialized := True\<rparr>)"

definition sampleEnv :: "flash CommissioningEnv" where
  "sampleEnv = \<lparr>ce_ops = nvsSlots flashNvs, ce_guarded = True, ce_allocated = True,
     ce_secrets = sampleSecrets\<lparr>is_installationKeyPresent := True, is_installationKey := replicate 16 5\<rparr>,
     ce_gatewayNodeId = 100,
     ce_status = \<lparr>ev_recoveryBlocked = False, ev_userCount = 1, ev_settings = defaultSettings,
       ev_guardFree = True, ev_resetAccepted = True, ev_completes = True\<rparr>\<rparr>"

definition sampleGateway :: "flash pairing_gateway" where
  "sampleGateway = \<lparr>pg_counters = \<lparr>cc_joinRequests = 0, cc_joinAcceptsQueued = 0, cc_joinConfirms = 0,
       cc_nodesActivated = 0, cc_joinCompletesQueued = 0, cc_rejectedFrames = 0, cc_storageErrors = 0,
       cc_confirmTimeouts = 0\<rparr>,
     pg_awaitingConfirm = False, pg_confirmDeadline = 0,
     pg_expectedDeviceUid = jr_deviceUid sampleRequest, pg_expectedDeviceUidPresent = True,
     pg_status = (statusBegin (ce_status sampleEnv) False 0)\<lparr>gw_pairingEndsAt := 60000\<rparr>,
     pg_radio = (startingRadio True 7 (replicate 16 5))\<lparr>rg_hasQueues := True\<rparr>,
     pg_registry = readyService\<rparr>"

definition frameOf :: "u16 \<Rightarrow> bytes \<Rightarrow> ReceivedFrame" where
  "frameOf sender bs = \<lparr>rf_data = bs, rf_size = of_nat (length bs), rf_senderId = sender, rf_rssi = 0,
     rf_ackRequested = False, rf_receivedAtMs = 0\<rparr>"

lemma frameOf_bytes: "length bs < 256 \<Longrightarrow> frameBytes (frameOf sender bs) = Some bs"
  by (simp add: frameBytes_def frameOf_def unat_of_nat)

lemma sampleGateway_ready:
  "nvs_contract flashNvs" "serviceOk (nvsSlots flashNvs) readyService" "writable True readyService"
  "fl_faults (sv_flash readyService) = []" "registryRecords (sv_nodes readyService) = []"
  "gatewayWorks sampleEnv (\<lambda>s. fl_faults s = [])" "radioReady (pg_radio sampleGateway)"
  "frameBytes (frameOf 0 (joinRequestImage sampleRequest)) = Some (joinRequestImage sampleRequest)"
  "decodeJoinRequest (Some (joinRequestImage sampleRequest)) = Inr sampleRequest"
proof -
  show "nvs_contract flashNvs" by (rule flash.nvs_contract_axioms)
  have "registrySound (nvsSlots flashNvs) newRegistryStore blankFlash newRegistry"
    by (simp add: registrySound_def newRegistryStore_def anchored_def registrySlotValue_def
        slotValue_def nvsSlots_def nvsRead_def flashNvs_def blankFlash_def)
  moreover have "registryGood newRegistry"
    by (simp add: registryGood_def newRegistry_ok ceilings_def nodeMap_def)
  ultimately show "serviceOk (nvsSlots flashNvs) readyService"
    by (simp add: serviceOk_def readyService_def publishLockFreeView_def idleService_def viewOk_def)
  show "writable True readyService" "registryRecords (sv_nodes readyService) = []"
    "fl_faults (sv_flash readyService) = []"
    by (simp_all add: readyService_def publishLockFreeView_def idleService_def writable_def blankFlash_def
        newRegistry_ok)
  have "writesSucceed (nvsSlots flashNvs) (\<lambda>s. fl_faults s = [])"
    by (auto simp: writesSucceed_def nvsSlots_def nvsWrite_def flashNvs_def)
  then show "gatewayWorks sampleEnv (\<lambda>s. fl_faults s = [])"
    by (simp add: gatewayWorks_def sampleEnv_def)
  show "radioReady (pg_radio sampleGateway)"
    by (simp add: radioReady_def sampleGateway_def startingRadio_def)
  show "decodeJoinRequest (Some (joinRequestImage sampleRequest)) = Inr sampleRequest"
    by (rule joinRequest.decode_image [OF sampleRequest_ok])
  have "length (joinRequestImage sampleRequest) = 21"
    by (simp add: joinRequestImage_def sampleRequest_def)
  then show "frameBytes (frameOf 0 (joinRequestImage sampleRequest)) = Some (joinRequestImage sampleRequest)"
    by (simp add: frameOf_bytes)
qed

lemma sampleGateway_window:
  "pairingActive (pg_status sampleGateway) 1000" "\<not> pg_awaitingConfirm sampleGateway"
  "matchesExpectedDevice sampleGateway (jr_deviceUid sampleRequest)" "pg_registry sampleGateway = readyService"
  "rf_senderId (frameOf 0 bs) = 0" "ce_ops sampleEnv = nvsSlots flashNvs"
  by (simp_all add: sampleGateway_def statusBegin_def pairingActive_def matchesExpectedDevice_def frameOf_def
      sampleEnv_def)

lemma sampleJoin:
  obtains g1 calls1 nodeId bs where
    "handleJoinRequest sampleEnv 1000 2000 (frameOf 0 (joinRequestImage sampleRequest)) sampleGateway = (g1, calls1)"
    "CallSend 0 bs False \<in> set calls1" "pg_awaitingConfirm g1"
    "\<forall>frame2 t g2 calls2. rf_senderId frame2 = ucast (nodeId :: u8) \<and>
       decodeJoinConfirm (frameBytes frame2) =
         Inr \<lparr>jc_deviceUid = jr_deviceUid sampleRequest, jc_requestNonce = jr_requestNonce sampleRequest\<rparr> \<and>
       handleJoinConfirm sampleEnv t frame2 g1 = (g2, calls2) \<longrightarrow> calls2 \<noteq> []"
proof -
  let ?frame = "frameOf 0 (joinRequestImage sampleRequest)"
  note r = sampleGateway_ready and w = sampleGateway_window
  have slots: "slot_storage (nvsSlots flashNvs)" by (rule nvs_contract_slots [OF r(1)])
  obtain g1 calls1 where run: "handleJoinRequest sampleEnv 1000 2000 ?frame sampleGateway = (g1, calls1)"
    by (metis prod.exhaust)
  have dec: "decodeJoinRequest (frameBytes ?frame) = Inr sampleRequest" using r(8,9) by simp
  have pre: "serviceOk (nvsSlots flashNvs) (pg_registry sampleGateway)" "writable True (pg_registry sampleGateway)"
    "fl_faults (sv_flash (pg_registry sampleGateway)) = []"
    "jr_deviceUid sampleRequest \<notin> nr_deviceUid ` set (registryRecords (sv_nodes (pg_registry sampleGateway)))"
    "length (registryRecords (sv_nodes (pg_registry sampleGateway))) < kMaxNodes"
    using r(2-5) w(4) by simp_all
  show thesis
  proof (rule slot_storage.join_completes [OF slots r(6) w(6) pre(1,2) pre(3) r(7) w(1,2,3) w(5) dec pre(4,5) run],
      goal_cases)
    case (1 nodeId bs)
    have "calls2 \<noteq> []" if "rf_senderId frame2 = ucast nodeId"
      "decodeJoinConfirm (frameBytes frame2) =
         Inr \<lparr>jc_deviceUid = jr_deviceUid sampleRequest, jc_requestNonce = jr_requestNonce sampleRequest\<rparr>"
      "handleJoinConfirm sampleEnv t frame2 g1 = (g2, calls2)" for frame2 t g2 calls2
      using 1(4) [rule_format, OF conjI [OF that(1) conjI [OF that(2,3)]]] by auto
    then have all: "\<forall>frame2 t g2 calls2. rf_senderId frame2 = ucast (nodeId :: u8) \<and>
       decodeJoinConfirm (frameBytes frame2) =
         Inr \<lparr>jc_deviceUid = jr_deviceUid sampleRequest, jc_requestNonce = jr_requestNonce sampleRequest\<rparr> \<and>
       handleJoinConfirm sampleEnv t frame2 g1 = (g2, calls2) \<longrightarrow> calls2 \<noteq> []" by (intro allI impI) (elim conjE)
    show ?case by (rule that [OF run 1(1,3) all])
  qed
qed

theorem join_accept_only_when_expected_witness:
  "\<exists>g1 calls1. handleJoinRequest sampleEnv 1000 2000 (frameOf 0 (joinRequestImage sampleRequest)) sampleGateway =
     (g1, calls1) \<and> durably (nvsSlots flashNvs) (pg_registry g1)"
proof -
  obtain g1 calls1 nodeId bs where run:
    "handleJoinRequest sampleEnv 1000 2000 (frameOf 0 (joinRequestImage sampleRequest)) sampleGateway = (g1, calls1)"
    "CallSend 0 bs False \<in> set calls1"
    by (rule sampleJoin)
  have "serviceOk (nvsSlots flashNvs) (pg_registry sampleGateway)"
    using sampleGateway_ready(2) sampleGateway_window(4) by simp
  from join_accept_only_when_expected [OF sampleGateway_ready(1) sampleGateway_window(6) this run(1)] run(1,2)
  show ?thesis by (metis empty_iff list.set(1))
qed

text \<open>C16: Joining, a device that does not confirm.  Once a join accept is sent the gateway has left the
  commissioning profile and wiped the pairing key, so when the confirmation does not come within five
  seconds the gateway cannot take the pairing up again, although its window is still open: it shows
  an error and the radio stays on the operational network, where the device's next request cannot be
  heard.\<close>

theorem join_timeout_cannot_resume:
  assumes "handleJoinRequest env now later frame g = (g1, calls)" and "pg_awaitingConfirm g1"
    and "\<not> pg_awaitingConfirm g" and "confirmTimeout env' t g1 = (g2, calls2)"
    and "sint (t - (later + 5000)) \<ge> 0" and "pairingActive (pg_status g1) t"
  shows "\<not> pg_awaitingConfirm g2 \<and> pairingActive (pg_status g2) t \<and> calls2 = [] \<and>
    radioAtRest (pg_radio g2) \<and> gw_current (pg_status g2) = IndError"
  using confirmTimeout_after_accept [OF assms] by blast

theorem join_timeout_cannot_resume_witness:
  "\<exists>g1 calls1 g2. handleJoinRequest sampleEnv 1000 2000 (frameOf 0 (joinRequestImage sampleRequest)) sampleGateway =
       (g1, calls1) \<and> confirmTimeout sampleEnv 8000 g1 = (g2, []) \<and> pairingActive (pg_status g2) 8000 \<and>
     gw_current (pg_status g2) = IndError"
proof -
  obtain g1 calls1 nodeId bs where run:
    "handleJoinRequest sampleEnv 1000 2000 (frameOf 0 (joinRequestImage sampleRequest)) sampleGateway = (g1, calls1)"
    "pg_awaitingConfirm g1"
    by (rule sampleJoin)
  obtain g2 calls2 where t: "confirmTimeout sampleEnv 8000 g1 = (g2, calls2)" by (metis prod.exhaust)
  have "gw_pairingEndsAt (pg_status g1) = gw_pairingEndsAt (pg_status sampleGateway)"
    by (rule handleJoinRequest_window [OF run(1)])
  then have "pairingActive (pg_status g1) 8000"
    by (simp add: pairingActive_def sampleGateway_def statusBegin_def)
  from join_timeout_cannot_resume [OF run(1,2) sampleGateway_window(2) t _ this] run(1) t show ?thesis
    by auto
qed

text \<open>A module on the bench: every read of the clock takes a millisecond, and each transmission is
  answered by the next frame of a script.\<close>

record bench =
  bn_us :: nat
  bn_network :: u8
  bn_script :: "bytes list"
  bn_frame :: bytes

definition benchSend :: "bench \<Rightarrow> bench" where
  "benchSend m = (case bn_script m of [] \<Rightarrow> m\<lparr>bn_frame := []\<rparr> | f # fs \<Rightarrow> m\<lparr>bn_frame := f, bn_script := fs\<rparr>)"

definition benchMillis :: "bench \<Rightarrow> bench \<times> u32" where
  "benchMillis m = (m\<lparr>bn_us := bn_us m + 1000\<rparr>, of_nat ((bn_us m + 1000) div 1000))"

definition benchRadio :: "bench rfm69" where
  "benchRadio = \<lparr>rr_setMode = (\<lambda>_ m. m), rr_writeReg = (\<lambda>_ _ m. m),
     rr_readReg = (\<lambda>r m. if r = 0x30 then bn_network m else if r = 0x3D then 1 else 0),
     rm_initialize = (\<lambda>_ n m. (m\<lparr>bn_network := n\<rparr>, True)), rm_setHighPower = (\<lambda>m. m),
     rm_setAddress = (\<lambda>_ m. m), rm_setNetwork = (\<lambda>n m. m\<lparr>bn_network := n\<rparr>), rm_setPowerLevel = (\<lambda>_ m. m),
     rm_send = (\<lambda>_ _ _. benchSend), rm_sendWithRetry = (\<lambda>_ _ _ _ m. (benchSend m, True)),
     rm_receiveDone = (\<lambda>m. (m, bn_frame m \<noteq> [])), rm_ACKReceived = (\<lambda>_ m. (m, bn_frame m \<noteq> [])),
     rm_senderId = (\<lambda>_. 100), rm_data = bn_frame, rm_readRSSI = (\<lambda>m. (m, - 60)), rm_sleep = (\<lambda>m. m),
     rm_millis = benchMillis, rm_micros = (\<lambda>m. (m, 0))\<rparr>"

definition blankBench :: bench where
  "blankBench = \<lparr>bn_us = 0, bn_network = 0, bn_script = [], bn_frame = []\<rparr>"

lemma benchRadio_runs: "timerRuns benchRadio bn_us"
  by (simp add: timerRuns_def benchRadio_def benchMillis_def)

lemma benchRadio_receives:
  assumes "bn_script (nd_radio r) = f # fs" "f \<noteq> []" "1 < timeoutMs"
  shows "nodeReceive benchRadio timeoutMs 100 (length f) (nodeSend benchRadio 100 bs r) =
    Some (r\<lparr>nd_radio := nd_radio r\<lparr>bn_script := fs, bn_frame := f, bn_us := bn_us (nd_radio r) + 2000\<rparr>\<rparr>, Some f)"
proof -
  have "(bn_us (nd_radio r) + 2000) div 1000 = Suc ((bn_us (nd_radio r) + 1000) div 1000)" by simp
  then have "(of_nat ((bn_us (nd_radio r) + 2000) div 1000) :: u32) - of_nat ((bn_us (nd_radio r) + 1000) div 1000) < timeoutMs"
    using assms(3) by simp
  then show ?thesis
    using assms(1,2) by (simp add: nodeReceive_def receiveMatching_def nodeSend_def onModule_def benchRadio_def
        benchSend_def benchMillis_def receiveLoop.simps Let_def add.assoc)
qed

text \<open>The request an unconfigured node is about to make, and what it then hears: the accept, and the
  complete after one of its confirmations.\<close>

definition nodeAsks :: "node_build \<Rightarrow> 'm rfm69 \<Rightarrow> 'm node_commissioning \<Rightarrow> 'm node_commissioning \<Rightarrow> JoinRequest \<Rightarrow> bool" where
  "nodeAsks B L c c1 request \<longleftrightarrow> joinSound c \<and> nc_nodeId (nm_config c) = 0 \<and>
     (\<exists>r. ensureConfigured L (nm_radio c) = (r, True) \<and>
       createNonce L (onRadio (useCommissioningProfile L (nb_maxPowerLevel B) (nm_factoryKey c)) (c\<lparr>nm_radio := r\<rparr>)) =
         (c1, jr_requestNonce request)) \<and>
     request = joinRequestOf B c (jr_requestNonce request)"

definition nodeHears :: "node_build \<Rightarrow> 'm rfm69 \<Rightarrow> 'm node_commissioning \<Rightarrow> JoinRequest \<Rightarrow> JoinAccept \<Rightarrow> bool" where
  "nodeHears B L c1 request accept \<longleftrightarrow>
     (\<exists>r. nodeReceive L kAcceptWindowMs (nb_gatewayId B) kJoinAcceptSize
            (nodeSend L (nb_gatewayId B) (joinRequestImage request) (nm_radio c1)) = Some (r, Some (joinAcceptImage accept)) \<and>
        (let operational = useOperationalProfile L (nb_maxPowerLevel B) (takeAccept accept (nm_config c1))
         in completesWithin L (jr_deviceUid request) (takeAccept accept (nm_config c1)) kConfirmAttempts
              (operational (operational r))))"

lemma nodeAdvance_joins:
  assumes asks: "nodeAsks B L c c1 request" and ok: "joinRequestOk request"
    and hears: "nodeHears B L c1 request accept"
    and accept: "joinAcceptOk accept" "ja_deviceUid accept = jr_deviceUid request"
      "ja_requestNonce accept = jr_requestNonce request" "ja_gatewayNodeId accept = nb_gatewayId B"
  shows "\<exists>c'. nodeAdvance B L c = Some (c', True) \<and> joinSound c' \<and> nodeActive c' \<and>
    sameMembership (nm_config c') (takeAccept accept (nm_config c))"
proof -
  obtain r0 where r0: "ensureConfigured L (nm_radio c) = (r0, True)"
    "createNonce L (onRadio (useCommissioningProfile L (nb_maxPowerLevel B) (nm_factoryKey c)) (c\<lparr>nm_radio := r0\<rparr>)) =
      (c1, jr_requestNonce request)" and c: "joinSound c" "nc_nodeId (nm_config c) = 0"
    "request = joinRequestOf B c (jr_requestNonce request)"
    using asks unfolding nodeAsks_def by blast
  let ?c = "c\<lparr>nm_radio := r0\<rparr>"
  obtain m where m: "c1 = (onRadio (useCommissioningProfile L (nb_maxPowerLevel B) (nm_factoryKey c)) ?c)
      \<lparr>nm_radio := (nm_radio (onRadio (useCommissioningProfile L (nb_maxPowerLevel B) (nm_factoryKey c)) ?c))\<lparr>nd_radio := m\<rparr>\<rparr>"
    by (rule createNonce_radio [OF r0(2)])
  have config: "nm_config c1 = nm_config c" by (simp add: m)
  have same: "joinRequestOf B ?c (jr_requestNonce request) = request"
    using c(3) by (simp add: joinRequestOf_def)
  have uid: "jr_deviceUid request = nm_deviceUid c" by (subst c(3)) (simp add: joinRequestOf_def)
  obtain r where r: "nodeReceive L kAcceptWindowMs (nb_gatewayId B) kJoinAcceptSize
      (nodeSend L (nb_gatewayId B) (joinRequestImage request) (nm_radio c1)) = Some (r, Some (joinAcceptImage accept))"
    "completesWithin L (nm_deviceUid c) (takeAccept accept (nm_config c)) kConfirmAttempts
      (useOperationalProfile L (nb_maxPowerLevel B) (takeAccept accept (nm_config c))
        (useOperationalProfile L (nb_maxPowerLevel B) (takeAccept accept (nm_config c)) r))"
    using hears by (auto simp: nodeHears_def Let_def uid config)
  have "\<exists>c'. requestJoin B L ?c = Some (c', True) \<and> joinSound c' \<and> nodeActive c' \<and>
      sameMembership (nm_config c') (takeAccept accept (nm_config ?c))"
    by (rule requestJoin_joins [where ?c1.0 = c1 and nonce = "jr_requestNonce request" and r = r])
       (use c r0 r same ok accept uid in simp_all)
  moreover have "nodeAdvance B L c = requestJoin B L ?c"
    using c(2) r0(1) by (simp add: nodeAdvance_def nodeActive_def nodeProvisional_def)
  ultimately show ?thesis by simp
qed

text \<open>C17: Joining, it works, end to end.  In a working gateway (the flash stores what it is given, the radio
  task answers in time and has room in its queue, an installation key is set), with the pairing window
  open for a device that is not yet on record and room in the registry, that device's join request is
  answered with a join accept.  A node whose request it was and that hears the accept, and the complete
  after one of its three confirmations, ends the same attempt active with the id, the network and the
  installation key of the gateway, and its EEPROM holds them for the next boot.  When its confirmation
  arrives from that id, the gateway has the node active on record in flash, sends exactly the complete the
  node waits for, and closes the pairing: the window is shut, the pairing key wiped, the radio back to
  normal operation.\<close>

theorem join_end_to_end:
  fixes P :: "'s nvs" and L :: "'m rfm69"
  assumes "nvs_contract P" and "ce_ops env = nvsSlots P" and "gatewayWorks env healthy"
    and "serviceOk (nvsSlots P) (pg_registry g)" and "writable True (pg_registry g)"
    and "healthy (sv_flash (pg_registry g))" and "radioReady (pg_radio g)"
    and "pairingActive (pg_status g) now" and "\<not> pg_awaitingConfirm g"
    and "matchesExpectedDevice g (jr_deviceUid request)"
    and "rf_senderId frame = 0" and "decodeJoinRequest (frameBytes frame) = Inr request"
    and "jr_deviceUid request \<notin> nr_deviceUid ` set (registryRecords (sv_nodes (pg_registry g)))"
    and "length (registryRecords (sv_nodes (pg_registry g))) < 64"
    and "handleJoinRequest env now later frame g = (g1, calls1)"
  shows "\<exists>nodeId. let accept = acceptFor env request nodeId;
      j = \<lparr>jc_deviceUid = jr_deviceUid request, jc_requestNonce = jr_requestNonce request\<rparr> in
    CallSend 0 (joinAcceptImage accept) False \<in> set calls1 \<and>
    (\<forall>B c c1. nb_gatewayId B = ucast (ce_gatewayNodeId env) \<and> nodeAsks B L c c1 request \<and>
       nodeHears B L c1 request accept \<longrightarrow>
       (\<exists>c'. nodeAdvance B L c = Some (c', True) \<and> nodeActive c' \<and> nc_nodeId (nm_config c') = nodeId \<and>
          nc_networkId (nm_config c') = is_operationalNetworkId (ce_secrets env) \<and>
          nc_installationKey (nm_config c') = is_installationKey (ce_secrets env) \<and>
          networkLoad (nm_eeprom c') = (nm_store c', Some (nm_config c')))) \<and>
    (\<forall>frame2 t g2 calls2. rf_senderId frame2 = ucast nodeId \<and>
       frameBytes frame2 = Some (joinConfirmImage KJoinConfirm j) \<and> handleJoinConfirm env t frame2 g1 = (g2, calls2) \<longrightarrow>
       recordedAs Active (sv_nodes (pg_registry g2)) nodeId (jr_deviceUid request) (jr_requestNonce request) \<and>
       durably (nvsSlots P) (pg_registry g2) \<and> radioAtRest (pg_radio g2) \<and>
       (\<forall>t'. \<not> pairingActive (pg_status g2) t') \<and>
       CallSend (ucast nodeId) (joinConfirmImage KJoinComplete j) False \<in> set calls2)"
proof -
  note j = slot_storage.join_completes [OF nvs_contract_slots [OF assms(1)] assms(3,2,4-15)]
  have ok: "joinRequestOk request" using assms(12) by (simp add: frameBytes_def joinRequest.decode_iff)
  let ?j = "\<lparr>jc_deviceUid = jr_deviceUid request, jc_requestNonce = jr_requestNonce request\<rparr>"
  have jok: "joinConfirmOk ?j" using ok by (simp add: joinConfirmOk_def joinRequestOk_def)
  obtain nodeId bs where n: "CallSend 0 bs False \<in> set calls1"
    "decodeJoinAccept (Some bs) = Inr (acceptFor env request nodeId)"
    and confirm: "\<forall>frame2 t g2 calls2. rf_senderId frame2 = ucast nodeId \<and>
       decodeJoinConfirm (frameBytes frame2) = Inr ?j \<and> handleJoinConfirm env t frame2 g1 = (g2, calls2) \<longrightarrow>
       recordedAs Active (sv_nodes (pg_registry g2)) nodeId (jr_deviceUid request) (jr_requestNonce request) \<and>
       durably (nvsSlots P) (pg_registry g2) \<and> radioAtRest (pg_radio g2) \<and>
       (\<forall>t'. \<not> pairingActive (pg_status g2) t') \<and>
       (\<exists>bs2. CallSend (ucast nodeId) bs2 False \<in> set calls2 \<and> decodeJoinComplete (Some bs2) = Inr ?j)"
    by (rule j) blast
  let ?accept = "acceptFor env request nodeId"
  have accept: "joinAcceptOk ?accept" "bs = joinAcceptImage ?accept" using n(2) by (simp_all add: joinAccept.decode_iff)
  have node: "\<exists>c'. nodeAdvance B L c = Some (c', True) \<and> nodeActive c' \<and> nc_nodeId (nm_config c') = nodeId \<and>
      nc_networkId (nm_config c') = is_operationalNetworkId (ce_secrets env) \<and>
      nc_installationKey (nm_config c') = is_installationKey (ce_secrets env) \<and>
      networkLoad (nm_eeprom c') = (nm_store c', Some (nm_config c'))"
    if "nb_gatewayId B = ucast (ce_gatewayNodeId env)" "nodeAsks B L c c1 request" "nodeHears B L c1 request ?accept" for B c c1
    using nodeAdvance_joins [OF that(2) ok that(3) accept(1)] that(1) accept(1)
    by (auto simp: acceptFor_def sameMembership_fields takeAccept_def joinSound_def storedConfig_def nodeActive_def)
  have "recordedAs Active (sv_nodes (pg_registry g2)) nodeId (jr_deviceUid request) (jr_requestNonce request) \<and>
       durably (nvsSlots P) (pg_registry g2) \<and> radioAtRest (pg_radio g2) \<and>
       (\<forall>t'. \<not> pairingActive (pg_status g2) t') \<and>
       CallSend (ucast nodeId) (joinConfirmImage KJoinComplete ?j) False \<in> set calls2"
    if "rf_senderId frame2 = ucast nodeId" "frameBytes frame2 = Some (joinConfirmImage KJoinConfirm ?j)"
      "handleJoinConfirm env t frame2 g1 = (g2, calls2)" for frame2 t g2 calls2
  proof -
    have "decodeJoinConfirm (frameBytes frame2) = Inr ?j" by (simp add: that(2) joinConfirm.decode_image jok)
    from confirm [rule_format, OF conjI [OF that(1) conjI [OF this that(3)]]]
    show ?thesis by (auto simp: joinComplete.decode_iff)
  qed
  then show ?thesis using n(1) accept(2) node unfolding Let_def by blast
qed

definition benchBuild :: node_build where
  "benchBuild = \<lparr>nb_maxPowerLevel = 31, nb_gatewayId = 100, nb_minTransmitMillivolts = 1800\<rparr>"

definition benchRow :: "nat \<Rightarrow> u8" where
  "benchRow = (!) (the (encodeFactoryCredentials (replicate 16 9) (Some (zeros 32))))"

definition benchBoot :: "bytes list \<Rightarrow> bench node_commissioning \<times> StartStatus" where
  "benchBoot script = nodeCommissioningBegin benchBuild benchRadio (\<lambda>i. jr_deviceUid sampleRequest ! i)
     (newNodeCommissioning (newNodeRadio 31 (blankBench\<lparr>bn_script := script\<rparr>)) 1 (\<lambda>_. 0xFF) benchRow)"

definition benchNode :: "bytes list \<Rightarrow> bench node_commissioning" where
  "benchNode script = fst (benchBoot script)"

definition benchRequest :: JoinRequest where
  "benchRequest = \<lparr>jr_deviceUid = jr_deviceUid sampleRequest, jr_profileId = 1, jr_firmware = kFirmwareVersion,
     jr_requestNonce = nonceFrom (jr_deviceUid sampleRequest) 0, jr_maxPowerLevel = 31\<rparr>"

lemma blankEeprom_load: "networkLoad (\<lambda>_. 0xFF) = (fst (networkLoad (\<lambda>_. 0xFF)), None)"
  by (simp add: networkLoad_def slotLoad_def networkLayout_def decodeNetworkConfig_def get16_def Let_def
      upt_rec readBlock_def)

lemma benchRow_load: "factoryLoad benchRow = Some (replicate 16 9)"
proof -
  have "\<not> allZero (replicate 16 (9 :: u8))" by (simp add: allZero_def)
  then obtain d where d: "encodeFactoryCredentials (replicate 16 9) (Some (zeros 32)) = Some (written d (zeros 32))"
    "length d = 32" "decodeFactoryCredentials (Some d) = Some (replicate 16 9)"
    using factoryCredentials_roundtrip [of "replicate 16 9" "zeros 32"] by auto
  have "readBlock ((!) d) 0 32 = d" using d(2) by (intro nth_equalityI) (simp_all add: readBlock_def)
  then show ?thesis using d by (simp add: factoryLoad_def benchRow_def written_full)
qed

lemma benchNode_started:
  "benchBoot script = (benchNode script, StartReady)" "joinSound (benchNode script)"
  "nm_config (benchNode script) = emptyNetworkConfig" "nm_deviceUid (benchNode script) = jr_deviceUid sampleRequest"
  "nm_profileId (benchNode script) = 1" "nm_factoryKey (benchNode script) = replicate 16 9"
  "nm_radio (benchNode script) = \<lparr>nd_radio = blankBench\<lparr>bn_script := script\<rparr>, nd_address = 0, nd_network = 0,
     nd_key = replicate 16 9, nd_level = 31, nd_frequencyMsb = 0\<rparr>"
proof -
  have uid: "map ((!) (jr_deviceUid sampleRequest)) [0..<10] = jr_deviceUid sampleRequest"
    using sampleRequest_ok by (intro nth_equalityI) (simp_all add: joinRequestOk_def)
  obtain st where st: "networkLoad (\<lambda>_. 0xFF) = (st, None)" using blankEeprom_load by metis
  have "fold (\<lambda>i m. m) is m = m" for "is" :: "nat list" and m :: bench by (induction "is") simp_all
  note run = benchBoot_def nodeCommissioningBegin_def newNodeCommissioning_def readDeviceUid_def st benchRow_load
    nodeRadioBegin_def onRadio_def useCommissioningProfile_def applyProfile_def nodeSetPowerLevel_def onModule_def
    nodeSleep_def aesEnable_def radio_registers.truncate_def benchRadio_def Let_def newNodeRadio_def blankBench_def
    emptyNetworkConfig_def benchBuild_def uid this
  show start: "benchBoot script = (benchNode script, StartReady)"
    "nm_config (benchNode script) = emptyNetworkConfig" "nm_deviceUid (benchNode script) = jr_deviceUid sampleRequest"
    "nm_profileId (benchNode script) = 1" "nm_factoryKey (benchNode script) = replicate 16 9"
    "nm_radio (benchNode script) = \<lparr>nd_radio = blankBench\<lparr>bn_script := script\<rparr>, nd_address = 0, nd_network = 0,
       nd_key = replicate 16 9, nd_level = 31, nd_frequencyMsb = 0\<rparr>"
    by (simp_all add: benchNode_def run)
  show "joinSound (benchNode script)"
    using nodeCommissioningBegin_sound(1) start(1) unfolding benchBoot_def by blast
qed

lemma benchRequest_simps:
  "jr_deviceUid benchRequest = jr_deviceUid sampleRequest" "joinRequestOk benchRequest"
  "joinRequestOf benchBuild (benchNode script) (jr_requestNonce benchRequest) = benchRequest"
  using sampleRequest_ok
  by (simp_all add: benchRequest_def joinRequestOf_def joinRequestOk_def benchBuild_def benchNode_started)

lemma benchNode_asks: "nodeAsks benchBuild benchRadio (benchNode script) (benchNode script) benchRequest"
proof -
  have "fold (\<lambda>i m. m) is m = m" for "is" :: "nat list" and m :: bench by (induction "is") simp_all
  note run = ensureConfigured_def configured_def createNonce_def onRadio_def useCommissioningProfile_def
    applyProfile_def nodeSetPowerLevel_def onModule_def aesEnable_def radio_registers.truncate_def benchRadio_def
    Let_def blankBench_def this
  have "ensureConfigured benchRadio (nm_radio (benchNode script)) = (nm_radio (benchNode script), True)"
    by (simp add: benchNode_started run)
  moreover have "createNonce benchRadio (onRadio (useCommissioningProfile benchRadio (nb_maxPowerLevel benchBuild)
      (nm_factoryKey (benchNode script))) (benchNode script\<lparr>nm_radio := nm_radio (benchNode script)\<rparr>)) =
      (benchNode script, jr_requestNonce benchRequest)"
  proof -
    have "useCommissioningProfile benchRadio (nb_maxPowerLevel benchBuild) (nm_factoryKey (benchNode script))
        (nm_radio (benchNode script)) = nm_radio (benchNode script)"
      by (simp add: benchNode_started benchBuild_def run)
    moreover have "c\<lparr>nm_radio := nm_radio c\<rparr> = c" for c :: "bench node_commissioning" by (cases c) simp
    moreover have "rm_micros benchRadio m = (m, 0)" for m by (simp add: benchRadio_def)
    moreover have "r\<lparr>nd_radio := nd_radio r\<rparr> = r" for r :: "bench node_radio" by (cases r) simp
    ultimately show ?thesis by (simp add: createNonce_def onRadio_def benchRequest_def benchNode_started(4))
  qed
  ultimately show ?thesis
    unfolding nodeAsks_def using benchNode_started benchRequest_simps(3) [of script]
    by (auto simp: emptyNetworkConfig_def)
qed

lemma benchNode_hears:
  assumes "length (joinAcceptImage accept) = 34" "ja_gatewayNodeId accept = 100" "ja_requestNonce accept = jr_requestNonce request"
    "length (jr_deviceUid request) = 10"
  shows "nodeHears benchBuild benchRadio (benchNode [joinAcceptImage accept, joinConfirmImage KJoinComplete
      \<lparr>jc_deviceUid = jr_deviceUid request, jc_requestNonce = jr_requestNonce request\<rparr>]) request accept"
proof -
  let ?j = "\<lparr>jc_deviceUid = jr_deviceUid request, jc_requestNonce = jr_requestNonce request\<rparr>"
  let ?complete = "joinConfirmImage KJoinComplete ?j"
  let ?c = "benchNode [joinAcceptImage accept, ?complete]"
  have ne: "joinAcceptImage accept \<noteq> []" "?complete \<noteq> []" and len: "length ?complete = 15"
    using assms by (auto simp: joinConfirmImage_def)
  obtain r where r: "nodeReceive benchRadio kAcceptWindowMs 100 34
      (nodeSend benchRadio 100 (joinRequestImage request) (nm_radio ?c)) = Some (r, Some (joinAcceptImage accept))"
    "bn_script (nd_radio r) = [?complete]"
    using benchRadio_receives [of "nm_radio ?c" "joinAcceptImage accept" "[?complete]" kAcceptWindowMs "joinRequestImage request"]
      ne(1) assms(1) by (simp add: benchNode_started)
  have f: "fold (\<lambda>i m. m) is m = m" for "is" :: "nat list" and m :: bench by (induction "is") simp_all
  have script: "bn_script (nd_radio (useOperationalProfile benchRadio l v x)) = bn_script (nd_radio x)" for l v x
    by (simp add: useOperationalProfile_def applyProfile_def nodeSetPowerLevel_def onModule_def aesEnable_def
        radio_registers.truncate_def benchRadio_def Let_def f)
  have "completesWithin benchRadio (jr_deviceUid request) (takeAccept accept (nm_config ?c)) (Suc n) x"
    if "bn_script (nd_radio x) = [?complete]" for x n
    using benchRadio_receives [OF that ne(2), of 1000 "joinConfirmImage KJoinConfirm ?j"] len
    by (simp add: takeAccept_def assms(2,3))
  then show ?thesis
    unfolding nodeHears_def Let_def using r script
    by (intro exI [of _ r]) (simp add: benchBuild_def eval_nat_numeral)
qed

theorem join_end_to_end_witness:
  "\<exists>nodeId g1 calls1 c'. handleJoinRequest sampleEnv 1000 2000 (frameOf 0 (joinRequestImage benchRequest)) sampleGateway =
       (g1, calls1) \<and>
     CallSend 0 (joinAcceptImage (acceptFor sampleEnv benchRequest nodeId)) False \<in> set calls1 \<and>
     nodeAdvance benchBuild benchRadio (benchNode [joinAcceptImage (acceptFor sampleEnv benchRequest nodeId),
       joinConfirmImage KJoinComplete \<lparr>jc_deviceUid = jr_deviceUid benchRequest,
         jc_requestNonce = jr_requestNonce benchRequest\<rparr>]) = Some (c', True) \<and>
     nodeActive c' \<and> nc_nodeId (nm_config c') = nodeId"
proof -
  note r = sampleGateway_ready and w = sampleGateway_window
  let ?frame = "frameOf 0 (joinRequestImage benchRequest)"
  obtain g1 calls1 where run: "handleJoinRequest sampleEnv 1000 2000 ?frame sampleGateway = (g1, calls1)"
    by (metis prod.exhaust)
  have len: "length (joinRequestImage benchRequest) = 21"
    by (simp add: joinRequestImage_def benchRequest_def sampleRequest_def)
  have dec: "decodeJoinRequest (frameBytes ?frame) = Inr benchRequest"
    using joinRequest.decode_image [OF benchRequest_simps(2)] len by (simp add: frameOf_bytes)
  have pre: "serviceOk (nvsSlots flashNvs) (pg_registry sampleGateway)" "writable True (pg_registry sampleGateway)"
    "fl_faults (sv_flash (pg_registry sampleGateway)) = []"
    "matchesExpectedDevice sampleGateway (jr_deviceUid benchRequest)"
    "jr_deviceUid benchRequest \<notin> nr_deviceUid ` set (registryRecords (sv_nodes (pg_registry sampleGateway)))"
    "length (registryRecords (sv_nodes (pg_registry sampleGateway))) < 64"
    using r(2-5) w(3,4) by (simp_all add: benchRequest_simps)
  obtain nodeId where n: "CallSend 0 (joinAcceptImage (acceptFor sampleEnv benchRequest nodeId)) False \<in> set calls1"
    "nb_gatewayId B = ucast (ce_gatewayNodeId sampleEnv) \<and> nodeAsks B benchRadio c c1 benchRequest \<and>
       nodeHears B benchRadio c1 benchRequest (acceptFor sampleEnv benchRequest nodeId) \<Longrightarrow>
     \<exists>c'. nodeAdvance B benchRadio c = Some (c', True) \<and> nodeActive c' \<and> nc_nodeId (nm_config c') = nodeId"
    for B c c1
    using join_end_to_end [OF r(1) w(6) r(6) pre(1,2) _ r(7) w(1,2) pre(4) w(5) dec pre(5,6) run, where L = benchRadio] pre(3)
    unfolding Let_def by (elim meta_impE exE conjE) (assumption, erule that, blast)
  let ?a = "acceptFor sampleEnv benchRequest nodeId"
  have a: "ja_gatewayNodeId ?a = 100" "ja_requestNonce ?a = jr_requestNonce benchRequest" "length (joinAcceptImage ?a) = 34"
    "length (jr_deviceUid benchRequest) = 10"
    by (simp_all add: acceptFor_def sampleEnv_def joinAcceptImage_def benchRequest_def sampleRequest_def)
  from n(2) [OF conjI [OF _ conjI [OF benchNode_asks benchNode_hears [OF a(3,1,2,4)]]]] n(1) run show ?thesis
    by (auto simp: benchBuild_def sampleEnv_def)
qed

text \<open>The life of a node's commissioning service; the runtime uses the radio and the profile writes its own
  part of the EEPROM in between.\<close>

inductive node_joining :: "node_build \<Rightarrow> 'm rfm69 \<Rightarrow> (nat \<Rightarrow> u8) \<Rightarrow> 'm node_commissioning \<Rightarrow> bool" for B L serial where
  joining_boot: "nodeCommissioningBegin B L serial (newNodeCommissioning r profileId e userRow) = (c, started) \<Longrightarrow>
    node_joining B L serial c"
| joining_advance: "node_joining B L serial c \<Longrightarrow> nodeAdvance B L c = Some (c', active) \<Longrightarrow> node_joining B L serial c'"
| joining_reset: "node_joining B L serial c \<Longrightarrow> nodeResetNetwork c = (c', cleared) \<Longrightarrow> node_joining B L serial c'"
| joining_radio: "node_joining B L serial c \<Longrightarrow> node_joining B L serial (c\<lparr>nm_radio := r\<rparr>)"
| joining_profile: "node_joining B L serial c \<Longrightarrow> networkKept (nm_eeprom c) e \<Longrightarrow>
    node_joining B L serial (c\<lparr>nm_eeprom := e\<rparr>)"

lemma node_joining_sound: "node_joining B L serial c \<Longrightarrow> joinSound c \<and> nm_deviceUid c = map serial [0..<10]"
proof (induction rule: node_joining.induct)
  case (joining_boot r profileId e userRow c started)
  then show ?case
    using nodeCommissioningBegin_sound(1) [OF joining_boot]
    by (auto simp: nodeCommissioningBegin_def readDeviceUid_def Let_def onRadio_def newNodeCommissioning_def
        split: prod.splits if_splits option.splits)
next
  case (joining_advance c c' active)
  then show ?case using nodeAdvance_sound [OF _ joining_advance.hyps(2)] by auto
next
  case (joining_reset c c' cleared)
  then show ?case using nodeResetNetwork_sound [OF _ joining_reset.hyps(2)]
    by (auto simp: nodeResetNetwork_def split: if_splits prod.splits)
qed (auto simp: joinSound_def networkLoad_kept)

text \<open>C18: Joining, a node does only what its gateway told it.  In every state of a node's commissioning
  service an attempt to join leaves an active node alone, and leaves the configuration in RAM equal to the
  one the next boot loads.  It changes the configuration only to what a join accept of its gateway says that
  answers the very request it had just sent (same serial number, same nonce), or, of a node that has an id,
  only the generation and the state; and it ends active only when the gateway's complete for that
  membership arrived in answer to a confirmation.\<close>

theorem node_joins_only_as_told:
  assumes "node_joining B L serial c" and "nodeAdvance B L c = Some (c', active)"
  shows "networkLoad (nm_eeprom c') = (nm_store c', storedConfig (nm_config c')) \<and>
    active = nodeActive c' \<and> (nodeActive c \<longrightarrow> c' = c) \<and>
    (nm_config c' = nm_config c \<or> nc_nodeId (nm_config c) \<noteq> 0 \<and> sameMembership (nm_config c') (nm_config c) \<or>
     nc_nodeId (nm_config c) = 0 \<and> (\<exists>accept. acceptHeard B L c accept \<and> ja_deviceUid accept = map serial [0..<10] \<and>
       sameMembership (nm_config c') (takeAccept accept (nm_config c)))) \<and>
    (active \<longrightarrow> nodeActive c \<or> completeHeard L (map serial [0..<10]) (nm_config c'))"
proof -
  have s: "joinSound c" "nm_deviceUid c = map serial [0..<10]" using node_joining_sound [OF assms(1)] by simp_all
  have "joinSound c' \<Longrightarrow> networkLoad (nm_eeprom c') = (nm_store c', storedConfig (nm_config c'))"
    by (simp add: joinSound_def)
  moreover have "acceptHeard B L c accept \<Longrightarrow> ja_deviceUid accept = map serial [0..<10]" for accept
    using s(2) by (simp add: acceptHeard_def)
  ultimately show ?thesis using nodeAdvance_sound [OF s(1) assms(2)] s(2) by fastforce
qed

definition benchAccept :: JoinAccept where
  "benchAccept = acceptFor sampleEnv benchRequest 5"

definition benchScript :: "bytes list" where
  "benchScript = [joinAcceptImage benchAccept, joinConfirmImage KJoinComplete
     \<lparr>jc_deviceUid = jr_deviceUid benchRequest, jc_requestNonce = jr_requestNonce benchRequest\<rparr>]"

lemma benchNode_joins:
  obtains c' where "nodeAdvance benchBuild benchRadio (benchNode benchScript) = Some (c', True)" "joinSound c'"
    "nodeActive c'" "nc_nodeId (nm_config c') = 5"
proof -
  have a: "ja_gatewayNodeId benchAccept = 100" "ja_requestNonce benchAccept = jr_requestNonce benchRequest"
    "length (joinAcceptImage benchAccept) = 34" "length (jr_deviceUid benchRequest) = 10" "joinAcceptOk benchAccept"
    "ja_deviceUid benchAccept = jr_deviceUid benchRequest" "nb_gatewayId benchBuild = 100"
    "ja_assignedNodeId benchAccept = 5"
    by (simp_all add: benchAccept_def acceptFor_def sampleEnv_def joinAcceptImage_def benchRequest_def sampleRequest_def
        joinAcceptOk_def benchBuild_def)
  have hears: "nodeHears benchBuild benchRadio (benchNode benchScript) benchRequest benchAccept"
    unfolding benchScript_def by (rule benchNode_hears [OF a(3,1,2,4)])
  from nodeAdvance_joins [OF benchNode_asks benchRequest_simps(2) hears a(5,6,2)] a(1,7,8) show thesis
    by (auto simp: sameMembership_fields takeAccept_def intro: that)
qed

theorem node_joins_only_as_told_witness:
  "\<exists>c'. nodeAdvance benchBuild benchRadio (benchNode benchScript) = Some (c', True) \<and> nodeActive c' \<and>
     completeHeard benchRadio (map ((!) (jr_deviceUid sampleRequest)) [0..<10]) (nm_config c')"
proof -
  obtain c' where c': "nodeAdvance benchBuild benchRadio (benchNode benchScript) = Some (c', True)" "nodeActive c'"
    by (rule benchNode_joins)
  have "node_joining benchBuild benchRadio ((!) (jr_deviceUid sampleRequest)) (benchNode benchScript)"
    using benchNode_started(1) [of benchScript] unfolding benchBoot_def by (rule joining_boot)
  from node_joins_only_as_told [OF this c'(1)] c' show ?thesis
    by (auto simp: nodeActive_def benchNode_started(3) emptyNetworkConfig_def)
qed

text \<open>C19: Factory reset of the gateway, safety.  Whatever the button does from start-up on, the loop
  requests a factory reset only when the debounced button goes down less than five seconds after the
  end of a press that was seen to last at least ten, with nothing but released loops in between.\<close>

theorem factory_reset_needs_gesture:
  assumes "statusLoops (statusBegin env0 low0 t0) radio polls = (gw, radio1)"
    and "statusLoop env now low gw radio1 = (gw', radio2, calls, True)"
  shows "gw_stableButtonPressed gw' \<and>
    (\<exists>at. releasedAfterHold (stableLevels (low0, low0, t0) polls) at \<and> now - at < 5000)"
proof -
  have "gw_resetButton gw = resetRun (stableLevels (low0, low0, t0) polls)"
    using statusLoops_button [of "statusBegin env0 low0 t0" radio polls] assms(1)
    by (simp add: resetRun_def statusBegin_def buttonState_def)
  then have inv: "resetInv (stableLevels (low0, low0, t0) polls) (gw_resetButton gw)"
    by (simp add: resetRun_inv)
  obtain b' action where step: "resetUpdate (gw_resetButton gw) (gw_stableButtonPressed gw') now = (b', action)"
    by (metis prod.exhaust)
  then have "action = ResetConfirm" using statusLoop_button(3) [OF assms(2)] by simp
  from resetInv_step(2) [OF inv step this] show ?thesis by simp
qed

definition pressPolls :: "status_poll list" where
  "pressPolls = map (\<lambda>(t, low). (ce_status sampleEnv, t, low))
     [(100, True), (200, True), (10300, True), (10400, False), (10500, False), (11000, True)]"

theorem factory_reset_needs_gesture_witness:
  "\<exists>at. releasedAfterHold (stableLevels (False, False, 0) pressPolls) at \<and> 11100 - at < 5000"
proof -
  let ?radio = "startingRadio True 7 (replicate 16 5)"
  obtain gw radio1 where run: "statusLoops (statusBegin (ce_status sampleEnv) False 0) ?radio pressPolls = (gw, radio1)"
    by (metis prod.exhaust)
  have gw: "gw_resetButton gw = resetRun (stableLevels (False, False, 0) pressPolls)"
    using statusLoops_button [of "statusBegin (ce_status sampleEnv) False 0" ?radio pressPolls] run
    by (simp add: resetRun_def statusBegin_def buttonState_def)
  have levels: "stableLevels (False, False, 0) pressPolls =
      [(False, 100), (True, 200), (True, 10300), (True, 10400), (False, 10500), (False, 11000)]"
    by (simp add: pressPolls_def)
  obtain gw' radio2 calls reset where loop:
    "statusLoop (ce_status sampleEnv) 11100 True gw radio1 = (gw', radio2, calls, reset)"
    by (rule prod_cases4)
  have "stableLevels (False, False, 0) (pressPolls @ [(ce_status sampleEnv, 11100, True)]) =
      stableLevels (False, False, 0) pressPolls @ [(True, 11100)]"
    by (simp add: pressPolls_def)
  moreover have "buttonState (statusBegin (ce_status sampleEnv) False 0) = (False, False, 0)"
    by (simp add: statusBegin_def buttonState_def)
  ultimately have "gw_stableButtonPressed gw'"
    using stableLevels_append [of "statusBegin (ce_status sampleEnv) False 0" pressPolls
        "[(ce_status sampleEnv, 11100, True)]" ?radio] run statusLoop_button(1) [OF loop, of "[]"]
    by (simp del: stableLevels.simps(2))
  then have "reset" using statusLoop_button(3) [OF loop] gw levels
    by (simp add: resetRun_def newResetButton_def resetUpdate_def armHeld_def Let_def)
  then have "statusLoop (ce_status sampleEnv) 11100 True gw radio1 = (gw', radio2, calls, True)"
    using loop by simp
  from factory_reset_needs_gesture [OF run this] show ?thesis by blast
qed

text \<open>C20: Telemetry store, refinement.  Whatever is accepted, erased and cleared in whatever order, the store
  answers like the list of nodes heard, each with its latest reading, the most recent first: a node is
  found exactly when it is on the list and with its latest payload, the number of nodes seen is the
  length of the list and the last update shown is its head, also after the most recent node has been
  erased.  The bound on the number of events keeps the update counter from wrapping around.\<close>

theorem telemetry_store_refines_latest:
  assumes "\<forall>e \<in> set es. wellFormedEvent e" and "length es < 2 ^ 32"
    and "ts = foldl runTelemetry (fst (telemetryBegin True newTelemetryStore)) es"
    and "latest = foldl specTelemetry [] es"
  shows "map_option readingOf (findTelemetry ts n) = map_of latest n \<and>
    unat (tn_nodesSeen (telemetrySnapshot ts)) = length latest \<and>
    map_option (\<lambda>r. (tr_nodeId r, readingOf r)) (tn_last (telemetrySnapshot ts)) =
      (case latest of [] \<Rightarrow> None | x # _ \<Rightarrow> Some x)"
proof -
  have "represents ts latest"
    unfolding assms(3,4)
    by (rule represents_run) (use assms(1,2) represents_new in \<open>simp_all add: telemetryBegin_def newTelemetryStore_def\<close>)
  then show ?thesis using represents_find represents_snapshot by blast
qed

definition heardFrom :: "u16 \<Rightarrow> s16 \<Rightarrow> telemetry_event" where
  "heardFrom sender rssi = FrameAccepted (\<lambda>n. if n < 10 then Some 1 else None) 1700000000000
     \<lparr>rf_data = put (zeros 61) 0 [0x13, 9], rf_size = 2, rf_senderId = sender, rf_rssi = rssi,
        rf_ackRequested = True, rf_receivedAtMs = 0\<rparr>"

theorem telemetry_store_refines_latest_witness:
  "let ts = foldl runTelemetry (fst (telemetryBegin True newTelemetryStore))
         [heardFrom 4 (-70), heardFrom 7 (-80), heardFrom 4 (-60), heardFrom 12 (-50), NodeErased 4];
       r = (1, -80, 1700000000000, [0x13, 9])
   in map_option readingOf (findTelemetry ts 7) = Some r \<and> findTelemetry ts 4 = None \<and>
      map_option (\<lambda>r. (tr_nodeId r, readingOf r)) (tn_last (telemetrySnapshot ts)) = Some (7, r)"
proof -
  let ?es = "[heardFrom 4 (-70), heardFrom 7 (-80), heardFrom 4 (-60), heardFrom 12 (-50), NodeErased 4]"
  have latest: "foldl specTelemetry [] ?es = [(7, 1, -80, 1700000000000, [0x13, 9])]"
    by (simp add: heardFrom_def specTelemetry_def dropNode_def knownId_def put_def)
  have wf: "\<forall>e \<in> set ?es. wellFormedEvent e" by (simp add: heardFrom_def wellFormedEvent_def)
  from telemetry_store_refines_latest [OF wf _ refl refl, of 7] latest
    telemetry_store_refines_latest [OF wf _ refl refl, of 4]
  show ?thesis by (simp add: Let_def)
qed


definition activeNode :: NodeRecord where
  "activeNode = (newNode sampleRequest 1)\<lparr>nr_state := Active\<rparr>"

definition activeService :: "flash registry_service" where
  "activeService = publishLockFreeView (idleService\<lparr>sv_initialized := True, sv_nodes := registryOf [activeNode]\<rparr>)"

definition commandEnv :: "flash CommandEnv" where
  "commandEnv = \<lparr>cx_commandOps = nvsSlots flashNvs, cx_registryOps = nvsSlots flashNvs, cx_guarded = True,
     cx_allocated = True, cx_unixTimeMs = 1700000000000\<rparr>"

lemma commandEnv_storage:
  "slot_storage (cx_commandOps commandEnv)" "slot_storage (cx_registryOps commandEnv)"
  "writesSucceed (cx_commandOps commandEnv) (\<lambda>s. fl_faults s = [])" "fl_faults blankFlash = []"
proof -
  show "slot_storage (cx_commandOps commandEnv)" "slot_storage (cx_registryOps commandEnv)"
    using nvs_contract_slots [OF flash.nvs_contract_axioms] by (simp_all add: commandEnv_def)
  show "writesSucceed (cx_commandOps commandEnv) (\<lambda>s. fl_faults s = [])" "fl_faults blankFlash = []"
    by (auto simp: commandEnv_def writesSucceed_def nvsSlots_def nvsWrite_def flashNvs_def blankFlash_def)
qed

lemma activeNode_ok: "recordsOk [activeNode]" "nr_deviceUid activeNode = jr_deviceUid sampleRequest"
  using sampleNode_ok
  by (auto simp: activeNode_def recordsOk_def recordOk_def shapedRecord_def restorableRecord_def newNode_def)

lemma activeService_ok:
  "serviceOk (nvsSlots flashNvs) activeService"
  "activeIdentity activeService 1 = Some (jr_deviceUid sampleRequest, jr_profileId sampleRequest)"
  "sv_initialized activeService" "sv_mutex activeService" "sv_flash activeService = blankFlash"
proof -
  have "registrySound (nvsSlots flashNvs) newRegistryStore blankFlash (registryOf [activeNode])"
    by (simp add: registrySound_def newRegistryStore_def anchored_def registrySlotValue_def
        slotValue_def nvsSlots_def nvsRead_def flashNvs_def blankFlash_def)
  moreover have "registryGood (registryOf [activeNode])"
    using activeNode_ok(1)
    by (simp add: registryGood_def registryOk_def ceilings_def nodeMap_def activeNode_def newNode_def
        withinCeiling_def isFixedPolicy_def)
  ultimately show "serviceOk (nvsSlots flashNvs) activeService"
    by (simp add: serviceOk_def activeService_def publishLockFreeView_def idleService_def viewOk_def)
  have "findByNodeId (registryOf [activeNode]) 1 = Some 0"
    by (simp add: findByNodeId_def activeNode_def newNode_def)
  moreover have "reg_records (registryOf [activeNode]) ! 0 = activeNode" by (simp add: registryOf_def)
  ultimately have "activeRecord activeService 1 = Some activeNode"
    by (simp add: activeRecord_def activeService_def publishLockFreeView_def idleService_def)
       (simp add: activeNode_def)
  then show "activeIdentity activeService 1 = Some (jr_deviceUid sampleRequest, jr_profileId sampleRequest)"
    by (simp add: activeIdentity_def activeNode_def newNode_def)
qed (simp_all add: activeService_def publishLockFreeView_def idleService_def)

text \<open>A gateway that has just started, with one active node.\<close>

definition startedCommands :: "flash command_service" where
  "startedCommands = fst (the (commandsBegin (nvsSlots flashNvs) True True [0, 7] True True (newCommandService blankFlash)))"

definition startedGateway :: "flash command_gateway" where
  "startedGateway = \<lparr>cg_commands = startedCommands, cg_registry = activeService,
     cg_radio = (startingRadio True 7 (replicate 16 5))\<lparr>rg_hasQueues := True\<rparr>, cg_telemetry = newTelemetryStore\<rparr>"

lemma startedCommands_begin:
  "commandsBegin (nvsSlots flashNvs) True True [0, 7] True True (newCommandService blankFlash) =
     Some (startedCommands, True)"
  "cv_book startedCommands = defaultCommandBook\<lparr>cb_nextCommandId := 7\<rparr>" "commandsLock startedCommands"
  "cv_flash startedCommands = blankFlash"
proof -
  have "storeLoad (nvsSlots flashNvs) commandsCodec blankFlash =
      (\<lparr>ds_current = defaultCommandBook, ds_generation = 0, ds_activeSlot = None, ds_loaded = False\<rparr>,
       defaultCommandBook, Empty)"
    by (simp add: storeLoad_def newestSlot_def newestStep_def slotValue_def nvsSlots_def nvsRead_def
        nvsExists_def flashNvs_def blankFlash_def commandsCodec_def)
  then show "commandsBegin (nvsSlots flashNvs) True True [0, 7] True True (newCommandService blankFlash) =
      Some (startedCommands, True)"
    "cv_book startedCommands = defaultCommandBook\<lparr>cb_nextCommandId := 7\<rparr>" "commandsLock startedCommands"
    "cv_flash startedCommands = blankFlash"
    by (simp_all add: startedCommands_def commandsBegin_def newCommandService_def publishPending_def
        commandsLock_def)
qed

lemma startedGateway_run: "gateway_run commandEnv startedGateway"
proof -
  have "gateway_run commandEnv (startedGateway\<lparr>cg_commands := startedCommands\<rparr>)"
    by (rule run_begin [where mutexMade = True and slotsReady = True and randoms = "[0, 7]"
          and radioStarted = True and taskMade = True and flash = blankFlash])
       (simp_all add: commandEnv_def startedCommands_begin(1) startedGateway_def activeService_ok)
  then show ?thesis by (simp add: startedGateway_def)
qed


text \<open>The same gateway with a ReadInfo queued for the node.\<close>

lemma queuedGateway:
  obtains g r where "gateway_run commandEnv g" "deliverable 1 g = Some r" "cm_type r = 2" "cm_commandId r = 7"
    "cg_registry g = activeService" "fl_faults (cv_flash (cg_commands g)) = []"
    "cv_deliveries (cg_commands g) 1 = noDelivery"
proof -
  let ?uid = "jr_deviceUid sampleRequest" and ?ops = "nvsSlots flashNvs"
  let ?book = "cv_book startedCommands"
  note b = startedCommands_begin and id = activeService_ok(2)
  have st: "slot_storage ?ops" using commandEnv_storage(1) by (simp add: commandEnv_def)
  obtain sv res q where run: "commandsQueue ?ops True (activeIdentity activeService) 1700000000000 startedCommands 1
      ReadInfo None 0 = (sv, res, q)" by (metis prod_cases3)
  have go: "gateway_run commandEnv (startedGateway\<lparr>cg_commands := sv\<rparr>)"
  proof (rule run_queue [OF startedGateway_run])
    show "commandsQueue (cx_commandOps commandEnv) True (activeIdentity (cg_registry startedGateway)) 1700000000000
        (cg_commands startedGateway) 1 ReadInfo None 0 = (sv, res, q)"
      using run by (simp add: commandEnv_def startedGateway_def)
  qed simp
  have ok: "commandsOk ?ops startedCommands"
    using gateway_run_ok [OF commandEnv_storage(1,2) startedGateway_run]
    by (simp add: gatewayCommandsOk_def startedGateway_def commandEnv_def)
  have book: "bookOk ?book"
    using ok b(3) by (simp add: commandsOk_def commandsLock_def)
  have input: "queueInput (Some uid) None 0" if "activeIdentity activeService 1 = Some (uid, p)" for uid p
    using activeIdentity_uid(1) [OF activeService_ok(1) that] by (simp add: queueInput_def)
  obtain c x where c: "queue ?book (Some ?uid) 1 2 None 0 1700000000000 = (c, Inr x)"
    by (simp add: b(2) queue_def indexOf_def usedCommands_def defaultCommandBook_def emptyBook_def
        validCommandArguments_def commandArgumentSize_def commandTypeOf_def appendCommand_def Let_def)
  have cand: "bookOk c"
    using queue_ok [OF book input [OF id] c] by auto
  obtain sv1 saved where m: "commitCandidate ?ops startedCommands c = (sv1, saved)" by (metis prod.exhaust)
  from commitCandidate_succeeds [OF st _ _ cand m, of "\<lambda>s. fl_faults s = []"] commandEnv_storage(3,4) b(4)
  have s: saved "fl_faults (cv_flash sv1) = []" by (simp_all add: commandEnv_def)
  have sv: "res = QR_Queued" "cv_flash sv = cv_flash sv1"
    using run b(3) id c m s(1)
    by (auto simp: commandsQueue_def commandsLock_def profileSupportsCommand_def)
  from slot_storage.commandsQueue_ok [OF st ok input run] sv(1) id
  have f: "findCommand (cv_book sv) 1 = Some (queuedRecord (cb_nextCommandId ?book) ?uid 1 2 None 0 1700000000000)"
    "cv_deliveries sv 1 = noDelivery" "commandsLock sv"
    using b(3) by (auto simp: commandsStep_def commandsLock_def)
  let ?r = "queuedRecord (cb_nextCommandId ?book) ?uid 1 2 None 0 1700000000000"
  have uid: "take 10 ?uid = ?uid" using activeIdentity_uid(2) [OF activeService_ok(1) id] .
  have "deliverable 1 (startedGateway\<lparr>cg_commands := sv\<rparr>) = Some ?r"
    using f id uid by (simp add: deliverable_def startedGateway_def queuedRecord_def)
  then show thesis
    using go f(2) s(2) sv(2) b(2)
    by (intro that [of "startedGateway\<lparr>cg_commands := sv\<rparr>" ?r]) (simp_all add: queuedRecord_def startedGateway_def)
qed

definition sampleAnswer :: CommandResult where
  "sampleAnswer = \<lparr>cr_sessionNonce = 77, cr_commandId = 7, cr_status = Applied, cr_dataSize = 6,
     cr_data = nodeInfoImage sampleInfo @ [0, 0]\<rparr>"

lemma sampleAnswer_ok:
  "commandResultOk sampleAnswer" "decodeNodeInfo (Some (take 6 (cr_data sampleAnswer))) = Inr sampleInfo"
  "frameBytes (frameOf 1 (commandResultImage sampleAnswer)) = Some (commandResultImage sampleAnswer)"
  "decodeCommandResult (Some (commandResultImage sampleAnswer)) emptyCommandResult = Inr sampleAnswer"
  "frameBytes (frameOf 1 (sessionImage KCommandReady 77)) = Some (sessionImage KCommandReady 77)"
  "decodeCommandReady (Some (sessionImage KCommandReady 77)) = Inr 77"
proof -
  show ok: "commandResultOk sampleAnswer"
    by (simp add: commandResultOk_def sampleAnswer_def nodeInfoImage_def allZero_def)
  have "take 6 (cr_data sampleAnswer) = nodeInfoImage sampleInfo"
    by (simp add: sampleAnswer_def nodeInfoImage_def)
  then show "decodeNodeInfo (Some (take 6 (cr_data sampleAnswer))) = Inr sampleInfo"
    using nodeInfo.decode_image [of sampleInfo] by (simp add: sampleInfo_def nodeInfoOk_def)
  show "decodeCommandResult (Some (commandResultImage sampleAnswer)) emptyCommandResult = Inr sampleAnswer"
    by (rule commandResult.decode_image [OF ok])
  show "decodeCommandReady (Some (sessionImage KCommandReady 77)) = Inr 77"
    by (rule commandReady.decode_image) simp
qed (simp_all add: frameOf_bytes commandResultImage_def sessionImage_def sampleAnswer_def nodeInfoImage_def)

text \<open>C22: Command results, safety.  In every reachable state a frame changes the stored commands only
  when it is a well-formed result that carries the command id and the session nonce of the latest
  delivery to its sender, the sender is an active node, and its command is still pending and belongs to
  that device; then exactly that command is completed with the result, in RAM and in flash, and for an
  applied ReadInfo the identity is in the registry by then.  A result for a command that is not pending
  changes nothing, so no command completes twice.\<close>

theorem command_result_only_for_delivery:
  assumes "slot_storage (cx_commandOps env)" and "slot_storage (cx_registryOps env)" and "gateway_run env g"
    and "handleCommandResult env received g = g'" and "n = ucast (rf_senderId received)"
    and "cv_book (cg_commands g') \<noteq> cv_book (cg_commands g)"
  shows "\<exists>result r. decodeCommandResult (frameBytes received) emptyCommandResult = Inr result \<and>
    cx_guarded env \<and> (\<exists>profileId. activeIdentity (cg_registry g) n = Some (cm_deviceUid r, profileId)) \<and>
    cv_deliveries (cg_commands g) n =
      \<lparr>dv_sessionNonce = cr_sessionNonce result, dv_commandId = cr_commandId result\<rparr> \<and>
    findCommand (cv_book (cg_commands g)) n = Some r \<and> cm_state r = CommandPending \<and>
    cm_commandId r = cr_commandId result \<and> cr_status result \<noteq> StorageFailure \<and>
    findCommand (cv_book (cg_commands g')) = (findCommand (cv_book (cg_commands g)))(n \<mapsto>
      completedRecord r (cr_status result) (Some (cr_data result)) (unat (cr_dataSize result)) (cx_unixTimeMs env)) \<and>
    storedCommands (cx_commandOps env) (cg_commands g') (findCommand (cv_book (cg_commands g'))) \<and>
    (cm_type r = commandTypeValue ReadInfo \<and> cr_status result = Applied \<longrightarrow>
       infoRecorded env g g' n (cm_deviceUid r) result)"
proof -
  have "gatewayCommandsOk env g" by (rule gateway_run_ok [OF assms(1-3)])
  from handleCommandResult_cases [OF assms(1,2) this assms(4)] assms(6)
  show ?thesis unfolding assms(5) answersDelivery_def by (fastforce simp: commandsStep_def)
qed

theorem command_result_only_for_delivery_witness:
  "\<exists>g1 g2 r. g2 = handleCommandResult commandEnv (frameOf 1 (commandResultImage sampleAnswer)) g1 \<and>
     findCommand (cv_book (cg_commands g1)) 1 = Some r \<and> cm_state r = CommandPending \<and>
     cv_deliveries (cg_commands g1) 1 = \<lparr>dv_sessionNonce = 77, dv_commandId = 7\<rparr> \<and>
     infoRecorded commandEnv g1 g2 1 (cm_deviceUid r) sampleAnswer"
proof -
  note e = commandEnv_storage and a = sampleAnswer_ok
  let ?ready = "frameOf 1 (sessionImage KCommandReady 77)" and ?answer = "frameOf 1 (commandResultImage sampleAnswer)"
  obtain g r where g: "gateway_run commandEnv g" "deliverable 1 g = Some r" "cm_type r = 2" "cm_commandId r = 7"
    "cg_registry g = activeService" "fl_faults (cv_flash (cg_commands g)) = []"
    by (rule queuedGateway)
  define g1 where "g1 = handleCommandReady ?ready g"
  define g2 where "g2 = handleCommandResult commandEnv ?answer g1"
  have ready: "decodeCommandReady (frameBytes ?ready) = Inr 77"
    and answer: "decodeCommandResult (frameBytes ?answer) emptyCommandResult = Inr sampleAnswer"
    using a by simp_all
  have sender: "1 = (ucast (rf_senderId (frameOf 1 bs)) :: u8)" for bs by (simp add: frameOf_def)
  have lock: "commandsLock (cg_commands g)" "findCommand (cv_book (cg_commands g)) 1 = Some r"
    "cm_state r = CommandPending"
    using g(2) by (auto simp: deliverable_def split: option.splits if_splits)
  then have init: "cv_initialized (cg_commands g)" by (simp add: commandsLock_def)
  have run1: "gateway_run commandEnv g1" unfolding g1_def by (rule run_ready [OF g(1) init])
  from handleCommandReady_answers [OF gateway_run_ok [OF e(1,2) g(1)] init ready sender]
  have s: "cv_book (cg_commands g1) = cv_book (cg_commands g)" "cg_registry g1 = activeService"
    "commandsLock (cg_commands g1)" "cv_flash (cg_commands g1) = cv_flash (cg_commands g)"
    "cv_deliveries (cg_commands g1) 1 = \<lparr>dv_sessionNonce = 77, dv_commandId = 7\<rparr>"
    using g(2,4,5) lock(1) by (simp_all add: sessionAnswered_def g1_def)
  have d: "deliverable 1 g1 = Some r" using g(2,5) s(1-3) lock(1) by (auto simp: deliverable_def split: option.splits)
  have works: "registryWorks commandEnv (\<lambda>s. fl_faults s = []) g1"
    using e(3,4) s(2) activeService_ok(3-5) by (simp add: registryWorks_def commandEnv_def)
  have result: "completes r sampleAnswer"
    using a(1,2) g(3,4) by (simp add: completes_def sampleAnswer_def commandResultDataSize_def commandTypeOf_def)
  have guard: "cx_guarded commandEnv" by (simp add: commandEnv_def)
  have dv: "cv_deliveries (cg_commands g1) 1 =
      \<lparr>dv_sessionNonce = cr_sessionNonce sampleAnswer, dv_commandId = cr_commandId sampleAnswer\<rparr>"
    using s(5) by (simp add: sampleAnswer_def)
  have "findCommand (cv_book (cg_commands g2)) 1 = Some (completedRecord r (cr_status sampleAnswer)
      (Some (cr_data sampleAnswer)) (unat (cr_dataSize sampleAnswer)) (cx_unixTimeMs commandEnv))"
    using handleCommandResult_completes [OF e(1,2) gateway_run_ok [OF e(1,2) run1] s(3) works guard e(3) _ answer
        sender d result dv] g(6) s(4) by (simp add: g2_def)
  moreover have "cm_state (completedRecord r st x k now) = CommandCompleted" for st x k now
    by (simp add: completedRecord_def)
  ultimately have "cm_state (the (findCommand (cv_book (cg_commands g2)) 1)) \<noteq>
      cm_state (the (findCommand (cv_book (cg_commands g1)) 1))" using lock(2,3) s(1) by simp
  then have "cv_book (cg_commands g2) \<noteq> cv_book (cg_commands g1)" by auto
  from command_result_only_for_delivery [OF e(1,2) run1 g2_def [symmetric] sender this]
  obtain result r' where x: "decodeCommandResult (frameBytes ?answer) emptyCommandResult = Inr result"
    "findCommand (cv_book (cg_commands g1)) 1 = Some r'"
    "cm_type r' = commandTypeValue ReadInfo \<and> cr_status result = Applied \<longrightarrow>
       infoRecorded commandEnv g1 g2 1 (cm_deviceUid r') result"
    by (elim exE conjE) (rule that)
  have "result = sampleAnswer" "r' = r" using x(1,2) answer lock(2) s(1) by simp_all
  moreover have "cr_status sampleAnswer = Applied" by (simp add: sampleAnswer_def)
  ultimately have "infoRecorded commandEnv g1 g2 1 (cm_deviceUid r) sampleAnswer" using x(3) g(3) by simp
  moreover have "findCommand (cv_book (cg_commands g1)) 1 = Some r" using lock(2) s(1) by simp
  ultimately show ?thesis
    using lock(3) s(5) g2_def by (intro exI [of _ g1] exI [of _ g2] exI [of _ r] conjI)
qed

text \<open>C23: Command sessions, liveness.  With storage that works, a session of an active node with a pending
  command fetches that command under the session's nonce, and the node's answer completes it: the result
  is in the book, nothing is pending for the node, and the same answer again changes nothing.\<close>

theorem command_session_completes:
  assumes "slot_storage (cx_commandOps env)" and "slot_storage (cx_registryOps env)" and "gateway_run env g"
    and "registryWorks env healthyR g" and "cx_guarded env"
    and "writesSucceed (cx_commandOps env) healthy" and "healthy (cv_flash (cg_commands g))"
    and "n = ucast (rf_senderId ready)" and "n = ucast (rf_senderId answer)"
    and "deliverable n g = Some r" and "decodeCommandReady (frameBytes ready) = Inr nonce"
    and "decodeCommandResult (frameBytes answer) emptyCommandResult = Inr result"
    and "cr_sessionNonce result = nonce" and "completes r result"
    and "g1 = handleCommandReady ready g" and "g2 = handleCommandResult env answer g1"
  shows "cg_radio g1 = fst (radioSend (cg_radio g) (ucast n) (Some (commandImage (commandFrom r nonce))) False) \<and>
    decodeCommand (Some (commandImage (commandFrom r nonce))) emptyCommand = Inr (commandFrom r nonce) \<and>
    findCommand (cv_book (cg_commands g2)) n = Some (completedRecord r (cr_status result) (Some (cr_data result))
      (unat (cr_dataSize result)) (cx_unixTimeMs env)) \<and>
    \<not> hasPending (cg_commands g2) n \<and>
    cv_book (cg_commands (handleCommandResult env answer g2)) = cv_book (cg_commands g2)"
proof -
  have ok: "gatewayCommandsOk env g" by (rule gateway_run_ok [OF assms(1-3)])
  have r: "findCommand (cv_book (cg_commands g)) n = Some r" "cm_state r = CommandPending" "commandsLock (cg_commands g)"
    using assms(10) by (auto simp: deliverable_def split: option.splits if_splits)
  have init: "cv_initialized (cg_commands g)" using r(3) by (simp add: commandsLock_def)
  have book: "bookOk (cv_book (cg_commands g))" using ok init by (simp add: gatewayCommandsOk_def commandsOk_def)
  have "sessionAnswered env g g1 n nonce"
    unfolding assms(15) by (rule handleCommandReady_answers [OF ok init assms(11,8)])
  then have a: "gatewayCommandsOk env g1" "cg_radio g1 = fst (radioSend (cg_radio g) (ucast n)
      (Some (commandImage (commandFrom r nonce))) False)" "cv_book (cg_commands g1) = cv_book (cg_commands g)"
    "cv_flash (cg_commands g1) = cv_flash (cg_commands g)" "cg_registry g1 = cg_registry g"
    "commandsLock (cg_commands g1)"
    "cv_deliveries (cg_commands g1) n = \<lparr>dv_sessionNonce = nonce, dv_commandId = cm_commandId r\<rparr>"
    using assms(10) r(3) by (simp_all add: sessionAnswered_def sessionAnswer_def)
  have d: "deliverable n g1 = Some r" using assms(10) a(3,5,6) r(3) by (auto simp: deliverable_def split: option.splits)
  have works: "registryWorks env healthyR g1" using assms(4) a(5) by (simp add: registryWorks_def)
  have dv: "cv_deliveries (cg_commands g1) n =
      \<lparr>dv_sessionNonce = cr_sessionNonce result, dv_commandId = cr_commandId result\<rparr>"
    using a(7) assms(13,14) by (simp add: completes_def)
  have f: "findCommand (cv_book (cg_commands g2)) n = Some (completedRecord r (cr_status result)
      (Some (cr_data result)) (unat (cr_dataSize result)) (cx_unixTimeMs env))"
    using handleCommandResult_completes [OF assms(1,2) a(1,6) works assms(5,6) _ assms(12,9) d assms(14) dv]
      assms(7) a(4) by (simp add: assms(16))
  note cases2 = handleCommandResult_cases [OF assms(1,2) a(1) assms(16) [symmetric]]
  have ok2: "gatewayCommandsOk env g2" using cases2 by simp
  have done2: "cm_state (completedRecord r st x k now) = CommandCompleted" for st x k now
    by (simp add: completedRecord_def)
  have "cv_initialized (cg_commands g2)"
    using cases2 a(6) by (auto simp: commandsStep_def commandsLock_def)
  then have "\<not> hasPending (cg_commands g2) n"
    using hasPending_iff [of "cg_commands g2" n] ok2 f done2 by (auto simp: gatewayCommandsOk_def commandsOk_def)
  moreover have "cv_book (cg_commands (handleCommandResult env answer g2)) = cv_book (cg_commands g2)"
    using handleCommandResult_cases [OF assms(1,2) ok2 refl, of answer] f done2
    unfolding assms(9) [symmetric] answersDelivery_def by (fastforce simp: commandsStep_def)
  moreover have "commandOk (commandFrom r nonce)"
    using commandFrom_ok [OF book] r(1) findCommand_iff [OF book] by simp
  ultimately show ?thesis using a(2) f command.decode_image by simp
qed

theorem command_session_completes_witness:
  "\<exists>g g1 g2. gateway_run commandEnv g \<and> hasPending (cg_commands g) 1 \<and>
     g1 = handleCommandReady (frameOf 1 (sessionImage KCommandReady 77)) g \<and>
     g2 = handleCommandResult commandEnv (frameOf 1 (commandResultImage sampleAnswer)) g1 \<and>
     \<not> hasPending (cg_commands g2) 1"
proof -
  note e = commandEnv_storage and a = sampleAnswer_ok
  obtain g r where g: "gateway_run commandEnv g" "deliverable 1 g = Some r" "cm_type r = 2" "cm_commandId r = 7"
    "cg_registry g = activeService" "fl_faults (cv_flash (cg_commands g)) = []"
    by (rule queuedGateway)
  have works: "registryWorks commandEnv (\<lambda>s. fl_faults s = []) g"
    using e(3,4) g(5) activeService_ok(3-5) by (simp add: registryWorks_def commandEnv_def)
  have sender: "1 = (ucast (rf_senderId (frameOf 1 bs)) :: u8)" for bs by (simp add: frameOf_def)
  have ready: "decodeCommandReady (frameBytes (frameOf 1 (sessionImage KCommandReady 77))) = Inr 77"
    and answer: "decodeCommandResult (frameBytes (frameOf 1 (commandResultImage sampleAnswer))) emptyCommandResult =
      Inr sampleAnswer" using a by simp_all
  have result: "completes r sampleAnswer"
    using a(1,2) g(3,4) by (simp add: completes_def sampleAnswer_def commandResultDataSize_def commandTypeOf_def)
  have "cx_guarded commandEnv" "cr_sessionNonce sampleAnswer = 77" by (simp_all add: commandEnv_def sampleAnswer_def)
  from command_session_completes [OF e(1,2) g(1) works this(1) e(3) g(6) sender sender g(2) ready answer this(2)
      result refl refl]
  have "\<not> hasPending (cg_commands (handleCommandResult commandEnv (frameOf 1 (commandResultImage sampleAnswer))
      (handleCommandReady (frameOf 1 (sessionImage KCommandReady 77)) g))) 1" by simp
  moreover have "hasPending (cg_commands g) 1"
  proof -
    have "commandsLock (cg_commands g)" "findCommand (cv_book (cg_commands g)) 1 = Some r" "cm_state r = CommandPending"
      using g(2) by (auto simp: deliverable_def split: option.splits if_splits)
    then show ?thesis
      using gateway_run_ok [OF e(1,2) g(1)] hasPending_iff [of "cg_commands g" 1]
      by (auto simp: gatewayCommandsOk_def commandsOk_def commandsLock_def)
  qed
  ultimately show ?thesis using g(1) by blast
qed


text \<open>A board for the bench: the pin is high, the sensors do not answer.\<close>

definition benchSensors :: "bench sensor_bus" where
  "benchSensors = \<lparr>sb_begin = (\<lambda>m. m), sb_end = (\<lambda>m. m), sb_transmit = (\<lambda>_ _ _ m. (m, 2)),
     sb_request = (\<lambda>_ _ m. (m, [])), sb_step = (\<lambda>_ m. m), sb_sclHigh = (\<lambda>_. True), sb_sdaHigh = (\<lambda>_. True),
     sb_delay = (\<lambda>_ m. m), sb_millis = benchMillis, sb_convert = (\<lambda>m. (m, 24000))\<rparr>"

definition benchBoard :: "bench profile_board" where
  "benchBoard = \<lparr>pb_sensors = benchSensors, pb_powered = (\<lambda>m. (m, \<lambda>_. True)), pb_pinSleep = (\<lambda>m. m)\<rparr>"

definition benchHardware :: "bench node_hardware" where
  "benchHardware = \<lparr>nh_radio = benchRadio, nh_readMillivolts = readMillivolts benchSensors\<rparr>"

lemma benchBoard_runs: "timerRuns (nh_radio benchHardware) bn_us" "sensorTimerRuns (pb_sensors benchBoard) bn_us"
  by (simp_all add: benchHardware_def benchRadio_runs sensorTimerRuns_def benchBoard_def benchSensors_def benchMillis_def)

text \<open>C25: Node runtime, a turn ends.  With a timer that runs (every call of the radio or the sensor library
  takes bounded time), a turn of the loop ends in every state of a node of every profile, whatever the radio
  and the sensors answer: a join attempt, a report with its retries and its sensor conversion, and a command
  session all give up when their time is over.\<close>

theorem node_turn_returns:
  assumes "timerRuns (nh_radio H) elapsed" and "sensorTimerRuns (pb_sensors D) elapsed"
  shows "runOnce B H (binaryProfile D) gesture now b \<noteq> None \<and>
    runOnce B H (binarySht40Profile D address) gesture now s \<noteq> None \<and>
    runOnce B H (climateProfile D address2) gesture now t \<noteq> None \<and>
    runOnce B H (counterProfile D) gesture now c \<noteq> None"
  by (intro conjI runOnce_returns [OF assms(1)] profiles_encode climate_encodes [OF assms(2)])

theorem node_turn_returns_witness:
  "\<forall>b t. runOnce benchBuild benchHardware (binaryProfile benchBoard) ShortPress 5 b \<noteq> None \<and>
   runOnce benchBuild benchHardware (climateProfile benchBoard 0x48) ShortPress 5 t \<noteq> None"
  using node_turn_returns [OF benchBoard_runs] by blast




text \<open>A profile understands a delivered command, and its answer under the session's nonce, which is what it
  transmits, completes the command.\<close>

definition answersDelivered :: "node_build \<Rightarrow> ('m, 'p) node_profile \<Rightarrow> CommandRecord \<Rightarrow> u32 \<Rightarrow> bool" where
  "answersDelivered B P r nonce \<longleftrightarrow>
     receivedAnswer nonce (commandImage (commandFrom r nonce)) = AnsweredCommand (commandFrom r nonce) \<and>
     (\<forall>w w' result. commandAnswer B P (commandFrom r nonce) w = (w', result) \<longrightarrow>
        cr_sessionNonce result = nonce \<and> completes r result \<and>
        (\<exists>bs. encodeCommandResult result (Some (zeros kMaxCommandResultSize)) = Inr bs \<and>
           take (commandResultFrameSize result) bs = commandResultImage result))"

lemma receivedAnswer_command:
  assumes "commandOk c" "cmd_sessionNonce c = nonce"
  shows "receivedAnswer nonce (commandImage c) = AnsweredCommand c"
proof -
  have "decodeNoCommand (Some (commandImage c)) \<noteq> Inr nonce"
    by (simp add: noCommand.decode_iff sessionImage_def commandImage_def)
  then show ?thesis using command.decode_image [OF assms(1)] assms(2) by (simp add: receivedAnswer_def)
qed

lemma profile_answersDelivered:
  assumes P: "profile_commands P" and book: "bookOk book" "r \<in> set (usedCommands book)"
    and level: "nb_maxPowerLevel B \<le> kMaxRadioPowerLevel"
  shows "answersDelivered B P r nonce"
proof -
  have ok: "commandOk (commandFrom r nonce)" by (rule commandFrom_ok [OF book])
  note answers = profile_commands.commandAnswer_answers [OF P ok level]
  note frame = profile_commands.answerCommand_frame [OF P ok level]
  have "completes r result" "cr_sessionNonce result = nonce" if "commandAnswer B P (commandFrom r nonce) w = (w', result)"
    for w w' result
    using answers [OF that] by (auto simp: completes_def answersCommand_def commandFrom_def)
  then show ?thesis
    using receivedAnswer_command [OF ok] frame by (auto simp: answersDelivered_def commandFrom_def)
qed

text \<open>C26: Commands, a node answers what the gateway sends.  Every command of a valid command book, delivered
  in a session, is understood by every profile as a command of that session, and the answer of every profile
  (an applied SET_COUNT or ReadInfo, an invalid argument, or a command it does not support) is a well-formed
  result frame that completes that command at the gateway: it carries its id and the session's nonce, a
  status the gateway records, and data of the size that status and type prescribe.\<close>

theorem node_answers_complete:
  assumes "bookOk book" and "r \<in> set (usedCommands book)" and "nb_maxPowerLevel B \<le> 31"
  shows "answersDelivered B (binaryProfile D) r nonce \<and> answersDelivered B (binarySht40Profile D address) r nonce \<and>
    answersDelivered B (climateProfile D address2) r nonce \<and> answersDelivered B (counterProfile D) r nonce"
proof -
  note p = profile_answersDelivered [OF _ assms]
  show ?thesis
    by (intro conjI p binary_commands.profile_commands_axioms sht40_commands.profile_commands_axioms
        climate_commands.profile_commands_axioms counter_commands.profile_commands_axioms)
qed

theorem node_answers_complete_witness:
  "\<exists>book r w' result. findCommand book 5 = Some r \<and> cm_commandId r = 1 \<and>
     commandAnswer benchBuild (counterProfile benchBoard) (commandFrom r 77)
       (blankBench, \<lambda>_. 0xFF, newCounterProfile 50) = (w', result) \<and> completes r result \<and> cr_status result = Applied"
proof -
  let ?w = "(blankBench, \<lambda>_. 0xFF, newCounterProfile 50)"
  obtain book res where run: "queue defaultCommandBook (Some (zeros 10)) 5 1 (Some [42, 0, 0, 0]) 4 1000 = (book, res)"
    by (metis prod.exhaust)
  have "res = Inr 1"
    using run by (simp add: queue_def defaultCommandBook_def emptyBook_def indexOf_def usedCommands_def
        validCommandArguments_def commandArgumentSize_def commandTypeOf_def appendCommand_def Let_def)
  moreover have "cb_nextCommandId defaultCommandBook = 1" by (simp add: defaultCommandBook_def)
  moreover have "queueInput (Some (zeros 10)) (Some [42, 0, 0, 0 :: u8]) 4" by (simp add: queueInput_def)
  ultimately have book: "bookOk book"
    "findCommand book 5 = Some (queuedRecord 1 (zeros 10) 5 1 (Some [42, 0, 0, 0]) 4 1000)"
    using queue_ok [OF bookOk_default _ run] by auto
  let ?r = "queuedRecord 1 (zeros 10) 5 1 (Some [42, 0, 0, 0]) 4 1000"
  have r: "?r \<in> set (usedCommands book)" using book findCommand_iff [OF book(1)] by blast
  obtain w' result where answer: "commandAnswer benchBuild (counterProfile benchBoard) (commandFrom ?r 77) ?w = (w', result)"
    by (metis prod.exhaust)
  obtain j v outcome stored us where a: "journalApply (\<lambda>_. 0xFF) (cp_journal (newCounterProfile 50)) 1
      (get32 (cm_arguments ?r) 0) (cp_count (newCounterProfile 50)) = (j, v, outcome, stored, us)" by (metis prod_cases5)
  have "cr_status result = Applied"
    using answer a journalApply_beyond [OF a]
    by (auto simp: commandAnswer_def commandFrom_def counterProfile_def counterApply_def queuedRecord_def
        validCommandArguments_def commandArgumentSize_def commandTypeOf_def Let_def)
  moreover have "nb_maxPowerLevel benchBuild \<le> 31" by (simp add: benchBuild_def)
  from node_answers_complete [OF book(1) r this, where D = benchBoard and nonce = 77] have "completes ?r result"
    using answer unfolding answersDelivered_def by blast
  moreover have "cm_commandId ?r = 1" by (simp add: queuedRecord_def)
  ultimately show ?thesis using book(2) answer by blast
qed








text \<open>C29: Power control, a fixed level is reached.  Once the policy of a node is set to a fixed level,
  whatever reports, losses and restarts follow, two acknowledged reports bring the node to that level,
  capped by its ceiling (one, unless it is in a fallback that the controller has not seen); from then on the
  acknowledgements ask for no other.\<close>

theorem fixed_policy_converges:
  assumes "c \<le> 31" and "l \<le> 31" and "validNode n" and "policyOf n = Some (c, fixedPolicy l)"
    and "pn_level pn \<le> c" and "pn_fallback pn \<longrightarrow> pn_level pn = c"
    and "(power_step c policyOf n)\<^sup>*\<^sup>* (pn, policyChanged n (fixedPolicy l) c pw) (pn1, pw1)"
    and "reportsPower n pn1 record1" and "pn2 = nodeHeard c (nodeTarget pw1 n pn1) pn1"
    and "pw2 = powerObserve policyOf record1 pw1"
    and "reportsPower n pn2 record2" and "pn3 = nodeHeard c (nodeTarget pw2 n pn2) pn2"
    and "pw3 = powerObserve policyOf record2 pw2"
  shows "pn_level pn3 = minLevel l c \<and> nodeTarget pw3 n pn3 = None \<and>
    (\<not> pn_fallback pn1 \<or> pw_fallbackObserved pw1 n \<longrightarrow> pn_level pn2 = minLevel l c)"
proof -
  let ?w = "minLevel l c"
  have w: "?w \<le> c" "?w \<le> 31" using assms(1,2) by (auto simp: minLevel_def)
  have "unat (l + 1) = unat l + 1" using assms(2) by (simp add: word_le_nat_alt unat_word_ariths)
  then have "l + 1 \<noteq> 0" by auto
  then have p: "isFixedPolicy (fixedPolicy l)" "fixedLevel (fixedPolicy l) = l"
    by (simp_all add: isFixedPolicy_def fixedPolicy_def fixedLevel_def)
  have "x \<le> 31 \<Longrightarrow> x \<noteq> kNoLevel" for x :: u8 by auto
  then have "?w \<noteq> kNoLevel" using w(2) by blast
  then have f0: "fixedWanted c ?w n pn (policyChanged n (fixedPolicy l) c pw)"
    using p w(1) assms(3,5,6) by (auto simp: fixedWanted_def policyChanged_def changePolicy_def publish_def)
  note steps = fixedWanted_steps [where policyOf = policyOf, OF assms(1-4)]
  have f1: "fixedWanted c ?w n pn1 pw1" using steps [OF assms(7)] f0 by simp
  have "power_step c policyOf n (pn1, pw1) (pn2, pw2)" unfolding assms(9,10) by (rule power_step.acknowledged [OF assms(8)])
  from steps [OF r_into_rtranclp [where r = "power_step c policyOf n", OF this]] f1
  have f2: "fixedWanted c ?w n pn2 pw2" by simp
  have "power_step c policyOf n (pn2, pw2) (pn3, pw3)" unfolding assms(12,13) by (rule power_step.acknowledged [OF assms(11)])
  from steps [OF r_into_rtranclp [where r = "power_step c policyOf n", OF this]] f2
  have f3: "fixedWanted c ?w n pn3 pw3" by simp
  have "pn_level pn1 \<le> 31" using f1 assms(1) by (auto simp: fixedWanted_def)
  from powerObserve_fields(4) [where policyOf = policyOf, OF assms(3,4,8) this assms(1) assms(10) [symmetric]]
  have "pw_fallbackObserved pw2 n = pn_fallback pn1" .
  moreover have "pn_fallback pn2 \<Longrightarrow> pn_fallback pn1"
    by (cases "nodeTarget pw1 n pn1") (auto simp: assms(9) nodeHeard_def decidedPower_def afterAcknowledged_def Let_def split: if_splits)
  ultimately have level: "pn_level pn3 = ?w"
    unfolding assms(12) by (intro fixedWanted_heard [OF f2 assms(1,3)]) auto
  moreover have "nodeTarget pw3 n pn3 = None"
    using f3 level w(2) radioState_level [of "pn_level pn3" "pn_fallback pn3"]
    by (simp add: nodeTarget_def powerTarget_def fixedWanted_def)
  moreover have "pn_level pn2 = ?w" if "\<not> pn_fallback pn1 \<or> pw_fallbackObserved pw1 n"
    unfolding assms(9) by (rule fixedWanted_heard [OF f1 assms(1,3) that])
  ultimately show ?thesis by blast
qed

text \<open>A node whose reports say its state, at full power in fallback after the gateway had last heard it at
  level 12.\<close>

definition powerRecord :: "power_node \<Rightarrow> TelemetryRecord" where
  "powerRecord pn = \<lparr>tr_nodeId = 5, tr_profileId = 1, tr_data = prefixImage (samplePrefix\<lparr>tp_radioState :=
       encodeRadioState (pn_level pn) (pn_fallback pn)\<rparr>), tr_size = 5, tr_rssi = - 60, tr_receivedAtUnixMs = 0,
     tr_sequence = 0\<rparr>"

lemma powerRecord_reports: "reportsPower 5 pn (powerRecord pn)"
proof -
  let ?p = "samplePrefix\<lparr>tp_radioState := encodeRadioState (pn_level pn) (pn_fallback pn)\<rparr>"
  have "prefixOk ?p" by (simp add: prefixOk_def encodeRadioState_ok)
  then have "decodeTelemetry (Some (prefixImage ?p @ [])) = Inr \<lparr>tv_supplyMillivolts = 3000,
      tv_radioState = encodeRadioState (pn_level pn) (pn_fallback pn), tv_downlinkRssi = 200, tv_profilePayload = []\<rparr>"
    by (subst decodeTelemetry_image) (simp_all add: samplePrefix_def)
  moreover have "recordPayload (powerRecord pn) = prefixImage ?p"
    by (simp add: recordPayload_def powerRecord_def prefixImage_def)
  ultimately show ?thesis by (simp add: reportsPower_def) (simp add: powerRecord_def)
qed




theorem fixed_policy_converges_witness:
  "pn_level (nodeHeard 31 (nodeTarget (policyChanged 5 (fixedPolicy 20) 31 newPowerService) 5 (nodeRestarted 31))
     (nodeRestarted 31)) = 20"
proof -
  let ?policyOf = "\<lambda>_. Some (31 :: u8, fixedPolicy 20)" and ?pw = "policyChanged 5 (fixedPolicy 20) 31 newPowerService"
  have "minLevel 20 31 = 20" by (simp add: minLevel_def)
  with fixed_policy_converges [where policyOf = ?policyOf and pn = "nodeRestarted 31" and pw = newPowerService and n = 5
      and c = 31 and l = 20, OF _ _ _ _ _ _ rtranclp.rtrancl_refl powerRecord_reports refl refl powerRecord_reports refl refl]
  show ?thesis by (simp add: validNode_def nodeRestarted_def)
qed



text \<open>C32: API tokens, equivalence.  A bearer token is accepted for the required scopes exactly when it
  is the unpadded base64url text of 32 bytes whose SHA-256 is the hash of an enabled stored token with
  all these scopes: no other text of 43 characters decodes to the same secret.\<close>

theorem bearer_token_exact:
  assumes "\<And>x h. sha256 x = Some h \<Longrightarrow> length h = kTokenHashSize"
    and "list_all (\<lambda>t. length (tk_tokenHash t) = kTokenHashSize) (au_tokens data)"
  shows "authorizeBearer sha256 data token scopes \<longleftrightarrow>
    (\<exists>raw h t. length raw = 32 \<and> token = Some (encodeBase64Url raw) \<and> sha256 raw = Some h \<and>
       t \<in> set (take (unat (au_tokenCount data)) (au_tokens data)) \<and>
       tk_tokenHash t = h \<and> tk_enabled t \<and> tk_scopes t AND scopes = scopes)"
proof -
  have eq: "constantTimeEqual h (tk_tokenHash t) kTokenHashSize \<longleftrightarrow> tk_tokenHash t = h"
    if "sha256 x = Some h" "t \<in> set (take (unat (au_tokenCount data)) (au_tokens data))" for x h t
    using assms(1) [OF that(1)] assms(2) set_take_subset [THEN subsetD, OF that(2)]
    by (auto simp: constantTimeEqual_iff list_all_iff)
  have "authorizeBearer sha256 data token scopes \<longleftrightarrow>
    (\<exists>raw h t. decodeApiToken token = Some raw \<and> sha256 raw = Some h \<and>
       t \<in> set (take (unat (au_tokenCount data)) (au_tokens data)) \<and>
       constantTimeEqual h (tk_tokenHash t) kTokenHashSize \<and> tk_enabled t \<and> tk_scopes t AND scopes = scopes)"
    by (auto simp: authorizeBearer_def authorizeBearer_fold split: option.splits)
  also have "\<dots> \<longleftrightarrow> (\<exists>raw h t. decodeApiToken token = Some raw \<and> sha256 raw = Some h \<and>
       t \<in> set (take (unat (au_tokenCount data)) (au_tokens data)) \<and>
       tk_tokenHash t = h \<and> tk_enabled t \<and> tk_scopes t AND scopes = scopes)"
    using eq by metis
  finally show ?thesis by (simp only: decodeApiToken_iff conj_assoc)
qed

definition benchUser :: UserRecord where
  "benchUser = blankUser\<lparr>us_id := 7, us_usernameLength := 2, us_username := put (zeros kUsernameSize) 0 [0x61, 0x62],
     us_role := Admin, us_enabled := True, us_hashAlgorithm := Pbkdf2HmacSha256, us_pbkdf2Iterations := 25000,
     us_salt := replicate kPasswordSaltSize 3, us_passwordHash := take 32 (replicate 8 0x70 @ replicate 24 3)\<rparr>"

definition benchToken :: ApiTokenRecord where
  "benchToken = blankToken\<lparr>tk_id := 1, tk_enabled := True, tk_scopes := 1, tk_tokenHash := replicate kTokenHashSize 9\<rparr>"

definition benchAccounts :: AuthenticationData where
  "benchAccounts = defaultAuthentication\<lparr>au_userCount := 1, au_users := [benchUser, blankUser, blankUser, blankUser],
     au_tokenCount := 1, au_tokens := benchToken # replicate 7 blankToken\<rparr>"








definition benchSha256 :: "bytes \<Rightarrow> bytes option" where
  "benchSha256 x = (if length x = 32 then Some x else None)"

theorem bearer_token_exact_witness:
  "authorizeBearer benchSha256 benchAccounts (Some (encodeBase64Url (replicate 32 9))) 1 \<and>
   \<not> authorizeBearer benchSha256 benchAccounts None 1"
proof -
  have h: "benchSha256 x = Some h \<Longrightarrow> length h = kTokenHashSize" for x h
    by (simp add: benchSha256_def split: if_splits)
  have t: "list_all (\<lambda>t. length (tk_tokenHash t) = kTokenHashSize) (au_tokens benchAccounts)"
    by (auto simp: benchAccounts_def benchToken_def blankToken_def list_all_iff)
  have "benchToken \<in> set (take (unat (au_tokenCount benchAccounts)) (au_tokens benchAccounts))"
    by (simp add: benchAccounts_def)
  then have "\<exists>raw h t. length raw = 32 \<and> Some (encodeBase64Url (replicate 32 9)) = Some (encodeBase64Url raw) \<and>
      benchSha256 raw = Some h \<and> t \<in> set (take (unat (au_tokenCount benchAccounts)) (au_tokens benchAccounts)) \<and>
      tk_tokenHash t = h \<and> tk_enabled t \<and> tk_scopes t AND 1 = 1"
    by (intro exI [of _ "replicate 32 9"] exI [of _ benchToken]) (auto simp: benchSha256_def benchToken_def)
  then have "authorizeBearer benchSha256 benchAccounts (Some (encodeBase64Url (replicate 32 9))) 1"
    by (subst bearer_token_exact [OF _ t]) (use h in auto)
  then show ?thesis by (simp add: authorizeBearer_def decodeApiToken_def)
qed

text \<open>C33: Installation secrets, safety.  In every configuration that can arise (a successful start and any
  sequence of saves, whatever the flash does), while any node is active no save changes the installation
  key, its presence or the network id; a save that answers Ok leaves the new value in memory and in flash,
  where the next start loads it, and any other answer leaves memory as it was; the network id is never zero,
  and the settings, accounts and secrets in memory are valid and are those of their stores.\<close>

theorem installation_key_locked:
  fixes registry :: "'s registry_service" and cf :: "'s configuration"
  assumes P: "slot_storage ops" and run: "config_run ops cf"
    and save: "saveSecrets ops guarded registry v cf = (cf', result)"
  shows "(hasActiveNodes registry \<longrightarrow>
      is_installationKey (cf_secrets cf') = is_installationKey (cf_secrets cf) \<and>
      is_installationKeyPresent (cf_secrets cf') = is_installationKeyPresent (cf_secrets cf) \<and>
      is_operationalNetworkId (cf_secrets cf') = is_operationalNetworkId (cf_secrets cf)) \<and>
    (if result = SS_Ok then cf_secrets cf' = v \<and> (\<exists>st. storeLoad ops secretsCodec (cf_secretFlash cf') = (st, v, Loaded))
     else cf_secrets cf' = cf_secrets cf) \<and>
    is_operationalNetworkId (cf_secrets cf') \<noteq> 0 \<and> configOk ops cf'"
proof -
  have ok: "configOk ops cf" by (rule config_run_ok [OF run P])
  have ok': "configOk ops cf'" by (rule config_run_ok [OF config_run.secrets [OF run] P]) (rule save)
  then have "is_operationalNetworkId (cf_secrets cf') \<noteq> 0"
    by (auto simp: configOk_def heldBy_def validateSecrets_def split: if_splits)
  with ok' saveSecrets_cases [OF ok save] show ?thesis
  proof (elim disjE conjE exE)
    fix st s c
    assume w: "saveLocked ops secretsCodec (cf_secretStore cf) (cf_secretFlash cf) (cf_secrets cf) v = (st, s, c, result)"
      and cf': "cf' = cf\<lparr>cf_secretStore := st, cf_secretFlash := s, cf_secrets := c\<rparr>"
      and l: "\<not> (radioProfileChanged v (cf_secrets cf) \<and> hasActiveNodes registry)"
    have h: "heldBy ops secretsCodec (\<lambda>v. validateSecrets v = None) (cf_secretStore cf) (cf_secretFlash cf) (cf_secrets cf)"
      using ok by (simp add: configOk_def)
    from secret_values.save_held [OF P h w] l ok' \<open>is_operationalNetworkId (cf_secrets cf') \<noteq> 0\<close>
    show ?thesis by (auto simp: cf' radioProfileChanged_def)
  qed auto
qed

definition offConfiguration :: "flash configuration" where
  "offConfiguration = \<lparr>cf_mutex = False, cf_initialized = False, cf_settingsFlash = blankFlash, cf_authFlash = blankFlash,
     cf_secretFlash = blankFlash, cf_settingsStore = blankStore settingsCodec, cf_authStore = blankStore authenticationCodec,
     cf_secretStore = blankStore secretsCodec, cf_settings = defaultSettings, cf_authentication = defaultAuthentication,
     cf_secrets = defaultSecrets\<rparr>"

lemma blankFlash_empty: "storeLoad (nvsSlots flashNvs) C blankFlash = (blankStore C, sc_DefaultValue C, Empty)"
  by (simp add: storeLoad_def newestSlot_simps slotValue_def nvsSlots_def nvsRead_def nvsExists_def flashNvs_def
      blankFlash_def blankStore_def)

lemma secrets_saved:
  assumes "secretsShaped v" "validateSecrets v = None"
  shows "\<exists>st s. storeSave (nvsSlots flashNvs) secretsCodec (blankStore secretsCodec) blankFlash v = (st, s, True)"
proof -
  have d: "dual_slot_store (nvsSlots flashNvs) secretsCodec secretsShaped"
    using nvs_contract_slots [OF flash.nvs_contract_axioms] secrets.snapshot_codec_axioms by (simp add: dual_slot_store_def)
  have "\<exists>d. encodeSecrets v 1 (Some (zeros 67)) = Inr d"
    using encodeSecrets_bytes [OF assms, of "zeros 67" 1] by simp
  then obtain d1 where d1: "encodeSecrets v 1 (Some (zeros 67)) = Inr d1" by blast
  have "\<exists>s. so_write (nvsSlots flashNvs) blankFlash (targetSlot None) d1 = (s, True)"
    by (simp add: nvsSlots_def nvsWrite_def flashNvs_def blankFlash_def targetSlot_def)
  then show ?thesis
    using dual_slot_store.save_succeeds [OF d assms(1), of "blankStore secretsCodec" d1] d1
    by (auto simp: blankStore_def secretsCodec_def)
qed

lemma offConfiguration_begins:
  "\<exists>cf. configBegin (nvsSlots flashNvs) True True (replicate 32 9) (\<lambda>_. 5) offConfiguration = Some (cf, True)"
proof -
  have r: "drawNetworkId (\<lambda>_. 5) 0 = Some 5" by (subst drawNetworkId.simps) simp
  have v: "validateSecrets (defaultSecrets\<lparr>is_deviceSecretPresent := True, is_deviceSecret := replicate 32 9,
      is_operationalNetworkId := 5\<rparr>) = None" by (rule bootstrapped_valid) simp
  obtain st s where "storeSave (nvsSlots flashNvs) secretsCodec (blankStore secretsCodec) blankFlash
      (defaultSecrets\<lparr>is_deviceSecretPresent := True, is_deviceSecret := replicate 32 9,
      is_operationalNetworkId := 5\<rparr>) = (st, s, True)"
    using secrets_saved [OF _ v] by (auto simp: secretsShaped_def defaultSecrets_def)
  then show ?thesis
    by (simp add: configBegin_def bootstrapSecrets_def offConfiguration_def blankFlash_empty r)
qed

theorem installation_key_locked_witness:
  "\<exists>cf cf' result. config_run (nvsSlots flashNvs) (cf :: flash configuration) \<and>
     saveSecrets (nvsSlots flashNvs) True activeService (sampleSecrets\<lparr>is_operationalNetworkId := 77\<rparr>) cf = (cf', result) \<and>
     hasActiveNodes activeService \<and>
     is_operationalNetworkId (cf_secrets cf') = is_operationalNetworkId (cf_secrets cf)"
proof -
  obtain cf where run: "config_run (nvsSlots flashNvs) (cf :: flash configuration)"
    using offConfiguration_begins config_run.started by blast
  obtain cf' result where s: "saveSecrets (nvsSlots flashNvs) True activeService
      (sampleSecrets\<lparr>is_operationalNetworkId := 77\<rparr>) cf = (cf', result)" by fastforce
  have a: "hasActiveNodes activeService" by code_simp
  from installation_key_locked [OF nvs_contract_slots [OF flash.nvs_contract_axioms] run s] a
  show ?thesis using run s by blast
qed

text \<open>C34: Restore of a backup, safety.  Whatever calls of the flash library fail, and wherever the power
  fails, during a restore: the flash is untouched, or the gateway is blocked; when the restore reports
  success the five stores hold exactly the encoded backup and the administrator, and decode to them.  A
  start that follows comes up unblocked only over the untouched flash or the complete backup, never over a
  part of it.\<close>

theorem interrupted_restore_stays_blocked:
  assumes N: "nvs_flash api held" and sh: "snapshotShaped snapshot admin"
    and idle: "held w kControl kMarker \<in> {None, Some (NvsU8 kIdle)}"
    and r: "backupRestore api taken cf registry setupOpen pairing updating allocated readback now snapshot admin w rc =
      (w', rc', ok)"
    and b: "recoveryBegin api mutexMade w' newRecovery = (w'', rc'')"
  shows "(if ok then installedBackup (held w') snapshot admin \<and> blocked rc' else held w' = held w \<or> blocked rc') \<and>
    (\<not> blocked rc'' \<longrightarrow> held w'' = held w \<or> installedBackup (held w'') snapshot admin)"
proof -
  note after = nvs_flash.backupRestore_held [OF N r sh] and boot = nvs_flash.recoveryBegin_held [OF N b]
  show ?thesis
  proof (cases "held w' = held w \<and> \<not> ok")
    case True
    then show ?thesis using boot idle by auto
  next
    case False
    then show ?thesis using after boot by auto
  qed
qed

text \<open>C35: Factory reset, safety.  A factory reset itself changes nothing but the control marker.  After
  one that has been recorded, and after any number of starts, each of which may fail or lose power
  anywhere, a start that comes up unblocked finds the five stores of the installation empty.\<close>

theorem factory_reset_finishes_before_running:
  assumes N: "nvs_flash api held" and idle: "held w kControl kMarker \<in> {None, Some (NvsU8 kIdle)}"
    and r: "requestFactoryReset api taken busy w rc = (w', rc', restart)"
    and b: "recoveryBegin api mutexMade (afterBoots api boots w') newRecovery = (w'', rc'')"
    and run: "\<not> blocked rc''"
  shows "(\<forall>s. s \<noteq> kControl \<longrightarrow> held w' s = held w s) \<and> (restart \<longrightarrow> (\<forall>s \<in> set kStores. held w'' s = Map.empty))"
proof -
  obtain w1 k1 where w1: "writeMarker api kResetRequested w = (w1, k1)" by fastforce
  note m = nvs_flash.writeMarker_held [OF N w1]
  have "\<forall>s. s \<noteq> kControl \<longrightarrow> held w' s = held w s"
    using r m(1) by (auto simp: requestFactoryReset_def w1 split: if_splits)
  moreover have "\<forall>s \<in> set kStores. held w'' s = Map.empty" if restart
  proof -
    have "held w' kControl kMarker = Some (NvsU8 kResetRequested)"
      using r m(2) that by (auto simp: requestFactoryReset_def w1 split: if_splits)
    then have "resetDue (held (afterBoots api boots w'))"
      by (intro nvs_flash.resetDue_boots [OF N]) (simp add: resetDue_def)
    then show ?thesis by (rule nvs_flash.resetDue_boot(2) [OF N b _ run])
  qed
  ultimately show ?thesis by blast
qed

definition sampleBackup :: Snapshot where
  "sampleBackup = \<lparr>bk_settings = defaultSettings,
     bk_secrets = sampleSecrets\<lparr>is_installationKeyPresent := True, is_deviceSecretPresent := True\<rparr>,
     bk_nodes = registryOf [], bk_createdAt = 0\<rparr>"

definition idleRecovery :: recovery where
  "idleRecovery = newRecovery\<lparr>rc_mutex := True, rc_state := kIdle\<rparr>"

definition usedCells :: limited_nvs where
  "usedCells = \<lparr>ln_cells = (\<lambda>_. Map.empty)(''node-reg'' := [''registry_a'' \<mapsto> NvsBlob [1]]), ln_calls = 60\<rparr>"

theorem interrupted_restore_stays_blocked_witness:
  "\<exists>w' rc' ok w'' rc''. backupRestore limitedNvs True (offConfiguration\<lparr>cf_initialized := True\<rparr>) idleService True False
      False True (\<lambda>_. True) 0 sampleBackup defaultAuthentication usedCells idleRecovery = (w', rc', ok) \<and>
    recoveryBegin limitedNvs True w' newRecovery = (w'', rc'') \<and>
    (blocked rc'' \<or> ln_cells w'' = ln_cells usedCells \<or> installedBackup (ln_cells w'') sampleBackup defaultAuthentication)"
proof -
  obtain w' rc' ok where r: "backupRestore limitedNvs True (offConfiguration\<lparr>cf_initialized := True\<rparr>) idleService True False
      False True (\<lambda>_. True) 0 sampleBackup defaultAuthentication usedCells idleRecovery = (w', rc', ok)"
    by (metis prod_cases3)
  obtain w'' rc'' where b: "recoveryBegin limitedNvs True w' newRecovery = (w'', rc'')" by fastforce
  have sh: "snapshotShaped sampleBackup defaultAuthentication"
    using defaults_valid authOk_default
    by (auto simp: snapshotShaped_def sampleBackup_def authOk_def secretsShaped_def recordsOk_def intro: exI [of _ "[]"])
  have idle: "ln_cells usedCells kControl kMarker \<in> {None, Some (NvsU8 kIdle)}" by (simp add: usedCells_def)
  from interrupted_restore_stays_blocked [OF limited.nvs_flash_axioms sh idle r b]
  show ?thesis using r b by blast
qed

theorem factory_reset_finishes_before_running_witness:
  "\<exists>w' rc' w'' rc''. requestFactoryReset limitedNvs True False usedCells idleRecovery = (w', rc', True) \<and>
     recoveryBegin limitedNvs True (afterBoots limitedNvs [False] w') newRecovery = (w'', rc'') \<and> \<not> blocked rc'' \<and>
     ln_cells w'' ''node-reg'' = Map.empty"
proof -
  obtain w' rc' restart where r: "requestFactoryReset limitedNvs True False usedCells idleRecovery = (w', rc', restart)"
    by (metis prod_cases3)
  have restart
  proof -
    have "snd (snd (requestFactoryReset limitedNvs True False usedCells idleRecovery))" by code_simp
    then show ?thesis by (simp add: r)
  qed
  obtain w'' rc'' where b: "recoveryBegin limitedNvs True (afterBoots limitedNvs [False] w') newRecovery = (w'', rc'')"
    by fastforce
  have "rc_state (snd (recoveryBegin limitedNvs True (afterBoots limitedNvs [False]
      (fst (requestFactoryReset limitedNvs True False usedCells idleRecovery))) newRecovery)) = kIdle" by code_simp
  then have run: "\<not> blocked rc''" using r b by (simp add: blocked_def)
  have idle: "ln_cells usedCells kControl kMarker \<in> {None, Some (NvsU8 kIdle)}" by (simp add: usedCells_def)
  from factory_reset_finishes_before_running [OF limited.nvs_flash_axioms idle r b run] \<open>restart\<close>
  have "ln_cells w'' ''node-reg'' = Map.empty" by (simp add: kStores_def)
  then show ?thesis using r b run \<open>restart\<close> by (intro exI conjI) simp_all
qed

text \<open>C36: Releases, safety.  A signed manifest is accepted only if it is a line, a line feed and the
  manifest, the line decodes to a signature that verifies under the built-in key over the hash of exactly
  the manifest's bytes, and the release in it has a version in canonical decimal text that is strictly newer
  than the running one, and images with file names that need no escaping and cannot leave their directory,
  positive sizes and a 32-byte hash.\<close>

theorem release_only_signed_and_newer:
  assumes "readSigned J deserialize sha256 verify base64 input board currentVersion = Inr release"
  shows "\<exists>line manifest signature hash current.
    input = Some (line @ 0x0A # manifest) \<and> 0x0A \<notin> set line \<and> base64 kMaxSignatureSize line = Some signature \<and>
    sha256 manifest = Some hash \<and> verify hash signature \<and> currentVersion = Some (versionText current) \<and>
    rl_versionText release = versionText (rl_version release) \<and>
    versionRank current < versionRank (rl_version release) \<and>
    imageOk (rl_firmware release) \<and> imageOk (rl_ui release)"
proof -
  obtain line manifest signature hash where m: "input = Some (line @ 0x0A # manifest)" "0x0A \<notin> set line"
      "base64 kMaxSignatureSize line = Some signature" "sha256 manifest = Some hash" "verify hash signature"
      "parseManifest J deserialize (Some manifest) board currentVersion = Inr release"
    using readSigned_accepts [OF assms] by (elim exE conjE) (rule that; assumption)
  from parseManifest_accepts [OF m(6)] obtain current where c: "currentVersion = Some (versionText current)"
      "compareVersions (rl_version release) current > 0" by blast
  then have "versionRank current < versionRank (rl_version release)" by (simp add: compareVersions_greater)
  with m c parseManifest_accepts [OF m(6)] show ?thesis
    by (intro exI [of _ line] exI [of _ manifest] exI [of _ signature] exI [of _ hash] exI [of _ current] conjI) simp_all
qed

datatype bench_json = BenchObject "(string \<times> bench_json) list" | BenchText bytes | BenchNumber u32 | BenchNothing

fun benchMember :: "bench_json \<Rightarrow> string \<Rightarrow> bench_json" where
  "benchMember (BenchObject ms) name = (case map_of ms name of None \<Rightarrow> BenchNothing | Some v \<Rightarrow> v)"
| "benchMember _ name = BenchNothing"

definition benchJson :: "bench_json json_api" where
  "benchJson = \<lparr>js_isObject = (\<lambda>j. case j of BenchObject _ \<Rightarrow> True | _ \<Rightarrow> False), js_isNull = (\<lambda>j. j = BenchNothing),
     js_member = benchMember, js_boardMember = (\<lambda>j b. benchMember j (if b = [0x70] then ''p4'' else ''none'')),
     js_asObject = id, js_members = (\<lambda>j. case j of BenchObject ms \<Rightarrow> length ms | _ \<Rightarrow> 0),
     js_isU8 = (\<lambda>j. case j of BenchNumber n \<Rightarrow> n \<le> 255 | _ \<Rightarrow> False),
     js_asU8 = (\<lambda>j. case j of BenchNumber n \<Rightarrow> ucast n | _ \<Rightarrow> 0),
     js_isU32 = (\<lambda>j. case j of BenchNumber n \<Rightarrow> True | _ \<Rightarrow> False),
     js_asU32 = (\<lambda>j. case j of BenchNumber n \<Rightarrow> n | _ \<Rightarrow> 0),
     js_asString = (\<lambda>j. case j of BenchText t \<Rightarrow> Some t | _ \<Rightarrow> None)\<rparr>"

definition benchRelease :: bench_json where
  "benchRelease = BenchObject [(''format'', BenchNumber 2), (''version'', BenchText [0x31, 0x2E, 0x31, 0x30, 0x2E, 0x30]),
     (''boards'', BenchObject [(''p4'', BenchObject
       [(''firmware'', BenchObject [(''file'', BenchText [0x66]), (''size'', BenchNumber 3),
          (''sha256'', BenchText (replicate 64 0x61))]),
        (''ui'', BenchObject [(''file'', BenchText [0x75]), (''size'', BenchNumber 19),
          (''image_size'', BenchNumber 4096), (''sha256'', BenchText (replicate 64 0x62))])])])]"

definition benchSigned :: "ReleaseStatus + Release" where
  "benchSigned = readSigned benchJson (\<lambda>_. Some benchRelease) (\<lambda>m. Some m) (\<lambda>h s. h = [0x7B, 0x7D] \<and> s = [5])
     (\<lambda>_ line. Some [5]) (Some [0x42, 0x0A, 0x7B, 0x7D]) (Some [0x70]) (Some [0x31, 0x2E, 0x39, 0x2E, 0x37])"

theorem release_only_signed_and_newer_witness:
  "\<exists>release. benchSigned = Inr release \<and> imageOk (rl_firmware release) \<and> imageOk (rl_ui release)"
proof -
  have "\<exists>release. benchSigned = Inr release"
  proof -
    have "case benchSigned of Inl _ \<Rightarrow> False | Inr _ \<Rightarrow> True" by code_simp
    then show ?thesis by (auto split: sum.splits)
  qed
  then obtain release where r: "benchSigned = Inr release" by blast
  from release_only_signed_and_newer [OF r [unfolded benchSigned_def]] r show ?thesis by blast
qed


text \<open>C38: Updates, an installation is all or nothing, over the same contract.  The task asks for the restart
  only when the image selected for the next boot has the size and the hash of the release's firmware and the
  Web UI partition holds, from its first byte to its last, a sequence with the size and the hash of the
  release's Web UI; otherwise it ends in the failed state and the image to boot is the one before.\<close>

theorem install_all_or_nothing:
  assumes "update_flash api (ux_fs X) boot staged web"
    and "installRelease api E X release w ui us = Some (w', ui', us', restart)"
  shows "if restart then us_state us' = UP_Restarting \<and>
      (\<exists>img. boot w' = Some img \<and> length img = unat (im_size (rl_firmware release)) \<and>
         ue_sha256 E img = im_sha256 (rl_firmware release)) \<and>
      (\<exists>img. length img = unat (im_imageSize (rl_ui release)) \<and> ue_sha256 E img = im_sha256 (rl_ui release) \<and>
         (\<forall>i < length img. web w' i = img ! i))
    else us_state us' = UP_Failed \<and> boot w' = boot w"
  by (rule update_flash.installRelease_flash [OF assms refl])

text \<open>The network of the bench answers the requests in turn, each with one body.\<close>

record bench_net =
  bn_queue :: "bytes list"
  bn_body :: bytes

definition benchNet :: "bench_net update_api" where
  "benchNet = \<lparr>ht_init = (\<lambda>url n. (n\<lparr>bn_queue := tl (bn_queue n), bn_body := hd (bn_queue n)\<rparr>, True)),
     ht_open = (\<lambda>n. (n, True)), ht_fetchHeaders = (\<lambda>n. (n, int (length (bn_body n)))), ht_statusCode = (\<lambda>n. 200),
     ht_flush = id, ht_redirect = (\<lambda>n. (n, False)), ht_close = id,
     ht_read = (\<lambda>k n. (n\<lparr>bn_body := drop k (bn_body n)\<rparr>, Some (take k (bn_body n)))),
     ht_complete = (\<lambda>n. bn_body n = []), ht_cleanup = id,
     up_begin = (\<lambda>n w. (w, False)), up_write = (\<lambda>bs w. (w, 0)), up_abort = id, up_finish = (\<lambda>w. (w, False)),
     pt_size = (\<lambda>w. None), pt_read = (\<lambda>off k w. (w, None)), pt_erase = (\<lambda>off k w. (w, False)),
     pt_write = (\<lambda>off bs w. (w, False))\<rparr>"

definition benchApi :: "bench_net flash_world update_api" where
  "benchApi = norFlash 1000 4096 benchNet"

definition benchFiles :: "(nat \<Rightarrow> u8, bench_json) fs_api" where
  "benchFiles = \<lparr>fs_begin = (\<lambda>f. (f, False)), fs_stop = id, fs_exists = (\<lambda>f name. False), fs_openSize = (\<lambda>f name. None),
     fs_parse = (\<lambda>f name. None)\<rparr>"

text \<open>The Web UI of the bench is an erased partition; the decompressor turns one byte into it.\<close>

definition benchImage :: bytes where
  "benchImage = replicate 4096 0xFF"

definition benchUi :: "(bench_net flash_world, nat, bench_json) ui_env" where
  "benchUi = \<lparr>ux_tinfl = (\<lambda>t input window position room. (t, 1, benchImage, 0)), ux_start = 0,
     ux_fs = norFiles benchFiles, ux_json = benchJson\<rparr>"

definition benchHash :: "bytes \<Rightarrow> bytes" where
  "benchHash bs = replicate 32 (if length bs = 3 then 0xAA else 0xBB)"

definition benchReader :: manifest_reader where
  "benchReader = readSigned benchJson (\<lambda>_. Some benchRelease) (\<lambda>m. Some m) (\<lambda>h s. h = [0x7B, 0x7D] \<and> s = [5]) (\<lambda>_ line. Some [5])"

definition benchUpdate :: update_env where
  "benchUpdate = \<lparr>ue_reader = benchReader, ue_bufferMade = True, ue_chunkMade = True, ue_sectorMade = True,
     ue_decompressorMade = True, ue_hasIp = True, ue_synchronized = True, ue_board = [0x70],
     ue_version = [0x31, 0x2E, 0x39, 0x2E, 0x37], ue_sha256 = benchHash, ue_now = 0\<rparr>"

definition benchWorld :: "bench_net flash_world" where
  "benchWorld = \<lparr>fl_net = \<lparr>bn_queue = [[0x42, 0x0A, 0x7B, 0x7D],
       [0x1F, 0x8B, 8, 0, 0, 0, 0, 0, 0, 3, 0, 1, 1, 1, 1, 1, 1, 1, 1], [0xE9, 1, 2]], bn_body = []\<rparr>,
     fl_boot = Some [0xE9], fl_staged = [], fl_web = (\<lambda>_. 0xFF)\<rparr>"

lemma benchSector:
  "writeSectors api 4096 \<lparr>uw_sector = zeros 4096, uw_fill = 0, uw_offset = 0, uw_hashed = h\<rparr> benchImage w =
     (case commitSector api \<lparr>uw_sector = benchImage, uw_fill = 4096, uw_offset = 0, uw_hashed = h\<rparr> w of
        (writer, w, ok) \<Rightarrow> if ok then writeSectors api 4096 writer [] w else Some (writer, w, False))"
  by (subst writeSectors.simps) (simp add: benchImage_def put_def split: prod.splits)

lemma benchCommit:
  assumes "fl_web w = (\<lambda>_. 0xFF)"
  shows "commitSector benchApi \<lparr>uw_sector = benchImage, uw_fill = 4096, uw_offset = 0, uw_hashed = h\<rparr> w =
    (\<lparr>uw_sector = benchImage, uw_fill = 0, uw_offset = 4096, uw_hashed = h\<rparr>, w, True)"
  using assms by (simp add: commitSector_def benchApi_def norFlash_def benchImage_def map_replicate_const del: upt.simps)

lemma benchDownload:
  assumes net: "fl_net w = \<lparr>bn_queue = body # rest, bn_body = []\<rparr>" and len: "body \<noteq> []" "length body \<le> maxSize" "length body \<le> 2048"
    and sink: "sink c body (w\<lparr>fl_net := \<lparr>bn_queue = rest, bn_body = []\<rparr>\<rparr>) = Some (c', w', True)"
    and left: "fl_net w' = \<lparr>bn_queue = rest, bn_body = []\<rparr>"
  shows "download benchApi True url maxSize sink c w = Some (c', w', None)"
proof -
  let ?w = "w\<lparr>fl_net := \<lparr>bn_queue = rest, bn_body = body\<rparr>\<rparr>"
  have "redirectLoop benchApi (Suc 5) 0 (- 1) ?w = (?w, 200, int (length body))"
    unfolding redirectLoop.simps by (simp add: benchApi_def norFlash_def benchNet_def onNet_def isRedirect_def)
  then have open': "redirectLoop benchApi 6 0 (- 1) ?w = (?w, 200, int (length body))" by simp
  have w': "w'\<lparr>fl_net := \<lparr>bn_queue = rest, bn_body = []\<rparr>\<rparr> = w'" using left by (cases w') simp
  have second: "readLoop benchApi sink maxSize n c' w' = Some (c', w', None)" for n
    using w' left by (subst readLoop.simps) (simp add: benchApi_def norFlash_def benchNet_def onNet_def)
  have "readLoop benchApi sink maxSize 0 c ?w = Some (c', w', None)"
    using len sink second by (subst readLoop.simps) (simp add: benchApi_def norFlash_def benchNet_def onNet_def)
  then show ?thesis using len net open' left
    by (simp add: download_def) (simp add: benchApi_def norFlash_def benchNet_def onNet_def)
qed

lemma benchInflate:
  assumes sink: "sink c benchImage w = Some (c', w', True)"
  shows "\<exists>g'. inflaterWrite (\<lambda>t input window position room. (t, 1, benchImage, 0)) sink
      \<lparr>gz_state = GZ_Header, gz_decompressor = 0, gz_window = zeros 4096, gz_position = 0, gz_output = 0, gz_header = [],
         gz_trailer = 0\<rparr> [0x1F, 0x8B, 8, 0, 0, 0, 0, 0, 0, 3, 0, 1, 1, 1, 1, 1, 1, 1, 1] c w = Some (g', c', w', True) \<and> inflaterFinish g'"
proof -
  have "benchImage \<noteq> []" by (simp add: benchImage_def)
  then show ?thesis using sink
    by (simp add: inflaterWrite.simps inflaterStep_def headerAccepted_def inflaterFinish_def inflaterAdvance_def Let_def)
qed

lemma benchInstallUi:
  assumes web: "fl_web w = (\<lambda>_. 0xFF)" and img: "im_imageSize (rl_ui r) = 4096" "im_size (rl_ui r) = 19"
    "im_sha256 (rl_ui r) = replicate 32 0xBB"
    and net: "fl_net w = \<lparr>bn_queue = [0x1F, 0x8B, 8, 0, 0, 0, 0, 0, 0, 3, 0, 1, 1, 1, 1, 1, 1, 1, 1] # rest, bn_body = []\<rparr>"
  shows "\<exists>us'. installUi benchApi benchUpdate benchUi r w newWebUi us =
    Some (w\<lparr>fl_net := \<lparr>bn_queue = rest, bn_body = []\<rparr>\<rparr>, newWebUi\<lparr>ui_state := UI_Updating\<rparr>, us', None)"
proof -
  let ?g = "\<lparr>gz_state = GZ_Header, gz_decompressor = 0, gz_window = zeros 4096, gz_position = 0, gz_output = 0,
      gz_header = [], gz_trailer = 0\<rparr> :: nat inflater"
  let ?w = "w\<lparr>fl_net := \<lparr>bn_queue = rest, bn_body = []\<rparr>\<rparr>"
  let ?u = "\<lparr>uw_sector = zeros 4096, uw_fill = 0, uw_offset = 0, uw_hashed = []\<rparr>"
  let ?u' = "\<lparr>uw_sector = benchImage, uw_fill = 0, uw_offset = 4096, uw_hashed = benchImage\<rparr>"
  have "writeSectors benchApi 4096 ?u' [] v = Some (?u', v, True)" for v by (subst writeSectors.simps) simp
  then have "writeUiImage benchApi 4096 ?u benchImage ?w = Some (?u', ?w, True)"
    using benchCommit [of ?w] web by (simp add: writeUiImage_def benchSector)
  from benchInflate [of "writeUiImage benchApi 4096" ?u ?w ?u' ?w, OF this] obtain g' where "inflaterFinish g'" and
    inflated: "inflaterWrite (ux_tinfl benchUi) (writeUiImage benchApi 4096) ?g
      [0x1F, 0x8B, 8, 0, 0, 0, 0, 0, 0, 3, 0, 1, 1, 1, 1, 1, 1, 1, 1] ?u ?w = Some (g', ?u', ?w, True)"
    by (auto simp: benchUi_def)
  have "download benchApi True (imageUrl r (rl_ui r)) 19 (receiveUi benchApi (ux_tinfl benchUi) 4096) (?g, ?u, us) w =
    Some ((g', ?u', advanceProgress (length ([0x1F, 0x8B, 8, 0, 0, 0, 0, 0, 0, 3, 0, 1, 1, 1, 1, 1, 1, 1, 1] :: bytes)) us), ?w, None)"
    by (rule benchDownload [OF net]) (simp_all add: receiveUi_def inflated)
  moreover have "pt_size benchApi w = Some 4096" "ue_chunkMade benchUpdate" "ue_sectorMade benchUpdate" "ue_decompressorMade benchUpdate"
    "ux_start benchUi = 0" "fs_stop (ux_fs benchUi) w = w" "ue_sha256 benchUpdate benchImage = replicate 32 0xBB"
    by (simp_all add: benchApi_def norFlash_def benchUpdate_def benchUi_def norFiles_def benchHash_def benchImage_def)
  ultimately show ?thesis using img \<open>inflaterFinish g'\<close>
    by (simp add: installUi_def Let_def inflaterBegin_def prepareForFilesystemUpdate_def newWebUi_def clearUiManifest_def)
qed

lemma benchInstallFirmware:
  assumes img: "im_size (rl_firmware r) = 3" "im_sha256 (rl_firmware r) = replicate 32 0xAA"
    and net: "fl_net w = \<lparr>bn_queue = [0xE9, 1, 2] # rest, bn_body = []\<rparr>"
  shows "\<exists>w' us'. installFirmware benchApi benchUpdate r w us = Some (w', us', None) \<and> fl_boot w' = Some [0xE9, 1, 2]"
proof -
  let ?w = "w\<lparr>fl_staged := []\<rparr>"
  have "download benchApi True (imageUrl r (rl_firmware r)) 3 (writeFirmware benchApi) (\<lparr>fw_hashed = [], fw_written = 0\<rparr>, us) ?w =
    Some ((\<lparr>fw_hashed = [0xE9, 1, 2], fw_written = 3\<rparr>, advanceProgress 3 us),
      w\<lparr>fl_staged := [0xE9, 1, 2], fl_net := \<lparr>bn_queue = rest, bn_body = []\<rparr>\<rparr>, None)"
    by (rule benchDownload [of ?w "[0xE9, 1, 2]" rest]) (use net in \<open>simp_all add: writeFirmware_def benchApi_def norFlash_def Let_def numeral_3_eq_3\<close>)
  then show ?thesis using img
    by (simp add: installFirmware_def Let_def) (simp add: benchApi_def norFlash_def benchUpdate_def benchHash_def)
qed

lemma benchAccepted:
  "\<exists>r. benchReader (Some [0x42, 0x0A, 0x7B, 0x7D]) (Some [0x70]) (Some [0x31, 0x2E, 0x39, 0x2E, 0x37]) = Inr r \<and>
     im_size (rl_firmware r) = 3 \<and> im_sha256 (rl_firmware r) = replicate 32 0xAA \<and>
     im_imageSize (rl_ui r) = 4096 \<and> im_size (rl_ui r) = 19 \<and> im_sha256 (rl_ui r) = replicate 32 0xBB"
proof -
  have "case benchReader (Some [0x42, 0x0A, 0x7B, 0x7D]) (Some [0x70]) (Some [0x31, 0x2E, 0x39, 0x2E, 0x37]) of
      Inl _ \<Rightarrow> False
    | Inr r \<Rightarrow> im_size (rl_firmware r) = 3 \<and> im_sha256 (rl_firmware r) = replicate 32 0xAA \<and>
        im_imageSize (rl_ui r) = 4096 \<and> im_size (rl_ui r) = 19 \<and> im_sha256 (rl_ui r) = replicate 32 0xBB" by code_simp
  then show ?thesis by (auto split: sum.splits)
qed

text \<open>A check that finds the release, and its installation.\<close>

definition benchChecked :: "bench_net flash_world" where
  "benchChecked = benchWorld\<lparr>fl_net := \<lparr>bn_queue = tl (bn_queue (fl_net benchWorld)), bn_body = []\<rparr>\<rparr>"

definition benchTarget :: "Release \<Rightarrow> bool" where
  "benchTarget r \<longleftrightarrow> im_size (rl_firmware r) = 3 \<and> im_sha256 (rl_firmware r) = replicate 32 0xAA \<and>
     im_imageSize (rl_ui r) = 4096 \<and> im_size (rl_ui r) = 19 \<and> im_sha256 (rl_ui r) = replicate 32 0xBB"

lemma benchCheck:
  "\<exists>r. benchTarget r \<and> checkRelease benchApi benchUpdate benchWorld us = Some (benchChecked,
      setUpdateState UP_Available '''' (us\<lparr>us_release := Some r, us_availableVersion := rl_versionText r\<rparr>))"
proof -
  obtain r where r: "benchReader (Some [0x42, 0x0A, 0x7B, 0x7D]) (Some [0x70]) (Some [0x31, 0x2E, 0x39, 0x2E, 0x37]) = Inr r"
      "benchTarget r" using benchAccepted by (auto simp: benchTarget_def)
  have fetched: "download benchApi True url kMaxSignedManifestSize appendToBuffer \<lparr>bf_capacity = kMaxSignedManifestSize, bf_data = []\<rparr>
      benchWorld = Some (\<lparr>bf_capacity = kMaxSignedManifestSize, bf_data = [0x42, 0x0A, 0x7B, 0x7D]\<rparr>, benchChecked, None)" for url
    by (rule benchDownload [of _ "[0x42, 0x0A, 0x7B, 0x7D]" "tl (bn_queue (fl_net benchWorld))"])
      (simp_all add: benchWorld_def benchChecked_def appendToBuffer_def)
  have "checkRelease benchApi benchUpdate benchWorld us = Some (benchChecked,
      setUpdateState UP_Available '''' (us\<lparr>us_release := Some r, us_availableVersion := rl_versionText r\<rparr>))"
    using r(1) by (simp add: checkRelease_def fetchManifest_def benchUpdate_def networkError_def fetched Let_def del: list.map)
  with r(2) show ?thesis by blast
qed

lemma benchInstall:
  assumes r: "benchTarget r"
  shows "\<exists>w' ui' us'. installRelease benchApi benchUpdate benchUi r benchChecked newWebUi us = Some (w', ui', us', True) \<and>
    fl_boot w' = Some [0xE9, 1, 2]"
proof -
  let ?us = "us\<lparr>us_progressDone := 0, us_progressTotal := unat (im_size (rl_ui r) + im_size (rl_firmware r))\<rparr>"
  let ?w = "benchChecked\<lparr>fl_net := \<lparr>bn_queue = [[0xE9, 1, 2]], bn_body = []\<rparr>\<rparr>"
  have w1: "fl_web benchChecked = (\<lambda>_. 0xFF)"
    "fl_net benchChecked = \<lparr>bn_queue = [0x1F, 0x8B, 8, 0, 0, 0, 0, 0, 0, 3, 0, 1, 1, 1, 1, 1, 1, 1, 1] # [[0xE9, 1, 2]],
      bn_body = []\<rparr>" by (simp_all add: benchChecked_def benchWorld_def)
  obtain us1 where u: "installUi benchApi benchUpdate benchUi r benchChecked newWebUi ?us =
      Some (?w, newWebUi\<lparr>ui_state := UI_Updating\<rparr>, us1, None)"
    using benchInstallUi [OF w1(1) _ _ _ w1(2)] r unfolding benchTarget_def by blast
  have "im_size (rl_firmware r) = 3" "im_sha256 (rl_firmware r) = replicate 32 0xAA" using r by (simp_all add: benchTarget_def)
  then obtain w2 us2 where f: "installFirmware benchApi benchUpdate r ?w us1 = Some (w2, us2, None)" "fl_boot w2 = Some [0xE9, 1, 2]"
    using benchInstallFirmware [of r ?w "[]" us1] by auto
  have net: "networkError (ue_hasIp benchUpdate) (ue_synchronized benchUpdate) = None"
    by (simp add: networkError_def benchUpdate_def)
  show ?thesis using f by (simp add: installRelease_def net Let_def u)
qed

theorem install_all_or_nothing_witness:
  "\<exists>r w' ui' us'. installRelease benchApi benchUpdate benchUi r benchChecked newWebUi newUpdateService = Some (w', ui', us', True) \<and>
    (\<exists>img. fl_boot w' = Some img \<and> length img = unat (im_size (rl_firmware r)) \<and> benchHash img = im_sha256 (rl_firmware r))"
proof -
  obtain r where r: "benchTarget r" using benchCheck by blast
  obtain w' ui' us' where i: "installRelease benchApi benchUpdate benchUi r benchChecked newWebUi newUpdateService = Some (w', ui', us', True)"
    using benchInstall [OF r] by blast
  have "ue_sha256 benchUpdate = benchHash" "ux_fs benchUi = norFiles benchFiles" by (simp_all add: benchUpdate_def benchUi_def)
  then show ?thesis
    using install_all_or_nothing [OF _ i, of fl_boot fl_staged fl_web] nor.update_flash_axioms [of 1000 4096 benchNet benchFiles] i
    unfolding benchApi_def by auto
qed



text \<open>C39: Backups, round trip.  A backup that has been encrypted is at most as large as the import accepts, and
  decrypts with the same password to the same settings, secrets, registry and time, for every valid
  installation (with no fixed level above what its node can use), over any JSON library that reads back what it wrote within its nesting limit and any cipher that decrypts
  what it encrypted.\<close>

theorem backup_roundtrip:
  assumes J: "json_library J nested" and C: "backup_cipher C"
    and e: "backupEncrypt J C snapshot password n random = Some f" and r: "28 \<le> length random"
    and shaped: "settingsShaped (bk_settings snapshot)" "secretsShaped (bk_secrets snapshot)" "registryOk (bk_nodes snapshot)"
    and power: "list_all policyWithin (registryRecords (bk_nodes snapshot))"
  shows "backupDecrypt J C True (Some f) password n = Some snapshot \<and> length f \<le> kMaxFile"
proof -
  have "backupDecrypt J C True (Some f) password n = Some snapshot"
    by (rule backup_library.backupDecrypt_encrypt [OF backup_library.intro [OF J C] e r shaped power])
  then show ?thesis using backupDecrypt_parts by blast
qed

text \<open>C40: Backups, what an import accepts, over any JSON library and any cipher whose decryption accepts only
  what it encrypts itself.  A file that decrypts is the header, ciphertext and tag of an encryption under the
  key derived from this password and the salt in the header, with the whole header authenticated; the
  installation in it has valid settings and secrets, a registry that satisfies the invariant of the operations,
  and levels its nodes can use; with any valid administrator a restore of it cannot fail while encoding; and
  the gateway id shown for it is the id of every gateway that has been restored from it.\<close>

theorem backup_accepted_restorable:
  assumes C: "backup_cipher C" and d: "backupDecrypt J C made (Some f) password n = Some snapshot"
  shows "(\<exists>key plain ciphertext tag.
      f = take kBackupHeaderSize f @ ciphertext @ tag \<and> take 8 f = kBackupPrefix \<and> length tag = kTagSize \<and>
      deriveKey C (take n (the password)) (chunk f kSaltOffset kSaltSize) = Some key \<and>
      bc_encrypt C key (chunk f kNonceOffset kNonceSize) (take kBackupHeaderSize f) plain = Some (ciphertext, tag) \<and>
      backupDecode J made (Some plain) = Some snapshot) \<and>
    validateSettings (bk_settings snapshot) = None \<and> validateSecrets (bk_secrets snapshot) = None \<and>
    registryOk (bk_nodes snapshot) \<and> list_all policyWithin (registryRecords (bk_nodes snapshot)) \<and>
    (authShaped admin \<and> validateAuthentication admin = None \<longrightarrow> backupEncodes snapshot admin (zeros kBackupBuffer) \<noteq> None) \<and>
    (configReady cf \<and> configSecrets cf = bk_secrets snapshot \<longrightarrow> createGatewayId sha256 cf mac = backupGatewayId sha256 snapshot)"
proof -
  obtain key plain where p: "deriveKey C (take n (the password)) (chunk f kSaltOffset kSaltSize) = Some key"
      "bc_decrypt C key (chunk f kNonceOffset kNonceSize) (take kBackupHeaderSize f) (drop (length f - kTagSize) f)
         (chunk f kBackupHeaderSize (length f - kBackupHeaderSize - kTagSize)) = Some plain"
      "backupDecode J made (Some plain) = Some snapshot" "take 8 f = kBackupPrefix" "kBackupHeaderSize + kTagSize < length f"
    using backupDecrypt_parts [OF d] by blast
  note v = backupDecode_valid [OF p(3)]
  have "f = take 44 f @ chunk f 44 (length f - 44 - 16) @ drop (length f - 16) f"
    using p(5) append_take_drop_id [of "length f - 60" "drop 44 f"] by (simp add: chunk_def)
  moreover have "length (drop (length f - 16) f) = 16" using p(5) by simp
  moreover note backup_cipher.decrypted [OF C p(2)]
  moreover have "createGatewayId sha256 cf mac = backupGatewayId sha256 snapshot"
    if "configReady cf" "configSecrets cf = bk_secrets snapshot"
    using that v(1) by (simp add: createGatewayId_def backupGatewayId_def encodeHex_def snapshotValid_iff Let_def)
  moreover have "authShaped admin \<and> validateAuthentication admin = None \<longrightarrow> backupEncodes snapshot admin (zeros kBackupBuffer) \<noteq> None"
    using backupEncodes_valid [OF v(1-4), of admin] by auto
  ultimately show ?thesis using p v(1,4,5) unfolding snapshotValid_iff by blast
qed

definition benchPassword :: bytes where
  "benchPassword = map of_char ''correct horse''"

definition benchBackup :: Snapshot where
  "benchBackup = sampleBackup\<lparr>bk_nodes := registryOf [activeNode], bk_createdAt := 7\<rparr>"

lemma benchBackup_ok:
  "settingsShaped (bk_settings benchBackup)" "secretsShaped (bk_secrets benchBackup)" "registryOk (bk_nodes benchBackup)"
  "list_all policyWithin (registryRecords (bk_nodes benchBackup))" "snapshotValid benchBackup"
proof -
  have "recordsOk [activeNode]" by code_simp
  moreover have "policyWithin activeNode" by code_simp
  moreover have "validateSecrets (sampleSecrets\<lparr>is_installationKeyPresent := True, is_deviceSecretPresent := True\<rparr>) = None"
    by (simp add: validateSecrets_def sampleSecrets_def defaultSecrets_def)
  ultimately show "settingsShaped (bk_settings benchBackup)" "secretsShaped (bk_secrets benchBackup)" "registryOk (bk_nodes benchBackup)"
    "list_all policyWithin (registryRecords (bk_nodes benchBackup))" "snapshotValid benchBackup"
    using defaults_valid
    by (auto simp: benchBackup_def sampleBackup_def secretsShaped_def sampleSecrets_def defaultSecrets_def snapshotValid_iff)
qed

lemma benchEncrypted:
  "\<exists>f. backupEncrypt compactJson plainCipher benchBackup (Some benchPassword) 13 (replicate 28 9) = Some f"
proof -
  obtain t where "backupEncode compactJson benchBackup = Some t"
  proof -
    have "case bj_serialize compactJson (bj_object compactJson
        [(''version'', bj_number compactJson kPayloadVersion), (''created_at_ms'', number compactJson (bk_createdAt benchBackup)),
         (''settings'', settingsDocument compactJson (bk_settings benchBackup)),
         (''network_id'', number compactJson (is_operationalNetworkId (bk_secrets benchBackup))),
         (''installation_key'', bj_text compactJson (hexText (is_installationKey (bk_secrets benchBackup)))),
         (''device_secret'', bj_text compactJson (hexText (is_deviceSecret (bk_secrets benchBackup)))),
         (''nodes'', bj_array compactJson (map (\<lambda>index. nodeDocument compactJson (reg_records (bk_nodes benchBackup) ! index))
            [0..<reg_count (bk_nodes benchBackup)]))]) of None \<Rightarrow> False | Some t \<Rightarrow> length t \<le> kMaxPayload" by code_simp
    then show ?thesis using benchBackup_ok(5) that
      by (auto simp: backupEncode_def split: option.splits)
  qed
  moreover have "validPassword (Some benchPassword) 13" by code_simp
  ultimately show ?thesis
    by (simp add: backupEncrypt_def Let_def deriveKey_def plainCipher_def)
qed

theorem backup_roundtrip_witness:
  "\<exists>f. backupEncrypt compactJson plainCipher benchBackup (Some benchPassword) 13 (replicate 28 9) = Some f \<and>
     backupDecrypt compactJson plainCipher True (Some f) (Some benchPassword) 13 = Some benchBackup"
proof -
  obtain f where f: "backupEncrypt compactJson plainCipher benchBackup (Some benchPassword) 13 (replicate 28 9) = Some f"
    using benchEncrypted by blast
  then show ?thesis
    using backup_roundtrip [OF compact.json_library_axioms compact.backup_cipher_axioms f] benchBackup_ok by auto
qed

theorem backup_accepted_restorable_witness:
  "\<exists>f. backupDecrypt compactJson plainCipher True (Some f) (Some benchPassword) 13 = Some benchBackup \<and>
     backupEncodes benchBackup defaultAuthentication (zeros kBackupBuffer) \<noteq> None"
proof -
  obtain f where f: "backupEncrypt compactJson plainCipher benchBackup (Some benchPassword) 13 (replicate 28 9) = Some f"
    using benchEncrypted by blast
  have d: "backupDecrypt compactJson plainCipher True (Some f) (Some benchPassword) 13 = Some benchBackup"
    by (rule compact.backupDecrypt_encrypt [OF f]) (use benchBackup_ok in simp_all)
  have "authShaped defaultAuthentication" "validateAuthentication defaultAuthentication = None"
    using authOk_default by (simp_all add: authOk_def)
  with backup_accepted_restorable [OF compact.backup_cipher_axioms d, of defaultAuthentication] d show ?thesis by blast
qed

end
